(* ===== verification/Knowledge_Prelude.thy ===== *)
theory Knowledge_Prelude
  imports Main "HOL-Library.Word" "HOL-Library.Multiset"
begin

text \<open>
  Shared vocabulary of the development: the machine types of the Rust sources, the arithmetic of
  the standard library the sources rely on (saturating addition and multiplication), results as
  sums, the environment a call reads from the host (hash iteration order, clock, floating point
  comparison), and the generic facts on lists, folds and maps that the component theories share.
\<close>

section \<open>Machine types\<close>

text \<open>
  A \<^verbatim>\<open>Uuid\<close> is its 128 bits; an \<^verbatim>\<open>f64\<close> is its 64-bit pattern (only
  equality of patterns and one comparison supplied by the host are ever used); a
  \<^verbatim>\<open>DateTime<Utc>\<close> is an integer instant. A \<^verbatim>\<open>u64\<close> or \<^verbatim>\<open>usize\<close> is a natural number
  with its bound written out where the source saturates.
\<close>

type_synonym uuid = "128 word"
type_synonym f64 = "64 word"
type_synonym instant = int
type_synonym byte = "8 word"

definition u64_max :: nat where
  "u64_max = 2 ^ 64 - 1"

definition sat_add :: "nat \<Rightarrow> nat \<Rightarrow> nat" where
  "sat_add a b = min (a + b) u64_max"

definition sat_mul :: "nat \<Rightarrow> nat \<Rightarrow> nat" where
  "sat_mul a b = min (a * b) u64_max"

text \<open>The default of \<^verbatim>\<open>entry(k).or_default()\<close> on a map into sets and into vectors.\<close>

definition or_empty_set :: "'a set option \<Rightarrow> 'a set" where
  "or_empty_set x = (case x of None \<Rightarrow> {} | Some s \<Rightarrow> s)"

definition or_empty_list :: "'a list option \<Rightarrow> 'a list" where
  "or_empty_list x = (case x of None \<Rightarrow> [] | Some s \<Rightarrow> s)"

text \<open>
  The host environment of one call. Iteration over a \<^verbatim>\<open>HashMap\<close> or \<^verbatim>\<open>HashSet\<close> happens in an
  order the standard library leaves open: \<open>h_keys\<close> and \<open>h_tags\<close> are that order. \<open>h_now\<close> is the
  wall clock as read when the operation with the given sequence number is stamped, and
  \<open>h_ratio_gt n d t\<close> is the floating point test \<^verbatim>\<open>n as f64 / d as f64 > t\<close>.
\<close>

record 't host =
  h_keys :: "'t set \<Rightarrow> 't list"
  h_tags :: "uuid set \<Rightarrow> uuid list"
  h_now :: "nat \<Rightarrow> instant"
  h_ratio_gt :: "nat \<Rightarrow> nat \<Rightarrow> f64 \<Rightarrow> bool"

text \<open>What hash iteration promises: every member exactly once.\<close>

definition host_ok :: "'t host \<Rightarrow> bool" where
  "host_ok h \<longleftrightarrow>
     (\<forall>S. finite S \<longrightarrow> set (h_keys h S) = S \<and> distinct (h_keys h S)) \<and>
     (\<forall>T. set (h_tags h T) = T \<and> distinct (h_tags h T))"

text \<open>A concrete host, for evaluation: ascending iteration order and a stopped clock.\<close>

definition sorted_host :: "'t::linorder host" where
  "sorted_host = \<lparr>h_keys = sorted_list_of_set, h_tags = sorted_list_of_set,
     h_now = (\<lambda>_. 0), h_ratio_gt = (\<lambda>_ _ _. False)\<rparr>"

text \<open>
  A serialisation codec (\<^verbatim>\<open>serde_json\<close> in the sources) is a pair of partial functions; what its
  users rely on is that it reads back what it wrote.
\<close>

definition codec_ok :: "('a \<Rightarrow> byte list option) \<Rightarrow> (byte list \<Rightarrow> 'a option) \<Rightarrow> bool" where
  "codec_ok to_vec from_slice \<longleftrightarrow> (\<forall>x b. to_vec x = Some b \<longrightarrow> from_slice b = Some x)"

text \<open>Little-endian bytes of a number; a UUID is stored most significant byte first.\<close>

fun le_bytes :: "nat \<Rightarrow> nat \<Rightarrow> byte list" where
  "le_bytes 0 x = []"
| "le_bytes (Suc n) x = of_nat (x mod 256) # le_bytes n (x div 256)"

fun le_value :: "byte list \<Rightarrow> nat" where
  "le_value [] = 0"
| "le_value (b # bs) = unat b + 256 * le_value bs"

definition uuid_bytes :: "uuid \<Rightarrow> byte list" where
  "uuid_bytes u = rev (le_bytes 16 (unat u))"

text \<open>\<^verbatim>\<open>to_ascii_lowercase\<close> of a byte of text.\<close>

definition ascii_lower :: "char \<Rightarrow> char" where
  "ascii_lower c =
     (let n = of_char c :: nat in if 65 \<le> n \<and> n \<le> 90 then char_of (n + 32) else c)"

section \<open>Named collections\<close>

named_theorems defs_sync \<open>definitions of the sync engine, unfolded together\<close>
named_theorems defs_perm \<open>definitions of the permission service, unfolded together\<close>
named_theorems defs_tenant \<open>definitions of the tenant service, unfolded together\<close>
named_theorems defs_audit \<open>definitions of the audit service, unfolded together\<close>

section \<open>Generic lemmas\<close>

lemma or_empty_set_simps [simp]: "or_empty_set None = {}" "or_empty_set (Some s) = s"
  by (simp_all add: or_empty_set_def)

lemma or_empty_list_simps [simp]: "or_empty_list None = []" "or_empty_list (Some s) = s"
  by (simp_all add: or_empty_list_def)

lemma sat_add_le [simp]: "sat_add a b \<le> u64_max"
  by (simp add: sat_add_def)

lemma sat_add_Suc_0 [simp]: "a < u64_max \<Longrightarrow> sat_add a (Suc 0) = Suc a"
  by (simp add: sat_add_def)

lemma sat_add_ge: "a \<le> u64_max \<Longrightarrow> a \<le> sat_add a b"
  by (simp add: sat_add_def)

lemma host_ok_keys [simp]: "host_ok h \<Longrightarrow> finite S \<Longrightarrow> set (h_keys h S) = S"
  unfolding host_ok_def by blast

lemma host_ok_keys_distinct [simp]: "host_ok h \<Longrightarrow> finite S \<Longrightarrow> distinct (h_keys h S)"
  unfolding host_ok_def by blast

lemma host_ok_tags [simp]: "host_ok h \<Longrightarrow> set (h_tags h T) = T"
  unfolding host_ok_def by blast

lemma host_ok_tags_distinct [simp]: "host_ok h \<Longrightarrow> distinct (h_tags h T)"
  unfolding host_ok_def by blast

lemma codec_okD: "codec_ok to_vec from_slice \<Longrightarrow> to_vec x = Some b \<Longrightarrow> from_slice b = Some x"
  by (simp add: codec_ok_def)

lemma sorted_host_ok [simp]: "host_ok sorted_host"
  by (simp add: host_ok_def sorted_host_def)

lemma sorted_host_sel [simp]:
  "h_keys sorted_host = sorted_list_of_set" "h_tags sorted_host = sorted_list_of_set"
  "h_now sorted_host = (\<lambda>_. 0)" "h_ratio_gt sorted_host = (\<lambda>_ _ _. False)"
  by (simp_all add: sorted_host_def)

lemma unat_of_char [simp]: "unat (of_char c :: byte) = of_char c"
proof -
  have "(of_char c :: byte) = of_nat (of_char c)" by (simp only: of_nat_of_char)
  then show ?thesis by (simp add: unat_of_nat)
qed

lemma length_le_bytes [simp]: "length (le_bytes n x) = n"
  by (induction n arbitrary: x) auto

lemma le_value_le_bytes: "le_value (le_bytes n x) = x mod 256 ^ n"
proof (induction n arbitrary: x)
  case (Suc n)
  have "unat (of_nat (x mod 256) :: byte) = x mod 256" by (simp add: unat_of_nat)
  then show ?case using Suc by (simp add: mod_mult2_eq)
qed simp

lemma length_uuid_bytes [simp]: "length (uuid_bytes u) = 16"
  by (simp add: uuid_bytes_def)

lemma le_value_uuid_bytes [simp]: "of_nat (le_value (rev (uuid_bytes u))) = u"
proof -
  have "unat u < 256 ^ 16" using unsigned_less [of u, where ?'a = nat] by simp
  then show ?thesis by (simp add: uuid_bytes_def le_value_le_bytes)
qed

lemma uuid_bytes_inject [simp]: "uuid_bytes u = uuid_bytes v \<longleftrightarrow> u = v"
  by (metis le_value_uuid_bytes)

text \<open>A fold of insertions is a union; a fold that only grows a list appends to it.\<close>

lemma fold_insert_union: "fold insert xs S = set xs \<union> S"
  by (induction xs arbitrary: S) auto

lemma distinct_map_fst_filter:
  "distinct (map fst xs) \<Longrightarrow> distinct (map fst (filter P xs))"
  by (induction xs) auto

lemma drop_min_length [simp]: "drop (min n (length xs)) xs = drop n xs"
  by (simp add: min_def)

lemma drop_length_append [simp]: "drop (length xs) (xs @ ys) = ys"
  by simp

text \<open>\<open>filter\<close> distributes over the multiset of a list split by a key set.\<close>

lemma find_append:
  "List.find p (xs @ ys) = (case List.find p xs of None \<Rightarrow> List.find p ys | Some x \<Rightarrow> Some x)"
  by (induction xs) auto

lemma mset_filter_split:
  "mset (filter P xs) + mset (filter (\<lambda>x. \<not> P x) xs) = mset xs"
  by (induction xs) auto

lemma mset_concat_map:
  "mset xs = mset ys \<Longrightarrow> mset (concat (map f xs)) = mset (concat (map f ys))"
proof -
  have "mset (concat (map f zs)) = \<Sum>\<^sub># (image_mset (\<lambda>x. mset (f x)) (mset zs))" for zs
    by (induction zs) auto
  then show "mset xs = mset ys \<Longrightarrow> ?thesis" by simp
qed

lemma mset_eq_of_set_distinct:
  "distinct xs \<Longrightarrow> distinct ys \<Longrightarrow> set xs = set ys \<Longrightarrow> mset xs = mset ys"
  by (simp add: set_eq_iff_mset_eq_distinct)

end
