(* ===== verification/Add_Wins_Set.thy ===== *)
theory Add_Wins_Set
  imports Knowledge_Prelude
begin

text \<open>
  The add-wins observed-remove set of \<^verbatim>\<open>crates/sync_engine/src/crdt.rs\<close>: its state, every
  operation, and the contract of a state-based replicated type (merge is a join) as a locale that
  is interpreted on the model. An element is present as long as one of its tags has not been
  tombstoned, so an add whose tag a concurrent remove has not observed survives every merge.
\<close>

section \<open>State and operations\<close>

record 't add_wins_set =
  aws_elements :: "'t \<rightharpoonup> uuid set"
  aws_tombstones :: "uuid set"

definition aws_new :: "'t add_wins_set" where
  "aws_new = \<lparr>aws_elements = Map.empty, aws_tombstones = {}\<rparr>"

definition aws_observed_len :: "'t add_wins_set \<Rightarrow> nat" where
  "aws_observed_len s = card (dom (aws_elements s))"

definition aws_add_with_tag :: "'t add_wins_set \<Rightarrow> 't \<Rightarrow> uuid \<Rightarrow> 't add_wins_set" where
  "aws_add_with_tag s value tag =
     s\<lparr>aws_elements := (aws_elements s)(value \<mapsto> insert tag (or_empty_set (aws_elements s value)))\<rparr>"

text \<open>\<open>add\<close> draws its tag from the UUID generator; the drawn tag is the last argument.\<close>

definition aws_add :: "'t add_wins_set \<Rightarrow> 't \<Rightarrow> uuid \<Rightarrow> uuid \<times> 't add_wins_set" where
  "aws_add s value tag = (tag, aws_add_with_tag s value tag)"

definition aws_tombstone :: "uuid \<Rightarrow> 't add_wins_set \<Rightarrow> 't add_wins_set" where
  "aws_tombstone tag s = s\<lparr>aws_tombstones := insert tag (aws_tombstones s)\<rparr>"

definition aws_remove :: "'t host \<Rightarrow> 't add_wins_set \<Rightarrow> 't \<Rightarrow> 't add_wins_set" where
  "aws_remove h s value =
     (case aws_elements s value of
        None \<Rightarrow> s
      | Some tags \<Rightarrow> fold aws_tombstone (h_tags h tags) s)"

definition aws_remove_tags :: "'t add_wins_set \<Rightarrow> 't \<Rightarrow> uuid list \<Rightarrow> 't add_wins_set" where
  "aws_remove_tags s value tags = fold aws_tombstone tags s"

definition aws_any_live :: "'t add_wins_set \<Rightarrow> uuid set \<Rightarrow> bool" where
  "aws_any_live s tags \<longleftrightarrow> (\<exists>tag \<in> tags. tag \<notin> aws_tombstones s)"

definition aws_contains :: "'t add_wins_set \<Rightarrow> 't \<Rightarrow> bool" where
  "aws_contains s value =
     (case aws_elements s value of None \<Rightarrow> False | Some tags \<Rightarrow> aws_any_live s tags)"

definition aws_iter :: "'t host \<Rightarrow> 't add_wins_set \<Rightarrow> ('t \<times> uuid set) list" where
  "aws_iter h s = map (\<lambda>v. (v, or_empty_set (aws_elements s v))) (h_keys h (dom (aws_elements s)))"

definition aws_elements_iter :: "'t host \<Rightarrow> 't add_wins_set \<Rightarrow> 't list" where
  "aws_elements_iter h s = map fst (filter (\<lambda>(_, tags). aws_any_live s tags) (aws_iter h s))"

definition aws_elements_count :: "'t host \<Rightarrow> 't add_wins_set \<Rightarrow> nat" where
  "aws_elements_count h s = length (filter (\<lambda>(_, tags). aws_any_live s tags) (aws_iter h s))"

definition aws_tags_for :: "'t host \<Rightarrow> 't add_wins_set \<Rightarrow> 't \<Rightarrow> uuid list" where
  "aws_tags_for h s value =
     (case aws_elements s value of None \<Rightarrow> [] | Some tags \<Rightarrow> h_tags h tags)"

definition aws_live_tags :: "'t host \<Rightarrow> 't add_wins_set \<Rightarrow> uuid set \<Rightarrow> uuid list" where
  "aws_live_tags h s tags = filter (\<lambda>tag. tag \<notin> aws_tombstones s) (h_tags h tags)"

definition aws_entries :: "'t host \<Rightarrow> 't add_wins_set \<Rightarrow> ('t \<times> uuid list) list" where
  "aws_entries h s =
     filter (\<lambda>(_, live). live \<noteq> [])
       (map (\<lambda>(value, tags). (value, aws_live_tags h s tags)) (aws_iter h s))"

definition aws_merge_entry ::
  "'t \<times> uuid set \<Rightarrow> ('t \<rightharpoonup> uuid set) \<Rightarrow> ('t \<rightharpoonup> uuid set)" where
  "aws_merge_entry e m = m(fst e \<mapsto> or_empty_set (m (fst e)) \<union> snd e)"

definition aws_merge ::
  "'t host \<Rightarrow> 't add_wins_set \<Rightarrow> 't add_wins_set \<Rightarrow> 't add_wins_set" where
  "aws_merge h s other =
     s\<lparr>aws_elements := fold aws_merge_entry (aws_iter h other) (aws_elements s),
       aws_tombstones := aws_tombstones s \<union> aws_tombstones other\<rparr>"

section \<open>Abstraction and well-formedness\<close>

text \<open>A hash map holds finitely many keys.\<close>

definition aws_wf :: "'t add_wins_set \<Rightarrow> bool" where
  "aws_wf s \<longleftrightarrow> finite (dom (aws_elements s))"

text \<open>The observable content: the pairs of an element and one of its live tags.\<close>

definition aws_live :: "'t add_wins_set \<Rightarrow> ('t \<times> uuid) set" where
  "aws_live s = {(v, tag). tag \<in> or_empty_set (aws_elements s v) \<and> tag \<notin> aws_tombstones s}"

text \<open>The order-free reading of the merge loop: pointwise union.\<close>

definition merge_maps :: "('t \<rightharpoonup> 'a set) \<Rightarrow> ('t \<rightharpoonup> 'a set) \<Rightarrow> ('t \<rightharpoonup> 'a set)" where
  "merge_maps m n =
     (\<lambda>v. case n v of None \<Rightarrow> m v | Some tags \<Rightarrow> Some (or_empty_set (m v) \<union> tags))"

lemmas [defs_sync] = aws_new_def aws_add_with_tag_def aws_contains_def aws_any_live_def

section \<open>Lemmas\<close>

lemma fold_aws_tombstone [simp]:
  "fold aws_tombstone tags s = s\<lparr>aws_tombstones := set tags \<union> aws_tombstones s\<rparr>"
  by (induction tags arbitrary: s) (auto simp: aws_tombstone_def)

lemma aws_new_sel [simp]: "aws_elements aws_new = Map.empty" "aws_tombstones aws_new = {}"
  by (simp_all add: aws_new_def)

lemma aws_remove_tags_sel [simp]:
  "aws_elements (aws_remove_tags s v tags) = aws_elements s"
  "aws_tombstones (aws_remove_tags s v tags) = set tags \<union> aws_tombstones s"
  by (simp_all add: aws_remove_tags_def)

lemma aws_add_with_tag_sel [simp]:
  "aws_elements (aws_add_with_tag s v tag) =
     (aws_elements s)(v \<mapsto> insert tag (or_empty_set (aws_elements s v)))"
  "aws_tombstones (aws_add_with_tag s v tag) = aws_tombstones s"
  by (simp_all add: aws_add_with_tag_def)

lemma aws_contains_iff_live: "aws_contains s v \<longleftrightarrow> (\<exists>tag. (v, tag) \<in> aws_live s)"
  by (auto simp: aws_contains_def aws_any_live_def aws_live_def split: option.splits)

lemma aws_live_new [simp]: "aws_live aws_new = {}"
  by (simp add: aws_live_def aws_new_def)

lemma aws_live_add: "aws_live (aws_add_with_tag s v tag) =
    aws_live s \<union> (if tag \<in> aws_tombstones s then {} else {(v, tag)})"
  by (auto simp: aws_live_def split: if_splits)

lemma aws_live_remove_tags:
  "aws_live (aws_remove_tags s v tags) = {(w, tag) \<in> aws_live s. tag \<notin> set tags}"
  by (auto simp: aws_live_def)

lemma aws_wf_ops [simp]:
  "aws_wf aws_new"
  "aws_wf (aws_add_with_tag s v tag) = aws_wf s"
  "aws_wf (aws_remove_tags s v tags) = aws_wf s"
  by (simp_all add: aws_wf_def aws_new_def)

lemma map_fst_aws_iter [simp]: "map fst (aws_iter h s) = h_keys h (dom (aws_elements s))"
  by (simp add: aws_iter_def comp_def)

lemma set_aws_iter:
  "host_ok h \<Longrightarrow> aws_wf s \<Longrightarrow>
     set (aws_iter h s) = {(v, tags). aws_elements s v = Some tags}"
  by (force simp: aws_iter_def aws_wf_def)

lemma set_aws_entries:
  assumes "host_ok h" "aws_wf s"
  shows "(v, live) \<in> set (aws_entries h s) \<longleftrightarrow>
    live \<noteq> [] \<and> (\<exists>tags. aws_elements s v = Some tags \<and> live = aws_live_tags h s tags)"
  by (auto simp: aws_entries_def set_aws_iter [OF assms] image_iff)

lemma set_aws_live_tags:
  "host_ok h \<Longrightarrow> set (aws_live_tags h s tags) = {tag \<in> tags. tag \<notin> aws_tombstones s}"
  by (auto simp: aws_live_tags_def)

lemma aws_entries_live:
  assumes "host_ok h" "aws_wf s"
  shows "(\<exists>live. (v, live) \<in> set (aws_entries h s) \<and> tag \<in> set live) \<longleftrightarrow> (v, tag) \<in> aws_live s"
proof -
  have "tag \<in> set (aws_live_tags h s tags) \<Longrightarrow> aws_live_tags h s tags \<noteq> []" for tags
    by auto
  then show ?thesis
    by (auto simp: set_aws_entries [OF assms] set_aws_live_tags [OF assms(1)] aws_live_def
        or_empty_set_def split: option.splits)
qed

lemma fold_merge_entry:
  "distinct (map fst es) \<Longrightarrow>
     fold aws_merge_entry es m v =
       (case map_of es v of None \<Rightarrow> m v | Some tags \<Rightarrow> Some (or_empty_set (m v) \<union> tags))"
proof (induction es arbitrary: m)
  case (Cons e es)
  then have "fst e \<notin> fst ` set es" by auto
  then have "map_of es (fst e) = None" by (simp add: map_of_eq_None_iff)
  with Cons show ?case
    by (cases e) (auto simp: aws_merge_entry_def split: option.splits)
qed simp

lemma map_of_aws_iter:
  assumes "host_ok h" "aws_wf s"
  shows "map_of (aws_iter h s) = aws_elements s"
proof
  fix v
  have d: "distinct (map fst (aws_iter h s))"
    using assms by (simp add: aws_wf_def)
  show "map_of (aws_iter h s) v = aws_elements s v"
  proof (cases "aws_elements s v")
    case None
    then have "v \<notin> fst ` set (aws_iter h s)"
      using assms by (auto simp: set_aws_iter)
    then show ?thesis using None by (simp add: map_of_eq_None_iff)
  next
    case (Some tags)
    then have "(v, tags) \<in> set (aws_iter h s)" using assms by (simp add: set_aws_iter)
    then show ?thesis using Some d by simp
  qed
qed

text \<open>The merge loop is a pointwise union, whatever the iteration order.\<close>

lemma aws_merge_sel:
  assumes "host_ok h" "aws_wf t"
  shows "aws_elements (aws_merge h s t) = merge_maps (aws_elements s) (aws_elements t)"
    and "aws_tombstones (aws_merge h s t) = aws_tombstones s \<union> aws_tombstones t"
proof -
  have "distinct (map fst (aws_iter h t))"
    using assms by (simp add: aws_wf_def)
  then show "aws_elements (aws_merge h s t) = merge_maps (aws_elements s) (aws_elements t)"
    using assms by (simp add: aws_merge_def merge_maps_def fun_eq_iff fold_merge_entry map_of_aws_iter)
qed (simp add: aws_merge_def)

lemma dom_merge_maps [simp]: "dom (merge_maps m n) = dom m \<union> dom n"
  by (auto simp: merge_maps_def split: option.splits)

lemma or_empty_merge_maps [simp]:
  "or_empty_set (merge_maps m n v) = or_empty_set (m v) \<union> or_empty_set (n v)"
  by (auto simp: merge_maps_def split: option.splits)

lemma aws_merge_wf: "host_ok h \<Longrightarrow> aws_wf s \<Longrightarrow> aws_wf t \<Longrightarrow> aws_wf (aws_merge h s t)"
  by (simp add: aws_wf_def aws_merge_sel)

lemma aws_eqI:
  "aws_elements s = aws_elements t \<Longrightarrow> aws_tombstones s = aws_tombstones t \<Longrightarrow> s = (t :: 't add_wins_set)"
  by simp

section \<open>The contract of a state-based replicated type\<close>

text \<open>
  What the documentation of \<^verbatim>\<open>merge\<close> promises, as an interface: a join that is commutative,
  associative and idempotent on well-formed states. Replicas that have absorbed the same states
  agree, however often and in whatever order they absorbed them.
\<close>

locale join_replica =
  fixes join :: "'s \<Rightarrow> 's \<Rightarrow> 's"
    and wf :: "'s \<Rightarrow> bool"
  assumes join_wf: "wf a \<Longrightarrow> wf b \<Longrightarrow> wf (join a b)"
    and join_comm: "wf a \<Longrightarrow> wf b \<Longrightarrow> join a b = join b a"
    and join_assoc: "wf a \<Longrightarrow> wf b \<Longrightarrow> wf c \<Longrightarrow> join (join a b) c = join a (join b c)"
    and join_idem: "wf a \<Longrightarrow> join a a = a"
begin

lemma fold_join_wf: "wf s \<Longrightarrow> \<forall>x\<in>set xs. wf x \<Longrightarrow> wf (fold (\<lambda>x s. join s x) xs s)"
  by (induction xs arbitrary: s) (auto simp: join_wf)

lemma join_swap: "wf s \<Longrightarrow> wf x \<Longrightarrow> wf y \<Longrightarrow> join (join s x) y = join (join s y) x"
  by (metis join_assoc join_comm)

lemma fold_join_pull:
  "wf s \<Longrightarrow> wf y \<Longrightarrow> \<forall>x\<in>set xs. wf x \<Longrightarrow>
     fold (\<lambda>x s. join s x) xs (join s y) = join (fold (\<lambda>x s. join s x) xs s) y"
  by (induction xs arbitrary: s) (auto simp: join_wf join_swap)

lemma fold_join_absorb:
  "wf s \<Longrightarrow> \<forall>x\<in>set xs. wf x \<Longrightarrow> y \<in> set xs \<Longrightarrow>
     join (fold (\<lambda>x s. join s x) xs s) y = fold (\<lambda>x s. join s x) xs s"
proof (induction xs arbitrary: s)
  case (Cons x xs)
  show ?case
  proof (cases "y = x")
    case True
    have "join (join s x) x = join s x"
      using Cons.prems by (simp add: join_assoc join_idem)
    then show ?thesis
      using Cons.prems True fold_join_pull [of "join s x" x xs] by (simp add: join_wf)
  next
    case False
    then show ?thesis using Cons by (simp add: join_wf)
  qed
qed simp

lemma fold_join_subset:
  "wf s \<Longrightarrow> \<forall>x\<in>set xs. wf x \<Longrightarrow> set ys \<subseteq> set xs \<Longrightarrow>
     fold (\<lambda>x s. join s x) ys (fold (\<lambda>x s. join s x) xs s) = fold (\<lambda>x s. join s x) xs s"
  by (induction ys) (auto simp: fold_join_absorb)

lemma fold_join_commute:
  assumes "wf s" "\<forall>x\<in>set xs. wf x" "\<forall>x\<in>set ys. wf x"
  shows "fold (\<lambda>x s. join s x) xs (fold (\<lambda>x s. join s x) ys s) =
         fold (\<lambda>x s. join s x) ys (fold (\<lambda>x s. join s x) xs s)"
  using assms
proof (induction ys arbitrary: s)
  case (Cons y ys)
  then show ?case by (simp add: fold_join_wf fold_join_pull)
qed simp

lemma convergence:
  assumes "wf s" "\<forall>x\<in>set xs. wf x" "set xs = set ys"
  shows "fold (\<lambda>x s. join s x) xs s = fold (\<lambda>x s. join s x) ys s"
  using assms fold_join_commute [of s xs ys] fold_join_subset [of s xs ys] fold_join_subset [of s ys xs]
  by simp

end

text \<open>The order-free merge, and the fact that every merge loop computes it.\<close>

definition aws_join :: "'t add_wins_set \<Rightarrow> 't add_wins_set \<Rightarrow> 't add_wins_set" where
  "aws_join s t = \<lparr>aws_elements = merge_maps (aws_elements s) (aws_elements t),
     aws_tombstones = aws_tombstones s \<union> aws_tombstones t\<rparr>"

lemma aws_merge_eq_join: "host_ok h \<Longrightarrow> aws_wf t \<Longrightarrow> aws_merge h s t = aws_join s t"
  by (rule aws_eqI) (simp_all add: aws_merge_sel aws_join_def)

lemma merge_maps_laws:
  "merge_maps m n = merge_maps n m"
  "merge_maps (merge_maps m n) k = merge_maps m (merge_maps n k)"
  "merge_maps m m = m"
  by (auto simp: merge_maps_def fun_eq_iff split: option.splits)

interpretation aws: join_replica aws_join aws_wf
proof unfold_locales
  fix a b c :: "'t add_wins_set"
  show "aws_wf a \<Longrightarrow> aws_wf b \<Longrightarrow> aws_wf (aws_join a b)"
    by (simp add: aws_wf_def aws_join_def)
  show "aws_join a b = aws_join b a"
    by (simp add: aws_join_def merge_maps_laws(1) Un_commute)
  show "aws_join (aws_join a b) c = aws_join a (aws_join b c)"
    by (simp add: aws_join_def merge_maps_laws(2) Un_assoc)
  show "aws_join a a = a"
    by (simp add: aws_join_def merge_maps_laws(3))
qed

lemma aws_live_join:
  "aws_live (aws_join s t) =
     {(v, tag). tag \<in> or_empty_set (aws_elements s v) \<union> or_empty_set (aws_elements t v)
        \<and> tag \<notin> aws_tombstones s \<union> aws_tombstones t}"
  by (auto simp: aws_live_def aws_join_def)

lemma aws_live_remove:
  "host_ok h \<Longrightarrow> aws_live (aws_remove h s v) =
     {(w, tag) \<in> aws_live s. tag \<notin> or_empty_set (aws_elements s v)}"
  by (auto simp: aws_live_def aws_remove_def split: option.splits)

lemma aws_remove_sel:
  "aws_elements (aws_remove h s v) = aws_elements s"
  "host_ok h \<Longrightarrow> aws_tombstones (aws_remove h s v) = or_empty_set (aws_elements s v) \<union> aws_tombstones s"
  by (simp_all add: aws_remove_def split: option.splits)

section \<open>Properties\<close>

text \<open>
  Merge is commutative, associative and idempotent on the sets a program can hold, and the
  result does not depend on the order in which the hash map of the merged-in set is iterated.
\<close>

theorem aws_merge_laws:
  assumes "host_ok h" "host_ok h'" "aws_wf a" "aws_wf b" "aws_wf c"
  shows "aws_merge h a b = aws_merge h' b a
    \<and> aws_merge h (aws_merge h a b) c = aws_merge h' a (aws_merge h' b c)
    \<and> aws_merge h a a = a"
  using assms aws.join_comm [of a b] aws.join_assoc [of a b c] aws.join_idem [of a]
  by (simp add: aws_merge_eq_join aws_merge_wf aws.join_wf)

theorem aws_merge_laws_witness:
  "aws_merge sorted_host (aws_add_with_tag aws_new (1::nat) 7) (aws_add_with_tag aws_new 2 8) =
     aws_merge sorted_host (aws_add_with_tag aws_new 2 8) (aws_add_with_tag aws_new 1 7)"
  using aws_merge_laws [of sorted_host sorted_host "aws_add_with_tag aws_new (1::nat) 7"
      "aws_add_with_tag aws_new 2 8" aws_new]
  by simp

text \<open>
  Two replicas that start alike and merge the same collection of peer states agree, in
  whatever order, with whatever repetitions and under whatever hash order they merged them.
\<close>

theorem aws_replicas_converge:
  assumes "aws_wf s"
    and "\<forall>(h, t) \<in> set xs \<union> set ys. host_ok h \<and> aws_wf t"
    and "snd ` set xs = snd ` set ys"
  shows "fold (\<lambda>(h, t) s. aws_merge h s t) xs s = fold (\<lambda>(h, t) s. aws_merge h s t) ys s"
proof -
  have to_join: "fold (\<lambda>(h, t) s. aws_merge h s t) zs u = fold (\<lambda>t s. aws_join s t) (map snd zs) u"
    if "\<forall>(h, t) \<in> set zs. host_ok h \<and> aws_wf t" for zs :: "('b host \<times> 'b add_wins_set) list" and u
    using that by (induction zs arbitrary: u) (auto simp: aws_merge_eq_join)
  have "fold (\<lambda>t s. aws_join s t) (map snd xs) s = fold (\<lambda>t s. aws_join s t) (map snd ys) s"
    using assms by (intro aws.convergence) auto
  then show ?thesis using assms(2) by (simp add: to_join)
qed

theorem aws_replicas_converge_witness:
  "fold (\<lambda>(h, t) s. aws_merge h s t)
     [(sorted_host, aws_add_with_tag aws_new (1::nat) 7), (sorted_host, aws_add_with_tag aws_new 2 8)] aws_new =
   fold (\<lambda>(h, t) s. aws_merge h s t)
     [(sorted_host, aws_add_with_tag aws_new 2 8), (sorted_host, aws_add_with_tag aws_new 1 7),
      (sorted_host, aws_add_with_tag aws_new 2 8)] aws_new"
  by (rule aws_replicas_converge) auto

text \<open>
  Add wins. From a common state one replica removes \<open>v\<close> while another adds \<open>v\<close> under a tag
  the first has not observed: after the merge, in either direction, \<open>v\<close> is present. Without the
  concurrent add the remove takes effect in the merge with the old state.
\<close>

theorem aws_add_wins:
  assumes "host_ok h" "aws_wf s"
    and "tag \<notin> or_empty_set (aws_elements s v)" "tag \<notin> aws_tombstones s"
  shows "aws_contains (aws_merge h (aws_remove h s v) (aws_add_with_tag s v tag)) v
    \<and> aws_contains (aws_merge h (aws_add_with_tag s v tag) (aws_remove h s v)) v
    \<and> \<not> aws_contains (aws_merge h (aws_remove h s v) s) v"
proof -
  have "aws_wf (aws_remove h s v)"
    using assms by (simp add: aws_wf_def aws_remove_sel)
  then show ?thesis
    using assms
    by (auto simp: aws_merge_eq_join aws_contains_iff_live aws_live_join aws_remove_sel)
qed

theorem aws_add_wins_witness:
  "aws_contains (aws_merge sorted_host
      (aws_remove sorted_host (aws_add_with_tag aws_new (1::nat) 7) 1)
      (aws_add_with_tag (aws_add_with_tag aws_new 1 7) 1 8)) 1"
  using aws_add_wins [of sorted_host "aws_add_with_tag aws_new (1::nat) 7" 8 1]
  by simp

end
