(* ===== verification/Op_Log.thy ===== *)
theory Op_Log
  imports Add_Wins_Set
begin

text \<open>
  The append-only operation log of \<^verbatim>\<open>crates/sync_engine/src/op_log.rs\<close>: entries keyed by
  \<^verbatim>\<open>(replica_id, seq)\<close>, recording, merging with deduplication, replay into an add-wins set,
  compaction, and the on-disk form that drops the deduplication index. The central fact is that
  replay depends only on the \<^emph>\<open>set\<close> of operations, which makes replicas converge.
\<close>

section \<open>Types\<close>

datatype sync_error =
    NotYetImplemented string
  | UnknownElement uuid
  | Serialisation string
  | DeltaDecode
  | CompactionEpochBehind nat nat
  | SqliteError
  | CryptoError
  | PersistenceError string

datatype 't sync_op_kind =
    Add 't uuid
  | Remove 't "uuid list"
  | Supersede 't 't "uuid list"

record 't sync_op =
  op_replica :: uuid
  op_seq :: nat
  op_created_at :: instant
  op_kind :: "'t sync_op_kind"

record 't op_log =
  log_replica :: uuid
  log_clock :: nat
  log_epoch :: nat
  log_ops :: "'t sync_op list"
  log_seen :: "(uuid \<times> nat) set"

record 't op_log_on_disk =
  disk_replica :: uuid
  disk_clock :: nat
  disk_epoch :: nat
  disk_ops :: "'t sync_op list"

type_synonym 't materialised = "'t add_wins_set \<times> ('t \<times> 't) list"

definition op_key :: "'t sync_op \<Rightarrow> uuid \<times> nat" where
  "op_key e = (op_replica e, op_seq e)"

section \<open>Operations\<close>

definition oplog_from_disk :: "'t op_log_on_disk \<Rightarrow> 't op_log" where
  "oplog_from_disk d =
     \<lparr>log_replica = disk_replica d, log_clock = disk_clock d, log_epoch = disk_epoch d,
      log_ops = disk_ops d,
      log_seen = fold (\<lambda>e seen. insert (op_key e) seen) (disk_ops d) {}\<rparr>"

text \<open>The serialised fields: everything but \<open>seen\<close>, which carries \<^verbatim>\<open>#[serde(skip)]\<close>.\<close>

definition oplog_to_disk :: "'t op_log \<Rightarrow> 't op_log_on_disk" where
  "oplog_to_disk l =
     \<lparr>disk_replica = log_replica l, disk_clock = log_clock l, disk_epoch = log_epoch l,
      disk_ops = log_ops l\<rparr>"

definition oplog_new :: "uuid \<Rightarrow> 't op_log" where
  "oplog_new r = \<lparr>log_replica = r, log_clock = 0, log_epoch = 0, log_ops = [], log_seen = {}\<rparr>"

definition oplog_append :: "'t host \<Rightarrow> 't op_log \<Rightarrow> 't sync_op_kind \<Rightarrow> 't op_log" where
  "oplog_append h l k =
     (let c = sat_add (log_clock l) 1;
          entry = \<lparr>op_replica = log_replica l, op_seq = c, op_created_at = h_now h c, op_kind = k\<rparr>
      in l\<lparr>log_clock := c, log_seen := insert (op_key entry) (log_seen l),
           log_ops := log_ops l @ [entry]\<rparr>)"

definition oplog_record_add :: "'t host \<Rightarrow> uuid \<Rightarrow> 't op_log \<Rightarrow> 't \<Rightarrow> uuid \<times> 't op_log" where
  "oplog_record_add h tag l value = (tag, oplog_append h l (Add value tag))"

definition oplog_record_remove :: "'t host \<Rightarrow> 't op_log \<Rightarrow> 't \<Rightarrow> uuid list \<Rightarrow> 't op_log" where
  "oplog_record_remove h l value observed_tags = oplog_append h l (Remove value observed_tags)"

definition oplog_record_supersede ::
  "'t host \<Rightarrow> 't op_log \<Rightarrow> 't \<Rightarrow> 't \<Rightarrow> uuid list \<Rightarrow> 't op_log" where
  "oplog_record_supersede h l value successor observed_tags =
     oplog_append h l (Supersede value successor observed_tags)"

definition oplog_merge_single :: "'t op_log \<Rightarrow> 't sync_op \<Rightarrow> bool \<times> 't op_log" where
  "oplog_merge_single l entry =
     (if op_key entry \<in> log_seen l then (False, l)
      else (True,
        l\<lparr>log_seen := insert (op_key entry) (log_seen l),
          log_clock := (if op_replica entry = log_replica l
                        then max (log_clock l) (op_seq entry) else log_clock l),
          log_ops := log_ops l @ [entry]\<rparr>))"

text \<open>The body of the loop of \<^verbatim>\<open>OpLog::merge\<close>, for one entry of the other log.\<close>

definition oplog_merge_entry :: "'t sync_op \<Rightarrow> 't op_log \<Rightarrow> 't op_log" where
  "oplog_merge_entry entry l =
     (if op_key entry \<in> log_seen l then l
      else (let l' = l\<lparr>log_seen := insert (op_key entry) (log_seen l)\<rparr>;
                l'' = (if op_replica entry = log_replica l'
                       then l'\<lparr>log_clock := max (log_clock l') (op_seq entry)\<rparr> else l')
            in l''\<lparr>log_ops := log_ops l'' @ [entry]\<rparr>))"

definition oplog_merge :: "'t op_log \<Rightarrow> 't op_log \<Rightarrow> 't op_log" where
  "oplog_merge l other =
     (let l' = fold oplog_merge_entry (log_ops other) l
      in l'\<lparr>log_epoch := max (log_epoch l') (log_epoch other)\<rparr>)"

definition merge_logs :: "'t op_log \<Rightarrow> 't op_log \<Rightarrow> 't op_log" where
  "merge_logs a b = oplog_merge a b"

fun replay_step :: "'t sync_op_kind \<Rightarrow> 't materialised \<Rightarrow> 't materialised" where
  "replay_step (Add value tag) (s, supers) = (aws_add_with_tag s value tag, supers)"
| "replay_step (Remove value observed) (s, supers) = (aws_remove_tags s value observed, supers)"
| "replay_step (Supersede value successor observed) (s, supers) =
     (aws_remove_tags s value observed, supers @ [(value, successor)])"

definition replay_ops :: "'t sync_op list \<Rightarrow> 't materialised" where
  "replay_ops ops = fold (\<lambda>e. replay_step (op_kind e)) ops (aws_new, [])"

definition oplog_replay :: "'t op_log \<Rightarrow> sync_error + 't materialised" where
  "oplog_replay l = Inr (replay_ops (log_ops l))"

text \<open>One re-emitted entry of a compaction: the running clock, the new entries, the new index.\<close>

definition compact_emit ::
  "'t host \<Rightarrow> uuid \<Rightarrow> 't sync_op_kind \<Rightarrow> nat \<times> 't sync_op list \<times> (uuid \<times> nat) set
     \<Rightarrow> nat \<times> 't sync_op list \<times> (uuid \<times> nat) set" where
  "compact_emit h r k = (\<lambda>(clock, ops, seen).
     (let c = sat_add clock 1;
          entry = \<lparr>op_replica = r, op_seq = c, op_created_at = h_now h c, op_kind = k\<rparr>
      in (c, ops @ [entry], insert (op_key entry) seen)))"

definition oplog_compact :: "'t host \<Rightarrow> 't op_log \<Rightarrow> sync_error + nat \<times> 't op_log" where
  "oplog_compact h l =
     (case oplog_replay l of
        Inl e \<Rightarrow> Inl e
      | Inr (s, supers) \<Rightarrow>
          (let old_len = length (log_ops l);
               st1 = fold (\<lambda>(value, tags) st.
                       fold (\<lambda>tag. compact_emit h (log_replica l) (Add value tag)) tags st)
                     (aws_entries h s) (log_clock l, [], {});
               (c, new_ops, new_seen) = fold (\<lambda>(value, successor).
                       compact_emit h (log_replica l) (Supersede value successor [])) supers st1
           in Inr (old_len - length new_ops,
                l\<lparr>log_clock := c, log_ops := new_ops, log_seen := new_seen,
                  log_epoch := sat_add (log_epoch l) 1\<rparr>)))"

section \<open>Well-formedness and the closed form of replay\<close>

text \<open>
  The invariant of a log: \<open>seen\<close> indexes exactly the entries, no key occurs twice, no entry of
  the replica's own stream is ahead of the clock.
\<close>

definition oplog_wf :: "'t op_log \<Rightarrow> bool" where
  "oplog_wf l \<longleftrightarrow>
     log_seen l = op_key ` set (log_ops l) \<and>
     distinct (map op_key (log_ops l)) \<and>
     (\<forall>e \<in> set (log_ops l). op_seq e \<le> u64_max \<and>
        (op_replica e = log_replica l \<longrightarrow> op_seq e \<le> log_clock l)) \<and>
     log_clock l \<le> u64_max"

fun observed_of :: "'t sync_op_kind \<Rightarrow> uuid set" where
  "observed_of (Add _ _) = {}"
| "observed_of (Remove _ tags) = set tags"
| "observed_of (Supersede _ _ tags) = set tags"

fun added_of :: "'t sync_op_kind \<Rightarrow> ('t \<times> uuid) set" where
  "added_of (Add v tag) = {(v, tag)}"
| "added_of _ = {}"

fun superseded_of :: "'t sync_op_kind \<Rightarrow> ('t \<times> 't) list" where
  "superseded_of (Supersede v w _) = [(v, w)]"
| "superseded_of _ = []"

text \<open>What a set of operations means, without any order.\<close>

definition ops_added :: "'t sync_op set \<Rightarrow> ('t \<times> uuid) set" where
  "ops_added X = (\<Union>e \<in> X. added_of (op_kind e))"

definition ops_observed :: "'t sync_op set \<Rightarrow> uuid set" where
  "ops_observed X = (\<Union>e \<in> X. observed_of (op_kind e))"

definition ops_meaning :: "'t sync_op set \<Rightarrow> 't add_wins_set" where
  "ops_meaning X =
     \<lparr>aws_elements = (\<lambda>v. if v \<in> Domain (ops_added X) then Some (ops_added X `` {v}) else None),
      aws_tombstones = ops_observed X\<rparr>"

lemmas [defs_sync] = oplog_new_def oplog_append_def oplog_record_add_def oplog_record_remove_def
  oplog_record_supersede_def oplog_merge_single_def oplog_merge_entry_def oplog_merge_def
  oplog_replay_def

section \<open>Replay depends only on the set of operations\<close>

lemma replay_ops_Nil [simp]: "replay_ops [] = (aws_new, [])"
  by (simp add: replay_ops_def)

lemma replay_ops_append:
  "replay_ops (xs @ ys) = fold (\<lambda>e. replay_step (op_kind e)) ys (replay_ops xs)"
  by (simp add: replay_ops_def)

lemma replay_ops_snoc [simp]:
  "replay_ops (xs @ [e]) = replay_step (op_kind e) (replay_ops xs)"
  by (simp add: replay_ops_append)

lemma ops_sets_insert [simp]:
  "ops_added (insert e X) = added_of (op_kind e) \<union> ops_added X"
  "ops_observed (insert e X) = observed_of (op_kind e) \<union> ops_observed X"
  "ops_added {} = {}" "ops_observed {} = {}"
  by (auto simp: ops_added_def ops_observed_def)

lemma replay_step_meaning:
  "replay_step (op_kind e) (ops_meaning X, supers) =
     (ops_meaning (insert e X), supers @ superseded_of (op_kind e))"
proof (cases "op_kind e")
  case (Add v tag)
  then show ?thesis
    by (auto simp: ops_meaning_def fun_eq_iff intro!: aws_eqI)
next
  case (Remove v tags)
  then show ?thesis by (auto simp: ops_meaning_def intro!: aws_eqI)
next
  case (Supersede v w tags)
  then show ?thesis by (auto simp: ops_meaning_def intro!: aws_eqI)
qed

lemma replay_ops_meaning:
  "replay_ops ops =
     (ops_meaning (set ops), concat (map (\<lambda>e. superseded_of (op_kind e)) ops))"
proof (induction ops rule: rev_induct)
  case Nil
  then show ?case by (simp add: ops_meaning_def aws_new_def)
next
  case (snoc e ops)
  then show ?case by (simp add: replay_step_meaning)
qed

lemma finite_ops_added: "finite X \<Longrightarrow> finite (ops_added X)"
proof -
  have "finite (added_of k)" for k :: "'a sync_op_kind" by (cases k) auto
  then show "finite X \<Longrightarrow> finite (ops_added X)" by (simp add: ops_added_def)
qed

lemma ops_meaning_wf [simp]: "finite X \<Longrightarrow> aws_wf (ops_meaning X)"
proof -
  have "dom (aws_elements (ops_meaning X)) = Domain (ops_added X)"
    by (auto simp: ops_meaning_def split: if_splits)
  then show "finite X \<Longrightarrow> ?thesis" by (simp add: aws_wf_def finite_ops_added finite_Domain)
qed

lemma replay_ops_wf [simp]: "aws_wf (fst (replay_ops ops))"
  by (simp add: replay_ops_meaning)

lemma aws_live_ops_meaning:
  "aws_live (ops_meaning X) = {(v, tag) \<in> ops_added X. tag \<notin> ops_observed X}"
  by (force simp: aws_live_def ops_meaning_def split: if_splits)

lemma ops_meaning_union: "ops_meaning (X \<union> Y) = aws_join (ops_meaning X) (ops_meaning Y)"
proof -
  have added: "ops_added (X \<union> Y) = ops_added X \<union> ops_added Y"
    and observed: "ops_observed (X \<union> Y) = ops_observed X \<union> ops_observed Y"
    by (auto simp: ops_added_def ops_observed_def)
  show ?thesis
    by (rule aws_eqI)
      (auto simp: ops_meaning_def aws_join_def merge_maps_def added observed fun_eq_iff)
qed

section \<open>Recording and merging\<close>

lemma oplog_wf_new [simp]: "oplog_wf (oplog_new r)"
  by (simp add: oplog_wf_def oplog_new_def)

lemma oplog_new_sel [simp]:
  "log_replica (oplog_new r) = r" "log_clock (oplog_new r) = 0" "log_epoch (oplog_new r) = 0"
  "log_ops (oplog_new r) = []" "log_seen (oplog_new r) = {}"
  by (simp_all add: oplog_new_def)

lemma oplog_append_sel [simp]:
  "log_replica (oplog_append h l k) = log_replica l"
  "log_clock (oplog_append h l k) = sat_add (log_clock l) 1"
  "log_epoch (oplog_append h l k) = log_epoch l"
  "log_ops (oplog_append h l k) = log_ops l @
     [\<lparr>op_replica = log_replica l, op_seq = sat_add (log_clock l) 1,
       op_created_at = h_now h (sat_add (log_clock l) 1), op_kind = k\<rparr>]"
  "log_seen (oplog_append h l k) = insert (log_replica l, sat_add (log_clock l) 1) (log_seen l)"
  by (simp_all add: oplog_append_def Let_def op_key_def)

lemma oplog_append_wf:
  assumes "oplog_wf l" "log_clock l < u64_max"
  shows "oplog_wf (oplog_append h l k)"
proof -
  have "(log_replica l, Suc (log_clock l)) \<notin> op_key ` set (log_ops l)"
    using assms(1) by (fastforce simp: oplog_wf_def op_key_def)
  then show ?thesis
    using assms by (fastforce simp: oplog_wf_def op_key_def)
qed

lemma oplog_merge_entry_single: "oplog_merge_entry e l = snd (oplog_merge_single l e)"
  by (simp add: oplog_merge_entry_def oplog_merge_single_def Let_def)

lemma oplog_merge_entry_sel:
  "log_replica (oplog_merge_entry e l) = log_replica l"
  "log_epoch (oplog_merge_entry e l) = log_epoch l"
  "log_ops (oplog_merge_entry e l) =
     log_ops l @ (if op_key e \<in> log_seen l then [] else [e])"
  "log_seen (oplog_merge_entry e l) = insert (op_key e) (log_seen l)"
  by (auto simp: oplog_merge_entry_def Let_def)

lemma oplog_merge_entry_wf:
  "oplog_wf l \<Longrightarrow> op_seq e \<le> u64_max \<Longrightarrow> oplog_wf (oplog_merge_entry e l)"
  by (auto simp: oplog_wf_def oplog_merge_entry_def Let_def)

lemma fold_merge_entry_wf:
  "oplog_wf l \<Longrightarrow> \<forall>e \<in> set es. op_seq e \<le> u64_max \<Longrightarrow> oplog_wf (fold oplog_merge_entry es l)"
  by (induction es arbitrary: l) (auto simp: oplog_merge_entry_wf)

lemma fold_merge_entry_sel:
  "log_replica (fold oplog_merge_entry es l) = log_replica l"
  "log_epoch (fold oplog_merge_entry es l) = log_epoch l"
  "log_seen (fold oplog_merge_entry es l) = op_key ` set es \<union> log_seen l"
  by (induction es arbitrary: l) (auto simp: oplog_merge_entry_sel)

lemma fold_merge_entry_ops:
  "distinct (map op_key es) \<Longrightarrow>
     log_ops (fold oplog_merge_entry es l) = log_ops l @ filter (\<lambda>e. op_key e \<notin> log_seen l) es"
proof (induction es arbitrary: l)
  case (Cons e es)
  then have "op_key e \<notin> op_key ` set es" by simp
  then have "op_key x \<noteq> op_key e" if "x \<in> set es" for x using that by (metis imageI)
  with Cons show ?case
    by (auto simp: oplog_merge_entry_sel intro!: filter_cong)
qed simp

lemma oplog_merge_sel:
  "log_replica (oplog_merge l m) = log_replica l"
  "log_epoch (oplog_merge l m) = max (log_epoch l) (log_epoch m)"
  "log_seen (oplog_merge l m) = op_key ` set (log_ops m) \<union> log_seen l"
  by (simp_all add: oplog_merge_def Let_def fold_merge_entry_sel)

lemma oplog_merge_ops:
  "oplog_wf m \<Longrightarrow>
     log_ops (oplog_merge l m) = log_ops l @ filter (\<lambda>e. op_key e \<notin> log_seen l) (log_ops m)"
  by (simp add: oplog_merge_def Let_def fold_merge_entry_ops oplog_wf_def)

lemma oplog_merge_wf:
  assumes "oplog_wf l" "oplog_wf m"
  shows "oplog_wf (oplog_merge l m)"
proof -
  have "oplog_wf (fold oplog_merge_entry (log_ops m) l)"
    using assms by (intro fold_merge_entry_wf) (auto simp: oplog_wf_def)
  then show ?thesis by (simp add: oplog_merge_def Let_def oplog_wf_def)
qed

text \<open>
  Entries with one key are one operation: a replica never uses a sequence number twice. Under
  that condition merging is union on the sets of entries.
\<close>

lemma oplog_merge_set:
  assumes "oplog_wf l" "oplog_wf m"
    and "inj_on op_key (set (log_ops l) \<union> set (log_ops m))"
  shows "set (log_ops (oplog_merge l m)) = set (log_ops l) \<union> set (log_ops m)"
proof -
  have "e \<in> set (log_ops l)"
    if "e \<in> set (log_ops m)" "op_key e = op_key f" "f \<in> set (log_ops l)" for e f
    using inj_onD [OF assms(3) that(2)] that by auto
  then show ?thesis
    using assms(1,2) by (auto simp: oplog_merge_ops oplog_wf_def)
qed

lemma oplog_merge_self:
  assumes "oplog_wf l" "oplog_wf m" "op_key ` set (log_ops m) \<subseteq> log_seen l"
    "log_epoch m \<le> log_epoch l"
  shows "oplog_merge l m = l"
proof -
  have "fold oplog_merge_entry es l = l" if "op_key ` set es \<subseteq> log_seen l" for es
    using that by (induction es) (auto simp: oplog_merge_entry_def)
  then show ?thesis using assms by (simp add: oplog_merge_def max_absorb1)
qed

lemma distinct_ops: "oplog_wf l \<Longrightarrow> distinct (log_ops l)"
  by (simp add: oplog_wf_def distinct_map)

lemma replay_ops_cong:
  assumes "distinct xs" "distinct ys" "set xs = set ys"
  shows "fst (replay_ops xs) = fst (replay_ops ys)"
    and "mset (snd (replay_ops xs)) = mset (snd (replay_ops ys))"
proof -
  show "fst (replay_ops xs) = fst (replay_ops ys)"
    using assms(3) by (simp add: replay_ops_meaning)
  show "mset (snd (replay_ops xs)) = mset (snd (replay_ops ys))"
    unfolding replay_ops_meaning snd_conv
    by (rule mset_concat_map [OF mset_eq_of_set_distinct [OF assms]])
qed

lemma oplog_from_disk_to_disk:
  assumes "oplog_wf l"
  shows "oplog_from_disk (oplog_to_disk l) = l"
proof -
  have "fold (\<lambda>e seen. insert (op_key e) seen) es S = op_key ` set es \<union> S" for es :: "'a sync_op list" and S
    by (induction es arbitrary: S) auto
  then show ?thesis
    using assms by (simp add: oplog_from_disk_def oplog_to_disk_def oplog_wf_def)
qed

section \<open>Compaction\<close>

text \<open>The operations a compaction writes, and the entries it stamps for them.\<close>

definition compact_kinds :: "'t host \<Rightarrow> 't materialised \<Rightarrow> 't sync_op_kind list" where
  "compact_kinds h m =
     concat (map (\<lambda>(value, tags). map (Add value) tags) (aws_entries h (fst m)))
     @ map (\<lambda>(value, successor). Supersede value successor []) (snd m)"

fun emitted :: "'t host \<Rightarrow> uuid \<Rightarrow> nat \<Rightarrow> 't sync_op_kind list \<Rightarrow> 't sync_op list" where
  "emitted h r c [] = []"
| "emitted h r c (k # ks) =
     (let c' = sat_add c 1
      in \<lparr>op_replica = r, op_seq = c', op_created_at = h_now h c', op_kind = k\<rparr> # emitted h r c' ks)"

lemma map_op_kind_emitted [simp]: "map op_kind (emitted h r c ks) = ks"
  by (induction ks arbitrary: c) (auto simp: Let_def)

lemma length_emitted [simp]: "length (emitted h r c ks) = length ks"
  by (induction ks arbitrary: c) (auto simp: Let_def)

lemma emitted_replica: "e \<in> set (emitted h r c ks) \<Longrightarrow> op_replica e = r"
  by (induction ks arbitrary: c) (auto simp: Let_def)

lemma sat_add_sat_add: "sat_add (sat_add a b) c = sat_add a (b + c)"
  by (simp add: sat_add_def)

lemma emitted_seq:
  "e \<in> set (emitted h r c ks) \<Longrightarrow> op_seq e \<le> sat_add c (length ks) \<and> op_seq e \<le> u64_max"
proof (induction ks arbitrary: c)
  case (Cons k ks)
  have "op_seq e = sat_add c 1 \<or> e \<in> set (emitted h r (sat_add c 1) ks)"
    using Cons.prems by (auto simp: Let_def)
  then show ?case
  proof
    assume "op_seq e = sat_add c 1"
    then show ?thesis by (simp add: sat_add_def)
  next
    assume "e \<in> set (emitted h r (sat_add c 1) ks)"
    from Cons.IH [OF this] show ?thesis by (simp add: sat_add_sat_add)
  qed
qed simp

lemma emitted_keys:
  "c + length ks \<le> u64_max \<Longrightarrow> map op_key (emitted h r c ks) = map (Pair r) [Suc c..<Suc (c + length ks)]"
proof (induction ks arbitrary: c)
  case (Cons k ks)
  then have "sat_add c (Suc 0) = Suc c" by simp
  moreover have "[Suc c..<Suc (c + length (k # ks))] = Suc c # [Suc (Suc c)..<Suc (Suc c + length ks)]"
    by (subst upt_conv_Cons) auto
  ultimately show ?case
    using Cons by (simp add: Let_def op_key_def del: upt_Suc)
qed simp

lemma fold_compact_emit:
  "c \<le> u64_max \<Longrightarrow> fold (compact_emit h r) ks (c, ops, seen) =
     (sat_add c (length ks), ops @ emitted h r c ks, op_key ` set (emitted h r c ks) \<union> seen)"
proof (induction ks arbitrary: c ops seen)
  case Nil
  then show ?case by (simp add: sat_add_def)
next
  case (Cons k ks)
  then show ?case by (simp add: compact_emit_def Let_def sat_add_sat_add)
qed

lemma fold_nested_emit:
  "fold (\<lambda>(v, tags) st. fold (\<lambda>tag. f (Add v tag)) tags st) es st =
     fold f (concat (map (\<lambda>(v, tags). map (Add v) tags) es)) st"
  by (induction es arbitrary: st) (auto simp: fold_map comp_def)

lemma oplog_compact_eq:
  fixes h :: "'t host"
  assumes "log_clock l \<le> u64_max"
  defines "ks \<equiv> compact_kinds h (replay_ops (log_ops l))"
  shows "oplog_compact h l = Inr (length (log_ops l) - length ks,
     l\<lparr>log_clock := sat_add (log_clock l) (length ks),
       log_ops := emitted h (log_replica l) (log_clock l) ks,
       log_seen := op_key ` set (emitted h (log_replica l) (log_clock l) ks),
       log_epoch := sat_add (log_epoch l) 1\<rparr>)"
proof -
  obtain s supers where m: "replay_ops (log_ops l) = (s, supers)" by fastforce
  have sup: "fold (\<lambda>(v, w). compact_emit h (log_replica l) (Supersede v w [])) supers st =
      fold (compact_emit h (log_replica l)) (map (\<lambda>(v, w). Supersede v w []) supers) st" for st
    by (induction supers arbitrary: st) auto
  have "fold (\<lambda>(v, w). compact_emit h (log_replica l) (Supersede v w [])) supers
      (fold (\<lambda>(value, tags) st.
          fold (\<lambda>tag. compact_emit h (log_replica l) (Add value tag)) tags st)
        (aws_entries h s) (log_clock l, [], {})) =
      fold (compact_emit h (log_replica l)) ks (log_clock l, [], {})"
    by (simp add: sup ks_def m compact_kinds_def fold_nested_emit)
  then show ?thesis
    using assms(1) by (simp add: oplog_compact_def oplog_replay_def m Let_def fold_compact_emit)
qed

lemma replay_ops_kinds: "replay_ops ops = fold replay_step (map op_kind ops) (aws_new, [])"
  by (simp add: replay_ops_def fold_map comp_def)

lemma ops_added_iff: "(v, tag) \<in> ops_added (set ops) \<longleftrightarrow> Add v tag \<in> set (map op_kind ops)"
proof -
  have "(v, tag) \<in> added_of k \<longleftrightarrow> k = Add v tag" for k by (cases k) auto
  then show ?thesis by (auto simp: ops_added_def image_iff eq_commute)
qed

lemma Add_in_compact_kinds:
  assumes "host_ok h" "aws_wf (fst m)"
  shows "Add v tag \<in> set (compact_kinds h m) \<longleftrightarrow> (v, tag) \<in> aws_live (fst m)"
  using aws_entries_live [OF assms, of v tag] by (fastforce simp: compact_kinds_def)

lemma compact_kinds_observed: "k \<in> set (compact_kinds h m) \<Longrightarrow> observed_of k = {}"
  by (auto simp: compact_kinds_def)

lemma compact_kinds_superseded: "concat (map superseded_of (compact_kinds h m)) = snd m"
proof -
  have "concat (map superseded_of (concat (map (\<lambda>(v, tags). map (Add v) tags) es))) = []"
    for es :: "('a \<times> uuid list) list"
    by (induction es) (auto simp: comp_def)
  moreover have "concat (map superseded_of (map (\<lambda>(v, w). Supersede v w []) xs)) = xs"
    for xs :: "('a \<times> 'a) list"
    by (induction xs) auto
  ultimately show ?thesis by (simp add: compact_kinds_def)
qed

text \<open>What compaction keeps: the live pairs and the supersession history; no tombstone is left.\<close>

lemma replay_emitted:
  fixes ops :: "'t sync_op list"
  assumes "host_ok h"
  defines "ks \<equiv> compact_kinds h (replay_ops ops)"
  shows "aws_live (fst (replay_ops (emitted h r c ks))) = aws_live (fst (replay_ops ops))"
    and "aws_tombstones (fst (replay_ops (emitted h r c ks))) = {}"
    and "snd (replay_ops (emitted h r c ks)) = snd (replay_ops ops)"
proof -
  let ?E = "emitted h r c ks"
  have kind: "op_kind e \<in> set ks" if "e \<in> set ?E" for e
    using that map_op_kind_emitted [of h r c ks] by (metis image_eqI list.set_map)
  then have obs: "ops_observed (set ?E) = {}"
    unfolding ks_def by (auto simp: ops_observed_def dest!: kind [unfolded ks_def] compact_kinds_observed)
  have "(v, tag) \<in> ops_added (set ?E) \<longleftrightarrow> (v, tag) \<in> aws_live (fst (replay_ops ops))" for v tag
    using Add_in_compact_kinds [OF assms(1), of "replay_ops ops" v tag]
    by (simp only: ops_added_iff map_op_kind_emitted) (simp add: ks_def)
  then show "aws_live (fst (replay_ops ?E)) = aws_live (fst (replay_ops ops))"
    by (auto simp: replay_ops_meaning [of ?E] aws_live_ops_meaning obs)
  show "aws_tombstones (fst (replay_ops ?E)) = {}"
    by (simp add: replay_ops_meaning [of ?E] ops_meaning_def obs)
  have "map (\<lambda>e. superseded_of (op_kind e)) ?E = map superseded_of (map op_kind ?E)"
    by (simp only: map_map comp_def)
  then have "concat (map (\<lambda>e. superseded_of (op_kind e)) ?E) = concat (map superseded_of ks)"
    by (simp only: map_op_kind_emitted)
  then show "snd (replay_ops ?E) = snd (replay_ops ops)"
    unfolding replay_ops_meaning [of ?E] snd_conv by (simp add: ks_def compact_kinds_superseded)
qed

lemma oplog_compact_wf:
  assumes "oplog_wf l" "oplog_compact h l = Inr (n, l')" "log_clock l + length (log_ops l') \<le> u64_max"
  shows "oplog_wf l'"
proof -
  let ?ks = "compact_kinds h (replay_ops (log_ops l))"
  let ?E = "emitted h (log_replica l) (log_clock l) ?ks"
  have b: "log_clock l \<le> u64_max" using assms(1) by (simp add: oplog_wf_def)
  have l': "l' = l\<lparr>log_clock := sat_add (log_clock l) (length ?ks), log_ops := ?E,
      log_seen := op_key ` set ?E, log_epoch := sat_add (log_epoch l) 1\<rparr>"
    using assms(2) oplog_compact_eq [OF b] by simp
  then have "log_clock l + length ?ks \<le> u64_max" using assms(3) by simp
  from emitted_keys [OF this, of h "log_replica l"]
  have "distinct (map op_key ?E)" by (simp add: distinct_map inj_on_def)
  then show ?thesis
    using emitted_seq [of _ h "log_replica l" "log_clock l" ?ks] by (auto simp: l' oplog_wf_def)
qed

lemma fold_merge_logs:
  assumes "oplog_wf l" "\<forall>m \<in> set ms. oplog_wf m"
    and "inj_on op_key (set (log_ops l) \<union> (\<Union>m \<in> set ms. set (log_ops m)))"
  shows "oplog_wf (fold (\<lambda>m l. oplog_merge l m) ms l) \<and>
     set (log_ops (fold (\<lambda>m l. oplog_merge l m) ms l)) =
       set (log_ops l) \<union> (\<Union>m \<in> set ms. set (log_ops m)) \<and>
     log_epoch (fold (\<lambda>m l. oplog_merge l m) ms l) = Max (insert (log_epoch l) (log_epoch ` set ms))"
  using assms
proof (induction ms arbitrary: l)
  case (Cons m ms)
  have wf: "oplog_wf (oplog_merge l m)" using Cons.prems by (simp add: oplog_merge_wf)
  have st: "set (log_ops (oplog_merge l m)) = set (log_ops l) \<union> set (log_ops m)"
    using Cons.prems by (intro oplog_merge_set) (auto intro: inj_on_subset)
  have "Max (insert (max (log_epoch l) (log_epoch m)) X) = Max (insert (log_epoch l) (insert (log_epoch m) X))"
    if "finite X" for X
    using that by (cases "X = {}") (auto simp: max.assoc)
  then show ?case
    using Cons.IH [OF wf] Cons.prems(2,3) by (simp add: st oplog_merge_sel Un_assoc)
qed simp

section \<open>Properties\<close>

text \<open>
  C1. Replicas converge: two replicas that start from one log and merge the same peer logs, in
  any order and with any repetitions, replay to the same set, hold the same supersession pairs
  and reach the same compaction epoch. The only condition is that a key \<^verbatim>\<open>(replica_id, seq)\<close>
  names one operation.
\<close>

theorem op_logs_converge:
  assumes "oplog_wf l" "\<forall>m \<in> set ms. oplog_wf m" "set ms = set ns"
    and "inj_on op_key (set (log_ops l) \<union> (\<Union>m \<in> set ms. set (log_ops m)))"
  defines "a \<equiv> fold (\<lambda>m l. oplog_merge l m) ms l"
    and "b \<equiv> fold (\<lambda>m l. oplog_merge l m) ns l"
  shows "\<exists>s xs ys. oplog_replay a = Inr (s, xs) \<and> oplog_replay b = Inr (s, ys)
    \<and> mset xs = mset ys \<and> log_epoch a = log_epoch b"
proof -
  have a: "oplog_wf a" and b: "oplog_wf b" and eq: "set (log_ops a) = set (log_ops b)"
    and ep: "log_epoch a = log_epoch b"
    using fold_merge_logs [of l ms] fold_merge_logs [of l ns] assms by simp_all
  note c = replay_ops_cong [OF distinct_ops [OF a] distinct_ops [OF b] eq]
  obtain s xs where ra: "replay_ops (log_ops a) = (s, xs)" by fastforce
  obtain t ys where rb: "replay_ops (log_ops b) = (t, ys)" by fastforce
  have "t = s" and ms: "mset xs = mset ys" using c by (simp_all add: ra rb)
  then show ?thesis using ep by (simp add: oplog_replay_def ra rb)
qed

theorem op_logs_converge_witness:
  "\<exists>s xs ys. oplog_replay (oplog_merge (oplog_merge (oplog_new 1)
        (oplog_append sorted_host (oplog_new 2) (Add (5::nat) 7)))
        (oplog_append sorted_host (oplog_new 3) (Remove 5 [7]))) = Inr (s, xs)
    \<and> oplog_replay (oplog_merge (oplog_merge (oplog_new 1)
        (oplog_append sorted_host (oplog_new 3) (Remove 5 [7])))
        (oplog_append sorted_host (oplog_new 2) (Add 5 7))) = Inr (s, ys)
    \<and> mset xs = mset ys"
proof -
  let ?A = "oplog_append sorted_host (oplog_new 2) (Add (5::nat) 7)"
  let ?B = "oplog_append sorted_host (oplog_new 3) (Remove (5::nat) [7])"
  have "oplog_wf ?A" "oplog_wf ?B"
    by (auto intro!: oplog_append_wf simp: u64_max_def)
  moreover have "inj_on op_key (set (log_ops (oplog_new 1 :: nat op_log)) \<union>
      (\<Union>m \<in> set [?A, ?B]. set (log_ops m)))"
    by (simp add: op_key_def)
  ultimately show ?thesis
    using op_logs_converge [of "oplog_new 1" "[?A, ?B]" "[?B, ?A]"] by auto
qed

text \<open>
  Merging logs implements merging sets: replaying the merge of two logs gives the join of the
  sets the two logs replay to, so exchanging operations and exchanging states agree.
\<close>

theorem oplog_merge_refines_join:
  assumes "oplog_wf l" "oplog_wf m" "inj_on op_key (set (log_ops l) \<union> set (log_ops m))"
    and "host_ok h" "oplog_replay l = Inr (s, xs)" "oplog_replay m = Inr (t, ys)"
  shows "\<exists>zs. oplog_replay (oplog_merge l m) = Inr (aws_merge h s t, zs)"
proof -
  have s: "s = ops_meaning (set (log_ops l))" and t: "t = ops_meaning (set (log_ops m))"
    using assms(5,6) by (simp_all add: oplog_replay_def replay_ops_meaning)
  have "aws_merge h s t = ops_meaning (set (log_ops (oplog_merge l m)))"
    using assms(4) by (simp add: s t aws_merge_eq_join oplog_merge_set [OF assms(1-3)] ops_meaning_union)
  then show ?thesis by (simp add: oplog_replay_def replay_ops_meaning)
qed

theorem oplog_merge_refines_join_witness:
  "\<exists>zs. oplog_replay (oplog_merge (oplog_new 1) (oplog_append sorted_host (oplog_new 2) (Add (5::nat) 7))) =
     Inr (aws_merge sorted_host aws_new (aws_add_with_tag aws_new 5 7), zs)"
  by (rule oplog_merge_refines_join [where xs = "[]" and ys = "[]"])
    (auto intro!: oplog_append_wf simp: u64_max_def oplog_replay_def replay_ops_def)

text \<open>
  Compaction of a log never fails and keeps exactly what is observable: the same elements
  under the same live tags and the same supersession history in order. It leaves no tombstone,
  moves to the next epoch, and stays a well-formed log while the clock has room.
\<close>

theorem oplog_compact_preserves:
  assumes "oplog_wf l" "host_ok h"
  shows "\<exists>n l' s supers s'. oplog_compact h l = Inr (n, l') \<and>
    oplog_replay l = Inr (s, supers) \<and> oplog_replay l' = Inr (s', supers) \<and>
    aws_live s' = aws_live s \<and> (\<forall>v. aws_contains s' v = aws_contains s v) \<and>
    aws_tombstones s' = {} \<and> log_epoch l' = sat_add (log_epoch l) 1 \<and>
    (log_clock l + length (log_ops l') \<le> u64_max \<longrightarrow> oplog_wf l')"
proof -
  have b: "log_clock l \<le> u64_max" using assms(1) by (simp add: oplog_wf_def)
  obtain n l' where c: "oplog_compact h l = Inr (n, l')"
    and ops: "log_ops l' = emitted h (log_replica l) (log_clock l) (compact_kinds h (replay_ops (log_ops l)))"
    and ep: "log_epoch l' = sat_add (log_epoch l) 1"
    using oplog_compact_eq [OF b, of h] by auto
  note r = replay_emitted [OF assms(2), of "log_replica l" "log_clock l" "log_ops l", folded ops]
  obtain s supers where s: "replay_ops (log_ops l) = (s, supers)" by fastforce
  obtain s' supers' where s': "replay_ops (log_ops l') = (s', supers')" by fastforce
  show ?thesis
    using r c ep s s' oplog_compact_wf [OF assms(1) c]
    by (auto simp: oplog_replay_def aws_contains_iff_live)
qed

theorem oplog_compact_preserves_witness:
  "\<exists>n l'. oplog_compact sorted_host (oplog_append sorted_host (oplog_append sorted_host
      (oplog_new 1) (Add (5::nat) 7)) (Remove 5 [7])) = Inr (n, l') \<and> log_epoch l' = 1"
proof -
  let ?l = "oplog_append sorted_host (oplog_append sorted_host (oplog_new 1) (Add (5::nat) 7)) (Remove 5 [7])"
  have "oplog_wf ?l"
    by (intro oplog_append_wf) (simp_all add: u64_max_def sat_add_def)
  then have "\<exists>n l'. oplog_compact sorted_host ?l = Inr (n, l') \<and> log_epoch l' = sat_add (log_epoch ?l) 1"
    using oplog_compact_preserves [OF _ sorted_host_ok, of ?l] by blast
  then show ?thesis by (simp add: sat_add_def u64_max_def)
qed

text \<open>
  Merging keeps the log invariant and is idempotent: merging a peer a second time, or a log
  into itself, changes nothing, and every key occurs once.
\<close>

theorem oplog_merge_idempotent:
  assumes "oplog_wf l" "oplog_wf m"
  shows "oplog_wf (oplog_merge l m) \<and> oplog_merge (oplog_merge l m) m = oplog_merge l m
    \<and> oplog_merge l l = l \<and> distinct (map op_key (log_ops (oplog_merge l m)))"
proof -
  have wf: "oplog_wf (oplog_merge l m)" using assms by (rule oplog_merge_wf)
  moreover have "oplog_merge (oplog_merge l m) m = oplog_merge l m"
    by (rule oplog_merge_self [OF wf assms(2)]) (auto simp: oplog_merge_sel)
  moreover have "oplog_merge l l = l"
    using assms(1) by (intro oplog_merge_self) (auto simp: oplog_wf_def)
  ultimately show ?thesis by (simp add: oplog_wf_def)
qed

theorem oplog_merge_idempotent_witness:
  "oplog_merge (oplog_merge (oplog_new 1) (oplog_append sorted_host (oplog_new 2) (Add (5::nat) 7)))
      (oplog_append sorted_host (oplog_new 2) (Add 5 7)) =
   oplog_merge (oplog_new 1) (oplog_append sorted_host (oplog_new 2) (Add 5 7))"
proof -
  have "oplog_wf (oplog_append sorted_host (oplog_new 2) (Add (5::nat) 7))"
    by (rule oplog_append_wf) (simp_all add: u64_max_def)
  then show ?thesis
    using oplog_merge_idempotent [OF oplog_wf_new [of 1]] by blast
qed

text \<open>
  Add wins across logs: an \<open>Add\<close> entry whose tag no \<open>Remove\<close> or \<open>Supersede\<close> entry of either
  log has observed is live after the merge, in both directions; an element of which every tag
  has been observed by some entry is gone.
\<close>

theorem oplog_merge_add_wins:
  assumes "oplog_wf l" "oplog_wf m" "inj_on op_key (set (log_ops l) \<union> set (log_ops m))"
  shows "\<exists>s supers. oplog_replay (oplog_merge l m) = Inr (s, supers) \<and>
    (\<forall>v. aws_contains s v \<longleftrightarrow>
       (\<exists>tag. (\<exists>e \<in> set (log_ops l) \<union> set (log_ops m). op_kind e = Add v tag) \<and>
          (\<forall>e \<in> set (log_ops l) \<union> set (log_ops m). tag \<notin> observed_of (op_kind e))))"
proof -
  have added: "(v, tag) \<in> ops_added X \<longleftrightarrow> (\<exists>e \<in> X. op_kind e = Add v tag)"
    for v tag and X :: "'a sync_op set"
  proof -
    have "(v, tag) \<in> added_of k \<longleftrightarrow> k = Add v tag" for k by (cases k) auto
    then show ?thesis by (simp add: ops_added_def)
  qed
  have "aws_contains (fst (replay_ops (log_ops (oplog_merge l m)))) v \<longleftrightarrow>
     (\<exists>tag. (v, tag) \<in> ops_added (set (log_ops l) \<union> set (log_ops m)) \<and>
        tag \<notin> ops_observed (set (log_ops l) \<union> set (log_ops m)))" for v
    using oplog_merge_set [OF assms]
    by (simp add: replay_ops_meaning aws_contains_iff_live aws_live_ops_meaning)
  then show ?thesis
    by (cases "replay_ops (log_ops (oplog_merge l m))")
      (simp add: oplog_replay_def added ops_observed_def ball_Un)
qed

theorem oplog_merge_add_wins_witness:
  "\<exists>s supers. oplog_replay (oplog_merge
      (oplog_append sorted_host (oplog_new 2) (Add (5::nat) 7))
      (oplog_append sorted_host (oplog_new 3) (Remove 5 [8]))) = Inr (s, supers) \<and> aws_contains s 5"
proof -
  let ?A = "oplog_append sorted_host (oplog_new 2) (Add (5::nat) 7)"
  let ?B = "oplog_append sorted_host (oplog_new 3) (Remove (5::nat) [8])"
  have "oplog_wf ?A" "oplog_wf ?B"
    by (auto intro!: oplog_append_wf simp: u64_max_def)
  moreover have "inj_on op_key (set (log_ops ?A) \<union> set (log_ops ?B))" by (simp add: op_key_def)
  ultimately show ?thesis using oplog_merge_add_wins [of ?A ?B] by fastforce
qed

text \<open>
  Writing a well-formed log and reading it back gives the same log: the index that is not
  serialised is rebuilt exactly.
\<close>

theorem oplog_disk_roundtrip:
  assumes "oplog_wf l"
  shows "oplog_from_disk (oplog_to_disk l) = l"
  using assms by (rule oplog_from_disk_to_disk)

theorem oplog_disk_roundtrip_witness:
  "oplog_from_disk (oplog_to_disk (oplog_append sorted_host (oplog_new 2) (Add (5::nat) 7))) =
     oplog_append sorted_host (oplog_new 2) (Add 5 7)"
  by (rule oplog_disk_roundtrip, rule oplog_append_wf) (simp_all add: u64_max_def)

text \<open>
  The sequence number of a recorded operation is fresh and above every number of the
  replica's own stream exactly as long as the 64-bit clock has room; a saturated clock re-issues
  its last number, and recording under a number already used breaks the invariant.
\<close>

theorem oplog_append_wf_iff:
  assumes "oplog_wf l"
  shows "(oplog_wf (oplog_append h l k) \<longleftrightarrow>
      log_clock l < u64_max \<or> (log_replica l, u64_max) \<notin> log_seen l) \<and>
    (log_clock l < u64_max \<longrightarrow>
      (\<forall>e \<in> set (log_ops l). op_replica e = log_replica l \<longrightarrow>
         op_seq e < op_seq (last (log_ops (oplog_append h l k)))))"
proof (intro conjI)
  show "oplog_wf (oplog_append h l k) \<longleftrightarrow>
      log_clock l < u64_max \<or> (log_replica l, u64_max) \<notin> log_seen l"
  proof (cases "log_clock l < u64_max")
    case True
    then show ?thesis using oplog_append_wf [OF assms True] by simp
  next
    case False
    then have c: "log_clock l = u64_max" "sat_add u64_max (Suc 0) = u64_max"
      using assms by (simp_all add: sat_add_def oplog_wf_def)
    show ?thesis using assms False by (auto simp: oplog_wf_def c op_key_def)
  qed
  show "log_clock l < u64_max \<longrightarrow>
      (\<forall>e \<in> set (log_ops l). op_replica e = log_replica l \<longrightarrow>
         op_seq e < op_seq (last (log_ops (oplog_append h l k))))"
    using assms by (auto simp: oplog_wf_def le_imp_less_Suc)
qed

theorem oplog_append_wf_iff_witness:
  "oplog_wf (oplog_append sorted_host (oplog_new 1) (Add (5::nat) 7))"
  using oplog_append_wf_iff [OF oplog_wf_new [of 1], of sorted_host "Add (5::nat) 7"]
  by (simp add: u64_max_def)

text \<open>The merged log itself, unlike its replay, does depend on the order of the arguments.\<close>

lemma merge_logs_not_symmetric:
  "merge_logs (oplog_new 1) (oplog_new 2) \<noteq> merge_logs (oplog_new 2) (oplog_new 1)"
  by (simp add: merge_logs_def oplog_merge_def oplog_new_def)

end
