(* ===== verification/Sync_Engine.thy ===== *)
theory Sync_Engine
  imports Op_Log
begin

text \<open>
  The sync engine of \<^verbatim>\<open>crates/sync_engine/src/lib.rs\<close>: an operation log with a materialised-state
  cache that every mutation extends, automatic compaction under a policy, merging of peers and of
  delta envelopes, and snapshots. The cache is shown to be coherent with replay after every
  operation, and each operation refines a cache-free, compaction-free specification on the pair of
  live elements and supersession history.
\<close>

section \<open>Compaction policy\<close>

definition default_compact_threshold :: nat where
  "default_compact_threshold = 10000"

text \<open>The bit pattern of the \<^verbatim>\<open>f64\<close> literal 0.3.\<close>

definition default_tombstone_ratio_threshold :: f64 where
  "default_tombstone_ratio_threshold = 4599075939470750515"

definition default_max_delta_bytes :: nat where
  "default_max_delta_bytes = 4194304"

definition mobile_max_delta_bytes :: nat where
  "mobile_max_delta_bytes = 2097152"

definition estimated_bytes_per_op :: nat where
  "estimated_bytes_per_op = 256"

definition min_adaptive_growth :: nat where
  "min_adaptive_growth = default_compact_threshold"

datatype compaction_policy =
    Fixed nat
  | Adaptive f64 nat
  | Disabled

definition policy_default :: compaction_policy where
  "policy_default = Adaptive default_tombstone_ratio_threshold default_max_delta_bytes"

definition policy_mobile_default :: compaction_policy where
  "policy_mobile_default = Adaptive default_tombstone_ratio_threshold mobile_max_delta_bytes"

datatype compact_threshold_setting =
    SettingEnabled nat
  | SettingDisabled
  | SettingAdaptive f64 nat

fun setting_from_engine :: "nat option \<Rightarrow> compact_threshold_setting" where
  "setting_from_engine (Some n) = SettingEnabled n"
| "setting_from_engine None = SettingDisabled"

fun setting_from_policy :: "compaction_policy \<Rightarrow> compact_threshold_setting" where
  "setting_from_policy (Fixed n) = SettingEnabled n"
| "setting_from_policy Disabled = SettingDisabled"
| "setting_from_policy (Adaptive r b) = SettingAdaptive r b"

fun setting_into_engine :: "compact_threshold_setting \<Rightarrow> nat option" where
  "setting_into_engine (SettingEnabled n) = Some n"
| "setting_into_engine SettingDisabled = None"
| "setting_into_engine (SettingAdaptive r b) = None"

fun setting_into_policy :: "compact_threshold_setting \<Rightarrow> compaction_policy" where
  "setting_into_policy (SettingEnabled n) = Fixed n"
| "setting_into_policy SettingDisabled = Disabled"
| "setting_into_policy (SettingAdaptive r b) = Adaptive r b"

section \<open>State\<close>

record 't sync_engine =
  eng_replica :: uuid
  eng_log :: "'t op_log"
  eng_cache :: "'t materialised option"
  eng_watermark :: nat
  eng_policy :: compaction_policy
  eng_baseline :: nat
  eng_tombstone_count :: nat

record 't delta_envelope =
  env_epoch :: nat
  env_since :: nat
  env_ops :: "'t sync_op list"

record 't snapshot_data =
  snap_replica :: uuid
  snap_log :: "'t op_log"
  snap_set :: "'t add_wins_set"
  snap_supersessions :: "('t \<times> 't) list"
  snap_threshold :: "compact_threshold_setting option"

text \<open>The serialised snapshot: its log has lost the \<open>seen\<close> index.\<close>

record 't snapshot_wire =
  wire_replica :: uuid
  wire_log :: "'t op_log_on_disk"
  wire_set :: "'t add_wins_set"
  wire_supersessions :: "('t \<times> 't) list"
  wire_threshold :: "compact_threshold_setting option"

section \<open>Construction and configuration\<close>

definition engine_from_log :: "uuid \<Rightarrow> 't op_log \<Rightarrow> 't sync_engine" where
  "engine_from_log r l =
     \<lparr>eng_replica = r, eng_log = l, eng_cache = None, eng_watermark = 0,
      eng_policy = policy_default, eng_baseline = length (log_ops l), eng_tombstone_count = 0\<rparr>"

definition engine_with_replica_id :: "uuid \<Rightarrow> 't sync_engine" where
  "engine_with_replica_id r = engine_from_log r (oplog_new r)"

text \<open>\<open>new\<close> with the freshly generated replica id as its argument.\<close>

definition engine_new :: "uuid \<Rightarrow> 't sync_engine" where
  "engine_new fresh = engine_from_log fresh (oplog_new fresh)"

definition engine_with_compact_threshold :: "'t sync_engine \<Rightarrow> nat option \<Rightarrow> 't sync_engine" where
  "engine_with_compact_threshold e threshold =
     e\<lparr>eng_policy := (case threshold of Some n \<Rightarrow> Fixed n | None \<Rightarrow> Disabled)\<rparr>"

definition engine_compact_threshold :: "'t sync_engine \<Rightarrow> nat option" where
  "engine_compact_threshold e = (case eng_policy e of Fixed n \<Rightarrow> Some n | _ \<Rightarrow> None)"

definition engine_with_compaction_policy ::
  "'t sync_engine \<Rightarrow> compaction_policy \<Rightarrow> 't sync_engine" where
  "engine_with_compaction_policy e p = e\<lparr>eng_policy := p\<rparr>"

section \<open>The cache\<close>

definition engine_invalidate_cache :: "'t sync_engine \<Rightarrow> 't sync_engine" where
  "engine_invalidate_cache e = e\<lparr>eng_cache := None, eng_watermark := 0\<rparr>"

text \<open>\<open>op_log_mut\<close>: the cache goes, and the caller's mutation of the log is the argument.\<close>

definition engine_op_log_mut :: "'t sync_engine \<Rightarrow> ('t op_log \<Rightarrow> 't op_log) \<Rightarrow> 't sync_engine" where
  "engine_op_log_mut e f = (let e' = engine_invalidate_cache e in e'\<lparr>eng_log := f (eng_log e')\<rparr>)"

definition apply_op_to :: "'t sync_op \<Rightarrow> 't materialised \<Rightarrow> 't materialised" where
  "apply_op_to entry = (\<lambda>(s, supers).
     (case op_kind entry of
        Add value tag \<Rightarrow> (aws_add_with_tag s value tag, supers)
      | Remove value observed \<Rightarrow> (aws_remove_tags s value observed, supers)
      | Supersede value successor observed \<Rightarrow>
          (aws_remove_tags s value observed, supers @ [(value, successor)])))"

definition engine_materialise :: "'t sync_engine \<Rightarrow> sync_error + 't sync_engine" where
  "engine_materialise e =
     (let len = length (log_ops (eng_log e));
          full = (case oplog_replay (eng_log e) of
                    Inl err \<Rightarrow> Inl err
                  | Inr m \<Rightarrow> Inr (e\<lparr>eng_cache := Some m, eng_watermark := len\<rparr>))
      in (case eng_cache e of
            Some m \<Rightarrow>
              if eng_watermark e \<le> len then
                (if eng_watermark e = len then Inr e
                 else Inr (e\<lparr>eng_cache := Some (fold apply_op_to
                                (drop (eng_watermark e) (log_ops (eng_log e))) m),
                             eng_watermark := len\<rparr>))
              else full
          | None \<Rightarrow> full))"

definition engine_state :: "'t sync_engine \<Rightarrow> sync_error + 't materialised \<times> 't sync_engine" where
  "engine_state e =
     (case engine_materialise e of
        Inl err \<Rightarrow> Inl err
      | Inr e' \<Rightarrow> (case eng_cache e' of
                     None \<Rightarrow> Inl (PersistenceError ''materialise() populates the cache on success'')
                   | Some m \<Rightarrow> Inr (m, e')))"

section \<open>Compaction\<close>

definition engine_compact :: "'t host \<Rightarrow> 't sync_engine \<Rightarrow> (sync_error + nat) \<times> 't sync_engine" where
  "engine_compact h e =
     (case oplog_compact h (eng_log e) of
        Inl err \<Rightarrow> (Inl err, e)
      | Inr (removed, l) \<Rightarrow>
          (let e1 = engine_invalidate_cache (e\<lparr>eng_log := l\<rparr>)
           in (case engine_materialise e1 of
                 Inl err \<Rightarrow> (Inl err, e1)
               | Inr e2 \<Rightarrow> (Inr removed,
                   e2\<lparr>eng_baseline := length (log_ops (eng_log e2)), eng_tombstone_count := 0\<rparr>))))"

definition engine_should_compact :: "'t host \<Rightarrow> 't sync_engine \<Rightarrow> bool" where
  "engine_should_compact h e =
     (let growth = length (log_ops (eng_log e)) - eng_baseline e
      in (case eng_policy e of
            Disabled \<Rightarrow> False
          | Fixed threshold \<Rightarrow> growth > threshold
          | Adaptive tombstone_ratio_threshold max_delta_bytes \<Rightarrow>
              (if growth \<le> min_adaptive_growth then False
               else h_ratio_gt h (eng_tombstone_count e) growth tombstone_ratio_threshold
                    \<or> sat_mul growth estimated_bytes_per_op > max_delta_bytes)))"

definition engine_maybe_auto_compact :: "'t host \<Rightarrow> 't sync_engine \<Rightarrow> 't sync_engine" where
  "engine_maybe_auto_compact h e =
     (if engine_should_compact h e then snd (engine_compact h e) else e)"

section \<open>Mutations\<close>

text \<open>The tag drawn from the UUID generator by \<open>add\<close> is an argument.\<close>

definition engine_add :: "'t host \<Rightarrow> uuid \<Rightarrow> 't sync_engine \<Rightarrow> 't \<Rightarrow> uuid \<times> 't sync_engine" where
  "engine_add h fresh e value =
     (let (tag, l) = oplog_record_add h fresh (eng_log e) value;
          e1 = e\<lparr>eng_log := l\<rparr>;
          e2 = (case eng_cache e1 of
                  None \<Rightarrow> e1
                | Some (s, supers) \<Rightarrow>
                    e1\<lparr>eng_cache := Some (aws_add_with_tag s value tag, supers),
                       eng_watermark := length (log_ops l)\<rparr>)
      in (tag, engine_maybe_auto_compact h e2))"

definition engine_observed :: "'t host \<Rightarrow> 't sync_engine \<Rightarrow> 't \<Rightarrow> uuid list" where
  "engine_observed h e value =
     (case eng_cache e of
        None \<Rightarrow> []
      | Some (s, _) \<Rightarrow> filter (\<lambda>tag. tag \<notin> aws_tombstones s) (aws_tags_for h s value))"

definition engine_remove :: "'t host \<Rightarrow> 't sync_engine \<Rightarrow> 't \<Rightarrow> 't sync_engine" where
  "engine_remove h e value =
     (case engine_materialise e of
        Inl _ \<Rightarrow> e
      | Inr e1 \<Rightarrow>
          (let observed = engine_observed h e1 value
           in if observed = [] then e1
              else (let l = oplog_record_remove h (eng_log e1) value observed;
                        e2 = e1\<lparr>eng_log := l, eng_tombstone_count := eng_tombstone_count e1 + 1\<rparr>;
                        e3 = (case eng_cache e2 of
                                None \<Rightarrow> e2
                              | Some (s, supers) \<Rightarrow>
                                  e2\<lparr>eng_cache := Some (aws_remove_tags s value observed, supers),
                                     eng_watermark := length (log_ops l)\<rparr>)
                    in engine_maybe_auto_compact h e3)))"

definition engine_supersede :: "'t host \<Rightarrow> 't sync_engine \<Rightarrow> 't \<Rightarrow> 't \<Rightarrow> 't sync_engine" where
  "engine_supersede h e value successor =
     (case engine_materialise e of
        Inl _ \<Rightarrow> e
      | Inr e1 \<Rightarrow>
          (let observed = engine_observed h e1 value;
               l = oplog_record_supersede h (eng_log e1) value successor observed;
               e2 = e1\<lparr>eng_log := l, eng_tombstone_count := eng_tombstone_count e1 + 1\<rparr>;
               e3 = (case eng_cache e2 of
                       None \<Rightarrow> e2
                     | Some (s, supers) \<Rightarrow>
                         e2\<lparr>eng_cache := Some (aws_remove_tags s value observed,
                                               supers @ [(value, successor)]),
                            eng_watermark := length (log_ops l)\<rparr>)
           in engine_maybe_auto_compact h e3))"

fun is_tombstone_op :: "'t sync_op_kind \<Rightarrow> bool" where
  "is_tombstone_op (Add _ _) = False"
| "is_tombstone_op (Remove _ _) = True"
| "is_tombstone_op (Supersede _ _ _) = True"

text \<open>
  The shared tail of \<open>merge\<close> and \<open>merge_delta_envelope\<close>: count the tombstones among the entries
  past \<open>before\<close>, extend the cache with them.
\<close>

definition engine_extend :: "nat \<Rightarrow> 't sync_engine \<Rightarrow> 't sync_engine" where
  "engine_extend before e =
     (let new = drop before (log_ops (eng_log e));
          e1 = e\<lparr>eng_tombstone_count := eng_tombstone_count e
                   + length (filter (\<lambda>op. is_tombstone_op (op_kind op)) new)\<rparr>
      in (case eng_cache e1 of
            None \<Rightarrow> e1
          | Some m \<Rightarrow> e1\<lparr>eng_cache := Some (fold apply_op_to new m),
                        eng_watermark := length (log_ops (eng_log e1))\<rparr>))"

definition engine_merge :: "'t host \<Rightarrow> 't sync_engine \<Rightarrow> 't sync_engine \<Rightarrow> 't sync_engine" where
  "engine_merge h e other =
     (let before = length (log_ops (eng_log e));
          e1 = e\<lparr>eng_log := oplog_merge (eng_log e) (eng_log other)\<rparr>
      in engine_maybe_auto_compact h (engine_extend before e1))"

definition engine_merge_delta_envelope ::
  "'t host \<Rightarrow> 't sync_engine \<Rightarrow> 't delta_envelope \<Rightarrow> nat \<times> 't sync_engine" where
  "engine_merge_delta_envelope h e env =
     (let before = length (log_ops (eng_log e));
          l = fold (\<lambda>op l. snd (oplog_merge_single l op)) (env_ops env) (eng_log e);
          after = length (log_ops l);
          e1 = e\<lparr>eng_log := l\<lparr>log_epoch := max (log_epoch l) (env_epoch env)\<rparr>\<rparr>
      in (after - before, engine_maybe_auto_compact h (engine_extend before e1)))"

section \<open>Snapshots\<close>

definition snapshot_to_wire :: "'t snapshot_data \<Rightarrow> 't snapshot_wire" where
  "snapshot_to_wire s =
     \<lparr>wire_replica = snap_replica s, wire_log = oplog_to_disk (snap_log s),
      wire_set = snap_set s, wire_supersessions = snap_supersessions s,
      wire_threshold = snap_threshold s\<rparr>"

definition snapshot_from_wire :: "'t snapshot_wire \<Rightarrow> 't snapshot_data" where
  "snapshot_from_wire w =
     \<lparr>snap_replica = wire_replica w, snap_log = oplog_from_disk (wire_log w),
      snap_set = wire_set w, snap_supersessions = wire_supersessions w,
      snap_threshold = wire_threshold w\<rparr>"

text \<open>
  \<open>snapshot\<close>, \<open>restore_snapshot\<close> and \<open>bootstrap_from_snapshot_with_replica_id\<close>. The JSON codec
  (\<^verbatim>\<open>serde_json\<close>) is the parameter \<open>to_vec\<close> and \<open>from_slice\<close>, each returning \<open>None\<close> on failure.
\<close>

definition engine_snapshot ::
  "('t snapshot_wire \<Rightarrow> byte list option) \<Rightarrow> 't sync_engine \<Rightarrow> sync_error + byte list \<times> 't sync_engine" where
  "engine_snapshot to_vec e =
     (case engine_state e of
        Inl err \<Rightarrow> Inl err
      | Inr ((s, supers), e') \<Rightarrow>
          (let snap = \<lparr>snap_replica = eng_replica e', snap_log = eng_log e', snap_set = s,
                 snap_supersessions = supers,
                 snap_threshold = (if eng_policy e' = policy_default then None
                                   else Some (setting_from_policy (eng_policy e')))\<rparr>
           in (case to_vec (snapshot_to_wire snap) of
                 None \<Rightarrow> Inl (Serialisation ''could not serialise engine snapshot'')
               | Some bytes \<Rightarrow> Inr (bytes, e'))))"

definition snapshot_decode ::
  "(byte list \<Rightarrow> 't snapshot_wire option) \<Rightarrow> byte list \<Rightarrow> sync_error + 't snapshot_data" where
  "snapshot_decode from_slice bytes =
     (case from_slice bytes of
        None \<Rightarrow> Inl (Serialisation ''could not deserialise engine snapshot'')
      | Some w \<Rightarrow>
          (let snap = snapshot_from_wire w
           in if log_replica (snap_log snap) \<noteq> snap_replica snap
              then Inl (Serialisation ''snapshot replica_id does not match log.replica_id'')
              else Inr snap))"

definition engine_hydrate :: "'t snapshot_data \<Rightarrow> 't sync_engine \<Rightarrow> 't sync_engine" where
  "engine_hydrate snap e =
     (let e1 = (case snap_threshold snap of
                  None \<Rightarrow> e
                | Some setting \<Rightarrow> engine_with_compaction_policy e (setting_into_policy setting))
      in e1\<lparr>eng_cache := Some (snap_set snap, snap_supersessions snap),
            eng_watermark := length (log_ops (eng_log e1))\<rparr>)"

definition engine_restore_snapshot ::
  "(byte list \<Rightarrow> 't snapshot_wire option) \<Rightarrow> byte list \<Rightarrow> sync_error + 't sync_engine" where
  "engine_restore_snapshot from_slice bytes =
     (case snapshot_decode from_slice bytes of
        Inl err \<Rightarrow> Inl err
      | Inr snap \<Rightarrow> Inr (engine_hydrate snap (engine_from_log (snap_replica snap) (snap_log snap))))"

definition engine_bootstrap_with_replica_id ::
  "(byte list \<Rightarrow> 't snapshot_wire option) \<Rightarrow> byte list \<Rightarrow> uuid \<Rightarrow> sync_error + 't sync_engine" where
  "engine_bootstrap_with_replica_id from_slice bytes new_replica_id =
     (case snapshot_decode from_slice bytes of
        Inl err \<Rightarrow> Inl err
      | Inr snap \<Rightarrow>
          (let l = fold (\<lambda>op l. snd (oplog_merge_single l op)) (log_ops (snap_log snap))
                     (oplog_new new_replica_id);
               l' = l\<lparr>log_epoch := log_epoch (snap_log snap)\<rparr>
           in Inr (engine_hydrate snap (engine_from_log new_replica_id l'))))"

definition engine_bootstrap_from_snapshot ::
  "(byte list \<Rightarrow> 't snapshot_wire option) \<Rightarrow> uuid \<Rightarrow> byte list \<Rightarrow> sync_error + 't sync_engine" where
  "engine_bootstrap_from_snapshot from_slice fresh bytes =
     engine_bootstrap_with_replica_id from_slice bytes fresh"

section \<open>Cache coherence\<close>

text \<open>
  The invariant of an engine: a present cache covers the whole log and is its replay; the
  counters stay within 64 bits.
\<close>

definition engine_inv :: "'t sync_engine \<Rightarrow> bool" where
  "engine_inv e \<longleftrightarrow>
     (case eng_cache e of
        None \<Rightarrow> True
      | Some m \<Rightarrow> eng_watermark e = length (log_ops (eng_log e)) \<and> m = replay_ops (log_ops (eng_log e)))
     \<and> log_clock (eng_log e) \<le> u64_max \<and> (\<forall>op \<in> set (log_ops (eng_log e)). op_seq op \<le> u64_max)"

text \<open>The state without the cache.\<close>

abbreviation engine_ops :: "'t sync_engine \<Rightarrow> 't sync_op list" where
  "engine_ops e \<equiv> log_ops (eng_log e)"

abbreviation engine_refreshed :: "'t sync_engine \<Rightarrow> 't sync_engine" where
  "engine_refreshed e \<equiv> e\<lparr>eng_cache := Some (replay_ops (engine_ops e)), eng_watermark := length (engine_ops e)\<rparr>"

lemma apply_op_to_replay: "apply_op_to = (\<lambda>e. replay_step (op_kind e))"
  by (auto simp: apply_op_to_def fun_eq_iff split: sync_op_kind.splits)

lemma fold_apply_op_to: "fold apply_op_to ys (replay_ops xs) = replay_ops (xs @ ys)"
  by (simp add: apply_op_to_replay replay_ops_append)

lemma materialise_eq: "engine_inv e \<Longrightarrow> engine_materialise e = Inr (engine_refreshed e)"
  by (auto simp: engine_inv_def engine_materialise_def oplog_replay_def Let_def split: option.splits)

lemma engine_state_eq:
  "engine_inv e \<Longrightarrow> engine_state e = Inr (replay_ops (engine_ops e), engine_refreshed e)"
  by (simp add: engine_state_def materialise_eq)

lemma engine_inv_refreshed [simp]: "engine_inv e \<Longrightarrow> engine_inv (engine_refreshed e)"
  by (simp add: engine_inv_def split: option.splits)

lemma engine_inv_new [simp]: "engine_inv (engine_new r)"
  by (simp add: engine_inv_def engine_new_def engine_from_log_def u64_max_def)

lemma engine_compact_eq:
  fixes h :: "'t host"
  assumes "engine_inv e"
  defines "ks \<equiv> compact_kinds h (replay_ops (engine_ops e))"
  shows "\<exists>e'. engine_compact h e = (Inr (length (engine_ops e) - length ks), e') \<and> engine_inv e' \<and>
    engine_ops e' = emitted h (log_replica (eng_log e)) (log_clock (eng_log e)) ks \<and>
    log_epoch (eng_log e') = sat_add (log_epoch (eng_log e)) 1 \<and>
    log_replica (eng_log e') = log_replica (eng_log e) \<and> eng_policy e' = eng_policy e \<and>
    eng_replica e' = eng_replica e \<and>
    eng_baseline e' = length (engine_ops e') \<and> eng_tombstone_count e' = 0"
proof -
  have b: "log_clock (eng_log e) \<le> u64_max" using assms(1) by (simp add: engine_inv_def)
  then show ?thesis
    by (auto simp: engine_compact_def oplog_compact_eq ks_def engine_invalidate_cache_def Let_def
        engine_materialise_def oplog_replay_def engine_inv_def dest: emitted_seq)
qed

lemma engine_auto_compact_inv: "engine_inv e \<Longrightarrow> engine_inv (engine_maybe_auto_compact h e)"
  using engine_compact_eq [of e h] by (auto simp: engine_maybe_auto_compact_def)

text \<open>
  Each local mutation records one entry, keeps the cache in step and ends in the compaction hook.
\<close>

lemma engine_add_records:
  assumes "engine_inv e"
  shows "\<exists>e2 op. engine_add h tag e v = (tag, engine_maybe_auto_compact h e2) \<and> engine_inv e2 \<and>
    engine_ops e2 = engine_ops e @ [op] \<and> op_kind op = Add v tag"
proof -
  let ?l = "oplog_append h (eng_log e) (Add v tag)"
  let ?e2 = "(case eng_cache e of None \<Rightarrow> e\<lparr>eng_log := ?l\<rparr>
    | Some (s, supers) \<Rightarrow> e\<lparr>eng_log := ?l, eng_cache := Some (aws_add_with_tag s v tag, supers),
        eng_watermark := length (log_ops ?l)\<rparr>)"
  have "engine_add h tag e v = (tag, engine_maybe_auto_compact h ?e2)"
    by (simp add: engine_add_def oplog_record_add_def Let_def split: option.split)
  moreover have "engine_inv ?e2" using assms by (auto simp: engine_inv_def split: option.splits)
  moreover have "eng_log ?e2 = ?l" by (simp split: option.split)
  ultimately show ?thesis by fastforce
qed

lemma engine_remove_records:
  assumes "engine_inv e" "engine_observed h (engine_refreshed e) v \<noteq> []"
  shows "\<exists>e2 op. engine_remove h e v = engine_maybe_auto_compact h e2 \<and> engine_inv e2 \<and>
    engine_ops e2 = engine_ops e @ [op] \<and>
    op_kind op = Remove v (engine_observed h (engine_refreshed e) v)"
proof -
  obtain s supers where r: "replay_ops (engine_ops e) = (s, supers)" by fastforce
  let ?obs = "engine_observed h (engine_refreshed e) v"
  let ?l = "oplog_append h (eng_log e) (Remove v ?obs)"
  let ?e2 = "e\<lparr>eng_log := ?l, eng_tombstone_count := eng_tombstone_count e + 1,
    eng_cache := Some (aws_remove_tags s v ?obs, supers), eng_watermark := length (log_ops ?l)\<rparr>"
  have "engine_remove h e v = engine_maybe_auto_compact h ?e2"
    using assms r by (simp add: engine_remove_def materialise_eq oplog_record_remove_def Let_def)
  moreover have "engine_inv ?e2" using assms(1) r by (auto simp: engine_inv_def)
  ultimately show ?thesis by fastforce
qed

lemma engine_remove_nothing:
  assumes "engine_inv e" "engine_observed h (engine_refreshed e) v = []"
  shows "engine_remove h e v = engine_refreshed e"
  using assms by (simp add: engine_remove_def materialise_eq)

lemma engine_supersede_records:
  assumes "engine_inv e"
  shows "\<exists>e2 op. engine_supersede h e v w = engine_maybe_auto_compact h e2 \<and> engine_inv e2 \<and>
    engine_ops e2 = engine_ops e @ [op] \<and>
    op_kind op = Supersede v w (engine_observed h (engine_refreshed e) v)"
proof -
  obtain s supers where r: "replay_ops (engine_ops e) = (s, supers)" by fastforce
  let ?obs = "engine_observed h (engine_refreshed e) v"
  let ?l = "oplog_append h (eng_log e) (Supersede v w ?obs)"
  let ?e2 = "e\<lparr>eng_log := ?l, eng_tombstone_count := eng_tombstone_count e + 1,
    eng_cache := Some (aws_remove_tags s v ?obs, supers @ [(v, w)]),
    eng_watermark := length (log_ops ?l)\<rparr>"
  have "engine_supersede h e v w = engine_maybe_auto_compact h ?e2"
    using assms r by (simp add: engine_supersede_def materialise_eq oplog_record_supersede_def Let_def)
  moreover have "engine_inv ?e2" using assms(1) r by (auto simp: engine_inv_def)
  ultimately show ?thesis by fastforce
qed

lemma engine_extend_inv:
  assumes "engine_inv e" "eng_log e' = l" "eng_cache e' = eng_cache e"
    and "log_ops l = engine_ops e @ new"
    and "log_clock l \<le> u64_max" "\<forall>op \<in> set new. op_seq op \<le> u64_max"
  shows "engine_inv (engine_extend (length (engine_ops e)) e')"
proof (cases "eng_cache e")
  case None
  then show ?thesis using assms by (auto simp: engine_inv_def engine_extend_def Let_def)
next
  case (Some m)
  then have "m = replay_ops (engine_ops e)" using assms(1) by (simp add: engine_inv_def)
  then show ?thesis
    using assms Some by (auto simp: engine_inv_def engine_extend_def Let_def fold_apply_op_to)
qed

lemma merge_entry_grows:
  assumes "\<forall>op \<in> set es. op_seq op \<le> u64_max" "log_clock l \<le> u64_max"
  shows "\<exists>new. log_ops (fold oplog_merge_entry es l) = log_ops l @ new \<and> set new \<subseteq> set es
    \<and> log_clock (fold oplog_merge_entry es l) \<le> u64_max"
  using assms
proof (induction es arbitrary: l)
  case (Cons e es)
  have "log_clock (oplog_merge_entry e l) \<le> u64_max"
    using Cons.prems by (auto simp: oplog_merge_entry_def Let_def)
  from Cons.IH [OF _ this] Cons.prems obtain new where
    new: "log_ops (fold oplog_merge_entry es (oplog_merge_entry e l)) = log_ops (oplog_merge_entry e l) @ new"
      "set new \<subseteq> set es" "log_clock (fold oplog_merge_entry es (oplog_merge_entry e l)) \<le> u64_max"
    by auto
  then show ?case
    by (intro exI [of _ "(if op_key e \<in> log_seen l then [] else [e]) @ new"])
      (auto simp: oplog_merge_entry_sel)
qed simp

lemma merge_single_fold:
  "fold (\<lambda>op l. snd (oplog_merge_single l op)) es l = fold oplog_merge_entry es l"
  by (induction es arbitrary: l) (simp_all add: oplog_merge_entry_single)

lemma merge_foreign_clock:
  "\<forall>op \<in> set es. op_replica op \<noteq> r \<Longrightarrow> log_clock (fold oplog_merge_entry es (oplog_new r)) = 0"
proof -
  have "log_clock (fold oplog_merge_entry es l) = log_clock l"
    if "\<forall>op \<in> set es. op_replica op \<noteq> log_replica l" for es and l :: "'a op_log"
    using that
    by (induction es arbitrary: l) (auto simp: oplog_merge_entry_sel, auto simp: oplog_merge_entry_def Let_def)
  then show "\<forall>op \<in> set es. op_replica op \<noteq> r \<Longrightarrow> ?thesis" by simp
qed

lemma engine_merge_inv:
  assumes "engine_inv e" "engine_inv other"
  shows "engine_inv (engine_merge h e other)"
proof -
  obtain new where "log_ops (fold oplog_merge_entry (engine_ops other) (eng_log e)) = engine_ops e @ new"
    "set new \<subseteq> set (engine_ops other)"
    "log_clock (fold oplog_merge_entry (engine_ops other) (eng_log e)) \<le> u64_max"
    using merge_entry_grows [of "engine_ops other" "eng_log e"] assms by (auto simp: engine_inv_def)
  then show ?thesis
    using assms unfolding engine_merge_def Let_def
    by (intro engine_auto_compact_inv engine_extend_inv [OF assms(1) refl, where new = new])
      (auto simp: oplog_merge_def Let_def engine_inv_def)
qed

lemma engine_merge_delta_inv:
  assumes "engine_inv e" "\<forall>op \<in> set (env_ops env). op_seq op \<le> u64_max"
  shows "engine_inv (snd (engine_merge_delta_envelope h e env))"
proof -
  obtain new where "log_ops (fold oplog_merge_entry (env_ops env) (eng_log e)) = engine_ops e @ new"
    "set new \<subseteq> set (env_ops env)"
    "log_clock (fold oplog_merge_entry (env_ops env) (eng_log e)) \<le> u64_max"
    using merge_entry_grows [of "env_ops env" "eng_log e"] assms by (auto simp: engine_inv_def)
  then show ?thesis
    using assms unfolding engine_merge_delta_envelope_def Let_def snd_conv merge_single_fold
    by (intro engine_auto_compact_inv engine_extend_inv [OF assms(1) refl, where new = new]) auto
qed

section \<open>The observable state and its specification\<close>

text \<open>
  What a caller can see of an engine: the pairs of a live element and a live tag, and the history
  of supersessions. The specification of each command works on that pair alone; it knows neither
  cache nor compaction.
\<close>

type_synonym 't engine_view = "('t \<times> uuid) set \<times> ('t \<times> 't) list"

definition engine_view :: "'t sync_engine \<Rightarrow> 't engine_view" where
  "engine_view e = (aws_live (fst (replay_ops (engine_ops e))), snd (replay_ops (engine_ops e)))"

datatype 't engine_cmd =
    CmdAdd uuid 't
  | CmdRemove 't
  | CmdSupersede 't 't
  | CmdCompact
  | CmdState

fun engine_exec :: "'t host \<Rightarrow> 't engine_cmd \<Rightarrow> 't sync_engine \<Rightarrow> 't sync_engine" where
  "engine_exec h (CmdAdd tag v) e = snd (engine_add h tag e v)"
| "engine_exec h (CmdRemove v) e = engine_remove h e v"
| "engine_exec h (CmdSupersede v w) e = engine_supersede h e v w"
| "engine_exec h CmdCompact e = snd (engine_compact h e)"
| "engine_exec h CmdState e = (case engine_state e of Inl _ \<Rightarrow> e | Inr (_, e') \<Rightarrow> e')"

fun spec_exec :: "'t engine_cmd \<Rightarrow> 't engine_view \<Rightarrow> 't engine_view" where
  "spec_exec (CmdAdd tag v) (L, S) = (insert (v, tag) L, S)"
| "spec_exec (CmdRemove v) (L, S) = ({(w, tag) \<in> L. (v, tag) \<notin> L}, S)"
| "spec_exec (CmdSupersede v w) (L, S) = ({(x, tag) \<in> L. (v, tag) \<notin> L}, S @ [(v, w)])"
| "spec_exec CmdCompact (L, S) = (L, S)"
| "spec_exec CmdState (L, S) = (L, S)"

text \<open>A command draws a tag that the engine has not tombstoned: what UUID v4 generation gives.\<close>

fun cmd_fresh :: "'t engine_cmd \<Rightarrow> 't sync_engine \<Rightarrow> bool" where
  "cmd_fresh (CmdAdd tag v) e \<longleftrightarrow> tag \<notin> ops_observed (set (engine_ops e))"
| "cmd_fresh _ e \<longleftrightarrow> True"

lemma engine_compact_view:
  assumes "engine_inv e" "host_ok h"
  shows "engine_view (snd (engine_compact h e)) = engine_view e"
  using engine_compact_eq [OF assms(1), of h] replay_emitted [OF assms(2)]
  by (auto simp: engine_view_def)

lemma engine_auto_compact_view:
  "engine_inv e \<Longrightarrow> host_ok h \<Longrightarrow> engine_view (engine_maybe_auto_compact h e) = engine_view e"
  by (simp add: engine_maybe_auto_compact_def engine_compact_view)

lemma engine_view_append:
  "engine_ops e' = engine_ops e @ [op] \<Longrightarrow>
     engine_view e' = (aws_live (fst (replay_step (op_kind op) (replay_ops (engine_ops e)))),
       snd (replay_step (op_kind op) (replay_ops (engine_ops e))))"
  by (simp add: engine_view_def)

lemma replay_tombstones: "aws_tombstones (fst (replay_ops ops)) = ops_observed (set ops)"
  by (simp add: replay_ops_meaning ops_meaning_def)

lemma engine_merge_view:
  assumes "engine_inv x" "engine_inv y" "host_ok h"
  shows "engine_view (engine_merge h x y) =
      (aws_live (fst (replay_ops (log_ops (oplog_merge (eng_log x) (eng_log y))))),
       snd (replay_ops (log_ops (oplog_merge (eng_log x) (eng_log y)))))"
proof -
  let ?e = "engine_extend (length (engine_ops x)) (x\<lparr>eng_log := oplog_merge (eng_log x) (eng_log y)\<rparr>)"
  obtain new where new: "log_ops (fold oplog_merge_entry (engine_ops y) (eng_log x)) = engine_ops x @ new"
    "set new \<subseteq> set (engine_ops y)" "log_clock (fold oplog_merge_entry (engine_ops y) (eng_log x)) \<le> u64_max"
    using merge_entry_grows [of "engine_ops y" "eng_log x"] assms by (auto simp: engine_inv_def)
  then have "engine_inv ?e"
    using assms(2) by (intro engine_extend_inv [OF assms(1) refl, where new = new])
      (auto simp: oplog_merge_def Let_def engine_inv_def)
  then have "engine_view (engine_merge h x y) = engine_view ?e"
    using assms(3) by (simp add: engine_merge_def Let_def engine_auto_compact_view)
  then show ?thesis by (simp add: engine_view_def engine_extend_def Let_def split: option.split)
qed

lemma set_engine_observed:
  assumes "host_ok h"
  shows "set (engine_observed h (engine_refreshed e) v) = {tag. (v, tag) \<in> fst (engine_view e)}"
proof -
  obtain s supers where "replay_ops (engine_ops e) = (s, supers)" by fastforce
  then show ?thesis
    using assms by (cases "aws_elements s v")
      (auto simp: engine_observed_def engine_view_def aws_tags_for_def aws_live_def)
qed

lemma engine_exec_inv: "engine_inv e \<Longrightarrow> engine_inv (engine_exec h c e)"
proof (cases c)
  case (CmdAdd tag v)
  then show "engine_inv e \<Longrightarrow> ?thesis"
    using engine_add_records [of e h tag v] by (auto simp: engine_auto_compact_inv)
next
  case (CmdRemove v)
  then show "engine_inv e \<Longrightarrow> ?thesis"
    using engine_remove_records [of e h v] engine_remove_nothing [of e h v]
    by (cases "engine_observed h (engine_refreshed e) v = []") (auto simp: engine_auto_compact_inv)
next
  case (CmdSupersede v w)
  then show "engine_inv e \<Longrightarrow> ?thesis"
    using engine_supersede_records [of e h v w] by (auto simp: engine_auto_compact_inv)
next
  case CmdCompact
  then show "engine_inv e \<Longrightarrow> ?thesis" using engine_compact_eq [of e h] by auto
next
  case CmdState
  then show "engine_inv e \<Longrightarrow> ?thesis" by (simp add: engine_state_eq)
qed

lemma engine_exec_view:
  assumes "engine_inv e" "host_ok h" "cmd_fresh c e"
  shows "engine_view (engine_exec h c e) = spec_exec c (engine_view e)"
proof (cases c)
  case (CmdAdd tag v)
  obtain e2 op where e2: "engine_add h tag e v = (tag, engine_maybe_auto_compact h e2)" "engine_inv e2"
    "engine_ops e2 = engine_ops e @ [op]" "op_kind op = Add v tag"
    using engine_add_records [OF assms(1)] by blast
  obtain s supers where r: "replay_ops (engine_ops e) = (s, supers)" by fastforce
  have "tag \<notin> aws_tombstones s"
    using assms(3) CmdAdd replay_tombstones [of "engine_ops e"] by (simp add: r)
  then show ?thesis
    using CmdAdd e2 assms(2) engine_view_append [OF e2(3)]
    by (simp add: engine_auto_compact_view r aws_live_add engine_view_def [of e])
next
  case (CmdRemove v)
  show ?thesis
  proof (cases "engine_observed h (engine_refreshed e) v = []")
    case True
    then have "\<forall>tag. (v, tag) \<notin> fst (engine_view e)"
      using set_engine_observed [OF assms(2), of e v] by auto
    then have "spec_exec c (engine_view e) = engine_view e"
      by (cases "engine_view e") (auto simp: CmdRemove)
    then show ?thesis
      using CmdRemove engine_remove_nothing [OF assms(1) True] by (simp add: engine_view_def)
  next
    case False
    obtain e2 op where e2: "engine_remove h e v = engine_maybe_auto_compact h e2" "engine_inv e2"
      "engine_ops e2 = engine_ops e @ [op]" "op_kind op = Remove v (engine_observed h (engine_refreshed e) v)"
      using engine_remove_records [OF assms(1) False] by blast
    show ?thesis
      using CmdRemove e2 assms(2) engine_view_append [OF e2(3)] set_engine_observed [OF assms(2), of e v]
      by (cases "replay_ops (engine_ops e)")
        (auto simp: engine_auto_compact_view aws_live_remove_tags engine_view_def [of e])
  qed
next
  case (CmdSupersede v w)
  obtain e2 op where e2: "engine_supersede h e v w = engine_maybe_auto_compact h e2" "engine_inv e2"
    "engine_ops e2 = engine_ops e @ [op]" "op_kind op = Supersede v w (engine_observed h (engine_refreshed e) v)"
    using engine_supersede_records [OF assms(1)] by blast
  show ?thesis
    using CmdSupersede e2 assms(2) engine_view_append [OF e2(3)] set_engine_observed [OF assms(2), of e v]
    by (cases "replay_ops (engine_ops e)")
      (auto simp: engine_auto_compact_view aws_live_remove_tags engine_view_def [of e])
next
  case CmdCompact
  then show ?thesis
    using engine_compact_view [OF assms(1,2)] by (cases "engine_view e") simp
next
  case CmdState
  then show ?thesis
    using assms(1) by (cases "engine_view e") (simp add: engine_state_eq engine_view_def)
qed

section \<open>Reachable engines\<close>

text \<open>
  The engines a program can build: a new engine, any command, any merge, any delta, any
  reconfiguration, and any mutation of the log through \<open>op_log_mut\<close> that stays within 64 bits.
\<close>

inductive engine_reach :: "'t sync_engine \<Rightarrow> bool" where
  reach_new: "engine_reach (engine_new r)"
| reach_exec: "engine_reach e \<Longrightarrow> engine_reach (engine_exec h c e)"
| reach_merge: "engine_reach e \<Longrightarrow> engine_reach other \<Longrightarrow> engine_reach (engine_merge h e other)"
| reach_delta: "engine_reach e \<Longrightarrow> \<forall>op \<in> set (env_ops env). op_seq op \<le> u64_max \<Longrightarrow>
    engine_reach (snd (engine_merge_delta_envelope h e env))"
| reach_policy: "engine_reach e \<Longrightarrow> engine_reach (engine_with_compaction_policy e p)"
| reach_op_log_mut: "engine_reach e \<Longrightarrow> log_clock (f (eng_log e)) \<le> u64_max \<Longrightarrow>
    \<forall>op \<in> set (log_ops (f (eng_log e))). op_seq op \<le> u64_max \<Longrightarrow> engine_reach (engine_op_log_mut e f)"

lemma engine_reach_inv: "engine_reach e \<Longrightarrow> engine_inv e"
proof (induction rule: engine_reach.induct)
  case (reach_policy e p)
  then show ?case by (simp add: engine_with_compaction_policy_def engine_inv_def split: option.splits)
next
  case (reach_op_log_mut e f)
  then show ?case
    by (simp add: engine_op_log_mut_def engine_invalidate_cache_def engine_inv_def Let_def)
qed (simp_all add: engine_exec_inv engine_merge_inv engine_merge_delta_inv)

section \<open>Properties\<close>



text \<open>
  C6. Each command refines its specification on the observable state: adding adds one live pair,
  removing removes the live pairs of the element and only pairs that share their tags, superseding
  does so and records the pair, compaction and reading change nothing. The automatic compaction a
  command may trigger is invisible.
\<close>

theorem engine_refines_spec:
  assumes "engine_reach e" "host_ok h" "cmd_fresh c e"
  shows "engine_view (engine_exec h c e) = spec_exec c (engine_view e)"
  by (rule engine_exec_view [OF engine_reach_inv [OF assms(1)] assms(2,3)])

theorem engine_refines_spec_witness:
  "engine_view (engine_exec sorted_host (CmdAdd 7 (5::nat)) (engine_new 1)) = ({(5, 7)}, [])"
  using engine_refines_spec [OF reach_new [of 1] sorted_host_ok, of "CmdAdd 7 (5::nat)"]
  by (simp add: engine_new_def engine_from_log_def engine_view_def)

text \<open>
  Merging two engines yields the join of their sets, compaction or not, so merging in either
  direction leaves the two engines with the same live pairs and the same supersessions up to order.
\<close>

theorem engine_merge_is_join:
  assumes "engine_reach a" "engine_reach b" "host_ok h" "host_ok h'"
    and "oplog_wf (eng_log a)" "oplog_wf (eng_log b)"
    and "inj_on op_key (set (log_ops (eng_log a)) \<union> set (log_ops (eng_log b)))"
  shows "fst (engine_view (engine_merge h a b)) =
      aws_live (aws_merge h (fst (replay_ops (log_ops (eng_log a)))) (fst (replay_ops (log_ops (eng_log b)))))
    \<and> fst (engine_view (engine_merge h a b)) = fst (engine_view (engine_merge h' b a))
    \<and> mset (snd (engine_view (engine_merge h a b))) = mset (snd (engine_view (engine_merge h' b a)))"
proof -
  let ?ab = "oplog_merge (eng_log a) (eng_log b)" and ?ba = "oplog_merge (eng_log b) (eng_log a)"
  have wf: "oplog_wf ?ab" "oplog_wf ?ba" using assms by (simp_all add: oplog_merge_wf)
  have st: "set (log_ops ?ab) = set (engine_ops a) \<union> set (engine_ops b)"
    "set (log_ops ?ba) = set (engine_ops a) \<union> set (engine_ops b)"
    using oplog_merge_set [OF assms(5-7)] oplog_merge_set [OF assms(6,5)] assms(7) by (auto simp: Un_commute)
  note cong = replay_ops_cong [OF distinct_ops [OF wf(1)] distinct_ops [OF wf(2)]]
  have "fst (replay_ops (log_ops ?ab)) =
      aws_merge h (fst (replay_ops (engine_ops a))) (fst (replay_ops (engine_ops b)))"
    using assms(3) by (simp add: aws_merge_eq_join) (simp add: replay_ops_meaning st ops_meaning_union)
  then show ?thesis
    using engine_merge_view [OF assms(1,2) [THEN engine_reach_inv] assms(3)]
      engine_merge_view [OF assms(2,1) [THEN engine_reach_inv] assms(4)] cong st by simp
qed

theorem engine_merge_is_join_witness:
  "fst (engine_view (engine_merge sorted_host (engine_exec sorted_host (CmdAdd 7 (5::nat)) (engine_new 1)) (engine_new 2))) =
   fst (engine_view (engine_merge sorted_host (engine_new 2) (engine_exec sorted_host (CmdAdd 7 5) (engine_new 1))))"
proof -
  let ?a = "engine_exec sorted_host (CmdAdd 7 (5::nat)) (engine_new 1)"
  have l: "eng_log ?a = oplog_append sorted_host (oplog_new 1) (Add 5 7)"
    by (simp add: engine_new_def engine_from_log_def engine_add_def oplog_record_add_def Let_def
        engine_maybe_auto_compact_def engine_should_compact_def policy_default_def
        min_adaptive_growth_def default_compact_threshold_def)
  have wf: "oplog_wf (eng_log ?a)" unfolding l by (rule oplog_append_wf) (simp_all add: u64_max_def)
  have n: "eng_log (engine_new 2 :: nat sync_engine) = oplog_new 2"
    by (simp add: engine_new_def engine_from_log_def)
  have inj: "inj_on op_key (set (log_ops (eng_log ?a)) \<union> set (log_ops (eng_log (engine_new 2))))"
    unfolding l n by simp
  have wf2: "oplog_wf (eng_log (engine_new 2 :: nat sync_engine))" by (simp add: n)
  show ?thesis
    by (rule engine_merge_is_join [OF reach_exec [OF reach_new] reach_new sorted_host_ok sorted_host_ok
        wf wf2 inj, THEN conjunct2, THEN conjunct1])
qed

text \<open>
  The compaction trigger. Right after a compaction no policy fires, so the cost is amortised
  over fresh growth; a disabled policy never fires; an adaptive policy never fires where the fixed
  default of 10000 operations would not.
\<close>

theorem compaction_trigger:
  assumes "engine_inv e"
  shows "\<not> engine_should_compact h' (snd (engine_compact h e)) \<and>
    \<not> engine_should_compact h' (engine_with_compaction_policy e Disabled) \<and>
    (engine_should_compact h' (engine_with_compaction_policy e (Adaptive r b)) \<longrightarrow>
       engine_should_compact h' (engine_with_compaction_policy e (Fixed default_compact_threshold)))"
proof (intro conjI)
  show "\<not> engine_should_compact h' (snd (engine_compact h e))"
    using engine_compact_eq [OF assms, of h]
    by (cases "eng_policy e") (auto simp: engine_should_compact_def)
qed (auto simp: engine_should_compact_def engine_with_compaction_policy_def min_adaptive_growth_def Let_def)

theorem compaction_trigger_witness:
  "\<not> engine_should_compact sorted_host (snd (engine_compact sorted_host (engine_new 1 :: nat sync_engine)))"
  using compaction_trigger [OF engine_inv_new [of 1], where h = sorted_host and h' = sorted_host]
  by blast

lemma hydrate_sel:
  "eng_log (engine_hydrate snap e) = eng_log e"
  "eng_replica (engine_hydrate snap e) = eng_replica e"
  "eng_cache (engine_hydrate snap e) = Some (snap_set snap, snap_supersessions snap)"
  "eng_watermark (engine_hydrate snap e) = length (engine_ops e)"
  "eng_policy (engine_hydrate snap e) =
     (case snap_threshold snap of None \<Rightarrow> eng_policy e | Some t \<Rightarrow> setting_into_policy t)"
  by (simp_all add: engine_hydrate_def engine_with_compaction_policy_def Let_def split: option.split)

lemma setting_policy_inverse [simp]: "setting_into_policy (setting_from_policy p) = p"
  by (cases p) auto

lemma snapshot_decode_snapshot:
  assumes "engine_inv e" "oplog_wf (eng_log e)" "log_replica (eng_log e) = eng_replica e"
    and "codec_ok to_vec from_slice"
    and "engine_snapshot to_vec e = Inr (bytes, e1)"
  shows "\<exists>snap. snapshot_decode from_slice bytes = Inr snap \<and> snap_log snap = eng_log e
    \<and> snap_replica snap = eng_replica e
    \<and> (snap_set snap, snap_supersessions snap) = replay_ops (engine_ops e)
    \<and> snap_threshold snap = (if eng_policy e = policy_default then None
                              else Some (setting_from_policy (eng_policy e)))"
proof -
  obtain s supers where r: "replay_ops (engine_ops e) = (s, supers)" by fastforce
  define snap where "snap = \<lparr>snap_replica = eng_replica e, snap_log = eng_log e, snap_set = s,
    snap_supersessions = supers,
    snap_threshold = (if eng_policy e = policy_default then None
                      else Some (setting_from_policy (eng_policy e)))\<rparr>"
  have "to_vec (snapshot_to_wire snap) = Some bytes"
    using assms(5)
    by (auto simp: engine_snapshot_def engine_state_eq [OF assms(1)] r snap_def Let_def split: option.splits)
  then have "from_slice bytes = Some (snapshot_to_wire snap)" by (rule codec_okD [OF assms(4)])
  moreover have "snapshot_from_wire (snapshot_to_wire snap) = snap"
    using oplog_from_disk_to_disk [OF assms(2)]
    by (simp add: snapshot_from_wire_def snapshot_to_wire_def snap_def)
  ultimately have "snapshot_decode from_slice bytes = Inr snap"
    using assms(3) by (simp add: snapshot_decode_def snap_def Let_def)
  then show ?thesis by (auto simp: snap_def r)
qed

text \<open>
  A snapshot restores the engine that wrote it: under a codec that reads back what it wrote,
  the restored engine has the same log, identity and policy and answers \<open>state\<close> alike.
\<close>

theorem snapshot_restore_roundtrip:
  assumes "engine_reach e" "oplog_wf (eng_log e)" "log_replica (eng_log e) = eng_replica e"
    and "codec_ok to_vec from_slice"
    and "engine_snapshot to_vec e = Inr (bytes, e1)"
  shows "\<exists>e2 e2'. engine_restore_snapshot from_slice bytes = Inr e2 \<and> eng_log e2 = eng_log e
    \<and> eng_replica e2 = eng_replica e \<and> eng_policy e2 = eng_policy e
    \<and> engine_state e2 = Inr (replay_ops (log_ops (eng_log e)), e2')"
proof -
  have inv: "engine_inv e" using assms(1) by (rule engine_reach_inv)
  obtain snap where snap: "snapshot_decode from_slice bytes = Inr snap" "snap_log snap = eng_log e"
    "snap_replica snap = eng_replica e" "(snap_set snap, snap_supersessions snap) = replay_ops (engine_ops e)"
    "snap_threshold snap = (if eng_policy e = policy_default then None
                            else Some (setting_from_policy (eng_policy e)))"
    using snapshot_decode_snapshot [OF inv assms(2-5)] by blast
  define e2 where "e2 = engine_hydrate snap (engine_from_log (eng_replica e) (eng_log e))"
  have inv2: "engine_inv e2"
    using inv snap by (auto simp: engine_inv_def e2_def hydrate_sel engine_from_log_def)
  have "engine_restore_snapshot from_slice bytes = Inr e2"
    using snap by (simp add: engine_restore_snapshot_def e2_def)
  then show ?thesis
    using engine_state_eq [OF inv2] snap(5) by (simp add: e2_def hydrate_sel engine_from_log_def)
qed

text \<open>The wire form of the empty engine's snapshot, and a codec that knows just that value.\<close>

definition empty_wire :: "nat snapshot_wire" where
  "empty_wire = \<lparr>wire_replica = 1,
     wire_log = \<lparr>disk_replica = 1, disk_clock = 0, disk_epoch = 0, disk_ops = []\<rparr>,
     wire_set = aws_new, wire_supersessions = [], wire_threshold = None\<rparr>"

definition empty_to_vec :: "nat snapshot_wire \<Rightarrow> byte list option" where
  "empty_to_vec w = (if w = empty_wire then Some [] else None)"

lemma empty_codec_ok: "codec_ok empty_to_vec (\<lambda>_. Some empty_wire)"
  by (auto simp: codec_ok_def empty_to_vec_def split: if_splits)

lemma empty_engine_log: "eng_log (engine_new r) = oplog_new r" "eng_replica (engine_new r) = r"
  by (simp_all add: engine_new_def engine_from_log_def)

lemma empty_engine_snapshot:
  "engine_snapshot empty_to_vec (engine_new 1) = Inr ([], engine_refreshed (engine_new 1))"
  by (simp add: engine_snapshot_def engine_state_eq [OF engine_inv_new] Let_def empty_to_vec_def)
    (simp add: engine_new_def engine_from_log_def empty_wire_def snapshot_to_wire_def oplog_to_disk_def)

theorem snapshot_restore_roundtrip_witness:
  "\<exists>e2. engine_restore_snapshot (\<lambda>_. Some empty_wire) [] = Inr e2 \<and> eng_log e2 = oplog_new 1"
  using snapshot_restore_roundtrip [OF reach_new _ _ empty_codec_ok empty_engine_snapshot]
  by (auto simp: empty_engine_log)

text \<open>
  Bootstrapping a new peer from a snapshot keeps the peer's own identity, adopts exactly the
  author's operations under their original keys, inherits the epoch, and starts the peer's own
  clock at 0 when its identity is new; its state is the author's.
\<close>

theorem bootstrap_adopts_state:
  assumes "engine_reach e" "oplog_wf (eng_log e)" "log_replica (eng_log e) = eng_replica e"
    and "codec_ok to_vec from_slice"
    and "engine_snapshot to_vec e = Inr (bytes, e1)"
  shows "\<exists>e2 e2'. engine_bootstrap_with_replica_id from_slice bytes r = Inr e2
    \<and> eng_replica e2 = r \<and> log_replica (eng_log e2) = r
    \<and> log_ops (eng_log e2) = log_ops (eng_log e) \<and> log_seen (eng_log e2) = log_seen (eng_log e)
    \<and> log_epoch (eng_log e2) = log_epoch (eng_log e)
    \<and> ((\<forall>op \<in> set (log_ops (eng_log e)). op_replica op \<noteq> r) \<longrightarrow> log_clock (eng_log e2) = 0)
    \<and> engine_state e2 = Inr (replay_ops (log_ops (eng_log e)), e2')"
proof -
  have inv: "engine_inv e" using assms(1) by (rule engine_reach_inv)
  obtain snap where snap: "snapshot_decode from_slice bytes = Inr snap" "snap_log snap = eng_log e"
    "(snap_set snap, snap_supersessions snap) = replay_ops (engine_ops e)"
    using snapshot_decode_snapshot [OF inv assms(2-5)] by blast
  define l where "l = fold oplog_merge_entry (engine_ops e) (oplog_new r)"
  have d: "distinct (map op_key (engine_ops e))" using assms(2) by (simp add: oplog_wf_def)
  have ops: "log_ops l = engine_ops e" "log_seen l = log_seen (eng_log e)" "log_replica l = r"
    using assms(2) by (simp_all add: l_def fold_merge_entry_ops [OF d] fold_merge_entry_sel oplog_wf_def)
  have clock: "log_clock l \<le> u64_max"
    using merge_entry_grows [of "engine_ops e" "oplog_new r"] inv by (auto simp: l_def engine_inv_def)
  have clock0: "log_clock l = 0" if "\<forall>op \<in> set (engine_ops e). op_replica op \<noteq> r"
    using that unfolding l_def by (rule merge_foreign_clock)
  define e2 where "e2 = engine_hydrate snap (engine_from_log r (l\<lparr>log_epoch := log_epoch (eng_log e)\<rparr>))"
  have inv2: "engine_inv e2"
    using inv snap ops clock by (auto simp: engine_inv_def e2_def hydrate_sel engine_from_log_def)
  have "engine_bootstrap_with_replica_id from_slice bytes r = Inr e2"
    using snap by (simp add: engine_bootstrap_with_replica_id_def e2_def l_def merge_single_fold Let_def)
  then show ?thesis
    using engine_state_eq [OF inv2] ops clock0 by (simp add: e2_def hydrate_sel engine_from_log_def)
qed

theorem bootstrap_adopts_state_witness:
  "\<exists>e2. engine_bootstrap_with_replica_id (\<lambda>_. Some empty_wire) [] 2 = Inr e2
     \<and> eng_replica e2 = 2 \<and> log_clock (eng_log e2) = 0"
  using bootstrap_adopts_state [OF reach_new _ _ empty_codec_ok empty_engine_snapshot, of 2]
  by (auto simp: empty_engine_log)

lemma engine_merge_delta_view:
  assumes "engine_inv e" "\<forall>op \<in> set (env_ops env). op_seq op \<le> u64_max" "host_ok h"
  shows "engine_view (snd (engine_merge_delta_envelope h e env)) =
      (aws_live (fst (replay_ops (log_ops (fold oplog_merge_entry (env_ops env) (eng_log e))))),
       snd (replay_ops (log_ops (fold oplog_merge_entry (env_ops env) (eng_log e)))))"
proof -
  let ?l = "fold oplog_merge_entry (env_ops env) (eng_log e)"
  let ?e = "engine_extend (length (engine_ops e)) (e\<lparr>eng_log := ?l\<lparr>log_epoch := max (log_epoch ?l) (env_epoch env)\<rparr>\<rparr>)"
  obtain new where new: "log_ops ?l = engine_ops e @ new" "set new \<subseteq> set (env_ops env)" "log_clock ?l \<le> u64_max"
    using merge_entry_grows [of "env_ops env" "eng_log e"] assms by (auto simp: engine_inv_def)
  then have "engine_inv ?e"
    using assms(2) by (intro engine_extend_inv [OF assms(1) refl, where new = new]) auto
  then have "engine_view (snd (engine_merge_delta_envelope h e env)) = engine_view ?e"
    using assms(3)
    by (simp add: engine_merge_delta_envelope_def Let_def merge_single_fold engine_auto_compact_view)
  then show ?thesis by (simp add: engine_view_def engine_extend_def Let_def split: option.split)
qed

end
