(* ===== verification/Delta_Sync.thy ===== *)
theory Delta_Sync
  imports Sync_Engine
begin

text \<open>
  The wire protocol of \<^verbatim>\<open>crates/sync_engine/src/delta.rs\<close>: encoding the operations past a
  watermark into an envelope, decoding it, and applying it to an engine under the guard on the
  compaction epoch. \<^verbatim>\<open>serde_json\<close> is the pair \<open>to_vec\<close>, \<open>from_slice\<close>.
\<close>

section \<open>Encoding, decoding, applying\<close>

definition delta_since :: "'t op_log \<Rightarrow> nat \<Rightarrow> 't delta_envelope" where
  "delta_since l since =
     \<lparr>env_epoch = log_epoch l, env_since = since,
      env_ops = filter (\<lambda>entry. op_replica entry \<noteq> log_replica l \<or> op_seq entry > since) (log_ops l)\<rparr>"

definition own_delta_since :: "'t op_log \<Rightarrow> nat \<Rightarrow> 't delta_envelope" where
  "own_delta_since l since =
     \<lparr>env_epoch = log_epoch l, env_since = since,
      env_ops = filter (\<lambda>entry. op_replica entry = log_replica l \<and> op_seq entry > since) (log_ops l)\<rparr>"

definition encode_delta_since ::
  "('t delta_envelope \<Rightarrow> byte list option) \<Rightarrow> 't op_log \<Rightarrow> nat \<Rightarrow> sync_error + byte list" where
  "encode_delta_since to_vec l since =
     (case to_vec (delta_since l since) of
        None \<Rightarrow> Inl (Serialisation ''could not serialise delta envelope'')
      | Some bytes \<Rightarrow> Inr bytes)"

definition encode_own_delta_since ::
  "('t delta_envelope \<Rightarrow> byte list option) \<Rightarrow> 't op_log \<Rightarrow> nat \<Rightarrow> sync_error + byte list" where
  "encode_own_delta_since to_vec l since =
     (case to_vec (own_delta_since l since) of
        None \<Rightarrow> Inl (Serialisation ''could not serialise delta envelope'')
      | Some bytes \<Rightarrow> Inr bytes)"

definition decode_delta ::
  "(byte list \<Rightarrow> 't delta_envelope option) \<Rightarrow> byte list \<Rightarrow> sync_error + 't delta_envelope" where
  "decode_delta from_slice bytes =
     (case from_slice bytes of None \<Rightarrow> Inl DeltaDecode | Some env \<Rightarrow> Inr env)"

definition apply_delta ::
  "'t host \<Rightarrow> (byte list \<Rightarrow> 't delta_envelope option) \<Rightarrow> 't sync_engine \<Rightarrow> byte list
     \<Rightarrow> sync_error + nat \<times> 't sync_engine" where
  "apply_delta h from_slice e delta =
     (case decode_delta from_slice delta of
        Inl err \<Rightarrow> Inl err
      | Inr env \<Rightarrow>
          if env_epoch env > log_epoch (eng_log e)
          then Inl (CompactionEpochBehind (log_epoch (eng_log e)) (env_epoch env))
          else Inr (engine_merge_delta_envelope h e env))"

lemmas [defs_sync] = delta_since_def own_delta_since_def encode_delta_since_def
  encode_own_delta_since_def decode_delta_def apply_delta_def

section \<open>Lemmas\<close>

lemma encode_delta_since_decode:
  "codec_ok to_vec from_slice \<Longrightarrow> encode_delta_since to_vec l since = Inr bytes \<Longrightarrow>
     decode_delta from_slice bytes = Inr (delta_since l since)"
  by (auto simp: encode_delta_since_def decode_delta_def dest: codec_okD split: option.splits)

lemma encode_own_delta_since_decode:
  "codec_ok to_vec from_slice \<Longrightarrow> encode_own_delta_since to_vec l since = Inr bytes \<Longrightarrow>
     decode_delta from_slice bytes = Inr (own_delta_since l since)"
  by (auto simp: encode_own_delta_since_def decode_delta_def dest: codec_okD split: option.splits)

lemma set_fold_merge_entry:
  assumes "oplog_wf l" "distinct (map op_key es)" "inj_on op_key (set (log_ops l) \<union> set es)"
  shows "set (log_ops (fold oplog_merge_entry es l)) = set (log_ops l) \<union> set es"
proof -
  have "e \<in> set (log_ops l)" if "e \<in> set es" "op_key e = op_key f" "f \<in> set (log_ops l)" for e f
    using inj_onD [OF assms(3) that(2)] that by auto
  then show ?thesis
    using assms(1) by (auto simp: fold_merge_entry_ops [OF assms(2)] oplog_wf_def)
qed

lemma oplog_wf_filter_keys:
  "oplog_wf l \<Longrightarrow> distinct (map op_key (filter P (log_ops l)))"
  "oplog_wf l \<Longrightarrow> \<forall>op \<in> set (filter P (log_ops l)). op_seq op \<le> u64_max"
  by (auto simp: oplog_wf_def distinct_map_filter)

text \<open>Applying an envelope whose operations are a part of a well-formed log adds exactly that part.\<close>

lemma apply_delta_part:
  assumes "engine_reach e" "oplog_wf (eng_log e)" "host_ok h"
    and "decode_delta from_slice bytes = Inr env" "env_epoch env \<le> log_epoch (eng_log e)"
    and "distinct (map op_key (env_ops env))" "\<forall>op \<in> set (env_ops env). op_seq op \<le> u64_max"
    and "inj_on op_key (set (engine_ops e) \<union> set (env_ops env))"
  shows "\<exists>n e'. apply_delta h from_slice e bytes = Inr (n, e')
    \<and> n = length (filter (\<lambda>op. op_key op \<notin> log_seen (eng_log e)) (env_ops env))
    \<and> fst (engine_view e') = aws_live (ops_meaning (set (engine_ops e) \<union> set (env_ops env)))
    \<and> engine_reach e'"
proof -
  have inv: "engine_inv e" using assms(1) by (rule engine_reach_inv)
  let ?r = "engine_merge_delta_envelope h e env"
  have "fst (engine_view (snd ?r)) = aws_live (ops_meaning (set (engine_ops e) \<union> set (env_ops env)))"
    using engine_merge_delta_view [OF inv assms(7,3)]
    by (simp add: replay_ops_meaning set_fold_merge_entry [OF assms(2,6,8)])
  moreover have "fst ?r = length (filter (\<lambda>op. op_key op \<notin> log_seen (eng_log e)) (env_ops env))"
    by (simp add: engine_merge_delta_envelope_def Let_def merge_single_fold fold_merge_entry_ops [OF assms(6)])
  moreover have "engine_reach (snd ?r)" using assms(1,7) by (rule reach_delta)
  moreover have "apply_delta h from_slice e bytes = Inr ?r"
    using assms(4,5) by (simp add: apply_delta_def)
  ultimately show ?thesis by (metis prod.collapse)
qed

section \<open>Properties\<close>

text \<open>
  C7. Delta sync loses nothing: when the receiver already holds the sender's own operations up to
  the watermark, applying the delta past that watermark succeeds, absorbs exactly the operations
  it lacks, and leaves it with the join of both replicas' sets. The sender's epoch must not be
  ahead of the receiver's.
\<close>

theorem delta_sync_complete:
  assumes "engine_reach r" "oplog_wf (eng_log r)" "oplog_wf l" "host_ok h"
    and "codec_ok to_vec from_slice" "encode_delta_since to_vec l since = Inr bytes"
    and "log_epoch l \<le> log_epoch (eng_log r)"
    and "inj_on op_key (set (log_ops (eng_log r)) \<union> set (log_ops l))"
    and "\<forall>op \<in> set (log_ops l). op_replica op = log_replica l \<and> op_seq op \<le> since
           \<longrightarrow> op \<in> set (log_ops (eng_log r))"
  shows "\<exists>n r'. apply_delta h from_slice r bytes = Inr (n, r')
    \<and> fst (engine_view r') =
        aws_live (aws_merge h (fst (replay_ops (log_ops (eng_log r)))) (fst (replay_ops (log_ops l))))"
proof -
  let ?env = "delta_since l since"
  have dec: "decode_delta from_slice bytes = Inr ?env"
    by (rule encode_delta_since_decode [OF assms(5,6)])
  have sub: "set (env_ops ?env) \<subseteq> set (log_ops l)" by (auto simp: delta_since_def)
  have un: "set (engine_ops r) \<union> set (env_ops ?env) = set (engine_ops r) \<union> set (log_ops l)"
    using assms(9) by (auto simp: delta_since_def)
  have "\<exists>n r'. apply_delta h from_slice r bytes = Inr (n, r')
      \<and> fst (engine_view r') = aws_live (ops_meaning (set (engine_ops r) \<union> set (env_ops ?env)))"
    using apply_delta_part [OF assms(1,2,4) dec] assms(7,8) oplog_wf_filter_keys [OF assms(3)] sub
    by (auto simp: delta_since_def intro: inj_on_subset)
  moreover have "aws_merge h (fst (replay_ops (engine_ops r))) (fst (replay_ops (log_ops l))) =
      ops_meaning (set (engine_ops r) \<union> set (log_ops l))"
    using assms(4) by (simp add: aws_merge_eq_join) (simp add: replay_ops_meaning ops_meaning_union)
  ultimately show ?thesis by (simp add: un)
qed

theorem delta_sync_complete_witness:
  "\<exists>n r'. apply_delta sorted_host (\<lambda>_. Some (delta_since (oplog_append sorted_host (oplog_new 2) (Add (5::nat) 7)) 0))
      (engine_new 1) [] = Inr (n, r') \<and> fst (engine_view r') = {(5, 7)}"
proof -
  let ?l = "oplog_append sorted_host (oplog_new 2) (Add (5::nat) 7)"
  let ?to = "\<lambda>env. if env = delta_since ?l 0 then Some ([] :: byte list) else None"
  have wf: "oplog_wf ?l" by (rule oplog_append_wf) (simp_all add: u64_max_def)
  have codec: "codec_ok ?to (\<lambda>_. Some (delta_since ?l 0))" by (auto simp: codec_ok_def split: if_splits)
  have enc: "encode_delta_since ?to ?l 0 = Inr []" by (simp add: encode_delta_since_def)
  have "aws_live (aws_merge sorted_host aws_new (aws_add_with_tag aws_new (5::nat) 7)) = {(5, 7)}"
    by (simp add: aws_merge_eq_join aws_live_join) (auto split: if_splits)
  then show ?thesis
    using delta_sync_complete [OF reach_new [of 1] _ wf sorted_host_ok codec enc]
    by (simp add: empty_engine_log replay_ops_def u64_max_def)
qed

lemma engine_compact_epoch:
  assumes "engine_inv e" "log_epoch (eng_log e) \<le> u64_max"
  shows "log_epoch (eng_log e) \<le> log_epoch (eng_log (engine_maybe_auto_compact h e))"
  using engine_compact_eq [OF assms(1), of h] sat_add_ge [OF assms(2), of 1]
  by (auto simp: engine_maybe_auto_compact_def)

lemma engine_delta_epoch:
  assumes "engine_inv e" "\<forall>op \<in> set (env_ops env). op_seq op \<le> u64_max"
    and "log_epoch (eng_log e) \<le> u64_max" "env_epoch env \<le> log_epoch (eng_log e)"
  shows "log_epoch (eng_log e) \<le> log_epoch (eng_log (snd (engine_merge_delta_envelope h e env)))"
proof -
  let ?l = "fold oplog_merge_entry (env_ops env) (eng_log e)"
  let ?e = "engine_extend (length (engine_ops e)) (e\<lparr>eng_log := ?l\<lparr>log_epoch := max (log_epoch ?l) (env_epoch env)\<rparr>\<rparr>)"
  obtain new where "log_ops ?l = engine_ops e @ new" "set new \<subseteq> set (env_ops env)" "log_clock ?l \<le> u64_max"
    using merge_entry_grows [of "env_ops env" "eng_log e"] assms by (auto simp: engine_inv_def)
  then have "engine_inv ?e"
    using assms(2) by (intro engine_extend_inv [OF assms(1) refl, where new = new]) auto
  moreover have "log_epoch (eng_log ?e) = log_epoch (eng_log e)"
    using assms(4) by (simp add: engine_extend_def Let_def fold_merge_entry_sel split: option.split)
  ultimately show ?thesis
    using engine_compact_epoch [of ?e h] assms(3)
    by (simp add: engine_merge_delta_envelope_def Let_def merge_single_fold)
qed

text \<open>
  The outcomes of applying a delta, exhaustively: it fails exactly when the bytes do not decode
  (\<open>DeltaDecode\<close>) or the envelope comes from a later epoch than the receiver's
  (\<open>CompactionEpochBehind\<close>, carrying both epochs); a success never lowers the receiver's epoch and
  never shortens its knowledge: every live pair it could show is still live or tombstoned by an
  absorbed operation.
\<close>

theorem apply_delta_outcomes:
  assumes "engine_reach e" "oplog_wf (eng_log e)" "host_ok h" "log_epoch (eng_log e) \<le> u64_max"
    and "\<And>env. from_slice bytes = Some env \<Longrightarrow> distinct (map op_key (env_ops env))
       \<and> (\<forall>op \<in> set (env_ops env). op_seq op \<le> u64_max)
       \<and> inj_on op_key (set (log_ops (eng_log e)) \<union> set (env_ops env))"
  shows "case apply_delta h from_slice e bytes of
      Inl err \<Rightarrow> (from_slice bytes = None \<and> err = DeltaDecode) \<or>
        (\<exists>env. from_slice bytes = Some env \<and> log_epoch (eng_log e) < env_epoch env
           \<and> err = CompactionEpochBehind (log_epoch (eng_log e)) (env_epoch env))
    | Inr (n, e') \<Rightarrow>
        (\<exists>env. from_slice bytes = Some env \<and> env_epoch env \<le> log_epoch (eng_log e) \<and>
           log_epoch (eng_log e) \<le> log_epoch (eng_log e') \<and>
           (\<forall>(v, tag) \<in> fst (engine_view e). (v, tag) \<in> fst (engine_view e')
              \<or> tag \<in> ops_observed (set (env_ops env))))"
proof (cases "from_slice bytes")
  case None
  then show ?thesis by (simp add: apply_delta_def decode_delta_def)
next
  case (Some env)
  note env = assms(5) [OF Some]
  have dec: "decode_delta from_slice bytes = Inr env" using Some by (simp add: decode_delta_def)
  show ?thesis
  proof (cases "log_epoch (eng_log e) < env_epoch env")
    case True
    then show ?thesis using Some dec by (simp add: apply_delta_def)
  next
    case False
    then have le: "env_epoch env \<le> log_epoch (eng_log e)" by simp
    obtain n e' where e': "apply_delta h from_slice e bytes = Inr (n, e')"
      "fst (engine_view e') = aws_live (ops_meaning (set (engine_ops e) \<union> set (env_ops env)))"
      using apply_delta_part [OF assms(1-3) dec le] env by blast
    have "log_epoch (eng_log e) \<le> log_epoch (eng_log e')"
      using e'(1) dec le engine_delta_epoch [OF engine_reach_inv [OF assms(1)] _ assms(4), of env h] env
      by (auto simp: apply_delta_def)
    moreover have "(v, tag) \<in> fst (engine_view e') \<or> tag \<in> ops_observed (set (env_ops env))"
      if "(v, tag) \<in> fst (engine_view e)" for v tag
      using that e'(2)
      by (auto simp: engine_view_def replay_ops_meaning aws_live_ops_meaning ops_added_def ops_observed_def)
    ultimately show ?thesis using e'(1) Some le by auto
  qed
qed

theorem apply_delta_outcomes_witness:
  "apply_delta sorted_host
     (\<lambda>_. Some \<lparr>env_epoch = 1, env_since = 0, env_ops = [\<lparr>op_replica = 2, op_seq = 1, op_created_at = 0, op_kind = Add (5::nat) 7\<rparr>]\<rparr>)
     (engine_new 1) [] = Inl (CompactionEpochBehind 0 1)"
  (is "apply_delta _ ?from _ _ = _")
proof -
  have "oplog_wf (eng_log (engine_new 1 :: nat sync_engine))" by (simp add: empty_engine_log)
  then show ?thesis
    using apply_delta_outcomes [OF reach_new [of 1] _ sorted_host_ok, of ?from "[]"]
    by (auto simp: empty_engine_log u64_max_def split: sum.splits)
qed

text \<open>
  The epoch guard is one-sided: a delta authored \<^emph>\<open>before\<close> the receiver's last compaction is
  accepted, and an addition in it whose tag no remaining operation tombstones becomes live, even
  when the receiver had removed that element and compacted the removal away.
\<close>

theorem stale_delta_resurrects:
  assumes "engine_reach e" "oplog_wf (eng_log e)" "host_ok h"
    and "from_slice bytes = Some env" "env_epoch env < log_epoch (eng_log e)"
    and "distinct (map op_key (env_ops env))" "\<forall>op \<in> set (env_ops env). op_seq op \<le> u64_max"
    and "inj_on op_key (set (log_ops (eng_log e)) \<union> set (env_ops env))"
    and "op \<in> set (env_ops env)" "op_kind op = Add v tag"
    and "tag \<notin> ops_observed (set (log_ops (eng_log e)) \<union> set (env_ops env))"
  shows "\<exists>n e'. apply_delta h from_slice e bytes = Inr (n, e') \<and> (v, tag) \<in> fst (engine_view e')"
proof -
  have "decode_delta from_slice bytes = Inr env" using assms(4) by (simp add: decode_delta_def)
  then obtain n e' where "apply_delta h from_slice e bytes = Inr (n, e')"
    "fst (engine_view e') = aws_live (ops_meaning (set (engine_ops e) \<union> set (env_ops env)))"
    using apply_delta_part [OF assms(1-3)] assms(5-8) by (metis less_imp_le)
  moreover have "(v, tag) \<in> ops_added (set (engine_ops e) \<union> set (env_ops env))"
    using assms(9,10) by (force simp: ops_added_def)
  ultimately show ?thesis using assms(11) by (auto simp: aws_live_ops_meaning)
qed

text \<open>
  The scenario: a replica adds 5 under tag 7, removes it, compacts; then the delta that carried
  the addition to its peers comes back.
\<close>

definition compacted_engine :: "nat sync_engine" where
  "compacted_engine =
     snd (engine_compact sorted_host
       (engine_remove sorted_host (snd (engine_add sorted_host 7 (engine_new 1) 5)) 5))"

lemma added_engine:
  "snd (engine_add sorted_host 7 (engine_new 1) (5::nat)) =
     (engine_new 1)\<lparr>eng_log := oplog_append sorted_host (oplog_new 1) (Add 5 7)\<rparr>"
  by (simp add: engine_add_def oplog_record_add_def engine_new_def engine_from_log_def
      engine_maybe_auto_compact_def engine_should_compact_def policy_default_def
      min_adaptive_growth_def default_compact_threshold_def)

lemma removed_engine:
  "eng_log (engine_remove sorted_host (snd (engine_add sorted_host 7 (engine_new 1) (5::nat))) 5) =
     oplog_append sorted_host (oplog_append sorted_host (oplog_new 1) (Add 5 7)) (Remove 5 [7])"
  unfolding added_engine
  by (simp add: engine_remove_def engine_materialise_def engine_observed_def
      engine_new_def engine_from_log_def oplog_replay_def oplog_record_remove_def
      engine_maybe_auto_compact_def engine_should_compact_def policy_default_def
      min_adaptive_growth_def default_compact_threshold_def replay_ops_def aws_tags_for_def
      aws_add_with_tag_def Let_def)

lemma compacted_engine_facts:
  "engine_reach compacted_engine" "engine_ops compacted_engine = []"
  "log_epoch (eng_log compacted_engine) = 1" "oplog_wf (eng_log compacted_engine)"
proof -
  let ?e = "engine_remove sorted_host (snd (engine_add sorted_host 7 (engine_new 1) (5::nat))) 5"
  let ?l = "oplog_append sorted_host (oplog_append sorted_host (oplog_new 1) (Add (5::nat) 7)) (Remove 5 [7])"
  have re: "engine_reach ?e"
    using reach_exec [OF reach_exec [OF reach_new, of sorted_host "CmdAdd 7 5"], of sorted_host "CmdRemove 5"] by simp
  then show "engine_reach compacted_engine"
    using reach_exec [OF re, of sorted_host CmdCompact] by (simp add: compacted_engine_def)
  have k: "compact_kinds sorted_host (replay_ops (log_ops ?l)) = []"
    by (simp add: compact_kinds_def aws_entries_def aws_iter_def aws_live_tags_def replay_ops_def
        aws_remove_tags_def aws_add_with_tag_def aws_tombstone_def)
  have "log_clock ?l \<le> u64_max" by simp
  note oplog_compact_eq [OF this, of sorted_host, unfolded k]
  then have c: "eng_log compacted_engine = ?l\<lparr>log_ops := [], log_seen := {}, log_epoch := 1\<rparr>"
    by (simp add: compacted_engine_def engine_compact_def removed_engine engine_invalidate_cache_def
        engine_materialise_def oplog_replay_def Let_def u64_max_def sat_add_def)
  then show "engine_ops compacted_engine = []" "log_epoch (eng_log compacted_engine) = 1" by simp_all
  show "oplog_wf (eng_log compacted_engine)" by (simp add: c oplog_wf_def)
qed

theorem stale_delta_resurrects_witness:
  "fst (engine_view compacted_engine) = {} \<and>
   (\<exists>n e'. apply_delta sorted_host
        (\<lambda>_. Some (delta_since (eng_log (snd (engine_add sorted_host 7 (engine_new 1) 5))) 0))
        compacted_engine [] = Inr (n, e') \<and> (5, 7) \<in> fst (engine_view e'))"
proof -
  let ?l = "eng_log (snd (engine_add sorted_host 7 (engine_new 1) (5::nat)))"
  let ?op = "\<lparr>op_replica = 1, op_seq = 1, op_created_at = 0, op_kind = Add (5::nat) 7\<rparr>"
  have l: "env_ops (delta_since ?l 0) = [?op]" "env_epoch (delta_since ?l 0) = 0"
    unfolding added_engine by (simp_all add: delta_since_def oplog_append_def u64_max_def Let_def)
  show ?thesis
    using stale_delta_resurrects [OF compacted_engine_facts(1,4) sorted_host_ok,
        of "\<lambda>_. Some (delta_since ?l 0)" "[]" "delta_since ?l 0" ?op 5 7]
    by (simp add: l compacted_engine_facts engine_view_def ops_observed_def u64_max_def)
qed

end
