(* ===== verification/Crypto_Primitives.thy ===== *)
theory Crypto_Primitives
  imports Knowledge_Prelude
begin

text \<open>
  The thin wrappers of \<^verbatim>\<open>crates/crypto/src/aead.rs\<close> and \<^verbatim>\<open>crates/crypto/src/kdf.rs\<close> over the
  third-party cipher and key derivation. The third-party code is the record \<open>crypto_lib\<close>; what
  the callers rely on is \<open>aead_ok\<close> (opening what was sealed under the same key, nonce and
  associated data returns the message) and \<open>kdf_ok\<close> (the derived key has 32 bytes).
\<close>

section \<open>Third-party primitives\<close>

text \<open>
  \<open>xchacha_encrypt key nonce msg aad\<close>, \<open>xchacha_decrypt key nonce ciphertext aad\<close>,
  \<open>hkdf_sha256 salt ikm info\<close>, and the textual form of a UUID.
\<close>

record crypto_lib =
  xchacha_encrypt :: "byte list \<Rightarrow> byte list \<Rightarrow> byte list \<Rightarrow> byte list \<Rightarrow> byte list option"
  xchacha_decrypt :: "byte list \<Rightarrow> byte list \<Rightarrow> byte list \<Rightarrow> byte list \<Rightarrow> byte list option"
  hkdf_sha256 :: "byte list \<Rightarrow> byte list \<Rightarrow> byte list \<Rightarrow> byte list option"
  uuid_display :: "uuid \<Rightarrow> string"

definition aead_ok :: "crypto_lib \<Rightarrow> bool" where
  "aead_ok lib \<longleftrightarrow>
     (\<forall>key nonce msg aad ct. xchacha_encrypt lib key nonce msg aad = Some ct
        \<longrightarrow> xchacha_decrypt lib key nonce ct aad = Some msg)"

definition kdf_ok :: "crypto_lib \<Rightarrow> bool" where
  "kdf_ok lib \<longleftrightarrow>
     (\<forall>salt ikm info out. hkdf_sha256 lib salt ikm info = Some out \<longrightarrow> length out = 32)"

section \<open>Wrappers\<close>

datatype crypto_error =
    AeadEncryption
  | AeadDecryption
  | KeyDerivation string
  | KemBufferLength nat nat
  | KemBackend string
  | HybridCombiner string
  | ProvenanceSerialisation string
  | ProvenanceVerification
  | HybridPolicyViolation string string
  | TombstonePersistence string
  | EpochOverflow
  | AttestationUnsupported string

definition aead_key_len :: nat where
  "aead_key_len = 32"

definition aead_nonce_len :: nat where
  "aead_nonce_len = 24"

definition string_bytes :: "string \<Rightarrow> byte list" where
  "string_bytes s = map of_char s"

definition encrypt_aead ::
  "crypto_lib \<Rightarrow> byte list \<Rightarrow> byte list \<Rightarrow> byte list \<Rightarrow> byte list \<Rightarrow> crypto_error + byte list" where
  "encrypt_aead lib key nonce plaintext aad =
     (case xchacha_encrypt lib key nonce plaintext aad of
        None \<Rightarrow> Inl AeadEncryption | Some ct \<Rightarrow> Inr ct)"

definition decrypt_aead ::
  "crypto_lib \<Rightarrow> byte list \<Rightarrow> byte list \<Rightarrow> byte list \<Rightarrow> byte list \<Rightarrow> crypto_error + byte list" where
  "decrypt_aead lib key nonce ciphertext aad =
     (case xchacha_decrypt lib key nonce ciphertext aad of
        None \<Rightarrow> Inl AeadDecryption | Some msg \<Rightarrow> Inr msg)"

definition derive_key_with_salt ::
  "crypto_lib \<Rightarrow> byte list \<Rightarrow> byte list \<Rightarrow> byte list \<Rightarrow> crypto_error + byte list" where
  "derive_key_with_salt lib master_key salt context_bytes =
     (case hkdf_sha256 lib salt master_key context_bytes of
        None \<Rightarrow> Inl (KeyDerivation ''HKDF expand rejected output length'')
      | Some out \<Rightarrow> Inr out)"

definition derive_key :: "crypto_lib \<Rightarrow> byte list \<Rightarrow> byte list \<Rightarrow> crypto_error + byte list" where
  "derive_key lib master_key context_bytes =
     derive_key_with_salt lib master_key (string_bytes ''knowledge-substrate-v1'') context_bytes"

text \<open>The second component is the caller's buffer after the call.\<close>

definition derive_key_and_zeroize ::
  "crypto_lib \<Rightarrow> byte list \<Rightarrow> byte list \<Rightarrow> (crypto_error + byte list) \<times> byte list" where
  "derive_key_and_zeroize lib master_key context_bytes =
     (derive_key lib master_key context_bytes, replicate (length master_key) 0)"

lemmas [defs_sync] = encrypt_aead_def decrypt_aead_def derive_key_def derive_key_with_salt_def

section \<open>Lemmas\<close>

lemma decrypt_encrypt_aead:
  "aead_ok lib \<Longrightarrow> encrypt_aead lib key nonce msg aad = Inr ct \<Longrightarrow> decrypt_aead lib key nonce ct aad = Inr msg"
  by (auto simp: aead_ok_def encrypt_aead_def decrypt_aead_def split: option.splits)

lemma derive_key_length: "kdf_ok lib \<Longrightarrow> derive_key lib mk ctx = Inr k \<Longrightarrow> length k = aead_key_len"
  by (auto simp: kdf_ok_def derive_key_def derive_key_with_salt_def aead_key_len_def split: option.splits)

text \<open>
  A concrete library for evaluation: a cipher that appends a tag made of key, nonce and associated
  data and checks it, and a constant key derivation.
\<close>

definition tag_lib :: crypto_lib where
  "tag_lib =
     \<lparr>xchacha_encrypt = (\<lambda>key nonce msg aad. Some (key @ nonce @ aad @ msg)),
      xchacha_decrypt = (\<lambda>key nonce ct aad.
        let tag = key @ nonce @ aad
        in if take (length tag) ct = tag then Some (drop (length tag) ct) else None),
      hkdf_sha256 = (\<lambda>salt ikm info. Some (replicate 32 0)),
      uuid_display = (\<lambda>_. [])\<rparr>"

lemma tag_lib_ok [simp]: "aead_ok tag_lib" "kdf_ok tag_lib"
  by (simp_all add: aead_ok_def kdf_ok_def tag_lib_def Let_def flip: append_assoc)

end
