(* ===== verification/Sync_Transport.thy ===== *)
theory Sync_Transport
  imports Delta_Sync Crypto_Primitives
begin

text \<open>
  The client side of the untrusted relay, \<^verbatim>\<open>crates/sync_engine/src/transport.rs\<close>: topic
  identifiers and their hexadecimal form, sealing and opening of deltas, the push and pull loops
  with their cursors, and the in-memory transport. The transport trait is the locale
  \<open>blob_log\<close> (an append-only log of blobs per key, read past a cursor), interpreted here on the
  in-memory transport and in the relay theory on the relay's blob store.
\<close>

section \<open>Topic identifiers\<close>

type_synonym topic_id = "byte list"

definition topic_id_len :: nat where
  "topic_id_len = 32"

definition HEX :: "byte list" where
  "HEX = string_bytes ''0123456789abcdef''"

definition topic_derive :: "crypto_lib \<Rightarrow> byte list \<Rightarrow> uuid \<Rightarrow> sync_error + topic_id" where
  "topic_derive lib master_key scope =
     (case derive_key lib master_key
             (string_bytes (''sync:relay:topic:'' @ uuid_display lib scope @ '':v1'')) of
        Inl _ \<Rightarrow> Inl CryptoError
      | Inr bytes \<Rightarrow> Inr bytes)"

definition char_from :: "byte \<Rightarrow> char" where
  "char_from b = char_of (unat b)"

definition to_hex :: "topic_id \<Rightarrow> string" where
  "to_hex topic =
     concat (map (\<lambda>b. [char_from (HEX ! unat (drop_bit 4 b)), char_from (HEX ! unat (and b 0x0f))]) topic)"

definition hex_val :: "byte \<Rightarrow> sync_error + byte" where
  "hex_val c =
     (if of_char CHR ''0'' \<le> c \<and> c \<le> of_char CHR ''9'' then Inr (c - of_char CHR ''0'')
      else if of_char CHR ''a'' \<le> c \<and> c \<le> of_char CHR ''f'' then Inr (c - of_char CHR ''a'' + 10)
      else if of_char CHR ''A'' \<le> c \<and> c \<le> of_char CHR ''F'' then Inr (c - of_char CHR ''A'' + 10)
      else Inl (PersistenceError ''topic id hex has invalid digit''))"

text \<open>The loop over \<^verbatim>\<open>chunks_exact(2)\<close>; a trailing odd byte is not a chunk.\<close>

fun hex_chunks :: "byte list \<Rightarrow> sync_error + byte list" where
  "hex_chunks (c0 # c1 # cs) =
     (case hex_val c0 of
        Inl err \<Rightarrow> Inl err
      | Inr hi \<Rightarrow>
          (case hex_val c1 of
             Inl err \<Rightarrow> Inl err
           | Inr lo \<Rightarrow>
               (case hex_chunks cs of
                  Inl err \<Rightarrow> Inl err
                | Inr out \<Rightarrow> Inr (or (push_bit 4 hi) lo # out))))"
| "hex_chunks _ = Inr []"

definition from_hex :: "string \<Rightarrow> sync_error + topic_id" where
  "from_hex s =
     (if length s \<noteq> topic_id_len * 2
      then Inl (PersistenceError ''topic id hex has wrong length'')
      else hex_chunks (string_bytes s))"

section \<open>Wire types\<close>

record sealed_delta =
  sd_nonce :: "byte list"
  sd_ciphertext :: "byte list"

record pull_page =
  page_next_cursor :: nat
  page_blobs :: "sealed_delta list"

datatype 'e client_sync_error =
    ClientSync sync_error
  | ClientTransport 'e

record sync_outcome =
  outcome_pushed :: nat
  outcome_absorbed :: nat

record pull_report =
  report_absorbed :: nat
  report_skipped :: nat
  report_malformed :: nat

record sync_client =
  cl_scope :: uuid
  cl_topic :: topic_id
  cl_seal_key :: "byte list"
  cl_push_watermark :: nat
  cl_pull_cursor :: nat

section \<open>The client\<close>

definition client_restore ::
  "crypto_lib \<Rightarrow> byte list \<Rightarrow> uuid \<Rightarrow> nat \<Rightarrow> nat \<Rightarrow> sync_error + sync_client" where
  "client_restore lib master_key scope push_watermark pull_cursor =
     (case topic_derive lib master_key scope of
        Inl err \<Rightarrow> Inl err
      | Inr topic \<Rightarrow>
          (case derive_key lib master_key
                  (string_bytes (''sync:relay:seal:'' @ uuid_display lib scope @ '':v1'')) of
             Inl _ \<Rightarrow> Inl CryptoError
           | Inr seal_key \<Rightarrow>
               Inr \<lparr>cl_scope = scope, cl_topic = topic, cl_seal_key = seal_key,
                    cl_push_watermark = push_watermark, cl_pull_cursor = pull_cursor\<rparr>))"

definition client_new :: "crypto_lib \<Rightarrow> byte list \<Rightarrow> uuid \<Rightarrow> sync_error + sync_client" where
  "client_new lib master_key scope = client_restore lib master_key scope 0 0"

text \<open>The nonce drawn from the operating system is an argument of \<open>seal\<close>.\<close>

definition client_seal ::
  "crypto_lib \<Rightarrow> byte list \<Rightarrow> sync_client \<Rightarrow> byte list \<Rightarrow> sync_error + sealed_delta" where
  "client_seal lib nonce cl plaintext =
     (case encrypt_aead lib (cl_seal_key cl) nonce plaintext (cl_topic cl) of
        Inl _ \<Rightarrow> Inl CryptoError
      | Inr ciphertext \<Rightarrow> Inr \<lparr>sd_nonce = nonce, sd_ciphertext = ciphertext\<rparr>)"

definition client_open :: "crypto_lib \<Rightarrow> sync_client \<Rightarrow> sealed_delta \<Rightarrow> sync_error + byte list" where
  "client_open lib cl blob =
     (case decrypt_aead lib (cl_seal_key cl) (sd_nonce blob) (sd_ciphertext blob) (cl_topic cl) of
        Inl _ \<Rightarrow> Inl CryptoError
      | Inr plaintext \<Rightarrow> Inr plaintext)"

text \<open>
  \<open>push\<close>: the transport's push is the function \<open>t_push\<close> on the transport's state. The result is
  the call's outcome with the client and the transport after it.
\<close>

definition client_push ::
  "crypto_lib \<Rightarrow> ('t delta_envelope \<Rightarrow> byte list option)
     \<Rightarrow> ('s \<Rightarrow> topic_id \<Rightarrow> sealed_delta list \<Rightarrow> ('e + nat) \<times> 's) \<Rightarrow> byte list
     \<Rightarrow> sync_client \<Rightarrow> 't sync_engine \<Rightarrow> 's \<Rightarrow> ('e client_sync_error + nat) \<times> sync_client \<times> 's" where
  "client_push lib to_vec t_push nonce cl e s =
     (let log = eng_log e; clock = log_clock log
      in if clock \<le> cl_push_watermark cl then (Inr 0, cl, s)
         else
           (let own_ops = length (filter (\<lambda>entry. op_replica entry = log_replica log
                            \<and> op_seq entry > cl_push_watermark cl) (log_ops log))
            in if own_ops = 0 then (Inr 0, cl\<lparr>cl_push_watermark := clock\<rparr>, s)
               else (case encode_own_delta_since to_vec log (cl_push_watermark cl) of
                       Inl err \<Rightarrow> (Inl (ClientSync err), cl, s)
                     | Inr plaintext \<Rightarrow>
                         (case client_seal lib nonce cl plaintext of
                            Inl err \<Rightarrow> (Inl (ClientSync err), cl, s)
                          | Inr sealed \<Rightarrow>
                              (case t_push s (cl_topic cl) [sealed] of
                                 (Inl err, s') \<Rightarrow> (Inl (ClientTransport err), cl, s')
                               | (Inr _, s') \<Rightarrow>
                                   (Inr own_ops, cl\<lparr>cl_push_watermark := clock\<rparr>, s'))))))"

text \<open>A \<^verbatim>\<open>u64\<close> increment wraps in the release profile.\<close>

definition wrap_inc :: "nat \<Rightarrow> nat" where
  "wrap_inc n = (n + 1) mod 2 ^ 64"

text \<open>
  The loop of \<open>pull_reporting\<close> over the page. Its state is the report so far and the offset
  consumed; an error leaves the engine with the blobs applied before it.
\<close>

fun pull_loop ::
  "'t host \<Rightarrow> crypto_lib \<Rightarrow> (byte list \<Rightarrow> 't delta_envelope option) \<Rightarrow> sync_client
     \<Rightarrow> sealed_delta list \<Rightarrow> pull_report \<Rightarrow> nat \<Rightarrow> 't sync_engine
     \<Rightarrow> (sync_error + pull_report \<times> nat) \<times> 't sync_engine" where
  "pull_loop h lib from_slice cl [] rep consumed e = (Inr (rep, consumed), e)"
| "pull_loop h lib from_slice cl (blob # blobs) rep consumed e =
     (case client_open lib cl blob of
        Inl CryptoError \<Rightarrow>
          pull_loop h lib from_slice cl blobs
            (rep\<lparr>report_skipped := report_skipped rep + 1\<rparr>) (wrap_inc consumed) e
      | Inl other \<Rightarrow> (Inl other, e)
      | Inr plaintext \<Rightarrow>
          (case apply_delta h from_slice e plaintext of
             Inr (n, e') \<Rightarrow>
               pull_loop h lib from_slice cl blobs
                 (rep\<lparr>report_absorbed := report_absorbed rep + n\<rparr>) (wrap_inc consumed) e'
           | Inl DeltaDecode \<Rightarrow>
               pull_loop h lib from_slice cl blobs
                 (rep\<lparr>report_malformed := report_malformed rep + 1\<rparr>) (wrap_inc consumed) e
           | Inl other \<Rightarrow> (Inl other, e)))"

definition client_pull_reporting ::
  "'t host \<Rightarrow> crypto_lib \<Rightarrow> (byte list \<Rightarrow> 't delta_envelope option)
     \<Rightarrow> ('s \<Rightarrow> topic_id \<Rightarrow> nat \<Rightarrow> 'e + pull_page) \<Rightarrow> sync_client \<Rightarrow> 't sync_engine \<Rightarrow> 's
     \<Rightarrow> ('e client_sync_error + pull_report) \<times> sync_client \<times> 't sync_engine" where
  "client_pull_reporting h lib from_slice t_pull cl e s =
     (case t_pull s (cl_topic cl) (cl_pull_cursor cl) of
        Inl err \<Rightarrow> (Inl (ClientTransport err), cl, e)
      | Inr page \<Rightarrow>
          (case pull_loop h lib from_slice cl (page_blobs page)
                  \<lparr>report_absorbed = 0, report_skipped = 0, report_malformed = 0\<rparr>
                  (cl_pull_cursor cl) e of
             (Inl err, e') \<Rightarrow> (Inl (ClientSync err), cl, e')
           | (Inr (rep, consumed), e') \<Rightarrow>
               (Inr rep, cl\<lparr>cl_pull_cursor := max (page_next_cursor page) consumed\<rparr>, e')))"

definition client_pull ::
  "'t host \<Rightarrow> crypto_lib \<Rightarrow> (byte list \<Rightarrow> 't delta_envelope option)
     \<Rightarrow> ('s \<Rightarrow> topic_id \<Rightarrow> nat \<Rightarrow> 'e + pull_page) \<Rightarrow> sync_client \<Rightarrow> 't sync_engine \<Rightarrow> 's
     \<Rightarrow> ('e client_sync_error + nat) \<times> sync_client \<times> 't sync_engine" where
  "client_pull h lib from_slice t_pull cl e s =
     (case client_pull_reporting h lib from_slice t_pull cl e s of
        (Inl err, rest) \<Rightarrow> (Inl err, rest)
      | (Inr rep, rest) \<Rightarrow> (Inr (report_absorbed rep), rest))"

definition client_sync ::
  "'t host \<Rightarrow> crypto_lib \<Rightarrow> ('t delta_envelope \<Rightarrow> byte list option)
     \<Rightarrow> (byte list \<Rightarrow> 't delta_envelope option)
     \<Rightarrow> ('s \<Rightarrow> topic_id \<Rightarrow> sealed_delta list \<Rightarrow> ('e + nat) \<times> 's)
     \<Rightarrow> ('s \<Rightarrow> topic_id \<Rightarrow> nat \<Rightarrow> 'e + pull_page) \<Rightarrow> byte list \<Rightarrow> sync_client \<Rightarrow> 't sync_engine \<Rightarrow> 's
     \<Rightarrow> ('e client_sync_error + sync_outcome) \<times> sync_client \<times> 't sync_engine \<times> 's" where
  "client_sync h lib to_vec from_slice t_push t_pull nonce cl e s =
     (case client_push lib to_vec t_push nonce cl e s of
        (Inl err, cl1, s1) \<Rightarrow> (Inl err, cl1, e, s1)
      | (Inr pushed, cl1, s1) \<Rightarrow>
          (case client_pull h lib from_slice t_pull cl1 e s1 of
             (Inl err, cl2, e2) \<Rightarrow> (Inl err, cl2, e2, s1)
           | (Inr absorbed, cl2, e2) \<Rightarrow>
               (Inr \<lparr>outcome_pushed = pushed, outcome_absorbed = absorbed\<rparr>, cl2, e2, s1)))"

section \<open>The in-memory transport\<close>

text \<open>\<^verbatim>\<open>std::convert::Infallible\<close>: no operation here constructs an error.\<close>

type_synonym infallible = unit

record in_memory_transport =
  imt_topics :: "topic_id \<rightharpoonup> sealed_delta list"

definition imt_new :: in_memory_transport where
  "imt_new = \<lparr>imt_topics = Map.empty\<rparr>"

definition imt_raw_blobs :: "in_memory_transport \<Rightarrow> topic_id \<Rightarrow> sealed_delta list" where
  "imt_raw_blobs s topic = or_empty_list (imt_topics s topic)"

text \<open>\<^verbatim>\<open>u64::try_from(n).unwrap_or(u64::MAX)\<close>\<close>

definition u64_try_from :: "nat \<Rightarrow> nat" where
  "u64_try_from n = (if n \<le> u64_max then n else u64_max)"

definition imt_push ::
  "in_memory_transport \<Rightarrow> topic_id \<Rightarrow> sealed_delta list \<Rightarrow> (infallible + nat) \<times> in_memory_transport" where
  "imt_push s topic blobs =
     (let entry = or_empty_list (imt_topics s topic) @ blobs
      in (Inr (u64_try_from (length entry)), s\<lparr>imt_topics := (imt_topics s)(topic \<mapsto> entry)\<rparr>))"

definition imt_pull :: "in_memory_transport \<Rightarrow> topic_id \<Rightarrow> nat \<Rightarrow> infallible + pull_page" where
  "imt_pull s topic since =
     (let all_blobs = imt_topics s topic;
          len = (case all_blobs of None \<Rightarrow> 0 | Some v \<Rightarrow> length v);
          start = min since len
      in Inr \<lparr>page_next_cursor = u64_try_from len,
              page_blobs = (case all_blobs of None \<Rightarrow> [] | Some v \<Rightarrow> drop start v)\<rparr>)"

lemmas [defs_sync] = client_seal_def client_open_def client_push_def client_pull_reporting_def
  client_pull_def client_sync_def imt_push_def imt_pull_def

section \<open>The transport contract\<close>

text \<open>
  What the trait \<^verbatim>\<open>SyncTransport\<close> (and the relay's \<^verbatim>\<open>BlobStore\<close>) promises of its \<open>put\<close> and
  \<open>get\<close>: a successful put appends in order under its key alone and answers with the new length,
  a failed one stores nothing, a get returns the blobs past the cursor and the length.
\<close>

locale blob_log =
  fixes put :: "'s \<Rightarrow> 'k \<Rightarrow> sealed_delta list \<Rightarrow> ('e + nat) \<times> 's"
    and get :: "'s \<Rightarrow> 'k \<Rightarrow> nat \<Rightarrow> 'e + pull_page"
    and stored :: "'s \<Rightarrow> 'k \<Rightarrow> sealed_delta list"
  assumes put_Inr: "put s k bs = (Inr c, s') \<Longrightarrow>
      stored s' = (stored s)(k := stored s k @ bs) \<and> c = u64_try_from (length (stored s' k))"
    and put_Inl: "put s k bs = (Inl err, s') \<Longrightarrow> stored s' = stored s"
    and get_Inr: "get s k since = Inr page \<Longrightarrow>
      page_blobs page = drop since (stored s k)
      \<and> page_next_cursor page = u64_try_from (length (stored s k))"
begin

text \<open>A sequence of puts, successful or not.\<close>

fun puts :: "'s \<Rightarrow> ('k \<times> sealed_delta list) list \<Rightarrow> 's" where
  "puts s [] = s"
| "puts s ((k, bs) # ps) = puts (snd (put s k bs)) ps"

lemma put_grows: "\<exists>more. stored (snd (put s k bs)) j = stored s j @ more"
proof (cases "put s k bs")
  case (Pair r s')
  then show ?thesis by (cases r) (auto dest: put_Inr put_Inl)
qed

lemma puts_grow: "\<exists>more. stored (puts s ps) j = stored s j @ more"
proof (induction ps arbitrary: s)
  case (Cons p ps)
  obtain k bs where "p = (k, bs)" by fastforce
  then show ?case using Cons [of "snd (put s k bs)"] put_grows [of s k bs j] by auto
qed simp

lemma puts_other:
  "\<forall>p \<in> set ps. fst p \<noteq> j \<Longrightarrow> stored (puts s ps) j = stored s j"
proof (induction ps arbitrary: s)
  case (Cons p ps)
  obtain k bs where p: "p = (k, bs)" by fastforce
  obtain r s' where r: "put s k bs = (r, s')" by fastforce
  have "stored s' j = stored s j" using Cons.prems r p by (cases r) (auto dest: put_Inr put_Inl)
  then show ?case using Cons p r by simp
qed simp

text \<open>Reading again at the returned cursor yields exactly what later puts appended.\<close>

lemma get_resumes:
  assumes "get s k since = Inr page" "since \<le> length (stored s k)" "length (stored s k) \<le> u64_max"
    and "get (puts s ps) k (page_next_cursor page) = Inr page'"
  shows "page_blobs page @ page_blobs page' = drop since (stored (puts s ps) k)"
  using get_Inr [OF assms(1)] get_Inr [OF assms(4)] puts_grow [of s ps k] assms(2,3)
  by (auto simp: u64_try_from_def)

lemma get_after_put:
  assumes "put s k bs = (Inr c, s')" "get s' k since = Inr page" "since \<le> length (stored s k)"
  shows "page_blobs page = drop since (stored s k) @ bs"
  using put_Inr [OF assms(1)] get_Inr [OF assms(2)] assms(3) by simp

end

interpretation imt: blob_log imt_push imt_pull imt_raw_blobs
  by unfold_locales (auto simp: imt_push_def imt_pull_def imt_raw_blobs_def Let_def split: option.splits)

section \<open>Hexadecimal topic identifiers\<close>

lemma of_char_char_from [simp]: "of_char (char_from b) = b"
proof -
  have "(of_char (char_of (unat b)) :: byte) = of_nat (of_char (char_of (unat b)))" by (simp only: of_nat_of_char)
  also have "\<dots> = b" using unsigned_less [of b, where ?'a = nat] by (simp add: of_char_of)
  finally show ?thesis by (simp add: char_from_def)
qed

lemma hex_val_HEX_nat: "n < 16 \<Longrightarrow> hex_val (HEX ! n) = Inr (of_nat n)"
proof -
  have "\<forall>n \<in> set [0..<16]. hex_val (HEX ! n) = Inr (of_nat n)" by code_simp
  then show "n < 16 \<Longrightarrow> ?thesis" by simp
qed

lemma nibbles:
  fixes b :: byte
  shows "unat (drop_bit 4 b) < 16" "unat (and b 15) < 16" "or (push_bit 4 (drop_bit 4 b)) (and b 15) = b"
proof -
  have m: "and b 15 = take_bit 4 b" by (simp add: take_bit_eq_mask mask_eq_exp_minus_1)
  have "unat b < 256" using unsigned_less [of b, where ?'a = nat] by simp
  then show "unat (drop_bit 4 b) < 16"
    unfolding unsigned_drop_bit_eq by (simp add: drop_bit_eq_div take_bit_eq_mod)
  show "unat (and b 15) < 16" unfolding m unsigned_take_bit_eq by (simp add: take_bit_eq_mod)
  show "or (push_bit 4 (drop_bit 4 b)) (and b 15) = b"
    by (simp add: m bits_ident disjunctive_add [symmetric] bit_simps)
qed

lemma hex_chunks_to_hex:
  "hex_chunks (string_bytes (to_hex topic)) = Inr topic"
  by (induction topic) (simp_all add: to_hex_def string_bytes_def hex_val_HEX_nat nibbles)

lemma hex_val_lower:
  assumes "hex_val (of_char c) = Inr v"
  shows "char_from (HEX ! unat v) = ascii_lower c" "v < 16"
proof -
  have all: "\<forall>n \<in> set ([48..<58] @ [65..<71] @ [97..<103]). case hex_val (of_nat n) of
      Inl _ \<Rightarrow> True | Inr v \<Rightarrow> char_from (HEX ! unat v) = ascii_lower (char_of n) \<and> v < 16"
    by code_simp
  have w: "of_nat (of_char c :: nat) = (of_char c :: byte)" by (simp only: of_nat_of_char)
  have n: "(of_char c :: nat) \<in> set ([48..<58] @ [65..<71] @ [97..<103])"
    unfolding set_append set_upt
    using assms by (auto simp: hex_val_def word_le_nat_alt split: if_splits)
  show "char_from (HEX ! unat v) = ascii_lower c" "v < 16"
    using bspec [OF all n] assms unfolding w by simp_all
qed

lemma nibbles_join:
  fixes hi lo :: byte
  assumes "hi < 16" "lo < 16"
  shows "drop_bit 4 (or (push_bit 4 hi) lo) = hi" "and (or (push_bit 4 hi) lo) 15 = lo"
proof -
  have all: "\<forall>a \<in> set [0..<16]. \<forall>b \<in> set [0..<16].
      drop_bit 4 (or (push_bit 4 (of_nat a)) (of_nat b) :: byte) = of_nat a
      \<and> and (or (push_bit 4 (of_nat a)) (of_nat b) :: byte) 15 = of_nat b"
    by code_simp
  have "unat hi \<in> set [0..<16]" "unat lo \<in> set [0..<16]"
    using assms by (simp_all add: word_less_nat_alt)
  from bspec [OF bspec [OF all this(1)] this(2)]
  show "drop_bit 4 (or (push_bit 4 hi) lo) = hi" "and (or (push_bit 4 hi) lo) 15 = lo"
    by simp_all
qed

lemma to_hex_Cons:
  "to_hex (b # bs) =
     char_from (HEX ! unat (drop_bit 4 b)) # char_from (HEX ! unat (and b 15)) # to_hex bs"
  by (simp add: to_hex_def)

lemma to_hex_hex_chunks:
  "hex_chunks (string_bytes s) = Inr topic \<Longrightarrow> even (length s) \<Longrightarrow>
     to_hex topic = map ascii_lower s \<and> 2 * length topic = length s"
proof (induction "string_bytes s" arbitrary: s topic rule: hex_chunks.induct)
  case (1 c0 c1 cs)
  then obtain a b s' where s: "s = a # b # s'" "c0 = of_char a" "c1 = of_char b" "cs = string_bytes s'"
    by (auto simp: string_bytes_def map_eq_Cons_conv)
  from 1(3) obtain hi lo out where r: "hex_val c0 = Inr hi" "hex_val c1 = Inr lo"
    "hex_chunks (string_bytes s') = Inr out" "topic = or (push_bit 4 hi) lo # out"
    using s by (auto simp: string_bytes_def split: sum.splits)
  have ih: "to_hex out = map ascii_lower s' \<and> 2 * length out = length s'"
    using 1(1) [OF r(1,2), of s' out] s r 1(4) by simp
  have d: "char_from (HEX ! unat hi) = ascii_lower a" "hi < 16"
    "char_from (HEX ! unat lo) = ascii_lower b" "lo < 16"
    using hex_val_lower r(1,2) s(2,3) by auto
  show ?case unfolding r(4) s(1) to_hex_Cons nibbles_join [OF d(2,4)] using d ih by simp
qed (auto simp: string_bytes_def to_hex_def)

section \<open>Properties of topic identifiers\<close>

text \<open>
  Hexadecimal topic identifiers: every 32-byte topic reads back from its rendering, and
  whatever text parses to a topic is that topic's rendering up to letter case, so a topic has
  exactly one lower-case path segment.
\<close>

theorem topic_hex_roundtrip:
  "(length topic = topic_id_len \<longrightarrow> from_hex (to_hex topic) = Inr topic) \<and>
   (from_hex s = Inr topic \<longrightarrow> map ascii_lower s = to_hex topic \<and> length topic = topic_id_len)"
proof -
  have "length (to_hex topic) = 2 * length topic" by (induction topic) (simp_all add: to_hex_def)
  then show ?thesis
    using to_hex_hex_chunks [of s topic]
    by (auto simp: from_hex_def hex_chunks_to_hex topic_id_len_def)
qed

theorem topic_hex_roundtrip_witness:
  "from_hex (to_hex (replicate 32 0xab)) = Inr (replicate 32 0xab)"
  using topic_hex_roundtrip [of "replicate 32 0xab"] by (simp add: topic_id_len_def)

section \<open>The pull loop\<close>

text \<open>What a client makes of a blob: nothing (it does not open or decode), or an envelope.\<close>

definition blob_forged :: "crypto_lib \<Rightarrow> sync_client \<Rightarrow> sealed_delta \<Rightarrow> bool" where
  "blob_forged lib cl blob \<longleftrightarrow>
     xchacha_decrypt lib (cl_seal_key cl) (sd_nonce blob) (sd_ciphertext blob) (cl_topic cl) = None"

definition blob_envelope ::
  "crypto_lib \<Rightarrow> (byte list \<Rightarrow> 't delta_envelope option) \<Rightarrow> sync_client \<Rightarrow> sealed_delta
     \<Rightarrow> 't delta_envelope option" where
  "blob_envelope lib from_slice cl blob =
     (case client_open lib cl blob of Inl _ \<Rightarrow> None | Inr plaintext \<Rightarrow> from_slice plaintext)"

lemma client_open_forged: "blob_forged lib cl blob \<Longrightarrow> client_open lib cl blob = Inl CryptoError"
  by (simp add: blob_forged_def client_open_def decrypt_aead_def)

lemma client_open_cases:
  obtains "client_open lib cl blob = Inl CryptoError" "blob_forged lib cl blob"
  | plaintext where "client_open lib cl blob = Inr plaintext" "\<not> blob_forged lib cl blob"
  by (cases "xchacha_decrypt lib (cl_seal_key cl) (sd_nonce blob) (sd_ciphertext blob) (cl_topic cl)")
    (auto simp: blob_forged_def client_open_def decrypt_aead_def)

lemma client_open_seal:
  "aead_ok lib \<Longrightarrow> client_seal lib nonce cl plaintext = Inr blob \<Longrightarrow>
     cl_seal_key cl' = cl_seal_key cl \<Longrightarrow> cl_topic cl' = cl_topic cl \<Longrightarrow>
     client_open lib cl' blob = Inr plaintext"
  using decrypt_encrypt_aead [of lib "cl_seal_key cl" nonce plaintext "cl_topic cl"]
  by (auto simp: client_seal_def client_open_def split: sum.splits)

lemma apply_delta_Inl:
  "apply_delta h from_slice e bytes = Inl err \<Longrightarrow>
     err = DeltaDecode \<or> (\<exists>env. from_slice bytes = Some env \<and> log_epoch (eng_log e) < env_epoch env
       \<and> err = CompactionEpochBehind (log_epoch (eng_log e)) (env_epoch env))"
  by (auto simp: apply_delta_def decode_delta_def split: option.splits if_splits)

text \<open>Forged blobs change neither the engine nor the outcome, only the count of skipped blobs.\<close>

lemma pull_loop_forged:
  assumes "pull_loop h lib from_slice cl (filter (\<lambda>b. \<not> blob_forged lib cl b) blobs) rep c e = (r, e')"
  shows "\<exists>r'. pull_loop h lib from_slice cl blobs
           (rep\<lparr>report_skipped := report_skipped rep + k\<rparr>) c' e = (r', e') \<and>
         (case r of
            Inl err \<Rightarrow> r' = Inl err
          | Inr (rep', _) \<Rightarrow> (\<exists>c''. r' = Inr (rep'\<lparr>report_skipped :=
              report_skipped rep' + (k + length (filter (blob_forged lib cl) blobs))\<rparr>, c'')))"
  using assms
proof (induction blobs arbitrary: rep k c c' e)
  case Nil
  then show ?case by (auto simp del: pull_report.simps)
next
  case (Cons blob blobs)
  show ?case
  proof (cases rule: client_open_cases [of lib cl blob])
    case 1
    then show ?thesis
      using Cons.IH [of rep c e "k + 1" "wrap_inc c'"] Cons.prems
      by (cases r) (auto simp: algebra_simps)
  next
    case (2 plaintext)
    let ?rep = "rep\<lparr>report_skipped := report_skipped rep + k\<rparr>"
    show ?thesis
    proof (cases "apply_delta h from_slice e plaintext")
      case (Inr ne)
      then show ?thesis
        using 2 Cons.prems
          Cons.IH [of "rep\<lparr>report_absorbed := report_absorbed rep + fst ne\<rparr>" "wrap_inc c" "snd ne" k "wrap_inc c'"]
        by (cases ne; cases rep; cases r) auto
    next
      case (Inl err)
      then show ?thesis
        using 2 Cons.prems apply_delta_Inl [OF Inl]
          Cons.IH [of "rep\<lparr>report_malformed := report_malformed rep + 1\<rparr>" "wrap_inc c" e k "wrap_inc c'"]
        by (cases rep; cases r) auto
    qed
  qed
qed

text \<open>A page is consumed whole, or the loop stops at an envelope from a later epoch.\<close>

lemma pull_loop_outcomes:
  "c < 2 ^ 64 \<Longrightarrow>
   (case pull_loop h lib from_slice cl blobs rep c e of
      (Inl err, e') \<Rightarrow> \<exists>receiver envelope. err = CompactionEpochBehind receiver envelope \<and> receiver < envelope
    | (Inr (rep', c'), e') \<Rightarrow> c' = (c + length blobs) mod 2 ^ 64)"
proof (induction blobs arbitrary: rep c e)
  case (Cons blob blobs)
  have step: "wrap_inc c < 2 ^ 64" "(wrap_inc c + length blobs) mod 2 ^ 64 = (c + length (blob # blobs)) mod 2 ^ 64"
    by (simp_all add: wrap_inc_def mod_simps)
  note ih = Cons.IH [OF step(1), unfolded step(2)]
  show ?case
  proof (cases rule: client_open_cases [of lib cl blob])
    case 1
    then show ?thesis using ih [of "rep\<lparr>report_skipped := report_skipped rep + 1\<rparr>" e] by simp
  next
    case (2 plaintext)
    show ?thesis
    proof (cases "apply_delta h from_slice e plaintext")
      case (Inr ne)
      then show ?thesis
        using 2 ih [of "rep\<lparr>report_absorbed := report_absorbed rep + fst ne\<rparr>" "snd ne"]
        by (cases ne) simp
    next
      case (Inl err)
      then show ?thesis
        using 2 apply_delta_Inl [OF Inl]
          ih [of "rep\<lparr>report_malformed := report_malformed rep + 1\<rparr>" e]
        by auto
    qed
  qed
qed simp

text \<open>Under the policy \<open>Disabled\<close> an envelope only extends the log.\<close>

lemma engine_merge_delta_disabled:
  assumes "engine_reach e" "oplog_wf (eng_log e)" "eng_policy e = Disabled"
    and "env_epoch env \<le> log_epoch (eng_log e)"
    and "distinct (map op_key (env_ops env))" "\<forall>op \<in> set (env_ops env). op_seq op \<le> u64_max"
    and "inj_on op_key (set (engine_ops e) \<union> set (env_ops env))"
  shows "let e' = snd (engine_merge_delta_envelope h e env) in
    engine_reach e' \<and> oplog_wf (eng_log e') \<and> eng_policy e' = Disabled
    \<and> log_epoch (eng_log e') = log_epoch (eng_log e)
    \<and> set (engine_ops e') = set (engine_ops e) \<union> set (env_ops env)"
proof -
  let ?l = "fold oplog_merge_entry (env_ops env) (eng_log e)"
  let ?l' = "?l\<lparr>log_epoch := max (log_epoch ?l) (env_epoch env)\<rparr>"
  have wf: "oplog_wf ?l" using fold_merge_entry_wf assms(2,6) by blast
  have "eng_log (snd (engine_merge_delta_envelope h e env)) = ?l'"
    "eng_policy (snd (engine_merge_delta_envelope h e env)) = Disabled"
    using assms(3)
    by (simp_all add: engine_merge_delta_envelope_def engine_extend_def engine_maybe_auto_compact_def
        engine_should_compact_def merge_single_fold Let_def split: option.split)
  moreover have "engine_reach (snd (engine_merge_delta_envelope h e env))"
    using assms(1,6) by (rule reach_delta)
  moreover have "oplog_wf ?l'" using wf by (simp add: oplog_wf_def)
  ultimately show ?thesis
    using assms(4) set_fold_merge_entry [OF assms(2,5,7)] by (simp add: Let_def fold_merge_entry_sel)
qed

text \<open>The operations a page carries for a client.\<close>

definition page_ops ::
  "crypto_lib \<Rightarrow> (byte list \<Rightarrow> 't delta_envelope option) \<Rightarrow> sync_client \<Rightarrow> sealed_delta list
     \<Rightarrow> 't sync_op set" where
  "page_ops lib from_slice cl blobs =
     (\<Union>blob \<in> set blobs. case blob_envelope lib from_slice cl blob of None \<Rightarrow> {} | Some env \<Rightarrow> set (env_ops env))"

definition envelope_ok :: "nat \<Rightarrow> 't delta_envelope \<Rightarrow> bool" where
  "envelope_ok epoch env \<longleftrightarrow> env_epoch env \<le> epoch \<and> distinct (map op_key (env_ops env))
     \<and> (\<forall>op \<in> set (env_ops env). op_seq op \<le> u64_max)"

lemma pull_loop_absorbs:
  assumes "engine_reach e" "oplog_wf (eng_log e)" "eng_policy e = Disabled"
    and "\<forall>blob \<in> set blobs. \<forall>env. blob_envelope lib from_slice cl blob = Some env
           \<longrightarrow> envelope_ok (log_epoch (eng_log e)) env"
    and "inj_on op_key (set (engine_ops e) \<union> page_ops lib from_slice cl blobs)"
  shows "\<exists>rep' c' e'. pull_loop h lib from_slice cl blobs rep c e = (Inr (rep', c'), e')
    \<and> set (engine_ops e') = set (engine_ops e) \<union> page_ops lib from_slice cl blobs
    \<and> engine_reach e' \<and> oplog_wf (eng_log e')"
  using assms
proof (induction blobs arbitrary: rep c e)
  case Nil
  then show ?case by (simp add: page_ops_def)
next
  case (Cons blob blobs)
  have po: "page_ops lib from_slice cl (blob # blobs) =
      (case blob_envelope lib from_slice cl blob of None \<Rightarrow> {} | Some env \<Rightarrow> set (env_ops env))
      \<union> page_ops lib from_slice cl blobs"
    by (simp add: page_ops_def)
  show ?case
  proof (cases "blob_envelope lib from_slice cl blob")
    case None
    then have po': "page_ops lib from_slice cl (blob # blobs) = page_ops lib from_slice cl blobs" by (simp add: po)
    note ih = Cons.IH [OF Cons.prems(1-3), unfolded po' [symmetric]]
    show ?thesis
      using None ih Cons.prems
      by (auto simp: blob_envelope_def apply_delta_def decode_delta_def split: sum.splits intro: client_open_cases [of lib cl blob])
  next
    case (Some env)
    then have po': "page_ops lib from_slice cl (blob # blobs) =
        set (env_ops env) \<union> page_ops lib from_slice cl blobs" by (simp add: po)
    let ?e = "snd (engine_merge_delta_envelope h e env)"
    have ok: "envelope_ok (log_epoch (eng_log e)) env" using Cons.prems(4) Some by simp
    have d: "engine_reach ?e" "oplog_wf (eng_log ?e)" "eng_policy ?e = Disabled"
      "log_epoch (eng_log ?e) = log_epoch (eng_log e)"
      "set (engine_ops ?e) = set (engine_ops e) \<union> set (env_ops env)"
      using engine_merge_delta_disabled [OF Cons.prems(1-3), of env h] ok Cons.prems(5)
      by (auto simp: envelope_ok_def Let_def po' intro: inj_on_subset)
    have un: "set (engine_ops ?e) \<union> page_ops lib from_slice cl blobs =
        set (engine_ops e) \<union> page_ops lib from_slice cl (blob # blobs)"
      by (auto simp: d(5) po')
    obtain plaintext where pt: "client_open lib cl blob = Inr plaintext" "from_slice plaintext = Some env"
      using Some by (auto simp: blob_envelope_def split: sum.splits)
    have ap: "apply_delta h from_slice e plaintext = Inr (engine_merge_delta_envelope h e env)"
      using pt ok by (simp add: apply_delta_def decode_delta_def envelope_ok_def)
    have "\<forall>blob \<in> set blobs. \<forall>env. blob_envelope lib from_slice cl blob = Some env
        \<longrightarrow> envelope_ok (log_epoch (eng_log ?e)) env"
      using Cons.prems(4) d(4) by simp
    then show ?thesis
      using Cons.IH [OF d(1-3), unfolded un] Cons.prems(5) pt ap
      by (cases "engine_merge_delta_envelope h e env") simp
  qed
qed

section \<open>Clients over a transport that keeps the contract\<close>

locale client_transport = blob_log put get stored
  for put :: "'s \<Rightarrow> topic_id \<Rightarrow> sealed_delta list \<Rightarrow> ('e + nat) \<times> 's"
    and get :: "'s \<Rightarrow> topic_id \<Rightarrow> nat \<Rightarrow> 'e + pull_page"
    and stored :: "'s \<Rightarrow> topic_id \<Rightarrow> sealed_delta list"
begin

text \<open>A push that uploads files one sealed envelope with exactly the author's new operations.\<close>

lemma push_uploads:
  assumes "client_push lib to_vec put nonce a ea s = (Inr n, a', s')" "0 < n"
    and "codec_ok to_vec from_slice" "aead_ok lib"
    and "cl_topic b = cl_topic a" "cl_seal_key b = cl_seal_key a"
  shows "\<exists>blob. stored s' = (stored s)(cl_topic a := stored s (cl_topic a) @ [blob])
    \<and> (\<exists>bytes. client_open lib b blob = Inr bytes
         \<and> from_slice bytes = Some (own_delta_since (eng_log ea) (cl_push_watermark a)))
    \<and> a' = a\<lparr>cl_push_watermark := log_clock (eng_log ea)\<rparr>
    \<and> n = length (env_ops (own_delta_since (eng_log ea) (cl_push_watermark a)))"
proof -
  obtain bytes blob c where st: "encode_own_delta_since to_vec (eng_log ea) (cl_push_watermark a) = Inr bytes"
    "client_seal lib nonce a bytes = Inr blob" "put s (cl_topic a) [blob] = (Inr c, s')"
    "a' = a\<lparr>cl_push_watermark := log_clock (eng_log ea)\<rparr>"
    "n = length (env_ops (own_delta_since (eng_log ea) (cl_push_watermark a)))"
    using assms(1,2)
    by (auto simp: client_push_def own_delta_since_def Let_def split: if_splits sum.splits prod.splits)
  have "from_slice bytes = Some (own_delta_since (eng_log ea) (cl_push_watermark a))"
    using encode_own_delta_since_decode [OF assms(3) st(1)] by (simp add: decode_delta_def split: option.splits)
  moreover have "client_open lib b blob = Inr bytes"
    by (rule client_open_seal [OF assms(4) st(2) assms(6,5)])
  ultimately show ?thesis using put_Inr [OF st(3)] st(4,5) by blast
qed

text \<open>A client that has read everything before the push takes in the new operations.\<close>

lemma push_delivers:
  assumes "client_push lib to_vec put nonce a ea s = (Inr n, a', s')" "0 < n"
    and "codec_ok to_vec from_slice" "aead_ok lib"
    and "cl_topic b = cl_topic a" "cl_seal_key b = cl_seal_key a"
    and "cl_pull_cursor b = length (stored s (cl_topic a))" "length (stored s' (cl_topic a)) \<le> u64_max"
    and "get s' (cl_topic a) (cl_pull_cursor b) = Inr page"
    and "engine_reach eb" "oplog_wf (eng_log eb)" "oplog_wf (eng_log ea)" "host_ok h"
    and "log_epoch (eng_log ea) \<le> log_epoch (eng_log eb)"
    and "inj_on op_key (set (engine_ops eb) \<union> set (engine_ops ea))"
    and "\<forall>op \<in> set (engine_ops ea). op_replica op = log_replica (eng_log ea)
           \<and> op_seq op \<le> cl_push_watermark a \<longrightarrow> op \<in> set (engine_ops eb)"
  shows "\<exists>rep b' eb'. client_pull_reporting h lib from_slice get b eb s' = (Inr rep, b', eb')
    \<and> report_skipped rep = 0 \<and> report_malformed rep = 0
    \<and> cl_pull_cursor b' = length (stored s' (cl_topic a))
    \<and> fst (engine_view eb') = aws_live (ops_meaning (set (engine_ops eb)
         \<union> {op \<in> set (engine_ops ea). op_replica op = log_replica (eng_log ea)}))"
proof -
  let ?env = "own_delta_since (eng_log ea) (cl_push_watermark a)"
  obtain blob bytes where u: "stored s' = (stored s)(cl_topic a := stored s (cl_topic a) @ [blob])"
    "client_open lib b blob = Inr bytes" "from_slice bytes = Some ?env"
    using push_uploads [OF assms(1-6)] by blast
  have page: "page_blobs page = [blob]" "page_next_cursor page = length (stored s' (cl_topic a))"
    using get_Inr [OF assms(9)] assms(7,8) u(1) by (simp_all add: u64_try_from_def)
  have dec: "decode_delta from_slice bytes = Inr ?env" using u(3) by (simp add: decode_delta_def)
  have un: "set (engine_ops eb) \<union> set (env_ops ?env) =
      set (engine_ops eb) \<union> {op \<in> set (engine_ops ea). op_replica op = log_replica (eng_log ea)}"
    using assms(16) by (auto simp: own_delta_since_def)
  obtain k eb' where ap: "apply_delta h from_slice eb bytes = Inr (k, eb')"
    "fst (engine_view eb') = aws_live (ops_meaning (set (engine_ops eb) \<union> set (env_ops ?env)))"
    using apply_delta_part [OF assms(10,11,13) dec] assms(14,15) oplog_wf_filter_keys [OF assms(12)]
    by (auto simp: own_delta_since_def intro: inj_on_subset)
  have "wrap_inc (cl_pull_cursor b) = length (stored s' (cl_topic a))"
    using assms(7,8) u(1) by (simp add: wrap_inc_def u64_max_def)
  then show ?thesis
    using assms(5,9) page u(2) ap by (simp add: client_pull_reporting_def un)
qed

end

interpretation imt: client_transport imt_push imt_pull imt_raw_blobs ..

section \<open>Properties of the client\<close>

text \<open>
  C8. Delivery through the untrusted buffer: when one device pushes and another device of the same
  scope, caught up until then, pulls, the pull succeeds, skips nothing, ends at the buffer's end,
  and the second device's set is the join of its own operations with everything the first device
  has authored. The first device's epoch must not be ahead.
\<close>

theorem push_pull_delivers:
  assumes "client_push lib to_vec imt_push nonce a ea s = (Inr n, a', s')" "0 < n"
    and "codec_ok to_vec from_slice" "aead_ok lib"
    and "cl_topic b = cl_topic a" "cl_seal_key b = cl_seal_key a"
    and "cl_pull_cursor b = length (imt_raw_blobs s (cl_topic a))"
    and "length (imt_raw_blobs s' (cl_topic a)) \<le> u64_max"
    and "engine_reach eb" "oplog_wf (eng_log eb)" "oplog_wf (eng_log ea)" "host_ok h"
    and "log_epoch (eng_log ea) \<le> log_epoch (eng_log eb)"
    and "inj_on op_key (set (log_ops (eng_log eb)) \<union> set (log_ops (eng_log ea)))"
    and "\<forall>op \<in> set (log_ops (eng_log ea)). op_replica op = log_replica (eng_log ea)
           \<and> op_seq op \<le> cl_push_watermark a \<longrightarrow> op \<in> set (log_ops (eng_log eb))"
  shows "\<exists>rep b' eb'. client_pull_reporting h lib from_slice imt_pull b eb s' = (Inr rep, b', eb')
    \<and> report_skipped rep = 0 \<and> report_malformed rep = 0
    \<and> cl_pull_cursor b' = length (imt_raw_blobs s' (cl_topic a))
    \<and> fst (engine_view eb') = aws_live (ops_meaning (set (log_ops (eng_log eb))
         \<union> {op \<in> set (log_ops (eng_log ea)). op_replica op = log_replica (eng_log ea)}))"
proof -
  obtain page where "imt_pull s' (cl_topic a) (cl_pull_cursor b) = Inr page"
    by (auto simp: imt_pull_def Let_def)
  then show ?thesis
    using imt.push_delivers [OF assms(1-8)] assms(9-15) by blast
qed

definition demo_client :: sync_client where
  "demo_client = \<lparr>cl_scope = 1, cl_topic = [], cl_seal_key = [], cl_push_watermark = 0, cl_pull_cursor = 0\<rparr>"

lemma demo_client_sel:
  "cl_topic demo_client = []" "cl_seal_key demo_client = []" "cl_push_watermark demo_client = 0"
  "cl_pull_cursor demo_client = 0"
  by (simp_all add: demo_client_def)

definition demo_author :: "nat sync_engine" where
  "demo_author = engine_from_log 2 (oplog_append sorted_host (oplog_new 2) (Add 5 7))"

definition demo_to_vec :: "nat delta_envelope \<Rightarrow> byte list option" where
  "demo_to_vec env = (if env = own_delta_since (eng_log demo_author) 0 then Some [] else None)"

definition demo_from_slice :: "byte list \<Rightarrow> nat delta_envelope option" where
  "demo_from_slice bytes = Some (own_delta_since (eng_log demo_author) 0)"

lemma demo_facts:
  "codec_ok demo_to_vec demo_from_slice" "oplog_wf (eng_log demo_author)"
  "log_ops (eng_log demo_author) = [\<lparr>op_replica = 2, op_seq = 1, op_created_at = 0, op_kind = Add 5 7\<rparr>]"
  "log_replica (eng_log demo_author) = 2" "log_epoch (eng_log demo_author) = 0" "log_clock (eng_log demo_author) = 1"
proof -
  show "codec_ok demo_to_vec demo_from_slice"
    by (auto simp: codec_ok_def demo_to_vec_def demo_from_slice_def split: if_splits)
  show "oplog_wf (eng_log demo_author)"
    unfolding demo_author_def engine_from_log_def
    by (simp del: oplog_append_sel) (rule oplog_append_wf, simp_all add: u64_max_def)
qed (simp_all add: demo_author_def engine_from_log_def oplog_append_def Let_def u64_max_def)

theorem push_pull_delivers_witness:
  "\<exists>rep b' eb'. client_pull_reporting sorted_host tag_lib demo_from_slice imt_pull demo_client
        (engine_new 1) (snd (snd (client_push tag_lib demo_to_vec imt_push [] demo_client demo_author imt_new)))
      = (Inr rep, b', eb') \<and> fst (engine_view eb') = {(5, 7)}"
proof -
  obtain s' where p: "client_push tag_lib demo_to_vec imt_push [] demo_client demo_author imt_new
      = (Inr 1, demo_client\<lparr>cl_push_watermark := 1\<rparr>, s')"
    "length (imt_raw_blobs s' []) = 1"
    by (simp add: client_push_def demo_facts Let_def demo_client_def encode_own_delta_since_def
        demo_to_vec_def client_seal_def encrypt_aead_def tag_lib_def imt_push_def imt_raw_blobs_def imt_new_def
        u64_try_from_def u64_max_def)
  show ?thesis
    unfolding p(1)
    using push_pull_delivers [OF p(1) _ demo_facts(1) tag_lib_ok(1) refl refl _ _ reach_new [of 1] _ demo_facts(2)
        sorted_host_ok] p(2)
    by (simp add: demo_facts demo_client_def empty_engine_log imt_raw_blobs_def imt_new_def
        u64_max_def aws_live_ops_meaning ops_added_def ops_observed_def) blast
qed

text \<open>
  A page of many blobs, some of them forged or undecodable: as long as no envelope comes from
  a later epoch, one pull takes in every operation of every blob that opens and decodes, and the
  cursor moves past the whole page. (Automatic compaction is off, so that the log keeps every
  operation.)
\<close>

theorem pull_absorbs_page:
  assumes "t_pull s (cl_topic cl) (cl_pull_cursor cl) = Inr page"
    and "engine_reach e" "oplog_wf (eng_log e)" "eng_policy e = Disabled"
    and "\<forall>blob \<in> set (page_blobs page). \<forall>env. blob_envelope lib from_slice cl blob = Some env
           \<longrightarrow> envelope_ok (log_epoch (eng_log e)) env"
    and "inj_on op_key (set (log_ops (eng_log e)) \<union> page_ops lib from_slice cl (page_blobs page))"
    and "cl_pull_cursor cl + length (page_blobs page) < 2 ^ 64"
  shows "\<exists>rep cl' e'. client_pull_reporting h lib from_slice t_pull cl e s = (Inr rep, cl', e')
    \<and> set (log_ops (eng_log e')) = set (log_ops (eng_log e)) \<union> page_ops lib from_slice cl (page_blobs page)
    \<and> fst (engine_view e') =
        aws_live (ops_meaning (set (log_ops (eng_log e)) \<union> page_ops lib from_slice cl (page_blobs page)))
    \<and> cl_pull_cursor cl' = max (page_next_cursor page) (cl_pull_cursor cl + length (page_blobs page))"
proof -
  let ?rep = "\<lparr>report_absorbed = 0, report_skipped = 0, report_malformed = 0\<rparr>"
  obtain rep' c' e' where l: "pull_loop h lib from_slice cl (page_blobs page) ?rep (cl_pull_cursor cl) e = (Inr (rep', c'), e')"
    "set (engine_ops e') = set (engine_ops e) \<union> page_ops lib from_slice cl (page_blobs page)"
    using pull_loop_absorbs [OF assms(2-6)] by blast
  have "c' = cl_pull_cursor cl + length (page_blobs page)"
    using pull_loop_outcomes [of "cl_pull_cursor cl" "page_blobs page" h lib from_slice cl ?rep e] l(1) assms(7) by simp
  then show ?thesis
    using assms(1) l by (simp add: client_pull_reporting_def engine_view_def replay_ops_meaning)
qed

theorem pull_absorbs_page_witness:
  "\<exists>rep cl' e'. client_pull_reporting sorted_host tag_lib demo_from_slice
        (\<lambda>_ _ _. Inr \<lparr>page_next_cursor = 2, page_blobs = [\<lparr>sd_nonce = [1], sd_ciphertext = [9]\<rparr>, \<lparr>sd_nonce = [], sd_ciphertext = []\<rparr>]\<rparr>)
        demo_client (engine_with_compaction_policy (engine_new 1) Disabled) () = ((Inr rep :: unit client_sync_error + pull_report), cl', e')
      \<and> fst (engine_view e') = {(5, 7)} \<and> cl_pull_cursor cl' = 2"
proof -
  let ?page = "\<lparr>page_next_cursor = 2, page_blobs = [\<lparr>sd_nonce = [1], sd_ciphertext = [9]\<rparr>, \<lparr>sd_nonce = [], sd_ciphertext = []\<rparr>]\<rparr>"
  let ?op = "\<lparr>op_replica = 2, op_seq = 1, op_created_at = 0, op_kind = Add (5::nat) 7\<rparr>"
  have env: "env_ops (own_delta_since (eng_log demo_author) 0) = [?op]"
    "env_epoch (own_delta_since (eng_log demo_author) 0) = 0"
    by (simp_all add: own_delta_since_def demo_facts)
  have e: "eng_log (engine_with_compaction_policy (engine_new 1) Disabled) = oplog_new 1"
    "eng_policy (engine_with_compaction_policy (engine_new 1) Disabled) = Disabled"
    by (simp_all add: engine_with_compaction_policy_def empty_engine_log)
  have b: "blob_envelope tag_lib demo_from_slice demo_client \<lparr>sd_nonce = [1], sd_ciphertext = [9]\<rparr> = None"
    "blob_envelope tag_lib demo_from_slice demo_client \<lparr>sd_nonce = [], sd_ciphertext = []\<rparr> =
       Some (own_delta_since (eng_log demo_author) 0)"
    by (simp_all add: blob_envelope_def client_open_def decrypt_aead_def tag_lib_def demo_client_sel demo_from_slice_def Let_def)
  have po: "page_ops tag_lib demo_from_slice demo_client (page_blobs ?page) = {?op}"
    by (simp add: page_ops_def b env)
  have v: "aws_live (ops_meaning {?op}) = {(5, 7)}"
    by (simp add: aws_live_ops_meaning ops_added_def ops_observed_def)
  have "engine_reach (engine_with_compaction_policy (engine_new 1 :: nat sync_engine) Disabled)"
    by (rule reach_policy [OF reach_new])
  then show ?thesis
    using pull_absorbs_page [of "\<lambda>_ _ _. Inr ?page" "()" demo_client ?page "engine_with_compaction_policy (engine_new 1) Disabled"
        tag_lib demo_from_slice sorted_host, unfolded po]
    by (simp add: e b env v [simplified] envelope_ok_def demo_client_sel u64_max_def numeral_2_eq_2 [symmetric]) blast
qed

text \<open>
  C35. A hostile relay cannot disturb a client by serving blobs it cannot have sealed: the engine
  after the pull and its outcome are those of the page without the forged blobs, except that the
  report counts them.
\<close>

theorem forged_blobs_harmless:
  assumes "t_pull s (cl_topic cl) (cl_pull_cursor cl) = Inr page"
    and "t_clean s (cl_topic cl) (cl_pull_cursor cl) =
           Inr (page\<lparr>page_blobs := filter (\<lambda>b. \<not> blob_forged lib cl b) (page_blobs page)\<rparr>)"
    and "client_pull_reporting h lib from_slice t_clean cl e s = (r, cl', e')"
  shows "\<exists>r2 cl2. client_pull_reporting h lib from_slice t_pull cl e s = (r2, cl2, e') \<and>
    (case r of
       Inl err \<Rightarrow> r2 = Inl err \<and> cl2 = cl
     | Inr rep \<Rightarrow> r2 = Inr (rep\<lparr>report_skipped := report_skipped rep
                    + length (filter (blob_forged lib cl) (page_blobs page))\<rparr>))"
proof -
  let ?rep = "\<lparr>report_absorbed = 0, report_skipped = 0, report_malformed = 0\<rparr>"
  obtain q where q: "pull_loop h lib from_slice cl (filter (\<lambda>b. \<not> blob_forged lib cl b) (page_blobs page))
      ?rep (cl_pull_cursor cl) e = (q, e')"
    "case q of Inl err \<Rightarrow> r = Inl (ClientSync err) | Inr (rep, c) \<Rightarrow> r = Inr rep"
    using assms(2,3) by (auto simp: client_pull_reporting_def split: prod.splits sum.splits)
  from pull_loop_forged [OF q(1), of 0 "cl_pull_cursor cl"] q(2) show ?thesis
    using assms(1) by (cases q) (auto simp: client_pull_reporting_def)
qed

theorem forged_blobs_harmless_witness:
  "\<exists>r2 cl2. client_pull_reporting sorted_host tag_lib demo_from_slice
       (\<lambda>_ _ _. Inr \<lparr>page_next_cursor = 1, page_blobs = [\<lparr>sd_nonce = [1], sd_ciphertext = [9]\<rparr>]\<rparr>)
       demo_client (engine_new 1) () = ((r2 :: unit client_sync_error + pull_report), cl2, engine_new 1)
     \<and> r2 = Inr \<lparr>report_absorbed = 0, report_skipped = 1, report_malformed = 0\<rparr>"
proof -
  let ?blob = "\<lparr>sd_nonce = [1], sd_ciphertext = [9]\<rparr>"
  let ?page = "\<lparr>page_next_cursor = 1, page_blobs = [?blob]\<rparr>"
  have f: "blob_forged tag_lib demo_client ?blob"
    by (simp add: blob_forged_def tag_lib_def demo_client_sel)
  have c: "client_pull_reporting sorted_host tag_lib demo_from_slice
      (\<lambda>_ _ _. Inr (?page\<lparr>page_blobs := filter (\<lambda>b. \<not> blob_forged tag_lib demo_client b) [?blob]\<rparr>))
      demo_client (engine_new 1) () =
      ((Inr \<lparr>report_absorbed = 0, report_skipped = 0, report_malformed = 0\<rparr> :: unit client_sync_error + pull_report),
       demo_client\<lparr>cl_pull_cursor := 1\<rparr>, engine_new 1)"
    by (simp add: f client_pull_reporting_def demo_client_sel)
  show ?thesis
    using forged_blobs_harmless [OF _ _ c, where t_pull = "\<lambda>_ _ _. Inr ?page" and page = ?page] by (simp add: f)
qed

text \<open>
  A failed pull is recoverable: the only failures are the transport's and an envelope from a
  later epoch, and both leave the cursor and the watermark where they were, so that the retry
  fetches the same blobs.
\<close>

theorem pull_failure_keeps_cursor:
  assumes "client_pull_reporting h lib from_slice t_pull cl e s = (Inl err, cl', e')"
    and "cl_pull_cursor cl < 2 ^ 64"
  shows "cl' = cl \<and> ((\<exists>t. t_pull s (cl_topic cl) (cl_pull_cursor cl) = Inl t \<and> err = ClientTransport t \<and> e' = e)
    \<or> (\<exists>receiver envelope. err = ClientSync (CompactionEpochBehind receiver envelope) \<and> receiver < envelope))"
proof (cases "t_pull s (cl_topic cl) (cl_pull_cursor cl)")
  case (Inl t)
  then show ?thesis using assms(1) by (simp add: client_pull_reporting_def)
next
  case (Inr page)
  let ?loop = "pull_loop h lib from_slice cl (page_blobs page)
    \<lparr>report_absorbed = 0, report_skipped = 0, report_malformed = 0\<rparr> (cl_pull_cursor cl) e"
  from assms(1) Inr obtain serr where "?loop = (Inl serr, e')" "err = ClientSync serr" "cl' = cl"
    by (auto simp: client_pull_reporting_def split: prod.splits sum.splits)
  then show ?thesis
    using pull_loop_outcomes [OF assms(2), of "page_blobs page" h lib from_slice cl
        "\<lparr>report_absorbed = 0, report_skipped = 0, report_malformed = 0\<rparr>" e] by simp
qed

theorem pull_failure_keeps_cursor_witness:
  "\<exists>err e'. client_pull_reporting sorted_host tag_lib (\<lambda>_. Some \<lparr>env_epoch = 1, env_since = 0, env_ops = []\<rparr>)
      (\<lambda>_ _ _. Inr \<lparr>page_next_cursor = 1, page_blobs = [\<lparr>sd_nonce = [], sd_ciphertext = []\<rparr>]\<rparr>)
      demo_client (engine_new 1 :: nat sync_engine) () = ((Inl err :: unit client_sync_error + pull_report), demo_client, e')"
proof -
  obtain err cl' e' where "client_pull_reporting sorted_host tag_lib (\<lambda>_. Some \<lparr>env_epoch = 1, env_since = 0, env_ops = []\<rparr>)
      (\<lambda>_ _ _. Inr \<lparr>page_next_cursor = 1, page_blobs = [\<lparr>sd_nonce = [], sd_ciphertext = []\<rparr>]\<rparr>)
      demo_client (engine_new 1 :: nat sync_engine) () = ((Inl err :: unit client_sync_error + pull_report), cl', e')"
    by (simp add: client_pull_reporting_def client_open_def decrypt_aead_def tag_lib_def demo_client_def Let_def
        apply_delta_def decode_delta_def empty_engine_log)
  from this pull_failure_keeps_cursor [OF this] show ?thesis by (auto simp: demo_client_def)
qed

text \<open>
  The page's cursor may be below the request's: a client that outlived the buffer it had read
  keeps its old cursor and sees none of the blobs filed below it.
\<close>

lemma stale_cursor_misses:
  "length (imt_raw_blobs s topic) < since \<Longrightarrow>
     imt_pull s topic since = Inr \<lparr>page_next_cursor = u64_try_from (length (imt_raw_blobs s topic)), page_blobs = []\<rparr>"
  by (auto simp: imt_pull_def imt_raw_blobs_def Let_def split: option.splits)

end
