(* ===== verification/Sync_Relay.thy ===== *)
theory Sync_Relay
  imports Sync_Transport
begin

text \<open>
  The authenticated, untrusted relay of \<^verbatim>\<open>crates/sync_relay/src\<close>: the blob store with its limits
  (\<^verbatim>\<open>store.rs\<close>), bearer tokens and the token registry (\<^verbatim>\<open>auth.rs\<close>), and the HTTP handlers
  (\<^verbatim>\<open>server.rs\<close>). Text is ASCII. The JSON parser of a push body and the header-to-text
  conversion of the HTTP library are parameters.
\<close>

section \<open>The blob store\<close>

type_synonym tenant_id = string

record store_limits =
  max_blobs_per_topic :: nat
  max_blob_bytes :: nat

definition store_limits_default :: store_limits where
  "store_limits_default = \<lparr>max_blobs_per_topic = 1000000, max_blob_bytes = 8 * 1024 * 1024\<rparr>"

datatype relay_error =
    QuotaExceeded nat
  | BlobTooLarge nat nat
  | Bind string
  | Serve string

record blob_store =
  bs_limits :: store_limits
  bs_topics :: "(tenant_id \<times> topic_id) \<rightharpoonup> sealed_delta list"

definition store_new :: "store_limits \<Rightarrow> blob_store" where
  "store_new limits = \<lparr>bs_limits = limits, bs_topics = Map.empty\<rparr>"

definition store_default :: blob_store where
  "store_default = store_new store_limits_default"

definition blob_count :: "blob_store \<Rightarrow> tenant_id \<Rightarrow> topic_id \<Rightarrow> nat" where
  "blob_count s tenant topic =
     (case bs_topics s (tenant, topic) of None \<Rightarrow> 0 | Some v \<Rightarrow> length v)"

definition raw_blobs :: "blob_store \<Rightarrow> tenant_id \<Rightarrow> topic_id \<Rightarrow> sealed_delta list" where
  "raw_blobs s tenant topic = or_empty_list (bs_topics s (tenant, topic))"

text \<open>The size loop of \<open>append\<close>: the first blob over the limit, if any.\<close>

fun oversized_blob :: "nat \<Rightarrow> sealed_delta list \<Rightarrow> relay_error option" where
  "oversized_blob limit [] = None"
| "oversized_blob limit (blob # blobs) =
     (if length (sd_ciphertext blob) > limit
      then Some (BlobTooLarge (length (sd_ciphertext blob)) limit)
      else oversized_blob limit blobs)"

text \<open>\<open>append\<close>. The quota is tested after \<^verbatim>\<open>entry().or_default()\<close> has created the topic.\<close>

definition store_append ::
  "blob_store \<Rightarrow> tenant_id \<Rightarrow> topic_id \<Rightarrow> sealed_delta list \<Rightarrow> (relay_error + nat) \<times> blob_store" where
  "store_append s tenant topic blobs =
     (case oversized_blob (max_blob_bytes (bs_limits s)) blobs of
        Some err \<Rightarrow> (Inl err, s)
      | None \<Rightarrow>
          (let entry = or_empty_list (bs_topics s (tenant, topic));
               s1 = s\<lparr>bs_topics := (bs_topics s)((tenant, topic) \<mapsto> entry)\<rparr>
           in if sat_add (length entry) (length blobs) > max_blobs_per_topic (bs_limits s)
              then (Inl (QuotaExceeded (max_blobs_per_topic (bs_limits s))), s1)
              else (Inr (u64_try_from (length (entry @ blobs))),
                    s1\<lparr>bs_topics := (bs_topics s1)((tenant, topic) \<mapsto> entry @ blobs)\<rparr>)))"

definition store_read_since ::
  "blob_store \<Rightarrow> tenant_id \<Rightarrow> topic_id \<Rightarrow> nat \<Rightarrow> relay_error + pull_page" where
  "store_read_since s tenant topic since =
     (let all_blobs = bs_topics s (tenant, topic);
          len = (case all_blobs of None \<Rightarrow> 0 | Some v \<Rightarrow> length v);
          start = min since len
      in Inr \<lparr>page_next_cursor = u64_try_from len,
              page_blobs = (case all_blobs of None \<Rightarrow> [] | Some v \<Rightarrow> drop start v)\<rparr>)"

section \<open>Text\<close>

definition is_space :: "char \<Rightarrow> bool" where
  "is_space c \<longleftrightarrow> (let n = of_char c :: nat in n = 32 \<or> (9 \<le> n \<and> n \<le> 13))"

definition trim :: "string \<Rightarrow> string" where
  "trim s = rev (dropWhile is_space (rev (dropWhile is_space s)))"

text \<open>\<^verbatim>\<open>str::split\<close> on one character, and \<^verbatim>\<open>str::split_once\<close>.\<close>

fun split_on :: "char \<Rightarrow> string \<Rightarrow> string list" where
  "split_on sep [] = [[]]"
| "split_on sep (c # cs) =
     (if c = sep then [] # split_on sep cs
      else (case split_on sep cs of [] \<Rightarrow> [[c]] | p # ps \<Rightarrow> (c # p) # ps))"

fun split_once :: "char \<Rightarrow> string \<Rightarrow> (string \<times> string) option" where
  "split_once sep [] = None"
| "split_once sep (c # cs) =
     (if c = sep then Some ([], cs)
      else (case split_once sep cs of None \<Rightarrow> None | Some (a, b) \<Rightarrow> Some (c # a, b)))"

section \<open>Tokens\<close>

type_synonym token_registry = "string \<rightharpoonup> tenant_id"

definition registry_new :: token_registry where
  "registry_new = Map.empty"

definition registry_insert :: "token_registry \<Rightarrow> string \<Rightarrow> tenant_id \<Rightarrow> token_registry" where
  "registry_insert reg token tenant = reg(token \<mapsto> tenant)"

text \<open>The loop of \<open>from_pairs\<close> over the entries; \<open>None\<close> is the early return.\<close>

fun from_pairs_loop :: "string list \<Rightarrow> token_registry \<Rightarrow> token_registry option" where
  "from_pairs_loop [] registry = Some registry"
| "from_pairs_loop (entry # entries) registry =
     (let entry' = trim entry
      in if entry' = [] then from_pairs_loop entries registry
         else (case split_once CHR '':'' entry' of
                 None \<Rightarrow> None
               | Some (token, tenant) \<Rightarrow>
                   (let token' = trim token; tenant' = trim tenant
                    in if token' = [] \<or> tenant' = [] then None
                       else from_pairs_loop entries (registry_insert registry token' tenant'))))"

definition from_pairs :: "string \<Rightarrow> token_registry option" where
  "from_pairs spec = from_pairs_loop (split_on CHR '','' spec) registry_new"

definition registry_len :: "token_registry \<Rightarrow> nat" where
  "registry_len reg = card (dom reg)"

definition registry_is_empty :: "token_registry \<Rightarrow> bool" where
  "registry_is_empty reg \<longleftrightarrow> dom reg = {}"

definition registry_authenticate :: "token_registry \<Rightarrow> string \<Rightarrow> tenant_id option" where
  "registry_authenticate reg token = reg token"

definition bearer_token :: "string \<Rightarrow> string option" where
  "bearer_token header_value =
     (case split_once CHR '' '' header_value of
        None \<Rightarrow> None
      | Some (scheme, credential) \<Rightarrow>
          if map ascii_lower scheme \<noteq> map ascii_lower ''Bearer'' then None
          else (let token = trim credential in if token = [] then None else Some token))"

section \<open>Handlers\<close>

definition json_blob_expansion :: nat where
  "json_blob_expansion = 6"

definition body_limit_headroom :: nat where
  "body_limit_headroom = 64 * 1024"

definition body_limit_for :: "nat \<Rightarrow> nat" where
  "body_limit_for max_bytes = sat_add (sat_mul max_bytes json_blob_expansion) body_limit_headroom"

record relay_config =
  cfg_bind_addr :: string
  cfg_max_body_bytes :: nat

definition relay_config_new :: "string \<Rightarrow> relay_config" where
  "relay_config_new bind_addr =
     \<lparr>cfg_bind_addr = bind_addr,
      cfg_max_body_bytes = body_limit_for (max_blob_bytes store_limits_default)\<rparr>"

definition with_max_blob_bytes :: "relay_config \<Rightarrow> nat \<Rightarrow> relay_config" where
  "with_max_blob_bytes cfg max_bytes = cfg\<lparr>cfg_max_body_bytes := body_limit_for max_bytes\<rparr>"

record relay_state =
  rs_store :: blob_store
  rs_tokens :: token_registry

datatype response_body =
    TextBody string
  | ErrorBody relay_error
  | ParseErrorBody string
  | PushBody nat
  | PageBody pull_page

record response =
  resp_status :: nat
  resp_body :: response_body

type_synonym headers = "string \<rightharpoonup> byte list"

definition unauthorized :: response where
  "unauthorized = \<lparr>resp_status = 401, resp_body = TextBody ''invalid or missing bearer token''\<rparr>"

text \<open>\<open>to_str\<close> reads a header value as text when it is visible ASCII.\<close>

definition authenticate ::
  "(byte list \<Rightarrow> string option) \<Rightarrow> relay_state \<Rightarrow> headers \<Rightarrow> tenant_id option" where
  "authenticate to_str state hdrs =
     Option.bind (Option.bind (Option.bind (hdrs ''authorization'') to_str) bearer_token)
       (registry_authenticate (rs_tokens state))"

definition push_handler ::
  "(byte list \<Rightarrow> string option) \<Rightarrow> (byte list \<Rightarrow> string + sealed_delta list)
     \<Rightarrow> relay_state \<Rightarrow> string \<Rightarrow> headers \<Rightarrow> byte list \<Rightarrow> response \<times> relay_state" where
  "push_handler to_str parse state topic_hex hdrs body =
     (case authenticate to_str state hdrs of
        None \<Rightarrow> (unauthorized, state)
      | Some tenant \<Rightarrow>
          (case from_hex topic_hex of
             Inl _ \<Rightarrow> (\<lparr>resp_status = 400, resp_body = TextBody ''invalid topic id''\<rparr>, state)
           | Inr topic \<Rightarrow>
               (case parse body of
                  Inl e \<Rightarrow> (\<lparr>resp_status = 400, resp_body = ParseErrorBody e\<rparr>, state)
                | Inr blobs \<Rightarrow>
                    (case store_append (rs_store state) tenant topic blobs of
                       (Inr cursor, store') \<Rightarrow>
                         (\<lparr>resp_status = 200, resp_body = PushBody cursor\<rparr>, state\<lparr>rs_store := store'\<rparr>)
                     | (Inl (BlobTooLarge sz limit), store') \<Rightarrow>
                         (\<lparr>resp_status = 413, resp_body = ErrorBody (BlobTooLarge sz limit)\<rparr>,
                          state\<lparr>rs_store := store'\<rparr>)
                     | (Inl (QuotaExceeded limit), store') \<Rightarrow>
                         (\<lparr>resp_status = 507, resp_body = ErrorBody (QuotaExceeded limit)\<rparr>,
                          state\<lparr>rs_store := store'\<rparr>)
                     | (Inl e, store') \<Rightarrow>
                         (\<lparr>resp_status = 500, resp_body = ErrorBody e\<rparr>, state\<lparr>rs_store := store'\<rparr>)))))"

definition pull_handler ::
  "(byte list \<Rightarrow> string option) \<Rightarrow> relay_state \<Rightarrow> string \<Rightarrow> nat \<Rightarrow> headers \<Rightarrow> response" where
  "pull_handler to_str state topic_hex since hdrs =
     (case authenticate to_str state hdrs of
        None \<Rightarrow> unauthorized
      | Some tenant \<Rightarrow>
          (case from_hex topic_hex of
             Inl _ \<Rightarrow> \<lparr>resp_status = 400, resp_body = TextBody ''invalid topic id''\<rparr>
           | Inr topic \<Rightarrow>
               (case store_read_since (rs_store state) tenant topic since of
                  Inr page \<Rightarrow> \<lparr>resp_status = 200, resp_body = PageBody page\<rparr>
                | Inl e \<Rightarrow> \<lparr>resp_status = 500, resp_body = ErrorBody e\<rparr>)))"

text \<open>A short prefix of a topic for the logs.\<close>

definition topic_prefix :: "string \<Rightarrow> string" where
  "topic_prefix topic_hex = take (min 8 (length topic_hex)) topic_hex"

text \<open>
  The routes of \<open>build_router\<close> with its body limit. A path parameter is one non-empty segment; the
  limit applies to the route that reads a body.
\<close>

datatype http_method = GET | POST

definition digit_of :: "char \<Rightarrow> nat option" where
  "digit_of c = (let n = of_char c in if 48 \<le> n \<and> n \<le> 57 then Some (n - 48) else None)"

definition parse_u64_step :: "nat option \<Rightarrow> char \<Rightarrow> nat option" where
  "parse_u64_step acc c =
     (case acc of
        None \<Rightarrow> None
      | Some a \<Rightarrow> (case digit_of c of
                     None \<Rightarrow> None
                   | Some d \<Rightarrow> if a * 10 + d \<le> u64_max then Some (a * 10 + d) else None))"

definition parse_u64 :: "string \<Rightarrow> nat option" where
  "parse_u64 s = (if s = [] then None else foldl parse_u64_step (Some 0) s)"

fun show_u64 :: "nat \<Rightarrow> string" where
  "show_u64 n =
     (if n < 10 then [char_of (48 + n)] else show_u64 (n div 10) @ [char_of (48 + n mod 10)])"

declare show_u64.simps [simp del]

definition status_only :: "nat \<Rightarrow> response" where
  "status_only code = \<lparr>resp_status = code, resp_body = TextBody []\<rparr>"

definition build_router ::
  "(byte list \<Rightarrow> string option) \<Rightarrow> (byte list \<Rightarrow> string + sealed_delta list) \<Rightarrow> nat
     \<Rightarrow> http_method \<Rightarrow> string \<Rightarrow> headers \<Rightarrow> byte list \<Rightarrow> relay_state \<Rightarrow> response \<times> relay_state" where
  "build_router to_str parse max_body_bytes meth path hdrs body state =
     (case split_on CHR ''/'' path of
        [[], v, ts, topic, ds] \<Rightarrow>
          if v = ''v1'' \<and> ts = ''topics'' \<and> topic \<noteq> [] \<and> ds = ''deltas'' then
            (if meth = POST then
               (if length body > max_body_bytes then (status_only 413, state)
                else push_handler to_str parse state topic hdrs body)
             else (status_only 405, state))
          else (status_only 404, state)
      | [[], v, ts, topic, ds, since] \<Rightarrow>
          if v = ''v1'' \<and> ts = ''topics'' \<and> topic \<noteq> [] \<and> ds = ''deltas'' \<and> since \<noteq> [] then
            (if meth = GET then
               (case parse_u64 since of
                  None \<Rightarrow> (status_only 400, state)
                | Some n \<Rightarrow> (pull_handler to_str state topic n hdrs, state))
             else (status_only 405, state))
          else (status_only 404, state)
      | [[], hz] \<Rightarrow>
          if hz = ''healthz'' then (if meth = GET then (status_only 200, state) else (status_only 405, state))
          else (status_only 404, state)
      | _ \<Rightarrow> (status_only 404, state))"

section \<open>The HTTP client\<close>

datatype http_transport_error =
    Request string
  | Status nat response_body
  | Decode

record http_relay_transport =
  ht_base_url :: string
  ht_token :: string

definition http_new :: "string \<Rightarrow> string \<Rightarrow> http_relay_transport" where
  "http_new base_url token =
     \<lparr>ht_base_url = rev (dropWhile (\<lambda>c. c = CHR ''/'') (rev base_url)), ht_token = token\<rparr>"

definition deltas_url :: "http_relay_transport \<Rightarrow> topic_id \<Rightarrow> string" where
  "deltas_url t topic = ht_base_url t @ ''/v1/topics/'' @ to_hex topic @ ''/deltas''"

definition check_status :: "response \<Rightarrow> http_transport_error + response" where
  "check_status resp =
     (if 200 \<le> resp_status resp \<and> resp_status resp < 300 then Inr resp
      else Inl (Status (resp_status resp) (resp_body resp)))"

text \<open>
  The network: \<open>send meth url auth body\<close> answers with a failed request or the peer's response. The
  JSON form of a push body is \<open>ser\<close>; \<^verbatim>\<open>bearer_auth\<close> prefixes the token.
\<close>

definition bearer_auth :: "string \<Rightarrow> string" where
  "bearer_auth token = ''Bearer '' @ token"

type_synonym 's network =
  "http_method \<Rightarrow> string \<Rightarrow> string \<Rightarrow> byte list \<Rightarrow> 's \<Rightarrow> (string + response) \<times> 's"

definition http_push ::
  "'s network \<Rightarrow> (sealed_delta list \<Rightarrow> byte list) \<Rightarrow> http_relay_transport \<Rightarrow> 's \<Rightarrow> topic_id
     \<Rightarrow> sealed_delta list \<Rightarrow> (http_transport_error + nat) \<times> 's" where
  "http_push send ser t s topic blobs =
     (case send POST (deltas_url t topic) (bearer_auth (ht_token t)) (ser blobs) s of
        (Inl e, s') \<Rightarrow> (Inl (Request e), s')
      | (Inr resp, s') \<Rightarrow>
          (case check_status resp of
             Inl e \<Rightarrow> (Inl e, s')
           | Inr resp' \<Rightarrow>
               (case resp_body resp' of PushBody cursor \<Rightarrow> (Inr cursor, s') | _ \<Rightarrow> (Inl Decode, s'))))"

definition http_pull ::
  "'s network \<Rightarrow> http_relay_transport \<Rightarrow> 's \<Rightarrow> topic_id \<Rightarrow> nat \<Rightarrow> http_transport_error + pull_page" where
  "http_pull send t s topic since =
     (case fst (send GET (deltas_url t topic @ ''/'' @ show_u64 since) (bearer_auth (ht_token t)) [] s) of
        Inl e \<Rightarrow> Inl (Request e)
      | Inr resp \<Rightarrow>
          (case check_status resp of
             Inl e \<Rightarrow> Inl e
           | Inr resp' \<Rightarrow>
               (case resp_body resp' of PageBody page \<Rightarrow> Inr page | _ \<Rightarrow> Inl Decode)))"

text \<open>A network that reaches the relay at \<open>base\<close>.\<close>

definition relay_network ::
  "string \<Rightarrow> (byte list \<Rightarrow> string option) \<Rightarrow> (byte list \<Rightarrow> string + sealed_delta list) \<Rightarrow> nat
     \<Rightarrow> relay_state network" where
  "relay_network base to_str parse max_body meth url auth body s =
     (if take (length base) url = base then
        (case build_router to_str parse max_body meth (drop (length base) url)
                [''authorization'' \<mapsto> string_bytes auth] body s of
           (resp, s') \<Rightarrow> (Inr resp, s'))
      else (Inl ''connection refused'', s))"

section \<open>The store keeps the transport contract\<close>

interpretation relay: blob_log
  "\<lambda>s k. store_append s (fst k) (snd k)"
  "\<lambda>s k. store_read_since s (fst k) (snd k)"
  "\<lambda>s k. raw_blobs s (fst k) (snd k)"
  by unfold_locales
    (auto simp: store_append_def store_read_since_def raw_blobs_def Let_def fun_eq_iff
      split: option.splits if_splits)

interpretation tenant_relay: client_transport
  "\<lambda>s. store_append s tenant" "\<lambda>s. store_read_since s tenant" "\<lambda>s. raw_blobs s tenant" for tenant
  by unfold_locales
    (auto simp: store_append_def store_read_since_def raw_blobs_def Let_def fun_eq_iff
      split: option.splits if_splits)

section \<open>Text lemmas\<close>

lemma split_on_ne [simp]: "split_on sep s \<noteq> []"
  by (induction s) (auto split: list.split)

lemma split_on_no_sep: "sep \<notin> set s \<Longrightarrow> split_on sep s = [s]"
  by (induction s) auto

lemma split_on_append_sep: "sep \<notin> set a \<Longrightarrow> split_on sep (a @ sep # b) = a # split_on sep b"
  by (induction a) (auto split: list.split)

lemma split_once_append: "sep \<notin> set a \<Longrightarrow> split_once sep (a @ sep # b) = Some (a, b)"
  by (induction a) auto

lemma trim_no_space: "\<forall>c \<in> set s. \<not> is_space c \<Longrightarrow> trim s = s"
proof -
  assume *: "\<forall>c \<in> set s. \<not> is_space c"
  have "dropWhile is_space t = t" if "\<forall>c \<in> set t. \<not> is_space c" for t
    using that by (cases t) auto
  from this [of s] this [of "rev s"] * show "trim s = s" by (simp add: trim_def)
qed

lemma parse_show_aux:
  "n \<le> u64_max \<Longrightarrow> foldl parse_u64_step (Some 0) (show_u64 n) = Some n"
proof (induction n rule: show_u64.induct)
  case (1 n)
  have d: "digit_of (char_of (48 + k :: nat)) = Some k" if "k < 10" for k
    using that by (simp add: digit_of_def of_char_of)
  show ?case
  proof (cases "n < 10")
    case True
    then show ?thesis using 1 by (simp add: show_u64.simps [of n] parse_u64_step_def d)
  next
    case False
    then have "foldl parse_u64_step (Some 0) (show_u64 (n div 10)) = Some (n div 10)" using 1 by simp
    moreover have "parse_u64_step (Some (n div 10)) (char_of (48 + n mod 10)) = Some n"
      using 1(2) by (simp add: parse_u64_step_def d)
    ultimately show ?thesis using False by (simp add: show_u64.simps [of n])
  qed
qed

lemma show_u64_ne [simp]: "show_u64 n \<noteq> []"
  by (simp add: show_u64.simps [of n])

lemma parse_show_u64: "n \<le> u64_max \<Longrightarrow> parse_u64 (show_u64 n) = Some n"
  by (simp add: parse_u64_def parse_show_aux)

lemma show_u64_no_slash: "CHR ''/'' \<notin> set (show_u64 n)"
proof (induction n rule: show_u64.induct)
  case (1 n)
  have "CHR ''/'' \<noteq> char_of (48 + k :: nat)" if "k < 10" for k
  proof
    assume "CHR ''/'' = char_of (48 + k)"
    then have "(of_char CHR ''/'' :: nat) = of_char (char_of (48 + k :: nat))" by (rule arg_cong)
    then show False using that by (simp add: of_char_of)
  qed
  then show ?case using 1 by (simp add: show_u64.simps [of n])
qed

lemma to_hex_no_slash: "CHR ''/'' \<notin> set (to_hex topic)"
proof -
  have all: "\<forall>n \<in> set [0..<16]. char_from (HEX ! n) \<noteq> CHR ''/''" by code_simp
  have "char_from (HEX ! n) \<noteq> CHR ''/''" if "n < 16" for n using bspec [OF all] that by simp
  then have "CHR ''/'' \<noteq> char_from (HEX ! unat (drop_bit 4 b))" "CHR ''/'' \<noteq> char_from (HEX ! unat (and b 15))"
    for b :: byte
    using nibbles [of b] by metis+
  then show ?thesis by (induction topic) (simp_all add: to_hex_Cons, simp add: to_hex_def)
qed

section \<open>Requests and runs\<close>

datatype relay_request =
    PushReq string headers "byte list"
  | PullReq string nat headers

fun req_headers :: "relay_request \<Rightarrow> headers" where
  "req_headers (PushReq _ hdrs _) = hdrs"
| "req_headers (PullReq _ _ hdrs) = hdrs"

fun relay_serve ::
  "(byte list \<Rightarrow> string option) \<Rightarrow> (byte list \<Rightarrow> string + sealed_delta list) \<Rightarrow> relay_request
     \<Rightarrow> relay_state \<Rightarrow> relay_state" where
  "relay_serve to_str parse (PushReq topic_hex hdrs body) state =
     snd (push_handler to_str parse state topic_hex hdrs body)"
| "relay_serve to_str parse (PullReq topic_hex since hdrs) state = state"

abbreviation stored_blobs :: "relay_state \<Rightarrow> tenant_id \<Rightarrow> topic_id \<Rightarrow> sealed_delta list" where
  "stored_blobs st \<equiv> raw_blobs (rs_store st)"

text \<open>A push touches the store only through one \<open>append\<close> under the caller's tenant.\<close>

lemma push_handler_append:
  assumes "authenticate to_str st hdrs = Some tenant" "from_hex topic_hex = Inr topic" "parse body = Inr blobs"
  shows "snd (push_handler to_str parse st topic_hex hdrs body) =
    st\<lparr>rs_store := snd (store_append (rs_store st) tenant topic blobs)\<rparr>"
  using assms by (auto simp: push_handler_def split: sum.splits prod.splits relay_error.splits)

lemma push_handler_state:
  obtains "snd (push_handler to_str parse st topic_hex hdrs body) = st"
  | tenant topic blobs where "authenticate to_str st hdrs = Some tenant"
      "snd (push_handler to_str parse st topic_hex hdrs body) =
         st\<lparr>rs_store := snd (store_append (rs_store st) tenant topic blobs)\<rparr>"
proof (cases "authenticate to_str st hdrs")
  case (Some tenant)
  show ?thesis
  proof (cases "\<exists>topic blobs. from_hex topic_hex = Inr topic \<and> parse body = Inr blobs")
    case True
    then show ?thesis using that(2) push_handler_append Some by metis
  next
    case False
    then have "snd (push_handler to_str parse st topic_hex hdrs body) = st"
      using Some by (auto simp: push_handler_def split: sum.splits)
    then show ?thesis by (rule that(1))
  qed
qed (use that(1) in \<open>simp add: push_handler_def\<close>)

lemma relay_serve_tokens [simp]: "rs_tokens (relay_serve to_str parse req st) = rs_tokens st"
proof (cases req)
  case (PushReq topic_hex hdrs body)
  then show ?thesis
    by (cases rule: push_handler_state [of to_str parse st topic_hex hdrs body]) auto
qed simp

lemma relay_run_tokens [simp]: "rs_tokens (fold (relay_serve to_str parse) reqs st) = rs_tokens st"
  by (induction reqs arbitrary: st) simp_all

lemma authenticate_cong: "rs_tokens st' = rs_tokens st \<Longrightarrow> authenticate to_str st' = authenticate to_str st"
  by (rule ext) (simp add: authenticate_def)

lemma relay_serve_other:
  assumes "authenticate to_str st (req_headers req) \<noteq> Some tenant"
  shows "stored_blobs (relay_serve to_str parse req st) tenant topic = stored_blobs st tenant topic"
proof (cases req)
  case (PushReq topic_hex hdrs body)
  show ?thesis
  proof (cases rule: push_handler_state [of to_str parse st topic_hex hdrs body])
    case (2 tenant' topic' blobs)
    then have "tenant' \<noteq> tenant" using assms PushReq by auto
    then show ?thesis
      using PushReq 2 relay.puts_other [of "[((tenant', topic'), blobs)]" "(tenant, topic)" "rs_store st"]
      by simp
  qed (use PushReq in simp)
qed simp

lemma relay_run_other:
  assumes "\<forall>req \<in> set reqs. authenticate to_str st (req_headers req) \<noteq> Some tenant"
  shows "stored_blobs (fold (relay_serve to_str parse) reqs st) tenant topic = stored_blobs st tenant topic"
  using assms
proof (induction reqs arbitrary: st)
  case (Cons req reqs)
  then show ?case
    using authenticate_cong [of "relay_serve to_str parse req st" st to_str]
    by (simp add: relay_serve_other)
qed simp

lemma read_since_stored:
  "store_read_since s tenant topic since =
     Inr \<lparr>page_next_cursor = u64_try_from (length (raw_blobs s tenant topic)),
          page_blobs = drop since (raw_blobs s tenant topic)\<rparr>"
  by (auto simp: store_read_since_def raw_blobs_def Let_def split: option.splits)

text \<open>The limits as an invariant of the store.\<close>

definition store_inv :: "blob_store \<Rightarrow> bool" where
  "store_inv s \<longleftrightarrow>
     (\<forall>tenant topic. length (raw_blobs s tenant topic) \<le> max_blobs_per_topic (bs_limits s) \<and>
        (\<forall>blob \<in> set (raw_blobs s tenant topic).
           length (sd_ciphertext blob) \<le> max_blob_bytes (bs_limits s)))"

lemma oversized_blob_None:
  "oversized_blob limit blobs = None \<longleftrightarrow> (\<forall>blob \<in> set blobs. length (sd_ciphertext blob) \<le> limit)"
  by (induction blobs) (auto simp: not_less)

lemma store_append_limits [simp]: "bs_limits (snd (store_append s tenant topic blobs)) = bs_limits s"
  by (auto simp: store_append_def Let_def split: option.splits)

lemma store_append_inv:
  assumes "store_inv s" "max_blobs_per_topic (bs_limits s) < u64_max"
  shows "store_inv (snd (store_append s tenant topic blobs))"
proof (cases "store_append s tenant topic blobs")
  case (Pair r s')
  show ?thesis
  proof (cases r)
    case (Inl err)
    then show ?thesis
      using relay.put_Inl [of s "(tenant, topic)" blobs err s'] Pair assms(1) store_append_limits [of s tenant topic blobs]
      by (simp add: store_inv_def fun_eq_iff)
  next
    case (Inr c)
    then have "oversized_blob (max_blob_bytes (bs_limits s)) blobs = None"
      "length (raw_blobs s tenant topic) + length blobs \<le> max_blobs_per_topic (bs_limits s)"
      using Pair assms(2)
      by (auto simp: store_append_def raw_blobs_def sat_add_def Let_def split: option.splits if_splits)
    then show ?thesis
      using relay.put_Inr [of s "(tenant, topic)" blobs c s'] Pair Inr assms(1) store_append_limits [of s tenant topic blobs]
      by (auto simp: store_inv_def fun_eq_iff oversized_blob_None)
  qed
qed

lemma relay_serve_inv:
  assumes "store_inv (rs_store st)" "max_blobs_per_topic (bs_limits (rs_store st)) < u64_max"
  shows "store_inv (rs_store (relay_serve to_str parse req st))
    \<and> bs_limits (rs_store (relay_serve to_str parse req st)) = bs_limits (rs_store st)
    \<and> (\<exists>more. stored_blobs (relay_serve to_str parse req st) tenant topic = stored_blobs st tenant topic @ more)"
proof (cases req)
  case (PushReq topic_hex hdrs body)
  show ?thesis
  proof (cases rule: push_handler_state [of to_str parse st topic_hex hdrs body])
    case (2 tenant' topic' blobs)
    then show ?thesis
      using PushReq store_append_inv [OF assms] relay.put_grows [of "rs_store st" "(tenant', topic')" blobs "(tenant, topic)"]
      by simp
  qed (use PushReq assms in simp)
qed (use assms in simp)

lemma relay_run_inv:
  assumes "store_inv (rs_store st)" "max_blobs_per_topic (bs_limits (rs_store st)) < u64_max"
  shows "store_inv (rs_store (fold (relay_serve to_str parse) reqs st))
    \<and> (\<exists>more. stored_blobs (fold (relay_serve to_str parse) reqs st) tenant topic = stored_blobs st tenant topic @ more)"
  using assms
proof (induction reqs arbitrary: st)
  case (Cons req reqs)
  then show ?case
    using relay_serve_inv [OF Cons.prems, of to_str parse req tenant topic]
    by (metis append.assoc fold_simps(2))
qed simp

section \<open>Properties\<close>

text \<open>
  C9. Tenant isolation: whatever requests other tenants or unauthenticated callers send, in any
  number and order, a tenant's stored blobs stay as they are and every pull the tenant makes is
  answered as before.
\<close>

theorem relay_tenant_isolation:
  assumes "\<forall>req \<in> set reqs. authenticate to_str st (req_headers req) \<noteq> Some tenant"
  shows "stored_blobs (fold (relay_serve to_str parse) reqs st) tenant topic = stored_blobs st tenant topic
    \<and> (\<forall>hdrs topic_hex since. authenticate to_str st hdrs = Some tenant \<longrightarrow>
         pull_handler to_str (fold (relay_serve to_str parse) reqs st) topic_hex since hdrs =
         pull_handler to_str st topic_hex since hdrs)"
  using relay_run_other [OF assms]
    authenticate_cong [of "fold (relay_serve to_str parse) reqs st" st to_str]
  by (auto simp: pull_handler_def read_since_stored split: sum.splits)

definition demo_state :: relay_state where
  "demo_state = \<lparr>rs_store = store_default, rs_tokens = [''tok-a'' \<mapsto> ''a'', ''tok-b'' \<mapsto> ''b'']\<rparr>"

definition demo_to_str :: "byte list \<Rightarrow> string option" where
  "demo_to_str v = Some (map char_from v)"

lemma demo_to_str_string [simp]: "demo_to_str (string_bytes s) = Some s"
  by (simp add: demo_to_str_def string_bytes_def char_from_def map_idI)

lemma char_98: "char_of (98::nat) = CHR ''b''"
  by code_simp

lemma demo_tokens:
  "authenticate demo_to_str demo_state [''authorization'' \<mapsto> string_bytes ''Bearer tok-a''] = Some ''a''"
  "authenticate demo_to_str demo_state [''authorization'' \<mapsto> string_bytes ''bearer tok-b''] = Some ''b''"
  "authenticate demo_to_str demo_state [''authorization'' \<mapsto> string_bytes ''Basic tok-b''] = None"
  by (simp_all add: authenticate_def bearer_token_def registry_authenticate_def demo_state_def
      ascii_lower_def trim_def is_space_def char_98)

theorem relay_tenant_isolation_witness:
  "stored_blobs (relay_serve demo_to_str (\<lambda>_. Inr [\<lparr>sd_nonce = [], sd_ciphertext = [1]\<rparr>])
     (PushReq (to_hex (replicate 32 0)) [''authorization'' \<mapsto> string_bytes ''bearer tok-b''] []) demo_state) ''a'' (replicate 32 0) = []"
proof -
  have "stored_blobs demo_state ''a'' (replicate 32 0) = []"
    by (simp add: demo_state_def store_default_def store_new_def raw_blobs_def)
  then show ?thesis
    using relay_tenant_isolation [of "[PushReq (to_hex (replicate 32 0)) [''authorization'' \<mapsto> string_bytes ''bearer tok-b''] []]"
        demo_to_str demo_state "''a''" "\<lambda>_. Inr [\<lparr>sd_nonce = [], sd_ciphertext = [1]\<rparr>]" "replicate 32 0"]
    by (simp add: demo_tokens)
qed

text \<open>
  The relay as an append-only log under its limits: from a store within its limits, after any
  requests, every topic of every tenant still starts with what it held, holds at most the
  permitted number of blobs, and no blob is over the size limit. (The configured count is below
  the saturation point.)
\<close>

theorem relay_append_only:
  assumes "store_inv (rs_store st)" "max_blobs_per_topic (bs_limits (rs_store st)) < u64_max"
  shows "store_inv (rs_store (fold (relay_serve to_str parse) reqs st))
    \<and> (\<exists>more. stored_blobs (fold (relay_serve to_str parse) reqs st) tenant topic = stored_blobs st tenant topic @ more)"
  by (rule relay_run_inv [OF assms])

theorem relay_append_only_witness:
  "store_inv (rs_store (relay_serve demo_to_str (\<lambda>_. Inr [\<lparr>sd_nonce = [], sd_ciphertext = [1]\<rparr>])
     (PushReq (to_hex (replicate 32 0)) [''authorization'' \<mapsto> string_bytes ''bearer tok-b''] []) demo_state))"
proof -
  have "store_inv (rs_store demo_state)" "max_blobs_per_topic (bs_limits (rs_store demo_state)) < u64_max"
    by (simp_all add: demo_state_def store_default_def store_new_def store_inv_def raw_blobs_def
        store_limits_default_def u64_max_def)
  from relay_append_only [OF this, of demo_to_str "\<lambda>_. Inr [\<lparr>sd_nonce = [], sd_ciphertext = [1]\<rparr>]"
      "[PushReq (to_hex (replicate 32 0)) [''authorization'' \<mapsto> string_bytes ''bearer tok-b''] []]"]
  show ?thesis by simp
qed

text \<open>
  The responses of a push, exhaustively: the status names the first check that fails, in the
  order authentication, topic, body, blob size, quota; only a 200 stores anything, and it stores
  exactly the blobs of the body at the end of the caller's topic and answers with the new length.
\<close>

theorem push_handler_outcomes:
  assumes "push_handler to_str parse st topic_hex hdrs body = (resp, st')"
  shows "case authenticate to_str st hdrs of
      None \<Rightarrow> resp_status resp = 401 \<and> st' = st
    | Some tenant \<Rightarrow>
        (case from_hex topic_hex of
           Inl _ \<Rightarrow> resp_status resp = 400 \<and> st' = st
         | Inr topic \<Rightarrow>
             (case parse body of
                Inl _ \<Rightarrow> resp_status resp = 400 \<and> st' = st
              | Inr blobs \<Rightarrow>
                  if \<exists>blob \<in> set blobs. length (sd_ciphertext blob) > max_blob_bytes (bs_limits (rs_store st))
                  then resp_status resp = 413 \<and> st' = st
                  else if sat_add (length (stored_blobs st tenant topic)) (length blobs)
                            > max_blobs_per_topic (bs_limits (rs_store st))
                  then resp_status resp = 507 \<and> stored_blobs st' = stored_blobs st
                  else resp_status resp = 200
                    \<and> stored_blobs st' tenant topic = stored_blobs st tenant topic @ blobs
                    \<and> resp_body resp = PushBody (u64_try_from (length (stored_blobs st' tenant topic)))))"
proof -
  have big: "(\<exists>blob \<in> set blobs. length (sd_ciphertext blob) > lim) \<longleftrightarrow> oversized_blob lim blobs \<noteq> None" for blobs lim
    by (simp only: oversized_blob_None) (auto simp: not_le)
  have form: "\<exists>n. err = BlobTooLarge n lim" if "oversized_blob lim blobs = Some err" for blobs lim err
    using that by (induction blobs) (auto split: if_splits)
  show ?thesis
    using assms unfolding big
    by (auto simp: push_handler_def store_append_def unauthorized_def raw_blobs_def Let_def fun_eq_iff
        split: option.splits sum.splits if_splits relay_error.splits dest: form)
qed

theorem push_handler_outcomes_witness:
  "resp_status (fst (push_handler demo_to_str (\<lambda>_. Inr []) demo_state (to_hex (replicate 32 0))
     [''authorization'' \<mapsto> string_bytes ''Basic tok-b''] [])) = 401"
  using push_handler_outcomes [of demo_to_str "\<lambda>_. Inr []" demo_state "to_hex (replicate 32 0)"
     "[''authorization'' \<mapsto> string_bytes ''Basic tok-b'']" "[]"]
  by (cases "push_handler demo_to_str (\<lambda>_. Inr []) demo_state (to_hex (replicate 32 0))
     [''authorization'' \<mapsto> string_bytes ''Basic tok-b''] []") (simp add: demo_tokens)

text \<open>The textual form of a credential list, as an operator writes it.\<close>

fun render_pairs :: "(string \<times> tenant_id) list \<Rightarrow> string" where
  "render_pairs [] = []"
| "render_pairs [(token, tenant)] = token @ '':'' @ tenant"
| "render_pairs ((token, tenant) # pairs) = token @ '':'' @ tenant @ '','' @ render_pairs pairs"

definition pair_ok :: "string \<times> tenant_id \<Rightarrow> bool" where
  "pair_ok p \<longleftrightarrow> fst p \<noteq> [] \<and> snd p \<noteq> []
     \<and> (\<forall>c \<in> set (fst p). \<not> is_space c \<and> c \<noteq> CHR '','' \<and> c \<noteq> CHR '':'')
     \<and> (\<forall>c \<in> set (snd p). \<not> is_space c \<and> c \<noteq> CHR '','')"

lemma pair_entry:
  assumes "pair_ok (token, tenant)" "entry = token @ '':'' @ tenant"
  shows "from_pairs_loop (entry # entries) reg = from_pairs_loop entries (reg(token \<mapsto> tenant))"
proof -
  have "\<not> is_space CHR '':''" by (simp add: is_space_def)
  then have sp: "\<forall>c \<in> set entry. \<not> is_space c" using assms unfolding pair_ok_def by force
  have ns: "trim token = token" "trim tenant = tenant" "trim entry = entry" "entry \<noteq> []"
    using assms sp unfolding pair_ok_def by (simp_all add: trim_no_space)
  have "CHR '':'' \<notin> set token" using assms unfolding pair_ok_def by auto
  then have so: "split_once CHR '':'' entry = Some (token, tenant)"
    using split_once_append [of "CHR '':''" token tenant] assms(2) by simp
  show ?thesis
    using assms(1) by (simp add: so ns Let_def pair_ok_def registry_insert_def)
qed

lemma from_pairs_loop_render:
  "\<forall>p \<in> set pairs. pair_ok p \<Longrightarrow>
     from_pairs_loop (split_on CHR '','' (render_pairs pairs)) reg = Some (reg ++ map_of (rev pairs))"
proof (induction pairs arbitrary: reg rule: render_pairs.induct)
  case 1
  then show ?case by (simp add: trim_def)
next
  case (2 token tenant)
  have "CHR '','' \<notin> set (token @ '':'' @ tenant)" using 2 by (auto simp: pair_ok_def)
  then have "split_on CHR '','' (render_pairs [(token, tenant)]) = [token @ '':'' @ tenant]"
    by (simp add: split_on_no_sep)
  then show ?case using pair_entry [of token tenant _ "[]" reg] 2 by (simp del: from_pairs_loop.simps(2)) (auto simp: map_add_def fun_eq_iff)
next
  case (3 token tenant p ps)
  have "CHR '','' \<notin> set (token @ '':'' @ tenant)" using 3 by (auto simp: pair_ok_def)
  from split_on_append_sep [OF this, of "render_pairs (p # ps)"]
  have sp: "split_on CHR '','' (render_pairs ((token, tenant) # p # ps)) =
      (token @ '':'' @ tenant) # split_on CHR '','' (render_pairs (p # ps))"
    by simp
  have ok: "pair_ok (token, tenant)" using 3(2) by simp
  show ?case unfolding sp pair_entry [OF ok refl] using 3 by (simp add: map_add_def fun_eq_iff split: option.splits)
qed

lemma from_pairs_loop_fail_closed:
  "from_pairs_loop entries reg = Some reg' \<Longrightarrow> reg [] = None \<Longrightarrow> [] \<notin> ran reg \<Longrightarrow> reg' [] = None \<and> [] \<notin> ran reg'"
proof (induction entries arbitrary: reg)
  case (Cons entry entries)
  have ran': "[] \<notin> ran (reg(t \<mapsto> n))" if "n \<noteq> []" for t n
    using Cons.prems(3) that by (auto simp: ran_def)
  have step: "reg' [] = None \<and> [] \<notin> ran reg'"
    if "from_pairs_loop entries (reg(t \<mapsto> n)) = Some reg'" "t \<noteq> []" "n \<noteq> []" for t n
  proof (rule Cons.IH [OF that(1)])
    show "(reg(t \<mapsto> n)) [] = None" using Cons.prems(2) that(2) by simp
    show "[] \<notin> ran (reg(t \<mapsto> n))" by (rule ran' [OF that(3)])
  qed
  show ?case
    using Cons.prems Cons.IH [of reg]
    by (auto simp: Let_def registry_insert_def split: if_splits option.splits dest: step)
qed simp

text \<open>
  The credential list: what an operator writes as \<open>token:tenant\<close> entries is what the registry
  authenticates, a repeated token taking its last binding; and no list, however malformed, yields
  a registry with an empty token or an empty tenant.
\<close>

theorem token_spec_roundtrip:
  "((\<forall>p \<in> set pairs. pair_ok p) \<longrightarrow>
      (\<exists>reg. from_pairs (render_pairs pairs) = Some reg
         \<and> (\<forall>token. registry_authenticate reg token = map_of (rev pairs) token))) \<and>
   (from_pairs spec = Some reg' \<longrightarrow> registry_authenticate reg' [] = None
      \<and> (\<forall>token. registry_authenticate reg' token \<noteq> Some []))"
  using from_pairs_loop_render [of pairs Map.empty]
    from_pairs_loop_fail_closed [of "split_on CHR '','' spec" registry_new reg']
  by (auto simp: from_pairs_def registry_new_def registry_authenticate_def intro: ranI)

theorem token_spec_roundtrip_witness:
  "\<exists>reg. from_pairs ''tok-a:tenant-1,tok-b:tenant-2'' = Some reg \<and> registry_authenticate reg ''tok-b'' = Some ''tenant-2''"
  using token_spec_roundtrip [of "[(''tok-a'', ''tenant-1''), (''tok-b'', ''tenant-2'')]" "[]" Map.empty]
  by (auto simp: pair_ok_def is_space_def)

section \<open>The HTTP transport over the relay\<close>

lemma router_push:
  assumes "length body \<le> max_body" "length topic = topic_id_len"
  shows "build_router to_str parse max_body POST (''/v1/topics/'' @ to_hex topic @ ''/deltas'') hdrs body st =
    push_handler to_str parse st (to_hex topic) hdrs body"
proof -
  have "length (to_hex topic) = 2 * length topic" by (induction topic) (simp_all add: to_hex_def)
  then have ne: "to_hex topic \<noteq> []" using assms(2) by (auto simp: topic_id_len_def)
  have "split_on CHR ''/'' (to_hex topic @ ''/deltas'') = [to_hex topic, ''deltas'']"
    using split_on_append_sep [OF to_hex_no_slash, of topic "''deltas''"] by simp
  then show ?thesis using assms ne by (simp add: build_router_def)
qed

lemma router_pull:
  assumes "since \<le> u64_max" "length topic = topic_id_len"
  shows "build_router to_str parse max_body GET (''/v1/topics/'' @ to_hex topic @ ''/deltas'' @ ''/'' @ show_u64 since) hdrs body st =
    (pull_handler to_str st (to_hex topic) since hdrs, st)"
proof -
  have "length (to_hex topic) = 2 * length topic" by (induction topic) (simp_all add: to_hex_def)
  then have ne: "to_hex topic \<noteq> []" using assms(2) by (auto simp: topic_id_len_def)
  have "split_on CHR ''/'' (to_hex topic @ ''/deltas/'' @ show_u64 since) = [to_hex topic, ''deltas'', show_u64 since]"
    using split_on_append_sep [OF to_hex_no_slash, of topic "''deltas/'' @ show_u64 since"]
    by (simp add: split_on_no_sep [OF show_u64_no_slash])
  then show ?thesis using assms ne by (simp add: build_router_def parse_show_u64)
qed

lemma from_hex_to_hex: "length topic = topic_id_len \<Longrightarrow> from_hex (to_hex topic) = Inr topic"
proof -
  have "length (to_hex topic) = 2 * length topic" by (induction topic) (simp_all add: to_hex_def)
  then show "length topic = topic_id_len \<Longrightarrow> ?thesis" by (simp add: from_hex_def hex_chunks_to_hex)
qed

lemma bearer_token_of:
  "token \<noteq> [] \<Longrightarrow> \<forall>c \<in> set token. \<not> is_space c \<Longrightarrow> bearer_token (bearer_auth token) = Some token"
  by (simp add: bearer_token_def bearer_auth_def trim_no_space)

lemma relay_network_base:
  "relay_network base to_str parse max_body meth (base @ path) auth body s =
     (case build_router to_str parse max_body meth path [''authorization'' \<mapsto> string_bytes auth] body s of
        (resp, s') \<Rightarrow> (Inr resp, s'))"
  by (simp add: relay_network_def)

text \<open>
  C36. The HTTP transport implements the store: through URL, headers, routing, authentication and
  status codes, a client's push is the store's append under the tenant of its token and a client's
  pull is the store's read; an error of the store comes back as its HTTP status. The request must
  be within the body limit and the parser must read back what the client wrote.
\<close>

theorem http_transport_refines_store:
  assumes "length topic = topic_id_len" "since \<le> u64_max"
    and "ht_token t \<noteq> []" "\<forall>c \<in> set (ht_token t). \<not> is_space c" "rs_tokens st (ht_token t) = Some tenant"
    and "to_str (string_bytes (bearer_auth (ht_token t))) = Some (bearer_auth (ht_token t))"
    and "parse (ser blobs) = Inr blobs" "length (ser blobs) \<le> max_body"
  shows "http_push (relay_network (ht_base_url t) to_str parse max_body) ser t st topic blobs =
      (case store_append (rs_store st) tenant topic blobs of
         (Inr cursor, store') \<Rightarrow> (Inr cursor, st\<lparr>rs_store := store'\<rparr>)
       | (Inl err, store') \<Rightarrow>
           (Inl (Status (case err of BlobTooLarge _ _ \<Rightarrow> 413 | QuotaExceeded _ \<Rightarrow> 507 | _ \<Rightarrow> 500) (ErrorBody err)),
            st\<lparr>rs_store := store'\<rparr>))
    \<and> http_pull (relay_network (ht_base_url t) to_str parse max_body) t st topic since =
      (case store_read_since (rs_store st) tenant topic since of
         Inr page \<Rightarrow> Inr page | Inl err \<Rightarrow> Inl (Status 500 (ErrorBody err)))"
proof
  have au: "authenticate to_str st [''authorization'' \<mapsto> string_bytes (bearer_auth (ht_token t))] = Some tenant"
    using assms(3-6) by (simp add: authenticate_def bearer_token_of registry_authenticate_def)
  note hex = from_hex_to_hex [OF assms(1)]
  have push: "relay_network (ht_base_url t) to_str parse max_body POST (deltas_url t topic) (bearer_auth (ht_token t)) (ser blobs) st =
      (case push_handler to_str parse st (to_hex topic) [''authorization'' \<mapsto> string_bytes (bearer_auth (ht_token t))] (ser blobs) of
         (resp, s') \<Rightarrow> (Inr resp, s'))"
    unfolding deltas_url_def relay_network_base router_push [OF assms(8,1)] ..
  have pull: "relay_network (ht_base_url t) to_str parse max_body GET (deltas_url t topic @ ''/'' @ show_u64 since)
      (bearer_auth (ht_token t)) [] st =
      (Inr (pull_handler to_str st (to_hex topic) since [''authorization'' \<mapsto> string_bytes (bearer_auth (ht_token t))]), st)"
    unfolding deltas_url_def append_assoc relay_network_base router_pull [OF assms(2,1)] by simp
  show "http_push (relay_network (ht_base_url t) to_str parse max_body) ser t st topic blobs =
      (case store_append (rs_store st) tenant topic blobs of
         (Inr cursor, store') \<Rightarrow> (Inr cursor, st\<lparr>rs_store := store'\<rparr>)
       | (Inl err, store') \<Rightarrow>
           (Inl (Status (case err of BlobTooLarge _ _ \<Rightarrow> 413 | QuotaExceeded _ \<Rightarrow> 507 | _ \<Rightarrow> 500) (ErrorBody err)),
            st\<lparr>rs_store := store'\<rparr>))"
  proof (cases "store_append (rs_store st) tenant topic blobs")
    case (Pair r store')
    then show ?thesis
      unfolding http_push_def push push_handler_def au hex
      by (cases r; cases "projl r") (simp_all add: assms(7) check_status_def)
  qed
  show "http_pull (relay_network (ht_base_url t) to_str parse max_body) t st topic since =
      (case store_read_since (rs_store st) tenant topic since of
         Inr page \<Rightarrow> Inr page | Inl err \<Rightarrow> Inl (Status 500 (ErrorBody err)))"
    unfolding http_pull_def pull pull_handler_def au hex
    by (simp add: check_status_def split: sum.splits)
qed

theorem http_transport_refines_store_witness:
  "fst (http_push (relay_network [] demo_to_str (\<lambda>_. Inr [\<lparr>sd_nonce = [], sd_ciphertext = [1]\<rparr>]) 0) (\<lambda>_. [])
      (http_new ''/'' ''tok-a'') demo_state (replicate 32 0) [\<lparr>sd_nonce = [], sd_ciphertext = [1]\<rparr>]) = Inr 1"
proof -
  let ?t = "http_new ''/'' ''tok-a''"
  let ?bs = "[\<lparr>sd_nonce = [], sd_ciphertext = [1]\<rparr>] :: sealed_delta list"
  have t: "ht_token ?t = ''tok-a''" "ht_base_url ?t = []" by (simp_all add: http_new_def)
  have "fst (store_append (rs_store demo_state) ''a'' (replicate 32 0) ?bs) = Inr 1"
    by (simp add: demo_state_def store_default_def store_new_def store_append_def store_limits_default_def
        sat_add_def u64_try_from_def u64_max_def Let_def)
  moreover have "rs_tokens demo_state (ht_token ?t) = Some ''a''" by (simp add: t demo_state_def)
  moreover have "\<forall>c \<in> set (ht_token ?t). \<not> is_space c" by (simp add: t is_space_def)
  ultimately show ?thesis
    using http_transport_refines_store [of "replicate 32 0" 0 ?t demo_state "''a''" demo_to_str
        "\<lambda>_. Inr ?bs" "\<lambda>_. []" ?bs 0]
    by (simp add: t topic_id_len_def split: prod.splits)
qed

text \<open>
  A push that the quota rejects still creates its topic, and nothing bounds the number of topics:
  the limits bound each topic, not the relay.
\<close>

lemma rejected_push_creates_topic:
  "oversized_blob (max_blob_bytes (bs_limits s)) blobs = None \<Longrightarrow>
     (tenant, topic) \<in> dom (bs_topics (snd (store_append s tenant topic blobs)))"
  by (auto simp: store_append_def Let_def)

end
