(* ===== verification/Permission_Store.thy ===== *)
theory Permission_Store
  imports Knowledge_Prelude
begin

text \<open>
  The data of the permission service, \<^verbatim>\<open>crates/permission_service/src\<close>: relation tuples
  (\<^verbatim>\<open>tuple.rs\<close>), namespace configurations with their inheritance closure (\<^verbatim>\<open>namespace.rs\<close>),
  and the tuple store with its secondary index (\<^verbatim>\<open>store.rs\<close>). The index is shown to be
  exactly the store, grouped; the closure is the reflexive transitive closure of the configured
  implications.
\<close>

section \<open>Tuples\<close>

datatype object_type =
    Tenant | Domain | Channel | User | Group | Device | Concept | Summary | Workflow
  | ExportProfile | Agent

type_synonym subject_type = object_type

datatype relation =
    Owner | Admin | Editor | Member | Viewer | Synthesizer | Proposer

fun object_type_as_str :: "object_type \<Rightarrow> string" where
  "object_type_as_str Tenant = ''tenant''"
| "object_type_as_str Domain = ''domain''"
| "object_type_as_str Channel = ''channel''"
| "object_type_as_str User = ''user''"
| "object_type_as_str Group = ''group''"
| "object_type_as_str Device = ''device''"
| "object_type_as_str Concept = ''concept''"
| "object_type_as_str Summary = ''summary''"
| "object_type_as_str Workflow = ''workflow''"
| "object_type_as_str ExportProfile = ''export_profile''"
| "object_type_as_str Agent = ''agent''"

fun relation_as_str :: "relation \<Rightarrow> string" where
  "relation_as_str Owner = ''owner''"
| "relation_as_str Admin = ''admin''"
| "relation_as_str Editor = ''editor''"
| "relation_as_str Member = ''member''"
| "relation_as_str Viewer = ''viewer''"
| "relation_as_str Synthesizer = ''synthesizer''"
| "relation_as_str Proposer = ''proposer''"

record object_ref =
  or_type :: object_type
  or_id :: uuid

record subject_ref =
  sr_type :: subject_type
  sr_id :: uuid
  sr_relation :: "relation option"

record relation_tuple =
  rt_object :: object_ref
  rt_relation :: relation
  rt_subject :: subject_ref

definition object_ref_new :: "object_type \<Rightarrow> uuid \<Rightarrow> object_ref" where
  "object_ref_new t i = \<lparr>or_type = t, or_id = i\<rparr>"

definition subject_direct :: "subject_type \<Rightarrow> uuid \<Rightarrow> subject_ref" where
  "subject_direct t i = \<lparr>sr_type = t, sr_id = i, sr_relation = None\<rparr>"

definition subject_via :: "subject_type \<Rightarrow> uuid \<Rightarrow> relation \<Rightarrow> subject_ref" where
  "subject_via t i r = \<lparr>sr_type = t, sr_id = i, sr_relation = Some r\<rparr>"

definition relation_tuple_new :: "object_ref \<Rightarrow> relation \<Rightarrow> subject_ref \<Rightarrow> relation_tuple" where
  "relation_tuple_new obj r s = \<lparr>rt_object = obj, rt_relation = r, rt_subject = s\<rparr>"

datatype permission_error =
    DuplicateTuple
  | NotFound
  | NamespaceAlreadyRegistered object_type
  | PermissionPersistence string
  | PermissionSqlite
  | PermissionCrypto

text \<open>Object references and relations are finite types: a search over them ends.\<close>

definition all_relations :: "relation list" where
  "all_relations = [Owner, Admin, Editor, Member, Viewer, Synthesizer, Proposer]"

lemma set_all_relations [simp]: "set all_relations = UNIV"
proof -
  have "r \<in> set all_relations" for r by (cases r) (simp_all add: all_relations_def)
  then show ?thesis by auto
qed

instance relation :: finite
  by standard (metis List.finite_set set_all_relations)

instance object_type :: finite
proof
  have "(UNIV :: object_type set) \<subseteq> {Tenant, Domain, Channel, User, Group, Device, Concept, Summary, Workflow,
      ExportProfile, Agent}"
  proof
    fix t :: object_type
    show "t \<in> {Tenant, Domain, Channel, User, Group, Device, Concept, Summary, Workflow, ExportProfile, Agent}"
      by (cases t) simp_all
  qed
  then show "finite (UNIV :: object_type set)" by (rule finite_subset) simp
qed

instance object_ref_ext :: (finite) finite
proof
  have "inj (\<lambda>obj :: 'a object_ref_ext. (or_type obj, or_id obj, object_ref.more obj))"
    by (rule injI) simp
  then show "finite (UNIV :: 'a object_ref_ext set)" by (rule finite_imageD [rotated]) simp
qed

section \<open>Namespaces\<close>

record namespace_config =
  nc_object_type :: object_type
  nc_implies :: "relation \<rightharpoonup> relation list"

definition config_new :: "object_type \<Rightarrow> namespace_config" where
  "config_new t = \<lparr>nc_object_type = t, nc_implies = Map.empty\<rparr>"

definition config_imply :: "namespace_config \<Rightarrow> relation \<Rightarrow> relation list \<Rightarrow> namespace_config" where
  "config_imply cfg parent children =
     cfg\<lparr>nc_implies := (nc_implies cfg)(parent \<mapsto> or_empty_list (nc_implies cfg parent) @ children)\<rparr>"

text \<open>
  The loop of \<open>closure\<close>. The stack is a list with its top first: pushing the children in order
  leaves the last of them on top.
\<close>

function closure_loop :: "(relation \<rightharpoonup> relation list) \<Rightarrow> relation list \<Rightarrow> relation list \<Rightarrow> relation list" where
  "closure_loop impl out [] = out"
| "closure_loop impl out (r # stack) =
     (if r \<in> set out then closure_loop impl out stack
      else closure_loop impl (out @ [r]) (rev (or_empty_list (impl r)) @ stack))"
  by pat_completeness auto

termination
proof (relation "measures [\<lambda>(impl, out, stack). card (- set out), \<lambda>(impl, out, stack). length stack]")
  fix impl :: "relation \<rightharpoonup> relation list" and out stack :: "relation list" and r
  assume "r \<notin> set out"
  then have "card (- set (out @ [r])) < card (- set out)"
    by (intro psubset_card_mono) auto
  then show "((impl, out @ [r], rev (or_empty_list (impl r)) @ stack), impl, out, r # stack)
      \<in> measures [\<lambda>(impl, out, stack). card (- set out), \<lambda>(impl, out, stack). length stack]"
    by simp
qed auto

definition config_closure :: "namespace_config \<Rightarrow> relation \<Rightarrow> relation list" where
  "config_closure cfg from_rel = closure_loop (nc_implies cfg) [] [from_rel]"

type_synonym namespace_registry = "object_type \<rightharpoonup> namespace_config"

definition registry_empty :: namespace_registry where
  "registry_empty = Map.empty"

definition registry_register ::
  "namespace_registry \<Rightarrow> namespace_config \<Rightarrow> permission_error + namespace_registry" where
  "registry_register reg cfg =
     (if reg (nc_object_type cfg) \<noteq> None then Inl (NamespaceAlreadyRegistered (nc_object_type cfg))
      else Inr (reg(nc_object_type cfg \<mapsto> cfg)))"

definition default_config :: "object_type \<Rightarrow> namespace_config" where
  "default_config t =
     config_imply (config_imply (config_imply (config_imply (config_new t)
       Owner [Admin]) Admin [Editor]) Editor [Member]) Member [Viewer]"

text \<open>The loop of \<open>with_defaults\<close>; \<open>None\<close> is the panic of its \<^verbatim>\<open>expect\<close>.\<close>

fun register_all :: "namespace_config list \<Rightarrow> namespace_registry \<Rightarrow> namespace_registry option" where
  "register_all [] reg = Some reg"
| "register_all (cfg # cfgs) reg =
     (case registry_register reg cfg of Inl _ \<Rightarrow> None | Inr reg' \<Rightarrow> register_all cfgs reg')"

definition with_defaults :: "namespace_registry option" where
  "with_defaults = register_all (map default_config [Tenant, Domain, Channel, User]) registry_empty"

definition registry_get :: "namespace_registry \<Rightarrow> object_type \<Rightarrow> namespace_config option" where
  "registry_get reg t = reg t"

definition registry_closure :: "namespace_registry \<Rightarrow> object_type \<Rightarrow> relation \<Rightarrow> relation list" where
  "registry_closure reg t from_rel =
     (case reg t of Some ns \<Rightarrow> config_closure ns from_rel | None \<Rightarrow> [from_rel])"

definition registry_implies :: "namespace_registry \<Rightarrow> object_type \<Rightarrow> relation \<Rightarrow> relation \<Rightarrow> bool" where
  "registry_implies reg t held wanted \<longleftrightarrow> wanted \<in> set (registry_closure reg t held)"

section \<open>The tuple store\<close>

record tuple_store =
  ts_tuples :: "relation_tuple set"
  ts_index :: "(object_ref \<times> relation) \<rightharpoonup> relation_tuple list"

abbreviation index_key :: "relation_tuple \<Rightarrow> object_ref \<times> relation" where
  "index_key t \<equiv> (rt_object t, rt_relation t)"

definition tstore_new :: tuple_store where
  "tstore_new = \<lparr>ts_tuples = {}, ts_index = Map.empty\<rparr>"

definition index_push :: "relation_tuple \<Rightarrow> tuple_store \<Rightarrow> tuple_store" where
  "index_push t s =
     s\<lparr>ts_index := (ts_index s)(index_key t \<mapsto> or_empty_list (ts_index s (index_key t)) @ [t])\<rparr>"

text \<open>\<^verbatim>\<open>Vec::swap_remove\<close>: the last element takes the removed one's place.\<close>

definition swap_remove :: "'a list \<Rightarrow> nat \<Rightarrow> 'a list" where
  "swap_remove xs pos = butlast (xs[pos := last xs])"

fun position :: "'a \<Rightarrow> 'a list \<Rightarrow> nat option" where
  "position x [] = None"
| "position x (y # ys) = (if y = x then Some 0 else map_option Suc (position x ys))"

definition index_remove :: "relation_tuple \<Rightarrow> tuple_store \<Rightarrow> tuple_store" where
  "index_remove t s =
     (case ts_index s (index_key t) of
        None \<Rightarrow> s
      | Some bucket \<Rightarrow>
          (let bucket' = (case position t bucket of None \<Rightarrow> bucket | Some pos \<Rightarrow> swap_remove bucket pos);
               s' = s\<lparr>ts_index := (ts_index s)(index_key t \<mapsto> bucket')\<rparr>
           in if bucket' = [] then s'\<lparr>ts_index := (ts_index s')(index_key t := None)\<rparr> else s'))"

definition tstore_insert :: "tuple_store \<Rightarrow> relation_tuple \<Rightarrow> (permission_error + unit) \<times> tuple_store" where
  "tstore_insert s t =
     (if t \<in> ts_tuples s then (Inl DuplicateTuple, s)
      else (Inr (), index_push t (s\<lparr>ts_tuples := insert t (ts_tuples s)\<rparr>)))"

definition tstore_upsert :: "tuple_store \<Rightarrow> relation_tuple \<Rightarrow> bool \<times> tuple_store" where
  "tstore_upsert s t =
     (if t \<in> ts_tuples s then (False, s)
      else (True, index_push t (s\<lparr>ts_tuples := insert t (ts_tuples s)\<rparr>)))"

definition tstore_remove :: "tuple_store \<Rightarrow> relation_tuple \<Rightarrow> (permission_error + unit) \<times> tuple_store" where
  "tstore_remove s t =
     (if t \<notin> ts_tuples s then (Inl NotFound, s)
      else (Inr (), index_remove t (s\<lparr>ts_tuples := ts_tuples s - {t}\<rparr>)))"

definition tstore_contains :: "tuple_store \<Rightarrow> relation_tuple \<Rightarrow> bool" where
  "tstore_contains s t \<longleftrightarrow> t \<in> ts_tuples s"

definition tstore_len :: "tuple_store \<Rightarrow> nat" where
  "tstore_len s = card (ts_tuples s)"

definition tstore_is_empty :: "tuple_store \<Rightarrow> bool" where
  "tstore_is_empty s \<longleftrightarrow> ts_tuples s = {}"

definition iter_for_object_relation :: "tuple_store \<Rightarrow> object_ref \<Rightarrow> relation \<Rightarrow> relation_tuple list" where
  "iter_for_object_relation s obj r = or_empty_list (ts_index s (obj, r))"

text \<open>\<open>order\<close> is the iteration order of the hash set of tuples.\<close>

definition rebuild_index :: "relation_tuple list \<Rightarrow> tuple_store \<Rightarrow> tuple_store" where
  "rebuild_index order s = fold index_push order (s\<lparr>ts_index := Map.empty\<rparr>)"

definition tstore_eq :: "tuple_store \<Rightarrow> tuple_store \<Rightarrow> bool" where
  "tstore_eq a b \<longleftrightarrow> ts_tuples a = ts_tuples b"

definition tstore_serialize :: "tuple_store \<Rightarrow> relation_tuple set" where
  "tstore_serialize s = ts_tuples s"

definition tstore_deserialize :: "(relation_tuple set \<Rightarrow> relation_tuple list) \<Rightarrow> relation_tuple set \<Rightarrow> tuple_store" where
  "tstore_deserialize order_of wire =
     rebuild_index (order_of wire) \<lparr>ts_tuples = wire, ts_index = Map.empty\<rparr>"

lemmas [defs_perm] = tstore_insert_def tstore_upsert_def tstore_remove_def index_push_def index_remove_def
  iter_for_object_relation_def

section \<open>The inheritance closure\<close>

definition implies_rel :: "(relation \<rightharpoonup> relation list) \<Rightarrow> (relation \<times> relation) set" where
  "implies_rel impl = {(p, c). c \<in> set (or_empty_list (impl p))}"

lemma closure_loop_set:
  assumes "\<forall>p \<in> set out. implies_rel impl `` {p} \<subseteq> set out \<union> set stack"
  shows "set (closure_loop impl out stack) = set out \<union> (implies_rel impl)\<^sup>* `` set stack"
  using assms
proof (induction impl out stack rule: closure_loop.induct)
  case (1 impl out)
  then show ?case by simp
next
  case (2 impl out r stack)
  have closed: "(implies_rel impl)\<^sup>* `` set out' \<subseteq> set out' \<union> (implies_rel impl)\<^sup>* `` T"
    if "\<forall>p \<in> set out'. implies_rel impl `` {p} \<subseteq> set out' \<union> T" for out' T
  proof safe
    fix x y
    assume "(x, y) \<in> (implies_rel impl)\<^sup>*" "x \<in> set out'" "y \<notin> (implies_rel impl)\<^sup>* `` T"
    then show "y \<in> set out'"
    proof (induction rule: rtrancl_induct)
      case (step y z)
      then have "y \<in> set out'" by (meson Image_iff rtrancl.rtrancl_into_rtrancl)
      then have "z \<in> set out' \<union> T" using that step by blast
      then show ?case using step by auto
    qed
  qed
  show ?case
  proof (cases "r \<in> set out")
    case True
    then have inv: "\<forall>p \<in> set out. implies_rel impl `` {p} \<subseteq> set out \<union> set stack" using 2(3) by auto
    have "(implies_rel impl)\<^sup>* `` {r} \<subseteq> set out \<union> (implies_rel impl)\<^sup>* `` set stack"
      using closed [OF inv] True by blast
    then show ?thesis using 2(1) [OF True inv] True by auto
  next
    case False
    let ?ch = "or_empty_list (impl r)"
    have "\<forall>p \<in> set (out @ [r]). implies_rel impl `` {p} \<subseteq> set (out @ [r]) \<union> set (rev ?ch @ stack)"
      using 2(3) by (auto simp: implies_rel_def)
    then have "set (closure_loop impl (out @ [r]) (rev ?ch @ stack)) =
        set (out @ [r]) \<union> (implies_rel impl)\<^sup>* `` set (rev ?ch @ stack)"
      by (rule 2(2) [OF False])
    moreover have "insert r ((implies_rel impl)\<^sup>* `` set ?ch) = (implies_rel impl)\<^sup>* `` {r}"
      by (auto simp: implies_rel_def intro: converse_rtrancl_into_rtrancl elim: converse_rtranclE)
    ultimately show ?thesis using False by (auto simp: Image_Un)
  qed
qed

lemma closure_loop_distinct: "distinct out \<Longrightarrow> distinct (closure_loop impl out stack)"
  by (induction impl out stack rule: closure_loop.induct) auto

lemma set_config_closure: "set (config_closure cfg r) = (implies_rel (nc_implies cfg))\<^sup>* `` {r}"
  unfolding config_closure_def by (subst closure_loop_set) simp_all

definition registry_rel :: "namespace_registry \<Rightarrow> object_type \<Rightarrow> (relation \<times> relation) set" where
  "registry_rel reg t = (case reg t of None \<Rightarrow> {} | Some cfg \<Rightarrow> implies_rel (nc_implies cfg))"

lemma registry_implies_iff: "registry_implies reg t held wanted \<longleftrightarrow> (held, wanted) \<in> (registry_rel reg t)\<^sup>*"
  by (auto simp: registry_implies_def registry_closure_def registry_rel_def set_config_closure split: option.splits)

section \<open>The index\<close>

text \<open>
  What the decision procedure relies on: operations on a set of tuples, and a lookup that yields
  exactly the tuples of one object and relation.
\<close>

locale tuple_source =
  fixes content :: "'s \<Rightarrow> relation_tuple set"
    and look :: "'s \<Rightarrow> object_ref \<Rightarrow> relation \<Rightarrow> relation_tuple list"
    and inv :: "'s \<Rightarrow> bool"
    and put :: "relation_tuple \<Rightarrow> 's \<Rightarrow> 's"
    and del :: "relation_tuple \<Rightarrow> 's \<Rightarrow> 's"
  assumes look_content: "inv s \<Longrightarrow> set (look s obj r) = {t \<in> content s. index_key t = (obj, r)}"
    and put_content: "inv s \<Longrightarrow> inv (put t s) \<and> content (put t s) = insert t (content s)"
    and del_content: "inv s \<Longrightarrow> inv (del t s) \<and> content (del t s) = content s - {t}"
begin

text \<open>Any sequence of writes: the lookups are those of the set they describe.\<close>

fun writes :: "(bool \<times> relation_tuple) list \<Rightarrow> 's \<Rightarrow> 's" where
  "writes [] s = s"
| "writes ((b, t) # ws) s = writes ws (if b then put t s else del t s)"

fun written :: "(bool \<times> relation_tuple) list \<Rightarrow> relation_tuple set \<Rightarrow> relation_tuple set" where
  "written [] T = T"
| "written ((b, t) # ws) T = written ws (if b then insert t T else T - {t})"

lemma writes_content: "inv s \<Longrightarrow> inv (writes ws s) \<and> content (writes ws s) = written ws (content s)"
  by (induction ws s rule: writes.induct) (auto simp: put_content del_content)

lemma look_writes:
  "inv s \<Longrightarrow> set (look (writes ws s) obj r) = {t \<in> written ws (content s). index_key t = (obj, r)}"
  using writes_content look_content by blast

end

text \<open>The invariant of the store: each bucket lists, once each, the tuples of its key; none is empty.\<close>

definition tstore_inv :: "tuple_store \<Rightarrow> bool" where
  "tstore_inv s \<longleftrightarrow>
     (\<forall>k. distinct (or_empty_list (ts_index s k))
        \<and> set (or_empty_list (ts_index s k)) = {t \<in> ts_tuples s. index_key t = k}
        \<and> ts_index s k \<noteq> Some [])"

lemma mset_swap_remove:
  assumes "pos < length xs"
  shows "mset (swap_remove xs pos) = mset xs - {#xs ! pos#}"
proof -
  let ?ys = "xs[pos := last xs]"
  have ne: "?ys \<noteq> []" using assms by auto
  have "xs \<noteq> []" using assms by auto
  then have "last ?ys = last xs" using assms by (simp add: last_conv_nth nth_list_update)
  then have "mset ?ys = mset (butlast ?ys @ [last xs])"
    using append_butlast_last_id [OF ne] by simp
  moreover have "mset ?ys = add_mset (last xs) (mset xs - {#xs ! pos#})"
    using assms by (simp add: mset_update)
  ultimately show ?thesis by (simp add: swap_remove_def)
qed

lemma position_Some: "position x xs = Some pos \<Longrightarrow> pos < length xs \<and> xs ! pos = x"
  by (induction xs arbitrary: pos) (auto split: if_splits)

lemma position_None: "position x xs = None \<longleftrightarrow> x \<notin> set xs"
  by (induction xs) auto

lemma swap_remove_position:
  assumes "distinct xs" "position x xs = Some pos"
  shows "distinct (swap_remove xs pos)" "set (swap_remove xs pos) = set xs - {x}"
proof -
  have m: "mset (swap_remove xs pos) = mset xs - {#x#}"
    using mset_swap_remove position_Some [OF assms(2)] by metis
  also have "\<dots> = mset (remove1 x xs)" by simp
  finally have "mset (swap_remove xs pos) = mset (remove1 x xs)" .
  then show "distinct (swap_remove xs pos)" "set (swap_remove xs pos) = set xs - {x}"
    using assms(1) by (metis distinct_remove1 mset_eq_imp_distinct_iff, metis set_remove1_eq mset_eq_setD)
qed

lemma index_push_inv:
  assumes "tstore_inv s" "t \<notin> ts_tuples s"
  shows "tstore_inv (index_push t (s\<lparr>ts_tuples := insert t (ts_tuples s)\<rparr>))"
  using assms unfolding tstore_inv_def index_push_def by auto

lemma index_remove_inv:
  assumes "tstore_inv s" "t \<in> ts_tuples s"
  shows "tstore_inv (index_remove t (s\<lparr>ts_tuples := ts_tuples s - {t}\<rparr>))"
proof -
  let ?k = "index_key t"
  have k: "distinct (or_empty_list (ts_index s ?k))"
    "set (or_empty_list (ts_index s ?k)) = {u \<in> ts_tuples s. index_key u = ?k}"
    using assms(1) by (simp_all add: tstore_inv_def)
  then have "t \<in> set (or_empty_list (ts_index s ?k))" using assms(2) by simp
  then obtain bucket pos where b: "ts_index s ?k = Some bucket" "position t bucket = Some pos"
    using position_None [of t] by (cases "ts_index s ?k") fastforce+
  let ?b = "swap_remove bucket pos"
  have sr: "distinct ?b" "set ?b = {u \<in> ts_tuples s - {t}. index_key u = ?k}"
    using swap_remove_position [OF _ b(2)] k b(1) by auto
  have idx: "ts_index (index_remove t (s\<lparr>ts_tuples := ts_tuples s - {t}\<rparr>)) =
      (ts_index s)(?k := if ?b = [] then None else Some ?b)"
    "ts_tuples (index_remove t (s\<lparr>ts_tuples := ts_tuples s - {t}\<rparr>)) = ts_tuples s - {t}"
    using b by (simp_all add: index_remove_def Let_def)
  show ?thesis
    unfolding tstore_inv_def idx
  proof (intro allI)
    fix k
    show "distinct (or_empty_list (((ts_index s)(?k := if ?b = [] then None else Some ?b)) k))
        \<and> set (or_empty_list (((ts_index s)(?k := if ?b = [] then None else Some ?b)) k)) =
            {u \<in> ts_tuples s - {t}. index_key u = k}
        \<and> ((ts_index s)(?k := if ?b = [] then None else Some ?b)) k \<noteq> Some []"
      using assms(1) [unfolded tstore_inv_def, rule_format, of k] sr by (cases "k = ?k") auto
  qed
qed

lemma tstore_inv_new [simp]: "tstore_inv tstore_new"
  by (simp add: tstore_inv_def tstore_new_def)

lemma tstore_insert_inv: "tstore_inv s \<Longrightarrow> tstore_inv (snd (tstore_insert s t))"
  by (simp add: tstore_insert_def index_push_inv)

lemma tstore_upsert_inv: "tstore_inv s \<Longrightarrow> tstore_inv (snd (tstore_upsert s t))"
  by (simp add: tstore_upsert_def index_push_inv)

lemma tstore_remove_inv: "tstore_inv s \<Longrightarrow> tstore_inv (snd (tstore_remove s t))"
  by (simp add: tstore_remove_def index_remove_inv)

lemma index_ops_tuples [simp]:
  "ts_tuples (index_push t s) = ts_tuples s" "ts_tuples (index_remove t s) = ts_tuples s"
  by (simp_all add: index_push_def index_remove_def Let_def split: option.split)

lemma tstore_ops_tuples [simp]:
  "ts_tuples (snd (tstore_insert s t)) = insert t (ts_tuples s)"
  "ts_tuples (snd (tstore_upsert s t)) = insert t (ts_tuples s)"
  "ts_tuples (snd (tstore_remove s t)) = ts_tuples s - {t}"
  by (auto simp: tstore_insert_def tstore_upsert_def tstore_remove_def)

lemma iter_set:
  "tstore_inv s \<Longrightarrow> set (iter_for_object_relation s obj r) = {t \<in> ts_tuples s. index_key t = (obj, r)}"
  unfolding tstore_inv_def iter_for_object_relation_def by blast

lemma iter_distinct: "tstore_inv s \<Longrightarrow> distinct (iter_for_object_relation s obj r)"
  unfolding tstore_inv_def iter_for_object_relation_def by blast

interpretation ts: tuple_source ts_tuples iter_for_object_relation tstore_inv
  "\<lambda>t s. snd (tstore_upsert s t)" "\<lambda>t s. snd (tstore_remove s t)"
  by unfold_locales (simp_all add: iter_set tstore_upsert_inv tstore_remove_inv)

text \<open>Rebuilding from any enumeration of the tuples restores the invariant.\<close>

lemma fold_index_push:
  "distinct order \<Longrightarrow> set order \<inter> A = {} \<Longrightarrow>
   tstore_inv \<lparr>ts_tuples = A, ts_index = ts_index s\<rparr> \<Longrightarrow>
   tstore_inv ((fold index_push order s)\<lparr>ts_tuples := A \<union> set order\<rparr>)"
proof (induction order arbitrary: A s)
  case Nil
  then show ?case by (cases s) simp
next
  case (Cons t order)
  have "tstore_inv (index_push t (\<lparr>ts_tuples = A, ts_index = ts_index s\<rparr>\<lparr>ts_tuples := insert t A\<rparr>))"
    using index_push_inv [OF Cons.prems(3), of t] Cons.prems(2) by simp
  then have "tstore_inv \<lparr>ts_tuples = insert t A, ts_index = ts_index (index_push t s)\<rparr>"
    by (simp add: index_push_def)
  from Cons.IH [OF _ _ this] Cons.prems show ?case by simp
qed

lemma fold_index_push_tuples [simp]: "ts_tuples (fold index_push order s) = ts_tuples s"
  by (induction order arbitrary: s) simp_all

lemma tstore_deserialize_inv:
  assumes "set (order_of wire) = wire" "distinct (order_of wire)"
  shows "tstore_inv (tstore_deserialize order_of wire) \<and> ts_tuples (tstore_deserialize order_of wire) = wire"
proof -
  let ?s = "fold index_push (order_of wire) \<lparr>ts_tuples = wire, ts_index = Map.empty\<rparr>"
  have "tstore_inv (?s\<lparr>ts_tuples := {} \<union> set (order_of wire)\<rparr>)"
    by (rule fold_index_push) (use assms in \<open>simp_all add: tstore_inv_def\<close>)
  moreover have "?s\<lparr>ts_tuples := {} \<union> set (order_of wire)\<rparr> = ?s"
    using assms(1) by (intro tuple_store.equality) simp_all
  ultimately show ?thesis by (simp add: tstore_deserialize_def rebuild_index_def)
qed

section \<open>Runs\<close>

datatype tuple_cmd =
    InsertTuple relation_tuple
  | UpsertTuple relation_tuple
  | RemoveTuple relation_tuple

fun tstore_exec :: "tuple_cmd \<Rightarrow> tuple_store \<Rightarrow> tuple_store" where
  "tstore_exec (InsertTuple t) s = snd (tstore_insert s t)"
| "tstore_exec (UpsertTuple t) s = snd (tstore_upsert s t)"
| "tstore_exec (RemoveTuple t) s = snd (tstore_remove s t)"

fun tuples_exec :: "tuple_cmd \<Rightarrow> relation_tuple set \<Rightarrow> relation_tuple set" where
  "tuples_exec (InsertTuple t) T = insert t T"
| "tuples_exec (UpsertTuple t) T = insert t T"
| "tuples_exec (RemoveTuple t) T = T - {t}"

fun cmd_write :: "tuple_cmd \<Rightarrow> bool \<times> relation_tuple" where
  "cmd_write (InsertTuple t) = (True, t)"
| "cmd_write (UpsertTuple t) = (True, t)"
| "cmd_write (RemoveTuple t) = (False, t)"

lemma insert_upsert_state: "snd (tstore_insert s t) = snd (tstore_upsert s t)"
  by (simp add: tstore_insert_def tstore_upsert_def)

lemma run_writes:
  "fold tstore_exec cmds s = ts.writes (map cmd_write cmds) s"
  "fold tuples_exec cmds T = ts.written (map cmd_write cmds) T"
proof (induction cmds arbitrary: s T)
  case (Cons c cmds)
  {
    case 1
    show ?case using Cons by (cases c) (simp_all add: insert_upsert_state)
  next
    case 2
    show ?case using Cons by (cases c) simp_all
  }
qed simp_all

lemma tstore_run_inv: "tstore_inv s \<Longrightarrow> tstore_inv (fold tstore_exec cmds s)"
  "tstore_inv s \<Longrightarrow> ts_tuples (fold tstore_exec cmds s) = fold tuples_exec cmds (ts_tuples s)"
  using ts.writes_content by (simp_all add: run_writes)

section \<open>Properties\<close>

text \<open>
  The secondary index is the store: from an empty store, after any sequence of inserts,
  upserts and removals, looking up an object and a relation yields exactly the tuples the sequence
  leaves for them, each once, whatever the swaps inside the buckets.
\<close>

theorem tuple_index_exact:
  "set (iter_for_object_relation (fold tstore_exec cmds tstore_new) obj r) =
     {t \<in> fold tuples_exec cmds {}. rt_object t = obj \<and> rt_relation t = r}
   \<and> distinct (iter_for_object_relation (fold tstore_exec cmds tstore_new) obj r)
   \<and> (\<forall>t. tstore_contains (fold tstore_exec cmds tstore_new) t \<longleftrightarrow> t \<in> fold tuples_exec cmds {})"
  using tstore_run_inv [OF tstore_inv_new, of cmds] ts.look_writes [OF tstore_inv_new, of "map cmd_write cmds" obj r]
  by (simp add: iter_distinct tstore_contains_def run_writes tstore_new_def)

text \<open>
  The inheritance closure terminates on every configuration, cyclic ones included, and is the
  reflexive transitive closure of the configured implications, without repetition.
\<close>

theorem closure_is_rtrancl:
  "set (config_closure cfg r) = {r'. (r, r') \<in> {(p, c). c \<in> set (or_empty_list (nc_implies cfg p))}\<^sup>*}
   \<and> distinct (config_closure cfg r)"
  using set_config_closure [of cfg r] closure_loop_distinct [of "[]" "nc_implies cfg" "[r]"]
  by (auto simp: implies_rel_def config_closure_def)

end
