(* ===== verification/Permission_Check.thy ===== *)
theory Permission_Check
  imports Permission_Store
begin

text \<open>
  The decision procedure of \<^verbatim>\<open>crates/permission_service/src/check.rs\<close>: a depth-first search through
  userset rewrites with one visited set shared by all branches. It is shown to terminate and to
  decide exactly the least relation generated by the tuples and the inheritance chain.
\<close>

section \<open>The search\<close>

definition covering_relations :: "namespace_registry \<Rightarrow> object_type \<Rightarrow> relation \<Rightarrow> relation list" where
  "covering_relations ns t wanted =
     filter (\<lambda>r. r = wanted \<or> registry_implies ns t r wanted)
       [Owner, Admin, Editor, Member, Viewer, Synthesizer, Proposer]"

definition direct_hit :: "subject_ref \<Rightarrow> relation_tuple \<Rightarrow> bool" where
  "direct_hit target t \<longleftrightarrow>
     sr_type (rt_subject t) = sr_type target \<and> sr_id (rt_subject t) = sr_id target
     \<and> sr_relation (rt_subject t) = None \<and> sr_relation target = None"

type_synonym visited = "(object_ref \<times> relation) set"

text \<open>
  \<open>walk\<close> with its two loops, over the covering relations and over the tuples of one relation. Each
  returns the answer and the visited set after it.
\<close>

function walk :: "tuple_store \<Rightarrow> namespace_registry \<Rightarrow> subject_ref \<Rightarrow> object_ref \<Rightarrow> relation \<Rightarrow> visited
    \<Rightarrow> bool \<times> visited"
  and walk_covers :: "tuple_store \<Rightarrow> namespace_registry \<Rightarrow> subject_ref \<Rightarrow> object_ref \<Rightarrow> relation list \<Rightarrow> visited
    \<Rightarrow> bool \<times> visited"
  and walk_tuples :: "tuple_store \<Rightarrow> namespace_registry \<Rightarrow> subject_ref \<Rightarrow> relation_tuple list \<Rightarrow> visited
    \<Rightarrow> bool \<times> visited" where
  "walk s ns target obj wanted vis =
     walk_covers s ns target obj (covering_relations ns (or_type obj) wanted) vis"
| "walk_covers s ns target obj [] vis = (False, vis)"
| "walk_covers s ns target obj (cover # covers) vis =
     (if (obj, cover) \<in> vis then walk_covers s ns target obj covers vis
      else (case walk_tuples s ns target (iter_for_object_relation s obj cover) (insert (obj, cover) vis) of
              (found, vis') \<Rightarrow>
                if found then (True, vis') else walk_covers s ns target obj covers vis'))"
| "walk_tuples s ns target [] vis = (False, vis)"
| "walk_tuples s ns target (t # ts) vis =
     (if direct_hit target t then (True, vis)
      else (case sr_relation (rt_subject t) of
              Some rel \<Rightarrow>
                (case walk s ns target
                        (object_ref_new (sr_type (rt_subject t)) (sr_id (rt_subject t))) rel vis of
                   (found, vis') \<Rightarrow>
                     if found then (True, vis') else walk_tuples s ns target ts vis')
            | None \<Rightarrow> walk_tuples s ns target ts vis))"
  by pat_completeness auto

lemma walk_visited_grows:
  "walk_walk_covers_walk_tuples_dom (Inl (s, ns, target, obj, wanted, vis)) \<Longrightarrow> vis \<subseteq> snd (walk s ns target obj wanted vis)"
  "walk_walk_covers_walk_tuples_dom (Inr (Inl (s, ns, target, obj, covers, vis))) \<Longrightarrow> vis \<subseteq> snd (walk_covers s ns target obj covers vis)"
  "walk_walk_covers_walk_tuples_dom (Inr (Inr (s, ns, target, ts, vis))) \<Longrightarrow> vis \<subseteq> snd (walk_tuples s ns target ts vis)"
proof (induction rule: walk_walk_covers_walk_tuples.pinduct)
  case (3 s ns target obj cover covers vis)
  obtain found vis' where r: "walk_tuples s ns target (iter_for_object_relation s obj cover) (insert (obj, cover) vis) = (found, vis')"
    by fastforce
  show ?case
  proof (cases "(obj, cover) \<in> vis")
    case True
    then show ?thesis using 3(1,2) by (simp add: walk_covers.psimps)
  next
    case False
    have g: "insert (obj, cover) vis \<subseteq> vis'" using 3(3) [OF False] r by simp
    have "vis' \<subseteq> snd (walk_covers s ns target obj covers vis')" if "\<not> found"
      using 3(4) False r that by metis
    then show ?thesis using 3(1) False r g by (auto simp: walk_covers.psimps)
  qed
next
  case (5 s ns target t ts vis)
  show ?case
  proof (cases "sr_relation (rt_subject t)")
    case None
    then show ?thesis using 5 by (auto simp: walk_tuples.psimps)
  next
    case (Some rel)
    obtain found vis' where r: "walk s ns target (object_ref_new (sr_type (rt_subject t)) (sr_id (rt_subject t))) rel vis = (found, vis')"
      by fastforce
    show ?thesis
    proof (cases "direct_hit target t")
      case True
      then show ?thesis using 5(1) by (simp add: walk_tuples.psimps)
    next
      case False
      have g: "vis \<subseteq> vis'" using 5(3) [OF False Some] r by simp
      have "vis' \<subseteq> snd (walk_tuples s ns target ts vis')" if "\<not> found"
        using 5(4) False Some r that by metis
      then show ?thesis using 5(1) False Some r g by (auto simp: walk_tuples.psimps)
    qed
  qed
qed (simp_all add: walk.psimps walk_covers.psimps walk_tuples.psimps)

lemma card_Compl_mono:
  fixes A B :: "'a::finite set"
  shows "A \<subseteq> B \<Longrightarrow> card (- B) \<le> card (- A)"
  by (rule card_mono) auto

lemma card_Compl_insert:
  fixes A B :: "'a::finite set"
  shows "x \<notin> A \<Longrightarrow> insert x A \<subseteq> B \<Longrightarrow> card (- B) < card (- A)"
  by (rule psubset_card_mono) auto

termination walk
proof (relation "inv_image (less_than <*lex*> less_than <*lex*> less_than)
    (\<lambda>x. case x of
       Inl (s, ns, target, obj, wanted, vis) \<Rightarrow> (card (- vis), 1, 0)
     | Inr (Inl (s, ns, target, obj, covers, vis)) \<Rightarrow> (card (- vis), 0, length covers)
     | Inr (Inr (s, ns, target, ts, vis)) \<Rightarrow> (card (- vis), 2 :: nat, length ts))",
    goal_cases)
  case (4 s ns target obj cover covers vis)
  then show ?case using card_Compl_insert [of "(obj, cover)" vis "insert (obj, cover) vis"] by simp
next
  case (5 s ns target obj cover covers vis xa y)
  then have "insert (obj, cover) vis \<subseteq> y" using walk_visited_grows(3) [OF 5(4)] by (metis snd_conv)
  then show ?case using 5(1) card_Compl_insert [of "(obj, cover)" vis y] by simp
next
  case (8 s ns target t ts vis rel xa y)
  then have "vis \<subseteq> y" using walk_visited_grows(1) [OF 8(5)] by (metis snd_conv)
  then show ?case using card_Compl_mono [of vis y] by (simp add: le_less)
qed auto

section \<open>The specification\<close>

text \<open>
  Holding a relation: some tuple on the object, for a relation that the namespace makes imply the
  wanted one, names the target, or names a userset in which the target holds the named relation.
\<close>

inductive holds :: "relation_tuple set \<Rightarrow> namespace_registry \<Rightarrow> subject_ref \<Rightarrow> object_ref \<Rightarrow> relation \<Rightarrow> bool"
  for T ns target where
  holds_direct: "t \<in> T \<Longrightarrow> rt_object t = obj \<Longrightarrow> (rt_relation t, wanted) \<in> (registry_rel ns (or_type obj))\<^sup>* \<Longrightarrow>
    direct_hit target t \<Longrightarrow> holds T ns target obj wanted"
| holds_userset: "t \<in> T \<Longrightarrow> rt_object t = obj \<Longrightarrow> (rt_relation t, wanted) \<in> (registry_rel ns (or_type obj))\<^sup>* \<Longrightarrow>
    sr_relation (rt_subject t) = Some rel \<Longrightarrow>
    holds T ns target (object_ref_new (sr_type (rt_subject t)) (sr_id (rt_subject t))) rel \<Longrightarrow>
    holds T ns target obj wanted"

lemma covering_iff: "c \<in> set (covering_relations ns t wanted) \<longleftrightarrow> (c, wanted) \<in> (registry_rel ns t)\<^sup>*"
proof -
  have "c \<in> set [Owner, Admin, Editor, Member, Viewer, Synthesizer, Proposer]" by (cases c) simp_all
  then have "c \<in> set (covering_relations ns t wanted) \<longleftrightarrow> c = wanted \<or> registry_implies ns t c wanted"
    by (simp only: covering_relations_def set_filter mem_Collect_eq simp_thms)
  then show ?thesis by (metis registry_implies_iff rtrancl.rtrancl_refl)
qed

text \<open>A tuple that answers the question, directly or through its userset.\<close>

definition grants :: "relation_tuple set \<Rightarrow> namespace_registry \<Rightarrow> subject_ref \<Rightarrow> relation_tuple \<Rightarrow> bool" where
  "grants T ns target t \<longleftrightarrow> direct_hit target t \<or>
     (\<exists>rel. sr_relation (rt_subject t) = Some rel
        \<and> holds T ns target (object_ref_new (sr_type (rt_subject t)) (sr_id (rt_subject t))) rel)"

lemma holds_iff:
  "holds T ns target obj wanted \<longleftrightarrow>
     (\<exists>t \<in> T. rt_object t = obj \<and> (rt_relation t, wanted) \<in> (registry_rel ns (or_type obj))\<^sup>* \<and> grants T ns target t)"
  unfolding grants_def by (subst holds.simps) blast

section \<open>Soundness\<close>

lemma walk_sound:
  "tstore_inv s \<Longrightarrow> fst (walk s ns target obj wanted vis) \<Longrightarrow> holds (ts_tuples s) ns target obj wanted"
  "tstore_inv s \<Longrightarrow> fst (walk_covers s ns target obj covers vis) \<Longrightarrow>
     \<exists>t \<in> ts_tuples s. rt_object t = obj \<and> rt_relation t \<in> set covers \<and> grants (ts_tuples s) ns target t"
  "tstore_inv s \<Longrightarrow> fst (walk_tuples s ns target ts vis) \<Longrightarrow> \<exists>t \<in> set ts. grants (ts_tuples s) ns target t"
proof (induction s ns target obj wanted vis and s ns target obj covers vis and s ns target ts vis
    rule: walk_walk_covers_walk_tuples.induct)
  case (1 s ns target obj wanted vis)
  then show ?case by (auto simp: holds_iff [of _ _ _ obj] covering_iff)
next
  case (3 s ns target obj cover covers vis)
  then show ?case
    by (auto simp: ts.look_content split: if_splits prod.splits)
next
  case (5 s ns target t ts vis)
  then show ?case
    by (auto simp: grants_def split: if_splits prod.splits option.splits)
qed auto

section \<open>Completeness\<close>

text \<open>
  A tuple is closed under a visited set when it does not name the target and every question its
  userset raises has been visited; a node is closed when all its tuples are.
\<close>

definition tuple_closed :: "namespace_registry \<Rightarrow> subject_ref \<Rightarrow> visited \<Rightarrow> relation_tuple \<Rightarrow> bool" where
  "tuple_closed ns target v t \<longleftrightarrow> \<not> direct_hit target t \<and>
     (\<forall>rel. sr_relation (rt_subject t) = Some rel \<longrightarrow>
        (\<forall>c \<in> set (covering_relations ns (sr_type (rt_subject t)) rel).
           (object_ref_new (sr_type (rt_subject t)) (sr_id (rt_subject t)), c) \<in> v))"

definition node_closed :: "tuple_store \<Rightarrow> namespace_registry \<Rightarrow> subject_ref \<Rightarrow> visited \<Rightarrow> object_ref \<times> relation \<Rightarrow> bool" where
  "node_closed s ns target v n \<longleftrightarrow>
     (\<forall>t \<in> set (iter_for_object_relation s (fst n) (snd n)). tuple_closed ns target v t)"

lemma tuple_closed_mono: "tuple_closed ns target v t \<Longrightarrow> v \<subseteq> w \<Longrightarrow> tuple_closed ns target w t"
  unfolding tuple_closed_def by blast

lemma node_closed_mono: "node_closed s ns target v n \<Longrightarrow> v \<subseteq> w \<Longrightarrow> node_closed s ns target w n"
  unfolding node_closed_def using tuple_closed_mono by blast

definition explored :: "tuple_store \<Rightarrow> namespace_registry \<Rightarrow> subject_ref \<Rightarrow> visited \<Rightarrow> visited \<Rightarrow> bool" where
  "explored s ns target vis v \<longleftrightarrow> vis \<subseteq> v \<and> (\<forall>n \<in> v - vis. node_closed s ns target v n)"

lemma explored_refl [simp]: "explored s ns target vis vis"
  by (simp add: explored_def)

lemma explored_trans: "explored s ns target u v \<Longrightarrow> explored s ns target v w \<Longrightarrow> explored s ns target u w"
  unfolding explored_def using node_closed_mono by blast

lemma explored_insert:
  assumes "explored s ns target (insert n vis) v" "node_closed s ns target v n"
  shows "explored s ns target vis v"
  using assms unfolding explored_def by blast

lemma walk_explores:
  "walk s ns target obj wanted vis = (False, v) \<Longrightarrow>
     explored s ns target vis v \<and> (\<forall>c \<in> set (covering_relations ns (or_type obj) wanted). (obj, c) \<in> v)"
  "walk_covers s ns target obj covers vis = (False, v) \<Longrightarrow>
     explored s ns target vis v \<and> (\<forall>c \<in> set covers. (obj, c) \<in> v)"
  "walk_tuples s ns target ts vis = (False, v) \<Longrightarrow>
     explored s ns target vis v \<and> (\<forall>t \<in> set ts. tuple_closed ns target v t)"
proof (induction s ns target obj wanted vis and s ns target obj covers vis and s ns target ts vis
    arbitrary: v and v and v rule: walk_walk_covers_walk_tuples.induct)
  case (3 s ns target obj cover covers vis)
  show ?case
  proof (cases "(obj, cover) \<in> vis")
    case True
    then show ?thesis using 3(1) [OF True, of v] 3(4) by (auto simp: explored_def)
  next
    case False
    obtain vis' where r: "walk_tuples s ns target (iter_for_object_relation s obj cover) (insert (obj, cover) vis) = (False, vis')"
      "walk_covers s ns target obj covers vis' = (False, v)"
      using 3(4) False by (auto split: prod.splits if_splits)
    have t: "explored s ns target (insert (obj, cover) vis) vis'" "node_closed s ns target vis' (obj, cover)"
      using 3(2) [OF False r(1)] by (simp_all add: node_closed_def)
    have c: "explored s ns target vis' v" "\<forall>c \<in> set covers. (obj, c) \<in> v"
      using 3(3) False r by metis+
    have "explored s ns target vis v"
      using explored_trans [OF explored_insert [OF t] c(1)] .
    moreover have "(obj, cover) \<in> v" using t(1) c(1) by (auto simp: explored_def)
    ultimately show ?thesis using c(2) by simp
  qed
next
  case (5 s ns target t ts vis)
  then have nd: "\<not> direct_hit target t" by auto
  show ?case
  proof (cases "sr_relation (rt_subject t)")
    case None
    then show ?thesis using 5 nd by (simp add: tuple_closed_def)
  next
    case (Some rel)
    let ?next = "object_ref_new (sr_type (rt_subject t)) (sr_id (rt_subject t))"
    obtain vis' where r: "walk s ns target ?next rel vis = (False, vis')" "walk_tuples s ns target ts vis' = (False, v)"
      using 5(4) nd Some by (auto split: prod.splits if_splits)
    have w: "explored s ns target vis vis'" "\<forall>c \<in> set (covering_relations ns (or_type ?next) rel). (?next, c) \<in> vis'"
      using 5(2) [OF nd Some r(1)] by simp_all
    have u: "explored s ns target vis' v" "\<forall>t \<in> set ts. tuple_closed ns target v t"
      using 5(3) nd Some r by metis+
    have "tuple_closed ns target v t"
      using nd Some w(2) u(1) by (auto simp: tuple_closed_def explored_def object_ref_new_def)
    then show ?thesis using explored_trans [OF w(1) u(1)] u(2) by simp
  qed
qed auto

lemma closed_not_holds:
  assumes "tstore_inv s" "explored s ns target {} v"
  shows "holds (ts_tuples s) ns target obj wanted \<Longrightarrow>
    \<forall>c \<in> set (covering_relations ns (or_type obj) wanted). (obj, c) \<in> v \<Longrightarrow> False"
proof (induction rule: holds.induct)
  case (holds_direct t obj wanted)
  then have "node_closed s ns target v (obj, rt_relation t)" "t \<in> set (iter_for_object_relation s obj (rt_relation t))"
    using assms by (auto simp: explored_def covering_iff iter_set)
  then show ?case using holds_direct by (auto simp: node_closed_def tuple_closed_def)
next
  case (holds_userset t obj wanted rel)
  then have "node_closed s ns target v (obj, rt_relation t)" "t \<in> set (iter_for_object_relation s obj (rt_relation t))"
    using assms by (auto simp: explored_def covering_iff iter_set)
  then show ?case using holds_userset by (auto simp: node_closed_def tuple_closed_def object_ref_new_def)
qed

section \<open>The facade\<close>

record permission_decision =
  pd_allowed :: bool

record permission_check =
  pc_store :: tuple_store
  pc_namespaces :: namespace_registry

definition evaluate :: "permission_check \<Rightarrow> object_ref \<Rightarrow> relation \<Rightarrow> subject_ref \<Rightarrow> permission_decision" where
  "evaluate pc obj r subject =
     \<lparr>pd_allowed = fst (walk (pc_store pc) (pc_namespaces pc) subject obj r {})\<rparr>"

definition check_permission ::
  "tuple_store \<Rightarrow> namespace_registry \<Rightarrow> object_ref \<Rightarrow> relation \<Rightarrow> subject_ref \<Rightarrow> bool" where
  "check_permission s ns obj r subject =
     pd_allowed (evaluate \<lparr>pc_store = s, pc_namespaces = ns\<rparr> obj r subject)"

lemma check_permission_iff:
  assumes "tstore_inv s"
  shows "check_permission s ns obj r subject \<longleftrightarrow> holds (ts_tuples s) ns subject obj r"
proof
  assume "check_permission s ns obj r subject"
  then show "holds (ts_tuples s) ns subject obj r"
    using walk_sound(1) [OF assms] by (simp add: check_permission_def evaluate_def del: walk.simps)
next
  assume h: "holds (ts_tuples s) ns subject obj r"
  show "check_permission s ns obj r subject"
  proof (rule ccontr)
    assume "\<not> check_permission s ns obj r subject"
    then obtain v where "walk s ns subject obj r {} = (False, v)"
      by (cases "walk s ns subject obj r {}") (auto simp: check_permission_def evaluate_def simp del: walk.simps)
    from walk_explores(1) [OF this] show False using closed_not_holds [OF assms _ h] by blast
  qed
qed

section \<open>Properties\<close>

lemma direct_hit_userset: "sr_relation target = Some r \<Longrightarrow> \<not> direct_hit target t"
  by (simp add: direct_hit_def)

lemma holds_mono: "holds T ns target obj r \<Longrightarrow> T \<subseteq> T' \<Longrightarrow> holds T' ns target obj r"
  by (induction rule: holds.induct) (auto intro: holds.intros)

lemma holds_not_userset: "holds T ns target obj r \<Longrightarrow> sr_relation target = None"
  by (induction rule: holds.induct) (auto simp: direct_hit_def)


text \<open>
  Writes move permissions in one direction: adding a tuple never revokes an access, removing
  one never grants an access, and a removal followed by the same insertion restores every decision.
\<close>

theorem grants_are_monotone:
  assumes "tstore_inv s"
  shows "(check_permission s ns obj r subject \<longrightarrow> check_permission (snd (tstore_insert s t)) ns obj r subject)
    \<and> (check_permission (snd (tstore_remove s t)) ns obj r subject \<longrightarrow> check_permission s ns obj r subject)
    \<and> (t \<in> ts_tuples s \<longrightarrow> check_permission (snd (tstore_insert (snd (tstore_remove s t)) t)) ns obj r subject
         = check_permission s ns obj r subject)"
proof -
  note iff = check_permission_iff [OF assms] check_permission_iff [OF tstore_insert_inv [OF assms]]
    check_permission_iff [OF tstore_remove_inv [OF assms]]
    check_permission_iff [OF tstore_insert_inv [OF tstore_remove_inv [OF assms]]]
  have "insert t (ts_tuples s - {t}) = ts_tuples s" if "t \<in> ts_tuples s" using that by auto
  then show ?thesis unfolding iff tstore_ops_tuples by (auto intro: holds_mono)
qed

text \<open>
  The facade decides principals only: a subject that is itself a userset is denied whatever
  the store holds, even when a tuple names exactly that userset.
\<close>

theorem userset_subject_denied:
  assumes "sr_relation subject = Some r'"
  shows "\<not> check_permission (fold tstore_exec cmds tstore_new) ns obj r subject"
proof -
  have "tstore_inv (fold tstore_exec cmds tstore_new)" by (rule tstore_run_inv(1) [OF tstore_inv_new])
  then show ?thesis using check_permission_iff holds_not_userset assms by fastforce
qed

definition demo_tenant :: object_ref where
  "demo_tenant = \<lparr>or_type = Tenant, or_id = 1\<rparr>"

definition demo_group :: object_ref where
  "demo_group = \<lparr>or_type = Group, or_id = 2\<rparr>"

definition demo_group_members :: subject_ref where
  "demo_group_members = subject_via Group 2 Member"

definition demo_user :: subject_ref where
  "demo_user = subject_direct User 3"

definition demo_cmds :: "tuple_cmd list" where
  "demo_cmds = [InsertTuple (relation_tuple_new demo_group Member demo_user),
     InsertTuple (relation_tuple_new demo_tenant Admin demo_group_members)]"

theorem userset_subject_denied_witness:
  "tstore_contains (fold tstore_exec demo_cmds tstore_new) (relation_tuple_new demo_tenant Admin demo_group_members)
   \<and> \<not> check_permission (fold tstore_exec demo_cmds tstore_new) registry_empty demo_tenant Admin demo_group_members"
  using userset_subject_denied [of demo_group_members Member demo_cmds registry_empty demo_tenant Admin]
    tstore_run_inv(2) [OF tstore_inv_new, of demo_cmds]
  by (simp add: demo_group_members_def subject_via_def tstore_contains_def)
    (simp add: demo_cmds_def demo_group_members_def subject_via_def)

theorem grants_are_monotone_witness:
  "check_permission (snd (tstore_insert (fold tstore_exec demo_cmds tstore_new)
      (relation_tuple_new demo_tenant Owner demo_user))) registry_empty demo_tenant Admin demo_user"
proof -
  let ?s = "fold tstore_exec demo_cmds tstore_new"
  let ?g = "relation_tuple_new demo_group Member demo_user"
  let ?a = "relation_tuple_new demo_tenant Admin demo_group_members"
  let ?T = "fold tuples_exec demo_cmds {}"
  have T: "?g \<in> ?T" "?a \<in> ?T" by (simp_all add: demo_cmds_def)
  have "holds ?T registry_empty demo_user demo_group Member"
  proof (rule holds_direct [OF T(1)])
    show "direct_hit demo_user ?g"
      by (simp add: relation_tuple_new_def direct_hit_def demo_user_def subject_direct_def)
  qed (simp_all add: relation_tuple_new_def)
  then have "holds ?T registry_empty demo_user (object_ref_new (sr_type (rt_subject ?a)) (sr_id (rt_subject ?a))) Member"
    by (simp only: relation_tuple_new_def demo_group_members_def subject_via_def demo_group_def object_ref_new_def
        relation_tuple.select_convs subject_ref.select_convs)
  then have "holds ?T registry_empty demo_user demo_tenant Admin"
    by (rule holds_userset [OF T(2), rotated -1])
      (simp_all add: relation_tuple_new_def demo_group_members_def subject_via_def)
  moreover have inv: "tstore_inv ?s" "ts_tuples ?s = fold tuples_exec demo_cmds {}"
    using tstore_run_inv [OF tstore_inv_new, of demo_cmds] by (simp_all add: tstore_new_def)
  ultimately have "check_permission ?s registry_empty demo_tenant Admin demo_user"
    using check_permission_iff [OF inv(1)] inv(2) by simp
  then show ?thesis using grants_are_monotone [OF inv(1)] by blast
qed

fun role_rank :: "relation \<Rightarrow> nat option" where
  "role_rank Owner = Some 0"
| "role_rank Admin = Some 1"
| "role_rank Editor = Some 2"
| "role_rank Member = Some 3"
| "role_rank Viewer = Some 4"
| "role_rank _ = None"

text \<open>
  The default namespaces: construction succeeds, and on tenants, domains, channels and users
  one role implies another exactly along the chain from owner to viewer, the synthesizer and
  proposer roles standing alone; on every other type of object a role implies only itself.
\<close>

theorem default_namespace_chain:
  "\<exists>ns. with_defaults = Some ns \<and>
     (\<forall>t held wanted. registry_implies ns t held wanted \<longleftrightarrow>
        held = wanted \<or>
        (t \<in> {Tenant, Domain, Channel, User} \<and>
           (case (role_rank held, role_rank wanted) of (Some a, Some b) \<Rightarrow> a \<le> b | _ \<Rightarrow> False)))"
proof -
  let ?ns = "(\<lambda>t. if t \<in> {Tenant, Domain, Channel, User} then Some (default_config t) else None)"
  have w: "with_defaults = Some ?ns"
    by (auto simp: with_defaults_def registry_register_def registry_empty_def default_config_def config_imply_def
        config_new_def fun_eq_iff)
  have c: "set (config_closure (default_config t) held) =
      {r. held = r \<or> (case (role_rank held, role_rank r) of (Some a, Some b) \<Rightarrow> a \<le> b | _ \<Rightarrow> False)}" for t held
  proof -
    have "set (config_closure (default_config t) held) = set (filter (\<lambda>r. held = r \<or>
        (case (role_rank held, role_rank r) of (Some a, Some b) \<Rightarrow> a \<le> b | _ \<Rightarrow> False)) all_relations)"
      by (cases held) (auto simp: config_closure_def default_config_def config_imply_def config_new_def all_relations_def)
    then show ?thesis by (simp only: set_filter set_all_relations) auto
  qed
  have "registry_implies ?ns t held wanted \<longleftrightarrow> held = wanted \<or>
      (t \<in> {Tenant, Domain, Channel, User} \<and>
         (case (role_rank held, role_rank wanted) of (Some a, Some b) \<Rightarrow> a \<le> b | _ \<Rightarrow> False))" for t held wanted
    by (auto simp: registry_implies_def registry_closure_def c)
  then show ?thesis using w by blast
qed

text \<open>
  Serialising a tuple store and reading it back loses no decision: the index is rebuilt from
  the tuples, whatever order the hash set yields them in.
\<close>

theorem tuple_store_roundtrip:
  assumes "tstore_inv s" "set (order_of (tstore_serialize s)) = tstore_serialize s" "distinct (order_of (tstore_serialize s))"
  shows "tstore_eq (tstore_deserialize order_of (tstore_serialize s)) s
    \<and> tstore_inv (tstore_deserialize order_of (tstore_serialize s))
    \<and> check_permission (tstore_deserialize order_of (tstore_serialize s)) ns obj r subject = check_permission s ns obj r subject"
  using tstore_deserialize_inv [of order_of "tstore_serialize s"] assms
  by (simp add: tstore_eq_def tstore_serialize_def check_permission_iff)

theorem tuple_store_roundtrip_witness:
  "tstore_eq (tstore_deserialize (\<lambda>_. [relation_tuple_new demo_group Member demo_user])
      (tstore_serialize (snd (tstore_insert tstore_new (relation_tuple_new demo_group Member demo_user)))))
    (snd (tstore_insert tstore_new (relation_tuple_new demo_group Member demo_user)))"
  using tuple_store_roundtrip [OF tstore_insert_inv [OF tstore_inv_new, of "relation_tuple_new demo_group Member demo_user"],
      of "\<lambda>_. [relation_tuple_new demo_group Member demo_user]"]
  by (simp add: tstore_serialize_def tstore_new_def)

end
