(* ===== verification/Lifecycle.thy ===== *)
theory Lifecycle
  imports Knowledge_Prelude
begin

text \<open>
  The contract shared by the status machines of the substrate: a set of allowed transitions with
  terminal states that nothing leaves. A history is the list of statuses an entity went through.
\<close>

locale lifecycle =
  fixes allowed :: "'st \<Rightarrow> 'st \<Rightarrow> bool"
    and terminal :: "'st \<Rightarrow> bool"
  assumes terminal_stuck: "terminal a \<Longrightarrow> \<not> allowed a b"
    and no_self_loop: "\<not> allowed a a"
begin

lemma terminal_reaches: "allowed\<^sup>*\<^sup>* a b \<Longrightarrow> terminal a \<Longrightarrow> b = a"
  by (induction rule: converse_rtranclp_induct) (auto simp: terminal_stuck)

text \<open>A run is a list of statuses in which each step is allowed or repeats the status.\<close>

fun run :: "'st \<Rightarrow> 'st list \<Rightarrow> bool" where
  "run a [] = True"
| "run a (b # bs) = ((b = a \<or> allowed a b) \<and> run b bs)"

lemma run_reaches: "run a bs \<Longrightarrow> b \<in> set bs \<Longrightarrow> allowed\<^sup>*\<^sup>* a b"
proof (induction bs arbitrary: a)
  case (Cons c bs)
  then have "allowed\<^sup>*\<^sup>* a c" by auto
  then show ?case using Cons by (auto intro: rtranclp_trans)
qed simp

lemma run_terminal: "run a bs \<Longrightarrow> terminal a \<Longrightarrow> \<forall>b \<in> set bs. b = a"
  using run_reaches terminal_reaches by blast

end

end
