(* ===== verification/Tenant_Registry.thy ===== *)
theory Tenant_Registry
  imports Lifecycle Permission_Store
begin

text \<open>
  The tenant catalogue of \<^verbatim>\<open>crates/tenant_service/src\<close>: tenant lifecycle (\<^verbatim>\<open>lifecycle.rs\<close>),
  configuration and its validation (\<^verbatim>\<open>config.rs\<close>), membership rows (\<^verbatim>\<open>member.rs\<close>) and the
  registry with its operations (\<^verbatim>\<open>tenant.rs\<close>). Fresh identifiers and the wall clock are arguments.
\<close>

section \<open>Data\<close>

datatype tenant_status = Active | Suspended | Deleted

datatype tenant_error =
    TenantNotFound uuid
  | InvalidLifecycleTransition tenant_status tenant_status
  | InvalidConfig string
  | AlreadyExists uuid
  | MemberAlreadyProvisioned uuid
  | MemberNotProvisioned uuid
  | MemberAlreadyRemoved uuid
  | TenantPersistence string
  | TenantSqlite
  | TenantCrypto

fun tenant_status_as_str :: "tenant_status \<Rightarrow> string" where
  "tenant_status_as_str Active = ''active''"
| "tenant_status_as_str Suspended = ''suspended''"
| "tenant_status_as_str Deleted = ''deleted''"

fun tenant_status_is_terminal :: "tenant_status \<Rightarrow> bool" where
  "tenant_status_is_terminal Deleted = True"
| "tenant_status_is_terminal _ = False"

definition validate_transition :: "tenant_status \<Rightarrow> tenant_status \<Rightarrow> tenant_error + unit" where
  "validate_transition from_st to_st =
     (let allowed = (case (from_st, to_st) of
            (Active, Suspended) \<Rightarrow> True | (Active, Deleted) \<Rightarrow> True
          | (Suspended, Active) \<Rightarrow> True | (Suspended, Deleted) \<Rightarrow> True
          | _ \<Rightarrow> False)
      in if \<not> allowed then Inl (InvalidLifecycleTransition from_st to_st) else Inr ())"

record tenant_key_ref =
  kr_handle :: uuid
  kr_destroyed :: bool

definition key_ref_new :: "uuid \<Rightarrow> tenant_key_ref" where
  "key_ref_new fresh = \<lparr>kr_handle = fresh, kr_destroyed = False\<rparr>"

definition key_ref_destroy :: "tenant_key_ref \<Rightarrow> tenant_key_ref" where
  "key_ref_destroy k = k\<lparr>kr_destroyed := True\<rparr>"

record storage_config =
  soft_cap_bytes :: "nat option"
  hard_cap_bytes :: "nat option"
  server_cold_tier :: bool

definition storage_default :: storage_config where
  "storage_default = \<lparr>soft_cap_bytes = None, hard_cap_bytes = None, server_cold_tier = False\<rparr>"

definition storage_validate :: "storage_config \<Rightarrow> tenant_error + unit" where
  "storage_validate c =
     (case (soft_cap_bytes c, hard_cap_bytes c) of
        (Some soft, Some hard) \<Rightarrow>
          if soft > hard then Inl (InvalidConfig ''soft_cap_bytes must be <= hard_cap_bytes'') else Inr ()
      | _ \<Rightarrow> Inr ())"

record synthesis_config =
  tenant_synthesis_enabled :: bool
  tenant_window_secs :: nat
  domain_window_secs :: nat
  managed_endpoint :: "string option"

definition synthesis_default :: synthesis_config where
  "synthesis_default =
     \<lparr>tenant_synthesis_enabled = False, tenant_window_secs = 86400, domain_window_secs = 3600,
      managed_endpoint = None\<rparr>"

definition synthesis_validate :: "synthesis_config \<Rightarrow> tenant_error + unit" where
  "synthesis_validate c =
     (if tenant_window_secs c < 60 \<or> domain_window_secs c < 60
      then Inl (InvalidConfig ''synthesis windows must be at least 60 seconds'') else Inr ())"

record tenant_config =
  cfg_root_key :: tenant_key_ref
  cfg_storage :: storage_config
  cfg_synthesis :: synthesis_config

definition tenant_config_new :: "uuid \<Rightarrow> tenant_config" where
  "tenant_config_new fresh =
     \<lparr>cfg_root_key = key_ref_new fresh, cfg_storage = storage_default, cfg_synthesis = synthesis_default\<rparr>"

definition tenant_config_validate :: "tenant_config \<Rightarrow> tenant_error + unit" where
  "tenant_config_validate c =
     (case storage_validate (cfg_storage c) of
        Inl e \<Rightarrow> Inl e | Inr _ \<Rightarrow> synthesis_validate (cfg_synthesis c))"

datatype member_status = MemberActive | MemberSuspended | MemberRemoved

fun member_status_as_str :: "member_status \<Rightarrow> string" where
  "member_status_as_str MemberActive = ''active''"
| "member_status_as_str MemberSuspended = ''suspended''"
| "member_status_as_str MemberRemoved = ''removed''"

record tenant_member =
  tm_tenant :: uuid
  tm_user :: uuid
  tm_role :: relation
  tm_status :: member_status
  tm_provisioned_at :: instant
  tm_updated_at :: instant

definition member_new :: "instant \<Rightarrow> uuid \<Rightarrow> uuid \<Rightarrow> relation \<Rightarrow> tenant_member" where
  "member_new now tenant user role =
     \<lparr>tm_tenant = tenant, tm_user = user, tm_role = role, tm_status = MemberActive,
      tm_provisioned_at = now, tm_updated_at = now\<rparr>"

record tenant =
  tn_id :: uuid
  tn_name :: string
  tn_status :: tenant_status
  tn_config :: tenant_config
  tn_created_at :: instant
  tn_updated_at :: instant

definition tenant_new :: "uuid \<Rightarrow> instant \<Rightarrow> string \<Rightarrow> tenant_config \<Rightarrow> tenant" where
  "tenant_new fresh now name config =
     \<lparr>tn_id = fresh, tn_name = name, tn_status = Active, tn_config = config,
      tn_created_at = now, tn_updated_at = now\<rparr>"

record tenant_registry =
  tr_tenants :: "uuid \<rightharpoonup> tenant"
  tr_members :: "(uuid \<times> uuid) \<rightharpoonup> tenant_member"

section \<open>Operations\<close>

text \<open>A call that mutates returns its outcome and the registry after it.\<close>

type_synonym 'a tenant_call = "tenant_registry \<Rightarrow> (tenant_error + 'a) \<times> tenant_registry"

definition tenants_new :: tenant_registry where
  "tenants_new = \<lparr>tr_tenants = Map.empty, tr_members = Map.empty\<rparr>"

definition tenants_len :: "tenant_registry \<Rightarrow> nat" where
  "tenants_len reg = card (dom (tr_tenants reg))"

definition tenants_is_empty :: "tenant_registry \<Rightarrow> bool" where
  "tenants_is_empty reg \<longleftrightarrow> dom (tr_tenants reg) = {}"

definition tenant_create :: "uuid \<Rightarrow> instant \<Rightarrow> string \<Rightarrow> tenant_config \<Rightarrow> uuid tenant_call" where
  "tenant_create fresh now name config reg =
     (case tenant_config_validate config of
        Inl e \<Rightarrow> (Inl e, reg)
      | Inr _ \<Rightarrow>
          (let t = tenant_new fresh now name config; i = tn_id t
           in if tr_tenants reg i \<noteq> None then (Inl (AlreadyExists i), reg)
              else (Inr i, reg\<lparr>tr_tenants := (tr_tenants reg)(i \<mapsto> t)\<rparr>)))"

definition tenant_get :: "tenant_registry \<Rightarrow> uuid \<Rightarrow> tenant_error + tenant" where
  "tenant_get reg i = (case tr_tenants reg i of None \<Rightarrow> Inl (TenantNotFound i) | Some t \<Rightarrow> Inr t)"

definition tenant_transition :: "instant \<Rightarrow> uuid \<Rightarrow> tenant_status \<Rightarrow> unit tenant_call" where
  "tenant_transition now i to_st reg =
     (case tr_tenants reg i of
        None \<Rightarrow> (Inl (TenantNotFound i), reg)
      | Some t \<Rightarrow>
          (case validate_transition (tn_status t) to_st of
             Inl e \<Rightarrow> (Inl e, reg)
           | Inr _ \<Rightarrow>
               (Inr (), reg\<lparr>tr_tenants := (tr_tenants reg)(i \<mapsto> t\<lparr>tn_status := to_st, tn_updated_at := now\<rparr>)\<rparr>)))"

definition tenant_suspend :: "instant \<Rightarrow> uuid \<Rightarrow> unit tenant_call" where
  "tenant_suspend now i = tenant_transition now i Suspended"

definition tenant_activate :: "instant \<Rightarrow> uuid \<Rightarrow> unit tenant_call" where
  "tenant_activate now i = tenant_transition now i Active"

definition tenant_delete :: "instant \<Rightarrow> uuid \<Rightarrow> unit tenant_call" where
  "tenant_delete now i reg =
     (case tr_tenants reg i of
        None \<Rightarrow> (Inl (TenantNotFound i), reg)
      | Some t \<Rightarrow>
          (case validate_transition (tn_status t) Deleted of
             Inl e \<Rightarrow> (Inl e, reg)
           | Inr _ \<Rightarrow>
               (Inr (), reg\<lparr>tr_tenants := (tr_tenants reg)(i \<mapsto>
                  t\<lparr>tn_config := (tn_config t)\<lparr>cfg_root_key := key_ref_destroy (cfg_root_key (tn_config t))\<rparr>,
                    tn_status := Deleted, tn_updated_at := now\<rparr>)\<rparr>)))"

definition require_active :: "tenant_registry \<Rightarrow> uuid \<Rightarrow> tenant_error + unit" where
  "require_active reg i =
     (case tr_tenants reg i of
        None \<Rightarrow> Inl (TenantNotFound i)
      | Some t \<Rightarrow>
          if tn_status t \<noteq> Active then Inl (InvalidLifecycleTransition (tn_status t) Active) else Inr ())"

definition add_member :: "instant \<Rightarrow> uuid \<Rightarrow> uuid \<Rightarrow> relation \<Rightarrow> tenant_member tenant_call" where
  "add_member now i user role reg =
     (case require_active reg i of
        Inl e \<Rightarrow> (Inl e, reg)
      | Inr _ \<Rightarrow>
          (let taken = (case tr_members reg (i, user) of
                          Some existing \<Rightarrow> tm_status existing \<noteq> MemberRemoved | None \<Rightarrow> False)
           in if taken then (Inl (MemberAlreadyProvisioned user), reg)
              else (let member = member_new now i user role
                    in (Inr member, reg\<lparr>tr_members := (tr_members reg)((i, user) \<mapsto> member)\<rparr>))))"

definition remove_member :: "instant \<Rightarrow> uuid \<Rightarrow> uuid \<Rightarrow> unit tenant_call" where
  "remove_member now i user reg =
     (case require_active reg i of
        Inl e \<Rightarrow> (Inl e, reg)
      | Inr _ \<Rightarrow>
          (case tr_members reg (i, user) of
             None \<Rightarrow> (Inl (MemberNotProvisioned user), reg)
           | Some m \<Rightarrow>
               if tm_status m = MemberRemoved then (Inl (MemberAlreadyRemoved user), reg)
               else (Inr (), reg\<lparr>tr_members := (tr_members reg)((i, user) \<mapsto>
                       m\<lparr>tm_status := MemberRemoved, tm_updated_at := now\<rparr>)\<rparr>)))"

definition update_role :: "instant \<Rightarrow> uuid \<Rightarrow> uuid \<Rightarrow> relation \<Rightarrow> unit tenant_call" where
  "update_role now i user role reg =
     (case require_active reg i of
        Inl e \<Rightarrow> (Inl e, reg)
      | Inr _ \<Rightarrow>
          (case tr_members reg (i, user) of
             None \<Rightarrow> (Inl (MemberNotProvisioned user), reg)
           | Some m \<Rightarrow>
               if tm_status m = MemberRemoved then (Inl (MemberAlreadyRemoved user), reg)
               else (Inr (), reg\<lparr>tr_members := (tr_members reg)((i, user) \<mapsto>
                       m\<lparr>tm_role := role, tm_updated_at := now\<rparr>)\<rparr>)))"

definition get_member :: "tenant_registry \<Rightarrow> uuid \<Rightarrow> uuid \<Rightarrow> tenant_error + tenant_member" where
  "get_member reg i user =
     (case tr_members reg (i, user) of None \<Rightarrow> Inl (MemberNotProvisioned user) | Some m \<Rightarrow> Inr m)"

text \<open>\<open>order\<close> is the iteration order of the hash map's keys.\<close>

definition list_members :: "(uuid \<times> uuid) list \<Rightarrow> tenant_registry \<Rightarrow> uuid \<Rightarrow> tenant_member list" where
  "list_members order reg i =
     List.map_filter (\<lambda>k. if fst k = i then tr_members reg k else None) order"

definition insert_persisted :: "tenant \<Rightarrow> unit tenant_call" where
  "insert_persisted t reg =
     (let i = tn_id t
      in if tr_tenants reg i \<noteq> None then (Inl (AlreadyExists i), reg)
         else (Inr (), reg\<lparr>tr_tenants := (tr_tenants reg)(i \<mapsto> t)\<rparr>))"

definition insert_persisted_member :: "tenant_member \<Rightarrow> unit tenant_call" where
  "insert_persisted_member m reg =
     (if tr_tenants reg (tm_tenant m) = None then (Inl (TenantNotFound (tm_tenant m)), reg)
      else (Inr (), reg\<lparr>tr_members := (tr_members reg)((tm_tenant m, tm_user m) \<mapsto> m)\<rparr>))"

lemmas [defs_tenant] = tenant_create_def tenant_transition_def tenant_suspend_def tenant_activate_def
  tenant_delete_def add_member_def remove_member_def update_role_def require_active_def
  insert_persisted_def insert_persisted_member_def Let_def

section \<open>The lifecycle\<close>

definition status_allowed :: "tenant_status \<Rightarrow> tenant_status \<Rightarrow> bool" where
  "status_allowed a b \<longleftrightarrow> validate_transition a b = Inr ()"

lemma status_allowed_simps [simp]:
  "status_allowed Active b \<longleftrightarrow> b = Suspended \<or> b = Deleted"
  "status_allowed Suspended b \<longleftrightarrow> b = Active \<or> b = Deleted"
  "\<not> status_allowed Deleted b"
  by (cases b; simp add: status_allowed_def validate_transition_def)+

lemma validate_transition_Inr [simp]: "validate_transition a b = Inr u \<longleftrightarrow> status_allowed a b"
  by (simp add: status_allowed_def)

lemma validate_transition_Inl:
  "validate_transition a b = Inl e \<Longrightarrow> e = InvalidLifecycleTransition a b \<and> \<not> status_allowed a b"
  by (auto simp: validate_transition_def status_allowed_def Let_def split: if_splits)

interpretation tenant: lifecycle status_allowed tenant_status_is_terminal
proof
  show "tenant_status_is_terminal a \<Longrightarrow> \<not> status_allowed a b" for a b by (cases a) simp_all
  show "\<not> status_allowed a a" for a by (cases a) simp_all
qed

section \<open>Commands\<close>

datatype tenant_cmd =
    Create uuid instant string tenant_config
  | Suspend instant uuid
  | Activate instant uuid
  | Delete instant uuid
  | AddMember instant uuid uuid relation
  | RemoveMember instant uuid uuid
  | UpdateRole instant uuid uuid relation

text \<open>The outcome as an optional error, and the registry after the command.\<close>

definition outcome :: "(tenant_error + 'a) \<times> tenant_registry \<Rightarrow> tenant_error option \<times> tenant_registry" where
  "outcome r = ((case fst r of Inl e \<Rightarrow> Some e | Inr _ \<Rightarrow> None), snd r)"

fun tenant_exec :: "tenant_cmd \<Rightarrow> tenant_registry \<Rightarrow> tenant_error option \<times> tenant_registry" where
  "tenant_exec (Create fresh now name config) reg = outcome (tenant_create fresh now name config reg)"
| "tenant_exec (Suspend now i) reg = outcome (tenant_suspend now i reg)"
| "tenant_exec (Activate now i) reg = outcome (tenant_activate now i reg)"
| "tenant_exec (Delete now i) reg = outcome (tenant_delete now i reg)"
| "tenant_exec (AddMember now i user role) reg = outcome (add_member now i user role reg)"
| "tenant_exec (RemoveMember now i user) reg = outcome (remove_member now i user reg)"
| "tenant_exec (UpdateRole now i user role) reg = outcome (update_role now i user role reg)"

definition tenant_run :: "tenant_cmd list \<Rightarrow> tenant_registry \<Rightarrow> tenant_registry" where
  "tenant_run cmds reg = fold (\<lambda>c r. snd (tenant_exec c r)) cmds reg"

section \<open>Invariant\<close>

definition tenant_inv :: "tenant_registry \<Rightarrow> bool" where
  "tenant_inv reg \<longleftrightarrow>
     (\<forall>i t. tr_tenants reg i = Some t \<longrightarrow> tn_id t = i
        \<and> tenant_config_validate (tn_config t) = Inr ()
        \<and> (tn_status t = Deleted \<longrightarrow> kr_destroyed (cfg_root_key (tn_config t)))) \<and>
     (\<forall>i user m. tr_members reg (i, user) = Some m \<longrightarrow>
        tm_tenant m = i \<and> tm_user m = user \<and> tr_tenants reg i \<noteq> None)"

lemma tenant_inv_new [simp]: "tenant_inv tenants_new"
  by (simp add: tenant_inv_def tenants_new_def)

lemma config_validate_key [simp]:
  "tenant_config_validate (c\<lparr>cfg_root_key := k\<rparr>) = tenant_config_validate c"
  by (simp add: tenant_config_validate_def split: sum.split)

text \<open>The shape of every command: it fails and changes nothing, or rewrites one tenant or member row.\<close>

lemma transition_shape:
  "(\<exists>e. tenant_transition now i to_st reg = (Inl e, reg)) \<or>
   (\<exists>t. tr_tenants reg i = Some t \<and> status_allowed (tn_status t) to_st \<and>
      tenant_transition now i to_st reg =
        (Inr (), reg\<lparr>tr_tenants := (tr_tenants reg)(i \<mapsto> t\<lparr>tn_status := to_st, tn_updated_at := now\<rparr>)\<rparr>))"
  by (auto simp: tenant_transition_def split: option.splits sum.splits)

lemma delete_shape:
  "(\<exists>e. tenant_delete now i reg = (Inl e, reg)) \<or>
   (\<exists>t. tr_tenants reg i = Some t \<and> status_allowed (tn_status t) Deleted \<and>
      tenant_delete now i reg =
        (Inr (), reg\<lparr>tr_tenants := (tr_tenants reg)(i \<mapsto>
           t\<lparr>tn_config := (tn_config t)\<lparr>cfg_root_key := key_ref_destroy (cfg_root_key (tn_config t))\<rparr>,
             tn_status := Deleted, tn_updated_at := now\<rparr>)\<rparr>))"
  by (auto simp: tenant_delete_def split: option.splits sum.splits)

lemma require_active_Inr: "require_active reg i = Inr u \<Longrightarrow> \<exists>t. tr_tenants reg i = Some t \<and> tn_status t = Active"
  by (auto simp: require_active_def split: option.splits if_splits)

definition member_written :: "uuid \<Rightarrow> uuid \<Rightarrow> tenant_registry \<Rightarrow> tenant_registry \<Rightarrow> bool" where
  "member_written i user reg reg' \<longleftrightarrow>
     (\<exists>t m. tr_tenants reg i = Some t \<and> tn_status t = Active \<and>
        (tr_members reg (i, user) = None \<longrightarrow> tm_tenant m = i \<and> tm_user m = user) \<and>
        (\<forall>old. tr_members reg (i, user) = Some old \<longrightarrow>
           (tm_tenant m = tm_tenant old \<and> tm_user m = tm_user old) \<or> (tm_tenant m = i \<and> tm_user m = user)) \<and>
        reg' = reg\<lparr>tr_members := (tr_members reg)((i, user) \<mapsto> m)\<rparr>)"

lemma member_writtenI:
  assumes "require_active reg i = Inr u"
    and "(tm_tenant m = i \<and> tm_user m = user) \<or>
      (\<exists>old. tr_members reg (i, user) = Some old \<and> tm_tenant m = tm_tenant old \<and> tm_user m = tm_user old)"
  shows "member_written i user reg (reg\<lparr>tr_members := (tr_members reg)((i, user) \<mapsto> m)\<rparr>)"
proof -
  obtain t where "tr_tenants reg i = Some t" "tn_status t = Active" using require_active_Inr [OF assms(1)] by blast
  then show ?thesis
    unfolding member_written_def
    by (intro exI [of _ t] exI [of _ m]) (use assms(2) in auto)
qed

lemma add_member_shape:
  "(\<exists>e. add_member now i user role reg = (Inl e, reg)) \<or>
     (\<exists>m reg'. add_member now i user role reg = (Inr m, reg') \<and> member_written i user reg reg')"
proof (cases "require_active reg i")
  case (Inr u)
  have "member_written i user reg (reg\<lparr>tr_members := (tr_members reg)((i, user) \<mapsto> member_new now i user role)\<rparr>)"
    by (rule member_writtenI [OF Inr]) (simp add: member_new_def)
  then show ?thesis using Inr by (simp add: add_member_def Let_def)
qed (simp add: add_member_def)

lemma remove_member_shape:
  "(\<exists>e. remove_member now i user reg = (Inl e, reg)) \<or>
     (\<exists>reg'. remove_member now i user reg = (Inr (), reg') \<and> member_written i user reg reg')"
proof (cases "require_active reg i")
  case (Inr u)
  have "member_written i user reg (reg\<lparr>tr_members := (tr_members reg)((i, user) \<mapsto>
      m\<lparr>tm_status := MemberRemoved, tm_updated_at := now\<rparr>)\<rparr>)" if "tr_members reg (i, user) = Some m" for m
    by (rule member_writtenI [OF Inr]) (simp add: that)
  then show ?thesis using Inr by (cases "tr_members reg (i, user)") (simp_all add: remove_member_def)
qed (simp add: remove_member_def)

lemma update_role_shape:
  "(\<exists>e. update_role now i user role reg = (Inl e, reg)) \<or>
     (\<exists>reg'. update_role now i user role reg = (Inr (), reg') \<and> member_written i user reg reg')"
proof (cases "require_active reg i")
  case (Inr u)
  have "member_written i user reg (reg\<lparr>tr_members := (tr_members reg)((i, user) \<mapsto>
      m\<lparr>tm_role := role, tm_updated_at := now\<rparr>)\<rparr>)" if "tr_members reg (i, user) = Some m" for m
    by (rule member_writtenI [OF Inr]) (simp add: that)
  then show ?thesis using Inr by (cases "tr_members reg (i, user)") (simp_all add: update_role_def)
qed (simp add: update_role_def)

definition tenant_written :: "tenant_registry \<Rightarrow> tenant_registry \<Rightarrow> bool" where
  "tenant_written reg reg' \<longleftrightarrow>
     (\<exists>i t now to_st k. tr_tenants reg i = Some t \<and> status_allowed (tn_status t) to_st
        \<and> (to_st = Deleted \<longrightarrow> kr_destroyed k)
        \<and> reg' = reg\<lparr>tr_tenants := (tr_tenants reg)(i \<mapsto>
             t\<lparr>tn_config := (tn_config t)\<lparr>cfg_root_key := k\<rparr>, tn_status := to_st, tn_updated_at := now\<rparr>)\<rparr>)"

definition tenant_added :: "tenant_registry \<Rightarrow> tenant_registry \<Rightarrow> bool" where
  "tenant_added reg reg' \<longleftrightarrow>
     (\<exists>fresh now name config. tr_tenants reg fresh = None \<and> tenant_config_validate config = Inr ()
        \<and> reg' = reg\<lparr>tr_tenants := (tr_tenants reg)(fresh \<mapsto> tenant_new fresh now name config)\<rparr>)"

lemma tenant_writtenI:
  assumes "tr_tenants reg i = Some t" "status_allowed (tn_status t) to_st" "to_st \<noteq> Deleted"
  shows "tenant_written reg (reg\<lparr>tr_tenants := (tr_tenants reg)(i \<mapsto> t\<lparr>tn_status := to_st, tn_updated_at := now\<rparr>)\<rparr>)"
  unfolding tenant_written_def
  by (rule exI [of _ i], rule exI [of _ t], rule exI [of _ now], rule exI [of _ to_st],
      rule exI [of _ "cfg_root_key (tn_config t)"]) (use assms in simp)

lemma tenant_written_deleted:
  assumes "tr_tenants reg i = Some t" "status_allowed (tn_status t) Deleted" "kr_destroyed k"
  shows "tenant_written reg (reg\<lparr>tr_tenants := (tr_tenants reg)(i \<mapsto>
    t\<lparr>tn_config := (tn_config t)\<lparr>cfg_root_key := k\<rparr>, tn_status := Deleted, tn_updated_at := now\<rparr>)\<rparr>)"
  unfolding tenant_written_def using assms by blast

lemma tenant_exec_shape:
  "(\<exists>e. tenant_exec c reg = (Some e, reg)) \<or>
   (\<exists>reg'. tenant_exec c reg = (None, reg') \<and>
      (tenant_added reg reg' \<or> tenant_written reg reg' \<or> (\<exists>i user. member_written i user reg reg')))"
proof (cases c)
  case (Create fresh now name config)
  then show ?thesis
    by (auto simp: tenant_create_def outcome_def tenant_added_def tenant_new_def Let_def split: sum.splits)
next
  case (Suspend now i)
  then show ?thesis
    using transition_shape [of now i Suspended reg] tenant_writtenI [of reg i _ Suspended now]
    by (auto simp: tenant_suspend_def outcome_def)
next
  case (Activate now i)
  then show ?thesis
    using transition_shape [of now i Active reg] tenant_writtenI [of reg i _ Active now]
    by (auto simp: tenant_activate_def outcome_def)
next
  case (Delete now i)
  have k: "kr_destroyed (key_ref_destroy k)" for k by (simp add: key_ref_destroy_def)
  show ?thesis
    using delete_shape [of now i reg] Delete tenant_written_deleted [OF _ _ k]
    by (fastforce simp: outcome_def)
next
  case (AddMember now i user role)
  then show ?thesis using add_member_shape [of now i user role reg] by (auto simp: outcome_def)
next
  case (RemoveMember now i user)
  then show ?thesis using remove_member_shape [of now i user reg] by (auto simp: outcome_def)
next
  case (UpdateRole now i user role)
  then show ?thesis using update_role_shape [of now i user role reg] by (auto simp: outcome_def)
qed

lemma tenant_exec_inv:
  assumes "tenant_inv reg"
  shows "tenant_inv (snd (tenant_exec c reg))"
proof -
  have "tenant_inv reg'" if "tenant_added reg reg'" for reg'
    using assms that by (auto simp: tenant_added_def tenant_inv_def tenant_new_def split: if_splits)
  moreover have "tenant_inv reg'" if "tenant_written reg reg'" for reg'
    using assms that by (auto simp: tenant_written_def tenant_inv_def split: if_splits)
  moreover have "tenant_inv reg'" if "member_written i user reg reg'" for reg' i user
    using assms that by (cases "tr_members reg (i, user)") (auto simp: member_written_def tenant_inv_def split: if_splits)
  ultimately show ?thesis using assms tenant_exec_shape [of c reg] by fastforce
qed

lemma tenant_run_simps [simp]:
  "tenant_run [] reg = reg" "tenant_run (c # cs) reg = tenant_run cs (snd (tenant_exec c reg))"
  by (simp_all add: tenant_run_def)

lemma tenant_run_inv: "tenant_inv reg \<Longrightarrow> tenant_inv (tenant_run cmds reg)"
  by (induction cmds arbitrary: reg) (simp_all add: tenant_exec_inv)

text \<open>One command moves a tenant's status along the lifecycle or leaves it; rows never disappear.\<close>

lemma tenant_exec_status:
  assumes "tr_tenants reg i = Some t"
  shows "\<exists>t'. tr_tenants (snd (tenant_exec c reg)) i = Some t'
    \<and> (t' = t \<or> status_allowed (tn_status t) (tn_status t'))"
proof -
  have "\<exists>t'. tr_tenants reg' i = Some t' \<and> (t' = t \<or> status_allowed (tn_status t) (tn_status t'))"
    if "tenant_added reg reg' \<or> tenant_written reg reg' \<or> (\<exists>i user. member_written i user reg reg')" for reg'
    using that assms by (auto simp: tenant_added_def tenant_written_def member_written_def)
  then show ?thesis using tenant_exec_shape [of c reg] assms by fastforce
qed

text \<open>Member rows of a tenant that is not active are out of reach.\<close>

lemma tenant_exec_frozen:
  assumes "tr_tenants reg i = Some t" "tn_status t \<noteq> Active"
  shows "tr_members (snd (tenant_exec c reg)) (i, user) = tr_members reg (i, user)"
proof -
  have "tr_members reg' (i, user) = tr_members reg (i, user)"
    if "tenant_added reg reg' \<or> tenant_written reg reg' \<or> (\<exists>i user. member_written i user reg reg')" for reg'
    using that assms by (auto simp: tenant_added_def tenant_written_def member_written_def)
  then show ?thesis using tenant_exec_shape [of c reg] by fastforce
qed

lemma tenant_run_deleted:
  assumes "tr_tenants reg i = Some t" "tn_status t = Deleted"
  shows "tr_tenants (tenant_run cmds reg) i = Some t
    \<and> (\<forall>user. tr_members (tenant_run cmds reg) (i, user) = tr_members reg (i, user))"
  using assms
proof (induction cmds arbitrary: reg)
  case (Cons c cmds)
  have "\<not> status_allowed (tn_status t) b" for b
    by (rule tenant.terminal_stuck) (simp add: Cons.prems(2))
  then have "tr_tenants (snd (tenant_exec c reg)) i = Some t"
    using tenant_exec_status [OF Cons.prems(1), of c] by blast
  then show ?case using Cons.IH Cons.prems tenant_exec_frozen [OF Cons.prems(1), of c] by simp
qed simp

section \<open>Rehydration\<close>

text \<open>
  The loops of \<^verbatim>\<open>PersistentTenantRegistry::load_all\<close>, on the rows read from the database; the
  first failing insert ends the load.
\<close>

fun load_tenants :: "tenant list \<Rightarrow> tenant_registry \<Rightarrow> tenant_error + tenant_registry" where
  "load_tenants [] reg = Inr reg"
| "load_tenants (t # ts) reg =
     (case insert_persisted t reg of (Inl e, _) \<Rightarrow> Inl e | (Inr _, reg') \<Rightarrow> load_tenants ts reg')"

fun load_members :: "tenant_member list \<Rightarrow> tenant_registry \<Rightarrow> tenant_error + tenant_registry" where
  "load_members [] reg = Inr reg"
| "load_members (m # ms) reg =
     (case insert_persisted_member m reg of (Inl e, _) \<Rightarrow> Inl e | (Inr _, reg') \<Rightarrow> load_members ms reg')"

definition load_all :: "tenant list \<Rightarrow> tenant_member list \<Rightarrow> tenant_error + tenant_registry" where
  "load_all ts ms =
     (case load_tenants ts tenants_new of Inl e \<Rightarrow> Inl e | Inr reg \<Rightarrow> load_members ms reg)"

text \<open>Writing rows into a map under their keys, later rows over earlier ones.\<close>

definition put_rows :: "('a \<Rightarrow> 'k) \<Rightarrow> 'a list \<Rightarrow> ('k \<rightharpoonup> 'a) \<Rightarrow> ('k \<rightharpoonup> 'a)" where
  "put_rows key xs m = fold (\<lambda>x mp. mp(key x \<mapsto> x)) xs m"

lemma put_rows_map_of: "put_rows key xs m = m ++ map_of (map (\<lambda>x. (key x, x)) (rev xs))"
proof (induction xs arbitrary: m)
  case (Cons x xs)
  then show ?case by (simp add: put_rows_def map_add_upd_left fun_eq_iff map_add_def split: option.splits)
qed (simp add: put_rows_def)

abbreviation member_key :: "tenant_member \<Rightarrow> uuid \<times> uuid" where
  "member_key m \<equiv> (tm_tenant m, tm_user m)"

lemma load_tenants_ok:
  "distinct (map tn_id ts) \<Longrightarrow> \<forall>t \<in> set ts. tr_tenants reg (tn_id t) = None \<Longrightarrow>
     load_tenants ts reg = Inr (reg\<lparr>tr_tenants := put_rows tn_id ts (tr_tenants reg)\<rparr>)"
proof (induction ts arbitrary: reg)
  case (Cons t ts)
  let ?reg = "reg\<lparr>tr_tenants := (tr_tenants reg)(tn_id t \<mapsto> t)\<rparr>"
  have "tn_id u \<noteq> tn_id t" if "u \<in> set ts" for u using Cons.prems(1) that by (metis distinct.simps(2) image_eqI list.set_map list.simps(9))
  then have "\<forall>u \<in> set ts. tr_tenants ?reg (tn_id u) = None" using Cons.prems(2) by simp
  from Cons.IH [OF _ this] show ?case using Cons.prems by (simp add: insert_persisted_def put_rows_def fun_upd_def)
qed (simp add: put_rows_def)

lemma load_members_ok:
  "\<forall>m \<in> set ms. tr_tenants reg (tm_tenant m) \<noteq> None \<Longrightarrow>
     load_members ms reg = Inr (reg\<lparr>tr_members := put_rows member_key ms (tr_members reg)\<rparr>)"
proof (induction ms arbitrary: reg)
  case (Cons m ms)
  let ?reg = "reg\<lparr>tr_members := (tr_members reg)(member_key m \<mapsto> m)\<rparr>"
  have "\<forall>u \<in> set ms. tr_tenants ?reg (tm_tenant u) \<noteq> None" using Cons.prems by auto
  from Cons.IH [OF this] show ?case using Cons.prems by (simp add: insert_persisted_member_def put_rows_def fun_upd_def)
qed (simp add: put_rows_def)

text \<open>A list of a map's rows, keyed as the map keys them, gives the map back.\<close>

lemma map_of_rows:
  assumes "set xs = ran m" "\<And>k x. m k = Some x \<Longrightarrow> key x = k"
  shows "map_of (map (\<lambda>x. (key x, x)) xs) = m"
proof
  fix k
  have in_xs: "x \<in> set xs \<longleftrightarrow> m (key x) = Some x" for x
  proof
    assume "x \<in> set xs"
    then obtain k' where "m k' = Some x" unfolding assms(1) ran_def by blast
    then show "m (key x) = Some x" using assms(2) [of k' x] by simp
  next
    assume "m (key x) = Some x"
    then show "x \<in> set xs" unfolding assms(1) by (rule ranI)
  qed
  show "map_of (map (\<lambda>x. (key x, x)) xs) k = m k"
  proof (cases "map_of (map (\<lambda>x. (key x, x)) xs) k")
    case None
    have "m k \<noteq> Some x" for x
    proof
      assume "m k = Some x"
      then have "key x = k" "x \<in> set xs" using assms(2) [of k x] in_xs [of x] by simp_all
      then have "(k, x) \<in> set (map (\<lambda>x. (key x, x)) xs)" by auto
      from weak_map_of_SomeI [OF this] show False using None by simp
    qed
    then show ?thesis using None by (metis not_None_eq)
  next
    case (Some y)
    from map_of_SomeD [OF this] have "y \<in> set xs" "key y = k" by auto
    then show ?thesis using Some in_xs [of y] by simp
  qed
qed

section \<open>Properties\<close>

text \<open>
  C10. Every registry that any sequence of commands builds, failing ones included, keeps its rows
  consistent: each tenant is stored under its own id with a valid configuration, a deleted tenant's
  root key is destroyed, and each member row is stored under its own key for an existing tenant.
\<close>

theorem tenant_registry_invariant:
  "tenant_inv (tenant_run cmds tenants_new)"
  by (rule tenant_run_inv [OF tenant_inv_new])

text \<open>
  Deletion is final: once a delete has succeeded, the tenant's row, with its root key
  destroyed, and all its member rows stay as they are under every further sequence of commands,
  and every command that names the tenant fails.
\<close>

theorem tenant_deletion_final:
  assumes "tenant_exec (Delete now i) reg = (None, reg')"
  shows "\<exists>t. tr_tenants (tenant_run cmds reg') i = Some t \<and> tn_status t = Deleted
    \<and> kr_destroyed (cfg_root_key (tn_config t))
    \<and> (\<forall>user. tr_members (tenant_run cmds reg') (i, user) = tr_members reg (i, user))
    \<and> (\<forall>c \<in> {Suspend n i, Activate n i, Delete n i, AddMember n i u role, RemoveMember n i u, UpdateRole n i u role}.
         fst (tenant_exec c (tenant_run cmds reg')) \<noteq> None)"
proof -
  obtain t where t: "tr_tenants reg' i = Some t" "tn_status t = Deleted"
    "kr_destroyed (cfg_root_key (tn_config t))" "tr_members reg' = tr_members reg"
    using assms delete_shape [of now i reg] by (auto simp: outcome_def key_ref_destroy_def)
  have r: "tr_tenants (tenant_run cmds reg') i = Some t"
    "\<forall>user. tr_members (tenant_run cmds reg') (i, user) = tr_members reg (i, user)"
    using tenant_run_deleted [OF t(1,2), of cmds] t(4) by simp_all
  have "require_active (tenant_run cmds reg') i = Inl (InvalidLifecycleTransition Deleted Active)"
    using r(1) t(2) by (simp add: require_active_def)
  then show ?thesis
    using r t
    by (auto simp: outcome_def tenant_suspend_def tenant_activate_def tenant_transition_def tenant_delete_def
        add_member_def remove_member_def update_role_def split: sum.splits)
qed

theorem tenant_deletion_final_witness:
  "\<exists>t. tr_tenants (tenant_run [Activate 3 1]
      (snd (tenant_exec (Delete 2 1) (tenant_run [Create 1 0 ''acme'' (tenant_config_new 9)] tenants_new)))) 1 = Some t
    \<and> tn_status t = Deleted"
proof -
  let ?reg = "tenant_run [Create 1 0 ''acme'' (tenant_config_new 9)] tenants_new"
  obtain reg' where "tenant_exec (Delete 2 1) ?reg = (None, reg')"
    by (simp add: outcome_def tenant_create_def tenant_delete_def tenants_new_def tenant_config_validate_def
        tenant_config_new_def storage_validate_def storage_default_def synthesis_validate_def synthesis_default_def
        tenant_new_def validate_transition_def)
  from this tenant_deletion_final [OF this, of "[Activate 3 1]" 0 0 Owner] show ?thesis by force
qed

text \<open>
  A suspended tenant is frozen: every membership command on it fails with the lifecycle error
  and changes nothing, whatever other commands ran before, as long as none of them re-activates it;
  and re-activating it restores the rows it had.
\<close>

theorem suspension_freezes_members:
  assumes "tr_tenants reg i = Some t" "tn_status t = Suspended" "\<forall>c \<in> set cmds. \<forall>now. c \<noteq> Activate now i \<and> c \<noteq> Delete now i"
  shows "let reg' = tenant_run cmds reg in
    (\<forall>user. tr_members reg' (i, user) = tr_members reg (i, user))
    \<and> (\<forall>c \<in> {AddMember n i u role, RemoveMember n i u, UpdateRole n i u role}.
         tenant_exec c reg' = (Some (InvalidLifecycleTransition Suspended Active), reg'))
    \<and> fst (tenant_exec (Activate n i) reg') = None
    \<and> (\<forall>user. tr_members (snd (tenant_exec (Activate n i) reg')) (i, user) = tr_members reg (i, user))"
proof -
  have run: "tr_tenants (tenant_run cmds reg) i = Some t
      \<and> (\<forall>user. tr_members (tenant_run cmds reg) (i, user) = tr_members reg (i, user))"
    using assms
  proof (induction cmds arbitrary: reg)
    case (Cons c cmds)
    have "tr_tenants (snd (tenant_exec c reg)) i = Some t"
    proof (cases c)
      case (Create fresh now name config)
      then show ?thesis using Cons.prems(1)
        by (auto simp: outcome_def tenant_create_def tenant_new_def Let_def split: sum.splits)
    next
      case (AddMember now j user role)
      then show ?thesis using Cons.prems(1) add_member_shape [of now j user role reg]
        by (auto simp: outcome_def member_written_def)
    next
      case (RemoveMember now j user)
      then show ?thesis using Cons.prems(1) remove_member_shape [of now j user reg]
        by (auto simp: outcome_def member_written_def)
    next
      case (UpdateRole now j user role)
      then show ?thesis using Cons.prems(1) update_role_shape [of now j user role reg]
        by (auto simp: outcome_def member_written_def)
    next
      case (Suspend now j)
      then show ?thesis using Cons.prems(1,2) transition_shape [of now j Suspended reg]
        by (auto simp: outcome_def tenant_suspend_def)
    next
      case (Activate now j)
      then show ?thesis using Cons.prems transition_shape [of now j Active reg]
        by (auto simp: outcome_def tenant_activate_def)
    next
      case (Delete now j)
      then show ?thesis using Cons.prems delete_shape [of now j reg] by (auto simp: outcome_def)
    qed
    then show ?case
      using Cons.IH Cons.prems(2,3) tenant_exec_frozen [OF Cons.prems(1), of c] by simp
  qed simp
  have ra: "require_active (tenant_run cmds reg) i = Inl (InvalidLifecycleTransition Suspended Active)"
    using run assms(2) by (simp add: require_active_def)
  have "tenant_transition n i Active (tenant_run cmds reg) =
      (Inr (), (tenant_run cmds reg)\<lparr>tr_tenants := (tr_tenants (tenant_run cmds reg))(i \<mapsto> t\<lparr>tn_status := Active, tn_updated_at := n\<rparr>)\<rparr>)"
    using run assms(2) by (simp add: tenant_transition_def validate_transition_def)
  then show ?thesis
    using run ra by (simp add: Let_def outcome_def tenant_activate_def add_member_def remove_member_def update_role_def)
qed

theorem suspension_freezes_members_witness:
  "tenant_exec (AddMember 5 1 7 Member)
     (tenant_run [] (tenant_run [Create 1 0 ''acme'' (tenant_config_new 9), Suspend 2 1] tenants_new)) =
     (Some (InvalidLifecycleTransition Suspended Active),
      tenant_run [Create 1 0 ''acme'' (tenant_config_new 9), Suspend 2 1] tenants_new)"
proof -
  let ?reg = "tenant_run [Create 1 0 ''acme'' (tenant_config_new 9), Suspend 2 1] tenants_new"
  obtain t where "tr_tenants ?reg 1 = Some t" "tn_status t = Suspended"
    by (simp add: outcome_def tenant_create_def tenant_suspend_def tenant_transition_def tenants_new_def
        tenant_config_validate_def tenant_config_new_def storage_validate_def storage_default_def
        synthesis_validate_def synthesis_default_def tenant_new_def validate_transition_def)
  from suspension_freezes_members [OF this, of "[]" 5 7 Member] show ?thesis
    by (simp add: Let_def del: tenant_run_simps(2))
qed

text \<open>
  Commands are atomic and membership keeps an audit row: a command that fails leaves the
  registry untouched; a provisioned member can be removed exactly once, the row staying behind as
  removed, after which provisioning the same user again succeeds and starts a fresh active row.
\<close>

theorem membership_cycle:
  assumes "tr_tenants reg i = Some t" "tn_status t = Active"
    and "tr_members reg (i, user) = Some m" "tm_status m \<noteq> MemberRemoved"
  shows "(fst (tenant_exec c reg) \<noteq> None \<longrightarrow> snd (tenant_exec c reg) = reg)
    \<and> fst (tenant_exec (AddMember n1 i user role) reg) = Some (MemberAlreadyProvisioned user)
    \<and> (\<exists>reg1. tenant_exec (RemoveMember n1 i user) reg = (None, reg1)
        \<and> get_member reg1 i user = Inr (m\<lparr>tm_status := MemberRemoved, tm_updated_at := n1\<rparr>)
        \<and> fst (tenant_exec (RemoveMember n2 i user) reg1) = Some (MemberAlreadyRemoved user)
        \<and> fst (tenant_exec (UpdateRole n2 i user role) reg1) = Some (MemberAlreadyRemoved user)
        \<and> (\<exists>reg2. tenant_exec (AddMember n3 i user role) reg1 = (None, reg2)
             \<and> get_member reg2 i user = Inr (member_new n3 i user role)))"
proof -
  have "fst (tenant_exec c reg) \<noteq> None \<longrightarrow> snd (tenant_exec c reg) = reg"
    using tenant_exec_shape [of c reg] by auto
  then show ?thesis
    using assms
    by (simp add: outcome_def add_member_def remove_member_def update_role_def require_active_def get_member_def Let_def)
qed

theorem membership_cycle_witness:
  "fst (tenant_exec (AddMember 9 1 7 Viewer)
     (tenant_run [Create 1 0 ''acme'' (tenant_config_new 9), AddMember 3 1 7 Member] tenants_new)) =
     Some (MemberAlreadyProvisioned 7)"
proof -
  let ?reg = "tenant_run [Create 1 0 ''acme'' (tenant_config_new 9), AddMember 3 1 7 Member] tenants_new"
  obtain t m where "tr_tenants ?reg 1 = Some t" "tn_status t = Active"
      "tr_members ?reg (1, 7) = Some m" "tm_status m \<noteq> MemberRemoved"
    by (simp add: outcome_def tenant_create_def add_member_def require_active_def tenants_new_def member_new_def
        tenant_config_validate_def tenant_config_new_def storage_validate_def storage_default_def
        synthesis_validate_def synthesis_default_def tenant_new_def Let_def)
  from membership_cycle [OF this] show ?thesis by blast
qed

text \<open>
  A restart loses nothing: loading the tenant rows and then the member rows of any registry a
  run has built, in any order the database returns them, succeeds and rebuilds that registry.
\<close>

theorem tenant_registry_rehydrates:
  assumes "reg = tenant_run cmds tenants_new"
    and "set ts = ran (tr_tenants reg)" "distinct ts" "set ms = ran (tr_members reg)"
  shows "load_all ts ms = Inr reg"
proof -
  have inv: "tenant_inv reg" unfolding assms(1) by (rule tenant_run_inv [OF tenant_inv_new])
  then have key: "\<And>k t. tr_tenants reg k = Some t \<Longrightarrow> tn_id t = k"
    "\<And>k m. tr_members reg k = Some m \<Longrightarrow> member_key m = k"
    by (auto simp: tenant_inv_def)
  have "inj_on tn_id (set ts)" unfolding assms(2) ran_def
    by (rule inj_onI, clarify) (metis key(1) option.inject)
  then have d: "distinct (map tn_id ts)" using assms(3) by (simp add: distinct_map)
  have rt: "put_rows tn_id ts Map.empty = tr_tenants reg"
    unfolding put_rows_map_of by (simp add: map_of_rows [OF _ key(1)] assms(2))
  have rm: "put_rows member_key ms Map.empty = tr_members reg"
    unfolding put_rows_map_of by (simp add: map_of_rows [OF _ key(2)] assms(4))
  have "load_tenants ts tenants_new = Inr \<lparr>tr_tenants = tr_tenants reg, tr_members = Map.empty\<rparr>"
    using load_tenants_ok [OF d, of tenants_new] rt by (simp add: tenants_new_def)
  moreover have "\<forall>m \<in> set ms. tr_tenants reg (tm_tenant m) \<noteq> None"
    using inv assms(4) unfolding tenant_inv_def ran_def by fastforce
  ultimately show ?thesis
    using load_members_ok [of ms "\<lparr>tr_tenants = tr_tenants reg, tr_members = Map.empty\<rparr>"] rm by (simp add: load_all_def)
qed

theorem tenant_registry_rehydrates_witness:
  "load_all [tenant_new 1 0 ''acme'' (tenant_config_new 9)] [] =
     Inr (tenant_run [Create 1 0 ''acme'' (tenant_config_new 9)] tenants_new)"
proof -
  let ?t = "tenant_new 1 0 ''acme'' (tenant_config_new 9)"
  have "tenant_run [Create 1 0 ''acme'' (tenant_config_new 9)] tenants_new = \<lparr>tr_tenants = [1 \<mapsto> ?t], tr_members = Map.empty\<rparr>"
    by (simp add: outcome_def tenant_create_def tenants_new_def tenant_config_validate_def tenant_config_new_def
        storage_validate_def storage_default_def synthesis_validate_def synthesis_default_def tenant_new_def)
  then show ?thesis
    using tenant_registry_rehydrates [OF refl, of "[?t]" "[Create 1 0 ''acme'' (tenant_config_new 9)]" "[]"]
    by simp
qed

end
