(* ===== verification/Audit_Log.thy ===== *)
theory Audit_Log
  imports Crypto_Primitives
begin

text \<open>
  The audit log of \<^verbatim>\<open>crates/audit_service/src\<close>: entries and their builder (\<^verbatim>\<open>entry.rs\<close>), the
  append-only log with its secondary indexes and queries (\<^verbatim>\<open>log.rs\<close>), the event helpers
  (\<^verbatim>\<open>helpers.rs\<close>). Queries through the indexes are shown to be the linear filter, and sequence
  numbers to be contiguous.
\<close>

section \<open>Entries\<close>

datatype audit_action_type =
    CanonicalPromotion | Export | AgentProposal | PolicyChange | MemberProvisioned | MemberRemoval
  | TenantLifecycle | KeyDestruction | ExportRendered | ExportSimulated | AgentProposalSubmitted
  | AgentProposalPromoted | AgentProposalRejected

fun audit_action_as_str :: "audit_action_type \<Rightarrow> string" where
  "audit_action_as_str CanonicalPromotion = ''canonical_promotion''"
| "audit_action_as_str Export = ''export''"
| "audit_action_as_str AgentProposal = ''agent_proposal''"
| "audit_action_as_str PolicyChange = ''policy_change''"
| "audit_action_as_str MemberProvisioned = ''member_provisioned''"
| "audit_action_as_str MemberRemoval = ''member_removed''"
| "audit_action_as_str TenantLifecycle = ''tenant_lifecycle''"
| "audit_action_as_str KeyDestruction = ''key_destruction''"
| "audit_action_as_str ExportRendered = ''export_rendered''"
| "audit_action_as_str ExportSimulated = ''export_simulated''"
| "audit_action_as_str AgentProposalSubmitted = ''agent_proposal_submitted''"
| "audit_action_as_str AgentProposalPromoted = ''agent_proposal_promoted''"
| "audit_action_as_str AgentProposalRejected = ''agent_proposal_rejected''"

datatype target_type =
    TargetTenant | TargetDomain | TargetChannel | TargetUser | TargetMemoryObject | TargetConcept
  | TargetSummary | TargetExportProfile | TargetPolicy | TargetKey | TargetAgent

fun target_type_as_str :: "target_type \<Rightarrow> string" where
  "target_type_as_str TargetTenant = ''tenant''"
| "target_type_as_str TargetDomain = ''domain''"
| "target_type_as_str TargetChannel = ''channel''"
| "target_type_as_str TargetUser = ''user''"
| "target_type_as_str TargetMemoryObject = ''memory_object''"
| "target_type_as_str TargetConcept = ''concept''"
| "target_type_as_str TargetSummary = ''summary''"
| "target_type_as_str TargetExportProfile = ''export_profile''"
| "target_type_as_str TargetPolicy = ''policy''"
| "target_type_as_str TargetKey = ''key''"
| "target_type_as_str TargetAgent = ''agent''"

record target_ref =
  tg_type :: target_type
  tg_id :: uuid

datatype actor = ActorUser uuid | ActorAgent uuid | ActorSystem

datatype json =
    JNull
  | JNumber nat
  | JString string
  | JUuid uuid
  | JArray "json list"
  | JObject "(string \<times> json) list"

type_synonym scope_id = uuid

record audit_entry =
  ae_id :: uuid
  ae_sequence :: nat
  ae_timestamp :: instant
  ae_actor :: actor
  ae_action :: audit_action_type
  ae_target :: target_ref
  ae_scope :: "scope_id option"
  ae_details :: json

datatype audit_error =
    EntryImmutable
  | MissingField string
  | AuditPersistence string
  | AuditSqlite
  | AuditCrypto crypto_error

record audit_entry_builder =
  ab_actor :: "actor option"
  ab_action :: "audit_action_type option"
  ab_target :: "target_ref option"
  ab_scope :: "scope_id option"
  ab_details :: "json option"
  ab_timestamp :: "instant option"

definition builder_new :: audit_entry_builder where
  "builder_new = \<lparr>ab_actor = None, ab_action = None, ab_target = None, ab_scope = None,
     ab_details = None, ab_timestamp = None\<rparr>"

definition builder_actor :: "actor \<Rightarrow> audit_entry_builder \<Rightarrow> audit_entry_builder" where
  "builder_actor a b = b\<lparr>ab_actor := Some a\<rparr>"

definition builder_action :: "audit_action_type \<Rightarrow> audit_entry_builder \<Rightarrow> audit_entry_builder" where
  "builder_action a b = b\<lparr>ab_action := Some a\<rparr>"

definition builder_target :: "target_ref \<Rightarrow> audit_entry_builder \<Rightarrow> audit_entry_builder" where
  "builder_target t b = b\<lparr>ab_target := Some t\<rparr>"

definition builder_scope :: "scope_id \<Rightarrow> audit_entry_builder \<Rightarrow> audit_entry_builder" where
  "builder_scope s b = b\<lparr>ab_scope := Some s\<rparr>"

definition builder_details :: "json \<Rightarrow> audit_entry_builder \<Rightarrow> audit_entry_builder" where
  "builder_details d b = b\<lparr>ab_details := Some d\<rparr>"

definition builder_timestamp :: "instant \<Rightarrow> audit_entry_builder \<Rightarrow> audit_entry_builder" where
  "builder_timestamp t b = b\<lparr>ab_timestamp := Some t\<rparr>"

text \<open>\<open>build\<close> with the drawn id and the clock reading as arguments.\<close>

definition builder_build :: "uuid \<Rightarrow> instant \<Rightarrow> audit_entry_builder \<Rightarrow> audit_error + audit_entry" where
  "builder_build fresh now b =
     (case ab_actor b of
        None \<Rightarrow> Inl (MissingField ''actor'')
      | Some a \<Rightarrow>
          (case ab_action b of
             None \<Rightarrow> Inl (MissingField ''action_type'')
           | Some act \<Rightarrow>
               (case ab_target b of
                  None \<Rightarrow> Inl (MissingField ''target'')
                | Some t \<Rightarrow>
                    Inr \<lparr>ae_id = fresh, ae_sequence = 0,
                         ae_timestamp = (case ab_timestamp b of Some ts \<Rightarrow> ts | None \<Rightarrow> now),
                         ae_actor = a, ae_action = act, ae_target = t, ae_scope = ab_scope b,
                         ae_details = (case ab_details b of Some d \<Rightarrow> d | None \<Rightarrow> JNull)\<rparr>)))"

section \<open>Queries\<close>

record audit_query =
  aq_scope :: "scope_id option"
  aq_actions :: "audit_action_type list"
  aq_since :: "instant option"
  aq_until :: "instant option"
  aq_actor :: "uuid option"

definition query_new :: audit_query where
  "query_new = \<lparr>aq_scope = None, aq_actions = [], aq_since = None, aq_until = None, aq_actor = None\<rparr>"

definition query_with_scope :: "scope_id \<Rightarrow> audit_query \<Rightarrow> audit_query" where
  "query_with_scope s q = q\<lparr>aq_scope := Some s\<rparr>"

definition query_with_action :: "audit_action_type \<Rightarrow> audit_query \<Rightarrow> audit_query" where
  "query_with_action a q = q\<lparr>aq_actions := aq_actions q @ [a]\<rparr>"

definition query_since :: "instant \<Rightarrow> audit_query \<Rightarrow> audit_query" where
  "query_since t q = q\<lparr>aq_since := Some t\<rparr>"

definition query_until :: "instant \<Rightarrow> audit_query \<Rightarrow> audit_query" where
  "query_until t q = q\<lparr>aq_until := Some t\<rparr>"

definition query_with_actor :: "uuid \<Rightarrow> audit_query \<Rightarrow> audit_query" where
  "query_with_actor u q = q\<lparr>aq_actor := Some u\<rparr>"

fun actor_uuid :: "actor \<Rightarrow> uuid option" where
  "actor_uuid (ActorUser i) = Some i"
| "actor_uuid (ActorAgent i) = Some i"
| "actor_uuid ActorSystem = None"

definition query_matches :: "audit_query \<Rightarrow> audit_entry \<Rightarrow> bool" where
  "query_matches q e =
     (if (case aq_scope q of Some s \<Rightarrow> ae_scope e \<noteq> Some s | None \<Rightarrow> False) then False
      else if aq_actions q \<noteq> [] \<and> ae_action e \<notin> set (aq_actions q) then False
      else if (case aq_since q of Some since \<Rightarrow> ae_timestamp e < since | None \<Rightarrow> False) then False
      else if (case aq_until q of Some until \<Rightarrow> ae_timestamp e > until | None \<Rightarrow> False) then False
      else (case aq_actor q of
              Some actor_id \<Rightarrow>
                (case ae_actor e of
                   ActorUser i \<Rightarrow> i = actor_id | ActorAgent i \<Rightarrow> i = actor_id | ActorSystem \<Rightarrow> False)
            | None \<Rightarrow> True))"

section \<open>The log\<close>

record audit_log =
  al_entries :: "audit_entry list"
  al_next :: nat
  al_scope_index :: "scope_id \<rightharpoonup> nat list"
  al_action_index :: "audit_action_type \<rightharpoonup> nat list"
  al_actor_index :: "uuid \<rightharpoonup> nat list"
  al_id_index :: "uuid \<rightharpoonup> nat"

definition audit_new :: audit_log where
  "audit_new = \<lparr>al_entries = [], al_next = 0, al_scope_index = Map.empty, al_action_index = Map.empty,
     al_actor_index = Map.empty, al_id_index = Map.empty\<rparr>"

definition audit_len :: "audit_log \<Rightarrow> nat" where
  "audit_len l = length (al_entries l)"

definition audit_is_empty :: "audit_log \<Rightarrow> bool" where
  "audit_is_empty l \<longleftrightarrow> al_entries l = []"

definition bucket_push :: "'k \<Rightarrow> nat \<Rightarrow> ('k \<rightharpoonup> nat list) \<Rightarrow> ('k \<rightharpoonup> nat list)" where
  "bucket_push k pos m = m(k \<mapsto> or_empty_list (m k) @ [pos])"

definition index_entry :: "audit_entry \<Rightarrow> nat \<Rightarrow> audit_log \<Rightarrow> audit_log" where
  "index_entry e pos l =
     l\<lparr>al_scope_index := (case ae_scope e of
            Some s \<Rightarrow> bucket_push s pos (al_scope_index l) | None \<Rightarrow> al_scope_index l),
       al_action_index := bucket_push (ae_action e) pos (al_action_index l),
       al_actor_index := (case ae_actor e of
            ActorUser i \<Rightarrow> bucket_push i pos (al_actor_index l)
          | ActorAgent i \<Rightarrow> bucket_push i pos (al_actor_index l)
          | ActorSystem \<Rightarrow> al_actor_index l),
       al_id_index := (al_id_index l)(ae_id e \<mapsto> pos)\<rparr>"

definition audit_append :: "audit_entry \<Rightarrow> audit_log \<Rightarrow> uuid \<times> audit_log" where
  "audit_append entry l =
     (let e = entry\<lparr>ae_sequence := al_next l\<rparr>;
          l1 = l\<lparr>al_next := sat_add (al_next l) 1\<rparr>;
          position = length (al_entries l1);
          l2 = index_entry e position l1
      in (ae_id e, l2\<lparr>al_entries := al_entries l2 @ [e]\<rparr>))"

definition replay_persisted :: "audit_entry \<Rightarrow> audit_log \<Rightarrow> audit_error + audit_log" where
  "replay_persisted e l =
     (if ae_sequence e \<noteq> al_next l
      then Inl (AuditPersistence ''replayed audit entry sequence is not contiguous with next_sequence'')
      else (let l1 = l\<lparr>al_next := sat_add (al_next l) 1\<rparr>;
                position = length (al_entries l1);
                l2 = index_entry e position l1
            in Inr (l2\<lparr>al_entries := al_entries l2 @ [e]\<rparr>)))"

definition peek_next_sequence :: "audit_log \<Rightarrow> nat" where
  "peek_next_sequence l = al_next l"

text \<open>Indexing the vector: \<open>None\<close> is the panic of an index out of range.\<close>

definition entry_at :: "audit_entry list \<Rightarrow> nat \<Rightarrow> audit_entry option" where
  "entry_at es pos = (if pos < length es then Some (es ! pos) else None)"

definition audit_get :: "audit_log \<Rightarrow> uuid \<Rightarrow> audit_entry option option" where
  "audit_get l i =
     (case al_id_index l i of
        None \<Rightarrow> Some None
      | Some pos \<Rightarrow> map_option Some (entry_at (al_entries l) pos))"

text \<open>A \<^verbatim>\<open>BTreeSet\<close> is a set read back in ascending order; the loops stop at the empty set.\<close>

fun intersect_sets :: "nat set \<Rightarrow> nat list list \<Rightarrow> nat set" where
  "intersect_sets acc [] = acc"
| "intersect_sets acc (s # ss) =
     (let acc' = acc \<inter> set s in if acc' = {} then acc' else intersect_sets acc' ss)"

definition intersect_with :: "audit_log \<Rightarrow> nat list \<Rightarrow> nat list list \<Rightarrow> uuid option \<Rightarrow> nat list" where
  "intersect_with l seed extra actor_id =
     (let acc = intersect_sets (set seed) extra
      in if acc = {} \<and> extra \<noteq> [] then []
         else (case actor_id of
                 None \<Rightarrow> sorted_list_of_set acc
               | Some a \<Rightarrow>
                   (case al_actor_index l a of
                      None \<Rightarrow> []
                    | Some positions \<Rightarrow> sorted_list_of_set (acc \<inter> set positions))))"

definition candidate_positions :: "audit_log \<Rightarrow> audit_query \<Rightarrow> nat list option" where
  "candidate_positions l q =
     (let sets = (case aq_scope q of
                    Some s \<Rightarrow> [or_empty_list (al_scope_index l s)] | None \<Rightarrow> [])
      in if aq_actions q \<noteq> [] then
           (let union = fold (\<lambda>action u. case al_action_index l action of
                               Some positions \<Rightarrow> u \<union> set positions | None \<Rightarrow> u) (aq_actions q) {}
            in Some (intersect_with l (sorted_list_of_set union) sets (aq_actor q)))
         else
           (let sets' = (case aq_actor q of
                           Some a \<Rightarrow> sets @ [or_empty_list (al_actor_index l a)] | None \<Rightarrow> sets)
            in (case sort_key length sets' of
                  [] \<Rightarrow> None
                | smallest # rest \<Rightarrow>
                    Some (sorted_list_of_set (intersect_sets (set smallest) rest)))))"

definition audit_query_run :: "audit_log \<Rightarrow> audit_query \<Rightarrow> audit_entry list option" where
  "audit_query_run l q =
     (case candidate_positions l q of
        Some positions \<Rightarrow>
          map_option (filter (query_matches q)) (those (map (entry_at (al_entries l)) positions))
      | None \<Rightarrow> Some (filter (query_matches q) (al_entries l)))"

definition rebuild_indexes :: "audit_log \<Rightarrow> audit_log" where
  "rebuild_indexes l =
     fold (\<lambda>(pos, e). index_entry e pos) (enumerate 0 (al_entries l))
       (l\<lparr>al_scope_index := Map.empty, al_action_index := Map.empty, al_actor_index := Map.empty,
          al_id_index := Map.empty\<rparr>)"

text \<open>The wire form carries the entries and the counter; the indexes are rebuilt.\<close>

definition audit_serialize :: "audit_log \<Rightarrow> audit_entry list \<times> nat" where
  "audit_serialize l = (al_entries l, al_next l)"

definition audit_deserialize :: "audit_entry list \<times> nat \<Rightarrow> audit_log" where
  "audit_deserialize wire =
     rebuild_indexes (audit_new\<lparr>al_entries := fst wire, al_next := snd wire\<rparr>)"

section \<open>Helpers\<close>

definition append_built ::
  "audit_log \<Rightarrow> audit_error + audit_entry \<Rightarrow> (audit_error + uuid) \<times> audit_log" where
  "append_built l r =
     (case r of Inl e \<Rightarrow> (Inl e, l) | Inr e \<Rightarrow> (case audit_append e l of (i, l') \<Rightarrow> (Inr i, l')))"

definition log_export ::
  "uuid \<Rightarrow> instant \<Rightarrow> audit_log \<Rightarrow> uuid \<Rightarrow> scope_id \<Rightarrow> actor \<Rightarrow> uuid list \<Rightarrow> (audit_error + uuid) \<times> audit_log" where
  "log_export fresh now l profile scope a concepts =
     append_built l (builder_build fresh now
       (builder_details (JObject [(''concepts_exported'', JArray (map JUuid concepts)),
                                  (''count'', JNumber (length concepts))])
       (builder_scope scope
       (builder_target \<lparr>tg_type = TargetExportProfile, tg_id = profile\<rparr>
       (builder_action ExportRendered (builder_actor a builder_new))))))"

definition log_export_simulated ::
  "uuid \<Rightarrow> instant \<Rightarrow> audit_log \<Rightarrow> uuid \<Rightarrow> scope_id \<Rightarrow> actor \<Rightarrow> nat \<Rightarrow> nat \<Rightarrow> (audit_error + uuid) \<times> audit_log" where
  "log_export_simulated fresh now l profile scope a included excluded =
     append_built l (builder_build fresh now
       (builder_details (JObject [(''included_count'', JNumber included), (''excluded_count'', JNumber excluded)])
       (builder_scope scope
       (builder_target \<lparr>tg_type = TargetExportProfile, tg_id = profile\<rparr>
       (builder_action ExportSimulated (builder_actor a builder_new))))))"

definition log_proposal_submitted ::
  "uuid \<Rightarrow> instant \<Rightarrow> audit_log \<Rightarrow> uuid \<Rightarrow> uuid \<Rightarrow> scope_id \<Rightarrow> (audit_error + uuid) \<times> audit_log" where
  "log_proposal_submitted fresh now l proposal agent scope =
     append_built l (builder_build fresh now
       (builder_details (JObject [(''agent_id'', JUuid agent)])
       (builder_scope scope
       (builder_target \<lparr>tg_type = TargetMemoryObject, tg_id = proposal\<rparr>
       (builder_action AgentProposalSubmitted (builder_actor (ActorAgent agent) builder_new))))))"

definition log_proposal_promoted ::
  "uuid \<Rightarrow> instant \<Rightarrow> audit_log \<Rightarrow> uuid \<Rightarrow> actor \<Rightarrow> scope_id \<Rightarrow> (audit_error + uuid) \<times> audit_log" where
  "log_proposal_promoted fresh now l proposal a scope =
     append_built l (builder_build fresh now
       (builder_details (JObject [])
       (builder_scope scope
       (builder_target \<lparr>tg_type = TargetMemoryObject, tg_id = proposal\<rparr>
       (builder_action AgentProposalPromoted (builder_actor a builder_new))))))"

definition log_proposal_rejected ::
  "uuid \<Rightarrow> instant \<Rightarrow> audit_log \<Rightarrow> uuid \<Rightarrow> actor \<Rightarrow> scope_id \<Rightarrow> string \<Rightarrow> (audit_error + uuid) \<times> audit_log" where
  "log_proposal_rejected fresh now l proposal a scope reason =
     append_built l (builder_build fresh now
       (builder_details (JObject [(''reason'', JString reason)])
       (builder_scope scope
       (builder_target \<lparr>tg_type = TargetMemoryObject, tg_id = proposal\<rparr>
       (builder_action AgentProposalRejected (builder_actor a builder_new))))))"

lemmas [defs_audit] = builder_new_def builder_actor_def builder_action_def builder_target_def
  builder_scope_def builder_details_def builder_timestamp_def builder_build_def append_built_def


section \<open>The indexes are the positions of the entries\<close>

definition positions :: "(audit_entry \<Rightarrow> bool) \<Rightarrow> audit_entry list \<Rightarrow> nat list" where
  "positions P es = filter (\<lambda>i. P (es ! i)) [0..<length es]"

definition bucket_of :: "nat list \<Rightarrow> nat list option" where
  "bucket_of ps = (if ps = [] then None else Some ps)"

definition last_of :: "nat list \<Rightarrow> nat option" where
  "last_of ps = (if ps = [] then None else Some (last ps))"

definition indexed :: "audit_log \<Rightarrow> audit_entry list \<Rightarrow> bool" where
  "indexed l es \<longleftrightarrow>
     al_scope_index l = (\<lambda>s. bucket_of (positions (\<lambda>e. ae_scope e = Some s) es)) \<and>
     al_action_index l = (\<lambda>a. bucket_of (positions (\<lambda>e. ae_action e = a) es)) \<and>
     al_actor_index l = (\<lambda>u. bucket_of (positions (\<lambda>e. actor_uuid (ae_actor e) = Some u) es)) \<and>
     al_id_index l = (\<lambda>i. last_of (positions (\<lambda>e. ae_id e = i) es))"

lemma positions_Nil [simp]: "positions P [] = []"
  by (simp add: positions_def)

lemma positions_snoc [simp]:
  "positions P (es @ [e]) = positions P es @ (if P e then [length es] else [])"
  by (auto simp: positions_def nth_append intro!: filter_cong)

lemma set_positions: "set (positions P es) = {i. i < length es \<and> P (es ! i)}"
  by (auto simp: positions_def)

lemma or_empty_bucket [simp]: "or_empty_list (bucket_of ps) = ps"
  by (simp add: bucket_of_def)

lemma bucket_of_snoc [simp]: "bucket_of (ps @ [p]) = Some (ps @ [p])"
  by (simp add: bucket_of_def)

lemma last_of_snoc [simp]: "last_of (ps @ [p]) = Some p"
  by (simp add: last_of_def)

lemma indexed_index_entry:
  assumes "indexed l es"
  shows "indexed (index_entry e (length es) l) (es @ [e])"
  using assms
  by (cases "ae_actor e"; cases "ae_scope e")
     (auto simp: indexed_def index_entry_def bucket_push_def fun_eq_iff)

lemma indexed_unaffected [simp]:
  "indexed (l\<lparr>al_entries := xs\<rparr>) es = indexed l es" "indexed (l\<lparr>al_next := n\<rparr>) es = indexed l es"
  by (simp_all add: indexed_def)

lemma index_entry_keeps [simp]:
  "al_entries (index_entry e p l) = al_entries l" "al_next (index_entry e p l) = al_next l"
  by (simp_all add: index_entry_def)

text \<open>The indexes of a log are determined by the entries they index.\<close>

lemma indexed_unique:
  assumes "indexed l es" "indexed l' es" "al_entries l = al_entries l'" "al_next l = al_next l'"
  shows "l = (l' :: audit_log)"
  using assms by (simp add: indexed_def)

lemma fold_index_entry:
  "indexed l es \<Longrightarrow>
   (let l' = fold (\<lambda>(pos, e). index_entry e pos) (enumerate (length es) xs) l
    in indexed l' (es @ xs) \<and> al_entries l' = al_entries l \<and> al_next l' = al_next l)"
proof (induction xs arbitrary: l es)
  case Nil
  then show ?case by simp
next
  case (Cons x xs)
  show ?case
    using Cons.IH [OF indexed_index_entry [OF Cons.prems, of x]] by (simp add: Let_def)
qed

lemma rebuild_indexes_correct:
  "indexed (rebuild_indexes l) (al_entries l)" "al_entries (rebuild_indexes l) = al_entries l"
  "al_next (rebuild_indexes l) = al_next l"
proof -
  define l0 where "l0 = l\<lparr>al_scope_index := Map.empty, al_action_index := Map.empty,
    al_actor_index := Map.empty, al_id_index := Map.empty\<rparr>"
  have "indexed l0 []" by (simp add: indexed_def l0_def bucket_of_def last_of_def)
  from fold_index_entry [OF this, of "al_entries l"]
  show "indexed (rebuild_indexes l) (al_entries l)" "al_entries (rebuild_indexes l) = al_entries l"
    "al_next (rebuild_indexes l) = al_next l"
    by (simp_all add: rebuild_indexes_def l0_def Let_def)
qed

section \<open>Runs of a log\<close>

datatype audit_step = DoAppend audit_entry | DoReplay audit_entry | DoReload

fun audit_exec :: "audit_step \<Rightarrow> audit_log \<Rightarrow> audit_log" where
  "audit_exec (DoAppend e) l = snd (audit_append e l)"
| "audit_exec (DoReplay e) l = (case replay_persisted e l of Inl _ \<Rightarrow> l | Inr l' \<Rightarrow> l')"
| "audit_exec DoReload l = audit_deserialize (audit_serialize l)"

definition audit_run :: "audit_step list \<Rightarrow> audit_log \<Rightarrow> audit_log" where
  "audit_run ops l = fold audit_exec ops l"

abbreviation audit_inv :: "audit_log \<Rightarrow> bool" where
  "audit_inv l \<equiv> indexed l (al_entries l)"

lemma audit_append_effect:
  "al_entries (snd (audit_append e l)) = al_entries l @ [e\<lparr>ae_sequence := al_next l\<rparr>]"
  "al_next (snd (audit_append e l)) = sat_add (al_next l) 1"
  "fst (audit_append e l) = ae_id e"
  by (simp_all add: audit_append_def Let_def)

lemma audit_append_inv: "audit_inv l \<Longrightarrow> audit_inv (snd (audit_append e l))"
  using indexed_index_entry [of "l\<lparr>al_next := sat_add (al_next l) 1\<rparr>" "al_entries l"]
  by (simp add: audit_append_def Let_def)

text \<open>A replay that is accepted is an append of an entry already stamped with its number.\<close>

lemma replay_persisted_append:
  "replay_persisted e l =
     (if ae_sequence e = al_next l then Inr (snd (audit_append e l))
      else Inl (AuditPersistence ''replayed audit entry sequence is not contiguous with next_sequence''))"
  unfolding replay_persisted_def audit_append_def Let_def by (cases e) auto

lemma audit_deserialize_inv:
  "audit_inv (audit_deserialize w)" "al_entries (audit_deserialize w) = fst w"
  "al_next (audit_deserialize w) = snd w"
  using rebuild_indexes_correct [of "audit_new\<lparr>al_entries := fst w, al_next := snd w\<rparr>"]
  by (simp_all add: audit_deserialize_def)

lemma audit_reload_id: "audit_inv l \<Longrightarrow> audit_deserialize (audit_serialize l) = l"
  using audit_deserialize_inv [of "audit_serialize l"]
  by (intro indexed_unique [where es = "al_entries l"]) (simp_all add: audit_serialize_def)

lemma audit_exec_inv: "audit_inv l \<Longrightarrow> audit_inv (audit_exec op l)"
  by (cases op) (simp_all add: audit_append_inv replay_persisted_append audit_reload_id)

lemma audit_run_inv: "audit_inv l \<Longrightarrow> audit_inv (audit_run ops l)"
  by (induction ops arbitrary: l) (simp_all add: audit_run_def audit_exec_inv)

lemma audit_new_inv: "audit_inv audit_new"
  by (simp add: indexed_def audit_new_def bucket_of_def last_of_def)

section \<open>Queries\<close>

lemma intersect_sets_eq: "intersect_sets acc ss = {i \<in> acc. \<forall>s \<in> set ss. i \<in> set s}"
  by (induction ss arbitrary: acc) (auto simp: Let_def)

lemma fold_union_positions:
  "fold (\<lambda>a u. case f a of Some ps \<Rightarrow> u \<union> set ps | None \<Rightarrow> u) as U
     = U \<union> (\<Union>a \<in> set as. set (or_empty_list (f a)))"
  by (induction as arbitrary: U) (auto split: option.split)

lemma actor_test_uuid:
  "(case ae_actor e of ActorUser i \<Rightarrow> i = a | ActorAgent i \<Rightarrow> i = a | ActorSystem \<Rightarrow> False)
     \<longleftrightarrow> actor_uuid (ae_actor e) = Some a"
  by (cases "ae_actor e") auto

text \<open>The candidates of a query are the positions that pass its indexed conditions.\<close>

definition indexed_conditions :: "audit_query \<Rightarrow> audit_entry \<Rightarrow> bool" where
  "indexed_conditions q e \<longleftrightarrow>
     (\<forall>s. aq_scope q = Some s \<longrightarrow> ae_scope e = Some s) \<and>
     (aq_actions q \<noteq> [] \<longrightarrow> ae_action e \<in> set (aq_actions q)) \<and>
     (\<forall>a. aq_actor q = Some a \<longrightarrow> actor_uuid (ae_actor e) = Some a)"

lemma query_matches_conditions: "query_matches q e \<Longrightarrow> indexed_conditions q e"
  by (auto simp: query_matches_def indexed_conditions_def actor_test_uuid split: if_splits option.splits)

lemma sorted_list_of_positions:
  "sorted_list_of_set {i. i < n \<and> P i} = filter P [0..<n]"
proof -
  have "sorted_list_of_set (set (filter P [0..<n])) = filter P [0..<n]"
    by (rule sorted_list_of_set.idem_if_sorted_distinct) (simp_all add: sorted_wrt_filter)
  moreover have "set (filter P [0..<n]) = {i. i < n \<and> P i}" by auto
  ultimately show ?thesis by simp
qed

lemma intersect_with_sets:
  "intersect_with l seed extra a = sorted_list_of_set (intersect_sets (set seed) extra \<inter>
     (case a of None \<Rightarrow> UNIV | Some u \<Rightarrow> set (or_empty_list (al_actor_index l u))))"
  by (auto simp: intersect_with_def Let_def split: option.split)

lemma intersect_with_eq:
  assumes "audit_inv l"
  shows "intersect_with l seed extra a =
     sorted_list_of_set {i \<in> set seed. (\<forall>s \<in> set extra. i \<in> set s) \<and>
       (\<forall>u. a = Some u \<longrightarrow> i \<in> set (positions (\<lambda>e. actor_uuid (ae_actor e) = Some u) (al_entries l)))}"
  unfolding intersect_with_sets intersect_sets_eq using assms
  by (intro arg_cong [where f = sorted_list_of_set]) (auto simp: indexed_def split: option.splits)

lemma action_candidates:
  assumes "audit_inv l"
  shows "fold (\<lambda>action u. case al_action_index l action of
                Some ps \<Rightarrow> u \<union> set ps | None \<Rightarrow> u) as {}
     = {i. i < length (al_entries l) \<and> ae_action (al_entries l ! i) \<in> set as}"
  unfolding fold_union_positions using assms by (auto simp: indexed_def set_positions)

lemma candidate_positions_correct:
  assumes "audit_inv l" "candidate_positions l q = Some ps"
  shows "ps = positions (indexed_conditions q) (al_entries l)"
proof (cases "aq_actions q = []")
  case False
  then have "ps = intersect_with l (sorted_list_of_set
        {i. i < length (al_entries l) \<and> ae_action (al_entries l ! i) \<in> set (aq_actions q)})
      (case aq_scope q of Some s \<Rightarrow> [or_empty_list (al_scope_index l s)] | None \<Rightarrow> []) (aq_actor q)"
    using assms by (simp add: candidate_positions_def Let_def action_candidates)
  also have "\<dots> = sorted_list_of_set {i. i < length (al_entries l) \<and> indexed_conditions q (al_entries l ! i)}"
    using assms(1) False unfolding intersect_with_eq [OF assms(1)]
    by (intro arg_cong [where f = sorted_list_of_set], cases "aq_scope q")
       (auto simp: indexed_def indexed_conditions_def set_positions sorted_list_of_positions)
  finally show ?thesis by (simp add: sorted_list_of_positions positions_def)
next
  case True
  define sets where "sets =
    (case aq_scope q of Some s \<Rightarrow> [or_empty_list (al_scope_index l s)] | None \<Rightarrow> []) @
    (case aq_actor q of Some a \<Rightarrow> [or_empty_list (al_actor_index l a)] | None \<Rightarrow> [])"
  have cand: "candidate_positions l q = (case sort_key length sets of [] \<Rightarrow> None
      | smallest # rest \<Rightarrow> Some (sorted_list_of_set (intersect_sets (set smallest) rest)))"
    using True by (simp add: candidate_positions_def sets_def Let_def split: option.splits)
  obtain smallest rest where sorted: "sort_key length sets = smallest # rest"
    using assms(2) cand by (cases "sort_key length sets") auto
  then have members: "set sets = insert smallest (set rest)" by (metis list.simps(15) set_sort)
  have "ps = sorted_list_of_set {i. \<forall>s \<in> set sets. i \<in> set s}"
    using assms(2) cand sorted by (auto simp: intersect_sets_eq members intro!: arg_cong [where f = sorted_list_of_set])
  also have "\<dots> = sorted_list_of_set {i. i < length (al_entries l) \<and> indexed_conditions q (al_entries l ! i)}"
  proof (intro arg_cong [where f = sorted_list_of_set])
    have "sets \<noteq> []" using members by auto
    then show "{i. \<forall>s \<in> set sets. i \<in> set s}
        = {i. i < length (al_entries l) \<and> indexed_conditions q (al_entries l ! i)}"
      using assms(1) True unfolding sets_def
      by (cases "aq_scope q"; cases "aq_actor q") (auto simp: indexed_def indexed_conditions_def set_positions)
  qed
  finally show ?thesis by (simp add: sorted_list_of_positions positions_def)
qed

lemma those_entry_at:
  "\<forall>p \<in> set ps. p < length es \<Longrightarrow> those (map (entry_at es) ps) = Some (map ((!) es) ps)"
  by (induction ps) (simp_all add: entry_at_def)

lemma filter_positions:
  assumes "\<And>e. Q e \<Longrightarrow> P e"
  shows "filter Q (map ((!) es) (positions P es)) = filter Q es"
proof -
  have "filter Q (map ((!) es) (positions P es)) = map ((!) es) (filter (\<lambda>i. Q (es ! i)) [0..<length es])"
    by (auto simp: positions_def filter_map o_def intro!: arg_cong [where f = "map ((!) es)"] filter_cong dest: assms)
  also have "\<dots> = filter Q (map ((!) es) [0..<length es])" by (simp add: filter_map o_def)
  finally show ?thesis by (simp add: map_nth)
qed

lemma audit_query_run_correct:
  assumes "audit_inv l"
  shows "audit_query_run l q = Some (filter (query_matches q) (al_entries l))"
proof (cases "candidate_positions l q")
  case (Some ps)
  then have "ps = positions (indexed_conditions q) (al_entries l)"
    using assms candidate_positions_correct by blast
  then show ?thesis
    using Some by (simp add: audit_query_run_def those_entry_at set_positions filter_positions
        query_matches_conditions)
qed (simp add: audit_query_run_def)

section \<open>Lookup, numbering, append-only\<close>

lemma find_rev_positions:
  "find P (rev es) = map_option ((!) es) (last_of (positions P es))"
  by (induction es rule: rev_induct) (auto simp: nth_append last_of_def set_positions dest!: last_in_set)

lemma audit_get_correct:
  assumes "audit_inv l"
  shows "audit_get l i = Some (find (\<lambda>e. ae_id e = i) (rev (al_entries l)))"
proof -
  have "last ps < length (al_entries l)" if "ps = positions (\<lambda>e. ae_id e = i) (al_entries l)" "ps \<noteq> []" for ps
    using that last_in_set [of ps] by (simp add: set_positions)
  then show ?thesis
    using assms unfolding find_rev_positions
    by (simp add: audit_get_def indexed_def last_of_def entry_at_def split: option.split)
qed

text \<open>The numbering: the n-th entry carries n, held at the largest \<^verbatim>\<open>u64\<close> past it.\<close>

definition numbered :: "audit_log \<Rightarrow> bool" where
  "numbered l \<longleftrightarrow>
     map ae_sequence (al_entries l) = map (\<lambda>i. min i u64_max) [0..<length (al_entries l)] \<and>
     al_next l = min (length (al_entries l)) u64_max"

lemma numbered_append: "numbered l \<Longrightarrow> numbered (snd (audit_append e l))"
  by (auto simp: numbered_def audit_append_effect sat_add_def)

lemma numbered_exec: "numbered l \<Longrightarrow> numbered (audit_exec op l)"
  by (cases op)
     (simp_all add: numbered_append replay_persisted_append,
      simp add: numbered_def audit_deserialize_inv audit_serialize_def)

lemma numbered_run: "numbered l \<Longrightarrow> numbered (audit_run ops l)"
  by (induction ops arbitrary: l) (simp_all add: audit_run_def numbered_exec)

lemma audit_exec_extends: "\<exists>xs. al_entries (audit_exec op l) = al_entries l @ xs"
  by (cases op)
     (auto simp: replay_persisted_append audit_append_effect audit_deserialize_inv audit_serialize_def)

lemma audit_run_extends: "\<exists>xs. al_entries (audit_run ops l) = al_entries l @ xs"
proof (induction ops arbitrary: l)
  case (Cons op ops)
  obtain xs where "al_entries (audit_exec op l) = al_entries l @ xs"
    using audit_exec_extends by blast
  then show ?case using Cons.IH [of "audit_exec op l"] by (auto simp: audit_run_def)
qed (simp add: audit_run_def)

text \<open>
  The event helpers never fail: the builder they fill is complete, so each appends exactly one
  entry with the actor, action, target, scope and clock reading it was given and returns its id.
\<close>

lemma append_built_complete:
  assumes "ab_actor b = Some a" "ab_action b = Some act" "ab_target b = Some t"
  shows "\<exists>e. append_built l (builder_build fresh now b) = (Inr fresh, snd (audit_append e l)) \<and>
    ae_id e = fresh \<and> ae_actor e = a \<and> ae_action e = act \<and> ae_target e = t \<and> ae_scope e = ab_scope b"
proof -
  define e where "e = \<lparr>ae_id = fresh, ae_sequence = 0,
    ae_timestamp = (case ab_timestamp b of Some ts \<Rightarrow> ts | None \<Rightarrow> now), ae_actor = a, ae_action = act,
    ae_target = t, ae_scope = ab_scope b, ae_details = (case ab_details b of Some d \<Rightarrow> d | None \<Rightarrow> JNull)\<rparr>"
  have "builder_build fresh now b = Inr e" using assms by (simp add: builder_build_def e_def)
  moreover have "audit_append e l = (fresh, snd (audit_append e l))"
    using audit_append_effect(3) [of e l] by (simp add: prod_eq_iff e_def)
  ultimately show ?thesis by (intro exI [of _ e]) (auto simp: append_built_def e_def split: prod.splits)
qed

section \<open>Properties\<close>

text \<open>
  C3. A query through the secondary indexes (smallest candidate set first, intersections, early
  exits) returns exactly the entries a linear scan with the query's predicate returns, in
  insertion order, and never indexes out of range: for every query on every log obtained from an
  arbitrary deserialised log by any sequence of appends, replays and reloads.
\<close>

theorem audit_query_is_filter:
  "audit_query_run (audit_run ops (audit_deserialize wire)) q
     = Some (filter (query_matches q) (al_entries (audit_run ops (audit_deserialize wire))))"
  by (rule audit_query_run_correct, rule audit_run_inv, rule audit_deserialize_inv)

text \<open>
  The log is append-only and its numbering is contiguous: from the empty log, after any
  operations, the n-th entry carries the sequence number n (held at the largest 64-bit value),
  the counter is the length, and further operations only add entries at the end.
\<close>

theorem audit_log_append_only_numbered:
  "map ae_sequence (al_entries (audit_run ops audit_new))
     = map (\<lambda>i. min i u64_max) [0..<audit_len (audit_run ops audit_new)] \<and>
   peek_next_sequence (audit_run ops audit_new) = min (audit_len (audit_run ops audit_new)) u64_max \<and>
   (\<exists>xs. al_entries (audit_run (ops @ ops') audit_new) = al_entries (audit_run ops audit_new) @ xs)"
proof -
  have "numbered audit_new" by (simp add: numbered_def audit_new_def)
  from numbered_run [OF this, of ops] audit_run_extends [of ops' "audit_run ops audit_new"]
  show ?thesis by (simp add: numbered_def audit_len_def peek_next_sequence_def audit_run_def)
qed

text \<open>
  Lookup by id never panics and returns the latest entry with that id; right after an append
  it returns the appended entry with its assigned number, and other ids are unaffected.
\<close>

theorem audit_get_after_append:
  "audit_get (snd (audit_append e (audit_run ops audit_new))) i =
     (if i = ae_id e then Some (Some (e\<lparr>ae_sequence := peek_next_sequence (audit_run ops audit_new)\<rparr>))
      else audit_get (audit_run ops audit_new) i) \<and>
   audit_get (audit_run ops audit_new) i
     = Some (find (\<lambda>x. ae_id x = i) (rev (al_entries (audit_run ops audit_new))))"
proof -
  have "audit_inv (audit_run ops audit_new)" by (simp add: audit_run_inv audit_new_inv)
  then show ?thesis
    using audit_append_inv [of "audit_run ops audit_new" e]
    by (simp add: audit_get_correct audit_append_effect peek_next_sequence_def)
qed

text \<open>
  Serialising a log and reading it back gives the same log, secondary indexes included.
\<close>

theorem audit_serialize_roundtrip:
  "audit_deserialize (audit_serialize (audit_run ops (audit_deserialize wire)))
     = audit_run ops (audit_deserialize wire)"
  by (rule audit_reload_id, rule audit_run_inv, rule audit_deserialize_inv)

text \<open>
  The event helpers never fail: each appends exactly one entry, for the given actor, with
  its own action type, target and scope, and returns the new entry's id.
\<close>

theorem audit_helpers_append_one:
  "(\<exists>e. log_export fresh now l profile scope a concepts = (Inr fresh, snd (audit_append e l)) \<and>
      ae_id e = fresh \<and> ae_actor e = a \<and> ae_action e = ExportRendered \<and>
      ae_target e = \<lparr>tg_type = TargetExportProfile, tg_id = profile\<rparr> \<and> ae_scope e = Some scope) \<and>
   (\<exists>e. log_export_simulated fresh now l profile scope a m k = (Inr fresh, snd (audit_append e l)) \<and>
      ae_id e = fresh \<and> ae_actor e = a \<and> ae_action e = ExportSimulated \<and>
      ae_target e = \<lparr>tg_type = TargetExportProfile, tg_id = profile\<rparr> \<and> ae_scope e = Some scope) \<and>
   (\<exists>e. log_proposal_submitted fresh now l proposal agent scope = (Inr fresh, snd (audit_append e l)) \<and>
      ae_id e = fresh \<and> ae_actor e = ActorAgent agent \<and> ae_action e = AgentProposalSubmitted \<and>
      ae_target e = \<lparr>tg_type = TargetMemoryObject, tg_id = proposal\<rparr> \<and> ae_scope e = Some scope) \<and>
   (\<exists>e. log_proposal_promoted fresh now l proposal a scope = (Inr fresh, snd (audit_append e l)) \<and>
      ae_id e = fresh \<and> ae_actor e = a \<and> ae_action e = AgentProposalPromoted \<and>
      ae_target e = \<lparr>tg_type = TargetMemoryObject, tg_id = proposal\<rparr> \<and> ae_scope e = Some scope) \<and>
   (\<exists>e. log_proposal_rejected fresh now l proposal a scope reason = (Inr fresh, snd (audit_append e l)) \<and>
      ae_id e = fresh \<and> ae_actor e = a \<and> ae_action e = AgentProposalRejected \<and>
      ae_target e = \<lparr>tg_type = TargetMemoryObject, tg_id = proposal\<rparr> \<and> ae_scope e = Some scope)"
  unfolding log_export_def log_export_simulated_def log_proposal_submitted_def
    log_proposal_promoted_def log_proposal_rejected_def
  by (intro conjI; rule ex_forward [OF append_built_complete])
     (auto simp: builder_actor_def builder_action_def builder_target_def builder_scope_def
        builder_details_def builder_new_def)

end
