(* ===== verification/Audit_Persist.thy ===== *)
theory Audit_Persist
  imports Audit_Log
begin

text \<open>
  The durable audit log of \<^verbatim>\<open>crates/audit_service/src/persist.rs\<close>: the encrypted table as a list
  of rows with its two uniqueness constraints, opening, persist-first appending and rehydration,
  every database call free to fail. The database engine, the cipher and the JSON codec are
  parameters; a run of appends with failures anywhere rehydrates to the log in memory.
\<close>

section \<open>Rows\<close>

record audit_row =
  ar_id :: "byte list"
  ar_sequence :: int
  ar_action_type :: string
  ar_actor_type :: string
  ar_actor_id :: string
  ar_target_type :: "string option"
  ar_target_id :: "string option"
  ar_scope_id :: "byte list option"
  ar_created_at :: int
  ar_nonce :: "byte list"
  ar_payload :: "byte list"

definition slice_to_uuid :: "byte list \<Rightarrow> audit_error + uuid" where
  "slice_to_uuid b =
     (if length b \<noteq> 16 then Inl (AuditPersistence ''uuid column has wrong width'')
      else Inr (of_nat (le_value (rev b))))"

definition slice_to_nonce :: "byte list \<Rightarrow> audit_error + byte list" where
  "slice_to_nonce b =
     (if length b \<noteq> aead_nonce_len then Inl (AuditPersistence ''nonce column has wrong width'')
      else Inr b)"

fun actor_tags :: "crypto_lib \<Rightarrow> actor \<Rightarrow> string \<times> string" where
  "actor_tags lib (ActorUser i) = (''user'', uuid_display lib i)"
| "actor_tags lib (ActorAgent i) = (''agent'', uuid_display lib i)"
| "actor_tags lib ActorSystem = (''system'', [])"

definition entry_aad :: "uuid \<Rightarrow> int \<Rightarrow> byte list" where
  "entry_aad i sequence =
     string_bytes ''audit_entry:v1:'' @ uuid_bytes i @ le_bytes 8 (nat (sequence mod 2 ^ 64))"

definition seq_to_i64 :: "nat \<Rightarrow> audit_error + int" where
  "seq_to_i64 seq =
     (if seq < 2 ^ 63 then Inr (int seq)
      else Inl (AuditPersistence ''audit-log sequence overflows i64'')) "

definition i64_to_seq :: "int \<Rightarrow> audit_error + nat" where
  "i64_to_seq seq =
     (if seq < 0 then Inl (AuditPersistence ''audit-log sequence column is negative'')
      else Inr (nat seq))"

text \<open>\<^verbatim>\<open>timestamp_millis\<close> of an instant counted in nanoseconds.\<close>

definition timestamp_millis :: "instant \<Rightarrow> int" where
  "timestamp_millis t = t div 1000000"

section \<open>The database\<close>

text \<open>
  The calls into the database engine, each of which may fail: \<open>io c\<close> says whether call \<open>c\<close>
  succeeds this time; \<open>StepRow k\<close> fetches the k-th row of a query. Error messages are kept up to their
  first dash.
\<close>

datatype db_call =
    OpenConn | SetKey | SetPageSize | SetKdfIter | ProbeKey | ReadVersion | RunSchema | WriteVersion
  | PrepareSelect | RunSelect | StepRow nat | RunInsert | RunCount

type_synonym db_io = "db_call \<Rightarrow> bool"

record audit_db =
  db_rows :: "audit_row list"
  db_version :: int

definition schema_version :: int where
  "schema_version = 1"

record persistent_audit_log =
  pl_log :: audit_log
  pl_db :: audit_db
  pl_payload_key :: "byte list"
  pl_master_key :: "byte list"

text \<open>\<^verbatim>\<open>INSERT\<close> into the table: \<^verbatim>\<open>id\<close> is the primary key and \<^verbatim>\<open>sequence\<close> is unique.\<close>

definition insert_row :: "db_io \<Rightarrow> audit_row \<Rightarrow> audit_db \<Rightarrow> audit_error + audit_db" where
  "insert_row io r db =
     (if \<not> io RunInsert \<or> ar_id r \<in> ar_id ` set (db_rows db)
         \<or> ar_sequence r \<in> ar_sequence ` set (db_rows db)
      then Inl AuditSqlite
      else Inr (db\<lparr>db_rows := db_rows db @ [r]\<rparr>))"

section \<open>Operations\<close>

definition audit_persist ::
  "crypto_lib \<Rightarrow> (audit_entry \<Rightarrow> byte list option) \<Rightarrow> db_io \<Rightarrow> byte list \<Rightarrow> audit_entry
     \<Rightarrow> persistent_audit_log \<Rightarrow> audit_error + persistent_audit_log" where
  "audit_persist lib to_vec io nonce e p =
     (case to_vec e of
        None \<Rightarrow> Inl (AuditPersistence ''audit entry payload could not be serialised'')
      | Some payload \<Rightarrow>
          (case seq_to_i64 (ae_sequence e) of
             Inl err \<Rightarrow> Inl err
           | Inr sequence \<Rightarrow>
               (case encrypt_aead lib (pl_payload_key p) nonce payload (entry_aad (ae_id e) sequence) of
                  Inl err \<Rightarrow> Inl (AuditCrypto err)
                | Inr ct \<Rightarrow>
                    (case insert_row io
                        \<lparr>ar_id = uuid_bytes (ae_id e), ar_sequence = sequence,
                         ar_action_type = audit_action_as_str (ae_action e),
                         ar_actor_type = fst (actor_tags lib (ae_actor e)),
                         ar_actor_id = snd (actor_tags lib (ae_actor e)),
                         ar_target_type = Some (target_type_as_str (tg_type (ae_target e))),
                         ar_target_id = Some (uuid_display lib (tg_id (ae_target e))),
                         ar_scope_id = map_option uuid_bytes (ae_scope e),
                         ar_created_at = timestamp_millis (ae_timestamp e),
                         ar_nonce = nonce, ar_payload = ct\<rparr> (pl_db p) of
                       Inl err \<Rightarrow> Inl err
                     | Inr db \<Rightarrow> Inr (p\<lparr>pl_db := db\<rparr>)))))"

definition persistent_append ::
  "crypto_lib \<Rightarrow> (audit_entry \<Rightarrow> byte list option) \<Rightarrow> db_io \<Rightarrow> byte list \<Rightarrow> audit_entry
     \<Rightarrow> persistent_audit_log \<Rightarrow> (audit_error + uuid) \<times> persistent_audit_log" where
  "persistent_append lib to_vec io nonce entry p =
     (let e = entry\<lparr>ae_sequence := peek_next_sequence (pl_log p)\<rparr>
      in (case audit_persist lib to_vec io nonce e p of
            Inl err \<Rightarrow> (Inl err, p)
          | Inr p1 \<Rightarrow>
              (case replay_persisted e (pl_log p1) of
                 Inl err \<Rightarrow> (Inl err, p1)
               | Inr l \<Rightarrow> (Inr (ae_id e), p1\<lparr>pl_log := l\<rparr>))))"

definition persisted_count :: "db_io \<Rightarrow> persistent_audit_log \<Rightarrow> audit_error + nat" where
  "persisted_count io p =
     (if \<not> io RunCount then Inl AuditSqlite else Inr (length (db_rows (pl_db p))))"

text \<open>
  The row-reading loop of \<open>load_all\<close>: fetch the next row, decode its columns; the first failing
  fetch or malformed row stops it.
\<close>

fun decode_rows ::
  "db_io \<Rightarrow> nat \<Rightarrow> audit_row list \<Rightarrow> audit_error + (uuid \<times> int \<times> byte list \<times> byte list) list" where
  "decode_rows io k [] = (if io (StepRow k) then Inr [] else Inl AuditSqlite)"
| "decode_rows io k (r # rs) =
     (if \<not> io (StepRow k) then Inl AuditSqlite
      else (case slice_to_uuid (ar_id r) of
              Inl err \<Rightarrow> Inl err
            | Inr i \<Rightarrow>
                (case slice_to_nonce (ar_nonce r) of
                   Inl err \<Rightarrow> Inl err
                 | Inr n \<Rightarrow>
                     (case decode_rows io (Suc k) rs of
                        Inl err \<Rightarrow> Inl err
                      | Inr out \<Rightarrow> Inr ((i, ar_sequence r, n, ar_payload r) # out)))))"

text \<open>The replay loop; on an error the log holds what was replayed so far.\<close>

fun replay_rows ::
  "crypto_lib \<Rightarrow> (byte list \<Rightarrow> audit_entry option) \<Rightarrow> byte list
     \<Rightarrow> (uuid \<times> int \<times> byte list \<times> byte list) list \<Rightarrow> audit_log \<Rightarrow> (audit_error + unit) \<times> audit_log" where
  "replay_rows lib from_slice key [] l = (Inr (), l)"
| "replay_rows lib from_slice key ((i, sequence, nonce, ct) # rs) l =
     (case decrypt_aead lib key nonce ct (entry_aad i sequence) of
        Inl err \<Rightarrow> (Inl (AuditCrypto err), l)
      | Inr pt \<Rightarrow>
          (case from_slice pt of
             None \<Rightarrow> (Inl (AuditPersistence ''audit entry payload is not valid JSON''), l)
           | Some e \<Rightarrow>
               if ae_id e \<noteq> i
               then (Inl (AuditPersistence ''audit entry id/sequence does not match its row''), l)
               else (case i64_to_seq sequence of
                       Inl err \<Rightarrow> (Inl err, l)
                     | Inr s \<Rightarrow>
                         if s \<noteq> ae_sequence e
                         then (Inl (AuditPersistence ''audit entry id/sequence does not match its row''), l)
                         else (case replay_persisted e l of
                                 Inl err \<Rightarrow> (Inl err, l)
                               | Inr l' \<Rightarrow> replay_rows lib from_slice key rs l'))))"

definition audit_load_all ::
  "crypto_lib \<Rightarrow> (byte list \<Rightarrow> audit_entry option) \<Rightarrow> db_io \<Rightarrow> persistent_audit_log
     \<Rightarrow> (audit_error + unit) \<times> persistent_audit_log" where
  "audit_load_all lib from_slice io p =
     (if \<not> io PrepareSelect \<or> \<not> io RunSelect then (Inl AuditSqlite, p)
      else (case decode_rows io 0 (sort_key ar_sequence (db_rows (pl_db p))) of
              Inl err \<Rightarrow> (Inl err, p)
            | Inr rows \<Rightarrow>
                (case replay_rows lib from_slice (pl_payload_key p) rows audit_new of
                   (r, l) \<Rightarrow> (r, p\<lparr>pl_log := l\<rparr>))))"

definition audit_open ::
  "crypto_lib \<Rightarrow> (byte list \<Rightarrow> audit_entry option) \<Rightarrow> db_io \<Rightarrow> audit_db \<Rightarrow> byte list
     \<Rightarrow> audit_error + persistent_audit_log" where
  "audit_open lib from_slice io db master_key =
     (if \<not> io OpenConn then Inl AuditSqlite
      else (case derive_key lib master_key (string_bytes ''sqlcipher:audit:v1'') of
        Inl err \<Rightarrow> Inl (AuditCrypto err)
      | Inr page_key \<Rightarrow>
          if \<not> io SetKey \<or> \<not> io SetPageSize \<or> \<not> io SetKdfIter then Inl AuditSqlite
          else if \<not> io ProbeKey
          then Inl (AuditPersistence ''SQLCipher key did not unlock the database'')
          else (let existing_version = (if io ReadVersion then db_version db else 0)
            in if existing_version \<noteq> 0 \<and> existing_version \<noteq> schema_version
               then Inl (AuditPersistence ''schema version mismatch'')
               else if \<not> io RunSchema \<or> \<not> io WriteVersion then Inl AuditSqlite
               else (case derive_key lib master_key (string_bytes ''audit_entry:v1'') of
                  Inl err \<Rightarrow> Inl (AuditCrypto err)
                | Inr payload_key \<Rightarrow>
                    (case audit_load_all lib from_slice io
                            \<lparr>pl_log = audit_new, pl_db = db\<lparr>db_version := schema_version\<rparr>,
                             pl_payload_key = payload_key, pl_master_key = master_key\<rparr> of
                       (Inl err, _) \<Rightarrow> Inl err
                     | (Inr _, p) \<Rightarrow> Inr p)))))"


section \<open>Columns round-trip\<close>

lemma slice_to_uuid_bytes [simp]: "slice_to_uuid (uuid_bytes u) = Inr u"
  by (simp add: slice_to_uuid_def)

section \<open>The table mirrors the log\<close>

definition row_for ::
  "crypto_lib \<Rightarrow> (audit_entry \<Rightarrow> byte list option) \<Rightarrow> byte list \<Rightarrow> audit_row \<Rightarrow> audit_entry \<Rightarrow> bool" where
  "row_for lib to_vec key r e \<longleftrightarrow>
     ar_id r = uuid_bytes (ae_id e) \<and> ar_sequence r = int (ae_sequence e) \<and>
     length (ar_nonce r) = aead_nonce_len \<and>
     (\<exists>payload. to_vec e = Some payload \<and>
        encrypt_aead lib key (ar_nonce r) payload (entry_aad (ae_id e) (ar_sequence r)) = Inr (ar_payload r))"

definition mirrored ::
  "crypto_lib \<Rightarrow> (audit_entry \<Rightarrow> byte list option) \<Rightarrow> persistent_audit_log \<Rightarrow> bool" where
  "mirrored lib to_vec p \<longleftrightarrow>
     list_all2 (row_for lib to_vec (pl_payload_key p)) (db_rows (pl_db p)) (al_entries (pl_log p)) \<and>
     audit_inv (pl_log p) \<and>
     map ae_sequence (al_entries (pl_log p)) = [0..<length (al_entries (pl_log p))] \<and>
     al_next (pl_log p) = length (al_entries (pl_log p)) \<and> length (al_entries (pl_log p)) \<le> 2 ^ 63"

definition append_all :: "audit_entry list \<Rightarrow> audit_log \<Rightarrow> audit_log" where
  "append_all es l = fold (\<lambda>e l. snd (audit_append e l)) es l"

lemma append_all_inv: "audit_inv l \<Longrightarrow> audit_inv (append_all es l)"
  by (induction es arbitrary: l) (simp_all add: append_all_def audit_append_inv)

lemma entry_stamp_same: "ae_sequence e = n \<Longrightarrow> e\<lparr>ae_sequence := n\<rparr> = (e :: audit_entry)"
  by (cases e) simp

lemma append_all_numbered:
  "map ae_sequence es = [al_next l..<al_next l + length es] \<Longrightarrow> al_next l + length es \<le> 2 ^ 63 \<Longrightarrow>
   al_entries (append_all es l) = al_entries l @ es \<and> al_next (append_all es l) = al_next l + length es"
proof (induction es arbitrary: l)
  case (Cons e es)
  let ?l = "snd (audit_append e l)"
  have room: "al_next l < u64_max" using Cons.prems(2) by (simp add: u64_max_def)
  then have step: "al_next ?l = Suc (al_next l)" by (simp add: audit_append_effect)
  have seq: "ae_sequence e = al_next l" "map ae_sequence es = [Suc (al_next l)..<al_next l + length (e # es)]"
    using Cons.prems(1) by (simp_all add: upt_conv_Cons del: upt_Suc)
  have "al_entries (append_all es ?l) = al_entries ?l @ es \<and> al_next (append_all es ?l) = al_next ?l + length es"
    using Cons.prems(2) seq(2) by (intro Cons.IH) (simp_all add: step)
  then show ?case using seq(1) room by (simp add: append_all_def audit_append_effect entry_stamp_same)
qed (simp add: append_all_def)

lemma replay_rows_restores:
  assumes "aead_ok lib" "codec_ok to_vec from_slice"
  shows "list_all2 (row_for lib to_vec key) rs es \<Longrightarrow> \<forall>k. io (StepRow k) \<Longrightarrow>
     map ae_sequence es = [al_next l..<al_next l + length es] \<Longrightarrow> al_next l + length es \<le> 2 ^ 63 \<Longrightarrow>
     \<exists>rows. decode_rows io k rs = Inr rows \<and>
       replay_rows lib from_slice key rows l = (Inr (), append_all es l)"
proof (induction rs es arbitrary: l k rule: list_all2_induct)
  case Nil
  then show ?case by (simp add: append_all_def)
next
  case (Cons r rs e es)
  let ?l = "snd (audit_append e l)"
  have "al_next l < u64_max" using Cons.prems by (simp add: u64_max_def)
  then have step: "al_next ?l = Suc (al_next l)" by (simp add: audit_append_effect)
  have seq: "ae_sequence e = al_next l" "map ae_sequence es = [Suc (al_next l)..<al_next l + length (e # es)]"
    using Cons.prems(2) by (simp_all add: upt_conv_Cons del: upt_Suc)
  obtain rows where rows: "decode_rows io (Suc k) rs = Inr rows"
    "replay_rows lib from_slice key rows ?l = (Inr (), append_all es ?l)"
    using Cons.IH [of ?l "Suc k"] Cons.prems seq(2) by (auto simp: step)
  obtain payload where payload: "to_vec e = Some payload"
    "encrypt_aead lib key (ar_nonce r) payload (entry_aad (ae_id e) (ar_sequence r)) = Inr (ar_payload r)"
    and cols: "ar_id r = uuid_bytes (ae_id e)" "ar_sequence r = int (ae_sequence e)"
      "length (ar_nonce r) = aead_nonce_len"
    using Cons.hyps(1) by (auto simp: row_for_def)
  have "replay_persisted e l = Inr ?l" by (simp add: replay_persisted_append seq(1))
  then show ?case
    using rows cols Cons.prems(1) decrypt_encrypt_aead [OF assms(1) payload(2)]
      codec_okD [OF assms(2) payload(1)]
    by (simp add: slice_to_nonce_def i64_to_seq_def append_all_def)
qed

section \<open>Runs with failures\<close>

text \<open>A run: each append with its database outcomes and its drawn nonce.\<close>

type_synonym append_call = "db_io \<times> byte list \<times> audit_entry"

definition persistent_run ::
  "crypto_lib \<Rightarrow> (audit_entry \<Rightarrow> byte list option) \<Rightarrow> append_call list \<Rightarrow> persistent_audit_log
     \<Rightarrow> persistent_audit_log" where
  "persistent_run lib to_vec calls p =
     fold (\<lambda>(io, nonce, e) p. snd (persistent_append lib to_vec io nonce e p)) calls p"

lemma audit_persist_cases:
  assumes "audit_persist lib to_vec io nonce e p = Inr p1" "length nonce = aead_nonce_len"
  obtains r where "p1 = p\<lparr>pl_db := (pl_db p)\<lparr>db_rows := db_rows (pl_db p) @ [r]\<rparr>\<rparr>"
    "row_for lib to_vec (pl_payload_key p) r e" "ae_sequence e < 2 ^ 63"
proof -
  obtain payload sequence ct db where st: "to_vec e = Some payload" "seq_to_i64 (ae_sequence e) = Inr sequence"
    "encrypt_aead lib (pl_payload_key p) nonce payload (entry_aad (ae_id e) sequence) = Inr ct"
    and p1: "p1 = p\<lparr>pl_db := db\<rparr>" and ins: "insert_row io
        \<lparr>ar_id = uuid_bytes (ae_id e), ar_sequence = sequence,
         ar_action_type = audit_action_as_str (ae_action e),
         ar_actor_type = fst (actor_tags lib (ae_actor e)), ar_actor_id = snd (actor_tags lib (ae_actor e)),
         ar_target_type = Some (target_type_as_str (tg_type (ae_target e))),
         ar_target_id = Some (uuid_display lib (tg_id (ae_target e))),
         ar_scope_id = map_option uuid_bytes (ae_scope e), ar_created_at = timestamp_millis (ae_timestamp e),
         ar_nonce = nonce, ar_payload = ct\<rparr> (pl_db p) = Inr db"
    using assms(1) unfolding audit_persist_def by (auto split: option.splits sum.splits)
  have "sequence = int (ae_sequence e)" "ae_sequence e < 2 ^ 63"
    using st(2) by (auto simp: seq_to_i64_def split: if_splits)
  then show thesis
    using that p1 ins st assms(2) unfolding insert_row_def
    by (auto simp: row_for_def split: if_splits)
qed

text \<open>A call that fails leaves everything as it was; one that succeeds adds one row and one entry.\<close>

lemma persistent_append_cases:
  assumes "length nonce = aead_nonce_len"
  obtains (failed) err where "persistent_append lib to_vec io nonce e p = (Inl err, p)"
  | (stored) r where "persistent_append lib to_vec io nonce e p =
        (Inr (ae_id e), p\<lparr>pl_db := (pl_db p)\<lparr>db_rows := db_rows (pl_db p) @ [r]\<rparr>,
                          pl_log := snd (audit_append e (pl_log p))\<rparr>)"
      "row_for lib to_vec (pl_payload_key p) r (e\<lparr>ae_sequence := al_next (pl_log p)\<rparr>)"
      "al_next (pl_log p) < 2 ^ 63"
proof (cases "audit_persist lib to_vec io nonce (e\<lparr>ae_sequence := al_next (pl_log p)\<rparr>) p")
  case (Inl err)
  then show ?thesis by (intro failed) (simp add: persistent_append_def peek_next_sequence_def)
next
  case (Inr p1)
  from audit_persist_cases [OF this assms] obtain r where
    r: "p1 = p\<lparr>pl_db := (pl_db p)\<lparr>db_rows := db_rows (pl_db p) @ [r]\<rparr>\<rparr>"
      "row_for lib to_vec (pl_payload_key p) r (e\<lparr>ae_sequence := al_next (pl_log p)\<rparr>)"
      "al_next (pl_log p) < 2 ^ 63" by (auto simp del: of_nat_less_iff)
  have "audit_append (e\<lparr>ae_sequence := al_next (pl_log p)\<rparr>) (pl_log p) = audit_append e (pl_log p)"
    by (simp add: audit_append_def)
  then show ?thesis
    using Inr r by (intro stored [of r])
      (simp_all add: persistent_append_def peek_next_sequence_def replay_persisted_append)
qed

lemma mirrored_append:
  assumes "mirrored lib to_vec p" "length nonce = aead_nonce_len"
  shows "mirrored lib to_vec (snd (persistent_append lib to_vec io nonce e p))"
  using assms(2)
proof (cases rule: persistent_append_cases [of nonce lib to_vec io e p])
  case failed
  then show ?thesis using assms(1) by simp
next
  case (stored r)
  then have "al_next (pl_log p) < u64_max" by (simp add: u64_max_def)
  then show ?thesis
    using stored assms(1) audit_append_inv [of "pl_log p" e, unfolded audit_append_effect]
    by (auto simp: mirrored_def audit_append_effect list_all2_appendI)
qed

lemma mirrored_run:
  "mirrored lib to_vec p \<Longrightarrow> \<forall>c \<in> set calls. length (fst (snd c)) = aead_nonce_len \<Longrightarrow>
   mirrored lib to_vec (persistent_run lib to_vec calls p)"
  by (induction calls arbitrary: p) (auto simp: persistent_run_def mirrored_append)

definition keys_of :: "persistent_audit_log \<Rightarrow> byte list \<times> byte list \<times> int" where
  "keys_of p = (pl_payload_key p, pl_master_key p, db_version (pl_db p))"

lemma persistent_append_keys:
  assumes "length nonce = aead_nonce_len"
  shows "keys_of (snd (persistent_append lib to_vec io nonce e p)) = keys_of p"
  using assms
  by (cases rule: persistent_append_cases [of nonce lib to_vec io e p]) (simp_all add: keys_of_def)

lemma persistent_run_keys:
  "\<forall>c \<in> set calls. length (fst (snd c)) = aead_nonce_len \<Longrightarrow>
   keys_of (persistent_run lib to_vec calls p) = keys_of p"
  by (induction calls arbitrary: p) (auto simp: persistent_run_def persistent_append_keys)

section \<open>Rehydration\<close>

lemma mirrored_rows_sorted:
  assumes "mirrored lib to_vec p"
  shows "sort_key ar_sequence (db_rows (pl_db p)) = db_rows (pl_db p)"
proof -
  have "map ar_sequence (db_rows (pl_db p)) = map (int \<circ> ae_sequence) (al_entries (pl_log p))"
    using assms by (auto simp: mirrored_def row_for_def list_all2_conv_all_nth intro!: nth_equalityI)
  also have "\<dots> = map int [0..<length (al_entries (pl_log p))]"
    using assms by (simp add: mirrored_def flip: map_map)
  finally have "sorted (map ar_sequence (db_rows (pl_db p)))" by (simp add: sorted_map)
  then show ?thesis by (simp add: sorted_sort_id sort_key_id_if_sorted)
qed

lemma mirrored_load_all:
  assumes "aead_ok lib" "codec_ok to_vec from_slice" "mirrored lib to_vec p" "\<forall>c. io c"
  shows "audit_load_all lib from_slice io (p\<lparr>pl_log := l\<rparr>) = (Inr (), p)"
proof -
  let ?es = "al_entries (pl_log p)"
  have new: "al_entries audit_new = []" "al_next audit_new = 0" by (simp_all add: audit_new_def)
  obtain rows where rows: "decode_rows io 0 (db_rows (pl_db p)) = Inr rows"
    "replay_rows lib from_slice (pl_payload_key p) rows audit_new = (Inr (), append_all ?es audit_new)"
    using replay_rows_restores [OF assms(1,2), of "pl_payload_key p" "db_rows (pl_db p)" ?es io audit_new 0]
      assms(3,4) by (auto simp: mirrored_def new)
  have effect: "al_entries (append_all ?es audit_new) = ?es \<and> al_next (append_all ?es audit_new) = length ?es"
    using append_all_numbered [of ?es audit_new] assms(3) by (simp add: new mirrored_def)
  have "append_all ?es audit_new = pl_log p"
    using effect append_all_inv [OF audit_new_inv, of ?es] assms(3)
    by (intro indexed_unique [of _ ?es]) (auto simp: mirrored_def)
  then show ?thesis
    using rows assms(4) by (simp add: audit_load_all_def mirrored_rows_sorted [OF assms(3)])
qed

lemma audit_open_empty:
  assumes "audit_open lib from_slice io \<lparr>db_rows = [], db_version = 0\<rparr> mk = Inr p"
  shows "pl_log p = audit_new \<and> pl_db p = \<lparr>db_rows = [], db_version = schema_version\<rparr> \<and> pl_master_key p = mk
    \<and> derive_key lib mk (string_bytes ''audit_entry:v1'') = Inr (pl_payload_key p)
    \<and> (\<exists>k. derive_key lib mk (string_bytes ''sqlcipher:audit:v1'') = Inr k)"
  using assms unfolding audit_open_def audit_load_all_def Let_def
  by (auto split: if_splits sum.splits)

section \<open>What a successful load certifies\<close>

lemma replay_rows_step:
  assumes "replay_rows lib from_slice key ((i, sequence, nonce, ct) # rs) l = (Inr (), l')"
  obtains e where "ae_id e = i" "sequence = int (al_next l)" "ae_sequence e = al_next l"
    "replay_rows lib from_slice key rs (snd (audit_append e l)) = (Inr (), l')"
  using assms that
  by (auto simp: i64_to_seq_def replay_persisted_append split: sum.splits option.splits if_splits)

lemma replay_rows_certifies:
  "replay_rows lib from_slice key rows l = (Inr (), l') \<Longrightarrow> \<forall>r \<in> set rows. fst (snd r) < 2 ^ 63 \<Longrightarrow>
   \<exists>es. al_entries l' = al_entries l @ es \<and> map fst rows = map ae_id es \<and>
     map (fst \<circ> snd) rows = map (int \<circ> ae_sequence) es \<and>
     map ae_sequence es = [al_next l..<al_next l + length es]"
proof (induction rows arbitrary: l)
  case (Cons row rows)
  obtain i sequence nonce ct where row: "row = (i, sequence, nonce, ct)" by (cases row) auto
  obtain e where e: "ae_id e = i" "sequence = int (al_next l)" "ae_sequence e = al_next l"
    "replay_rows lib from_slice key rows (snd (audit_append e l)) = (Inr (), l')"
    using replay_rows_step Cons.prems(1) row by blast
  have "al_next l < u64_max" using Cons.prems(2) row e(2) by (simp add: u64_max_def)
  then have step: "al_next (snd (audit_append e l)) = Suc (al_next l)" by (simp add: audit_append_effect)
  obtain es where es: "al_entries l' = al_entries (snd (audit_append e l)) @ es" "map fst rows = map ae_id es"
    "map (fst \<circ> snd) rows = map (int \<circ> ae_sequence) es"
    "map ae_sequence es = [Suc (al_next l)..<Suc (al_next l) + length es]"
    using Cons.IH [OF e(4), unfolded step] Cons.prems(2) by (metis list.set_intros(2))
  show ?case
    using e(1-3) es row
    by (intro exI [of _ "e # es"]) (simp add: audit_append_effect entry_stamp_same upt_conv_Cons comp_def del: upt_Suc)
qed simp

lemma decode_rows_columns:
  "decode_rows io k rs = Inr rows \<Longrightarrow>
   map (fst \<circ> snd) rows = map ar_sequence rs \<and> map (Inr \<circ> fst) rows = map (slice_to_uuid \<circ> ar_id) rs"
  by (induction rs arbitrary: k rows) (auto split: if_splits sum.splits)

text \<open>Concrete values for the witnesses: one entry, a codec that knows it, and an opened store.\<close>

definition sample_entry :: audit_entry where
  "sample_entry = \<lparr>ae_id = 7, ae_sequence = 0, ae_timestamp = 0, ae_actor = ActorSystem,
     ae_action = PolicyChange, ae_target = \<lparr>tg_type = TargetPolicy, tg_id = 9\<rparr>, ae_scope = None,
     ae_details = JNull\<rparr>"

definition sample_to_vec :: "audit_entry \<Rightarrow> byte list option" where
  "sample_to_vec e = (if e = sample_entry then Some [1] else None)"

definition sample_from_slice :: "byte list \<Rightarrow> audit_entry option" where
  "sample_from_slice b = (if b = [1] then Some sample_entry else None)"

definition sample_store :: persistent_audit_log where
  "sample_store = \<lparr>pl_log = audit_new, pl_db = \<lparr>db_rows = [], db_version = schema_version\<rparr>,
     pl_payload_key = replicate 32 0, pl_master_key = []\<rparr>"

definition sample_row :: audit_row where
  "sample_row = \<lparr>ar_id = uuid_bytes 7, ar_sequence = 0, ar_action_type = ''policy_change'',
     ar_actor_type = ''system'', ar_actor_id = [], ar_target_type = Some ''policy'', ar_target_id = Some [],
     ar_scope_id = None, ar_created_at = 0, ar_nonce = replicate 24 0,
     ar_payload = replicate 32 0 @ replicate 24 0 @ entry_aad 7 0 @ [1]\<rparr>"

lemma sample_codec_ok: "codec_ok sample_to_vec sample_from_slice"
  by (simp add: codec_ok_def sample_to_vec_def sample_from_slice_def)

lemma tag_lib_derives: "derive_key tag_lib mk ctx = Inr (replicate 32 0)"
  by (simp add: derive_key_def derive_key_with_salt_def tag_lib_def)

lemma sample_opens:
  "audit_open tag_lib sample_from_slice (\<lambda>_. True) \<lparr>db_rows = [], db_version = 0\<rparr> [] = Inr sample_store"
  by (simp add: audit_open_def audit_load_all_def tag_lib_derives sample_store_def)

lemma sample_encrypts:
  "encrypt_aead tag_lib key nonce msg aad = Inr (key @ nonce @ aad @ msg)"
  by (simp add: encrypt_aead_def tag_lib_def)

lemma sample_decrypts:
  "decrypt_aead tag_lib key nonce (key @ nonce @ aad @ msg) aad = Inr msg"
  using decrypt_encrypt_aead [OF tag_lib_ok(1) sample_encrypts] .

lemma sample_stores:
  "persistent_append tag_lib sample_to_vec (\<lambda>_. True) (replicate 24 0) sample_entry sample_store
     = (Inr 7, sample_store\<lparr>pl_db := \<lparr>db_rows = [sample_row], db_version = schema_version\<rparr>,
                            pl_log := snd (audit_append sample_entry audit_new)\<rparr>)"
proof -
  have entry: "ae_id sample_entry = 7" "ae_sequence sample_entry = 0" by (simp_all add: sample_entry_def)
  have stamp: "sample_entry\<lparr>ae_sequence := 0\<rparr> = sample_entry" by (simp add: entry_stamp_same entry)
  have store: "pl_log sample_store = audit_new" "al_next audit_new = 0"
    by (simp_all add: sample_store_def audit_new_def)
  have "audit_persist tag_lib sample_to_vec (\<lambda>_. True) (replicate 24 0) sample_entry sample_store
      = Inr (sample_store\<lparr>pl_db := \<lparr>db_rows = [sample_row], db_version = schema_version\<rparr>\<rparr>)"
    unfolding audit_persist_def sample_encrypts
    by (simp add: sample_to_vec_def seq_to_i64_def insert_row_def sample_store_def)
       (simp add: sample_entry_def sample_row_def timestamp_millis_def tag_lib_def)
  then show ?thesis
    unfolding persistent_append_def peek_next_sequence_def store Let_def stamp
    by (simp add: replay_persisted_append store entry)
qed

section \<open>Properties\<close>

text \<open>
  C4. Restart recovers the exact state: open an empty database, run any appends, each with its
  own database failures, then open what is on disk with the same key. The result is the state
  before the restart: entries, numbering, secondary indexes, table and keys. Assumes only that
  the cipher opens what it sealed and that the codec reads what it wrote.
\<close>

theorem audit_restart_recovers:
  assumes "aead_ok lib" "codec_ok to_vec from_slice"
    and "audit_open lib from_slice io \<lparr>db_rows = [], db_version = 0\<rparr> mk = Inr p"
    and "\<forall>c \<in> set calls. length (fst (snd c)) = aead_nonce_len" "\<forall>c. io' c"
  shows "audit_open lib from_slice io' (pl_db (persistent_run lib to_vec calls p)) mk
     = Inr (persistent_run lib to_vec calls p)"
proof -
  let ?p = "persistent_run lib to_vec calls p"
  note opened = audit_open_empty [OF assms(3)]
  have "mirrored lib to_vec p"
    using opened audit_new_inv by (simp add: mirrored_def audit_new_def)
  then have mirror: "mirrored lib to_vec ?p" using assms(4) by (rule mirrored_run)
  have keys: "keys_of ?p = keys_of p" using assms(4) by (rule persistent_run_keys)
  have "\<lparr>pl_log = audit_new, pl_db = (pl_db ?p)\<lparr>db_version := schema_version\<rparr>,
      pl_payload_key = pl_payload_key p, pl_master_key = mk\<rparr> = ?p\<lparr>pl_log := audit_new\<rparr>"
    using keys opened by (simp add: keys_of_def)
  then have load: "audit_load_all lib from_slice io' \<lparr>pl_log = audit_new,
      pl_db = (pl_db ?p)\<lparr>db_version := schema_version\<rparr>, pl_payload_key = pl_payload_key p,
      pl_master_key = mk\<rparr> = (Inr (), ?p)"
    using mirrored_load_all [OF assms(1,2) mirror assms(5)] by simp
  have works: "io' c" for c using assms(5) by simp
  obtain k where derived: "derive_key lib mk (string_bytes ''sqlcipher:audit:v1'') = Inr k"
    "derive_key lib mk (string_bytes ''audit_entry:v1'') = Inr (pl_payload_key p)"
    using opened by blast
  have "db_version (pl_db ?p) = schema_version" using keys opened by (simp add: keys_of_def)
  then show ?thesis unfolding audit_open_def by (simp add: works load derived)
qed

theorem audit_restart_recovers_witness:
  "let p = persistent_run tag_lib sample_to_vec
             [(\<lambda>_. False, replicate 24 0, sample_entry), (\<lambda>_. True, replicate 24 0, sample_entry)] sample_store
   in audit_open tag_lib sample_from_slice (\<lambda>_. True) (pl_db p) [] = Inr p"
  unfolding Let_def
  by (rule audit_restart_recovers [OF tag_lib_ok(1) sample_codec_ok sample_opens])
     (simp_all add: aead_nonce_len_def)

text \<open>
  Appending is atomic: whatever fails (serialisation, the 63-bit bound, the cipher, the
  database), an append that returns an error has changed neither table nor log, and no sequence
  number is consumed; one that succeeds has added one row and the stamped entry.
\<close>

theorem audit_append_atomic:
  assumes "length nonce = aead_nonce_len"
  shows "case persistent_append lib to_vec io nonce e p of
      (Inl err, p') \<Rightarrow> p' = p
    | (Inr i, p') \<Rightarrow> i = ae_id e \<and>
        al_entries (pl_log p') = al_entries (pl_log p) @ [e\<lparr>ae_sequence := peek_next_sequence (pl_log p)\<rparr>] \<and>
        (\<exists>r. db_rows (pl_db p') = db_rows (pl_db p) @ [r] \<and> ar_sequence r = int (peek_next_sequence (pl_log p)))
        \<and> peek_next_sequence (pl_log p) < 2 ^ 63"
  using assms
  by (cases rule: persistent_append_cases [of nonce lib to_vec io e p])
     (simp_all add: audit_append_effect peek_next_sequence_def row_for_def)

theorem audit_append_atomic_witness:
  "fst (persistent_append tag_lib sample_to_vec (\<lambda>_. True) (replicate 24 0) sample_entry sample_store) = Inr 7 \<and>
   al_entries (pl_log (snd (persistent_append tag_lib sample_to_vec (\<lambda>_. True) (replicate 24 0)
     sample_entry sample_store))) = [sample_entry]"
proof -
  have "length (replicate 24 (0 :: byte)) = aead_nonce_len" by (simp add: aead_nonce_len_def)
  from audit_append_atomic [OF this, where lib = tag_lib and to_vec = sample_to_vec and io = "\<lambda>_. True"
      and e = sample_entry and p = sample_store]
  show ?thesis
    unfolding sample_stores by (simp add: sample_store_def audit_new_def peek_next_sequence_def sample_entry_def)
qed

text \<open>
  A load that succeeds certifies the table, whoever wrote it: read in sequence order, the
  rows are numbered 0, 1, 2, \<open>\<dots>\<close> without gap or repetition, and the entries in memory carry
  exactly the ids and numbers of their rows.
\<close>

theorem audit_load_certifies:
  assumes "audit_load_all lib from_slice io p = (Inr (), p')"
    and "\<forall>r \<in> set (db_rows (pl_db p)). ar_sequence r < 2 ^ 63"
  shows "map ar_sequence (sort_key ar_sequence (db_rows (pl_db p))) = map int [0..<length (db_rows (pl_db p))] \<and>
    map ae_sequence (al_entries (pl_log p')) = [0..<length (db_rows (pl_db p))] \<and>
    map (slice_to_uuid \<circ> ar_id) (sort_key ar_sequence (db_rows (pl_db p)))
      = map (Inr \<circ> ae_id) (al_entries (pl_log p'))"
proof -
  let ?rs = "sort_key ar_sequence (db_rows (pl_db p))"
  obtain rows where dec: "decode_rows io 0 ?rs = Inr rows"
    and run: "replay_rows lib from_slice (pl_payload_key p) rows audit_new = (Inr (), pl_log p')"
    using assms(1) unfolding audit_load_all_def by (auto split: if_splits sum.splits prod.splits)
  note cols = decode_rows_columns [OF dec]
  have "set (map (fst \<circ> snd) rows) \<subseteq> ar_sequence ` set (db_rows (pl_db p))" using cols by simp
  then have "\<forall>r \<in> set rows. fst (snd r) < 2 ^ 63" using assms(2) by fastforce
  from replay_rows_certifies [OF run this] obtain es where
    es: "al_entries (pl_log p') = es" "map fst rows = map ae_id es"
      "map (fst \<circ> snd) rows = map (int \<circ> ae_sequence) es" "map ae_sequence es = [0..<length es]"
    by (auto simp: audit_new_def)
  have "length rows = length es" "length rows = length (db_rows (pl_db p))"
    using es(2) cols by (metis length_map, metis length_map length_sort)
  moreover have "map (int \<circ> ae_sequence) es = map int [0..<length es]" using es(4) by (simp flip: map_map)
  moreover have "map (slice_to_uuid \<circ> ar_id) ?rs = map Inr (map ae_id es)"
    using cols by (simp flip: es(2))
  ultimately show ?thesis using es cols by simp
qed

theorem audit_load_certifies_witness:
  "map ae_sequence (al_entries (pl_log (snd (audit_load_all tag_lib sample_from_slice (\<lambda>_. True)
     (sample_store\<lparr>pl_db := \<lparr>db_rows = [sample_row], db_version = 1\<rparr>\<rparr>))))) = [0]"
proof -
  let ?p = "sample_store\<lparr>pl_db := \<lparr>db_rows = [sample_row], db_version = 1\<rparr>\<rparr>"
  let ?l = "snd (audit_append sample_entry audit_new)"
  have cols: "ar_id sample_row = uuid_bytes 7" "ar_nonce sample_row = replicate 24 0" "ar_sequence sample_row = 0"
    "ar_payload sample_row = replicate 32 0 @ replicate 24 0 @ entry_aad 7 0 @ [1]"
    by (simp_all add: sample_row_def)
  have entry: "ae_id sample_entry = 7" "ae_sequence sample_entry = 0" "al_next audit_new = 0"
    by (simp_all add: sample_entry_def audit_new_def)
  have load: "audit_load_all tag_lib sample_from_slice (\<lambda>_. True) ?p = (Inr (), ?p\<lparr>pl_log := ?l\<rparr>)"
    unfolding audit_load_all_def
    by (simp add: cols slice_to_nonce_def aead_nonce_len_def sample_store_def)
       (simp add: cols sample_decrypts sample_from_slice_def entry i64_to_seq_def replay_persisted_append
         del: append_assoc)
  from audit_load_certifies [OF load] show ?thesis unfolding load
    by (simp add: cols sample_store_def)
qed

end
