(* ===== verification/Time_And_Float.thy ===== *)
theory Time_And_Float
  imports Knowledge_Prelude
begin

text \<open>
  The parts of the Rust standard library and of \<^verbatim>\<open>chrono\<close> that the memory and contract crates
  compute with: durations, the comparisons of \<^verbatim>\<open>f64\<close> on IEEE-754 bit patterns (exact), the
  floating point arithmetic of the host (a parameter), saturating \<^verbatim>\<open>u32\<close> counters, JSON values,
  and the iteration idioms \<^verbatim>\<open>iter_mut\<close>, \<^verbatim>\<open>find\<close>, \<^verbatim>\<open>position\<close>.
\<close>

section \<open>Durations\<close>

text \<open>
  A \<^verbatim>\<open>Duration\<close> is a signed number of nanoseconds and an \<open>instant\<close> counts nanoseconds from an
  epoch; the range check of \<^verbatim>\<open>chrono\<close>, which panics about 262 000 years away from the epoch, is
  outside the model. \<open>num_seconds\<close> truncates toward zero.
\<close>

type_synonym duration = int

definition nanos_per_sec :: int where
  "nanos_per_sec = 1000000000"

definition duration_days :: "int \<Rightarrow> duration" where
  "duration_days n = n * 86400 * nanos_per_sec"

definition num_seconds :: "duration \<Rightarrow> int" where
  "num_seconds d = (if d < 0 then - ((- d) div nanos_per_sec) else d div nanos_per_sec)"

section \<open>Floating point\<close>

unbundle bit_operations_syntax

text \<open>
  The comparisons of \<^verbatim>\<open>f64\<close> are functions of the bit pattern: bit 63 is the sign, the other 63
  bits order the magnitudes, and the magnitudes above the infinity are the NaNs.
\<close>

definition f64_mag :: "f64 \<Rightarrow> int" where
  "f64_mag x = int (unat x mod 2 ^ 63)"

definition f64_neg :: "f64 \<Rightarrow> bool" where
  "f64_neg x \<longleftrightarrow> 2 ^ 63 \<le> unat x"

definition f64_is_nan :: "f64 \<Rightarrow> bool" where
  "f64_is_nan x \<longleftrightarrow> 0x7FF0000000000000 < f64_mag x"

definition f64_key :: "f64 \<Rightarrow> int" where
  "f64_key x = (if f64_neg x then - f64_mag x else f64_mag x)"

definition f64_lt :: "f64 \<Rightarrow> f64 \<Rightarrow> bool" where
  "f64_lt x y \<longleftrightarrow> \<not> f64_is_nan x \<and> \<not> f64_is_nan y \<and> f64_key x < f64_key y"

definition f64_le :: "f64 \<Rightarrow> f64 \<Rightarrow> bool" where
  "f64_le x y \<longleftrightarrow> \<not> f64_is_nan x \<and> \<not> f64_is_nan y \<and> f64_key x \<le> f64_key y"

text \<open>\<^verbatim>\<open>f64::max\<close> and \<^verbatim>\<open>f64::min\<close> return the other operand when one is NaN; \<^verbatim>\<open>f64::clamp\<close> keeps NaN.\<close>

definition f64_max :: "f64 \<Rightarrow> f64 \<Rightarrow> f64" where
  "f64_max x y = (if f64_is_nan x then y else if f64_lt x y then y else x)"

definition f64_min :: "f64 \<Rightarrow> f64 \<Rightarrow> f64" where
  "f64_min x y = (if f64_is_nan x then y else if f64_lt y x then y else x)"

definition f64_clamp :: "f64 \<Rightarrow> f64 \<Rightarrow> f64 \<Rightarrow> f64" where
  "f64_clamp x lo hi =
     (let y = (if f64_lt x lo then lo else x) in if f64_lt hi y then hi else y)"

text \<open>\<^verbatim>\<open>f64::total_cmp\<close> orders every pattern: negatives by descending magnitude, below the positives.\<close>

definition f64_total_key :: "f64 \<Rightarrow> int" where
  "f64_total_key x = (if f64_neg x then - f64_mag x - 1 else f64_mag x)"

text \<open>Negation flips the sign bit.\<close>

definition f64_negate :: "f64 \<Rightarrow> f64" where
  "f64_negate x = x XOR 0x8000000000000000"

text \<open>
  The rounding arithmetic is the host's: addition, multiplication, division, the exponential of
  the mathematics library, and the conversion of an integer. No law of them is assumed.
\<close>

record f64_ops =
  f_add :: "f64 \<Rightarrow> f64 \<Rightarrow> f64"
  f_mul :: "f64 \<Rightarrow> f64 \<Rightarrow> f64"
  f_div :: "f64 \<Rightarrow> f64 \<Rightarrow> f64"
  f_exp :: "f64 \<Rightarrow> f64"
  f_of_int :: "int \<Rightarrow> f64"

text \<open>Literals of the sources, as their nearest double.\<close>

abbreviation f64_0 :: f64 where "f64_0 \<equiv> 0"
abbreviation f64_1 :: f64 where "f64_1 \<equiv> 0x3FF0000000000000"
abbreviation f64_0_9 :: f64 where "f64_0_9 \<equiv> 0x3FECCCCCCCCCCCCD"
abbreviation f64_0_4 :: f64 where "f64_0_4 \<equiv> 0x3FD999999999999A"
abbreviation f64_0_15 :: f64 where "f64_0_15 \<equiv> 0x3FC3333333333333"
abbreviation f64_0_1 :: f64 where "f64_0_1 \<equiv> 0x3FB999999999999A"
abbreviation f64_0_2 :: f64 where "f64_0_2 \<equiv> 0x3FC999999999999A"
abbreviation f64_0_5 :: f64 where "f64_0_5 \<equiv> 0x3FE0000000000000"
abbreviation f64_0_05 :: f64 where "f64_0_05 \<equiv> 0x3FA999999999999A"

section \<open>Saturating counters\<close>

text \<open>\<^verbatim>\<open>u32::saturating_add\<close> and \<^verbatim>\<open>u32::saturating_sub\<close>.\<close>

definition u32_sat_add :: "32 word \<Rightarrow> 32 word \<Rightarrow> 32 word" where
  "u32_sat_add a b = (if unat a + unat b < 2 ^ 32 then a + b else - 1)"

definition u32_sat_sub :: "32 word \<Rightarrow> 32 word \<Rightarrow> 32 word" where
  "u32_sat_sub a b = (if b \<le> a then a - b else 0)"

section \<open>JSON values\<close>

text \<open>
  The data of \<^verbatim>\<open>serde_json::Value\<close>, a number kept as its text, with the accessors the sources
  use: \<^verbatim>\<open>get\<close> of a key is \<open>None\<close> on anything but an object.
\<close>

datatype json =
  JNull | JBool bool | JNumber string | JString string | JArray "json list"
| JObject "(string \<times> json) list"

fun json_get :: "string \<Rightarrow> json \<Rightarrow> json option" where
  "json_get k (JObject kvs) = map_of kvs k"
| "json_get k _ = None"

fun json_as_bool :: "json \<Rightarrow> bool option" where
  "json_as_bool (JBool b) = Some b"
| "json_as_bool _ = None"

fun json_as_str :: "json \<Rightarrow> string option" where
  "json_as_str (JString s) = Some s"
| "json_as_str _ = None"

section \<open>Text\<close>

text \<open>
  Text is a list of code points below 256. \<^verbatim>\<open>char::is_whitespace\<close> in that range, and
  \<^verbatim>\<open>s.trim().is_empty()\<close>.
\<close>

definition is_whitespace :: "char \<Rightarrow> bool" where
  "is_whitespace c \<longleftrightarrow> (let n = of_char c :: nat in (9 \<le> n \<and> n \<le> 13) \<or> n = 32 \<or> n = 133 \<or> n = 160)"

definition is_blank :: "string \<Rightarrow> bool" where
  "is_blank s \<longleftrightarrow> (\<forall>c \<in> set s. is_whitespace c)"

section \<open>Text rendering\<close>

text \<open>The \<^verbatim>\<open>Display\<close> of an unsigned number (decimal) and of a UUID (hyphenated hexadecimal).\<close>

fun nat_display :: "nat \<Rightarrow> string" where
  "nat_display n =
     (if n < 10 then [char_of (48 + n)]
      else nat_display (n div 10) @ [char_of (48 + n mod 10)])"

declare nat_display.simps [simp del]

definition hex_digit :: "nat \<Rightarrow> char" where
  "hex_digit n = (if n < 10 then char_of (48 + n) else char_of (87 + n))"

definition uuid_display :: "uuid \<Rightarrow> string" where
  "uuid_display u =
     (let h = concat (map (\<lambda>b. [hex_digit (unat b div 16), hex_digit (unat b mod 16)]) (uuid_bytes u))
      in take 8 h @ ''-'' @ take 4 (drop 8 h) @ ''-'' @ take 4 (drop 12 h) @ ''-'' @
         take 4 (drop 16 h) @ ''-'' @ drop 20 h)"

section \<open>Iteration idioms\<close>

text \<open>\<^verbatim>\<open>for x in xs.iter_mut()\<close> with an accumulator that the body updates.\<close>

fun for_each_mut :: "('a \<Rightarrow> 's \<Rightarrow> 'a \<times> 's) \<Rightarrow> 'a list \<Rightarrow> 's \<Rightarrow> 'a list \<times> 's" where
  "for_each_mut f [] s = ([], s)"
| "for_each_mut f (x # xs) s =
     (case f x s of (y, s1) \<Rightarrow> (case for_each_mut f xs s1 of (ys, s2) \<Rightarrow> (y # ys, s2)))"

text \<open>\<^verbatim>\<open>iter_mut().find(p)\<close> and an update of the element found; \<open>None\<close> when there is none.\<close>

fun modify_first :: "('a \<Rightarrow> bool) \<Rightarrow> ('a \<Rightarrow> 'r \<times> 'a) \<Rightarrow> 'a list \<Rightarrow> ('r \<times> 'a list) option" where
  "modify_first p f [] = None"
| "modify_first p f (x # xs) =
     (if p x then (case f x of (r, y) \<Rightarrow> Some (r, y # xs))
      else (case modify_first p f xs of None \<Rightarrow> None | Some (r, ys) \<Rightarrow> Some (r, x # ys)))"

text \<open>\<^verbatim>\<open>iter().position(p)\<close> and \<^verbatim>\<open>Vec::remove\<close>.\<close>

fun position_of :: "('a \<Rightarrow> bool) \<Rightarrow> 'a list \<Rightarrow> nat option" where
  "position_of p [] = None"
| "position_of p (x # xs) = (if p x then Some 0 else map_option Suc (position_of p xs))"

definition remove_at :: "nat \<Rightarrow> 'a list \<Rightarrow> 'a list" where
  "remove_at i xs = take i xs @ drop (Suc i) xs"

section \<open>Lemmas\<close>

lemma f64_lt_iff: "f64_lt x y \<longleftrightarrow> f64_le x y \<and> \<not> f64_le y x"
  unfolding f64_lt_def f64_le_def by auto

lemma f64_le_trans: "f64_le x y \<Longrightarrow> f64_le y z \<Longrightarrow> f64_le x z"
  unfolding f64_le_def by auto

lemma f64_le_refl_iff [simp]: "f64_le x x \<longleftrightarrow> \<not> f64_is_nan x"
  unfolding f64_le_def by auto

lemma f64_not_lt: "\<not> f64_is_nan x \<Longrightarrow> \<not> f64_is_nan y \<Longrightarrow> \<not> f64_lt x y \<longleftrightarrow> f64_le y x"
  unfolding f64_lt_def f64_le_def by auto

lemma f64_literals [simp]:
  "\<not> f64_is_nan f64_0" "\<not> f64_is_nan f64_1" "\<not> f64_is_nan f64_0_9" "\<not> f64_is_nan f64_0_15"
  "f64_le f64_0 f64_1" "f64_le f64_0_9 f64_1" "f64_le f64_0 f64_0_9" "f64_le f64_0_15 f64_0_9"
  unfolding f64_le_def f64_is_nan_def f64_key_def f64_mag_def f64_neg_def by simp_all

lemma f64_max_ge: "\<not> f64_is_nan y \<Longrightarrow> f64_le y (f64_max x y)"
  unfolding f64_max_def using f64_not_lt [of x y] by auto

lemma f64_clamp_bounds:
  assumes "\<not> f64_is_nan x" and "f64_le lo hi"
  shows "f64_le lo (f64_clamp x lo hi)" and "f64_le (f64_clamp x lo hi) hi"
  using assms unfolding f64_clamp_def f64_lt_def f64_le_def Let_def by auto

lemma f64_clamp_ge:
  assumes "f64_le a x" and "f64_le a hi" and "\<not> f64_is_nan lo"
  shows "f64_le a (f64_clamp x lo hi)"
  using assms unfolding f64_clamp_def f64_lt_def f64_le_def Let_def by auto

lemma unat_u32_sat_add: "unat (u32_sat_add a b) = min (unat a + unat b) (2 ^ 32 - 1)"
proof (cases "unat a + unat b < 2 ^ 32")
  case True
  then have "unat (a + b) = unat a + unat b"
    using unat_add_lem [of a b] by simp
  then show ?thesis using True by (simp add: u32_sat_add_def)
next
  case False
  have "unat (- 1 :: 32 word) = 2 ^ 32 - 1"
    by (simp add: unsigned_minus_1_eq_mask mask_eq_exp_minus_1)
  then show ?thesis using False by (simp add: u32_sat_add_def)
qed

lemma unat_u32_sat_sub: "unat (u32_sat_sub a b) = unat a - unat b"
  by (auto simp: u32_sat_sub_def unat_sub word_le_nat_alt)

lemma space_is_whitespace [simp]: "is_whitespace CHR '' ''"
  by (simp add: is_whitespace_def)

lemma for_each_mut_length [simp]: "length (fst (for_each_mut f xs s)) = length xs"
  by (induction xs arbitrary: s) (simp_all add: split_beta)

text \<open>
  When the new element does not depend on the accumulator, the loop is a \<open>map\<close> and the accumulator
  a \<open>fold\<close>.
\<close>

lemma for_each_mut_map:
  assumes "\<And>x s. fst (f x s) = g x" and "\<And>x s. snd (f x s) = h x s"
  shows "for_each_mut f xs s = (map g xs, fold h xs s)"
proof (induction xs arbitrary: s)
  case (Cons x xs)
  have "f x s = (g x, h x s)" using assms by (metis prod.collapse)
  then show ?case using Cons by simp
qed simp

text \<open>A field of the accumulator that each step raises by one or leaves counts the steps raising it.\<close>

lemma fold_count:
  assumes "\<And>x s. field (h x s) = (if Q x then Suc (field s) else field s)"
  shows "field (fold h xs s) = field s + length (filter Q xs)"
  using assms by (induction xs arbitrary: s) auto

lemma length_filter_zip_map:
  "length (filter P (zip xs (map g xs))) = length (filter (\<lambda>x. P (x, g x)) xs)"
  by (induction xs) auto

lemma modify_first_None: "modify_first p f xs = None \<longleftrightarrow> (\<forall>x \<in> set xs. \<not> p x)"
  by (induction xs) (auto split: option.splits prod.splits)

lemma modify_first_SomeE:
  assumes "modify_first p f xs = Some (r, ys)"
  obtains us x vs y where "xs = us @ x # vs" "\<forall>u \<in> set us. \<not> p u" "p x" "f x = (r, y)"
    "ys = us @ y # vs"
  using assms
proof (induction xs arbitrary: ys thesis)
  case (Cons a xs)
  show ?case
  proof (cases "p a")
    case True
    then show ?thesis using Cons.prems(1) [of "[]" a xs] Cons.prems(2)
      by (auto split: prod.splits)
  next
    case False
    then obtain zs where z: "modify_first p f xs = Some (r, zs)" "ys = a # zs"
      using Cons.prems(2) by (auto split: option.splits)
    show ?thesis
    proof (rule Cons.IH [OF _ z(1)])
      fix us x vs y
      assume "xs = us @ x # vs" "\<forall>u \<in> set us. \<not> p u" "p x" "f x = (r, y)" "zs = us @ y # vs"
      then show thesis using Cons.prems(1) [of "a # us" x vs y] False z(2) by simp
    qed
  qed
qed simp

lemma position_of_None: "position_of p xs = None \<longleftrightarrow> (\<forall>x \<in> set xs. \<not> p x)"
  by (induction xs) auto

lemma position_of_Some:
  "position_of p xs = Some i \<Longrightarrow> i < length xs \<and> p (xs ! i) \<and> (\<forall>j < i. \<not> p (xs ! j))"
  by (induction xs arbitrary: i) (auto split: if_splits simp: less_Suc_eq_0_disj)

end
