(* ===== verification/Memory_Object.thy ===== *)
theory Memory_Object
  imports Time_And_Float Lifecycle
begin

text \<open>
  Memory objects and their decay state machine (\<^verbatim>\<open>memory_manager\<close>: \<^verbatim>\<open>object.rs\<close>, \<^verbatim>\<open>state.rs\<close>,
  \<^verbatim>\<open>transitions.rs\<close>, \<^verbatim>\<open>error.rs\<close>). A method that takes \<^verbatim>\<open>&mut MemoryObject\<close> returns its result
  with the object after the call. Identifiers drawn by \<^verbatim>\<open>Uuid::new_v4\<close> and the wall clock are
  arguments.
\<close>

section \<open>States and classes\<close>

datatype sensitivity_class = Critical | Important | Useful | Noise

fun sensitivity_as_str :: "sensitivity_class \<Rightarrow> string" where
  "sensitivity_as_str Critical = ''critical''"
| "sensitivity_as_str Important = ''important''"
| "sensitivity_as_str Useful = ''useful''"
| "sensitivity_as_str Noise = ''noise''"

datatype memory_state =
  Candidate | Reinforced | Consolidated | Canonical | Superseded | Archived | Deleted

fun memory_state_as_str :: "memory_state \<Rightarrow> string" where
  "memory_state_as_str Candidate = ''candidate''"
| "memory_state_as_str Reinforced = ''reinforced''"
| "memory_state_as_str Consolidated = ''consolidated''"
| "memory_state_as_str Canonical = ''canonical''"
| "memory_state_as_str Superseded = ''superseded''"
| "memory_state_as_str Archived = ''archived''"
| "memory_state_as_str Deleted = ''deleted''"

definition memory_state_parse_tag :: "string \<Rightarrow> memory_state option" where
  "memory_state_parse_tag s =
     (if s = ''candidate'' then Some Candidate
      else if s = ''reinforced'' then Some Reinforced
      else if s = ''consolidated'' then Some Consolidated
      else if s = ''canonical'' then Some Canonical
      else if s = ''superseded'' then Some Superseded
      else if s = ''archived'' then Some Archived
      else if s = ''deleted'' then Some Deleted
      else None)"

definition memory_state_from_str :: "string \<Rightarrow> unit + memory_state" where
  "memory_state_from_str s =
     (case memory_state_parse_tag s of None \<Rightarrow> Inl () | Some st \<Rightarrow> Inr st)"

datatype memory_error =
  InvalidTransition memory_state memory_state
| MemoryNotFound uuid
| NonFiniteRetentionScore
| MemoryValidation string

section \<open>Objects\<close>

record memory_object =
  mo_id :: uuid
  mo_scope_id :: uuid
  mo_state :: memory_state
  mo_sensitivity_class :: sensitivity_class
  mo_retention_score :: f64
  mo_created_at :: instant
  mo_last_accessed_at :: instant
  mo_consolidated_at :: "instant option"
  mo_retrieval_count :: "32 word"
  mo_pin_count :: "32 word"
  mo_corroboration_count :: "32 word"
  mo_source_refs :: "uuid list"
  mo_corroboration_sources :: "string list"
  mo_superseded_by :: "uuid option"
  mo_metadata :: json

definition new_candidate :: "uuid \<Rightarrow> instant \<Rightarrow> uuid \<Rightarrow> sensitivity_class \<Rightarrow> memory_object" where
  "new_candidate fresh now scope_id sensitivity_class = \<lparr>
     mo_id = fresh,
     mo_scope_id = scope_id,
     mo_state = Candidate,
     mo_sensitivity_class = sensitivity_class,
     mo_retention_score = f64_0,
     mo_created_at = now,
     mo_last_accessed_at = now,
     mo_consolidated_at = None,
     mo_retrieval_count = 0,
     mo_pin_count = 0,
     mo_corroboration_count = 0,
     mo_source_refs = [],
     mo_corroboration_sources = [],
     mo_superseded_by = None,
     mo_metadata = JNull\<rparr>"

definition record_retrieval :: "instant \<Rightarrow> memory_object \<Rightarrow> memory_object" where
  "record_retrieval now obj = obj\<lparr>
     mo_retrieval_count := u32_sat_add (mo_retrieval_count obj) 1,
     mo_last_accessed_at := now\<rparr>"

definition record_corroboration :: "instant \<Rightarrow> memory_object \<Rightarrow> memory_object" where
  "record_corroboration now obj = obj\<lparr>
     mo_corroboration_count := u32_sat_add (mo_corroboration_count obj) 1,
     mo_last_accessed_at := now\<rparr>"

definition record_corroboration_from_source ::
  "string \<Rightarrow> instant \<Rightarrow> memory_object \<Rightarrow> bool \<times> memory_object" where
  "record_corroboration_from_source source_fingerprint now obj =
     (if \<exists>s \<in> set (mo_corroboration_sources obj). s = source_fingerprint
      then (False, obj\<lparr>mo_last_accessed_at := now\<rparr>)
      else (True, obj\<lparr>
        mo_corroboration_sources := mo_corroboration_sources obj @ [source_fingerprint],
        mo_corroboration_count := u32_sat_add (mo_corroboration_count obj) 1,
        mo_last_accessed_at := now\<rparr>))"

section \<open>The state machine\<close>

type_synonym transition_result = "(memory_error + memory_state) \<times> memory_object"

definition sm_expect ::
  "memory_object \<Rightarrow> memory_state list \<Rightarrow> memory_state \<Rightarrow> transition_result" where
  "sm_expect obj allowed_from to =
     (if mo_state obj \<notin> set allowed_from then (Inl (InvalidTransition (mo_state obj) to), obj)
      else (Inr to, obj\<lparr>mo_state := to\<rparr>))"

definition reinforce :: "memory_object \<Rightarrow> transition_result" where
  "reinforce obj = sm_expect obj [Candidate] Reinforced"

definition archive_candidate :: "memory_object \<Rightarrow> transition_result" where
  "archive_candidate obj = sm_expect obj [Candidate] Archived"

definition consolidate :: "instant \<Rightarrow> memory_object \<Rightarrow> transition_result" where
  "consolidate now obj =
     (case sm_expect obj [Reinforced] Consolidated of
        (Inl e, obj1) \<Rightarrow> (Inl e, obj1)
      | (Inr st, obj1) \<Rightarrow> (Inr st, obj1\<lparr>mo_consolidated_at := Some now\<rparr>))"

definition canonicalize :: "memory_object \<Rightarrow> transition_result" where
  "canonicalize obj = sm_expect obj [Consolidated] Canonical"

definition supersede :: "uuid \<Rightarrow> instant \<Rightarrow> memory_object \<Rightarrow> transition_result" where
  "supersede superseded_by now obj =
     (case sm_expect obj [Canonical] Superseded of
        (Inl e, obj1) \<Rightarrow> (Inl e, obj1)
      | (Inr st, obj1) \<Rightarrow>
          (Inr st, obj1\<lparr>mo_superseded_by := Some superseded_by, mo_last_accessed_at := now\<rparr>))"

definition delete_canonical :: "memory_object \<Rightarrow> transition_result" where
  "delete_canonical obj = sm_expect obj [Canonical] Deleted"

definition archive_superseded :: "memory_object \<Rightarrow> transition_result" where
  "archive_superseded obj = sm_expect obj [Superseded] Archived"

definition delete_archived :: "memory_object \<Rightarrow> transition_result" where
  "delete_archived obj = sm_expect obj [Archived] Deleted"

definition sm_archive :: "memory_object \<Rightarrow> transition_result" where
  "sm_archive obj =
     sm_expect obj [Candidate, Reinforced, Consolidated, Canonical, Superseded] Archived"

definition sm_delete :: "memory_object \<Rightarrow> transition_result" where
  "sm_delete obj =
     sm_expect obj [Candidate, Reinforced, Consolidated, Canonical, Superseded, Archived] Deleted"

definition resurrect :: "instant \<Rightarrow> memory_object \<Rightarrow> transition_result" where
  "resurrect now obj =
     (case sm_expect obj [Archived] Reinforced of
        (Inl e, obj1) \<Rightarrow> (Inl e, obj1)
      | (Inr st, obj1) \<Rightarrow>
          (Inr st, obj1\<lparr>mo_superseded_by := None, mo_last_accessed_at := now\<rparr>))"

lemmas transition_defs = sm_expect_def reinforce_def archive_candidate_def consolidate_def
  canonicalize_def supersede_def delete_canonical_def archive_superseded_def delete_archived_def
  sm_archive_def sm_delete_def resurrect_def

section \<open>The machine as a whole\<close>

text \<open>A call of the public surface of the state machine, and its effect.\<close>

datatype memory_command =
  CReinforce | CArchiveCandidate | CConsolidate instant | CCanonicalize | CSupersede uuid instant
| CDeleteCanonical | CArchiveSuperseded | CDeleteArchived | CArchive | CDelete | CResurrect instant

fun exec_command :: "memory_command \<Rightarrow> memory_object \<Rightarrow> transition_result" where
  "exec_command CReinforce obj = reinforce obj"
| "exec_command CArchiveCandidate obj = archive_candidate obj"
| "exec_command (CConsolidate now) obj = consolidate now obj"
| "exec_command CCanonicalize obj = canonicalize obj"
| "exec_command (CSupersede new now) obj = supersede new now obj"
| "exec_command CDeleteCanonical obj = delete_canonical obj"
| "exec_command CArchiveSuperseded obj = archive_superseded obj"
| "exec_command CDeleteArchived obj = delete_archived obj"
| "exec_command CArchive obj = sm_archive obj"
| "exec_command CDelete obj = sm_delete obj"
| "exec_command (CResurrect now) obj = resurrect now obj"

text \<open>
  The edges of the machine: the diagram of \<^verbatim>\<open>state.rs\<close>, and the policy-driven edges of
  \<^verbatim>\<open>archive\<close>, \<^verbatim>\<open>delete\<close> and \<^verbatim>\<open>resurrect\<close>.
\<close>

fun diagram_edge :: "memory_state \<Rightarrow> memory_state \<Rightarrow> bool" where
  "diagram_edge Candidate b = (b \<in> {Reinforced, Archived})"
| "diagram_edge Reinforced b = (b = Consolidated)"
| "diagram_edge Consolidated b = (b = Canonical)"
| "diagram_edge Canonical b = (b \<in> {Superseded, Deleted})"
| "diagram_edge Superseded b = (b = Archived)"
| "diagram_edge Archived b = (b = Deleted)"
| "diagram_edge Deleted b = False"

definition policy_edge :: "memory_state \<Rightarrow> memory_state \<Rightarrow> bool" where
  "policy_edge a b \<longleftrightarrow>
     (b = Archived \<and> a \<notin> {Archived, Deleted}) \<or> (b = Deleted \<and> a \<noteq> Deleted) \<or>
     (a = Archived \<and> b = Reinforced)"

definition memory_edge :: "memory_state \<Rightarrow> memory_state \<Rightarrow> bool" where
  "memory_edge a b \<longleftrightarrow> diagram_edge a b \<or> policy_edge a b"

definition memory_terminal :: "memory_state \<Rightarrow> bool" where
  "memory_terminal s \<longleftrightarrow> s = Deleted"

interpretation memory: lifecycle memory_edge memory_terminal
proof
  show "memory_terminal a \<Longrightarrow> \<not> memory_edge a b" for a b
    by (simp add: memory_terminal_def memory_edge_def policy_edge_def)
  show "\<not> memory_edge a a" for a
    by (cases a) (simp_all add: memory_edge_def policy_edge_def)
qed

lemma memory_edge_into:
  "memory_edge a b \<Longrightarrow> b \<noteq> Candidate"
  by (cases a) (auto simp: memory_edge_def policy_edge_def)

lemma sm_expect_edge:
  assumes "\<And>a. a \<in> set from \<Longrightarrow> memory_edge a to"
  shows "(case sm_expect obj from to of
       (Inl e, obj1) \<Rightarrow> e = InvalidTransition (mo_state obj) to \<and> obj1 = obj
     | (Inr st, obj1) \<Rightarrow> st = to \<and> mo_state obj1 = to \<and> memory_edge (mo_state obj) to)"
  using assms by (simp add: sm_expect_def)

text \<open>
  Every call either is refused, naming the state found and leaving the object as it was, or takes
  an edge of the machine.
\<close>

lemma exec_command_edge:
  "(case exec_command c obj of
      (Inl e, obj1) \<Rightarrow> (\<exists>to. e = InvalidTransition (mo_state obj) to) \<and> obj1 = obj
    | (Inr st, obj1) \<Rightarrow> mo_state obj1 = st \<and> memory_edge (mo_state obj) st)"
  by (cases c; cases "mo_state obj")
     (simp_all add: transition_defs memory_edge_def policy_edge_def)

lemma exec_command_cases:
  obtains (refused) to where "exec_command c obj = (Inl (InvalidTransition (mo_state obj) to), obj)"
  | (taken) st obj1 where "exec_command c obj = (Inr st, obj1)" "mo_state obj1 = st"
      "memory_edge (mo_state obj) st"
  using exec_command_edge [where c = c and obj = obj] by (auto split: prod.splits sum.splits)

text \<open>The edges are exactly the successful calls: no edge is unused.\<close>

lemma memory_edge_realised:
  assumes "memory_edge (mo_state obj) to"
  shows "\<exists>c obj1. exec_command c obj = (Inr to, obj1)"
proof -
  have "\<exists>c. fst (exec_command c obj) = Inr to" if "mo_state obj = a" for a
  proof -
    consider "to = Reinforced" | "to = Consolidated" | "to = Canonical" | "to = Superseded"
      | "to = Archived" | "to = Deleted"
      using assms memory_edge_into by (cases to) auto
    then show ?thesis
    proof cases
      case 1
      then have "a = Candidate \<or> a = Archived"
        using assms that by (cases a) (auto simp: memory_edge_def policy_edge_def)
      then have "fst (exec_command CReinforce obj) = Inr to \<or>
          fst (exec_command (CResurrect 0) obj) = Inr to"
        using that 1 by (auto simp: transition_defs)
      then show ?thesis by blast
    next
      case 2
      then have "fst (exec_command (CConsolidate 0) obj) = Inr to"
        using assms that by (cases a) (auto simp: transition_defs memory_edge_def policy_edge_def)
      then show ?thesis by blast
    next
      case 3
      then have "fst (exec_command CCanonicalize obj) = Inr to"
        using assms that by (cases a) (auto simp: transition_defs memory_edge_def policy_edge_def)
      then show ?thesis by blast
    next
      case 4
      then have "fst (exec_command (CSupersede 0 0) obj) = Inr to"
        using assms that by (cases a) (auto simp: transition_defs memory_edge_def policy_edge_def)
      then show ?thesis by blast
    next
      case 5
      then have "fst (exec_command CArchive obj) = Inr to"
        using assms that by (cases a) (auto simp: transition_defs memory_edge_def policy_edge_def)
      then show ?thesis by blast
    next
      case 6
      then have "fst (exec_command CDelete obj) = Inr to"
        using assms that by (cases a) (auto simp: transition_defs memory_edge_def policy_edge_def)
      then show ?thesis by blast
    qed
  qed
  then obtain c where "fst (exec_command c obj) = Inr to" by blast
  then show ?thesis by (metis prod.collapse)
qed

fun exec_commands :: "memory_command list \<Rightarrow> memory_object \<Rightarrow> memory_object" where
  "exec_commands [] obj = obj"
| "exec_commands (c # cs) obj = exec_commands cs (snd (exec_command c obj))"

lemma exec_commands_reach: "memory_edge\<^sup>*\<^sup>* (mo_state obj) (mo_state (exec_commands cs obj))"
proof (induction cs arbitrary: obj)
  case (Cons c cs)
  have "memory_edge\<^sup>*\<^sup>* (mo_state obj) (mo_state (snd (exec_command c obj)))"
    by (rule exec_command_cases [where c = c and obj = obj]) auto
  then show ?case using Cons [of "snd (exec_command c obj)"] by simp
qed simp

section \<open>Properties\<close>



text \<open>The string tag of a state reads back as that state, and only the seven tags are read.\<close>

lemma memory_state_tag_roundtrip:
  "memory_state_parse_tag s = Some st \<longleftrightarrow> s = memory_state_as_str st"
  by (cases st) (auto simp: memory_state_parse_tag_def split: if_splits)

text \<open>
  The \<^verbatim>\<open>u32\<close> counters saturate: after any number of retrievals the counter is the number counted
  or the largest \<^verbatim>\<open>u32\<close>, never a wrapped value.
\<close>

lemma retrieval_count_iterate:
  "unat (mo_retrieval_count ((record_retrieval now ^^ n) obj)) =
   min (unat (mo_retrieval_count obj) + n) (2 ^ 32 - 1)"
proof (induction n)
  case 0
  show ?case using unsigned_less [of "mo_retrieval_count obj", where ?'a = nat] by simp
next
  case (Suc n)
  then show ?case by (simp add: record_retrieval_def unat_u32_sat_add)
qed

text \<open>
  Corroboration by source is deduplicated: over any sequence of calls the counter grows by the
  number of distinct sources not seen before, up to the largest \<^verbatim>\<open>u32\<close>, and the recorded sources
  stay distinct.
\<close>

lemma corroborate_fold:
  assumes "distinct (mo_corroboration_sources obj)"
  shows "let out = fold (\<lambda>(s, now) obj. snd (record_corroboration_from_source s now obj)) calls obj in
     distinct (mo_corroboration_sources out) \<and>
     set (mo_corroboration_sources out) = set (mo_corroboration_sources obj) \<union> fst ` set calls \<and>
     unat (mo_corroboration_count out) =
       min (unat (mo_corroboration_count obj) + card (fst ` set calls - set (mo_corroboration_sources obj)))
         (2 ^ 32 - 1)"
  using assms unfolding Let_def
proof (induction calls arbitrary: obj)
  case Nil
  then show ?case
    using unsigned_less [of "mo_corroboration_count obj", where ?'a = nat] by simp
next
  case (Cons call calls)
  obtain s now where call: "call = (s, now)" by (cases call)
  define obj1 where "obj1 = snd (record_corroboration_from_source s now obj)"
  show ?case
  proof (cases "s \<in> set (mo_corroboration_sources obj)")
    case True
    have "insert s (fst ` set calls) - set (mo_corroboration_sources obj) =
        fst ` set calls - set (mo_corroboration_sources obj)"
      using True by blast
    then show ?thesis
      using Cons.IH [of obj1] Cons.prems True
      by (auto simp: call obj1_def record_corroboration_from_source_def)
  next
    case False
    let ?new = "fst ` set calls - insert s (set (mo_corroboration_sources obj))"
    have "insert s (fst ` set calls) - set (mo_corroboration_sources obj) = insert s ?new"
      using False by blast
    moreover have "card (insert s ?new) = Suc (card ?new)"
      by (rule card_insert_disjoint) auto
    ultimately show ?thesis
      using Cons.IH [of obj1] Cons.prems False
      by (auto simp: call obj1_def record_corroboration_from_source_def unat_u32_sat_add)
  qed
qed

text \<open>
  Counting of corroboration. For a fresh object and any sequence of corroborating sources, the
  counter is the number of distinct sources, saturated at the largest \<^verbatim>\<open>u32\<close>.
\<close>

theorem corroboration_counts_sources:
  "unat (mo_corroboration_count
     (fold (\<lambda>(s, now) obj. snd (record_corroboration_from_source s now obj)) calls
       (new_candidate fresh t scope cls))) = min (card (fst ` set calls)) (2 ^ 32 - 1)"
  using corroborate_fold [of "new_candidate fresh t scope cls" calls]
  by (simp add: new_candidate_def Let_def)

end
