(* ===== verification/Retention.thy ===== *)
theory Retention
  imports Memory_Object
begin

text \<open>
  Retention scoring (\<^verbatim>\<open>memory_manager/src/retention.rs\<close>). The rounding arithmetic is the parameter
  \<open>F\<close>; clamping, the pin floor and every comparison are computed on the bit patterns, so the bounds
  proved here hold for any arithmetic.
\<close>

section \<open>Scores and weights\<close>

record retention_score =
  rs_total :: f64
  rs_pinning :: f64
  rs_retrieval_frequency :: f64
  rs_corroboration :: f64
  rs_contradiction :: f64
  rs_age :: f64
  rs_non_use :: f64

record retention_weights =
  rw_pinning :: f64
  rw_retrieval_frequency :: f64
  rw_corroboration :: f64
  rw_contradiction :: f64
  rw_age :: f64
  rw_non_use :: f64

definition weights_default :: retention_weights where
  "weights_default = \<lparr>rw_pinning = f64_0_5, rw_retrieval_frequency = f64_0_15,
     rw_corroboration = f64_0_1, rw_contradiction = f64_0_05, rw_age = f64_0_1,
     rw_non_use = f64_0_1\<rparr>"

text \<open>Literals: 5.0, 3.0, 86400.0, the natural logarithm of 2, and the half-lives in days.\<close>

abbreviation f64_5 :: f64 where "f64_5 \<equiv> 0x4014000000000000"
abbreviation f64_3 :: f64 where "f64_3 \<equiv> 0x4008000000000000"
abbreviation f64_86400 :: f64 where "f64_86400 \<equiv> 0x40F5180000000000"
abbreviation f64_ln_2 :: f64 where "f64_ln_2 \<equiv> 0x3FE62E42FEFA39EF"
abbreviation f64_36500 :: f64 where "f64_36500 \<equiv> 0x40E1D28000000000"
abbreviation f64_365 :: f64 where "f64_365 \<equiv> 0x4076D00000000000"
abbreviation f64_2 :: f64 where "f64_2 \<equiv> 0x4000000000000000"
abbreviation f64_1_5 :: f64 where "f64_1_5 \<equiv> 0x3FF8000000000000"
abbreviation f64_30 :: f64 where "f64_30 \<equiv> 0x403E000000000000"
abbreviation f64_60 :: f64 where "f64_60 \<equiv> 0x404E000000000000"
abbreviation f64_21 :: f64 where "f64_21 \<equiv> 0x4035000000000000"
abbreviation f64_14 :: f64 where "f64_14 \<equiv> 0x402C000000000000"
abbreviation f64_10 :: f64 where "f64_10 \<equiv> 0x4024000000000000"

definition decay :: "f64_ops \<Rightarrow> f64 \<Rightarrow> f64 \<Rightarrow> f64" where
  "decay F elapsed_seconds half_life_seconds =
     (if f64_le half_life_seconds f64_0 then f64_0
      else f64_clamp
        (f_exp F (f_mul F (f_div F (f64_negate elapsed_seconds) half_life_seconds) f64_ln_2))
        f64_0 f64_1)"

definition half_life_seconds_for_class :: "f64_ops \<Rightarrow> memory_object \<Rightarrow> f64" where
  "half_life_seconds_for_class F obj =
     f_mul F (case mo_sensitivity_class obj of
         Critical \<Rightarrow> f64_36500
       | Important \<Rightarrow> f_mul F f64_365 f64_2
       | Useful \<Rightarrow> f64_30
       | Noise \<Rightarrow> f64_1) f64_86400"

definition compute_with_weights ::
  "f64_ops \<Rightarrow> memory_object \<Rightarrow> instant \<Rightarrow> retention_weights \<Rightarrow> retention_score" where
  "compute_with_weights F object now weights =
     (let pinning = (if 0 < mo_pin_count object then f64_1 else f64_0);
          retrieval_frequency =
            f64_min (f_div F (f_of_int F (uint (mo_retrieval_count object))) f64_5) f64_1;
          corroboration =
            f64_min (f_div F (f_of_int F (uint (mo_corroboration_count object))) f64_3) f64_1;
          contradiction =
            (if Option.bind (json_get ''contradicted'' (mo_metadata object)) json_as_bool = Some True
             then f64_0 else f64_1);
          age_seconds = f_of_int F (max (num_seconds (now - mo_created_at object)) 0);
          age = decay F age_seconds (half_life_seconds_for_class F object);
          non_use_seconds = f_of_int F (max (num_seconds (now - mo_last_accessed_at object)) 0);
          non_use = decay F non_use_seconds (f_of_int F (num_seconds (duration_days 14)));
          weighted =
            f_add F (f_add F (f_add F (f_add F (f_add F
              (f_mul F (rw_pinning weights) pinning)
              (f_mul F (rw_retrieval_frequency weights) retrieval_frequency))
              (f_mul F (rw_corroboration weights) corroboration))
              (f_mul F (rw_contradiction weights) contradiction))
              (f_mul F (rw_age weights) age))
              (f_mul F (rw_non_use weights) non_use);
          total1 =
            (if 0 < mo_pin_count object then f64_clamp (f64_max weighted f64_0_9) f64_0 f64_1
             else f64_clamp weighted f64_0 f64_1)
      in \<lparr>rs_total = total1, rs_pinning = pinning, rs_retrieval_frequency = retrieval_frequency,
          rs_corroboration = corroboration, rs_contradiction = contradiction, rs_age = age,
          rs_non_use = non_use\<rparr>)"

definition compute_retention_score ::
  "f64_ops \<Rightarrow> memory_object \<Rightarrow> instant \<Rightarrow> retention_score" where
  "compute_retention_score F object now = compute_with_weights F object now weights_default"

section \<open>Decay profiles\<close>

record decay_profile =
  dp_critical_half_life_days :: f64
  dp_important_half_life_days :: f64
  dp_useful_half_life_days :: f64
  dp_noise_half_life_days :: f64
  dp_non_use_half_life_days :: f64

definition profile_default :: "f64_ops \<Rightarrow> decay_profile" where
  "profile_default F = \<lparr>dp_critical_half_life_days = f64_36500,
     dp_important_half_life_days = f_mul F f64_365 f64_2, dp_useful_half_life_days = f64_30,
     dp_noise_half_life_days = f64_1, dp_non_use_half_life_days = f64_14\<rparr>"

definition profile_high_context :: "f64_ops \<Rightarrow> decay_profile" where
  "profile_high_context F = \<lparr>dp_critical_half_life_days = f64_36500,
     dp_important_half_life_days = f_mul F f64_365 f64_3, dp_useful_half_life_days = f64_60,
     dp_noise_half_life_days = f64_3, dp_non_use_half_life_days = f64_21\<rparr>"

definition profile_low_context :: "f64_ops \<Rightarrow> decay_profile" where
  "profile_low_context F = \<lparr>dp_critical_half_life_days = f64_36500,
     dp_important_half_life_days = f_mul F f64_365 f64_1_5, dp_useful_half_life_days = f64_21,
     dp_noise_half_life_days = f64_0_5, dp_non_use_half_life_days = f64_10\<rparr>"

fun profile_half_life_days :: "decay_profile \<Rightarrow> sensitivity_class \<Rightarrow> f64" where
  "profile_half_life_days p Critical = dp_critical_half_life_days p"
| "profile_half_life_days p Important = dp_important_half_life_days p"
| "profile_half_life_days p Useful = dp_useful_half_life_days p"
| "profile_half_life_days p Noise = dp_noise_half_life_days p"

definition profile_half_life_seconds :: "f64_ops \<Rightarrow> decay_profile \<Rightarrow> sensitivity_class \<Rightarrow> f64" where
  "profile_half_life_seconds F p cls = f_mul F (profile_half_life_days p cls) f64_86400"

definition non_use_half_life_seconds :: "f64_ops \<Rightarrow> decay_profile \<Rightarrow> f64" where
  "non_use_half_life_seconds F p = f_mul F (dp_non_use_half_life_days p) f64_86400"

text \<open>
  \<^verbatim>\<open>to_lowercase\<close> on text of code points below 256; the letters with a lowercase outside that
  range do not occur there.
\<close>

definition latin1_lower :: "char \<Rightarrow> char" where
  "latin1_lower c = (let n = of_char c :: nat in
     if (65 \<le> n \<and> n \<le> 90) \<or> (192 \<le> n \<and> n \<le> 222 \<and> n \<noteq> 215) then char_of (n + 32) else c)"

definition profile_for_language :: "f64_ops \<Rightarrow> string \<Rightarrow> decay_profile" where
  "profile_for_language F tag =
     (let primary = map latin1_lower (takeWhile (\<lambda>c. c \<noteq> CHR ''-'') tag) in
      if primary \<in> set [''ja'', ''ko'', ''zh'', ''th'', ''vi'', ''id'', ''ms'', ''my'', ''km'', ''lo'', ''bo'']
      then profile_high_context F
      else if primary \<in> set [''en'', ''de'', ''fr'', ''es'', ''it'', ''pt'', ''nl'', ''sv'', ''da'', ''no'', ''fi'']
      then profile_low_context F
      else profile_default F)"

definition compute_with_weights_and_profile ::
  "f64_ops \<Rightarrow> memory_object \<Rightarrow> instant \<Rightarrow> retention_weights \<Rightarrow> decay_profile \<Rightarrow> retention_score" where
  "compute_with_weights_and_profile F object now weights profile =
     (let pinning = (if 0 < mo_pin_count object then f64_1 else f64_0);
          retrieval_frequency =
            f64_min (f_div F (f_of_int F (uint (mo_retrieval_count object))) f64_5) f64_1;
          corroboration =
            f64_min (f_div F (f_of_int F (uint (mo_corroboration_count object))) f64_3) f64_1;
          contradiction =
            (if Option.bind (json_get ''contradicted'' (mo_metadata object)) json_as_bool = Some True
             then f64_0 else f64_1);
          age_seconds = f_of_int F (max (num_seconds (now - mo_created_at object)) 0);
          age = decay F age_seconds
            (profile_half_life_seconds F profile (mo_sensitivity_class object));
          non_use_seconds = f_of_int F (max (num_seconds (now - mo_last_accessed_at object)) 0);
          non_use = decay F non_use_seconds (non_use_half_life_seconds F profile);
          weighted =
            f_add F (f_add F (f_add F (f_add F (f_add F
              (f_mul F (rw_pinning weights) pinning)
              (f_mul F (rw_retrieval_frequency weights) retrieval_frequency))
              (f_mul F (rw_corroboration weights) corroboration))
              (f_mul F (rw_contradiction weights) contradiction))
              (f_mul F (rw_age weights) age))
              (f_mul F (rw_non_use weights) non_use);
          total1 =
            (if 0 < mo_pin_count object then f64_clamp (f64_max weighted f64_0_9) f64_0 f64_1
             else f64_clamp weighted f64_0 f64_1)
      in \<lparr>rs_total = total1, rs_pinning = pinning, rs_retrieval_frequency = retrieval_frequency,
          rs_corroboration = corroboration, rs_contradiction = contradiction, rs_age = age,
          rs_non_use = non_use\<rparr>)"

definition compute_with_profile ::
  "f64_ops \<Rightarrow> memory_object \<Rightarrow> instant \<Rightarrow> decay_profile \<Rightarrow> retention_score" where
  "compute_with_profile F object now profile =
     compute_with_weights_and_profile F object now weights_default profile"

section \<open>Lemmas\<close>

lemma clamp_unit: "f64_is_nan x \<or> f64_le f64_0 (f64_clamp x f64_0 f64_1) \<and> f64_le (f64_clamp x f64_0 f64_1) f64_1"
  using f64_clamp_bounds [of x f64_0 f64_1] by auto

lemma clamp_nan: "f64_is_nan x \<Longrightarrow> f64_clamp x lo hi = x"
  by (simp add: f64_clamp_def f64_lt_def)

lemma clamp_unit_total:
  "f64_is_nan (f64_clamp x f64_0 f64_1) \<or>
   f64_le f64_0 (f64_clamp x f64_0 f64_1) \<and> f64_le (f64_clamp x f64_0 f64_1) f64_1"
  using clamp_unit [of x] clamp_nan [of x] by auto

lemma pin_floor:
  "f64_le f64_0_9 (f64_clamp (f64_max x f64_0_9) f64_0 f64_1) \<and>
   f64_le (f64_clamp (f64_max x f64_0_9) f64_0 f64_1) f64_1"
proof -
  have ge: "f64_le f64_0_9 (f64_max x f64_0_9)" by (rule f64_max_ge) simp
  then have nn: "\<not> f64_is_nan (f64_max x f64_0_9)" by (simp add: f64_le_def)
  show ?thesis
    using f64_clamp_ge [OF ge, of f64_1 f64_0] f64_clamp_bounds [OF nn, of f64_0 f64_1] by simp
qed

lemma total_with_weights:
  "\<exists>w. rs_total (compute_with_weights F obj now weights) =
     (if 0 < mo_pin_count obj then f64_clamp (f64_max w f64_0_9) f64_0 f64_1
      else f64_clamp w f64_0 f64_1)"
  unfolding compute_with_weights_def Let_def retention_score.simps by blast

lemma total_with_profile:
  "\<exists>w. rs_total (compute_with_weights_and_profile F obj now weights profile) =
     (if 0 < mo_pin_count obj then f64_clamp (f64_max w f64_0_9) f64_0 f64_1
      else f64_clamp w f64_0 f64_1)"
  unfolding compute_with_weights_and_profile_def Let_def retention_score.simps by blast

definition score_in_band :: "memory_object \<Rightarrow> f64 \<Rightarrow> bool" where
  "score_in_band obj t \<longleftrightarrow>
     (if 0 < mo_pin_count obj then f64_le f64_0_9 t \<and> f64_le t f64_1
      else f64_is_nan t \<or> f64_le f64_0 t \<and> f64_le t f64_1)"

lemma score_in_band:
  "score_in_band obj (if 0 < mo_pin_count obj then f64_clamp (f64_max w f64_0_9) f64_0 f64_1
      else f64_clamp w f64_0 f64_1)"
  using pin_floor [of w] clamp_unit_total [of w] by (simp add: score_in_band_def)

lemma score_in_band_bounds:
  assumes "score_in_band obj t"
  shows "(0 < mo_pin_count obj \<longrightarrow> f64_le f64_0_9 t \<and> f64_le t f64_1) \<and>
     (f64_is_nan t \<or> f64_le f64_0 t \<and> f64_le t f64_1)"
proof (cases "0 < mo_pin_count obj")
  case True
  then have "f64_le f64_0_9 t" and "f64_le t f64_1" using assms by (simp_all add: score_in_band_def)
  moreover then have "f64_le f64_0 t" by (auto intro: f64_le_trans [of f64_0 f64_0_9])
  ultimately show ?thesis by blast
next
  case False
  then show ?thesis using assms by (simp add: score_in_band_def)
qed

section \<open>Properties\<close>



text \<open>
  The two scoring routines agree on the default profile, given that the host multiplies 14.0 by
  86400.0 to the double of fourteen days' seconds (the product is exact).
\<close>

lemma default_profile_agrees:
  assumes "f_mul F f64_14 f64_86400 = f_of_int F 1209600"
  shows "compute_with_profile F obj now (profile_default F) = compute_retention_score F obj now"
proof -
  have "profile_half_life_seconds F (profile_default F) (mo_sensitivity_class obj) =
      half_life_seconds_for_class F obj"
    by (cases "mo_sensitivity_class obj")
       (simp_all add: profile_half_life_seconds_def half_life_seconds_for_class_def profile_default_def)
  moreover have "non_use_half_life_seconds F (profile_default F) =
      f_of_int F (num_seconds (duration_days 14))"
    using assms by (simp add: non_use_half_life_seconds_def profile_default_def num_seconds_def
        duration_days_def nanos_per_sec_def)
  ultimately show ?thesis
    unfolding compute_with_profile_def compute_retention_score_def compute_with_weights_def
      compute_with_weights_and_profile_def by simp
qed

lemma retention_pinned_above_default:
  assumes "0 < mo_pin_count obj"
  shows "\<not> f64_lt (rs_total (compute_retention_score F obj now)) f64_0_15"
proof -
  have "f64_le f64_0_9 (rs_total (compute_retention_score F obj now))"
    using total_with_weights [of F obj now weights_default] score_in_band [of obj] assms
    unfolding compute_retention_score_def score_in_band_def by fastforce
  then have "f64_le f64_0_15 (rs_total (compute_retention_score F obj now))"
    by (rule f64_le_trans [rotated]) simp
  then show ?thesis by (simp add: f64_lt_iff)
qed

end
