(* ===== verification/Memory_Policy.thy ===== *)
theory Memory_Policy
  imports Retention
begin

text \<open>
  Retention policies, the policy engine, and the sweeps it drives (\<^verbatim>\<open>memory_manager\<close>:
  \<^verbatim>\<open>policy.rs\<close>, \<^verbatim>\<open>decay.rs\<close>, \<^verbatim>\<open>purge.rs\<close>). A sweep takes the objects and returns them updated with
  its report.
\<close>

section \<open>Policies\<close>

datatype policy_scope = GlobalScope | TenantScope | ScopeScope | UserScope

record retention_policy =
  rp_policy_id :: uuid
  rp_name :: string
  rp_scope :: policy_scope
  rp_target_id :: "uuid option"
  rp_priority :: "32 word"
  rp_candidate_archive_threshold :: f64
  rp_superseded_archive_after :: duration
  rp_canonical_min_retention :: duration
  rp_archived_max_retention :: "duration option"
  rp_promote_to_reinforced_after_retrievals :: "32 word"
  rp_promote_to_consolidated_after_sources :: "32 word"
  rp_promote_to_canonical_after_stable :: "duration option"
  rp_legal_hold :: bool
  rp_legal_hold_until :: "instant option"
  rp_minimum_retention_until :: "instant option"
  rp_maximum_retention_until :: "instant option"
  rp_allow_resurrection :: bool
  rp_resurrection_retrieval_threshold :: "32 word"
  rp_archive_on_events :: "string list"
  rp_delete_on_events :: "string list"
  rp_preserve_on_events :: "string list"

definition policy_global_default :: retention_policy where
  "policy_global_default = \<lparr>
     rp_policy_id = 0x00010000000000000000000000000001,
     rp_name = ''global-default'',
     rp_scope = GlobalScope,
     rp_target_id = None,
     rp_priority = 0,
     rp_candidate_archive_threshold = f64_0_15,
     rp_superseded_archive_after = duration_days 90,
     rp_canonical_min_retention = duration_days 365,
     rp_archived_max_retention = None,
     rp_promote_to_reinforced_after_retrievals = 3,
     rp_promote_to_consolidated_after_sources = 2,
     rp_promote_to_canonical_after_stable = Some (duration_days 7),
     rp_legal_hold = False,
     rp_legal_hold_until = None,
     rp_minimum_retention_until = None,
     rp_maximum_retention_until = None,
     rp_allow_resurrection = True,
     rp_resurrection_retrieval_threshold = 1,
     rp_archive_on_events = [],
     rp_delete_on_events = [],
     rp_preserve_on_events = []\<rparr>"

definition policy_b2b_default :: "uuid \<Rightarrow> retention_policy" where
  "policy_b2b_default fresh = \<lparr>
     rp_policy_id = fresh,
     rp_name = ''b2b-default'',
     rp_scope = TenantScope,
     rp_target_id = None,
     rp_priority = 100,
     rp_candidate_archive_threshold = f64_0_1,
     rp_superseded_archive_after = duration_days 365,
     rp_canonical_min_retention = duration_days (365 * 7),
     rp_archived_max_retention = Some (duration_days (365 * 10)),
     rp_promote_to_reinforced_after_retrievals = 5,
     rp_promote_to_consolidated_after_sources = 3,
     rp_promote_to_canonical_after_stable = None,
     rp_legal_hold = False,
     rp_legal_hold_until = None,
     rp_minimum_retention_until = None,
     rp_maximum_retention_until = None,
     rp_allow_resurrection = True,
     rp_resurrection_retrieval_threshold = 1,
     rp_archive_on_events = [''project_closed''],
     rp_delete_on_events = [],
     rp_preserve_on_events = [''litigation_hold'']\<rparr>"

definition policy_b2c_default :: "uuid \<Rightarrow> retention_policy" where
  "policy_b2c_default fresh = \<lparr>
     rp_policy_id = fresh,
     rp_name = ''b2c-default'',
     rp_scope = TenantScope,
     rp_target_id = None,
     rp_priority = 100,
     rp_candidate_archive_threshold = f64_0_2,
     rp_superseded_archive_after = duration_days 30,
     rp_canonical_min_retention = duration_days 365,
     rp_archived_max_retention = Some (duration_days (365 * 3)),
     rp_promote_to_reinforced_after_retrievals = 2,
     rp_promote_to_consolidated_after_sources = 2,
     rp_promote_to_canonical_after_stable = Some (duration_days 1),
     rp_legal_hold = False,
     rp_legal_hold_until = None,
     rp_minimum_retention_until = None,
     rp_maximum_retention_until = None,
     rp_allow_resurrection = True,
     rp_resurrection_retrieval_threshold = 1,
     rp_archive_on_events = [''account_closed''],
     rp_delete_on_events = [''user_requested_deletion''],
     rp_preserve_on_events = []\<rparr>"

definition policy_legal_hold_active :: "retention_policy \<Rightarrow> instant \<Rightarrow> bool" where
  "policy_legal_hold_active p now =
     (if \<not> rp_legal_hold p then False
      else (case rp_legal_hold_until p of Some until \<Rightarrow> now < until | None \<Rightarrow> True))"

definition minimum_retention_until_for :: "retention_policy \<Rightarrow> instant \<Rightarrow> instant option" where
  "minimum_retention_until_for p created_at =
     (case rp_minimum_retention_until p of
        Some u \<Rightarrow> Some u
      | None \<Rightarrow> Some (created_at + rp_canonical_min_retention p))"

definition in_minimum_retention :: "retention_policy \<Rightarrow> memory_object \<Rightarrow> instant \<Rightarrow> bool" where
  "in_minimum_retention p obj now =
     (case minimum_retention_until_for p (mo_created_at obj) of Some until \<Rightarrow> now < until | None \<Rightarrow> False)"

definition in_explicit_minimum_retention :: "retention_policy \<Rightarrow> memory_object \<Rightarrow> instant \<Rightarrow> bool" where
  "in_explicit_minimum_retention p obj now =
     (case rp_minimum_retention_until p of Some until \<Rightarrow> now < until | None \<Rightarrow> False)"

definition past_maximum_retention :: "retention_policy \<Rightarrow> memory_object \<Rightarrow> instant \<Rightarrow> bool" where
  "past_maximum_retention p obj now =
     (case rp_maximum_retention_until p of Some until \<Rightarrow> until \<le> now | None \<Rightarrow> False)"

section \<open>Scope state and the engine\<close>

record scope_retention_state =
  ss_scope_id :: uuid
  ss_policy_id :: "uuid option"
  ss_legal_hold :: bool
  ss_legal_hold_until :: "instant option"
  ss_active_events :: "string list"
  ss_event_timestamps :: "string \<rightharpoonup> instant"

definition scope_state_default :: scope_retention_state where
  "scope_state_default = \<lparr>ss_scope_id = 0, ss_policy_id = None, ss_legal_hold = False,
     ss_legal_hold_until = None, ss_active_events = [], ss_event_timestamps = Map.empty\<rparr>"

definition scope_legal_hold_active :: "scope_retention_state \<Rightarrow> instant \<Rightarrow> bool" where
  "scope_legal_hold_active s now =
     (if \<not> ss_legal_hold s then False
      else (case ss_legal_hold_until s of Some until \<Rightarrow> now < until | None \<Rightarrow> True))"

datatype policy_decision =
  Keep | ArchiveIt | DeleteIt | ResurrectIt | PromoteToReinforced | PromoteToConsolidated
| PromoteToCanonical

record policy_engine =
  pe_policies :: "uuid \<rightharpoonup> retention_policy"
  pe_scope_state :: "uuid \<rightharpoonup> scope_retention_state"
  pe_tenant_policies :: "uuid \<rightharpoonup> uuid"
  pe_global_default :: retention_policy

definition policy_engine_new :: policy_engine where
  "policy_engine_new = (let d = policy_global_default in
     \<lparr>pe_policies = [rp_policy_id d \<mapsto> d], pe_scope_state = Map.empty,
      pe_tenant_policies = Map.empty, pe_global_default = d\<rparr>)"

lemma policy_engine_new_sel [simp]:
  "pe_scope_state policy_engine_new = Map.empty" "pe_tenant_policies policy_engine_new = Map.empty"
  "pe_global_default policy_engine_new = policy_global_default"
  by (simp_all add: policy_engine_new_def Let_def)

definition register_policy :: "retention_policy \<Rightarrow> policy_engine \<Rightarrow> policy_engine" where
  "register_policy p e = e\<lparr>pe_policies := (pe_policies e)(rp_policy_id p \<mapsto> p)\<rparr>"

text \<open>The error of the two setters is a message that names the policy: \<open>Inl pid\<close>.\<close>

definition set_tenant_policy :: "uuid \<Rightarrow> uuid \<Rightarrow> policy_engine \<Rightarrow> (uuid + unit) \<times> policy_engine" where
  "set_tenant_policy tenant_id policy_id e =
     (if pe_policies e policy_id = None then (Inl policy_id, e)
      else (Inr (), e\<lparr>pe_tenant_policies := (pe_tenant_policies e)(tenant_id \<mapsto> policy_id)\<rparr>))"

definition scope_state_or_default :: "policy_engine \<Rightarrow> uuid \<Rightarrow> scope_retention_state" where
  "scope_state_or_default e scope_id =
     (case pe_scope_state e scope_id of None \<Rightarrow> scope_state_default | Some s \<Rightarrow> s)"

definition set_scope_policy :: "uuid \<Rightarrow> uuid \<Rightarrow> policy_engine \<Rightarrow> (uuid + unit) \<times> policy_engine" where
  "set_scope_policy scope_id policy_id e =
     (if pe_policies e policy_id = None then (Inl policy_id, e)
      else (Inr (), e\<lparr>pe_scope_state := (pe_scope_state e)(scope_id \<mapsto>
        (scope_state_or_default e scope_id)\<lparr>ss_scope_id := scope_id, ss_policy_id := Some policy_id\<rparr>)\<rparr>))"

definition set_legal_hold ::
  "uuid \<Rightarrow> bool \<Rightarrow> instant option \<Rightarrow> policy_engine \<Rightarrow> policy_engine" where
  "set_legal_hold scope_id hold until e =
     e\<lparr>pe_scope_state := (pe_scope_state e)(scope_id \<mapsto>
       (scope_state_or_default e scope_id)\<lparr>ss_scope_id := scope_id, ss_legal_hold := hold,
         ss_legal_hold_until := until\<rparr>)\<rparr>"

definition add_event :: "uuid \<Rightarrow> string \<Rightarrow> instant \<Rightarrow> policy_engine \<Rightarrow> policy_engine" where
  "add_event scope_id event at e =
     (let s = scope_state_or_default e scope_id;
          events = (if \<exists>x \<in> set (ss_active_events s). x = event then ss_active_events s
                    else ss_active_events s @ [event])
      in e\<lparr>pe_scope_state := (pe_scope_state e)(scope_id \<mapsto>
           s\<lparr>ss_scope_id := scope_id, ss_active_events := events,
             ss_event_timestamps := (ss_event_timestamps s)(event \<mapsto> at)\<rparr>)\<rparr>)"

definition clear_event :: "uuid \<Rightarrow> string \<Rightarrow> policy_engine \<Rightarrow> policy_engine" where
  "clear_event scope_id event e =
     (case pe_scope_state e scope_id of
        None \<Rightarrow> e
      | Some s \<Rightarrow> e\<lparr>pe_scope_state := (pe_scope_state e)(scope_id \<mapsto>
          s\<lparr>ss_active_events := filter (\<lambda>x. x \<noteq> event) (ss_active_events s),
            ss_event_timestamps := (ss_event_timestamps s)(event := None)\<rparr>)\<rparr>)"

definition resolve_policy :: "policy_engine \<Rightarrow> uuid \<Rightarrow> uuid option \<Rightarrow> retention_policy" where
  "resolve_policy e scope_id tenant_id =
     (case Option.bind (Option.bind (pe_scope_state e scope_id) ss_policy_id) (pe_policies e) of
        Some policy \<Rightarrow> policy
      | None \<Rightarrow>
          (case Option.bind (Option.bind tenant_id (pe_tenant_policies e)) (pe_policies e) of
             Some policy \<Rightarrow> policy
           | None \<Rightarrow> pe_global_default e))"

section \<open>Evaluation\<close>

definition any_event :: "scope_retention_state option \<Rightarrow> string list \<Rightarrow> bool" where
  "any_event s events =
     (case s of None \<Rightarrow> False | Some st \<Rightarrow> (\<exists>x \<in> set (ss_active_events st). x \<in> set events))"

text \<open>The guard at the head of \<^verbatim>\<open>evaluate\<close>: policy hold, scope hold, or a preserving event.\<close>

definition hold_in_force ::
  "policy_engine \<Rightarrow> uuid \<Rightarrow> uuid option \<Rightarrow> instant \<Rightarrow> bool" where
  "hold_in_force e scope_id tenant_id now =
     (let policy = resolve_policy e scope_id tenant_id; s = pe_scope_state e scope_id in
      policy_legal_hold_active policy now \<or>
      (case s of None \<Rightarrow> False | Some st \<Rightarrow> scope_legal_hold_active st now) \<or>
      any_event s (rp_preserve_on_events policy))"

definition promotion_rule ::
  "retention_policy \<Rightarrow> memory_object \<Rightarrow> instant \<Rightarrow> retention_score \<Rightarrow> policy_decision option" where
  "promotion_rule policy obj now score =
     (case mo_state obj of
        Candidate \<Rightarrow>
          (if rp_promote_to_reinforced_after_retrievals policy \<le> mo_retrieval_count obj \<and>
              f64_le f64_0_4 (rs_total score) then Some PromoteToReinforced else None)
      | Reinforced \<Rightarrow>
          (if rp_promote_to_consolidated_after_sources policy \<le> mo_corroboration_count obj
           then Some PromoteToConsolidated else None)
      | Consolidated \<Rightarrow>
          (case rp_promote_to_canonical_after_stable policy of
             None \<Rightarrow> None
           | Some stable_for \<Rightarrow>
               (let stable_since = (case mo_consolidated_at obj of None \<Rightarrow> mo_created_at obj | Some t \<Rightarrow> t)
                in if stable_since + stable_for \<le> now then Some PromoteToCanonical else None))
      | _ \<Rightarrow> None)"

definition archive_rule ::
  "retention_policy \<Rightarrow> memory_object \<Rightarrow> instant \<Rightarrow> retention_score \<Rightarrow> policy_decision" where
  "archive_rule policy obj now score =
     (case mo_state obj of
        Candidate \<Rightarrow>
          (if in_minimum_retention policy obj now then Keep
           else if f64_lt (rs_total score) (rp_candidate_archive_threshold policy) then ArchiveIt
           else Keep)
      | Superseded \<Rightarrow>
          (if in_minimum_retention policy obj now then Keep
           else if mo_last_accessed_at obj + rp_superseded_archive_after policy \<le> now then ArchiveIt
           else Keep)
      | Archived \<Rightarrow>
          (case rp_archived_max_retention policy of
             None \<Rightarrow> Keep
           | Some max_age \<Rightarrow> if mo_created_at obj + max_age \<le> now then DeleteIt else Keep)
      | _ \<Rightarrow> Keep)"

definition evaluate_policy ::
  "policy_engine \<Rightarrow> memory_object \<Rightarrow> uuid option \<Rightarrow> instant \<Rightarrow> retention_score \<Rightarrow> policy_decision" where
  "evaluate_policy e obj tenant_id now score =
     (let policy = resolve_policy e (mo_scope_id obj) tenant_id;
          s = pe_scope_state e (mo_scope_id obj)
      in if hold_in_force e (mo_scope_id obj) tenant_id now then Keep
         else if past_maximum_retention policy obj now then DeleteIt
         else if any_event s (rp_delete_on_events policy) then DeleteIt
         else if any_event s (rp_archive_on_events policy) \<and>
                 \<not> in_explicit_minimum_retention policy obj now then ArchiveIt
         else if mo_state obj = Archived \<and> rp_allow_resurrection policy \<and>
                 rp_resurrection_retrieval_threshold policy \<le> mo_retrieval_count obj
           then ResurrectIt
         else (case promotion_rule policy obj now score of
                 Some d \<Rightarrow> d
               | None \<Rightarrow> archive_rule policy obj now score))"

section \<open>Sweeps\<close>

record decay_sweep_report =
  sr_scored :: nat
  sr_candidates_archived :: nat
  sr_superseded_archived :: nat
  sr_archived_resurrected :: nat
  sr_promoted_to_reinforced :: nat
  sr_promoted_to_consolidated :: nat
  sr_promoted_to_canonical :: nat
  sr_deleted_by_policy :: nat

definition report_default :: decay_sweep_report where
  "report_default = \<lparr>sr_scored = 0, sr_candidates_archived = 0, sr_superseded_archived = 0,
     sr_archived_resurrected = 0, sr_promoted_to_reinforced = 0, sr_promoted_to_consolidated = 0,
     sr_promoted_to_canonical = 0, sr_deleted_by_policy = 0\<rparr>"

text \<open>\<^verbatim>\<open>result.is_ok()\<close> followed by an update of the report.\<close>

definition count_if_ok ::
  "(decay_sweep_report \<Rightarrow> decay_sweep_report) \<Rightarrow> transition_result \<Rightarrow> decay_sweep_report \<Rightarrow>
   memory_object \<times> decay_sweep_report" where
  "count_if_ok inc res report =
     (case res of (Inl _, obj) \<Rightarrow> (obj, report) | (Inr _, obj) \<Rightarrow> (obj, inc report))"

abbreviation "inc_scored \<equiv> sr_scored_update Suc"
abbreviation "inc_candidates_archived \<equiv> sr_candidates_archived_update Suc"
abbreviation "inc_superseded_archived \<equiv> sr_superseded_archived_update Suc"
abbreviation "inc_archived_resurrected \<equiv> sr_archived_resurrected_update Suc"
abbreviation "inc_promoted_to_reinforced \<equiv> sr_promoted_to_reinforced_update Suc"
abbreviation "inc_promoted_to_consolidated \<equiv> sr_promoted_to_consolidated_update Suc"
abbreviation "inc_promoted_to_canonical \<equiv> sr_promoted_to_canonical_update Suc"
abbreviation "inc_deleted_by_policy \<equiv> sr_deleted_by_policy_update Suc"

definition decay_step ::
  "f64_ops \<Rightarrow> instant \<Rightarrow> f64 \<Rightarrow> duration \<Rightarrow> memory_object \<Rightarrow> decay_sweep_report \<Rightarrow>
   memory_object \<times> decay_sweep_report" where
  "decay_step F now candidate_archive_threshold superseded_ttl obj0 report0 =
     (let score = compute_retention_score F obj0 now;
          obj = obj0\<lparr>mo_retention_score := rs_total score\<rparr>;
          report = inc_scored report0;
          is_critical = (mo_sensitivity_class obj = Critical);
          try_archive_candidate = (mo_state obj = Candidate \<and> \<not> is_critical \<and>
            f64_lt (rs_total score) candidate_archive_threshold);
          try_archive_superseded = (mo_state obj = Superseded \<and> \<not> is_critical \<and>
            superseded_ttl \<le> now - mo_last_accessed_at obj);
          (obj1, report1) =
            (if try_archive_candidate then count_if_ok inc_candidates_archived (archive_candidate obj) report
             else (obj, report))
      in if try_archive_superseded
         then count_if_ok inc_superseded_archived (archive_superseded obj1) report1
         else (obj1, report1))"

definition decay_sweep_with ::
  "f64_ops \<Rightarrow> memory_object list \<Rightarrow> instant \<Rightarrow> f64 \<Rightarrow> duration \<Rightarrow> memory_object list \<times> decay_sweep_report" where
  "decay_sweep_with F objects now candidate_archive_threshold superseded_ttl =
     for_each_mut (decay_step F now candidate_archive_threshold superseded_ttl) objects report_default"

definition default_candidate_archive_threshold :: f64 where
  "default_candidate_archive_threshold = f64_0_15"

definition default_superseded_ttl_days :: int where
  "default_superseded_ttl_days = 90"

definition decay_sweep ::
  "f64_ops \<Rightarrow> memory_object list \<Rightarrow> instant \<Rightarrow> memory_object list \<times> decay_sweep_report" where
  "decay_sweep F objects now =
     decay_sweep_with F objects now default_candidate_archive_threshold
       (duration_days default_superseded_ttl_days)"

definition apply_decision ::
  "instant \<Rightarrow> policy_decision \<Rightarrow> memory_object \<Rightarrow> decay_sweep_report \<Rightarrow> memory_object \<times> decay_sweep_report" where
  "apply_decision now d obj report =
     (case d of
        Keep \<Rightarrow> (obj, report)
      | ArchiveIt \<Rightarrow>
          (let from_state = mo_state obj in
           count_if_ok (case from_state of
               Candidate \<Rightarrow> inc_candidates_archived
             | Superseded \<Rightarrow> inc_superseded_archived
             | _ \<Rightarrow> id) (sm_archive obj) report)
      | DeleteIt \<Rightarrow> count_if_ok inc_deleted_by_policy (sm_delete obj) report
      | ResurrectIt \<Rightarrow> count_if_ok inc_archived_resurrected (resurrect now obj) report
      | PromoteToReinforced \<Rightarrow>
          (if mo_state obj = Candidate
           then count_if_ok inc_promoted_to_reinforced (reinforce obj) report else (obj, report))
      | PromoteToConsolidated \<Rightarrow>
          (if mo_state obj = Reinforced
           then count_if_ok inc_promoted_to_consolidated (consolidate now obj) report else (obj, report))
      | PromoteToCanonical \<Rightarrow>
          (if mo_state obj = Consolidated
           then count_if_ok inc_promoted_to_canonical (canonicalize obj) report else (obj, report)))"

definition policy_step ::
  "f64_ops \<Rightarrow> instant \<Rightarrow> policy_engine \<Rightarrow> uuid option \<Rightarrow> memory_object \<Rightarrow> decay_sweep_report \<Rightarrow>
   memory_object \<times> decay_sweep_report" where
  "policy_step F now engine tenant_id obj0 report0 =
     (let score = compute_retention_score F obj0 now;
          obj = obj0\<lparr>mo_retention_score := rs_total score\<rparr>;
          report = inc_scored report0
      in apply_decision now (evaluate_policy engine obj tenant_id now score) obj report)"

definition decay_sweep_with_policy ::
  "f64_ops \<Rightarrow> memory_object list \<Rightarrow> instant \<Rightarrow> policy_engine \<Rightarrow> uuid option \<Rightarrow>
   memory_object list \<times> decay_sweep_report" where
  "decay_sweep_with_policy F objects now engine tenant_id =
     for_each_mut (policy_step F now engine tenant_id) objects report_default"

section \<open>Purge of archived objects\<close>

definition default_archived_retention_days :: int where
  "default_archived_retention_days = 365"

record purge_config =
  pc_retention :: duration
  pc_purge_pinned :: bool

definition purge_config_default :: purge_config where
  "purge_config_default =
     \<lparr>pc_retention = duration_days default_archived_retention_days, pc_purge_pinned = False\<rparr>"

definition with_retention_days :: "int \<Rightarrow> purge_config" where
  "with_retention_days d = \<lparr>pc_retention = duration_days d, pc_purge_pinned = False\<rparr>"

definition config_purge_pinned :: "bool \<Rightarrow> purge_config \<Rightarrow> purge_config" where
  "config_purge_pinned purge c = c\<lparr>pc_purge_pinned := purge\<rparr>"

record purge_report =
  pr_examined :: nat
  pr_purged :: nat
  pr_skipped_pinned :: nat
  pr_skipped_within_ttl :: nat

definition purge_report_default :: purge_report where
  "purge_report_default =
     \<lparr>pr_examined = 0, pr_purged = 0, pr_skipped_pinned = 0, pr_skipped_within_ttl = 0\<rparr>"

definition purge_step ::
  "instant \<Rightarrow> purge_config \<Rightarrow> memory_object \<Rightarrow> purge_report \<Rightarrow> memory_object \<times> purge_report" where
  "purge_step now config obj report0 =
     (if mo_state obj \<noteq> Archived then (obj, report0)
      else let report = pr_examined_update Suc report0 in
        if 0 < mo_pin_count obj \<and> \<not> pc_purge_pinned config
        then (obj, pr_skipped_pinned_update Suc report)
        else if now - mo_last_accessed_at obj < pc_retention config
        then (obj, pr_skipped_within_ttl_update Suc report)
        else (case delete_archived obj of
                (Inl _, obj1) \<Rightarrow> (obj1, report)
              | (Inr _, obj1) \<Rightarrow> (obj1, pr_purged_update Suc report)))"

definition purge_archived ::
  "memory_object list \<Rightarrow> instant \<Rightarrow> purge_config \<Rightarrow> memory_object list \<times> purge_report" where
  "purge_archived objects now config =
     for_each_mut (purge_step now config) objects purge_report_default"

definition purge_archived_default ::
  "memory_object list \<Rightarrow> instant \<Rightarrow> memory_object list \<times> purge_report" where
  "purge_archived_default objects now = purge_archived objects now purge_config_default"

section \<open>One step of each sweep\<close>

text \<open>Both steps leave the object's new value independent of the report.\<close>

definition swept :: "(memory_object \<Rightarrow> 'r \<Rightarrow> memory_object \<times> 'r) \<Rightarrow> 'r \<Rightarrow> memory_object \<Rightarrow> memory_object" where
  "swept step r obj = fst (step obj r)"

lemma count_if_ok_fst: "fst (count_if_ok inc res r) = snd res"
  by (simp add: count_if_ok_def split: prod.split sum.split)

lemma count_if_ok_snd: "snd (count_if_ok inc res r) = (case fst res of Inl _ \<Rightarrow> r | Inr _ \<Rightarrow> inc r)"
  by (simp add: count_if_ok_def split: prod.split sum.split)

lemma apply_decision_fst: "fst (apply_decision now d obj r) = fst (apply_decision now d obj report_default)"
  by (cases d) (simp_all add: apply_decision_def count_if_ok_fst Let_def)

lemma policy_step_fst:
  "fst (policy_step F now e t obj r) = swept (policy_step F now e t) report_default obj"
  unfolding swept_def policy_step_def Let_def
  by (metis apply_decision_fst)

lemma decay_step_eq:
  "decay_step F now thr ttl obj0 r0 =
     (let score = compute_retention_score F obj0 now;
          obj = obj0\<lparr>mo_retention_score := rs_total score\<rparr>;
          r = inc_scored r0
      in if mo_sensitivity_class obj0 \<noteq> Critical \<and> mo_state obj0 = Candidate \<and> f64_lt (rs_total score) thr
         then (obj\<lparr>mo_state := Archived\<rparr>, inc_candidates_archived r)
         else if mo_sensitivity_class obj0 \<noteq> Critical \<and> mo_state obj0 = Superseded \<and>
                 ttl \<le> now - mo_last_accessed_at obj0
         then (obj\<lparr>mo_state := Archived\<rparr>, inc_superseded_archived r)
         else (obj, r))"
  by (simp add: decay_step_def Let_def count_if_ok_def transition_defs)

lemma decay_step_fst:
  "fst (decay_step F now thr ttl obj r) = swept (decay_step F now thr ttl) report_default obj"
  by (simp add: swept_def decay_step_eq Let_def)

lemma purge_step_eq:
  "purge_step now config obj r0 =
     (if mo_state obj \<noteq> Archived then (obj, r0)
      else if 0 < mo_pin_count obj \<and> \<not> pc_purge_pinned config
      then (obj, pr_skipped_pinned_update Suc (pr_examined_update Suc r0))
      else if now - mo_last_accessed_at obj < pc_retention config
      then (obj, pr_skipped_within_ttl_update Suc (pr_examined_update Suc r0))
      else (obj\<lparr>mo_state := Deleted\<rparr>, pr_purged_update Suc (pr_examined_update Suc r0)))"
  by (simp add: purge_step_def Let_def transition_defs)

lemma decay_sweep_with_map:
  "decay_sweep_with F objs now thr ttl =
     (map (swept (decay_step F now thr ttl) report_default) objs,
      fold (\<lambda>obj r. snd (decay_step F now thr ttl obj r)) objs report_default)"
  unfolding decay_sweep_with_def by (rule for_each_mut_map) (simp_all add: decay_step_fst)

lemma policy_sweep_map:
  "decay_sweep_with_policy F objs now e t =
     (map (swept (policy_step F now e t) report_default) objs,
      fold (\<lambda>obj r. snd (policy_step F now e t obj r)) objs report_default)"
  unfolding decay_sweep_with_policy_def by (rule for_each_mut_map) (simp_all add: policy_step_fst)

text \<open>The decision for one object, as the sweep takes it.\<close>

abbreviation decision_for ::
  "f64_ops \<Rightarrow> instant \<Rightarrow> policy_engine \<Rightarrow> uuid option \<Rightarrow> memory_object \<Rightarrow> policy_decision" where
  "decision_for F now e t obj0 \<equiv>
     (let score = compute_retention_score F obj0 now in
      evaluate_policy e (obj0\<lparr>mo_retention_score := rs_total score\<rparr>) t now score)"

text \<open>A decision is only made in a state where it makes sense.\<close>

lemma promotion_rule_enabled:
  "promotion_rule policy obj now score = Some d \<Longrightarrow>
     d = PromoteToReinforced \<and> mo_state obj = Candidate \<or>
     d = PromoteToConsolidated \<and> mo_state obj = Reinforced \<or>
     d = PromoteToCanonical \<and> mo_state obj = Consolidated"
  by (cases "mo_state obj") (auto simp: promotion_rule_def Let_def split: if_splits option.splits)

lemma archive_rule_never_promotes:
  "archive_rule policy obj now score \<in> {Keep, ArchiveIt, DeleteIt}"
  by (cases "mo_state obj") (auto simp: archive_rule_def split: option.split)

lemma evaluate_policy_enabled:
  "evaluate_policy e obj t now score = ResurrectIt \<Longrightarrow> mo_state obj = Archived"
  "evaluate_policy e obj t now score = PromoteToReinforced \<Longrightarrow> mo_state obj = Candidate"
  "evaluate_policy e obj t now score = PromoteToConsolidated \<Longrightarrow> mo_state obj = Reinforced"
  "evaluate_policy e obj t now score = PromoteToCanonical \<Longrightarrow> mo_state obj = Consolidated"
  using promotion_rule_enabled [of "resolve_policy e (mo_scope_id obj) t" obj now score]
    archive_rule_never_promotes [of "resolve_policy e (mo_scope_id obj) t" obj now score]
  unfolding evaluate_policy_def Let_def
  by (auto split: if_splits option.splits)

lemma apply_decision_state:
  assumes "d = ResurrectIt \<longrightarrow> mo_state obj = Archived"
  shows "mo_state (fst (apply_decision now d obj r)) = mo_state obj \<or>
     memory_edge (mo_state obj) (mo_state (fst (apply_decision now d obj r)))"
  using assms
  by (cases d; cases "mo_state obj")
     (simp_all add: apply_decision_def count_if_ok_fst transition_defs memory_edge_def policy_edge_def)

lemma swept_policy:
  "swept (policy_step F now e t) r obj0 =
     fst (apply_decision now (decision_for F now e t obj0)
       (obj0\<lparr>mo_retention_score := rs_total (compute_retention_score F obj0 now)\<rparr>) (inc_scored r))"
  by (simp add: swept_def policy_step_def Let_def)

lemma swept_policy_edge:
  "mo_state (swept (policy_step F now e t) r obj) = mo_state obj \<or>
   memory_edge (mo_state obj) (mo_state (swept (policy_step F now e t) r obj))"
  unfolding swept_policy
  using apply_decision_state
    [of "decision_for F now e t obj" "obj\<lparr>mo_retention_score := rs_total (compute_retention_score F obj now)\<rparr>"]
    evaluate_policy_enabled(1)
  by (fastforce simp: Let_def)

section \<open>What the report counts\<close>

text \<open>The number of objects that went from state \<open>a\<close> to state \<open>b\<close> in a sweep.\<close>

definition moves :: "memory_object list \<Rightarrow> memory_object list \<Rightarrow> memory_state \<Rightarrow> memory_state \<Rightarrow> nat" where
  "moves xs ys a b = length (filter (\<lambda>(x, y). mo_state x = a \<and> mo_state y = b) (zip xs ys))"

lemma moves_map: "moves xs (map g xs) a b = length (filter (\<lambda>x. mo_state x = a \<and> mo_state (g x) = b) xs)"
  by (simp add: moves_def length_filter_zip_map)

lemma deleted_map:
  "length (filter (\<lambda>(x, y). mo_state x \<noteq> Deleted \<and> mo_state y = Deleted) (zip xs (map g xs))) =
   length (filter (\<lambda>x. mo_state x \<noteq> Deleted \<and> mo_state (g x) = Deleted) xs)"
  by (simp add: length_filter_zip_map)

text \<open>
  One step of the policy sweep raises exactly the counter of the transition it makes. The report is
  written with the state before and after.
\<close>

definition tally :: "memory_state \<Rightarrow> memory_state \<Rightarrow> decay_sweep_report \<Rightarrow> decay_sweep_report" where
  "tally a b r =
     (if a = Candidate \<and> b = Archived then inc_candidates_archived r
      else if a = Superseded \<and> b = Archived then inc_superseded_archived r
      else if a = Archived \<and> b = Reinforced then inc_archived_resurrected r
      else if a = Candidate \<and> b = Reinforced then inc_promoted_to_reinforced r
      else if a = Reinforced \<and> b = Consolidated then inc_promoted_to_consolidated r
      else if a = Consolidated \<and> b = Canonical then inc_promoted_to_canonical r
      else if a \<noteq> Deleted \<and> b = Deleted then inc_deleted_by_policy r
      else r)"

lemma apply_decision_tally:
  "snd (apply_decision now d obj r) =
   tally (mo_state obj) (mo_state (fst (apply_decision now d obj r))) r"
  by (cases d; cases "mo_state obj")
     (simp_all add: apply_decision_def count_if_ok_fst count_if_ok_snd transition_defs tally_def)

lemma policy_step_tally:
  "snd (policy_step F now e t obj r) =
   tally (mo_state obj) (mo_state (swept (policy_step F now e t) report_default obj)) (inc_scored r)"
  unfolding policy_step_fst [of F now e t obj r, symmetric]
  by (simp add: policy_step_def Let_def apply_decision_tally)

lemma tally_fields:
  "sr_scored (tally a b r) = sr_scored r"
  "sr_candidates_archived (tally a b r) =
     (if a = Candidate \<and> b = Archived then Suc (sr_candidates_archived r) else sr_candidates_archived r)"
  "sr_superseded_archived (tally a b r) =
     (if a = Superseded \<and> b = Archived then Suc (sr_superseded_archived r) else sr_superseded_archived r)"
  "sr_archived_resurrected (tally a b r) =
     (if a = Archived \<and> b = Reinforced then Suc (sr_archived_resurrected r) else sr_archived_resurrected r)"
  "sr_promoted_to_reinforced (tally a b r) =
     (if a = Candidate \<and> b = Reinforced then Suc (sr_promoted_to_reinforced r) else sr_promoted_to_reinforced r)"
  "sr_promoted_to_consolidated (tally a b r) =
     (if a = Reinforced \<and> b = Consolidated then Suc (sr_promoted_to_consolidated r) else sr_promoted_to_consolidated r)"
  "sr_promoted_to_canonical (tally a b r) =
     (if a = Consolidated \<and> b = Canonical then Suc (sr_promoted_to_canonical r) else sr_promoted_to_canonical r)"
  "sr_deleted_by_policy (tally a b r) =
     (if a \<noteq> Deleted \<and> b = Deleted then Suc (sr_deleted_by_policy r) else sr_deleted_by_policy r)"
  by (auto simp: tally_def)

lemma policy_fold_field:
  assumes "\<And>a b r. field (tally a b (inc_scored r)) = (if Q a b then Suc (field r) else field r)"
    and "field report_default = 0"
  shows "field (fold (\<lambda>obj r. snd (policy_step F now e t obj r)) objs report_default) =
    length (filter (\<lambda>obj. Q (mo_state obj)
      (mo_state (swept (policy_step F now e t) report_default obj))) objs)"
  using fold_count [of field "\<lambda>obj r. snd (policy_step F now e t obj r)"
      "\<lambda>obj. Q (mo_state obj) (mo_state (swept (policy_step F now e t) report_default obj))"
      objs report_default] assms
  by (simp add: policy_step_tally)

section \<open>Properties\<close>



text \<open>
  The lifecycle under sweeps. Every object of a policy sweep keeps its state or takes an edge of the
  memory state machine, under its own id and at its own place; as no edge leaves the deleted state,
  a deleted object stays deleted.
\<close>

theorem policy_sweep_respects_lifecycle:
  "list_all2 (\<lambda>x y. (mo_state y = mo_state x \<or> memory_edge (mo_state x) (mo_state y)) \<and> mo_id y = mo_id x)
     objs (fst (decay_sweep_with_policy F objs now e t))"
proof -
  have "mo_id (swept (policy_step F now e t) report_default x) = mo_id x" for x
    unfolding swept_policy
    by (cases "decision_for F now e t x"; cases "mo_state x")
       (simp_all add: apply_decision_def count_if_ok_fst transition_defs)
  then show ?thesis
    using swept_policy_edge [of F now e t report_default]
    by (simp add: policy_sweep_map list_all2_conv_all_nth)
qed

text \<open>
  The report is exact: after a policy sweep each counter is the number of objects that made the
  transition it names.
\<close>

theorem policy_report_exact:
  "let out = decay_sweep_with_policy F objs now e t; ys = fst out; r = snd out in
     sr_scored r = length objs \<and>
     sr_candidates_archived r = moves objs ys Candidate Archived \<and>
     sr_superseded_archived r = moves objs ys Superseded Archived \<and>
     sr_archived_resurrected r = moves objs ys Archived Reinforced \<and>
     sr_promoted_to_reinforced r = moves objs ys Candidate Reinforced \<and>
     sr_promoted_to_consolidated r = moves objs ys Reinforced Consolidated \<and>
     sr_promoted_to_canonical r = moves objs ys Consolidated Canonical \<and>
     sr_deleted_by_policy r =
       length (filter (\<lambda>(x, y). mo_state x \<noteq> Deleted \<and> mo_state y = Deleted) (zip objs ys))"
  unfolding Let_def policy_sweep_map fst_conv snd_conv moves_map deleted_map
proof (intro conjI)
  show "sr_scored (fold (\<lambda>obj r. snd (policy_step F now e t obj r)) objs report_default) = length objs"
    using policy_fold_field [of sr_scored "\<lambda>_ _. True"] by (simp add: tally_fields report_default_def)
qed (rule policy_fold_field; simp add: tally_fields report_default_def)+

text \<open>
  Passive decay spares what it must: the plain sweep never changes the state of a critical object,
  and at the default threshold never archives a pinned candidate, for any floating point arithmetic.
\<close>

theorem passive_decay_exemptions:
  assumes "i < length objs"
    and "mo_sensitivity_class (objs ! i) = Critical \<or>
      0 < mo_pin_count (objs ! i) \<and> mo_state (objs ! i) \<noteq> Superseded"
  shows "mo_state (fst (decay_sweep F objs now) ! i) = mo_state (objs ! i)"
  using assms retention_pinned_above_default [of "objs ! i" F now]
  by (auto simp: decay_sweep_def decay_sweep_with_map swept_def decay_step_eq Let_def
      default_candidate_archive_threshold_def)

theorem passive_decay_exemptions_witness:
  "\<forall>F. mo_state (fst (decay_sweep F [(new_candidate 1 0 7 Noise)\<lparr>mo_pin_count := 1\<rparr>] (duration_days 9999)) ! 0)
     = Candidate"
  using passive_decay_exemptions [of 0 "[(new_candidate 1 0 7 Noise)\<lparr>mo_pin_count := 1\<rparr>]" _ "duration_days 9999"]
  by (simp add: new_candidate_def)

text \<open>
  The purge deletes exactly the archived objects that are old enough and unpinned (or whose pin is
  overridden), touches nothing else of them and no other object, and its counters account for every
  archived object.
\<close>

definition purgeable :: "instant \<Rightarrow> purge_config \<Rightarrow> memory_object \<Rightarrow> bool" where
  "purgeable now config obj \<longleftrightarrow> mo_state obj = Archived \<and>
     (mo_pin_count obj = 0 \<or> pc_purge_pinned config) \<and>
     pc_retention config \<le> now - mo_last_accessed_at obj"

lemma purge_sweep_map:
  "purge_archived objs now config =
     (map (\<lambda>obj. if purgeable now config obj then obj\<lparr>mo_state := Deleted\<rparr> else obj) objs,
      fold (\<lambda>obj r. snd (purge_step now config obj r)) objs purge_report_default)"
  unfolding purge_archived_def
  by (rule for_each_mut_map) (auto simp: purge_step_eq purgeable_def word_neq_0_conv)

lemma purge_fold_counts:
  fixes objs now config
  defines "r \<equiv> fold (\<lambda>obj r. snd (purge_step now config obj r)) objs purge_report_default"
  shows "pr_examined r = length (filter (\<lambda>obj. mo_state obj = Archived) objs)"
    and "pr_purged r = length (filter (purgeable now config) objs)"
    and "pr_examined r = pr_purged r + pr_skipped_pinned r + pr_skipped_within_ttl r"
proof -
  let ?f = "\<lambda>obj r. snd (purge_step now config obj r)"
  show "pr_examined r = length (filter (\<lambda>obj. mo_state obj = Archived) objs)"
    unfolding r_def using fold_count [of pr_examined ?f "\<lambda>obj. mo_state obj = Archived"]
    by (simp add: purge_step_eq purge_report_default_def)
  have "pr_purged (?f obj r) = (if purgeable now config obj then Suc (pr_purged r) else pr_purged r)" for obj r
    by (auto simp: purge_step_eq purgeable_def word_neq_0_conv)
  then show "pr_purged r = length (filter (purgeable now config) objs)"
    unfolding r_def using fold_count [of pr_purged ?f "purgeable now config"]
    by (simp add: purge_report_default_def)
  have "pr_examined r0 = pr_purged r0 + pr_skipped_pinned r0 + pr_skipped_within_ttl r0 \<Longrightarrow>
      pr_examined (fold ?f objs r0) = pr_purged (fold ?f objs r0) + pr_skipped_pinned (fold ?f objs r0) +
        pr_skipped_within_ttl (fold ?f objs r0)" for r0
    by (induction objs arbitrary: r0) (simp_all add: purge_step_eq)
  then show "pr_examined r = pr_purged r + pr_skipped_pinned r + pr_skipped_within_ttl r"
    unfolding r_def by (simp add: purge_report_default_def)
qed

theorem purge_exact:
  "fst (purge_archived objs now config) =
     map (\<lambda>obj. if purgeable now config obj then obj\<lparr>mo_state := Deleted\<rparr> else obj) objs \<and>
   pr_purged (snd (purge_archived objs now config)) = length (filter (purgeable now config) objs) \<and>
   pr_examined (snd (purge_archived objs now config)) =
     length (filter (\<lambda>obj. mo_state obj = Archived) objs) \<and>
   pr_examined (snd (purge_archived objs now config)) =
     pr_purged (snd (purge_archived objs now config)) +
     pr_skipped_pinned (snd (purge_archived objs now config)) +
     pr_skipped_within_ttl (snd (purge_archived objs now config))"
  unfolding purge_sweep_map fst_conv snd_conv
  using purge_fold_counts [of now config objs] by blast

text \<open>
  Deletion deadlines. When no hold is in force and the policy's maximum retention has passed, the
  sweep deletes the object whatever its state, its pins and its score; an event in
  \<^verbatim>\<open>delete_on_events\<close> does the same.
\<close>

theorem deadline_deletes:
  assumes "i < length objs" and "\<not> hold_in_force e (mo_scope_id (objs ! i)) t now"
    and "past_maximum_retention (resolve_policy e (mo_scope_id (objs ! i)) t) (objs ! i) now \<or>
      any_event (pe_scope_state e (mo_scope_id (objs ! i)))
        (rp_delete_on_events (resolve_policy e (mo_scope_id (objs ! i)) t))"
  shows "mo_state (fst (decay_sweep_with_policy F objs now e t) ! i) = Deleted"
proof -
  have "decision_for F now e t (objs ! i) = DeleteIt"
    using assms(2,3) by (auto simp: evaluate_policy_def Let_def past_maximum_retention_def)
  then show ?thesis
    using assms(1)
    by (cases "mo_state (objs ! i)")
       (simp_all add: policy_sweep_map swept_policy apply_decision_def count_if_ok_fst transition_defs)
qed

theorem deadline_deletes_witness:
  "\<forall>F. let p = (policy_b2c_default 5)\<lparr>rp_maximum_retention_until := Some 10\<rparr>;
       e = snd (set_scope_policy 7 5 (register_policy p policy_engine_new));
       obj = (new_candidate 1 0 7 Important)\<lparr>mo_pin_count := 3\<rparr>
   in mo_state (fst (decay_sweep_with_policy F [obj] 10 e None) ! 0) = Deleted"
proof -
  let ?p = "(policy_b2c_default 5)\<lparr>rp_maximum_retention_until := Some 10\<rparr>"
  let ?e = "snd (set_scope_policy 7 5 (register_policy ?p policy_engine_new))"
  let ?obj = "(new_candidate 1 0 7 Important)\<lparr>mo_pin_count := 3\<rparr>"
  have e: "pe_policies ?e 5 = Some ?p" "Option.bind (pe_scope_state ?e 7) ss_policy_id = Some 5"
    by (simp_all add: set_scope_policy_def register_policy_def policy_b2c_default_def)
  then have p: "resolve_policy ?e 7 None = ?p" by (simp add: resolve_policy_def)
  have "\<not> hold_in_force ?e 7 None 10"
    unfolding hold_in_force_def Let_def p
    by (simp add: set_scope_policy_def register_policy_def policy_b2c_default_def scope_state_or_default_def
        scope_state_default_def policy_legal_hold_active_def
        scope_legal_hold_active_def any_event_def)
  moreover have "past_maximum_retention ?p ?obj 10" by (simp add: past_maximum_retention_def)
  ultimately show ?thesis
    using deadline_deletes [of 0 "[?obj]" ?e None 10] p by (simp add: Let_def new_candidate_def)
qed

text \<open>The calls that change the engine.\<close>

datatype engine_call =
  RegisterPolicy retention_policy | SetTenantPolicy uuid uuid | SetScopePolicy uuid uuid
| SetLegalHold uuid bool "instant option" | AddEvent uuid string instant | ClearEvent uuid string

fun exec_engine :: "engine_call \<Rightarrow> policy_engine \<Rightarrow> policy_engine" where
  "exec_engine (RegisterPolicy p) e = register_policy p e"
| "exec_engine (SetTenantPolicy t p) e = snd (set_tenant_policy t p e)"
| "exec_engine (SetScopePolicy s p) e = snd (set_scope_policy s p e)"
| "exec_engine (SetLegalHold s hold until) e = set_legal_hold s hold until e"
| "exec_engine (AddEvent s ev at) e = add_event s ev at e"
| "exec_engine (ClearEvent s ev) e = clear_event s ev e"

fun sets_hold_of :: "uuid \<Rightarrow> engine_call \<Rightarrow> bool" where
  "sets_hold_of scope (SetLegalHold s _ _) = (s = scope)"
| "sets_hold_of scope _ = False"

definition scope_held :: "policy_engine \<Rightarrow> uuid \<Rightarrow> bool" where
  "scope_held e scope \<longleftrightarrow>
     (case pe_scope_state e scope of None \<Rightarrow> False | Some s \<Rightarrow> ss_legal_hold s \<and> ss_legal_hold_until s = None)"

lemma scope_held_hold: "scope_held e scope \<Longrightarrow> hold_in_force e scope t now"
  by (auto simp: scope_held_def hold_in_force_def Let_def scope_legal_hold_active_def split: option.splits)

lemma exec_engine_scope_held:
  assumes "scope_held e scope" and "\<not> sets_hold_of scope c"
  shows "scope_held (exec_engine c e) scope"
proof (cases c)
  case (AddEvent s ev at)
  then show ?thesis using assms
    by (auto simp: add_event_def Let_def scope_held_def scope_state_or_default_def split: option.splits)
next
  case (ClearEvent s ev)
  then show ?thesis using assms
    by (auto simp: clear_event_def scope_held_def split: option.splits)
qed (use assms in \<open>auto simp: scope_held_def register_policy_def set_tenant_policy_def
      set_scope_policy_def set_legal_hold_def scope_state_or_default_def split: option.splits\<close>)

lemma exec_engine_fold_held:
  "scope_held e scope \<Longrightarrow> \<forall>c \<in> set cs. \<not> sets_hold_of scope c \<Longrightarrow>
   scope_held (fold exec_engine cs e) scope"
  by (induction cs arbitrary: e) (simp_all add: exec_engine_scope_held)

text \<open>
  A legal hold is durable. Once a hold without expiry is set on a scope, no sequence of other calls
  on the engine (new policies, reassignments, events, holds on other scopes) lifts it: every later
  sweep leaves the state of every object of the scope as it is.
\<close>

theorem legal_hold_durable:
  assumes "\<forall>c \<in> set cs. \<not> sets_hold_of scope c" and "i < length objs" and "mo_scope_id (objs ! i) = scope"
  shows "mo_state (fst (decay_sweep_with_policy F objs now
      (fold exec_engine cs (set_legal_hold scope True None e)) t) ! i) = mo_state (objs ! i)"
proof -
  let ?e = "fold exec_engine cs (set_legal_hold scope True None e)"
  have "scope_held (set_legal_hold scope True None e) scope"
    by (simp add: set_legal_hold_def scope_held_def)
  then have "hold_in_force ?e (mo_scope_id (objs ! i)) t now"
    using assms by (simp add: scope_held_hold exec_engine_fold_held)
  then have "decision_for F now ?e t (objs ! i) = Keep"
    by (simp add: evaluate_policy_def Let_def)
  then show ?thesis using assms(2) by (simp add: policy_sweep_map swept_policy apply_decision_def)
qed

theorem legal_hold_durable_witness:
  "\<forall>F. let obj = (new_candidate 1 0 7 Noise)\<lparr>mo_state := Superseded\<rparr>;
       cs = [RegisterPolicy (policy_b2c_default 5), SetScopePolicy 7 5, SetLegalHold 8 False None,
             AddEvent 7 ''user_requested_deletion'' 3]
   in mo_state (fst (decay_sweep_with_policy F [obj] (duration_days 4000)
        (fold exec_engine cs (set_legal_hold 7 True None policy_engine_new)) None) ! 0) = Superseded"
  using legal_hold_durable [of "[RegisterPolicy (policy_b2c_default 5), SetScopePolicy 7 5,
      SetLegalHold 8 False None, AddEvent 7 ''user_requested_deletion'' 3]" 7 0
      "[(new_candidate 1 0 7 Noise)\<lparr>mo_state := Superseded\<rparr>]" _ "duration_days 4000" policy_engine_new None]
  by (simp add: Let_def new_candidate_def)

text \<open>
  The age that the purge measures. Archiving does not stamp \<^verbatim>\<open>last_accessed_at\<close>, so an unpinned
  candidate whose last access is older than the retention is deleted by a purge run at the very
  instant at which it was archived: it never has the archived retention period.
\<close>

theorem archived_then_purged_at_once:
  assumes "mo_state obj = Candidate" and "mo_pin_count obj = 0"
    and "pc_retention config \<le> now - mo_last_accessed_at obj"
  shows "fst (archive_candidate obj) = Inr Archived \<and>
    map mo_state (fst (purge_archived [snd (archive_candidate obj)] now config)) = [Deleted]"
  using assms by (simp add: purge_sweep_map purgeable_def transition_defs)

theorem archived_then_purged_at_once_witness:
  "map mo_state (fst (purge_archived_default [snd (archive_candidate (new_candidate 1 0 7 Useful))]
     (duration_days 365))) = [Deleted]"
  using archived_then_purged_at_once [of "new_candidate 1 0 7 Useful" purge_config_default "duration_days 365"]
  by (simp add: new_candidate_def purge_archived_default_def purge_config_default_def
      default_archived_retention_days_def)

text \<open>
  The minimum retention of a policy, documented for canonical objects, is the one applied to
  candidates: under the default policy no candidate younger than 365 days is archived, whatever
  its score.
\<close>

lemma default_policy_keeps_young_candidates:
  assumes "mo_state obj = Candidate" and "now < mo_created_at obj + duration_days 365"
  shows "evaluate_policy policy_engine_new obj t now score \<in> {Keep, PromoteToReinforced}"
proof -
  have res: "resolve_policy policy_engine_new s t = policy_global_default" for s
    by (cases t) (simp_all add: resolve_policy_def)
  have "\<not> hold_in_force policy_engine_new (mo_scope_id obj) t now"
    unfolding hold_in_force_def Let_def res
    by (simp add: policy_global_default_def policy_legal_hold_active_def any_event_def)
  moreover have "in_minimum_retention policy_global_default obj now"
    using assms(2) by (simp add: in_minimum_retention_def minimum_retention_until_for_def policy_global_default_def)
  ultimately show ?thesis
    using assms(1) unfolding evaluate_policy_def Let_def res
    by (simp add: past_maximum_retention_def any_event_def promotion_rule_def
        archive_rule_def policy_global_default_def)
qed

end
