(* ===== verification/User_Memory.thy ===== *)
theory User_Memory
  imports Memory_Policy
begin

text \<open>
  The user memory object (\<^verbatim>\<open>memory_manager/src/user_memory.rs\<close>): a vector of memory objects with
  pin, unpin, forget, list and the two sweeps.
\<close>

section \<open>Filters\<close>

record memory_filter =
  mf_states :: "memory_state list"
  mf_scope_id :: "uuid option"
  mf_observation_type :: "string option"

definition filter_any :: memory_filter where
  "filter_any = \<lparr>mf_states = [], mf_scope_id = None, mf_observation_type = None\<rparr>"

definition filter_with_state :: "memory_state \<Rightarrow> memory_filter \<Rightarrow> memory_filter" where
  "filter_with_state st f = f\<lparr>mf_states := mf_states f @ [st]\<rparr>"

definition filter_with_scope :: "uuid \<Rightarrow> memory_filter \<Rightarrow> memory_filter" where
  "filter_with_scope sc f = f\<lparr>mf_scope_id := Some sc\<rparr>"

definition filter_with_observation_type :: "string \<Rightarrow> memory_filter \<Rightarrow> memory_filter" where
  "filter_with_observation_type t f = f\<lparr>mf_observation_type := Some t\<rparr>"

definition filter_matches :: "memory_filter \<Rightarrow> memory_object \<Rightarrow> bool" where
  "filter_matches f obj =
     (if mf_states f \<noteq> [] \<and> mo_state obj \<notin> set (mf_states f) then False
      else if (case mf_scope_id f of Some sc \<Rightarrow> mo_scope_id obj \<noteq> sc | None \<Rightarrow> False) then False
      else if (case mf_observation_type f of
                 Some t \<Rightarrow> Option.bind (json_get ''observation_type'' (mo_metadata obj)) json_as_str \<noteq> Some t
               | None \<Rightarrow> False) then False
      else True)"

section \<open>Operations\<close>

record user_memory_object =
  um_user_id :: uuid
  um_scope_id :: uuid
  um_objects :: "memory_object list"

definition um_new :: "uuid \<Rightarrow> uuid \<Rightarrow> user_memory_object" where
  "um_new user_id scope_id = \<lparr>um_user_id = user_id, um_scope_id = scope_id, um_objects = []\<rparr>"

definition um_read :: "user_memory_object \<Rightarrow> uuid \<Rightarrow> memory_object option" where
  "um_read um i = List.find (\<lambda>obj. mo_id obj = i) (um_objects um)"

definition um_insert :: "memory_object \<Rightarrow> user_memory_object \<Rightarrow> user_memory_object" where
  "um_insert obj um = um\<lparr>um_objects := um_objects um @ [obj]\<rparr>"

text \<open>\<^verbatim>\<open>find_mut\<close> with the update made through the reference.\<close>

definition um_find_mut ::
  "uuid \<Rightarrow> (memory_object \<Rightarrow> (memory_error + unit) \<times> memory_object) \<Rightarrow> user_memory_object \<Rightarrow>
   (memory_error + unit) \<times> user_memory_object" where
  "um_find_mut i f um =
     (case modify_first (\<lambda>obj. mo_id obj = i) f (um_objects um) of
        None \<Rightarrow> (Inl (MemoryNotFound i), um)
      | Some (r, objs) \<Rightarrow> (r, um\<lparr>um_objects := objs\<rparr>))"

definition pin_object ::
  "f64_ops \<Rightarrow> instant \<Rightarrow> memory_object \<Rightarrow> (memory_error + unit) \<times> memory_object" where
  "pin_object F now obj0 =
     (let obj = obj0\<lparr>mo_pin_count := u32_sat_add (mo_pin_count obj0) 1, mo_last_accessed_at := now\<rparr>;
          rescore = (\<lambda>obj. (Inr (), obj\<lparr>mo_retention_score := rs_total (compute_retention_score F obj now)\<rparr>))
      in if mo_state obj = Candidate
         then (case reinforce obj of (Inl e, obj1) \<Rightarrow> (Inl e, obj1) | (Inr _, obj1) \<Rightarrow> rescore obj1)
         else rescore obj)"

definition um_pin ::
  "f64_ops \<Rightarrow> instant \<Rightarrow> uuid \<Rightarrow> user_memory_object \<Rightarrow> (memory_error + unit) \<times> user_memory_object" where
  "um_pin F now i um = um_find_mut i (pin_object F now) um"

definition um_unpin ::
  "f64_ops \<Rightarrow> instant \<Rightarrow> uuid \<Rightarrow> user_memory_object \<Rightarrow> (memory_error + unit) \<times> user_memory_object" where
  "um_unpin F now i um =
     um_find_mut i (\<lambda>obj0.
       let obj = obj0\<lparr>mo_pin_count := u32_sat_sub (mo_pin_count obj0) 1, mo_last_accessed_at := now\<rparr>
       in (Inr (), obj\<lparr>mo_retention_score := rs_total (compute_retention_score F obj now)\<rparr>)) um"

definition um_forget ::
  "uuid \<Rightarrow> user_memory_object \<Rightarrow> (memory_error + unit) \<times> user_memory_object" where
  "um_forget i um =
     (case position_of (\<lambda>obj. mo_id obj = i) (um_objects um) of
        None \<Rightarrow> (Inl (MemoryNotFound i), um)
      | Some pos \<Rightarrow>
          (if mo_state (um_objects um ! pos) = Canonical
           then (case delete_canonical (um_objects um ! pos) of
                   (Inl e, obj) \<Rightarrow> (Inl e, um\<lparr>um_objects := (um_objects um)[pos := obj]\<rparr>)
                 | (Inr _, obj) \<Rightarrow> (Inr (), um\<lparr>um_objects := (um_objects um)[pos := obj]\<rparr>))
           else (Inr (), um\<lparr>um_objects := remove_at pos (um_objects um)\<rparr>)))"

definition um_list :: "memory_filter \<Rightarrow> user_memory_object \<Rightarrow> memory_object list" where
  "um_list f um = filter (filter_matches f) (um_objects um)"

definition um_add_observation ::
  "uuid \<Rightarrow> instant \<Rightarrow> string \<Rightarrow> string \<Rightarrow> sensitivity_class \<Rightarrow> user_memory_object \<Rightarrow> uuid \<times> user_memory_object" where
  "um_add_observation fresh now observation_type content cls um =
     (let obj = (new_candidate fresh now (um_scope_id um) cls)\<lparr>mo_metadata :=
            JObject [(''observation_type'', JString observation_type), (''content'', JString content)]\<rparr>
      in (mo_id obj, um\<lparr>um_objects := um_objects um @ [obj]\<rparr>))"

definition um_decay_sweep ::
  "f64_ops \<Rightarrow> instant \<Rightarrow> user_memory_object \<Rightarrow> decay_sweep_report \<times> user_memory_object" where
  "um_decay_sweep F now um =
     (case decay_sweep F (um_objects um) now of (objs, r) \<Rightarrow> (r, um\<lparr>um_objects := objs\<rparr>))"

definition um_decay_sweep_with_policy ::
  "f64_ops \<Rightarrow> instant \<Rightarrow> policy_engine \<Rightarrow> uuid option \<Rightarrow> user_memory_object \<Rightarrow>
   decay_sweep_report \<times> user_memory_object" where
  "um_decay_sweep_with_policy F now engine tenant_id um =
     (case decay_sweep_with_policy F (um_objects um) now engine tenant_id of
        (objs, r) \<Rightarrow> (r, um\<lparr>um_objects := objs\<rparr>))"

section \<open>Lemmas\<close>

lemma pin_object_ok:
  "fst (pin_object F now obj) = Inr () \<and> mo_id (snd (pin_object F now obj)) = mo_id obj \<and>
   mo_pin_count (snd (pin_object F now obj)) = u32_sat_add (mo_pin_count obj) 1 \<and>
   mo_state (snd (pin_object F now obj)) = (if mo_state obj = Candidate then Reinforced else mo_state obj)"
  by (simp add: pin_object_def Let_def transition_defs)

lemma u32_sat_add_1_pos: "0 < u32_sat_add a 1"
proof -
  have "0 < unat (u32_sat_add a 1)" by (simp add: unat_u32_sat_add)
  then show ?thesis by (simp add: word_less_nat_alt)
qed

lemma find_none: "\<forall>x \<in> set xs. \<not> p x \<Longrightarrow> List.find p xs = None"
  by (simp add: find_None_iff)

lemma um_find_mut_read:
  assumes "um_read um i = Some obj" and "\<And>x. mo_id (snd (f x)) = mo_id x"
  shows "um_find_mut i f um = (fst (f obj), snd (um_find_mut i f um))"
    and "um_read (snd (um_find_mut i f um)) i = Some (snd (f obj))"
proof -
  have "modify_first (\<lambda>obj. mo_id obj = i) f (um_objects um) \<noteq> None"
    using assms(1) by (auto simp: modify_first_None um_read_def find_Some_iff)
  then obtain r objs where m: "modify_first (\<lambda>obj. mo_id obj = i) f (um_objects um) = Some (r, objs)"
    by auto
  then obtain us x vs y where split: "um_objects um = us @ x # vs" "\<forall>u \<in> set us. mo_id u \<noteq> i" "mo_id x = i"
      "f x = (r, y)" "objs = us @ y # vs"
    by (rule modify_first_SomeE)
  then have "x = obj" using assms(1) by (simp add: um_read_def find_append find_none)
  moreover have "mo_id y = i" using assms(2) [of x] split by simp
  ultimately show "um_find_mut i f um = (fst (f obj), snd (um_find_mut i f um))"
    and "um_read (snd (um_find_mut i f um)) i = Some (snd (f obj))"
    using m split by (simp_all add: um_find_mut_def um_read_def find_append find_none)
qed

lemma find_map_same:
  "(\<And>x. mo_id (g x) = mo_id x) \<Longrightarrow>
   List.find (\<lambda>obj. mo_id obj = i) (map g xs) = map_option g (List.find (\<lambda>obj. mo_id obj = i) xs)"
  by (induction xs) auto

lemma um_decay_sweep_read:
  "um_read (snd (um_decay_sweep F now um)) i =
   map_option (swept (decay_step F now default_candidate_archive_threshold
      (duration_days default_superseded_ttl_days)) report_default) (um_read um i)"
proof -
  have "mo_id (swept (decay_step F now thr ttl) r x) = mo_id x" for thr ttl r x
    by (simp add: swept_def decay_step_eq Let_def)
  then show ?thesis
    by (simp add: um_decay_sweep_def decay_sweep_def decay_sweep_with_map um_read_def find_map_same)
qed

lemma remove_at_other:
  "pos < length xs \<Longrightarrow> p (xs ! pos) \<Longrightarrow> filter (\<lambda>x. \<not> p x) (remove_at pos xs) = filter (\<lambda>x. \<not> p x) xs"
  by (subst id_take_nth_drop [of pos xs]) (simp_all add: remove_at_def)

section \<open>Properties\<close>

text \<open>
  Pinning protects. A pin of an object that is there succeeds, makes a candidate reinforced, and
  afterwards no plain decay sweep, at any time, changes the object's state, unless the object had
  already been superseded.
\<close>

theorem pin_protects:
  assumes "um_read um i = Some obj" and "mo_state obj \<noteq> Superseded"
  shows "fst (um_pin F now i um) = Inr () \<and>
    map_option mo_state (um_read (snd (um_decay_sweep F later (snd (um_pin F now i um)))) i) =
      Some (if mo_state obj = Candidate then Reinforced else mo_state obj)"
proof -
  have read: "um_read (snd (um_pin F now i um)) i = Some (snd (pin_object F now obj))"
    and res: "fst (um_pin F now i um) = fst (pin_object F now obj)"
    using um_find_mut_read [of um i obj "pin_object F now"] assms(1) pin_object_ok [of F now]
    by (simp_all add: um_pin_def) (metis fst_conv)
  have "mo_state (swept (decay_step F later default_candidate_archive_threshold ttl) r x) = mo_state x"
    if "0 < mo_pin_count x" "mo_state x \<noteq> Superseded" for x ttl r
    using that retention_pinned_above_default [of x F later]
    by (simp add: swept_def decay_step_eq Let_def default_candidate_archive_threshold_def)
  then show ?thesis
    using read res assms(2) pin_object_ok [of F now obj] u32_sat_add_1_pos [of "mo_pin_count obj"]
    by (simp add: um_decay_sweep_read)
qed

theorem pin_protects_witness:
  "\<forall>F. let um = snd (um_add_observation 4 0 ''task'' ''write'' Noise (um_new 1 2)) in
     map_option mo_state (um_read (snd (um_decay_sweep F (duration_days 9999) (snd (um_pin F 5 4 um)))) 4)
       = Some Reinforced"
proof -
  let ?um = "snd (um_add_observation 4 0 ''task'' ''write'' Noise (um_new 1 2))"
  let ?obj = "(new_candidate 4 0 2 Noise)\<lparr>mo_metadata :=
      JObject [(''observation_type'', JString ''task''), (''content'', JString ''write'')]\<rparr>"
  have "um_read ?um 4 = Some ?obj"
    by (simp add: um_read_def um_add_observation_def um_new_def Let_def new_candidate_def)
  then show ?thesis
    using pin_protects [of ?um 4 ?obj _ 5 "duration_days 9999"] by (simp add: new_candidate_def Let_def)
qed

text \<open>
  Forgetting. A missing id is reported and changes nothing; otherwise the first object with the id
  is deleted in place when canonical and removed from the vector in any other state, and the other
  objects are untouched, in order.
\<close>

theorem forget_exact:
  "(um_read um i = None \<longrightarrow> um_forget i um = (Inl (MemoryNotFound i), um)) \<and>
   (\<forall>obj. um_read um i = Some obj \<longrightarrow>
      fst (um_forget i um) = Inr () \<and>
      filter (\<lambda>x. mo_id x \<noteq> i) (um_objects (snd (um_forget i um))) = filter (\<lambda>x. mo_id x \<noteq> i) (um_objects um) \<and>
      filter (\<lambda>x. mo_id x = i) (um_objects (snd (um_forget i um))) =
        (if mo_state obj = Canonical then [obj\<lparr>mo_state := Deleted\<rparr>] else []) @
        tl (filter (\<lambda>x. mo_id x = i) (um_objects um)))"
proof (cases "position_of (\<lambda>obj. mo_id obj = i) (um_objects um)")
  case None
  then have "um_read um i = None" by (simp add: um_read_def position_of_None find_None_iff)
  then show ?thesis using None by (simp add: um_forget_def)
next
  case (Some pos)
  let ?xs = "um_objects um" and ?us = "take pos (um_objects um)" and ?vs = "drop (Suc pos) (um_objects um)"
  have pos: "pos < length ?xs" "mo_id (?xs ! pos) = i" "\<forall>j < pos. mo_id (?xs ! j) \<noteq> i"
    using position_of_Some [OF Some] by auto
  have xs: "?xs = ?us @ ?xs ! pos # ?vs" using pos(1) by (rule id_take_nth_drop)
  have us: "\<forall>u \<in> set ?us. mo_id u \<noteq> i" using pos by (auto simp: in_set_conv_nth)
  have read: "um_read um i = Some (?xs ! pos)"
    unfolding um_read_def by (subst xs) (simp add: find_append find_none us pos(2))
  have drop_us: "filter (\<lambda>x. mo_id x = i) ?us = []" using us by (simp add: filter_empty_conv)
  have tail: "tl (filter (\<lambda>x. mo_id x = i) ?xs) = filter (\<lambda>x. mo_id x = i) ?vs"
    by (subst xs) (simp add: drop_us pos(2))
  have others: "filter (\<lambda>x. mo_id x \<noteq> i) ?xs = filter (\<lambda>x. mo_id x \<noteq> i) ?us @ filter (\<lambda>x. mo_id x \<noteq> i) ?vs"
    by (subst xs) (simp add: pos(2))
  have upd: "?xs[pos := y] = ?us @ y # ?vs" for y by (rule upd_conv_take_nth_drop [OF pos(1)])
  show ?thesis
    using Some read tail others drop_us pos(2)
    by (cases "mo_state (?xs ! pos) = Canonical")
       (simp_all add: um_forget_def transition_defs upd remove_at_def)
qed

theorem forget_exact_witness:
  "let um = um_insert ((new_candidate 4 0 2 Useful)\<lparr>mo_state := Canonical\<rparr>) (um_new 1 2) in
   map mo_state (filter (\<lambda>x. mo_id x = 4) (um_objects (snd (um_forget 4 um)))) = [Deleted]"
proof -
  let ?obj = "(new_candidate 4 0 2 Useful)\<lparr>mo_state := Canonical\<rparr>"
  let ?um = "um_insert ?obj (um_new 1 2)"
  have "um_read ?um 4 = Some ?obj"
    by (simp add: um_read_def um_insert_def um_new_def new_candidate_def)
  then show ?thesis
    using forget_exact [of ?um 4] by (simp add: Let_def um_insert_def um_new_def new_candidate_def)
qed

end
