(* ===== verification/Working_Memory.thy ===== *)
theory Working_Memory
  imports Time_And_Float
begin

text \<open>
  The working memory (\<^verbatim>\<open>memory_manager/src/working_memory.rs\<close>): a bounded context window that
  evicts expired entries first and then the entry of least relevance. The eviction loop of
  \<^verbatim>\<open>push\<close> runs forever on a capacity of zero, so it is a partial function; the constructor rules
  that capacity out.
\<close>

section \<open>Entries and windows\<close>

record working_memory_entry =
  we_id :: uuid
  we_content :: string
  we_scope_id :: uuid
  we_inserted_at :: instant
  we_ttl :: duration
  we_relevance_score :: f64

definition we_new ::
  "uuid \<Rightarrow> instant \<Rightarrow> uuid \<Rightarrow> string \<Rightarrow> duration \<Rightarrow> f64 \<Rightarrow> working_memory_entry" where
  "we_new fresh now scope_id content ttl relevance_score = \<lparr>we_id = fresh, we_content = content,
     we_scope_id = scope_id, we_inserted_at = now, we_ttl = ttl,
     we_relevance_score = relevance_score\<rparr>"

definition is_live :: "instant \<Rightarrow> working_memory_entry \<Rightarrow> bool" where
  "is_live now e \<longleftrightarrow> now < we_inserted_at e + we_ttl e"

record working_memory =
  wm_entries :: "working_memory_entry list"
  wm_max_entries :: nat
  wm_default_ttl :: duration

definition wm_new :: "nat \<Rightarrow> duration \<Rightarrow> working_memory" where
  "wm_new max_entries default_ttl =
     \<lparr>wm_entries = [], wm_max_entries = max max_entries 1, wm_default_ttl = default_ttl\<rparr>"

definition evict_expired_at :: "instant \<Rightarrow> working_memory \<Rightarrow> nat \<times> working_memory" where
  "evict_expired_at now wm =
     (let before = length (wm_entries wm);
          kept = filter (is_live now) (wm_entries wm)
      in (before - length kept, wm\<lparr>wm_entries := kept\<rparr>))"

text \<open>
  \<^verbatim>\<open>preferred\<close>: the candidate is less relevant by \<^verbatim>\<open>total_cmp\<close>, or as relevant and older. The
  scan keeps the index of the best victim so far.
\<close>

definition evict_preferred :: "working_memory_entry \<Rightarrow> working_memory_entry \<Rightarrow> bool" where
  "evict_preferred cand cur =
     (if f64_total_key (we_relevance_score cand) < f64_total_key (we_relevance_score cur) then True
      else if f64_total_key (we_relevance_score cand) = f64_total_key (we_relevance_score cur)
      then we_inserted_at cand < we_inserted_at cur
      else False)"

definition evict_index :: "working_memory_entry list \<Rightarrow> nat" where
  "evict_index es =
     fold (\<lambda>i idx. if evict_preferred (es ! i) (es ! idx) then i else idx) [1..<length es] 0"

definition evict_one :: "working_memory_entry list \<Rightarrow> working_memory_entry list" where
  "evict_one es = (if es = [] then es else remove_at (evict_index es) es)"

partial_function (option) evict_while ::
  "nat \<Rightarrow> working_memory_entry list \<Rightarrow> working_memory_entry list option" where
  "evict_while cap es = (if cap \<le> length es then evict_while cap (evict_one es) else Some es)"

definition wm_push ::
  "instant \<Rightarrow> working_memory_entry \<Rightarrow> working_memory \<Rightarrow> working_memory option" where
  "wm_push now entry wm =
     (case evict_expired_at now wm of (_, wm1) \<Rightarrow>
        map_option (\<lambda>es. wm1\<lparr>wm_entries := es @ [entry]\<rparr>)
          (evict_while (wm_max_entries wm1) (wm_entries wm1)))"

definition push_with_default_ttl ::
  "uuid \<Rightarrow> instant \<Rightarrow> instant \<Rightarrow> uuid \<Rightarrow> string \<Rightarrow> f64 \<Rightarrow> working_memory \<Rightarrow> (uuid \<times> working_memory) option" where
  "push_with_default_ttl fresh now1 now2 scope_id content relevance_score wm =
     (let entry = we_new fresh now1 scope_id content (wm_default_ttl wm) relevance_score
      in map_option (\<lambda>wm1. (we_id entry, wm1)) (wm_push now2 entry wm))"

definition get_context :: "instant \<Rightarrow> working_memory \<Rightarrow> working_memory_entry list" where
  "get_context now wm = filter (is_live now) (wm_entries wm)"

definition evict_expired :: "instant \<Rightarrow> working_memory \<Rightarrow> nat \<times> working_memory" where
  "evict_expired now wm = evict_expired_at now wm"

definition wm_len :: "working_memory \<Rightarrow> nat" where
  "wm_len wm = length (wm_entries wm)"

definition wm_is_empty :: "working_memory \<Rightarrow> bool" where
  "wm_is_empty wm \<longleftrightarrow> wm_entries wm = []"

definition wm_clear :: "working_memory \<Rightarrow> working_memory" where
  "wm_clear wm = wm\<lparr>wm_entries := []\<rparr>"

section \<open>The victim\<close>

text \<open>The order of eviction: by relevance, then by insertion time.\<close>

definition evict_le :: "working_memory_entry \<Rightarrow> working_memory_entry \<Rightarrow> bool" where
  "evict_le a b \<longleftrightarrow>
     f64_total_key (we_relevance_score a) < f64_total_key (we_relevance_score b) \<or>
     f64_total_key (we_relevance_score a) = f64_total_key (we_relevance_score b) \<and>
       we_inserted_at a \<le> we_inserted_at b"

lemma evict_preferred_iff: "evict_preferred a b \<longleftrightarrow> \<not> evict_le b a"
  by (auto simp: evict_preferred_def evict_le_def)

lemma evict_le_refl [simp]: "evict_le a a"
  by (simp add: evict_le_def)

lemma evict_le_trans: "evict_le a b \<Longrightarrow> evict_le b c \<Longrightarrow> evict_le a c"
  by (auto simp: evict_le_def)

lemma evict_le_total: "evict_le a b \<or> evict_le b a"
  by (auto simp: evict_le_def)

lemma evict_scan_step:
  assumes "idx < n \<and> (\<forall>j < n. evict_le (es ! idx) (es ! j))"
    and "new = (if evict_preferred (es ! n) (es ! idx) then n else idx)"
  shows "new < Suc n \<and> (\<forall>j < Suc n. evict_le (es ! new) (es ! j))"
proof (cases "evict_le (es ! idx) (es ! n)")
  case True
  then show ?thesis using assms by (simp add: evict_preferred_iff less_Suc_eq)
next
  case False
  then have "evict_le (es ! n) (es ! idx)" using evict_le_total by blast
  then have "evict_le (es ! n) (es ! j)" if "j < n" for j
    using assms(1) that evict_le_trans by blast
  then show ?thesis using assms(2) False by (simp add: evict_preferred_iff less_Suc_eq)
qed

lemma evict_scan:
  "0 < n \<Longrightarrow>
   fold (\<lambda>i idx. if evict_preferred (es ! i) (es ! idx) then i else idx) [1..<n] 0 < n \<and>
   (\<forall>j < n. evict_le (es ! fold (\<lambda>i idx. if evict_preferred (es ! i) (es ! idx) then i else idx) [1..<n] 0) (es ! j))"
proof (induction n)
  case (Suc n)
  show ?case
  proof (cases "n = 0")
    case False
    show ?thesis
      by (rule evict_scan_step [OF Suc.IH]) (use False in simp_all)
  qed simp
qed simp

lemma evict_index_least:
  "es \<noteq> [] \<Longrightarrow> evict_index es < length es \<and> (\<forall>e \<in> set es. evict_le (es ! evict_index es) e)"
  using evict_scan [of "length es" es] by (auto simp: evict_index_def in_set_conv_nth)

lemma length_evict_one [simp]: "length (evict_one es) = length es - 1"
  using evict_index_least [of es] by (cases "es = []") (auto simp: evict_one_def remove_at_def)

section \<open>The eviction loop\<close>

lemma evict_while_done: "length es < cap \<Longrightarrow> evict_while cap es = Some es"
  by (simp add: evict_while.simps)

lemma evict_while_full: "length es = cap \<Longrightarrow> 0 < cap \<Longrightarrow> evict_while cap es = Some (evict_one es)"
  by (subst evict_while.simps) (simp add: evict_while_done)

text \<open>The loop ends for every capacity but zero, whatever the window holds.\<close>

lemma evict_while_terminates:
  assumes "0 < cap"
  shows "\<exists>es1. evict_while cap es = Some es1 \<and> length es1 = min (length es) (cap - 1)"
proof (induction "length es" arbitrary: es rule: less_induct)
  case less
  show ?case
  proof (cases "cap \<le> length es")
    case True
    then have "evict_while cap es = evict_while cap (evict_one es)" by (simp add: evict_while.simps)
    then show ?thesis using less [of "evict_one es"] True assms by auto
  qed (simp add: evict_while_done)
qed

definition window_inv :: "working_memory \<Rightarrow> bool" where
  "window_inv wm \<longleftrightarrow> 0 < wm_max_entries wm \<and> length (wm_entries wm) \<le> wm_max_entries wm"

lemma push_window_inv:
  assumes "window_inv wm"
  shows "\<exists>wm1. wm_push now entry wm = Some wm1 \<and> window_inv wm1 \<and> wm_max_entries wm1 = wm_max_entries wm"
proof -
  let ?live = "filter (is_live now) (wm_entries wm)"
  obtain es where "evict_while (wm_max_entries wm) ?live = Some es"
      "length es = min (length ?live) (wm_max_entries wm - 1)"
    using evict_while_terminates [of "wm_max_entries wm" ?live] assms by (auto simp: window_inv_def)
  then show ?thesis
    using assms by (auto simp: wm_push_def evict_expired_at_def Let_def window_inv_def)
qed

section \<open>Properties\<close>

text \<open>The calls that change a window; \<open>None\<close> would be a call that does not return.\<close>

datatype window_call = Push instant working_memory_entry | EvictExpired instant | Clear

fun exec_window :: "window_call \<Rightarrow> working_memory \<Rightarrow> working_memory option" where
  "exec_window (Push now entry) wm = wm_push now entry wm"
| "exec_window (EvictExpired now) wm = Some (snd (evict_expired now wm))"
| "exec_window Clear wm = Some (wm_clear wm)"

fun exec_windows :: "window_call list \<Rightarrow> working_memory \<Rightarrow> working_memory option" where
  "exec_windows [] wm = Some wm"
| "exec_windows (c # cs) wm = Option.bind (exec_window c wm) (exec_windows cs)"

lemma exec_window_inv:
  "window_inv wm \<Longrightarrow> \<exists>wm1. exec_window c wm = Some wm1 \<and> window_inv wm1 \<and>
     wm_max_entries wm1 = wm_max_entries wm"
proof (cases c)
  case (Push now entry)
  assume "window_inv wm"
  then show ?thesis using Push push_window_inv by simp
next
  case (EvictExpired now)
  assume "window_inv wm"
  then show ?thesis
    using EvictExpired le_trans [OF length_filter_le]
    by (auto simp: window_inv_def evict_expired_def evict_expired_at_def Let_def)
qed (simp add: window_inv_def wm_clear_def)

lemma exec_windows_inv:
  "window_inv wm \<Longrightarrow> \<exists>wm1. exec_windows cs wm = Some wm1 \<and> window_inv wm1 \<and>
     wm_max_entries wm1 = wm_max_entries wm"
proof (induction cs arbitrary: wm)
  case (Cons c cs)
  obtain wm1 where "exec_window c wm = Some wm1" "window_inv wm1" "wm_max_entries wm1 = wm_max_entries wm"
    using exec_window_inv [OF Cons.prems, of c] by blast
  then show ?case using Cons.IH [of wm1] by auto
qed simp

text \<open>
  C34. The window is bounded and its loop ends. From a fresh window of any requested capacity, every
  sequence of calls returns, and never holds more entries than the capacity, which is at least one.
\<close>

theorem working_memory_bounded:
  "\<exists>wm. exec_windows cs (wm_new n ttl) = Some wm \<and> wm_len wm \<le> max n 1"
proof -
  have "window_inv (wm_new n ttl)" and "wm_max_entries (wm_new n ttl) = max n 1"
    by (simp_all add: window_inv_def wm_new_def max_def)
  then show ?thesis using exec_windows_inv [of "wm_new n ttl" cs] by (auto simp: window_inv_def wm_len_def)
qed

text \<open>
  What a push evicts. On a window within its bound, a push drops the expired entries; if the live
  ones still fill the window it drops exactly one of them, one that is least in relevance and, among
  those, oldest; the rest keep their order and the new entry comes last.
\<close>

theorem push_evicts_least:
  assumes "0 < wm_max_entries wm" and "length (wm_entries wm) \<le> wm_max_entries wm"
  shows "\<exists>wm1. wm_push now entry wm = Some wm1 \<and>
    (let live = filter (is_live now) (wm_entries wm) in
     if length live < wm_max_entries wm then wm_entries wm1 = live @ [entry]
     else \<exists>us v ws. live = us @ v # ws \<and> wm_entries wm1 = us @ ws @ [entry] \<and>
       (\<forall>e \<in> set live. evict_le v e))"
proof -
  let ?live = "filter (is_live now) (wm_entries wm)"
  show ?thesis
  proof (cases "length ?live < wm_max_entries wm")
    case True
    then show ?thesis
      by (simp add: wm_push_def evict_expired_at_def Let_def evict_while_done)
  next
    case False
    then have full: "length ?live = wm_max_entries wm"
      by (intro le_antisym order.trans [OF length_filter_le assms(2)]) simp
    then have ne: "?live \<noteq> []" using assms(1) by auto
    let ?i = "evict_index ?live"
    have i: "?i < length ?live" "\<forall>e \<in> set ?live. evict_le (?live ! ?i) e"
      using evict_index_least [OF ne] by auto
    have push: "wm_push now entry wm =
        Some (wm\<lparr>wm_entries := take ?i ?live @ drop (Suc ?i) ?live @ [entry]\<rparr>)"
      using full assms(1) ne
      by (simp add: wm_push_def evict_expired_at_def evict_while_full evict_one_def remove_at_def)
    have split: "?live = take ?i ?live @ ?live ! ?i # drop (Suc ?i) ?live"
      by (rule id_take_nth_drop [OF i(1)])
    show ?thesis
      unfolding Let_def if_not_P [OF False]
      by (intro exI conjI) (rule push, rule split, simp, rule i(2))
  qed
qed

theorem push_evicts_least_witness:
  "let a = we_new 1 0 9 ''a'' 100 f64_0_9; b = we_new 2 1 9 ''b'' 100 f64_0_15;
       wm = \<lparr>wm_entries = [a, b], wm_max_entries = 2, wm_default_ttl = 5\<rparr>
   in map_option (\<lambda>wm1. map we_id (wm_entries wm1)) (wm_push 10 (we_new 3 10 9 ''c'' 100 f64_0) wm)
        = Some [1, 3]"
proof -
  let ?a = "we_new 1 0 9 ''a'' 100 f64_0_9" and ?b = "we_new 2 1 9 ''b'' 100 f64_0_15"
  let ?c = "we_new 3 10 9 ''c'' 100 f64_0"
  let ?wm = "\<lparr>wm_entries = [?a, ?b], wm_max_entries = 2, wm_default_ttl = 5\<rparr>"
  have live: "filter (is_live 10) (wm_entries ?wm) = [?a, ?b]"
    by (simp add: is_live_def we_new_def)
  have b: "\<not> evict_le ?a ?b"
    by (simp add: evict_le_def we_new_def f64_total_key_def f64_mag_def f64_neg_def)
  obtain wm1 us v ws where wm1: "wm_push 10 ?c ?wm = Some wm1" "[?a, ?b] = us @ v # ws"
      "wm_entries wm1 = us @ ws @ [?c]" "\<forall>e \<in> {?a, ?b}. evict_le v e"
    using push_evicts_least [of ?wm 10 ?c] unfolding live Let_def by auto
  then have "us = [?a]" "ws = []"
    using b by (auto simp: Cons_eq_append_conv)
  then show ?thesis using wm1 by (simp add: we_new_def Let_def)
qed

end
