(* ===== verification/Channel_Memory.thy ===== *)
theory Channel_Memory
  imports Memory_Object
begin

text \<open>
  The channel memory object (\<^verbatim>\<open>memory_manager/src/channel_memory.rs\<close>): decisions, open questions
  and tasks of one channel, their deduplicated insertion and their sweep. Text is a list of code
  points below 256. Each call of \<^verbatim>\<open>Utc::now\<close> is an argument.
\<close>

section \<open>Normalised text\<close>

function split_whitespace :: "string \<Rightarrow> string list" where
  "split_whitespace s =
     (let t = dropWhile is_whitespace s in
      if t = [] then []
      else takeWhile (\<lambda>c. \<not> is_whitespace c) t #
           split_whitespace (dropWhile (\<lambda>c. \<not> is_whitespace c) t))"
  by pat_completeness auto
termination split_whitespace
proof (relation "measure length", simp)
  fix s t :: string
  assume t: "t = dropWhile is_whitespace s" and "t \<noteq> []"
  then have "\<not> is_whitespace (hd t)" using hd_dropWhile by blast
  then have "dropWhile (\<lambda>c. \<not> is_whitespace c) t = dropWhile (\<lambda>c. \<not> is_whitespace c) (tl t)"
    using \<open>t \<noteq> []\<close> by (cases t) auto
  then have "length (dropWhile (\<lambda>c. \<not> is_whitespace c) t) < length t"
    using \<open>t \<noteq> []\<close> length_dropWhile_le [of "\<lambda>c. \<not> is_whitespace c" "tl t"]
    by (cases t) auto
  also have "length t \<le> length s" unfolding t by (rule length_dropWhile_le)
  finally show "(dropWhile (\<lambda>c. \<not> is_whitespace c) t, s) \<in> measure length" by simp
qed

declare split_whitespace.simps [simp del]

fun join_space :: "string list \<Rightarrow> string" where
  "join_space [] = []"
| "join_space [w] = w"
| "join_space (w # ws) = w @ CHR '' '' # join_space ws"

definition normalise_surface_text :: "string \<Rightarrow> string" where
  "normalise_surface_text s = map ascii_lower (join_space (split_whitespace s))"

section \<open>Items\<close>

record decision =
  de_memory :: memory_object
  de_text :: string

definition decision_new :: "uuid \<Rightarrow> instant \<Rightarrow> uuid \<Rightarrow> string \<Rightarrow> decision" where
  "decision_new fresh now scope_id text1 =
     \<lparr>de_memory = new_candidate fresh now scope_id Important, de_text = text1\<rparr>"

record open_question =
  oq_memory :: memory_object
  oq_text :: string
  oq_resolved_at :: "instant option"

definition open_question_new :: "uuid \<Rightarrow> instant \<Rightarrow> uuid \<Rightarrow> string \<Rightarrow> open_question" where
  "open_question_new fresh now scope_id text1 =
     \<lparr>oq_memory = new_candidate fresh now scope_id Useful, oq_text = text1, oq_resolved_at = None\<rparr>"

definition is_resolved :: "open_question \<Rightarrow> bool" where
  "is_resolved q \<longleftrightarrow> oq_resolved_at q \<noteq> None"

record active_task =
  at_memory :: memory_object
  at_text :: string
  at_assignee :: "string option"
  at_completed_at :: "instant option"

definition active_task_new :: "uuid \<Rightarrow> instant \<Rightarrow> uuid \<Rightarrow> string \<Rightarrow> active_task" where
  "active_task_new fresh now scope_id text1 =
     \<lparr>at_memory = new_candidate fresh now scope_id Useful, at_text = text1, at_assignee = None,
      at_completed_at = None\<rparr>"

definition with_assignee :: "string \<Rightarrow> active_task \<Rightarrow> active_task" where
  "with_assignee assignee t = t\<lparr>at_assignee := Some assignee\<rparr>"

definition is_complete :: "active_task \<Rightarrow> bool" where
  "is_complete t \<longleftrightarrow> at_completed_at t \<noteq> None"

section \<open>The channel\<close>

record channel_memory =
  cm_id :: uuid
  cm_scope_id :: uuid
  cm_recap :: string
  cm_decisions :: "decision list"
  cm_open_questions :: "open_question list"
  cm_active_tasks :: "active_task list"
  cm_last_synthesis_window :: "uuid option"
  cm_created_at :: instant
  cm_updated_at :: instant

record channel_decay_report =
  cr_tasks_archived :: nat
  cr_questions_archived :: nat

definition channel_new :: "uuid \<Rightarrow> instant \<Rightarrow> uuid \<Rightarrow> channel_memory" where
  "channel_new fresh now scope_id = \<lparr>cm_id = fresh, cm_scope_id = scope_id, cm_recap = [],
     cm_decisions = [], cm_open_questions = [], cm_active_tasks = [],
     cm_last_synthesis_window = None, cm_created_at = now, cm_updated_at = now\<rparr>"

definition update_recap :: "instant \<Rightarrow> string \<Rightarrow> uuid option \<Rightarrow> channel_memory \<Rightarrow> channel_memory" where
  "update_recap now recap window cm =
     cm\<lparr>cm_recap := recap, cm_last_synthesis_window := window, cm_updated_at := now\<rparr>"

definition add_decision :: "instant \<Rightarrow> decision \<Rightarrow> channel_memory \<Rightarrow> uuid \<times> channel_memory" where
  "add_decision now d cm =
     (mo_id (de_memory d), cm\<lparr>cm_decisions := cm_decisions cm @ [d], cm_updated_at := now\<rparr>)"

definition add_task :: "instant \<Rightarrow> active_task \<Rightarrow> channel_memory \<Rightarrow> uuid \<times> channel_memory" where
  "add_task now t cm =
     (mo_id (at_memory t), cm\<lparr>cm_active_tasks := cm_active_tasks cm @ [t], cm_updated_at := now\<rparr>)"

definition add_open_question :: "instant \<Rightarrow> open_question \<Rightarrow> channel_memory \<Rightarrow> uuid \<times> channel_memory" where
  "add_open_question now q cm =
     (mo_id (oq_memory q), cm\<lparr>cm_open_questions := cm_open_questions cm @ [q], cm_updated_at := now\<rparr>)"

definition add_decision_dedup ::
  "instant \<Rightarrow> decision \<Rightarrow> channel_memory \<Rightarrow> uuid option \<times> channel_memory" where
  "add_decision_dedup now d cm =
     (let key = normalise_surface_text (de_text d) in
      if \<exists>x \<in> set (cm_decisions cm). normalise_surface_text (de_text x) = key then (None, cm)
      else (case add_decision now d cm of (i, cm1) \<Rightarrow> (Some i, cm1)))"

definition assignee_key :: "active_task \<Rightarrow> string" where
  "assignee_key t = (case map_option normalise_surface_text (at_assignee t) of None \<Rightarrow> [] | Some k \<Rightarrow> k)"

definition add_task_dedup ::
  "instant \<Rightarrow> active_task \<Rightarrow> channel_memory \<Rightarrow> uuid option \<times> channel_memory" where
  "add_task_dedup now t cm =
     (let key = normalise_surface_text (at_text t) in
      if \<exists>x \<in> set (cm_active_tasks cm). normalise_surface_text (at_text x) = key \<and>
           assignee_key x = assignee_key t then (None, cm)
      else (case add_task now t cm of (i, cm1) \<Rightarrow> (Some i, cm1)))"

definition add_open_question_dedup ::
  "instant \<Rightarrow> open_question \<Rightarrow> channel_memory \<Rightarrow> uuid option \<times> channel_memory" where
  "add_open_question_dedup now q cm =
     (let key = normalise_surface_text (oq_text q) in
      if \<exists>x \<in> set (cm_open_questions cm). normalise_surface_text (oq_text x) = key then (None, cm)
      else (case add_open_question now q cm of (i, cm1) \<Rightarrow> (Some i, cm1)))"

definition resolve_question ::
  "instant \<Rightarrow> instant \<Rightarrow> instant \<Rightarrow> uuid \<Rightarrow> channel_memory \<Rightarrow> (memory_error + unit) \<times> channel_memory" where
  "resolve_question now1 now2 now3 question_id cm =
     (case modify_first (\<lambda>q. mo_id (oq_memory q) = question_id)
             (\<lambda>q. ((), q\<lparr>oq_resolved_at := Some now1,
                oq_memory := (oq_memory q)\<lparr>mo_last_accessed_at := now2\<rparr>\<rparr>))
             (cm_open_questions cm) of
        None \<Rightarrow> (Inl (MemoryNotFound question_id), cm)
      | Some (_, qs) \<Rightarrow> (Inr (), cm\<lparr>cm_open_questions := qs, cm_updated_at := now3\<rparr>))"

definition complete_task ::
  "instant \<Rightarrow> instant \<Rightarrow> instant \<Rightarrow> uuid \<Rightarrow> channel_memory \<Rightarrow> (memory_error + unit) \<times> channel_memory" where
  "complete_task now1 now2 now3 task_id cm =
     (case modify_first (\<lambda>t. mo_id (at_memory t) = task_id)
             (\<lambda>t. ((), t\<lparr>at_completed_at := Some now1,
                at_memory := (at_memory t)\<lparr>mo_last_accessed_at := now2\<rparr>\<rparr>))
             (cm_active_tasks cm) of
        None \<Rightarrow> (Inl (MemoryNotFound task_id), cm)
      | Some (_, ts) \<Rightarrow> (Inr (), cm\<lparr>cm_active_tasks := ts, cm_updated_at := now3\<rparr>))"

definition list_active_tasks :: "channel_memory \<Rightarrow> active_task list" where
  "list_active_tasks cm = filter (\<lambda>t. \<not> is_complete t) (cm_active_tasks cm)"

definition list_open_questions :: "channel_memory \<Rightarrow> open_question list" where
  "list_open_questions cm = filter (\<lambda>q. \<not> is_resolved q) (cm_open_questions cm)"

section \<open>The sweep\<close>

definition default_completed_task_ttl_days :: int where
  "default_completed_task_ttl_days = 30"

definition default_resolved_question_ttl_days :: int where
  "default_resolved_question_ttl_days = 30"

text \<open>
  The test that archives an item. The archived item is an owned local of the loop: its memory is set
  to \<open>Archived\<close> and the item is then dropped, so that write is never seen and only the kept items
  and the count remain.
\<close>

definition item_due :: "instant option \<Rightarrow> instant \<Rightarrow> duration \<Rightarrow> memory_object \<Rightarrow> bool" where
  "item_due done_at now ttl mem \<longleftrightarrow>
     (case done_at of Some at \<Rightarrow> ttl \<le> now - at | None \<Rightarrow> False) \<and> mo_state mem \<noteq> Archived"

fun sweep_items :: "('i \<Rightarrow> bool) \<Rightarrow> 'i list \<Rightarrow> 'i list \<Rightarrow> nat \<Rightarrow> 'i list \<times> nat" where
  "sweep_items due [] keep n = (keep, n)"
| "sweep_items due (x # xs) keep n =
     (if due x then sweep_items due xs keep (sat_add n 1) else sweep_items due xs (keep @ [x]) n)"

definition channel_decay_sweep_with ::
  "instant \<Rightarrow> duration \<Rightarrow> duration \<Rightarrow> channel_memory \<Rightarrow> channel_decay_report \<times> channel_memory" where
  "channel_decay_sweep_with now completed_task_ttl resolved_question_ttl cm0 =
     (case sweep_items (\<lambda>t. item_due (at_completed_at t) now completed_task_ttl (at_memory t))
             (cm_active_tasks cm0) [] 0 of
        (keep_tasks, tasks) \<Rightarrow>
      (case sweep_items (\<lambda>q. item_due (oq_resolved_at q) now resolved_question_ttl (oq_memory q))
             (cm_open_questions cm0) [] 0 of
        (keep_questions, questions) \<Rightarrow>
          (let report = \<lparr>cr_tasks_archived = tasks, cr_questions_archived = questions\<rparr>;
               cm = cm0\<lparr>cm_active_tasks := keep_tasks, cm_open_questions := keep_questions\<rparr>
           in (report,
               if 0 < cr_tasks_archived report \<or> 0 < cr_questions_archived report
               then cm\<lparr>cm_updated_at := now\<rparr> else cm))))"

definition channel_decay_sweep :: "instant \<Rightarrow> channel_memory \<Rightarrow> channel_decay_report \<times> channel_memory" where
  "channel_decay_sweep now cm =
     channel_decay_sweep_with now (duration_days default_completed_task_ttl_days)
       (duration_days default_resolved_question_ttl_days) cm"

section \<open>Lemmas on text\<close>

definition is_word :: "string \<Rightarrow> bool" where
  "is_word w \<longleftrightarrow> w \<noteq> [] \<and> (\<forall>c \<in> set w. \<not> is_whitespace c)"

lemma split_whitespace_blank: "dropWhile is_whitespace s = [] \<Longrightarrow> split_whitespace s = []"
  by (subst split_whitespace.simps) simp

lemma split_whitespace_Nil [simp]: "split_whitespace [] = []"
  by (rule split_whitespace_blank) simp

lemma split_whitespace_words: "\<forall>w \<in> set (split_whitespace s). is_word w"
proof (induction s rule: split_whitespace.induct)
  case (1 s)
  let ?t = "dropWhile is_whitespace s"
  show ?case
  proof (cases "?t = []")
    case False
    then have "\<not> is_whitespace (hd ?t)" using hd_dropWhile by blast
    then have "is_word (takeWhile (\<lambda>c. \<not> is_whitespace c) ?t)"
      using False by (cases ?t) (auto simp: is_word_def dest: set_takeWhileD)
    then show ?thesis
      using 1 [OF refl False] False by (subst split_whitespace.simps) (simp add: Let_def)
  qed (simp add: split_whitespace_blank)
qed

lemma split_whitespace_word_end: "is_word w \<Longrightarrow> split_whitespace w = [w]"
proof -
  assume w: "is_word w"
  then have eqs: "dropWhile is_whitespace w = w" "takeWhile (\<lambda>c. \<not> is_whitespace c) w = w"
      "dropWhile (\<lambda>c. \<not> is_whitespace c) w = []" and "w \<noteq> []"
    by (cases w; auto simp: is_word_def)+
  then show ?thesis
    by (subst split_whitespace.simps) (simp only: Let_def eqs split_whitespace_Nil if_False)
qed

lemma split_whitespace_drop_space: "is_whitespace c \<Longrightarrow> split_whitespace (c # s) = split_whitespace s"
  by (subst (1 2) split_whitespace.simps) simp

lemma split_whitespace_word_space:
  assumes "is_word w" and "is_whitespace c"
  shows "split_whitespace (w @ c # s) = w # split_whitespace s"
proof -
  have "dropWhile is_whitespace (w @ c # s) = w @ c # s" "w \<noteq> []"
    using assms(1) by (cases w; auto simp: is_word_def)+
  moreover have "takeWhile (\<lambda>c. \<not> is_whitespace c) (w @ c # s) = w"
      "dropWhile (\<lambda>c. \<not> is_whitespace c) (w @ c # s) = c # s"
    using assms by (auto simp: is_word_def takeWhile_append2 dropWhile_append2)
  ultimately show ?thesis
    using assms(2) by (subst split_whitespace.simps) (simp add: Let_def split_whitespace_drop_space)
qed

lemma split_join: "\<forall>w \<in> set ws. is_word w \<Longrightarrow> split_whitespace (join_space ws) = ws"
proof (induction ws rule: join_space.induct)
  case 1
  then show ?case by simp
next
  case (2 w)
  then show ?case by (simp add: split_whitespace_word_end)
next
  case (3 w v vs)
  then show ?case by (simp add: split_whitespace_word_space)
qed

lemma ascii_lower_idem [simp]: "ascii_lower (ascii_lower c) = ascii_lower c"
  by (simp add: ascii_lower_def Let_def)

lemma ascii_lower_whitespace [simp]: "is_whitespace (ascii_lower c) \<longleftrightarrow> is_whitespace c"
  by (auto simp: ascii_lower_def is_whitespace_def Let_def)

lemma ascii_lower_space: "ascii_lower CHR '' '' = CHR '' ''"
  by (simp add: ascii_lower_def)

lemma map_lower_join: "map ascii_lower (join_space ws) = join_space (map (map ascii_lower) ws)"
  by (induction ws rule: join_space.induct) (simp_all add: ascii_lower_space)

lemma is_word_lower: "is_word w \<Longrightarrow> is_word (map ascii_lower w)"
  by (auto simp: is_word_def)

text \<open>Normalising is idempotent: a key is the surface text of its own class.\<close>

lemma normalise_idem: "normalise_surface_text (normalise_surface_text s) = normalise_surface_text s"
proof -
  let ?ws = "map (map ascii_lower) (split_whitespace s)"
  have "\<forall>w \<in> set ?ws. is_word w"
    using split_whitespace_words [of s] by (auto simp: is_word_lower)
  then have "split_whitespace (join_space ?ws) = ?ws" by (rule split_join)
  then show ?thesis
    by (simp add: normalise_surface_text_def map_lower_join comp_def)
qed

lemma sweep_items_filter:
  "n + length xs \<le> u64_max \<Longrightarrow> sweep_items due xs keep n = (keep @ filter (\<lambda>x. \<not> due x) xs, n + length (filter due xs))"
proof (induction xs arbitrary: keep n)
  case (Cons x xs)
  then show ?case by (simp add: sat_add_def)
qed simp

section \<open>Properties\<close>

text \<open>
  Two surface texts are the same item exactly when they have the same words up to ASCII case; what
  the synthesis model varies (spacing, leading and trailing blanks, case) never makes a new row.
\<close>

definition same_surface :: "string \<Rightarrow> string \<Rightarrow> bool" where
  "same_surface a b \<longleftrightarrow>
     map (map ascii_lower) (split_whitespace a) = map (map ascii_lower) (split_whitespace b)"

lemma normalise_eq_iff: "normalise_surface_text a = normalise_surface_text b \<longleftrightarrow> same_surface a b"
proof -
  have "split_whitespace (normalise_surface_text s) = map (map ascii_lower) (split_whitespace s)" for s
    using split_whitespace_words [of s]
    by (simp add: normalise_surface_text_def map_lower_join split_join is_word_lower)
  then show ?thesis
    by (metis map_lower_join normalise_surface_text_def same_surface_def)
qed

definition decisions_distinct :: "channel_memory \<Rightarrow> bool" where
  "decisions_distinct cm \<longleftrightarrow> distinct (map (\<lambda>d. normalise_surface_text (de_text d)) (cm_decisions cm))"

lemma add_decision_dedup_distinct:
  "decisions_distinct cm \<Longrightarrow> decisions_distinct (snd (add_decision_dedup now d cm))"
  by (auto simp: decisions_distinct_def add_decision_dedup_def add_decision_def Let_def)

text \<open>
  Deduplicated insertion, over any run of synthesis outputs into a fresh channel: no two decisions
  kept are the same surface text, every decision kept was offered, and every decision offered is
  represented by a kept one with the same surface.
\<close>

theorem decision_dedup_exact:
  "let cm = fold (\<lambda>(now, d) cm. snd (add_decision_dedup now d cm)) offers (channel_new fresh t0 scope) in
    distinct (map (\<lambda>d. normalise_surface_text (de_text d)) (cm_decisions cm)) \<and>
    set (cm_decisions cm) \<subseteq> snd ` set offers \<and>
    (\<forall>d \<in> snd ` set offers. \<exists>x \<in> set (cm_decisions cm). same_surface (de_text x) (de_text d))"
proof -
  let ?f = "\<lambda>(now, d) cm. snd (add_decision_dedup now d cm)"
  have grow: "set (cm_decisions c) \<subseteq> set (cm_decisions (fold ?f ps c))" for c ps
  proof (induction ps arbitrary: c)
    case (Cons p ps)
    have "set (cm_decisions c) \<subseteq> set (cm_decisions (?f p c))"
      by (auto simp: add_decision_dedup_def add_decision_def Let_def split: prod.split)
    then show ?case using Cons [of "?f p c"] by auto
  qed simp
  have "decisions_distinct c \<Longrightarrow>
      decisions_distinct (fold ?f ps c) \<and>
      set (cm_decisions (fold ?f ps c)) \<subseteq> set (cm_decisions c) \<union> snd ` set ps \<and>
      (\<forall>d \<in> snd ` set ps. \<exists>x \<in> set (cm_decisions (fold ?f ps c)).
         normalise_surface_text (de_text x) = normalise_surface_text (de_text d))" for ps c
  proof (induction ps arbitrary: c)
    case (Cons p ps)
    obtain now d where p: "p = (now, d)" by (cases p)
    have here: "\<exists>x \<in> set (cm_decisions (?f p c)). normalise_surface_text (de_text x) = normalise_surface_text (de_text d)"
      by (auto simp: p add_decision_dedup_def add_decision_def Let_def)
    have sub: "set (cm_decisions (?f p c)) \<subseteq> insert d (set (cm_decisions c))"
      by (auto simp: p add_decision_dedup_def add_decision_def Let_def)
    have "decisions_distinct (?f p c)" using Cons.prems by (simp add: p add_decision_dedup_distinct)
    then show ?case using Cons.IH [of "?f p c"] here sub grow [of "?f p c" ps] by (auto simp: p)
  qed simp
  from this [of "channel_new fresh t0 scope" offers] show ?thesis
    by (simp add: Let_def decisions_distinct_def channel_new_def normalise_eq_iff)
qed

theorem decision_dedup_exact_witness:
  "let a = decision_new 1 0 9 ''Approved  v3''; b = decision_new 2 0 9 '' approved V3 '';
       cm = fold (\<lambda>(now, d) cm. snd (add_decision_dedup now d cm)) [(5, a), (6, b)] (channel_new 8 0 9)
   in \<exists>x \<in> set (cm_decisions cm). same_surface (de_text x) (de_text b)"
  using decision_dedup_exact [of "[(5, decision_new 1 0 9 ''Approved  v3''),
      (6, decision_new 2 0 9 '' approved V3 '')]" 8 0 9]
  by (simp add: Let_def)

text \<open>
  The sweep of a channel keeps, in order, exactly the tasks and questions that are open, were closed
  less than their time to live ago, or are already archived; it counts the others and drops them.
\<close>

theorem channel_sweep_exact:
  assumes "length (cm_active_tasks cm) \<le> u64_max" and "length (cm_open_questions cm) \<le> u64_max"
  shows "let out = channel_decay_sweep_with now task_ttl question_ttl cm; cm1 = snd out; r = fst out in
    cm_active_tasks cm1 =
      filter (\<lambda>t. \<not> item_due (at_completed_at t) now task_ttl (at_memory t)) (cm_active_tasks cm) \<and>
    cm_open_questions cm1 =
      filter (\<lambda>q. \<not> item_due (oq_resolved_at q) now question_ttl (oq_memory q)) (cm_open_questions cm) \<and>
    length (cm_active_tasks cm) = length (cm_active_tasks cm1) + cr_tasks_archived r \<and>
    length (cm_open_questions cm) = length (cm_open_questions cm1) + cr_questions_archived r \<and>
    list_active_tasks cm1 = list_active_tasks cm \<and> list_open_questions cm1 = list_open_questions cm \<and>
    (if cr_tasks_archived r = 0 \<and> cr_questions_archived r = 0 then cm1 = cm else cm_updated_at cm1 = now)"
proof -
  let ?tdue = "\<lambda>t. item_due (at_completed_at t) now task_ttl (at_memory t)"
  let ?qdue = "\<lambda>q. item_due (oq_resolved_at q) now question_ttl (oq_memory q)"
  have out: "channel_decay_sweep_with now task_ttl question_ttl cm =
     (let ts = filter (\<lambda>t. \<not> ?tdue t) (cm_active_tasks cm); qs = filter (\<lambda>q. \<not> ?qdue q) (cm_open_questions cm);
          nt = length (filter ?tdue (cm_active_tasks cm)); nq = length (filter ?qdue (cm_open_questions cm));
          cm1 = cm\<lparr>cm_active_tasks := ts, cm_open_questions := qs\<rparr>
      in (\<lparr>cr_tasks_archived = nt, cr_questions_archived = nq\<rparr>,
          if 0 < nt \<or> 0 < nq then cm1\<lparr>cm_updated_at := now\<rparr> else cm1))"
    using assms by (simp add: channel_decay_sweep_with_def sweep_items_filter Let_def)
  have split: "length (filter (\<lambda>x. \<not> p x) xs) + length (filter p xs) = length xs" for p :: "'i \<Rightarrow> bool" and xs
    using sum_length_filter_compl [of p xs] by simp
  have open_tasks: "filter (\<lambda>t. \<not> is_complete t \<and> \<not> ?tdue t) xs = filter (\<lambda>t. \<not> is_complete t) xs" for xs
    by (rule filter_cong) (auto simp: is_complete_def item_due_def)
  have open_questions: "filter (\<lambda>q. \<not> is_resolved q \<and> \<not> ?qdue q) xs = filter (\<lambda>q. \<not> is_resolved q) xs" for xs
    by (rule filter_cong) (auto simp: is_resolved_def item_due_def)
  have none: "filter p xs = [] \<Longrightarrow> filter (\<lambda>x. \<not> p x) xs = xs" for p :: "'i \<Rightarrow> bool" and xs
    by (simp add: filter_empty_conv)
  have same: "cm\<lparr>cm_active_tasks := filter (\<lambda>t. \<not> ?tdue t) (cm_active_tasks cm),
      cm_open_questions := filter (\<lambda>q. \<not> ?qdue q) (cm_open_questions cm)\<rparr> = cm"
    if "filter ?tdue (cm_active_tasks cm) = []" "filter ?qdue (cm_open_questions cm) = []"
    using none [OF that(1)] none [OF that(2)] by simp
  show ?thesis
    using split [of ?tdue "cm_active_tasks cm"] split [of ?qdue "cm_open_questions cm"] same
      none [of ?tdue "cm_active_tasks cm"] none [of ?qdue "cm_open_questions cm"]
    unfolding out Let_def
    by (auto simp: list_active_tasks_def list_open_questions_def open_tasks open_questions conj_commute)
qed

theorem channel_sweep_exact_witness:
  "let t = (active_task_new 1 0 9 ''ship'')\<lparr>at_completed_at := Some 0\<rparr>;
       cm = snd (add_task 0 t (channel_new 8 0 9));
       out = channel_decay_sweep_with (duration_days 30) (duration_days 30) (duration_days 30) cm
   in cm_active_tasks (snd out) = [] \<and> cr_tasks_archived (fst out) = 1"
proof -
  let ?t = "(active_task_new 1 0 9 ''ship'')\<lparr>at_completed_at := Some 0\<rparr>"
  let ?cm = "snd (add_task 0 ?t (channel_new 8 0 9))"
  have "length (cm_active_tasks ?cm) \<le> u64_max" "length (cm_open_questions ?cm) \<le> u64_max"
    by (simp_all add: add_task_def channel_new_def u64_max_def)
  from channel_sweep_exact [OF this, of "duration_days 30" "duration_days 30" "duration_days 30"] show ?thesis
    by (simp add: Let_def add_task_def channel_new_def active_task_new_def item_due_def new_candidate_def)
qed

text \<open>
  The documented example of task deduplication does not hold: a task whose text carries the mention
  and one that has the mention as its assignee are kept as two rows.
\<close>

lemma mention_is_not_assignee:
  "length (cm_active_tasks (snd (add_task_dedup 2 (with_assignee ''@Sara'' (active_task_new 2 1 9 ''Draft the RFC''))
     (snd (add_task_dedup 1 (active_task_new 1 0 9 ''@Sara draft the RFC'') (channel_new 8 0 9)))))) = 2"
proof -
  have "normalise_surface_text ''@Sara draft the RFC'' = ''@sara draft the rfc''"
    and "normalise_surface_text ''Draft the RFC'' = ''draft the rfc''"
    by code_simp+
  then show ?thesis
    by (simp add: add_task_dedup_def add_task_def active_task_new_def channel_new_def with_assignee_def Let_def)
qed

end
