(* ===== verification/Agent_Contract.thy ===== *)
theory Agent_Contract
  imports Memory_Object
begin

text \<open>
  The agent write contract (\<^verbatim>\<open>agent_contract/src\<close>): proposals and their payloads, schema
  validation, and the proposal store with its lifecycle. The trait \<^verbatim>\<open>ValidatePayload\<close> is the locale
  \<open>payload_kind\<close>, interpreted for the four payload types. The clock is an argument of each call, and
  \<^verbatim>\<open>Uuid::new_v5\<close> of the \<^verbatim>\<open>uuid\<close> crate a parameter.
\<close>

section \<open>Proposals\<close>

record agent_identity =
  ai_agent_id :: uuid
  ai_name :: string
  ai_model_name :: string
  ai_model_version :: string
  ai_skill_id :: "string option"
  ai_recipe_id :: "string option"

definition identity_new :: "uuid \<Rightarrow> string \<Rightarrow> string \<Rightarrow> string \<Rightarrow> agent_identity" where
  "identity_new agent_id name model_name model_version = \<lparr>ai_agent_id = agent_id, ai_name = name,
     ai_model_name = model_name, ai_model_version = model_version, ai_skill_id = None,
     ai_recipe_id = None\<rparr>"

definition with_skill :: "string \<Rightarrow> agent_identity \<Rightarrow> agent_identity" where
  "with_skill skill_id a = a\<lparr>ai_skill_id := Some skill_id\<rparr>"

definition with_recipe :: "string \<Rightarrow> agent_identity \<Rightarrow> agent_identity" where
  "with_recipe recipe_id a = a\<lparr>ai_recipe_id := Some recipe_id\<rparr>"

datatype proposal_kind = KObservation | KConcept | KRelation | KSummary

fun proposal_kind_as_str :: "proposal_kind \<Rightarrow> string" where
  "proposal_kind_as_str KObservation = ''observation''"
| "proposal_kind_as_str KConcept = ''concept''"
| "proposal_kind_as_str KRelation = ''relation''"
| "proposal_kind_as_str KSummary = ''summary''"

text \<open>A \<^verbatim>\<open>std::time::Duration\<close> is a number of nanoseconds, never negative.\<close>

record 't agent_proposal =
  ap_id :: uuid
  ap_kind :: proposal_kind
  ap_scope_id :: uuid
  ap_payload :: 't
  ap_evidence_refs :: "uuid list"
  ap_confidence :: f64
  ap_sensitivity_class :: sensitivity_class
  ap_ttl :: "nat option"
  ap_supersedes :: "uuid option"
  ap_contradicts :: "uuid option"
  ap_agent_identity :: agent_identity
  ap_created_at :: instant

definition proposal_new ::
  "uuid \<Rightarrow> instant \<Rightarrow> proposal_kind \<Rightarrow> uuid \<Rightarrow> 't \<Rightarrow> uuid list \<Rightarrow> f64 \<Rightarrow> sensitivity_class \<Rightarrow>
   agent_identity \<Rightarrow> 't agent_proposal" where
  "proposal_new fresh now kind scope_id payload evidence_refs confidence cls identity =
     \<lparr>ap_id = fresh, ap_kind = kind, ap_scope_id = scope_id, ap_payload = payload,
      ap_evidence_refs = evidence_refs, ap_confidence = confidence, ap_sensitivity_class = cls,
      ap_ttl = None, ap_supersedes = None, ap_contradicts = None, ap_agent_identity = identity,
      ap_created_at = now\<rparr>"

definition with_ttl :: "nat \<Rightarrow> 't agent_proposal \<Rightarrow> 't agent_proposal" where
  "with_ttl ttl p = p\<lparr>ap_ttl := Some ttl\<rparr>"

definition proposal_supersedes :: "uuid \<Rightarrow> 't agent_proposal \<Rightarrow> 't agent_proposal" where
  "proposal_supersedes target p = p\<lparr>ap_supersedes := Some target\<rparr>"

definition proposal_contradicts :: "uuid \<Rightarrow> 't agent_proposal \<Rightarrow> 't agent_proposal" where
  "proposal_contradicts target p = p\<lparr>ap_contradicts := Some target\<rparr>"

definition map_payload :: "('t \<Rightarrow> 'u) \<Rightarrow> 't agent_proposal \<Rightarrow> 'u agent_proposal" where
  "map_payload f p = \<lparr>ap_id = ap_id p, ap_kind = ap_kind p, ap_scope_id = ap_scope_id p,
     ap_payload = f (ap_payload p), ap_evidence_refs = ap_evidence_refs p,
     ap_confidence = ap_confidence p, ap_sensitivity_class = ap_sensitivity_class p,
     ap_ttl = ap_ttl p, ap_supersedes = ap_supersedes p, ap_contradicts = ap_contradicts p,
     ap_agent_identity = ap_agent_identity p, ap_created_at = ap_created_at p\<rparr>"

record observation_proposal =
  op_claim :: string
  op_observation_type :: string

record concept_proposal =
  cp_label :: string
  cp_definition :: string

record relation_proposal =
  rl_src :: uuid
  rl_dst :: uuid
  rl_relation :: string

record summary_proposal =
  sp_text :: string
  sp_summary_type :: string

section \<open>Schema validation\<close>

datatype validation_error =
  ConfidenceOutOfRange f64 | ConfidenceNaN | NoEvidence | NilScope | NilAgentId | EmptyAgentName
| EmptyModelName | EmptyModelVersion | EmptySkillId | EmptyRecipeId | ZeroTtl
| EmptyPayloadField string | SelfRelation | NilRelationEndpoint

definition validate_observation :: "observation_proposal \<Rightarrow> validation_error + unit" where
  "validate_observation o1 =
     (if is_blank (op_claim o1) then Inl (EmptyPayloadField ''claim'')
      else if is_blank (op_observation_type o1) then Inl (EmptyPayloadField ''observation_type'')
      else Inr ())"

definition validate_concept :: "concept_proposal \<Rightarrow> validation_error + unit" where
  "validate_concept c =
     (if is_blank (cp_label c) then Inl (EmptyPayloadField ''label'')
      else if is_blank (cp_definition c) then Inl (EmptyPayloadField ''definition'')
      else Inr ())"

definition validate_relation :: "relation_proposal \<Rightarrow> validation_error + unit" where
  "validate_relation r =
     (if rl_src r = 0 \<or> rl_dst r = 0 then Inl NilRelationEndpoint
      else if rl_src r = rl_dst r then Inl SelfRelation
      else if is_blank (rl_relation r) then Inl (EmptyPayloadField ''relation'')
      else Inr ())"

definition validate_summary :: "summary_proposal \<Rightarrow> validation_error + unit" where
  "validate_summary s =
     (if is_blank (sp_text s) then Inl (EmptyPayloadField ''text'')
      else if is_blank (sp_summary_type s) then Inl (EmptyPayloadField ''summary_type'')
      else Inr ())"

definition validate_proposal ::
  "('t \<Rightarrow> validation_error + unit) \<Rightarrow> 't agent_proposal \<Rightarrow> validation_error + unit" where
  "validate_proposal validate p =
     (let a = ap_agent_identity p in
      if f64_is_nan (ap_confidence p) then Inl ConfidenceNaN
      else if \<not> (f64_le f64_0 (ap_confidence p) \<and> f64_le (ap_confidence p) f64_1)
        then Inl (ConfidenceOutOfRange (ap_confidence p))
      else if ap_evidence_refs p = [] then Inl NoEvidence
      else if ap_scope_id p = 0 then Inl NilScope
      else if ai_agent_id a = 0 then Inl NilAgentId
      else if is_blank (ai_name a) then Inl EmptyAgentName
      else if is_blank (ai_model_name a) then Inl EmptyModelName
      else if is_blank (ai_model_version a) then Inl EmptyModelVersion
      else if (case ai_skill_id a of Some s \<Rightarrow> is_blank s | None \<Rightarrow> False) then Inl EmptySkillId
      else if (case ai_recipe_id a of Some s \<Rightarrow> is_blank s | None \<Rightarrow> False) then Inl EmptyRecipeId
      else if ap_ttl p = Some 0 then Inl ZeroTtl
      else validate (ap_payload p))"

section \<open>Lifecycle states and the promotion policy\<close>

datatype proposal_state = Proposed | UnderReview | Promoted | Rejected

fun proposal_state_as_str :: "proposal_state \<Rightarrow> string" where
  "proposal_state_as_str Proposed = ''proposed''"
| "proposal_state_as_str UnderReview = ''under_review''"
| "proposal_state_as_str Promoted = ''promoted''"
| "proposal_state_as_str Rejected = ''rejected''"

definition proposal_is_terminal :: "proposal_state \<Rightarrow> bool" where
  "proposal_is_terminal s \<longleftrightarrow> s = Promoted \<or> s = Rejected"

record auto_promotion_policy =
  pp_min_confidence :: f64
  pp_min_corroboration :: "32 word"
  pp_max_sensitivity :: sensitivity_class
  pp_require_human_for_critical :: bool

text \<open>\<^verbatim>\<open>f64::MAX\<close> and \<^verbatim>\<open>u32::MAX\<close>.\<close>

definition promotion_policy_default :: auto_promotion_policy where
  "promotion_policy_default = \<lparr>pp_min_confidence = 0x7FEFFFFFFFFFFFFF, pp_min_corroboration = - 1,
     pp_max_sensitivity = Noise, pp_require_human_for_critical = True\<rparr>"

definition promotion_policy_new ::
  "f64 \<Rightarrow> 32 word \<Rightarrow> sensitivity_class \<Rightarrow> bool \<Rightarrow> auto_promotion_policy" where
  "promotion_policy_new c k m h = \<lparr>pp_min_confidence = c, pp_min_corroboration = k,
     pp_max_sensitivity = m, pp_require_human_for_critical = h\<rparr>"

fun sensitivity_rank :: "sensitivity_class \<Rightarrow> nat" where
  "sensitivity_rank Noise = 0"
| "sensitivity_rank Useful = 1"
| "sensitivity_rank Important = 2"
| "sensitivity_rank Critical = 3"

definition promotion_matches ::
  "auto_promotion_policy \<Rightarrow> f64 \<Rightarrow> 32 word \<Rightarrow> sensitivity_class \<Rightarrow> bool" where
  "promotion_matches pol confidence corroboration_count sensitivity =
     (if f64_lt confidence (pp_min_confidence pol) then False
      else if corroboration_count < pp_min_corroboration pol then False
      else if sensitivity_rank (pp_max_sensitivity pol) < sensitivity_rank sensitivity then False
      else if pp_require_human_for_critical pol \<and> sensitivity = Critical then False
      else True)"

datatype proposal_decision = NeedsHumanReview | AutoPromoted

datatype lifecycle_error =
  ProposalNotFound uuid
| ProposalInvalidTransition uuid string string
| ProposalInvalid validation_error
| ProposalExpired uuid
| DuplicateProposal uuid

section \<open>Stored proposals and artifacts\<close>

datatype any_payload =
  AnyObservation observation_proposal | AnyConcept concept_proposal
| AnyRelation relation_proposal | AnySummary summary_proposal

fun any_payload_kind :: "any_payload \<Rightarrow> proposal_kind" where
  "any_payload_kind (AnyObservation _) = KObservation"
| "any_payload_kind (AnyConcept _) = KConcept"
| "any_payload_kind (AnyRelation _) = KRelation"
| "any_payload_kind (AnySummary _) = KSummary"

record stored_proposal =
  st_id :: uuid
  st_state :: proposal_state
  st_scope_id :: uuid
  st_payload :: any_payload
  st_evidence_refs :: "uuid list"
  st_confidence :: f64
  st_sensitivity_class :: sensitivity_class
  st_corroboration_count :: "32 word"
  st_ttl :: "nat option"
  st_supersedes :: "uuid option"
  st_contradicts :: "uuid option"
  st_agent_identity :: agent_identity
  st_submitted_at :: instant
  st_updated_at :: instant
  st_rejection_reason :: "string option"

text \<open>A negative elapsed time fails \<^verbatim>\<open>to_std\<close> and counts as not expired.\<close>

definition proposal_is_expired :: "stored_proposal \<Rightarrow> instant \<Rightarrow> bool" where
  "proposal_is_expired p now =
     (case st_ttl p of
        None \<Rightarrow> False
      | Some ttl \<Rightarrow>
          (let elapsed = now - st_submitted_at p in if elapsed < 0 then False else ttl \<le> nat elapsed))"

record canonical_observation =
  co_id :: uuid
  co_scope_id :: uuid
  co_proposal_id :: uuid
  co_claim :: string
  co_observation_type :: string
  co_sensitivity_class :: sensitivity_class
  co_evidence_refs :: "uuid list"

record canonical_concept =
  cc_id :: uuid
  cc_scope_id :: uuid
  cc_proposal_id :: uuid
  cc_label :: string
  cc_definition :: string
  cc_sensitivity_class :: sensitivity_class

record canonical_relation =
  crl_id :: uuid
  crl_scope_id :: uuid
  crl_proposal_id :: uuid
  crl_src :: uuid
  crl_dst :: uuid
  crl_relation :: string

record canonical_summary =
  cs_id :: uuid
  cs_scope_id :: uuid
  cs_proposal_id :: uuid
  cs_text :: string
  cs_summary_type :: string
  cs_sensitivity_class :: sensitivity_class

datatype canonical_artifact =
  CanonObservation canonical_observation | CanonConcept canonical_concept
| CanonRelation canonical_relation | CanonSummary canonical_summary

fun artifact_kind :: "canonical_artifact \<Rightarrow> proposal_kind" where
  "artifact_kind (CanonObservation _) = KObservation"
| "artifact_kind (CanonConcept _) = KConcept"
| "artifact_kind (CanonRelation _) = KRelation"
| "artifact_kind (CanonSummary _) = KSummary"

fun artifact_id :: "canonical_artifact \<Rightarrow> uuid" where
  "artifact_id (CanonObservation o1) = co_id o1"
| "artifact_id (CanonConcept c) = cc_id c"
| "artifact_id (CanonRelation r) = crl_id r"
| "artifact_id (CanonSummary s) = cs_id s"

fun canonical_namespace :: "proposal_kind \<Rightarrow> uuid" where
  "canonical_namespace KObservation = 0x6f6273657276356e8000000000000001"
| "canonical_namespace KConcept = 0x636f6e63657035748000000000000002"
| "canonical_namespace KRelation = 0x72656c6174696f6e8000000000000003"
| "canonical_namespace KSummary = 0x73756d6d617235798000000000000004"

definition derive_canonical_id ::
  "(uuid \<Rightarrow> byte list \<Rightarrow> uuid) \<Rightarrow> proposal_kind \<Rightarrow> uuid \<Rightarrow> uuid" where
  "derive_canonical_id new_v5 kind proposal_id = new_v5 (canonical_namespace kind) (uuid_bytes proposal_id)"

definition stored_from_envelope :: "'t agent_proposal \<Rightarrow> ('t \<Rightarrow> any_payload) \<Rightarrow> stored_proposal" where
  "stored_from_envelope p wrap = \<lparr>st_id = ap_id p, st_state = Proposed,
     st_scope_id = ap_scope_id p, st_payload = wrap (ap_payload p),
     st_evidence_refs = ap_evidence_refs p, st_confidence = ap_confidence p,
     st_sensitivity_class = ap_sensitivity_class p, st_corroboration_count = 0,
     st_ttl = ap_ttl p, st_supersedes = ap_supersedes p, st_contradicts = ap_contradicts p,
     st_agent_identity = ap_agent_identity p, st_submitted_at = ap_created_at p,
     st_updated_at = ap_created_at p, st_rejection_reason = None\<rparr>"

section \<open>The store\<close>

record proposal_store =
  ps_proposals :: "uuid \<rightharpoonup> stored_proposal"

definition pstore_new :: proposal_store where
  "pstore_new = \<lparr>ps_proposals = Map.empty\<rparr>"

definition pstore_len :: "proposal_store \<Rightarrow> nat" where
  "pstore_len s = card (dom (ps_proposals s))"

definition pstore_is_empty :: "proposal_store \<Rightarrow> bool" where
  "pstore_is_empty s \<longleftrightarrow> dom (ps_proposals s) = {}"

definition pstore_get :: "proposal_store \<Rightarrow> uuid \<Rightarrow> stored_proposal option" where
  "pstore_get s i = ps_proposals s i"

text \<open>The body that the four \<^verbatim>\<open>submit_*\<close> methods share.\<close>

definition submit_proposal ::
  "('t \<Rightarrow> validation_error + unit) \<Rightarrow> ('t \<Rightarrow> any_payload) \<Rightarrow> 't agent_proposal \<Rightarrow> proposal_store \<Rightarrow>
   (lifecycle_error + uuid) \<times> proposal_store" where
  "submit_proposal validate wrap p s =
     (case validate_proposal validate p of
        Inl e \<Rightarrow> (Inl (ProposalInvalid e), s)
      | Inr _ \<Rightarrow>
          (let i = ap_id p in
           if ps_proposals s i \<noteq> None then (Inl (DuplicateProposal i), s)
           else (Inr i, s\<lparr>ps_proposals := (ps_proposals s)(i \<mapsto> stored_from_envelope p wrap)\<rparr>)))"

definition submit_observation ::
  "observation_proposal agent_proposal \<Rightarrow> proposal_store \<Rightarrow> (lifecycle_error + uuid) \<times> proposal_store" where
  "submit_observation = submit_proposal validate_observation AnyObservation"

definition submit_concept ::
  "concept_proposal agent_proposal \<Rightarrow> proposal_store \<Rightarrow> (lifecycle_error + uuid) \<times> proposal_store" where
  "submit_concept = submit_proposal validate_concept AnyConcept"

definition submit_relation ::
  "relation_proposal agent_proposal \<Rightarrow> proposal_store \<Rightarrow> (lifecycle_error + uuid) \<times> proposal_store" where
  "submit_relation = submit_proposal validate_relation AnyRelation"

definition submit_summary ::
  "summary_proposal agent_proposal \<Rightarrow> proposal_store \<Rightarrow> (lifecycle_error + uuid) \<times> proposal_store" where
  "submit_summary = submit_proposal validate_summary AnySummary"

text \<open>An update through \<^verbatim>\<open>get_mut(&id)\<close>.\<close>

definition with_proposal ::
  "uuid \<Rightarrow> (stored_proposal \<Rightarrow> (lifecycle_error + 'r) \<times> stored_proposal) \<Rightarrow> proposal_store \<Rightarrow>
   (lifecycle_error + 'r) \<times> proposal_store" where
  "with_proposal i f s =
     (case ps_proposals s i of
        None \<Rightarrow> (Inl (ProposalNotFound i), s)
      | Some p \<Rightarrow> (case f p of (r, q) \<Rightarrow> (r, s\<lparr>ps_proposals := (ps_proposals s)(i \<mapsto> q)\<rparr>)))"

definition reject_expired :: "instant \<Rightarrow> stored_proposal \<Rightarrow> stored_proposal" where
  "reject_expired now p = p\<lparr>st_state := Rejected, st_updated_at := now,
     st_rejection_reason := Some ''ttl_expired''\<rparr>"

definition pstore_record_corroboration ::
  "instant \<Rightarrow> uuid \<Rightarrow> proposal_store \<Rightarrow> (lifecycle_error + unit) \<times> proposal_store" where
  "pstore_record_corroboration now i = with_proposal i (\<lambda>p.
     if proposal_is_terminal (st_state p)
     then (Inl (ProposalInvalidTransition i (proposal_state_as_str (st_state p)) ''corroborated''), p)
     else if proposal_is_expired p now then (Inl (ProposalExpired i), reject_expired now p)
     else (Inr (), p\<lparr>st_corroboration_count := u32_sat_add (st_corroboration_count p) 1,
                     st_updated_at := now\<rparr>))"

definition review ::
  "instant \<Rightarrow> uuid \<Rightarrow> auto_promotion_policy \<Rightarrow> proposal_store \<Rightarrow>
   (lifecycle_error + proposal_decision) \<times> proposal_store" where
  "review now i policy = with_proposal i (\<lambda>p.
     if proposal_is_terminal (st_state p)
     then (Inl (ProposalInvalidTransition i (proposal_state_as_str (st_state p))
             (proposal_state_as_str UnderReview)), p)
     else if proposal_is_expired p now then (Inl (ProposalExpired i), reject_expired now p)
     else if st_state p \<noteq> Proposed
     then (Inl (ProposalInvalidTransition i (proposal_state_as_str (st_state p))
             (proposal_state_as_str UnderReview)), p)
     else (let p1 = p\<lparr>st_state := UnderReview, st_updated_at := now\<rparr> in
           if promotion_matches policy (st_confidence p1) (st_corroboration_count p1)
                (st_sensitivity_class p1)
           then (Inr AutoPromoted, p1\<lparr>st_state := Promoted, st_updated_at := now\<rparr>)
           else (Inr NeedsHumanReview, p1)))"

definition promote :: "instant \<Rightarrow> uuid \<Rightarrow> proposal_store \<Rightarrow> (lifecycle_error + unit) \<times> proposal_store" where
  "promote now i = with_proposal i (\<lambda>p.
     if st_state p \<noteq> UnderReview
     then (Inl (ProposalInvalidTransition i (proposal_state_as_str (st_state p))
             (proposal_state_as_str Promoted)), p)
     else (Inr (), p\<lparr>st_state := Promoted, st_updated_at := now\<rparr>))"

definition reject ::
  "instant \<Rightarrow> uuid \<Rightarrow> string \<Rightarrow> proposal_store \<Rightarrow> (lifecycle_error + unit) \<times> proposal_store" where
  "reject now i reason = with_proposal i (\<lambda>p.
     if proposal_is_terminal (st_state p)
     then (Inl (ProposalInvalidTransition i (proposal_state_as_str (st_state p))
             (proposal_state_as_str Rejected)), p)
     else (Inr (), p\<lparr>st_state := Rejected, st_updated_at := now, st_rejection_reason := Some reason\<rparr>))"

definition promote_to_canonical ::
  "(uuid \<Rightarrow> byte list \<Rightarrow> uuid) \<Rightarrow> uuid \<Rightarrow> proposal_store \<Rightarrow> lifecycle_error + canonical_artifact" where
  "promote_to_canonical new_v5 i s =
     (case ps_proposals s i of
        None \<Rightarrow> Inl (ProposalNotFound i)
      | Some p \<Rightarrow>
          if st_state p \<noteq> Promoted
          then Inl (ProposalInvalidTransition i (proposal_state_as_str (st_state p)) ''canonical'')
          else Inr (case st_payload p of
              AnyObservation o1 \<Rightarrow> CanonObservation \<lparr>
                co_id = derive_canonical_id new_v5 KObservation (st_id p),
                co_scope_id = st_scope_id p, co_proposal_id = st_id p, co_claim = op_claim o1,
                co_observation_type = op_observation_type o1,
                co_sensitivity_class = st_sensitivity_class p, co_evidence_refs = st_evidence_refs p\<rparr>
            | AnyConcept c \<Rightarrow> CanonConcept \<lparr>
                cc_id = derive_canonical_id new_v5 KConcept (st_id p),
                cc_scope_id = st_scope_id p, cc_proposal_id = st_id p, cc_label = cp_label c,
                cc_definition = cp_definition c, cc_sensitivity_class = st_sensitivity_class p\<rparr>
            | AnyRelation r \<Rightarrow> CanonRelation \<lparr>
                crl_id = derive_canonical_id new_v5 KRelation (st_id p),
                crl_scope_id = st_scope_id p, crl_proposal_id = st_id p, crl_src = rl_src r,
                crl_dst = rl_dst r, crl_relation = rl_relation r\<rparr>
            | AnySummary sm \<Rightarrow> CanonSummary \<lparr>
                cs_id = derive_canonical_id new_v5 KSummary (st_id p),
                cs_scope_id = st_scope_id p, cs_proposal_id = st_id p, cs_text = sp_text sm,
                cs_summary_type = sp_summary_type sm, cs_sensitivity_class = st_sensitivity_class p\<rparr>))"

definition pstore_ids :: "proposal_store \<Rightarrow> uuid set" where
  "pstore_ids s = dom (ps_proposals s)"

section \<open>What a stored proposal promises\<close>

fun payload_valid :: "any_payload \<Rightarrow> bool" where
  "payload_valid (AnyObservation o1) = (\<not> is_blank (op_claim o1) \<and> \<not> is_blank (op_observation_type o1))"
| "payload_valid (AnyConcept c) = (\<not> is_blank (cp_label c) \<and> \<not> is_blank (cp_definition c))"
| "payload_valid (AnyRelation r) =
     (rl_src r \<noteq> 0 \<and> rl_dst r \<noteq> 0 \<and> rl_src r \<noteq> rl_dst r \<and> \<not> is_blank (rl_relation r))"
| "payload_valid (AnySummary sm) = (\<not> is_blank (sp_text sm) \<and> \<not> is_blank (sp_summary_type sm))"

definition identity_valid :: "agent_identity \<Rightarrow> bool" where
  "identity_valid a \<longleftrightarrow> ai_agent_id a \<noteq> 0 \<and> \<not> is_blank (ai_name a) \<and> \<not> is_blank (ai_model_name a) \<and>
     \<not> is_blank (ai_model_version a) \<and> (\<forall>x. ai_skill_id a = Some x \<longrightarrow> \<not> is_blank x) \<and>
     (\<forall>x. ai_recipe_id a = Some x \<longrightarrow> \<not> is_blank x)"

definition stored_valid :: "stored_proposal \<Rightarrow> bool" where
  "stored_valid p \<longleftrightarrow> f64_le f64_0 (st_confidence p) \<and> f64_le (st_confidence p) f64_1 \<and>
     st_evidence_refs p \<noteq> [] \<and> st_scope_id p \<noteq> 0 \<and> identity_valid (st_agent_identity p) \<and>
     st_ttl p \<noteq> Some 0 \<and> payload_valid (st_payload p) \<and>
     (st_rejection_reason p \<noteq> None \<longleftrightarrow> st_state p = Rejected)"

definition proposal_store_inv :: "proposal_store \<Rightarrow> bool" where
  "proposal_store_inv s \<longleftrightarrow> (\<forall>i p. ps_proposals s i = Some p \<longrightarrow> st_id p = i \<and> stored_valid p)"

lemma validate_proposal_ok:
  assumes "validate_proposal validate p = Inr u"
    and "validate (ap_payload p) = Inr () \<Longrightarrow> payload_valid (wrap (ap_payload p))"
  shows "stored_valid (stored_from_envelope p wrap)"
  using assms
  by (auto simp: validate_proposal_def Let_def stored_valid_def stored_from_envelope_def identity_valid_def
      split: if_splits option.splits)

section \<open>The payload contract\<close>

text \<open>
  What the store relies on of a payload type: a payload that its \<^verbatim>\<open>validate\<close> accepts is valid once
  wrapped.
\<close>

locale payload_kind =
  fixes validate :: "'t \<Rightarrow> validation_error + unit"
    and wrap :: "'t \<Rightarrow> any_payload"
  assumes validate_valid: "validate x = Inr () \<Longrightarrow> payload_valid (wrap x)"
begin

lemma submit_get:
  "ps_proposals (snd (submit_proposal validate wrap p s)) i =
   (if i = ap_id p \<and> ps_proposals s i = None \<and> validate_proposal validate p = Inr ()
    then Some (stored_from_envelope p wrap) else ps_proposals s i)"
  by (auto simp: submit_proposal_def Let_def split: sum.splits)

lemma submit_keeps: "ps_proposals s i = Some q \<Longrightarrow> ps_proposals (snd (submit_proposal validate wrap p s)) i = Some q"
  by (simp add: submit_get)

lemma submit_inv: "proposal_store_inv s \<Longrightarrow> proposal_store_inv (snd (submit_proposal validate wrap p s))"
  unfolding proposal_store_inv_def submit_get
  using validate_proposal_ok [OF _ validate_valid]
  by (auto simp: stored_from_envelope_def)

lemma submit_new:
  "ps_proposals s i = None \<Longrightarrow> ps_proposals (snd (submit_proposal validate wrap p s)) i = Some q \<Longrightarrow>
   st_state q = Proposed"
  by (auto simp: submit_get stored_from_envelope_def split: if_splits)

end

interpretation observation: payload_kind validate_observation AnyObservation
  by unfold_locales (auto simp: validate_observation_def split: if_splits)

interpretation concept: payload_kind validate_concept AnyConcept
  by unfold_locales (auto simp: validate_concept_def split: if_splits)

interpretation relation: payload_kind validate_relation AnyRelation
  by unfold_locales (auto simp: validate_relation_def split: if_splits)

interpretation summary: payload_kind validate_summary AnySummary
  by unfold_locales (auto simp: validate_summary_def split: if_splits)

section \<open>Commands\<close>

datatype proposal_command =
  SubmitObservation "observation_proposal agent_proposal"
| SubmitConcept "concept_proposal agent_proposal"
| SubmitRelation "relation_proposal agent_proposal"
| SubmitSummary "summary_proposal agent_proposal"
| RecordCorroboration instant uuid
| Review instant uuid auto_promotion_policy
| Promote instant uuid
| Reject instant uuid string

fun exec_proposal :: "proposal_command \<Rightarrow> proposal_store \<Rightarrow> proposal_store" where
  "exec_proposal (SubmitObservation p) s = snd (submit_observation p s)"
| "exec_proposal (SubmitConcept p) s = snd (submit_concept p s)"
| "exec_proposal (SubmitRelation p) s = snd (submit_relation p s)"
| "exec_proposal (SubmitSummary p) s = snd (submit_summary p s)"
| "exec_proposal (RecordCorroboration now i) s = snd (pstore_record_corroboration now i s)"
| "exec_proposal (Review now i policy) s = snd (review now i policy s)"
| "exec_proposal (Promote now i) s = snd (promote now i s)"
| "exec_proposal (Reject now i reason) s = snd (reject now i reason s)"

fun proposal_edge :: "proposal_state \<Rightarrow> proposal_state \<Rightarrow> bool" where
  "proposal_edge Proposed b = (b \<noteq> Proposed)"
| "proposal_edge UnderReview b = (b = Promoted \<or> b = Rejected)"
| "proposal_edge Promoted b = False"
| "proposal_edge Rejected b = False"

interpretation proposal: lifecycle proposal_edge proposal_is_terminal
proof
  show "proposal_is_terminal a \<Longrightarrow> \<not> proposal_edge a b" for a b
    by (cases a) (simp_all add: proposal_is_terminal_def)
  show "\<not> proposal_edge a a" for a by (cases a) simp_all
qed

lemma with_proposal_get:
  "ps_proposals (snd (with_proposal j f s)) i =
   (if i = j then map_option (\<lambda>p. snd (f p)) (ps_proposals s i) else ps_proposals s i)"
  by (auto simp: with_proposal_def split: option.splits prod.splits)

lemma with_proposal_inv:
  assumes "proposal_store_inv s" and "\<And>p. stored_valid p \<Longrightarrow> st_id (snd (f p)) = st_id p \<and> stored_valid (snd (f p))"
  shows "proposal_store_inv (snd (with_proposal j f s))"
  using assms by (auto simp: proposal_store_inv_def with_proposal_get split: if_splits)

lemmas command_defs = pstore_record_corroboration_def review_def promote_def reject_def reject_expired_def
lemmas submit_defs = submit_observation_def submit_concept_def submit_relation_def submit_summary_def

lemma exec_proposal_inv: "proposal_store_inv s \<Longrightarrow> proposal_store_inv (exec_proposal c s)"
proof (cases c)
  case (RecordCorroboration now i)
  assume "proposal_store_inv s"
  then show ?thesis
    unfolding RecordCorroboration exec_proposal.simps pstore_record_corroboration_def
    by (rule with_proposal_inv)
       (auto simp: stored_valid_def reject_expired_def proposal_is_terminal_def)
next
  case (Review now i policy)
  assume "proposal_store_inv s"
  then show ?thesis
    unfolding Review exec_proposal.simps review_def
    by (rule with_proposal_inv)
       (auto simp: stored_valid_def reject_expired_def proposal_is_terminal_def Let_def)
next
  case (Promote now i)
  assume "proposal_store_inv s"
  then show ?thesis
    unfolding Promote exec_proposal.simps promote_def
    by (rule with_proposal_inv) (auto simp: stored_valid_def)
next
  case (Reject now i reason)
  assume "proposal_store_inv s"
  then show ?thesis
    unfolding Reject exec_proposal.simps reject_def
    by (rule with_proposal_inv) (auto simp: stored_valid_def)
qed (simp_all add: submit_defs observation.submit_inv concept.submit_inv relation.submit_inv
    summary.submit_inv)

lemma fold_proposal_inv: "proposal_store_inv s \<Longrightarrow> proposal_store_inv (fold exec_proposal cs s)"
  by (induction cs arbitrary: s) (simp_all add: exec_proposal_inv)

lemma pstore_new_inv: "proposal_store_inv pstore_new"
  by (simp add: proposal_store_inv_def pstore_new_def)

text \<open>What one command does to one stored proposal.\<close>

definition stored_step :: "proposal_command \<Rightarrow> uuid \<Rightarrow> stored_proposal \<Rightarrow> stored_proposal \<Rightarrow> bool" where
  "stored_step c i p q \<longleftrightarrow>
     (proposal_is_terminal (st_state p) \<longrightarrow> q = p) \<and>
     (st_state q = st_state p \<or> proposal_edge (st_state p) (st_state q)) \<and>
     st_confidence q = st_confidence p \<and> st_sensitivity_class q = st_sensitivity_class p \<and>
     (st_state q = Promoted \<longrightarrow> st_state p = Promoted \<or> (\<exists>now. c = Promote now i) \<or>
        (\<exists>now policy. c = Review now i policy \<and>
           promotion_matches policy (st_confidence p) (st_corroboration_count p) (st_sensitivity_class p)))"

lemma stored_step_refl [simp]: "stored_step c i p p"
  by (simp add: stored_step_def)

lemma with_proposal_step:
  assumes "ps_proposals s i = Some p" and "stored_step c j p (snd (f p))"
  shows "\<exists>q. ps_proposals (snd (with_proposal j f s)) i = Some q \<and> stored_step c i p q"
  using assms by (auto simp: with_proposal_get)

lemma state_cases:
  "\<not> proposal_is_terminal s \<longleftrightarrow> s = Proposed \<or> s = UnderReview"
  by (cases s) (simp_all add: proposal_is_terminal_def)

lemma exec_proposal_step:
  assumes "ps_proposals s i = Some p"
  shows "\<exists>q. ps_proposals (exec_proposal c s) i = Some q \<and> stored_step c i p q"
proof (cases c)
  case (RecordCorroboration now j)
  show ?thesis
    unfolding RecordCorroboration exec_proposal.simps pstore_record_corroboration_def
    by (rule with_proposal_step [OF assms])
       (auto simp: stored_step_def reject_expired_def state_cases)
next
  case (Review now j policy)
  show ?thesis
    unfolding Review exec_proposal.simps review_def
    by (rule with_proposal_step [OF assms])
       (auto simp: stored_step_def reject_expired_def state_cases Let_def)
next
  case (Promote now j)
  show ?thesis
    unfolding Promote exec_proposal.simps promote_def
    by (rule with_proposal_step [OF assms]) (auto simp: stored_step_def proposal_is_terminal_def)
next
  case (Reject now j reason)
  show ?thesis
    unfolding Reject exec_proposal.simps reject_def
    by (rule with_proposal_step [OF assms]) (auto simp: stored_step_def state_cases)
qed (simp_all add: assms submit_defs observation.submit_keeps concept.submit_keeps
    relation.submit_keeps summary.submit_keeps)

lemma exec_proposal_new:
  assumes "ps_proposals s i = None" and "ps_proposals (exec_proposal c s) i = Some q"
  shows "st_state q = Proposed"
  using assms
  by (cases c)
     (auto simp: submit_defs command_defs with_proposal_get split: if_splits
       dest: observation.submit_new concept.submit_new relation.submit_new summary.submit_new)

lemma fold_proposal_terminal:
  "ps_proposals s i = Some p \<Longrightarrow> proposal_is_terminal (st_state p) \<Longrightarrow>
   ps_proposals (fold exec_proposal cs s) i = Some p"
proof (induction cs arbitrary: s)
  case (Cons c cs)
  from exec_proposal_step [OF Cons.prems(1), of c] have "ps_proposals (exec_proposal c s) i = Some p"
    using Cons.prems(2) by (auto simp: stored_step_def)
  then show ?case using Cons by simp
qed simp

text \<open>A sample submission, for evaluation.\<close>

definition sample_proposal :: "sensitivity_class \<Rightarrow> observation_proposal agent_proposal" where
  "sample_proposal cls = with_ttl 100 (proposal_new 7 0 KObservation 3
     \<lparr>op_claim = ''Atlas ships'', op_observation_type = ''fact''\<rparr> [5] f64_0_9 cls
     (identity_new 2 ''nina'' ''qwen'' ''v1''))"

lemma sample_valid: "validate_proposal validate_observation (sample_proposal cls) = Inr ()"
proof -
  have "f64_le f64_0 f64_0_9" "f64_le f64_0_9 f64_1" "\<not> f64_is_nan f64_0_9" by simp_all
  then show ?thesis
    by (simp add: validate_proposal_def sample_proposal_def with_ttl_def proposal_new_def identity_new_def
        validate_observation_def is_blank_def is_whitespace_def Let_def)
qed

lemma sample_stored:
  "ps_proposals (fold exec_proposal [SubmitObservation (sample_proposal cls)] pstore_new) =
   [7 \<mapsto> stored_from_envelope (sample_proposal cls) AnyObservation]"
  using sample_valid [of cls]
  by (auto simp: submit_observation_def submit_proposal_def pstore_new_def sample_proposal_def
      with_ttl_def proposal_new_def Let_def)

lemma sample_fields:
  "st_ttl (stored_from_envelope (sample_proposal cls) w) = Some 100"
  "st_submitted_at (stored_from_envelope (sample_proposal cls) w) = 0"
  "st_state (stored_from_envelope (sample_proposal cls) w) = Proposed"
  "st_sensitivity_class (stored_from_envelope (sample_proposal cls) w) = cls"
  "st_confidence (stored_from_envelope (sample_proposal cls) w) = f64_0_9"
  "st_corroboration_count (stored_from_envelope (sample_proposal cls) w) = 0"
  by (simp_all add: stored_from_envelope_def sample_proposal_def with_ttl_def proposal_new_def)

section \<open>Properties\<close>

text \<open>
  C30. Every stored proposal is well formed. From the empty store, whatever is submitted and whatever
  commands follow, each stored proposal is filed under its own id, has a confidence between 0.0 and
  1.0, evidence, a scope, a complete identity, no zero time to live, a complete payload, and a
  rejection reason exactly when it is rejected.
\<close>

theorem proposals_stay_valid:
  "proposal_store_inv (fold exec_proposal cs pstore_new)"
  by (rule fold_proposal_inv [OF pstore_new_inv])

text \<open>
  Terminal states are inviolable. Once a proposal is promoted or rejected, no sequence of commands
  (a resubmission under its id included) changes any field of the record, so the canonical artifact
  of a promoted proposal is the same ever after.
\<close>

theorem terminal_proposals_immutable:
  assumes "pstore_get s i = Some p" and "proposal_is_terminal (st_state p)"
  shows "pstore_get (fold exec_proposal cs s) i = Some p \<and>
    promote_to_canonical new_v5 i (fold exec_proposal cs s) = promote_to_canonical new_v5 i s"
  using assms fold_proposal_terminal [of s i p cs] by (simp add: pstore_get_def promote_to_canonical_def)

theorem terminal_proposals_immutable_witness:
  "let s = fold exec_proposal [SubmitObservation (sample_proposal Useful), Reject 3 7 ''spam''] pstore_new in
   map_option st_state (pstore_get (fold exec_proposal
     [SubmitObservation (sample_proposal Critical), Review 4 7 (promotion_policy_new 0 0 Critical False),
      Promote 5 7] s) 7) = Some Rejected"
proof -
  let ?s = "fold exec_proposal [SubmitObservation (sample_proposal Useful), Reject 3 7 ''spam''] pstore_new"
  let ?p = "(stored_from_envelope (sample_proposal Useful) AnyObservation)\<lparr>st_state := Rejected,
      st_updated_at := 3, st_rejection_reason := Some ''spam''\<rparr>"
  let ?cs = "[SubmitObservation (sample_proposal Critical), Review 4 7 (promotion_policy_new 0 0 Critical False),
      Promote 5 7]"
  have p: "pstore_get ?s 7 = Some ?p"
    using sample_stored [of Useful]
    by (simp add: pstore_get_def reject_def with_proposal_get sample_fields proposal_is_terminal_def)
  have "proposal_is_terminal (st_state ?p)" by (simp add: proposal_is_terminal_def)
  then have "pstore_get (fold exec_proposal ?cs ?s) 7 = Some ?p"
    by (rule terminal_proposals_immutable [OF p, THEN conjunct1])
  then show ?thesis unfolding Let_def by (simp del: fold_simps exec_proposal.simps)
qed

text \<open>
  Promotion has a cause. A proposal found promoted in a store built by any commands was promoted by
  an explicit \<open>Promote\<close>, or by a \<open>Review\<close> whose policy its confidence, its corroboration at that
  moment and its sensitivity match.
\<close>

lemma promoted_has_cause:
  assumes "ps_proposals (fold exec_proposal cs pstore_new) i = Some p" and "st_state p = Promoted"
  shows "(\<exists>now. Promote now i \<in> set cs) \<or>
    (\<exists>now policy k. Review now i policy \<in> set cs \<and>
       promotion_matches policy (st_confidence p) k (st_sensitivity_class p))"
  using assms
proof (induction cs arbitrary: p rule: rev_induct)
  case Nil
  then show ?case by (simp add: pstore_new_def)
next
  case (snoc c cs)
  let ?s = "fold exec_proposal cs pstore_new"
  show ?case
  proof (cases "ps_proposals ?s i")
    case None
    then have "st_state p = Proposed" using exec_proposal_new [of ?s i c p] snoc.prems(1) by simp
    then show ?thesis using snoc.prems(2) by simp
  next
    case (Some p0)
    then have "stored_step c i p0 p" using exec_proposal_step [OF Some, of c] snoc.prems(1) by auto
    then show ?thesis using snoc.IH [OF Some] snoc.prems(2) by (auto simp: stored_step_def)
  qed
qed



text \<open>
  The default policy denies by default: no reachable proposal matches it, so every review under it
  that is not refused leaves the proposal for a human.
\<close>

theorem default_policy_never_promotes:
  assumes "pstore_get (fold exec_proposal cs pstore_new) i = Some p"
  shows "\<not> promotion_matches promotion_policy_default (st_confidence p) k (st_sensitivity_class p) \<and>
    fst (review now i promotion_policy_default (fold exec_proposal cs pstore_new)) \<noteq> Inr AutoPromoted"
proof -
  have "stored_valid p"
    using fold_proposal_inv [OF pstore_new_inv, of cs] assms by (auto simp: proposal_store_inv_def pstore_get_def)
  then have "f64_le (st_confidence p) f64_1" by (simp add: stored_valid_def)
  moreover have "f64_lt f64_1 0x7FEFFFFFFFFFFFFF"
    unfolding f64_lt_def f64_is_nan_def f64_key_def f64_mag_def f64_neg_def by simp
  ultimately have "f64_lt (st_confidence p) 0x7FEFFFFFFFFFFFFF"
    by (auto simp: f64_lt_def f64_le_def)
  then have "\<not> promotion_matches promotion_policy_default (st_confidence p) k (st_sensitivity_class p)" for k
    by (simp add: promotion_matches_def promotion_policy_default_def)
  then show ?thesis
    using assms by (simp add: review_def with_proposal_def pstore_get_def Let_def)
qed

theorem default_policy_never_promotes_witness:
  "fst (review 4 7 promotion_policy_default
     (fold exec_proposal [SubmitObservation (sample_proposal Noise)] pstore_new)) \<noteq> Inr AutoPromoted"
  using default_policy_never_promotes [of "[SubmitObservation (sample_proposal Noise)]" 7]
    sample_stored [of Noise] by (simp add: pstore_get_def del: exec_proposal.simps fold_simps)

text \<open>
  Expiry. A review or a corroboration that finds a pending proposal past its time to live rejects it
  with the reason \<^verbatim>\<open>ttl_expired\<close> and reports it; but an explicit promotion does not look at the time
  to live, so a proposal under review is promoted however long it has expired.
\<close>

theorem expiry_behaviour:
  assumes "pstore_get s i = Some p" and "\<not> proposal_is_terminal (st_state p)" and "proposal_is_expired p now"
  shows "fst (review now i policy s) = Inl (ProposalExpired i) \<and>
    pstore_get (snd (review now i policy s)) i = Some (reject_expired now p) \<and>
    fst (pstore_record_corroboration now i s) = Inl (ProposalExpired i) \<and>
    pstore_get (snd (pstore_record_corroboration now i s)) i = Some (reject_expired now p) \<and>
    (st_state p = UnderReview \<longrightarrow>
       fst (promote now i s) = Inr () \<and> map_option st_state (pstore_get (snd (promote now i s)) i) = Some Promoted)"
  using assms
  by (simp add: pstore_get_def review_def pstore_record_corroboration_def promote_def with_proposal_def)

theorem expiry_behaviour_witness:
  "let s = fold exec_proposal [SubmitObservation (sample_proposal Useful),
             Review 4 7 promotion_policy_default] pstore_new
   in map_option st_state (pstore_get (snd (review 5000 7 promotion_policy_default s)) 7) = Some Rejected \<and>
      map_option st_state (pstore_get (snd (promote 5000 7 s)) 7) = Some Promoted"
proof -
  let ?s = "fold exec_proposal [SubmitObservation (sample_proposal Useful),
             Review 4 7 promotion_policy_default] pstore_new"
  let ?p = "(stored_from_envelope (sample_proposal Useful) AnyObservation)\<lparr>st_state := UnderReview, st_updated_at := 4\<rparr>"
  have p: "pstore_get ?s 7 = Some ?p"
    using sample_stored [of Useful]
    by (simp add: pstore_get_def review_def with_proposal_get sample_fields proposal_is_terminal_def
        proposal_is_expired_def promotion_matches_def promotion_policy_default_def Let_def)
  have "\<not> proposal_is_terminal (st_state ?p)" "proposal_is_expired ?p 5000"
    by (simp_all add: proposal_is_terminal_def proposal_is_expired_def sample_fields)
  from expiry_behaviour [OF p this] show ?thesis by (simp add: Let_def reject_expired_def)
qed

text \<open>
  Canonical artifacts of distinct promoted proposals have distinct ids, whenever the name-based
  UUIDs of the stored proposals do not collide; the four namespaces keep the kinds apart.
\<close>

lemma artifact_id_derive:
  assumes "proposal_store_inv s" and "promote_to_canonical new_v5 i s = Inr a"
  shows "artifact_id a = derive_canonical_id new_v5 (artifact_kind a) i"
  using assms
  by (auto simp: promote_to_canonical_def proposal_store_inv_def split: option.splits if_splits any_payload.splits)

lemma canonical_ids_distinct:
  assumes "proposal_store_inv s"
    and "inj_on (\<lambda>(k, i). derive_canonical_id new_v5 k i) (UNIV \<times> pstore_ids s)"
    and "promote_to_canonical new_v5 i s = Inr a" and "promote_to_canonical new_v5 j s = Inr b"
    and "artifact_id a = artifact_id b"
  shows "i = j"
proof -
  have "i \<in> pstore_ids s" "j \<in> pstore_ids s"
    using assms(3,4) by (auto simp: promote_to_canonical_def pstore_ids_def split: option.splits)
  moreover have "derive_canonical_id new_v5 (artifact_kind a) i = derive_canonical_id new_v5 (artifact_kind b) j"
    using artifact_id_derive [OF assms(1,3)] artifact_id_derive [OF assms(1,4)] assms(5) by simp
  ultimately have "(artifact_kind a, i) = (artifact_kind b, j)"
    by (intro inj_onD [OF assms(2)]) simp_all
  then show ?thesis by simp
qed

end
