(* ===== verification/Concept_Graph.thy ===== *)
theory Concept_Graph
  imports Time_And_Float
begin

text \<open>
  The concept graph (\<^verbatim>\<open>concept_graph/src\<close>: \<^verbatim>\<open>node.rs\<close>, \<^verbatim>\<open>edge.rs\<close>, \<^verbatim>\<open>graph.rs\<close>, \<^verbatim>\<open>error.rs\<close>): nodes, typed
  edges, the two adjacency indexes, and the breadth-first traversal. Node and edge ids are the
  UUIDs they wrap; fresh ids and the clock are arguments; the order in which a hash set is iterated
  is an argument where the source iterates one.
\<close>

section \<open>Nodes and edges\<close>

datatype node_state = NCandidate | NCanonical | NSuperseded | NContradicted | NDeleted

fun node_state_as_str :: "node_state \<Rightarrow> string" where
  "node_state_as_str NCandidate = ''candidate''"
| "node_state_as_str NCanonical = ''canonical''"
| "node_state_as_str NSuperseded = ''superseded''"
| "node_state_as_str NContradicted = ''contradicted''"
| "node_state_as_str NDeleted = ''deleted''"

record concept_node =
  cn_id :: uuid
  cn_label :: string
  cn_definition :: string
  cn_scope_id :: uuid
  cn_state :: node_state
  cn_superseded_by :: "uuid option"
  cn_created_at :: instant
  cn_updated_at :: instant
  cn_metadata :: json

definition node_new_candidate :: "uuid \<Rightarrow> instant \<Rightarrow> string \<Rightarrow> string \<Rightarrow> uuid \<Rightarrow> concept_node" where
  "node_new_candidate fresh now label definition1 scope_id = \<lparr>cn_id = fresh, cn_label = label,
     cn_definition = definition1, cn_scope_id = scope_id, cn_state = NCandidate,
     cn_superseded_by = None, cn_created_at = now, cn_updated_at = now, cn_metadata = JNull\<rparr>"

definition mark_canonical :: "instant \<Rightarrow> concept_node \<Rightarrow> concept_node" where
  "mark_canonical now n = n\<lparr>cn_state := NCanonical, cn_updated_at := now\<rparr>"

definition mark_superseded_by :: "instant \<Rightarrow> uuid \<Rightarrow> concept_node \<Rightarrow> concept_node" where
  "mark_superseded_by now successor n =
     n\<lparr>cn_state := NSuperseded, cn_superseded_by := Some successor, cn_updated_at := now\<rparr>"

definition mark_contradicted_by :: "instant \<Rightarrow> uuid \<Rightarrow> concept_node \<Rightarrow> concept_node" where
  "mark_contradicted_by now other n =
     n\<lparr>cn_state := NContradicted, cn_superseded_by := Some other, cn_updated_at := now\<rparr>"

datatype relation_type = IsA | PartOf | DecidedBy | Supersedes | Contradicts | DerivedFrom | AssignedTo

fun relation_type_as_str :: "relation_type \<Rightarrow> string" where
  "relation_type_as_str IsA = ''is_a''"
| "relation_type_as_str PartOf = ''part_of''"
| "relation_type_as_str DecidedBy = ''decided_by''"
| "relation_type_as_str Supersedes = ''supersedes''"
| "relation_type_as_str Contradicts = ''contradicts''"
| "relation_type_as_str DerivedFrom = ''derived_from''"
| "relation_type_as_str AssignedTo = ''assigned_to''"

definition relation_type_parse_tag :: "string \<Rightarrow> relation_type option" where
  "relation_type_parse_tag s =
     (if s = ''is_a'' then Some IsA
      else if s = ''part_of'' then Some PartOf
      else if s = ''decided_by'' then Some DecidedBy
      else if s = ''supersedes'' then Some Supersedes
      else if s = ''contradicts'' then Some Contradicts
      else if s = ''derived_from'' then Some DerivedFrom
      else if s = ''assigned_to'' then Some AssignedTo
      else None)"

record concept_edge =
  ce_id :: uuid
  ce_from :: uuid
  ce_to :: uuid
  ce_relation :: relation_type
  ce_scope_id :: uuid
  ce_created_at :: instant
  ce_metadata :: json

definition edge_new :: "uuid \<Rightarrow> instant \<Rightarrow> uuid \<Rightarrow> uuid \<Rightarrow> relation_type \<Rightarrow> uuid \<Rightarrow> concept_edge" where
  "edge_new fresh now from1 to relation scope_id = \<lparr>ce_id = fresh, ce_from = from1, ce_to = to,
     ce_relation = relation, ce_scope_id = scope_id, ce_created_at = now, ce_metadata = JNull\<rparr>"

datatype graph_error =
  NodeNotFound uuid | EdgeNotFound uuid | DuplicateNode uuid | DanglingEdge uuid
| SelfSupersession uuid | SelfContradiction uuid | GraphPersistence string | GraphSqlite | GraphCrypto

text \<open>\<^verbatim>\<open>PartialEq\<close> of the errors: driver errors are never equal, not even to themselves.\<close>

fun graph_error_eq :: "graph_error \<Rightarrow> graph_error \<Rightarrow> bool" where
  "graph_error_eq (NodeNotFound a) (NodeNotFound b) = (a = b)"
| "graph_error_eq (EdgeNotFound a) (EdgeNotFound b) = (a = b)"
| "graph_error_eq (DuplicateNode a) (DuplicateNode b) = (a = b)"
| "graph_error_eq (DanglingEdge a) (DanglingEdge b) = (a = b)"
| "graph_error_eq (SelfSupersession a) (SelfSupersession b) = (a = b)"
| "graph_error_eq (SelfContradiction a) (SelfContradiction b) = (a = b)"
| "graph_error_eq (GraphPersistence a) (GraphPersistence b) = (a = b)"
| "graph_error_eq _ _ = False"

section \<open>The graph\<close>

record concept_graph =
  cg_nodes :: "uuid \<rightharpoonup> concept_node"
  cg_edges :: "uuid \<rightharpoonup> concept_edge"
  cg_outgoing :: "uuid \<rightharpoonup> uuid list"
  cg_incoming :: "uuid \<rightharpoonup> uuid list"

definition graph_new :: concept_graph where
  "graph_new = \<lparr>cg_nodes = Map.empty, cg_edges = Map.empty, cg_outgoing = Map.empty,
     cg_incoming = Map.empty\<rparr>"

definition node_count :: "concept_graph \<Rightarrow> nat" where
  "node_count g = card (dom (cg_nodes g))"

definition edge_count :: "concept_graph \<Rightarrow> nat" where
  "edge_count g = card (dom (cg_edges g))"

definition or_default :: "(uuid \<rightharpoonup> uuid list) \<Rightarrow> uuid \<Rightarrow> uuid \<rightharpoonup> uuid list" where
  "or_default m k = m(k \<mapsto> or_empty_list (m k))"

definition push_to :: "(uuid \<rightharpoonup> uuid list) \<Rightarrow> uuid \<Rightarrow> uuid \<Rightarrow> uuid \<rightharpoonup> uuid list" where
  "push_to m k e = m(k \<mapsto> or_empty_list (m k) @ [e])"

text \<open>\<^verbatim>\<open>if let Some(v) = m.get_mut(&k) { v.retain(|x| x != e) }\<close>\<close>

definition retain_not :: "(uuid \<rightharpoonup> uuid list) \<Rightarrow> uuid \<Rightarrow> uuid \<Rightarrow> uuid \<rightharpoonup> uuid list" where
  "retain_not m k e = (case m k of None \<Rightarrow> m | Some v \<Rightarrow> m(k \<mapsto> filter (\<lambda>x. x \<noteq> e) v))"

definition add_node :: "concept_node \<Rightarrow> concept_graph \<Rightarrow> (graph_error + uuid) \<times> concept_graph" where
  "add_node node g =
     (if cg_nodes g (cn_id node) \<noteq> None then (Inl (DuplicateNode (cn_id node)), g)
      else let i = cn_id node in
        (Inr i, g\<lparr>cg_nodes := (cg_nodes g)(i \<mapsto> node), cg_outgoing := or_default (cg_outgoing g) i,
                  cg_incoming := or_default (cg_incoming g) i\<rparr>))"

definition add_edge :: "concept_edge \<Rightarrow> concept_graph \<Rightarrow> (graph_error + uuid) \<times> concept_graph" where
  "add_edge edge g =
     (if cg_nodes g (ce_from edge) = None then (Inl (DanglingEdge (ce_from edge)), g)
      else if cg_nodes g (ce_to edge) = None then (Inl (DanglingEdge (ce_to edge)), g)
      else let i = ce_id edge in
        (Inr i, g\<lparr>cg_outgoing := push_to (cg_outgoing g) (ce_from edge) i,
                  cg_incoming := push_to (cg_incoming g) (ce_to edge) i,
                  cg_edges := (cg_edges g)(i \<mapsto> edge)\<rparr>))"

definition drop_edge :: "uuid \<Rightarrow> concept_graph \<Rightarrow> concept_graph" where
  "drop_edge e g =
     (case cg_edges g e of
        None \<Rightarrow> g
      | Some edge \<Rightarrow> g\<lparr>cg_edges := (cg_edges g)(e := None),
          cg_outgoing := retain_not (cg_outgoing g) (ce_from edge) e,
          cg_incoming := retain_not (cg_incoming g) (ce_to edge) e\<rparr>)"

text \<open>\<open>ord\<close> is the order in which the set of incident edges is iterated.\<close>

definition remove_node ::
  "(uuid set \<Rightarrow> uuid list) \<Rightarrow> uuid \<Rightarrow> concept_graph \<Rightarrow> (graph_error + concept_node) \<times> concept_graph" where
  "remove_node ord i g =
     (case cg_nodes g i of
        None \<Rightarrow> (Inl (NodeNotFound i), g)
      | Some node \<Rightarrow>
          (let g1 = g\<lparr>cg_nodes := (cg_nodes g)(i := None)\<rparr>;
               outgoing = or_empty_list (cg_outgoing g1 i);
               incoming = or_empty_list (cg_incoming g1 i);
               g2 = g1\<lparr>cg_outgoing := (cg_outgoing g1)(i := None), cg_incoming := (cg_incoming g1)(i := None)\<rparr>;
               to_remove = set outgoing \<union> set incoming
           in (Inr node, fold drop_edge (ord to_remove) g2)))"

definition remove_edge :: "uuid \<Rightarrow> concept_graph \<Rightarrow> (graph_error + concept_edge) \<times> concept_graph" where
  "remove_edge i g =
     (case cg_edges g i of
        None \<Rightarrow> (Inl (EdgeNotFound i), g)
      | Some edge \<Rightarrow>
          (Inr edge, g\<lparr>cg_edges := (cg_edges g)(i := None),
             cg_outgoing := retain_not (cg_outgoing g) (ce_from edge) i,
             cg_incoming := retain_not (cg_incoming g) (ce_to edge) i\<rparr>))"

definition get_node :: "concept_graph \<Rightarrow> uuid \<Rightarrow> concept_node option" where
  "get_node g i = cg_nodes g i"

definition get_edges :: "concept_graph \<Rightarrow> uuid \<Rightarrow> concept_edge list" where
  "get_edges g i =
     List.map_filter (cg_edges g) (or_empty_list (cg_outgoing g i)) @
     List.map_filter (cg_edges g) (or_empty_list (cg_incoming g i))"

fun neighbors_loop ::
  "concept_graph \<Rightarrow> relation_type option \<Rightarrow> uuid list \<Rightarrow> uuid set \<Rightarrow> uuid list \<Rightarrow> uuid list" where
  "neighbors_loop g relation [] seen out = out"
| "neighbors_loop g relation (e # es) seen out =
     (case cg_edges g e of
        None \<Rightarrow> neighbors_loop g relation es seen out
      | Some edge \<Rightarrow>
          if (case relation of None \<Rightarrow> False | Some r \<Rightarrow> r \<noteq> ce_relation edge)
          then neighbors_loop g relation es seen out
          else if ce_to edge \<in> seen then neighbors_loop g relation es seen out
          else neighbors_loop g relation es (insert (ce_to edge) seen) (out @ [ce_to edge]))"

definition neighbors :: "concept_graph \<Rightarrow> uuid \<Rightarrow> relation_type option \<Rightarrow> uuid list" where
  "neighbors g i relation =
     (case cg_outgoing g i of None \<Rightarrow> [] | Some edge_ids \<Rightarrow> neighbors_loop g relation edge_ids {} [])"

definition supersede_node ::
  "uuid \<Rightarrow> instant \<Rightarrow> instant \<Rightarrow> uuid \<Rightarrow> uuid \<Rightarrow> concept_graph \<Rightarrow> (graph_error + uuid) \<times> concept_graph" where
  "supersede_node fresh now1 now2 predecessor successor g =
     (if predecessor = successor then (Inl (SelfSupersession predecessor), g)
      else if cg_nodes g successor = None then (Inl (NodeNotFound successor), g)
      else (case cg_nodes g predecessor of
              None \<Rightarrow> (Inl (NodeNotFound predecessor), g)
            | Some pred \<Rightarrow>
                (let g1 = g\<lparr>cg_nodes := (cg_nodes g)(predecessor \<mapsto> mark_superseded_by now1 successor pred)\<rparr>
                 in add_edge (edge_new fresh now2 predecessor successor Supersedes (cn_scope_id pred)) g1)))"

definition mark_contradiction ::
  "uuid \<Rightarrow> uuid \<Rightarrow> instant \<Rightarrow> instant \<Rightarrow> instant \<Rightarrow> instant \<Rightarrow> uuid \<Rightarrow> uuid \<Rightarrow> concept_graph \<Rightarrow>
   (graph_error + uuid \<times> uuid) \<times> concept_graph" where
  "mark_contradiction fresh1 fresh2 now1 now2 now3 now4 a b g =
     (if a = b then (Inl (SelfContradiction a), g)
      else (case cg_nodes g a of
        None \<Rightarrow> (Inl (NodeNotFound a), g)
      | Some na \<Rightarrow>
          (case cg_nodes g b of
             None \<Rightarrow> (Inl (NodeNotFound b), g)
           | Some nb \<Rightarrow>
               (let g1 = g\<lparr>cg_nodes := (cg_nodes g)(a \<mapsto> mark_contradicted_by now1 b na,
                      b \<mapsto> mark_contradicted_by now2 a nb)\<rparr>
                in case add_edge (edge_new fresh1 now3 a b Contradicts (cn_scope_id na)) g1 of
                     (Inl e, g2) \<Rightarrow> (Inl e, g2)
                   | (Inr e1, g2) \<Rightarrow>
                       (case add_edge (edge_new fresh2 now4 b a Contradicts (cn_scope_id nb)) g2 of
                          (Inl e, g3) \<Rightarrow> (Inl e, g3)
                        | (Inr e2, g3) \<Rightarrow> (Inr (e1, e2), g3))))))"

section \<open>Traversal\<close>

text \<open>The \<^verbatim>\<open>for\<close> loop of the traversal: unseen neighbours are seen, output and queued.\<close>

fun visit_all ::
  "nat \<Rightarrow> uuid list \<Rightarrow> uuid set \<times> (uuid \<times> nat) list \<times> uuid list \<Rightarrow> uuid set \<times> (uuid \<times> nat) list \<times> uuid list" where
  "visit_all next_depth [] st = st"
| "visit_all next_depth (n # ns) (visited, frontier, out) =
     (if n \<in> visited then visit_all next_depth ns (visited, frontier, out)
      else visit_all next_depth ns (insert n visited, frontier @ [(n, next_depth)], out @ [n]))"

lemma card_Compl_insert_less: "n \<notin> V \<Longrightarrow> card (- insert n V) < card (- V)" for n :: uuid
  by (rule psubset_card_mono) auto

lemma visit_all_spec:
  "\<exists>new. visit_all d ns (V, Q, out) = (V \<union> set ns, Q @ map (\<lambda>n. (n, d)) new, out @ new) \<and>
     set new = set ns - V \<and> distinct new"
proof (induction ns arbitrary: V Q out)
  case (Cons n ns)
  show ?case
  proof (cases "n \<in> V")
    case True
    then have "insert n V = V" by auto
    then show ?thesis using Cons [of V Q out] True by auto
  next
    case False
    obtain new where "visit_all d ns (insert n V, Q @ [(n, d)], out @ [n]) =
        (insert n V \<union> set ns, (Q @ [(n, d)]) @ map (\<lambda>n. (n, d)) new, (out @ [n]) @ new)"
        "set new = set ns - insert n V" "distinct new"
      using Cons [of "insert n V" "Q @ [(n, d)]" "out @ [n]"] by blast
    then show ?thesis using False by (intro exI [of _ "n # new"]) auto
  qed
qed simp

lemma visit_all_measure:
  "card (- fst (visit_all d ns (V, Q, out))) < card (- V) \<or>
   card (- fst (visit_all d ns (V, Q, out))) = card (- V) \<and>
     length (fst (snd (visit_all d ns (V, Q, out)))) = length Q"
proof -
  obtain V1 Q1 new where st: "fst (visit_all d ns (V, Q, out)) = V1" "fst (snd (visit_all d ns (V, Q, out))) = Q1"
    and new: "V1 = V \<union> set ns" "Q1 = Q @ map (\<lambda>n. (n, d)) new" "set new = set ns - V"
    using visit_all_spec [of d ns V Q out] by force
  show ?thesis
  proof (cases "new = []")
    case True
    then have "V1 = V" using new by auto
    then show ?thesis using True new st by simp
  next
    case False
    then obtain n where n: "n \<in> set ns" "n \<notin> V"
      using new(3) by (metis Diff_iff ex_in_conv set_empty)
    then have "card (- V1) \<le> card (- insert n V)"
      unfolding new(1) by (intro card_mono) auto
    also have "\<dots> < card (- V)" by (rule card_Compl_insert_less [OF n(2)])
    finally show ?thesis using st by simp
  qed
qed

function traverse_loop ::
  "concept_graph \<Rightarrow> relation_type \<Rightarrow> nat option \<Rightarrow> uuid set \<Rightarrow> (uuid \<times> nat) list \<Rightarrow> uuid list \<Rightarrow> uuid list" where
  "traverse_loop g relation max_depth visited [] out = out"
| "traverse_loop g relation max_depth visited ((node, depth) # frontier) out =
     (if (case max_depth of None \<Rightarrow> False | Some mx \<Rightarrow> mx \<le> depth)
      then traverse_loop g relation max_depth visited frontier out
      else (case visit_all (Suc depth) (neighbors g node (Some relation)) (visited, frontier, out) of
              (visited1, frontier1, out1) \<Rightarrow>
                traverse_loop g relation max_depth visited1 frontier1 out1))"
  by pat_completeness auto
termination traverse_loop
  apply (relation "measures [\<lambda>(g, r, m, V, Q, out). card (- V), \<lambda>(g, r, m, V, Q, out). length Q]")
    apply simp_all
  subgoal for g r m V node d Q out
    using visit_all_measure [of "Suc d" "neighbors g node (Some r)" V Q out] by (auto simp: split_beta)
  done

definition traverse_typed ::
  "concept_graph \<Rightarrow> uuid \<Rightarrow> relation_type \<Rightarrow> nat option \<Rightarrow> uuid list" where
  "traverse_typed g start relation max_depth =
     traverse_loop g relation max_depth {start} [(start, 0)] []"

section \<open>Referential integrity\<close>

text \<open>
  An adjacency index has an entry for exactly the nodes, and each entry lists, once each, the edges
  that have the node at that end.
\<close>

definition index_ok :: "(concept_edge \<Rightarrow> uuid) \<Rightarrow> concept_graph \<Rightarrow> (uuid \<rightharpoonup> uuid list) \<Rightarrow> bool" where
  "index_ok endp g m \<longleftrightarrow> dom m = dom (cg_nodes g) \<and>
     (\<forall>i es. m i = Some es \<longrightarrow> distinct es \<and> set es = {e. \<exists>ed. cg_edges g e = Some ed \<and> endp ed = i})"

definition graph_inv :: "concept_graph \<Rightarrow> bool" where
  "graph_inv g \<longleftrightarrow>
     (\<forall>i n. cg_nodes g i = Some n \<longrightarrow> cn_id n = i) \<and>
     (\<forall>e ed. cg_edges g e = Some ed \<longrightarrow> ce_id ed = e \<and> ce_from ed \<in> dom (cg_nodes g) \<and> ce_to ed \<in> dom (cg_nodes g)) \<and>
     index_ok ce_from g (cg_outgoing g) \<and> index_ok ce_to g (cg_incoming g)"

lemma adjacency_entry:
  assumes "index_ok endp g m" and "cg_nodes g i = Some n"
  obtains es where "m i = Some es" "distinct es" "set es = {e. \<exists>ed. cg_edges g e = Some ed \<and> endp ed = i}"
proof -
  have "i \<in> dom m" using assms by (auto simp: index_ok_def)
  then obtain es where "m i = Some es" by blast
  then show thesis using that assms(1) unfolding index_ok_def by blast
qed

lemma graph_new_inv: "graph_inv graph_new"
  by (simp add: graph_inv_def graph_new_def index_ok_def)

lemma or_default_index:
  assumes "index_ok endp g m" and "cg_nodes g i = None"
    and "\<And>e ed. cg_edges g e = Some ed \<Longrightarrow> endp ed \<in> dom (cg_nodes g)"
  shows "index_ok endp (g\<lparr>cg_nodes := (cg_nodes g)(i \<mapsto> n), cg_outgoing := x, cg_incoming := y\<rparr>) (or_default m i)"
proof -
  have "m i = None" using assms(1,2) by (auto simp: index_ok_def domIff)
  moreover have "{e. \<exists>ed. cg_edges g e = Some ed \<and> endp ed = i} = {}" using assms(2,3) by fastforce
  ultimately show ?thesis using assms(1) by (auto simp: index_ok_def or_default_def)
qed

lemma add_node_inv:
  assumes "graph_inv g"
  shows "graph_inv (snd (add_node n g))"
proof (cases "cg_nodes g (cn_id n)")
  case None
  have "\<And>e ed. cg_edges g e = Some ed \<Longrightarrow> ce_from ed \<in> dom (cg_nodes g)"
    "\<And>e ed. cg_edges g e = Some ed \<Longrightarrow> ce_to ed \<in> dom (cg_nodes g)"
    using assms by (auto simp: graph_inv_def)
  then show ?thesis
    using assms None or_default_index [of ce_from g "cg_outgoing g" "cn_id n"]
      or_default_index [of ce_to g "cg_incoming g" "cn_id n"]
    by (fastforce simp: graph_inv_def add_node_def Let_def)
qed (simp add: add_node_def assms)

lemma push_to_index:
  assumes "index_ok endp g m" and "cg_edges g (ce_id ed) = None" and "endp ed \<in> dom (cg_nodes g)"
  shows "index_ok endp (g\<lparr>cg_outgoing := x, cg_incoming := y, cg_edges := (cg_edges g)(ce_id ed \<mapsto> ed)\<rparr>)
    (push_to m (endp ed) (ce_id ed))"
proof -
  obtain es where es: "m (endp ed) = Some es"
    using assms(1,3) unfolding index_ok_def by (metis domD)
  have fresh: "ce_id ed \<notin> set fs" if "m i = Some fs" for i fs
    using assms(1,2) that by (fastforce simp: index_ok_def)
  show ?thesis
    using assms es fresh by (auto simp: index_ok_def push_to_def)
qed

lemma add_edge_inv:
  assumes "graph_inv g" and "cg_edges g (ce_id ed) = None"
  shows "graph_inv (snd (add_edge ed g))"
proof (cases "cg_nodes g (ce_from ed) = None \<or> cg_nodes g (ce_to ed) = None")
  case False
  then show ?thesis
    using assms push_to_index [of ce_from g "cg_outgoing g" ed] push_to_index [of ce_to g "cg_incoming g" ed]
    by (auto simp: graph_inv_def add_edge_def Let_def domIff)
qed (auto simp: add_edge_def assms)

text \<open>Updating a node without changing its id.\<close>

lemma update_node_inv:
  assumes "graph_inv g" and "cg_nodes g i = Some n" and "cn_id n1 = cn_id n"
  shows "graph_inv (g\<lparr>cg_nodes := (cg_nodes g)(i \<mapsto> n1)\<rparr>)"
proof -
  have "dom ((cg_nodes g)(i \<mapsto> n1)) = dom (cg_nodes g)" using assms(2) by auto
  then show ?thesis
    using assms by (simp add: graph_inv_def index_ok_def)
qed

lemma supersede_node_inv:
  assumes "graph_inv g" and "cg_edges g fresh = None"
  shows "graph_inv (snd (supersede_node fresh now1 now2 p q g))"
proof (cases "cg_nodes g p")
  case (Some pred)
  let ?g1 = "g\<lparr>cg_nodes := (cg_nodes g)(p \<mapsto> mark_superseded_by now1 q pred)\<rparr>"
  have "graph_inv ?g1"
    by (rule update_node_inv [OF assms(1) Some]) (simp add: mark_superseded_by_def)
  then show ?thesis
    using assms Some add_edge_inv [of ?g1 "edge_new fresh now2 p q Supersedes (cn_scope_id pred)"]
    by (simp add: supersede_node_def Let_def edge_new_def)
qed (simp add: supersede_node_def assms)

lemma add_edge_edges:
  "cg_edges (snd (add_edge ed g)) = cg_edges g \<or> cg_edges (snd (add_edge ed g)) = (cg_edges g)(ce_id ed \<mapsto> ed)"
  by (simp add: add_edge_def Let_def)

lemma add_edge_nodes [simp]: "cg_nodes (snd (add_edge ed g)) = cg_nodes g"
  by (simp add: add_edge_def Let_def)

lemma add_edge_ok:
  "cg_nodes g (ce_from ed) \<noteq> None \<Longrightarrow> cg_nodes g (ce_to ed) \<noteq> None \<Longrightarrow>
   add_edge ed g = (Inr (ce_id ed), snd (add_edge ed g))"
  by (simp add: add_edge_def Let_def)

lemma mark_contradiction_inv:
  assumes "graph_inv g" and "cg_edges g f1 = None" and "cg_edges g f2 = None" and "f1 \<noteq> f2"
  shows "graph_inv (snd (mark_contradiction f1 f2 n1 n2 n3 n4 a b g))"
proof (cases "a = b \<or> cg_nodes g a = None \<or> cg_nodes g b = None")
  case False
  then obtain na nb where n: "a \<noteq> b" "cg_nodes g a = Some na" "cg_nodes g b = Some nb" by auto
  let ?g0 = "g\<lparr>cg_nodes := (cg_nodes g)(a \<mapsto> mark_contradicted_by n1 b na)\<rparr>"
  let ?g1 = "g\<lparr>cg_nodes := (cg_nodes g)(a \<mapsto> mark_contradicted_by n1 b na, b \<mapsto> mark_contradicted_by n2 a nb)\<rparr>"
  let ?e1 = "edge_new f1 n3 a b Contradicts (cn_scope_id na)"
  let ?e2 = "edge_new f2 n4 b a Contradicts (cn_scope_id nb)"
  have g0: "graph_inv ?g0"
    by (rule update_node_inv [OF assms(1) n(2)]) (simp add: mark_contradicted_by_def)
  have "graph_inv ?g1"
    using update_node_inv [OF g0, of b nb "mark_contradicted_by n2 a nb"] n
    by (simp add: mark_contradicted_by_def)
  moreover obtain g2 where e1: "add_edge ?e1 ?g1 = (Inr f1, g2)"
    using add_edge_ok [of ?g1 ?e1] n by (simp add: edge_new_def)
  ultimately have g2: "graph_inv g2"
    using add_edge_inv [of ?g1 ?e1] assms(2) by (simp add: edge_new_def)
  have nodes2: "cg_nodes g2 = cg_nodes ?g1" using add_edge_nodes [of ?e1 ?g1] e1 by simp
  then obtain g3 where e2: "add_edge ?e2 g2 = (Inr f2, g3)"
    using add_edge_ok [of g2 ?e2] n by (simp add: edge_new_def)
  have "cg_edges g2 f2 = None"
    using add_edge_edges [of ?e1 ?g1] e1 assms(3,4) by (auto simp: edge_new_def)
  then have "graph_inv g3"
    using add_edge_inv [OF g2, of ?e2] e2 by (simp add: edge_new_def)
  moreover have "snd (mark_contradiction f1 f2 n1 n2 n3 n4 a b g) = g3"
    using n e1 e2 by (simp add: mark_contradiction_def Let_def)
  ultimately show ?thesis by simp
qed (auto simp: mark_contradiction_def assms split: option.split)

text \<open>
  Removing edges. While every listed edge exists and has the listing node at its end, dropping an
  edge is filtering it out everywhere.
\<close>

definition listed_ok :: "concept_graph \<Rightarrow> bool" where
  "listed_ok g \<longleftrightarrow>
     (\<forall>k es e. cg_outgoing g k = Some es \<longrightarrow> e \<in> set es \<longrightarrow> (\<exists>ed. cg_edges g e = Some ed \<and> ce_from ed = k)) \<and>
     (\<forall>k es e. cg_incoming g k = Some es \<longrightarrow> e \<in> set es \<longrightarrow> (\<exists>ed. cg_edges g e = Some ed \<and> ce_to ed = k))"

definition drop_edges :: "uuid set \<Rightarrow> concept_graph \<Rightarrow> concept_graph" where
  "drop_edges D g = g\<lparr>cg_edges := cg_edges g |` (- D),
     cg_outgoing := (\<lambda>k. map_option (filter (\<lambda>x. x \<notin> D)) (cg_outgoing g k)),
     cg_incoming := (\<lambda>k. map_option (filter (\<lambda>x. x \<notin> D)) (cg_incoming g k))\<rparr>"

lemma retain_not_everywhere:
  assumes "\<And>k es. m k = Some es \<Longrightarrow> e \<in> set es \<Longrightarrow> k = j"
  shows "retain_not m j e = (\<lambda>k. map_option (filter (\<lambda>x. x \<noteq> e)) (m k))"
proof
  fix k
  have "k \<noteq> j \<Longrightarrow> m k = Some es \<Longrightarrow> filter (\<lambda>x. x \<noteq> e) es = es" for es
    using assms [of k es] by (auto simp: filter_id_conv)
  then show "retain_not m j e k = map_option (filter (\<lambda>x. x \<noteq> e)) (m k)"
    by (cases "m k"; cases "k = j") (auto simp: retain_not_def split: option.split)
qed

lemma filter_not_listed:
  assumes "\<And>k es. m k = Some es \<Longrightarrow> e \<notin> set es"
  shows "(\<lambda>k. map_option (filter (\<lambda>x. x \<noteq> e)) (m k)) = m"
proof
  fix k
  have "m k = Some es \<Longrightarrow> filter (\<lambda>x. x \<noteq> e) es = es" for es
    using assms [of k es] by (auto simp: filter_id_conv)
  then show "map_option (filter (\<lambda>x. x \<noteq> e)) (m k) = m k" by (cases "m k") auto
qed

lemma drop_edge_eq:
  assumes "listed_ok g"
  shows "drop_edge e g = drop_edges {e} g"
proof (cases "cg_edges g e")
  case None
  then have "cg_outgoing g k = Some es \<Longrightarrow> e \<notin> set es" "cg_incoming g k = Some es \<Longrightarrow> e \<notin> set es" for k es
    using assms by (fastforce simp: listed_ok_def)+
  moreover have "cg_edges g |` (- {e}) = cg_edges g"
    using None by (auto simp: restrict_map_def)
  ultimately show ?thesis
    using None by (simp add: drop_edge_def drop_edges_def filter_not_listed)
next
  case (Some ed)
  then have "cg_outgoing g k = Some es \<Longrightarrow> e \<in> set es \<Longrightarrow> k = ce_from ed"
    "cg_incoming g k = Some es \<Longrightarrow> e \<in> set es \<Longrightarrow> k = ce_to ed" for k es
    using assms by (fastforce simp: listed_ok_def)+
  moreover have "(cg_edges g)(e := None) = cg_edges g |` (- {e})"
    by (auto simp: restrict_map_def)
  ultimately show ?thesis
    using Some by (simp add: drop_edge_def drop_edges_def retain_not_everywhere)
qed

lemma drop_edges_listed: "listed_ok g \<Longrightarrow> listed_ok (drop_edges D g)"
  by (fastforce simp: listed_ok_def drop_edges_def restrict_map_def)

lemma drop_edges_drop_edges: "drop_edges D (drop_edges {e} g) = drop_edges (insert e D) g"
proof -
  have "(cg_edges g |` (- {e})) |` (- D) = cg_edges g |` (- insert e D)"
    by (auto simp: restrict_map_def fun_eq_iff)
  moreover have "map_option (filter (\<lambda>x. x \<notin> D)) (map_option (filter (\<lambda>x. x \<notin> {e})) y) =
      map_option (filter (\<lambda>x. x \<notin> insert e D)) y" for y :: "uuid list option"
    by (cases y) (auto intro: filter_cong)
  ultimately show ?thesis unfolding drop_edges_def by simp
qed

lemma fold_drop_edge: "listed_ok g \<Longrightarrow> fold drop_edge es g = drop_edges (set es) g"
proof (induction es arbitrary: g)
  case Nil
  have "map_option (filter (\<lambda>x. True)) y = y" for y :: "uuid list option" by (cases y) simp_all
  then show ?case by (simp add: drop_edges_def restrict_map_def)
next
  case (Cons e es)
  then show ?case by (simp add: drop_edge_eq drop_edges_listed drop_edges_drop_edges)
qed

lemma graph_inv_listed: "graph_inv g \<Longrightarrow> listed_ok g"
  by (fastforce simp: graph_inv_def index_ok_def listed_ok_def)

lemma drop_edges_index:
  assumes "index_ok endp g m"
  shows "index_ok endp (drop_edges D g) (\<lambda>k. map_option (filter (\<lambda>x. x \<notin> D)) (m k))"
proof -
  have "dom (\<lambda>k. map_option (filter (\<lambda>x. x \<notin> D)) (m k)) = dom m" by (simp add: domIff set_eq_iff)
  moreover have "set (filter (\<lambda>x. x \<notin> D) es) = {e. \<exists>ed. (cg_edges g |` (- D)) e = Some ed \<and> endp ed = i}"
    if "m i = Some es" for i es
    using assms that by (auto simp: index_ok_def restrict_map_def)
  ultimately show ?thesis
    using assms by (auto simp: index_ok_def drop_edges_def)
qed

lemma drop_edges_inv: "graph_inv g \<Longrightarrow> graph_inv (drop_edges D g)"
proof -
  assume inv: "graph_inv g"
  then have "index_ok ce_from (drop_edges D g) (cg_outgoing (drop_edges D g))"
    "index_ok ce_to (drop_edges D g) (cg_incoming (drop_edges D g))"
    using drop_edges_index [of ce_from g "cg_outgoing g" D] drop_edges_index [of ce_to g "cg_incoming g" D]
    by (simp_all add: graph_inv_def drop_edges_def)
  then show ?thesis
    using inv unfolding graph_inv_def by (simp add: drop_edges_def restrict_map_def)
qed

lemma adjacency_remove:
  assumes "index_ok endp h m" and "\<And>e ed. cg_edges h e = Some ed \<Longrightarrow> endp ed \<noteq> i"
  shows "index_ok endp (h\<lparr>cg_nodes := (cg_nodes h)(i := None), cg_outgoing := x, cg_incoming := y\<rparr>) (m(i := None))"
  using assms by (simp add: index_ok_def)

lemma remove_edge_inv: "graph_inv g \<Longrightarrow> graph_inv (snd (remove_edge e g))"
proof -
  assume inv: "graph_inv g"
  have "snd (remove_edge e g) = drop_edge e g"
    by (simp add: remove_edge_def drop_edge_def split: option.split)
  then show ?thesis
    using inv by (simp add: drop_edge_eq graph_inv_listed drop_edges_inv)
qed

lemma remove_node_eq:
  assumes "graph_inv g" and "cg_nodes g i = Some n" and "\<And>S. set (ord S) = S"
  shows "snd (remove_node ord i g) =
    (let h = drop_edges {e. \<exists>ed. cg_edges g e = Some ed \<and> (ce_from ed = i \<or> ce_to ed = i)} g
     in h\<lparr>cg_nodes := (cg_nodes g)(i := None), cg_outgoing := (cg_outgoing h)(i := None),
          cg_incoming := (cg_incoming h)(i := None)\<rparr>)"
proof -
  let ?g2 = "g\<lparr>cg_nodes := (cg_nodes g)(i := None), cg_outgoing := (cg_outgoing g)(i := None),
      cg_incoming := (cg_incoming g)(i := None)\<rparr>"
  have idx: "index_ok ce_from g (cg_outgoing g)" "index_ok ce_to g (cg_incoming g)"
    using assms(1) by (simp_all add: graph_inv_def)
  obtain os where os: "cg_outgoing g i = Some os" "set os = {e. \<exists>ed. cg_edges g e = Some ed \<and> ce_from ed = i}"
    by (rule adjacency_entry [OF idx(1) assms(2)])
  obtain ins where ins: "cg_incoming g i = Some ins" "set ins = {e. \<exists>ed. cg_edges g e = Some ed \<and> ce_to ed = i}"
    by (rule adjacency_entry [OF idx(2) assms(2)])
  have sets: "set os \<union> set ins = {e. \<exists>ed. cg_edges g e = Some ed \<and> (ce_from ed = i \<or> ce_to ed = i)}"
    unfolding os(2) ins(2) by blast
  have "listed_ok ?g2" using graph_inv_listed [OF assms(1)] by (auto simp: listed_ok_def)
  then have "fold drop_edge (ord (set os \<union> set ins)) ?g2 = drop_edges (set os \<union> set ins) ?g2"
    by (simp add: fold_drop_edge assms(3))
  moreover have "(\<lambda>k. map_option f ((m(i := None)) k)) = (\<lambda>k. map_option f (m k))(i := None)"
    for f :: "uuid list \<Rightarrow> uuid list" and m
    by (simp add: fun_eq_iff)
  then have "drop_edges D ?g2 = (drop_edges D g)\<lparr>cg_nodes := (cg_nodes g)(i := None),
      cg_outgoing := (cg_outgoing (drop_edges D g))(i := None),
      cg_incoming := (cg_incoming (drop_edges D g))(i := None)\<rparr>" for D
    by (simp add: drop_edges_def)
  ultimately show ?thesis
    using assms(2) os(1) ins(1) by (simp add: remove_node_def sets Let_def)
qed

lemma remove_node_inv:
  assumes "graph_inv g" and "\<And>S. set (ord S) = S"
  shows "graph_inv (snd (remove_node ord i g))"
proof (cases "cg_nodes g i")
  case (Some n)
  define h where "h = drop_edges {e. \<exists>ed. cg_edges g e = Some ed \<and> (ce_from ed = i \<or> ce_to ed = i)} g"
  have h: "graph_inv h" unfolding h_def by (rule drop_edges_inv [OF assms(1)])
  have away: "ce_from ed \<noteq> i \<and> ce_to ed \<noteq> i" if "cg_edges h e = Some ed" for e ed
    using that by (auto simp: h_def drop_edges_def restrict_map_def split: if_splits)
  have nodes: "cg_nodes h = cg_nodes g" by (simp add: h_def drop_edges_def)
  let ?r = "h\<lparr>cg_nodes := (cg_nodes h)(i := None), cg_outgoing := (cg_outgoing h)(i := None),
      cg_incoming := (cg_incoming h)(i := None)\<rparr>"
  have "index_ok ce_from ?r (cg_outgoing ?r)" "index_ok ce_to ?r (cg_incoming ?r)"
    using h away adjacency_remove [of ce_from h "cg_outgoing h" i] adjacency_remove [of ce_to h "cg_incoming h" i]
    by (simp_all add: graph_inv_def)
  moreover have "\<forall>e ed. cg_edges ?r e = Some ed \<longrightarrow>
      ce_id ed = e \<and> ce_from ed \<in> dom (cg_nodes ?r) \<and> ce_to ed \<in> dom (cg_nodes ?r)"
    using h away unfolding graph_inv_def by simp
  moreover have "\<forall>j n. cg_nodes ?r j = Some n \<longrightarrow> cn_id n = j"
    using h unfolding graph_inv_def by simp
  ultimately have "graph_inv ?r" unfolding graph_inv_def by simp
  then show ?thesis
    unfolding remove_node_eq [OF assms(1) Some assms(2)] Let_def h_def [symmetric] nodes [symmetric] .
qed (simp add: remove_node_def assms)

section \<open>The graph as a state machine\<close>

text \<open>
  One call of the public surface. Edge ids come from the caller or from \<^verbatim>\<open>new_v4\<close>; the rules take
  them to be new, which \<^verbatim>\<open>add_edge\<close> does not check.
\<close>

inductive graph_step :: "concept_graph \<Rightarrow> concept_graph \<Rightarrow> bool" where
  step_add_node: "graph_step g (snd (add_node n g))"
| step_add_edge: "cg_edges g (ce_id ed) = None \<Longrightarrow> graph_step g (snd (add_edge ed g))"
| step_remove_node: "(\<And>S. set (ord S) = S) \<Longrightarrow> graph_step g (snd (remove_node ord i g))"
| step_remove_edge: "graph_step g (snd (remove_edge e g))"
| step_supersede: "cg_edges g fresh = None \<Longrightarrow> graph_step g (snd (supersede_node fresh now1 now2 p q g))"
| step_contradict: "cg_edges g f1 = None \<Longrightarrow> cg_edges g f2 = None \<Longrightarrow> f1 \<noteq> f2 \<Longrightarrow>
    graph_step g (snd (mark_contradiction f1 f2 n1 n2 n3 n4 a b g))"
| step_update_node: "cg_nodes g i = Some n \<Longrightarrow> cn_id n1 = cn_id n \<Longrightarrow>
    graph_step g (g\<lparr>cg_nodes := (cg_nodes g)(i \<mapsto> n1)\<rparr>)"

lemma graph_step_inv: "graph_step g h \<Longrightarrow> graph_inv g \<Longrightarrow> graph_inv h"
  by (induction rule: graph_step.induct)
     (simp_all add: add_node_inv add_edge_inv remove_node_inv remove_edge_inv supersede_node_inv
       mark_contradiction_inv update_node_inv)

definition graph_reachable :: "concept_graph \<Rightarrow> bool" where
  "graph_reachable g \<longleftrightarrow> graph_step\<^sup>*\<^sup>* graph_new g"

lemma graph_reachable_inv: "graph_reachable g \<Longrightarrow> graph_inv g"
  unfolding graph_reachable_def
  by (induction rule: rtranclp_induct) (auto intro: graph_new_inv graph_step_inv)

end
