(* ===== verification/Concept_Traversal.thy ===== *)
theory Concept_Traversal
  imports Concept_Graph
begin

text \<open>
  Correctness of the concept graph's queries: neighbours are the targets of the typed edges, and the
  breadth-first traversal returns exactly the nodes within the depth bound, once each, in order of
  distance.
\<close>

section \<open>Neighbours\<close>

definition typed_edges :: "concept_graph \<Rightarrow> relation_type \<Rightarrow> (uuid \<times> uuid) set" where
  "typed_edges g r = {(ce_from ed, ce_to ed) |e ed. cg_edges g e = Some ed \<and> ce_relation ed = r}"

lemma in_typed_edges:
  "(u, v) \<in> typed_edges g r \<longleftrightarrow>
   (\<exists>e ed. cg_edges g e = Some ed \<and> ce_from ed = u \<and> ce_to ed = v \<and> ce_relation ed = r)"
  unfolding typed_edges_def by blast

fun targets :: "concept_graph \<Rightarrow> relation_type \<Rightarrow> uuid list \<Rightarrow> uuid set" where
  "targets g r [] = {}"
| "targets g r (e # es) =
     (case cg_edges g e of
        None \<Rightarrow> {}
      | Some ed \<Rightarrow> if ce_relation ed = r then {ce_to ed} else {}) \<union> targets g r es"

lemma in_targets: "v \<in> targets g r es \<longleftrightarrow>
    (\<exists>e ed. e \<in> set es \<and> cg_edges g e = Some ed \<and> ce_relation ed = r \<and> ce_to ed = v)"
  by (induction es) (auto split: option.splits if_splits)

lemma neighbors_loop_set:
  "set (neighbors_loop g (Some r) es seen out) = set out \<union> (targets g r es - seen)"
proof (induction es arbitrary: seen out)
  case (Cons e es)
  then show ?case by (cases "cg_edges g e") auto
qed simp

lemma neighbors_typed:
  assumes "graph_inv g"
  shows "set (neighbors g i (Some r)) = typed_edges g r `` {i}"
proof (cases "cg_nodes g i")
  case None
  have "dom (cg_outgoing g) = dom (cg_nodes g)" using assms by (simp add: graph_inv_def index_ok_def)
  then have "cg_outgoing g i = None" using None by (metis domIff)
  moreover have "typed_edges g r `` {i} = {}"
    using assms None by (fastforce simp: typed_edges_def graph_inv_def)
  ultimately show ?thesis by (simp add: neighbors_def)
next
  case (Some n)
  have "index_ok ce_from g (cg_outgoing g)" using assms by (simp add: graph_inv_def)
  then obtain es where es: "cg_outgoing g i = Some es" "set es = {e. \<exists>ed. cg_edges g e = Some ed \<and> ce_from ed = i}"
    using Some by (rule adjacency_entry)
  have "v \<in> targets g r es \<longleftrightarrow> (i, v) \<in> typed_edges g r" for v
    unfolding in_targets in_typed_edges es(2) mem_Collect_eq by (metis option.inject)
  then show ?thesis
    by (auto simp: neighbors_def neighbors_loop_set es(1))
qed

section \<open>Breadth-first search\<close>

text \<open>The nodes within \<open>k\<close> steps of \<open>s\<close>, and the distance of a node.\<close>

definition ball :: "('n \<times> 'n) set \<Rightarrow> 'n \<Rightarrow> nat \<Rightarrow> 'n set" where
  "ball E s k = {n. \<exists>j \<le> k. (s, n) \<in> E ^^ j}"

definition dist :: "('n \<times> 'n) set \<Rightarrow> 'n \<Rightarrow> 'n \<Rightarrow> nat" where
  "dist E s n = (LEAST k. (s, n) \<in> E ^^ k)"

lemma ball_0 [simp]: "ball E s 0 = {s}"
  by (auto simp: ball_def)

lemma ball_Suc: "ball E s (Suc k) = ball E s k \<union> E `` ball E s k"
proof (intro set_eqI iffI)
  fix n assume "n \<in> ball E s (Suc k)"
  then obtain j where j: "j \<le> Suc k" "(s, n) \<in> E ^^ j" by (auto simp: ball_def)
  show "n \<in> ball E s k \<union> E `` ball E s k"
  proof (cases j)
    case 0
    then have "n \<in> ball E s k" using j unfolding ball_def by (intro CollectI exI [of _ 0]) simp
    then show ?thesis ..
  next
    case (Suc i)
    then obtain m where "(s, m) \<in> E ^^ i" "(m, n) \<in> E" using j(2) by auto
    then show ?thesis using Suc j(1) unfolding ball_def by blast
  qed
next
  fix n assume "n \<in> ball E s k \<union> E `` ball E s k"
  then consider "n \<in> ball E s k" | m where "m \<in> ball E s k" "(m, n) \<in> E" by blast
  then show "n \<in> ball E s (Suc k)"
  proof cases
    case 1
    then show ?thesis unfolding ball_def using le_SucI by blast
  next
    case 2
    then obtain j where "j \<le> k" "(s, m) \<in> E ^^ j" unfolding ball_def by blast
    then have "Suc j \<le> Suc k \<and> (s, n) \<in> E ^^ Suc j" using 2(2) by auto
    then show ?thesis unfolding ball_def by blast
  qed
qed

lemma ball_mono: "k \<le> l \<Longrightarrow> ball E s k \<subseteq> ball E s l"
  by (auto simp: ball_def intro: order_trans)

lemma ball_closed: "ball E s (Suc k) = ball E s k \<Longrightarrow> k \<le> l \<Longrightarrow> ball E s l = ball E s k"
  by (induction l) (auto simp: le_Suc_eq ball_Suc)

lemma dist_le: "n \<in> ball E s k \<Longrightarrow> dist E s n \<le> k"
  unfolding ball_def dist_def by (auto intro: Least_le order_trans)

lemma dist_eq: "n \<in> ball E s (Suc k) \<Longrightarrow> n \<notin> ball E s k \<Longrightarrow> dist E s n = Suc k"
proof (rule antisym)
  assume n: "n \<in> ball E s (Suc k)" "n \<notin> ball E s k"
  show "dist E s n \<le> Suc k" by (rule dist_le [OF n(1)])
  obtain j where "(s, n) \<in> E ^^ j" using n(1) by (auto simp: ball_def)
  then have "(s, n) \<in> E ^^ dist E s n" unfolding dist_def by (rule LeastI)
  then have "\<not> dist E s n \<le> k" using n(2) unfolding ball_def by blast
  then show "Suc k \<le> dist E s n" by simp
qed

text \<open>
  The state of the search: the queue holds the rest \<open>A\<close> of the current level \<open>d\<close> and the part \<open>B\<close> of
  the next level found so far.
\<close>

definition bfs_inv ::
  "(uuid \<times> uuid) set \<Rightarrow> uuid \<Rightarrow> nat option \<Rightarrow> uuid set \<Rightarrow> (uuid \<times> nat) list \<Rightarrow> uuid list \<Rightarrow>
   nat \<Rightarrow> uuid list \<Rightarrow> uuid list \<Rightarrow> bool" where
  "bfs_inv E s mx V Q out d A B \<longleftrightarrow>
     Q = map (\<lambda>n. (n, d)) A @ map (\<lambda>n. (n, Suc d)) B \<and>
     V = ball E s d \<union> set B \<and> set B \<inter> ball E s d = {} \<and> set A \<subseteq> ball E s d \<and>
     ball E s (Suc d) = V \<union> E `` set A \<and>
     (\<forall>m. mx = Some m \<longrightarrow> d \<le> m \<and> (d = m \<longrightarrow> B = [])) \<and>
     distinct out \<and> set out = V - {s} \<and> sorted (map (dist E s) out)"

lemma bfs_inv_start: "bfs_inv E s mx {s} [(s, 0)] [] 0 [s] []"
  by (auto simp: bfs_inv_def ball_Suc)

lemma bfs_invD:
  assumes "bfs_inv E s mx V Q out d A B"
  shows "Q = map (\<lambda>n. (n, d)) A @ map (\<lambda>n. (n, Suc d)) B"
    and "V = ball E s d \<union> set B" and "set B \<inter> ball E s d = {}" and "set A \<subseteq> ball E s d"
    and "ball E s (Suc d) = V \<union> E `` set A"
    and "\<And>m. mx = Some m \<Longrightarrow> d \<le> m" and "mx = Some d \<Longrightarrow> B = []"
    and "distinct out" and "set out = V - {s}" and "sorted (map (dist E s) out)"
  using assms unfolding bfs_inv_def by simp_all

lemma bfs_inv_shift:
  assumes "bfs_inv E s mx V Q out d [] B" and "B \<noteq> []"
  shows "bfs_inv E s mx V Q out (Suc d) B []"
proof -
  note inv = bfs_invD [OF assms(1)]
  have V: "ball E s (Suc d) = V" using inv(5) by simp
  have "E `` ball E s d \<subseteq> V" using V ball_Suc [of E s d] by blast
  moreover have "ball E s (Suc (Suc d)) = V \<union> E `` V" using V ball_Suc [of E s "Suc d"] by simp
  ultimately have "ball E s (Suc (Suc d)) = V \<union> E `` set B" using inv(2) by blast
  moreover have "Suc d \<le> m" if "mx = Some m" for m
    using inv(6) [OF that] inv(7) that assms(2) by (cases "d = m") auto
  moreover have "set B \<subseteq> ball E s (Suc d)" using inv(2) V by blast
  ultimately show ?thesis
    unfolding bfs_inv_def using inv V by simp
qed

lemma bfs_inv_expand:
  assumes "bfs_inv E s mx V Q out d (a # A) B" and "mx \<noteq> Some d"
    and "set new = E `` {a} - V" and "distinct new"
  shows "bfs_inv E s mx (V \<union> E `` {a}) (map (\<lambda>n. (n, d)) A @ map (\<lambda>n. (n, Suc d)) B @ map (\<lambda>n. (n, Suc d)) new)
    (out @ new) d A (B @ new)"
proof -
  note inv = bfs_invD [OF assms(1)]
  have near: "set new \<subseteq> ball E s (Suc d)" "set new \<inter> ball E s d = {}"
    using inv(2,5) assms(3) by auto
  have "s \<in> ball E s d" unfolding ball_def by (intro CollectI exI [of _ 0]) simp
  then have sV: "s \<in> V" using inv(2) by blast
  have "V \<subseteq> ball E s (Suc d)" using inv(5) by blast
  then have le: "dist E s n \<le> Suc d" if "n \<in> set out" for n
    using that inv(9) by (intro dist_le) blast
  have eq: "dist E s n = Suc d" if "n \<in> set new" for n
    using that near by (intro dist_eq) auto
  then have "map (dist E s) new = replicate (length new) (Suc d)"
    by (simp add: map_replicate_const [symmetric] cong: map_cong)
  then have "sorted (map (dist E s) (out @ new))"
    using inv(10) le by (simp add: sorted_append sorted_replicate)
  moreover have "distinct (out @ new)" "set (out @ new) = V \<union> E `` {a} - {s}"
    using inv(8,9) assms(3,4) sV by auto
  moreover have "V \<union> E `` {a} = ball E s d \<union> set (B @ new)" using inv(2) assms(3) by auto
  moreover have "ball E s (Suc d) = (V \<union> E `` {a}) \<union> E `` set A" using inv(5) by auto
  moreover have "set (B @ new) \<inter> ball E s d = {}" using inv(3) near(2) by auto
  ultimately show ?thesis
    unfolding bfs_inv_def using inv(4,6) assms(2) by simp
qed

definition within_ball :: "(uuid \<times> uuid) set \<Rightarrow> uuid \<Rightarrow> nat option \<Rightarrow> uuid set" where
  "within_ball E s mx = {n. \<exists>k. (s, n) \<in> E ^^ k \<and> (\<forall>m. mx = Some m \<longrightarrow> k \<le> m)}"

lemma within_ball_Some: "within_ball E s (Some m) = ball E s m"
  unfolding within_ball_def ball_def by auto

lemma within_ball_None: "within_ball E s None = (\<Union>k. ball E s k)"
  unfolding within_ball_def ball_def by auto

lemma bfs_inv_end:
  assumes "bfs_inv E s mx V [] out d A B"
  shows "V = within_ball E s mx"
proof -
  note inv = bfs_invD [OF assms]
  have "A = []" "B = []" using inv(1) by auto
  then have V: "V = ball E s d" "ball E s (Suc d) = ball E s d" using inv(2,5) by simp_all
  have all: "ball E s k \<subseteq> V" for k
  proof (cases "d \<le> k")
    case True
    then show ?thesis unfolding V(1) ball_closed [OF V(2) True] by simp
  next
    case False
    then show ?thesis unfolding V(1) by (intro ball_mono) simp
  qed
  show ?thesis
  proof (cases mx)
    case None
    have "V \<subseteq> (\<Union>k. ball E s k)" unfolding V(1) by (rule UN_upper) simp
    moreover have "(\<Union>k. ball E s k) \<subseteq> V" by (rule UN_least) (rule all)
    ultimately show ?thesis unfolding None within_ball_None by (rule antisym)
  next
    case (Some m)
    have "ball E s m = ball E s d" by (rule ball_closed [OF V(2) inv(6) [OF Some]])
    then show ?thesis unfolding Some within_ball_Some V(1) by simp
  qed
qed

lemma traverse_loop_cut:
  "(\<forall>x \<in> set Q. snd x = m) \<Longrightarrow> traverse_loop g r (Some m) V Q out = out"
  by (induction Q) auto

lemma traverse_loop_correct:
  assumes "graph_inv g" and "bfs_inv (typed_edges g r) s mx V Q out d A B"
  shows "distinct (traverse_loop g r mx V Q out) \<and>
    set (traverse_loop g r mx V Q out) = within_ball (typed_edges g r) s mx - {s} \<and>
    sorted (map (dist (typed_edges g r) s) (traverse_loop g r mx V Q out))"
  using assms
proof (induction g r mx V Q out arbitrary: d A B rule: traverse_loop.induct)
  case (1 g r mx V out)
  then show ?case using bfs_inv_end [OF 1(2)] bfs_invD [OF 1(2)] by simp
next
  case (2 g r mx V node depth Q out)
  let ?E = "typed_edges g r"
  obtain d A B where inv: "bfs_inv ?E s mx V ((node, depth) # Q) out d (node # A) B" and d: "depth = d"
  proof (cases A)
    case Nil
    then obtain b bs where "B = b # bs" using bfs_invD(1) [OF 2(4)] by (cases B) auto
    then have "bfs_inv ?E s mx V ((node, depth) # Q) out (Suc d) (b # bs) []"
      using bfs_inv_shift 2(4) Nil by blast
    then show thesis using that bfs_invD(1) by fastforce
  next
    case (Cons a as)
    then show thesis using that 2(4) bfs_invD(1) [OF 2(4)] by auto
  qed
  note invD = bfs_invD [OF inv]
  have Q: "Q = map (\<lambda>n. (n, d)) A @ map (\<lambda>n. (n, Suc d)) B" using invD(1) by simp
  show ?case
  proof (cases "mx = Some d")
    case True
    then have "B = []" "V = within_ball ?E s mx" using invD(2,7) by (auto simp: within_ball_Some)
    moreover have "traverse_loop g r mx V ((node, depth) # Q) out = out"
      unfolding True by (rule traverse_loop_cut) (use \<open>B = []\<close> Q d in auto)
    ultimately show ?thesis using invD(8-10) by simp
  next
    case False
    then have go: "\<not> (case mx of None \<Rightarrow> False | Some m \<Rightarrow> m \<le> depth)"
      using invD(6) d by (auto split: option.splits simp: order.order_iff_strict)
    obtain new where vis: "visit_all (Suc depth) (neighbors g node (Some r)) (V, Q, out) =
        (V \<union> ?E `` {node}, Q @ map (\<lambda>n. (n, Suc d)) new, out @ new)"
        "set new = ?E `` {node} - V" "distinct new"
      using visit_all_spec [of "Suc depth" "neighbors g node (Some r)" V Q out] 2(3) d
      by (auto simp: neighbors_typed)
    have "bfs_inv ?E s mx (V \<union> ?E `` {node}) (Q @ map (\<lambda>n. (n, Suc d)) new) (out @ new) d A (B @ new)"
      using bfs_inv_expand [OF inv False vis(2,3)] Q by simp
    then show ?thesis
      using 2(2) [OF go vis(1) [symmetric] refl 2(3)] go vis(1) by simp
  qed
qed

lemma get_edges_set:
  assumes "graph_inv g"
  shows "set (get_edges g i) = {ed. \<exists>e. cg_edges g e = Some ed \<and> (ce_from ed = i \<or> ce_to ed = i)}"
proof (cases "cg_nodes g i")
  case None
  have "dom (cg_outgoing g) = dom (cg_nodes g)" "dom (cg_incoming g) = dom (cg_nodes g)"
    using assms by (simp_all add: graph_inv_def index_ok_def)
  then have "cg_outgoing g i = None" "cg_incoming g i = None" using None by (metis domIff)+
  moreover have "{ed. \<exists>e. cg_edges g e = Some ed \<and> (ce_from ed = i \<or> ce_to ed = i)} = {}"
    using assms None unfolding graph_inv_def by blast
  ultimately show ?thesis by (simp add: get_edges_def map_filter_def)
next
  case (Some n)
  have idx: "index_ok ce_from g (cg_outgoing g)" "index_ok ce_to g (cg_incoming g)"
    using assms by (simp_all add: graph_inv_def)
  obtain os where os: "cg_outgoing g i = Some os" "set os = {e. \<exists>ed. cg_edges g e = Some ed \<and> ce_from ed = i}"
    by (rule adjacency_entry [OF idx(1) Some])
  obtain ins where ins: "cg_incoming g i = Some ins" "set ins = {e. \<exists>ed. cg_edges g e = Some ed \<and> ce_to ed = i}"
    by (rule adjacency_entry [OF idx(2) Some])
  have mf: "set (List.map_filter f xs) = {y. \<exists>x \<in> set xs. f x = Some y}" for f :: "uuid \<rightharpoonup> concept_edge" and xs
    by (force simp: map_filter_def)
  show ?thesis
    unfolding get_edges_def os(1) ins(1) or_empty_list_simps set_append mf os(2) ins(2) by auto
qed

section \<open>Properties\<close>


text \<open>A graph of three nodes and two \<^verbatim>\<open>derived_from\<close> edges, for evaluation.\<close>

definition sample_node :: "uuid \<Rightarrow> concept_node" where
  "sample_node i = node_new_candidate i 0 ''n'' ''d'' 9"

definition sample_graph :: concept_graph where
  "sample_graph = snd (add_edge (edge_new 11 0 2 3 DerivedFrom 9) (snd (add_edge (edge_new 10 0 1 2 DerivedFrom 9)
     (snd (add_node (sample_node 3) (snd (add_node (sample_node 2) (snd (add_node (sample_node 1) graph_new)))))))))"

lemma sample_edges: "cg_edges sample_graph = [10 \<mapsto> edge_new 10 0 1 2 DerivedFrom 9, 11 \<mapsto> edge_new 11 0 2 3 DerivedFrom 9]"
  by (simp add: sample_graph_def add_edge_def add_node_def sample_node_def node_new_candidate_def
      graph_new_def edge_new_def)

lemma sample_reachable: "graph_reachable sample_graph"
proof -
  define g1 where "g1 = snd (add_node (sample_node 1) graph_new)"
  define g2 where "g2 = snd (add_node (sample_node 2) g1)"
  define g3 where "g3 = snd (add_node (sample_node 3) g2)"
  define g4 where "g4 = snd (add_edge (edge_new 10 0 1 2 DerivedFrom 9) g3)"
  have sample: "sample_graph = snd (add_edge (edge_new 11 0 2 3 DerivedFrom 9) g4)"
    by (simp add: sample_graph_def g1_def g2_def g3_def g4_def)
  have "cg_edges g3 10 = None" "cg_edges g4 11 = None"
    by (simp_all add: g1_def g2_def g3_def g4_def add_edge_def add_node_def sample_node_def
        node_new_candidate_def graph_new_def edge_new_def)
  then have s: "graph_step g3 g4" "graph_step g4 sample_graph"
    using step_add_edge [of g3 "edge_new 10 0 1 2 DerivedFrom 9"]
      step_add_edge [of g4 "edge_new 11 0 2 3 DerivedFrom 9"]
    unfolding sample g4_def [symmetric] by (simp_all add: edge_new_def)
  have t: "graph_step graph_new g1" "graph_step g1 g2" "graph_step g2 g3"
    unfolding g1_def g2_def g3_def by (rule step_add_node)+
  show ?thesis
    unfolding graph_reachable_def
    by (rule converse_rtranclp_into_rtranclp [of graph_step, OF t(1)],
        rule converse_rtranclp_into_rtranclp [of graph_step, OF t(2)],
        rule converse_rtranclp_into_rtranclp [of graph_step, OF t(3)],
        rule converse_rtranclp_into_rtranclp [of graph_step, OF s(1)],
        rule r_into_rtranclp [of graph_step, OF s(2)])
qed

lemma sample_lookup:
  "cg_edges sample_graph e = Some ed \<longleftrightarrow>
   e = 10 \<and> ed = edge_new 10 0 1 2 DerivedFrom 9 \<or> e = 11 \<and> ed = edge_new 11 0 2 3 DerivedFrom 9"
  unfolding sample_edges by auto


text \<open>
  C27. The traversal is correct and always ends: in a graph built by the public operations it returns,
  without repetition and in order of distance, exactly the nodes other than the start that some path
  of edges of the given relation reaches within the depth bound.
\<close>

theorem traverse_typed_correct:
  assumes "graph_reachable g"
  shows "distinct (traverse_typed g start r mx) \<and>
    set (traverse_typed g start r mx) =
      {n. n \<noteq> start \<and> (\<exists>k. (start, n) \<in> typed_edges g r ^^ k \<and> (\<forall>m. mx = Some m \<longrightarrow> k \<le> m))} \<and>
    sorted (map (dist (typed_edges g r) start) (traverse_typed g start r mx))"
  using traverse_loop_correct [OF graph_reachable_inv [OF assms] bfs_inv_start]
  unfolding traverse_typed_def within_ball_def by auto

theorem traverse_typed_correct_witness:
  "2 \<in> set (traverse_typed sample_graph 1 DerivedFrom (Some 1)) \<and>
   3 \<in> set (traverse_typed sample_graph 1 DerivedFrom None)"
proof -
  have e: "(1, 2) \<in> typed_edges sample_graph DerivedFrom" "(2, 3) \<in> typed_edges sample_graph DerivedFrom"
    unfolding in_typed_edges sample_lookup
    by (intro exI [of _ 10] exI [of _ "edge_new 10 0 1 2 DerivedFrom 9"], simp add: edge_new_def)
       (intro exI [of _ 11] exI [of _ "edge_new 11 0 2 3 DerivedFrom 9"], simp add: edge_new_def)
  have p: "(1, 2) \<in> typed_edges sample_graph DerivedFrom ^^ 1" using e by simp
  have q: "(1, 3) \<in> typed_edges sample_graph DerivedFrom ^^ Suc 1" using e by auto
  have "set (traverse_typed sample_graph 1 DerivedFrom mx) =
      {n. n \<noteq> 1 \<and> (\<exists>k. (1, n) \<in> typed_edges sample_graph DerivedFrom ^^ k \<and> (\<forall>m. mx = Some m \<longrightarrow> k \<le> m))}" for mx
    using traverse_typed_correct [OF sample_reachable, of 1 DerivedFrom mx] by blast
  then show ?thesis
    using p exI [of "\<lambda>k. (1, 3) \<in> typed_edges sample_graph DerivedFrom ^^ k", OF q] by (auto simp del: relpow.simps)
qed

text \<open>
  Inserting an edge under an id already in use is not rejected: the old edge is lost, its source
  still lists the id, and the edges reported for that node then include one that does not touch it.
\<close>

theorem readded_edge_goes_stale:
  "let g1 = snd (add_edge (edge_new 10 0 1 2 DerivedFrom 9)
              (snd (add_node (sample_node 3) (snd (add_node (sample_node 2) (snd (add_node (sample_node 1) graph_new)))))));
       out = add_edge (edge_new 10 0 2 3 DerivedFrom 9) g1
   in fst out = Inr 10 \<and> map (\<lambda>ed. (ce_from ed, ce_to ed)) (get_edges (snd out) 1) = [(2, 3)]"
  by (simp add: add_edge_def add_node_def sample_node_def node_new_candidate_def graph_new_def edge_new_def
      get_edges_def push_to_def or_default_def map_filter_def Let_def)

end
