(* ===== verification/Concept_Update.thy ===== *)
theory Concept_Update
  imports Concept_Traversal
begin

text \<open>
  Incremental updates of the concept graph (\<^verbatim>\<open>concept_graph/src/incremental.rs\<close>) and its projection
  from memory observations (\<^verbatim>\<open>projection.rs\<close>).
\<close>

section \<open>Change events\<close>

datatype change_event =
  NodePromoted uuid
| NodeSuperseded uuid uuid
| NodeContradicted uuid uuid
| EdgeAdded uuid
| EdgeRemoved uuid

fun anchors :: "change_event \<Rightarrow> uuid list" where
  "anchors (NodePromoted node) = [node]"
| "anchors (NodeSuperseded predecessor successor) = [predecessor, successor]"
| "anchors (NodeContradicted a b) = [a, b]"
| "anchors (EdgeAdded _) = []"
| "anchors (EdgeRemoved _) = []"

record affected_subgraph =
  as_nodes :: "uuid set"
  as_edges :: "uuid set"
  as_max_depth_reached :: nat

definition affected_contains_node :: "affected_subgraph \<Rightarrow> uuid \<Rightarrow> bool" where
  "affected_contains_node s n \<longleftrightarrow> n \<in> as_nodes s"

definition sorted_nodes :: "affected_subgraph \<Rightarrow> uuid list" where
  "sorted_nodes s = sorted_list_of_set (as_nodes s)"

section \<open>The affected subgraph\<close>

text \<open>The loop over the edges of one node, and the breadth-first loop around it.\<close>

fun expand_edges ::
  "uuid \<Rightarrow> nat \<Rightarrow> concept_edge list \<Rightarrow> uuid set \<times> uuid set \<times> (uuid \<times> nat) list \<Rightarrow>
   uuid set \<times> uuid set \<times> (uuid \<times> nat) list" where
  "expand_edges i depth [] st = st"
| "expand_edges i depth (e # es) (nodes, edges, frontier) =
     (let edges1 = insert (ce_id e) edges;
          other = (if ce_from e = i then ce_to e else ce_from e)
      in if other = i then expand_edges i depth es (nodes, edges1, frontier)
         else let is_provenance = (ce_relation e = DerivedFrom);
                  in_provenance = (is_provenance \<and> ce_to e = i);
                  direct_neighbour = (depth = 0)
              in if (direct_neighbour \<or> in_provenance) \<and> other \<notin> nodes
                 then expand_edges i depth es (insert other nodes, edges1, frontier @ [(other, Suc depth)])
                 else expand_edges i depth es (nodes, edges1, frontier))"

definition expands_to :: "uuid \<Rightarrow> nat \<Rightarrow> concept_edge list \<Rightarrow> uuid set" where
  "expands_to i depth es = {other. \<exists>e \<in> set es. other = (if ce_from e = i then ce_to e else ce_from e) \<and>
     other \<noteq> i \<and> (depth = 0 \<or> ce_relation e = DerivedFrom \<and> ce_to e = i)}"

lemma expands_to_Cons:
  "expands_to i depth (e # es) =
   (let other = (if ce_from e = i then ce_to e else ce_from e) in
    if other \<noteq> i \<and> (depth = 0 \<or> ce_relation e = DerivedFrom \<and> ce_to e = i)
    then insert other (expands_to i depth es) else expands_to i depth es)"
  unfolding expands_to_def Let_def by auto

lemma expand_edges_spec:
  "\<exists>new. expand_edges i depth es (N, D, Q) =
      (N \<union> expands_to i depth es, D \<union> ce_id ` set es, Q @ map (\<lambda>n. (n, Suc depth)) new) \<and>
    set new = expands_to i depth es - N \<and> distinct new"
proof (induction es arbitrary: N D Q)
  case Nil
  then show ?case by (simp add: expands_to_def)
next
  case (Cons e es)
  define other where "other = (if ce_from e = i then ce_to e else ce_from e)"
  define take1 where "take1 \<longleftrightarrow> other \<noteq> i \<and> (depth = 0 \<or> ce_relation e = DerivedFrom \<and> ce_to e = i)"
  have ex: "expands_to i depth (e # es) = (if take1 then insert other (expands_to i depth es) else expands_to i depth es)"
    unfolding expands_to_Cons Let_def other_def take1_def ..
  show ?case
  proof (cases "take1 \<and> other \<notin> N")
    case True
    then have step: "expand_edges i depth (e # es) (N, D, Q) =
        expand_edges i depth es (insert other N, insert (ce_id e) D, Q @ [(other, Suc depth)])"
      unfolding take1_def other_def by (simp add: Let_def)
    obtain new where new: "expand_edges i depth es (insert other N, insert (ce_id e) D, Q @ [(other, Suc depth)]) =
        (insert other N \<union> expands_to i depth es, insert (ce_id e) D \<union> ce_id ` set es,
         (Q @ [(other, Suc depth)]) @ map (\<lambda>n. (n, Suc depth)) new)"
        "set new = expands_to i depth es - insert other N" "distinct new"
      using Cons [of "insert other N" "insert (ce_id e) D" "Q @ [(other, Suc depth)]"] by blast
    have "set (other # new) = expands_to i depth (e # es) - N" "distinct (other # new)"
      using True new(2,3) unfolding ex by auto
    moreover have "insert other N \<union> expands_to i depth es = N \<union> expands_to i depth (e # es)"
      "insert (ce_id e) D \<union> ce_id ` set es = D \<union> ce_id ` set (e # es)"
      using True unfolding ex by auto
    ultimately show ?thesis
      unfolding step new(1) by (intro exI [of _ "other # new"]) simp
  next
    case False
    then have step: "expand_edges i depth (e # es) (N, D, Q) = expand_edges i depth es (N, insert (ce_id e) D, Q)"
      unfolding take1_def other_def by (auto simp: Let_def)
    obtain new where new: "expand_edges i depth es (N, insert (ce_id e) D, Q) =
        (N \<union> expands_to i depth es, insert (ce_id e) D \<union> ce_id ` set es, Q @ map (\<lambda>n. (n, Suc depth)) new)"
        "set new = expands_to i depth es - N" "distinct new"
      using Cons [of N "insert (ce_id e) D" Q] by blast
    have "N \<union> expands_to i depth es = N \<union> expands_to i depth (e # es)"
      "expands_to i depth es - N = expands_to i depth (e # es) - N"
      "insert (ce_id e) D \<union> ce_id ` set es = D \<union> ce_id ` set (e # es)"
      using False unfolding ex by auto
    then show ?thesis unfolding step new(1) using new(2,3) by (intro exI [of _ new]) simp
  qed
qed

lemma expand_edges_measure:
  "card (- fst (expand_edges i depth es (N, D, Q))) < card (- N) \<or>
   card (- fst (expand_edges i depth es (N, D, Q))) = card (- N) \<and>
     length (snd (snd (expand_edges i depth es (N, D, Q)))) = length Q"
proof -
  obtain new where new: "expand_edges i depth es (N, D, Q) =
      (N \<union> expands_to i depth es, D \<union> ce_id ` set es, Q @ map (\<lambda>n. (n, Suc depth)) new)"
      "set new = expands_to i depth es - N"
    using expand_edges_spec [of i depth es N D Q] by blast
  show ?thesis
  proof (cases "new = []")
    case True
    then have "N \<union> expands_to i depth es = N" using new(2) by auto
    then show ?thesis unfolding new(1) True by simp
  next
    case False
    then obtain n where n: "n \<in> expands_to i depth es" "n \<notin> N"
      using new(2) by (metis Diff_iff ex_in_conv set_empty)
    then have "card (- (N \<union> expands_to i depth es)) \<le> card (- insert n N)"
      by (intro card_mono) auto
    also have "\<dots> < card (- N)" by (rule card_Compl_insert_less [OF n(2)])
    finally show ?thesis unfolding new(1) by simp
  qed
qed

lemma expand_edges_measure_eq:
  "(N1, D1, Q1) = expand_edges i depth es (N, D, Q) \<Longrightarrow>
   card (- N1) < card (- N) \<or> card (- N1) = card (- N) \<and> length Q1 = length Q"
  using expand_edges_measure [of i depth es N D Q] by (metis fst_conv snd_conv)

definition note_depth :: "nat \<Rightarrow> affected_subgraph \<Rightarrow> affected_subgraph" where
  "note_depth depth sub =
     (if as_max_depth_reached sub < depth then sub\<lparr>as_max_depth_reached := depth\<rparr> else sub)"

lemma note_depth_sel [simp]:
  "as_nodes (note_depth depth sub) = as_nodes sub" "as_edges (note_depth depth sub) = as_edges sub"
  "as_max_depth_reached (note_depth depth sub) = max (as_max_depth_reached sub) depth"
  by (simp_all add: note_depth_def)

function affected_loop ::
  "nat \<Rightarrow> concept_graph \<Rightarrow> (uuid \<times> nat) list \<Rightarrow> affected_subgraph \<Rightarrow> affected_subgraph" where
  "affected_loop max_propagation_depth g [] sub = sub"
| "affected_loop max_propagation_depth g ((i, depth) # frontier) sub =
     (let sub1 = note_depth depth sub in
      if max_propagation_depth \<le> depth
      then affected_loop max_propagation_depth g frontier
             (sub1\<lparr>as_edges := as_edges sub1 \<union> ce_id ` set (get_edges g i)\<rparr>)
      else (case expand_edges i depth (get_edges g i) (as_nodes sub1, as_edges sub1, frontier) of
              (nodes, edges, frontier1) \<Rightarrow>
                affected_loop max_propagation_depth g frontier1 (sub1\<lparr>as_nodes := nodes, as_edges := edges\<rparr>)))"
  by pat_completeness auto
termination affected_loop
  by (relation "measures [\<lambda>(m, g, Q, sub). card (- as_nodes sub), \<lambda>(m, g, Q, sub). length Q]")
     (auto dest!: expand_edges_measure_eq)

fun seed_anchors ::
  "concept_graph \<Rightarrow> uuid list \<Rightarrow> affected_subgraph \<times> (uuid \<times> nat) list \<Rightarrow> affected_subgraph \<times> (uuid \<times> nat) list" where
  "seed_anchors g [] st = st"
| "seed_anchors g (a # as) (sub, frontier) =
     (if get_node g a \<noteq> None
      then seed_anchors g as (sub\<lparr>as_nodes := insert a (as_nodes sub)\<rparr>, frontier @ [(a, 0)])
      else seed_anchors g as (sub, frontier))"

definition affected_empty :: affected_subgraph where
  "affected_empty = \<lparr>as_nodes = {}, as_edges = {}, as_max_depth_reached = 0\<rparr>"

definition affected_subgraph_of :: "nat \<Rightarrow> concept_graph \<Rightarrow> change_event \<Rightarrow> affected_subgraph" where
  "affected_subgraph_of max_propagation_depth g event =
     (if anchors event = []
      then (case event of
              EdgeAdded edge \<Rightarrow> affected_empty\<lparr>as_edges := {edge}\<rparr>
            | EdgeRemoved edge \<Rightarrow> affected_empty\<lparr>as_edges := {edge}\<rparr>
            | _ \<Rightarrow> affected_empty)
      else (case seed_anchors g (anchors event) (affected_empty, []) of
              (sub, frontier) \<Rightarrow> affected_loop max_propagation_depth g frontier sub))"

definition default_propagation_depth :: nat where
  "default_propagation_depth = 8"

section \<open>The recompute scope\<close>

fun push_dependents ::
  "uuid \<Rightarrow> affected_subgraph \<Rightarrow> concept_edge list \<Rightarrow> uuid set \<times> uuid list \<times> uuid list \<Rightarrow>
   uuid set \<times> uuid list \<times> uuid list" where
  "push_dependents i affected [] st = st"
| "push_dependents i affected (e # es) (seen, scope, frontier) =
     (if ce_relation e \<noteq> DerivedFrom then push_dependents i affected es (seen, scope, frontier)
      else if ce_to e \<noteq> i then push_dependents i affected es (seen, scope, frontier)
      else let dependent = ce_from e in
        if \<not> affected_contains_node affected dependent then push_dependents i affected es (seen, scope, frontier)
        else if dependent \<in> seen then push_dependents i affected es (seen, scope, frontier)
        else push_dependents i affected es (insert dependent seen, scope @ [dependent], frontier @ [dependent]))"

definition dependents :: "uuid \<Rightarrow> affected_subgraph \<Rightarrow> concept_edge list \<Rightarrow> uuid set" where
  "dependents i affected es =
     {n. \<exists>e \<in> set es. ce_relation e = DerivedFrom \<and> ce_to e = i \<and> ce_from e = n \<and> n \<in> as_nodes affected}"

lemma push_dependents_spec:
  "\<exists>new. push_dependents i affected es (seen, scope, Q) =
      (seen \<union> dependents i affected es, scope @ new, Q @ new) \<and>
    set new = dependents i affected es - seen \<and> distinct new"
proof (induction es arbitrary: seen scope Q)
  case Nil
  then show ?case by (simp add: dependents_def)
next
  case (Cons e es)
  define hit where "hit \<longleftrightarrow> ce_relation e = DerivedFrom \<and> ce_to e = i \<and> ce_from e \<in> as_nodes affected"
  have ex: "dependents i affected (e # es) =
      (if hit then insert (ce_from e) (dependents i affected es) else dependents i affected es)"
    unfolding dependents_def hit_def by auto
  show ?case
  proof (cases "hit \<and> ce_from e \<notin> seen")
    case True
    then have step: "push_dependents i affected (e # es) (seen, scope, Q) =
        push_dependents i affected es (insert (ce_from e) seen, scope @ [ce_from e], Q @ [ce_from e])"
      unfolding hit_def by (simp add: Let_def affected_contains_node_def)
    obtain new where new: "push_dependents i affected es (insert (ce_from e) seen, scope @ [ce_from e], Q @ [ce_from e]) =
        (insert (ce_from e) seen \<union> dependents i affected es, (scope @ [ce_from e]) @ new, (Q @ [ce_from e]) @ new)"
        "set new = dependents i affected es - insert (ce_from e) seen" "distinct new"
      using Cons [of "insert (ce_from e) seen" "scope @ [ce_from e]" "Q @ [ce_from e]"] by blast
    have "set (ce_from e # new) = dependents i affected (e # es) - seen" "distinct (ce_from e # new)"
      "insert (ce_from e) seen \<union> dependents i affected es = seen \<union> dependents i affected (e # es)"
      using True new(2,3) unfolding ex by auto
    then show ?thesis unfolding step new(1) by (intro exI [of _ "ce_from e # new"]) simp
  next
    case False
    then have step: "push_dependents i affected (e # es) (seen, scope, Q) = push_dependents i affected es (seen, scope, Q)"
      unfolding hit_def by (auto simp: Let_def affected_contains_node_def)
    have "seen \<union> dependents i affected es = seen \<union> dependents i affected (e # es)"
      "dependents i affected es - seen = dependents i affected (e # es) - seen"
      using False unfolding ex by auto
    then show ?thesis unfolding step using Cons [of seen scope Q] by simp
  qed
qed

lemma push_dependents_measure:
  "card (- fst (push_dependents i affected es (S, scope, Q))) < card (- S) \<or>
   card (- fst (push_dependents i affected es (S, scope, Q))) = card (- S) \<and>
     length (snd (snd (push_dependents i affected es (S, scope, Q)))) = length Q"
proof -
  obtain new where new: "push_dependents i affected es (S, scope, Q) =
      (S \<union> dependents i affected es, scope @ new, Q @ new)" "set new = dependents i affected es - S"
    using push_dependents_spec [of i affected es S scope Q] by blast
  show ?thesis
  proof (cases "new = []")
    case True
    then have "S \<union> dependents i affected es = S" using new(2) by auto
    then show ?thesis unfolding new(1) True by simp
  next
    case False
    then obtain n where n: "n \<in> dependents i affected es" "n \<notin> S"
      using new(2) by (metis Diff_iff ex_in_conv set_empty)
    then have "card (- (S \<union> dependents i affected es)) \<le> card (- insert n S)"
      by (intro card_mono) auto
    also have "\<dots> < card (- S)" by (rule card_Compl_insert_less [OF n(2)])
    finally show ?thesis unfolding new(1) by simp
  qed
qed

lemma push_dependents_measure_eq:
  "(S1, scope1, Q1) = push_dependents i affected es (S, scope, Q) \<Longrightarrow>
   card (- S1) < card (- S) \<or> card (- S1) = card (- S) \<and> length Q1 = length Q"
  using push_dependents_measure [of i affected es S scope Q] by (metis fst_conv snd_conv)

function recompute_loop ::
  "concept_graph \<Rightarrow> affected_subgraph \<Rightarrow> uuid list \<Rightarrow> uuid set \<Rightarrow> uuid list \<Rightarrow> uuid list" where
  "recompute_loop g affected [] seen scope = scope"
| "recompute_loop g affected (i # frontier) seen scope =
     (case push_dependents i affected (get_edges g i) (seen, scope, frontier) of
        (seen1, scope1, frontier1) \<Rightarrow> recompute_loop g affected frontier1 seen1 scope1)"
  by pat_completeness auto
termination recompute_loop
  by (relation "measures [\<lambda>(g, a, Q, S, scope). card (- S), \<lambda>(g, a, Q, S, scope). length Q]")
     (auto dest!: push_dependents_measure_eq)

fun scope_anchors :: "concept_graph \<Rightarrow> uuid list \<Rightarrow> uuid set \<times> uuid list \<Rightarrow> uuid set \<times> uuid list" where
  "scope_anchors g [] st = st"
| "scope_anchors g (a # as) (seen, scope) =
     (if get_node g a \<noteq> None \<and> a \<notin> seen then scope_anchors g as (insert a seen, scope @ [a])
      else scope_anchors g as (seen, scope))"

definition recompute_scope :: "concept_graph \<Rightarrow> change_event \<Rightarrow> affected_subgraph \<Rightarrow> uuid list" where
  "recompute_scope g event affected =
     (case scope_anchors g (anchors event) ({}, []) of
        (seen, scope) \<Rightarrow> recompute_loop g affected scope seen scope)"

section \<open>Propagation\<close>

record update_propagation =
  up_event :: "change_event option"
  up_affected :: affected_subgraph
  up_recompute :: "uuid list"
  up_state_transitions :: "uuid \<rightharpoonup> node_state"
  up_removed_edges :: "uuid list"

definition is_noop :: "update_propagation \<Rightarrow> bool" where
  "is_noop u \<longleftrightarrow> up_state_transitions u = Map.empty \<and> up_removed_edges u = [] \<and> up_recompute u = []"

text \<open>\<open>fresh\<close> and \<open>now\<close> give the ids and instants that the calls of the mutation draw, in order.\<close>

definition propagate ::
  "(nat \<Rightarrow> uuid) \<Rightarrow> (nat \<Rightarrow> instant) \<Rightarrow> nat \<Rightarrow> change_event \<Rightarrow> concept_graph \<Rightarrow>
   (graph_error + update_propagation) \<times> concept_graph" where
  "propagate fresh now max_propagation_depth event g =
     (let affected = affected_subgraph_of max_propagation_depth g event;
          recompute = recompute_scope g event affected;
          report = (\<lambda>st removed. \<lparr>up_event = Some event, up_affected = affected, up_recompute = recompute,
                      up_state_transitions = st, up_removed_edges = removed\<rparr>)
      in case event of
           NodePromoted node \<Rightarrow>
             (case cg_nodes g node of
                None \<Rightarrow> (Inl (NodeNotFound node), g)
              | Some n \<Rightarrow>
                  if cn_state n = NCandidate
                  then (Inr (report [node \<mapsto> NCanonical] []),
                        g\<lparr>cg_nodes := (cg_nodes g)(node \<mapsto> mark_canonical (now 0) n)\<rparr>)
                  else (Inr (report Map.empty []), g))
         | NodeSuperseded predecessor successor \<Rightarrow>
             (case supersede_node (fresh 0) (now 0) (now 1) predecessor successor g of
                (Inl e, g1) \<Rightarrow> (Inl e, g1)
              | (Inr _, g1) \<Rightarrow> (Inr (report [predecessor \<mapsto> NSuperseded] []), g1))
         | NodeContradicted a b \<Rightarrow>
             (case mark_contradiction (fresh 0) (fresh 1) (now 0) (now 1) (now 2) (now 3) a b g of
                (Inl e, g1) \<Rightarrow> (Inl e, g1)
              | (Inr _, g1) \<Rightarrow> (Inr (report [a \<mapsto> NContradicted, b \<mapsto> NContradicted] []), g1))
         | EdgeAdded _ \<Rightarrow> (Inr (report Map.empty []), g)
         | EdgeRemoved edge \<Rightarrow>
             (case remove_edge edge g of
                (Inl _, g1) \<Rightarrow> (Inr (report Map.empty []), g1)
              | (Inr _, g1) \<Rightarrow> (Inr (report Map.empty [edge]), g1)))"

section \<open>Projection from memory\<close>

record memory_projection =
  mp_id :: uuid
  mp_scope_id :: uuid
  mp_label :: string
  mp_definition :: string
  mp_state :: node_state
  mp_superseded_by :: "uuid option"
  mp_created_at :: instant
  mp_updated_at :: instant
  mp_metadata :: json

definition into_node :: "memory_projection \<Rightarrow> concept_node" where
  "into_node m = \<lparr>cn_id = mp_id m, cn_label = mp_label m, cn_definition = mp_definition m,
     cn_scope_id = mp_scope_id m, cn_state = mp_state m, cn_superseded_by = mp_superseded_by m,
     cn_created_at = mp_created_at m, cn_updated_at = mp_updated_at m, cn_metadata = mp_metadata m\<rparr>"

definition supersedes_edge_namespace :: uuid where
  "supersedes_edge_namespace = 0x6b9c2d107a444f1e9c3b5e8d21a70f64"

definition supersedes_edge_id :: "(uuid \<Rightarrow> byte list \<Rightarrow> uuid) \<Rightarrow> uuid \<Rightarrow> uuid \<Rightarrow> uuid" where
  "supersedes_edge_id new_v5 successor predecessor =
     new_v5 supersedes_edge_namespace (uuid_bytes successor @ uuid_bytes predecessor)"

fun project_nodes ::
  "memory_projection list \<Rightarrow> concept_graph \<times> (uuid \<times> uuid \<times> uuid) list \<times> uuid set \<Rightarrow>
   concept_graph \<times> (uuid \<times> uuid \<times> uuid) list \<times> uuid set" where
  "project_nodes [] st = st"
| "project_nodes (item # items) (g, pending_edges, present) =
     (let i = mp_id item;
          pending1 = (case mp_superseded_by item of
              Some succ \<Rightarrow> if succ \<noteq> i then pending_edges @ [(succ, i, mp_scope_id item)] else pending_edges
            | None \<Rightarrow> pending_edges)
      in case add_node (into_node item) g of
           (Inr _, g1) \<Rightarrow> project_nodes items (g1, pending1, insert i present)
         | (Inl _, g1) \<Rightarrow> project_nodes items (g1, pending1, present))"

text \<open>The \<open>k\<close>-th edge is created with the clock at \<open>clock k\<close>; its random id is overwritten.\<close>

fun project_edges ::
  "(uuid \<Rightarrow> byte list \<Rightarrow> uuid) \<Rightarrow> (nat \<Rightarrow> instant) \<Rightarrow> uuid set \<Rightarrow> nat \<Rightarrow> (uuid \<times> uuid \<times> uuid) list \<Rightarrow>
   concept_graph \<Rightarrow> concept_graph" where
  "project_edges new_v5 clock present k [] g = g"
| "project_edges new_v5 clock present k ((successor, predecessor, scope_id) # ps) g =
     (if successor \<notin> present \<or> predecessor \<notin> present
      then project_edges new_v5 clock present k ps g
      else let edge = (edge_new 0 (clock k) successor predecessor Supersedes scope_id)\<lparr>ce_id :=
                         supersedes_edge_id new_v5 successor predecessor\<rparr>
           in project_edges new_v5 clock present (Suc k) ps (snd (add_edge edge g)))"

definition project_memory_graph ::
  "(uuid \<Rightarrow> byte list \<Rightarrow> uuid) \<Rightarrow> (nat \<Rightarrow> instant) \<Rightarrow> memory_projection list \<Rightarrow> concept_graph" where
  "project_memory_graph new_v5 clock items =
     (case project_nodes items (graph_new, [], {}) of
        (g, pending_edges, present) \<Rightarrow> project_edges new_v5 clock present 0 pending_edges g)"

section \<open>What the affected walk computes\<close>

definition incident_ids :: "concept_graph \<Rightarrow> uuid \<Rightarrow> uuid set" where
  "incident_ids g n = ce_id ` set (get_edges g n)"

text \<open>The concepts derived from \<open>n\<close>, as the walk reads them off the edges of \<open>n\<close>.\<close>

definition derived_ids :: "concept_graph \<Rightarrow> uuid \<Rightarrow> uuid set" where
  "derived_ids g n = {ce_from e |e. e \<in> set (get_edges g n) \<and> ce_relation e = DerivedFrom \<and> ce_to e = n}"

lemma derived_ids_typed:
  assumes "graph_inv g"
  shows "derived_ids g n = {v. (v, n) \<in> typed_edges g DerivedFrom}"
  unfolding derived_ids_def get_edges_set [OF assms] in_typed_edges by blast

definition affected_inv ::
  "concept_graph \<Rightarrow> nat \<Rightarrow> (uuid \<times> nat) list \<Rightarrow> affected_subgraph \<Rightarrow> bool" where
  "affected_inv g m Q sub \<longleftrightarrow>
     fst ` set Q \<subseteq> as_nodes sub \<and> as_nodes sub \<subseteq> dom (cg_nodes g) \<and>
     as_edges sub \<subseteq> (\<Union>n \<in> as_nodes sub. incident_ids g n) \<and>
     (\<forall>n \<in> as_nodes sub - fst ` set Q. incident_ids g n \<subseteq> as_edges sub \<and>
        (as_max_depth_reached sub < m \<longrightarrow> derived_ids g n \<subseteq> as_nodes sub))"

lemma expands_to_nodes:
  assumes "graph_inv g"
  shows "expands_to i depth (get_edges g i) \<subseteq> dom (cg_nodes g)"
proof
  fix v assume "v \<in> expands_to i depth (get_edges g i)"
  then obtain e where "e \<in> set (get_edges g i)" "v = ce_to e \<or> v = ce_from e"
    unfolding expands_to_def by (auto split: if_splits)
  then show "v \<in> dom (cg_nodes g)"
    using assms unfolding get_edges_set [OF assms] graph_inv_def by auto
qed

lemma derived_expands: "derived_ids g i \<subseteq> insert i (expands_to i depth (get_edges g i))"
proof
  fix v assume "v \<in> derived_ids g i"
  then obtain e where e: "e \<in> set (get_edges g i)" "ce_relation e = DerivedFrom" "ce_to e = i" "ce_from e = v"
    unfolding derived_ids_def by blast
  show "v \<in> insert i (expands_to i depth (get_edges g i))"
  proof (cases "v = i")
    case False
    then have "v \<in> expands_to i depth (get_edges g i)"
      unfolding expands_to_def using e by (intro CollectI bexI [of _ e]) auto
    then show ?thesis by simp
  qed simp
qed

lemma affected_inv_cut:
  assumes "affected_inv g m ((i, depth) # Q) sub" and "m \<le> depth"
  shows "affected_inv g m Q ((note_depth depth sub)\<lparr>as_edges := as_edges sub \<union> incident_ids g i\<rparr>)"
  using assms unfolding affected_inv_def by (auto simp: image_iff)

lemma affected_inv_expand:
  assumes "graph_inv g" and "affected_inv g m ((i, depth) # Q) sub"
    and "set new = expands_to i depth (get_edges g i) - as_nodes sub"
  shows "affected_inv g m (Q @ map (\<lambda>n. (n, Suc depth)) new)
    ((note_depth depth sub)\<lparr>as_nodes := as_nodes sub \<union> expands_to i depth (get_edges g i),
      as_edges := as_edges sub \<union> incident_ids g i\<rparr>)" (is "affected_inv g m ?Q ?sub")
proof -
  let ?X = "expands_to i depth (get_edges g i)"
  note inv = assms(2) [unfolded affected_inv_def]
  have i: "i \<in> as_nodes sub" using inv by simp
  have Q: "fst ` set ?Q = fst ` set Q \<union> (?X - as_nodes sub)"
    using assms(3) by (auto simp: image_Un image_image)
  have "fst ` set ?Q \<subseteq> as_nodes ?sub" unfolding Q using inv by auto
  moreover have "as_nodes ?sub \<subseteq> dom (cg_nodes g)" using inv expands_to_nodes [OF assms(1)] by auto
  moreover have "as_edges ?sub \<subseteq> (\<Union>n \<in> as_nodes ?sub. incident_ids g n)" using inv i by auto
  moreover have "incident_ids g n \<subseteq> as_edges ?sub \<and>
      (as_max_depth_reached ?sub < m \<longrightarrow> derived_ids g n \<subseteq> as_nodes ?sub)"
    if "n \<in> as_nodes ?sub - fst ` set ?Q" for n
  proof (cases "n = i")
    case True
    then show ?thesis using derived_expands [of g i depth] i by auto
  next
    case False
    then have "n \<in> as_nodes sub - fst ` set ((i, depth) # Q)" using that unfolding Q by auto
    then show ?thesis using inv by auto
  qed
  ultimately show ?thesis unfolding affected_inv_def by blast
qed

lemma affected_loop_inv:
  "graph_inv g \<Longrightarrow> affected_inv g m Q sub \<Longrightarrow>
   affected_inv g m [] (affected_loop m g Q sub) \<and> as_nodes sub \<subseteq> as_nodes (affected_loop m g Q sub)"
proof (induction m g Q sub rule: affected_loop.induct)
  case (2 m g i depth Q sub)
  show ?case
  proof (cases "m \<le> depth")
    case True
    then show ?thesis
      using 2(1) [OF refl True 2(3)] affected_inv_cut [OF 2(4) True]
      by (simp add: incident_ids_def Let_def)
  next
    case False
    obtain new where new: "expand_edges i depth (get_edges g i) (as_nodes sub, as_edges sub, Q) =
        (as_nodes sub \<union> expands_to i depth (get_edges g i), as_edges sub \<union> incident_ids g i,
         Q @ map (\<lambda>n. (n, Suc depth)) new)"
        "set new = expands_to i depth (get_edges g i) - as_nodes sub"
      using expand_edges_spec [of i depth "get_edges g i" "as_nodes sub" "as_edges sub" Q]
      unfolding incident_ids_def by blast
    show ?thesis
      using 2(2) [OF refl False _ _ 2(3)] affected_inv_expand [OF 2(3,4) new(2)] new(1) False
      by (auto simp: Let_def)
  qed
qed simp

lemma seed_anchors_spec:
  "seed_anchors g as (sub, Q) =
     (sub\<lparr>as_nodes := as_nodes sub \<union> {a \<in> set as. get_node g a \<noteq> None}\<rparr>,
      Q @ map (\<lambda>a. (a, 0)) (filter (\<lambda>a. get_node g a \<noteq> None) as))"
proof (induction as arbitrary: sub Q)
  case (Cons a as)
  have "insert a (as_nodes sub) \<union> {b \<in> set as. get_node g b \<noteq> None} =
      as_nodes sub \<union> {b \<in> set (a # as). get_node g b \<noteq> None}" if "get_node g a \<noteq> None"
    using that by auto
  moreover have "{b \<in> set as. get_node g b \<noteq> None} = {b \<in> set (a # as). get_node g b \<noteq> None}"
    if "get_node g a = None" using that by auto
  ultimately show ?case using Cons by auto
qed simp

section \<open>What the recompute walk computes\<close>

definition depends_on :: "concept_graph \<Rightarrow> affected_subgraph \<Rightarrow> (uuid \<times> uuid) set" where
  "depends_on g affected = {(u, v). (v, u) \<in> typed_edges g DerivedFrom \<and> v \<in> as_nodes affected}"

lemma dependents_eq:
  assumes "graph_inv g"
  shows "dependents i affected (get_edges g i) = depends_on g affected `` {i}"
  unfolding dependents_def depends_on_def get_edges_set [OF assms] in_typed_edges by blast

lemma recompute_loop_spec:
  assumes "graph_inv g" and "distinct scope" and "set scope = S" and "set Q \<subseteq> S"
    and "S \<subseteq> (depends_on g affected)\<^sup>* `` A" and "A \<subseteq> S"
    and "\<forall>n \<in> S - set Q. depends_on g affected `` {n} \<subseteq> S"
  shows "distinct (recompute_loop g affected Q S scope) \<and>
    set (recompute_loop g affected Q S scope) = (depends_on g affected)\<^sup>* `` A"
  using assms
proof (induction g affected Q S scope rule: recompute_loop.induct)
  case (1 g affected S scope)
  let ?R = "depends_on g affected"
  have closed: "?R `` {n} \<subseteq> S" if "n \<in> S" for n using 1(7) that by simp
  have "n \<in> S" if "(a, n) \<in> ?R\<^sup>*" "a \<in> A" for a n
    using that
  proof (induction rule: rtrancl_induct)
    case base
    then show ?case using 1(6) by blast
  next
    case (step y z)
    then show ?case using closed by blast
  qed
  then have "?R\<^sup>* `` A \<subseteq> S" by blast
  then show ?case using 1 by auto
next
  case (2 g affected i Q S scope)
  let ?R = "depends_on g affected"
  obtain new where new: "push_dependents i affected (get_edges g i) (S, scope, Q) =
      (S \<union> ?R `` {i}, scope @ new, Q @ new)" "set new = ?R `` {i} - S" "distinct new"
    using push_dependents_spec [of i affected "get_edges g i" S scope Q] dependents_eq [OF 2(2)] by metis
  have i: "i \<in> ?R\<^sup>* `` A" using 2(5,6) by auto
  have "distinct (recompute_loop g affected (Q @ new) (S \<union> ?R `` {i}) (scope @ new)) \<and>
      set (recompute_loop g affected (Q @ new) (S \<union> ?R `` {i}) (scope @ new)) = ?R\<^sup>* `` A"
  proof (rule 2(1) [OF new(1) [symmetric] refl 2(2)])
    show "distinct (scope @ new)" "set (scope @ new) = S \<union> ?R `` {i}" "set (Q @ new) \<subseteq> S \<union> ?R `` {i}"
      "A \<subseteq> S \<union> ?R `` {i}"
      using 2(3-7) new(2,3) by auto
    show "S \<union> ?R `` {i} \<subseteq> ?R\<^sup>* `` A"
      using 2(6) i by (auto intro: rtrancl_into_rtrancl)
    show "\<forall>n \<in> (S \<union> ?R `` {i}) - set (Q @ new). ?R `` {n} \<subseteq> S \<union> ?R `` {i}"
      using 2(8) new(2) by auto
  qed
  then show ?case using new(1) by simp
qed

lemma scope_anchors_spec:
  "set scope = S \<Longrightarrow> distinct scope \<Longrightarrow>
   \<exists>scope1. scope_anchors g as (S, scope) = (S \<union> {a \<in> set as. get_node g a \<noteq> None}, scope1) \<and>
     set scope1 = S \<union> {a \<in> set as. get_node g a \<noteq> None} \<and> distinct scope1"
proof (induction as arbitrary: S scope)
  case (Cons a as)
  show ?case
  proof (cases "get_node g a \<noteq> None \<and> a \<notin> S")
    case True
    then have "insert a S \<union> {b \<in> set as. get_node g b \<noteq> None} = S \<union> {b \<in> set (a # as). get_node g b \<noteq> None}"
      by auto
    then show ?thesis using Cons.IH [of "scope @ [a]" "insert a S"] Cons.prems True by auto
  next
    case False
    then have "S \<union> {b \<in> set as. get_node g b \<noteq> None} = S \<union> {b \<in> set (a # as). get_node g b \<noteq> None}" by auto
    then show ?thesis using Cons.IH [of scope S] Cons.prems False by auto
  qed
qed simp

section \<open>Properties\<close>

text \<open>
  The affected subgraph of a change to nodes: it contains the anchors that exist and only nodes of
  the graph, its edges are exactly the edges incident to its nodes, and when the walk ended below its
  depth limit every concept derived, through any number of steps, from an affected node is affected.
\<close>

theorem affected_subgraph_exact:
  assumes "graph_reachable g" and "anchors event \<noteq> []"
  shows "let sub = affected_subgraph_of m g event in
    {a \<in> set (anchors event). get_node g a \<noteq> None} \<subseteq> as_nodes sub \<and>
    (\<forall>n \<in> as_nodes sub. get_node g n \<noteq> None) \<and>
    as_edges sub = (\<Union>n \<in> as_nodes sub. incident_ids g n) \<and>
    (as_max_depth_reached sub < m \<longrightarrow>
       (\<forall>n \<in> as_nodes sub. \<forall>v. (v, n) \<in> (typed_edges g DerivedFrom)\<^sup>* \<longrightarrow> v \<in> as_nodes sub))"
proof -
  have inv: "graph_inv g" by (rule graph_reachable_inv [OF assms(1)])
  define A where "A = {a \<in> set (anchors event). get_node g a \<noteq> None}"
  define Q where "Q = map (\<lambda>a. (a, 0 :: nat)) (filter (\<lambda>a. get_node g a \<noteq> None) (anchors event))"
  let ?sub0 = "affected_empty\<lparr>as_nodes := A\<rparr>"
  have seed: "seed_anchors g (anchors event) (affected_empty, []) = (?sub0, Q)"
    unfolding seed_anchors_spec A_def Q_def by (simp add: affected_empty_def)
  have Q: "fst ` set Q = A" unfolding Q_def A_def by (auto simp: image_image)
  have "affected_inv g m Q ?sub0"
    unfolding affected_inv_def Q by (auto simp: affected_empty_def A_def get_node_def)
  then have fin: "affected_inv g m [] (affected_loop m g Q ?sub0)" and sup: "A \<subseteq> as_nodes (affected_loop m g Q ?sub0)"
    using affected_loop_inv [OF inv, of m Q ?sub0] by auto
  have sub: "affected_subgraph_of m g event = affected_loop m g Q ?sub0"
    unfolding affected_subgraph_of_def using assms(2) seed by simp
  let ?s = "affected_loop m g Q ?sub0"
  have closed: "v \<in> as_nodes ?s"
    if "as_max_depth_reached ?s < m" "n \<in> as_nodes ?s" "(v, n) \<in> (typed_edges g DerivedFrom)\<^sup>*" for n v
    using that(3,2)
  proof (induction rule: converse_rtrancl_induct)
    case (step y z)
    then have "z \<in> as_nodes ?s" by blast
    then have "derived_ids g z \<subseteq> as_nodes ?s" using fin that(1) unfolding affected_inv_def by auto
    then show ?case using step(1) unfolding derived_ids_typed [OF inv] by blast
  qed blast
  show ?thesis
    unfolding Let_def sub A_def [symmetric]
    using fin sup closed unfolding affected_inv_def get_node_def by fastforce
qed

theorem affected_subgraph_exact_witness:
  "3 \<in> as_nodes (affected_subgraph_of 8 sample_graph (NodePromoted 3))"
proof -
  have n: "get_node sample_graph 3 \<noteq> None"
    by (simp add: get_node_def sample_graph_def add_edge_def add_node_def sample_node_def
        node_new_candidate_def graph_new_def edge_new_def)
  show ?thesis
    using affected_subgraph_exact [OF sample_reachable, of "NodePromoted 3" 8] n by (auto simp: Let_def)
qed

text \<open>
  The recompute scope is, without repetition, exactly the existing anchors and the concepts that
  derive from them through affected concepts, so it never leaves the affected subgraph.
\<close>

theorem recompute_scope_exact:
  assumes "graph_reachable g"
  shows "distinct (recompute_scope g event affected) \<and>
    set (recompute_scope g event affected) =
      (depends_on g affected)\<^sup>* `` {a \<in> set (anchors event). get_node g a \<noteq> None} \<and>
    set (recompute_scope g event affected) \<subseteq>
      {a \<in> set (anchors event). get_node g a \<noteq> None} \<union> as_nodes affected"
proof -
  have inv: "graph_inv g" by (rule graph_reachable_inv [OF assms])
  define A where "A = {a \<in> set (anchors event). get_node g a \<noteq> None}"
  obtain scope where sc: "scope_anchors g (anchors event) ({}, []) = (A, scope)" "set scope = A" "distinct scope"
    using scope_anchors_spec [of "[]" "{}" g "anchors event"] unfolding A_def by auto
  have main: "distinct (recompute_scope g event affected) \<and>
      set (recompute_scope g event affected) = (depends_on g affected)\<^sup>* `` A"
    unfolding recompute_scope_def sc(1) prod.case
    by (rule recompute_loop_spec [OF inv sc(3,2)]) (auto simp: sc(2))
  have "n \<in> A \<union> as_nodes affected" if "(a, n) \<in> (depends_on g affected)\<^sup>*" "a \<in> A" for a n
    using that by (induction rule: rtrancl_induct) (auto simp: depends_on_def)
  then show ?thesis using main unfolding A_def [symmetric] by blast
qed

theorem recompute_scope_exact_witness:
  "3 \<in> set (recompute_scope sample_graph (NodePromoted 3) affected_empty)"
proof -
  have "get_node sample_graph 3 \<noteq> None"
    by (simp add: get_node_def sample_graph_def add_edge_def add_node_def sample_node_def
        node_new_candidate_def graph_new_def edge_new_def)
  then show ?thesis
    using recompute_scope_exact [OF sample_reachable, of "NodePromoted 3" affected_empty] by auto
qed

lemma supersede_node_result:
  "case supersede_node f n1 n2 p q g of
     (Inl e, h) \<Rightarrow> h = g
   | (Inr e, h) \<Rightarrow> \<exists>pred. cg_nodes g p = Some pred \<and> cg_nodes h = (cg_nodes g)(p \<mapsto> mark_superseded_by n1 q pred)"
proof (cases "p = q \<or> cg_nodes g q = None \<or> cg_nodes g p = None")
  case True
  then show ?thesis by (auto simp: supersede_node_def split: option.split)
next
  case False
  then obtain pred qn where pred: "p \<noteq> q" "cg_nodes g p = Some pred" "cg_nodes g q = Some qn" by auto
  let ?g1 = "g\<lparr>cg_nodes := (cg_nodes g)(p \<mapsto> mark_superseded_by n1 q pred)\<rparr>"
  let ?e = "edge_new f n2 p q Supersedes (cn_scope_id pred)"
  have "supersede_node f n1 n2 p q g = add_edge ?e ?g1" using pred by (simp add: supersede_node_def)
  also have "\<dots> = (Inr f, snd (add_edge ?e ?g1))"
    using add_edge_ok [of ?g1 ?e] pred by (simp add: edge_new_def)
  finally show ?thesis using pred by simp
qed

lemma mark_contradiction_result:
  "case mark_contradiction f1 f2 n1 n2 n3 n4 a b g of
     (Inl e, h) \<Rightarrow> h = g
   | (Inr e, h) \<Rightarrow> a \<noteq> b \<and> (\<exists>na nb. cg_nodes g a = Some na \<and> cg_nodes g b = Some nb \<and>
       cg_nodes h = (cg_nodes g)(a \<mapsto> mark_contradicted_by n1 b na, b \<mapsto> mark_contradicted_by n2 a nb))"
proof (cases "a = b \<or> cg_nodes g a = None \<or> cg_nodes g b = None")
  case True
  then show ?thesis by (auto simp: mark_contradiction_def split: option.split)
next
  case False
  then obtain na nb where n: "a \<noteq> b" "cg_nodes g a = Some na" "cg_nodes g b = Some nb" by auto
  let ?g1 = "g\<lparr>cg_nodes := (cg_nodes g)(a \<mapsto> mark_contradicted_by n1 b na, b \<mapsto> mark_contradicted_by n2 a nb)\<rparr>"
  let ?e1 = "edge_new f1 n3 a b Contradicts (cn_scope_id na)"
  let ?e2 = "edge_new f2 n4 b a Contradicts (cn_scope_id nb)"
  obtain g2 where g2: "add_edge ?e1 ?g1 = (Inr f1, g2)"
    using add_edge_ok [of ?g1 ?e1] n by (simp add: edge_new_def)
  have n2: "cg_nodes g2 = cg_nodes ?g1" using add_edge_nodes [of ?e1 ?g1] g2 by simp
  obtain g3 where g3: "add_edge ?e2 g2 = (Inr f2, g3)"
    using add_edge_ok [of g2 ?e2] n n2 by (simp add: edge_new_def)
  have "cg_nodes g3 = cg_nodes ?g1" using add_edge_nodes [of ?e2 g2] g3 n2 by simp
  moreover have "mark_contradiction f1 f2 n1 n2 n3 n4 a b g = (Inr (f1, f2), g3)"
    using n g2 g3 by (simp add: mark_contradiction_def)
  ultimately show ?thesis using n by simp
qed

lemma remove_edge_nodes [simp]: "cg_nodes (snd (remove_edge e g)) = cg_nodes g"
  by (simp add: remove_edge_def split: option.split)

text \<open>
  Propagation is atomic and its report exact. A refused change leaves the graph as it was. An
  accepted one reports the walks of the graph before it; every node whose state is reported has that
  state, every other node keeps its state, and no node appears or disappears.
\<close>

theorem propagate_exact:
  "case propagate fresh now m event g of
     (Inl e, h) \<Rightarrow> h = g
   | (Inr u, h) \<Rightarrow>
       up_affected u = affected_subgraph_of m g event \<and>
       up_recompute u = recompute_scope g event (up_affected u) \<and>
       (\<forall>n. map_option cn_state (cg_nodes h n) =
          (case up_state_transitions u n of
             Some st \<Rightarrow> Some st
           | None \<Rightarrow> map_option cn_state (cg_nodes g n)))"
proof (cases event)
  case (NodePromoted node)
  then show ?thesis by (simp add: propagate_def Let_def mark_canonical_def split: option.split)
next
  case (NodeSuperseded p q)
  then show ?thesis
    using supersede_node_result [where f = "fresh 0" and ?n1.0 = "now 0" and ?n2.0 = "now 1" and p = p and q = q and g = g]
    by (auto simp: propagate_def Let_def mark_superseded_by_def split: prod.splits sum.splits)
next
  case (NodeContradicted a b)
  then show ?thesis
    using mark_contradiction_result [where ?f1.0 = "fresh 0" and ?f2.0 = "fresh 1" and ?n1.0 = "now 0"
        and ?n2.0 = "now 1" and ?n3.0 = "now 2" and ?n4.0 = "now 3" and a = a and b = b and g = g]
    by (auto simp: propagate_def Let_def mark_contradicted_by_def split: prod.splits sum.splits)
next
  case (EdgeAdded e)
  then show ?thesis by (simp add: propagate_def Let_def)
next
  case (EdgeRemoved e)
  obtain r h where rh: "remove_edge e g = (r, h)" by (cases "remove_edge e g")
  then have "cg_nodes h = cg_nodes g" using remove_edge_nodes [of e g] by simp
  then show ?thesis using EdgeRemoved rh by (cases r) (simp_all add: propagate_def Let_def)
qed

lemma propagate_step:
  assumes "cg_edges g (fresh 0) = None" and "cg_edges g (fresh 1) = None" and "fresh 0 \<noteq> fresh 1"
  shows "snd (propagate fresh now m event g) = g \<or> graph_step g (snd (propagate fresh now m event g))"
proof (cases event)
  case (NodePromoted node)
  then show ?thesis
    using step_update_node [of g node] by (auto simp: propagate_def Let_def mark_canonical_def split: option.split)
next
  case (NodeSuperseded p q)
  then have "snd (propagate fresh now m event g) = snd (supersede_node (fresh 0) (now 0) (now 1) p q g)"
    by (simp add: propagate_def Let_def split: prod.split sum.split)
  then show ?thesis using step_supersede [OF assms(1)] by simp
next
  case (NodeContradicted a b)
  then have "snd (propagate fresh now m event g) =
      snd (mark_contradiction (fresh 0) (fresh 1) (now 0) (now 1) (now 2) (now 3) a b g)"
    by (simp add: propagate_def Let_def split: prod.split sum.split)
  then show ?thesis using step_contradict [OF assms] by simp
next
  case (EdgeAdded e)
  then show ?thesis by (simp add: propagate_def Let_def)
next
  case (EdgeRemoved e)
  then have "snd (propagate fresh now m event g) = snd (remove_edge e g)"
    by (simp add: propagate_def Let_def split: prod.split sum.split)
  then show ?thesis using step_remove_edge by simp
qed

text \<open>Propagation with new edge ids stays within the graphs the public operations build.\<close>

lemma propagate_reachable:
  assumes "graph_reachable g" and "cg_edges g (fresh 0) = None" and "cg_edges g (fresh 1) = None"
    and "fresh 0 \<noteq> fresh 1"
  shows "graph_reachable (snd (propagate fresh now m event g))"
  using propagate_step [OF assms(2-4), of now m event] assms(1)
  unfolding graph_reachable_def by (auto intro: rtranclp.rtrancl_into_rtrancl)

section \<open>Properties of the projection\<close>

definition supersession_pair :: "memory_projection \<Rightarrow> (uuid \<times> uuid) option" where
  "supersession_pair item =
     (case mp_superseded_by item of
        Some succ \<Rightarrow> if succ \<noteq> mp_id item then Some (succ, mp_id item) else None
      | None \<Rightarrow> None)"

text \<open>
  The first pass on items with distinct ids: one node per item, and the pairs of their supersession
  pointers in order.
\<close>

lemma project_nodes_spec:
  assumes "distinct (map mp_id items)" and "set (map mp_id items) \<inter> dom (cg_nodes g) = {}"
  shows "\<exists>h ps. project_nodes items (g, pending, present) = (h, pending @ ps, present \<union> set (map mp_id items)) \<and>
     cg_nodes h = cg_nodes g ++ map_of (map (\<lambda>m. (mp_id m, into_node m)) items) \<and>
     cg_edges h = cg_edges g \<and> (graph_reachable g \<longrightarrow> graph_reachable h) \<and>
     map (\<lambda>(a, b, c). (a, b)) ps = List.map_filter supersession_pair items"
  using assms
proof (induction items arbitrary: g pending present)
  case Nil
  then show ?case by (simp add: map_filter_def)
next
  case (Cons item items)
  let ?i = "mp_id item"
  define g1 where "g1 = snd (add_node (into_node item) g)"
  have new: "cg_nodes g ?i = None" using Cons.prems(2) by auto
  then have add: "add_node (into_node item) g = (Inr ?i, g1)"
    unfolding g1_def by (simp add: add_node_def into_node_def Let_def)
  have nodes1: "cg_nodes g1 = (cg_nodes g)(?i \<mapsto> into_node item)" "cg_edges g1 = cg_edges g"
    using new unfolding g1_def by (simp_all add: add_node_def into_node_def Let_def)
  define pend where "pend = (case supersession_pair item of
      Some (a, b) \<Rightarrow> [(a, b, mp_scope_id item)] | None \<Rightarrow> [])"
  have step: "project_nodes (item # items) (g, pending, present) =
      project_nodes items (g1, pending @ pend, insert ?i present)"
    using add by (simp add: pend_def supersession_pair_def split: option.split)
  have "set (map mp_id items) \<inter> dom (cg_nodes g1) = {}" using Cons.prems nodes1 by auto
  then obtain h ps where h: "project_nodes items (g1, pending @ pend, insert ?i present) =
        (h, (pending @ pend) @ ps, insert ?i present \<union> set (map mp_id items))"
      "cg_nodes h = cg_nodes g1 ++ map_of (map (\<lambda>m. (mp_id m, into_node m)) items)"
      "cg_edges h = cg_edges g1" "graph_reachable g1 \<longrightarrow> graph_reachable h"
      "map (\<lambda>(a, b, c). (a, b)) ps = List.map_filter supersession_pair items"
    using Cons.IH [of g1 "pending @ pend" "insert ?i present"] Cons.prems(1) by auto
  have "?i \<notin> dom (map_of (map (\<lambda>m. (mp_id m, into_node m)) items))"
    using Cons.prems(1) by (auto simp: dom_map_of_conv_image_fst image_image)
  then have N: "cg_nodes h = cg_nodes g ++ map_of (map (\<lambda>m. (mp_id m, into_node m)) (item # items))"
    unfolding h(2) nodes1(1) by (auto simp: map_add_def fun_eq_iff split: option.split)
  have R: "graph_reachable g \<longrightarrow> graph_reachable h"
    using h(4) step_add_node [of g "into_node item"]
    unfolding graph_reachable_def g1_def by (auto intro: rtranclp.rtrancl_into_rtrancl)
  have P: "map (\<lambda>(a, b, c). (a, b)) (pend @ ps) = List.map_filter supersession_pair (item # items)"
    using h(5) by (auto simp: pend_def map_filter_def split: option.split prod.split)
  show ?case
    unfolding step h(1)
    by (intro exI [of _ h] exI [of _ "pend @ ps"] conjI) (simp, rule N, simp add: h(3) nodes1(2), rule R, rule P)
qed

lemma typed_edges_add:
  assumes "cg_edges g (ce_id ed) = None" and "cg_nodes g (ce_from ed) \<noteq> None" and "cg_nodes g (ce_to ed) \<noteq> None"
  shows "typed_edges (snd (add_edge ed g)) r =
    typed_edges g r \<union> (if ce_relation ed = r then {(ce_from ed, ce_to ed)} else {})"
proof -
  have edges: "cg_edges (snd (add_edge ed g)) = (cg_edges g)(ce_id ed \<mapsto> ed)"
    using assms(2,3) by (auto simp: add_edge_def Let_def)
  have "(u, v) \<in> typed_edges (snd (add_edge ed g)) r \<longleftrightarrow>
      (u, v) \<in> typed_edges g r \<or> ce_relation ed = r \<and> u = ce_from ed \<and> v = ce_to ed" for u v
    unfolding in_typed_edges edges using assms(1) by (metis fun_upd_apply option.inject option.discI)
  then show ?thesis by auto
qed

text \<open>The pairs that the second pass keeps, and the relation that the edges must have.\<close>

definition kept_pairs :: "uuid set \<Rightarrow> (uuid \<times> uuid \<times> uuid) list \<Rightarrow> (uuid \<times> uuid) list" where
  "kept_pairs present ps = filter (\<lambda>(a, b). a \<in> present \<and> b \<in> present) (map (\<lambda>(a, b, c). (a, b)) ps)"

lemma project_edges_spec:
  assumes "graph_reachable g" and "present \<subseteq> dom (cg_nodes g)"
    and "distinct (map (\<lambda>(a, b). supersedes_edge_id v5 a b) (kept_pairs present ps))"
    and "\<forall>(a, b) \<in> set (kept_pairs present ps). cg_edges g (supersedes_edge_id v5 a b) = None"
  shows "graph_reachable (project_edges v5 clock present k ps g) \<and>
    cg_nodes (project_edges v5 clock present k ps g) = cg_nodes g \<and>
    typed_edges (project_edges v5 clock present k ps g) r =
      typed_edges g r \<union> (if r = Supersedes then set (kept_pairs present ps) else {})"
  using assms
proof (induction ps arbitrary: g k)
  case Nil
  then show ?case by (simp add: kept_pairs_def)
next
  case (Cons p ps)
  obtain a b c where p: "p = (a, b, c)" by (cases p)
  show ?case
  proof (cases "a \<in> present \<and> b \<in> present")
    case False
    then have "kept_pairs present (p # ps) = kept_pairs present ps" by (auto simp: kept_pairs_def p)
    then show ?thesis using Cons.IH [of g k] Cons.prems False by (simp add: p)
  next
    case True
    then have kp: "kept_pairs present (p # ps) = (a, b) # kept_pairs present ps" by (simp add: kept_pairs_def p)
    define ed where "ed = (edge_new 0 (clock k) a b Supersedes c)\<lparr>ce_id := supersedes_edge_id v5 a b\<rparr>"
    have ed: "ce_id ed = supersedes_edge_id v5 a b" "ce_from ed = a" "ce_to ed = b" "ce_relation ed = Supersedes"
      by (simp_all add: ed_def edge_new_def)
    have fresh: "cg_edges g (ce_id ed) = None" using Cons.prems(4) unfolding kp ed by simp
    have ends: "cg_nodes g (ce_from ed) \<noteq> None" "cg_nodes g (ce_to ed) \<noteq> None"
      using True Cons.prems(2) unfolding ed by auto
    let ?g1 = "snd (add_edge ed g)"
    have "graph_step g ?g1" by (rule step_add_edge [OF fresh])
    then have "graph_reachable ?g1"
      using Cons.prems(1) unfolding graph_reachable_def by (rule rtranclp.rtrancl_into_rtrancl [rotated])
    moreover have "cg_edges ?g1 = (cg_edges g)(ce_id ed \<mapsto> ed)"
      using ends by (auto simp: add_edge_def Let_def)
    then have "cg_edges ?g1 (supersedes_edge_id v5 x y) = None" if "(x, y) \<in> set (kept_pairs present ps)" for x y
    proof -
      have "supersedes_edge_id v5 x y \<in> set (map (\<lambda>(a, b). supersedes_edge_id v5 a b) (kept_pairs present ps))"
        using that by force
      then have "supersedes_edge_id v5 x y \<noteq> ce_id ed"
        using Cons.prems(3) unfolding kp ed(1) by auto
      moreover have "cg_edges g (supersedes_edge_id v5 x y) = None"
        using bspec [OF Cons.prems(4), of "(x, y)"] that unfolding kp by simp
      ultimately show ?thesis
        using \<open>cg_edges ?g1 = (cg_edges g)(ce_id ed \<mapsto> ed)\<close> by simp
    qed
    then have "\<forall>(a, b) \<in> set (kept_pairs present ps). cg_edges ?g1 (supersedes_edge_id v5 a b) = None"
      by blast
    moreover have "distinct (map (\<lambda>(a, b). supersedes_edge_id v5 a b) (kept_pairs present ps))"
      using Cons.prems(3) unfolding kp by simp
    ultimately have "graph_reachable (project_edges v5 clock present (Suc k) ps ?g1) \<and>
        cg_nodes (project_edges v5 clock present (Suc k) ps ?g1) = cg_nodes ?g1 \<and>
        typed_edges (project_edges v5 clock present (Suc k) ps ?g1) r =
          typed_edges ?g1 r \<union> (if r = Supersedes then set (kept_pairs present ps) else {})"
      using Cons.prems(2) by (intro Cons.IH) simp_all
    moreover have "project_edges v5 clock present k (p # ps) g = project_edges v5 clock present (Suc k) ps ?g1"
      using True by (simp add: p ed_def)
    moreover have "typed_edges ?g1 r = typed_edges g r \<union> (if r = Supersedes then {(a, b)} else {})"
      using typed_edges_add [OF fresh ends, of r] unfolding ed by (auto split: if_splits)
    ultimately show ?thesis unfolding kp by (cases "r = Supersedes") simp_all
  qed
qed

text \<open>
  The projection of memory is exact. For observations with distinct ids whose name-based edge ids do
  not collide, the projected graph has referential integrity, has exactly one node per observation,
  and has exactly one kind of edge: \<open>successor supersedes predecessor\<close> for every supersession pointer
  to another observation of the set.
\<close>

definition present_pairs :: "memory_projection list \<Rightarrow> (uuid \<times> uuid) list" where
  "present_pairs items =
     filter (\<lambda>(a, b). a \<in> set (map mp_id items) \<and> b \<in> set (map mp_id items)) (List.map_filter supersession_pair items)"

theorem projection_exact:
  assumes "distinct (map mp_id items)"
    and "distinct (map (\<lambda>(a, b). supersedes_edge_id v5 a b) (present_pairs items))"
  shows "let g = project_memory_graph v5 clock items in
    graph_reachable g \<and>
    cg_nodes g = map_of (map (\<lambda>m. (mp_id m, into_node m)) items) \<and>
    typed_edges g r = (if r = Supersedes then set (present_pairs items) else {})"
proof -
  obtain h ps where h: "project_nodes items (graph_new, [], {}) = (h, ps, set (map mp_id items))"
      "cg_nodes h = map_of (map (\<lambda>m. (mp_id m, into_node m)) items)" "cg_edges h = cg_edges graph_new"
      "graph_reachable graph_new \<longrightarrow> graph_reachable h"
      "map (\<lambda>(a, b, c). (a, b)) ps = List.map_filter supersession_pair items"
    using project_nodes_spec [of items graph_new "[]" "{}"] assms(1) by (auto simp: graph_new_def)
  have kp: "kept_pairs (set (map mp_id items)) ps = present_pairs items"
    unfolding kept_pairs_def present_pairs_def h(5) ..
  have none: "cg_edges h e = None" for e unfolding h(3) by (simp add: graph_new_def)
  have reach: "graph_reachable h" using h(4) by (simp add: graph_reachable_def)
  have dom: "set (map mp_id items) \<subseteq> dom (cg_nodes h)"
    unfolding h(2) by (auto simp: dom_map_of_conv_image_fst image_image)
  have "typed_edges h r = {}" unfolding typed_edges_def none by simp
  then show ?thesis
    using project_edges_spec [OF reach dom, of v5 ps clock 0 r] assms(2) none
    unfolding project_memory_graph_def h(1) prod.case Let_def kp h(2) by (auto split: prod.split)
qed

theorem projection_exact_witness:
  "let item = (\<lambda>i s. \<lparr>mp_id = i, mp_scope_id = 9, mp_label = ''l'', mp_definition = ''d'', mp_state = NCanonical,
         mp_superseded_by = s, mp_created_at = 0, mp_updated_at = 0, mp_metadata = JNull\<rparr>)
   in typed_edges (project_memory_graph (\<lambda>n b. of_nat (length b)) (\<lambda>_. 0) [item 1 (Some 2), item 2 None]) Supersedes
        = {(2, 1)}"
proof -
  define item where "item = (\<lambda>i s. \<lparr>mp_id = i, mp_scope_id = 9, mp_label = ''l'', mp_definition = ''d'',
      mp_state = NCanonical, mp_superseded_by = s, mp_created_at = 0, mp_updated_at = 0, mp_metadata = JNull\<rparr>)"
  let ?items = "[item 1 (Some 2), item 2 None]"
  have pp: "present_pairs ?items = [(2, 1)]"
    by (simp add: present_pairs_def map_filter_def supersession_pair_def item_def)
  have d: "distinct (map mp_id ?items)" by (simp add: item_def)
  show ?thesis
    using projection_exact [OF d, of "\<lambda>n b. of_nat (length b)" "\<lambda>_. 0" Supersedes]
    unfolding pp Let_def item_def [symmetric] by simp
qed

text \<open>
  Adversarial input: of two observations with one id only the first becomes a node, but the
  supersession pointer of the second still becomes an edge, so the graph claims a supersession that
  its node does not record.
\<close>

theorem duplicate_observation_leaks_edge:
  "let item = (\<lambda>i s. \<lparr>mp_id = i, mp_scope_id = 9, mp_label = ''l'', mp_definition = ''d'', mp_state = NCanonical,
         mp_superseded_by = s, mp_created_at = 0, mp_updated_at = 0, mp_metadata = JNull\<rparr>);
       g = project_memory_graph (\<lambda>n b. 77) (\<lambda>_. 0) [item 1 None, item 2 None, item 1 (Some 2)]
   in map_option cn_superseded_by (get_node g 1) = Some None \<and>
      map_option (\<lambda>ed. (ce_from ed, ce_to ed)) (cg_edges g 77) = Some (2, 1)"
  by (simp add: project_memory_graph_def add_node_def into_node_def graph_new_def add_edge_def edge_new_def
      supersedes_edge_id_def get_node_def Let_def)

end
