(* ===== verification/Export_Policy.thy ===== *)
theory Export_Policy
  imports Memory_Object
begin

text \<open>
  Export profiles and the export policy engine (\<^verbatim>\<open>export_plane/src\<close>: \<^verbatim>\<open>profile.rs\<close>, \<^verbatim>\<open>policy.rs\<close>, and
  the provenance data of \<^verbatim>\<open>crypto/src/provenance.rs\<close> they carry). A \<^verbatim>\<open>std::time::Duration\<close> is a
  natural number of nanoseconds. The clock and fresh ids are arguments. The engine is shown equal
  to a declarative rule set, and the folding of profile constraints to a conjunction of rules.
\<close>

section \<open>Provenance\<close>

datatype agent_kind = AgentHuman | AgentSoftware

fun agent_kind_as_str :: "agent_kind \<Rightarrow> string" where
  "agent_kind_as_str AgentHuman = ''human''"
| "agent_kind_as_str AgentSoftware = ''software''"

record synthesis_activity =
  sa_agent_identity :: string
  sa_model_version :: string
  sa_prompt_id :: string
  sa_run_id :: uuid

definition activity_new :: "string \<Rightarrow> string \<Rightarrow> string \<Rightarrow> uuid \<Rightarrow> synthesis_activity" where
  "activity_new identity version prompt run = \<lparr>sa_agent_identity = identity,
     sa_model_version = version, sa_prompt_id = prompt, sa_run_id = run\<rparr>"

record provenance_agent =
  pa_kind :: agent_kind
  pa_identity :: string

definition agent_human :: "string \<Rightarrow> provenance_agent" where
  "agent_human identity = \<lparr>pa_kind = AgentHuman, pa_identity = identity\<rparr>"

definition agent_software :: "string \<Rightarrow> provenance_agent" where
  "agent_software identity = \<lparr>pa_kind = AgentSoftware, pa_identity = identity\<rparr>"

type_synonym evidence_ref = uuid

record provenance_bundle =
  pb_entity_id :: uuid
  pb_activity :: synthesis_activity
  pb_agent :: provenance_agent
  pb_derivations :: "evidence_ref list"
  pb_created_at :: instant

definition bundle_new ::
  "instant \<Rightarrow> uuid \<Rightarrow> synthesis_activity \<Rightarrow> provenance_agent \<Rightarrow> evidence_ref list \<Rightarrow> provenance_bundle"
where
  "bundle_new now entity activity agent derivations = \<lparr>pb_entity_id = entity,
     pb_activity = activity, pb_agent = agent, pb_derivations = derivations, pb_created_at = now\<rparr>"

section \<open>Profiles and views\<close>

type_synonym std_duration = nat

record approved_concept =
  ac_concept_id :: uuid
  ac_label :: string
  ac_definition :: string
  ac_scope_id :: uuid
  ac_provenance :: provenance_bundle
  ac_sensitivity :: sensitivity_class
  ac_approved_at :: instant
  ac_expires_at :: "instant option"

definition approved_new ::
  "instant \<Rightarrow> uuid \<Rightarrow> string \<Rightarrow> string \<Rightarrow> uuid \<Rightarrow> provenance_bundle \<Rightarrow> sensitivity_class
   \<Rightarrow> approved_concept"
where
  "approved_new now concept label definition1 scope provenance sensitivity =
     \<lparr>ac_concept_id = concept, ac_label = label, ac_definition = definition1, ac_scope_id = scope,
      ac_provenance = provenance, ac_sensitivity = sensitivity, ac_approved_at = now,
      ac_expires_at = None\<rparr>"

definition approved_with_expiry :: "instant \<Rightarrow> approved_concept \<Rightarrow> approved_concept" where
  "approved_with_expiry t c = c\<lparr>ac_expires_at := Some t\<rparr>"

definition approved_is_expired :: "instant \<Rightarrow> approved_concept \<Rightarrow> bool" where
  "approved_is_expired now c = (case ac_expires_at c of None \<Rightarrow> False | Some t \<Rightarrow> t \<le> now)"

record reasoning_ref =
  rr_trace_id :: uuid
  rr_tag :: string

definition reasoning_ref_new :: "uuid \<Rightarrow> string \<Rightarrow> reasoning_ref" where
  "reasoning_ref_new trace tag = \<lparr>rr_trace_id = trace, rr_tag = tag\<rparr>"

datatype export_constraint =
  MaxConcepts nat | MaxAge std_duration | ScopeRestriction "uuid list"
| SensitivityCeiling sensitivity_class

record concept_profile =
  cp_id :: uuid
  cp_name :: string
  cp_description :: string
  cp_target_tool :: string
  cp_concepts :: "approved_concept list"
  cp_constraints :: "export_constraint list"
  cp_traces :: "reasoning_ref list"
  cp_created_at :: instant
  cp_expires_at :: "instant option"
  cp_scope_id :: uuid

definition profile_new ::
  "uuid \<Rightarrow> instant \<Rightarrow> string \<Rightarrow> string \<Rightarrow> string \<Rightarrow> uuid \<Rightarrow> concept_profile"
where
  "profile_new fresh now name description tool scope = \<lparr>cp_id = fresh, cp_name = name,
     cp_description = description, cp_target_tool = tool, cp_concepts = [], cp_constraints = [],
     cp_traces = [], cp_created_at = now, cp_expires_at = None, cp_scope_id = scope\<rparr>"

definition profile_with_expiry :: "instant \<Rightarrow> concept_profile \<Rightarrow> concept_profile" where
  "profile_with_expiry t p = p\<lparr>cp_expires_at := Some t\<rparr>"

definition push_concept :: "approved_concept \<Rightarrow> concept_profile \<Rightarrow> concept_profile" where
  "push_concept c p = p\<lparr>cp_concepts := cp_concepts p @ [c]\<rparr>"

definition push_constraint :: "export_constraint \<Rightarrow> concept_profile \<Rightarrow> concept_profile" where
  "push_constraint k p = p\<lparr>cp_constraints := cp_constraints p @ [k]\<rparr>"

definition push_trace :: "reasoning_ref \<Rightarrow> concept_profile \<Rightarrow> concept_profile" where
  "push_trace t p = p\<lparr>cp_traces := cp_traces p @ [t]\<rparr>"

definition profile_is_expired :: "instant \<Rightarrow> concept_profile \<Rightarrow> bool" where
  "profile_is_expired now p = (case cp_expires_at p of None \<Rightarrow> False | Some t \<Rightarrow> t \<le> now)"

record evidence_pack =
  ep_evidence_refs :: "evidence_ref list"
  ep_concept_ids :: "uuid list"

definition evidence_pack_new :: evidence_pack where
  "evidence_pack_new = \<lparr>ep_evidence_refs = [], ep_concept_ids = []\<rparr>"

record approved_summary =
  as_summary_id :: uuid
  as_scope_id :: uuid
  as_body :: string

datatype export_view_content =
  ConceptsOnly "approved_concept list"
| WithSummaries "approved_concept list" "approved_summary list"
| WithEvidencePack "approved_concept list" "approved_summary list" evidence_pack

fun content_concepts :: "export_view_content \<Rightarrow> approved_concept list" where
  "content_concepts (ConceptsOnly cs) = cs"
| "content_concepts (WithSummaries cs _) = cs"
| "content_concepts (WithEvidencePack cs _ _) = cs"

fun content_summaries :: "export_view_content \<Rightarrow> approved_summary list" where
  "content_summaries (ConceptsOnly _) = []"
| "content_summaries (WithSummaries _ ss) = ss"
| "content_summaries (WithEvidencePack _ ss _) = ss"

fun content_evidence_pack :: "export_view_content \<Rightarrow> evidence_pack option" where
  "content_evidence_pack (WithEvidencePack _ _ e) = Some e"
| "content_evidence_pack _ = None"

record export_view =
  ev_id :: uuid
  ev_profile_id :: uuid
  ev_rendered_at :: instant
  ev_content :: export_view_content
  ev_scope_id :: uuid

definition export_view_new ::
  "uuid \<Rightarrow> instant \<Rightarrow> uuid \<Rightarrow> uuid \<Rightarrow> export_view_content \<Rightarrow> export_view"
where
  "export_view_new fresh now profile scope content = \<lparr>ev_id = fresh, ev_profile_id = profile,
     ev_rendered_at = now, ev_content = content, ev_scope_id = scope\<rparr>"

section \<open>The policy\<close>

datatype export_rejection_reason =
  SensitivityExceeded sensitivity_class sensitivity_class | ScopeNotWhitelisted uuid
| MissingProvenance | ExportExpired | OutsideTimeWindow | MaxConceptsReached

record export_rejection =
  er_concept_id :: uuid
  er_reason :: export_rejection_reason

record export_decision =
  ed_approved :: "approved_concept list"
  ed_rejected :: "export_rejection list"
  ed_warnings :: "string list"
  ed_allow_raw_evidence :: bool

record export_policy =
  xp_allow_raw_evidence :: bool
  xp_max_concepts :: nat
  xp_max_summaries :: nat
  xp_sensitivity_ceiling :: sensitivity_class
  xp_scope_whitelist :: "uuid list option"
  xp_time_window :: "std_duration option"
  xp_require_provenance :: bool

definition export_policy_default :: export_policy where
  "export_policy_default = \<lparr>xp_allow_raw_evidence = False, xp_max_concepts = 100,
     xp_max_summaries = 25, xp_sensitivity_ceiling = Useful, xp_scope_whitelist = None,
     xp_time_window = None, xp_require_provenance = True\<rparr>"

definition export_policy_permissive :: "sensitivity_class \<Rightarrow> export_policy" where
  "export_policy_permissive ceiling = \<lparr>xp_allow_raw_evidence = False, xp_max_concepts = u64_max,
     xp_max_summaries = u64_max, xp_sensitivity_ceiling = ceiling, xp_scope_whitelist = None,
     xp_time_window = None, xp_require_provenance = True\<rparr>"

fun export_rank :: "sensitivity_class \<Rightarrow> nat" where
  "export_rank Noise = 0"
| "export_rank Useful = 1"
| "export_rank Important = 2"
| "export_rank Critical = 3"

fun with_constraint :: "export_constraint \<Rightarrow> export_policy \<Rightarrow> export_policy" where
  "with_constraint (MaxConcepts n) p = p\<lparr>xp_max_concepts := min (xp_max_concepts p) n\<rparr>"
| "with_constraint (MaxAge d) p = p\<lparr>xp_time_window :=
     Some (case xp_time_window p of Some existing \<Rightarrow> min existing d | None \<Rightarrow> d)\<rparr>"
| "with_constraint (ScopeRestriction scopes) p = p\<lparr>xp_scope_whitelist :=
     Some (case xp_scope_whitelist p of Some existing \<Rightarrow> filter (\<lambda>s. s \<in> set scopes) existing
           | None \<Rightarrow> scopes)\<rparr>"
| "with_constraint (SensitivityCeiling c) p =
     (if export_rank c < export_rank (xp_sensitivity_ceiling p)
      then p\<lparr>xp_sensitivity_ceiling := c\<rparr> else p)"

definition with_constraints :: "export_constraint list \<Rightarrow> export_policy \<Rightarrow> export_policy" where
  "with_constraints ks p = fold with_constraint ks p"

datatype export_view_request =
  RequestConceptsOnly
| RequestWithSummaries "approved_summary list"
| RequestWithEvidencePack "approved_summary list" evidence_pack

datatype export_view_error = RawEvidenceNotAuthorised

definition from_decision ::
  "uuid \<Rightarrow> instant \<Rightarrow> export_decision \<Rightarrow> uuid \<Rightarrow> uuid \<Rightarrow> export_view_request
   \<Rightarrow> export_view_error + export_view"
where
  "from_decision fresh now d profile scope request =
     (let concepts = ed_approved d in
      case request of
        RequestConceptsOnly \<Rightarrow> Inr (export_view_new fresh now profile scope (ConceptsOnly concepts))
      | RequestWithSummaries ss \<Rightarrow>
          Inr (export_view_new fresh now profile scope (WithSummaries concepts ss))
      | RequestWithEvidencePack ss e \<Rightarrow>
          if \<not> ed_allow_raw_evidence d then Inl RawEvidenceNotAuthorised
          else Inr (export_view_new fresh now profile scope (WithEvidencePack concepts ss e)))"

section \<open>The engine\<close>

definition is_provenance_populated :: "provenance_bundle \<Rightarrow> bool" where
  "is_provenance_populated b \<longleftrightarrow> pb_entity_id b \<noteq> 0 \<and> sa_agent_identity (pb_activity b) \<noteq> [] \<and>
     sa_model_version (pb_activity b) \<noteq> []"

text \<open>\<^verbatim>\<open>to_std\<close> fails on a negative duration: an approval from the future is in the window.\<close>

definition approved_within :: "instant \<Rightarrow> std_duration \<Rightarrow> instant \<Rightarrow> bool" where
  "approved_within approved_at window now =
     (let elapsed = now - approved_at in if elapsed < 0 then True else nat elapsed \<le> window)"

text \<open>The checks of one turn of the loop, in order, given how many concepts were approved so far.\<close>

definition check_candidate ::
  "export_policy \<Rightarrow> instant \<Rightarrow> nat \<Rightarrow> approved_concept \<Rightarrow> export_rejection_reason option"
where
  "check_candidate p now n c =
     (if approved_is_expired now c then Some ExportExpired
      else if export_rank (ac_sensitivity c) > export_rank (xp_sensitivity_ceiling p)
      then Some (SensitivityExceeded (ac_sensitivity c) (xp_sensitivity_ceiling p))
      else if (case xp_scope_whitelist p of Some w \<Rightarrow> ac_scope_id c \<notin> set w | None \<Rightarrow> False)
      then Some (ScopeNotWhitelisted (ac_scope_id c))
      else if xp_require_provenance p \<and> \<not> is_provenance_populated (ac_provenance c)
      then Some MissingProvenance
      else if (case xp_time_window p of
                 Some w \<Rightarrow> \<not> approved_within (ac_approved_at c) w now | None \<Rightarrow> False)
      then Some OutsideTimeWindow
      else if n \<ge> xp_max_concepts p then Some MaxConceptsReached
      else None)"

fun export_evaluate_loop ::
  "export_policy \<Rightarrow> instant \<Rightarrow> approved_concept list \<Rightarrow> approved_concept list
   \<Rightarrow> export_rejection list \<Rightarrow> approved_concept list \<times> export_rejection list"
where
  "export_evaluate_loop p now [] approved rejected = (approved, rejected)"
| "export_evaluate_loop p now (c # cs) approved rejected =
     (case check_candidate p now (length approved) c of
        Some r \<Rightarrow> export_evaluate_loop p now cs approved
                    (rejected @ [\<lparr>er_concept_id = ac_concept_id c, er_reason = r\<rparr>])
      | None \<Rightarrow> export_evaluate_loop p now cs (approved @ [c]) rejected)"

definition suppressed_warning :: string where
  "suppressed_warning = ''raw evidence requested but suppressed because the approved set '' @
     ''contains a Critical concept''"

definition export_evaluate ::
  "instant \<Rightarrow> export_policy \<Rightarrow> approved_concept list \<Rightarrow> export_decision"
where
  "export_evaluate now p candidates =
     (let (approved, rejected) = export_evaluate_loop p now candidates [] [];
          any_critical = list_ex (\<lambda>c. ac_sensitivity c = Critical) approved
      in \<lparr>ed_approved = approved, ed_rejected = rejected,
          ed_warnings = (if xp_allow_raw_evidence p \<and> any_critical then [suppressed_warning] else []),
          ed_allow_raw_evidence = (xp_allow_raw_evidence p \<and> \<not> any_critical)\<rparr>)"

section \<open>The rules, declaratively\<close>

text \<open>What the policy documents: five independent rules on a concept, and the cap on their number.\<close>

definition admissible :: "export_policy \<Rightarrow> instant \<Rightarrow> approved_concept \<Rightarrow> bool" where
  "admissible p now c \<longleftrightarrow>
     (\<forall>t. ac_expires_at c = Some t \<longrightarrow> now < t) \<and>
     export_rank (ac_sensitivity c) \<le> export_rank (xp_sensitivity_ceiling p) \<and>
     (\<forall>w. xp_scope_whitelist p = Some w \<longrightarrow> ac_scope_id c \<in> set w) \<and>
     (xp_require_provenance p \<longrightarrow> is_provenance_populated (ac_provenance c)) \<and>
     (\<forall>w. xp_time_window p = Some w \<longrightarrow> now - ac_approved_at c \<le> int w)"

fun satisfies_constraint :: "instant \<Rightarrow> approved_concept \<Rightarrow> export_constraint \<Rightarrow> bool" where
  "satisfies_constraint now c (MaxConcepts _) = True"
| "satisfies_constraint now c (MaxAge d) = (now - ac_approved_at c \<le> int d)"
| "satisfies_constraint now c (ScopeRestriction scopes) = (ac_scope_id c \<in> set scopes)"
| "satisfies_constraint now c (SensitivityCeiling k) = (export_rank (ac_sensitivity c) \<le> export_rank k)"

definition rejection_of :: "approved_concept \<Rightarrow> export_rejection_reason \<Rightarrow> export_rejection" where
  "rejection_of c r = \<lparr>er_concept_id = ac_concept_id c, er_reason = r\<rparr>"

lemma approved_within_iff [simp]:
  "approved_within approved_at w now \<longleftrightarrow> now - approved_at \<le> int w"
  by (auto simp: approved_within_def Let_def)

lemma check_candidate_None_iff:
  "check_candidate p now n c = None \<longleftrightarrow> admissible p now c \<and> n < xp_max_concepts p"
  by (auto simp: check_candidate_def admissible_def approved_is_expired_def split: option.splits)

lemma check_candidate_cap_iff:
  "check_candidate p now n c = Some MaxConceptsReached
     \<longleftrightarrow> admissible p now c \<and> xp_max_concepts p \<le> n"
  by (auto simp: check_candidate_def admissible_def approved_is_expired_def split: option.splits)

text \<open>Below the cap the verdict on a concept does not depend on the concepts before it.\<close>

lemma check_candidate_inadmissible:
  "\<not> admissible p now c \<Longrightarrow> \<exists>r. check_candidate p now n c = Some r \<and> r \<noteq> MaxConceptsReached \<and>
     check_candidate p now 0 c = Some r"
  by (auto simp: check_candidate_def admissible_def approved_is_expired_def split: option.splits)

lemma evaluate_loop_approved:
  "fst (export_evaluate_loop p now cs approved rejected) =
     approved @ take (xp_max_concepts p - length approved) (filter (admissible p now) cs)"
proof (induction cs arbitrary: approved rejected)
  case (Cons c cs)
  show ?case
  proof (cases "check_candidate p now (length approved) c")
    case None
    then have "admissible p now c" "length approved < xp_max_concepts p"
      by (simp_all add: check_candidate_None_iff)
    then show ?thesis using None Cons by (simp add: take_Cons' diff_Suc_less)
  next
    case (Some r)
    then have "\<not> (admissible p now c \<and> length approved < xp_max_concepts p)"
      by (metis check_candidate_None_iff option.distinct(1))
    then show ?thesis using Some Cons by (auto simp: take_Cons')
  qed
qed simp

lemma evaluate_loop_violations:
  "filter (\<lambda>r. er_reason r \<noteq> MaxConceptsReached) (snd (export_evaluate_loop p now cs approved rejected)) =
     filter (\<lambda>r. er_reason r \<noteq> MaxConceptsReached) rejected @
     map (\<lambda>c. rejection_of c (the (check_candidate p now 0 c))) (filter (\<lambda>c. \<not> admissible p now c) cs)"
proof (induction cs arbitrary: approved rejected)
  case (Cons c cs)
  show ?case
  proof (cases "admissible p now c")
    case True
    then consider "check_candidate p now (length approved) c = None"
      | "check_candidate p now (length approved) c = Some MaxConceptsReached"
      by (metis check_candidate_None_iff check_candidate_cap_iff not_le_imp_less)
    then show ?thesis using True Cons by cases simp_all
  next
    case False
    then obtain r where "check_candidate p now (length approved) c = Some r"
      "r \<noteq> MaxConceptsReached" "check_candidate p now 0 c = Some r"
      using check_candidate_inadmissible by blast
    then show ?thesis using False Cons by (simp add: rejection_of_def)
  qed
qed simp

lemma evaluate_loop_capped:
  "filter (\<lambda>r. er_reason r = MaxConceptsReached) (snd (export_evaluate_loop p now cs approved rejected)) =
     filter (\<lambda>r. er_reason r = MaxConceptsReached) rejected @
     map (\<lambda>c. rejection_of c MaxConceptsReached)
       (drop (xp_max_concepts p - length approved) (filter (admissible p now) cs))"
proof (induction cs arbitrary: approved rejected)
  case (Cons c cs)
  show ?case
  proof (cases "admissible p now c")
    case True
    then consider (ok) "check_candidate p now (length approved) c = None" "length approved < xp_max_concepts p"
      | (cap) "check_candidate p now (length approved) c = Some MaxConceptsReached" "xp_max_concepts p \<le> length approved"
      by (metis check_candidate_None_iff check_candidate_cap_iff not_le_imp_less)
    then show ?thesis using True Cons by cases (simp_all add: rejection_of_def drop_Cons')
  next
    case False
    then obtain r where "check_candidate p now (length approved) c = Some r" "r \<noteq> MaxConceptsReached"
      using check_candidate_inadmissible by blast
    then show ?thesis using False Cons by simp
  qed
qed simp

lemma evaluate_approved [simp]:
  "ed_approved (export_evaluate now p cs) = take (xp_max_concepts p) (filter (admissible p now) cs)"
  using evaluate_loop_approved [of p now cs "[]" "[]"]
  by (simp add: export_evaluate_def split_beta Let_def)

lemma evaluate_rejected_violations:
  "filter (\<lambda>r. er_reason r \<noteq> MaxConceptsReached) (ed_rejected (export_evaluate now p cs)) =
     map (\<lambda>c. rejection_of c (the (check_candidate p now 0 c))) (filter (\<lambda>c. \<not> admissible p now c) cs)"
  using evaluate_loop_violations [of p now cs "[]" "[]"]
  by (simp add: export_evaluate_def split_beta Let_def)

lemma evaluate_rejected_capped:
  "filter (\<lambda>r. er_reason r = MaxConceptsReached) (ed_rejected (export_evaluate now p cs)) =
     map (\<lambda>c. rejection_of c MaxConceptsReached)
       (drop (xp_max_concepts p) (filter (admissible p now) cs))"
  using evaluate_loop_capped [of p now cs "[]" "[]"]
  by (simp add: export_evaluate_def split_beta Let_def)

lemma evaluate_raw_evidence [simp]:
  "ed_allow_raw_evidence (export_evaluate now p cs) \<longleftrightarrow> xp_allow_raw_evidence p \<and>
     list_all (\<lambda>c. ac_sensitivity c \<noteq> Critical)
       (take (xp_max_concepts p) (filter (admissible p now) cs))"
  using evaluate_loop_approved [of p now cs "[]" "[]"]
  by (auto simp: export_evaluate_def split_beta Let_def list_ex_iff list_all_iff)

text \<open>Folding a constraint conjoins its rule and lowers the cap.\<close>

fun constraint_cap :: "export_constraint \<Rightarrow> nat \<Rightarrow> nat" where
  "constraint_cap (MaxConcepts n) m = min m n"
| "constraint_cap _ m = m"

lemma admissible_with_constraint:
  "admissible (with_constraint k p) now c \<longleftrightarrow> admissible p now c \<and> satisfies_constraint now c k"
  by (cases k) (auto simp: admissible_def split: option.splits)

lemma with_constraint_kept [simp]:
  "xp_max_concepts (with_constraint k p) = constraint_cap k (xp_max_concepts p)"
  "xp_max_summaries (with_constraint k p) = xp_max_summaries p"
  "xp_allow_raw_evidence (with_constraint k p) = xp_allow_raw_evidence p"
  "xp_require_provenance (with_constraint k p) = xp_require_provenance p"
  by (cases k; simp)+

lemma constraint_cap_le: "constraint_cap k m \<le> m"
  by (cases k) simp_all

lemma fold_constraint_cap_le: "fold constraint_cap ks m \<le> m"
  by (induction ks arbitrary: m) (auto intro: order_trans [OF _ constraint_cap_le])

lemma admissible_with_constraints:
  "admissible (with_constraints ks p) now c
     \<longleftrightarrow> admissible p now c \<and> list_all (satisfies_constraint now c) ks"
  by (induction ks arbitrary: p) (auto simp: with_constraints_def admissible_with_constraint)

lemma with_constraints_kept [simp]:
  "xp_max_concepts (with_constraints ks p) = fold constraint_cap ks (xp_max_concepts p)"
  "xp_max_summaries (with_constraints ks p) = xp_max_summaries p"
  "xp_allow_raw_evidence (with_constraints ks p) = xp_allow_raw_evidence p"
  "xp_require_provenance (with_constraints ks p) = xp_require_provenance p"
  by (induction ks arbitrary: p) (simp_all add: with_constraints_def)

section \<open>Properties\<close>


text \<open>
  Profile constraints only tighten the policy: a concept is admissible under the folded policy
  exactly when it is admissible under the bare one and satisfies every constraint, the cap only
  sinks, and no constraint switches raw evidence, provenance or the summary cap.
\<close>

theorem constraints_conjoin:
  "(admissible (with_constraints ks p) now c
      \<longleftrightarrow> admissible p now c \<and> list_all (satisfies_constraint now c) ks) \<and>
   xp_max_concepts (with_constraints ks p) = fold constraint_cap ks (xp_max_concepts p) \<and>
   xp_max_concepts (with_constraints ks p) \<le> xp_max_concepts p \<and>
   xp_max_summaries (with_constraints ks p) = xp_max_summaries p \<and>
   xp_allow_raw_evidence (with_constraints ks p) = xp_allow_raw_evidence p \<and>
   xp_require_provenance (with_constraints ks p) = xp_require_provenance p"
  by (simp add: admissible_with_constraints fold_constraint_cap_le)

text \<open>
  Every view minted from a decision of the engine shows admissible concepts only, at most as many
  as the policy allows, and carries an evidence pack only if the policy opted in and no concept of
  the view is critical; a request for evidence fails exactly when that is not the case.
\<close>

theorem rendered_views_obey_policy:
  assumes "from_decision fresh now' (export_evaluate now p cs) profile scope request = Inr v"
  shows "content_concepts (ev_content v) = ed_approved (export_evaluate now p cs) \<and>
     list_all (admissible p now) (content_concepts (ev_content v)) \<and>
     length (content_concepts (ev_content v)) \<le> xp_max_concepts p \<and>
     (content_evidence_pack (ev_content v) \<noteq> None \<longrightarrow> xp_allow_raw_evidence p \<and>
        list_all (\<lambda>c. ac_sensitivity c \<noteq> Critical) (content_concepts (ev_content v)))"
proof -
  have "list_all (admissible p now) (take (xp_max_concepts p) (filter (admissible p now) cs))"
    by (auto simp: list_all_iff dest: in_set_takeD)
  then show ?thesis using assms
    by (cases request) (auto simp: from_decision_def Let_def export_view_new_def split: if_splits)
qed

text \<open>Sample concepts, for evaluation.\<close>

definition sample_concept :: "uuid \<Rightarrow> uuid \<Rightarrow> sensitivity_class \<Rightarrow> approved_concept" where
  "sample_concept i scope k = approved_new 0 i ''label'' ''definition'' scope
     (bundle_new 0 i (activity_new ''agent'' ''model'' ''prompt'' 7) (agent_software ''agent'') []) k"

lemma sample_concept_sel [simp]:
  "ac_concept_id (sample_concept i s k) = i" "ac_scope_id (sample_concept i s k) = s"
  "ac_sensitivity (sample_concept i s k) = k" "ac_approved_at (sample_concept i s k) = 0"
  "ac_expires_at (sample_concept i s k) = None"
  "is_provenance_populated (ac_provenance (sample_concept i s k)) \<longleftrightarrow> i \<noteq> 0"
  by (simp_all add: sample_concept_def approved_new_def bundle_new_def activity_new_def
      is_provenance_populated_def)

lemmas export_sample_defs = admissible_def export_policy_default_def check_candidate_def
  approved_is_expired_def from_decision_def rejection_of_def

theorem rendered_views_obey_policy_witness:
  "let p = export_policy_default\<lparr>xp_allow_raw_evidence := True\<rparr>;
       cs = [sample_concept 1 5 Useful, sample_concept 2 5 Critical] in
   \<exists>v. from_decision 9 1 (export_evaluate 0 p cs) 8 5 (RequestWithEvidencePack [] evidence_pack_new) = Inr v \<and>
     content_evidence_pack (ev_content v) \<noteq> None \<and>
     content_concepts (ev_content v) = [sample_concept 1 5 Useful] \<and>
     list_all (\<lambda>c. ac_sensitivity c \<noteq> Critical) (content_concepts (ev_content v))"
proof -
  let ?p = "export_policy_default\<lparr>xp_allow_raw_evidence := True\<rparr>"
  let ?cs = "[sample_concept 1 5 Useful, sample_concept 2 5 Critical]"
  let ?v = "export_view_new 9 1 8 5 (WithEvidencePack [sample_concept 1 5 Useful] [] evidence_pack_new)"
  have v: "from_decision 9 1 (export_evaluate 0 ?p ?cs) 8 5
      (RequestWithEvidencePack [] evidence_pack_new) = Inr ?v"
    by (simp add: export_sample_defs Let_def)
  note ok = rendered_views_obey_policy [OF v]
  have c: "content_evidence_pack (ev_content ?v) \<noteq> None \<and>
      content_concepts (ev_content ?v) = [sample_concept 1 5 Useful]"
    by (simp add: export_view_new_def)
  show ?thesis unfolding Let_def using v c ok by blast
qed

text \<open>
  Tightening a policy can still let a concept out that the bare policy keeps back: under a cap of
  one, a scope restriction that removes the first concept admits the second.
\<close>

theorem constraint_can_admit:
  "let p = export_policy_default\<lparr>xp_max_concepts := 1\<rparr>;
       a = sample_concept 1 5 Useful; b = sample_concept 2 6 Useful in
   ed_approved (export_evaluate 0 p [a, b]) = [a] \<and>
   ed_approved (export_evaluate 0 (with_constraints [ScopeRestriction [6]] p) [a, b]) = [b]"
  by (simp add: export_sample_defs with_constraints_def Let_def)

text \<open>
  The evidence gate looks at the approved concepts, not at the concepts an evidence pack names: a
  view can carry a pack for a critical concept the same decision rejected.
\<close>

theorem evidence_pack_is_not_checked:
  "let p = export_policy_default\<lparr>xp_allow_raw_evidence := True\<rparr>;
       secret = sample_concept 2 5 Critical;
       d = export_evaluate 0 p [sample_concept 1 5 Useful, secret];
       pack = \<lparr>ep_evidence_refs = [77], ep_concept_ids = [2]\<rparr> in
   ed_rejected d = [rejection_of secret (SensitivityExceeded Critical Useful)] \<and>
   (\<exists>v. from_decision 9 1 d 8 5 (RequestWithEvidencePack [] pack) = Inr v \<and>
        content_evidence_pack (ev_content v) = Some pack)"
  by (simp add: export_sample_defs export_view_new_def export_evaluate_def Let_def)

end
