(* ===== verification/Export_Plane.thy ===== *)
theory Export_Plane
  imports Export_Policy Concept_Graph
begin

text \<open>
  The export control registry, the approval workflow and the policy simulator
  (\<^verbatim>\<open>export_plane/src\<close>: \<^verbatim>\<open>controls.rs\<close>, \<^verbatim>\<open>approval.rs\<close>, \<^verbatim>\<open>simulator.rs\<close>). A method on \<^verbatim>\<open>&mut self\<close>
  returns its result with the state after the call. The iteration order of a hash map is an
  argument \<open>order\<close>; every reading of the clock within a call is an argument of its own.
\<close>

section \<open>Controls\<close>

record concept_control =
  cc_concept_id :: uuid
  cc_exportable :: bool
  cc_allowed_profiles :: "uuid list"
  cc_time_bound :: "std_duration option"
  cc_scope_bound :: "uuid list"
  cc_created_at :: instant

definition concept_control_new :: "instant \<Rightarrow> uuid \<Rightarrow> concept_control" where
  "concept_control_new now i = \<lparr>cc_concept_id = i, cc_exportable = True, cc_allowed_profiles = [],
     cc_time_bound = None, cc_scope_bound = [], cc_created_at = now\<rparr>"

definition control_is_active :: "instant \<Rightarrow> concept_control \<Rightarrow> bool" where
  "control_is_active now c =
     (if \<not> cc_exportable c then False
      else case cc_time_bound c of None \<Rightarrow> True
      | Some bound \<Rightarrow>
          (let elapsed = now - cc_created_at c in if elapsed < 0 then True else nat elapsed < bound))"

definition allows_profile :: "uuid \<Rightarrow> concept_control \<Rightarrow> bool" where
  "allows_profile i c \<longleftrightarrow> cc_allowed_profiles c = [] \<or> i \<in> set (cc_allowed_profiles c)"

definition allows_scope :: "uuid \<Rightarrow> concept_control \<Rightarrow> bool" where
  "allows_scope i c \<longleftrightarrow> cc_scope_bound c = [] \<or> i \<in> set (cc_scope_bound c)"

datatype redaction_level = RedactNone | RedactPartial | RedactFull

record summary_control =
  sc_summary_id :: uuid
  sc_scope_id :: uuid
  sc_exportable :: bool
  sc_redaction_level :: redaction_level

definition summary_control_new :: "uuid \<Rightarrow> uuid \<Rightarrow> redaction_level \<Rightarrow> summary_control" where
  "summary_control_new i scope level =
     \<lparr>sc_summary_id = i, sc_scope_id = scope, sc_exportable = True, sc_redaction_level = level\<rparr>"

record workflow_control =
  wc_workflow_id :: uuid
  wc_exportable :: bool
  wc_allowed_agents :: "uuid list"

definition workflow_control_new :: "uuid \<Rightarrow> workflow_control" where
  "workflow_control_new i = \<lparr>wc_workflow_id = i, wc_exportable = True, wc_allowed_agents = []\<rparr>"

definition allows_agent :: "uuid \<Rightarrow> workflow_control \<Rightarrow> bool" where
  "allows_agent i c \<longleftrightarrow> wc_allowed_agents c = [] \<or> i \<in> set (wc_allowed_agents c)"

datatype export_control_error = ControlNotFound uuid | ControlDuplicate uuid

record export_registry =
  xr_concepts :: "uuid \<rightharpoonup> concept_control"
  xr_summaries :: "uuid \<rightharpoonup> summary_control"
  xr_workflows :: "uuid \<rightharpoonup> workflow_control"

definition export_registry_new :: export_registry where
  "export_registry_new = \<lparr>xr_concepts = Map.empty, xr_summaries = Map.empty, xr_workflows = Map.empty\<rparr>"

definition upsert_concept :: "concept_control \<Rightarrow> export_registry \<Rightarrow> export_registry" where
  "upsert_concept c r = r\<lparr>xr_concepts := (xr_concepts r)(cc_concept_id c \<mapsto> c)\<rparr>"

definition insert_concept ::
  "concept_control \<Rightarrow> export_registry \<Rightarrow> (export_control_error + unit) \<times> export_registry"
where
  "insert_concept c r =
     (if xr_concepts r (cc_concept_id c) \<noteq> None then (Inl (ControlDuplicate (cc_concept_id c)), r)
      else (Inr (), r\<lparr>xr_concepts := (xr_concepts r)(cc_concept_id c \<mapsto> c)\<rparr>))"

definition get_concept :: "uuid \<Rightarrow> export_registry \<Rightarrow> concept_control option" where
  "get_concept i r = xr_concepts r i"

definition remove_concept ::
  "uuid \<Rightarrow> export_registry \<Rightarrow> (export_control_error + unit) \<times> export_registry"
where
  "remove_concept i r =
     (case xr_concepts r i of
        Some _ \<Rightarrow> (Inr (), r\<lparr>xr_concepts := (xr_concepts r)(i := None)\<rparr>)
      | None \<Rightarrow> (Inl (ControlNotFound i), r))"

definition allows_concept :: "export_registry \<Rightarrow> uuid \<Rightarrow> uuid \<Rightarrow> uuid \<Rightarrow> instant \<Rightarrow> bool" where
  "allows_concept r i profile scope now =
     (case xr_concepts r i of
        None \<Rightarrow> False
      | Some control \<Rightarrow>
          if \<not> control_is_active now control then False
          else if \<not> allows_profile profile control then False
          else if \<not> allows_scope scope control then False
          else True)"

definition upsert_summary :: "summary_control \<Rightarrow> export_registry \<Rightarrow> export_registry" where
  "upsert_summary c r = r\<lparr>xr_summaries := (xr_summaries r)(sc_summary_id c \<mapsto> c)\<rparr>"

definition insert_summary ::
  "summary_control \<Rightarrow> export_registry \<Rightarrow> (export_control_error + unit) \<times> export_registry"
where
  "insert_summary c r =
     (if xr_summaries r (sc_summary_id c) \<noteq> None then (Inl (ControlDuplicate (sc_summary_id c)), r)
      else (Inr (), r\<lparr>xr_summaries := (xr_summaries r)(sc_summary_id c \<mapsto> c)\<rparr>))"

definition get_summary :: "uuid \<Rightarrow> export_registry \<Rightarrow> summary_control option" where
  "get_summary i r = xr_summaries r i"

definition remove_summary ::
  "uuid \<Rightarrow> export_registry \<Rightarrow> (export_control_error + unit) \<times> export_registry"
where
  "remove_summary i r =
     (case xr_summaries r i of
        Some _ \<Rightarrow> (Inr (), r\<lparr>xr_summaries := (xr_summaries r)(i := None)\<rparr>)
      | None \<Rightarrow> (Inl (ControlNotFound i), r))"

definition allows_summary :: "export_registry \<Rightarrow> uuid \<Rightarrow> bool" where
  "allows_summary r i = (case xr_summaries r i of None \<Rightarrow> False | Some c \<Rightarrow> sc_exportable c)"

definition upsert_workflow :: "workflow_control \<Rightarrow> export_registry \<Rightarrow> export_registry" where
  "upsert_workflow c r = r\<lparr>xr_workflows := (xr_workflows r)(wc_workflow_id c \<mapsto> c)\<rparr>"

definition insert_workflow ::
  "workflow_control \<Rightarrow> export_registry \<Rightarrow> (export_control_error + unit) \<times> export_registry"
where
  "insert_workflow c r =
     (if xr_workflows r (wc_workflow_id c) \<noteq> None then (Inl (ControlDuplicate (wc_workflow_id c)), r)
      else (Inr (), r\<lparr>xr_workflows := (xr_workflows r)(wc_workflow_id c \<mapsto> c)\<rparr>))"

definition get_workflow :: "uuid \<Rightarrow> export_registry \<Rightarrow> workflow_control option" where
  "get_workflow i r = xr_workflows r i"

definition remove_workflow ::
  "uuid \<Rightarrow> export_registry \<Rightarrow> (export_control_error + unit) \<times> export_registry"
where
  "remove_workflow i r =
     (case xr_workflows r i of
        Some _ \<Rightarrow> (Inr (), r\<lparr>xr_workflows := (xr_workflows r)(i := None)\<rparr>)
      | None \<Rightarrow> (Inl (ControlNotFound i), r))"

definition allows_workflow :: "export_registry \<Rightarrow> uuid \<Rightarrow> uuid \<Rightarrow> bool" where
  "allows_workflow r i agent =
     (case xr_workflows r i of
        None \<Rightarrow> False | Some c \<Rightarrow> wc_exportable c \<and> allows_agent agent c)"

text \<open>\<^verbatim>\<open>HashMap::values\<close>, in the iteration order of the host.\<close>

definition hash_values :: "(uuid set \<Rightarrow> uuid list) \<Rightarrow> (uuid \<rightharpoonup> 'a) \<Rightarrow> 'a list" where
  "hash_values order m = List.map_filter m (order (dom m))"

definition registry_concepts :: "(uuid set \<Rightarrow> uuid list) \<Rightarrow> export_registry \<Rightarrow> concept_control list" where
  "registry_concepts order r = hash_values order (xr_concepts r)"

definition registry_summaries :: "(uuid set \<Rightarrow> uuid list) \<Rightarrow> export_registry \<Rightarrow> summary_control list" where
  "registry_summaries order r = hash_values order (xr_summaries r)"

definition registry_workflows :: "(uuid set \<Rightarrow> uuid list) \<Rightarrow> export_registry \<Rightarrow> workflow_control list" where
  "registry_workflows order r = hash_values order (xr_workflows r)"

section \<open>Approval\<close>

datatype approval_error =
  ApprovalNotFound uuid | NotCanonical uuid | NotExportable uuid | AlreadyApproved uuid
| NotApproved uuid

record approval_workflow =
  aw_approved :: "uuid \<rightharpoonup> approved_concept"

definition workflow_new :: approval_workflow where
  "workflow_new = \<lparr>aw_approved = Map.empty\<rparr>"

text \<open>The instants at which one approval reads the clock, and the run id it draws.\<close>

record approval_env =
  ae_checked :: instant
  ae_run_id :: uuid
  ae_bundled :: instant
  ae_stamped :: instant

definition approval_provenance :: "approval_env \<Rightarrow> uuid \<Rightarrow> provenance_bundle" where
  "approval_provenance env i = bundle_new (ae_bundled env) i
     (activity_new ''export_plane:approval_workflow'' ''export_plane@v1'' ''concept.approve.v1''
        (ae_run_id env))
     (agent_software ''export_plane:approval_workflow'') []"

definition approve_for_export ::
  "approval_env \<Rightarrow> uuid \<Rightarrow> uuid \<Rightarrow> uuid \<Rightarrow> sensitivity_class \<Rightarrow> concept_graph \<Rightarrow> export_registry
   \<Rightarrow> approval_workflow \<Rightarrow> (approval_error + approved_concept) \<times> approval_workflow"
where
  "approve_for_export env i scope profile sensitivity g controls w =
     (case get_node g i of
        None \<Rightarrow> (Inl (ApprovalNotFound i), w)
      | Some node \<Rightarrow>
          if cn_state node \<noteq> NCanonical then (Inl (NotCanonical i), w)
          else if \<not> allows_concept controls i profile scope (ae_checked env)
          then (Inl (NotExportable i), w)
          else if aw_approved w i \<noteq> None then (Inl (AlreadyApproved i), w)
          else
            (let approved = approved_new (ae_stamped env) i (cn_label node) (cn_definition node)
                              scope (approval_provenance env i) sensitivity
             in (Inr approved, w\<lparr>aw_approved := (aw_approved w)(i \<mapsto> approved)\<rparr>)))"

definition revoke_approval ::
  "uuid \<Rightarrow> approval_workflow \<Rightarrow> (approval_error + unit) \<times> approval_workflow"
where
  "revoke_approval i w =
     (case aw_approved w i of
        Some _ \<Rightarrow> (Inr (), w\<lparr>aw_approved := (aw_approved w)(i := None)\<rparr>)
      | None \<Rightarrow> (Inl (NotApproved i), w))"

definition approval_get :: "uuid \<Rightarrow> approval_workflow \<Rightarrow> approved_concept option" where
  "approval_get i w = aw_approved w i"

definition list_approved ::
  "(uuid set \<Rightarrow> uuid list) \<Rightarrow> uuid \<Rightarrow> approval_workflow \<Rightarrow> approved_concept list"
where
  "list_approved order scope w =
     filter (\<lambda>c. ac_scope_id c = scope) (hash_values order (aw_approved w))"

definition list_all_approved :: "(uuid set \<Rightarrow> uuid list) \<Rightarrow> approval_workflow \<Rightarrow> approved_concept list" where
  "list_all_approved order w = hash_values order (aw_approved w)"

section \<open>The simulator\<close>

text \<open>The derived \<^verbatim>\<open>Debug\<close> of a sensitivity.\<close>

fun sensitivity_debug :: "sensitivity_class \<Rightarrow> string" where
  "sensitivity_debug Critical = ''Critical''"
| "sensitivity_debug Important = ''Important''"
| "sensitivity_debug Useful = ''Useful''"
| "sensitivity_debug Noise = ''Noise''"

record simulated_exclusion =
  se_entity_id :: uuid
  se_reason :: string

record simulation_result =
  sr_included_concepts :: "uuid list"
  sr_excluded_concepts :: "simulated_exclusion list"
  sr_included_summaries :: "uuid list"
  sr_excluded_summaries :: "simulated_exclusion list"
  sr_would_include_evidence :: bool
  sr_size_estimate :: nat
  sr_warnings :: "string list"

record policy_simulator =
  ps_policy :: export_policy
  ps_controls :: export_registry

definition simulator_new :: "export_policy \<Rightarrow> export_registry \<Rightarrow> policy_simulator" where
  "simulator_new p controls = \<lparr>ps_policy = p, ps_controls = controls\<rparr>"

fun rejection_reason_label :: "export_rejection_reason \<Rightarrow> string" where
  "rejection_reason_label (SensitivityExceeded s c) =
     ''sensitivity '' @ sensitivity_debug s @ '' exceeds policy ceiling '' @ sensitivity_debug c"
| "rejection_reason_label (ScopeNotWhitelisted i) =
     ''scope '' @ uuid_display i @ '' not in policy whitelist''"
| "rejection_reason_label MissingProvenance = ''concept lacks provenance bundle''"
| "rejection_reason_label ExportExpired = ''concept approval has expired''"
| "rejection_reason_label OutsideTimeWindow = ''concept older than policy time window''"
| "rejection_reason_label MaxConceptsReached = ''policy max_concepts cap reached''"

definition estimate_size :: "concept_profile \<Rightarrow> uuid list \<Rightarrow> nat" where
  "estimate_size profile included =
     fold (\<lambda>c sum. if ac_concept_id c \<in> set included
                   then sum + (length (ac_label c) + length (ac_definition c)) + 64 else sum)
       (cp_concepts profile)
       (length (cp_name profile) + length (cp_description profile) + length (cp_target_tool profile))"

text \<open>The stable reasons of the source; the dash of the expiry warning is one UTF-8 sequence.\<close>

definition reason_profile_expired :: string where
  "reason_profile_expired = ''profile expired''"

definition warning_profile_expired :: string where
  "warning_profile_expired = ''profile expired '' @ [CHR 0xE2, CHR 0x80, CHR 0x94] @
     '' simulator returning empty preview''"

definition reason_denied :: string where
  "reason_denied = ''deny-by-default: concept not authorised by export control registry''"

definition reason_cross_scope :: string where
  "reason_cross_scope = ''summary scope does not match profile scope''"

definition reason_blocked :: string where
  "reason_blocked = ''summary control marked non-exportable''"

definition reason_summary_cap :: string where
  "reason_summary_cap = ''policy max_summaries cap reached''"

definition exclude :: "string \<Rightarrow> uuid \<Rightarrow> simulated_exclusion" where
  "exclude reason i = \<lparr>se_entity_id = i, se_reason = reason\<rparr>"

text \<open>The loop over the exportable summaries: included, excluded, number capped.\<close>

fun cap_summaries ::
  "nat \<Rightarrow> summary_control list \<Rightarrow> uuid list \<times> simulated_exclusion list \<times> nat
   \<Rightarrow> uuid list \<times> simulated_exclusion list \<times> nat"
where
  "cap_summaries m [] acc = acc"
| "cap_summaries m (c # cs) (included, excluded, capped) =
     (if length included < m then cap_summaries m cs (included @ [sc_summary_id c], excluded, capped)
      else cap_summaries m cs
             (included, excluded @ [exclude reason_summary_cap (sc_summary_id c)], capped + 1))"

fun prefilter ::
  "(approved_concept \<Rightarrow> bool) \<Rightarrow> approved_concept list
   \<Rightarrow> simulated_exclusion list \<times> approved_concept list
   \<Rightarrow> simulated_exclusion list \<times> approved_concept list"
where
  "prefilter allowed [] acc = acc"
| "prefilter allowed (c # cs) (excluded, candidates) =
     (if \<not> allowed c
      then prefilter allowed cs (excluded @ [exclude reason_denied (ac_concept_id c)], candidates)
      else prefilter allowed cs (excluded, candidates @ [c]))"

definition simulate ::
  "(uuid set \<Rightarrow> uuid list) \<Rightarrow> instant \<Rightarrow> instant \<Rightarrow> policy_simulator \<Rightarrow> concept_profile \<Rightarrow> simulation_result"
where
  "simulate order now now_engine sim profile =
     (if profile_is_expired now profile
      then \<lparr>sr_included_concepts = [],
            sr_excluded_concepts =
              map (\<lambda>c. exclude reason_profile_expired (ac_concept_id c)) (cp_concepts profile),
            sr_included_summaries = [], sr_excluded_summaries = [],
            sr_would_include_evidence = False, sr_size_estimate = 0,
            sr_warnings = [warning_profile_expired]\<rparr>
      else
        let controls = ps_controls sim;
            effective = with_constraints (cp_constraints profile) (ps_policy sim);
            (denied, candidates) =
              prefilter (\<lambda>c. allows_concept controls (ac_concept_id c) (cp_id profile) (ac_scope_id c) now)
                (cp_concepts profile) ([], []);
            decision = export_evaluate now_engine effective candidates;
            included_concepts = map ac_concept_id (ed_approved decision);
            excluded_concepts = denied @
              map (\<lambda>r. exclude (rejection_reason_label (er_reason r)) (er_concept_id r))
                (ed_rejected decision);
            summaries = registry_summaries order controls;
            cross_scope = sort_key sc_summary_id
              (filter (\<lambda>c. sc_scope_id c \<noteq> cp_scope_id profile) summaries);
            exportable = sort_key sc_summary_id
              (filter (\<lambda>c. sc_scope_id c = cp_scope_id profile \<and> sc_exportable c) summaries);
            blocked = sort_key sc_summary_id
              (filter (\<lambda>c. sc_scope_id c = cp_scope_id profile \<and> \<not> sc_exportable c) summaries);
            excluded0 = map (\<lambda>c. exclude reason_cross_scope (sc_summary_id c)) cross_scope @
              map (\<lambda>c. exclude reason_blocked (sc_summary_id c)) blocked;
            (included_summaries, excluded_summaries, capped) =
              cap_summaries (xp_max_summaries effective) exportable ([], excluded0, 0);
            warnings = (if 0 < capped
              then ed_warnings decision @ [''policy max_summaries cap reached: '' @ nat_display capped @
                     '' summary/-ies dropped from preview'']
              else ed_warnings decision)
        in \<lparr>sr_included_concepts = included_concepts, sr_excluded_concepts = excluded_concepts,
            sr_included_summaries = included_summaries, sr_excluded_summaries = excluded_summaries,
            sr_would_include_evidence = ed_allow_raw_evidence decision,
            sr_size_estimate = estimate_size profile included_concepts,
            sr_warnings = warnings\<rparr>)"

section \<open>The registry as three tables\<close>

text \<open>
  The three kinds of control share one contract: a keyed table with an insert that refuses a
  duplicate, an overwriting upsert and a remove that refuses an absent key.
\<close>

locale control_table =
  fixes get :: "uuid \<Rightarrow> 'r \<Rightarrow> 'c option"
    and key :: "'c \<Rightarrow> uuid"
    and upsert :: "'c \<Rightarrow> 'r \<Rightarrow> 'r"
    and insert_new :: "'c \<Rightarrow> 'r \<Rightarrow> (export_control_error + unit) \<times> 'r"
    and remove :: "uuid \<Rightarrow> 'r \<Rightarrow> (export_control_error + unit) \<times> 'r"
  assumes get_upsert: "get i (upsert c r) = (if i = key c then Some c else get i r)"
    and insert_new_eq: "insert_new c r =
      (if get (key c) r = None then (Inr (), upsert c r) else (Inl (ControlDuplicate (key c)), r))"
    and remove_absent: "get i r = None \<Longrightarrow> remove i r = (Inl (ControlNotFound i), r)"
    and remove_present: "get i r = Some c \<Longrightarrow> fst (remove i r) = Inr ()"
    and get_remove: "get j (snd (remove i r)) = (if j = i then None else get j r)"
begin

definition keyed :: "'r \<Rightarrow> bool" where
  "keyed r \<longleftrightarrow> (\<forall>i c. get i r = Some c \<longrightarrow> key c = i)"

lemma keyed_upsert [simp]: "keyed r \<Longrightarrow> keyed (upsert c r)"
  by (simp add: keyed_def get_upsert)

lemma keyed_insert [simp]: "keyed r \<Longrightarrow> keyed (snd (insert_new c r))"
  by (simp add: insert_new_eq)

lemma keyed_remove [simp]: "keyed r \<Longrightarrow> keyed (snd (remove i r))"
  by (simp add: keyed_def get_remove)

lemma get_insert: "get i (snd (insert_new c r)) =
    (if i = key c \<and> get i r = None then Some c else get i r)"
  by (auto simp: insert_new_eq get_upsert)

lemma insert_twice: "fst (insert_new d (snd (insert_new c r))) = Inl (ControlDuplicate (key c))"
  if "key d = key c"
  using that by (auto simp: insert_new_eq get_upsert)

lemma insert_after_remove: "fst (insert_new c (snd (remove (key c) r))) = Inr ()"
  by (simp add: insert_new_eq get_remove)

lemma remove_twice: "fst (remove i (snd (remove i r))) = Inl (ControlNotFound i)"
  by (simp add: remove_absent get_remove)

end

interpretation concepts: control_table get_concept cc_concept_id upsert_concept insert_concept remove_concept
  by unfold_locales
    (auto simp: get_concept_def upsert_concept_def insert_concept_def remove_concept_def
      split: option.splits)

interpretation summaries: control_table get_summary sc_summary_id upsert_summary insert_summary remove_summary
  by unfold_locales
    (auto simp: get_summary_def upsert_summary_def insert_summary_def remove_summary_def
      split: option.splits)

interpretation workflows: control_table get_workflow wc_workflow_id upsert_workflow insert_workflow remove_workflow
  by unfold_locales
    (auto simp: get_workflow_def upsert_workflow_def insert_workflow_def remove_workflow_def
      split: option.splits)

text \<open>Commands on one table leave the other two alone.\<close>

datatype registry_command =
  InsertConcept concept_control | UpsertConcept concept_control | RemoveConcept uuid
| InsertSummary summary_control | UpsertSummary summary_control | RemoveSummary uuid
| InsertWorkflow workflow_control | UpsertWorkflow workflow_control | RemoveWorkflow uuid

fun registry_exec :: "registry_command \<Rightarrow> export_registry \<Rightarrow> export_registry" where
  "registry_exec (InsertConcept c) r = snd (insert_concept c r)"
| "registry_exec (UpsertConcept c) r = upsert_concept c r"
| "registry_exec (RemoveConcept i) r = snd (remove_concept i r)"
| "registry_exec (InsertSummary c) r = snd (insert_summary c r)"
| "registry_exec (UpsertSummary c) r = upsert_summary c r"
| "registry_exec (RemoveSummary i) r = snd (remove_summary i r)"
| "registry_exec (InsertWorkflow c) r = snd (insert_workflow c r)"
| "registry_exec (UpsertWorkflow c) r = upsert_workflow c r"
| "registry_exec (RemoveWorkflow i) r = snd (remove_workflow i r)"

definition registry_run :: "registry_command list \<Rightarrow> export_registry" where
  "registry_run cmds = fold registry_exec cmds export_registry_new"

lemmas registry_op_defs = insert_concept_def upsert_concept_def remove_concept_def
  insert_summary_def upsert_summary_def remove_summary_def
  insert_workflow_def upsert_workflow_def remove_workflow_def

lemma registry_exec_frame [simp]:
  "get_summary j (snd (insert_concept c r)) = get_summary j r"
  "get_summary j (upsert_concept c r) = get_summary j r"
  "get_summary j (snd (remove_concept i r)) = get_summary j r"
  "get_summary j (snd (insert_workflow w r)) = get_summary j r"
  "get_summary j (upsert_workflow w r) = get_summary j r"
  "get_summary j (snd (remove_workflow i r)) = get_summary j r"
  by (simp_all add: registry_op_defs get_summary_def split: option.splits)

lemma summaries_keyed_exec: "summaries.keyed r \<Longrightarrow> summaries.keyed (registry_exec cmd r)"
proof (cases cmd)
  case (InsertSummary c) then show "summaries.keyed r \<Longrightarrow> ?thesis" by simp
next
  case (UpsertSummary c) then show "summaries.keyed r \<Longrightarrow> ?thesis" by simp
next
  case (RemoveSummary i) then show "summaries.keyed r \<Longrightarrow> ?thesis" by simp
qed (simp_all add: summaries.keyed_def)

lemma summaries_keyed_run: "summaries.keyed (registry_run cmds)"
proof -
  have "summaries.keyed r \<Longrightarrow> summaries.keyed (fold registry_exec cmds r)" for r
    by (induction cmds arbitrary: r) (simp_all add: summaries_keyed_exec)
  moreover have "summaries.keyed export_registry_new"
    by (simp add: summaries.keyed_def get_summary_def export_registry_new_def)
  ultimately show ?thesis by (simp add: registry_run_def)
qed

section \<open>Hash iteration and sorting\<close>

definition order_ok :: "(uuid set \<Rightarrow> uuid list) \<Rightarrow> bool" where
  "order_ok order \<longleftrightarrow> (\<forall>S. set (order S) = S \<and> distinct (order S))"

lemma order_okD [simp]: "order_ok order \<Longrightarrow> set (order S) = S" "order_ok order \<Longrightarrow> distinct (order S)"
  by (simp_all add: order_ok_def)

lemma sorted_order_ok [simp]: "order_ok sorted_list_of_set"
  by (simp add: order_ok_def)

lemma set_hash_values: "order_ok order \<Longrightarrow> set (hash_values order m) = ran m"
  by (force simp: hash_values_def map_filter_def ran_def image_iff)

lemma map_key_map_filter:
  "(\<And>i c. m i = Some c \<Longrightarrow> k c = i) \<Longrightarrow> map k (List.map_filter m is1) = filter (\<lambda>i. m i \<noteq> None) is1"
  by (induction is1) (auto simp: map_filter_simps split: option.splits)

lemma keys_hash_values:
  assumes "order_ok order" "\<And>i c. m i = Some c \<Longrightarrow> k c = i"
  shows "map k (hash_values order m) = order (dom m)"
proof -
  have "filter (\<lambda>i. m i \<noteq> None) (order (dom m)) = order (dom m)"
    using assms(1) by (auto intro!: filter_True simp: domIff)
  then show ?thesis
    using map_key_map_filter [of m k "order (dom m)"] assms(2) by (simp add: hash_values_def)
qed

text \<open>Sorting by key removes the iteration order: what is left are the sorted ids.\<close>

lemma sorted_hash_ids:
  assumes "order_ok order" "\<And>i c. m i = Some c \<Longrightarrow> k c = i"
  shows "map k (sort_key k (filter P (hash_values order m)))
     = sorted_list_of_set {i. \<exists>c. m i = Some c \<and> P c}"
proof (rule sorted_distinct_set_unique)
  have "distinct (map k (hash_values order m))"
    using assms by (simp add: keys_hash_values)
  then have "distinct (map k (filter P (hash_values order m)))"
    by (simp add: distinct_map_filter)
  moreover have "mset (map k (sort_key k (filter P (hash_values order m))))
      = mset (map k (filter P (hash_values order m)))" by simp
  ultimately show "distinct (map k (sort_key k (filter P (hash_values order m))))"
    by (metis mset_eq_imp_distinct_iff)
  show "set (map k (sort_key k (filter P (hash_values order m))))
      = set (sorted_list_of_set {i. \<exists>c. m i = Some c \<and> P c})"
    using assms by (force simp: set_hash_values ran_def)
qed simp_all

lemma cap_summaries_eq:
  "cap_summaries m cs (inc, exc, n) =
     (let k = m - length inc; ids = map sc_summary_id cs in
      (inc @ take k ids, exc @ map (exclude reason_summary_cap) (drop k ids), n + length (drop k ids)))"
proof (induction cs arbitrary: inc exc n)
  case (Cons c cs)
  have "m - Suc (length inc) = j" if "m - length inc = Suc j" for j using that by simp
  then show ?case
    by (cases "m - length inc") (auto simp: Cons Let_def)
qed simp

lemma prefilter_eq:
  "prefilter ok cs (exc, cands) =
     (exc @ map (\<lambda>c. exclude reason_denied (ac_concept_id c)) (filter (\<lambda>c. \<not> ok c) cs),
      cands @ filter ok cs)"
  by (induction cs arbitrary: exc cands) auto

section \<open>Properties of the simulator\<close>

definition summary_ids :: "export_registry \<Rightarrow> (summary_control \<Rightarrow> bool) \<Rightarrow> uuid list" where
  "summary_ids r P = sorted_list_of_set {i. \<exists>c. get_summary i r = Some c \<and> P c}"

lemma set_summary_ids: "set (summary_ids r P) = {i. \<exists>c. get_summary i r = Some c \<and> P c}"
  by (simp add: summary_ids_def)

lemma set_take_union_drop: "set (take n xs) \<union> set (a @ b @ drop n xs) = set xs \<union> set a \<union> set b"
proof -
  have "set xs = set (take n xs) \<union> set (drop n xs)" by (metis append_take_drop_id set_append)
  then show ?thesis by auto
qed

lemma registry_summary_ids:
  assumes "order_ok order" "summaries.keyed r"
  shows "map sc_summary_id (sort_key sc_summary_id (filter P (registry_summaries order r)))
     = summary_ids r P"
  using sorted_hash_ids [OF assms(1), of "xr_summaries r" sc_summary_id P] assms(2)
  by (simp add: registry_summaries_def summary_ids_def summaries.keyed_def get_summary_def)

lemma registry_summary_count:
  assumes "order_ok order" "summaries.keyed r"
  shows "length (filter P (registry_summaries order r)) = length (summary_ids r P)"
  using registry_summary_ids [OF assms, of P, symmetric] by simp

lemma map_exclude_ids: "map (\<lambda>c. exclude r (sc_summary_id c)) cs = map (exclude r) (map sc_summary_id cs)"
  by simp

lemma simulate_expired:
  "profile_is_expired now prof \<Longrightarrow> sr_included_concepts (simulate order now now2 sim prof) = [] \<and>
     sr_included_summaries (simulate order now now2 sim prof) = [] \<and>
     \<not> sr_would_include_evidence (simulate order now now2 sim prof) \<and>
     map se_entity_id (sr_excluded_concepts (simulate order now now2 sim prof))
       = map ac_concept_id (cp_concepts prof)"
  by (simp add: simulate_def exclude_def comp_def)

definition previewable ::
  "instant \<Rightarrow> instant \<Rightarrow> policy_simulator \<Rightarrow> concept_profile \<Rightarrow> approved_concept \<Rightarrow> bool"
where
  "previewable now now2 sim prof c \<longleftrightarrow>
     allows_concept (ps_controls sim) (ac_concept_id c) (cp_id prof) (ac_scope_id c) now \<and>
     admissible (ps_policy sim) now2 c \<and>
     list_all (satisfies_constraint now2 c) (cp_constraints prof)"

definition preview_cap :: "policy_simulator \<Rightarrow> concept_profile \<Rightarrow> nat" where
  "preview_cap sim prof = fold constraint_cap (cp_constraints prof) (xp_max_concepts (ps_policy sim))"

lemma previewable_eq:
  "previewable now now2 sim prof =
     (\<lambda>c. allows_concept (ps_controls sim) (ac_concept_id c) (cp_id prof) (ac_scope_id c) now \<and>
        admissible (with_constraints (cp_constraints prof) (ps_policy sim)) now2 c)"
  by (simp add: fun_eq_iff previewable_def admissible_with_constraints)

lemma simulate_concepts:
  assumes "\<not> profile_is_expired now prof"
  shows "sr_included_concepts (simulate order now now2 sim prof) =
     map ac_concept_id (take (preview_cap sim prof)
       (filter (previewable now now2 sim prof) (cp_concepts prof)))"
  using assms
  by (simp add: simulate_def Let_def prefilter_eq split_beta previewable_eq preview_cap_def)

lemma simulate_evidence:
  assumes "\<not> profile_is_expired now prof"
  shows "sr_would_include_evidence (simulate order now now2 sim prof) \<longleftrightarrow>
     xp_allow_raw_evidence (ps_policy sim) \<and> list_all (\<lambda>c. ac_sensitivity c \<noteq> Critical)
       (take (preview_cap sim prof) (filter (previewable now now2 sim prof) (cp_concepts prof)))"
  using assms
  by (simp add: simulate_def Let_def prefilter_eq split_beta previewable_eq preview_cap_def)

lemma simulate_summaries:
  assumes "\<not> profile_is_expired now prof" "order_ok order" "summaries.keyed (ps_controls sim)"
  shows "sr_included_summaries (simulate order now now2 sim prof) =
       take (xp_max_summaries (ps_policy sim))
         (summary_ids (ps_controls sim) (\<lambda>c. sc_scope_id c = cp_scope_id prof \<and> sc_exportable c))"
    and "map se_entity_id (sr_excluded_summaries (simulate order now now2 sim prof)) =
       summary_ids (ps_controls sim) (\<lambda>c. sc_scope_id c \<noteq> cp_scope_id prof) @
       summary_ids (ps_controls sim) (\<lambda>c. sc_scope_id c = cp_scope_id prof \<and> \<not> sc_exportable c) @
       drop (xp_max_summaries (ps_policy sim))
         (summary_ids (ps_controls sim) (\<lambda>c. sc_scope_id c = cp_scope_id prof \<and> sc_exportable c))"
  using assms(1) registry_summary_ids [OF assms(2,3)]
  by (simp_all add: simulate_def Let_def split_beta cap_summaries_eq exclude_def comp_def)

lemma simulate_order_free:
  assumes "order_ok order" "order_ok order'" "summaries.keyed (ps_controls sim)"
  shows "simulate order now now2 sim prof = simulate order' now now2 sim prof"
  by (simp add: simulate_def Let_def split_beta cap_summaries_eq map_exclude_ids
      registry_summary_ids [OF assms(1,3)] registry_summary_ids [OF assms(2,3)]
      registry_summary_count [OF assms(1,3)] registry_summary_count [OF assms(2,3)] del: map_map)

text \<open>
  C29. The preview of a live profile is exact: the concepts shown are, in order and up to the cap, those
  the control registry authorises for the profile and their own scope, the policy admits and every
  profile constraint accepts; the summaries shown are the exportable ones of the profile's scope in
  ascending order up to the cap; every other summary is reported excluded; and the whole result
  does not depend on the iteration order of the registry's hash map.
\<close>

theorem simulate_exact:
  assumes "order_ok order" "order_ok order'" "\<not> profile_is_expired now prof"
    and "ps_controls sim = registry_run cmds"
  shows "simulate order now now2 sim prof = simulate order' now now2 sim prof \<and>
     sr_included_concepts (simulate order now now2 sim prof) =
       map ac_concept_id (take (preview_cap sim prof)
         (filter (previewable now now2 sim prof) (cp_concepts prof))) \<and>
     sr_included_summaries (simulate order now now2 sim prof) =
       take (xp_max_summaries (ps_policy sim))
         (summary_ids (ps_controls sim) (\<lambda>c. sc_scope_id c = cp_scope_id prof \<and> sc_exportable c)) \<and>
     set (sr_included_summaries (simulate order now now2 sim prof)) \<union>
       se_entity_id ` set (sr_excluded_summaries (simulate order now now2 sim prof)) =
       {i. get_summary i (ps_controls sim) \<noteq> None}"
proof -
  have keyed: "summaries.keyed (ps_controls sim)" using assms(4) by (simp add: summaries_keyed_run)
  note sums = simulate_summaries [OF assms(3,1) keyed]
  let ?res = "simulate order now now2 sim prof"
  have "set (sr_included_summaries ?res) \<union> set (map se_entity_id (sr_excluded_summaries ?res)) =
      {i. get_summary i (ps_controls sim) \<noteq> None}"
    unfolding sums set_take_union_drop by (auto simp: set_summary_ids)
  then have "set (sr_included_summaries ?res) \<union> se_entity_id ` set (sr_excluded_summaries ?res) =
      {i. get_summary i (ps_controls sim) \<noteq> None}" by (simp only: set_map)
  with simulate_order_free [OF assms(1,2) keyed] simulate_concepts [OF assms(3)] sums(1)
  show ?thesis by blast
qed

section \<open>Properties of the approval workflow\<close>

text \<open>
  A history of the workflow: every approval names the graph and the registry it consulted, which
  change between the calls as they please.
\<close>

datatype approval_event =
  Approve approval_env uuid uuid uuid sensitivity_class concept_graph export_registry
| Revoke uuid

fun approval_exec :: "approval_event \<Rightarrow> approval_workflow \<Rightarrow> approval_workflow" where
  "approval_exec (Approve env i scope profile k g r) w =
     snd (approve_for_export env i scope profile k g r w)"
| "approval_exec (Revoke i) w = snd (revoke_approval i w)"

definition approval_run :: "approval_event list \<Rightarrow> approval_workflow" where
  "approval_run es = fold approval_exec es workflow_new"

text \<open>What an approval must have seen when it was granted.\<close>

fun granted_by :: "uuid \<Rightarrow> approved_concept \<Rightarrow> approval_event \<Rightarrow> bool" where
  "granted_by i c (Approve env j scope profile k g r) \<longleftrightarrow> j = i \<and>
     (\<exists>node. get_node g i = Some node \<and> cn_state node = NCanonical \<and>
        allows_concept r i profile scope (ae_checked env) \<and>
        c = approved_new (ae_stamped env) i (cn_label node) (cn_definition node) scope
              (approval_provenance env i) k)"
| "granted_by i c (Revoke j) \<longleftrightarrow> False"

lemma approve_cases:
  "(\<exists>c. fst (approve_for_export env i scope profile k g r w) = Inr c \<and> aw_approved w i = None \<and>
      granted_by i c (Approve env i scope profile k g r) \<and>
      aw_approved (snd (approve_for_export env i scope profile k g r w)) = (aw_approved w)(i \<mapsto> c)) \<or>
   (\<exists>e. fst (approve_for_export env i scope profile k g r w) = Inl e \<and>
      snd (approve_for_export env i scope profile k g r w) = w)"
  by (auto simp: approve_for_export_def Let_def split: option.splits)

lemma revoke_effect [simp]:
  "aw_approved (snd (revoke_approval i w)) = (aw_approved w)(i := None)"
  by (auto simp: revoke_approval_def split: option.splits)

text \<open>
  C28. Only the workflow approves: after any history of approvals and revocations, over any graphs and
  registries, a concept held as approved was granted by an event of the history at which the graph
  held it as canonical and an active control authorised it for the given profile and scope; it has
  the label and definition the node had then, its provenance is populated unless its id is nil, and
  it has not been revoked since.
\<close>

theorem approvals_are_granted:
  assumes "approval_get i (approval_run es) = Some c"
  shows "(\<exists>pre e post. es = pre @ e # post \<and> granted_by i c e \<and> Revoke i \<notin> set post) \<and>
     ac_concept_id c = i \<and> (is_provenance_populated (ac_provenance c) \<longleftrightarrow> i \<noteq> 0)"
proof -
  have "\<exists>pre e post. es = pre @ e # post \<and> granted_by i c e \<and> Revoke i \<notin> set post"
    using assms
  proof (induction es arbitrary: c rule: rev_induct)
    case Nil
    then show ?case by (simp add: approval_get_def approval_run_def workflow_new_def)
  next
    case (snoc e es)
    let ?w = "approval_run es"
    have run: "approval_run (es @ [e]) = approval_exec e ?w" by (simp add: approval_run_def)
    consider (kept) "approval_get i ?w = Some c" "e \<noteq> Revoke i" | (new) "granted_by i c e"
    proof (cases e)
      case (Approve env j scope profile k g r)
      then show ?thesis using that snoc.prems approve_cases [of env j scope profile k g r ?w]
        unfolding run by (auto simp: approval_get_def split: if_splits)
    next
      case (Revoke j)
      then show ?thesis using that snoc.prems unfolding run
        by (auto simp: approval_get_def split: if_splits)
    qed
    then show ?case
    proof cases
      case kept
      then obtain pre e' post where "es = pre @ e' # post" "granted_by i c e'" "Revoke i \<notin> set post"
        using snoc.IH by blast
      then have "es @ [e] = pre @ e' # (post @ [e])" "Revoke i \<notin> set (post @ [e])"
        using kept by simp_all
      then show ?thesis using \<open>granted_by i c e'\<close> by blast
    next
      case new
      then show ?thesis by (metis empty_iff list.set(1))
    qed
  qed
  moreover from this obtain e where "granted_by i c e" by blast
  then have "ac_concept_id c = i \<and> (is_provenance_populated (ac_provenance c) \<longleftrightarrow> i \<noteq> 0)"
    by (cases e) (auto simp: approved_new_def approval_provenance_def bundle_new_def activity_new_def
        is_provenance_populated_def)
  ultimately show ?thesis by blast
qed

text \<open>
  What the workflow approves, the simulator shows: a concept just approved for a profile, put into
  that profile, is included in the preview taken while its control is still active, under any
  policy whose ceiling covers the sensitivity it was approved with, that has no whitelist and no
  window, and caps nothing.
\<close>

theorem approved_concepts_are_previewed:
  assumes "fst (approve_for_export env i scope (cp_id prof) k g controls w) = Inr c"
    and "i \<noteq> 0" "export_rank k \<le> export_rank ceiling"
    and "\<not> profile_is_expired now prof" "cp_constraints prof = []"
    and "now = ae_checked env" "length (cp_concepts prof) < u64_max"
  shows "i \<in> set (sr_included_concepts (simulate order now now2
     (simulator_new (export_policy_permissive ceiling) controls) (push_concept c prof)))"
proof -
  let ?sim = "simulator_new (export_policy_permissive ceiling) controls"
  let ?prof = "push_concept c prof"
  have g: "granted_by i c (Approve env i scope (cp_id prof) k g controls)"
    using assms(1) approve_cases [of env i scope "cp_id prof" k g controls w] by auto
  then have "ac_concept_id c = i" "ac_scope_id c = scope" "ac_sensitivity c = k" "ac_expires_at c = None"
    "is_provenance_populated (ac_provenance c)" "allows_concept controls i (cp_id prof) scope now"
    using assms(2,6) by (auto simp: approved_new_def approval_provenance_def bundle_new_def
        activity_new_def is_provenance_populated_def)
  then have "previewable now now2 ?sim ?prof c"
    using assms(3,5) by (simp add: previewable_def simulator_new_def push_concept_def admissible_def
        export_policy_permissive_def)
  moreover have "c \<in> set (cp_concepts ?prof)" by (simp add: push_concept_def)
  moreover have "length (filter (previewable now now2 ?sim ?prof) (cp_concepts ?prof)) \<le> preview_cap ?sim ?prof"
    using assms(5,7) length_filter_le [of "previewable now now2 ?sim ?prof" "cp_concepts ?prof"]
    by (simp add: preview_cap_def push_concept_def simulator_new_def export_policy_permissive_def)
  ultimately have "c \<in> set (take (preview_cap ?sim ?prof)
      (filter (previewable now now2 ?sim ?prof) (cp_concepts ?prof)))" by simp
  moreover have "\<not> profile_is_expired now ?prof"
    using assms(4) by (simp add: profile_is_expired_def push_concept_def)
  ultimately show ?thesis
    using \<open>ac_concept_id c = i\<close> by (force simp: simulate_concepts)
qed

section \<open>Witnesses\<close>

definition sample_export_graph :: concept_graph where
  "sample_export_graph =
     graph_new\<lparr>cg_nodes := [1 \<mapsto> mark_canonical 0 (node_new_candidate 1 0 ''a'' ''b'' 5)]\<rparr>"

definition sample_export_commands :: "registry_command list" where
  "sample_export_commands = [InsertConcept (concept_control_new 0 1),
     InsertSummary (summary_control_new 3 5 RedactNone), InsertSummary (summary_control_new 2 5 RedactFull),
     InsertSummary (summary_control_new 4 6 RedactNone)]"

definition sample_env :: approval_env where
  "sample_env = \<lparr>ae_checked = 0, ae_run_id = 9, ae_bundled = 0, ae_stamped = 0\<rparr>"

definition sample_profile :: concept_profile where
  "sample_profile = profile_new 8 0 ''name'' ''text'' ''tool'' 5"

definition sample_registry :: export_registry where
  "sample_registry = registry_run sample_export_commands"

definition sample_approval :: "(approval_error + approved_concept) \<times> approval_workflow" where
  "sample_approval =
     approve_for_export sample_env 1 5 8 Useful sample_export_graph sample_registry workflow_new"

lemma sample_registry_tables:
  "xr_concepts sample_registry = [1 \<mapsto> concept_control_new 0 1]"
  "xr_summaries sample_registry = [3 \<mapsto> summary_control_new 3 5 RedactNone,
     2 \<mapsto> summary_control_new 2 5 RedactFull, 4 \<mapsto> summary_control_new 4 6 RedactNone]"
  by (simp_all add: sample_registry_def registry_run_def sample_export_commands_def export_registry_new_def
      insert_concept_def insert_summary_def concept_control_new_def summary_control_new_def)

lemma sample_allows [simp]: "allows_concept sample_registry 1 profile scope now"
  by (simp add: allows_concept_def sample_registry_tables concept_control_new_def
      control_is_active_def allows_profile_def allows_scope_def)

lemma sample_approves:
  "\<exists>c. fst sample_approval = Inr c \<and> aw_approved (snd sample_approval) 1 = Some c"
  by (simp add: sample_approval_def approve_for_export_def get_node_def sample_export_graph_def
      mark_canonical_def workflow_new_def graph_new_def Let_def)

lemma rev_order_ok: "order_ok (\<lambda>S. rev (sorted_list_of_set S))"
  by (simp add: order_ok_def)

lemma sample_summary_ids:
  "summary_ids sample_registry (\<lambda>c. sc_scope_id c = 5 \<and> sc_exportable c) = [2, 3]"
proof -
  have "{i. \<exists>c. get_summary i sample_registry = Some c \<and> sc_scope_id c = 5 \<and> sc_exportable c} = {2, 3}"
    by (auto simp: get_summary_def sample_registry_tables summary_control_new_def split: if_splits)
  then show ?thesis by (simp add: summary_ids_def)
qed

theorem simulate_exact_witness:
  "sr_included_summaries (simulate (\<lambda>S. rev (sorted_list_of_set S)) 0 0
     (simulator_new export_policy_default sample_registry) sample_profile) = [2, 3]"
proof -
  let ?sim = "simulator_new export_policy_default sample_registry"
  have "\<not> profile_is_expired 0 sample_profile"
    by (simp add: sample_profile_def profile_new_def profile_is_expired_def)
  moreover have "ps_controls ?sim = registry_run sample_export_commands"
    by (simp add: simulator_new_def sample_registry_def)
  ultimately have "sr_included_summaries (simulate (\<lambda>S. rev (sorted_list_of_set S)) 0 0 ?sim sample_profile) =
       take (xp_max_summaries (ps_policy ?sim)) (summary_ids (ps_controls ?sim)
         (\<lambda>c. sc_scope_id c = cp_scope_id sample_profile \<and> sc_exportable c))"
    using simulate_exact [OF rev_order_ok sorted_order_ok] by blast
  then show ?thesis
    by (simp add: simulator_new_def sample_profile_def profile_new_def export_policy_default_def
        sample_summary_ids)
qed

theorem approvals_are_granted_witness:
  "\<exists>c. approval_get 1 (approval_run
        [Revoke 1, Approve sample_env 1 5 8 Useful sample_export_graph sample_registry]) = Some c \<and>
     is_provenance_populated (ac_provenance c)"
proof -
  obtain c where c: "approval_get 1 (approval_run
      [Revoke 1, Approve sample_env 1 5 8 Useful sample_export_graph sample_registry]) = Some c"
    using sample_approves by (auto simp: approval_get_def approval_run_def sample_approval_def
        revoke_approval_def workflow_new_def)
  from approvals_are_granted [OF c] c show ?thesis by auto
qed

theorem approved_concepts_are_previewed_witness:
  "\<exists>c. fst sample_approval = Inr c \<and>
     1 \<in> set (sr_included_concepts (simulate sorted_list_of_set 0 0
        (simulator_new (export_policy_permissive Important) sample_registry)
        (push_concept c sample_profile)))"
proof -
  obtain c where c: "fst sample_approval = Inr c" using sample_approves by blast
  have "1 \<in> set (sr_included_concepts (simulate sorted_list_of_set 0 0
        (simulator_new (export_policy_permissive Important) sample_registry)
        (push_concept c sample_profile)))"
  proof (rule approved_concepts_are_previewed [where k = Useful])
    show "fst (approve_for_export sample_env 1 5 (cp_id sample_profile) Useful sample_export_graph
        sample_registry workflow_new) = Inr c"
      using c by (simp add: sample_approval_def sample_profile_def profile_new_def)
  qed (simp_all add: sample_profile_def profile_new_def profile_is_expired_def sample_env_def u64_max_def)
  with c show ?thesis by blast
qed

end
