(* ===== verification/Wal_Format.thy ===== *)
theory Wal_Format
  imports Time_And_Float
begin

text \<open>
  The write-ahead log format and the shipped segments (\<^verbatim>\<open>substrate_server/src/replication/mod.rs\<close>):
  the rolling checksum, parsing and encoding of a log, the wire format of a segment. 32-bit fields
  are words, so the checksum wraps; the 64-bit sequence number and watermark are natural numbers
  bounded where they are encoded.
\<close>

section \<open>Fixed-width fields\<close>

type_synonym u32 = "32 word"

definition u32_be :: "u32 \<Rightarrow> byte list" where
  "u32_be w = rev (le_bytes 4 (unat w))"

definition u32_from_be :: "byte list \<Rightarrow> u32" where
  "u32_from_be bs = of_nat (le_value (rev bs))"

definition u32_from_le :: "byte list \<Rightarrow> u32" where
  "u32_from_le bs = of_nat (le_value bs)"

definition u64_be :: "nat \<Rightarrow> byte list" where
  "u64_be n = rev (le_bytes 8 n)"

definition u64_from_be :: "byte list \<Rightarrow> nat" where
  "u64_from_be bs = le_value (rev bs)"

definition byte_slice :: "nat \<Rightarrow> nat \<Rightarrow> 'a list \<Rightarrow> 'a list" where
  "byte_slice i n xs = take n (drop i xs)"

definition is_power_of_two :: "u32 \<Rightarrow> bool" where
  "is_power_of_two w \<longleftrightarrow> list_ex (\<lambda>k. unat w = 2 ^ k) [0..<32]"

text \<open>What a field of fixed width promises, and how it is read inside a longer byte string.\<close>

locale byte_field =
  fixes width :: nat
    and valid :: "'a \<Rightarrow> bool"
    and enc :: "'a \<Rightarrow> byte list"
    and dec :: "byte list \<Rightarrow> 'a"
  assumes length_enc [simp]: "length (enc x) = width"
    and dec_enc [simp]: "valid x \<Longrightarrow> dec (enc x) = x"
begin

lemma read_here: "valid x \<Longrightarrow> dec (take width (enc x @ rest)) = x"
  by simp

lemma read_at: "valid x \<Longrightarrow> length pre = i \<Longrightarrow> dec (byte_slice i width (pre @ enc x @ rest)) = x"
  by (simp add: byte_slice_def)

end

interpretation u32_field: byte_field 4 "\<lambda>_. True" u32_be u32_from_be
proof
  fix x :: u32
  have "unat x < 2 ^ 32" using unsigned_less [of x, where ?'a = nat] by simp
  then show "u32_from_be (u32_be x) = x"
    by (simp add: u32_be_def u32_from_be_def le_value_le_bytes)
qed (simp add: u32_be_def)

interpretation u64_field: byte_field 8 "\<lambda>n. n < 2 ^ 64" u64_be u64_from_be
  by unfold_locales (simp_all add: u64_be_def u64_from_be_def le_value_le_bytes)

lemma slice_zero [simp]: "byte_slice 0 n xs = take n xs"
  by (simp add: byte_slice_def)

lemma slice_append_left:
  "length xs \<le> i \<Longrightarrow> byte_slice i n (xs @ ys) = byte_slice (i - length xs) n ys"
  by (simp add: byte_slice_def)

lemma slice_append_in:
  "i + n \<le> length xs \<Longrightarrow> byte_slice i n (xs @ ys) = byte_slice i n xs"
  by (simp add: byte_slice_def)

section \<open>Errors, checksums and frames\<close>

datatype repl_error =
  Malformed string | BadMagic u32 | Transport string | BadRole string | Misconfigured string

definition wal_header_size :: nat where "wal_header_size = 32"
definition frame_header_size :: nat where "frame_header_size = 24"
definition wal_magic_le :: u32 where "wal_magic_le = 0x377f0682"
definition wal_magic_be :: u32 where "wal_magic_be = 0x377f0683"

definition segment_magic :: "byte list" where
  "segment_magic = [0x4B, 0x57, 0x4C, 0x31]"

datatype checksum_order = OrderLittle | OrderBig

definition order_from_magic :: "u32 \<Rightarrow> repl_error + checksum_order" where
  "order_from_magic magic =
     (if magic = wal_magic_le then Inr OrderLittle
      else if magic = wal_magic_be then Inr OrderBig
      else Inl (BadMagic magic))"

fun order_magic :: "checksum_order \<Rightarrow> u32" where
  "order_magic OrderLittle = wal_magic_le"
| "order_magic OrderBig = wal_magic_be"

fun order_read_u32 :: "checksum_order \<Rightarrow> byte list \<Rightarrow> u32" where
  "order_read_u32 OrderLittle b = u32_from_le (take 4 b)"
| "order_read_u32 OrderBig b = u32_from_be (take 4 b)"

function wal_checksum :: "checksum_order \<Rightarrow> u32 \<times> u32 \<Rightarrow> byte list \<Rightarrow> u32 \<times> u32" where
  "wal_checksum order init data =
     (if 8 \<le> length data
      then let x0 = order_read_u32 order (take 4 data);
               x1 = order_read_u32 order (byte_slice 4 4 data);
               s0 = fst init + x0 + snd init;
               s1 = snd init + x1 + s0
           in wal_checksum order (s0, s1) (drop 8 data)
      else init)"
  by pat_completeness auto

termination wal_checksum
  by (relation "measure (\<lambda>(_, _, data). length data)") auto

declare wal_checksum.simps [simp del]

record wal_header =
  wh_order :: checksum_order
  wh_page_size :: u32
  wh_checkpoint_seq :: u32
  wh_salt1 :: u32
  wh_salt2 :: u32
  wh_checksum :: "u32 \<times> u32"

record wal_frame =
  wf_page_number :: u32
  wf_db_size :: u32
  wf_page_data :: "byte list"

definition is_commit :: "wal_frame \<Rightarrow> bool" where
  "is_commit f \<longleftrightarrow> wf_db_size f \<noteq> 0"

record parsed_wal =
  pw_header :: wal_header
  pw_frames :: "wal_frame list"

section \<open>Parsing and encoding a log\<close>

text \<open>The loop over the frames: the offset of the source is the part of the bytes already read.\<close>

function parse_frames :: "wal_header \<Rightarrow> u32 \<times> u32 \<Rightarrow> byte list \<Rightarrow> wal_frame list" where
  "parse_frames h running rest =
     (let page_size = unat (wh_page_size h); frame_size = frame_header_size + page_size in
      if frame_size \<le> length rest
      then let fh = take frame_header_size rest;
               page_number = u32_from_be (byte_slice 0 4 fh);
               db_size = u32_from_be (byte_slice 4 4 fh);
               fsalt1 = u32_from_be (byte_slice 8 4 fh);
               fsalt2 = u32_from_be (byte_slice 12 4 fh);
               stored_ck = (u32_from_be (byte_slice 16 4 fh), u32_from_be (byte_slice 20 4 fh))
           in if fsalt1 \<noteq> wh_salt1 h \<or> fsalt2 \<noteq> wh_salt2 h then []
              else let page = byte_slice frame_header_size page_size rest;
                       after_prefix = wal_checksum (wh_order h) running (byte_slice 0 8 fh);
                       computed = wal_checksum (wh_order h) after_prefix page
                   in if computed \<noteq> stored_ck then []
                      else \<lparr>wf_page_number = page_number, wf_db_size = db_size, wf_page_data = page\<rparr>
                           # parse_frames h computed (drop frame_size rest)
      else [])"
  by pat_completeness auto

termination parse_frames
  by (relation "measure (\<lambda>(_, _, rest). length rest)") (auto simp: frame_header_size_def)

declare parse_frames.simps [simp del]

definition plausible_page_size :: "u32 \<Rightarrow> bool" where
  "plausible_page_size n \<longleftrightarrow> 512 \<le> n \<and> is_power_of_two n"

definition parse_wal :: "byte list \<Rightarrow> repl_error + parsed_wal" where
  "parse_wal bytes =
     (if length bytes < wal_header_size
      then Inl (Malformed (''WAL is '' @ nat_display (length bytes) @
                 '' bytes, shorter than the 32-byte header''))
      else case order_from_magic (u32_from_be (byte_slice 0 4 bytes)) of
        Inl e \<Rightarrow> Inl e
      | Inr order \<Rightarrow>
          let raw_page_size = u32_from_be (byte_slice 8 4 bytes);
              page_size = (if raw_page_size = 1 then 65536 else raw_page_size)
          in if \<not> plausible_page_size page_size
             then Inl (Malformed (''implausible WAL page size '' @ nat_display (unat page_size)))
             else
               let checkpoint_seq = u32_from_be (byte_slice 12 4 bytes);
                   salt1 = u32_from_be (byte_slice 16 4 bytes);
                   salt2 = u32_from_be (byte_slice 20 4 bytes);
                   stored = (u32_from_be (byte_slice 24 4 bytes), u32_from_be (byte_slice 28 4 bytes))
               in if wal_checksum order (0, 0) (byte_slice 0 24 bytes) \<noteq> stored
                  then Inl (Malformed ''WAL header checksum mismatch'')
                  else
                    let header = \<lparr>wh_order = order, wh_page_size = page_size,
                          wh_checkpoint_seq = checkpoint_seq, wh_salt1 = salt1, wh_salt2 = salt2,
                          wh_checksum = stored\<rparr>
                    in Inr \<lparr>pw_header = header,
                            pw_frames = parse_frames header stored (drop wal_header_size bytes)\<rparr>)"

definition wal_header_prefix :: "wal_header \<Rightarrow> byte list" where
  "wal_header_prefix h =
     u32_be (order_magic (wh_order h)) @ u32_be 3007000 @
     u32_be (if wh_page_size h = 65536 then 1 else wh_page_size h) @
     u32_be (wh_checkpoint_seq h) @ u32_be (wh_salt1 h) @ u32_be (wh_salt2 h)"

text \<open>The loop over the frames of \<^verbatim>\<open>encode_wal\<close>, appending to \<open>out\<close>.\<close>

fun encode_frames ::
  "wal_header \<Rightarrow> u32 \<times> u32 \<Rightarrow> byte list \<Rightarrow> wal_frame list \<Rightarrow> repl_error + byte list"
where
  "encode_frames h running out [] = Inr out"
| "encode_frames h running out (f # fs) =
     (if length (wf_page_data f) \<noteq> unat (wh_page_size h)
      then Inl (Malformed (''frame page is '' @ nat_display (length (wf_page_data f)) @
                 '' bytes, expected page_size '' @ nat_display (unat (wh_page_size h))))
      else
        let prefix8 = u32_be (wf_page_number f) @ u32_be (wf_db_size f);
            after_prefix = wal_checksum (wh_order h) running prefix8;
            computed = wal_checksum (wh_order h) after_prefix (wf_page_data f);
            fh = prefix8 @ u32_be (wh_salt1 h) @ u32_be (wh_salt2 h) @
                 u32_be (fst computed) @ u32_be (snd computed)
        in encode_frames h computed (out @ fh @ wf_page_data f) fs)"

definition encode_wal :: "wal_header \<Rightarrow> wal_frame list \<Rightarrow> repl_error + byte list" where
  "encode_wal h frames =
     (let prefix24 = wal_header_prefix h;
          hdr_ck = wal_checksum (wh_order h) (0, 0) prefix24;
          out = prefix24 @ u32_be (fst hdr_ck) @ u32_be (snd hdr_ck)
      in encode_frames h hdr_ck out frames)"

section \<open>Segments\<close>

record wal_segment =
  ws_seq :: nat
  ws_cumulative :: nat
  ws_page_size :: u32
  ws_salt1 :: u32
  ws_salt2 :: u32
  ws_frames :: "wal_frame list"

definition frame_count :: "wal_segment \<Rightarrow> nat" where
  "frame_count s = length (ws_frames s)"

definition encode_segment_frame :: "wal_frame \<Rightarrow> byte list" where
  "encode_segment_frame f = u32_be (wf_page_number f) @ u32_be (wf_db_size f) @ wf_page_data f"

text \<open>\<open>None\<close> is the panic on more than \<^verbatim>\<open>u32::MAX\<close> frames.\<close>

definition encode_segment :: "wal_segment \<Rightarrow> byte list option" where
  "encode_segment s =
     (if 2 ^ 32 \<le> length (ws_frames s) then None
      else Some (segment_magic @ u64_be (ws_seq s) @ u64_be (ws_cumulative s) @
             u32_be (ws_page_size s) @ u32_be (ws_salt1 s) @ u32_be (ws_salt2 s) @
             u32_be (of_nat (length (ws_frames s))) @
             concat (map encode_segment_frame (ws_frames s))))"

definition segment_fixed :: nat where
  "segment_fixed = 4 + 8 + 8 + 4 + 4 + 4 + 4"

fun decode_segment_frames ::
  "nat \<Rightarrow> nat \<Rightarrow> byte list \<Rightarrow> repl_error + wal_frame list"
where
  "decode_segment_frames page_size 0 rest = Inr []"
| "decode_segment_frames page_size (Suc n) rest =
     (if length rest < 8 + page_size
      then Inl (Malformed ''segment truncated before declared frame count'')
      else
        let f = \<lparr>wf_page_number = u32_from_be (byte_slice 0 4 rest), wf_db_size = u32_from_be (byte_slice 4 4 rest),
                 wf_page_data = byte_slice 8 page_size rest\<rparr>
        in case decode_segment_frames page_size n (drop (8 + page_size) rest) of
             Inl e \<Rightarrow> Inl e
           | Inr fs \<Rightarrow> Inr (f # fs))"

definition decode_segment :: "byte list \<Rightarrow> repl_error + wal_segment" where
  "decode_segment bytes =
     (if length bytes < segment_fixed
      then Inl (Malformed (''segment is '' @ nat_display (length bytes) @
                 '' bytes, shorter than the 36-byte header''))
      else if byte_slice 0 4 bytes \<noteq> segment_magic then Inl (Malformed ''segment magic mismatch'')
      else
        let seq = u64_from_be (byte_slice 4 8 bytes);
            cumulative = u64_from_be (byte_slice 12 8 bytes);
            page_size = u32_from_be (byte_slice 20 4 bytes);
            salt1 = u32_from_be (byte_slice 24 4 bytes);
            salt2 = u32_from_be (byte_slice 28 4 bytes);
            count = unat (u32_from_be (byte_slice 32 4 bytes))
        in if \<not> plausible_page_size page_size
           then Inl (Malformed (''segment declares implausible page size '' @ nat_display (unat page_size)))
           else case decode_segment_frames (unat page_size) count (drop segment_fixed bytes) of
             Inl e \<Rightarrow> Inl e
           | Inr frames \<Rightarrow>
               Inr \<lparr>ws_seq = seq, ws_cumulative = cumulative, ws_page_size = page_size,
                    ws_salt1 = salt1, ws_salt2 = salt2, ws_frames = frames\<rparr>)"

section \<open>Reading back what was written\<close>

definition frame_ck :: "wal_header \<Rightarrow> u32 \<times> u32 \<Rightarrow> wal_frame \<Rightarrow> u32 \<times> u32" where
  "frame_ck h running f = wal_checksum (wh_order h)
     (wal_checksum (wh_order h) running (u32_be (wf_page_number f) @ u32_be (wf_db_size f)))
     (wf_page_data f)"

definition frame_bytes :: "wal_header \<Rightarrow> u32 \<times> u32 \<Rightarrow> wal_frame \<Rightarrow> byte list" where
  "frame_bytes h running f = u32_be (wf_page_number f) @ u32_be (wf_db_size f) @
     u32_be (wh_salt1 h) @ u32_be (wh_salt2 h) @
     u32_be (fst (frame_ck h running f)) @ u32_be (snd (frame_ck h running f)) @ wf_page_data f"

fun frames_bytes :: "wal_header \<Rightarrow> u32 \<times> u32 \<Rightarrow> wal_frame list \<Rightarrow> byte list" where
  "frames_bytes h running [] = []"
| "frames_bytes h running (f # fs) = frame_bytes h running f @ frames_bytes h (frame_ck h running f) fs"

definition page_fits :: "wal_header \<Rightarrow> wal_frame \<Rightarrow> bool" where
  "page_fits h f \<longleftrightarrow> length (wf_page_data f) = unat (wh_page_size h)"

definition frame_size_of :: "wal_header \<Rightarrow> nat" where
  "frame_size_of h = frame_header_size + unat (wh_page_size h)"

lemma length_frame_bytes [simp]: "page_fits h f \<Longrightarrow> length (frame_bytes h running f) = frame_size_of h"
  by (simp add: frame_bytes_def page_fits_def frame_size_of_def frame_header_size_def)

lemma length_frames_bytes:
  "list_all (page_fits h) fs \<Longrightarrow> length (frames_bytes h running fs) = length fs * frame_size_of h"
  by (induction fs arbitrary: running) simp_all

lemma encode_frames_ok:
  "list_all (page_fits h) fs \<Longrightarrow> encode_frames h running out fs = Inr (out @ frames_bytes h running fs)"
  by (induction fs arbitrary: running out)
     (simp_all add: Let_def frame_ck_def frame_bytes_def page_fits_def)

lemma encode_frames_bad:
  "\<not> list_all (page_fits h) fs \<Longrightarrow> \<exists>m. encode_frames h running out fs = Inl (Malformed m)"
  by (induction fs arbitrary: running out) (auto simp: Let_def page_fits_def)

lemma parse_frames_short: "length rest < frame_size_of h \<Longrightarrow> parse_frames h running rest = []"
  by (subst parse_frames.simps) (simp add: Let_def frame_size_of_def)

lemma parse_frames_step:
  assumes "page_fits h f"
  shows "parse_frames h running (frame_bytes h running f @ rest)
     = f # parse_frames h (frame_ck h running f) rest"
  using assms
  by (subst parse_frames.simps)
     (simp add: Let_def frame_bytes_def frame_header_size_def slice_append_left page_fits_def
       frame_ck_def byte_slice_def)

lemma parse_torn_frames:
  assumes "list_all (page_fits h) fs"
  shows "parse_frames h running (take n (frames_bytes h running fs)) = take (n div frame_size_of h) fs"
  using assms
proof (induction fs arbitrary: running n)
  case Nil
  have "0 < frame_size_of h" by (simp add: frame_size_of_def frame_header_size_def)
  then show ?case by (simp add: parse_frames_short)
next
  case (Cons f fs)
  show ?case
  proof (cases "n < frame_size_of h")
    case True
    then show ?thesis by (simp add: parse_frames_short)
  next
    case False
    have pos: "0 < frame_size_of h" by (simp add: frame_size_of_def frame_header_size_def)
    from False have "n div frame_size_of h = Suc ((n - frame_size_of h) div frame_size_of h)"
      using pos by (simp add: le_div_geq)
    then show ?thesis using Cons False by (simp add: parse_frames_step)
  qed
qed

lemma parse_all_frames:
  "list_all (page_fits h) fs \<Longrightarrow> parse_frames h running (frames_bytes h running fs) = fs"
  using parse_torn_frames [of h fs running "length (frames_bytes h running fs)"]
  by (simp add: length_frames_bytes frame_size_of_def frame_header_size_def)

definition header_ck :: "wal_header \<Rightarrow> u32 \<times> u32" where
  "header_ck h = wal_checksum (wh_order h) (0, 0) (wal_header_prefix h)"

lemma order_from_magic [simp]: "order_from_magic (order_magic order) = Inr order"
  by (cases order) (simp_all add: order_from_magic_def wal_magic_le_def wal_magic_be_def)

lemma parse_header:
  assumes "plausible_page_size (wh_page_size h)"
  shows "parse_wal (wal_header_prefix h @ u32_be (fst (header_ck h)) @ u32_be (snd (header_ck h)) @ rest) =
    Inr \<lparr>pw_header = h\<lparr>wh_checksum := header_ck h\<rparr>,
         pw_frames = parse_frames (h\<lparr>wh_checksum := header_ck h\<rparr>) (header_ck h) rest\<rparr>"
proof -
  have "wh_page_size h \<noteq> 1" using assms by (auto simp: plausible_page_size_def word_le_nat_alt)
  then show ?thesis using assms
    by (cases h; cases "wh_page_size h = 65536")
       (simp_all add: parse_wal_def wal_header_size_def wal_header_prefix_def Let_def
        slice_append_left header_ck_def byte_slice_def)
qed

lemma frame_ck_checksum [simp]: "frame_ck (h\<lparr>wh_checksum := c\<rparr>) = frame_ck h"
  by (simp add: frame_ck_def fun_eq_iff)

lemma frames_bytes_checksum [simp]: "frames_bytes (h\<lparr>wh_checksum := c\<rparr>) running fs = frames_bytes h running fs"
  by (induction fs arbitrary: running) (simp_all add: frame_bytes_def)

lemma page_fits_checksum [simp]: "page_fits (h\<lparr>wh_checksum := c\<rparr>) = page_fits h"
  by (simp add: page_fits_def fun_eq_iff)

lemma frame_size_checksum [simp]: "frame_size_of (h\<lparr>wh_checksum := c\<rparr>) = frame_size_of h"
  by (simp add: frame_size_of_def)

lemma encode_wal_bytes:
  assumes "encode_wal h fs = Inr bytes"
  shows "list_all (page_fits h) fs \<and>
    bytes = wal_header_prefix h @ u32_be (fst (header_ck h)) @ u32_be (snd (header_ck h)) @
      frames_bytes h (header_ck h) fs"
proof -
  have fits: "list_all (page_fits h) fs"
  proof (rule ccontr)
    assume "\<not> list_all (page_fits h) fs"
    then obtain m where "encode_wal h fs = Inl (Malformed m)"
      using encode_frames_bad unfolding encode_wal_def Let_def by meson
    then show False using assms by simp
  qed
  then show ?thesis using assms by (simp add: encode_wal_def Let_def encode_frames_ok header_ck_def)
qed

lemma encode_wal_parses:
  assumes "list_all (page_fits h) fs" "plausible_page_size (wh_page_size h)"
  shows "\<exists>bytes. encode_wal h fs = Inr bytes \<and>
    parse_wal bytes = Inr \<lparr>pw_header = h\<lparr>wh_checksum := header_ck h\<rparr>, pw_frames = fs\<rparr>"
proof -
  let ?h = "h\<lparr>wh_checksum := header_ck h\<rparr>"
  have "encode_wal h fs = Inr ((wal_header_prefix h @ u32_be (fst (header_ck h)) @ u32_be (snd (header_ck h))) @
      frames_bytes h (header_ck h) fs)"
    using encode_frames_ok [OF assms(1)] by (simp add: encode_wal_def Let_def header_ck_def)
  moreover have "parse_frames ?h (header_ck h) (frames_bytes h (header_ck h) fs) = fs"
    using parse_all_frames [of ?h fs "header_ck h"] assms(1) by simp
  ultimately show ?thesis using parse_header [OF assms(2)] by simp
qed


lemma plausible_512 [simp]: "plausible_page_size 512"
proof -
  have "(9 :: nat) \<in> set [0..<32]" and "unat (512 :: u32) = 2 ^ 9" by simp_all
  then have "is_power_of_two 512" unfolding is_power_of_two_def list_ex_iff by blast
  then show ?thesis by (simp add: plausible_page_size_def)
qed

definition sample_header :: wal_header where
  "sample_header = \<lparr>wh_order = OrderBig, wh_page_size = 512, wh_checkpoint_seq = 0, wh_salt1 = 7,
     wh_salt2 = 9, wh_checksum = (0, 0)\<rparr>"

definition sample_frame :: "u32 \<Rightarrow> u32 \<Rightarrow> byte \<Rightarrow> wal_frame" where
  "sample_frame page pages b =
     \<lparr>wf_page_number = page, wf_db_size = pages, wf_page_data = replicate 512 b\<rparr>"

lemma sample_fits [simp]: "page_fits sample_header (sample_frame p n b)"
  by (simp add: page_fits_def sample_header_def sample_frame_def)


section \<open>Segments on the wire\<close>

definition segment_fits :: "wal_segment \<Rightarrow> bool" where
  "segment_fits s \<longleftrightarrow> list_all (\<lambda>f. length (wf_page_data f) = unat (ws_page_size s)) (ws_frames s) \<and>
     plausible_page_size (ws_page_size s) \<and> ws_seq s < 2 ^ 64 \<and> ws_cumulative s < 2 ^ 64"

lemma decode_frames_ok:
  "list_all (\<lambda>f. length (wf_page_data f) = n) fs \<Longrightarrow>
     decode_segment_frames n (length fs) (concat (map encode_segment_frame fs) @ rest) = Inr fs"
  by (induction fs) (simp_all add: encode_segment_frame_def Let_def slice_append_left byte_slice_def)

lemma decode_frames_lengths:
  "decode_segment_frames n k rest = Inr fs \<Longrightarrow>
     length fs = k \<and> list_all (\<lambda>f. length (wf_page_data f) = n) fs \<and> k * (8 + n) \<le> length rest"
  by (induction k arbitrary: rest fs)
     (force simp: Let_def byte_slice_def split: if_splits sum.splits)+

text \<open>
  A segment survives the wire, whatever follows it in the buffer.
\<close>

theorem segment_wire_roundtrip:
  assumes "segment_fits s" and "encode_segment s = Some bytes"
  shows "decode_segment (bytes @ rest) = Inr s"
proof -
  have n: "unat (of_nat (length (ws_frames s)) :: u32) = length (ws_frames s)"
    using assms(2) by (simp add: encode_segment_def unat_of_nat split: if_splits)
  have u64: "u64_from_be (u64_be (ws_seq s)) = ws_seq s" "u64_from_be (u64_be (ws_cumulative s)) = ws_cumulative s"
    using assms(1) by (simp_all add: segment_fits_def)
  have fits: "list_all (\<lambda>f. length (wf_page_data f) = unat (ws_page_size s)) (ws_frames s)"
    "plausible_page_size (ws_page_size s)" using assms(1) by (simp_all add: segment_fits_def)
  have "bytes = segment_magic @ u64_be (ws_seq s) @ u64_be (ws_cumulative s) @
      u32_be (ws_page_size s) @ u32_be (ws_salt1 s) @ u32_be (ws_salt2 s) @
      u32_be (of_nat (length (ws_frames s))) @ concat (map encode_segment_frame (ws_frames s))"
    using assms(2) by (simp add: encode_segment_def split: if_splits)
  moreover have "length segment_magic = 4" by (simp add: segment_magic_def)
  ultimately show ?thesis
    using u64 fits by (simp add: decode_segment_def segment_fixed_def Let_def slice_append_left n
        byte_slice_def decode_frames_ok [OF fits(1)])
qed

definition sample_segment :: wal_segment where
  "sample_segment = \<lparr>ws_seq = 1, ws_cumulative = 2, ws_page_size = 512, ws_salt1 = 7, ws_salt2 = 9,
     ws_frames = [sample_frame 1 0 5, sample_frame 2 2 6]\<rparr>"

theorem segment_wire_roundtrip_witness:
  "\<exists>bytes. encode_segment sample_segment = Some bytes \<and> decode_segment (bytes @ [1, 2, 3]) = Inr sample_segment"
proof -
  have "segment_fits sample_segment"
    by (simp add: segment_fits_def sample_segment_def sample_frame_def)
  moreover obtain bytes where b: "encode_segment sample_segment = Some bytes"
    by (simp add: encode_segment_def sample_segment_def)
  ultimately show ?thesis using segment_wire_roundtrip [OF _ b] b by blast
qed

text \<open>
  A buffer that decodes at all holds a plausible page size and as many whole frames of that size as
  it declares, so a forged count can never outrun the buffer.
\<close>

lemma decoded_segments_are_whole:
  assumes "decode_segment bytes = Inr s"
  shows "plausible_page_size (ws_page_size s) \<and>
    list_all (\<lambda>f. length (wf_page_data f) = unat (ws_page_size s)) (ws_frames s) \<and>
    segment_fixed + frame_count s * (8 + unat (ws_page_size s)) \<le> length bytes"
  using assms
  by (auto simp: decode_segment_def Let_def frame_count_def dest!: decode_frames_lengths
      split: if_splits sum.splits)

end
