(* ===== verification/Wal_Replication.thy ===== *)
theory Wal_Replication
  imports Wal_Format "HOL-Library.Sublist"
begin

text \<open>
  Shipping and replaying the write-ahead log (\<^verbatim>\<open>substrate_server/src/replication\<close>: \<^verbatim>\<open>mod.rs\<close>,
  \<^verbatim>\<open>memory.rs\<close>, \<^verbatim>\<open>primary.rs\<close>, \<^verbatim>\<open>standby.rs\<close>). The database file of a standby is a byte list; the
  failures of files, of the store and of the transport are arguments. Each turn of the background
  loops is one function; their scheduling is a sequence of calls.
\<close>

section \<open>Shared status\<close>

datatype role = RolePrimary | RoleStandby | RoleDisabled

record replication_shared =
  rs_enabled :: bool
  rs_role :: role
  rs_lag_frames :: nat
  rs_published_total :: nat
  rs_applied_total :: nat
  rs_epoch :: nat
  rs_last_applied_ms :: int

definition shared_disabled :: replication_shared where
  "shared_disabled = \<lparr>rs_enabled = False, rs_role = RoleDisabled, rs_lag_frames = 0,
     rs_published_total = 0, rs_applied_total = 0, rs_epoch = 0, rs_last_applied_ms = -1\<rparr>"

definition shared_enabled :: "role \<Rightarrow> replication_shared" where
  "shared_enabled r = \<lparr>rs_enabled = True, rs_role = r, rs_lag_frames = 0,
     rs_published_total = 0, rs_applied_total = 0, rs_epoch = 0, rs_last_applied_ms = -1\<rparr>"

definition shared_is_writable :: "replication_shared \<Rightarrow> bool" where
  "shared_is_writable s \<longleftrightarrow> rs_role s = RolePrimary \<or> rs_role s = RoleDisabled"

definition record_applied :: "int \<Rightarrow> nat \<Rightarrow> replication_shared \<Rightarrow> replication_shared" where
  "record_applied now_ms applied_frames s =
     s\<lparr>rs_applied_total := applied_frames, rs_last_applied_ms := now_ms\<rparr>"

record replication_status =
  st_enabled :: bool
  st_role :: role
  st_lag_frames :: nat
  st_published_total :: nat
  st_applied_total :: nat
  st_epoch :: nat
  st_last_applied_at :: "int option"

definition shared_snapshot :: "replication_shared \<Rightarrow> replication_status" where
  "shared_snapshot s = \<lparr>st_enabled = rs_enabled s, st_role = rs_role s, st_lag_frames = rs_lag_frames s,
     st_published_total = rs_published_total s, st_applied_total = rs_applied_total s,
     st_epoch = rs_epoch s,
     st_last_applied_at = (if rs_last_applied_ms s < 0 then None else Some (rs_last_applied_ms s))\<rparr>"

section \<open>The shipper\<close>

record wal_shipper =
  sh_shipped :: nat
  sh_cumulative :: nat
  sh_next_seq :: nat
  sh_last_salts :: "(u32 \<times> u32) option"

definition shipper_new :: wal_shipper where
  "shipper_new = \<lparr>sh_shipped = 0, sh_cumulative = 0, sh_next_seq = 1, sh_last_salts = None\<rparr>"

text \<open>\<^verbatim>\<open>Iterator::rposition\<close>: the index of the last element that satisfies the predicate.\<close>

definition rposition :: "('a \<Rightarrow> bool) \<Rightarrow> 'a list \<Rightarrow> nat option" where
  "rposition P xs =
     (let tail = dropWhile (\<lambda>x. \<not> P x) (rev xs) in if tail = [] then None else Some (length tail - 1))"

definition next_segment ::
  "byte list \<Rightarrow> wal_shipper \<Rightarrow> (repl_error + wal_segment option) \<times> wal_shipper"
where
  "next_segment wal_bytes sh =
     (case parse_wal wal_bytes of
        Inl e \<Rightarrow> (Inl e, sh)
      | Inr parsed \<Rightarrow>
          let salts = (wh_salt1 (pw_header parsed), wh_salt2 (pw_header parsed));
              sh1 = (if sh_last_salts sh \<noteq> Some salts
                     then sh\<lparr>sh_shipped := 0, sh_last_salts := Some salts\<rparr> else sh)
          in if length (pw_frames parsed) \<le> sh_shipped sh1 then (Inr None, sh1)
             else
               let new_frames = drop (sh_shipped sh1) (pw_frames parsed)
               in case rposition is_commit new_frames of
                    None \<Rightarrow> (Inr None, sh1)
                  | Some last_commit \<Rightarrow>
                      let to_ship = take (Suc last_commit) new_frames;
                          shipped = length to_ship;
                          sh2 = sh1\<lparr>sh_shipped := sh_shipped sh1 + shipped,
                                    sh_cumulative := sh_cumulative sh1 + shipped,
                                    sh_next_seq := sh_next_seq sh1 + 1\<rparr>
                      in (Inr (Some \<lparr>ws_seq = sh_next_seq sh1, ws_cumulative = sh_cumulative sh2,
                                     ws_page_size = wh_page_size (pw_header parsed),
                                     ws_salt1 = wh_salt1 (pw_header parsed),
                                     ws_salt2 = wh_salt2 (pw_header parsed), ws_frames = to_ship\<rparr>),
                          sh2))"

section \<open>The transport\<close>

text \<open>The in-process bus: an ordered log that is never cut. A subscriber has a cursor into it.\<close>

record wal_bus =
  bus_log :: "wal_segment list"

definition bus_new :: wal_bus where
  "bus_new = \<lparr>bus_log = []\<rparr>"

definition bus_publish :: "wal_segment \<Rightarrow> wal_bus \<Rightarrow> (repl_error + unit) \<times> wal_bus" where
  "bus_publish seg b = (Inr (), b\<lparr>bus_log := bus_log b @ [seg]\<rparr>)"

definition bus_pending :: "nat \<Rightarrow> wal_bus \<Rightarrow> wal_segment list" where
  "bus_pending cursor b = (if cursor < length (bus_log b) then drop cursor (bus_log b) else [])"

definition bus_latest_watermark :: "wal_bus \<Rightarrow> repl_error + nat" where
  "bus_latest_watermark b = Inr (if bus_log b = [] then 0 else ws_cumulative (last (bus_log b)))"

section \<open>The primary\<close>

record primary_replicator =
  pr_shipper :: wal_shipper
  pr_shared :: replication_shared

definition primary_new :: "replication_shared \<Rightarrow> primary_replicator" where
  "primary_new shared = \<lparr>pr_shipper = shipper_new, pr_shared = shared\<rparr>"

text \<open>\<open>publish\<close> is the \<^verbatim>\<open>WalBus\<close> the replicator is generic over.\<close>

definition ship_once ::
  "(wal_segment \<Rightarrow> 'b \<Rightarrow> (repl_error + unit) \<times> 'b) \<Rightarrow> byte list \<Rightarrow> primary_replicator \<times> 'b
   \<Rightarrow> (repl_error + nat) \<times> primary_replicator \<times> 'b"
where
  "ship_once publish wal_bytes st =
     (let (p, bus) = st in
      case next_segment wal_bytes (pr_shipper p) of
        (Inl e, sh) \<Rightarrow> (Inl e, p\<lparr>pr_shipper := sh\<rparr>, bus)
      | (Inr None, sh) \<Rightarrow> (Inr 0, p\<lparr>pr_shipper := sh\<rparr>, bus)
      | (Inr (Some segment), sh) \<Rightarrow>
          (case publish segment bus of
             (Inl e, bus1) \<Rightarrow> (Inl e, p\<lparr>pr_shipper := sh\<rparr>, bus1)
           | (Inr _, bus1) \<Rightarrow>
               (Inr (frame_count segment),
                p\<lparr>pr_shipper := sh, pr_shared := (pr_shared p)\<lparr>rs_published_total := sh_cumulative sh\<rparr>\<rparr>,
                bus1)))"

text \<open>One tick of the loop, given what draining the sidecar file returned.\<close>

definition primary_tick ::
  "(wal_segment \<Rightarrow> 'b \<Rightarrow> (repl_error + unit) \<times> 'b) \<Rightarrow> repl_error + byte list
   \<Rightarrow> primary_replicator \<times> 'b \<Rightarrow> primary_replicator \<times> 'b"
where
  "primary_tick publish drained st =
     (case drained of
        Inl e \<Rightarrow> st
      | Inr bytes \<Rightarrow> if bytes = [] then st else snd (ship_once publish bytes st))"

section \<open>The standby\<close>

text \<open>Files: reading past the end, writing at an offset (a gap is filled with zeros), resizing.\<close>

definition byte_at :: "byte list \<Rightarrow> nat \<Rightarrow> byte" where
  "byte_at f i = (if i < length f then f ! i else 0)"

definition write_at :: "nat \<Rightarrow> byte list \<Rightarrow> byte list \<Rightarrow> byte list" where
  "write_at off data f =
     (if data = [] then f
      else let g = f @ replicate (off - length f) 0
           in take off g @ data @ drop (off + length data) g)"

definition set_len :: "nat \<Rightarrow> byte list \<Rightarrow> byte list" where
  "set_len n f = take n f @ replicate (n - length f) 0"

text \<open>Where file operations fail; a failed write has put a prefix of its data into the file.\<close>

record file_faults =
  ff_open :: "string option"
  ff_seek :: "nat \<Rightarrow> string option"
  ff_write :: "nat \<Rightarrow> (nat \<times> string) option"
  ff_set_len :: "string option"
  ff_sync :: "string option"

definition no_faults :: file_faults where
  "no_faults = \<lparr>ff_open = None, ff_seek = (\<lambda>_. None), ff_write = (\<lambda>_. None), ff_set_len = None,
     ff_sync = None\<rparr>"

fun write_pages ::
  "file_faults \<Rightarrow> nat \<Rightarrow> nat \<Rightarrow> (u32 \<times> byte list) list \<Rightarrow> byte list \<Rightarrow> (repl_error + unit) \<times> byte list"
where
  "write_pages ff page_size i [] f = (Inr (), f)"
| "write_pages ff page_size i ((page_number, page_data) # frames) f =
     (let offset = (unat page_number - 1) * page_size in
      case ff_seek ff i of
        Some e \<Rightarrow> (Inl (Transport (''seek: '' @ e)), f)
      | None \<Rightarrow>
          case ff_write ff i of
            Some (n, e) \<Rightarrow> (Inl (Transport (''write page: '' @ e)), write_at offset (take n page_data) f)
          | None \<Rightarrow> write_pages ff page_size (Suc i) frames (write_at offset page_data f))"

definition write_segment_to_file ::
  "file_faults \<Rightarrow> string \<Rightarrow> nat \<Rightarrow> u32 option \<Rightarrow> (u32 \<times> byte list) list \<Rightarrow> byte list
   \<Rightarrow> (repl_error + unit) \<times> byte list"
where
  "write_segment_to_file ff db_path page_size db_pages frames f =
     (case ff_open ff of
        Some e \<Rightarrow> (Inl (Transport (''opening standby db '' @ db_path @ '': '' @ e)), f)
      | None \<Rightarrow>
          case write_pages ff page_size 0 frames f of
            (Inl e, f1) \<Rightarrow> (Inl e, f1)
          | (Inr _, f1) \<Rightarrow>
              let (r, f2) =
                (case db_pages of
                   None \<Rightarrow> (Inr (), f1)
                 | Some pages \<Rightarrow>
                     (case ff_set_len ff of
                        Some e \<Rightarrow> (Inl (Transport (''set_len: '' @ e)), f1)
                      | None \<Rightarrow> (Inr (), set_len (unat pages * page_size) f1)))
              in case r of
                   Inl e \<Rightarrow> (Inl e, f2)
                 | Inr _ \<Rightarrow>
                     (case ff_sync ff of
                        Some e \<Rightarrow> (Inl (Transport (''fsync: '' @ e)), f2)
                      | None \<Rightarrow> (Inr (), f2)))"

record standby_replicator =
  sb_shared :: replication_shared
  sb_db_path :: string
  sb_has_handle :: bool
  sb_last_salts :: "(u32 \<times> u32) option"
  sb_last_seq :: nat
  sb_applied :: nat
  sb_expected_page_size :: "u32 option"

definition standby_new :: "replication_shared \<Rightarrow> string \<Rightarrow> standby_replicator" where
  "standby_new shared path = \<lparr>sb_shared = shared, sb_db_path = path, sb_has_handle = False,
     sb_last_salts = None, sb_last_seq = 0, sb_applied = 0, sb_expected_page_size = None\<rparr>"

definition standby_with_db_handle :: "bool \<Rightarrow> standby_replicator \<Rightarrow> standby_replicator" where
  "standby_with_db_handle handle sb = sb\<lparr>sb_has_handle := handle\<rparr>"

text \<open>
  What one call meets outside: the store's page size, the clock, the file failures, and the lock
  helper of the store, which can fail before the write runs or, re-opening, after it.
\<close>

record standby_env =
  se_page_size :: "string + u32"
  se_now_ms :: int
  se_faults :: file_faults
  se_lock :: "string option"
  se_reopen :: "string option"

definition locked_write ::
  "standby_env \<Rightarrow> bool \<Rightarrow> (byte list \<Rightarrow> (repl_error + unit) \<times> byte list) \<Rightarrow> byte list
   \<Rightarrow> (repl_error + unit) \<times> byte list"
where
  "locked_write env has_handle action f =
     (if \<not> has_handle then action f
      else case se_lock env of
        Some e \<Rightarrow> (Inl (Transport (''standby store handle unavailable: '' @ e)), f)
      | None \<Rightarrow>
          let (r, f1) = action f in
          case se_reopen env of
            Some e \<Rightarrow> (Inl (Transport (''standby store handle unavailable: '' @ e)), f1)
          | None \<Rightarrow> (r, f1))"

definition check_page_size ::
  "standby_env \<Rightarrow> wal_segment \<Rightarrow> standby_replicator \<Rightarrow> (repl_error + unit) \<times> standby_replicator"
where
  "check_page_size env seg sb =
     (if \<not> sb_has_handle sb then (Inr (), sb)
      else
        let (r, sb1) =
          (case sb_expected_page_size sb of
             Some _ \<Rightarrow> (Inr (), sb)
           | None \<Rightarrow>
               (case se_page_size env of
                  Inl e \<Rightarrow> (Inl (Transport (''reading store cipher_page_size: '' @ e)), sb)
                | Inr n \<Rightarrow> (Inr (), sb\<lparr>sb_expected_page_size := Some n\<rparr>)))
        in case r of
             Inl e \<Rightarrow> (Inl e, sb1)
           | Inr _ \<Rightarrow>
               (case sb_expected_page_size sb1 of
                  None \<Rightarrow> (Inr (), sb1)
                | Some expected \<Rightarrow>
                    if ws_page_size seg \<noteq> expected
                    then (Inl (Misconfigured (''WAL segment page_size '' @
                            nat_display (unat (ws_page_size seg)) @
                            '' does not match the local store's cipher_page_size '' @
                            nat_display (unat expected) @
                            '': raw page applies would be misaligned and undecryptable'')), sb1)
                    else (Inr (), sb1)))"

definition last_commit_size :: "wal_frame list \<Rightarrow> u32 option" where
  "last_commit_size fs = map_option wf_db_size (find is_commit (rev fs))"

definition apply_segment ::
  "standby_env \<Rightarrow> wal_segment \<Rightarrow> standby_replicator \<times> byte list
   \<Rightarrow> (repl_error + nat) \<times> standby_replicator \<times> byte list"
where
  "apply_segment env seg st =
     (let (sb, f) = st;
          salts = (ws_salt1 seg, ws_salt2 seg);
          sb1 = (if sb_last_salts sb \<noteq> Some salts
                 then sb\<lparr>sb_last_salts := Some salts, sb_last_seq := 0\<rparr> else sb)
      in if ws_seq seg \<le> sb_last_seq sb1
         then (Inr 0, sb1\<lparr>sb_shared := record_applied (se_now_ms env) (sb_applied sb1) (sb_shared sb1)\<rparr>, f)
         else if list_ex (\<lambda>fr. wf_page_number fr = 0) (ws_frames seg)
         then (Inl (Malformed ''WAL frame has page_number 0 (pages are 1-based)''), sb1, f)
         else case check_page_size env seg sb1 of
           (Inl e, sb2) \<Rightarrow> (Inl e, sb2, f)
         | (Inr _, sb2) \<Rightarrow>
             (case locked_write env (sb_has_handle sb2)
                (write_segment_to_file (se_faults env) (sb_db_path sb2) (unat (ws_page_size seg))
                  (last_commit_size (ws_frames seg))
                  (map (\<lambda>fr. (wf_page_number fr, wf_page_data fr)) (ws_frames seg))) f of
                (Inl e, f1) \<Rightarrow> (Inl e, sb2, f1)
              | (Inr _, f1) \<Rightarrow>
                  let sb3 = sb2\<lparr>sb_last_seq := ws_seq seg, sb_applied := ws_cumulative seg\<rparr>
                  in (Inr (frame_count seg),
                      sb3\<lparr>sb_shared := record_applied (se_now_ms env) (sb_applied sb3) (sb_shared sb3)\<rparr>,
                      f1)))"

definition refresh_lag :: "repl_error + nat \<Rightarrow> standby_replicator \<Rightarrow> standby_replicator" where
  "refresh_lag watermark sb =
     (case watermark of
        Inr w \<Rightarrow> sb\<lparr>sb_shared := (sb_shared sb)\<lparr>rs_lag_frames := w - sb_applied sb\<rparr>\<rparr>
      | Inl e \<Rightarrow> sb)"

text \<open>One received segment in the loop: apply, log a failure, refresh the lag.\<close>

definition standby_receive ::
  "standby_env \<Rightarrow> repl_error + nat \<Rightarrow> wal_segment \<Rightarrow> standby_replicator \<times> byte list
   \<Rightarrow> standby_replicator \<times> byte list"
where
  "standby_receive env watermark seg st =
     (case apply_segment env seg st of (_, sb, f) \<Rightarrow> (refresh_lag watermark sb, f))"

section \<open>What is shipped\<close>

text \<open>The committed part of a run of frames: everything up to the last commit frame.\<close>

definition committed :: "wal_frame list \<Rightarrow> wal_frame list" where
  "committed fs = rev (dropWhile (\<lambda>f. \<not> is_commit f) (rev fs))"

lemma committed_Nil [simp]: "committed [] = []"
  by (simp add: committed_def)

lemma committed_append:
  "committed (xs @ ys) = (if list_ex is_commit ys then xs @ committed ys else committed xs)"
proof -
  have "(\<exists>f \<in> set (rev ys). is_commit f) \<longleftrightarrow> list_ex is_commit ys" by (simp add: list_ex_iff)
  then show ?thesis by (auto simp: committed_def dropWhile_append list_ex_iff)
qed

lemma committed_none: "\<not> list_ex is_commit fs \<Longrightarrow> committed fs = []"
  by (simp add: committed_def list_ex_iff)

lemma committed_some: "list_ex is_commit fs \<Longrightarrow> committed fs \<noteq> []"
  by (simp add: committed_def list_ex_iff)

lemma committed_take: "committed fs = take (length (committed fs)) fs"
proof -
  have "fs = committed fs @ rev (takeWhile (\<lambda>f. \<not> is_commit f) (rev fs))"
    unfolding committed_def by (metis rev_append rev_rev_ident takeWhile_dropWhile_id)
  then show ?thesis by (metis append_eq_conv_conj)
qed

lemma committed_idem [simp]: "committed (committed fs) = committed fs"
  by (simp add: committed_def dropWhile_idem)

lemma committed_continue: "committed (committed xs @ ys) = committed xs @ committed ys"
  by (cases "list_ex is_commit ys") (simp_all add: committed_append committed_none)

lemma committed_last: "committed fs \<noteq> [] \<Longrightarrow> is_commit (last (committed fs))"
  by (metis committed_def hd_dropWhile last_rev rev.simps(1) rev_rev_ident)

lemma rposition_committed:
  "rposition is_commit fs = (if committed fs = [] then None else Some (length (committed fs) - 1))"
  by (simp add: rposition_def committed_def Let_def)

lemma committed_prefix:
  assumes "prefix xs ys"
  shows "committed ys = committed xs @ committed (drop (length (committed xs)) ys)"
proof -
  from assms obtain zs where ys: "ys = xs @ zs" by (auto simp: prefix_def)
  have "length (committed xs) \<le> length xs" by (metis committed_take length_take min.cobounded1)
  then have "take (length (committed xs)) ys = committed xs"
    using committed_take [of xs] by (simp add: ys)
  then have "ys = committed xs @ drop (length (committed xs)) ys"
    by (metis append_take_drop_id)
  then show ?thesis by (metis committed_continue)
qed

definition wal_salts :: "parsed_wal \<Rightarrow> u32 \<times> u32" where
  "wal_salts w = (wh_salt1 (pw_header w), wh_salt2 (pw_header w))"

definition shipper_offset :: "u32 \<times> u32 \<Rightarrow> wal_shipper \<Rightarrow> nat" where
  "shipper_offset salts sh = (if sh_last_salts sh = Some salts then sh_shipped sh else 0)"

lemma next_segment_spec:
  fixes sh :: wal_shipper and b :: "byte list" and w :: parsed_wal
  assumes "parse_wal b = Inr w"
  defines "fs \<equiv> committed (drop (shipper_offset (wal_salts w) sh) (pw_frames w))"
  shows "shipper_offset (wal_salts w) (snd (next_segment b sh)) = shipper_offset (wal_salts w) sh + length fs"
    and "sh_last_salts (snd (next_segment b sh)) = Some (wal_salts w)"
    and "sh_cumulative (snd (next_segment b sh)) = sh_cumulative sh + length fs"
    and "sh_next_seq (snd (next_segment b sh)) = sh_next_seq sh + (if fs = [] then 0 else 1)"
    and "fst (next_segment b sh) = Inr (if fs = [] then None
      else Some \<lparr>ws_seq = sh_next_seq sh, ws_cumulative = sh_cumulative sh + length fs,
        ws_page_size = wh_page_size (pw_header w), ws_salt1 = fst (wal_salts w),
        ws_salt2 = snd (wal_salts w), ws_frames = fs\<rparr>)"
proof -
  have "take (length fs) (drop (shipper_offset (wal_salts w) sh) (pw_frames w)) = fs"
    unfolding fs_def by (metis committed_take)
  moreover have "length fs \<le> length (drop (shipper_offset (wal_salts w) sh) (pw_frames w))"
    unfolding fs_def by (metis committed_take length_take min.cobounded1)
  ultimately show
    "shipper_offset (wal_salts w) (snd (next_segment b sh)) = shipper_offset (wal_salts w) sh + length fs"
    "sh_last_salts (snd (next_segment b sh)) = Some (wal_salts w)"
    "sh_cumulative (snd (next_segment b sh)) = sh_cumulative sh + length fs"
    "sh_next_seq (snd (next_segment b sh)) = sh_next_seq sh + (if fs = [] then 0 else 1)"
    "fst (next_segment b sh) = Inr (if fs = [] then None
      else Some \<lparr>ws_seq = sh_next_seq sh, ws_cumulative = sh_cumulative sh + length fs,
        ws_page_size = wh_page_size (pw_header w), ws_salt1 = fst (wal_salts w),
        ws_salt2 = snd (wal_salts w), ws_frames = fs\<rparr>)"
    using assms(1)
    by (auto simp: next_segment_def Let_def wal_salts_def shipper_offset_def rposition_committed fs_def
        split: option.splits)
qed

text \<open>The segments shipped for a series of snapshots of the log.\<close>

fun ship_run :: "byte list list \<Rightarrow> wal_shipper \<Rightarrow> wal_segment list" where
  "ship_run [] sh = []"
| "ship_run (b # bs) sh =
     (case fst (next_segment b sh) of
        Inr (Some seg) \<Rightarrow> seg # ship_run bs (snd (next_segment b sh))
      | _ \<Rightarrow> ship_run bs (snd (next_segment b sh)))"

text \<open>
  Snapshots of one generation: the same salts and page size, and every snapshot extends the one
  before; \<open>gs\<close> are the frames of the last.
\<close>

fun generation ::
  "u32 \<times> u32 \<Rightarrow> u32 \<Rightarrow> wal_frame list \<Rightarrow> byte list list \<Rightarrow> wal_frame list \<Rightarrow> bool"
where
  "generation salts ps fs [] gs \<longleftrightarrow> gs = fs"
| "generation salts ps fs (b # bs) gs \<longleftrightarrow>
     (case parse_wal b of
        Inl _ \<Rightarrow> False
      | Inr w \<Rightarrow> wal_salts w = salts \<and> wh_page_size (pw_header w) = ps \<and>
          prefix fs (pw_frames w) \<and> generation salts ps (pw_frames w) bs gs)"

lemma ship_run_committed:
  assumes "generation salts ps fs bs gs" "shipper_offset salts sh = length (committed fs)"
  shows "committed fs @ concat (map ws_frames (ship_run bs sh)) = committed gs"
  using assms
proof (induction bs arbitrary: fs sh)
  case (Cons b bs)
  then obtain w where w: "parse_wal b = Inr w" "wal_salts w = salts" "prefix fs (pw_frames w)"
    "generation salts ps (pw_frames w) bs gs" "wh_page_size (pw_header w) = ps" by (auto split: sum.splits)
  let ?new = "committed (drop (shipper_offset salts sh) (pw_frames w))"
  have new: "committed (pw_frames w) = committed fs @ ?new"
    using committed_prefix [OF w(3)] Cons.prems(2) by simp
  note spec = next_segment_spec [OF w(1), of sh, unfolded w(2)]
  have "shipper_offset salts (snd (next_segment b sh)) = length (committed (pw_frames w))"
    using spec(1) Cons.prems(2) new by simp
  note ih = Cons.IH [OF w(4) this]
  show ?case using ih new spec(5) by (auto split: if_splits)
qed simp

lemma ship_run_numbers:
  assumes "generation salts ps fs bs gs"
  shows "map ws_seq (ship_run bs sh) = [sh_next_seq sh ..< sh_next_seq sh + length (ship_run bs sh)] \<and>
    (\<forall>k < length (ship_run bs sh). ws_cumulative (ship_run bs sh ! k) =
       sh_cumulative sh + length (concat (map ws_frames (take (Suc k) (ship_run bs sh))))) \<and>
    list_all (\<lambda>seg. ws_frames seg \<noteq> [] \<and> is_commit (last (ws_frames seg)) \<and>
       (ws_salt1 seg, ws_salt2 seg) = salts \<and> ws_page_size seg = ps) (ship_run bs sh)"
  using assms
proof (induction bs arbitrary: fs sh)
  case (Cons b bs)
  then obtain w where w: "parse_wal b = Inr w" "wal_salts w = salts"
    "generation salts ps (pw_frames w) bs gs" "wh_page_size (pw_header w) = ps" by (auto split: sum.splits)
  let ?new = "committed (drop (shipper_offset salts sh) (pw_frames w))"
  note spec = next_segment_spec [OF w(1), of sh, unfolded w(2)]
  note ih = Cons.IH [OF w(3), of "snd (next_segment b sh)"]
  show ?case
  proof (cases "?new = []")
    case True
    then show ?thesis using ih spec by simp
  next
    case False
    let ?sh = "snd (next_segment b sh)"
    let ?R = "ship_run bs ?sh"
    obtain seg where seg: "fst (next_segment b sh) = Inr (Some seg)" "ws_seq seg = sh_next_seq sh"
      "ws_cumulative seg = sh_cumulative sh + length ?new" "ws_frames seg = ?new"
      "(ws_salt1 seg, ws_salt2 seg) = salts" "ws_page_size seg = ps"
      using spec(5) False w(4) by simp
    have run: "ship_run (b # bs) sh = seg # ?R" using seg(1) by simp
    have seq: "sh_next_seq ?sh = Suc (sh_next_seq sh)" using spec(4) False by simp
    have 1: "map ws_seq (seg # ?R) = [sh_next_seq sh ..< sh_next_seq sh + length (seg # ?R)]"
    proof -
      have "[n ..< n + Suc m] = n # [Suc n ..< Suc n + m]" for n m :: nat by (simp add: upt_conv_Cons)
      moreover have "map ws_seq ?R = [Suc (sh_next_seq sh) ..< Suc (sh_next_seq sh) + length ?R]"
        using ih by (simp only: seq)
      ultimately show ?thesis using seg(2) by (simp only: list.map list.size add_Suc_right plus_nat.add_0 One_nat_def)
          (simp only: add_Suc_right [symmetric] add_0_right)
    qed
    have 2: "\<forall>k < length (seg # ?R). ws_cumulative ((seg # ?R) ! k) =
        sh_cumulative sh + length (concat (map ws_frames (take (Suc k) (seg # ?R))))"
    proof (intro allI impI)
      fix k assume "k < length (seg # ?R)"
      then show "ws_cumulative ((seg # ?R) ! k) =
          sh_cumulative sh + length (concat (map ws_frames (take (Suc k) (seg # ?R))))"
        using ih spec(3) seg(3,4) by (cases k) simp_all
    qed
    have "is_commit (last ?new)" using committed_last [OF False] .
    then show ?thesis using 1 2 ih seg(4-6) False unfolding run by simp
  qed
qed simp

lemma ship_run_exact:
  assumes "generation salts ps [] bs gs" and "sh_last_salts sh \<noteq> Some salts"
  shows "concat (map ws_frames (ship_run bs sh)) = committed gs \<and>
    map ws_seq (ship_run bs sh) = [sh_next_seq sh ..< sh_next_seq sh + length (ship_run bs sh)] \<and>
    (\<forall>k < length (ship_run bs sh). ws_cumulative (ship_run bs sh ! k) =
       sh_cumulative sh + length (concat (map ws_frames (take (Suc k) (ship_run bs sh))))) \<and>
    list_all (\<lambda>seg. ws_frames seg \<noteq> [] \<and> is_commit (last (ws_frames seg)) \<and>
       (ws_salt1 seg, ws_salt2 seg) = salts \<and> ws_page_size seg = ps) (ship_run bs sh)"
  using ship_run_committed [OF assms(1), of sh] ship_run_numbers [OF assms(1), of sh] assms(2)
  by (simp add: shipper_offset_def)

section \<open>What is replayed\<close>

definition write_frame :: "nat \<Rightarrow> wal_frame \<Rightarrow> byte list \<Rightarrow> byte list" where
  "write_frame ps fr = write_at ((unat (wf_page_number fr) - 1) * ps) (wf_page_data fr)"

definition splice_segment :: "wal_segment \<Rightarrow> byte list \<Rightarrow> byte list" where
  "splice_segment seg f =
     (let ps = unat (ws_page_size seg); f1 = fold (write_frame ps) (ws_frames seg) f in
      case last_commit_size (ws_frames seg) of None \<Rightarrow> f1 | Some n \<Rightarrow> set_len (unat n * ps) f1)"

definition healthy :: "standby_env \<Rightarrow> bool" where
  "healthy env \<longleftrightarrow> se_faults env = no_faults \<and> se_lock env = None \<and> se_reopen env = None"

definition acceptable :: "standby_env \<Rightarrow> standby_replicator \<Rightarrow> wal_segment \<Rightarrow> bool" where
  "acceptable env sb seg \<longleftrightarrow> list_all (\<lambda>fr. wf_page_number fr \<noteq> 0) (ws_frames seg) \<and>
     (sb_has_handle sb \<longrightarrow>
        (case sb_expected_page_size sb of
           Some n \<Rightarrow> n = ws_page_size seg | None \<Rightarrow> se_page_size env = Inr (ws_page_size seg)))"

definition standby_seq :: "u32 \<times> u32 \<Rightarrow> standby_replicator \<Rightarrow> nat" where
  "standby_seq salts sb = (if sb_last_salts sb = Some salts then sb_last_seq sb else 0)"

lemma no_faults_sel [simp]:
  "ff_open no_faults = None" "ff_seek no_faults i = None" "ff_write no_faults i = None"
  "ff_set_len no_faults = None" "ff_sync no_faults = None"
  by (simp_all add: no_faults_def)

lemma write_pages_ok:
  "write_pages no_faults ps i (map (\<lambda>fr. (wf_page_number fr, wf_page_data fr)) frs) f
     = (Inr (), fold (write_frame ps) frs f)"
  by (induction frs arbitrary: i f) (simp_all add: write_frame_def)

lemma write_segment_ok:
  "write_segment_to_file no_faults path (unat (ws_page_size seg)) (last_commit_size (ws_frames seg))
     (map (\<lambda>fr. (wf_page_number fr, wf_page_data fr)) (ws_frames seg)) f = (Inr (), splice_segment seg f)"
  by (simp add: write_segment_to_file_def write_pages_ok splice_segment_def Let_def split: option.splits)

lemma check_page_size_ok:
  assumes "acceptable env sb seg"
  shows "fst (check_page_size env seg sb) = Inr () \<and>
    snd (check_page_size env seg sb) = sb\<lparr>sb_expected_page_size :=
      (if sb_has_handle sb then Some (ws_page_size seg) else sb_expected_page_size sb)\<rparr>"
  using assms by (auto simp: check_page_size_def acceptable_def Let_def split: option.splits)

lemma list_all_nonzero: "list_all (\<lambda>fr. wf_page_number fr \<noteq> 0) frs \<longleftrightarrow> \<not> list_ex (\<lambda>fr. wf_page_number fr = 0) frs"
  by (simp add: list_all_iff list_ex_iff)

lemma apply_segment_ok:
  fixes f :: "byte list"
  assumes "healthy env" "acceptable env sb seg"
  defines "salts \<equiv> (ws_salt1 seg, ws_salt2 seg)"
  defines "res \<equiv> apply_segment env seg (sb, f)"
  shows "snd (snd res) = (if ws_seq seg \<le> standby_seq salts sb then f else splice_segment seg f)"
    and "standby_seq salts (fst (snd res)) = max (standby_seq salts sb) (ws_seq seg)"
    and "sb_last_salts (fst (snd res)) = Some salts"
    and "sb_applied (fst (snd res)) =
      (if ws_seq seg \<le> standby_seq salts sb then sb_applied sb else ws_cumulative seg)"
    and "sb_has_handle (fst (snd res)) = sb_has_handle sb"
    and "sb_expected_page_size (fst (snd res)) =
      (if sb_has_handle sb \<and> standby_seq salts sb < ws_seq seg then Some (ws_page_size seg)
       else sb_expected_page_size sb)"
proof -
  let ?sb1 = "if sb_last_salts sb \<noteq> Some salts
    then sb\<lparr>sb_last_salts := Some salts, sb_last_seq := 0\<rparr> else sb"
  have acc: "acceptable env ?sb1 seg" using assms(2) by (simp add: acceptable_def)
  have chk: "check_page_size env seg ?sb1 = (Inr (), ?sb1\<lparr>sb_expected_page_size :=
      (if sb_has_handle ?sb1 then Some (ws_page_size seg) else sb_expected_page_size ?sb1)\<rparr>)"
    using check_page_size_ok [OF acc] by (metis prod.collapse)
  have nz: "\<not> list_ex (\<lambda>fr. wf_page_number fr = 0) (ws_frames seg)"
    using assms(2) by (simp add: acceptable_def list_all_nonzero)
  have lw: "locked_write env b (write_segment_to_file (se_faults env) path (unat (ws_page_size seg))
      (last_commit_size (ws_frames seg))
      (map (\<lambda>fr. (wf_page_number fr, wf_page_data fr)) (ws_frames seg))) f = (Inr (), splice_segment seg f)"
    for b path using assms(1) by (simp add: locked_write_def healthy_def write_segment_ok)
  have seq: "sb_last_seq ?sb1 = standby_seq salts sb" by (simp add: standby_seq_def)
  have res: "res = (if ws_seq seg \<le> standby_seq salts sb
     then (Inr 0, ?sb1\<lparr>sb_shared := record_applied (se_now_ms env) (sb_applied ?sb1) (sb_shared ?sb1)\<rparr>, f)
     else let sb3 = ?sb1\<lparr>sb_expected_page_size :=
                (if sb_has_handle ?sb1 then Some (ws_page_size seg) else sb_expected_page_size ?sb1),
                sb_last_seq := ws_seq seg, sb_applied := ws_cumulative seg\<rparr>
       in (Inr (frame_count seg),
           sb3\<lparr>sb_shared := record_applied (se_now_ms env) (sb_applied sb3) (sb_shared sb3)\<rparr>, splice_segment seg f))"
    unfolding res_def apply_segment_def Let_def prod.case salts_def [symmetric] seq
    by (simp only: nz chk lw if_False prod.case sum.case)
  show "snd (snd res) = (if ws_seq seg \<le> standby_seq salts sb then f else splice_segment seg f)"
    "standby_seq salts (fst (snd res)) = max (standby_seq salts sb) (ws_seq seg)"
    "sb_last_salts (fst (snd res)) = Some salts"
    "sb_applied (fst (snd res)) =
      (if ws_seq seg \<le> standby_seq salts sb then sb_applied sb else ws_cumulative seg)"
    "sb_has_handle (fst (snd res)) = sb_has_handle sb"
    "sb_expected_page_size (fst (snd res)) =
      (if sb_has_handle sb \<and> standby_seq salts sb < ws_seq seg then Some (ws_page_size seg)
       else sb_expected_page_size sb)"
    by (simp_all add: res Let_def standby_seq_def)
qed

text \<open>At-least-once delivery: any segment already delivered may come again at any later time.\<close>

inductive redelivery :: "wal_segment list \<Rightarrow> wal_segment list \<Rightarrow> bool" where
  redelivery_nil: "redelivery [] []"
| redelivery_new: "redelivery segs ds \<Longrightarrow> redelivery (segs @ [seg]) (ds @ [seg])"
| redelivery_again: "redelivery segs ds \<Longrightarrow> seg \<in> set segs \<Longrightarrow> redelivery segs (ds @ [seg])"

lemma redelivery_refl: "redelivery segs segs"
  by (induction segs rule: rev_induct) (auto intro: redelivery.intros)

definition deliver :: "standby_env \<Rightarrow> wal_segment list \<Rightarrow> standby_replicator \<times> byte list \<Rightarrow> standby_replicator \<times> byte list" where
  "deliver env ds st = fold (\<lambda>seg st. snd (apply_segment env seg st)) ds st"

lemma deliver_snoc [simp]: "deliver env (ds @ [seg]) st = snd (apply_segment env seg (deliver env ds st))"
  by (simp add: deliver_def)

lemma deliver_nil [simp]: "deliver env [] st = st"
  by (simp add: deliver_def)

text \<open>A stream of one generation a fresh standby can take: numbered upwards, one geometry.\<close>

definition stream_ok :: "standby_env \<Rightarrow> bool \<Rightarrow> u32 \<times> u32 \<Rightarrow> u32 \<Rightarrow> wal_segment list \<Rightarrow> bool" where
  "stream_ok env has_handle salts ps segs \<longleftrightarrow>
     sorted_wrt (<) (0 # map ws_seq segs) \<and>
     list_all (\<lambda>seg. (ws_salt1 seg, ws_salt2 seg) = salts \<and> ws_page_size seg = ps \<and>
       list_all (\<lambda>fr. wf_page_number fr \<noteq> 0) (ws_frames seg)) segs \<and>
     (has_handle \<longrightarrow> se_page_size env = Inr ps)"

lemma stream_ok_snoc:
  "stream_ok env hh salts ps (segs @ [seg]) \<Longrightarrow> stream_ok env hh salts ps segs \<and>
     (\<forall>s \<in> set segs. ws_seq s < ws_seq seg) \<and> 0 < ws_seq seg"
  by (auto simp: stream_ok_def sorted_wrt_append)

definition replay_state ::
  "u32 \<times> u32 \<Rightarrow> u32 \<Rightarrow> bool \<Rightarrow> nat \<Rightarrow> wal_segment list \<Rightarrow> byte list \<Rightarrow> standby_replicator \<times> byte list \<Rightarrow> bool"
where
  "replay_state salts ps hh applied0 segs f st \<longleftrightarrow>
     snd st = fold splice_segment segs f \<and>
     standby_seq salts (fst st) = (if segs = [] then 0 else ws_seq (last segs)) \<and>
     sb_applied (fst st) = (if segs = [] then applied0 else ws_cumulative (last segs)) \<and>
     sb_has_handle (fst st) = hh \<and>
     (sb_expected_page_size (fst st) = None \<or> sb_expected_page_size (fst st) = Some ps)"

lemma deliver_replays:
  assumes "redelivery segs ds" "healthy env" "stream_ok env hh salts ps segs"
    "standby_seq salts sb = 0" "sb_has_handle sb = hh"
    "sb_expected_page_size sb = None \<or> sb_expected_page_size sb = Some ps"
  shows "replay_state salts ps hh (sb_applied sb) segs f (deliver env ds (sb, f))"
  using assms
proof (induction rule: redelivery.induct)
  case redelivery_nil
  then show ?case by (simp add: replay_state_def)
next
  case (redelivery_new segs ds seg)
  obtain sb1 f1 where st: "deliver env ds (sb, f) = (sb1, f1)" by (cases "deliver env ds (sb, f)")
  have ok: "stream_ok env hh salts ps segs" "\<forall>s \<in> set segs. ws_seq s < ws_seq seg" "0 < ws_seq seg"
    using stream_ok_snoc [OF redelivery_new.prems(2)] by simp_all
  have ih: "replay_state salts ps hh (sb_applied sb) segs f (sb1, f1)"
    using redelivery_new ok(1) st by simp
  have seg: "(ws_salt1 seg, ws_salt2 seg) = salts" "ws_page_size seg = ps"
    using redelivery_new.prems(2) by (simp_all add: stream_ok_def)
  have acc: "acceptable env sb1 seg"
    using redelivery_new.prems(2) ih seg by (auto simp: stream_ok_def acceptable_def replay_state_def)
  have new: "standby_seq salts sb1 < ws_seq seg"
    using ih ok(2,3) by (auto simp: replay_state_def)
  show ?case
    using apply_segment_ok [OF \<open>healthy env\<close> acc, where f = f1] ih new seg
    by (auto simp: replay_state_def st max_def)
next
  case (redelivery_again segs ds seg)
  obtain sb1 f1 where st: "deliver env ds (sb, f) = (sb1, f1)" by (cases "deliver env ds (sb, f)")
  have ih: "replay_state salts ps hh (sb_applied sb) segs f (sb1, f1)"
    using redelivery_again st by simp
  have seg: "(ws_salt1 seg, ws_salt2 seg) = salts" "ws_page_size seg = ps"
    "list_all (\<lambda>fr. wf_page_number fr \<noteq> 0) (ws_frames seg)"
    using redelivery_again by (auto simp: stream_ok_def list_all_iff)
  have acc: "acceptable env sb1 seg"
    using redelivery_again.prems(2) ih seg by (auto simp: stream_ok_def acceptable_def replay_state_def)
  have "segs \<noteq> []" using redelivery_again.hyps by auto
  then have "segs = butlast segs @ [last segs]" by simp
  then have "ws_seq seg \<le> ws_seq (last segs)"
    using redelivery_again.hyps(2) stream_ok_snoc [of env hh salts ps "butlast segs" "last segs"]
      redelivery_again.prems(2) by (metis in_set_conv_decomp less_or_eq_imp_le rotate1.simps(2) set_ConsD set_rotate1)
  then have old: "ws_seq seg \<le> standby_seq salts sb1"
    using ih \<open>segs \<noteq> []\<close> by (simp add: replay_state_def)
  show ?case
    using apply_segment_ok [OF \<open>healthy env\<close> acc, where f = f1] ih old seg
    by (auto simp: replay_state_def st max_def)
qed

section \<open>The database a standby holds\<close>

definition db_page :: "nat \<Rightarrow> byte list \<Rightarrow> nat \<Rightarrow> byte list" where
  "db_page ps f p = map (byte_at f) [(p - 1) * ps ..< p * ps]"

lemma byte_at_write_at:
  "byte_at (write_at off d f) i = (if off \<le> i \<and> i < off + length d then d ! (i - off) else byte_at f i)"
  by (auto simp: byte_at_def write_at_def Let_def nth_append min_def)

lemma byte_at_set_len: "byte_at (set_len n f) i = (if i < n then byte_at f i else 0)"
  by (auto simp: byte_at_def set_len_def nth_append)

lemma same_page:
  assumes "(p - 1) * ps \<le> i" "i < p * ps" "(q - 1) * ps \<le> i" "i < q * ps"
  shows "p = (q :: nat)"
proof -
  have "0 < p" "0 < q" using assms by (auto intro: Nat.gr0I)
  have "i div ps = r - 1" if "(r - 1) * ps \<le> i" "i < r * ps" "0 < r" for r
    using that by (intro div_nat_eqI) (auto simp: algebra_simps diff_mult_distrib)
  then have "p - 1 = q - 1" using assms \<open>0 < p\<close> \<open>0 < q\<close> by metis
  with \<open>0 < p\<close> \<open>0 < q\<close> show ?thesis by simp
qed

lemma db_page_write:
  assumes "0 < p" "0 < q" "length d = ps"
  shows "db_page ps (write_at ((q - 1) * ps) d f) p = (if p = q then d else db_page ps f p)"
proof (cases "p = q")
  case True
  have len: "q * ps - (q - 1) * ps = ps" using assms(2) by (cases q) simp_all
  show ?thesis using True assms len
    by (intro nth_equalityI) (auto simp: db_page_def byte_at_write_at)
next
  case False
  have end1: "(q - 1) * ps + length d = q * ps" using assms by (cases q) simp_all
  have "byte_at (write_at ((q - 1) * ps) d f) i = byte_at f i" if "(p - 1) * ps \<le> i" "i < p * ps" for i
    using that same_page [of p ps i q] False unfolding byte_at_write_at end1 by auto
  then show ?thesis using False by (simp add: db_page_def)
qed

lemma db_page_set_len:
  "p \<le> n \<Longrightarrow> db_page ps (set_len (n * ps) f) p = db_page ps f p"
proof -
  assume "p \<le> n"
  then have le: "p * ps \<le> n * ps" by (rule mult_le_mono1)
  have "i < n * ps" if "i < p * ps" for i using that le by (rule less_le_trans)
  then show ?thesis by (auto simp: db_page_def byte_at_set_len)
qed

definition last_image :: "wal_frame list \<Rightarrow> nat \<Rightarrow> byte list option" where
  "last_image fs p = map_option wf_page_data (find (\<lambda>fr. unat (wf_page_number fr) = p) (rev fs))"

lemma last_image_append:
  "last_image (xs @ ys) p = (case last_image ys p of None \<Rightarrow> last_image xs p | Some d \<Rightarrow> Some d)"
  by (simp add: last_image_def find_append split: option.splits)

definition frames_ok :: "nat \<Rightarrow> wal_frame list \<Rightarrow> bool" where
  "frames_ok ps fs \<longleftrightarrow> list_all (\<lambda>fr. wf_page_number fr \<noteq> 0 \<and> length (wf_page_data fr) = ps) fs"

lemma db_page_writes:
  assumes "frames_ok ps fs" "0 < p"
  shows "db_page ps (fold (write_frame ps) fs f) p =
    (case last_image fs p of None \<Rightarrow> db_page ps f p | Some d \<Rightarrow> d)"
  using assms(1)
proof (induction fs rule: rev_induct)
  case (snoc fr fs)
  then have fr: "0 < unat (wf_page_number fr)" "length (wf_page_data fr) = ps"
    by (simp_all add: frames_ok_def unat_gt_0)
  have "db_page ps (write_frame ps fr g) p = (if p = unat (wf_page_number fr) then wf_page_data fr else db_page ps g p)"
    for g unfolding write_frame_def by (rule db_page_write [OF assms(2) fr])
  moreover have "last_image (fs @ [fr]) p = (if p = unat (wf_page_number fr) then Some (wf_page_data fr) else last_image fs p)"
    by (simp add: last_image_def)
  moreover have "frames_ok ps fs" using snoc.prems by (simp add: frames_ok_def)
  ultimately show ?case using snoc.IH by simp
qed (simp add: last_image_def)

definition commits_keep :: "nat \<Rightarrow> wal_frame list \<Rightarrow> bool" where
  "commits_keep p fs \<longleftrightarrow> list_all (\<lambda>fr. is_commit fr \<longrightarrow> p \<le> unat (wf_db_size fr)) fs"

lemma db_page_splice:
  assumes "frames_ok (unat (ws_page_size seg)) (ws_frames seg)" "0 < p" "commits_keep p (ws_frames seg)"
  shows "db_page (unat (ws_page_size seg)) (splice_segment seg f) p =
    (case last_image (ws_frames seg) p of None \<Rightarrow> db_page (unat (ws_page_size seg)) f p | Some d \<Rightarrow> d)"
proof (cases "last_commit_size (ws_frames seg)")
  case None
  then show ?thesis using db_page_writes [OF assms(1,2)] by (simp add: splice_segment_def Let_def)
next
  case (Some n)
  then obtain fr where "find is_commit (rev (ws_frames seg)) = Some fr" "n = wf_db_size fr"
    by (auto simp: last_commit_size_def)
  then have "p \<le> unat n" using assms(3)
    by (auto simp: commits_keep_def list_all_iff find_Some_iff) (metis nth_mem set_rev length_rev)
  then show ?thesis using db_page_writes [OF assms(1,2)] Some
    by (simp add: splice_segment_def Let_def db_page_set_len)
qed

lemma db_page_replay:
  assumes "list_all (\<lambda>seg. unat (ws_page_size seg) = ps) segs"
    "frames_ok ps (concat (map ws_frames segs))" "0 < p" "commits_keep p (concat (map ws_frames segs))"
  shows "db_page ps (fold splice_segment segs f) p =
    (case last_image (concat (map ws_frames segs)) p of None \<Rightarrow> db_page ps f p | Some d \<Rightarrow> d)"
  using assms
proof (induction segs rule: rev_induct)
  case (snoc seg segs)
  then have "unat (ws_page_size seg) = ps" "frames_ok ps (ws_frames seg)" "commits_keep p (ws_frames seg)"
    by (simp_all add: frames_ok_def commits_keep_def)
  then have "db_page ps (splice_segment seg (fold splice_segment segs f)) p =
    (case last_image (ws_frames seg) p of None \<Rightarrow> db_page ps (fold splice_segment segs f) p | Some d \<Rightarrow> d)"
    using db_page_splice [of seg p "fold splice_segment segs f"] \<open>0 < p\<close> by metis
  then show ?case using snoc
    by (simp add: last_image_append frames_ok_def commits_keep_def split: option.splits)
qed (simp add: last_image_def)

text \<open>Every parsed frame carries one whole page.\<close>

lemma parse_frames_pages:
  "list_all (\<lambda>fr. length (wf_page_data fr) = unat (wh_page_size h)) (parse_frames h running rest)"
proof (induction h running rest rule: parse_frames.induct)
  case (1 h running rest)
  show ?case using 1
    by (subst parse_frames.simps) (auto simp: Let_def byte_slice_def frame_header_size_def)
qed

lemma parse_wal_frames:
  "parse_wal b = Inr w \<Longrightarrow>
     pw_frames w = parse_frames (pw_header w) (wh_checksum (pw_header w)) (drop wal_header_size b)"
  by (auto simp: parse_wal_def Let_def split: if_splits sum.splits)

lemma parse_wal_pages:
  "parse_wal b = Inr w \<Longrightarrow>
     list_all (\<lambda>fr. length (wf_page_data fr) = unat (wh_page_size (pw_header w))) (pw_frames w)"
  using parse_wal_frames parse_frames_pages by metis

lemma generation_pages:
  "generation salts ps fs bs gs \<Longrightarrow> list_all (\<lambda>fr. length (wf_page_data fr) = unat ps) fs \<Longrightarrow>
     list_all (\<lambda>fr. length (wf_page_data fr) = unat ps) gs"
proof (induction bs arbitrary: fs)
  case (Cons b bs)
  then obtain w where w: "parse_wal b = Inr w" "wh_page_size (pw_header w) = ps"
    "generation salts ps (pw_frames w) bs gs" by (auto split: sum.splits)
  then show ?case using Cons.IH [OF w(3)] parse_wal_pages [OF w(1)] by simp
qed simp

lemma list_all_committed: "list_all P fs \<Longrightarrow> list_all P (committed fs)"
  by (metis committed_take list_all_iff in_set_takeD)

section \<open>Properties\<close>

text \<open>
  Shipping a generation is exact: however the log was sampled while it grew, the frames shipped for
  a generation are, together and in order, exactly the committed frames of its last snapshot; the
  segments are numbered without gaps, each carries the running total of frames as its watermark,
  and each ends on a commit frame, so an uncommitted tail is never shipped.
\<close>

theorem shipping_is_exact:
  assumes "generation salts ps [] bs gs" and "sh_last_salts sh \<noteq> Some salts"
  shows "concat (map ws_frames (ship_run bs sh)) = committed gs \<and>
    map ws_seq (ship_run bs sh) = [sh_next_seq sh ..< sh_next_seq sh + length (ship_run bs sh)] \<and>
    (\<forall>k < length (ship_run bs sh). ws_cumulative (ship_run bs sh ! k) =
       sh_cumulative sh + length (concat (map ws_frames (take (Suc k) (ship_run bs sh))))) \<and>
    list_all (\<lambda>seg. ws_frames seg \<noteq> [] \<and> is_commit (last (ws_frames seg)) \<and>
       (ws_salt1 seg, ws_salt2 seg) = salts \<and> ws_page_size seg = ps) (ship_run bs sh)"
  using assms by (rule ship_run_exact)



text \<open>
  A failed apply leaves a hole that is not reported: the loop goes on with the next segment, which
  is accepted although the one before it is missing, and as the applied count is taken from that
  segment the lag reads zero while a committed page is absent from the standby's file.
\<close>

definition tiny_segment :: "nat \<Rightarrow> u32 \<Rightarrow> byte \<Rightarrow> wal_segment" where
  "tiny_segment n page b = \<lparr>ws_seq = n, ws_cumulative = n, ws_page_size = 2, ws_salt1 = 7, ws_salt2 = 9,
     ws_frames = [\<lparr>wf_page_number = page, wf_db_size = 2, wf_page_data = [b, b]\<rparr>]\<rparr>"

definition calm_env :: standby_env where
  "calm_env = \<lparr>se_page_size = Inr 2, se_now_ms = 0, se_faults = no_faults, se_lock = None, se_reopen = None\<rparr>"

lemma calm_env_sel [simp]:
  "se_page_size calm_env = Inr 2" "se_now_ms calm_env = 0" "se_faults calm_env = no_faults"
  "se_lock calm_env = None" "se_reopen calm_env = None" "healthy calm_env"
  by (simp_all add: calm_env_def healthy_def)

theorem failed_apply_is_not_reported:
  "let broken = calm_env\<lparr>se_faults := no_faults\<lparr>ff_open := Some ''busy''\<rparr>\<rparr>;
       bus = \<lparr>bus_log = [tiny_segment 1 1 5, tiny_segment 2 2 6]\<rparr>;
       st0 = (standby_new (shared_enabled RoleStandby) ''db'', [0, 0, 0, 0]);
       st1 = standby_receive broken (bus_latest_watermark bus) (tiny_segment 1 1 5) st0;
       st2 = standby_receive calm_env (bus_latest_watermark bus) (tiny_segment 2 2 6) st1 in
   rs_lag_frames (sb_shared (fst st2)) = 0 \<and> db_page 2 (snd st2) 1 = [0, 0] \<and>
   db_page 2 (snd st2) 2 = [6, 6]"
  by (simp add: Let_def standby_receive_def apply_segment_def check_page_size_def locked_write_def
      standby_new_def tiny_segment_def write_segment_to_file_def bus_latest_watermark_def
      refresh_lag_def record_applied_def last_commit_size_def is_commit_def write_at_def set_len_def
      db_page_def byte_at_def shared_enabled_def frame_count_def upt_rec)

section \<open>Witnesses\<close>

lemma sample_wal:
  "\<exists>b. parse_wal b = Inr \<lparr>pw_header = sample_header\<lparr>wh_checksum := header_ck sample_header\<rparr>,
     pw_frames = [sample_frame 1 0 5, sample_frame 2 2 6]\<rparr>"
proof -
  have "plausible_page_size (wh_page_size sample_header)" by (simp add: sample_header_def)
  then show ?thesis
    using encode_wal_parses [of sample_header "[sample_frame 1 0 5, sample_frame 2 2 6]"] by auto
qed

lemma sample_generation:
  "\<exists>b. generation (7, 9) 512 [] [b] [sample_frame 1 0 5, sample_frame 2 2 6]"
proof -
  obtain b where b: "parse_wal b = Inr \<lparr>pw_header = sample_header\<lparr>wh_checksum := header_ck sample_header\<rparr>,
      pw_frames = [sample_frame 1 0 5, sample_frame 2 2 6]\<rparr>" using sample_wal by blast
  have "generation (7, 9) 512 [] [b] [sample_frame 1 0 5, sample_frame 2 2 6]"
    unfolding generation.simps b sum.case by (simp add: wal_salts_def sample_header_def)
  then show ?thesis by blast
qed

lemma sample_committed:
  "committed [sample_frame 1 0 5, sample_frame 2 2 6] = [sample_frame 1 0 5, sample_frame 2 2 6]"
  by (simp add: committed_def is_commit_def sample_frame_def)

theorem shipping_is_exact_witness:
  "\<exists>b. generation (7, 9) 512 [] [b] [sample_frame 1 0 5, sample_frame 2 2 6] \<and>
     concat (map ws_frames (ship_run [b] shipper_new)) = [sample_frame 1 0 5, sample_frame 2 2 6]"
proof -
  obtain b where g: "generation (7, 9) 512 [] [b] [sample_frame 1 0 5, sample_frame 2 2 6]"
    using sample_generation by blast
  have "sh_last_salts shipper_new \<noteq> Some (7, 9)" by (simp add: shipper_new_def)
  from shipping_is_exact [OF g this] g show ?thesis unfolding sample_committed by blast
qed



end
