(* ===== verification/Failover.thy ===== *)
theory Failover
  imports Wal_Replication
begin

text \<open>
  Leader election and role changes (\<^verbatim>\<open>substrate_server/src/replication\<close>: the configuration and roles
  of \<^verbatim>\<open>mod.rs\<close>, the lease store of \<^verbatim>\<open>memory.rs\<close>, the coordinator of \<^verbatim>\<open>failover.rs\<close>). Times are
  milliseconds; the environment variables, the results of the store's pragmas and the success of
  an election call are arguments. A cluster of coordinators over one lease store is a step
  relation over the model's own operations.
\<close>

section \<open>Configuration\<close>

datatype replication_mode = ModeDisabled | ModePrimary | ModeStandby | ModeAuto

definition trim :: "string \<Rightarrow> string" where
  "trim s = rev (dropWhile is_whitespace (rev (dropWhile is_whitespace s)))"

definition mode_parse :: "string \<Rightarrow> repl_error + replication_mode" where
  "mode_parse s =
     (let t = map ascii_lower (trim s) in
      if t = ''primary'' then Inr ModePrimary
      else if t = ''standby'' then Inr ModeStandby
      else if t = ''auto'' then Inr ModeAuto
      else if t = ''disabled'' \<or> t = ''off'' \<or> t = ''none'' then Inr ModeDisabled
      else Inl (BadRole t))"

record replication_config =
  rc_mode :: replication_mode
  rc_nats_url :: "string option"
  rc_store_path :: string
  rc_stream :: string
  rc_subject :: string
  rc_kv_bucket :: string
  rc_node_id :: string
  rc_lease_ttl_ms :: nat
  rc_poll_interval_ms :: nat

definition env_role :: string where "env_role = ''KNOWLEDGE_SUBSTRATE_ROLE''"
definition env_nats_url :: string where "env_nats_url = ''KNOWLEDGE_REPLICATION_NATS_URL''"
definition env_stream :: string where "env_stream = ''KNOWLEDGE_REPLICATION_STREAM''"
definition env_subject :: string where "env_subject = ''KNOWLEDGE_REPLICATION_SUBJECT''"
definition env_kv_bucket :: string where "env_kv_bucket = ''KNOWLEDGE_REPLICATION_KV_BUCKET''"
definition env_node_id :: string where "env_node_id = ''KNOWLEDGE_REPLICATION_NODE_ID''"
definition default_stream :: string where "default_stream = ''substrate-wal''"
definition default_subject :: string where "default_subject = ''substrate.wal.frames''"
definition default_kv_bucket :: string where "default_kv_bucket = ''substrate-leader''"

definition non_empty :: "(string \<Rightarrow> string option) \<Rightarrow> string \<Rightarrow> string option" where
  "non_empty env key =
     (case env key of Some v \<Rightarrow> if trim v \<noteq> [] then Some v else None | None \<Rightarrow> None)"

definition or_else :: "'a option \<Rightarrow> 'a \<Rightarrow> 'a" where
  "or_else x d = (case x of Some v \<Rightarrow> v | None \<Rightarrow> d)"

definition uuid_simple :: "uuid \<Rightarrow> string" where
  "uuid_simple u =
     concat (map (\<lambda>b. [hex_digit (unat b div 16), hex_digit (unat b mod 16)]) (uuid_bytes u))"

definition default_node_id :: "(string \<Rightarrow> string option) \<Rightarrow> uuid \<Rightarrow> string" where
  "default_node_id env fresh =
     (case non_empty env ''HOSTNAME'' of Some h \<Rightarrow> h | None \<Rightarrow> ''node-'' @ uuid_simple fresh)"

definition config_from_env ::
  "(string \<Rightarrow> string option) \<Rightarrow> uuid \<Rightarrow> string \<Rightarrow> string option \<Rightarrow> repl_error + replication_config"
where
  "config_from_env env fresh store_path role_override =
     (let nats_url = non_empty env env_nats_url;
          role_str = (case role_override of Some r \<Rightarrow> Some r | None \<Rightarrow> non_empty env env_role);
          mode = (case role_str of
                    Some s \<Rightarrow> mode_parse s
                  | None \<Rightarrow> if nats_url \<noteq> None then Inr ModeAuto else Inr ModeDisabled)
      in case mode of
           Inl e \<Rightarrow> Inl e
         | Inr m \<Rightarrow>
             Inr \<lparr>rc_mode = m, rc_nats_url = nats_url, rc_store_path = store_path,
                  rc_stream = or_else (non_empty env env_stream) default_stream,
                  rc_subject = or_else (non_empty env env_subject) default_subject,
                  rc_kv_bucket = or_else (non_empty env env_kv_bucket) default_kv_bucket,
                  rc_node_id = or_else (non_empty env env_node_id) (default_node_id env fresh),
                  rc_lease_ttl_ms = 15000, rc_poll_interval_ms = 500\<rparr>)"

definition initial_role :: "replication_config \<Rightarrow> role" where
  "initial_role c = (case rc_mode c of ModeDisabled \<Rightarrow> RoleDisabled | ModePrimary \<Rightarrow> RolePrimary
     | ModeStandby \<Rightarrow> RoleStandby | ModeAuto \<Rightarrow> RoleStandby)"

definition wal_path :: "replication_config \<Rightarrow> string" where
  "wal_path c = rc_store_path c @ ''-wal''"

text \<open>
  What starting the subsystem decides, with the store's reported journal mode and page size as
  arguments and the network transport not built in: refuse, run nothing, or run the coordinator
  over the in-process transport. The messages of the refusals are abbreviated to their kind.
\<close>

definition expected_cipher_page_size :: u32 where
  "expected_cipher_page_size = 4096"

datatype spawn_outcome = SpawnNothing | SpawnInProcess

definition spawn ::
  "replication_config \<Rightarrow> (string + string) option \<Rightarrow> (string + u32) \<Rightarrow> repl_error + spawn_outcome"
where
  "spawn c journal page_size =
     (if rc_mode c = ModeDisabled then Inr SpawnNothing
      else
        let store_check =
          (if rc_mode c = ModeStandby \<or> rc_mode c = ModeAuto
           then case journal of
                  None \<Rightarrow> Inr ()
                | Some (Inl e) \<Rightarrow> Inl (Transport (''reading store journal mode: '' @ e))
                | Some (Inr m) \<Rightarrow>
                    if m = ''wal'' then Inl (Misconfigured ''journal_mode=wal'')
                    else (case page_size of
                            Inl e \<Rightarrow> Inl (Transport (''reading store cipher_page_size: '' @ e))
                          | Inr n \<Rightarrow> if n \<noteq> expected_cipher_page_size
                                     then Inl (Misconfigured ''cipher_page_size'') else Inr ())
           else Inr ())
        in case store_check of
             Inl e \<Rightarrow> Inl e
           | Inr _ \<Rightarrow>
               if rc_mode c = ModePrimary \<or> rc_mode c = ModeStandby
               then Inl (Misconfigured ''role needs a cross-node transport'')
               else Inr SpawnInProcess)"

section \<open>The lease\<close>

record lease =
  le_holder :: string
  le_epoch :: nat
  le_expires_at_ms :: int

record lease_store =
  ls_lease :: "lease option"
  ls_last_epoch :: nat

definition lease_store_new :: lease_store where
  "lease_store_new = \<lparr>ls_lease = None, ls_last_epoch = 0\<rparr>"

definition i64_max :: int where
  "i64_max = 2 ^ 63 - 1"

definition lease_expiry_ms :: "int \<Rightarrow> nat \<Rightarrow> int" where
  "lease_expiry_ms now_ms ttl_ms = min (now_ms + min (int ttl_ms) i64_max) i64_max"

definition lease_acquire :: "int \<Rightarrow> string \<Rightarrow> nat \<Rightarrow> lease_store \<Rightarrow> lease \<times> lease_store" where
  "lease_acquire now node ttl g =
     (let expires = lease_expiry_ms now ttl;
          take_over =
            (let epoch = ls_last_epoch g + 1;
                 fresh = \<lparr>le_holder = node, le_epoch = epoch, le_expires_at_ms = expires\<rparr>
             in (fresh, g\<lparr>ls_last_epoch := epoch, ls_lease := Some fresh\<rparr>))
      in case ls_lease g of
           Some l \<Rightarrow>
             if le_holder l = node \<and> now < le_expires_at_ms l
             then let renewed = \<lparr>le_holder = node, le_epoch = le_epoch l, le_expires_at_ms = expires\<rparr>
                  in (renewed, g\<lparr>ls_lease := Some renewed\<rparr>)
             else if now < le_expires_at_ms l then (l, g)
             else take_over
         | None \<Rightarrow> take_over)"

definition lease_release :: "string \<Rightarrow> lease_store \<Rightarrow> lease_store" where
  "lease_release node g =
     (case ls_lease g of
        Some l \<Rightarrow> if le_holder l = node then g\<lparr>ls_lease := None\<rparr> else g
      | None \<Rightarrow> g)"

definition lease_current :: "int \<Rightarrow> lease_store \<Rightarrow> lease option" where
  "lease_current now g =
     (case ls_lease g of
        Some l \<Rightarrow> if now < le_expires_at_ms l then Some l else None
      | None \<Rightarrow> None)"

section \<open>The coordinator\<close>

record coordinator =
  co_config :: replication_config
  co_shared :: replication_shared
  co_has_handle :: bool
  co_current_role :: role
  co_task :: "role option"

text \<open>\<open>elect_once\<close> over the result of \<^verbatim>\<open>LeaseStore::acquire\<close>.\<close>

definition elect_once :: "repl_error + lease \<Rightarrow> coordinator \<Rightarrow> (repl_error + role) \<times> coordinator" where
  "elect_once acquired c =
     (case acquired of
        Inl e \<Rightarrow> (Inl e, c)
      | Inr l \<Rightarrow>
          let c1 = c\<lparr>co_shared := (co_shared c)\<lparr>rs_epoch := le_epoch l\<rparr>\<rparr>
          in (Inr (if le_holder l = rc_node_id (co_config c) then RolePrimary else RoleStandby), c1))"

text \<open>
  The journal switch before a role starts; \<open>pragma\<close> answers for the store with an error or the
  resulting mode.
\<close>

definition set_store_journal_for ::
  "(role \<Rightarrow> string + string) \<Rightarrow> role \<Rightarrow> coordinator \<Rightarrow> repl_error + unit"
where
  "set_store_journal_for pragma r c =
     (if \<not> co_has_handle c then Inr ()
      else case r of
        RolePrimary \<Rightarrow>
          (case pragma r of
             Inl e \<Rightarrow> Inl (Misconfigured (''switching store to journal_mode=WAL for primary role: '' @ e))
           | Inr m \<Rightarrow>
               if m \<noteq> ''wal''
               then Inl (Misconfigured (''PRAGMA journal_mode=WAL returned '' @ [CHR 0x27] @ m @ [CHR 0x27] @
                 '' instead of 'wal'; the primary cannot ship WAL frames without WAL mode''))
               else Inr ())
      | RoleStandby \<Rightarrow>
          (case pragma r of
             Inl e \<Rightarrow> Inl (Misconfigured (''switching store to rollback journal for standby role: '' @ e))
           | Inr m \<Rightarrow>
               if m = ''wal''
               then Inl (Misconfigured (''PRAGMA journal_mode=DELETE returned '' @ [CHR 0x27] @ m @ [CHR 0x27] @
                 ''; the standby cannot serve correct reads in WAL mode''))
               else Inr ())
      | RoleDisabled \<Rightarrow> Inr ())"

definition spawn_role :: "role \<Rightarrow> role option" where
  "spawn_role r = (if r = RoleDisabled then None else Some r)"

text \<open>Entering the election loop, one tick of it, and leaving it on shutdown.\<close>

definition run_auto_start :: "coordinator \<Rightarrow> coordinator" where
  "run_auto_start c = c\<lparr>co_shared := (co_shared c)\<lparr>rs_role := RoleStandby\<rparr>,
     co_task := spawn_role RoleStandby, co_current_role := RoleStandby\<rparr>"

definition auto_tick ::
  "(role \<Rightarrow> string + string) \<Rightarrow> repl_error + lease \<Rightarrow> coordinator \<Rightarrow> coordinator"
where
  "auto_tick pragma acquired c =
     (case elect_once acquired c of
        (Inl e, c1) \<Rightarrow> c1
      | (Inr want, c1) \<Rightarrow>
          if want \<noteq> co_current_role c1
          then let effective = (case set_store_journal_for pragma want c1 of Inr _ \<Rightarrow> want | Inl _ \<Rightarrow> RoleStandby)
               in c1\<lparr>co_shared := (co_shared c1)\<lparr>rs_role := effective\<rparr>,
                     co_task := spawn_role effective, co_current_role := effective\<rparr>
          else c1)"

text \<open>
  Static roles: the shared role is published first, then the journal switch decides whether the
  task is started. The journal switch at the start of the election loop is only logged.
\<close>

definition run_static :: "(role \<Rightarrow> string + string) \<Rightarrow> role \<Rightarrow> coordinator \<Rightarrow> coordinator" where
  "run_static pragma r c =
     (case set_store_journal_for pragma r c of
        Inl e \<Rightarrow> c
      | Inr _ \<Rightarrow> c\<lparr>co_task := spawn_role r\<rparr>)"

definition coordinator_run :: "(role \<Rightarrow> string + string) \<Rightarrow> coordinator \<Rightarrow> coordinator" where
  "coordinator_run pragma c =
     (case rc_mode (co_config c) of
        ModeDisabled \<Rightarrow> c
      | ModePrimary \<Rightarrow> run_static pragma RolePrimary (c\<lparr>co_shared := (co_shared c)\<lparr>rs_role := RolePrimary\<rparr>\<rparr>)
      | ModeStandby \<Rightarrow> run_static pragma RoleStandby (c\<lparr>co_shared := (co_shared c)\<lparr>rs_role := RoleStandby\<rparr>\<rparr>)
      | ModeAuto \<Rightarrow> run_auto_start c)"

definition run_auto_stop :: "coordinator \<Rightarrow> lease_store \<Rightarrow> coordinator \<times> lease_store" where
  "run_auto_stop c g =
     (case co_task c of
        None \<Rightarrow> (c, g)
      | Some r \<Rightarrow>
          (c\<lparr>co_task := None\<rparr>,
           if r = RolePrimary then lease_release (rc_node_id (co_config c)) g else g))"

definition ensure_writable :: "replication_shared \<Rightarrow> repl_error + unit" where
  "ensure_writable s =
     (if shared_is_writable s then Inr ()
      else Inl (Transport (''node is '' @
        (case rs_role s of RolePrimary \<Rightarrow> ''Primary'' | RoleStandby \<Rightarrow> ''Standby'' | RoleDisabled \<Rightarrow> ''Disabled'') @
        '', not the primary; writes are rejected'')))"

section \<open>A cluster over one lease\<close>

text \<open>
  A node is a coordinator; \<open>nd_until\<close> is a ghost: the expiry of the last lease this node was told
  it holds. A tick may reach the lease store or not, and its answer may be lost on the way back;
  the clock of the lease store never runs backwards.
\<close>

record node =
  nd_coord :: coordinator
  nd_until :: int

record cluster =
  cl_clock :: int
  cl_store :: lease_store
  cl_nodes :: "string \<rightharpoonup> node"

definition coordinator_new :: "replication_config \<Rightarrow> bool \<Rightarrow> coordinator" where
  "coordinator_new c has_handle =
     \<lparr>co_config = c, co_shared = shared_enabled (initial_role c), co_has_handle = has_handle,
      co_current_role = initial_role c, co_task = None\<rparr>"

definition told_until :: "string \<Rightarrow> repl_error + lease \<Rightarrow> int \<Rightarrow> int" where
  "told_until n acquired u =
     (case acquired of Inr l \<Rightarrow> if le_holder l = n then le_expires_at_ms l else u | Inl _ \<Rightarrow> u)"

definition node_tick ::
  "(role \<Rightarrow> string + string) \<Rightarrow> string \<Rightarrow> repl_error + lease \<Rightarrow> node \<Rightarrow> node"
where
  "node_tick pragma n acquired nd =
     \<lparr>nd_coord = auto_tick pragma acquired (nd_coord nd),
      nd_until = told_until n acquired (nd_until nd)\<rparr>"

definition node_ttl :: "node \<Rightarrow> nat" where
  "node_ttl nd = rc_lease_ttl_ms (co_config (nd_coord nd))"

definition node_primary :: "node \<Rightarrow> bool" where
  "node_primary nd \<longleftrightarrow> ensure_writable (co_shared (nd_coord nd)) = Inr ()"

definition node_epoch :: "node \<Rightarrow> nat" where
  "node_epoch nd = rs_epoch (co_shared (nd_coord nd))"

definition cluster_start :: "int \<Rightarrow> cluster" where
  "cluster_start t = \<lparr>cl_clock = t, cl_store = lease_store_new, cl_nodes = Map.empty\<rparr>"

inductive cluster_step :: "cluster \<Rightarrow> cluster \<Rightarrow> bool" where
  join: "cl_nodes s (rc_node_id c) = None \<Longrightarrow> rc_mode c = ModeAuto \<Longrightarrow>
    cluster_step s (s\<lparr>cl_nodes := (cl_nodes s)(rc_node_id c \<mapsto>
      \<lparr>nd_coord = coordinator_run pragma (coordinator_new c h), nd_until = cl_clock s\<rparr>)\<rparr>)"
| tick: "cl_nodes s n = Some nd \<Longrightarrow> cl_clock s \<le> t \<Longrightarrow>
    lease_acquire t n (node_ttl nd) (cl_store s) = (l, g) \<Longrightarrow>
    cluster_step s \<lparr>cl_clock = t, cl_store = g, cl_nodes = (cl_nodes s)(n \<mapsto> node_tick pragma n (Inr l) nd)\<rparr>"
| request_lost: "cl_nodes s n = Some nd \<Longrightarrow> cl_clock s \<le> t \<Longrightarrow>
    cluster_step s (s\<lparr>cl_clock := t, cl_nodes := (cl_nodes s)(n \<mapsto> node_tick pragma n (Inl e) nd)\<rparr>)"
| answer_lost: "cl_nodes s n = Some nd \<Longrightarrow> cl_clock s \<le> t \<Longrightarrow>
    lease_acquire t n (node_ttl nd) (cl_store s) = (l, g) \<Longrightarrow>
    cluster_step s \<lparr>cl_clock = t, cl_store = g, cl_nodes = (cl_nodes s)(n \<mapsto> node_tick pragma n (Inl e) nd)\<rparr>"
| stop: "cl_nodes s n = Some nd \<Longrightarrow> run_auto_stop (nd_coord nd) (cl_store s) = (c, g) \<Longrightarrow>
    cluster_step s (s\<lparr>cl_store := g, cl_nodes := (cl_nodes s)(n := None)\<rparr>)"
| crash: "cluster_step s (s\<lparr>cl_nodes := (cl_nodes s)(n := None)\<rparr>)"

definition cluster_reachable :: "cluster \<Rightarrow> bool" where
  "cluster_reachable s \<longleftrightarrow> (\<exists>t. cluster_step\<^sup>*\<^sup>* (cluster_start t) s)"

text \<open>
  The invariant: a coordinator's role, task and published role agree; a primary either is the
  holder of the stored lease, under its epoch and at most until its expiry, or its grant is over
  and its epoch is below the stored lease's.
\<close>

definition node_wf :: "string \<Rightarrow> node \<Rightarrow> bool" where
  "node_wf n nd \<longleftrightarrow>
     rc_node_id (co_config (nd_coord nd)) = n
   \<and> co_current_role (nd_coord nd) \<in> {RolePrimary, RoleStandby}
   \<and> rs_role (co_shared (nd_coord nd)) = co_current_role (nd_coord nd)
   \<and> co_task (nd_coord nd) = Some (co_current_role (nd_coord nd))"

definition grant_held :: "string \<Rightarrow> node \<Rightarrow> lease_store \<Rightarrow> bool" where
  "grant_held n nd g \<longleftrightarrow> (case ls_lease g of None \<Rightarrow> False
     | Some l \<Rightarrow> le_holder l = n \<and> le_epoch l = node_epoch nd \<and> nd_until nd \<le> le_expires_at_ms l)"

definition grant_over :: "node \<Rightarrow> int \<Rightarrow> lease_store \<Rightarrow> bool" where
  "grant_over nd now g \<longleftrightarrow> nd_until nd \<le> now
     \<and> (case ls_lease g of None \<Rightarrow> True | Some l \<Rightarrow> node_epoch nd < le_epoch l)"

definition store_inv :: "lease_store \<Rightarrow> bool" where
  "store_inv g \<longleftrightarrow> (case ls_lease g of None \<Rightarrow> True | Some l \<Rightarrow> le_epoch l = ls_last_epoch g)"

definition standing :: "string \<Rightarrow> node \<Rightarrow> int \<Rightarrow> lease_store \<Rightarrow> bool" where
  "standing n nd now g \<longleftrightarrow> node_epoch nd \<le> ls_last_epoch g
     \<and> nd_until nd \<le> lease_expiry_ms now (node_ttl nd)
     \<and> (grant_held n nd g \<or> grant_over nd now g)"

definition nodes_inv :: "(string \<rightharpoonup> node) \<Rightarrow> int \<Rightarrow> lease_store \<Rightarrow> bool" where
  "nodes_inv nodes now g \<longleftrightarrow>
     (\<forall>n nd. nodes n = Some nd \<longrightarrow> node_wf n nd)
   \<and> (\<forall>n nd. nodes n = Some nd \<and> node_primary nd \<longrightarrow> standing n nd now g)
   \<and> (\<forall>m n a b. m \<noteq> n \<and> nodes m = Some a \<and> nodes n = Some b
        \<and> node_primary a \<and> node_primary b \<longrightarrow> node_epoch a \<noteq> node_epoch b)"

definition cluster_inv :: "cluster \<Rightarrow> bool" where
  "cluster_inv s \<longleftrightarrow> store_inv (cl_store s) \<and> nodes_inv (cl_nodes s) (cl_clock s) (cl_store s)"

lemma nodes_invD:
  assumes "nodes_inv nodes now g"
  shows "nodes n = Some nd \<Longrightarrow> node_wf n nd"
    and "nodes n = Some nd \<Longrightarrow> node_primary nd \<Longrightarrow> standing n nd now g"
    and "m \<noteq> n \<Longrightarrow> nodes m = Some a \<Longrightarrow> nodes n = Some b \<Longrightarrow> node_primary a \<Longrightarrow> node_primary b
      \<Longrightarrow> node_epoch a \<noteq> node_epoch b"
  using assms unfolding nodes_inv_def by blast+

lemma node_primary_iff: "node_wf n nd \<Longrightarrow> node_primary nd \<longleftrightarrow> co_current_role (nd_coord nd) = RolePrimary"
  by (auto simp: node_primary_def ensure_writable_def shared_is_writable_def node_wf_def)

text \<open>What an acquisition can answer: a renewal, another node's lease, or a takeover.\<close>

lemma lease_acquire_cases:
  assumes "lease_acquire now n ttl g = (l, g')"
  obtains (renew) l0 where "ls_lease g = Some l0" "le_holder l0 = n" "now < le_expires_at_ms l0"
      "le_holder l = n" "le_epoch l = le_epoch l0" "le_expires_at_ms l = lease_expiry_ms now ttl"
      "ls_lease g' = Some l" "ls_last_epoch g' = ls_last_epoch g"
  | (held) "ls_lease g = Some l" "le_holder l \<noteq> n" "now < le_expires_at_ms l" "g' = g"
  | (taken) "\<forall>l0. ls_lease g = Some l0 \<longrightarrow> le_expires_at_ms l0 \<le> now" "le_holder l = n"
      "le_epoch l = ls_last_epoch g + 1" "le_expires_at_ms l = lease_expiry_ms now ttl"
      "ls_lease g' = Some l" "ls_last_epoch g' = ls_last_epoch g + 1"
  using assms
  by (force simp: lease_acquire_def Let_def split: option.splits if_splits)

lemma lease_expiry_mono: "a \<le> b \<Longrightarrow> lease_expiry_ms a ttl \<le> lease_expiry_ms b ttl"
  by (auto simp: lease_expiry_ms_def)

lemma store_inv_acquire: "store_inv g \<Longrightarrow> lease_acquire now n ttl g = (l, g') \<Longrightarrow> store_inv g'"
  by (erule lease_acquire_cases) (simp_all add: store_inv_def)

lemma store_inv_release: "store_inv g \<Longrightarrow> store_inv (lease_release n g)"
  by (auto simp: store_inv_def lease_release_def split: option.splits)

text \<open>A primary's standing survives every acquisition, its own lost one included.\<close>

lemma standing_later: "standing n nd now g \<Longrightarrow> now \<le> t \<Longrightarrow> standing n nd t g"
  unfolding standing_def grant_over_def
  by (meson lease_expiry_mono order_trans)

lemma standing_acquire:
  assumes st: "standing m nd now g" and acq: "lease_acquire t n ttl g = (l, g')" and le: "now \<le> t"
    and inv: "store_inv g" and own: "m = n \<Longrightarrow> ttl = node_ttl nd"
  shows "standing m nd t g'"
proof -
  have st': "standing m nd t g" using standing_later st le by blast
  show ?thesis using acq
  proof (cases rule: lease_acquire_cases)
    case (renew l0)
    show ?thesis
    proof (cases "m = n")
      case True
      then show ?thesis using st' renew own
        by (auto simp: standing_def grant_held_def grant_over_def)
    next
      case False
      then show ?thesis using st' renew by (auto simp: standing_def grant_held_def grant_over_def)
    qed
  next
    case held
    then show ?thesis using st' by simp
  next
    case taken
    then show ?thesis using st' inv
      by (force simp: standing_def grant_held_def grant_over_def store_inv_def split: option.splits)
  qed
qed

lemma standing_release: "standing m nd now g \<Longrightarrow> m \<noteq> n \<Longrightarrow> standing m nd now (lease_release n g)"
  by (auto simp: standing_def grant_held_def grant_over_def lease_release_def split: option.splits)

text \<open>One tick: the role, the task and the published role stay in step, and only the holder of the
  answered lease is primary afterwards.\<close>

lemma node_tick_lost: "node_tick pragma n (Inl e) nd = nd"
  by (simp add: node_tick_def told_until_def auto_tick_def elect_once_def)

lemma node_tick_ttl: "node_ttl (node_tick pragma n a nd) = node_ttl nd"
  by (auto simp: node_ttl_def node_tick_def auto_tick_def elect_once_def Let_def split: sum.splits)

lemma node_tick_wf: "node_wf n nd \<Longrightarrow> node_wf n (node_tick pragma n a nd)"
  by (auto simp: node_wf_def node_tick_def auto_tick_def elect_once_def spawn_role_def Let_def
      split: sum.splits if_splits)

lemma node_tick_answered:
  assumes "node_wf n nd"
  shows "node_epoch (node_tick pragma n (Inr l) nd) = le_epoch l"
    and "node_primary (node_tick pragma n (Inr l) nd) \<Longrightarrow> le_holder l = n"
    and "le_holder l = n \<Longrightarrow> nd_until (node_tick pragma n (Inr l) nd) = le_expires_at_ms l"
  using assms
  by (auto simp: node_epoch_def node_primary_def ensure_writable_def shared_is_writable_def node_wf_def
      node_tick_def told_until_def auto_tick_def elect_once_def Let_def split: sum.splits if_splits)

text \<open>The invariant holds in every reachable cluster.\<close>

lemma nodes_inv_update:
  assumes inv: "nodes_inv nodes now g"
    and wf: "node_wf n nd"
    and keep: "\<And>m a. m \<noteq> n \<Longrightarrow> nodes m = Some a \<Longrightarrow> node_primary a \<Longrightarrow> standing m a t g'"
    and own: "node_primary nd \<Longrightarrow> standing n nd t g'"
    and new: "\<And>m a. m \<noteq> n \<Longrightarrow> nodes m = Some a \<Longrightarrow> node_primary a \<Longrightarrow> node_primary nd \<Longrightarrow>
      node_epoch a \<noteq> node_epoch nd"
  shows "nodes_inv (nodes(n \<mapsto> nd)) t g'"
  unfolding nodes_inv_def
proof (intro conjI allI impI)
  fix m a assume "(nodes(n \<mapsto> nd)) m = Some a"
  then show "node_wf m a" using nodes_invD(1) [OF inv] wf by (cases "m = n") auto
next
  fix m a assume "(nodes(n \<mapsto> nd)) m = Some a \<and> node_primary a"
  then show "standing m a t g'" using keep own by (cases "m = n") auto
next
  fix m k a b
  assume *: "m \<noteq> k \<and> (nodes(n \<mapsto> nd)) m = Some a \<and> (nodes(n \<mapsto> nd)) k = Some b
    \<and> node_primary a \<and> node_primary b"
  then consider "m = n" "k \<noteq> n" | "m \<noteq> n" "k = n" | "m \<noteq> n" "k \<noteq> n" by blast
  then show "node_epoch a \<noteq> node_epoch b"
  proof cases
    case 1
    then show ?thesis using * new [of k b] by auto
  next
    case 2
    then show ?thesis using * new [of m a] by auto
  next
    case 3
    then show ?thesis using * nodes_invD(3) [OF inv, of m k a b] by auto
  qed
qed

lemma nodes_inv_remove:
  assumes "nodes_inv nodes now g"
    and "\<And>m a. m \<noteq> n \<Longrightarrow> standing m a now g \<Longrightarrow> standing m a now g'"
  shows "nodes_inv (nodes(n := None)) now g'"
  using assms unfolding nodes_inv_def by (auto split: if_splits)

lemma nodes_inv_kept:
  assumes "nodes_inv nodes now g"
    and "\<And>m a. nodes m = Some a \<Longrightarrow> standing m a now g \<Longrightarrow> standing m a t g'"
  shows "nodes_inv nodes t g'"
  using assms unfolding nodes_inv_def by blast

lemma nodes_inv_answered:
  assumes inv: "nodes_inv nodes now g" and store: "store_inv g" and n: "nodes n = Some nd"
    and le: "now \<le> t" and acq: "lease_acquire t n (node_ttl nd) g = (l, g')"
  shows "nodes_inv (nodes(n \<mapsto> node_tick pragma n (Inr l) nd)) t g'"
proof (rule nodes_inv_update [OF inv])
  have wf: "node_wf n nd" using nodes_invD(1) [OF inv n] .
  then show "node_wf n (node_tick pragma n (Inr l) nd)" by (rule node_tick_wf)
  show keep: "standing m a t g'" if "m \<noteq> n" "nodes m = Some a" "node_primary a" for m a
    using standing_acquire [OF nodes_invD(2) [OF inv that(2,3)] acq le store] that(1) by blast
  have lease: "ls_lease g' = Some l" "le_epoch l \<le> ls_last_epoch g'"
    using acq store store_inv_acquire [OF store acq]
    by (auto simp: store_inv_def elim!: lease_acquire_cases)
  have mine: "le_holder l = n \<Longrightarrow> le_expires_at_ms l = lease_expiry_ms t (node_ttl nd)"
    using acq by (auto elim!: lease_acquire_cases)
  show "standing n (node_tick pragma n (Inr l) nd) t g'" if "node_primary (node_tick pragma n (Inr l) nd)"
    using node_tick_answered [OF wf, where l = l and pragma = pragma] that lease mine
    by (simp add: standing_def grant_held_def node_tick_ttl)
  show "node_epoch a \<noteq> node_epoch (node_tick pragma n (Inr l) nd)"
    if "m \<noteq> n" "nodes m = Some a" "node_primary a" "node_primary (node_tick pragma n (Inr l) nd)" for m a
    using keep [OF that(1-3)] node_tick_answered [OF wf, where l = l and pragma = pragma] that lease
    by (auto simp: standing_def grant_held_def grant_over_def)
qed

lemma cluster_inv_step: "cluster_step s s' \<Longrightarrow> cluster_inv s \<Longrightarrow> cluster_inv s'"
proof (induction rule: cluster_step.induct)
  case (join s c pragma h)
  let ?nd = "\<lparr>nd_coord = coordinator_run pragma (coordinator_new c h), nd_until = cl_clock s\<rparr>"
  have wf: "node_wf (rc_node_id c) ?nd" and no: "\<not> node_primary ?nd"
    using join(2) by (simp_all add: node_wf_def node_primary_def coordinator_run_def coordinator_new_def
      run_auto_start_def spawn_role_def ensure_writable_def shared_is_writable_def)
  show ?case using join(3) no nodes_invD(2)
    by (auto simp: cluster_inv_def intro!: nodes_inv_update [OF _ wf])
next
  case (tick s n nd t l g pragma)
  then have inv: "store_inv (cl_store s)" "nodes_inv (cl_nodes s) (cl_clock s) (cl_store s)"
    by (simp_all add: cluster_inv_def)
  show ?case
    using nodes_inv_answered [OF inv(2,1) tick(1-3)] store_inv_acquire [OF inv(1) tick(3)]
    by (simp add: cluster_inv_def)
next
  case (request_lost s n nd t pragma e)
  then have "nodes_inv (cl_nodes s) t (cl_store s)"
    by (auto simp: cluster_inv_def intro: nodes_inv_kept standing_later)
  then show ?case using request_lost by (simp add: cluster_inv_def node_tick_lost map_upd_triv)
next
  case (answer_lost s n nd t l g pragma e)
  have "nodes_inv (cl_nodes s) t g"
  proof (rule nodes_inv_kept)
    show "nodes_inv (cl_nodes s) (cl_clock s) (cl_store s)" using answer_lost by (simp add: cluster_inv_def)
    show "standing m a t g" if "cl_nodes s m = Some a" "standing m a (cl_clock s) (cl_store s)" for m a
    proof (rule standing_acquire [OF that(2) answer_lost(3,2)])
      show "store_inv (cl_store s)" using answer_lost(4) by (simp add: cluster_inv_def)
      show "m = n \<Longrightarrow> node_ttl nd = node_ttl a" using that(1) answer_lost(1) by simp
    qed
  qed
  moreover have "store_inv g" using answer_lost(3,4)
    by (auto simp: cluster_inv_def intro: store_inv_acquire)
  ultimately show ?case using answer_lost(1)
    by (simp add: cluster_inv_def node_tick_lost map_upd_triv)
next
  case (stop s n nd c g)
  have "rc_node_id (co_config (nd_coord nd)) = n"
    using stop(1,3) nodes_invD(1) by (auto simp: cluster_inv_def node_wf_def)
  then have "g = cl_store s \<or> g = lease_release n (cl_store s)"
    using stop(2) by (auto simp: run_auto_stop_def split: option.splits if_splits)
  then show ?case using stop(3) store_inv_release standing_release
    by (auto simp: cluster_inv_def intro!: nodes_inv_remove)
next
  case (crash s n)
  then show ?case by (auto simp: cluster_inv_def intro!: nodes_inv_remove)
qed

lemma cluster_inv_start: "cluster_inv (cluster_start t)"
  by (simp add: cluster_inv_def nodes_inv_def store_inv_def cluster_start_def lease_store_new_def)

lemma cluster_reachable_inv: "cluster_reachable s \<Longrightarrow> cluster_inv s"
proof -
  assume "cluster_reachable s"
  then obtain t where "cluster_step\<^sup>*\<^sup>* (cluster_start t) s" unfolding cluster_reachable_def ..
  then show ?thesis
    by (induction rule: rtranclp_induct) (auto intro: cluster_inv_start cluster_inv_step)
qed

lemma cluster_step_reachable: "cluster_reachable s \<Longrightarrow> cluster_step s s' \<Longrightarrow> cluster_reachable s'"
  unfolding cluster_reachable_def by (meson rtranclp.rtrancl_into_rtrancl)

lemma live_primary_holds:
  assumes "cluster_inv s" "cl_nodes s n = Some nd" "node_primary nd" "cl_clock s < nd_until nd"
  shows "grant_held n nd (cl_store s)"
  using assms nodes_invD(2) [of "cl_nodes s" "cl_clock s" "cl_store s" n nd]
  by (auto simp: cluster_inv_def standing_def grant_over_def)

lemma tick_promotes:
  assumes nd: "cl_nodes s n = Some nd" and wf: "node_wf n nd" and t: "cl_clock s \<le> t"
    and free: "lease_current t (cl_store s) = None"
    and journal: "set_store_journal_for pragma RolePrimary (nd_coord nd) = Inr ()"
  obtains s' nd' where "cluster_step s s'" "cl_nodes s' = (cl_nodes s)(n \<mapsto> nd')" "node_primary nd'"
    "cl_clock s' = t" "node_epoch nd' = ls_last_epoch (cl_store s) + 1"
    "ls_lease (cl_store s') = Some \<lparr>le_holder = n, le_epoch = ls_last_epoch (cl_store s) + 1,
       le_expires_at_ms = lease_expiry_ms t (node_ttl nd)\<rparr>"
    "nd_until nd' = lease_expiry_ms t (node_ttl nd)"
proof -
  obtain l g where acq: "lease_acquire t n (node_ttl nd) (cl_store s) = (l, g)" by fastforce
  then have l: "l = \<lparr>le_holder = n, le_epoch = ls_last_epoch (cl_store s) + 1,
      le_expires_at_ms = lease_expiry_ms t (node_ttl nd)\<rparr>" "ls_lease g = Some l"
    using free by (auto simp: lease_acquire_def lease_current_def Let_def split: option.splits if_splits)
  have "set_store_journal_for pragma RolePrimary ((nd_coord nd)\<lparr>co_shared := x\<rparr>) = Inr ()" for x
    using journal by (simp add: set_store_journal_for_def)
  then have "node_primary (node_tick pragma n (Inr l) nd)"
    using l(1) wf
    by (auto simp: node_primary_def ensure_writable_def shared_is_writable_def node_wf_def
        node_tick_def auto_tick_def elect_once_def Let_def)
  then show ?thesis
    using that [OF cluster_step.tick [OF nd t acq]] node_tick_answered [OF wf, where l = l] l by simp
qed

lemma node_join:
  fixes s :: cluster and c :: replication_config
  assumes "cl_nodes s (rc_node_id c) = None" "rc_mode c = ModeAuto"
  obtains s' nd where "cluster_step s s'" "cl_nodes s' = (cl_nodes s)(rc_node_id c \<mapsto> nd)"
    "cl_store s' = cl_store s" "cl_clock s' = cl_clock s"
    "co_has_handle (nd_coord nd) = h" "node_ttl nd = rc_lease_ttl_ms c"
  using that [OF cluster_step.join [OF assms, of "\<lambda>_. Inl []" h]] assms(2)
  by (simp add: coordinator_run_def coordinator_new_def run_auto_start_def node_ttl_def)

section \<open>Properties\<close>

text \<open>
  C14. At most one primary holds an unexpired grant: in every reachable cluster, through joins,
  crashes, clean stops, lost requests and lost answers, two nodes that accept writes and whose last
  granted lease has not expired on the lease store's clock are the same node.
\<close>

theorem one_live_primary:
  assumes "cluster_reachable s" "cl_nodes s m = Some a" "cl_nodes s n = Some b"
    and "node_primary a" "node_primary b" "cl_clock s < nd_until a" "cl_clock s < nd_until b"
  shows "m = n"
proof -
  have "grant_held m a (cl_store s)" "grant_held n b (cl_store s)"
    using live_primary_holds [OF cluster_reachable_inv [OF assms(1)]] assms by blast+
  then show ?thesis by (auto simp: grant_held_def split: option.splits)
qed

text \<open>
  The epoch is a fencing token: two nodes that accept writes at the same time never carry the
  same epoch, and the one whose grant has not expired carries the larger.
\<close>

theorem epoch_fences_primaries:
  assumes "cluster_reachable s" "m \<noteq> n" "cl_nodes s m = Some a" "cl_nodes s n = Some b"
    and "node_primary a" "node_primary b"
  shows "node_epoch a \<noteq> node_epoch b \<and> (cl_clock s < nd_until b \<longrightarrow> node_epoch a < node_epoch b)"
proof -
  have inv: "cluster_inv s" using assms(1) by (rule cluster_reachable_inv)
  then have "node_epoch a \<noteq> node_epoch b" "standing m a (cl_clock s) (cl_store s)"
    using assms nodes_invD [of "cl_nodes s" "cl_clock s" "cl_store s"] by (auto simp: cluster_inv_def)
  then show ?thesis using live_primary_holds [OF inv assms(4,6)] assms(2)
    by (auto simp: standing_def grant_held_def grant_over_def split: option.splits)
qed

text \<open>
  C25. Failover completes: in a reachable cluster where the lease is vacant or has expired at time
  \<open>t\<close>, the next election round of any node whose store enters WAL mode makes it the primary, under
  an epoch above that of every other node still accepting writes, all of whose grants are over.
\<close>

theorem failover_promotes:
  assumes "cluster_reachable s" "cl_nodes s n = Some nd" "cl_clock s \<le> t"
    and "lease_current t (cl_store s) = None"
    and "set_store_journal_for pragma RolePrimary (nd_coord nd) = Inr ()"
  shows "\<exists>s' nd'. cluster_step s s' \<and> cl_clock s' = t \<and> cl_nodes s' n = Some nd' \<and> node_primary nd'
    \<and> lease_current t (cl_store s') = (if t < lease_expiry_ms t (node_ttl nd)
         then Some \<lparr>le_holder = n, le_epoch = node_epoch nd', le_expires_at_ms = lease_expiry_ms t (node_ttl nd)\<rparr>
         else None)
    \<and> (\<forall>m a. m \<noteq> n \<and> cl_nodes s' m = Some a \<and> node_primary a \<longrightarrow>
         node_epoch a < node_epoch nd' \<and> nd_until a \<le> t)"
proof -
  have inv: "cluster_inv s" using assms(1) by (rule cluster_reachable_inv)
  then have wf: "node_wf n nd" using assms(2) by (auto simp: cluster_inv_def dest: nodes_invD(1))
  obtain s' nd' where s': "cluster_step s s'" "cl_nodes s' = (cl_nodes s)(n \<mapsto> nd')" "node_primary nd'"
    "cl_clock s' = t" "node_epoch nd' = ls_last_epoch (cl_store s) + 1"
    and l: "ls_lease (cl_store s') = Some \<lparr>le_holder = n, le_epoch = ls_last_epoch (cl_store s) + 1,
       le_expires_at_ms = lease_expiry_ms t (node_ttl nd)\<rparr>"
    using tick_promotes [OF assms(2) wf assms(3-5)] by metis
  have inv': "nodes_inv (cl_nodes s') t (cl_store s')"
    using cluster_inv_step [OF s'(1) inv] s'(4) by (simp add: cluster_inv_def)
  have "node_epoch a < node_epoch nd' \<and> nd_until a \<le> t"
    if "m \<noteq> n" "cl_nodes s' m = Some a" "node_primary a" for m a
    using nodes_invD(2) [OF inv' that(2,3)] that(1) l s'(5)
    by (auto simp: standing_def grant_held_def grant_over_def)
  then show ?thesis using s' l by (intro exI [of _ s'] exI [of _ nd']) (auto simp: lease_current_def)
qed

text \<open>A run in which one node wins the lease and then no longer reaches the lease store.\<close>

definition sample_config :: "string \<Rightarrow> replication_config" where
  "sample_config n = \<lparr>rc_mode = ModeAuto, rc_nats_url = None, rc_store_path = ''s.db'',
     rc_stream = default_stream, rc_subject = default_subject, rc_kv_bucket = default_kv_bucket,
     rc_node_id = n, rc_lease_ttl_ms = 15000, rc_poll_interval_ms = 500\<rparr>"

lemma sample_config_sel [simp]:
  "rc_mode (sample_config n) = ModeAuto" "rc_node_id (sample_config n) = n"
  "rc_lease_ttl_ms (sample_config n) = 15000"
  by (simp_all add: sample_config_def)

lemma cluster_reachable_wf: "cluster_reachable s \<Longrightarrow> cl_nodes s n = Some nd \<Longrightarrow> node_wf n nd"
  by (drule cluster_reachable_inv) (auto simp: cluster_inv_def dest: nodes_invD(1))

lemma no_handle_journal: "\<not> co_has_handle c \<Longrightarrow> set_store_journal_for pragma r c = Inr ()"
  by (simp add: set_store_journal_for_def)

lemma partitioned_run:
  "\<exists>s a b. cluster_reachable s \<and> cl_clock s = 0 \<and> cl_nodes s ''a'' = Some a \<and> node_primary a
    \<and> nd_until a = 15000 \<and> cl_nodes s ''b'' = Some b \<and> \<not> co_has_handle (nd_coord b)
    \<and> node_ttl b = 15000 \<and> lease_current 15000 (cl_store s) = None"
proof -
  have 0: "cluster_reachable (cluster_start 0)" by (auto simp: cluster_reachable_def)
  obtain s1 a where 1: "cluster_step (cluster_start 0) s1" "cl_nodes s1 = [''a'' \<mapsto> a]"
    "cl_store s1 = lease_store_new" "cl_clock s1 = 0" "\<not> co_has_handle (nd_coord a)" "node_ttl a = 15000"
    by (rule node_join [of "cluster_start 0" "sample_config ''a''" False]) (simp_all add: cluster_start_def)
  obtain s2 b where 2: "cluster_step s1 s2" "cl_nodes s2 = [''a'' \<mapsto> a, ''b'' \<mapsto> b]"
    "cl_store s2 = lease_store_new" "cl_clock s2 = 0" "\<not> co_has_handle (nd_coord b)" "node_ttl b = 15000"
    by (rule node_join [of s1 "sample_config ''b''" False]) (simp_all add: 1)
  have r2: "cluster_reachable s2" using 0 1(1) 2(1) cluster_step_reachable by blast
  have a: "cl_nodes s2 ''a'' = Some a" by (simp add: 2)
  obtain s3 a' where 3: "cluster_step s2 s3" "cl_nodes s3 = (cl_nodes s2)(''a'' \<mapsto> a')" "node_primary a'"
    "cl_clock s3 = 0" "ls_lease (cl_store s3) = Some \<lparr>le_holder = ''a'', le_epoch = ls_last_epoch (cl_store s2) + 1,
       le_expires_at_ms = lease_expiry_ms 0 (node_ttl a)\<rparr>" "nd_until a' = lease_expiry_ms 0 (node_ttl a)"
    by (rule tick_promotes [OF a cluster_reachable_wf [OF r2 a], of 0 "\<lambda>_. Inl []"])
      (simp_all add: 1 2 no_handle_journal lease_store_new_def lease_current_def)
  have "cluster_reachable s3" using r2 3(1) by (rule cluster_step_reachable)
  moreover have "lease_expiry_ms 0 15000 = 15000" by (simp add: lease_expiry_ms_def i64_max_def)
  ultimately show ?thesis using 1 2 3
    by (intro exI [of _ s3] exI [of _ a'] exI [of _ b]) (simp add: lease_current_def)
qed

lemma split_brain_run:
  "\<exists>s a b. cluster_reachable s \<and> cl_nodes s ''a'' = Some a \<and> cl_nodes s ''b'' = Some b
    \<and> node_primary a \<and> node_primary b \<and> nd_until a = 15000 \<and> cl_clock s = 15000 \<and> nd_until b = 30000"
proof -
  obtain s a b where s: "cluster_reachable s" "cl_clock s = 0" "cl_nodes s ''a'' = Some a" "node_primary a"
    "nd_until a = 15000" "\<not> co_has_handle (nd_coord b)" "node_ttl b = 15000"
    and b: "cl_nodes s ''b'' = Some b" and free: "lease_current 15000 (cl_store s) = None"
    using partitioned_run by auto
  have journal: "set_store_journal_for (\<lambda>_. Inl []) RolePrimary (nd_coord b) = Inr ()"
    using s(6) by (rule no_handle_journal)
  obtain s' b' where s': "cluster_step s s'" "cl_nodes s' = (cl_nodes s)(''b'' \<mapsto> b')" "node_primary b'"
    "cl_clock s' = 15000" "nd_until b' = lease_expiry_ms 15000 (node_ttl b)"
    by (rule tick_promotes [OF b cluster_reachable_wf [OF s(1) b] _ free journal]) (simp_all add: s)
  have "cluster_reachable s'" using s(1) s'(1) by (rule cluster_step_reachable)
  moreover have "lease_expiry_ms 15000 15000 = 30000" by (simp add: lease_expiry_ms_def i64_max_def)
  ultimately show ?thesis using s s'
    by (intro exI [of _ s'] exI [of _ a] exI [of _ b']) simp
qed

text \<open>
  A primary cut off from the lease store keeps accepting writes: a reachable cluster has two
  nodes for which \<open>ensure_writable\<close> succeeds, one of them on a grant that has expired and under an
  epoch below the lease's. The role of a node changes only when an election round succeeds, and no
  operation compares the lease's expiry with the clock before a write.
\<close>

theorem stale_primary_stays_writable:
  "\<exists>s a b. cluster_reachable s \<and> cl_nodes s ''a'' = Some a \<and> cl_nodes s ''b'' = Some b
    \<and> ensure_writable (co_shared (nd_coord a)) = Inr () \<and> ensure_writable (co_shared (nd_coord b)) = Inr ()
    \<and> nd_until a \<le> cl_clock s \<and> lease_current (cl_clock s) (cl_store s) \<noteq> None
    \<and> node_epoch a < node_epoch b"
proof -
  obtain s a b where s: "cluster_reachable s" "cl_nodes s ''a'' = Some a" "cl_nodes s ''b'' = Some b"
    "node_primary a" "node_primary b" "nd_until a = 15000" "cl_clock s = 15000" "nd_until b = 30000"
    using split_brain_run by blast
  have inv: "cluster_inv s" using s(1) by (rule cluster_reachable_inv)
  then have "grant_held ''b'' b (cl_store s)" using s by (intro live_primary_holds) auto
  moreover have "standing ''a'' a (cl_clock s) (cl_store s)"
    using inv s nodes_invD(2) by (simp add: cluster_inv_def) (metis s(7))
  ultimately show ?thesis using s
    by (intro exI [of _ s] exI [of _ a] exI [of _ b])
      (auto simp: node_primary_def standing_def grant_held_def grant_over_def lease_current_def split: option.splits)
qed

text \<open>
  A failed journal switch does not stop the standby loop and does not close a static primary to
  writes: a node that loses the lease starts its standby task whatever the switch to the rollback
  journal answers, and a node configured as primary whose store cannot enter WAL mode ships nothing
  and still accepts writes.
\<close>

theorem journal_failure_is_not_fatal:
  "(co_current_role c = RolePrimary \<and> le_holder l \<noteq> rc_node_id (co_config c) \<longrightarrow>
      co_task (auto_tick pragma (Inr l) c) = Some RoleStandby)
   \<and> (rc_mode (co_config c) = ModePrimary \<and> co_task c = None
        \<and> set_store_journal_for pragma RolePrimary c = Inl e \<longrightarrow>
      co_task (coordinator_run pragma c) = None
      \<and> ensure_writable (co_shared (coordinator_run pragma c)) = Inr ())"
  by (auto simp: auto_tick_def elect_once_def spawn_role_def coordinator_run_def run_static_def Let_def
      set_store_journal_for_def ensure_writable_def shared_is_writable_def split: sum.splits if_splits)

section \<open>Witnesses\<close>

lemma one_live_primary_witness:
  "\<exists>s a b. cluster_reachable s \<and> cl_nodes s ''a'' = Some a \<and> node_primary a \<and> cl_nodes s ''b'' = Some b
    \<and> {m. \<exists>c. cl_nodes s m = Some c \<and> node_primary c \<and> cl_clock s < nd_until c} = {''b''}"
proof -
  obtain s a b where s: "cluster_reachable s" "cl_nodes s ''a'' = Some a" "cl_nodes s ''b'' = Some b"
    "node_primary a" "node_primary b" "cl_clock s < nd_until b"
    using split_brain_run by (elim exE conjE) simp
  have "{m. \<exists>c. cl_nodes s m = Some c \<and> node_primary c \<and> cl_clock s < nd_until c} = {''b''}"
    using one_live_primary [OF s(1) _ s(3) _ s(5) _ s(6)] s(3,5,6) by blast
  then show ?thesis using s(1-4) by (intro exI conjI)
qed

lemma epoch_fences_primaries_witness:
  "\<exists>s a b. cluster_reachable s \<and> cl_nodes s ''a'' = Some a \<and> cl_nodes s ''b'' = Some b
    \<and> node_primary a \<and> node_primary b \<and> node_epoch a < node_epoch b"
proof -
  obtain s a b where s: "cluster_reachable s" "cl_nodes s ''a'' = Some a" "cl_nodes s ''b'' = Some b"
    "node_primary a" "node_primary b" "cl_clock s < nd_until b"
    using split_brain_run by (elim exE conjE) simp
  then show ?thesis using epoch_fences_primaries [OF s(1) _ s(2-5)] by auto
qed

lemma failover_promotes_witness:
  "\<exists>s b s' b'. cluster_reachable s \<and> cl_nodes s ''b'' = Some b \<and> lease_current 15000 (cl_store s) = None
    \<and> cluster_step s s' \<and> cl_nodes s' ''b'' = Some b' \<and> node_primary b'"
proof -
  obtain s b where s: "cluster_reachable s" "cl_nodes s ''b'' = Some b" "cl_clock s = 0"
    "\<not> co_has_handle (nd_coord b)" "lease_current 15000 (cl_store s) = None"
    using partitioned_run by auto
  have "cl_clock s \<le> 15000" using s(3) by simp
  from failover_promotes [OF s(1,2) this s(5) no_handle_journal [OF s(4)]]
  show ?thesis using s by blast
qed

definition sample_static :: coordinator where
  "sample_static = coordinator_new ((sample_config ''a'')\<lparr>rc_mode := ModePrimary\<rparr>) True"

lemma journal_failure_is_not_fatal_witness:
  "co_task (coordinator_run (\<lambda>_. Inl ''locked'') sample_static) = None
   \<and> ensure_writable (co_shared (coordinator_run (\<lambda>_. Inl ''locked'') sample_static)) = Inr ()"
proof -
  have "rc_mode (co_config sample_static) = ModePrimary" "co_task sample_static = None"
    "\<exists>e. set_store_journal_for (\<lambda>_. Inl ''locked'') RolePrimary sample_static = Inl e"
    by (simp_all add: sample_static_def coordinator_new_def set_store_journal_for_def)
  then show ?thesis using journal_failure_is_not_fatal [where c = sample_static] by blast
qed

end
