(* ===== verification/Key_Forgetting.thy ===== *)
theory Key_Forgetting
  imports Crypto_Primitives Btree_Map Time_And_Float
begin

text \<open>
  Cryptographic forgetting (\<^verbatim>\<open>crypto/src/forgetting.rs\<close>): data-encryption keys per scope and per
  epoch, the registry with its tombstones, the two destructors with their persistence hook, and the
  manager that rotates epochs by policy. Clock readings are arguments, one per \<^verbatim>\<open>Utc::now()\<close>; the
  source of key material is an argument with its own state; the bytes of a key that is dropped or
  destroyed are overwritten with zeros.
\<close>

section \<open>Keys\<close>

definition epoch_next :: "nat \<Rightarrow> crypto_error + nat" where
  "epoch_next e = (if e < u64_max then Inr (e + 1) else Inl EpochOverflow)"

definition zeroize :: "byte list \<Rightarrow> byte list" where
  "zeroize key = replicate (length key) 0"

record scope_dek =
  sd_scope_id :: uuid
  sd_created_at :: instant
  sd_epoch :: nat
  sd_key :: "byte list"
  sd_destroyed :: bool

definition scope_dek_new :: "instant \<Rightarrow> uuid \<Rightarrow> nat \<Rightarrow> byte list \<Rightarrow> scope_dek" where
  "scope_dek_new now scope epoch key =
     \<lparr>sd_scope_id = scope, sd_created_at = now, sd_epoch = epoch, sd_key = key, sd_destroyed = False\<rparr>"

definition scope_dek_key :: "scope_dek \<Rightarrow> byte list option" where
  "scope_dek_key d = (if sd_destroyed d then None else Some (sd_key d))"

definition scope_dek_destroy :: "scope_dek \<Rightarrow> scope_dek" where
  "scope_dek_destroy d =
     (if \<not> sd_destroyed d then d\<lparr>sd_key := zeroize (sd_key d), sd_destroyed := True\<rparr> else d)"

record epoch_dek =
  ed_scope_id :: uuid
  ed_epoch_id :: nat
  ed_rotation_time :: instant
  ed_key :: "byte list"
  ed_destroyed :: bool

definition epoch_dek_new :: "instant \<Rightarrow> uuid \<Rightarrow> nat \<Rightarrow> byte list \<Rightarrow> epoch_dek" where
  "epoch_dek_new now scope epoch key =
     \<lparr>ed_scope_id = scope, ed_epoch_id = epoch, ed_rotation_time = now, ed_key = key, ed_destroyed = False\<rparr>"

definition epoch_dek_key :: "epoch_dek \<Rightarrow> byte list option" where
  "epoch_dek_key d = (if ed_destroyed d then None else Some (ed_key d))"

definition epoch_dek_destroy :: "epoch_dek \<Rightarrow> epoch_dek" where
  "epoch_dek_destroy d =
     (if \<not> ed_destroyed d then d\<lparr>ed_key := zeroize (ed_key d), ed_destroyed := True\<rparr> else d)"

section \<open>The registry\<close>

record key_destruction_event =
  ke_scope_id :: uuid
  ke_epoch_id :: nat
  ke_scope_wide :: bool
  ke_destroyed_at :: instant

text \<open>The persistence hook, a trait of the source: its two writes on a store of type \<open>'s\<close>.\<close>

record 's tombstone_store =
  ts_persist_tombstone :: "uuid \<Rightarrow> nat \<Rightarrow> instant \<Rightarrow> 's \<Rightarrow> (crypto_error + unit) \<times> 's"
  ts_persist_forgotten_scope :: "uuid \<Rightarrow> instant \<Rightarrow> 's \<Rightarrow> (crypto_error + unit) \<times> 's"

record dek_registry =
  reg_scope_deks :: "(uuid, scope_dek) btree"
  reg_epoch_deks :: "(uuid \<times> nat, epoch_dek) btree"
  reg_tombstones :: "(uuid \<times> nat, instant) btree"
  reg_forgotten_scopes :: "(uuid, instant) btree"

definition dek_registry_new :: dek_registry where
  "dek_registry_new = \<lparr>reg_scope_deks = [], reg_epoch_deks = [], reg_tombstones = [], reg_forgotten_scopes = []\<rparr>"

definition insert_scope_dek :: "scope_dek \<Rightarrow> dek_registry \<Rightarrow> dek_registry" where
  "insert_scope_dek d r = r\<lparr>reg_scope_deks := bt_insert (sd_scope_id d) d (reg_scope_deks r)\<rparr>"

definition insert_epoch_dek :: "epoch_dek \<Rightarrow> dek_registry \<Rightarrow> dek_registry" where
  "insert_epoch_dek d r =
     r\<lparr>reg_epoch_deks := bt_insert (ed_scope_id d, ed_epoch_id d) d (reg_epoch_deks r)\<rparr>"

definition get_scope_dek :: "dek_registry \<Rightarrow> uuid \<Rightarrow> scope_dek option" where
  "get_scope_dek r scope = (case map_of (reg_scope_deks r) scope of
     Some d \<Rightarrow> if \<not> sd_destroyed d then Some d else None | None \<Rightarrow> None)"

definition get_epoch_dek :: "dek_registry \<Rightarrow> uuid \<Rightarrow> nat \<Rightarrow> epoch_dek option" where
  "get_epoch_dek r scope epoch = (case map_of (reg_epoch_deks r) (scope, epoch) of
     Some d \<Rightarrow> if \<not> ed_destroyed d then Some d else None | None \<Rightarrow> None)"

definition is_scope_forgotten :: "dek_registry \<Rightarrow> uuid \<Rightarrow> bool" where
  "is_scope_forgotten r scope \<longleftrightarrow> map_of (reg_forgotten_scopes r) scope \<noteq> None"

definition is_epoch_forgotten :: "dek_registry \<Rightarrow> uuid \<Rightarrow> nat \<Rightarrow> bool" where
  "is_epoch_forgotten r scope epoch \<longleftrightarrow> map_of (reg_tombstones r) (scope, epoch) \<noteq> None"

definition tombstones :: "dek_registry \<Rightarrow> (uuid \<times> nat \<times> instant) list" where
  "tombstones r = map (\<lambda>((s, e), ts). (s, e, ts)) (reg_tombstones r)"

definition epoch_count :: "dek_registry \<Rightarrow> uuid \<Rightarrow> nat" where
  "epoch_count r scope = length (filter (\<lambda>k. fst k = scope) (bt_keys (reg_epoch_deks r)))"

section \<open>Destroying keys\<close>

definition destroy_scope_level ::
  "instant \<Rightarrow> uuid \<Rightarrow> dek_registry \<Rightarrow> key_destruction_event list \<times> dek_registry" where
  "destroy_scope_level now scope r =
     (case map_of (reg_scope_deks r) scope of
        None \<Rightarrow> ([], r)
      | Some d \<Rightarrow>
          let r1 = r\<lparr>reg_scope_deks := bt_remove scope (reg_scope_deks r)\<rparr>
          in if \<not> sd_destroyed d
             then ([\<lparr>ke_scope_id = scope, ke_epoch_id = sd_epoch d, ke_scope_wide = True, ke_destroyed_at = now\<rparr>],
                   r1\<lparr>reg_tombstones := bt_insert (scope, sd_epoch d) now (reg_tombstones r1)\<rparr>)
             else ([], r1))"

fun destroy_epoch_level ::
  "instant \<Rightarrow> uuid \<Rightarrow> (uuid \<times> nat) list \<Rightarrow> key_destruction_event list \<times> dek_registry
     \<Rightarrow> key_destruction_event list \<times> dek_registry" where
  "destroy_epoch_level now scope [] (events, r) = (events, r)"
| "destroy_epoch_level now scope (k # ks) (events, r) =
     destroy_epoch_level now scope ks
       (case map_of (reg_epoch_deks r) k of
          None \<Rightarrow> (events, r)
        | Some d \<Rightarrow>
            let r1 = r\<lparr>reg_epoch_deks := bt_remove k (reg_epoch_deks r)\<rparr>
            in if \<not> ed_destroyed d
               then (events @ [\<lparr>ke_scope_id = scope, ke_epoch_id = snd k, ke_scope_wide = True, ke_destroyed_at = now\<rparr>],
                     r1\<lparr>reg_tombstones := bt_insert k now (reg_tombstones r1)\<rparr>)
               else (events, r1))"

fun persist_tombstones ::
  "'s tombstone_store \<Rightarrow> uuid \<Rightarrow> (nat \<times> instant) list \<Rightarrow> 's \<Rightarrow> (crypto_error + unit) \<times> 's" where
  "persist_tombstones ops scope [] st = (Inr (), st)"
| "persist_tombstones ops scope ((e, ts) # rest) st =
     (case ts_persist_tombstone ops scope e ts st of
        (Inl err, st1) \<Rightarrow> (Inl err, st1)
      | (Inr _, st1) \<Rightarrow> persist_tombstones ops scope rest st1)"

definition scope_tombstones :: "dek_registry \<Rightarrow> uuid \<Rightarrow> (nat \<times> instant) list" where
  "scope_tombstones r scope =
     List.map_filter (\<lambda>((s, e), ts). if s = scope then Some (e, ts) else None) (reg_tombstones r)"

definition persist_scope ::
  "'s tombstone_store \<Rightarrow> instant \<Rightarrow> uuid \<Rightarrow> dek_registry \<Rightarrow> 's \<Rightarrow> (crypto_error + unit) \<times> 's" where
  "persist_scope ops now scope r st =
     (case persist_tombstones ops scope (scope_tombstones r scope) st of
        (Inl err, st1) \<Rightarrow> (Inl err, st1)
      | (Inr _, st1) \<Rightarrow> ts_persist_forgotten_scope ops scope now st1)"

text \<open>In memory first, then the hook: a failed write leaves the registry forgotten.\<close>

definition forget_in_memory ::
  "instant \<Rightarrow> uuid \<Rightarrow> dek_registry \<Rightarrow> key_destruction_event list \<times> dek_registry" where
  "forget_in_memory now scope r =
     (let (events, r1) = destroy_scope_level now scope r;
          epoch_keys = filter (\<lambda>k. fst k = scope) (bt_keys (reg_epoch_deks r1));
          (events, r2) = destroy_epoch_level now scope epoch_keys (events, r1)
      in (events, r2\<lparr>reg_forgotten_scopes := bt_insert scope now (reg_forgotten_scopes r2)\<rparr>))"

definition destroy_scope_dek ::
  "'s tombstone_store option \<Rightarrow> instant \<Rightarrow> uuid \<Rightarrow> dek_registry \<times> 's
     \<Rightarrow> (crypto_error + key_destruction_event list) \<times> dek_registry \<times> 's" where
  "destroy_scope_dek hook now scope rs =
     (case rs of (r, st) \<Rightarrow>
        if is_scope_forgotten r scope then (Inr [], r, st)
        else
          let (events, r1) = forget_in_memory now scope r
          in case hook of
               None \<Rightarrow> (Inr events, r1, st)
             | Some ops \<Rightarrow>
                 (case persist_scope ops now scope r1 st of
                    (Inl err, st1) \<Rightarrow> (Inl err, r1, st1)
                  | (Inr _, st1) \<Rightarrow> (Inr events, r1, st1)))"

definition destroy_epoch_dek ::
  "'s tombstone_store option \<Rightarrow> instant \<Rightarrow> uuid \<Rightarrow> nat \<Rightarrow> dek_registry \<times> 's
     \<Rightarrow> (crypto_error + key_destruction_event list) \<times> dek_registry \<times> 's" where
  "destroy_epoch_dek hook now scope epoch rs =
     (case rs of (r, st) \<Rightarrow>
        if is_epoch_forgotten r scope epoch then (Inr [], r, st)
        else
          let event = \<lparr>ke_scope_id = scope, ke_epoch_id = epoch, ke_scope_wide = False, ke_destroyed_at = now\<rparr>;
              removed = (case map_of (reg_epoch_deks r) (scope, epoch) of
                           Some d \<Rightarrow> if \<not> ed_destroyed d then [event] else [] | None \<Rightarrow> []);
              events = (if removed = [] then [event] else removed);
              r1 = r\<lparr>reg_epoch_deks := bt_remove (scope, epoch) (reg_epoch_deks r),
                     reg_tombstones := bt_insert (scope, epoch) now (reg_tombstones r)\<rparr>
          in case hook of
               None \<Rightarrow> (Inr events, r1, st)
             | Some ops \<Rightarrow>
                 (case ts_persist_tombstone ops scope epoch now st of
                    (Inl err, st1) \<Rightarrow> (Inl err, r1, st1)
                  | (Inr _, st1) \<Rightarrow> (Inr events, r1, st1)))"

definition record_key_destructions ::
  "(key_destruction_event \<Rightarrow> 'a \<Rightarrow> 'a) \<Rightarrow> key_destruction_event list \<Rightarrow> 'a \<Rightarrow> 'a" where
  "record_key_destructions record_destruction events auditor = fold record_destruction events auditor"

section \<open>Rotating epochs\<close>

datatype rotation_trigger = TimeElapsed | SizeExceeded | PolicyForced

definition trigger_as_str :: "rotation_trigger \<Rightarrow> string" where
  "trigger_as_str t = (case t of TimeElapsed \<Rightarrow> ''time_elapsed'' | SizeExceeded \<Rightarrow> ''size_exceeded''
     | PolicyForced \<Rightarrow> ''policy_forced'')"

record rotation_policy =
  rp_max_epoch_duration :: duration
  rp_max_epoch_size_bytes :: nat

definition rotation_default_policy :: rotation_policy where
  "rotation_default_policy =
     \<lparr>rp_max_epoch_duration = 24 * 3600 * nanos_per_sec, rp_max_epoch_size_bytes = 16 * 1024 * 1024 * 1024\<rparr>"

record epoch_info =
  ei_epoch_id :: nat
  ei_started_at :: instant
  ei_bytes_encrypted :: nat
  ei_cold :: bool

record 'k epoch_manager =
  em_policy :: rotation_policy
  em_epochs :: "(uuid, epoch_info list) btree"
  em_current :: "(uuid, nat) btree"
  em_key_source :: 'k

definition manager_new :: "rotation_policy \<Rightarrow> 'k \<Rightarrow> 'k epoch_manager" where
  "manager_new policy src = \<lparr>em_policy = policy, em_epochs = [], em_current = [], em_key_source = src\<rparr>"

type_synonym 'k derive = "uuid \<Rightarrow> nat \<Rightarrow> 'k \<Rightarrow> byte list \<times> 'k"

definition list_epochs :: "'k epoch_manager \<Rightarrow> uuid \<Rightarrow> epoch_info list" where
  "list_epochs m scope = or_empty_list (map_of (em_epochs m) scope)"

definition current_epoch :: "'k epoch_manager \<Rightarrow> uuid \<Rightarrow> nat option" where
  "current_epoch m scope = map_of (em_current m) scope"

text \<open>The part \<^verbatim>\<open>ensure_scope\<close> and \<^verbatim>\<open>rotate\<close> share: start epoch \<open>e\<close> with fresh key material.\<close>

definition start_epoch ::
  "'k derive \<Rightarrow> instant \<Rightarrow> instant \<Rightarrow> uuid \<Rightarrow> nat \<Rightarrow> 'k epoch_manager \<times> dek_registry
     \<Rightarrow> epoch_info \<times> 'k epoch_manager \<times> dek_registry" where
  "start_epoch derive now now2 scope e mr =
     (case mr of (m, r) \<Rightarrow>
        let info = \<lparr>ei_epoch_id = e, ei_started_at = now, ei_bytes_encrypted = 0, ei_cold = False\<rparr>;
            (key, src) = derive scope e (em_key_source m)
        in (info,
            m\<lparr>em_epochs := bt_insert scope (list_epochs m scope @ [info]) (em_epochs m),
              em_current := bt_insert scope e (em_current m), em_key_source := src\<rparr>,
            insert_epoch_dek (epoch_dek_new now2 scope e key) r))"

definition ensure_scope ::
  "'k derive \<Rightarrow> instant \<Rightarrow> instant \<Rightarrow> uuid \<Rightarrow> 'k epoch_manager \<times> dek_registry
     \<Rightarrow> epoch_info \<times> 'k epoch_manager \<times> dek_registry" where
  "ensure_scope derive now now2 scope mr =
     (case List.find (\<lambda>e. \<not> ei_cold e) (list_epochs (fst mr) scope) of
        Some info \<Rightarrow> (info, mr)
      | None \<Rightarrow> start_epoch derive now now2 scope 0 mr)"

definition rotate_epoch ::
  "'k derive \<Rightarrow> instant \<Rightarrow> instant \<Rightarrow> uuid \<Rightarrow> 'k epoch_manager \<times> dek_registry
     \<Rightarrow> (crypto_error + nat) \<times> 'k epoch_manager \<times> dek_registry" where
  "rotate_epoch derive now now2 scope mr =
     (case mr of (m, r) \<Rightarrow>
        case (case current_epoch m scope of Some c \<Rightarrow> epoch_next c | None \<Rightarrow> Inr 0) of
          Inl err \<Rightarrow> (Inl err, m, r)
        | Inr e \<Rightarrow>
            let m1 = (case map_of (em_epochs m) scope of
                        Some infos \<Rightarrow> m\<lparr>em_epochs := bt_insert scope (map (\<lambda>i. i\<lparr>ei_cold := True\<rparr>) infos) (em_epochs m)\<rparr>
                      | None \<Rightarrow> m)
            in (Inr e, snd (start_epoch derive now now2 scope e (m1, r))))"

definition force_rotate ::
  "'k derive \<Rightarrow> instant \<Rightarrow> instant \<Rightarrow> uuid \<Rightarrow> 'k epoch_manager \<times> dek_registry
     \<Rightarrow> (crypto_error + nat \<times> rotation_trigger) \<times> 'k epoch_manager \<times> dek_registry" where
  "force_rotate derive now now2 scope mr =
     (case rotate_epoch derive now now2 scope mr of
        (Inl err, mr1) \<Rightarrow> (Inl err, mr1)
      | (Inr e, mr1) \<Rightarrow> (Inr (e, PolicyForced), mr1))"

text \<open>The newest epoch that is not cold, searched from the end.\<close>

definition latest_hot :: "epoch_info list \<Rightarrow> epoch_info option" where
  "latest_hot infos = List.find (\<lambda>e. \<not> ei_cold e) (rev infos)"

fun add_bytes_first :: "nat \<Rightarrow> epoch_info list \<Rightarrow> epoch_info list" where
  "add_bytes_first n [] = []"
| "add_bytes_first n (i # is) =
     (if \<not> ei_cold i then i\<lparr>ei_bytes_encrypted := sat_add (ei_bytes_encrypted i) n\<rparr> # is
      else i # add_bytes_first n is)"

definition add_bytes :: "nat \<Rightarrow> epoch_info list \<Rightarrow> epoch_info list" where
  "add_bytes n infos = rev (add_bytes_first n (rev infos))"

definition bytes_trigger :: "rotation_policy \<Rightarrow> instant \<Rightarrow> nat \<Rightarrow> epoch_info \<Rightarrow> rotation_trigger option" where
  "bytes_trigger policy now n latest =
     (if rp_max_epoch_size_bytes policy \<le> sat_add (ei_bytes_encrypted latest) n then Some SizeExceeded
      else if rp_max_epoch_duration policy \<le> now - ei_started_at latest then Some TimeElapsed
      else None)"

definition record_bytes ::
  "'k derive \<Rightarrow> instant \<Rightarrow> instant \<Rightarrow> instant \<Rightarrow> uuid \<Rightarrow> nat \<Rightarrow> 'k epoch_manager \<times> dek_registry
     \<Rightarrow> (crypto_error + rotation_trigger option) \<times> 'k epoch_manager \<times> dek_registry" where
  "record_bytes derive now now1 now2 scope n mr =
     (case mr of (m, r) \<Rightarrow>
        let (should_rotate, m1) =
              (case map_of (em_epochs m) scope of
                 None \<Rightarrow> (None, m)
               | Some infos \<Rightarrow>
                   (case latest_hot infos of
                      None \<Rightarrow> (None, m)
                    | Some latest \<Rightarrow>
                        (bytes_trigger (em_policy m) now n latest,
                         m\<lparr>em_epochs := bt_insert scope (add_bytes n infos) (em_epochs m)\<rparr>)))
        in case should_rotate of
             None \<Rightarrow> (Inr None, m1, r)
           | Some t \<Rightarrow>
               (case rotate_epoch derive now1 now2 scope (m1, r) of
                  (Inl err, mr1) \<Rightarrow> (Inl err, mr1)
                | (Inr _, mr1) \<Rightarrow> (Inr (Some t), mr1)))"

definition epoch_tick ::
  "'k derive \<Rightarrow> instant \<Rightarrow> instant \<Rightarrow> instant \<Rightarrow> uuid \<Rightarrow> 'k epoch_manager \<times> dek_registry
     \<Rightarrow> (crypto_error + rotation_trigger option) \<times> 'k epoch_manager \<times> dek_registry" where
  "epoch_tick derive now now1 now2 scope mr =
     (case latest_hot (list_epochs (fst mr) scope) of
        Some latest \<Rightarrow>
          if rp_max_epoch_duration (em_policy (fst mr)) \<le> now - ei_started_at latest
          then (case rotate_epoch derive now1 now2 scope mr of
                  (Inl err, mr1) \<Rightarrow> (Inl err, mr1)
                | (Inr _, mr1) \<Rightarrow> (Inr (Some TimeElapsed), mr1))
          else (Inr None, mr)
      | None \<Rightarrow> (Inr None, mr))"

section \<open>Destruction is complete\<close>

definition live_epoch :: "dek_registry \<Rightarrow> uuid \<times> nat \<Rightarrow> bool" where
  "live_epoch r k \<longleftrightarrow> get_epoch_dek r (fst k) (snd k) \<noteq> None"

definition wide_event :: "instant \<Rightarrow> uuid \<Rightarrow> nat \<Rightarrow> key_destruction_event" where
  "wide_event now scope e = \<lparr>ke_scope_id = scope, ke_epoch_id = e, ke_scope_wide = True, ke_destroyed_at = now\<rparr>"

definition scope_level_events :: "instant \<Rightarrow> uuid \<Rightarrow> dek_registry \<Rightarrow> key_destruction_event list" where
  "scope_level_events now scope r =
     (case get_scope_dek r scope of None \<Rightarrow> [] | Some d \<Rightarrow> [wide_event now scope (sd_epoch d)])"

lemma destroy_scope_level_spec:
  assumes "destroy_scope_level now scope r = (events, r')"
  shows "events = scope_level_events now scope r"
    and "map_of (reg_scope_deks r') = (map_of (reg_scope_deks r))(scope := None)"
    and "reg_epoch_deks r' = reg_epoch_deks r" and "reg_forgotten_scopes r' = reg_forgotten_scopes r"
    and "map_of (reg_tombstones r') k =
      (if k \<in> (\<lambda>ev. (scope, ke_epoch_id ev)) ` set events then Some now else map_of (reg_tombstones r) k)"
  using assms
  by (auto simp: destroy_scope_level_def scope_level_events_def wide_event_def get_scope_dek_def Let_def
      fun_eq_iff split: option.splits if_splits)

lemma destroy_epoch_level_spec:
  assumes "distinct ks" "destroy_epoch_level now scope ks (events, r) = (events', r')"
  shows "events' = events @ map (wide_event now scope \<circ> snd) (filter (live_epoch r) ks)
    \<and> reg_scope_deks r' = reg_scope_deks r \<and> reg_forgotten_scopes r' = reg_forgotten_scopes r
    \<and> (\<forall>k. map_of (reg_epoch_deks r') k = (if k \<in> set ks then None else map_of (reg_epoch_deks r) k))
    \<and> (\<forall>k. map_of (reg_tombstones r') k =
          (if k \<in> set ks \<and> live_epoch r k then Some now else map_of (reg_tombstones r) k))"
  using assms
proof (induction ks arbitrary: events r)
  case (Cons k ks)
  define er where "er = (case map_of (reg_epoch_deks r) k of None \<Rightarrow> (events, r)
    | Some d \<Rightarrow> let r1 = r\<lparr>reg_epoch_deks := bt_remove k (reg_epoch_deks r)\<rparr>
        in if \<not> ed_destroyed d
           then (events @ [\<lparr>ke_scope_id = scope, ke_epoch_id = snd k, ke_scope_wide = True, ke_destroyed_at = now\<rparr>],
                 r1\<lparr>reg_tombstones := bt_insert k now (reg_tombstones r1)\<rparr>)
           else (events, r1))"
  obtain ev1 r1 where er: "er = (ev1, r1)" by fastforce
  have step: "ev1 = events @ (if live_epoch r k then [wide_event now scope (snd k)] else [])"
    "reg_scope_deks r1 = reg_scope_deks r" "reg_forgotten_scopes r1 = reg_forgotten_scopes r"
    "map_of (reg_epoch_deks r1) = (map_of (reg_epoch_deks r))(k := None)"
    "map_of (reg_tombstones r1) = (if live_epoch r k then (map_of (reg_tombstones r))(k \<mapsto> now) else map_of (reg_tombstones r))"
    using er unfolding er_def
    by (auto simp: live_epoch_def get_epoch_dek_def wide_event_def Let_def fun_eq_iff split: option.splits if_splits)
  have live: "live_epoch r1 = (\<lambda>k'. k' \<noteq> k \<and> live_epoch r k')"
    by (auto simp: live_epoch_def get_epoch_dek_def step(4) fun_eq_iff)
  have ks: "k \<notin> set ks" "distinct ks" using Cons.prems(1) by simp_all
  have "filter (live_epoch r1) ks = filter (live_epoch r) ks"
    using ks(1) live by (intro filter_cong) auto
  moreover have rec: "destroy_epoch_level now scope ks (ev1, r1) = (events', r')"
    using Cons.prems(2) er unfolding er_def by simp
  ultimately show ?case
    using Cons.IH [OF ks(2) rec] step ks(1) by (auto simp: live fun_upd_def)
qed simp

definition registry_ok :: "dek_registry \<Rightarrow> bool" where
  "registry_ok r \<longleftrightarrow> bt_ok (reg_scope_deks r) \<and> bt_ok (reg_epoch_deks r) \<and> bt_ok (reg_tombstones r)
     \<and> bt_ok (reg_forgotten_scopes r)"

definition scope_epoch_keys :: "dek_registry \<Rightarrow> uuid \<Rightarrow> (uuid \<times> nat) list" where
  "scope_epoch_keys r scope = filter (\<lambda>k. fst k = scope) (bt_keys (reg_epoch_deks r))"

lemma forget_in_memory_spec:
  assumes "registry_ok r" "forget_in_memory now scope r = (events, r')"
  shows "events = scope_level_events now scope r @
      map (wide_event now scope \<circ> snd) (filter (live_epoch r) (scope_epoch_keys r scope))"
    and "map_of (reg_scope_deks r') = (map_of (reg_scope_deks r))(scope := None)"
    and "map_of (reg_epoch_deks r') k = (if fst k = scope then None else map_of (reg_epoch_deks r) k)"
    and "map_of (reg_forgotten_scopes r') = (map_of (reg_forgotten_scopes r))(scope \<mapsto> now)"
    and "map_of (reg_tombstones r') k = (if k \<in> (\<lambda>ev. (scope, ke_epoch_id ev)) ` set events then Some now
      else map_of (reg_tombstones r) k)"
proof -
  obtain ev1 r1 where 1: "destroy_scope_level now scope r = (ev1, r1)" by fastforce
  note s1 = destroy_scope_level_spec [OF this]
  let ?ks = "scope_epoch_keys r scope"
  obtain ev2 r2 where 2: "destroy_epoch_level now scope ?ks (ev1, r1) = (ev2, r2)" by fastforce
  have "distinct ?ks" using assms(1) by (simp add: registry_ok_def scope_epoch_keys_def bt_ok_distinct)
  note s2 = destroy_epoch_level_spec [OF this 2]
  have deks2: "map_of (reg_epoch_deks r2) k = (if k \<in> set ?ks then None else map_of (reg_epoch_deks r1) k)"
    and tombs2: "map_of (reg_tombstones r2) k =
      (if k \<in> set ?ks \<and> live_epoch r1 k then Some now else map_of (reg_tombstones r1) k)"
    using s2 by blast+
  have live: "live_epoch r1 = live_epoch r" by (simp add: fun_eq_iff live_epoch_def get_epoch_dek_def s1(3))
  have ks: "k \<in> set ?ks \<longleftrightarrow> fst k = scope \<and> map_of (reg_epoch_deks r) k \<noteq> None" for k
    by (simp add: scope_epoch_keys_def bt_keys_dom domIff conj_commute)
  have res: "events = ev2" "r' = r2\<lparr>reg_forgotten_scopes := bt_insert scope now (reg_forgotten_scopes r2)\<rparr>"
    using assms(2) 1 2 by (simp_all add: forget_in_memory_def Let_def scope_epoch_keys_def s1(3))
  show ev: "events = scope_level_events now scope r @
      map (wide_event now scope \<circ> snd) (filter (live_epoch r) ?ks)"
    using res s1(1) s2 live by simp
  show "map_of (reg_scope_deks r') = (map_of (reg_scope_deks r))(scope := None)" using res s1(2) s2 by simp
  show "map_of (reg_forgotten_scopes r') = (map_of (reg_forgotten_scopes r))(scope \<mapsto> now)"
    using res s1(4) s2 by simp
  show "map_of (reg_epoch_deks r') k = (if fst k = scope then None else map_of (reg_epoch_deks r) k)"
    using deks2 ks [of k] by (auto simp: res s1(3))
  have "k \<in> set ?ks \<and> live_epoch r k \<longleftrightarrow>
      k \<in> (\<lambda>ev. (scope, ke_epoch_id ev)) ` set (map (wide_event now scope \<circ> snd) (filter (live_epoch r) ?ks))"
    using ks by (auto simp: wide_event_def image_iff) (metis prod.collapse)+
  then show "map_of (reg_tombstones r') k = (if k \<in> (\<lambda>ev. (scope, ke_epoch_id ev)) ` set events then Some now
      else map_of (reg_tombstones r) k)"
    using tombs2 s1(5) [of k] unfolding ev set_append image_Un Un_iff live s1(1) by (simp add: res)
qed

text \<open>
  What the trait of the persistence hook promises: a write that succeeds adds its tombstone, a write
  that fails leaves the tables as they were.
\<close>

locale tombstone_hook =
  fixes ops :: "'s tombstone_store"
    and epochs :: "'s \<Rightarrow> (uuid \<times> nat) set"
    and scopes :: "'s \<Rightarrow> uuid set"
  assumes tombstone_written: "ts_persist_tombstone ops scope e t st = (Inr u, st') \<Longrightarrow>
      epochs st' = insert (scope, e) (epochs st) \<and> scopes st' = scopes st"
    and tombstone_failed: "ts_persist_tombstone ops scope e t st = (Inl err, st') \<Longrightarrow>
      epochs st' = epochs st \<and> scopes st' = scopes st"
    and scope_written: "ts_persist_forgotten_scope ops scope t st = (Inr u, st') \<Longrightarrow>
      scopes st' = insert scope (scopes st) \<and> epochs st' = epochs st"
    and scope_failed: "ts_persist_forgotten_scope ops scope t st = (Inl err, st') \<Longrightarrow>
      scopes st' = scopes st \<and> epochs st' = epochs st"
begin

lemma persist_tombstones_written:
  "persist_tombstones ops scope es st = (Inr u, st') \<Longrightarrow>
    epochs st' = Pair scope ` fst ` set es \<union> epochs st \<and> scopes st' = scopes st"
proof (induction es arbitrary: st)
  case (Cons p es)
  obtain e t where p: "p = (e, t)" by fastforce
  obtain st1 where 1: "ts_persist_tombstone ops scope e t st = (Inr (), st1)"
    and 2: "persist_tombstones ops scope es st1 = (Inr u, st')"
    using Cons.prems by (simp add: p split: prod.splits sum.splits)
  show ?case using Cons.IH [OF 2] tombstone_written [OF 1] by (simp add: p)
qed simp

lemma persist_tombstones_failed:
  "persist_tombstones ops scope es st = (Inl err, st') \<Longrightarrow> scopes st' = scopes st"
proof (induction es arbitrary: st)
  case (Cons p es)
  obtain e t where p: "p = (e, t)" by fastforce
  obtain res st1 where 1: "ts_persist_tombstone ops scope e t st = (res, st1)" by fastforce
  show ?case
  proof (cases res)
    case (Inl x)
    then show ?thesis using Cons.prems 1 tombstone_failed [of scope e t st x st1] by (simp add: p)
  next
    case (Inr u)
    then show ?thesis
      using Cons.prems Cons.IH [of st1] 1 tombstone_written [of scope e t st u st1] by (simp add: p)
  qed
qed simp

lemma persist_scope_written:
  assumes "persist_scope ops now scope r st = (Inr u, st')"
  shows "scopes st' = insert scope (scopes st) \<and>
    epochs st' = Pair scope ` fst ` set (scope_tombstones r scope) \<union> epochs st"
proof -
  obtain st1 where 1: "persist_tombstones ops scope (scope_tombstones r scope) st = (Inr (), st1)"
    and 2: "ts_persist_forgotten_scope ops scope now st1 = (Inr (), st')"
    using assms by (auto simp: persist_scope_def split: prod.splits sum.splits)
  show ?thesis using persist_tombstones_written [OF 1] scope_written [OF 2] by simp
qed

lemma persist_scope_failed:
  assumes "persist_scope ops now scope r st = (Inl err, st')"
  shows "scopes st' = scopes st"
proof -
  obtain res st1 where 1: "persist_tombstones ops scope (scope_tombstones r scope) st = (res, st1)" by fastforce
  show ?thesis
  proof (cases res)
    case (Inl x)
    then show ?thesis using assms 1 persist_tombstones_failed by (simp add: persist_scope_def)
  next
    case (Inr u)
    then have "ts_persist_forgotten_scope ops scope now st1 = (Inl err, st')"
      using assms 1 by (simp add: persist_scope_def)
    from scope_failed [OF this] show ?thesis using Inr 1 persist_tombstones_written by simp
  qed
qed

lemma scope_tombstones_set:
  "Pair scope ` fst ` set (scope_tombstones r scope) = {k. fst k = scope \<and> map_of (reg_tombstones r) k \<noteq> None}"
  by (force simp: scope_tombstones_def List.map_filter_def map_of_eq_None_iff image_iff split: if_splits)

theorem destroy_scope_durable:
  assumes "destroy_scope_dek (Some ops) now scope (r, st) = (Inr events, r', st')"
    and "\<not> is_scope_forgotten r scope"
  shows "scopes st' = insert scope (scopes st)"
    and "is_epoch_forgotten r' scope e \<Longrightarrow> (scope, e) \<in> epochs st'"
proof -
  have "persist_scope ops now scope r' st = (Inr (), st')"
    using assms by (auto simp: destroy_scope_dek_def Let_def split: prod.splits sum.splits)
  from persist_scope_written [OF this] show "scopes st' = insert scope (scopes st)"
    and "is_epoch_forgotten r' scope e \<Longrightarrow> (scope, e) \<in> epochs st'"
    unfolding scope_tombstones_set is_epoch_forgotten_def by auto
qed

theorem destroy_scope_not_durable:
  assumes "destroy_scope_dek (Some ops) now scope (r, st) = (Inl err, r', st')"
  shows "scopes st' = scopes st \<and> is_scope_forgotten r' scope
    \<and> destroy_scope_dek (Some ops) now' scope (r', st') = (Inr [], r', st')"
proof -
  have "persist_scope ops now scope r' st = (Inl err, st')" "r' = snd (forget_in_memory now scope r)"
    using assms by (auto simp: destroy_scope_dek_def Let_def split: prod.splits sum.splits if_splits)
  moreover from this have "is_scope_forgotten r' scope"
    by (auto simp: is_scope_forgotten_def forget_in_memory_def split: prod.splits)
  ultimately show ?thesis using persist_scope_failed by (simp add: destroy_scope_dek_def)
qed

end

section \<open>Epochs of a manager\<close>

definition epochs_ok :: "epoch_info list \<Rightarrow> bool" where
  "epochs_ok v \<longleftrightarrow> v \<noteq> [] \<and> map ei_epoch_id v = [0..<length v] \<and> length v \<le> Suc u64_max
     \<and> \<not> ei_cold (last v) \<and> list_all ei_cold (butlast v)"

definition manager_inv :: "'k epoch_manager \<Rightarrow> bool" where
  "manager_inv m \<longleftrightarrow> (\<forall>scope. case map_of (em_epochs m) scope of
     None \<Rightarrow> current_epoch m scope = None
   | Some v \<Rightarrow> epochs_ok v \<and> current_epoch m scope = Some (length v - 1))"

lemma latest_hot_last: "epochs_ok v \<Longrightarrow> latest_hot v = Some (last v)"
  by (cases v rule: rev_cases) (simp_all add: epochs_ok_def latest_hot_def)

lemma find_hot_last: "epochs_ok v \<Longrightarrow> List.find (\<lambda>e. \<not> ei_cold e) v = Some (last v)"
proof (cases v rule: rev_cases)
  case (snoc ys y)
  moreover assume "epochs_ok v"
  ultimately have "List.find (\<lambda>e. \<not> ei_cold e) ys = None" "\<not> ei_cold y"
    by (simp_all add: epochs_ok_def find_None_iff list_all_iff)
  then show ?thesis by (simp add: snoc find_append)
qed (simp add: epochs_ok_def)

lemma add_bytes_last:
  "epochs_ok v \<Longrightarrow> add_bytes n v =
     butlast v @ [(last v)\<lparr>ei_bytes_encrypted := sat_add (ei_bytes_encrypted (last v)) n\<rparr>]"
  by (cases v rule: rev_cases) (simp_all add: epochs_ok_def add_bytes_def)

lemma epochs_ok_add_bytes: "epochs_ok v \<Longrightarrow> epochs_ok (add_bytes n v) \<and> length (add_bytes n v) = length v"
  by (frule add_bytes_last [where n = n], cases v rule: rev_cases) (auto simp: epochs_ok_def)

lemma epochs_ok_snoc:
  assumes "epochs_ok v" "length v \<le> u64_max" "ei_epoch_id i = length v" "\<not> ei_cold i"
  shows "epochs_ok (map (\<lambda>i. i\<lparr>ei_cold := True\<rparr>) v @ [i])"
proof -
  have "map ei_epoch_id (map (\<lambda>i. i\<lparr>ei_cold := True\<rparr>) v) = map ei_epoch_id v" by simp
  then show ?thesis using assms by (auto simp: epochs_ok_def list_all_iff simp del: map_map)
qed

lemma manager_invD:
  assumes "manager_inv m"
  shows "map_of (em_epochs m) scope = Some v \<Longrightarrow> epochs_ok v"
    and "map_of (em_epochs m) scope = Some v \<Longrightarrow> current_epoch m scope = Some (length v - 1)"
    and "map_of (em_epochs m) scope = None \<Longrightarrow> current_epoch m scope = None"
  using assms [unfolded manager_inv_def, rule_format, of scope] by simp_all

lemma manager_inv_upd:
  assumes inv: "manager_inv m" and ep: "map_of (em_epochs m') = (map_of (em_epochs m))(scope \<mapsto> v)"
    and ok: "epochs_ok v" and cur: "map_of (em_current m') scope = Some (length v - 1)"
    and other: "\<And>s. s \<noteq> scope \<Longrightarrow> map_of (em_current m') s = map_of (em_current m) s"
  shows "manager_inv m'"
  unfolding manager_inv_def
proof
  fix s show "case map_of (em_epochs m') s of None \<Rightarrow> current_epoch m' s = None
    | Some v \<Rightarrow> epochs_ok v \<and> current_epoch m' s = Some (length v - 1)"
  proof (cases "s = scope")
    case True
    then show ?thesis using ok cur by (simp add: ep current_epoch_def)
  next
    case False
    then have "current_epoch m' s = current_epoch m s" by (simp add: other current_epoch_def)
    then show ?thesis using False inv [unfolded manager_inv_def, rule_format, of s]
      by (simp add: ep split: option.splits)
  qed
qed

lemma list_epochs_current:
  assumes "manager_inv m"
  shows "current_epoch m scope = (if list_epochs m scope = [] then None else Some (length (list_epochs m scope) - 1))"
  using manager_invD [OF assms, of scope]
  by (cases "map_of (em_epochs m) scope") (auto simp: list_epochs_def epochs_ok_def)

definition fresh_epoch :: "nat \<Rightarrow> instant \<Rightarrow> epoch_info" where
  "fresh_epoch e now = \<lparr>ei_epoch_id = e, ei_started_at = now, ei_bytes_encrypted = 0, ei_cold = False\<rparr>"

lemma start_epoch_obtain:
  obtains key src where "start_epoch derive now now2 scope e (m, r) = (fresh_epoch e now,
    m\<lparr>em_epochs := bt_insert scope (list_epochs m scope @ [fresh_epoch e now]) (em_epochs m),
      em_current := bt_insert scope e (em_current m), em_key_source := src\<rparr>,
    insert_epoch_dek (epoch_dek_new now2 scope e key) r)"
  by (cases "derive scope e (em_key_source m)") (auto simp: start_epoch_def fresh_epoch_def Let_def)

lemma rotate_terminal:
  assumes "manager_inv m" "length (list_epochs m scope) = Suc u64_max"
  shows "rotate_epoch derive now now2 scope (m, r) = (Inl EpochOverflow, m, r)"
  using assms(2) by (simp add: rotate_epoch_def list_epochs_current [OF assms(1)] epoch_next_def) auto

lemma rotate_next:
  assumes inv: "manager_inv m" and len: "length (list_epochs m scope) \<le> u64_max"
  obtains m' key where "rotate_epoch derive now now2 scope (m, r) =
      (Inr (length (list_epochs m scope)), m', insert_epoch_dek (epoch_dek_new now2 scope (length (list_epochs m scope)) key) r)"
    "map_of (em_epochs m') = (map_of (em_epochs m))(scope \<mapsto>
       map (\<lambda>i. i\<lparr>ei_cold := True\<rparr>) (list_epochs m scope) @ [fresh_epoch (length (list_epochs m scope)) now])"
    "map_of (em_current m') = (map_of (em_current m))(scope \<mapsto> length (list_epochs m scope))"
    "em_policy m' = em_policy m"
proof -
  let ?e = "length (list_epochs m scope)"
  have e: "(case current_epoch m scope of Some c \<Rightarrow> epoch_next c | None \<Rightarrow> Inr 0) = Inr ?e"
    using len by (cases "list_epochs m scope") (auto simp: list_epochs_current [OF inv] epoch_next_def)
  define m1 where "m1 = (case map_of (em_epochs m) scope of
      Some infos \<Rightarrow> m\<lparr>em_epochs := bt_insert scope (map (\<lambda>i. i\<lparr>ei_cold := True\<rparr>) infos) (em_epochs m)\<rparr>
    | None \<Rightarrow> m)"
  obtain key src where st: "start_epoch derive now now2 scope ?e (m1, r) = (fresh_epoch ?e now,
    m1\<lparr>em_epochs := bt_insert scope (list_epochs m1 scope @ [fresh_epoch ?e now]) (em_epochs m1),
      em_current := bt_insert scope ?e (em_current m1), em_key_source := src\<rparr>,
    insert_epoch_dek (epoch_dek_new now2 scope ?e key) r)"
    by (rule start_epoch_obtain)
  have m1: "list_epochs m1 scope = map (\<lambda>i. i\<lparr>ei_cold := True\<rparr>) (list_epochs m scope)"
    "em_current m1 = em_current m" "em_policy m1 = em_policy m"
    "(map_of (em_epochs m1))(scope \<mapsto> x) = (map_of (em_epochs m))(scope \<mapsto> x)" for x
    by (auto simp: m1_def list_epochs_def split: option.splits)
  show ?thesis
    using that [of "fst (snd (start_epoch derive now now2 scope ?e (m1, r)))" key] e st m1
    by (simp add: rotate_epoch_def m1_def [symmetric])
qed

text \<open>Commands of a manager and its registry, in any order.\<close>

datatype epoch_cmd =
    CmdEnsure instant instant uuid
  | CmdForce instant instant uuid
  | CmdBytes instant instant instant uuid nat
  | CmdTick instant instant instant uuid
  | CmdDestroyScope instant uuid
  | CmdDestroyEpoch instant uuid nat

fun exec_epoch_cmd :: "'k derive \<Rightarrow> epoch_cmd \<Rightarrow> 'k epoch_manager \<times> dek_registry \<Rightarrow> 'k epoch_manager \<times> dek_registry" where
  "exec_epoch_cmd d (CmdEnsure t t2 s) mr = snd (ensure_scope d t t2 s mr)"
| "exec_epoch_cmd d (CmdForce t t2 s) mr = snd (force_rotate d t t2 s mr)"
| "exec_epoch_cmd d (CmdBytes t t1 t2 s n) mr = snd (record_bytes d t t1 t2 s n mr)"
| "exec_epoch_cmd d (CmdTick t t1 t2 s) mr = snd (epoch_tick d t t1 t2 s mr)"
| "exec_epoch_cmd d (CmdDestroyScope t s) (m, r) = (m, fst (snd (destroy_scope_dek None t s (r, ()))))"
| "exec_epoch_cmd d (CmdDestroyEpoch t s e) (m, r) = (m, fst (snd (destroy_epoch_dek None t s e (r, ()))))"

definition keys_accounted :: "'k epoch_manager \<Rightarrow> dek_registry \<Rightarrow> bool" where
  "keys_accounted m r \<longleftrightarrow> (\<forall>scope e. e < length (list_epochs m scope) \<longrightarrow>
     get_epoch_dek r scope e \<noteq> None \<or> is_epoch_forgotten r scope e)"

definition epochs_inv :: "'k epoch_manager \<times> dek_registry \<Rightarrow> bool" where
  "epochs_inv mr \<longleftrightarrow> manager_inv (fst mr) \<and> registry_ok (snd mr) \<and> keys_accounted (fst mr) (snd mr)"

lemma get_after_insert:
  "get_epoch_dek (insert_epoch_dek (epoch_dek_new t s e key) r) s' e' =
     (if (s', e') = (s, e) then Some (epoch_dek_new t s e key) else get_epoch_dek r s' e')"
  by (simp add: get_epoch_dek_def insert_epoch_dek_def epoch_dek_new_def)

lemma forgotten_after_insert [simp]: "is_epoch_forgotten (insert_epoch_dek d r) s e = is_epoch_forgotten r s e"
  "is_scope_forgotten (insert_epoch_dek d r) s = is_scope_forgotten r s"
  by (simp_all add: is_epoch_forgotten_def is_scope_forgotten_def insert_epoch_dek_def)

lemma registry_ok_insert: "registry_ok r \<Longrightarrow> registry_ok (insert_epoch_dek d r)"
  by (simp add: registry_ok_def insert_epoch_dek_def)

lemma epochs_inv_extend:
  assumes inv: "epochs_inv (m, r)"
    and ep: "map_of (em_epochs m') = (map_of (em_epochs m))(scope \<mapsto> v)" and ok: "epochs_ok v"
    and len: "length v = Suc (length (list_epochs m scope))"
    and cur: "map_of (em_current m') = (map_of (em_current m))(scope \<mapsto> length (list_epochs m scope))"
  shows "epochs_inv (m', insert_epoch_dek (epoch_dek_new t scope (length (list_epochs m scope)) key) r)"
  using inv unfolding epochs_inv_def
proof (elim conjE, intro conjI)
  assume m: "manager_inv (fst (m, r))" and r: "registry_ok (snd (m, r))" and k: "keys_accounted (fst (m, r)) (snd (m, r))"
  show "manager_inv (fst (m', insert_epoch_dek (epoch_dek_new t scope (length (list_epochs m scope)) key) r))"
    using manager_inv_upd [of m m' scope v] m ok len by (simp add: ep cur)
  show "registry_ok (snd (m', insert_epoch_dek (epoch_dek_new t scope (length (list_epochs m scope)) key) r))"
    using r by (simp add: registry_ok_insert)
  show "keys_accounted (fst (m', insert_epoch_dek (epoch_dek_new t scope (length (list_epochs m scope)) key) r))
     (snd (m', insert_epoch_dek (epoch_dek_new t scope (length (list_epochs m scope)) key) r))"
    using k len
    by (auto simp: keys_accounted_def list_epochs_def ep get_after_insert less_Suc_eq split: if_splits)
qed

lemma rotate_inv:
  assumes inv: "epochs_inv (m, r)"
  shows "epochs_inv (snd (rotate_epoch derive now now2 scope (m, r)))"
proof -
  have m: "manager_inv m" using inv by (simp add: epochs_inv_def)
  show ?thesis
  proof (cases "length (list_epochs m scope) \<le> u64_max")
    case True
    obtain m' key where rot: "rotate_epoch derive now now2 scope (m, r) =
      (Inr (length (list_epochs m scope)), m', insert_epoch_dek (epoch_dek_new now2 scope (length (list_epochs m scope)) key) r)"
      and m': "map_of (em_epochs m') = (map_of (em_epochs m))(scope \<mapsto>
       map (\<lambda>i. i\<lparr>ei_cold := True\<rparr>) (list_epochs m scope) @ [fresh_epoch (length (list_epochs m scope)) now])"
      "map_of (em_current m') = (map_of (em_current m))(scope \<mapsto> length (list_epochs m scope))"
      by (rule rotate_next [OF m True])
    have "epochs_ok (map (\<lambda>i. i\<lparr>ei_cold := True\<rparr>) (list_epochs m scope) @ [fresh_epoch (length (list_epochs m scope)) now])"
    proof (cases "map_of (em_epochs m) scope")
      case None
      then show ?thesis by (simp add: list_epochs_def epochs_ok_def fresh_epoch_def)
    next
      case (Some v)
      then show ?thesis using manager_invD(1) [OF m Some] True
        by (simp add: list_epochs_def epochs_ok_snoc fresh_epoch_def)
    qed
    then show ?thesis using epochs_inv_extend [OF inv m'(1) _ _ m'(2)] rot by simp
  next
    case False
    moreover have "length (list_epochs m scope) \<le> Suc u64_max"
      using manager_invD(1) [OF m, of scope]
      by (cases "map_of (em_epochs m) scope") (auto simp: list_epochs_def epochs_ok_def)
    ultimately have "length (list_epochs m scope) = Suc u64_max" by simp
    then show ?thesis using rotate_terminal [OF m] inv by simp
  qed
qed

lemma bytes_inv:
  assumes "epochs_inv (m, r)" "map_of (em_epochs m) scope = Some v"
  shows "epochs_inv (m\<lparr>em_epochs := bt_insert scope (add_bytes n v) (em_epochs m)\<rparr>, r)"
proof -
  have v: "epochs_ok v" "current_epoch m scope = Some (length v - 1)"
    using assms manager_invD(1,2) [of m scope v] by (simp_all add: epochs_inv_def)
  note v' = epochs_ok_add_bytes [OF v(1), of n]
  have "manager_inv (m\<lparr>em_epochs := bt_insert scope (add_bytes n v) (em_epochs m)\<rparr>)"
    by (rule manager_inv_upd [where m = m and scope = scope and v = "add_bytes n v"])
      (use assms v v' in \<open>simp_all add: epochs_inv_def current_epoch_def\<close>)
  then show ?thesis using assms v'
    by (auto simp: epochs_inv_def keys_accounted_def list_epochs_def split: if_splits)
qed

lemma destroy_scope_None:
  "\<not> is_scope_forgotten r scope \<Longrightarrow> destroy_scope_dek None now scope (r, st) =
     (Inr (fst (forget_in_memory now scope r)), snd (forget_in_memory now scope r), st)"
  by (simp add: destroy_scope_dek_def Let_def split: prod.splits)

lemma registry_ok_forget:
  assumes "registry_ok r"
  shows "registry_ok (snd (forget_in_memory now scope r))"
proof -
  have 1: "registry_ok (snd (destroy_scope_level now scope r))"
    using assms by (auto simp: destroy_scope_level_def registry_ok_def Let_def split: option.splits)
  have 2: "registry_ok r \<Longrightarrow> registry_ok (snd (destroy_epoch_level now scope ks (events, r)))" for ks events r
  proof (induction ks arbitrary: events r)
    case (Cons k ks)
    then show ?case by (auto simp: registry_ok_def Let_def split: option.splits)
  qed simp
  obtain ev1 r1 where s1: "destroy_scope_level now scope r = (ev1, r1)" by fastforce
  obtain ev2 r2 where s2: "destroy_epoch_level now scope (filter (\<lambda>k. fst k = scope) (bt_keys (reg_epoch_deks r1))) (ev1, r1) = (ev2, r2)"
    by fastforce
  have "registry_ok r2" using 1 2 [of r1 _ ev1] s1 s2 by (metis snd_conv)
  then show ?thesis by (simp add: forget_in_memory_def s1 s2 registry_ok_def)
qed

lemma forget_tombstones:
  assumes "registry_ok r" "get_epoch_dek r s e \<noteq> None \<or> is_epoch_forgotten r s e"
  shows "get_epoch_dek (snd (forget_in_memory now scope r)) s e \<noteq> None
    \<or> is_epoch_forgotten (snd (forget_in_memory now scope r)) s e"
proof -
  obtain events r' where f: "forget_in_memory now scope r = (events, r')" by fastforce
  note spec = forget_in_memory_spec [OF assms(1) f]
  have "(s, e) \<in> (\<lambda>ev. (scope, ke_epoch_id ev)) ` set events" if "s = scope" "get_epoch_dek r s e \<noteq> None"
  proof -
    have "(s, e) \<in> set (filter (live_epoch r) (scope_epoch_keys r scope))"
      using that by (auto simp: live_epoch_def scope_epoch_keys_def bt_keys_dom get_epoch_dek_def domIff split: option.splits)
    then have "wide_event now scope e \<in> set events" unfolding spec(1) by force
    then show ?thesis using that(1) by (force simp: wide_event_def)
  qed
  then show ?thesis using assms(2) spec(3) [of "(s, e)"] spec(5) [of "(s, e)"] f
    by (cases "s = scope") (auto simp: get_epoch_dek_def is_epoch_forgotten_def)
qed

lemma exec_epoch_cmd_inv:
  assumes inv: "epochs_inv (m, r)"
  shows "epochs_inv (exec_epoch_cmd d c (m, r))"
proof (cases c)
  case (CmdEnsure t t2 s)
  show ?thesis
  proof (cases "map_of (em_epochs m) s")
    case (Some v)
    then have "epochs_ok v" using inv manager_invD(1) [of m s v] by (simp add: epochs_inv_def)
    then show ?thesis using inv CmdEnsure Some by (simp add: ensure_scope_def list_epochs_def find_hot_last)
  next
    case None
    then have le: "list_epochs m s = []" by (simp add: list_epochs_def)
    obtain key src where st: "start_epoch d t t2 s 0 (m, r) = (fresh_epoch 0 t,
      m\<lparr>em_epochs := bt_insert s (list_epochs m s @ [fresh_epoch 0 t]) (em_epochs m),
        em_current := bt_insert s 0 (em_current m), em_key_source := src\<rparr>,
      insert_epoch_dek (epoch_dek_new t2 s 0 key) r)" by (rule start_epoch_obtain)
    show ?thesis
      using epochs_inv_extend [OF inv, of "fst (snd (start_epoch d t t2 s 0 (m, r)))" s "[fresh_epoch 0 t]" t2 key]
      by (simp add: CmdEnsure ensure_scope_def le st epochs_ok_def fresh_epoch_def)
  qed
next
  case (CmdForce t t2 s)
  then show ?thesis using rotate_inv [OF inv, of d t t2 s]
    by (auto simp: force_rotate_def split: prod.splits sum.splits)
next
  case (CmdBytes t t1 t2 s n)
  have "epochs_inv (snd (rotate_epoch d t1 t2 s (m\<lparr>em_epochs := bt_insert s (add_bytes n v) (em_epochs m)\<rparr>, r)))"
    if "map_of (em_epochs m) s = Some v" for v
    using rotate_inv bytes_inv [OF inv that] by blast
  then show ?thesis using inv bytes_inv [OF inv] CmdBytes
    by (auto simp: record_bytes_def Let_def split: prod.splits sum.splits option.splits)
next
  case (CmdTick t t1 t2 s)
  then show ?thesis using inv rotate_inv [OF inv, of d t1 t2 s]
    by (auto simp: epoch_tick_def split: prod.splits sum.splits option.splits)
next
  case (CmdDestroyScope t s)
  show ?thesis
  proof (cases "is_scope_forgotten r s")
    case True
    then show ?thesis using inv CmdDestroyScope by (simp add: destroy_scope_dek_def)
  next
    case False
    then show ?thesis using inv CmdDestroyScope registry_ok_forget forget_tombstones
      by (simp add: epochs_inv_def keys_accounted_def destroy_scope_None)
  qed
next
  case (CmdDestroyEpoch t s e)
  then show ?thesis using inv
    by (auto simp: epochs_inv_def keys_accounted_def destroy_epoch_dek_def registry_ok_def get_epoch_dek_def
        is_epoch_forgotten_def Let_def)
qed

lemma fold_epoch_cmd_inv: "epochs_inv mr \<Longrightarrow> epochs_inv (fold (exec_epoch_cmd d) cs mr)"
proof (induction cs arbitrary: mr)
  case (Cons c cs)
  then show ?case using exec_epoch_cmd_inv [of "fst mr" "snd mr" d c] by simp
qed simp

lemma epochs_inv_new: "epochs_inv (manager_new policy src, dek_registry_new)"
  by (simp add: epochs_inv_def manager_inv_def registry_ok_def keys_accounted_def manager_new_def
      dek_registry_new_def current_epoch_def list_epochs_def)

section \<open>Properties\<close>

lemma destroy_scope_memory:
  assumes "destroy_scope_dek hook now scope (r, st) = (res, r', st')" "\<not> is_scope_forgotten r scope"
  shows "r' = snd (forget_in_memory now scope r)"
    and "res = Inr events \<Longrightarrow> events = fst (forget_in_memory now scope r)"
  using assms
  by (auto simp: destroy_scope_dek_def Let_def split: prod.splits option.splits sum.splits)

lemma length_forget_events:
  assumes "registry_ok r"
  shows "length (fst (forget_in_memory now scope r)) =
    (if get_scope_dek r scope = None then 0 else 1) + card {e. get_epoch_dek r scope e \<noteq> None}"
proof -
  obtain events r' where f: "forget_in_memory now scope r = (events, r')" by fastforce
  let ?ks = "filter (live_epoch r) (scope_epoch_keys r scope)"
  have "distinct ?ks" using assms by (simp add: registry_ok_def scope_epoch_keys_def bt_ok_distinct)
  moreover have "set ?ks = Pair scope ` {e. get_epoch_dek r scope e \<noteq> None}"
    by (force simp: live_epoch_def scope_epoch_keys_def bt_keys_dom get_epoch_dek_def image_iff split: option.splits)
  moreover have "card (Pair scope ` {e. get_epoch_dek r scope e \<noteq> None}) = card {e. get_epoch_dek r scope e \<noteq> None}"
    by (intro card_image) (simp add: inj_on_def)
  ultimately have "length ?ks = card {e. get_epoch_dek r scope e \<noteq> None}"
    using distinct_card [of ?ks] by simp
  then show ?thesis
    using forget_in_memory_spec(1) [OF assms f] f by (simp add: scope_level_events_def split: option.splits)
qed


text \<open>
  Under any commands, rotations, destructions and clock readings, the epochs of a scope are
  numbered 0, 1, 2, \<open>\<dots>\<close> without gaps or repetitions, only the newest is open, it is the current
  one, and the key of every epoch ever opened is either in the registry or provably forgotten.
\<close>

theorem epoch_history:
  assumes "fold (exec_epoch_cmd derive) cs (manager_new policy src, dek_registry_new) = (m, r)"
  shows "map ei_epoch_id (list_epochs m scope) = [0..<length (list_epochs m scope)]
    \<and> current_epoch m scope = (if list_epochs m scope = [] then None else Some (length (list_epochs m scope) - 1))
    \<and> (list_epochs m scope \<noteq> [] \<longrightarrow> \<not> ei_cold (last (list_epochs m scope)) \<and> list_all ei_cold (butlast (list_epochs m scope)))
    \<and> (\<forall>e < length (list_epochs m scope). get_epoch_dek r scope e \<noteq> None \<or> is_epoch_forgotten r scope e)"
proof -
  have "epochs_inv (m, r)" using fold_epoch_cmd_inv [OF epochs_inv_new] assms by metis
  then have m: "manager_inv m" and k: "keys_accounted m r" by (simp_all add: epochs_inv_def)
  show ?thesis using k manager_invD(1) [OF m, of scope] list_epochs_current [OF m]
    by (cases "map_of (em_epochs m) scope") (auto simp: list_epochs_def epochs_ok_def keys_accounted_def)
qed

text \<open>
  Recording encrypted bytes rotates exactly when it should: on a tracked scope the call reports
  the size trigger when the counter, saturating at 64 bits, reaches the budget, else the time
  trigger when the epoch is old enough, else nothing; it opens the next epoch exactly when there is
  a trigger, and at the last representable epoch it fails with an overflow instead. The bytes are
  counted on the epoch they were encrypted under in every case.
\<close>

theorem record_bytes_rotates:
  assumes "manager_inv m" "list_epochs m scope \<noteq> []"
    and "record_bytes derive now now1 now2 scope n (m, r) = (res, m', r')"
  shows "let v = list_epochs m scope; trigger = bytes_trigger (em_policy m) now n (last v) in
    ei_bytes_encrypted (list_epochs m' scope ! (length v - 1)) = sat_add (ei_bytes_encrypted (last v)) n
    \<and> (trigger = None \<longrightarrow> res = Inr None \<and> current_epoch m' scope = Some (length v - 1) \<and> r' = r)
    \<and> (trigger \<noteq> None \<and> length v \<le> u64_max \<longrightarrow> res = Inr trigger \<and> current_epoch m' scope = Some (length v)
         \<and> get_epoch_dek r' scope (length v) \<noteq> None)
    \<and> (trigger \<noteq> None \<and> u64_max < length v \<longrightarrow> res = Inl EpochOverflow
         \<and> current_epoch m' scope = Some (length v - 1) \<and> r' = r)"
proof -
  define v where "v = list_epochs m scope"
  define trigger where "trigger = bytes_trigger (em_policy m) now n (last v)"
  define m1 where "m1 = m\<lparr>em_epochs := bt_insert scope (add_bytes n v) (em_epochs m)\<rparr>"
  have v: "map_of (em_epochs m) scope = Some v" "epochs_ok v" "current_epoch m scope = Some (length v - 1)"
    using assms(2) manager_invD(1,2) [OF assms(1), of scope]
    by (auto simp: v_def list_epochs_def or_empty_list_def split: option.splits)
  note v1 = epochs_ok_add_bytes [OF v(2), of n]
  have m1: "manager_inv m1" "list_epochs m1 scope = add_bytes n v" "current_epoch m1 scope = Some (length v - 1)"
    using manager_inv_upd [OF assms(1), of m1 scope "add_bytes n v"] v v1
    by (simp_all add: m1_def list_epochs_def current_epoch_def)
  have bytes: "ei_bytes_encrypted (add_bytes n v ! (length v - 1)) = sat_add (ei_bytes_encrypted (last v)) n"
    using v(2) by (simp add: add_bytes_last nth_append epochs_ok_def)
  have run: "record_bytes derive now now1 now2 scope n (m, r) =
    (case trigger of None \<Rightarrow> (Inr None, m1, r) | Some t \<Rightarrow>
      (case rotate_epoch derive now1 now2 scope (m1, r) of (Inl err, mr1) \<Rightarrow> (Inl err, mr1) | (Inr _, mr1) \<Rightarrow> (Inr (Some t), mr1)))"
    by (simp add: record_bytes_def v latest_hot_last trigger_def m1_def [symmetric])
  show ?thesis
  proof (cases trigger)
    case None
    then show ?thesis using run assms(3) m1 bytes
      by (simp add: Let_def v_def [symmetric] trigger_def [symmetric])
  next
    case (Some t)
    show ?thesis
    proof (cases "length v \<le> u64_max")
      case True
      then have len: "length (list_epochs m1 scope) \<le> u64_max" "length (list_epochs m1 scope) = length v"
        using m1 v1 by simp_all
      obtain m2 key where rot: "rotate_epoch derive now1 now2 scope (m1, r) =
          (Inr (length v), m2, insert_epoch_dek (epoch_dek_new now2 scope (length v) key) r)"
        and m2: "map_of (em_epochs m2) = (map_of (em_epochs m1))(scope \<mapsto>
          map (\<lambda>i. i\<lparr>ei_cold := True\<rparr>) (list_epochs m1 scope) @ [fresh_epoch (length v) now1])"
        "map_of (em_current m2) = (map_of (em_current m1))(scope \<mapsto> length v)"
        using rotate_next [OF m1(1) len(1), of derive now1 now2 r] unfolding len(2) by metis
      have l2: "list_epochs m2 scope = map (\<lambda>i. i\<lparr>ei_cold := True\<rparr>) (list_epochs m1 scope) @ [fresh_epoch (length v) now1]"
        by (simp add: list_epochs_def m2(1))
      have "ei_bytes_encrypted (list_epochs m2 scope ! (length v - 1)) = sat_add (ei_bytes_encrypted (last v)) n"
        using bytes v(2) v1 by (simp add: l2 m1(2) nth_append epochs_ok_def)
      then show ?thesis using run assms(3) rot Some True m2(2)
        by (simp add: Let_def v_def [symmetric] trigger_def [symmetric] current_epoch_def get_after_insert)
    next
      case False
      then have "length (list_epochs m1 scope) = Suc u64_max" using m1 v1 v(2) by (simp add: epochs_ok_def)
      then show ?thesis using run assms(3) rotate_terminal [OF m1(1)] Some False m1 bytes
        by (simp add: Let_def v_def [symmetric] trigger_def [symmetric])
    qed
  qed
qed

text \<open>
  A forgotten scope can hold live keys again: rotating the epoch of a scope that is marked
  forgotten gives it a fresh key, the scope stays marked, and forgetting it once more returns at
  once without destroying that key.
\<close>

theorem forgotten_scope_gets_new_key:
  assumes "force_rotate derive now now2 scope (m, r) = (Inr (e, t), m', r')" "is_scope_forgotten r scope"
  shows "is_scope_forgotten r' scope \<and> get_epoch_dek r' scope e \<noteq> None
    \<and> destroy_scope_dek hook now3 scope (r', st) = (Inr [], r', st)"
proof -
  define m1 where "m1 = (case map_of (em_epochs m) scope of
      Some infos \<Rightarrow> m\<lparr>em_epochs := bt_insert scope (map (\<lambda>i. i\<lparr>ei_cold := True\<rparr>) infos) (em_epochs m)\<rparr>
    | None \<Rightarrow> m)"
  obtain key src where "start_epoch derive now now2 scope e (m1, r) = (fresh_epoch e now,
    m1\<lparr>em_epochs := bt_insert scope (list_epochs m1 scope @ [fresh_epoch e now]) (em_epochs m1),
      em_current := bt_insert scope e (em_current m1), em_key_source := src\<rparr>,
    insert_epoch_dek (epoch_dek_new now2 scope e key) r)" by (rule start_epoch_obtain)
  then have "r' = insert_epoch_dek (epoch_dek_new now2 scope e key) r"
    using assms(1) by (auto simp: force_rotate_def rotate_epoch_def m1_def [symmetric] Let_def
        split: sum.splits prod.splits option.splits)
  then show ?thesis using assms(2) by (simp add: get_after_insert destroy_scope_dek_def)
qed

text \<open>
  Rotation does not touch the key of the epoch it closes: it stays in the registry until it is
  destroyed explicitly.
\<close>

lemma rotation_keeps_previous_key:
  assumes "epochs_inv (m, r)" "force_rotate derive now now2 scope (m, r) = (Inr (e, t), m', r')" "e' \<noteq> e"
  shows "get_epoch_dek r' scope e' = get_epoch_dek r scope e'"
proof -
  have m: "manager_inv m" using assms(1) by (simp add: epochs_inv_def)
  have le: "length (list_epochs m scope) \<le> u64_max"
  proof (rule ccontr)
    assume "\<not> length (list_epochs m scope) \<le> u64_max"
    then have "length (list_epochs m scope) = Suc u64_max"
      using manager_invD(1) [OF m, of scope]
      by (cases "map_of (em_epochs m) scope") (auto simp: list_epochs_def epochs_ok_def)
    then show False using rotate_terminal [OF m] assms(2) by (simp add: force_rotate_def)
  qed
  obtain m2 key where "rotate_epoch derive now now2 scope (m, r) = (Inr (length (list_epochs m scope)), m2,
      insert_epoch_dek (epoch_dek_new now2 scope (length (list_epochs m scope)) key) r)"
    by (rule rotate_next [OF m le])
  then show ?thesis using assms(2,3) by (auto simp: force_rotate_def get_after_insert)
qed

section \<open>Witnesses\<close>

definition counting_keys :: "byte derive" where
  "counting_keys scope e k = (replicate aead_key_len k, k + 1)"

definition one_scope :: "byte epoch_manager \<times> dek_registry" where
  "one_scope = snd (ensure_scope counting_keys 0 0 7 (manager_new rotation_default_policy 1, dek_registry_new))"

lemma one_scope_ok: "registry_ok (snd one_scope)" "manager_inv (fst one_scope)"
  using exec_epoch_cmd_inv [OF epochs_inv_new, of counting_keys "CmdEnsure 0 0 7" rotation_default_policy 1]
  by (simp_all add: one_scope_def epochs_inv_def)

lemma one_scope_facts:
  "is_scope_forgotten (snd one_scope) 7 = False" "get_scope_dek (snd one_scope) 7 = None"
  "get_epoch_dek (snd one_scope) 7 0 \<noteq> None" "length (list_epochs (fst one_scope) 7) = 1"
  by (simp_all add: one_scope_def ensure_scope_def manager_new_def dek_registry_new_def list_epochs_def start_epoch_def
      counting_keys_def insert_epoch_dek_def epoch_dek_new_def is_scope_forgotten_def get_scope_dek_def
      get_epoch_dek_def Let_def)


lemma epoch_history_witness:
  "let (m, r) = fold (exec_epoch_cmd counting_keys) [CmdForce 1 1 7, CmdForce 2 2 7, CmdDestroyEpoch 3 7 0]
       (manager_new rotation_default_policy 1, dek_registry_new) in
     map ei_epoch_id (list_epochs m 7) = [0..<length (list_epochs m 7)]
     \<and> current_epoch m 7 = (if list_epochs m 7 = [] then None else Some (length (list_epochs m 7) - 1))"
proof -
  obtain m r where run: "fold (exec_epoch_cmd counting_keys) [CmdForce 1 1 7, CmdForce 2 2 7, CmdDestroyEpoch 3 7 0]
       (manager_new rotation_default_policy 1, dek_registry_new) = (m, r)" by fastforce
  show ?thesis using epoch_history [OF run, of 7] unfolding run Let_def by simp
qed

lemma record_bytes_rotates_witness:
  "fst (record_bytes counting_keys 1 1 1 7 (2 ^ 34) one_scope) = Inr (Some SizeExceeded)"
proof -
  have ne: "list_epochs (fst one_scope) 7 \<noteq> []" using one_scope_facts(4) by auto
  obtain res m' r' where run: "record_bytes counting_keys 1 1 1 7 (2 ^ 34) (fst one_scope, snd one_scope) = (res, m', r')"
    by (metis prod_cases3)
  have "bytes_trigger (em_policy (fst one_scope)) 1 (2 ^ 34) (last (list_epochs (fst one_scope) 7)) = Some SizeExceeded"
    by (simp add: one_scope_def ensure_scope_def manager_new_def list_epochs_def start_epoch_def
        counting_keys_def Let_def bytes_trigger_def rotation_default_policy_def sat_add_def u64_max_def)
  then show ?thesis using record_bytes_rotates [OF one_scope_ok(2) ne run] one_scope_facts(4) run
    by (simp add: Let_def u64_max_def)
qed

lemma forgotten_scope_gets_new_key_witness:
  "\<exists>r e. is_scope_forgotten r 7 \<and> get_epoch_dek r 7 e \<noteq> None
     \<and> destroy_scope_dek None 9 7 (r, ()) = (Inr [], r, ())"
proof -
  define r where "r = snd (forget_in_memory 5 7 (snd one_scope))"
  have forgotten: "is_scope_forgotten r 7" by (simp add: r_def forget_in_memory_def is_scope_forgotten_def split: prod.splits)
  have le: "length (list_epochs (fst one_scope) 7) \<le> u64_max" using one_scope_facts(4) by (simp add: u64_max_def)
  obtain e m' r' where "rotate_epoch counting_keys 6 6 7 (fst one_scope, r) = (Inr e, m', r')"
    by (rule rotate_next [OF one_scope_ok(2) le, of counting_keys 6 6 r]) blast
  then have rot: "force_rotate counting_keys 6 6 7 (fst one_scope, r) = (Inr (e, PolicyForced), m', r')"
    by (simp add: force_rotate_def)
  show ?thesis using forgotten_scope_gets_new_key [OF rot forgotten, of None 9 "()"] by blast
qed

end
