(* ===== verification/Scope_Forgetting.thy ===== *)
theory Scope_Forgetting
  imports Key_Forgetting
begin

text \<open>
  Durable forgetting: the key tables of the evidence store (\<^verbatim>\<open>evidence_store/src/store.rs\<close>:
  wrapped scope keys, scope and epoch tombstones, the in-memory key cache) and the runtime that
  drives them (\<^verbatim>\<open>ffi/src/runtime.rs\<close>, \<^verbatim>\<open>ffi/src/lib.rs\<close>: registering a scope, forgetting it, and the
  replay of tombstones when a store is opened). Every SQL statement may fail (\<open>io\<close>); a failed
  statement changes nothing. Tables and the cache are lists of rows with distinct keys, in the order
  a scan returns them. The secondary clean-ups of a forget (full-text index, body keys, memories,
  connectors) own other state; only their first error enters the result.
\<close>

section \<open>The key tables of the evidence store\<close>

datatype evidence_error =
    EvSqlite
  | EvCrypto crypto_error
  | EvSchema string

datatype store_call =
    SelectDek | SelectDeks | SelectEvidence | InsertDek | DeleteDek | InsertForgotten | InsertTombstone
  | SelectForgotten | SelectTombstones

type_synonym store_io = "store_call \<Rightarrow> bool"

record dek_row =
  dr_wrapped_dek :: "byte list"
  dr_nonce :: "byte list"
  dr_created_at :: int

record key_store =
  ks_master_key :: "byte list"
  ks_scope_deks :: "(uuid \<times> dek_row) list"
  ks_forgotten_scopes :: "(uuid \<times> int) list"
  ks_epoch_tombstones :: "((uuid \<times> nat) \<times> int) list"
  ks_scope_keys :: "(uuid \<times> byte list) list"
  ks_evidence_scopes :: "uuid list"

definition insert_or_ignore :: "'k \<Rightarrow> 'v \<Rightarrow> ('k \<times> 'v) list \<Rightarrow> ('k \<times> 'v) list" where
  "insert_or_ignore k v t = (if map_of t k = None then t @ [(k, v)] else t)"

definition cache_insert :: "uuid \<Rightarrow> byte list \<Rightarrow> key_store \<Rightarrow> key_store" where
  "cache_insert scope key st = st\<lparr>ks_scope_keys := (scope, key) # filter (\<lambda>p. fst p \<noteq> scope) (ks_scope_keys st)\<rparr>"

definition dek_label :: "byte list" where
  "dek_label = string_bytes ''scope-dek-wrap:v1''"

definition dek_wrapping_key :: "crypto_lib \<Rightarrow> byte list \<Rightarrow> evidence_error + byte list" where
  "dek_wrapping_key lib mk = (case derive_key lib mk dek_label of Inl e \<Rightarrow> Inl (EvCrypto e) | Inr k \<Rightarrow> Inr k)"

definition scope_dek_aad :: "uuid \<Rightarrow> byte list" where
  "scope_dek_aad scope = dek_label @ uuid_bytes scope"

definition store_scope_dek ::
  "crypto_lib \<Rightarrow> store_io \<Rightarrow> byte list \<Rightarrow> int \<Rightarrow> uuid \<Rightarrow> byte list \<Rightarrow> key_store \<Rightarrow> evidence_error + key_store" where
  "store_scope_dek lib io nonce now scope dek st =
     (case dek_wrapping_key lib (ks_master_key st) of
        Inl e \<Rightarrow> Inl e
      | Inr wrap_key \<Rightarrow>
          (case encrypt_aead lib wrap_key nonce dek (scope_dek_aad scope) of
             Inl e \<Rightarrow> Inl (EvCrypto e)
           | Inr wrapped \<Rightarrow>
               if \<not> io InsertDek then Inl EvSqlite
               else if map_of (ks_scope_deks st) scope \<noteq> None then Inr st
               else Inr (cache_insert scope dek
                      (st\<lparr>ks_scope_deks := ks_scope_deks st @
                         [(scope, \<lparr>dr_wrapped_dek = wrapped, dr_nonce = nonce, dr_created_at = now\<rparr>)]\<rparr>))))"

definition unwrap_dek :: "crypto_lib \<Rightarrow> byte list \<Rightarrow> uuid \<Rightarrow> dek_row \<Rightarrow> evidence_error + byte list" where
  "unwrap_dek lib wrap_key scope row =
     (if length (dr_nonce row) \<noteq> aead_nonce_len
      then Inl (EvSchema ''scope DEK nonce has wrong length in scope_deks table'')
      else (case decrypt_aead lib wrap_key (dr_nonce row) (dr_wrapped_dek row) (scope_dek_aad scope) of
              Inl e \<Rightarrow> Inl (EvCrypto e)
            | Inr plain \<Rightarrow>
                if length plain \<noteq> aead_key_len then Inl (EvSchema ''unwrapped scope DEK has wrong length'')
                else Inr plain))"

fun unwrap_rows ::
  "crypto_lib \<Rightarrow> byte list \<Rightarrow> (uuid \<times> dek_row) list \<Rightarrow> evidence_error + (uuid \<times> byte list) list" where
  "unwrap_rows lib wrap_key [] = Inr []"
| "unwrap_rows lib wrap_key ((scope, row) # rows) =
     (case unwrap_dek lib wrap_key scope row of
        Inl e \<Rightarrow> Inl e
      | Inr key \<Rightarrow>
          (case unwrap_rows lib wrap_key rows of
             Inl e \<Rightarrow> Inl e
           | Inr out \<Rightarrow> Inr ((scope, key) # out)))"

definition load_scope_deks :: "crypto_lib \<Rightarrow> store_io \<Rightarrow> key_store \<Rightarrow> evidence_error + (uuid \<times> byte list) list" where
  "load_scope_deks lib io st =
     (case dek_wrapping_key lib (ks_master_key st) of
        Inl e \<Rightarrow> Inl e
      | Inr wrap_key \<Rightarrow> if \<not> io SelectDeks then Inl EvSqlite else unwrap_rows lib wrap_key (ks_scope_deks st))"

definition delete_scope_dek_row :: "store_io \<Rightarrow> uuid \<Rightarrow> key_store \<Rightarrow> evidence_error + key_store" where
  "delete_scope_dek_row io scope st =
     (if \<not> io DeleteDek then Inl EvSqlite
      else Inr (st\<lparr>ks_scope_deks := filter (\<lambda>p. fst p \<noteq> scope) (ks_scope_deks st)\<rparr>))"

definition evict_cached_scope_key :: "uuid \<Rightarrow> key_store \<Rightarrow> key_store" where
  "evict_cached_scope_key scope st = st\<lparr>ks_scope_keys := filter (\<lambda>p. fst p \<noteq> scope) (ks_scope_keys st)\<rparr>"

definition delete_scope_dek :: "store_io \<Rightarrow> uuid \<Rightarrow> key_store \<Rightarrow> evidence_error + key_store" where
  "delete_scope_dek io scope st =
     (case delete_scope_dek_row io scope st of
        Inl e \<Rightarrow> Inl e
      | Inr st1 \<Rightarrow> Inr (evict_cached_scope_key scope st1))"

definition legacy_label :: "uuid \<Rightarrow> byte list" where
  "legacy_label scope = string_bytes (''scope:'' @ Time_And_Float.uuid_display scope @ '':body:v1'')"

definition ensure_scope_dek ::
  "crypto_lib \<Rightarrow> store_io \<Rightarrow> byte list \<Rightarrow> int \<Rightarrow> byte list \<Rightarrow> uuid \<Rightarrow> key_store
     \<Rightarrow> (evidence_error + byte list) \<times> key_store" where
  "ensure_scope_dek lib io nonce now fresh scope st =
     (case map_of (ks_scope_keys st) scope of
        Some k \<Rightarrow> (Inr k, st)
      | None \<Rightarrow>
          (case dek_wrapping_key lib (ks_master_key st) of
             Inl e \<Rightarrow> (Inl e, st)
           | Inr wrap_key \<Rightarrow>
               if \<not> io SelectDek then (Inl EvSqlite, st)
               else (case map_of (ks_scope_deks st) scope of
                       Some row \<Rightarrow>
                         (case unwrap_dek lib wrap_key scope row of
                            Inl e \<Rightarrow> (Inl e, st)
                          | Inr key \<Rightarrow> (Inr key, cache_insert scope key st))
                     | None \<Rightarrow>
                         if \<not> io SelectEvidence then (Inl EvSqlite, st)
                         else if scope \<in> set (ks_evidence_scopes st) then
                           (case derive_key lib (ks_master_key st) (legacy_label scope) of
                              Inl e \<Rightarrow> (Inl (EvCrypto e), st)
                            | Inr key \<Rightarrow>
                                (case store_scope_dek lib io nonce now scope key st of
                                   Inl e \<Rightarrow> (Inl e, st)
                                 | Inr st1 \<Rightarrow> (Inr key, st1)))
                         else
                           (case store_scope_dek lib io nonce now scope fresh st of
                              Inl e \<Rightarrow> (Inl e, st)
                            | Inr st1 \<Rightarrow> (Inr fresh, st1)))))"

section \<open>Rotating the master key\<close>

text \<open>
  The key part of an offline rotation: resolve the key of every scope that owns data and is not
  forgotten, drop the rows of forgotten scopes, wrap the resolved keys again under the new master,
  and check that the copy unwraps to the same keys. \<open>data_scopes\<close> is the answer of the query over
  all tables; the copy of the pages and the comparison of the bodies are outside this slice.
\<close>

definition scope_key :: "crypto_lib \<Rightarrow> uuid \<Rightarrow> key_store \<Rightarrow> evidence_error + byte list \<times> key_store" where
  "scope_key lib scope st =
     (case map_of (ks_scope_keys st) scope of
        Some k \<Rightarrow> Inr (k, st)
      | None \<Rightarrow>
          (case derive_key lib (ks_master_key st) (legacy_label scope) of
             Inl e \<Rightarrow> Inl (EvCrypto e)
           | Inr key \<Rightarrow> Inr (key, cache_insert scope key st)))"

fun resolve_keys ::
  "crypto_lib \<Rightarrow> uuid list \<Rightarrow> uuid list \<Rightarrow> key_store \<Rightarrow> evidence_error + (uuid \<times> byte list) list" where
  "resolve_keys lib forgotten [] st = Inr []"
| "resolve_keys lib forgotten (scope # scopes) st =
     (if scope \<in> set forgotten then resolve_keys lib forgotten scopes st
      else (case scope_key lib scope st of
              Inl e \<Rightarrow> Inl e
            | Inr (key, st1) \<Rightarrow>
                (case resolve_keys lib forgotten scopes st1 of
                   Inl e \<Rightarrow> Inl e
                 | Inr out \<Rightarrow> Inr ((scope, key) # out))))"

fun rewrap_keys ::
  "crypto_lib \<Rightarrow> (uuid \<Rightarrow> byte list) \<Rightarrow> int \<Rightarrow> byte list \<Rightarrow> (uuid \<times> byte list) list \<Rightarrow> (uuid \<times> dek_row) list
     \<Rightarrow> evidence_error + (uuid \<times> dek_row) list" where
  "rewrap_keys lib nonces now new_wrap [] rows = Inr rows"
| "rewrap_keys lib nonces now new_wrap ((scope, dek) # keys) rows =
     (case encrypt_aead lib new_wrap (nonces scope) dek (scope_dek_aad scope) of
        Inl e \<Rightarrow> Inl (EvCrypto e)
      | Inr wrapped \<Rightarrow>
          rewrap_keys lib nonces now new_wrap keys
            (filter (\<lambda>p. fst p \<noteq> scope) rows
              @ [(scope, \<lparr>dr_wrapped_dek = wrapped, dr_nonce = nonces scope, dr_created_at = now\<rparr>)]))"

definition rotate_master_key ::
  "crypto_lib \<Rightarrow> (uuid \<Rightarrow> byte list) \<Rightarrow> int \<Rightarrow> byte list \<Rightarrow> uuid list \<Rightarrow> key_store \<Rightarrow> evidence_error + key_store" where
  "rotate_master_key lib nonces now new_mk data_scopes st =
     (let forgotten = map fst (ks_forgotten_scopes st) in
      case resolve_keys lib forgotten data_scopes st of
        Inl e \<Rightarrow> Inl e
      | Inr keys \<Rightarrow>
          (case dek_wrapping_key lib new_mk of
             Inl e \<Rightarrow> Inl e
           | Inr new_wrap \<Rightarrow>
               (case rewrap_keys lib nonces now new_wrap keys
                       (filter (\<lambda>p. fst p \<notin> set forgotten) (ks_scope_deks st)) of
                  Inl e \<Rightarrow> Inl e
                | Inr rows \<Rightarrow>
                    (case unwrap_rows lib new_wrap rows of
                       Inl e \<Rightarrow> Inl e
                     | Inr loaded \<Rightarrow>
                         if list_all (\<lambda>(scope, dek). map_of loaded scope = Some dek) keys
                         then Inr (st\<lparr>ks_master_key := new_mk, ks_scope_deks := rows, ks_scope_keys := loaded\<rparr>)
                         else Inl (EvSchema ''scope DEK did not round-trip under the new master key'')))))"

section \<open>Tombstones on disk\<close>

definition record_forgotten_scope_at :: "store_io \<Rightarrow> uuid \<Rightarrow> int \<Rightarrow> key_store \<Rightarrow> evidence_error + key_store" where
  "record_forgotten_scope_at io scope at st =
     (if \<not> io InsertForgotten then Inl EvSqlite
      else Inr (st\<lparr>ks_forgotten_scopes := insert_or_ignore scope at (ks_forgotten_scopes st)\<rparr>))"

definition record_epoch_tombstone :: "store_io \<Rightarrow> uuid \<Rightarrow> nat \<Rightarrow> int \<Rightarrow> key_store \<Rightarrow> evidence_error + key_store" where
  "record_epoch_tombstone io scope epoch at st =
     (if 2 ^ 63 \<le> epoch then Inl (EvSchema ''epoch_id overflows i64'')
      else if \<not> io InsertTombstone then Inl EvSqlite
      else Inr (st\<lparr>ks_epoch_tombstones := insert_or_ignore (scope, epoch) at (ks_epoch_tombstones st)\<rparr>))"

definition load_forgotten_scopes :: "store_io \<Rightarrow> key_store \<Rightarrow> evidence_error + uuid list" where
  "load_forgotten_scopes io st =
     (if \<not> io SelectForgotten then Inl EvSqlite else Inr (map fst (ks_forgotten_scopes st)))"

definition load_epoch_tombstones :: "store_io \<Rightarrow> key_store \<Rightarrow> evidence_error + (uuid \<times> nat \<times> int) list" where
  "load_epoch_tombstones io st =
     (if \<not> io SelectTombstones then Inl EvSqlite
      else Inr (map (\<lambda>((s, e), at). (s, e, at)) (ks_epoch_tombstones st)))"

definition dt_to_unix :: "instant \<Rightarrow> int" where
  "dt_to_unix at = at div nanos_per_sec"

text \<open>The adapter that makes the store a persistence hook; error texts are abbreviated.\<close>

definition tombstone_result :: "key_store \<Rightarrow> evidence_error + key_store \<Rightarrow> (crypto_error + unit) \<times> key_store" where
  "tombstone_result st res =
     (case res of Inl e \<Rightarrow> (Inl (TombstonePersistence ''evidence store''), st) | Inr st1 \<Rightarrow> (Inr (), st1))"

definition evidence_tombstones :: "store_io \<Rightarrow> key_store tombstone_store" where
  "evidence_tombstones io =
     \<lparr>ts_persist_tombstone = (\<lambda>scope epoch at st. tombstone_result st (record_epoch_tombstone io scope epoch (dt_to_unix at) st)),
      ts_persist_forgotten_scope = (\<lambda>scope at st. tombstone_result st (record_forgotten_scope_at io scope (dt_to_unix at) st))\<rparr>"

section \<open>The runtime\<close>

datatype ffi_error = FfiInvalidId | FfiNotFound uuid | FfiEvidence

record ffi_runtime =
  rt_store :: key_store
  rt_registry :: dek_registry

definition ensure_scope_registered ::
  "crypto_lib \<Rightarrow> store_io \<Rightarrow> byte list \<Rightarrow> instant \<Rightarrow> byte list \<Rightarrow> uuid \<Rightarrow> ffi_runtime
     \<Rightarrow> (ffi_error + unit) \<times> ffi_runtime" where
  "ensure_scope_registered lib io nonce now fresh scope rt =
     (if get_scope_dek (rt_registry rt) scope \<noteq> None then (Inr (), rt)
      else (case ensure_scope_dek lib io nonce (dt_to_unix now) fresh scope (rt_store rt) of
              (Inl e, st) \<Rightarrow> (Inl FfiEvidence, rt\<lparr>rt_store := st\<rparr>)
            | (Inr key, st) \<Rightarrow>
                (Inr (), rt\<lparr>rt_store := st,
                            rt_registry := insert_scope_dek (scope_dek_new now scope 0 key) (rt_registry rt)\<rparr>)))"

text \<open>The guard every entry point that writes to a scope starts with (\<^verbatim>\<open>ingest_message\<close>).\<close>

definition open_scope_for_write ::
  "crypto_lib \<Rightarrow> store_io \<Rightarrow> byte list \<Rightarrow> instant \<Rightarrow> byte list \<Rightarrow> uuid \<Rightarrow> ffi_runtime
     \<Rightarrow> (ffi_error + unit) \<times> ffi_runtime" where
  "open_scope_for_write lib io nonce now fresh scope rt =
     (if is_scope_forgotten (rt_registry rt) scope then (Inl (FfiNotFound scope), rt)
      else ensure_scope_registered lib io nonce now fresh scope rt)"

definition runtime_forget_scope :: "store_io \<Rightarrow> instant \<Rightarrow> uuid \<Rightarrow> ffi_runtime \<Rightarrow> (ffi_error + unit) \<times> ffi_runtime" where
  "runtime_forget_scope io now scope rt =
     (case destroy_scope_dek (Some (evidence_tombstones io)) now scope (rt_registry rt, rt_store rt) of
        (res, r, st) \<Rightarrow>
          ((case res of Inl e \<Rightarrow> Inl FfiEvidence | Inr _ \<Rightarrow> Inr ()), rt\<lparr>rt_registry := r, rt_store := st\<rparr>))"

definition forget_scope_state ::
  "store_io \<Rightarrow> instant \<Rightarrow> ffi_error option \<Rightarrow> uuid \<Rightarrow> ffi_runtime \<Rightarrow> (ffi_error + unit) \<times> ffi_runtime" where
  "forget_scope_state io now first_error scope rt =
     (if scope = 0 then (Inl FfiInvalidId, rt)
      else (case runtime_forget_scope io now scope rt of
              (Inl e, rt1) \<Rightarrow> (Inl e, rt1)
            | (Inr _, rt1) \<Rightarrow>
                let rt2 = (case delete_scope_dek io scope (rt_store rt1) of
                             Inl e \<Rightarrow> rt1 | Inr st \<Rightarrow> rt1\<lparr>rt_store := st\<rparr>)
                in ((case first_error of Some e \<Rightarrow> Inl e | None \<Rightarrow> Inr ()), rt2)))"

section \<open>Opening a store\<close>

definition replay_scope :: "instant \<Rightarrow> uuid \<Rightarrow> dek_registry \<Rightarrow> dek_registry" where
  "replay_scope now scope r = fst (snd (destroy_scope_dek None now scope (r, ())))"

definition replay_epoch :: "instant \<Rightarrow> uuid list \<Rightarrow> uuid \<times> nat \<times> int \<Rightarrow> dek_registry \<Rightarrow> dek_registry" where
  "replay_epoch now tombs row r =
     (case row of (scope, epoch, _) \<Rightarrow>
        if scope \<in> set tombs then r else fst (snd (destroy_epoch_dek None now scope epoch (r, ()))))"

definition replay_key :: "store_io \<Rightarrow> instant \<Rightarrow> uuid \<times> byte list \<Rightarrow> ffi_runtime \<Rightarrow> ffi_runtime" where
  "replay_key io now sk rt =
     (case sk of (scope, key) \<Rightarrow>
        if is_scope_forgotten (rt_registry rt) scope
        then let st1 = evict_cached_scope_key scope (rt_store rt)
             in rt\<lparr>rt_store := (case delete_scope_dek_row io scope st1 of Inl e \<Rightarrow> st1 | Inr st2 \<Rightarrow> st2)\<rparr>
        else rt\<lparr>rt_registry := insert_scope_dek (scope_dek_new now scope 0 key) (rt_registry rt)\<rparr>)"

text \<open>
  Opening: the cache is read from the table, the tombstones are replayed into a fresh registry, and
  the cached keys of scopes that are not forgotten are registered; \<open>purged\<close> says whether the purge of
  the secondary indexes between the two went through. All clock readings of the replay
  are one reading; they only date in-memory entries.
\<close>

definition open_store :: "crypto_lib \<Rightarrow> store_io \<Rightarrow> instant \<Rightarrow> bool \<Rightarrow> key_store \<Rightarrow> ffi_error + ffi_runtime" where
  "open_store lib io now purged st =
     (case load_scope_deks lib io st of
        Inl e \<Rightarrow> Inl FfiEvidence
      | Inr deks \<Rightarrow>
          (case load_forgotten_scopes io st of
             Inl e \<Rightarrow> Inl FfiEvidence
           | Inr forgotten \<Rightarrow>
               (case load_epoch_tombstones io st of
                  Inl e \<Rightarrow> Inl FfiEvidence
                | Inr rows \<Rightarrow>
                    if \<not> purged then Inl FfiEvidence else
                    let r1 = fold (replay_scope now) forgotten dek_registry_new;
                        r2 = fold (replay_epoch now forgotten) rows r1
                    in Inr (fold (replay_key io now) deks
                              \<lparr>rt_store = st\<lparr>ks_scope_keys := deks\<rparr>, rt_registry = r2\<rparr>))))"

section \<open>The store keeps the hook's contract\<close>

lemma keys_insert_or_ignore [simp]: "fst ` set (insert_or_ignore k v t) = insert k (fst ` set t)"
  by (force simp: insert_or_ignore_def map_of_eq_None_iff)

definition durable_scopes :: "key_store \<Rightarrow> uuid set" where
  "durable_scopes st = fst ` set (ks_forgotten_scopes st)"

definition durable_epochs :: "key_store \<Rightarrow> (uuid \<times> nat) set" where
  "durable_epochs st = fst ` set (ks_epoch_tombstones st)"

lemma evidence_tombstones_sel:
  "ts_persist_tombstone (evidence_tombstones io) scope e at st =
     tombstone_result st (record_epoch_tombstone io scope e (dt_to_unix at) st)"
  "ts_persist_forgotten_scope (evidence_tombstones io) scope at st =
     tombstone_result st (record_forgotten_scope_at io scope (dt_to_unix at) st)"
  by (simp_all add: evidence_tombstones_def)

lemma durable_written [simp]:
  "durable_epochs (st\<lparr>ks_epoch_tombstones := insert_or_ignore k v (ks_epoch_tombstones st)\<rparr>) = insert k (durable_epochs st)"
  "durable_scopes (st\<lparr>ks_forgotten_scopes := insert_or_ignore s v (ks_forgotten_scopes st)\<rparr>) = insert s (durable_scopes st)"
  "durable_scopes (st\<lparr>ks_epoch_tombstones := x\<rparr>) = durable_scopes st"
  "durable_epochs (st\<lparr>ks_forgotten_scopes := y\<rparr>) = durable_epochs st"
  "durable_scopes (st\<lparr>ks_scope_keys := ks\<rparr>) = durable_scopes st"
  "durable_scopes (st\<lparr>ks_scope_deks := ds\<rparr>) = durable_scopes st"
  by (simp_all add: durable_epochs_def durable_scopes_def)

interpretation evidence_hook: tombstone_hook "evidence_tombstones io" durable_epochs durable_scopes for io
  by unfold_locales
    (auto simp: evidence_tombstones_sel tombstone_result_def record_epoch_tombstone_def
      record_forgotten_scope_at_def split: if_splits sum.splits)

section \<open>Lemmas\<close>

lemma forget_in_memory_view:
  assumes "registry_ok r"
  shows "is_scope_forgotten (snd (forget_in_memory now scope r)) s \<longleftrightarrow> s = scope \<or> is_scope_forgotten r s"
    and "get_scope_dek (snd (forget_in_memory now scope r)) s = (if s = scope then None else get_scope_dek r s)"
proof -
  obtain events r' where f: "forget_in_memory now scope r = (events, r')" by fastforce
  note spec = forget_in_memory_spec [OF assms f]
  show "is_scope_forgotten (snd (forget_in_memory now scope r)) s \<longleftrightarrow> s = scope \<or> is_scope_forgotten r s"
    and "get_scope_dek (snd (forget_in_memory now scope r)) s = (if s = scope then None else get_scope_dek r s)"
    using spec(2,4) by (simp_all add: f is_scope_forgotten_def get_scope_dek_def)
qed

lemma replay_scope_view:
  assumes "registry_ok r" and "is_scope_forgotten r scope \<Longrightarrow> get_scope_dek r scope = None"
  shows "registry_ok (replay_scope now scope r)"
    and "is_scope_forgotten (replay_scope now scope r) s \<longleftrightarrow> s = scope \<or> is_scope_forgotten r s"
    and "get_scope_dek (replay_scope now scope r) s = (if s = scope then None else get_scope_dek r s)"
proof -
  have "registry_ok (replay_scope now scope r)
    \<and> (is_scope_forgotten (replay_scope now scope r) s \<longleftrightarrow> s = scope \<or> is_scope_forgotten r s)
    \<and> get_scope_dek (replay_scope now scope r) s = (if s = scope then None else get_scope_dek r s)"
  proof (cases "is_scope_forgotten r scope")
    case True
    then show ?thesis using assms by (auto simp: replay_scope_def destroy_scope_dek_def)
  next
    case False
    then show ?thesis using assms(1)
      by (simp add: replay_scope_def destroy_scope_None registry_ok_forget forget_in_memory_view)
  qed
  then show "registry_ok (replay_scope now scope r)"
    and "is_scope_forgotten (replay_scope now scope r) s \<longleftrightarrow> s = scope \<or> is_scope_forgotten r s"
    and "get_scope_dek (replay_scope now scope r) s = (if s = scope then None else get_scope_dek r s)"
    by blast+
qed

lemma fold_replay_scope:
  "registry_ok r \<Longrightarrow> (\<And>s. is_scope_forgotten r s \<Longrightarrow> get_scope_dek r s = None) \<Longrightarrow>
    registry_ok (fold (replay_scope now) ss r)
    \<and> (\<forall>s. is_scope_forgotten (fold (replay_scope now) ss r) s \<longleftrightarrow> s \<in> set ss \<or> is_scope_forgotten r s)
    \<and> (\<forall>s. get_scope_dek (fold (replay_scope now) ss r) s = (if s \<in> set ss then None else get_scope_dek r s))"
proof (induction ss arbitrary: r)
  case (Cons a ss)
  note v = replay_scope_view [OF Cons.prems(1) Cons.prems(2), where now = now]
  have "is_scope_forgotten (replay_scope now a r) s \<Longrightarrow> get_scope_dek (replay_scope now a r) s = None" for s
    using v(2,3) [where scope = a] Cons.prems(2) by auto
  from Cons.IH [OF v(1) this] show ?case by (auto simp: v(2,3))
qed simp

lemma replay_epoch_view:
  assumes "registry_ok r"
  shows "registry_ok (replay_epoch now ss row r)"
    and "is_scope_forgotten (replay_epoch now ss row r) s = is_scope_forgotten r s"
    and "get_scope_dek (replay_epoch now ss row r) s = get_scope_dek r s"
  using assms
  by (auto simp: replay_epoch_def destroy_epoch_dek_def registry_ok_def is_scope_forgotten_def get_scope_dek_def Let_def
      split: prod.splits)

lemma fold_replay_epoch:
  "registry_ok r \<Longrightarrow> registry_ok (fold (replay_epoch now ss) rows r)
    \<and> (\<forall>s. is_scope_forgotten (fold (replay_epoch now ss) rows r) s = is_scope_forgotten r s)
    \<and> (\<forall>s. get_scope_dek (fold (replay_epoch now ss) rows r) s = get_scope_dek r s)"
  by (induction rows arbitrary: r) (simp_all add: replay_epoch_view)

lemma registry_ok_insert_scope: "registry_ok r \<Longrightarrow> registry_ok (insert_scope_dek d r)"
  by (simp add: registry_ok_def insert_scope_dek_def)

lemma insert_scope_view [simp]:
  "is_scope_forgotten (insert_scope_dek d r) s = is_scope_forgotten r s"
  "get_scope_dek (insert_scope_dek (scope_dek_new now scope e key) r) s =
     (if s = scope then Some (scope_dek_new now scope e key) else get_scope_dek r s)"
  by (simp_all add: is_scope_forgotten_def get_scope_dek_def insert_scope_dek_def scope_dek_new_def)

lemma scope_dek_new_key [simp]: "sd_key (scope_dek_new now scope e key) = key"
  by (simp add: scope_dek_new_def)

definition registered_key :: "dek_registry \<Rightarrow> uuid \<Rightarrow> byte list option" where
  "registered_key r scope = map_option sd_key (get_scope_dek r scope)"

lemma map_of_evicted [simp]:
  "map_of (ks_scope_keys (evict_cached_scope_key scope st)) s = (if s = scope then None else map_of (ks_scope_keys st) s)"
  by (simp add: evict_cached_scope_key_def bt_remove_def [symmetric])

definition store_rows_ok :: "key_store \<Rightarrow> bool" where
  "store_rows_ok st \<longleftrightarrow> distinct (map fst (ks_scope_deks st))"

definition replayed :: "store_io \<Rightarrow> instant \<Rightarrow> (uuid \<times> byte list) list \<Rightarrow> ffi_runtime \<Rightarrow> ffi_runtime \<Rightarrow> bool" where
  "replayed io now deks rt rt' \<longleftrightarrow> registry_ok (rt_registry rt')
   \<and> durable_scopes (rt_store rt') = durable_scopes (rt_store rt)
   \<and> (store_rows_ok (rt_store rt) \<longrightarrow> store_rows_ok (rt_store rt'))
   \<and> (\<forall>s. is_scope_forgotten (rt_registry rt') s = is_scope_forgotten (rt_registry rt) s)
   \<and> (\<forall>s. registered_key (rt_registry rt') s =
        (if is_scope_forgotten (rt_registry rt) s \<or> map_of deks s = None
         then registered_key (rt_registry rt) s else map_of deks s))
   \<and> (\<forall>s. map_of (ks_scope_keys (rt_store rt')) s =
        (if is_scope_forgotten (rt_registry rt) s \<and> map_of deks s \<noteq> None then None
         else map_of (ks_scope_keys (rt_store rt)) s))
   \<and> (\<forall>s. map_of (ks_scope_deks (rt_store rt')) s =
        (if is_scope_forgotten (rt_registry rt) s \<and> map_of deks s \<noteq> None \<and> io DeleteDek then None
         else map_of (ks_scope_deks (rt_store rt)) s))"

lemma replayed_one:
  assumes "registry_ok (rt_registry rt)"
  shows "replayed io now [(scope, key)] rt (replay_key io now (scope, key) rt)"
proof (cases "is_scope_forgotten (rt_registry rt) scope")
  case True
  then show ?thesis using assms
    by (auto simp: replayed_def replay_key_def delete_scope_dek_row_def evict_cached_scope_key_def Let_def
        store_rows_ok_def distinct_map_fst_filter bt_remove_def [symmetric])
      (simp_all add: bt_remove_def distinct_map_fst_filter)
next
  case False
  then show ?thesis using assms
    by (auto simp: replayed_def replay_key_def registry_ok_insert_scope registered_key_def)
qed

lemma replayed_Cons:
  assumes "replayed io now [(s, k)] rt rt1" "replayed io now deks rt1 rt2" "map_of deks s = None"
  shows "replayed io now ((s, k) # deks) rt rt2"
  using assms unfolding replayed_def by (auto split: if_splits)

lemma fold_replay_key:
  "registry_ok (rt_registry rt) \<Longrightarrow> distinct (map fst deks) \<Longrightarrow> replayed io now deks rt (fold (replay_key io now) deks rt)"
proof (induction deks arbitrary: rt)
  case Nil
  then show ?case by (simp add: replayed_def)
next
  case (Cons p deks)
  obtain s k where p: "p = (s, k)" by fastforce
  note one = replayed_one [OF Cons.prems(1), of io now s k]
  have "registry_ok (rt_registry (replay_key io now (s, k) rt))" using one by (simp add: replayed_def)
  then have "replayed io now deks (replay_key io now (s, k) rt) (fold (replay_key io now) (p # deks) rt)"
    using Cons.IH Cons.prems(2) by (simp add: p)
  then show ?case unfolding p using Cons.prems(2) p by (intro replayed_Cons [OF one]) (auto simp: map_of_eq_None_iff)
qed

lemma unwrap_rows_keys: "unwrap_rows lib wk rows = Inr deks \<Longrightarrow> map fst deks = map fst rows"
  by (induction lib wk rows arbitrary: deks rule: unwrap_rows.induct) (auto split: sum.splits)

lemma load_scope_deks_keys: "load_scope_deks lib io st = Inr deks \<Longrightarrow> map fst deks = map fst (ks_scope_deks st)"
  by (auto simp: load_scope_deks_def unwrap_rows_keys split: sum.splits if_splits)

text \<open>What opening a store yields.\<close>

lemma open_store_view:
  assumes op: "open_store lib io now purged st = Inr rt" and dist: "distinct (map fst (ks_scope_deks st))"
  obtains deks where "load_scope_deks lib io st = Inr deks" "registry_ok (rt_registry rt)"
    "durable_scopes (rt_store rt) = durable_scopes st" "store_rows_ok (rt_store rt)"
    "\<And>s. is_scope_forgotten (rt_registry rt) s \<longleftrightarrow> s \<in> durable_scopes st"
    "\<And>s. registered_key (rt_registry rt) s = (if s \<in> durable_scopes st then None else map_of deks s)"
    "\<And>s. map_of (ks_scope_keys (rt_store rt)) s = (if s \<in> durable_scopes st then None else map_of deks s)"
    "\<And>s. map_of (ks_scope_deks (rt_store rt)) s = (if s \<in> durable_scopes st \<and> io DeleteDek then None else map_of (ks_scope_deks st) s)"
proof -
  obtain deks rows where d: "load_scope_deks lib io st = Inr deks"
    and rt: "rt = fold (replay_key io now) deks \<lparr>rt_store = st\<lparr>ks_scope_keys := deks\<rparr>,
      rt_registry = fold (replay_epoch now (map fst (ks_forgotten_scopes st))) rows
        (fold (replay_scope now) (map fst (ks_forgotten_scopes st)) dek_registry_new)\<rparr>"
    using op by (auto simp: open_store_def load_forgotten_scopes_def Let_def split: sum.splits if_splits)
  let ?f = "map fst (ks_forgotten_scopes st)"
  define r2 where "r2 = fold (replay_epoch now ?f) rows (fold (replay_scope now) ?f dek_registry_new)"
  have new: "registry_ok dek_registry_new" "\<not> is_scope_forgotten dek_registry_new s" "get_scope_dek dek_registry_new s = None" for s
    by (simp_all add: dek_registry_new_def registry_ok_def is_scope_forgotten_def get_scope_dek_def)
  have "registry_ok (fold (replay_scope now) ?f dek_registry_new)" using fold_replay_scope [of dek_registry_new now ?f] new by simp
  note e = fold_replay_epoch [OF this, of now ?f rows, folded r2_def]
  have r2: "registry_ok r2" "is_scope_forgotten r2 s \<longleftrightarrow> s \<in> durable_scopes st" "registered_key r2 s = None" for s
    using e fold_replay_scope [of dek_registry_new now ?f] new by (auto simp: durable_scopes_def registered_key_def)
  have keys: "map fst deks = map fst (ks_scope_deks st)" using load_scope_deks_keys [OF d] .
  then have none: "map_of deks s = None \<longleftrightarrow> map_of (ks_scope_deks st) s = None" for s
    by (metis map_of_eq_None_iff set_map)
  let ?rt0 = "\<lparr>rt_store = st\<lparr>ks_scope_keys := deks\<rparr>, rt_registry = r2\<rparr>"
  have rep: "replayed io now deks ?rt0 rt"
    unfolding rt r2_def [symmetric] using r2(1) dist keys by (intro fold_replay_key) simp_all
  have forg: "is_scope_forgotten (rt_registry rt) s \<longleftrightarrow> s \<in> durable_scopes st" for s
    using rep r2(2) by (simp add: replayed_def)
  have reg: "registered_key (rt_registry rt) s = (if s \<in> durable_scopes st then None else map_of deks s)" for s
    using rep r2(2,3) by (simp add: replayed_def)
  have cache: "map_of (ks_scope_keys (rt_store rt)) s = (if s \<in> durable_scopes st then None else map_of deks s)" for s
    using rep r2(2) by (simp add: replayed_def)
  have deks: "map_of (ks_scope_deks (rt_store rt)) s = (if s \<in> durable_scopes st \<and> io DeleteDek then None else map_of (ks_scope_deks st) s)" for s
    using rep r2(2) none [of s] by (simp add: replayed_def)
  show ?thesis using that [OF d _ _ _ forg reg cache deks] rep dist by (simp add: replayed_def store_rows_ok_def)
qed

lemma cache_insert_sel [simp]:
  "ks_scope_deks (cache_insert scope key st) = ks_scope_deks st"
  "durable_scopes (cache_insert scope key st) = durable_scopes st"
  "ks_master_key (cache_insert scope key st) = ks_master_key st"
  "map_of (ks_scope_keys (cache_insert scope key st)) = (map_of (ks_scope_keys st))(scope \<mapsto> key)"
  by (simp_all add: cache_insert_def bt_remove_def [symmetric] fun_eq_iff)

section \<open>Wrapped keys unwrap to themselves\<close>

lemma unwrap_rows_lookup:
  "unwrap_rows lib wk rows = Inr deks \<Longrightarrow>
    (case map_of rows s of None \<Rightarrow> map_of deks s = None
     | Some row \<Rightarrow> \<exists>k. unwrap_dek lib wk s row = Inr k \<and> map_of deks s = Some k)"
  by (induction lib wk rows arbitrary: deks rule: unwrap_rows.induct)
    (auto split: sum.splits if_splits option.splits)

lemma unwrap_rows_total:
  "(\<And>s row. (s, row) \<in> set rows \<Longrightarrow> \<exists>k. unwrap_dek lib wk s row = Inr k) \<Longrightarrow> \<exists>deks. unwrap_rows lib wk rows = Inr deks"
proof (induction rows)
  case (Cons p rows)
  obtain s row where p: "p = (s, row)" by fastforce
  then obtain k deks where "unwrap_dek lib wk s row = Inr k" "unwrap_rows lib wk rows = Inr deks"
    using Cons by (metis list.set_intros(1,2))
  then show ?case by (simp add: p)
qed simp

lemma unwrap_wrapped:
  assumes "aead_ok lib" "encrypt_aead lib wk nonce dek (scope_dek_aad scope) = Inr wrapped"
    and "length nonce = aead_nonce_len" "length dek = aead_key_len"
  shows "unwrap_dek lib wk scope \<lparr>dr_wrapped_dek = wrapped, dr_nonce = nonce, dr_created_at = now\<rparr> = Inr dek"
  using decrypt_encrypt_aead [OF assms(1,2)] assms(3,4) by (simp add: unwrap_dek_def)

definition keys_backed :: "crypto_lib \<Rightarrow> key_store \<Rightarrow> bool" where
  "keys_backed lib st \<longleftrightarrow> (\<forall>scope k. map_of (ks_scope_keys st) scope = Some k \<longrightarrow>
     (\<exists>wk row. dek_wrapping_key lib (ks_master_key st) = Inr wk \<and> map_of (ks_scope_deks st) scope = Some row
        \<and> unwrap_dek lib wk scope row = Inr k))"

lemma keys_backedD:
  assumes "keys_backed lib st" "map_of (ks_scope_keys st) scope = Some k"
  obtains wk row where "dek_wrapping_key lib (ks_master_key st) = Inr wk"
    "map_of (ks_scope_deks st) scope = Some row" "unwrap_dek lib wk scope row = Inr k"
  using assms unfolding keys_backed_def by blast

lemma keys_backed_insert:
  assumes "keys_backed lib st" "dek_wrapping_key lib (ks_master_key st) = Inr wk"
    and "map_of (ks_scope_deks st) scope = Some row" "unwrap_dek lib wk scope row = Inr k"
  shows "keys_backed lib (cache_insert scope k st)"
  using assms by (auto simp: keys_backed_def)

lemma store_scope_dek_backed:
  assumes lib: "aead_ok lib" and st: "keys_backed lib st" "map_of (ks_scope_deks st) scope = None"
    and len: "length nonce = aead_nonce_len" "length dek = aead_key_len"
    and run: "store_scope_dek lib io nonce now scope dek st = Inr st'"
  shows "keys_backed lib st' \<and> map_of (ks_scope_keys st') scope = Some dek"
proof -
  obtain wk wrapped where wk: "dek_wrapping_key lib (ks_master_key st) = Inr wk"
    and enc: "encrypt_aead lib wk nonce dek (scope_dek_aad scope) = Inr wrapped"
    and st': "st' = cache_insert scope dek (st\<lparr>ks_scope_deks := ks_scope_deks st @
      [(scope, \<lparr>dr_wrapped_dek = wrapped, dr_nonce = nonce, dr_created_at = now\<rparr>)]\<rparr>)"
    using run st(2) by (auto simp: store_scope_dek_def split: sum.splits if_splits)
  let ?st1 = "st\<lparr>ks_scope_deks := ks_scope_deks st @
      [(scope, \<lparr>dr_wrapped_dek = wrapped, dr_nonce = nonce, dr_created_at = now\<rparr>)]\<rparr>"
  have "keys_backed lib ?st1"
    unfolding keys_backed_def
  proof (intro allI impI)
    fix s k assume "map_of (ks_scope_keys ?st1) s = Some k"
    then have "map_of (ks_scope_keys st) s = Some k" by simp
    then obtain wk row where "dek_wrapping_key lib (ks_master_key st) = Inr wk"
      "map_of (ks_scope_deks st) s = Some row" "unwrap_dek lib wk s row = Inr k"
      by (rule keys_backedD [OF st(1)])
    then show "\<exists>wk row. dek_wrapping_key lib (ks_master_key ?st1) = Inr wk
        \<and> map_of (ks_scope_deks ?st1) s = Some row \<and> unwrap_dek lib wk s row = Inr k"
      by (simp add: map_add_def)
  qed
  then have "keys_backed lib (cache_insert scope dek ?st1)"
    by (rule keys_backed_insert [where wk = wk])
      (use wk st(2) unwrap_wrapped [OF lib enc len] in \<open>simp_all add: map_add_def\<close>)
  then show ?thesis by (simp add: st')
qed

lemma ensure_scope_dek_backed:
  assumes lib: "aead_ok lib" "kdf_ok lib" and st: "keys_backed lib st"
    and len: "length nonce = aead_nonce_len" "length fresh = aead_key_len"
    and run: "ensure_scope_dek lib io nonce now fresh scope st = (Inr k, st')"
  shows "keys_backed lib st' \<and> map_of (ks_scope_keys st') scope = Some k"
proof (cases "map_of (ks_scope_keys st) scope")
  case (Some k')
  then show ?thesis using run st by (simp add: ensure_scope_dek_def)
next
  case None
  then obtain wk where wk: "dek_wrapping_key lib (ks_master_key st) = Inr wk"
    using run by (auto simp: ensure_scope_dek_def split: sum.splits)
  show ?thesis
  proof (cases "map_of (ks_scope_deks st) scope")
    case (Some row)
    then have "unwrap_dek lib wk scope row = Inr k" "st' = cache_insert scope k st"
      using run None wk by (auto simp: ensure_scope_dek_def split: sum.splits if_splits)
    then show ?thesis using keys_backed_insert [OF st wk Some] by simp
  next
    case row: None
    have "\<exists>dek. length dek = aead_key_len \<and> store_scope_dek lib io nonce now scope dek st = Inr st' \<and> dek = k"
      using run None wk row len(2) derive_key_length [OF lib(2)]
      by (auto simp: ensure_scope_dek_def split: sum.splits if_splits)
    then show ?thesis using store_scope_dek_backed [OF lib(1) st row len(1)] by blast
  qed
qed

lemma loaded_backed:
  assumes "keys_backed lib st" "map_of (ks_scope_keys st) scope = Some k" "load_scope_deks lib io st = Inr deks"
  shows "map_of deks scope = Some k"
proof -
  obtain wk row where w: "dek_wrapping_key lib (ks_master_key st) = Inr wk" "map_of (ks_scope_deks st) scope = Some row"
    "unwrap_dek lib wk scope row = Inr k"
    by (rule keys_backedD [OF assms(1,2)])
  then have "unwrap_rows lib wk (ks_scope_deks st) = Inr deks"
    using assms(3) by (simp add: load_scope_deks_def split: if_splits)
  from unwrap_rows_lookup [OF this, of scope] show ?thesis using w by simp
qed

section \<open>A rotation carries every key over\<close>

definition key_of :: "crypto_lib \<Rightarrow> key_store \<Rightarrow> uuid \<Rightarrow> byte list option" where
  "key_of lib st scope =
     (case map_of (ks_scope_keys st) scope of
        Some k \<Rightarrow> Some k
      | None \<Rightarrow> (case derive_key lib (ks_master_key st) (legacy_label scope) of Inl _ \<Rightarrow> None | Inr k \<Rightarrow> Some k))"

lemma scope_key_key_of:
  assumes "key_of lib st scope = Some k"
  obtains st1 where "scope_key lib scope st = Inr (k, st1)" "key_of lib st1 = key_of lib st"
  using assms that by (cases "map_of (ks_scope_keys st) scope")
    (auto simp: key_of_def scope_key_def fun_eq_iff split: sum.splits option.splits)

lemma resolve_keys_all:
  "(\<And>s. s \<in> set scopes \<Longrightarrow> s \<notin> set forgotten \<Longrightarrow> key_of lib st s \<noteq> None) \<Longrightarrow>
    resolve_keys lib forgotten scopes st =
      Inr (map (\<lambda>s. (s, the (key_of lib st s))) (filter (\<lambda>s. s \<notin> set forgotten) scopes))"
proof (induction scopes arbitrary: st)
  case (Cons s scopes)
  show ?case
  proof (cases "s \<in> set forgotten")
    case True
    then show ?thesis using Cons by simp
  next
    case False
    then obtain k where k: "key_of lib st s = Some k" using Cons.prems [of s] by auto
    obtain st1 where st1: "scope_key lib s st = Inr (k, st1)" "key_of lib st1 = key_of lib st"
      by (rule scope_key_key_of [OF k])
    have "resolve_keys lib forgotten scopes st1 =
        Inr (map (\<lambda>s. (s, the (key_of lib st s))) (filter (\<lambda>s. s \<notin> set forgotten) scopes))"
      using Cons.IH [of st1] Cons.prems by (simp add: st1(2))
    then show ?thesis using False k st1(1) by simp
  qed
qed simp

definition rewrapped ::
  "crypto_lib \<Rightarrow> byte list \<Rightarrow> (uuid \<times> byte list) list \<Rightarrow> (uuid \<times> dek_row) list \<Rightarrow> (uuid \<times> dek_row) list \<Rightarrow> bool" where
  "rewrapped lib wk keys rows rows' \<longleftrightarrow> distinct (map fst rows')
   \<and> fst ` set rows' = fst ` set keys \<union> fst ` set rows
   \<and> (\<forall>s k. map_of keys s = Some k \<longrightarrow> (\<exists>row. map_of rows' s = Some row \<and> unwrap_dek lib wk s row = Inr k))
   \<and> (\<forall>s. map_of keys s = None \<longrightarrow> map_of rows' s = map_of rows s)"

lemma rewrapped_Cons:
  assumes row: "unwrap_dek lib wk s row = Inr k" and new: "s \<notin> fst ` set keys"
    and rec: "rewrapped lib wk keys (filter (\<lambda>q. fst q \<noteq> s) rows @ [(s, row)]) rows'"
  shows "rewrapped lib wk ((s, k) # keys) rows rows'"
proof -
  let ?rows = "filter (\<lambda>q. fst q \<noteq> s) rows @ [(s, row)]"
  have look: "map_of ?rows t = (if t = s then Some row else map_of rows t)" for t
    by (simp add: bt_remove_def [symmetric] map_add_def split: option.split)
  have "map_of keys s = None" using new by (simp add: map_of_eq_None_iff)
  then have mine: "map_of rows' s = Some row" using rec look by (simp add: rewrapped_def)
  have "fst ` set ?rows = insert s (fst ` set rows)" by force
  then have "fst ` set rows' = fst ` set ((s, k) # keys) \<union> fst ` set rows" using rec by (simp add: rewrapped_def)
  moreover have "\<exists>row'. map_of rows' t = Some row' \<and> unwrap_dek lib wk t row' = Inr k'"
    if "map_of ((s, k) # keys) t = Some k'" for t k'
    using that rec mine row unfolding rewrapped_def by (cases "t = s") auto
  moreover have "map_of rows' t = map_of rows t" if "map_of ((s, k) # keys) t = None" for t
    using that rec look [of t] unfolding rewrapped_def by (cases "t = s") auto
  ultimately show ?thesis using rec unfolding rewrapped_def by blast
qed

lemma rewrap_keys_all:
  assumes lib: "aead_ok lib" and enc: "\<And>nonce dek aad. \<exists>ct. encrypt_aead lib wk nonce dek aad = Inr ct"
    and nonces: "\<And>s. length (nonces s) = aead_nonce_len"
  shows "list_all (\<lambda>p. length (snd p) = aead_key_len) keys \<Longrightarrow> distinct (map fst keys) \<Longrightarrow> distinct (map fst rows)
    \<Longrightarrow> \<exists>rows'. rewrap_keys lib nonces now wk keys rows = Inr rows' \<and> rewrapped lib wk keys rows rows'"
proof (induction keys arbitrary: rows)
  case Nil
  then show ?case by (simp add: rewrapped_def)
next
  case (Cons p keys)
  obtain s k where p: "p = (s, k)" by fastforce
  obtain ct where ct: "encrypt_aead lib wk (nonces s) k (scope_dek_aad s) = Inr ct" using enc by blast
  let ?row = "\<lparr>dr_wrapped_dek = ct, dr_nonce = nonces s, dr_created_at = now\<rparr>"
  let ?rows = "filter (\<lambda>q. fst q \<noteq> s) rows @ [(s, ?row)]"
  have "length k = aead_key_len" using Cons.prems(1) p by simp
  from unwrap_wrapped [OF lib ct nonces this] have un: "unwrap_dek lib wk s ?row = Inr k" .
  have "distinct (map fst ?rows)" using Cons.prems(3) by (auto simp: distinct_map_fst_filter)
  moreover have "distinct (map fst keys)" "list_all (\<lambda>p. length (snd p) = aead_key_len) keys"
    using Cons.prems(1,2) by simp_all
  ultimately obtain rows' where r: "rewrap_keys lib nonces now wk keys ?rows = Inr rows'" "rewrapped lib wk keys ?rows rows'"
    using Cons.IH [of ?rows] by blast
  have "s \<notin> fst ` set keys" using Cons.prems(2) p by simp
  from rewrapped_Cons [OF un this r(2)] show ?case using r(1) ct p by simp
qed

text \<open>When the rows cover exactly the rewrapped keys, unwrapping them gives those keys back.\<close>

lemma rewrapped_loads:
  assumes rw: "rewrapped lib wk keys rows rows'" and cover: "fst ` set rows \<subseteq> fst ` set keys"
  obtains loaded where "unwrap_rows lib wk rows' = Inr loaded" "map_of loaded = map_of keys"
proof -
  have dom: "fst ` set rows' = fst ` set keys" using rw cover by (auto simp: rewrapped_def)
  have row: "\<exists>k. map_of keys s = Some k \<and> unwrap_dek lib wk s row = Inr k" if "map_of rows' s = Some row" for s row
  proof -
    have "s \<in> fst ` set keys" using that dom by (metis map_of_eq_None_iff option.distinct(1))
    then obtain k where k: "map_of keys s = Some k" by (metis map_of_eq_None_iff not_None_eq)
    then have "\<exists>row. map_of rows' s = Some row \<and> unwrap_dek lib wk s row = Inr k" using rw unfolding rewrapped_def by blast
    then show ?thesis using k that by simp
  qed
  have "\<exists>k. unwrap_dek lib wk s row = Inr k" if "(s, row) \<in> set rows'" for s row
    using row [of s row] that rw by (auto simp: rewrapped_def)
  then obtain loaded where loaded: "unwrap_rows lib wk rows' = Inr loaded" using unwrap_rows_total by blast
  have "map_of loaded s = map_of keys s" for s
  proof (cases "map_of rows' s")
    case None
    then have "map_of keys s = None" using dom by (metis map_of_eq_None_iff)
    then show ?thesis using unwrap_rows_lookup [OF loaded, of s] None by simp
  next
    case (Some r)
    then show ?thesis using unwrap_rows_lookup [OF loaded, of s] row [OF Some] by auto
  qed
  then show ?thesis using that loaded by (simp add: fun_eq_iff)
qed

section \<open>Processes over a store\<close>

text \<open>
  A process runs over the store or is down; it serves writes and forgets, and it restarts, which may
  fail. Whatever statements fail in between is part of the event.
\<close>

datatype process = Down key_store | Up ffi_runtime

datatype process_event =
    WriteTo store_io "byte list" instant "byte list" uuid
  | Forget store_io instant "ffi_error option" uuid
  | Restart store_io instant bool

definition process_store :: "process \<Rightarrow> key_store" where
  "process_store p = (case p of Down st \<Rightarrow> st | Up rt \<Rightarrow> rt_store rt)"

fun process_exec :: "crypto_lib \<Rightarrow> process_event \<Rightarrow> process \<Rightarrow> process" where
  "process_exec lib (WriteTo io nonce now fresh scope) (Up rt) = Up (snd (open_scope_for_write lib io nonce now fresh scope rt))"
| "process_exec lib (Forget io now first_error scope) (Up rt) = Up (snd (forget_scope_state io now first_error scope rt))"
| "process_exec lib (Restart io now purged) p =
     (case open_store lib io now purged (process_store p) of Inl _ \<Rightarrow> Down (process_store p) | Inr rt \<Rightarrow> Up rt)"
| "process_exec lib _ (Down st) = Down st"

definition process_ok :: "process \<Rightarrow> bool" where
  "process_ok p \<longleftrightarrow> store_rows_ok (process_store p) \<and> (case p of Down _ \<Rightarrow> True
     | Up rt \<Rightarrow> registry_ok (rt_registry rt)
         \<and> (\<forall>s. is_scope_forgotten (rt_registry rt) s \<longrightarrow> registered_key (rt_registry rt) s = None))"

definition scope_gone :: "uuid \<Rightarrow> process \<Rightarrow> bool" where
  "scope_gone scope p \<longleftrightarrow> scope \<in> durable_scopes (process_store p)
     \<and> (case p of Down _ \<Rightarrow> True | Up rt \<Rightarrow> is_scope_forgotten (rt_registry rt) scope \<and> registered_key (rt_registry rt) scope = None)"

lemma store_scope_dek_rows:
  assumes "store_scope_dek lib io nonce now scope dek st = Inr st'"
  shows "durable_scopes st' = durable_scopes st" and "store_rows_ok st \<Longrightarrow> store_rows_ok st'"
  using assms
  by (auto simp: store_scope_dek_def store_rows_ok_def map_of_eq_None_iff split: sum.splits if_splits)

lemma ensure_scope_dek_rows:
  assumes "ensure_scope_dek lib io nonce now fresh scope st = (res, st')"
  shows "durable_scopes st' = durable_scopes st \<and> (store_rows_ok st \<longrightarrow> store_rows_ok st')"
  using assms store_scope_dek_rows
  by (auto simp: ensure_scope_dek_def store_rows_ok_def split: option.splits sum.splits if_splits)

definition same_keys :: "key_store \<Rightarrow> key_store \<Rightarrow> bool" where
  "same_keys st st' \<longleftrightarrow> ks_scope_deks st' = ks_scope_deks st \<and> ks_scope_keys st' = ks_scope_keys st"

lemma persist_tombstones_keys: "same_keys st (snd (persist_tombstones (evidence_tombstones io) scope es st))"
proof (induction es arbitrary: st)
  case (Cons p es)
  obtain e t where "p = (e, t)" by fastforce
  then show ?case using Cons
    by (auto simp: same_keys_def evidence_tombstones_sel tombstone_result_def record_epoch_tombstone_def
        split: sum.splits prod.splits)
qed (simp add: same_keys_def)

lemma persist_scope_keys: "same_keys st (snd (persist_scope (evidence_tombstones io) now scope r st))"
proof -
  obtain res st1 where p: "persist_tombstones (evidence_tombstones io) scope (scope_tombstones r scope) st = (res, st1)"
    by fastforce
  then have "same_keys st st1" using persist_tombstones_keys [of st io scope "scope_tombstones r scope"] by simp
  then show ?thesis using p
    by (auto simp: persist_scope_def same_keys_def evidence_tombstones_sel tombstone_result_def
        record_forgotten_scope_at_def split: sum.splits)
qed

lemma destroy_scope_keys:
  assumes "destroy_scope_dek (Some (evidence_tombstones io)) now scope (r, st) = (res, r', st')"
  shows "same_keys st st'"
proof (cases "is_scope_forgotten r scope")
  case True
  then show ?thesis using assms by (simp add: destroy_scope_dek_def same_keys_def)
next
  case False
  then have "st' = snd (persist_scope (evidence_tombstones io) now scope r' st)"
    using assms by (auto simp: destroy_scope_dek_def Let_def split: prod.splits sum.splits)
  then show ?thesis using persist_scope_keys by simp
qed

lemma runtime_forget_view:
  assumes "runtime_forget_scope io now scope rt = (res, rt')" "registry_ok (rt_registry rt)"
    and "is_scope_forgotten (rt_registry rt) scope \<Longrightarrow> get_scope_dek (rt_registry rt) scope = None"
  shows "registry_ok (rt_registry rt')" "ks_scope_deks (rt_store rt') = ks_scope_deks (rt_store rt)"
    "is_scope_forgotten (rt_registry rt') s \<longleftrightarrow> s = scope \<or> is_scope_forgotten (rt_registry rt) s"
    "registered_key (rt_registry rt') s = (if s = scope then None else registered_key (rt_registry rt) s)"
    "durable_scopes (rt_store rt') =
       (if is_scope_forgotten (rt_registry rt) scope \<or> res \<noteq> Inr () then durable_scopes (rt_store rt)
        else insert scope (durable_scopes (rt_store rt)))"
proof -
  obtain dres r st where d: "destroy_scope_dek (Some (evidence_tombstones io)) now scope (rt_registry rt, rt_store rt) = (dres, r, st)"
    by (metis prod_cases3)
  have rt': "rt' = rt\<lparr>rt_registry := r, rt_store := st\<rparr>" "res = (case dres of Inl e \<Rightarrow> Inl FfiEvidence | Inr _ \<Rightarrow> Inr ())"
    using assms(1) d by (simp_all add: runtime_forget_scope_def)
  have all: "registry_ok r \<and> ks_scope_deks st = ks_scope_deks (rt_store rt)
    \<and> (is_scope_forgotten r s \<longleftrightarrow> s = scope \<or> is_scope_forgotten (rt_registry rt) s)
    \<and> registered_key r s = (if s = scope then None else registered_key (rt_registry rt) s)
    \<and> durable_scopes st = (if is_scope_forgotten (rt_registry rt) scope \<or> res \<noteq> Inr () then durable_scopes (rt_store rt)
        else insert scope (durable_scopes (rt_store rt)))"
  proof (cases "is_scope_forgotten (rt_registry rt) scope")
    case True
    then show ?thesis using d assms(2,3) by (auto simp: destroy_scope_dek_def registered_key_def)
  next
    case False
    note mem = destroy_scope_memory(1) [OF d False]
    have "ks_scope_deks st = ks_scope_deks (rt_store rt)"
      using destroy_scope_keys [OF d] by (simp add: same_keys_def)
    moreover have "durable_scopes st = (if res \<noteq> Inr () then durable_scopes (rt_store rt) else insert scope (durable_scopes (rt_store rt)))"
    proof (cases dres)
      case (Inl e)
      then show ?thesis using evidence_hook.destroy_scope_not_durable [of io now scope] d rt'(2) by fastforce
    next
      case (Inr ev)
      then show ?thesis using evidence_hook.destroy_scope_durable(1) [of io now scope] d False rt'(2) by fastforce
    qed
    ultimately show ?thesis using False mem assms(2)
      by (simp add: registry_ok_forget forget_in_memory_view registered_key_def)
  qed
  then show "registry_ok (rt_registry rt')" "ks_scope_deks (rt_store rt') = ks_scope_deks (rt_store rt)"
    "is_scope_forgotten (rt_registry rt') s \<longleftrightarrow> s = scope \<or> is_scope_forgotten (rt_registry rt) s"
    "registered_key (rt_registry rt') s = (if s = scope then None else registered_key (rt_registry rt) s)"
    "durable_scopes (rt_store rt') =
       (if is_scope_forgotten (rt_registry rt) scope \<or> res \<noteq> Inr () then durable_scopes (rt_store rt)
        else insert scope (durable_scopes (rt_store rt)))"
    by (simp_all add: rt'(1))
qed

lemma forget_state_view:
  assumes "forget_scope_state io now fe scope rt = (res, rt')" "process_ok (Up rt)"
  shows "process_ok (Up rt')"
    and "is_scope_forgotten (rt_registry rt) s \<Longrightarrow> is_scope_forgotten (rt_registry rt') s"
    and "durable_scopes (rt_store rt) \<subseteq> durable_scopes (rt_store rt')"
    and "res = Inr () \<Longrightarrow> is_scope_forgotten (rt_registry rt') scope"
    and "res = Inr () \<Longrightarrow> \<not> is_scope_forgotten (rt_registry rt) scope \<Longrightarrow> scope \<in> durable_scopes (rt_store rt')"
    and "is_scope_forgotten (rt_registry rt) scope \<Longrightarrow> durable_scopes (rt_store rt') = durable_scopes (rt_store rt)"
proof -
  obtain res1 rt1 where f: "runtime_forget_scope io now scope rt = (res1, rt1)" by fastforce
  have ok: "registry_ok (rt_registry rt)"
    "is_scope_forgotten (rt_registry rt) scope \<Longrightarrow> get_scope_dek (rt_registry rt) scope = None"
    using assms(2) by (auto simp: process_ok_def registered_key_def)
  note v = runtime_forget_view [OF f ok]
  have rt': "rt' = rt \<or> rt_registry rt' = rt_registry rt1 \<and> durable_scopes (rt_store rt') = durable_scopes (rt_store rt1)
      \<and> (store_rows_ok (rt_store rt1) \<longrightarrow> store_rows_ok (rt_store rt'))"
    using assms(1) f
    by (auto simp: forget_scope_state_def delete_scope_dek_def delete_scope_dek_row_def evict_cached_scope_key_def
        store_rows_ok_def Let_def distinct_map_fst_filter split: if_splits sum.splits option.splits)
  have res: "res = Inr () \<Longrightarrow> rt_registry rt' = rt_registry rt1 \<and> durable_scopes (rt_store rt') = durable_scopes (rt_store rt1) \<and> res1 = Inr ()"
    using assms(1) f
    by (auto simp: forget_scope_state_def delete_scope_dek_def delete_scope_dek_row_def evict_cached_scope_key_def Let_def
        split: if_splits sum.splits option.splits)
  have "store_rows_ok (rt_store rt1)" using v(2) assms(2) by (simp add: process_ok_def process_store_def store_rows_ok_def)
  then show "process_ok (Up rt')" using rt' v(1,3,4) assms(2) by (auto simp: process_ok_def process_store_def)
  show "is_scope_forgotten (rt_registry rt) s \<Longrightarrow> is_scope_forgotten (rt_registry rt') s" using rt' v(3) by auto
  show "durable_scopes (rt_store rt) \<subseteq> durable_scopes (rt_store rt')" using rt' v(5) by (auto split: if_splits)
  show "res = Inr () \<Longrightarrow> is_scope_forgotten (rt_registry rt') scope" using res v(3) by simp
  show "res = Inr () \<Longrightarrow> \<not> is_scope_forgotten (rt_registry rt) scope \<Longrightarrow> scope \<in> durable_scopes (rt_store rt')"
    using res v(5) by simp
  show "is_scope_forgotten (rt_registry rt) scope \<Longrightarrow> durable_scopes (rt_store rt') = durable_scopes (rt_store rt)"
    using rt' v(5) by auto
qed

lemma open_for_write_view:
  assumes "open_scope_for_write lib io nonce now fresh scope rt = (res, rt')" "process_ok (Up rt)"
  shows "process_ok (Up rt')" "durable_scopes (rt_store rt') = durable_scopes (rt_store rt)"
    and "is_scope_forgotten (rt_registry rt') s = is_scope_forgotten (rt_registry rt) s"
    and "is_scope_forgotten (rt_registry rt) s \<Longrightarrow> registered_key (rt_registry rt') s = None"
proof -
  obtain eres st where e: "ensure_scope_dek lib io nonce (dt_to_unix now) fresh scope (rt_store rt) = (eres, st)" by fastforce
  have all: "process_ok (Up rt') \<and> durable_scopes (rt_store rt') = durable_scopes (rt_store rt)
    \<and> (\<forall>s. is_scope_forgotten (rt_registry rt') s = is_scope_forgotten (rt_registry rt) s)"
    using assms ensure_scope_dek_rows [OF e] e
    by (auto simp: open_scope_for_write_def ensure_scope_registered_def process_ok_def process_store_def
        registry_ok_insert_scope registered_key_def split: if_splits sum.splits)
  then show "process_ok (Up rt')" "durable_scopes (rt_store rt') = durable_scopes (rt_store rt)"
    and "is_scope_forgotten (rt_registry rt') s = is_scope_forgotten (rt_registry rt) s" by blast+
  then show "is_scope_forgotten (rt_registry rt) s \<Longrightarrow> registered_key (rt_registry rt') s = None"
    by (simp add: process_ok_def)
qed

lemma process_exec_gone:
  assumes ok: "process_ok p" and gone: "scope_gone scope p"
  shows "process_ok (process_exec lib ev p) \<and> scope_gone scope (process_exec lib ev p)"
proof (cases ev)
  case (WriteTo io nonce now fresh s)
  then show ?thesis using assms
    by (cases p) (auto simp: scope_gone_def process_store_def open_for_write_view [OF prod.collapse [symmetric]])
next
  case (Forget io now fe s)
  show ?thesis
  proof (cases p)
    case (Up rt)
    note v = forget_state_view [OF prod.collapse [symmetric], where rt = rt and io = io and now = now and fe = fe and scope = s]
    have "process_ok (Up rt)" using ok Up by simp
    then show ?thesis using v(1-3) gone Forget Up by (auto simp: scope_gone_def process_store_def process_ok_def)
  qed (use assms Forget in simp)
next
  case (Restart io now purged)
  show ?thesis
  proof (cases "open_store lib io now purged (process_store p)")
    case (Inl e)
    then show ?thesis using assms Restart by (auto simp: process_ok_def scope_gone_def process_store_def split: process.splits)
  next
    case (Inr rt)
    have rows: "distinct (map fst (ks_scope_deks (process_store p)))" using ok by (simp add: process_ok_def store_rows_ok_def)
    have "registry_ok (rt_registry rt) \<and> durable_scopes (rt_store rt) = durable_scopes (process_store p)
      \<and> store_rows_ok (rt_store rt)
      \<and> (\<forall>s. is_scope_forgotten (rt_registry rt) s \<longleftrightarrow> s \<in> durable_scopes (process_store p))
      \<and> (\<forall>s. s \<in> durable_scopes (process_store p) \<longrightarrow> registered_key (rt_registry rt) s = None)"
      by (rule open_store_view [OF Inr rows]) simp
    then show ?thesis using gone Restart Inr by (auto simp: process_ok_def scope_gone_def process_store_def)
  qed
qed

lemma process_run_gone:
  "process_ok p \<Longrightarrow> scope_gone scope p \<Longrightarrow>
    process_ok (fold (process_exec lib) evs p) \<and> scope_gone scope (fold (process_exec lib) evs p)"
  by (induction evs arbitrary: p) (use process_exec_gone in auto)

section \<open>Properties\<close>


text \<open>
  Opening a store restores exactly the keys it should: the scopes reported as forgotten are
  those with a tombstone on disk; every other scope with a wrapped key has that key, unwrapped, in
  the registry and in the cache; a forgotten scope has none in either, and its leftover row is
  deleted unless the deletion fails.
\<close>

theorem open_store_exact:
  assumes "open_store lib io now purged st = Inr rt" "store_rows_ok st" "load_scope_deks lib io st = Inr deks"
  shows "is_scope_forgotten (rt_registry rt) scope = (scope \<in> durable_scopes st)
    \<and> registered_key (rt_registry rt) scope = (if scope \<in> durable_scopes st then None else map_of deks scope)
    \<and> map_of (ks_scope_keys (rt_store rt)) scope = (if scope \<in> durable_scopes st then None else map_of deks scope)
    \<and> map_of (ks_scope_deks (rt_store rt)) scope =
        (if scope \<in> durable_scopes st \<and> io DeleteDek then None else map_of (ks_scope_deks st) scope)"
  by (rule open_store_view [OF assms(1) assms(2) [unfolded store_rows_ok_def]]) (use assms(3) in simp)

text \<open>
  A retry after a failed forget reports success without a tombstone: when the tombstone of a
  scope cannot be written, the first call fails but the scope is already marked forgotten in memory,
  so the second call returns success at once, nothing is on disk, and after a restart the scope is
  not forgotten.
\<close>

theorem retried_forget_is_not_durable:
  assumes "process_ok (Up rt)" "scope \<noteq> 0" "\<not> io InsertForgotten" "scope \<notin> durable_scopes (rt_store rt)"
    and "\<not> is_scope_forgotten (rt_registry rt) scope"
  shows "\<exists>rt1 rt2. forget_scope_state io now None scope rt = (Inl FfiEvidence, rt1)
    \<and> forget_scope_state io2 now2 None scope rt1 = (Inr (), rt2)
    \<and> scope \<notin> durable_scopes (rt_store rt2)
    \<and> (\<forall>rt3. open_store lib io3 now3 purged (rt_store rt2) = Inr rt3 \<longrightarrow> \<not> is_scope_forgotten (rt_registry rt3) scope)"
proof -
  obtain res rt1 where f: "runtime_forget_scope io now scope rt = (res, rt1)" by fastforce
  have ok: "registry_ok (rt_registry rt)"
    "is_scope_forgotten (rt_registry rt) scope \<Longrightarrow> get_scope_dek (rt_registry rt) scope = None"
    using assms(1) by (auto simp: process_ok_def registered_key_def)
  note v = runtime_forget_view [OF f ok]
  have "fst (persist_scope (evidence_tombstones io) now scope r st) \<noteq> Inr u" for r st u
    using assms(3) by (auto simp: persist_scope_def evidence_tombstones_sel tombstone_result_def
        record_forgotten_scope_at_def split: prod.splits sum.splits)
  then have res: "res = Inl FfiEvidence"
    using f assms(5)
    by (auto simp: runtime_forget_scope_def destroy_scope_dek_def Let_def split: prod.splits sum.splits) (metis fst_conv)+
  have f1: "forget_scope_state io now None scope rt = (Inl FfiEvidence, rt1)"
    using f res assms(2) by (simp add: forget_scope_state_def)
  note v1 = forget_state_view [OF f1 assms(1)]
  have forg: "is_scope_forgotten (rt_registry rt1) scope" using v(3) by simp
  have disk: "scope \<notin> durable_scopes (rt_store rt1)" using v(5) res assms(4) by simp
  obtain rt2 where f2: "forget_scope_state io2 now2 None scope rt1 = (Inr (), rt2)"
    using forg assms(2)
    by (simp add: forget_scope_state_def runtime_forget_scope_def destroy_scope_dek_def Let_def)
  note v2 = forget_state_view [OF f2 v1(1)]
  have disk2: "scope \<notin> durable_scopes (rt_store rt2)" using v2(6) forg disk by simp
  have rows: "distinct (map fst (ks_scope_deks (rt_store rt2)))"
    using v2(1) by (simp add: process_ok_def process_store_def store_rows_ok_def)
  have "\<not> is_scope_forgotten (rt_registry rt3) scope" if "open_store lib io3 now3 purged (rt_store rt2) = Inr rt3" for rt3
    by (rule open_store_view [OF that rows]) (use disk2 in simp)
  then show ?thesis using f1 f2 disk2 by blast
qed

text \<open>
  A scope's key survives a restart: the key \<open>ensure_scope_dek\<close> hands out, whether cached, stored,
  derived for an old database or freshly drawn, is the one registered for the scope after the store
  is opened again, unless the scope was forgotten.
\<close>

theorem scope_key_survives_restart:
  assumes "aead_ok lib" "kdf_ok lib" "keys_backed lib st" "store_rows_ok st"
    and "length nonce = aead_nonce_len" "length fresh = aead_key_len"
    and "ensure_scope_dek lib io nonce now fresh scope st = (Inr k, st')"
    and "open_store lib io2 now2 purged st' = Inr rt" "scope \<notin> durable_scopes st"
  shows "registered_key (rt_registry rt) scope = Some k"
proof -
  note b = ensure_scope_dek_backed [OF assms(1-3,5-7)]
  have rows: "durable_scopes st' = durable_scopes st" "distinct (map fst (ks_scope_deks st'))"
    using ensure_scope_dek_rows [OF assms(7)] assms(4) by (simp_all add: store_rows_ok_def)
  have key: "map_of deks scope = Some k" if "load_scope_deks lib io2 st' = Inr deks" for deks
    using loaded_backed [OF conjunct1 [OF b] conjunct2 [OF b] that] .
  show ?thesis by (rule open_store_view [OF assms(8) rows(2)]) (simp add: key rows(1) assms(9))
qed


text \<open>
  A deletion of the wrapped key that fails leaves the key in the store's cache for the rest of the
  process: the row is deleted first and the cache is only cleared after that succeeded.
\<close>

lemma failed_delete_keeps_cached_key:
  assumes "\<not> io DeleteDek" "forget_scope_state io now None scope rt = (res, rt')"
  shows "ks_scope_keys (rt_store rt') = ks_scope_keys (rt_store rt)"
proof -
  obtain dres r st where d: "destroy_scope_dek (Some (evidence_tombstones io)) now scope (rt_registry rt, rt_store rt) = (dres, r, st)"
    by (metis prod_cases3)
  have "ks_scope_keys st = ks_scope_keys (rt_store rt)" using destroy_scope_keys [OF d] by (simp add: same_keys_def)
  then show ?thesis using assms(1,2) d
    by (auto simp: forget_scope_state_def runtime_forget_scope_def delete_scope_dek_def delete_scope_dek_row_def Let_def
        split: sum.splits if_splits)
qed

section \<open>Witnesses\<close>

definition empty_key_store :: key_store where
  "empty_key_store = \<lparr>ks_master_key = [], ks_scope_deks = [], ks_forgotten_scopes = [], ks_epoch_tombstones = [],
     ks_scope_keys = [], ks_evidence_scopes = []\<rparr>"

definition sample_runtime :: ffi_runtime where
  "sample_runtime = \<lparr>rt_store = empty_key_store, rt_registry = dek_registry_new\<rparr>"

definition calm :: store_io where
  "calm = (\<lambda>_. True)"

lemma sample_ok: "process_ok (Up sample_runtime)" "\<not> is_scope_forgotten (rt_registry sample_runtime) 7"
  "durable_scopes (rt_store sample_runtime) = {}" "store_rows_ok empty_key_store" "keys_backed lib empty_key_store"
  by (simp_all add: process_ok_def process_store_def store_rows_ok_def sample_runtime_def empty_key_store_def dek_registry_new_def
      registry_ok_def is_scope_forgotten_def registered_key_def get_scope_dek_def durable_scopes_def keys_backed_def)

lemma sample_forget: "\<exists>rt1. forget_scope_state calm 5 None 7 sample_runtime = (Inr (), rt1)"
  by (simp add: forget_scope_state_def runtime_forget_scope_def destroy_scope_dek_def sample_runtime_def dek_registry_new_def
      is_scope_forgotten_def forget_in_memory_def destroy_scope_level_def bt_keys_def persist_scope_def scope_tombstones_def
      List.map_filter_def evidence_tombstones_sel tombstone_result_def record_forgotten_scope_at_def calm_def Let_def)


lemma retried_forget_is_not_durable_witness:
  "\<exists>rt1 rt2. forget_scope_state (\<lambda>c. c \<noteq> InsertForgotten) 5 None 7 sample_runtime = (Inl FfiEvidence, rt1)
    \<and> forget_scope_state calm 6 None 7 rt1 = (Inr (), rt2) \<and> 7 \<notin> durable_scopes (rt_store rt2)"
proof -
  let ?io = "\<lambda>c. c \<noteq> InsertForgotten"
  have h: "\<not> ?io InsertForgotten" "(7 :: uuid) \<noteq> 0" "7 \<notin> durable_scopes (rt_store sample_runtime)"
    using sample_ok(3) by simp_all
  show ?thesis
    using retried_forget_is_not_durable [of sample_runtime 7 ?io 5 calm 6] sample_ok(1,2) h by blast
qed

lemma open_store_exact_witness:
  "\<exists>rt. open_store tag_lib calm 5 True (empty_key_store\<lparr>ks_forgotten_scopes := [(7, 1)]\<rparr>) = Inr rt
    \<and> is_scope_forgotten (rt_registry rt) 7 \<and> registered_key (rt_registry rt) 7 = None"
proof -
  let ?st = "empty_key_store\<lparr>ks_forgotten_scopes := [(7, 1)]\<rparr>"
  have load: "load_scope_deks tag_lib calm ?st = Inr []"
    by (simp add: load_scope_deks_def dek_wrapping_key_def derive_key_def derive_key_with_salt_def tag_lib_def calm_def empty_key_store_def)
  obtain rt where op: "open_store tag_lib calm 5 True ?st = Inr rt"
    using load by (simp add: open_store_def load_forgotten_scopes_def load_epoch_tombstones_def calm_def Let_def)
  have "store_rows_ok ?st" by (simp add: store_rows_ok_def empty_key_store_def)
  from open_store_exact [OF op this load, of 7] show ?thesis using op by (simp add: durable_scopes_def)
qed

lemma sample_ensure:
  "\<exists>st'. ensure_scope_dek tag_lib calm (replicate aead_nonce_len 0) 1 (replicate aead_key_len 3) 7 empty_key_store
     = (Inr (replicate aead_key_len 3), st') \<and> (\<exists>rt. open_store tag_lib calm 5 True st' = Inr rt)"
  by (simp add: ensure_scope_dek_def dek_wrapping_key_def derive_key_def derive_key_with_salt_def tag_lib_def calm_def
      empty_key_store_def store_scope_dek_def encrypt_aead_def cache_insert_def open_store_def load_scope_deks_def
      unwrap_dek_def decrypt_aead_def load_forgotten_scopes_def load_epoch_tombstones_def Let_def)

lemma scope_key_survives_restart_witness:
  "\<exists>st' rt. ensure_scope_dek tag_lib calm (replicate aead_nonce_len 0) 1 (replicate aead_key_len 3) 7 empty_key_store
     = (Inr (replicate aead_key_len 3), st') \<and> open_store tag_lib calm 5 True st' = Inr rt
    \<and> registered_key (rt_registry rt) 7 = Some (replicate aead_key_len 3)"
proof -
  obtain st' rt where e: "ensure_scope_dek tag_lib calm (replicate aead_nonce_len 0) 1 (replicate aead_key_len 3) 7 empty_key_store
     = (Inr (replicate aead_key_len 3), st')" and op: "open_store tag_lib calm 5 True st' = Inr rt"
    using sample_ensure by blast
  have "7 \<notin> durable_scopes empty_key_store" by (simp add: durable_scopes_def empty_key_store_def)
  with scope_key_survives_restart [OF tag_lib_ok sample_ok(5,4) _ _ e op] show ?thesis using e op by simp
qed


end
