(* ===== verification/Synth_Election.thy ===== *)
theory Synth_Election
  imports Time_And_Float Crypto_Primitives "HOL-Library.Product_Lexorder" "HOL-Library.List_Lexorder"
begin

text \<open>
  The synthesizer election (\<^verbatim>\<open>synthesis_pipeline/src/election.rs\<close>) and the error type of the
  pipeline (\<^verbatim>\<open>error.rs\<close>). The candidate pool is a \<^verbatim>\<open>HashMap\<close>: a finite map with the iteration order
  of the host. Every reading of the clock is an argument. An instant counts nanoseconds.
\<close>

section \<open>Errors of the pipeline\<close>

datatype pipeline_error =
    InvalidWindow
  | InvalidWindowTransition
  | WindowNotFound uuid
  | ObjectNotFound uuid
  | NoEligibleSynthesizer
  | CandidateNotFound uuid
  | PipelineCrypto crypto_error
  | PipelineSerialisation string
  | HierarchyViolation string
  | SynthesisFailed string

section \<open>Candidates\<close>

definition default_battery_floor :: byte where
  "default_battery_floor = 20"

definition default_battery_defer_medium_floor :: byte where
  "default_battery_defer_medium_floor = 50"

definition default_heartbeat_ttl_secs :: int where
  "default_heartbeat_ttl_secs = 60 * 5"

definition duration_seconds :: "int \<Rightarrow> duration" where
  "duration_seconds n = n * nanos_per_sec"

datatype synthesizer_role = ElectedDevice | ManagedEndpoint | ConfidentialCompute

fun synthesizer_role_as_str :: "synthesizer_role \<Rightarrow> string" where
  "synthesizer_role_as_str ElectedDevice = ''elected_device''"
| "synthesizer_role_as_str ManagedEndpoint = ''managed_endpoint''"
| "synthesizer_role_as_str ConfidentialCompute = ''confidential_compute''"

datatype device_tier = TierLow | TierMedium | TierHigh

fun tier_rank :: "device_tier \<Rightarrow> byte" where
  "tier_rank TierLow = 0"
| "tier_rank TierMedium = 1"
| "tier_rank TierHigh = 2"

record election_candidate =
  ec_device_id :: uuid
  ec_tier :: device_tier
  ec_online :: bool
  ec_battery_pct :: byte
  ec_last_heartbeat :: instant
  ec_stepped_down :: bool
  ec_battery_defer_medium_floor :: byte

definition candidate_new :: "instant \<Rightarrow> uuid \<Rightarrow> device_tier \<Rightarrow> bool \<Rightarrow> byte \<Rightarrow> election_candidate" where
  "candidate_new now device_id tier online battery_pct =
     \<lparr>ec_device_id = device_id, ec_tier = tier, ec_online = online, ec_battery_pct = battery_pct,
      ec_last_heartbeat = now, ec_stepped_down = False,
      ec_battery_defer_medium_floor = default_battery_defer_medium_floor\<rparr>"

definition with_battery_defer_medium_floor :: "byte \<Rightarrow> election_candidate \<Rightarrow> election_candidate" where
  "with_battery_defer_medium_floor floor_pct c = c\<lparr>ec_battery_defer_medium_floor := floor_pct\<rparr>"

definition defers_medium_importance :: "election_candidate \<Rightarrow> bool" where
  "defers_medium_importance c \<longleftrightarrow> ec_battery_pct c < ec_battery_defer_medium_floor c"

definition candidate_is_eligible :: "instant \<Rightarrow> duration \<Rightarrow> byte \<Rightarrow> election_candidate \<Rightarrow> bool" where
  "candidate_is_eligible now ttl battery_floor c =
     (if ec_stepped_down c \<or> \<not> ec_online c then False
      else if ec_battery_pct c < battery_floor then False
      else if tier_rank (ec_tier c) < tier_rank TierMedium then False
      else now - ec_last_heartbeat c < ttl)"

section \<open>The election\<close>

record synthesizer_election =
  se_candidates :: "uuid \<rightharpoonup> election_candidate"
  se_elected :: "uuid option"
  se_heartbeat_ttl :: duration
  se_battery_floor :: byte

definition election_new :: synthesizer_election where
  "election_new = \<lparr>se_candidates = Map.empty, se_elected = None,
     se_heartbeat_ttl = duration_seconds default_heartbeat_ttl_secs,
     se_battery_floor = default_battery_floor\<rparr>"

definition with_heartbeat_ttl :: "duration \<Rightarrow> synthesizer_election \<Rightarrow> synthesizer_election" where
  "with_heartbeat_ttl ttl el = el\<lparr>se_heartbeat_ttl := ttl\<rparr>"

definition with_battery_floor :: "byte \<Rightarrow> synthesizer_election \<Rightarrow> synthesizer_election" where
  "with_battery_floor floor_pct el = el\<lparr>se_battery_floor := floor_pct\<rparr>"

definition register_candidate :: "election_candidate \<Rightarrow> synthesizer_election \<Rightarrow> synthesizer_election" where
  "register_candidate c el = el\<lparr>se_candidates := (se_candidates el)(ec_device_id c \<mapsto> c)\<rparr>"

type_synonym election_result = "(pipeline_error + unit) \<times> synthesizer_election"

definition heartbeat :: "instant \<Rightarrow> uuid \<Rightarrow> synthesizer_election \<Rightarrow> election_result" where
  "heartbeat now device_id el =
     (case se_candidates el device_id of
        None \<Rightarrow> (Inl (CandidateNotFound device_id), el)
      | Some c \<Rightarrow> (Inr (), el\<lparr>se_candidates := (se_candidates el)
          (device_id \<mapsto> c\<lparr>ec_last_heartbeat := now, ec_stepped_down := False\<rparr>)\<rparr>))"

definition clear_elected :: "uuid \<Rightarrow> synthesizer_election \<Rightarrow> synthesizer_election" where
  "clear_elected device_id el =
     (if se_elected el = Some device_id then el\<lparr>se_elected := None\<rparr> else el)"

definition step_down :: "uuid \<Rightarrow> synthesizer_election \<Rightarrow> election_result" where
  "step_down device_id el =
     (case se_candidates el device_id of
        None \<Rightarrow> (Inl (CandidateNotFound device_id), el)
      | Some c \<Rightarrow> (Inr (), clear_elected device_id
          (el\<lparr>se_candidates := (se_candidates el)(device_id \<mapsto> c\<lparr>ec_stepped_down := True\<rparr>)\<rparr>)))"

definition mark_offline :: "uuid \<Rightarrow> synthesizer_election \<Rightarrow> election_result" where
  "mark_offline device_id el =
     (case se_candidates el device_id of
        None \<Rightarrow> (Inl (CandidateNotFound device_id), el)
      | Some c \<Rightarrow> (Inr (), clear_elected device_id
          (el\<lparr>se_candidates := (se_candidates el)(device_id \<mapsto> c\<lparr>ec_online := False\<rparr>)\<rparr>)))"

definition is_synthesizer :: "uuid \<Rightarrow> synthesizer_election \<Rightarrow> bool" where
  "is_synthesizer device_id el \<longleftrightarrow> se_elected el = Some device_id"

text \<open>The values of the pool in the host's iteration order.\<close>

definition election_candidates :: "uuid host \<Rightarrow> synthesizer_election \<Rightarrow> election_candidate list" where
  "election_candidates h el =
     map (\<lambda>k. the (se_candidates el k)) (h_keys h (dom (se_candidates el)))"

text \<open>
  The comparison of \<^verbatim>\<open>elect\<close>: a chain of \<^verbatim>\<open>then\<close> is the lexicographic order of the compared values.
  \<^verbatim>\<open>Iterator::max_by\<close> keeps the later of two equal maxima.
\<close>

definition candidate_key :: "election_candidate \<Rightarrow> byte \<times> instant \<times> byte \<times> byte list" where
  "candidate_key c =
     (tier_rank (ec_tier c), ec_last_heartbeat c, ec_battery_pct c, uuid_bytes (ec_device_id c))"

fun max_by :: "('a \<Rightarrow> 'k::linorder) \<Rightarrow> 'a list \<Rightarrow> 'a option" where
  "max_by key [] = None"
| "max_by key (x # xs) = Some (fold (\<lambda>y best. if key y < key best then best else y) xs x)"

definition elect :: "uuid host \<Rightarrow> instant \<Rightarrow> synthesizer_election \<Rightarrow>
    (pipeline_error + uuid) \<times> synthesizer_election" where
  "elect h now el =
     (let best = map_option ec_device_id (max_by candidate_key
            (filter (candidate_is_eligible now (se_heartbeat_ttl el) (se_battery_floor el))
              (election_candidates h el)))
      in case best of
           Some i \<Rightarrow> (Inr i, el\<lparr>se_elected := Some i\<rparr>)
         | None \<Rightarrow> (Inl NoEligibleSynthesizer, el\<lparr>se_elected := None\<rparr>))"

lemmas election_defs = register_candidate_def heartbeat_def clear_elected_def step_down_def
  mark_offline_def elect_def

section \<open>Runs of the election\<close>

datatype election_event =
    ERegister election_candidate
  | EHeartbeat instant uuid
  | EStepDown uuid
  | EOffline uuid
  | EElect "uuid host" instant

fun election_exec :: "election_event \<Rightarrow> synthesizer_election \<Rightarrow> synthesizer_election" where
  "election_exec (ERegister c) el = register_candidate c el"
| "election_exec (EHeartbeat now d) el = snd (heartbeat now d el)"
| "election_exec (EStepDown d) el = snd (step_down d el)"
| "election_exec (EOffline d) el = snd (mark_offline d el)"
| "election_exec (EElect h now) el = snd (elect h now el)"

text \<open>The pool is finite and keyed by device id, and whoever is elected is registered.\<close>

definition election_ok :: "synthesizer_election \<Rightarrow> bool" where
  "election_ok el \<longleftrightarrow> finite (dom (se_candidates el)) \<and>
     (\<forall>k c. se_candidates el k = Some c \<longrightarrow> ec_device_id c = k) \<and>
     (\<forall>d. se_elected el = Some d \<longrightarrow> se_candidates el d \<noteq> None)"

text \<open>The event lets \<open>d\<close> back into the pool: its own heartbeat or a new registration.\<close>

fun readmits :: "uuid \<Rightarrow> election_event \<Rightarrow> bool" where
  "readmits d (ERegister c) = (ec_device_id c = d)"
| "readmits d (EHeartbeat _ k) = (k = d)"
| "readmits d _ = False"

fun event_host_ok :: "election_event \<Rightarrow> bool" where
  "event_host_ok (EElect h _) = host_ok h"
| "event_host_ok _ = True"

section \<open>Lemmas\<close>

lemma fold_max_in:
  "fold (\<lambda>y best. if key y < key best then best else y) xs x \<in> insert x (set xs)"
  by (induction xs arbitrary: x) (auto simp: Ball_def)

lemma fold_max_ge:
  fixes key :: "'a \<Rightarrow> 'k::linorder"
  shows "y \<in> insert x (set xs) \<Longrightarrow>
    key y \<le> key (fold (\<lambda>y best. if key y < key best then best else y) xs x)"
proof (induction xs arbitrary: x y)
  case (Cons z zs)
  let ?b = "if key z < key x then x else z"
  have "key x \<le> key ?b" "key z \<le> key ?b" by auto
  moreover have "key ?b \<le> key (fold (\<lambda>y best. if key y < key best then best else y) zs ?b)"
    by (rule Cons.IH) simp
  ultimately show ?case using Cons.prems Cons.IH [of y ?b] by auto
qed simp

lemma max_by_None [simp]: "max_by key xs = None \<longleftrightarrow> xs = []"
  by (cases xs) auto

lemma max_by_SomeD:
  "max_by key xs = Some m \<Longrightarrow> m \<in> set xs \<and> (\<forall>y \<in> set xs. key y \<le> key m)"
proof (cases xs)
  case (Cons z zs)
  assume "max_by key xs = Some m"
  then show ?thesis
    using Cons fold_max_in [of key zs z] fold_max_ge [of _ z zs key] by auto
qed simp

text \<open>Distinct keys make the maximum unique: it depends only on the set of the elements.\<close>

lemma max_by_set_cong:
  assumes "set xs = set ys" and "inj_on key (set xs)"
  shows "max_by key xs = max_by key ys"
proof (cases "max_by key xs")
  case None
  then show ?thesis using assms(1) by simp
next
  case (Some m)
  then obtain m' where m': "max_by key ys = Some m'"
    using assms(1) by (cases "max_by key ys") auto
  note a = max_by_SomeD [OF Some] and b = max_by_SomeD [OF m']
  have "key m = key m'"
    by (rule antisym) (use a b assms(1) in auto)
  then show ?thesis using a b assms Some m' by (auto dest: inj_onD)
qed

lemma set_election_candidates:
  "election_ok el \<Longrightarrow> host_ok h \<Longrightarrow> set (election_candidates h el) = ran (se_candidates el)"
  by (auto simp: election_ok_def election_candidates_def ran_def dom_def image_iff) (metis option.sel)

lemma inj_candidate_key:
  "election_ok el \<Longrightarrow> inj_on candidate_key (ran (se_candidates el))"
  by (rule inj_onI) (auto simp: election_ok_def candidate_key_def ran_def; metis option.inject)

lemma election_new_ok [simp]: "election_ok election_new"
  by (simp add: election_ok_def election_new_def)

text \<open>What \<^verbatim>\<open>elect\<close> picks, over the pool as a set.\<close>

definition eligible_set :: "instant \<Rightarrow> synthesizer_election \<Rightarrow> election_candidate set" where
  "eligible_set now el = {c \<in> ran (se_candidates el).
     candidate_is_eligible now (se_heartbeat_ttl el) (se_battery_floor el) c}"

lemma elect_Inr:
  assumes "election_ok el" and "host_ok h" and "fst (elect h now el) = Inr d"
  shows "\<exists>c \<in> eligible_set now el. se_candidates el d = Some c \<and>
    (\<forall>c' \<in> eligible_set now el. candidate_key c' \<le> candidate_key c)"
proof -
  obtain c where c: "max_by candidate_key
      (filter (candidate_is_eligible now (se_heartbeat_ttl el) (se_battery_floor el))
        (election_candidates h el)) = Some c" and d: "ec_device_id c = d"
    using assms(3) by (auto simp: elect_def Let_def split: option.splits)
  have "c \<in> eligible_set now el \<and> (\<forall>c' \<in> eligible_set now el. candidate_key c' \<le> candidate_key c)"
    using max_by_SomeD [OF c] by (auto simp: eligible_set_def set_election_candidates [OF assms(1,2)])
  moreover have "se_candidates el d = Some c"
    using calculation assms(1) d by (auto simp: eligible_set_def ran_def election_ok_def)
  ultimately show ?thesis by blast
qed

lemma elect_Inl:
  assumes "election_ok el" and "host_ok h"
  shows "fst (elect h now el) = Inl e \<longleftrightarrow> e = NoEligibleSynthesizer \<and> eligible_set now el = {}"
proof -
  have "set (filter (candidate_is_eligible now (se_heartbeat_ttl el) (se_battery_floor el))
      (election_candidates h el)) = eligible_set now el"
    by (auto simp: eligible_set_def set_election_candidates [OF assms])
  then have "filter (candidate_is_eligible now (se_heartbeat_ttl el) (se_battery_floor el))
      (election_candidates h el) = [] \<longleftrightarrow> eligible_set now el = {}"
    by (metis set_empty)
  then show ?thesis by (auto simp: elect_def Let_def split: option.split)
qed

lemma elect_state:
  "snd (elect h now el) = el\<lparr>se_elected := (case fst (elect h now el) of Inl _ \<Rightarrow> None | Inr d \<Rightarrow> Some d)\<rparr>"
  by (simp add: elect_def Let_def split: option.split)

lemma election_exec_ok:
  assumes "election_ok el" and "event_host_ok ev"
  shows "election_ok (election_exec ev el)"
proof (cases ev)
  case (EElect h now)
  show ?thesis
  proof (cases "fst (elect h now el)")
    case (Inr d)
    then show ?thesis
      using assms elect_Inr [of el h now d] EElect elect_state [of h now el]
      by (auto simp: election_ok_def)
  qed (use assms EElect elect_state [of h now el] in \<open>auto simp: election_ok_def\<close>)
qed (use assms in \<open>auto simp: election_ok_def election_defs split: option.splits if_splits\<close>)

text \<open>A device that is out of the pool stays out until it is let back in.\<close>

definition is_out :: "uuid \<Rightarrow> synthesizer_election \<Rightarrow> bool" where
  "is_out d el \<longleftrightarrow> se_elected el \<noteq> Some d \<and>
     (\<forall>c. se_candidates el d = Some c \<longrightarrow> ec_stepped_down c)"

lemma election_exec_out:
  assumes "election_ok el" and "event_host_ok ev" and "is_out d el" and "\<not> readmits d ev"
  shows "is_out d (election_exec ev el)"
proof (cases ev)
  case (EElect h now)
  have "fst (elect h now el) \<noteq> Inr d"
  proof
    assume "fst (elect h now el) = Inr d"
    then obtain c where "c \<in> eligible_set now el" "se_candidates el d = Some c"
      using elect_Inr assms(1,2) EElect by fastforce
    then show False using assms(3) by (auto simp: eligible_set_def is_out_def candidate_is_eligible_def)
  qed
  then show ?thesis
    using assms(3) EElect elect_state [of h now el] by (auto simp: is_out_def split: sum.splits)
qed (use assms in \<open>auto simp: is_out_def election_defs split: option.splits if_splits\<close>)

lemma election_run_out:
  assumes "election_ok el" and "is_out d el" and "\<forall>ev \<in> set evs. event_host_ok ev \<and> \<not> readmits d ev"
  shows "election_ok (fold election_exec evs el) \<and> is_out d (fold election_exec evs el)"
  using assms
proof (induction evs arbitrary: el)
  case (Cons ev evs)
  then show ?case using election_exec_ok [of el ev] election_exec_out [of el ev d] by simp
qed simp

lemma election_run_ok:
  assumes "election_ok el" and "\<forall>ev \<in> set evs. event_host_ok ev"
  shows "election_ok (fold election_exec evs el)"
  using assms
proof (induction evs arbitrary: el)
  case (Cons ev evs)
  then show ?case using election_exec_ok [of el ev] by simp
qed simp

section \<open>Properties\<close>

text \<open>
  After any run of registrations, heartbeats, departures and elections, an election elects a device
  exactly when one is eligible, and then it is the one eligible device that comes before every other
  in the documented order (tier, heartbeat, battery, id); the choice does not depend on the order in
  which the pool is iterated, so every member that holds the same pool elects the same device.
\<close>

theorem elect_picks_the_best:
  assumes "\<forall>ev \<in> set evs. event_host_ok ev" and "host_ok h" and "host_ok h2"
    and "el = fold election_exec evs election_new"
  shows "elect h now el = elect h2 now el \<and>
    (case fst (elect h now el) of
       Inl e \<Rightarrow> e = NoEligibleSynthesizer \<and> eligible_set now el = {} \<and> se_elected (snd (elect h now el)) = None
     | Inr d \<Rightarrow> is_synthesizer d (snd (elect h now el)) \<and>
         (\<exists>c \<in> eligible_set now el. ec_device_id c = d \<and>
           (\<forall>c' \<in> eligible_set now el. c' \<noteq> c \<longrightarrow> candidate_key c' < candidate_key c)))"
proof -
  have ok: "election_ok el" using assms(1,4) election_run_ok [OF election_new_ok] by simp
  let ?el = "candidate_is_eligible now (se_heartbeat_ttl el) (se_battery_floor el)"
  have same: "max_by candidate_key (filter ?el (election_candidates h el)) =
      max_by candidate_key (filter ?el (election_candidates h2 el))"
  proof (rule max_by_set_cong)
    show "inj_on candidate_key (set (filter ?el (election_candidates h el)))"
      by (rule inj_on_subset [OF inj_candidate_key [OF ok]])
        (auto simp: set_election_candidates [OF ok assms(2)])
  qed (use set_election_candidates [OF ok assms(2)] set_election_candidates [OF ok assms(3)] in auto)
  show ?thesis
  proof (cases "fst (elect h now el)")
    case (Inl e)
    then show ?thesis
      using elect_Inl [OF ok assms(2), of now e] elect_state [of h now el] same by (simp add: elect_def)
  next
    case (Inr d)
    then obtain c where c: "c \<in> eligible_set now el" "se_candidates el d = Some c"
        and best: "\<forall>c' \<in> eligible_set now el. candidate_key c' \<le> candidate_key c"
      using elect_Inr [OF ok assms(2)] by blast
    have "candidate_key c' < candidate_key c" if "c' \<in> eligible_set now el" "c' \<noteq> c" for c'
      using best c that inj_onD [OF inj_candidate_key [OF ok], of c' c]
      by (force simp: eligible_set_def less_le)
    moreover have "ec_device_id c = d" using ok c by (simp add: election_ok_def)
    ultimately show ?thesis
      using Inr c elect_state [of h now el] same
      by (auto simp: elect_def is_synthesizer_def)
  qed
qed

theorem elect_picks_the_best_witness:
  "let a = candidate_new 0 1 TierMedium True 90; b = candidate_new 0 2 TierHigh True 40;
       c = candidate_new 0 3 TierHigh True 10;
       el = fold election_exec [ERegister a, ERegister b, ERegister c, EHeartbeat 5 1] election_new
   in (case fst (elect sorted_host 10 el) of
       Inl e \<Rightarrow> e = NoEligibleSynthesizer \<and> eligible_set 10 el = {} \<and> se_elected (snd (elect sorted_host 10 el)) = None
     | Inr d \<Rightarrow> is_synthesizer d (snd (elect sorted_host 10 el)) \<and>
         (\<exists>c \<in> eligible_set 10 el. ec_device_id c = d \<and>
           (\<forall>c' \<in> eligible_set 10 el. c' \<noteq> c \<longrightarrow> candidate_key c' < candidate_key c)))"
  unfolding Let_def
  by (rule elect_picks_the_best [THEN conjunct2, OF _ sorted_host_ok sorted_host_ok refl]) simp

text \<open>
  A device that steps down is not elected again, whatever else happens in the pool, until it sends a
  heartbeat or is registered anew.
\<close>

theorem step_down_is_respected:
  assumes "\<forall>ev \<in> set before. event_host_ok ev"
    and "\<forall>ev \<in> set after. event_host_ok ev \<and> \<not> readmits d ev"
  shows "\<not> is_synthesizer d (fold election_exec (before @ EStepDown d # after) election_new)"
proof -
  let ?el = "fold election_exec before election_new"
  have ok: "election_ok ?el" by (rule election_run_ok [OF election_new_ok assms(1)])
  have "is_out d (election_exec (EStepDown d) ?el)"
  proof (cases "se_candidates ?el d")
    case None
    then have "se_elected ?el \<noteq> Some d" using ok by (auto simp: election_ok_def)
    then show ?thesis using None by (simp add: is_out_def step_down_def)
  qed (simp add: is_out_def step_down_def clear_elected_def)
  then show ?thesis
    using election_run_out [OF election_exec_ok [OF ok, of "EStepDown d"] _ assms(2)]
    by (simp add: is_out_def is_synthesizer_def)
qed

theorem step_down_is_respected_witness:
  "\<not> is_synthesizer 1 (fold election_exec
     ([ERegister (candidate_new 0 1 TierHigh True 90), EElect sorted_host 1] @ EStepDown 1 #
      [EElect sorted_host 2, EHeartbeat 3 2, EElect sorted_host 4]) election_new)"
  by (rule step_down_is_respected) auto

text \<open>
  The heartbeat that keeps a device alive also revokes its step-down: a device that stepped down and
  goes on sending heartbeats is elected again.
\<close>

lemma heartbeat_revokes_step_down:
  "is_synthesizer 1 (fold election_exec
     [ERegister (candidate_new 0 1 TierHigh True 90), EElect sorted_host 1, EStepDown 1,
      EHeartbeat 2 1, EElect sorted_host 3] election_new)"
  by (simp add: election_defs election_new_def candidate_new_def is_synthesizer_def election_candidates_def
      candidate_is_eligible_def default_battery_floor_def duration_seconds_def default_heartbeat_ttl_secs_def
      nanos_per_sec_def)

text \<open>
  A stale election: nothing but a departure or the next \<^verbatim>\<open>elect\<close> clears the role, so a device whose
  heartbeat has expired is still reported as the synthesizer although it is no longer eligible.
\<close>

lemma elected_may_be_stale:
  "let el = fold election_exec [ERegister (candidate_new 0 1 TierHigh True 90), EElect sorted_host 1] election_new
   in is_synthesizer 1 el \<and> eligible_set (duration_seconds 600) el = {}"
  by (simp add: election_defs election_new_def candidate_new_def is_synthesizer_def election_candidates_def
      candidate_is_eligible_def default_battery_floor_def duration_seconds_def default_heartbeat_ttl_secs_def
      nanos_per_sec_def eligible_set_def ran_def)

end
