(* ===== verification/Scope_Memory.thy ===== *)
theory Scope_Memory
  imports Channel_Memory
begin

text \<open>
  The upper two containers of the memory hierarchy: the domain memory object
  (\<^verbatim>\<open>memory_manager/src/domain_memory.rs\<close>) and the tenant memory object
  (\<^verbatim>\<open>memory_manager/src/tenant_memory.rs\<close>). Each call of \<^verbatim>\<open>Utc::now\<close> and of \<^verbatim>\<open>Uuid::new_v4\<close> is an
  argument. The sweep of a domain is the loop \<open>sweep_items\<close> of the channel memory.
\<close>

section \<open>Domain items\<close>

definition default_completed_workstream_ttl_days :: int where
  "default_completed_workstream_ttl_days = 60"

definition default_resolved_risk_ttl_days :: int where
  "default_resolved_risk_ttl_days = 60"

record workstream =
  ws_memory :: memory_object
  ws_text :: string
  ws_owner :: "string option"
  ws_completed_at :: "instant option"

definition workstream_new :: "uuid \<Rightarrow> instant \<Rightarrow> uuid \<Rightarrow> string \<Rightarrow> workstream" where
  "workstream_new fresh now scope_id text1 =
     \<lparr>ws_memory = new_candidate fresh now scope_id Important, ws_text = text1, ws_owner = None,
      ws_completed_at = None\<rparr>"

definition with_owner :: "string \<Rightarrow> workstream \<Rightarrow> workstream" where
  "with_owner owner w = w\<lparr>ws_owner := Some owner\<rparr>"

definition workstream_is_complete :: "workstream \<Rightarrow> bool" where
  "workstream_is_complete w \<longleftrightarrow> ws_completed_at w \<noteq> None"

record dependency =
  dp_memory :: memory_object
  dp_text :: string
  dp_resolved_at :: "instant option"

definition dependency_new :: "uuid \<Rightarrow> instant \<Rightarrow> uuid \<Rightarrow> string \<Rightarrow> dependency" where
  "dependency_new fresh now scope_id text1 =
     \<lparr>dp_memory = new_candidate fresh now scope_id Important, dp_text = text1, dp_resolved_at = None\<rparr>"

definition dependency_is_resolved :: "dependency \<Rightarrow> bool" where
  "dependency_is_resolved d \<longleftrightarrow> dp_resolved_at d \<noteq> None"

record risk =
  rk_memory :: memory_object
  rk_text :: string
  rk_resolved_at :: "instant option"

definition risk_new :: "uuid \<Rightarrow> instant \<Rightarrow> uuid \<Rightarrow> string \<Rightarrow> risk" where
  "risk_new fresh now scope_id text1 =
     \<lparr>rk_memory = new_candidate fresh now scope_id Important, rk_text = text1, rk_resolved_at = None\<rparr>"

definition risk_is_resolved :: "risk \<Rightarrow> bool" where
  "risk_is_resolved r \<longleftrightarrow> rk_resolved_at r \<noteq> None"

record procedure =
  pc_memory :: memory_object
  pc_text :: string
  pc_deprecated_at :: "instant option"

definition procedure_new :: "uuid \<Rightarrow> instant \<Rightarrow> uuid \<Rightarrow> string \<Rightarrow> procedure" where
  "procedure_new fresh now scope_id text1 =
     \<lparr>pc_memory = new_candidate fresh now scope_id Critical, pc_text = text1, pc_deprecated_at = None\<rparr>"

definition procedure_is_deprecated :: "procedure \<Rightarrow> bool" where
  "procedure_is_deprecated p \<longleftrightarrow> pc_deprecated_at p \<noteq> None"

section \<open>Domain memory\<close>

record domain_memory =
  dm_id :: uuid
  dm_scope_id :: uuid
  dm_recap :: string
  dm_workstreams :: "workstream list"
  dm_dependencies :: "dependency list"
  dm_risks :: "risk list"
  dm_procedures :: "procedure list"
  dm_channel_scopes :: "uuid list"
  dm_last_synthesis_window :: "uuid option"
  dm_created_at :: instant
  dm_updated_at :: instant

record domain_decay_report =
  dr_workstreams_archived :: nat
  dr_risks_archived :: nat
  dr_dependencies_archived :: nat

definition domain_new :: "uuid \<Rightarrow> instant \<Rightarrow> uuid \<Rightarrow> domain_memory" where
  "domain_new fresh now scope_id = \<lparr>dm_id = fresh, dm_scope_id = scope_id, dm_recap = [],
     dm_workstreams = [], dm_dependencies = [], dm_risks = [], dm_procedures = [],
     dm_channel_scopes = [], dm_last_synthesis_window = None, dm_created_at = now,
     dm_updated_at = now\<rparr>"

definition domain_update_recap :: "instant \<Rightarrow> string \<Rightarrow> uuid option \<Rightarrow> domain_memory \<Rightarrow> domain_memory" where
  "domain_update_recap now recap window dm =
     dm\<lparr>dm_recap := recap, dm_last_synthesis_window := window, dm_updated_at := now\<rparr>"

definition attach_channel_scope :: "instant \<Rightarrow> uuid \<Rightarrow> domain_memory \<Rightarrow> domain_memory" where
  "attach_channel_scope now channel dm =
     (if channel \<notin> set (dm_channel_scopes dm)
      then dm\<lparr>dm_channel_scopes := dm_channel_scopes dm @ [channel], dm_updated_at := now\<rparr> else dm)"

definition add_workstream :: "instant \<Rightarrow> workstream \<Rightarrow> domain_memory \<Rightarrow> uuid \<times> domain_memory" where
  "add_workstream now w dm =
     (mo_id (ws_memory w), dm\<lparr>dm_workstreams := dm_workstreams dm @ [w], dm_updated_at := now\<rparr>)"

definition add_dependency :: "instant \<Rightarrow> dependency \<Rightarrow> domain_memory \<Rightarrow> uuid \<times> domain_memory" where
  "add_dependency now d dm =
     (mo_id (dp_memory d), dm\<lparr>dm_dependencies := dm_dependencies dm @ [d], dm_updated_at := now\<rparr>)"

definition add_risk :: "instant \<Rightarrow> risk \<Rightarrow> domain_memory \<Rightarrow> uuid \<times> domain_memory" where
  "add_risk now r dm =
     (mo_id (rk_memory r), dm\<lparr>dm_risks := dm_risks dm @ [r], dm_updated_at := now\<rparr>)"

definition add_procedure :: "instant \<Rightarrow> procedure \<Rightarrow> domain_memory \<Rightarrow> uuid \<times> domain_memory" where
  "add_procedure now p dm =
     (mo_id (pc_memory p), dm\<lparr>dm_procedures := dm_procedures dm @ [p], dm_updated_at := now\<rparr>)"

definition touch :: "instant \<Rightarrow> memory_object \<Rightarrow> memory_object" where
  "touch now mem = mem\<lparr>mo_last_accessed_at := now\<rparr>"

definition complete_workstream ::
  "instant \<Rightarrow> instant \<Rightarrow> instant \<Rightarrow> uuid \<Rightarrow> domain_memory \<Rightarrow> (memory_error + unit) \<times> domain_memory" where
  "complete_workstream now1 now2 now3 workstream_id dm =
     (case modify_first (\<lambda>w. mo_id (ws_memory w) = workstream_id)
             (\<lambda>w. ((), w\<lparr>ws_completed_at := Some now1, ws_memory := touch now2 (ws_memory w)\<rparr>))
             (dm_workstreams dm) of
        None \<Rightarrow> (Inl (MemoryNotFound workstream_id), dm)
      | Some (_, ws) \<Rightarrow> (Inr (), dm\<lparr>dm_workstreams := ws, dm_updated_at := now3\<rparr>))"

definition resolve_dependency ::
  "instant \<Rightarrow> instant \<Rightarrow> instant \<Rightarrow> uuid \<Rightarrow> domain_memory \<Rightarrow> (memory_error + unit) \<times> domain_memory" where
  "resolve_dependency now1 now2 now3 dependency_id dm =
     (case modify_first (\<lambda>d. mo_id (dp_memory d) = dependency_id)
             (\<lambda>d. ((), d\<lparr>dp_resolved_at := Some now1, dp_memory := touch now2 (dp_memory d)\<rparr>))
             (dm_dependencies dm) of
        None \<Rightarrow> (Inl (MemoryNotFound dependency_id), dm)
      | Some (_, ds) \<Rightarrow> (Inr (), dm\<lparr>dm_dependencies := ds, dm_updated_at := now3\<rparr>))"

definition resolve_risk ::
  "instant \<Rightarrow> instant \<Rightarrow> instant \<Rightarrow> uuid \<Rightarrow> domain_memory \<Rightarrow> (memory_error + unit) \<times> domain_memory" where
  "resolve_risk now1 now2 now3 risk_id dm =
     (case modify_first (\<lambda>r. mo_id (rk_memory r) = risk_id)
             (\<lambda>r. ((), r\<lparr>rk_resolved_at := Some now1, rk_memory := touch now2 (rk_memory r)\<rparr>))
             (dm_risks dm) of
        None \<Rightarrow> (Inl (MemoryNotFound risk_id), dm)
      | Some (_, rs) \<Rightarrow> (Inr (), dm\<lparr>dm_risks := rs, dm_updated_at := now3\<rparr>))"

definition deprecate_procedure ::
  "instant \<Rightarrow> instant \<Rightarrow> instant \<Rightarrow> uuid \<Rightarrow> domain_memory \<Rightarrow> (memory_error + unit) \<times> domain_memory" where
  "deprecate_procedure now1 now2 now3 procedure_id dm =
     (case modify_first (\<lambda>p. mo_id (pc_memory p) = procedure_id)
             (\<lambda>p. ((), p\<lparr>pc_deprecated_at := Some now1, pc_memory := touch now2 (pc_memory p)\<rparr>))
             (dm_procedures dm) of
        None \<Rightarrow> (Inl (MemoryNotFound procedure_id), dm)
      | Some (_, ps) \<Rightarrow> (Inr (), dm\<lparr>dm_procedures := ps, dm_updated_at := now3\<rparr>))"

definition list_active_workstreams :: "domain_memory \<Rightarrow> workstream list" where
  "list_active_workstreams dm = filter (\<lambda>w. \<not> workstream_is_complete w) (dm_workstreams dm)"

definition list_open_dependencies :: "domain_memory \<Rightarrow> dependency list" where
  "list_open_dependencies dm = filter (\<lambda>d. \<not> dependency_is_resolved d) (dm_dependencies dm)"

definition list_open_risks :: "domain_memory \<Rightarrow> risk list" where
  "list_open_risks dm = filter (\<lambda>r. \<not> risk_is_resolved r) (dm_risks dm)"

definition list_active_procedures :: "domain_memory \<Rightarrow> procedure list" where
  "list_active_procedures dm = filter (\<lambda>p. \<not> procedure_is_deprecated p) (dm_procedures dm)"

definition domain_decay_sweep_with ::
  "instant \<Rightarrow> duration \<Rightarrow> duration \<Rightarrow> duration \<Rightarrow> domain_memory \<Rightarrow> domain_decay_report \<times> domain_memory" where
  "domain_decay_sweep_with now completed_workstream_ttl resolved_risk_ttl resolved_dependency_ttl dm0 =
     (case sweep_items (\<lambda>w. item_due (ws_completed_at w) now completed_workstream_ttl (ws_memory w))
             (dm_workstreams dm0) [] 0 of (keep_workstreams, nw) \<Rightarrow>
      (case sweep_items (\<lambda>r. item_due (rk_resolved_at r) now resolved_risk_ttl (rk_memory r))
             (dm_risks dm0) [] 0 of (keep_risks, nr) \<Rightarrow>
      (case sweep_items (\<lambda>d. item_due (dp_resolved_at d) now resolved_dependency_ttl (dp_memory d))
             (dm_dependencies dm0) [] 0 of (keep_dependencies, nd) \<Rightarrow>
        (let report = \<lparr>dr_workstreams_archived = nw, dr_risks_archived = nr, dr_dependencies_archived = nd\<rparr>;
             dm = dm0\<lparr>dm_workstreams := keep_workstreams, dm_risks := keep_risks,
                      dm_dependencies := keep_dependencies\<rparr>
         in (report,
             if 0 < dr_workstreams_archived report \<or> 0 < dr_risks_archived report
                \<or> 0 < dr_dependencies_archived report
             then dm\<lparr>dm_updated_at := now\<rparr> else dm)))))"

definition domain_decay_sweep :: "instant \<Rightarrow> domain_memory \<Rightarrow> domain_decay_report \<times> domain_memory" where
  "domain_decay_sweep now dm =
     domain_decay_sweep_with now (duration_days default_completed_workstream_ttl_days)
       (duration_days default_resolved_risk_ttl_days) (duration_days default_resolved_risk_ttl_days) dm"

section \<open>Tenant memory\<close>

datatype tenant_memory_error =
    TenantItemNotFound uuid
  | NotCritical sensitivity_class
  | PassiveDecayForbidden

record canonical_policy =
  cp_memory :: memory_object
  cp_text :: string
  cp_deprecated_at :: "instant option"
  cp_superseded_by :: "uuid option"

definition canonical_policy_new :: "uuid \<Rightarrow> instant \<Rightarrow> uuid \<Rightarrow> string \<Rightarrow> canonical_policy" where
  "canonical_policy_new fresh now scope_id text1 =
     \<lparr>cp_memory = new_candidate fresh now scope_id Critical, cp_text = text1, cp_deprecated_at = None,
      cp_superseded_by = None\<rparr>"

definition policy_is_deprecated :: "canonical_policy \<Rightarrow> bool" where
  "policy_is_deprecated p \<longleftrightarrow> cp_deprecated_at p \<noteq> None"

record product_taxonomy_entry =
  te_memory :: memory_object
  te_label :: string
  te_parent :: "uuid option"
  te_deprecated_at :: "instant option"

definition taxonomy_entry_new :: "uuid \<Rightarrow> instant \<Rightarrow> uuid \<Rightarrow> string \<Rightarrow> product_taxonomy_entry" where
  "taxonomy_entry_new fresh now scope_id label =
     \<lparr>te_memory = new_candidate fresh now scope_id Critical, te_label = label, te_parent = None,
      te_deprecated_at = None\<rparr>"

definition with_parent :: "uuid \<Rightarrow> product_taxonomy_entry \<Rightarrow> product_taxonomy_entry" where
  "with_parent parent e = e\<lparr>te_parent := Some parent\<rparr>"

definition entry_is_deprecated :: "product_taxonomy_entry \<Rightarrow> bool" where
  "entry_is_deprecated e \<longleftrightarrow> te_deprecated_at e \<noteq> None"

record stable_org_knowledge =
  sk_memory :: memory_object
  sk_text :: string
  sk_deprecated_at :: "instant option"
  sk_superseded_by :: "uuid option"

definition stable_fact_new :: "uuid \<Rightarrow> instant \<Rightarrow> uuid \<Rightarrow> string \<Rightarrow> stable_org_knowledge" where
  "stable_fact_new fresh now scope_id text1 =
     \<lparr>sk_memory = new_candidate fresh now scope_id Critical, sk_text = text1, sk_deprecated_at = None,
      sk_superseded_by = None\<rparr>"

definition fact_is_deprecated :: "stable_org_knowledge \<Rightarrow> bool" where
  "fact_is_deprecated f \<longleftrightarrow> sk_deprecated_at f \<noteq> None"

record approved_document_ref =
  ad_id :: uuid
  ad_label :: string
  ad_approved_at :: instant
  ad_approver :: string

definition approved_document_ref_new :: "uuid \<Rightarrow> instant \<Rightarrow> string \<Rightarrow> string \<Rightarrow> approved_document_ref" where
  "approved_document_ref_new fresh now label approver =
     \<lparr>ad_id = fresh, ad_label = label, ad_approved_at = now, ad_approver = approver\<rparr>"

record tenant_memory =
  tm_id :: uuid
  tm_scope_id :: uuid
  tm_summary :: string
  tm_policies :: "canonical_policy list"
  tm_taxonomy :: "product_taxonomy_entry list"
  tm_stable_facts :: "stable_org_knowledge list"
  tm_domain_scopes :: "uuid list"
  tm_approved_documents :: "approved_document_ref list"
  tm_last_synthesis_window :: "uuid option"
  tm_created_at :: instant
  tm_updated_at :: instant

definition tenant_memory_new :: "uuid \<Rightarrow> instant \<Rightarrow> uuid \<Rightarrow> tenant_memory" where
  "tenant_memory_new fresh now scope_id = \<lparr>tm_id = fresh, tm_scope_id = scope_id, tm_summary = [],
     tm_policies = [], tm_taxonomy = [], tm_stable_facts = [], tm_domain_scopes = [],
     tm_approved_documents = [], tm_last_synthesis_window = None, tm_created_at = now,
     tm_updated_at = now\<rparr>"

definition update_summary :: "instant \<Rightarrow> string \<Rightarrow> uuid option \<Rightarrow> tenant_memory \<Rightarrow> tenant_memory" where
  "update_summary now summary window tm =
     tm\<lparr>tm_summary := summary, tm_last_synthesis_window := window, tm_updated_at := now\<rparr>"

definition attach_domain_scope :: "instant \<Rightarrow> uuid \<Rightarrow> tenant_memory \<Rightarrow> tenant_memory" where
  "attach_domain_scope now domain tm =
     (if domain \<notin> set (tm_domain_scopes tm)
      then tm\<lparr>tm_domain_scopes := tm_domain_scopes tm @ [domain], tm_updated_at := now\<rparr> else tm)"

definition admit_approved_document :: "instant \<Rightarrow> approved_document_ref \<Rightarrow> tenant_memory \<Rightarrow> tenant_memory" where
  "admit_approved_document now doc tm =
     (if \<not> (\<exists>d \<in> set (tm_approved_documents tm). ad_id d = ad_id doc)
      then tm\<lparr>tm_approved_documents := tm_approved_documents tm @ [doc], tm_updated_at := now\<rparr> else tm)"

definition revoke_approved_document ::
  "instant \<Rightarrow> uuid \<Rightarrow> tenant_memory \<Rightarrow> (tenant_memory_error + unit) \<times> tenant_memory" where
  "revoke_approved_document now doc_id tm =
     (let kept = filter (\<lambda>d. ad_id d \<noteq> doc_id) (tm_approved_documents tm);
          tm1 = tm\<lparr>tm_approved_documents := kept\<rparr>
      in if length kept = length (tm_approved_documents tm) then (Inl (TenantItemNotFound doc_id), tm1)
         else (Inr (), tm1\<lparr>tm_updated_at := now\<rparr>))"

definition require_critical :: "memory_object \<Rightarrow> tenant_memory_error + unit" where
  "require_critical mem =
     (if mo_sensitivity_class mem \<noteq> Critical then Inl (NotCritical (mo_sensitivity_class mem)) else Inr ())"

definition add_policy ::
  "instant \<Rightarrow> canonical_policy \<Rightarrow> tenant_memory \<Rightarrow> (tenant_memory_error + uuid) \<times> tenant_memory" where
  "add_policy now p tm =
     (case require_critical (cp_memory p) of
        Inl e \<Rightarrow> (Inl e, tm)
      | Inr _ \<Rightarrow> (Inr (mo_id (cp_memory p)), tm\<lparr>tm_policies := tm_policies tm @ [p], tm_updated_at := now\<rparr>))"

definition add_taxonomy_entry ::
  "instant \<Rightarrow> product_taxonomy_entry \<Rightarrow> tenant_memory \<Rightarrow> (tenant_memory_error + uuid) \<times> tenant_memory" where
  "add_taxonomy_entry now e tm =
     (case require_critical (te_memory e) of
        Inl err \<Rightarrow> (Inl err, tm)
      | Inr _ \<Rightarrow> (Inr (mo_id (te_memory e)), tm\<lparr>tm_taxonomy := tm_taxonomy tm @ [e], tm_updated_at := now\<rparr>))"

definition add_stable_fact ::
  "instant \<Rightarrow> stable_org_knowledge \<Rightarrow> tenant_memory \<Rightarrow> (tenant_memory_error + uuid) \<times> tenant_memory" where
  "add_stable_fact now f tm =
     (case require_critical (sk_memory f) of
        Inl e \<Rightarrow> (Inl e, tm)
      | Inr _ \<Rightarrow> (Inr (mo_id (sk_memory f)), tm\<lparr>tm_stable_facts := tm_stable_facts tm @ [f], tm_updated_at := now\<rparr>))"

text \<open>The write to the inner memory object when an item is deprecated.\<close>

definition deprecate_inner :: "instant \<Rightarrow> uuid option \<Rightarrow> memory_object \<Rightarrow> memory_object" where
  "deprecate_inner now superseded_by mem =
     (case superseded_by of None \<Rightarrow> touch now mem
      | Some s \<Rightarrow> (touch now mem)\<lparr>mo_superseded_by := Some s\<rparr>)"

definition deprecate_policy :: "instant \<Rightarrow> instant \<Rightarrow> instant \<Rightarrow> uuid \<Rightarrow> uuid option \<Rightarrow> tenant_memory \<Rightarrow>
    (tenant_memory_error + unit) \<times> tenant_memory" where
  "deprecate_policy now1 now2 now3 policy_id superseded_by tm =
     (case modify_first (\<lambda>p. mo_id (cp_memory p) = policy_id)
             (\<lambda>p. ((), p\<lparr>cp_deprecated_at := Some now1, cp_superseded_by := superseded_by,
                cp_memory := deprecate_inner now2 superseded_by (cp_memory p)\<rparr>))
             (tm_policies tm) of
        None \<Rightarrow> (Inl (TenantItemNotFound policy_id), tm)
      | Some (_, ps) \<Rightarrow> (Inr (), tm\<lparr>tm_policies := ps, tm_updated_at := now3\<rparr>))"

definition deprecate_taxonomy_entry :: "instant \<Rightarrow> instant \<Rightarrow> instant \<Rightarrow> uuid \<Rightarrow> tenant_memory \<Rightarrow>
    (tenant_memory_error + unit) \<times> tenant_memory" where
  "deprecate_taxonomy_entry now1 now2 now3 entry_id tm =
     (case modify_first (\<lambda>e. mo_id (te_memory e) = entry_id)
             (\<lambda>e. ((), e\<lparr>te_deprecated_at := Some now1, te_memory := touch now2 (te_memory e)\<rparr>))
             (tm_taxonomy tm) of
        None \<Rightarrow> (Inl (TenantItemNotFound entry_id), tm)
      | Some (_, es) \<Rightarrow> (Inr (), tm\<lparr>tm_taxonomy := es, tm_updated_at := now3\<rparr>))"

definition deprecate_stable_fact :: "instant \<Rightarrow> instant \<Rightarrow> instant \<Rightarrow> uuid \<Rightarrow> uuid option \<Rightarrow> tenant_memory \<Rightarrow>
    (tenant_memory_error + unit) \<times> tenant_memory" where
  "deprecate_stable_fact now1 now2 now3 fact_id superseded_by tm =
     (case modify_first (\<lambda>f. mo_id (sk_memory f) = fact_id)
             (\<lambda>f. ((), f\<lparr>sk_deprecated_at := Some now1, sk_superseded_by := superseded_by,
                sk_memory := deprecate_inner now2 superseded_by (sk_memory f)\<rparr>))
             (tm_stable_facts tm) of
        None \<Rightarrow> (Inl (TenantItemNotFound fact_id), tm)
      | Some (_, fs) \<Rightarrow> (Inr (), tm\<lparr>tm_stable_facts := fs, tm_updated_at := now3\<rparr>))"

definition list_active_policies :: "tenant_memory \<Rightarrow> canonical_policy list" where
  "list_active_policies tm = filter (\<lambda>p. \<not> policy_is_deprecated p) (tm_policies tm)"

definition list_active_taxonomy :: "tenant_memory \<Rightarrow> product_taxonomy_entry list" where
  "list_active_taxonomy tm = filter (\<lambda>e. \<not> entry_is_deprecated e) (tm_taxonomy tm)"

definition list_active_stable_facts :: "tenant_memory \<Rightarrow> stable_org_knowledge list" where
  "list_active_stable_facts tm = filter (\<lambda>f. \<not> fact_is_deprecated f) (tm_stable_facts tm)"

definition try_passive_decay :: "tenant_memory \<Rightarrow> tenant_memory_error + unit" where
  "try_passive_decay tm = Inl PassiveDecayForbidden"

section \<open>Runs of tenant memory\<close>

datatype tenant_command =
    TSummary instant string "uuid option"
  | TAttach instant uuid
  | TAdmit instant approved_document_ref
  | TRevoke instant uuid
  | TPolicy instant canonical_policy
  | TTaxonomy instant product_taxonomy_entry
  | TFact instant stable_org_knowledge
  | TDropPolicy instant instant instant uuid "uuid option"
  | TDropTaxonomy instant instant instant uuid
  | TDropFact instant instant instant uuid "uuid option"

fun institutional_exec :: "tenant_command \<Rightarrow> tenant_memory \<Rightarrow> tenant_memory" where
  "institutional_exec (TSummary now s w) tm = update_summary now s w tm"
| "institutional_exec (TAttach now d) tm = attach_domain_scope now d tm"
| "institutional_exec (TAdmit now d) tm = admit_approved_document now d tm"
| "institutional_exec (TRevoke now d) tm = snd (revoke_approved_document now d tm)"
| "institutional_exec (TPolicy now p) tm = snd (add_policy now p tm)"
| "institutional_exec (TTaxonomy now e) tm = snd (add_taxonomy_entry now e tm)"
| "institutional_exec (TFact now f) tm = snd (add_stable_fact now f tm)"
| "institutional_exec (TDropPolicy a b c i s) tm = snd (deprecate_policy a b c i s tm)"
| "institutional_exec (TDropTaxonomy a b c i) tm = snd (deprecate_taxonomy_entry a b c i tm)"
| "institutional_exec (TDropFact a b c i s) tm = snd (deprecate_stable_fact a b c i s tm)"

lemmas tenant_defs = update_summary_def attach_domain_scope_def admit_approved_document_def
  revoke_approved_document_def add_policy_def add_taxonomy_entry_def add_stable_fact_def
  require_critical_def deprecate_policy_def deprecate_taxonomy_entry_def deprecate_stable_fact_def

text \<open>
  What a container promises of its items: every position of the old list is still there, with the
  same identity and class, and a deprecation is never undone.
\<close>

definition items_kept :: "('i \<Rightarrow> memory_object) \<Rightarrow> ('i \<Rightarrow> bool) \<Rightarrow> 'i list \<Rightarrow> 'i list \<Rightarrow> bool" where
  "items_kept mem dropped xs ys \<longleftrightarrow> length xs \<le> length ys \<and>
     (\<forall>i < length xs. mo_id (mem (ys ! i)) = mo_id (mem (xs ! i)) \<and>
        mo_sensitivity_class (mem (ys ! i)) = mo_sensitivity_class (mem (xs ! i)) \<and>
        mo_state (mem (ys ! i)) = mo_state (mem (xs ! i)) \<and>
        (dropped (xs ! i) \<longrightarrow> dropped (ys ! i)))"

definition tenant_kept :: "tenant_memory \<Rightarrow> tenant_memory \<Rightarrow> bool" where
  "tenant_kept a b \<longleftrightarrow>
     items_kept cp_memory policy_is_deprecated (tm_policies a) (tm_policies b) \<and>
     items_kept te_memory entry_is_deprecated (tm_taxonomy a) (tm_taxonomy b) \<and>
     items_kept sk_memory fact_is_deprecated (tm_stable_facts a) (tm_stable_facts b)"

definition tenant_critical :: "tenant_memory \<Rightarrow> bool" where
  "tenant_critical tm \<longleftrightarrow>
     (\<forall>p \<in> set (tm_policies tm). mo_sensitivity_class (cp_memory p) = Critical) \<and>
     (\<forall>e \<in> set (tm_taxonomy tm). mo_sensitivity_class (te_memory e) = Critical) \<and>
     (\<forall>f \<in> set (tm_stable_facts tm). mo_sensitivity_class (sk_memory f) = Critical)"

definition tenant_inputs_ok :: "tenant_memory \<Rightarrow> bool" where
  "tenant_inputs_ok tm \<longleftrightarrow> distinct (tm_domain_scopes tm) \<and> distinct (map ad_id (tm_approved_documents tm))"

section \<open>Lemmas\<close>

lemma items_kept_refl [simp]: "items_kept mem dropped xs xs"
  by (simp add: items_kept_def)

lemma items_kept_append [simp]: "items_kept mem dropped xs (xs @ ys)"
  by (simp add: items_kept_def nth_append)

lemma items_kept_trans:
  "items_kept mem dropped xs ys \<Longrightarrow> items_kept mem dropped ys zs \<Longrightarrow> items_kept mem dropped xs zs"
  unfolding items_kept_def by force

lemma modify_first_all:
  assumes "modify_first p f xs = Some (r, ys)" and "\<forall>x \<in> set xs. P x" and "\<forall>x. P x \<longrightarrow> P (snd (f x))"
  shows "\<forall>y \<in> set ys. P y"
proof -
  obtain us x vs y where "xs = us @ x # vs" "f x = (r, y)" "ys = us @ y # vs"
    using modify_first_SomeE [OF assms(1)] by metis
  moreover have "P (snd (f x))" using assms(2,3) calculation(1) by simp
  ultimately show ?thesis using assms(2) by auto
qed

lemma items_kept_modify:
  assumes "modify_first p f xs = Some (r, ys)"
    and "\<And>x. mo_id (mem (snd (f x))) = mo_id (mem x) \<and> mo_state (mem (snd (f x))) = mo_state (mem x) \<and>
      mo_sensitivity_class (mem (snd (f x))) = mo_sensitivity_class (mem x) \<and> dropped (snd (f x))"
  shows "items_kept mem dropped xs ys"
  using assms(1)
proof (induction xs arbitrary: ys)
  case (Cons x xs)
  show ?case
  proof (cases "p x")
    case True
    then have "ys = snd (f x) # xs" using Cons.prems by (auto split: prod.splits)
    then show ?thesis using assms(2) [of x] by (auto simp: items_kept_def nth_Cons split: nat.splits)
  next
    case False
    then obtain zs where "modify_first p f xs = Some (r, zs)" "ys = x # zs"
      using Cons.prems by (auto split: option.splits prod.splits)
    then show ?thesis using Cons.IH [of zs] by (auto simp: items_kept_def nth_Cons split: nat.splits)
  qed
qed simp

lemma deprecate_inner_sel [simp]:
  "mo_id (deprecate_inner now s m) = mo_id m" "mo_state (deprecate_inner now s m) = mo_state m"
  "mo_sensitivity_class (deprecate_inner now s m) = mo_sensitivity_class m"
  by (simp_all add: deprecate_inner_def touch_def split: option.split)

lemma touch_sel [simp]:
  "mo_id (touch now m) = mo_id m" "mo_state (touch now m) = mo_state m"
  "mo_sensitivity_class (touch now m) = mo_sensitivity_class m"
  by (simp_all add: touch_def)

lemmas deprecated_defs = policy_is_deprecated_def entry_is_deprecated_def fact_is_deprecated_def

lemma institutional_exec_kept: "tenant_kept tm (institutional_exec c tm)"
proof (cases c)
  case (TDropPolicy a b d i s)
  then show ?thesis
    by (auto simp: tenant_kept_def deprecate_policy_def deprecated_defs split: option.split elim: items_kept_modify)
next
  case (TDropTaxonomy a b d i)
  then show ?thesis
    by (auto simp: tenant_kept_def deprecate_taxonomy_entry_def deprecated_defs split: option.split elim: items_kept_modify)
next
  case (TDropFact a b d i s)
  then show ?thesis
    by (auto simp: tenant_kept_def deprecate_stable_fact_def deprecated_defs split: option.split elim: items_kept_modify)
qed (simp_all add: tenant_kept_def tenant_defs Let_def)

lemma tenant_run_kept: "tenant_kept tm (fold institutional_exec cs tm)"
proof (induction cs arbitrary: tm)
  case (Cons c cs)
  from institutional_exec_kept [of tm c] Cons [of "institutional_exec c tm"] show ?case
    by (auto simp: tenant_kept_def intro: items_kept_trans)
qed (simp add: tenant_kept_def)

lemma modify_first_case:
  assumes "\<forall>x \<in> set xs. P x" and "\<forall>x. P x \<longrightarrow> P (snd (f x))" and "Q tm"
    and "\<And>ys. \<forall>y \<in> set ys. P y \<Longrightarrow> Q (upd ys)"
  shows "Q (snd (case modify_first p f xs of None \<Rightarrow> (e, tm) | Some (_, ys) \<Rightarrow> (r, upd ys)))"
proof (cases "modify_first p f xs")
  case (Some v)
  then obtain a ys where "v = (a, ys)" "modify_first p f xs = Some (a, ys)" by (cases v) auto
  then show ?thesis using modify_first_all [OF _ assms(1,2)] assms(4) by simp
qed (simp add: assms(3))

lemma institutional_exec_critical:
  assumes "tenant_critical tm"
  shows "tenant_critical (institutional_exec c tm)"
proof (cases c)
  case (TDropPolicy a b d i s)
  show ?thesis
    unfolding TDropPolicy institutional_exec.simps deprecate_policy_def
    by (rule modify_first_case [where P = "\<lambda>p. mo_sensitivity_class (cp_memory p) = Critical"])
      (use assms in \<open>simp_all add: tenant_critical_def\<close>)
next
  case (TDropTaxonomy a b d i)
  show ?thesis
    unfolding TDropTaxonomy institutional_exec.simps deprecate_taxonomy_entry_def
    by (rule modify_first_case [where P = "\<lambda>p. mo_sensitivity_class (te_memory p) = Critical"])
      (use assms in \<open>simp_all add: tenant_critical_def\<close>)
next
  case (TDropFact a b d i s)
  show ?thesis
    unfolding TDropFact institutional_exec.simps deprecate_stable_fact_def
    by (rule modify_first_case [where P = "\<lambda>p. mo_sensitivity_class (sk_memory p) = Critical"])
      (use assms in \<open>simp_all add: tenant_critical_def\<close>)
qed (use assms in \<open>simp_all add: tenant_critical_def tenant_defs Let_def\<close>)

lemma institutional_exec_inputs: "tenant_inputs_ok tm \<Longrightarrow> tenant_inputs_ok (institutional_exec c tm)"
  by (cases c) (auto simp: tenant_inputs_ok_def tenant_defs Let_def distinct_map_filter
      split: option.split sum.split)

lemma tenant_run_ok:
  "tenant_critical tm \<and> tenant_inputs_ok tm \<Longrightarrow>
    tenant_critical (fold institutional_exec cs tm) \<and> tenant_inputs_ok (fold institutional_exec cs tm)"
  by (induction cs arbitrary: tm) (simp_all add: institutional_exec_critical institutional_exec_inputs)

section \<open>Properties\<close>

text \<open>
  Institutional memory does not decay: over any run of operations on a tenant memory every item is
  of the critical class (which the decay sweeps exempt), no item is ever lost, moved or given
  another lifecycle state, a deprecation is never undone, and no scope or document is registered
  twice.
\<close>

theorem institutional_memory_only_deprecated:
  "let tm = fold institutional_exec cs1 (tenant_memory_new fresh now scope); tm2 = fold institutional_exec cs2 tm in
     tenant_critical tm2 \<and> tenant_inputs_ok tm2 \<and> tenant_kept tm tm2 \<and>
     try_passive_decay tm2 = Inl PassiveDecayForbidden"
proof -
  have "tenant_critical (tenant_memory_new fresh now scope) \<and> tenant_inputs_ok (tenant_memory_new fresh now scope)"
    by (simp add: tenant_memory_new_def tenant_critical_def tenant_inputs_ok_def)
  from tenant_run_ok [OF tenant_run_ok [OF this], of cs2 cs1] show ?thesis
    by (simp add: Let_def tenant_run_kept try_passive_decay_def)
qed

text \<open>
  The sweep of a domain keeps, in order, exactly the items that are open, were closed less than
  their time to live ago, or are already archived; it counts the others and drops them. Nothing that
  is still open is lost, and procedures and the input contract are untouched.
\<close>

theorem domain_sweep_exact:
  assumes "length (dm_workstreams dm) \<le> u64_max" and "length (dm_risks dm) \<le> u64_max"
    and "length (dm_dependencies dm) \<le> u64_max"
  shows "let out = domain_decay_sweep_with now wttl rttl dttl dm; dm1 = snd out; r = fst out in
    dm_workstreams dm1 = filter (\<lambda>w. \<not> item_due (ws_completed_at w) now wttl (ws_memory w)) (dm_workstreams dm) \<and>
    dm_risks dm1 = filter (\<lambda>x. \<not> item_due (rk_resolved_at x) now rttl (rk_memory x)) (dm_risks dm) \<and>
    dm_dependencies dm1 = filter (\<lambda>d. \<not> item_due (dp_resolved_at d) now dttl (dp_memory d)) (dm_dependencies dm) \<and>
    length (dm_workstreams dm) = length (dm_workstreams dm1) + dr_workstreams_archived r \<and>
    length (dm_risks dm) = length (dm_risks dm1) + dr_risks_archived r \<and>
    length (dm_dependencies dm) = length (dm_dependencies dm1) + dr_dependencies_archived r \<and>
    list_active_workstreams dm1 = list_active_workstreams dm \<and> list_open_risks dm1 = list_open_risks dm \<and>
    list_open_dependencies dm1 = list_open_dependencies dm \<and>
    dm_procedures dm1 = dm_procedures dm \<and> dm_channel_scopes dm1 = dm_channel_scopes dm"
proof -
  let ?w = "\<lambda>w. item_due (ws_completed_at w) now wttl (ws_memory w)"
  let ?r = "\<lambda>x. item_due (rk_resolved_at x) now rttl (rk_memory x)"
  let ?d = "\<lambda>d. item_due (dp_resolved_at d) now dttl (dp_memory d)"
  have out: "domain_decay_sweep_with now wttl rttl dttl dm =
     (let nw = length (filter ?w (dm_workstreams dm)); nr = length (filter ?r (dm_risks dm));
          nd = length (filter ?d (dm_dependencies dm));
          dm1 = dm\<lparr>dm_workstreams := filter (\<lambda>x. \<not> ?w x) (dm_workstreams dm),
            dm_risks := filter (\<lambda>x. \<not> ?r x) (dm_risks dm),
            dm_dependencies := filter (\<lambda>x. \<not> ?d x) (dm_dependencies dm)\<rparr>
      in (\<lparr>dr_workstreams_archived = nw, dr_risks_archived = nr, dr_dependencies_archived = nd\<rparr>,
          if 0 < nw \<or> 0 < nr \<or> 0 < nd then dm1\<lparr>dm_updated_at := now\<rparr> else dm1))"
    using assms by (simp add: domain_decay_sweep_with_def sweep_items_filter Let_def)
  have split: "length (filter (\<lambda>x. \<not> p x) xs) + length (filter p xs) = length xs" for p :: "'i \<Rightarrow> bool" and xs
    using sum_length_filter_compl [of p xs] by simp
  have w: "filter (\<lambda>w. \<not> workstream_is_complete w \<and> \<not> ?w w) xs = filter (\<lambda>w. \<not> workstream_is_complete w) xs" for xs
    by (rule filter_cong) (auto simp: workstream_is_complete_def item_due_def)
  have r: "filter (\<lambda>x. \<not> risk_is_resolved x \<and> \<not> ?r x) xs = filter (\<lambda>x. \<not> risk_is_resolved x) xs" for xs
    by (rule filter_cong) (auto simp: risk_is_resolved_def item_due_def)
  have d: "filter (\<lambda>x. \<not> dependency_is_resolved x \<and> \<not> ?d x) xs = filter (\<lambda>x. \<not> dependency_is_resolved x) xs" for xs
    by (rule filter_cong) (auto simp: dependency_is_resolved_def item_due_def)
  show ?thesis
    using split [of ?w "dm_workstreams dm"] split [of ?r "dm_risks dm"] split [of ?d "dm_dependencies dm"]
    unfolding out Let_def
    by (auto simp: list_active_workstreams_def list_open_risks_def list_open_dependencies_def w r d conj_commute)
qed

theorem domain_sweep_exact_witness:
  "let w = (workstream_new 1 0 9 ''launch'')\<lparr>ws_completed_at := Some 0\<rparr>;
       dm = snd (add_workstream 0 w (domain_new 8 0 9)); out = domain_decay_sweep (duration_days 60) dm
   in dm_workstreams (snd out) = [] \<and> dr_workstreams_archived (fst out) = 1"
proof -
  let ?w = "(workstream_new 1 0 9 ''launch'')\<lparr>ws_completed_at := Some 0\<rparr>"
  let ?dm = "snd (add_workstream 0 ?w (domain_new 8 0 9))"
  have "length (dm_workstreams ?dm) \<le> u64_max" "length (dm_risks ?dm) \<le> u64_max"
      "length (dm_dependencies ?dm) \<le> u64_max"
    by (simp_all add: add_workstream_def domain_new_def u64_max_def)
  from domain_sweep_exact [OF this, of "duration_days 60" "duration_days 60" "duration_days 60" "duration_days 60"]
  show ?thesis
    by (simp add: Let_def add_workstream_def domain_new_def workstream_new_def item_due_def new_candidate_def
        domain_decay_sweep_def default_completed_workstream_ttl_days_def default_resolved_risk_ttl_days_def)
qed

end
