(* ===== verification/Synth_Window.thy ===== *)
theory Synth_Window
  imports Synth_Election Scope_Memory
begin

text \<open>
  Synthesis windows, objects, the hierarchy rules and the encrypted envelope
  (\<^verbatim>\<open>synthesis_pipeline/src\<close>: \<^verbatim>\<open>window.rs\<close>, \<^verbatim>\<open>object.rs\<close>, \<^verbatim>\<open>hierarchy.rs\<close>, \<^verbatim>\<open>publish.rs\<close>). Identifiers
  drawn by \<^verbatim>\<open>new_v4\<close>, clock readings and nonces are arguments; \<^verbatim>\<open>serde_json\<close> is a codec parameter.
\<close>

abbreviation show_uuid :: "uuid \<Rightarrow> string" where
  "show_uuid \<equiv> Time_And_Float.uuid_display"

section \<open>Windows\<close>

datatype window_status = WPending | WInProgress | WComplete | WFailed

fun window_status_as_str :: "window_status \<Rightarrow> string" where
  "window_status_as_str WPending = ''pending''"
| "window_status_as_str WInProgress = ''in_progress''"
| "window_status_as_str WComplete = ''complete''"
| "window_status_as_str WFailed = ''failed''"

definition window_is_terminal :: "window_status \<Rightarrow> bool" where
  "window_is_terminal s \<longleftrightarrow> s = WComplete"

datatype window_scope_tier = ChannelTier | DomainTier | TenantTier

fun window_scope_tier_as_str :: "window_scope_tier \<Rightarrow> string" where
  "window_scope_tier_as_str ChannelTier = ''channel''"
| "window_scope_tier_as_str DomainTier = ''domain''"
| "window_scope_tier_as_str TenantTier = ''tenant''"

text \<open>The derived \<^verbatim>\<open>Debug\<close> form.\<close>

fun window_scope_tier_debug :: "window_scope_tier \<Rightarrow> string" where
  "window_scope_tier_debug ChannelTier = ''Channel''"
| "window_scope_tier_debug DomainTier = ''Domain''"
| "window_scope_tier_debug TenantTier = ''Tenant''"

record synthesis_window =
  sw_id :: uuid
  sw_scope_id :: uuid
  sw_window_start :: instant
  sw_window_end :: instant
  sw_status :: window_status
  sw_tier :: "window_scope_tier option"
  sw_created_at :: "instant option"

definition synthesis_window_new ::
  "uuid \<Rightarrow> instant \<Rightarrow> uuid \<Rightarrow> instant \<Rightarrow> instant \<Rightarrow> pipeline_error + synthesis_window" where
  "synthesis_window_new fresh now scope_id window_start window_end =
     (if window_end \<le> window_start then Inl InvalidWindow
      else Inr \<lparr>sw_id = fresh, sw_scope_id = scope_id, sw_window_start = window_start,
        sw_window_end = window_end, sw_status = WPending, sw_tier = None, sw_created_at = Some now\<rparr>)"

definition rolling_window ::
  "uuid \<Rightarrow> instant \<Rightarrow> uuid \<Rightarrow> instant \<Rightarrow> duration \<Rightarrow> pipeline_error + synthesis_window" where
  "rolling_window fresh created scope_id now dur = synthesis_window_new fresh created scope_id (now - dur) now"

definition window_duration :: "synthesis_window \<Rightarrow> duration" where
  "window_duration w = sw_window_end w - sw_window_start w"

section \<open>The window manager\<close>

record window_manager =
  wm_windows :: "uuid \<rightharpoonup> synthesis_window"
  wm_by_scope :: "uuid \<rightharpoonup> uuid list"

definition window_manager_new :: window_manager where
  "window_manager_new = \<lparr>wm_windows = Map.empty, wm_by_scope = Map.empty\<rparr>"

definition window_manager_len :: "window_manager \<Rightarrow> nat" where
  "window_manager_len m = card (dom (wm_windows m))"

definition window_manager_is_empty :: "window_manager \<Rightarrow> bool" where
  "window_manager_is_empty m \<longleftrightarrow> dom (wm_windows m) = {}"

definition open_window :: "uuid \<Rightarrow> instant \<Rightarrow> uuid \<Rightarrow> instant \<Rightarrow> instant \<Rightarrow> window_manager \<Rightarrow>
    (pipeline_error + uuid) \<times> window_manager" where
  "open_window fresh now scope_id window_start window_end m =
     (case synthesis_window_new fresh now scope_id window_start window_end of
        Inl e \<Rightarrow> (Inl e, m)
      | Inr w \<Rightarrow> (Inr (sw_id w),
          m\<lparr>wm_windows := (wm_windows m)(sw_id w \<mapsto> w),
            wm_by_scope := (wm_by_scope m)
              (scope_id \<mapsto> or_empty_list (wm_by_scope m scope_id) @ [sw_id w])\<rparr>))"

definition get_window :: "uuid \<Rightarrow> window_manager \<Rightarrow> synthesis_window option" where
  "get_window i m = wm_windows m i"

definition windows_for :: "uuid \<Rightarrow> window_manager \<Rightarrow> synthesis_window list" where
  "windows_for scope_id m =
     (case wm_by_scope m scope_id of None \<Rightarrow> []
      | Some ids \<Rightarrow> List.map_filter (wm_windows m) ids)"

definition tracked_scopes :: "uuid host \<Rightarrow> window_manager \<Rightarrow> uuid list" where
  "tracked_scopes h m = h_keys h (dom (wm_by_scope m))"

text \<open>
  \<^verbatim>\<open>find_mut\<close> followed by an update of the window it borrows: the update fails or writes one window.
\<close>

definition find_mut :: "uuid \<Rightarrow> (synthesis_window \<Rightarrow> pipeline_error + synthesis_window) \<Rightarrow>
    window_manager \<Rightarrow> (pipeline_error + unit) \<times> window_manager" where
  "find_mut i f m =
     (case wm_windows m i of
        None \<Rightarrow> (Inl (WindowNotFound i), m)
      | Some w \<Rightarrow> (case f w of Inl e \<Rightarrow> (Inl e, m)
          | Inr w1 \<Rightarrow> (Inr (), m\<lparr>wm_windows := (wm_windows m)(i \<mapsto> w1)\<rparr>)))"

definition set_tier ::
  "uuid \<Rightarrow> window_scope_tier \<Rightarrow> window_manager \<Rightarrow> (pipeline_error + unit) \<times> window_manager" where
  "set_tier i tier m = find_mut i (\<lambda>w. Inr (w\<lparr>sw_tier := Some tier\<rparr>)) m"

definition mark_in_progress :: "uuid \<Rightarrow> window_manager \<Rightarrow> (pipeline_error + unit) \<times> window_manager" where
  "mark_in_progress i m = find_mut i (\<lambda>w. case sw_status w of
       WPending \<Rightarrow> Inr (w\<lparr>sw_status := WInProgress\<rparr>)
     | WFailed \<Rightarrow> Inr (w\<lparr>sw_status := WInProgress\<rparr>)
     | _ \<Rightarrow> Inl InvalidWindowTransition) m"

definition mark_complete :: "uuid \<Rightarrow> window_manager \<Rightarrow> (pipeline_error + unit) \<times> window_manager" where
  "mark_complete i m = find_mut i (\<lambda>w. case sw_status w of
       WInProgress \<Rightarrow> Inr (w\<lparr>sw_status := WComplete\<rparr>)
     | _ \<Rightarrow> Inl InvalidWindowTransition) m"

definition mark_failed :: "uuid \<Rightarrow> window_manager \<Rightarrow> (pipeline_error + unit) \<times> window_manager" where
  "mark_failed i m = find_mut i (\<lambda>w. case sw_status w of
       WInProgress \<Rightarrow> Inr (w\<lparr>sw_status := WFailed\<rparr>)
     | _ \<Rightarrow> Inl InvalidWindowTransition) m"

definition mark_replay_pending :: "uuid \<Rightarrow> window_manager \<Rightarrow> (pipeline_error + unit) \<times> window_manager" where
  "mark_replay_pending i m = find_mut i (\<lambda>w. case sw_status w of
       WComplete \<Rightarrow> Inr (w\<lparr>sw_status := WPending\<rparr>)
     | _ \<Rightarrow> Inl InvalidWindowTransition) m"

text \<open>The loop of \<^verbatim>\<open>sweep_stuck_pending\<close>, over the keys in the host's order.\<close>

fun sweep_windows :: "instant \<Rightarrow> duration \<Rightarrow> uuid list \<Rightarrow> (uuid \<rightharpoonup> synthesis_window) \<Rightarrow> uuid list \<Rightarrow>
    uuid list \<times> (uuid \<rightharpoonup> synthesis_window)" where
  "sweep_windows now threshold [] ws swept = (swept, ws)"
| "sweep_windows now threshold (k # ks) ws swept =
     (case ws k of None \<Rightarrow> sweep_windows now threshold ks ws swept
      | Some w \<Rightarrow>
        if sw_status w \<noteq> WPending then sweep_windows now threshold ks ws swept
        else (case sw_created_at w of None \<Rightarrow> sweep_windows now threshold ks ws swept
          | Some created \<Rightarrow>
            if threshold < now - created
            then sweep_windows now threshold ks (ws(k \<mapsto> w\<lparr>sw_status := WFailed\<rparr>)) (swept @ [sw_id w])
            else sweep_windows now threshold ks ws swept))"

definition sweep_stuck_pending ::
  "uuid host \<Rightarrow> instant \<Rightarrow> duration \<Rightarrow> window_manager \<Rightarrow> uuid list \<times> window_manager" where
  "sweep_stuck_pending h now threshold m =
     (case sweep_windows now threshold (h_keys h (dom (wm_windows m))) (wm_windows m) [] of
        (swept, ws) \<Rightarrow> (swept, m\<lparr>wm_windows := ws\<rparr>))"

definition remove_windows_for_scope :: "uuid \<Rightarrow> window_manager \<Rightarrow> window_manager" where
  "remove_windows_for_scope scope_id m =
     (case wm_by_scope m scope_id of None \<Rightarrow> m
      | Some ids \<Rightarrow> m\<lparr>wm_by_scope := (wm_by_scope m)(scope_id := None),
          wm_windows := fold (\<lambda>i ws. ws(i := None)) ids (wm_windows m)\<rparr>)"

definition remove_windows :: "uuid \<Rightarrow> uuid set \<Rightarrow> window_manager \<Rightarrow> window_manager" where
  "remove_windows scope_id removed m =
     (if removed = {} then m
      else let m1 = (case wm_by_scope m scope_id of None \<Rightarrow> m
               | Some ids \<Rightarrow> let kept = filter (\<lambda>i. i \<notin> removed) ids
                   in m\<lparr>wm_by_scope := (wm_by_scope m)
                        (scope_id := (if kept = [] then None else Some kept))\<rparr>)
           in m1\<lparr>wm_windows := wm_windows m1 |` (- removed)\<rparr>)"

section \<open>Synthesis objects\<close>

datatype synthesis_object_type = EpisodicSummary | ChannelRecap | DomainSummary | TenantSummary

fun synthesis_object_type_as_str :: "synthesis_object_type \<Rightarrow> string" where
  "synthesis_object_type_as_str EpisodicSummary = ''episodic_summary''"
| "synthesis_object_type_as_str ChannelRecap = ''channel_recap''"
| "synthesis_object_type_as_str DomainSummary = ''domain_summary''"
| "synthesis_object_type_as_str TenantSummary = ''tenant_summary''"

record synthesis_object =
  so_id :: uuid
  so_scope_id :: uuid
  so_window_id :: uuid
  so_object_type :: synthesis_object_type
  so_payload :: "byte list"
  so_provenance_ref :: uuid
  so_created_at :: instant
  so_supersedes :: "uuid option"
  so_version :: "32 word"

definition default_synthesis_object_version :: "32 word" where
  "default_synthesis_object_version = 1"

definition synthesis_object_with_version :: "uuid \<Rightarrow> instant \<Rightarrow> uuid \<Rightarrow> uuid \<Rightarrow> synthesis_object_type \<Rightarrow>
    byte list \<Rightarrow> uuid \<Rightarrow> 32 word \<Rightarrow> synthesis_object" where
  "synthesis_object_with_version fresh now scope_id window_id object_type payload provenance_ref version =
     \<lparr>so_id = fresh, so_scope_id = scope_id, so_window_id = window_id, so_object_type = object_type,
      so_payload = payload, so_provenance_ref = provenance_ref, so_created_at = now,
      so_supersedes = None, so_version = version\<rparr>"

definition synthesis_object_new :: "uuid \<Rightarrow> instant \<Rightarrow> uuid \<Rightarrow> uuid \<Rightarrow> synthesis_object_type \<Rightarrow>
    byte list \<Rightarrow> uuid \<Rightarrow> synthesis_object" where
  "synthesis_object_new fresh now scope_id window_id object_type payload provenance_ref =
     synthesis_object_with_version fresh now scope_id window_id object_type payload provenance_ref
       default_synthesis_object_version"

definition with_supersedes :: "uuid \<Rightarrow> synthesis_object \<Rightarrow> synthesis_object" where
  "with_supersedes predecessor obj = obj\<lparr>so_supersedes := Some predecessor\<rparr>"

section \<open>Hierarchy\<close>

record channel_output =
  co_object :: synthesis_object
  co_channel_scope :: uuid

definition from_channel_object :: "synthesis_object \<Rightarrow> pipeline_error + channel_output" where
  "from_channel_object obj =
     (if so_object_type obj \<noteq> ChannelRecap
      then Inl (HierarchyViolation
        (''expected channel_recap synthesis object, got '' @ synthesis_object_type_as_str (so_object_type obj)))
      else Inr \<lparr>co_object = obj, co_channel_scope = so_scope_id obj\<rparr>)"

record domain_output =
  do_object :: synthesis_object
  do_domain_scope :: uuid

definition from_domain_object :: "synthesis_object \<Rightarrow> pipeline_error + domain_output" where
  "from_domain_object obj =
     (if so_object_type obj \<noteq> DomainSummary
      then Inl (HierarchyViolation
        (''expected domain_summary synthesis object, got '' @ synthesis_object_type_as_str (so_object_type obj)))
      else Inr \<lparr>do_object = obj, do_domain_scope = so_scope_id obj\<rparr>)"

record domain_synthesis_input =
  di_domain_scope :: uuid
  di_channel_outputs :: "channel_output list"
  di_assembled_at :: instant

text \<open>The loops of the constructors stop at the first output that is not registered.\<close>

fun first_error :: "('a \<Rightarrow> pipeline_error option) \<Rightarrow> 'a list \<Rightarrow> pipeline_error option" where
  "first_error check [] = None"
| "first_error check (x # xs) = (case check x of Some e \<Rightarrow> Some e | None \<Rightarrow> first_error check xs)"

definition domain_input_new ::
  "instant \<Rightarrow> domain_memory \<Rightarrow> channel_output list \<Rightarrow> pipeline_error + domain_synthesis_input" where
  "domain_input_new now domain channel_outputs =
     (case first_error (\<lambda>out. if co_channel_scope out \<notin> set (dm_channel_scopes domain)
          then Some (HierarchyViolation (''channel scope '' @ show_uuid (co_channel_scope out) @
            '' is not registered on domain '' @ show_uuid (dm_scope_id domain))) else None) channel_outputs of
        Some e \<Rightarrow> Inl e
      | None \<Rightarrow> Inr \<lparr>di_domain_scope = dm_scope_id domain, di_channel_outputs = channel_outputs,
          di_assembled_at = now\<rparr>)"

definition reject_raw_channel_memory :: "channel_memory \<Rightarrow> pipeline_error + domain_synthesis_input" where
  "reject_raw_channel_memory cm = Inl (HierarchyViolation
     (''domain synthesis cannot consume raw ChannelMemoryObject; '' @
      ''feed channel-recap SynthesisObject outputs instead''))"

record approved_document =
  doc_reference :: approved_document_ref
  doc_payload :: "byte list"

definition approved_document_new :: "approved_document_ref \<Rightarrow> byte list \<Rightarrow> approved_document" where
  "approved_document_new ref payload = \<lparr>doc_reference = ref, doc_payload = payload\<rparr>"

record tenant_synthesis_input =
  ti_tenant_scope :: uuid
  ti_domain_outputs :: "domain_output list"
  ti_approved_documents :: "approved_document list"
  ti_assembled_at :: instant

definition tenant_input_new :: "instant \<Rightarrow> tenant_memory \<Rightarrow> domain_output list \<Rightarrow> approved_document list \<Rightarrow>
    pipeline_error + tenant_synthesis_input" where
  "tenant_input_new now tenant domain_outputs approved_documents =
     (case first_error (\<lambda>out. if do_domain_scope out \<notin> set (tm_domain_scopes tenant)
          then Some (HierarchyViolation (''domain scope '' @ show_uuid (do_domain_scope out) @
            '' is not registered on tenant '' @ show_uuid (tm_scope_id tenant))) else None) domain_outputs of
        Some e \<Rightarrow> Inl e
      | None \<Rightarrow>
        (case first_error (\<lambda>d. if \<not> (\<exists>a \<in> set (tm_approved_documents tenant). ad_id a = ad_id (doc_reference d))
            then Some (HierarchyViolation (''approved document '' @ show_uuid (ad_id (doc_reference d)) @
              '' is not admitted on tenant '' @ show_uuid (tm_scope_id tenant))) else None) approved_documents of
           Some e \<Rightarrow> Inl e
         | None \<Rightarrow> Inr \<lparr>ti_tenant_scope = tm_scope_id tenant, ti_domain_outputs = domain_outputs,
             ti_approved_documents = approved_documents, ti_assembled_at = now\<rparr>))"

definition reject_channel_object :: "synthesis_object \<Rightarrow> pipeline_error + tenant_synthesis_input" where
  "reject_channel_object obj = Inl (HierarchyViolation
     (''tenant synthesis cannot consume '' @ synthesis_object_type_as_str (so_object_type obj) @
      '' synthesis objects; channel outputs must first be folded into a domain summary''))"

record tiered_window_handle =
  th_window_id :: uuid
  th_scope_id :: uuid
  th_tier :: window_scope_tier

text \<open>A failed \<^verbatim>\<open>set_tier\<close> only trips a debug assertion; the release build ignores it.\<close>

definition open_tiered_window :: "uuid \<Rightarrow> instant \<Rightarrow> uuid \<Rightarrow> window_scope_tier \<Rightarrow> instant \<Rightarrow> instant \<Rightarrow>
    window_manager \<Rightarrow> (pipeline_error + tiered_window_handle) \<times> window_manager" where
  "open_tiered_window fresh now scope_id tier window_start window_end m =
     (case open_window fresh now scope_id window_start window_end m of
        (Inl e, m1) \<Rightarrow> (Inl e, m1)
      | (Inr i, m1) \<Rightarrow>
          (Inr \<lparr>th_window_id = i, th_scope_id = scope_id, th_tier = tier\<rparr>, snd (set_tier i tier m1)))"

text \<open>The checks both validators share after the tier and the target scope.\<close>

definition validate_window :: "tiered_window_handle \<Rightarrow> window_manager \<Rightarrow> pipeline_error + unit" where
  "validate_window handle m =
     (case get_window (th_window_id handle) m of
        None \<Rightarrow> Inl (WindowNotFound (th_window_id handle))
      | Some w \<Rightarrow>
          if sw_scope_id w \<noteq> th_scope_id handle
          then Inl (HierarchyViolation (''window '' @ show_uuid (th_window_id handle) @ '' belongs to scope '' @
            show_uuid (sw_scope_id w) @ '' but handle claims scope '' @
            show_uuid (th_scope_id handle)))
          else if sw_status w = WComplete then Inl InvalidWindowTransition
          else Inr ())"

definition validate_domain_input ::
  "tiered_window_handle \<Rightarrow> domain_synthesis_input \<Rightarrow> window_manager \<Rightarrow> pipeline_error + unit" where
  "validate_domain_input handle input m =
     (if th_tier handle \<noteq> DomainTier
      then Inl (HierarchyViolation
        (window_scope_tier_debug (th_tier handle) @ '' window cannot consume DomainSynthesisInput''))
      else if th_scope_id handle \<noteq> di_domain_scope input
      then Inl (HierarchyViolation (''domain input targets '' @ show_uuid (di_domain_scope input) @
        '' but window is for '' @ show_uuid (th_scope_id handle)))
      else validate_window handle m)"

definition validate_tenant_input ::
  "tiered_window_handle \<Rightarrow> tenant_synthesis_input \<Rightarrow> window_manager \<Rightarrow> pipeline_error + unit" where
  "validate_tenant_input handle input m =
     (if th_tier handle \<noteq> TenantTier
      then Inl (HierarchyViolation
        (window_scope_tier_debug (th_tier handle) @ '' window cannot consume TenantSynthesisInput''))
      else if th_scope_id handle \<noteq> ti_tenant_scope input
      then Inl (HierarchyViolation (''tenant input targets '' @ show_uuid (ti_tenant_scope input) @
        '' but window is for '' @ show_uuid (th_scope_id handle)))
      else validate_window handle m)"

definition build_domain_summary_object ::
  "uuid \<Rightarrow> instant \<Rightarrow> uuid \<Rightarrow> uuid \<Rightarrow> byte list \<Rightarrow> uuid \<Rightarrow> synthesis_object" where
  "build_domain_summary_object fresh now domain_scope window_id payload provenance_ref =
     synthesis_object_new fresh now domain_scope window_id DomainSummary payload provenance_ref"

definition build_tenant_summary_object ::
  "uuid \<Rightarrow> instant \<Rightarrow> uuid \<Rightarrow> uuid \<Rightarrow> byte list \<Rightarrow> uuid \<Rightarrow> synthesis_object" where
  "build_tenant_summary_object fresh now tenant_scope window_id payload provenance_ref =
     synthesis_object_new fresh now tenant_scope window_id TenantSummary payload provenance_ref"

text \<open>
  \<^verbatim>\<open>open_domain_window\<close> and \<^verbatim>\<open>open_tenant_window\<close> first build a window of their own (with the identifier
  \<open>spare\<close>, at \<open>now1\<close>) for its bounds, and then open the tracked one (identifier \<open>fresh\<close>, at \<open>now2\<close>).
\<close>

definition open_domain_window :: "uuid \<Rightarrow> uuid \<Rightarrow> instant \<Rightarrow> instant \<Rightarrow> instant \<Rightarrow> domain_memory \<Rightarrow> duration \<Rightarrow>
    window_manager \<Rightarrow> (pipeline_error + tiered_window_handle) \<times> window_manager" where
  "open_domain_window spare fresh now now1 now2 domain dur m =
     (case synthesis_window_new spare now1 (dm_scope_id domain) (now - dur) now of
        Inl e \<Rightarrow> (Inl e, m)
      | Inr w \<Rightarrow> open_tiered_window fresh now2 (dm_scope_id domain) DomainTier
          (sw_window_start w) (sw_window_end w) m)"

definition open_tenant_window :: "uuid \<Rightarrow> uuid \<Rightarrow> instant \<Rightarrow> instant \<Rightarrow> instant \<Rightarrow> tenant_memory \<Rightarrow> duration \<Rightarrow>
    window_manager \<Rightarrow> (pipeline_error + tiered_window_handle) \<times> window_manager" where
  "open_tenant_window spare fresh now now1 now2 tenant dur m =
     (case synthesis_window_new spare now1 (tm_scope_id tenant) (now - dur) now of
        Inl e \<Rightarrow> (Inl e, m)
      | Inr w \<Rightarrow> open_tiered_window fresh now2 (tm_scope_id tenant) TenantTier
          (sw_window_start w) (sw_window_end w) m)"

section \<open>Envelope\<close>

record encrypted_synthesis_object =
  eo_object_id :: uuid
  eo_scope_id :: uuid
  eo_window_id :: uuid
  eo_nonce :: "byte list"
  eo_ciphertext :: "byte list"

definition object_aad_for :: "uuid \<Rightarrow> uuid \<Rightarrow> uuid \<Rightarrow> byte list" where
  "object_aad_for scope_id window_id object_id =
     uuid_bytes scope_id @ uuid_bytes window_id @ uuid_bytes object_id"

definition publish_synthesis_object :: "crypto_lib \<Rightarrow> (synthesis_object \<Rightarrow> byte list option) \<Rightarrow> byte list \<Rightarrow>
    synthesis_object \<Rightarrow> byte list \<Rightarrow> pipeline_error + encrypted_synthesis_object" where
  "publish_synthesis_object lib to_vec nonce obj scope_key =
     (case to_vec obj of
        None \<Rightarrow> Inl (PipelineSerialisation ''SynthesisObject::to_vec'')
      | Some plaintext \<Rightarrow>
        (case encrypt_aead lib scope_key nonce plaintext
                (object_aad_for (so_scope_id obj) (so_window_id obj) (so_id obj)) of
           Inl e \<Rightarrow> Inl (PipelineCrypto e)
         | Inr ct \<Rightarrow> Inr \<lparr>eo_object_id = so_id obj, eo_scope_id = so_scope_id obj,
             eo_window_id = so_window_id obj, eo_nonce = nonce, eo_ciphertext = ct\<rparr>))"

definition consume_synthesis_object :: "crypto_lib \<Rightarrow> (byte list \<Rightarrow> synthesis_object option) \<Rightarrow>
    encrypted_synthesis_object \<Rightarrow> byte list \<Rightarrow> pipeline_error + synthesis_object" where
  "consume_synthesis_object lib from_slice enc scope_key =
     (case decrypt_aead lib scope_key (eo_nonce enc) (eo_ciphertext enc)
             (object_aad_for (eo_scope_id enc) (eo_window_id enc) (eo_object_id enc)) of
        Inl e \<Rightarrow> Inl (PipelineCrypto e)
      | Inr plaintext \<Rightarrow>
        (case from_slice plaintext of
           None \<Rightarrow> Inl (PipelineSerialisation ''SynthesisObject::from_slice'')
         | Some obj \<Rightarrow>
             if so_id obj \<noteq> eo_object_id enc \<or> so_scope_id obj \<noteq> eo_scope_id enc
                \<or> so_window_id obj \<noteq> eo_window_id enc
             then Inl (PipelineCrypto AeadDecryption) else Inr obj))"

section \<open>Runs of the window manager\<close>

datatype window_command =
    WOpen uuid instant uuid instant instant
  | WOpenTiered uuid instant uuid window_scope_tier instant instant
  | WSetTier uuid window_scope_tier
  | WClaim uuid
  | WFinish uuid
  | WFail uuid
  | WReplay uuid
  | WSweep "uuid host" instant duration
  | WForget uuid
  | WPrune uuid "uuid set"

fun window_exec :: "window_command \<Rightarrow> window_manager \<Rightarrow> window_manager" where
  "window_exec (WOpen fresh now s a b) m = snd (open_window fresh now s a b m)"
| "window_exec (WOpenTiered fresh now s t a b) m = snd (open_tiered_window fresh now s t a b m)"
| "window_exec (WSetTier i t) m = snd (set_tier i t m)"
| "window_exec (WClaim i) m = snd (mark_in_progress i m)"
| "window_exec (WFinish i) m = snd (mark_complete i m)"
| "window_exec (WFail i) m = snd (mark_failed i m)"
| "window_exec (WReplay i) m = snd (mark_replay_pending i m)"
| "window_exec (WSweep h now thr) m = snd (sweep_stuck_pending h now thr m)"
| "window_exec (WForget s) m = remove_windows_for_scope s m"
| "window_exec (WPrune s ids) m = remove_windows s ids m"

text \<open>
  What a call relies on: a new identifier is not in use, iteration visits every key, and a prune
  names windows of its own scope only.
\<close>

fun window_pre :: "window_command \<Rightarrow> window_manager \<Rightarrow> bool" where
  "window_pre (WOpen fresh now s a b) m = (wm_windows m fresh = None)"
| "window_pre (WOpenTiered fresh now s t a b) m = (wm_windows m fresh = None)"
| "window_pre (WSweep h now thr) m = host_ok h"
| "window_pre (WPrune s ids) m = (\<forall>i \<in> ids. \<forall>w. wm_windows m i = Some w \<longrightarrow> sw_scope_id w = s)"
| "window_pre _ m = True"

inductive window_reach :: "window_manager \<Rightarrow> bool" where
  window_reach_init: "window_reach window_manager_new"
| window_reach_step: "window_reach m \<Longrightarrow> window_pre c m \<Longrightarrow> window_reach (window_exec c m)"

text \<open>The index lists, for every scope, exactly its windows, and nothing else.\<close>

definition windows_ok :: "window_manager \<Rightarrow> bool" where
  "windows_ok m \<longleftrightarrow> finite (dom (wm_windows m)) \<and>
     (\<forall>i w. wm_windows m i = Some w \<longrightarrow> sw_id w = i \<and> sw_window_start w < sw_window_end w \<and>
        i \<in> set (or_empty_list (wm_by_scope m (sw_scope_id w)))) \<and>
     (\<forall>s ids. wm_by_scope m s = Some ids \<longrightarrow> ids \<noteq> [] \<and> distinct ids \<and>
        (\<forall>i \<in> set ids. \<exists>w. wm_windows m i = Some w \<and> sw_scope_id w = s))"

section \<open>Lemmas\<close>

lemma windows_ok_new [simp]: "windows_ok window_manager_new"
  by (simp add: windows_ok_def window_manager_new_def)

text \<open>An update that keeps identity, scope and bounds keeps the index.\<close>

definition same_frame :: "synthesis_window \<Rightarrow> synthesis_window \<Rightarrow> bool" where
  "same_frame w v \<longleftrightarrow> sw_id v = sw_id w \<and> sw_scope_id v = sw_scope_id w \<and>
     sw_window_start v = sw_window_start w \<and> sw_window_end v = sw_window_end w \<and>
     sw_created_at v = sw_created_at w"

lemma same_frame_status [simp]:
  "same_frame w (w\<lparr>sw_status := s\<rparr>)" "same_frame w (w\<lparr>sw_tier := t\<rparr>)" "same_frame w w"
  by (simp_all add: same_frame_def)

lemma windows_ok_update:
  assumes "windows_ok m" and "dom ws = dom (wm_windows m)"
    and "\<forall>i w v. wm_windows m i = Some w \<longrightarrow> ws i = Some v \<longrightarrow> same_frame w v"
  shows "windows_ok (m\<lparr>wm_windows := ws\<rparr>)"
proof -
  have old: "\<exists>w. wm_windows m i = Some w \<and> same_frame w v" if "ws i = Some v" for i v
    using assms(2,3) that by (metis domD domI)
  have new: "\<exists>v. ws i = Some v \<and> same_frame w v" if "wm_windows m i = Some w" for i w
    using assms(2,3) that by (metis domD domI)
  show ?thesis
    unfolding windows_ok_def
  proof (intro conjI allI impI)
    fix i v
    assume "wm_windows (m\<lparr>wm_windows := ws\<rparr>) i = Some v"
    then obtain w where "wm_windows m i = Some w" "same_frame w v" using old by auto
    then show "sw_id v = i" "sw_window_start v < sw_window_end v"
        "i \<in> set (or_empty_list (wm_by_scope (m\<lparr>wm_windows := ws\<rparr>) (sw_scope_id v)))"
      using assms(1) by (auto simp: windows_ok_def same_frame_def)
  next
    fix s ids
    assume ids: "wm_by_scope (m\<lparr>wm_windows := ws\<rparr>) s = Some ids"
    then show "ids \<noteq> []" "distinct ids" using assms(1) by (auto simp: windows_ok_def)
    show "\<forall>i \<in> set ids. \<exists>w. wm_windows (m\<lparr>wm_windows := ws\<rparr>) i = Some w \<and> sw_scope_id w = s"
      using assms(1) ids new by (fastforce simp: windows_ok_def same_frame_def)
  qed (use assms(1,2) in \<open>simp add: windows_ok_def\<close>)
qed

lemma find_mut_cases:
  "snd (find_mut i f m) = m \<or>
   (\<exists>w v. wm_windows m i = Some w \<and> f w = Inr v \<and>
      snd (find_mut i f m) = m\<lparr>wm_windows := (wm_windows m)(i \<mapsto> v)\<rparr>)"
  by (auto simp: find_mut_def split: option.split sum.split)

lemma windows_ok_find_mut:
  assumes "windows_ok m" and "\<And>w v. f w = Inr v \<Longrightarrow> same_frame w v"
  shows "windows_ok (snd (find_mut i f m))"
  using find_mut_cases [of i f m]
proof (elim disjE exE conjE)
  fix w v
  assume "wm_windows m i = Some w" "f w = Inr v"
    and eq: "snd (find_mut i f m) = m\<lparr>wm_windows := (wm_windows m)(i \<mapsto> v)\<rparr>"
  then show ?thesis
    unfolding eq by (intro windows_ok_update [OF assms(1)]) (auto intro: assms(2))
qed (simp add: assms(1))

lemma windows_ok_open:
  assumes "windows_ok m" and "wm_windows m fresh = None"
  shows "windows_ok (snd (open_window fresh now s a b m))"
proof -
  have "fresh \<notin> set ids" if "wm_by_scope m t = Some ids" for t ids
    using assms that by (force simp: windows_ok_def)
  then show ?thesis
    using assms
    by (auto simp: open_window_def synthesis_window_new_def windows_ok_def or_empty_list_def
        split: option.splits if_splits; fastforce)
qed

lemmas mark_defs = set_tier_def mark_in_progress_def mark_complete_def mark_failed_def mark_replay_pending_def

text \<open>What a sweep does to one window.\<close>

definition swept_window :: "instant \<Rightarrow> duration \<Rightarrow> synthesis_window \<Rightarrow> bool" where
  "swept_window now threshold w \<longleftrightarrow> sw_status w = WPending \<and>
     (case sw_created_at w of None \<Rightarrow> False | Some created \<Rightarrow> threshold < now - created)"

definition swept_map :: "instant \<Rightarrow> duration \<Rightarrow> uuid set \<Rightarrow> (uuid \<rightharpoonup> synthesis_window) \<Rightarrow> (uuid \<rightharpoonup> synthesis_window)" where
  "swept_map now threshold K ws = (\<lambda>k. case ws k of None \<Rightarrow> None
     | Some w \<Rightarrow> Some (if k \<in> K \<and> swept_window now threshold w then w\<lparr>sw_status := WFailed\<rparr> else w))"

lemma sweep_windows_eq:
  assumes "distinct ks"
  shows "sweep_windows now threshold ks ws acc =
    (acc @ map (sw_id \<circ> the \<circ> ws) (filter (\<lambda>k. \<exists>w. ws k = Some w \<and> swept_window now threshold w) ks),
     swept_map now threshold (set ks) ws)"
  using assms
proof (induction ks arbitrary: ws acc)
  case Nil
  show ?case by (auto simp: swept_map_def fun_eq_iff split: option.split)
next
  case (Cons k ks)
  show ?case
  proof (cases "\<exists>w. ws k = Some w \<and> swept_window now threshold w")
    case True
    then obtain w where w: "ws k = Some w" "swept_window now threshold w" by blast
    let ?ws = "ws(k \<mapsto> w\<lparr>sw_status := WFailed\<rparr>)"
    have step: "sweep_windows now threshold (k # ks) ws acc =
        sweep_windows now threshold ks ?ws (acc @ [sw_id w])"
      using w by (auto simp: swept_window_def split: option.splits)
    have k: "k \<notin> set ks" using Cons.prems by simp
    have ws': "swept_map now threshold (set ks) ?ws = swept_map now threshold (set (k # ks)) ws"
      using w k by (auto simp: swept_map_def fun_eq_iff split: option.split)
    have keys: "filter (\<lambda>k. \<exists>w. ?ws k = Some w \<and> swept_window now threshold w) ks =
        filter (\<lambda>k. \<exists>w. ws k = Some w \<and> swept_window now threshold w) ks"
      using k by (intro filter_cong) auto
    have ids: "map (sw_id \<circ> the \<circ> ?ws) (filter P ks) = map (sw_id \<circ> the \<circ> ws) (filter P ks)" for P
      using k by (intro map_cong) auto
    have "distinct ks" using Cons.prems by simp
    from Cons.IH [OF this, of ?ws "acc @ [sw_id w]"] show ?thesis
      unfolding step ws' keys ids using w by (simp add: comp_def del: fun_upd_apply)
  next
    case False
    then have "sweep_windows now threshold (k # ks) ws acc = sweep_windows now threshold ks ws acc"
      by (auto simp: swept_window_def split: option.splits)
    moreover have "swept_map now threshold (set ks) ws = swept_map now threshold (set (k # ks)) ws"
      using False by (auto simp: swept_map_def fun_eq_iff split: option.split)
    ultimately show ?thesis using Cons False by simp
  qed
qed

lemma sweep_stuck_pending_eq:
  assumes "windows_ok m" and "host_ok h"
  shows "sweep_stuck_pending h now threshold m =
    (filter (\<lambda>k. \<exists>w. wm_windows m k = Some w \<and> swept_window now threshold w) (h_keys h (dom (wm_windows m))),
     m\<lparr>wm_windows := swept_map now threshold (dom (wm_windows m)) (wm_windows m)\<rparr>)"
proof -
  have fin: "finite (dom (wm_windows m))" using assms(1) by (simp add: windows_ok_def)
  have "map (sw_id \<circ> the \<circ> wm_windows m) xs = xs" if "set xs \<subseteq> dom (wm_windows m)" for xs
    using that assms(1) by (intro map_idI) (auto simp: windows_ok_def)
  then show ?thesis
    using assms(2) fin by (simp add: sweep_stuck_pending_def sweep_windows_eq)
qed

lemma fold_delete: "fold (\<lambda>i ws. ws(i := None)) ids ws = ws |` (- set ids)"
  by (induction ids arbitrary: ws) (auto simp: restrict_map_def fun_eq_iff)

lemma remove_windows_for_scope_eq:
  assumes "windows_ok m"
  shows "wm_windows (remove_windows_for_scope s m) =
      (\<lambda>i. case wm_windows m i of None \<Rightarrow> None | Some w \<Rightarrow> if sw_scope_id w = s then None else Some w)"
    and "wm_by_scope (remove_windows_for_scope s m) = (wm_by_scope m)(s := None)"
proof -
  show "wm_by_scope (remove_windows_for_scope s m) = (wm_by_scope m)(s := None)"
    by (auto simp: remove_windows_for_scope_def fun_eq_iff split: option.splits)
  show "wm_windows (remove_windows_for_scope s m) =
      (\<lambda>i. case wm_windows m i of None \<Rightarrow> None | Some w \<Rightarrow> if sw_scope_id w = s then None else Some w)"
  proof
    fix i
    have "i \<in> set (or_empty_list (wm_by_scope m s)) \<longleftrightarrow> (\<exists>w. wm_windows m i = Some w \<and> sw_scope_id w = s)"
      (is "?L \<longleftrightarrow> ?R")
    proof
      show "?L \<Longrightarrow> ?R"
        using assms by (cases "wm_by_scope m s") (auto simp: windows_ok_def)
      show "?R \<Longrightarrow> ?L"
        using assms by (auto simp: windows_ok_def)
    qed
    then show "wm_windows (remove_windows_for_scope s m) i =
        (case wm_windows m i of None \<Rightarrow> None | Some w \<Rightarrow> if sw_scope_id w = s then None else Some w)"
      by (auto simp: remove_windows_for_scope_def fold_delete restrict_map_def split: option.splits)
  qed
qed

lemma windows_ok_forget: "windows_ok m \<Longrightarrow> windows_ok (remove_windows_for_scope s m)"
  using remove_windows_for_scope_eq [of m s]
  by (auto simp: windows_ok_def dom_def split: option.splits if_splits elim: rev_finite_subset; fastforce)

lemma windows_ok_prune:
  assumes "windows_ok m" and "\<forall>i \<in> ids. \<forall>w. wm_windows m i = Some w \<longrightarrow> sw_scope_id w = s"
  shows "windows_ok (remove_windows s ids m)"
proof -
  have "wm_windows (remove_windows s ids m) = wm_windows m |` (- ids)"
    by (auto simp: remove_windows_def Let_def restrict_map_def fun_eq_iff split: option.split)
  moreover have "wm_by_scope (remove_windows s ids m) = (wm_by_scope m)(s :=
      (case wm_by_scope m s of None \<Rightarrow> None | Some js \<Rightarrow>
         let kept = filter (\<lambda>i. i \<notin> ids) js in if kept = [] then None else Some kept))"
    using assms(1) by (auto simp: remove_windows_def Let_def fun_eq_iff windows_ok_def split: option.split)
  ultimately show ?thesis
    using assms
    by (auto simp: windows_ok_def restrict_map_def dom_def Let_def or_empty_list_def filter_empty_conv
        split: option.splits if_splits elim: rev_finite_subset; fastforce)
qed

lemma swept_map_dom [simp]: "dom (swept_map now thr K ws) = dom ws"
  by (auto simp: swept_map_def split: option.splits)

lemma swept_map_frame:
  "ws i = Some w \<Longrightarrow> swept_map now thr K ws i = Some v \<Longrightarrow> same_frame w v"
  by (auto simp: swept_map_def split: if_splits)

lemma window_exec_ok:
  assumes "windows_ok m" and "window_pre c m"
  shows "windows_ok (window_exec c m)"
proof (cases c)
  case (WOpenTiered fresh now s t a b)
  have "windows_ok (snd (open_window fresh now s a b m))"
    using assms WOpenTiered by (simp add: windows_ok_open)
  then show ?thesis
    using WOpenTiered
    by (cases "open_window fresh now s a b m"; cases "fst (open_window fresh now s a b m)")
      (auto simp: open_tiered_window_def set_tier_def intro!: windows_ok_find_mut)
next
  case (WSweep h now thr)
  then have "window_exec c m = m\<lparr>wm_windows := swept_map now thr (dom (wm_windows m)) (wm_windows m)\<rparr>"
    using assms by (simp add: sweep_stuck_pending_eq)
  moreover have "windows_ok (m\<lparr>wm_windows := swept_map now thr (dom (wm_windows m)) (wm_windows m)\<rparr>)"
    by (rule windows_ok_update [OF assms(1) swept_map_dom]) (blast dest: swept_map_frame)
  ultimately show ?thesis by simp
qed (use assms in \<open>auto simp: mark_defs windows_ok_open windows_ok_forget windows_ok_prune
       intro!: windows_ok_find_mut split: window_status.splits\<close>)

lemma window_reach_ok: "window_reach m \<Longrightarrow> windows_ok m"
  by (induction rule: window_reach.induct) (simp_all add: window_exec_ok)

lemma windows_ok_indexD:
  assumes "windows_ok m" and "i \<in> set (or_empty_list (wm_by_scope m s))"
  shows "\<exists>w. wm_windows m i = Some w \<and> sw_scope_id w = s \<and> sw_id w = i"
proof (cases "wm_by_scope m s")
  case (Some ids)
  then have "\<exists>w. wm_windows m i = Some w \<and> sw_scope_id w = s"
    using assms unfolding windows_ok_def by simp
  then show ?thesis using assms(1) by (auto simp: windows_ok_def)
qed (use assms(2) in simp)

lemma windows_for_map:
  assumes "windows_ok m"
  shows "windows_for s m = map (the \<circ> wm_windows m) (or_empty_list (wm_by_scope m s))"
proof -
  have "filter (\<lambda>i. wm_windows m i \<noteq> None) (or_empty_list (wm_by_scope m s)) = or_empty_list (wm_by_scope m s)"
    by (rule filter_True) (use windows_ok_indexD [OF assms] in force)
  then show ?thesis
    by (cases "wm_by_scope m s") (simp_all add: windows_for_def List.map_filter_def)
qed

lemma windows_for_set:
  assumes "windows_ok m"
  shows "set (windows_for s m) = {w \<in> ran (wm_windows m). sw_scope_id w = s}"
proof (intro set_eqI iffI)
  fix w
  assume "w \<in> set (windows_for s m)"
  then obtain ids i where "wm_by_scope m s = Some ids" "i \<in> set ids" "w = the (wm_windows m i)"
    using windows_for_map [OF assms, of s] by (auto simp: or_empty_list_def split: option.splits)
  then show "w \<in> {w \<in> ran (wm_windows m). sw_scope_id w = s}"
    using assms by (fastforce simp: windows_ok_def intro: ranI)
next
  fix w
  assume "w \<in> {w \<in> ran (wm_windows m). sw_scope_id w = s}"
  then obtain i where "wm_windows m i = Some w" "sw_scope_id w = s" by (auto simp: ran_def)
  moreover from this have "i \<in> set (or_empty_list (wm_by_scope m s))"
    using assms by (auto simp: windows_ok_def)
  ultimately show "w \<in> set (windows_for s m)"
    using windows_for_map [OF assms, of s] by force
qed

lemma windows_for_ids:
  assumes "windows_ok m"
  shows "map sw_id (windows_for s m) = or_empty_list (wm_by_scope m s)"
proof -
  have "sw_id (the (wm_windows m i)) = i" if "i \<in> set (or_empty_list (wm_by_scope m s))" for i
    using windows_ok_indexD [OF assms that] by auto
  then show ?thesis using windows_for_map [OF assms] by (simp add: map_idI)
qed

text \<open>The edges of the window lifecycle; the edge out of \<open>WComplete\<close> is the replay.\<close>

fun window_edge :: "window_status \<Rightarrow> window_status \<Rightarrow> bool" where
  "window_edge WPending b = (b = WInProgress \<or> b = WFailed)"
| "window_edge WInProgress b = (b = WComplete \<or> b = WFailed)"
| "window_edge WFailed b = (b = WInProgress)"
| "window_edge WComplete b = (b = WPending)"

definition dispatch_edge :: "window_status \<Rightarrow> window_status \<Rightarrow> bool" where
  "dispatch_edge a b \<longleftrightarrow> window_edge a b \<and> a \<noteq> WComplete"

text \<open>Without the replay the machine is a lifecycle whose terminal state is the declared one.\<close>

interpretation dispatch: lifecycle dispatch_edge window_is_terminal
proof
  show "window_is_terminal a \<Longrightarrow> \<not> dispatch_edge a b" for a b
    by (simp add: window_is_terminal_def dispatch_edge_def)
  show "\<not> dispatch_edge a a" for a
    by (cases a) (simp_all add: dispatch_edge_def)
qed

definition window_moves :: "(window_status \<Rightarrow> window_status \<Rightarrow> bool) \<Rightarrow> synthesis_window \<Rightarrow> synthesis_window \<Rightarrow> bool" where
  "window_moves edge w v \<longleftrightarrow> same_frame w v \<and> (sw_status v = sw_status w \<or> edge (sw_status w) (sw_status v))"

lemma find_mut_moves:
  assumes "wm_windows m i = Some w" and "wm_windows (snd (find_mut j f m)) i = Some v"
    and "\<forall>x y. f x = Inr y \<longrightarrow> window_moves edge x y"
  shows "window_moves edge w v"
proof (cases "snd (find_mut j f m) = m")
  case False
  then obtain x y where "wm_windows m j = Some x" "f x = Inr y"
      "snd (find_mut j f m) = m\<lparr>wm_windows := (wm_windows m)(j \<mapsto> y)\<rparr>"
    using find_mut_cases [of j f m] by auto
  then show ?thesis using assms by (auto simp: window_moves_def split: if_splits)
qed (use assms in \<open>simp add: window_moves_def\<close>)

lemma mark_moves:
  assumes "wm_windows m i = Some w"
  shows "wm_windows (snd (set_tier j t m)) i = Some v \<Longrightarrow> window_moves dispatch_edge w v"
    and "wm_windows (snd (mark_in_progress j m)) i = Some v \<Longrightarrow> window_moves dispatch_edge w v"
    and "wm_windows (snd (mark_complete j m)) i = Some v \<Longrightarrow> window_moves dispatch_edge w v"
    and "wm_windows (snd (mark_failed j m)) i = Some v \<Longrightarrow> window_moves dispatch_edge w v"
  unfolding mark_defs
  by (erule find_mut_moves [OF assms];
      auto simp: window_moves_def dispatch_edge_def split: window_status.splits)+

lemma open_window_keeps:
  "wm_windows m fresh = None \<Longrightarrow> wm_windows m i = Some w \<Longrightarrow>
   wm_windows (snd (open_window fresh now s a b m)) i = Some w"
  by (auto simp: open_window_def synthesis_window_new_def)

fun is_replay :: "window_command \<Rightarrow> uuid \<Rightarrow> bool" where
  "is_replay (WReplay i) j = (i = j)"
| "is_replay _ j = False"

lemma window_exec_moves:
  assumes "windows_ok m" and "window_pre c m" and "wm_windows m i = Some w"
    and "wm_windows (window_exec c m) i = Some v" and "\<not> is_replay c i"
  shows "window_moves dispatch_edge w v"
proof (cases c)
  case (WOpen fresh now s a b)
  then show ?thesis using assms open_window_keeps [of m fresh i w] by (simp add: window_moves_def)
next
  case (WOpenTiered fresh now s t a b)
  let ?m = "snd (open_window fresh now s a b m)"
  have "wm_windows ?m i = Some w" using assms WOpenTiered open_window_keeps by simp
  moreover have "window_exec c m = ?m \<or> (\<exists>j. window_exec c m = snd (set_tier j t ?m))"
    using WOpenTiered by (auto simp: open_tiered_window_def split: prod.split sum.split)
  moreover have "window_moves dispatch_edge w w" by (simp add: window_moves_def)
  ultimately show ?thesis using assms(4) mark_moves(1) [of ?m i w] by auto
next
  case (WReplay j)
  then have "wm_windows (window_exec c m) i = wm_windows m i"
    using assms(5) by (auto simp: mark_replay_pending_def find_mut_def split: option.split sum.split)
  then show ?thesis using assms by (simp add: window_moves_def)
next
  case (WSweep h now thr)
  then show ?thesis
    using assms by (auto simp: sweep_stuck_pending_eq swept_map_def window_moves_def dispatch_edge_def
        swept_window_def split: if_splits)
next
  case (WForget s)
  then show ?thesis
    using assms by (auto simp: remove_windows_for_scope_eq window_moves_def split: if_splits)
next
  case (WPrune s ids)
  then show ?thesis
    using assms by (auto simp: remove_windows_def Let_def restrict_map_def window_moves_def
        split: if_splits option.splits)
qed (use assms mark_moves [OF assms(3)] in simp_all)

lemma open_tiered_state:
  "snd (open_tiered_window fresh now s t a b m) =
     (if a < b then snd (set_tier fresh t (snd (open_window fresh now s a b m))) else m)"
  by (simp add: open_tiered_window_def open_window_def synthesis_window_new_def)

lemma open_window_indexed:
  assumes "windows_ok m" and "wm_windows m fresh = None" and "a < b"
  shows "windows_for s (snd (open_window fresh now s a b m)) =
    windows_for s m @ [\<lparr>sw_id = fresh, sw_scope_id = s, sw_window_start = a, sw_window_end = b,
      sw_status = WPending, sw_tier = None, sw_created_at = Some now\<rparr>]"
proof -
  have "map (the \<circ> (wm_windows m)(fresh \<mapsto> w)) (or_empty_list (wm_by_scope m s)) =
      map (the \<circ> wm_windows m) (or_empty_list (wm_by_scope m s))" for w
    using windows_ok_indexD [OF assms(1), of fresh s] assms(2) by (intro map_cong) auto
  then show ?thesis
    using windows_for_map [OF windows_ok_open [OF assms(1,2), of now s a b], of s]
      windows_for_map [OF assms(1), of s] assms(3)
    by (simp add: open_window_def synthesis_window_new_def del: fun_upd_apply) simp
qed

lemma first_error_case:
  "(case first_error check xs of None \<Rightarrow> y | Some e \<Rightarrow> Inl e) = Inr z \<longleftrightarrow>
     (\<forall>x \<in> set xs. check x = None) \<and> y = Inr z"
  by (induction xs) (auto split: option.splits)

lemma from_domain_object_Inr:
  "from_domain_object obj = Inr out \<longleftrightarrow>
     so_object_type obj = DomainSummary \<and> out = \<lparr>do_object = obj, do_domain_scope = so_scope_id obj\<rparr>"
  by (auto simp: from_domain_object_def)

lemma from_channel_object_Inr:
  "from_channel_object obj = Inr out \<longleftrightarrow>
     so_object_type obj = ChannelRecap \<and> out = \<lparr>co_object = obj, co_channel_scope = so_scope_id obj\<rparr>"
  by (auto simp: from_channel_object_def)

lemma tenant_input_new_Inr:
  "tenant_input_new now tenant outs docs = Inr input \<longleftrightarrow>
     (\<forall>out \<in> set outs. do_domain_scope out \<in> set (tm_domain_scopes tenant)) \<and>
     (\<forall>d \<in> set docs. \<exists>a \<in> set (tm_approved_documents tenant). ad_id a = ad_id (doc_reference d)) \<and>
     input = \<lparr>ti_tenant_scope = tm_scope_id tenant, ti_domain_outputs = outs,
       ti_approved_documents = docs, ti_assembled_at = now\<rparr>"
proof -
  have none: "(if q then Some e else None) = None \<longleftrightarrow> \<not> q" for q and e :: pipeline_error by simp
  show ?thesis
    unfolding tenant_input_new_def first_error_case none not_not sum.inject(2)
    by (simp only: eq_commute [of input])
qed

lemma domain_input_new_Inr:
  "domain_input_new now domain outs = Inr input \<longleftrightarrow>
     (\<forall>out \<in> set outs. co_channel_scope out \<in> set (dm_channel_scopes domain)) \<and>
     input = \<lparr>di_domain_scope = dm_scope_id domain, di_channel_outputs = outs, di_assembled_at = now\<rparr>"
  unfolding domain_input_new_def first_error_case by (force split: if_splits)

section \<open>Properties\<close>

text \<open>
  In every reachable state the per-scope index is exact: the windows listed for a scope are the
  tracked windows of that scope, each once and in the order they were opened (a new window goes to
  the end), the tracked scopes are those with a window, and every window has a positive duration.
\<close>

theorem window_index_exact:
  assumes "window_reach m" and "host_ok h"
  shows "set (windows_for s m) = {w \<in> ran (wm_windows m). sw_scope_id w = s} \<and>
    distinct (map sw_id (windows_for s m)) \<and>
    set (tracked_scopes h m) = sw_scope_id ` ran (wm_windows m) \<and>
    (\<forall>w \<in> ran (wm_windows m). 0 < window_duration w) \<and>
    (wm_windows m fresh = None \<and> a < b \<longrightarrow>
       map sw_id (windows_for s (snd (open_window fresh now s a b m))) = map sw_id (windows_for s m) @ [fresh])"
proof -
  have ok: "windows_ok m" by (rule window_reach_ok [OF assms(1)])
  have dist: "distinct (or_empty_list (wm_by_scope m s))"
    using ok by (cases "wm_by_scope m s") (auto simp: windows_ok_def)
  have scopes: "dom (wm_by_scope m) = sw_scope_id ` ran (wm_windows m)"
  proof (intro set_eqI iffI)
    fix t
    assume "t \<in> dom (wm_by_scope m)"
    then obtain ids where ids: "wm_by_scope m t = Some ids" by auto
    then have "hd ids \<in> set (or_empty_list (wm_by_scope m t))" using ok by (simp add: windows_ok_def)
    from windows_ok_indexD [OF ok this] show "t \<in> sw_scope_id ` ran (wm_windows m)" by (auto intro: ranI)
  next
    fix t
    assume "t \<in> sw_scope_id ` ran (wm_windows m)"
    then obtain i w where "wm_windows m i = Some w" "sw_scope_id w = t" by (auto simp: ran_def)
    then have "i \<in> set (or_empty_list (wm_by_scope m t))" using ok by (auto simp: windows_ok_def)
    then show "t \<in> dom (wm_by_scope m)" by (cases "wm_by_scope m t") auto
  qed
  have "ran (wm_windows m) = (the \<circ> wm_windows m) ` dom (wm_windows m)"
    by (force simp: ran_def dom_def)
  then have "finite (sw_scope_id ` ran (wm_windows m))" using ok by (simp add: windows_ok_def)
  then have "set (tracked_scopes h m) = sw_scope_id ` ran (wm_windows m)"
    using assms(2) scopes by (simp add: tracked_scopes_def)
  moreover have "0 < window_duration w" if "w \<in> ran (wm_windows m)" for w
    using that ok by (auto simp: ran_def windows_ok_def window_duration_def)
  ultimately show ?thesis
    using windows_for_set [OF ok] windows_for_ids [OF ok] dist open_window_indexed [OF ok] by simp
qed

theorem window_index_exact_witness:
  "let m = window_exec (WOpen 2 0 9 5 8) (window_exec (WOpen 1 0 9 0 5) window_manager_new)
   in set (windows_for 9 m) = {w \<in> ran (wm_windows m). sw_scope_id w = 9} \<and> distinct (map sw_id (windows_for 9 m))"
proof -
  let ?m = "window_exec (WOpen 2 0 9 5 8) (window_exec (WOpen 1 0 9 0 5) window_manager_new)"
  have "window_reach ?m"
    by (intro window_reach.intros) (simp_all add: window_manager_new_def open_window_def synthesis_window_new_def)
  from window_index_exact [OF this sorted_host_ok, of 9] show ?thesis by (simp add: Let_def)
qed

text \<open>
  Every call moves every window along the dispatch lifecycle (pending, claimed, complete or failed,
  failed windows claimed again, stuck pending ones failed by the sweep) and never changes its scope,
  interval or age; a complete window is left only by an explicit replay of that window.
\<close>

theorem window_lifecycle:
  assumes "window_reach m" and "window_pre c m" and "get_window i m = Some w"
    and "get_window i (window_exec c m) = Some v"
  shows "same_frame w v \<and>
    (if is_replay c i then sw_status v = (if sw_status w = WComplete then WPending else sw_status w)
     else sw_status v = sw_status w \<or> dispatch_edge (sw_status w) (sw_status v))"
proof (cases "is_replay c i")
  case True
  then have "c = WReplay i" by (cases c) auto
  then show ?thesis
    using assms(3,4) by (auto simp: mark_replay_pending_def find_mut_def get_window_def split: window_status.splits)
next
  case False
  have "window_moves dispatch_edge w v"
    using window_exec_moves [OF window_reach_ok [OF assms(1)] assms(2) _ _ False] assms(3,4)
    by (simp add: get_window_def)
  then show ?thesis using False by (simp add: window_moves_def)
qed

theorem window_lifecycle_witness:
  "let m = window_exec (WOpen 1 0 9 0 5) window_manager_new
   in same_frame (the (get_window 1 m)) (the (get_window 1 (window_exec (WClaim 1) m)))"
proof -
  let ?m = "window_exec (WOpen 1 0 9 0 5) window_manager_new"
  have "window_reach ?m"
    by (intro window_reach.intros) (simp add: window_manager_new_def)
  from window_lifecycle [OF this, of "WClaim 1" 1] show ?thesis
    by (simp add: Let_def window_manager_new_def open_window_def synthesis_window_new_def get_window_def
        mark_in_progress_def find_mut_def)
qed

text \<open>
  The recovery sweep fails exactly the pending windows whose age exceeds the threshold, whatever the
  iteration order, reports each of them once, and leaves every other window alone (in particular
  those of unknown age).
\<close>

theorem stuck_sweep_exact:
  assumes "window_reach m" and "host_ok h"
  shows "let out = sweep_stuck_pending h now threshold m in
    set (fst out) = {i. \<exists>w. get_window i m = Some w \<and> swept_window now threshold w} \<and>
    distinct (fst out) \<and>
    (\<forall>i. get_window i (snd out) = map_option (\<lambda>w. if i \<in> set (fst out) then w\<lparr>sw_status := WFailed\<rparr> else w) (get_window i m))"
proof -
  have ok: "windows_ok m" by (rule window_reach_ok [OF assms(1)])
  then have fin: "finite (dom (wm_windows m))" by (simp add: windows_ok_def)
  show ?thesis
    using fin assms(2) unfolding sweep_stuck_pending_eq [OF ok assms(2)]
    by (auto simp: Let_def get_window_def swept_map_def split: option.split)
qed

theorem stuck_sweep_exact_witness:
  "let m = window_exec (WOpen 1 0 9 0 5) window_manager_new; out = sweep_stuck_pending sorted_host 100 50 m
   in set (fst out) = {i. \<exists>w. get_window i m = Some w \<and> swept_window 100 50 w} \<and> distinct (fst out)"
proof -
  let ?m = "window_exec (WOpen 1 0 9 0 5) window_manager_new"
  have "window_reach ?m"
    by (intro window_reach.intros) (simp add: window_manager_new_def)
  from stuck_sweep_exact [OF this sorted_host_ok, of 100 50] show ?thesis by (simp add: Let_def)
qed

text \<open>
  Forgetting a scope leaves none of its windows in the manager, by id or by scope, and touches no
  other window.
\<close>

theorem forgotten_scope_has_no_windows:
  assumes "window_reach m" and "m1 = remove_windows_for_scope s m"
  shows "windows_for s m1 = [] \<and> s \<notin> sw_scope_id ` ran (wm_windows m1) \<and>
    (\<forall>i w. get_window i m = Some w \<and> sw_scope_id w \<noteq> s \<longrightarrow> get_window i m1 = Some w) \<and>
    (\<forall>t. t \<noteq> s \<longrightarrow> windows_for t m1 = windows_for t m)"
proof -
  have ok: "windows_ok m" by (rule window_reach_ok [OF assms(1)])
  note eqs = remove_windows_for_scope_eq [OF ok, of s]
  have "windows_for t m1 = windows_for t m" if "t \<noteq> s" for t
  proof -
    have "windows_ok m1" using ok assms(2) by (simp add: windows_ok_forget)
    moreover have "map (the \<circ> wm_windows m1) (or_empty_list (wm_by_scope m t)) =
        map (the \<circ> wm_windows m) (or_empty_list (wm_by_scope m t))"
      using windows_ok_indexD [OF ok] that eqs assms(2) by (force intro!: map_cong)
    ultimately show ?thesis
      using windows_for_map [OF ok, of t] windows_for_map [of m1 t] eqs assms(2) that by simp
  qed
  then show ?thesis
    using eqs assms(2)
    by (auto simp: windows_for_def get_window_def ran_def split: option.splits if_splits)
qed

theorem forgotten_scope_has_no_windows_witness:
  "let m = window_exec (WOpen 2 0 8 0 5) (window_exec (WOpen 1 0 9 0 5) window_manager_new)
   in windows_for 9 (remove_windows_for_scope 9 m) = []"
proof -
  let ?m = "window_exec (WOpen 2 0 8 0 5) (window_exec (WOpen 1 0 9 0 5) window_manager_new)"
  have "window_reach ?m"
    by (intro window_reach.intros) (simp_all add: window_manager_new_def open_window_def synthesis_window_new_def)
  from forgotten_scope_has_no_windows [OF this refl, of 9] show ?thesis by (simp add: Let_def)
qed

definition window_accepts :: "tiered_window_handle \<Rightarrow> window_scope_tier \<Rightarrow> uuid \<Rightarrow> window_manager \<Rightarrow> bool" where
  "window_accepts handle tier s m \<longleftrightarrow> th_tier handle = tier \<and> th_scope_id handle = s \<and>
     (\<exists>w. get_window (th_window_id handle) m = Some w \<and> sw_scope_id w = s \<and> sw_status w \<noteq> WComplete)"

lemma validate_window_Inr:
  "validate_window handle m = Inr () \<longleftrightarrow> window_accepts handle (th_tier handle) (th_scope_id handle) m"
  by (auto simp: validate_window_def window_accepts_def split: option.split)

lemma map_from_domain_object:
  "map from_domain_object objs = map Inr outs \<longleftrightarrow> (\<forall>obj \<in> set objs. so_object_type obj = DomainSummary) \<and>
     outs = map (\<lambda>obj. \<lparr>do_object = obj, do_domain_scope = so_scope_id obj\<rparr>) objs"
proof (induction objs arbitrary: outs)
  case (Cons a objs)
  then show ?case by (cases outs) (auto simp: from_domain_object_Inr)
qed auto

lemma map_from_channel_object:
  "map from_channel_object objs = map Inr outs \<longleftrightarrow> (\<forall>obj \<in> set objs. so_object_type obj = ChannelRecap) \<and>
     outs = map (\<lambda>obj. \<lparr>co_object = obj, co_channel_scope = so_scope_id obj\<rparr>) objs"
proof (induction objs arbitrary: outs)
  case (Cons a objs)
  then show ?case by (cases outs) (auto simp: from_channel_object_Inr)
qed auto



lemma consume_published:
  assumes "aead_ok lib" and "codec_ok to_vec from_slice"
    and pub: "publish_synthesis_object lib to_vec nonce obj key = Inr enc"
  shows "consume_synthesis_object lib from_slice enc key = Inr obj"
proof -
  from pub obtain plain ct where "to_vec obj = Some plain"
      and ct: "encrypt_aead lib key nonce plain (object_aad_for (so_scope_id obj) (so_window_id obj) (so_id obj)) = Inr ct"
      and "enc = \<lparr>eo_object_id = so_id obj, eo_scope_id = so_scope_id obj, eo_window_id = so_window_id obj,
        eo_nonce = nonce, eo_ciphertext = ct\<rparr>"
    by (auto simp: publish_synthesis_object_def split: option.splits sum.splits)
  then show ?thesis
    using decrypt_encrypt_aead [OF assms(1) ct] codec_okD [OF assms(2)]
    by (simp add: consume_synthesis_object_def)
qed

text \<open>
  Publishing and consuming: what is consumed from a published envelope under the same key is the
  object itself, and an envelope consumed under any key yields an object with exactly the routing
  fields of the envelope.
\<close>

theorem publish_consume:
  assumes "aead_ok lib" and "codec_ok to_vec from_slice"
  shows "(\<forall>enc. publish_synthesis_object lib to_vec nonce obj key = Inr enc \<longrightarrow>
       consume_synthesis_object lib from_slice enc key = Inr obj) \<and>
    (\<forall>env key2 got. consume_synthesis_object lib from_slice env key2 = Inr got \<longrightarrow>
       so_id got = eo_object_id env \<and> so_scope_id got = eo_scope_id env \<and> so_window_id got = eo_window_id env)"
proof (intro conjI allI impI)
  fix enc
  assume "publish_synthesis_object lib to_vec nonce obj key = Inr enc"
  then show "consume_synthesis_object lib from_slice enc key = Inr obj"
    by (rule consume_published [OF assms])
next
  fix env key2 got
  assume "consume_synthesis_object lib from_slice env key2 = Inr got"
  then show "so_id got = eo_object_id env" "so_scope_id got = eo_scope_id env" "so_window_id got = eo_window_id env"
    by (auto simp: consume_synthesis_object_def split: sum.splits option.splits if_splits)
qed

text \<open>A codec for one object, for evaluation.\<close>

definition sample_object :: synthesis_object where
  "sample_object = synthesis_object_new 4 0 9 1 ChannelRecap [1, 2] 0"

theorem publish_consume_witness:
  "case publish_synthesis_object tag_lib (\<lambda>obj. if obj = sample_object then Some [7] else None) (replicate 24 3)
      sample_object (replicate 32 5) of
     Inl _ \<Rightarrow> False
   | Inr enc \<Rightarrow> consume_synthesis_object tag_lib (\<lambda>_. Some sample_object) enc (replicate 32 5) = Inr sample_object"
proof -
  let ?to = "\<lambda>obj. if obj = sample_object then Some [7] else None"
  have "codec_ok ?to (\<lambda>_. Some sample_object)" by (simp add: codec_ok_def)
  from publish_consume [OF tag_lib_ok(1) this, of "replicate 24 3" sample_object "replicate 32 5"] show ?thesis
    by (simp add: publish_synthesis_object_def encrypt_aead_def tag_lib_def del: replicate.simps)
qed

section \<open>Where the documentation and the code differ\<close>

text \<open>
  A prune given a window of another scope does not ignore it: the window is dropped by id while the
  other scope's index still lists it.
\<close>

lemma foreign_prune_breaks_index:
  "let m = window_exec (WOpen 2 0 8 0 5) (window_exec (WOpen 1 0 9 0 5) window_manager_new);
       m1 = remove_windows 9 {2} m
   in windows_ok m \<and> get_window 2 m1 = None \<and> wm_by_scope m1 8 = Some [2] \<and> \<not> windows_ok m1"
proof -
  let ?m = "window_exec (WOpen 2 0 8 0 5) (window_exec (WOpen 1 0 9 0 5) window_manager_new)"
  have "window_reach ?m"
    by (intro window_reach.intros) (simp_all add: window_manager_new_def open_window_def synthesis_window_new_def)
  moreover have "get_window 2 (remove_windows 9 {2} ?m) = None" "wm_by_scope (remove_windows 9 {2} ?m) 8 = Some [2]"
    by (simp_all add: window_manager_new_def open_window_def synthesis_window_new_def remove_windows_def get_window_def)
  moreover from this have "\<not> windows_ok (remove_windows 9 {2} ?m)"
    using windows_ok_indexD [of "remove_windows 9 {2} ?m" 2 8] by (auto simp: get_window_def)
  ultimately show ?thesis
    unfolding Let_def using window_reach_ok by blast
qed

text \<open>The status declared terminal has a transition out of it.\<close>

lemma complete_is_not_terminal:
  "window_is_terminal WComplete \<and>
   (let m = fold window_exec [WOpen 1 0 9 0 5, WClaim 1, WFinish 1] window_manager_new
    in map_option sw_status (get_window 1 m) = Some WComplete \<and>
       map_option sw_status (get_window 1 (window_exec (WReplay 1) m)) = Some WPending)"
  by (simp add: window_is_terminal_def window_manager_new_def open_window_def synthesis_window_new_def
      mark_defs find_mut_def get_window_def Let_def)

text \<open>
  The channel scope of a wrapped output is a public field: rewritten after the check, it admits an
  object of an unregistered channel into a domain bundle.
\<close>

lemma smuggled_channel_scope:
  "let obj = synthesis_object_new 4 0 77 1 ChannelRecap [] 0; domain = attach_channel_scope 0 5 (domain_new 8 0 9)
   in (case from_channel_object obj of Inl _ \<Rightarrow> False
       | Inr out \<Rightarrow> (\<exists>input. domain_input_new 0 domain [out\<lparr>co_channel_scope := 5\<rparr>] = Inr input) \<and>
           so_scope_id (co_object out) \<notin> set (dm_channel_scopes domain))"
  by (simp add: Let_def from_channel_object_def synthesis_object_new_def synthesis_object_with_version_def
      attach_channel_scope_def domain_new_def domain_input_new_def)

text \<open>
  A document passes for an admitted one by its id alone: its label, approver and approval time are
  not compared.
\<close>

lemma document_admitted_by_id_alone:
  "let tenant = admit_approved_document 0 (approved_document_ref_new 3 0 ''Policy v3'' ''compliance'') (tenant_memory_new 8 0 9);
       forged = approved_document_new (approved_document_ref_new 3 7 ''Policy v4'' ''nobody'') [1]
   in \<exists>input. tenant_input_new 0 tenant [] [forged] = Inr input \<and>
        doc_reference forged \<notin> set (tm_approved_documents tenant)"
  by (simp add: Let_def admit_approved_document_def approved_document_ref_new_def tenant_memory_new_def
      approved_document_new_def tenant_input_new_def)

end
