(* ===== verification/Utf8_Text.thy ===== *)
theory Utf8_Text
  imports Knowledge_Prelude
begin

text \<open>
  Text as the \<^verbatim>\<open>String\<close> and \<^verbatim>\<open>str\<close> types of the sources have it: a list of Unicode scalar values with
  its UTF-8 encoding (\<^verbatim>\<open>into_bytes\<close>, \<^verbatim>\<open>str::from_utf8\<close>), byte offsets of a prefix and substring search.
\<close>

type_synonym scalar = nat
type_synonym utext = "scalar list"

definition is_scalar :: "nat \<Rightarrow> bool" where
  "is_scalar c \<longleftrightarrow> c < 0x110000 \<and> \<not> (0xD800 \<le> c \<and> c < 0xE000)"

definition lit :: "string \<Rightarrow> utext" where
  "lit s = map of_char s"

section \<open>Encoding\<close>

definition byte_of :: "nat \<Rightarrow> byte" where
  "byte_of n = of_nat n"

definition utf8_char :: "scalar \<Rightarrow> byte list" where
  "utf8_char c =
     (if c < 0x80 then [byte_of c]
      else if c < 0x800 then [byte_of (0xC0 + c div 64), byte_of (0x80 + c mod 64)]
      else if c < 0x10000
      then [byte_of (0xE0 + c div 4096), byte_of (0x80 + c div 64 mod 64), byte_of (0x80 + c mod 64)]
      else [byte_of (0xF0 + c div 262144), byte_of (0x80 + c div 4096 mod 64),
            byte_of (0x80 + c div 64 mod 64), byte_of (0x80 + c mod 64)])"

definition utf8_len :: "scalar \<Rightarrow> nat" where
  "utf8_len c = (if c < 0x80 then 1 else if c < 0x800 then 2 else if c < 0x10000 then 3 else 4)"

definition utf8_encode :: "utext \<Rightarrow> byte list" where
  "utf8_encode s = concat (map utf8_char s)"

definition text_len :: "utext \<Rightarrow> nat" where
  "text_len s = sum_list (map utf8_len s)"

section \<open>Decoding\<close>

text \<open>
  One scalar value from the front: the lead byte gives the number of continuation bytes; overlong
  forms, surrogates and values past the last scalar are rejected.
\<close>

definition is_cont :: "byte \<Rightarrow> bool" where
  "is_cont b \<longleftrightarrow> 0x80 \<le> unat b \<and> unat b < 0xC0"

fun utf8_next :: "byte list \<Rightarrow> (scalar \<times> byte list) option" where
  "utf8_next [] = None"
| "utf8_next (b0 # bs) =
     (let n = unat b0 in
      if n < 0x80 then Some (n, bs)
      else if n < 0xC0 then None
      else if n < 0xE0 then
        (case bs of b1 # r \<Rightarrow>
           (let c = (n - 0xC0) * 64 + (unat b1 - 0x80)
            in if is_cont b1 \<and> 0x80 \<le> c then Some (c, r) else None)
         | _ \<Rightarrow> None)
      else if n < 0xF0 then
        (case bs of b1 # b2 # r \<Rightarrow>
           (let c = (n - 0xE0) * 4096 + (unat b1 - 0x80) * 64 + (unat b2 - 0x80)
            in if is_cont b1 \<and> is_cont b2 \<and> 0x800 \<le> c \<and> is_scalar c then Some (c, r) else None)
         | _ \<Rightarrow> None)
      else if n < 0xF8 then
        (case bs of b1 # b2 # b3 # r \<Rightarrow>
           (let c = (n - 0xF0) * 262144 + (unat b1 - 0x80) * 4096 + (unat b2 - 0x80) * 64 + (unat b3 - 0x80)
            in if is_cont b1 \<and> is_cont b2 \<and> is_cont b3 \<and> 0x10000 \<le> c \<and> is_scalar c then Some (c, r) else None)
         | _ \<Rightarrow> None)
      else None)"

lemma utf8_next_shorter: "utf8_next bs = Some (c, r) \<Longrightarrow> length r < length bs"
  by (cases bs) (auto simp: Let_def split: if_splits list.splits)

function utf8_decode :: "byte list \<Rightarrow> utext option" where
  "utf8_decode bs =
     (if bs = [] then Some []
      else (case utf8_next bs of None \<Rightarrow> None
            | Some (c, r) \<Rightarrow> map_option (Cons c) (utf8_decode r)))"
  by pat_completeness auto
termination utf8_decode
  by (relation "measure length") (auto dest: utf8_next_shorter)

declare utf8_decode.simps [simp del]

lemma utf8_decode_Nil [simp]: "utf8_decode [] = Some []"
  by (simp add: utf8_decode.simps)

section \<open>Lemmas\<close>

lemma unat_byte_of [simp]: "n < 256 \<Longrightarrow> unat (byte_of n) = n"
  by (simp add: byte_of_def unat_of_nat)

lemma length_utf8_char [simp]: "length (utf8_char c) = utf8_len c"
  by (simp add: utf8_char_def utf8_len_def)

lemma utf8_len_pos [simp]: "0 < utf8_len c"
  by (simp add: utf8_len_def)

lemma length_utf8_encode: "length (utf8_encode s) = text_len s"
  by (induction s) (simp_all add: utf8_encode_def text_len_def)

lemma base64_split:
  fixes c :: nat
  shows "c div 64 * 64 + c mod 64 = c"
    and "c div 4096 * 4096 + c div 64 mod 64 * 64 + c mod 64 = c"
    and "c div 262144 * 262144 + c div 4096 mod 64 * 4096 + c div 64 mod 64 * 64 + c mod 64 = c"
proof -
  have q: "c div 64 div 64 = c div 4096" "c div 4096 div 64 = c div 262144"
    by (simp_all flip: div_mult2_eq)
  note parts = div_mult_mod_eq [of c 64] div_mult_mod_eq [of "c div 64" 64] div_mult_mod_eq [of "c div 4096" 64]
  show "c div 64 * 64 + c mod 64 = c"
    and "c div 4096 * 4096 + c div 64 mod 64 * 64 + c mod 64 = c"
    and "c div 262144 * 262144 + c div 4096 mod 64 * 4096 + c div 64 mod 64 * 64 + c mod 64 = c"
    using parts unfolding q by linarith+
qed

lemma utf8_next_char:
  assumes "is_scalar c"
  shows "utf8_next (utf8_char c @ r) = Some (c, r)"
proof -
  consider "c < 0x80" | "0x80 \<le> c" "c < 0x800" | "0x800 \<le> c" "c < 0x10000" | "0x10000 \<le> c" "c < 0x110000"
    using assms by (fastforce simp: is_scalar_def)
  then show ?thesis
  proof cases
    case 2
    define q where "q = c div 64"
    have "q < 32" using 2 by (simp add: q_def less_mult_imp_div_less)
    moreover have "c mod 64 < 64" by simp
    ultimately show ?thesis
      using 2 base64_split(1) [of c] by (simp add: utf8_char_def is_cont_def Let_def flip: q_def)
  next
    case 3
    then have "c div 4096 < 16" by (simp add: less_mult_imp_div_less)
    moreover have "c div 64 mod 64 < 64" "c mod 64 < 64" by simp_all
    ultimately show ?thesis
      using 3 assms base64_split(2) [of c] by (simp add: utf8_char_def is_cont_def Let_def)
  next
    case 4
    then have "c div 262144 < 5" by (simp add: less_mult_imp_div_less)
    moreover have "c div 4096 mod 64 < 64" "c div 64 mod 64 < 64" "c mod 64 < 64" by simp_all
    ultimately show ?thesis
      using 4 assms base64_split(3) [of c] by (simp add: utf8_char_def is_cont_def Let_def)
  qed (simp add: utf8_char_def Let_def)
qed

lemma utf8_char_nonempty [simp]: "utf8_char c \<noteq> []"
  by (simp add: utf8_char_def)

text \<open>Bytes made from text decode to that text.\<close>

lemma utf8_decode_encode: "\<forall>c \<in> set s. is_scalar c \<Longrightarrow> utf8_decode (utf8_encode s) = Some s"
proof (induction s)
  case (Cons c s)
  then show ?case
    by (subst utf8_decode.simps) (simp add: utf8_encode_def utf8_next_char)
qed (simp add: utf8_encode_def)

lemma lit_scalar [simp]: "c \<in> set (lit s) \<Longrightarrow> is_scalar c"
proof -
  assume "c \<in> set (lit s)"
  then obtain x where "c = of_char x" by (auto simp: lit_def)
  moreover have "of_char x < (256 :: nat)" by (rule nat_of_char_less_256)
  ultimately have "c < 256" by (simp only:)
  then show ?thesis by (simp add: is_scalar_def)
qed

end
