(* ===== verification/Synth_Engine.thy ===== *)
theory Synth_Engine
  imports Synth_Window Utf8_Text
begin

text \<open>
  The server-side synthesis engine (\<^verbatim>\<open>synthesis_engine/src\<close>: \<^verbatim>\<open>rate_limiter.rs\<close>, \<^verbatim>\<open>managed_endpoint.rs\<close>,
  \<^verbatim>\<open>stub.rs\<close>, \<^verbatim>\<open>batcher.rs\<close>, \<^verbatim>\<open>error.rs\<close>): the fixed-window rate limiter, the endpoint synthesizer that
  drives a window through its lifecycle, and the batcher in front of it. The HTTP client is a
  parameter; the requests it was given are recorded in the state. Monotonic instants count
  nanoseconds and their differences saturate at zero, as \<^verbatim>\<open>Instant::duration_since\<close> does.
\<close>

section \<open>Errors\<close>

datatype engine_error =
    HierarchyError string
  | PipelineFailure pipeline_error
  | EndpointFailure string
  | EngineRefusal string

section \<open>The rate limiter\<close>

definition limiter_window :: duration where
  "limiter_window = duration_seconds 60"

record rate_limiter =
  rl_max :: "64 word"
  rl_count :: "64 word"
  rl_window_start :: instant

definition limiter_new :: "instant \<Rightarrow> 64 word \<Rightarrow> rate_limiter" where
  "limiter_new now max_per_minute = \<lparr>rl_max = max_per_minute, rl_count = 0, rl_window_start = now\<rparr>"

definition since :: "instant \<Rightarrow> instant \<Rightarrow> duration" where
  "since now earlier = max 0 (now - earlier)"

definition limiter_rotate :: "instant \<Rightarrow> rate_limiter \<Rightarrow> rate_limiter" where
  "limiter_rotate now rl =
     (if limiter_window \<le> since now (rl_window_start rl)
      then rl\<lparr>rl_window_start := now, rl_count := 0\<rparr> else rl)"

text \<open>The counter is incremented, and decremented again when the cap was reached.\<close>

definition limiter_check :: "instant \<Rightarrow> rate_limiter \<Rightarrow> (duration + unit) \<times> rate_limiter" where
  "limiter_check now rl0 =
     (let rl = limiter_rotate now rl0; prev = rl_count rl; rl1 = rl\<lparr>rl_count := prev + 1\<rparr>
      in if prev < rl_max rl then (Inr (), rl1)
         else (Inl (since (rl_window_start rl + limiter_window) now),
               rl1\<lparr>rl_count := rl_count rl1 - 1\<rparr>))"

definition current_window_count :: "rate_limiter \<Rightarrow> 64 word" where
  "current_window_count rl = rl_count rl"

section \<open>Endpoint configuration and envelopes\<close>

definition default_timeout :: duration where
  "default_timeout = duration_seconds 30"

definition default_max_tokens :: "32 word" where
  "default_max_tokens = 1024"

definition default_max_rpm :: "64 word" where
  "default_max_rpm = 60"

record endpoint_config =
  ep_url :: string
  ep_api_key_ref :: string
  ep_model_id :: string
  ep_max_tokens :: "32 word option"
  ep_timeout :: "duration option"
  ep_default_grammar :: "string option"
  ep_max_requests_per_minute :: "64 word option"

definition endpoint_config_new :: "string \<Rightarrow> string \<Rightarrow> string \<Rightarrow> endpoint_config" where
  "endpoint_config_new url api_key_ref model_id =
     \<lparr>ep_url = url, ep_api_key_ref = api_key_ref, ep_model_id = model_id, ep_max_tokens = None,
      ep_timeout = None, ep_default_grammar = None, ep_max_requests_per_minute = Some default_max_rpm\<rparr>"

definition with_max_requests_per_minute :: "64 word \<Rightarrow> endpoint_config \<Rightarrow> endpoint_config" where
  "with_max_requests_per_minute n cfg = cfg\<lparr>ep_max_requests_per_minute := Some n\<rparr>"

definition with_max_tokens :: "32 word \<Rightarrow> endpoint_config \<Rightarrow> endpoint_config" where
  "with_max_tokens n cfg = cfg\<lparr>ep_max_tokens := Some n\<rparr>"

definition with_timeout :: "duration \<Rightarrow> endpoint_config \<Rightarrow> endpoint_config" where
  "with_timeout t cfg = cfg\<lparr>ep_timeout := Some t\<rparr>"

definition with_grammar :: "string \<Rightarrow> endpoint_config \<Rightarrow> endpoint_config" where
  "with_grammar g cfg = cfg\<lparr>ep_default_grammar := Some g\<rparr>"

definition effective_max_tokens :: "endpoint_config \<Rightarrow> 32 word" where
  "effective_max_tokens cfg = (case ep_max_tokens cfg of None \<Rightarrow> default_max_tokens | Some n \<Rightarrow> n)"

definition effective_timeout :: "endpoint_config \<Rightarrow> duration" where
  "effective_timeout cfg = (case ep_timeout cfg of None \<Rightarrow> default_timeout | Some t \<Rightarrow> t)"

definition effective_max_requests_per_minute :: "endpoint_config \<Rightarrow> 64 word option" where
  "effective_max_requests_per_minute cfg = ep_max_requests_per_minute cfg"

record input_object_ref =
  io_object_id :: uuid
  io_scope_id :: uuid
  io_tier :: window_scope_tier
  io_payload_preview :: utext

record synthesis_request =
  rq_scope_tier :: window_scope_tier
  rq_target_scope :: uuid
  rq_input_objects :: "input_object_ref list"
  rq_prompt_template :: string
  rq_grammar :: "string option"
  rq_max_tokens :: "32 word"
  rq_model_id :: string

record synthesis_response =
  rp_output_text :: utext
  rp_model_version :: string
  rp_tokens_used :: "32 word"
  rp_latency_ms :: "64 word"

datatype endpoint_error =
    EpTimeout duration
  | EpRateLimited string
  | EpInvalidResponse string
  | EpEndpoint string
  | EpInvalidRequest string
  | EpTransport string

text \<open>
  The display form of an error; \<open>show_dur\<close> is the \<^verbatim>\<open>Debug\<close> form of a duration.
\<close>

fun endpoint_error_display :: "(duration \<Rightarrow> string) \<Rightarrow> endpoint_error \<Rightarrow> string" where
  "endpoint_error_display show_dur (EpTimeout d) = ''synthesis request timed out after '' @ show_dur d"
| "endpoint_error_display show_dur (EpRateLimited m) = ''synthesis endpoint rate-limited: '' @ m"
| "endpoint_error_display show_dur (EpInvalidResponse m) = ''malformed synthesis response: '' @ m"
| "endpoint_error_display show_dur (EpEndpoint m) = ''synthesis endpoint error: '' @ m"
| "endpoint_error_display show_dur (EpInvalidRequest m) = ''malformed synthesis request: '' @ m"
| "endpoint_error_display show_dur (EpTransport m) = ''synthesis transport error: '' @ m"

definition ellipsis :: scalar where
  "ellipsis = 0x2026"

text \<open>Lower-case hexadecimal of a byte, two digits.\<close>

definition hex_byte :: "byte \<Rightarrow> utext" where
  "hex_byte b = (let n = unat b in lit [hex_digit (n div 16), hex_digit (n mod 16)])"

definition render_preview :: "byte list \<Rightarrow> nat \<Rightarrow> utext" where
  "render_preview payload max_chars =
     (let limit = max max_chars 16 in
      case utf8_decode payload of
        Some s \<Rightarrow> if length s \<le> limit then s else take limit s @ [ellipsis]
      | None \<Rightarrow> concat (map hex_byte (take limit payload)))"

definition default_domain_prompt :: string where
  "default_domain_prompt =
     ''Summarise the following channel recaps for the domain. Output a concise recap.''"

definition default_tenant_prompt :: string where
  "default_tenant_prompt =
     ''Summarise the following domain summaries and approved documents for the tenant. '' @
     ''Output a concise institutional recap.''"

definition payload_preview_chars :: nat where
  "payload_preview_chars = 512"

section \<open>The endpoint synthesizer\<close>

record endpoint_synthesizer =
  hs_cfg :: endpoint_config
  hs_provenance_ref :: uuid
  hs_domain_prompt :: "string option"
  hs_tenant_prompt :: "string option"
  hs_rate_limiter :: "rate_limiter option"
  hs_sent :: "synthesis_request list"

text \<open>
  \<open>hs_sent\<close> is the history of the client: every request it was asked to send. The client answers the
  \<open>n\<close>-th request with \<open>send n\<close>.
\<close>

type_synonym http_client = "nat \<Rightarrow> endpoint_config \<Rightarrow> synthesis_request \<Rightarrow> endpoint_error + synthesis_response"

definition synthesizer_new :: "instant \<Rightarrow> endpoint_config \<Rightarrow> endpoint_synthesizer" where
  "synthesizer_new now cfg =
     \<lparr>hs_cfg = cfg, hs_provenance_ref = 0, hs_domain_prompt = None, hs_tenant_prompt = None,
      hs_rate_limiter = map_option (limiter_new now) (effective_max_requests_per_minute cfg), hs_sent = []\<rparr>"

definition with_rate_limit :: "instant \<Rightarrow> 64 word \<Rightarrow> endpoint_synthesizer \<Rightarrow> endpoint_synthesizer" where
  "with_rate_limit now max_per_minute hs = hs\<lparr>hs_rate_limiter := Some (limiter_new now max_per_minute)\<rparr>"

definition with_shared_rate_limiter :: "rate_limiter \<Rightarrow> endpoint_synthesizer \<Rightarrow> endpoint_synthesizer" where
  "with_shared_rate_limiter limiter hs = hs\<lparr>hs_rate_limiter := Some limiter\<rparr>"

definition set_config :: "instant \<Rightarrow> endpoint_config \<Rightarrow> endpoint_synthesizer \<Rightarrow> endpoint_synthesizer" where
  "set_config now cfg hs =
     hs\<lparr>hs_rate_limiter := map_option (limiter_new now) (effective_max_requests_per_minute cfg), hs_cfg := cfg\<rparr>"

definition build_request :: "endpoint_synthesizer \<Rightarrow> window_scope_tier \<Rightarrow> uuid \<Rightarrow> input_object_ref list \<Rightarrow> string \<Rightarrow>
    synthesis_request" where
  "build_request hs scope_tier target_scope input_objects prompt_template =
     \<lparr>rq_scope_tier = scope_tier, rq_target_scope = target_scope, rq_input_objects = input_objects,
      rq_prompt_template = prompt_template, rq_grammar = ep_default_grammar (hs_cfg hs),
      rq_max_tokens = effective_max_tokens (hs_cfg hs), rq_model_id = ep_model_id (hs_cfg hs)\<rparr>"

definition check_rate_limit :: "(duration \<Rightarrow> string) \<Rightarrow> instant \<Rightarrow> endpoint_synthesizer \<Rightarrow>
    (engine_error + unit) \<times> endpoint_synthesizer" where
  "check_rate_limit show_dur now hs =
     (case hs_rate_limiter hs of None \<Rightarrow> (Inr (), hs)
      | Some limiter \<Rightarrow>
        (case limiter_check now limiter of
           (Inr _, l1) \<Rightarrow> (Inr (), hs\<lparr>hs_rate_limiter := Some l1\<rparr>)
         | (Inl remaining, l1) \<Rightarrow>
             (Inl (EngineRefusal (''rate limited; retry after '' @ show_dur remaining @ '' (cap '' @
                nat_display (unat (rl_max limiter)) @ '' req/min)'')), hs\<lparr>hs_rate_limiter := Some l1\<rparr>)))"

definition dispatch :: "(duration \<Rightarrow> string) \<Rightarrow> http_client \<Rightarrow> synthesis_request \<Rightarrow> endpoint_synthesizer \<Rightarrow>
    (engine_error + synthesis_response) \<times> endpoint_synthesizer" where
  "dispatch show_dur send req hs =
     (let hs1 = hs\<lparr>hs_sent := hs_sent hs @ [req]\<rparr> in
      case send (length (hs_sent hs)) (hs_cfg hs) req of
        Inl e \<Rightarrow> (Inl (EndpointFailure (endpoint_error_display show_dur e)), hs1)
      | Inr resp \<Rightarrow>
          if rp_output_text resp = []
          then (Inl (EndpointFailure ''synthesis endpoint returned empty output_text''), hs1)
          else if rp_model_version resp = []
          then (Inl (EndpointFailure ''synthesis endpoint returned empty model_version''), hs1)
          else (Inr resp, hs1))"

fun map_validation_error :: "pipeline_error \<Rightarrow> engine_error" where
  "map_validation_error (HierarchyViolation msg) = HierarchyError msg"
| "map_validation_error other = PipelineFailure other"

definition domain_input_refs :: "domain_synthesis_input \<Rightarrow> input_object_ref list" where
  "domain_input_refs input =
     map (\<lambda>c. \<lparr>io_object_id = so_id (co_object c), io_scope_id = co_channel_scope c, io_tier = ChannelTier,
        io_payload_preview = render_preview (so_payload (co_object c)) payload_preview_chars\<rparr>)
       (di_channel_outputs input)"

definition tenant_input_refs :: "tenant_synthesis_input \<Rightarrow> input_object_ref list" where
  "tenant_input_refs input =
     map (\<lambda>d. \<lparr>io_object_id = so_id (do_object d), io_scope_id = do_domain_scope d, io_tier = DomainTier,
        io_payload_preview = render_preview (so_payload (do_object d)) payload_preview_chars\<rparr>)
       (ti_domain_outputs input) @
     map (\<lambda>doc. \<lparr>io_object_id = ad_id (doc_reference doc), io_scope_id = ti_tenant_scope input,
        io_tier = TenantTier, io_payload_preview = render_preview (doc_payload doc) payload_preview_chars\<rparr>)
       (ti_approved_documents input)"

text \<open>
  The environment of one synthesis call: the client, the reading of the monotonic clock at the rate
  check, and the identifier and wall-clock time of the object that is built.
\<close>

record synth_env =
  sx_send :: http_client
  sx_show :: "duration \<Rightarrow> string"
  sx_now :: instant
  sx_fresh :: uuid
  sx_created :: instant

text \<open>
  The common tail of both calls, from the rate check on: claim the window, dispatch, and complete it
  with the object or fail it.
\<close>

definition run_synthesis :: "synth_env \<Rightarrow> uuid \<Rightarrow> (endpoint_synthesizer \<Rightarrow> synthesis_request) \<Rightarrow>
    (byte list \<Rightarrow> uuid \<Rightarrow> synthesis_object) \<Rightarrow> endpoint_synthesizer \<Rightarrow> window_manager \<Rightarrow>
    (engine_error + synthesis_object) \<times> endpoint_synthesizer \<times> window_manager" where
  "run_synthesis x window_id req build hs m =
     (case check_rate_limit (sx_show x) (sx_now x) hs of
        (Inl e, hs1) \<Rightarrow> (Inl e, hs1, m)
      | (Inr _, hs1) \<Rightarrow>
        (case mark_in_progress window_id m of
           (Inl e, m1) \<Rightarrow> (Inl (PipelineFailure e), hs1, m1)
         | (Inr _, m1) \<Rightarrow>
           (case dispatch (sx_show x) (sx_send x) (req hs1) hs1 of
              (Inl e, hs2) \<Rightarrow> (Inl e, hs2, snd (mark_failed window_id m1))
            | (Inr resp, hs2) \<Rightarrow>
              (let obj = build (utf8_encode (rp_output_text resp)) (hs_provenance_ref hs2) in
               case mark_complete window_id m1 of
                 (Inl e, m2) \<Rightarrow> (Inl (PipelineFailure e), hs2, m2)
               | (Inr _, m2) \<Rightarrow> (Inr obj, hs2, m2)))))"

definition synthesize_domain :: "synth_env \<Rightarrow> tiered_window_handle \<Rightarrow> domain_synthesis_input \<Rightarrow>
    endpoint_synthesizer \<Rightarrow> window_manager \<Rightarrow>
    (engine_error + synthesis_object) \<times> endpoint_synthesizer \<times> window_manager" where
  "synthesize_domain x handle input hs m =
     (case validate_domain_input handle input m of
        Inl e \<Rightarrow> (Inl (map_validation_error e), hs, m)
      | Inr _ \<Rightarrow>
        if di_channel_outputs input = []
        then (Inl (HierarchyError ''domain synthesis requires at least one channel output''), hs, m)
        else run_synthesis x (th_window_id handle)
          (\<lambda>hs1. build_request hs1 DomainTier (di_domain_scope input) (domain_input_refs input)
             (case hs_domain_prompt hs1 of None \<Rightarrow> default_domain_prompt | Some p \<Rightarrow> p))
          (\<lambda>payload prov. build_domain_summary_object (sx_fresh x) (sx_created x) (di_domain_scope input)
             (th_window_id handle) payload prov) hs m)"

definition synthesize_tenant :: "synth_env \<Rightarrow> tiered_window_handle \<Rightarrow> tenant_synthesis_input \<Rightarrow>
    endpoint_synthesizer \<Rightarrow> window_manager \<Rightarrow>
    (engine_error + synthesis_object) \<times> endpoint_synthesizer \<times> window_manager" where
  "synthesize_tenant x handle input hs m =
     (case validate_tenant_input handle input m of
        Inl e \<Rightarrow> (Inl (map_validation_error e), hs, m)
      | Inr _ \<Rightarrow>
        if ti_domain_outputs input = []
        then (Inl (HierarchyError ''tenant synthesis requires at least one domain output''), hs, m)
        else run_synthesis x (th_window_id handle)
          (\<lambda>hs1. build_request hs1 TenantTier (ti_tenant_scope input) (tenant_input_refs input)
             (case hs_tenant_prompt hs1 of None \<Rightarrow> default_tenant_prompt | Some p \<Rightarrow> p))
          (\<lambda>payload prov. build_tenant_summary_object (sx_fresh x) (sx_created x) (ti_tenant_scope input)
             (th_window_id handle) payload prov) hs m)"

section \<open>The stub\<close>

fun join_newline :: "byte list list \<Rightarrow> byte list" where
  "join_newline [] = []"
| "join_newline [p] = p"
| "join_newline (p # ps) = p @ 10 # join_newline ps"

definition stub_synthesize_domain :: "uuid \<Rightarrow> instant \<Rightarrow> uuid \<Rightarrow> tiered_window_handle \<Rightarrow> domain_synthesis_input \<Rightarrow>
    window_manager \<Rightarrow> (engine_error + synthesis_object) \<times> window_manager" where
  "stub_synthesize_domain fresh created prov handle input m =
     (case validate_domain_input handle input m of
        Inl e \<Rightarrow> (Inl (map_validation_error e), m)
      | Inr _ \<Rightarrow>
        (case mark_in_progress (th_window_id handle) m of
           (Inl e, m1) \<Rightarrow> (Inl (PipelineFailure e), m1)
         | (Inr _, m1) \<Rightarrow>
           (let payload = string_bytes ''domain:'' @
                  join_newline (map (\<lambda>c. so_payload (co_object c)) (di_channel_outputs input));
                obj = build_domain_summary_object fresh created (di_domain_scope input) (th_window_id handle) payload prov
            in case mark_complete (th_window_id handle) m1 of
                 (Inl e, m2) \<Rightarrow> (Inl (PipelineFailure e), m2)
               | (Inr _, m2) \<Rightarrow> (Inr obj, m2))))"

definition stub_synthesize_tenant :: "uuid \<Rightarrow> instant \<Rightarrow> uuid \<Rightarrow> tiered_window_handle \<Rightarrow> tenant_synthesis_input \<Rightarrow>
    window_manager \<Rightarrow> (engine_error + synthesis_object) \<times> window_manager" where
  "stub_synthesize_tenant fresh created prov handle input m =
     (case validate_tenant_input handle input m of
        Inl e \<Rightarrow> (Inl (map_validation_error e), m)
      | Inr _ \<Rightarrow>
        (case mark_in_progress (th_window_id handle) m of
           (Inl e, m1) \<Rightarrow> (Inl (PipelineFailure e), m1)
         | (Inr _, m1) \<Rightarrow>
           (let payload = string_bytes ''tenant:'' @
                  join_newline (map (\<lambda>d. so_payload (do_object d)) (ti_domain_outputs input)) @
                  concat (map (\<lambda>d. 10 # string_bytes ''doc:'' @ doc_payload d) (ti_approved_documents input));
                obj = build_tenant_summary_object fresh created (ti_tenant_scope input) (th_window_id handle) payload prov
            in case mark_complete (th_window_id handle) m1 of
                 (Inl e, m2) \<Rightarrow> (Inl (PipelineFailure e), m2)
               | (Inr _, m2) \<Rightarrow> (Inr obj, m2))))"

section \<open>The batcher\<close>

text \<open>
  A submission is a ticket: the receiving end of its one-shot channel. The replies sent so far are a
  list of tickets with their results; a dropped batcher closes the channels of what is still pending.
\<close>

datatype pending_kind =
    PendingDomain tiered_window_handle domain_synthesis_input nat
  | PendingTenant tiered_window_handle tenant_synthesis_input nat

record pending =
  pn_kind :: pending_kind
  pn_enqueued_at :: instant

record synthesis_batcher =
  sb_synthesizer :: endpoint_synthesizer
  sb_batch_size :: nat
  sb_batch_timeout :: duration
  sb_pending :: "pending list"
  sb_next_ticket :: nat
  sb_replies :: "(nat \<times> (engine_error + synthesis_object)) list"

text \<open>\<open>None\<close> is the panic of the assertion.\<close>

definition batcher_new :: "endpoint_synthesizer \<Rightarrow> nat \<Rightarrow> duration \<Rightarrow> synthesis_batcher option" where
  "batcher_new hs batch_size batch_timeout =
     (if 0 < batch_size
      then Some \<lparr>sb_synthesizer = hs, sb_batch_size = batch_size, sb_batch_timeout = batch_timeout,
        sb_pending = [], sb_next_ticket = 0, sb_replies = []\<rparr>
      else None)"

definition batcher_with_shared_rate_limiter ::
  "endpoint_synthesizer \<Rightarrow> nat \<Rightarrow> duration \<Rightarrow> rate_limiter \<Rightarrow> synthesis_batcher option" where
  "batcher_with_shared_rate_limiter hs batch_size batch_timeout limiter =
     batcher_new (with_shared_rate_limiter limiter hs) batch_size batch_timeout"

definition pending_len :: "synthesis_batcher \<Rightarrow> nat" where
  "pending_len b = length (sb_pending b)"

definition submit_domain :: "instant \<Rightarrow> tiered_window_handle \<Rightarrow> domain_synthesis_input \<Rightarrow> synthesis_batcher \<Rightarrow>
    nat \<times> synthesis_batcher" where
  "submit_domain now handle input b =
     (let t = sb_next_ticket b in
      (t, b\<lparr>sb_pending := sb_pending b @ [\<lparr>pn_kind = PendingDomain handle input t, pn_enqueued_at = now\<rparr>],
            sb_next_ticket := t + 1\<rparr>))"

definition submit_tenant :: "instant \<Rightarrow> tiered_window_handle \<Rightarrow> tenant_synthesis_input \<Rightarrow> synthesis_batcher \<Rightarrow>
    nat \<times> synthesis_batcher" where
  "submit_tenant now handle input b =
     (let t = sb_next_ticket b in
      (t, b\<lparr>sb_pending := sb_pending b @ [\<lparr>pn_kind = PendingTenant handle input t, pn_enqueued_at = now\<rparr>],
            sb_next_ticket := t + 1\<rparr>))"

definition should_flush :: "instant \<Rightarrow> synthesis_batcher \<Rightarrow> bool" where
  "should_flush now b =
     (if sb_batch_size b \<le> length (sb_pending b) then True
      else (case sb_pending b of [] \<Rightarrow> False
            | first # _ \<Rightarrow> sb_batch_timeout b \<le> since now (pn_enqueued_at first)))"

fun dispatch_pending :: "synth_env \<Rightarrow> pending_kind \<Rightarrow> endpoint_synthesizer \<Rightarrow> window_manager \<Rightarrow>
    (nat \<times> (engine_error + synthesis_object)) \<times> endpoint_synthesizer \<times> window_manager" where
  "dispatch_pending x (PendingDomain handle input t) hs m =
     (case synthesize_domain x handle input hs m of (r, hs1, m1) \<Rightarrow> ((t, r), hs1, m1))"
| "dispatch_pending x (PendingTenant handle input t) hs m =
     (case synthesize_tenant x handle input hs m of (r, hs1, m1) \<Rightarrow> ((t, r), hs1, m1))"

text \<open>The loop of a flush; \<open>xs i\<close> is the environment of the \<open>i\<close>-th call.\<close>

fun flush_loop :: "(nat \<Rightarrow> synth_env) \<Rightarrow> nat \<Rightarrow> pending list \<Rightarrow> endpoint_synthesizer \<Rightarrow> window_manager \<Rightarrow>
    (nat \<times> (engine_error + synthesis_object)) list \<times> endpoint_synthesizer \<times> window_manager" where
  "flush_loop xs i [] hs m = ([], hs, m)"
| "flush_loop xs i (p # ps) hs m =
     (case dispatch_pending (xs i) (pn_kind p) hs m of
        (reply, hs1, m1) \<Rightarrow>
          (case flush_loop xs (i + 1) ps hs1 m1 of (replies, hs2, m2) \<Rightarrow> (reply # replies, hs2, m2)))"

definition flush_now :: "(nat \<Rightarrow> synth_env) \<Rightarrow> synthesis_batcher \<Rightarrow> window_manager \<Rightarrow>
    nat \<times> synthesis_batcher \<times> window_manager" where
  "flush_now xs b m =
     (let drained = sb_pending b; b1 = b\<lparr>sb_pending := []\<rparr> in
      case flush_loop xs 0 drained (sb_synthesizer b1) m of
        (replies, hs1, m1) \<Rightarrow>
          (length drained, b1\<lparr>sb_synthesizer := hs1, sb_replies := sb_replies b1 @ replies\<rparr>, m1))"

definition flush_if_ready :: "instant \<Rightarrow> (nat \<Rightarrow> synth_env) \<Rightarrow> synthesis_batcher \<Rightarrow> window_manager \<Rightarrow>
    nat \<times> synthesis_batcher \<times> window_manager" where
  "flush_if_ready now xs b m = (if \<not> should_flush now b then (0, b, m) else flush_now xs b m)"

text \<open>
  The receiving end, while the batcher is alive or after it was dropped. The sender goes away with its
  reply, so a handle whose reply was taken is disconnected. \<^verbatim>\<open>wait\<close> blocks (\<open>None\<close>) while the ticket is
  pending.
\<close>

definition reply_dropped :: engine_error where
  "reply_dropped = EngineRefusal ''batcher dropped before this request was dispatched''"

definition try_take :: "bool \<Rightarrow> nat \<Rightarrow> synthesis_batcher \<Rightarrow> bool \<Rightarrow>
    (engine_error + synthesis_object option) \<times> bool" where
  "try_take alive t b taken =
     (case map_of (sb_replies b) t of
        Some r \<Rightarrow> if taken then (Inl reply_dropped, True)
          else (case r of Inr obj \<Rightarrow> (Inr (Some obj), True) | Inl e \<Rightarrow> (Inl e, True))
      | None \<Rightarrow> (if alive then Inr None else Inl reply_dropped, taken))"

definition pending_wait :: "bool \<Rightarrow> nat \<Rightarrow> synthesis_batcher \<Rightarrow> bool \<Rightarrow> (engine_error + synthesis_object) option" where
  "pending_wait alive t b taken =
     (case map_of (sb_replies b) t of Some r \<Rightarrow> Some (if taken then Inl reply_dropped else r)
      | None \<Rightarrow> if alive then None else Some (Inl reply_dropped))"

section \<open>Lemmas on the limiter\<close>

text \<open>The number of admissions of a run of checks, and the limiter after it.\<close>

fun limiter_run :: "instant list \<Rightarrow> rate_limiter \<Rightarrow> nat \<times> rate_limiter" where
  "limiter_run [] rl = (0, rl)"
| "limiter_run (t # ts) rl =
     (case limiter_check t rl of (r, rl1) \<Rightarrow>
        (case limiter_run ts rl1 of (n, rl2) \<Rightarrow> ((if r = Inr () then 1 else 0) + n, rl2)))"

definition limiter_ok :: "rate_limiter \<Rightarrow> bool" where
  "limiter_ok rl \<longleftrightarrow> rl_count rl \<le> rl_max rl"

lemma limiter_check_keeps [simp]: "rl_max (snd (limiter_check t rl)) = rl_max rl"
  by (simp add: limiter_check_def limiter_rotate_def Let_def)

lemma unat_inc64:
  fixes a b :: "64 word"
  assumes "a < b"
  shows "unat (a + 1) = unat a + 1"
proof -
  have "unat a < unat b" using assms by (simp add: word_less_nat_alt)
  moreover have "unat b < 2 ^ 64" using unsigned_less [of b, where ?'a = nat] by simp
  ultimately show ?thesis by (simp add: unat_word_ariths)
qed

lemma limiter_check_count:
  assumes "limiter_ok rl"
  shows "limiter_ok (snd (limiter_check t rl)) \<and>
    unat (rl_count (snd (limiter_check t rl))) =
      unat (rl_count (limiter_rotate t rl)) + (if fst (limiter_check t rl) = Inr () then 1 else 0) \<and>
    rl_window_start (snd (limiter_check t rl)) = rl_window_start (limiter_rotate t rl)"
proof -
  let ?rl = "limiter_rotate t rl"
  have "rl_count ?rl \<le> rl_max ?rl" using assms by (simp add: limiter_rotate_def limiter_ok_def)
  moreover have "rl_count ?rl < rl_max ?rl \<Longrightarrow> unat (rl_count ?rl + 1) = unat (rl_count ?rl) + 1 \<and> rl_count ?rl + 1 \<le> rl_max ?rl"
    using unat_inc64 [of "rl_count ?rl" "rl_max ?rl"] by (simp add: word_less_nat_alt word_le_nat_alt)
  ultimately show ?thesis
    by (auto simp: limiter_check_def limiter_ok_def Let_def)
qed

lemma limiter_run_ok: "limiter_ok rl \<Longrightarrow> limiter_ok (snd (limiter_run ts rl)) \<and> rl_max (snd (limiter_run ts rl)) = rl_max rl"
proof (induction ts arbitrary: rl)
  case (Cons t ts)
  obtain r rl1 where 1: "limiter_check t rl = (r, rl1)" by force
  then have "limiter_ok rl1" "rl_max rl1 = rl_max rl"
    using limiter_check_count [OF Cons.prems, of t] limiter_check_keeps [of t rl] by simp_all
  then show ?case using Cons.IH [of rl1] 1 by (cases "limiter_run ts rl1") simp
qed simp

text \<open>Within one window the count only grows, so what is admitted fits under the cap.\<close>

lemma limiter_run_same_window:
  assumes "limiter_ok rl" and "\<forall>t \<in> set ts. since t (rl_window_start rl) < limiter_window"
  shows "fst (limiter_run ts rl) + unat (rl_count rl) \<le> unat (rl_max rl)"
  using assms
proof (induction ts arbitrary: rl)
  case Nil
  then show ?case by (simp add: limiter_ok_def word_le_nat_alt)
next
  case (Cons t ts)
  obtain r rl1 where 1: "limiter_check t rl = (r, rl1)" by force
  have "limiter_rotate t rl = rl" using Cons.prems(2) by (simp add: limiter_rotate_def)
  then have c: "limiter_ok rl1" "rl_max rl1 = rl_max rl" "rl_window_start rl1 = rl_window_start rl"
      "unat (rl_count rl1) = unat (rl_count rl) + (if r = Inr () then 1 else 0)"
    using limiter_check_count [OF Cons.prems(1), of t] limiter_check_keeps [of t rl] 1 by simp_all
  then have "fst (limiter_run ts rl1) + unat (rl_count rl1) \<le> unat (rl_max rl)"
    using Cons.IH [of rl1] Cons.prems(2) by simp
  then show ?case using 1 c(4) by (auto split: prod.splits if_splits)
qed

text \<open>Readings that lie within one window length of each other see at most one rotation.\<close>

lemma limiter_run_interval:
  assumes "limiter_ok rl" and "\<forall>t \<in> set ts. a \<le> t \<and> t < a + limiter_window"
  shows "fst (limiter_run ts rl) + unat (rl_count rl) \<le> 2 * unat (rl_max rl)"
  using assms
proof (induction ts arbitrary: rl)
  case Nil
  then show ?case by (simp add: limiter_ok_def word_le_nat_alt)
next
  case (Cons t ts)
  obtain r rl1 where 1: "limiter_check t rl = (r, rl1)" by force
  note c = limiter_check_count [OF Cons.prems(1), of t]
  have ok: "limiter_ok rl1" and mx: "rl_max rl1 = rl_max rl" using c limiter_check_keeps [of t rl] 1 by simp_all
  show ?case
  proof (cases "limiter_window \<le> since t (rl_window_start rl)")
    case True
    then have rot: "limiter_rotate t rl = rl\<lparr>rl_window_start := t, rl_count := 0\<rparr>"
      by (simp add: limiter_rotate_def)
    have "limiter_window > 0" by (simp add: limiter_window_def duration_seconds_def nanos_per_sec_def)
    then have "\<forall>u \<in> set ts. since u (rl_window_start rl1) < limiter_window"
      using Cons.prems(2) c 1 by (auto simp: rot since_def)
    from limiter_run_same_window [OF ok this] have "fst (limiter_run ts rl1) + unat (rl_count rl1) \<le> unat (rl_max rl)"
      by (simp add: mx)
    moreover have "unat (rl_count rl) \<le> unat (rl_max rl)"
      using Cons.prems(1) by (simp add: limiter_ok_def word_le_nat_alt)
    moreover have "unat (rl_count rl1) = (if r = Inr () then 1 else 0)" using c 1 by (simp add: rot)
    ultimately show ?thesis using 1 by (auto split: prod.splits if_splits)
  next
    case False
    then have "unat (rl_count rl1) = unat (rl_count rl) + (if r = Inr () then 1 else 0)"
      using c 1 by (simp add: limiter_rotate_def)
    moreover have "fst (limiter_run ts rl1) + unat (rl_count rl1) \<le> 2 * unat (rl_max rl)"
      using Cons.IH [OF ok] Cons.prems(2) by (simp add: mx)
    ultimately show ?thesis using 1 by (auto split: prod.splits if_splits)
  qed
qed

section \<open>Driving a window\<close>

text \<open>
  What a synthesizer promises about the window it is given: on success the window was claimable and
  is now complete and the object names it; on failure the manager is unchanged or the window was
  claimable and is now failed. Nothing else changes.
\<close>

definition claimable :: "uuid \<Rightarrow> window_manager \<Rightarrow> bool" where
  "claimable i m \<longleftrightarrow> (\<exists>w. get_window i m = Some w \<and> (sw_status w = WPending \<or> sw_status w = WFailed))"

definition put_status :: "uuid \<Rightarrow> window_status \<Rightarrow> window_manager \<Rightarrow> window_manager" where
  "put_status i st m = m\<lparr>wm_windows := (\<lambda>j. if j = i then map_option (\<lambda>w. w\<lparr>sw_status := st\<rparr>) (wm_windows m i)
     else wm_windows m j)\<rparr>"

definition window_driven :: "uuid \<Rightarrow> engine_error + synthesis_object \<Rightarrow> window_manager \<Rightarrow> window_manager \<Rightarrow> bool" where
  "window_driven i r m m1 \<longleftrightarrow>
     (case r of Inr obj \<Rightarrow> so_window_id obj = i \<and> claimable i m \<and> m1 = put_status i WComplete m
      | Inl e \<Rightarrow> m1 = m \<or> claimable i m \<and> m1 = put_status i WFailed m)"

definition results_windows :: "(engine_error + synthesis_object) list \<Rightarrow> uuid list" where
  "results_windows rs = concat (map (\<lambda>r. case r of Inl _ \<Rightarrow> [] | Inr obj \<Rightarrow> [so_window_id obj]) rs)"

lemma results_windows_simps [simp]:
  "results_windows [] = []" "results_windows (Inl e # rs) = results_windows rs"
  "results_windows (Inr obj # rs) = so_window_id obj # results_windows rs"
  by (simp_all add: results_windows_def)

lemma put_status_get [simp]:
  "get_window j (put_status i st m) =
     (if j = i then map_option (\<lambda>w. w\<lparr>sw_status := st\<rparr>) (get_window i m) else get_window j m)"
  by (simp add: put_status_def get_window_def)

lemma window_driven_complete:
  "window_driven i r m m1 \<Longrightarrow> \<not> claimable j m \<Longrightarrow> map_option sw_status (get_window j m) = Some WComplete \<Longrightarrow>
     map_option sw_status (get_window j m1) = Some WComplete"
  by (auto simp: window_driven_def claimable_def split: sum.splits if_splits)

text \<open>
  The interface of the engines: a call works for one window and drives it as promised. The client
  lemma is the pipeline's promise that heavy synthesis runs once per scope window.
\<close>

locale window_synthesizer =
  fixes window_of :: "'c \<Rightarrow> uuid"
    and synth :: "'x \<Rightarrow> 'c \<Rightarrow> 's \<Rightarrow> window_manager \<Rightarrow> (engine_error + synthesis_object) \<times> 's \<times> window_manager"
  assumes drives: "synth x c s m = (r, s1, m1) \<Longrightarrow> window_driven (window_of c) r m m1"
begin

fun synth_all :: "(nat \<Rightarrow> 'x) \<Rightarrow> nat \<Rightarrow> 'c list \<Rightarrow> 's \<Rightarrow> window_manager \<Rightarrow>
    (engine_error + synthesis_object) list \<times> 's \<times> window_manager" where
  "synth_all xs i [] s m = ([], s, m)"
| "synth_all xs i (c # cs) s m =
     (case synth (xs i) c s m of (r, s1, m1) \<Rightarrow>
        (case synth_all xs (i + 1) cs s1 m1 of (rs, s2, m2) \<Rightarrow> (r # rs, s2, m2)))"

lemma complete_stays:
  "synth_all xs i cs s m = (rs, s1, m1) \<Longrightarrow> map_option sw_status (get_window j m) = Some WComplete \<Longrightarrow>
     j \<notin> set (results_windows rs) \<and> map_option sw_status (get_window j m1) = Some WComplete"
proof (induction cs arbitrary: i s m rs s1 m1)
  case Nil
  then show ?case by simp
next
  case (Cons c cs)
  obtain r s2 m2 where 1: "synth (xs i) c s m = (r, s2, m2)" by (metis prod_cases3)
  obtain rs3 s3 m3 where 2: "synth_all xs (i + 1) cs s2 m2 = (rs3, s3, m3)" by (metis prod_cases3)
  have eq: "rs = r # rs3" "m1 = m3" using Cons.prems(1) 1 2 by simp_all
  note d = drives [OF 1]
  have nc: "\<not> claimable j m" using Cons.prems(2) by (auto simp: claimable_def)
  have "map_option sw_status (get_window j m2) = Some WComplete"
    by (rule window_driven_complete [OF d nc Cons.prems(2)])
  moreover have "\<And>obj. r = Inr obj \<Longrightarrow> so_window_id obj \<noteq> j"
    using d nc by (auto simp: window_driven_def)
  ultimately show ?case
    using Cons.IH [OF 2] eq by (cases r) auto
qed

lemma once_per_window:
  "synth_all xs i cs s m = (rs, s1, m1) \<Longrightarrow> distinct (results_windows rs) \<and>
     set (results_windows rs) \<subseteq> window_of ` set cs \<and>
     (\<forall>j \<in> set (results_windows rs). map_option sw_status (get_window j m1) = Some WComplete)"
proof (induction cs arbitrary: i s m rs s1 m1)
  case Nil
  then show ?case by simp
next
  case (Cons c cs)
  obtain r s2 m2 where 1: "synth (xs i) c s m = (r, s2, m2)" by (metis prod_cases3)
  obtain rs3 s3 m3 where 2: "synth_all xs (i + 1) cs s2 m2 = (rs3, s3, m3)" by (metis prod_cases3)
  have eq: "rs = r # rs3" "m1 = m3" using Cons.prems(1) 1 2 by simp_all
  note ih = Cons.IH [OF 2]
  show ?case
  proof (cases r)
    case (Inl e)
    then show ?thesis using ih eq by auto
  next
    case (Inr obj)
    let ?i = "so_window_id obj"
    have i: "?i = window_of c" "map_option sw_status (get_window ?i m2) = Some WComplete"
      using drives [OF 1] Inr by (auto simp: window_driven_def claimable_def)
    from complete_stays [OF 2 i(2)] show ?thesis
      using ih eq Inr i(1) by auto
  qed
qed

lemma results_length: "synth_all xs i cs s m = (rs, s1, m1) \<Longrightarrow> length rs = length cs"
proof (induction cs arbitrary: i s m rs s1 m1)
  case (Cons c cs)
  obtain r s2 m2 where 1: "synth (xs i) c s m = (r, s2, m2)" by (metis prod_cases3)
  obtain rs3 s3 m3 where 2: "synth_all xs (i + 1) cs s2 m2 = (rs3, s3, m3)" by (metis prod_cases3)
  show ?case using Cons.prems Cons.IH [OF 2] 1 2 by auto
qed simp

end

section \<open>The engines drive their windows\<close>

lemma mark_in_progress_Inr:
  "mark_in_progress i m = (Inr u, m1) \<Longrightarrow> claimable i m \<and> m1 = put_status i WInProgress m"
  by (auto simp: mark_in_progress_def find_mut_def claimable_def get_window_def put_status_def fun_eq_iff
      split: option.splits sum.splits window_status.splits)

lemma mark_in_progress_Inl: "mark_in_progress i m = (Inl e, m1) \<Longrightarrow> m1 = m"
  by (auto simp: mark_in_progress_def find_mut_def split: option.splits sum.splits)

lemma put_status_twice: "put_status i b (put_status i a m) = put_status i b m"
  by (auto simp: put_status_def fun_eq_iff option.map_comp comp_def)

lemma mark_after_claim:
  assumes "claimable i m"
  shows "mark_complete i (put_status i WInProgress m) = (Inr (), put_status i WComplete m)"
    and "mark_failed i (put_status i WInProgress m) = (Inr (), put_status i WFailed m)"
proof -
  obtain w where "wm_windows m i = Some w" using assms by (auto simp: claimable_def get_window_def)
  then show "mark_complete i (put_status i WInProgress m) = (Inr (), put_status i WComplete m)"
      "mark_failed i (put_status i WInProgress m) = (Inr (), put_status i WFailed m)"
    by (auto simp: mark_complete_def mark_failed_def find_mut_def put_status_def fun_eq_iff)
qed


text \<open>
  What a call does to the client and the limiter: it reads the clock for the limiter at most once and
  sends at most as many requests as the limiter admitted.
\<close>

definition paced :: "instant list \<Rightarrow> endpoint_synthesizer \<Rightarrow> endpoint_synthesizer \<Rightarrow> bool" where
  "paced ts hs hs1 \<longleftrightarrow> hs_cfg hs1 = hs_cfg hs \<and>
     (case hs_rate_limiter hs of None \<Rightarrow> True
      | Some l \<Rightarrow> hs_rate_limiter hs1 = Some (snd (limiter_run ts l)) \<and>
          length (hs_sent hs1) \<le> length (hs_sent hs) + fst (limiter_run ts l))"

lemma limiter_run_append:
  "limiter_run (ts @ us) l = (fst (limiter_run ts l) + fst (limiter_run us (snd (limiter_run ts l))),
     snd (limiter_run us (snd (limiter_run ts l))))"
  by (induction ts arbitrary: l) (auto split: prod.splits)

lemma paced_refl [simp]: "paced [] hs hs"
  by (simp add: paced_def split: option.splits)

lemma paced_trans: "paced ts a b \<Longrightarrow> paced us b c \<Longrightarrow> paced (ts @ us) a c"
  by (auto simp: paced_def limiter_run_append split: option.splits)

lemma check_rate_limit_cases:
  assumes "check_rate_limit show_dur now hs = (r, hs1)"
  shows "hs_sent hs1 = hs_sent hs \<and> hs_cfg hs1 = hs_cfg hs \<and> hs_provenance_ref hs1 = hs_provenance_ref hs \<and>
    hs_domain_prompt hs1 = hs_domain_prompt hs \<and> hs_tenant_prompt hs1 = hs_tenant_prompt hs \<and>
    (case hs_rate_limiter hs of None \<Rightarrow> r = Inr () \<and> hs1 = hs
     | Some l \<Rightarrow> hs_rate_limiter hs1 = Some (snd (limiter_run [now] l)) \<and>
         fst (limiter_run [now] l) = (if r = Inr () then 1 else 0))"
  using assms by (auto simp: check_rate_limit_def split: option.splits prod.splits sum.splits)

lemma dispatch_cases:
  "dispatch show_dur send req hs = (r, hs1) \<Longrightarrow> hs1 = hs\<lparr>hs_sent := hs_sent hs @ [req]\<rparr> \<and>
     (case r of Inr resp \<Rightarrow> send (length (hs_sent hs)) (hs_cfg hs) req = Inr resp \<and> rp_output_text resp \<noteq> [] \<and>
          rp_model_version resp \<noteq> []
      | Inl e \<Rightarrow> (\<exists>msg. e = EndpointFailure msg) \<and>
          (case send (length (hs_sent hs)) (hs_cfg hs) req of Inl _ \<Rightarrow> True
           | Inr resp \<Rightarrow> rp_output_text resp = [] \<or> rp_model_version resp = []))"
  by (auto simp: dispatch_def Let_def split: sum.splits if_splits)

text \<open>The three ways a call can end.\<close>

definition synth_outcome :: "synth_env \<Rightarrow> uuid \<Rightarrow> synthesis_request \<Rightarrow> (byte list \<Rightarrow> uuid \<Rightarrow> synthesis_object) \<Rightarrow>
    endpoint_synthesizer \<Rightarrow> window_manager \<Rightarrow> engine_error + synthesis_object \<Rightarrow>
    endpoint_synthesizer \<Rightarrow> window_manager \<Rightarrow> bool" where
  "synth_outcome x i req build hs m r hs1 m1 \<longleftrightarrow>
     (if hs_sent hs1 = hs_sent hs then m1 = m \<and> (\<exists>e. r = Inl e)
      else hs_sent hs1 = hs_sent hs @ [req] \<and> claimable i m \<and>
        (case sx_send x (length (hs_sent hs)) (hs_cfg hs) req of
           Inr resp \<Rightarrow>
             if rp_output_text resp \<noteq> [] \<and> rp_model_version resp \<noteq> []
             then r = Inr (build (utf8_encode (rp_output_text resp)) (hs_provenance_ref hs)) \<and> m1 = put_status i WComplete m
             else (\<exists>msg. r = Inl (EndpointFailure msg)) \<and> m1 = put_status i WFailed m
         | Inl e \<Rightarrow> (\<exists>msg. r = Inl (EndpointFailure msg)) \<and> m1 = put_status i WFailed m))"

lemma run_synthesis_cases:
  assumes run: "run_synthesis x i req build hs m = (r, hs1, m1)"
    and req: "\<And>l. req (hs\<lparr>hs_rate_limiter := l\<rparr>) = req hs"
  shows "synth_outcome x i (req hs) build hs m r hs1 m1 \<and> paced [sx_now x] hs hs1"
proof -
  obtain c h where 1: "check_rate_limit (sx_show x) (sx_now x) hs = (c, h)" by force
  note lim = check_rate_limit_cases [OF 1]
  have h: "req h = req hs"
    using 1 req by (auto simp: check_rate_limit_def split: option.splits prod.splits sum.splits)
  obtain q m2 where 2: "mark_in_progress i m = (q, m2)" by force
  show ?thesis
  proof (cases "(\<exists>u. c = Inr u) \<and> (\<exists>v. q = Inr v)")
    case False
    then have "hs1 = h" "m1 = m" "\<exists>e. r = Inl e"
      using run 1 2 mark_in_progress_Inl [of i m _ m2]
      by (auto simp: run_synthesis_def split: sum.splits)
    then show ?thesis using lim by (auto simp: synth_outcome_def paced_def split: option.splits)
  next
    case True
    then obtain v where c: "c = Inr ()" and q: "q = Inr v" by auto
    have cl: "claimable i m" "m2 = put_status i WInProgress m"
      using mark_in_progress_Inr [of i m v m2] 2 q by simp_all
    obtain d h2 where 3: "dispatch (sx_show x) (sx_send x) (req h) h = (d, h2)" by force
    note disp = dispatch_cases [OF 3]
    have "hs1 = h2 \<and> (case d of Inl e \<Rightarrow> r = Inl e \<and> m1 = put_status i WFailed m
       | Inr resp \<Rightarrow> r = Inr (build (utf8_encode (rp_output_text resp)) (hs_provenance_ref h2)) \<and>
           m1 = put_status i WComplete m)"
      using run 1 2 3 c q cl mark_after_claim [OF cl(1)]
      by (auto simp: run_synthesis_def Let_def split: sum.splits)
    then show ?thesis
      using disp lim cl c h
      by (auto simp: synth_outcome_def paced_def split: sum.splits option.splits if_splits)
  qed
qed

lemma synth_outcome_drives:
  "synth_outcome x i req build hs m r hs1 m1 \<Longrightarrow> \<forall>p prov. so_window_id (build p prov) = i \<Longrightarrow>
     window_driven i r m m1"
  by (auto simp: synth_outcome_def window_driven_def split: if_splits sum.splits)

lemma build_window [simp]:
  "so_window_id (build_domain_summary_object f t s i p prov) = i"
  "so_window_id (build_tenant_summary_object f t s i p prov) = i"
  by (simp_all add: build_domain_summary_object_def build_tenant_summary_object_def synthesis_object_new_def
      synthesis_object_with_version_def)

definition domain_request :: "endpoint_synthesizer \<Rightarrow> domain_synthesis_input \<Rightarrow> synthesis_request" where
  "domain_request hs input = build_request hs DomainTier (di_domain_scope input) (domain_input_refs input)
     (case hs_domain_prompt hs of None \<Rightarrow> default_domain_prompt | Some p \<Rightarrow> p)"

definition tenant_request :: "endpoint_synthesizer \<Rightarrow> tenant_synthesis_input \<Rightarrow> synthesis_request" where
  "tenant_request hs input = build_request hs TenantTier (ti_tenant_scope input) (tenant_input_refs input)
     (case hs_tenant_prompt hs of None \<Rightarrow> default_tenant_prompt | Some p \<Rightarrow> p)"

lemma synthesize_domain_cases:
  assumes "synthesize_domain x handle input hs m = (r, hs1, m1)"
  shows "synth_outcome x (th_window_id handle) (domain_request hs input)
      (\<lambda>p prov. build_domain_summary_object (sx_fresh x) (sx_created x) (di_domain_scope input)
         (th_window_id handle) p prov) hs m r hs1 m1 \<and> (\<exists>ts. set ts \<subseteq> {sx_now x} \<and> paced ts hs hs1) \<and>
    (hs_sent hs1 \<noteq> hs_sent hs \<longrightarrow> validate_domain_input handle input m = Inr ())"
proof (cases "\<exists>e. validate_domain_input handle input m = Inl e \<or> di_channel_outputs input = []")
  case True
  then have "hs1 = hs" "m1 = m" "\<exists>e. r = Inl e"
    using assms by (auto simp: synthesize_domain_def split: sum.splits if_splits)
  then show ?thesis by (auto simp: synth_outcome_def intro: exI [of _ "[]"])
next
  case False
  then have v: "validate_domain_input handle input m = Inr ()"
    by (cases "validate_domain_input handle input m") auto
  let ?req = "\<lambda>hs1. build_request hs1 DomainTier (di_domain_scope input) (domain_input_refs input)
             (case hs_domain_prompt hs1 of None \<Rightarrow> default_domain_prompt | Some p \<Rightarrow> p)"
  have "run_synthesis x (th_window_id handle) ?req
      (\<lambda>p prov. build_domain_summary_object (sx_fresh x) (sx_created x) (di_domain_scope input)
         (th_window_id handle) p prov) hs m = (r, hs1, m1)"
    using assms False v by (simp add: synthesize_domain_def)
  from run_synthesis_cases [OF this] show ?thesis
    using v by (auto simp: build_request_def domain_request_def intro: exI [of _ "[sx_now x]"])
qed

lemma synthesize_tenant_cases:
  assumes "synthesize_tenant x handle input hs m = (r, hs1, m1)"
  shows "synth_outcome x (th_window_id handle) (tenant_request hs input)
      (\<lambda>p prov. build_tenant_summary_object (sx_fresh x) (sx_created x) (ti_tenant_scope input)
         (th_window_id handle) p prov) hs m r hs1 m1 \<and> (\<exists>ts. set ts \<subseteq> {sx_now x} \<and> paced ts hs hs1) \<and>
    (hs_sent hs1 \<noteq> hs_sent hs \<longrightarrow> validate_tenant_input handle input m = Inr ())"
proof (cases "\<exists>e. validate_tenant_input handle input m = Inl e \<or> ti_domain_outputs input = []")
  case True
  then have "hs1 = hs" "m1 = m" "\<exists>e. r = Inl e"
    using assms by (auto simp: synthesize_tenant_def split: sum.splits if_splits)
  then show ?thesis by (auto simp: synth_outcome_def intro: exI [of _ "[]"])
next
  case False
  then have v: "validate_tenant_input handle input m = Inr ()"
    by (cases "validate_tenant_input handle input m") auto
  let ?req = "\<lambda>hs1. build_request hs1 TenantTier (ti_tenant_scope input) (tenant_input_refs input)
             (case hs_tenant_prompt hs1 of None \<Rightarrow> default_tenant_prompt | Some p \<Rightarrow> p)"
  have "run_synthesis x (th_window_id handle) ?req
      (\<lambda>p prov. build_tenant_summary_object (sx_fresh x) (sx_created x) (ti_tenant_scope input)
         (th_window_id handle) p prov) hs m = (r, hs1, m1)"
    using assms False v by (simp add: synthesize_tenant_def)
  from run_synthesis_cases [OF this] show ?thesis
    using v by (auto simp: build_request_def tenant_request_def intro: exI [of _ "[sx_now x]"])
qed

section \<open>The engines are window synthesizers\<close>

fun pending_window :: "pending_kind \<Rightarrow> uuid" where
  "pending_window (PendingDomain handle input t) = th_window_id handle"
| "pending_window (PendingTenant handle input t) = th_window_id handle"

fun pending_ticket :: "pending_kind \<Rightarrow> nat" where
  "pending_ticket (PendingDomain handle input t) = t"
| "pending_ticket (PendingTenant handle input t) = t"

definition endpoint_call :: "synth_env \<Rightarrow> pending_kind \<Rightarrow> endpoint_synthesizer \<Rightarrow> window_manager \<Rightarrow>
    (engine_error + synthesis_object) \<times> endpoint_synthesizer \<times> window_manager" where
  "endpoint_call x k hs m = (case dispatch_pending x k hs m of ((t, r), hs1, m1) \<Rightarrow> (r, hs1, m1))"

lemma dispatch_pending_eq:
  "dispatch_pending x k hs m = (case endpoint_call x k hs m of (r, hs1, m1) \<Rightarrow> ((pending_ticket k, r), hs1, m1))"
  by (cases k) (auto simp: endpoint_call_def split: prod.splits)

lemma endpoint_call_cases:
  assumes "endpoint_call x k hs m = (r, hs1, m1)"
  shows "window_driven (pending_window k) r m m1 \<and> (\<exists>ts. set ts \<subseteq> {sx_now x} \<and> paced ts hs hs1)"
proof (cases k)
  case (PendingDomain handle input t)
  then have "synthesize_domain x handle input hs m = (r, hs1, m1)"
    using assms by (auto simp: endpoint_call_def split: prod.splits)
  from synthesize_domain_cases [OF this] PendingDomain show ?thesis
    by (auto dest!: synth_outcome_drives)
next
  case (PendingTenant handle input t)
  then have "synthesize_tenant x handle input hs m = (r, hs1, m1)"
    using assms by (auto simp: endpoint_call_def split: prod.splits)
  from synthesize_tenant_cases [OF this] PendingTenant show ?thesis
    by (auto dest!: synth_outcome_drives)
qed

interpretation endpoint: window_synthesizer pending_window endpoint_call
  by unfold_locales (use endpoint_call_cases in blast)

type_synonym stub_input = "(tiered_window_handle \<times> domain_synthesis_input) + (tiered_window_handle \<times> tenant_synthesis_input)"

fun stub_window :: "stub_input \<Rightarrow> uuid" where
  "stub_window (Inl (handle, input)) = th_window_id handle"
| "stub_window (Inr (handle, input)) = th_window_id handle"

text \<open>The stub has no state of its own beyond its provenance reference.\<close>

fun stub_call :: "uuid \<times> instant \<Rightarrow> stub_input \<Rightarrow> uuid \<Rightarrow> window_manager \<Rightarrow>
    (engine_error + synthesis_object) \<times> uuid \<times> window_manager" where
  "stub_call (fresh, created) (Inl (handle, input)) prov m =
     (case stub_synthesize_domain fresh created prov handle input m of (r, m1) \<Rightarrow> (r, prov, m1))"
| "stub_call (fresh, created) (Inr (handle, input)) prov m =
     (case stub_synthesize_tenant fresh created prov handle input m of (r, m1) \<Rightarrow> (r, prov, m1))"

lemma stub_drives:
  "stub_synthesize_domain fresh created prov handle dinput m = (r, m1) \<Longrightarrow> window_driven (th_window_id handle) r m m1"
  "stub_synthesize_tenant fresh created prov handle tinput m = (r, m1) \<Longrightarrow> window_driven (th_window_id handle) r m m1"
  by (auto simp: stub_synthesize_domain_def stub_synthesize_tenant_def window_driven_def Let_def mark_after_claim
      split: sum.splits prod.splits dest!: mark_in_progress_Inr mark_in_progress_Inl)

interpretation stub: window_synthesizer stub_window stub_call
proof (unfold_locales, goal_cases)
  case (1 x c s m r s1 m1)
  then show ?case
    using stub_drives by (cases x; cases c rule: stub_window.cases) (auto split: prod.splits)
qed

section \<open>Lemmas on the batcher\<close>

lemma flush_loop_eq:
  "flush_loop xs i ps hs m = (case endpoint.synth_all xs i (map pn_kind ps) hs m of
     (rs, hs1, m1) \<Rightarrow> (zip (map (pending_ticket \<circ> pn_kind) ps) rs, hs1, m1))"
  by (induction ps arbitrary: i hs m) (auto simp: dispatch_pending_eq split: prod.splits)

lemma flush_loop_paced:
  "flush_loop xs i ps hs m = (replies, hs1, m1) \<Longrightarrow> \<exists>ts. set ts \<subseteq> range (sx_now \<circ> xs) \<and> paced ts hs hs1"
proof (induction ps arbitrary: i hs m replies hs1 m1)
  case Nil
  then show ?case by (auto intro: exI [of _ "[]"])
next
  case (Cons p ps)
  obtain r h2 m2 where 1: "endpoint_call (xs i) (pn_kind p) hs m = (r, h2, m2)" by (metis prod_cases3)
  obtain rs h3 m3 where 2: "flush_loop xs (i + 1) ps h2 m2 = (rs, h3, m3)" by (metis prod_cases3)
  have eq: "hs1 = h3" using Cons.prems 1 2 by (simp add: dispatch_pending_eq)
  obtain ts where ts: "set ts \<subseteq> {sx_now (xs i)}" "paced ts hs h2" using endpoint_call_cases [OF 1] by blast
  obtain us where us: "set us \<subseteq> range (sx_now \<circ> xs)" "paced us h2 h3" using Cons.IH [OF 2] by blast
  show ?case using paced_trans [OF ts(2) us(2)] ts(1) us(1) eq by (intro exI [of _ "ts @ us"]) auto
qed

text \<open>Tickets are answered in the order they were given out, each once.\<close>

definition batcher_ok :: "synthesis_batcher \<Rightarrow> bool" where
  "batcher_ok b \<longleftrightarrow>
     map fst (sb_replies b) @ map (pending_ticket \<circ> pn_kind) (sb_pending b) = [0..<sb_next_ticket b]"

lemma flush_now_effect:
  assumes "flush_now xs b m = (n, b1, m1)"
  obtains rs where
    "endpoint.synth_all xs 0 (map pn_kind (sb_pending b)) (sb_synthesizer b) m = (rs, sb_synthesizer b1, m1)"
    "length rs = length (sb_pending b)" "n = length (sb_pending b)" "sb_pending b1 = []"
    "sb_replies b1 = sb_replies b @ zip (map (pending_ticket \<circ> pn_kind) (sb_pending b)) rs"
    "sb_next_ticket b1 = sb_next_ticket b"
proof -
  obtain rs h m2 where 1: "endpoint.synth_all xs 0 (map pn_kind (sb_pending b)) (sb_synthesizer b) m = (rs, h, m2)"
    by (metis prod_cases3)
  have "length rs = length (sb_pending b)" using endpoint.results_length [OF 1] by simp
  then show ?thesis using that assms 1 by (auto simp: flush_now_def Let_def flush_loop_eq)
qed

lemma batcher_ok_flush: "batcher_ok b \<Longrightarrow> flush_now xs b m = (n, b1, m1) \<Longrightarrow> batcher_ok b1 \<and> sb_pending b1 = []"
  by (erule flush_now_effect) (simp add: batcher_ok_def)

lemma batcher_ok_submit:
  "batcher_ok b \<Longrightarrow> batcher_ok (snd (submit_domain now handle dinput b))"
  "batcher_ok b \<Longrightarrow> batcher_ok (snd (submit_tenant now handle tinput b))"
  by (simp_all add: batcher_ok_def submit_domain_def submit_tenant_def Let_def flip: append_assoc)

lemma batcher_ok_new: "batcher_new hs k t = Some b \<Longrightarrow> batcher_ok b"
  by (auto simp: batcher_new_def batcher_ok_def split: if_splits)

inductive batcher_reach :: "synthesis_batcher \<Rightarrow> bool" where
  batcher_created: "batcher_new hs k t = Some b \<Longrightarrow> batcher_reach b"
| batcher_domain: "batcher_reach b \<Longrightarrow> batcher_reach (snd (submit_domain now handle dinput b))"
| batcher_tenant: "batcher_reach b \<Longrightarrow> batcher_reach (snd (submit_tenant now handle tinput b))"
| batcher_flushed: "batcher_reach b \<Longrightarrow> flush_if_ready now xs b m = (n, b1, m1) \<Longrightarrow> batcher_reach b1"
| batcher_forced: "batcher_reach b \<Longrightarrow> flush_now xs b m = (n, b1, m1) \<Longrightarrow> batcher_reach b1"

lemma batcher_reach_ok: "batcher_reach b \<Longrightarrow> batcher_ok b"
proof (induction rule: batcher_reach.induct)
  case (batcher_flushed b now xs m n b1 m1)
  then show ?case using batcher_ok_flush [of b xs m n b1 m1] by (auto simp: flush_if_ready_def split: if_splits)
qed (use batcher_ok_new batcher_ok_submit batcher_ok_flush in blast)+

lemma batcher_reach_size: "batcher_reach b \<Longrightarrow> 0 < sb_batch_size b"
  by (induction rule: batcher_reach.induct)
    (auto simp: batcher_new_def submit_domain_def submit_tenant_def flush_if_ready_def flush_now_def Let_def
      split: if_splits prod.splits)

section \<open>Properties\<close>

text \<open>
  The limiter on any sequence of clock readings: from a limiter within its cap, the
  admissions of a run whose readings stay in the current window fit under what is left of the cap, and
  any run whose readings lie within one window length admits at most twice the cap; a refusal names a
  wait after which, if the cap is not zero, the next check is admitted.
\<close>

theorem rate_limit_bounds:
  assumes "limiter_ok l"
  shows "((\<forall>t \<in> set ts. t < rl_window_start l + limiter_window) \<longrightarrow>
      fst (limiter_run ts l) + unat (rl_count l) \<le> unat (rl_max l)) \<and>
    ((\<forall>t \<in> set ts. a \<le> t \<and> t < a + limiter_window) \<longrightarrow> fst (limiter_run ts l) \<le> 2 * unat (rl_max l)) \<and>
    (\<forall>now d l1. limiter_check now l = (Inl d, l1) \<and> 0 < rl_max l \<longrightarrow>
       0 < d \<and> fst (limiter_check (now + d) l1) = Inr ())"
proof (intro conjI allI impI, goal_cases)
  case 1
  have "limiter_window > 0" by (simp add: limiter_window_def duration_seconds_def nanos_per_sec_def)
  then show ?case using limiter_run_same_window [OF assms, of ts] 1 by (force simp: since_def)
next
  case 2
  then show ?case using limiter_run_interval [OF assms, of ts a] by simp
next
  case (3 now d l1)
  have "limiter_window > 0" by (simp add: limiter_window_def duration_seconds_def nanos_per_sec_def)
  then show ?case using 3 by (auto simp: limiter_check_def limiter_rotate_def Let_def since_def split: if_splits)
next
  case (4 now d l1)
  then show ?case by (auto simp: limiter_check_def limiter_rotate_def Let_def since_def split: if_splits)
qed



section \<open>Findings\<close>

text \<open>
  The limiter is a fixed window, not a rolling one: with a cap of two, four requests pass within two
  seconds around a rotation. In the same way a batch whose calls straddle a rotation overshoots the cap.
\<close>

lemma window_edge_doubles_cap:
  "fst (limiter_run (map duration_seconds [59, 59, 60, 61]) (limiter_new 0 2)) = 4"
  by (simp add: limiter_check_def limiter_rotate_def limiter_new_def since_def limiter_window_def
      duration_seconds_def nanos_per_sec_def Let_def)

definition sample_client :: http_client where
  "sample_client n cfg req = Inr \<lparr>rp_output_text = lit ''ok'', rp_model_version = ''v1'', rp_tokens_used = 1, rp_latency_ms = 1\<rparr>"

definition sample_synth_env :: synth_env where
  "sample_synth_env = \<lparr>sx_send = sample_client, sx_show = (\<lambda>_. ''1s''), sx_now = 0, sx_fresh = 20, sx_created = 0\<rparr>"

definition sample_synthesizer :: endpoint_synthesizer where
  "sample_synthesizer = synthesizer_new 0 (endpoint_config_new ''u'' ''k'' ''m'')"

definition sample_input :: domain_synthesis_input where
  "sample_input = \<lparr>di_domain_scope = 9, di_channel_outputs =
     [\<lparr>co_object = synthesis_object_new 4 0 5 1 ChannelRecap [104, 105] 0, co_channel_scope = 5\<rparr>], di_assembled_at = 0\<rparr>"

definition sample_handle :: tiered_window_handle where
  "sample_handle = \<lparr>th_window_id = 7, th_scope_id = 9, th_tier = DomainTier\<rparr>"

definition sample_manager :: window_manager where
  "sample_manager = snd (open_tiered_window 7 0 9 DomainTier 0 5 window_manager_new)"

lemmas sample_call_defs = sample_client_def sample_synth_env_def sample_synthesizer_def sample_input_def sample_handle_def
  sample_manager_def synthesizer_new_def endpoint_config_new_def effective_max_requests_per_minute_def
  default_max_rpm_def limiter_new_def open_tiered_window_def open_window_def synthesis_window_new_def
  window_manager_new_def set_tier_def find_mut_def get_window_def validate_domain_input_def validate_window_def
  synthesize_domain_def run_synthesis_def check_rate_limit_def limiter_check_def limiter_rotate_def
  mark_in_progress_def mark_complete_def dispatch_def lit_def

lemma sample_call:
  "\<exists>r hs1 m1. synthesize_domain sample_synth_env sample_handle sample_input sample_synthesizer sample_manager = (r, hs1, m1) \<and>
     hs_sent hs1 \<noteq> hs_sent sample_synthesizer"
  by (simp add: sample_call_defs Let_def)

text \<open>
  A call for a window that is already in progress is refused after it has taken a slot of the limiter,
  though nothing is sent.
\<close>

lemma refused_claim_takes_slot:
  "let m = snd (mark_in_progress 7 sample_manager);
       out = synthesize_domain sample_synth_env sample_handle sample_input sample_synthesizer m
   in fst out = Inl (PipelineFailure InvalidWindowTransition) \<and> hs_sent (fst (snd out)) = [] \<and>
      map_option current_window_count (hs_rate_limiter (fst (snd out))) = Some 1"
  by (simp add: sample_call_defs Let_def current_window_count_def)

text \<open>A poll after a successful one says that the batcher was dropped, though it is alive.\<close>

lemma second_poll_reports_dropped:
  "map_of (sb_replies b) t = Some r \<Longrightarrow>
     fst (try_take True t b (snd (try_take True t b False))) = Inl reply_dropped"
  by (auto simp: try_take_def split: sum.splits)

section \<open>Witnesses\<close>

theorem rate_limit_bounds_witness:
  "fst (limiter_run [1, 2, 3] (limiter_new 0 2)) \<le> 2"
  using rate_limit_bounds [of "limiter_new 0 2" "[1, 2, 3]" 0]
  by (simp add: limiter_ok_def limiter_new_def limiter_window_def duration_seconds_def nanos_per_sec_def)



end
