(* ===== verification/Tee_Worker.thy ===== *)
theory Tee_Worker
  imports Synth_Engine
begin

text \<open>
  The confidential-compute worker (\<^verbatim>\<open>synthesis_engine/src/tee_worker.rs\<close>) and the attestation reports it
  relies on (\<^verbatim>\<open>crypto/src/attestation.rs\<close>). The BLAKE3 functions and the platform that produces quotes are
  parameters. A worker is shared between threads: attesting takes the state lock twice, a synthesis call
  takes it on entry and on exit and holds the lock of the working set in between. The step relation at
  the end interleaves these critical sections of any number of threads.
\<close>

section \<open>Hashing\<close>

text \<open>
  The streaming hasher of the third-party crate: \<open>bl_hash\<close> is the one-shot function, the other three
  the incremental interface, whose documented law is that it hashes the concatenation of its updates.
\<close>

record 'h blake =
  bl_hash :: "byte list \<Rightarrow> byte list"
  bl_new :: 'h
  bl_update :: "byte list \<Rightarrow> 'h \<Rightarrow> 'h"
  bl_finalize :: "'h \<Rightarrow> byte list"

definition blake_ok :: "'h blake \<Rightarrow> bool" where
  "blake_ok bl \<longleftrightarrow> (\<forall>parts. bl_finalize bl (fold (bl_update bl) parts (bl_new bl)) = bl_hash bl (concat parts))"

definition content_hash :: "'h blake \<Rightarrow> byte list \<Rightarrow> byte list" where
  "content_hash bl data = bl_hash bl data"

section \<open>Attestation reports\<close>

datatype tee_platform = IntelTdx | AmdSevSnp | NitroEnclaves | MockPlatform

fun tee_platform_as_str :: "tee_platform \<Rightarrow> string" where
  "tee_platform_as_str IntelTdx = ''intel_tdx''"
| "tee_platform_as_str AmdSevSnp = ''amd_sev_snp''"
| "tee_platform_as_str NitroEnclaves = ''nitro_enclaves''"
| "tee_platform_as_str MockPlatform = ''mock''"

record attestation_report =
  ar_report_id :: uuid
  ar_platform :: tee_platform
  ar_measurement :: "byte list"
  ar_report_data :: "byte list"
  ar_signature :: "byte list"
  ar_created_at :: instant

definition attestation_report_new :: "uuid \<Rightarrow> instant \<Rightarrow> tee_platform \<Rightarrow> byte list \<Rightarrow> byte list \<Rightarrow> byte list \<Rightarrow>
    attestation_report" where
  "attestation_report_new fresh now platform measurement report_data signature =
     \<lparr>ar_report_id = fresh, ar_platform = platform, ar_measurement = measurement, ar_report_data = report_data,
      ar_signature = signature, ar_created_at = now\<rparr>"

record attestation_binding =
  ab_binding_id :: uuid
  ab_report_id :: uuid
  ab_key_hash :: "byte list"
  ab_pub_key :: "byte list"
  ab_platform :: tee_platform
  ab_created_at :: instant

record attestation_audit_entry =
  ae_entry_id :: uuid
  ae_report_id :: uuid
  ae_binding_id :: "uuid option"
  ae_scope_id :: uuid
  ae_platform :: tee_platform
  ae_verified :: bool
  ae_failure_reason :: "string option"
  ae_created_at :: instant

definition audit_success :: "uuid \<Rightarrow> instant \<Rightarrow> uuid \<Rightarrow> uuid \<Rightarrow> uuid \<Rightarrow> tee_platform \<Rightarrow> attestation_audit_entry" where
  "audit_success fresh now report_id binding_id scope_id platform =
     \<lparr>ae_entry_id = fresh, ae_report_id = report_id, ae_binding_id = Some binding_id, ae_scope_id = scope_id,
      ae_platform = platform, ae_verified = True, ae_failure_reason = None, ae_created_at = now\<rparr>"

definition audit_failure :: "uuid \<Rightarrow> instant \<Rightarrow> uuid \<Rightarrow> uuid \<Rightarrow> tee_platform \<Rightarrow> string \<Rightarrow> attestation_audit_entry" where
  "audit_failure fresh now report_id scope_id platform reason =
     \<lparr>ae_entry_id = fresh, ae_report_id = report_id, ae_binding_id = None, ae_scope_id = scope_id,
      ae_platform = platform, ae_verified = False, ae_failure_reason = Some reason, ae_created_at = now\<rparr>"

definition verify_attestation :: "attestation_report \<Rightarrow> byte list \<Rightarrow> crypto_error + bool" where
  "verify_attestation report expected_measurement =
     (case ar_platform report of
        MockPlatform \<Rightarrow> Inr (ar_measurement report = expected_measurement)
      | platform \<Rightarrow> Inl (AttestationUnsupported (tee_platform_as_str platform)))"

definition bind_synthesizer_key :: "'h blake \<Rightarrow> uuid \<Rightarrow> instant \<Rightarrow> attestation_report \<Rightarrow> byte list \<Rightarrow>
    attestation_binding" where
  "bind_synthesizer_key bl fresh now report pub_key =
     \<lparr>ab_binding_id = fresh, ab_report_id = ar_report_id report, ab_key_hash = content_hash bl pub_key,
      ab_pub_key = pub_key, ab_platform = ar_platform report, ab_created_at = now\<rparr>"

definition mock_attestation_report :: "'h blake \<Rightarrow> uuid \<Rightarrow> instant \<Rightarrow> byte list \<Rightarrow> byte list \<Rightarrow> attestation_report" where
  "mock_attestation_report bl fresh now enclave_image nonce =
     (let measurement = content_hash bl enclave_image; sig = content_hash bl (measurement @ nonce)
      in attestation_report_new fresh now MockPlatform measurement nonce sig)"

section \<open>The working set\<close>

definition worker_prefault_bytes :: nat where
  "worker_prefault_bytes = 64 * 1024"

definition fallback_page_size :: nat where
  "fallback_page_size = 4096"

text \<open>\<open>raw\<close> is what \<^verbatim>\<open>sysconf\<close> returned.\<close>

definition os_page_size :: "int \<Rightarrow> nat" where
  "os_page_size raw = (if 0 < raw then nat raw else fallback_page_size)"

lemma os_page_size_pos [simp]: "0 < os_page_size raw"
  by (simp add: os_page_size_def fallback_page_size_def)

text \<open>
  A buffer is shorter than half the address space and so is a page, so the saturating addition of the
  offset is an ordinary one.
\<close>

function prefault_loop :: "int \<Rightarrow> nat \<Rightarrow> byte list \<Rightarrow> byte list" where
  "prefault_loop raw offset buf =
     (if offset < length buf then prefault_loop raw (offset + os_page_size raw) (buf[offset := 0xA5]) else buf)"
  by pat_completeness auto
termination
  by (relation "measure (\<lambda>(raw, offset, buf). length buf - offset)")
    (auto intro: diff_less_mono2)

declare prefault_loop.simps [simp del]

definition prefault_pages :: "int \<Rightarrow> byte list \<Rightarrow> byte list" where
  "prefault_pages raw buf = prefault_loop raw 0 buf"

text \<open>\<open>mlock_ok\<close> tells whether the pages could be pinned.\<close>

record working_set =
  ws_pages :: "byte list"
  ws_locked :: bool

definition reserve :: "int \<Rightarrow> bool \<Rightarrow> nat \<Rightarrow> working_set" where
  "reserve raw mlock_ok bytes =
     (let pages = prefault_pages raw (replicate bytes 0)
      in \<lparr>ws_pages = pages, ws_locked = (pages \<noteq> [] \<and> mlock_ok)\<rparr>)"

function chunks :: "nat \<Rightarrow> byte list \<Rightarrow> byte list list" where
  "chunks n xs = (if xs = [] \<or> n = 0 then [] else take n xs # chunks n (drop n xs))"
  by pat_completeness auto
termination
  by (relation "measure (\<lambda>(n, xs). length xs)") auto

declare chunks.simps [simp del]

text \<open>One chunk: copied over the front of the pages, hashed there, and zeroed.\<close>

definition stage_chunk :: "'h blake \<Rightarrow> byte list \<Rightarrow> byte list \<times> 'h \<Rightarrow> byte list \<times> 'h" where
  "stage_chunk bl chunk s =
     (case s of (pages, hasher) \<Rightarrow>
        let staged = chunk @ drop (length chunk) pages;
            hasher1 = bl_update bl (take (length chunk) staged) hasher
        in (replicate (length chunk) 0 @ drop (length chunk) staged, hasher1))"

definition stage_and_hash :: "'h blake \<Rightarrow> byte list list \<Rightarrow> working_set \<Rightarrow> byte list \<times> working_set" where
  "stage_and_hash bl payloads ws =
     (let capacity = length (ws_pages ws) in
      if capacity = 0
      then (bl_finalize bl (fold (bl_update bl) payloads (bl_new bl)), ws)
      else (case fold (\<lambda>payload s. fold (stage_chunk bl) (chunks capacity payload) s) payloads
                   (ws_pages ws, bl_new bl) of
              (pages, hasher) \<Rightarrow> (bl_finalize bl hasher, ws\<lparr>ws_pages := pages\<rparr>)))"

definition wipe :: "working_set \<Rightarrow> working_set" where
  "wipe ws = ws\<lparr>ws_pages := replicate (length (ws_pages ws)) 0\<rparr>"

text \<open>Dropping the reservation wipes it while it is still pinned, then unpins it.\<close>

definition drop_working_set :: "working_set \<Rightarrow> working_set" where
  "drop_working_set ws = (wipe ws)\<lparr>ws_locked := False\<rparr>"

section \<open>Configuration and lifecycle\<close>

definition attestation_ttl_default :: duration where
  "attestation_ttl_default = duration_seconds (5 * 60)"

record tee_config =
  tc_platform :: tee_platform
  tc_expected_measurement :: "byte list"
  tc_synthesizer_pub_key :: "byte list"
  tc_scope_bindings :: "uuid list"
  tc_attestation_ttl :: duration
  tc_enclave_image :: "byte list"

definition tee_config_new :: "tee_platform \<Rightarrow> byte list \<Rightarrow> byte list \<Rightarrow> uuid list \<Rightarrow> byte list \<Rightarrow> tee_config" where
  "tee_config_new platform expected_measurement pub_key scope_bindings enclave_image =
     \<lparr>tc_platform = platform, tc_expected_measurement = expected_measurement, tc_synthesizer_pub_key = pub_key,
      tc_scope_bindings = scope_bindings, tc_attestation_ttl = attestation_ttl_default,
      tc_enclave_image = enclave_image\<rparr>"

datatype tee_worker_lifecycle = PubUnattested | PubAttesting | PubAttested | PubSynthesizing | PubIdle

fun tee_worker_lifecycle_as_str :: "tee_worker_lifecycle \<Rightarrow> string" where
  "tee_worker_lifecycle_as_str PubUnattested = ''unattested''"
| "tee_worker_lifecycle_as_str PubAttesting = ''attesting''"
| "tee_worker_lifecycle_as_str PubAttested = ''attested''"
| "tee_worker_lifecycle_as_str PubSynthesizing = ''synthesizing''"
| "tee_worker_lifecycle_as_str PubIdle = ''idle''"

text \<open>\<open>Attested report binding attested_at active\<close>.\<close>

datatype tee_lifecycle =
    Unattested
  | Attesting
  | Attested attestation_report attestation_binding instant bool
  | IdleWorker attestation_report attestation_binding instant

fun as_public :: "tee_lifecycle \<Rightarrow> tee_worker_lifecycle" where
  "as_public Unattested = PubUnattested"
| "as_public Attesting = PubAttesting"
| "as_public (Attested r b t True) = PubSynthesizing"
| "as_public (Attested r b t False) = PubAttested"
| "as_public (IdleWorker r b t) = PubIdle"

record tee_state =
  te_lifecycle :: tee_lifecycle
  te_audit :: "attestation_audit_entry list"

definition tee_state_default :: tee_state where
  "tee_state_default = \<lparr>te_lifecycle = Unattested, te_audit = []\<rparr>"

definition fresh_nonce :: "'h blake \<Rightarrow> uuid \<Rightarrow> tee_config \<Rightarrow> byte list" where
  "fresh_nonce bl fresh cfg = content_hash bl (tc_synthesizer_pub_key cfg @ uuid_bytes fresh)"

text \<open>The first critical section of attesting.\<close>

definition attest_begin :: "tee_state \<Rightarrow> (engine_error + unit) \<times> tee_state" where
  "attest_begin st =
     (case te_lifecycle st of
        Attested r b t True \<Rightarrow> (Inl (EngineRefusal ''tee: cannot attest while a synthesis call is in flight''), st)
      | _ \<Rightarrow> (Inr (), st\<lparr>te_lifecycle := Attesting\<rparr>))"

text \<open>A failed verification records an entry and leaves the worker unattested.\<close>

definition attest_fail :: "uuid \<Rightarrow> instant \<Rightarrow> attestation_report \<Rightarrow> uuid \<Rightarrow> string \<Rightarrow> string \<Rightarrow> tee_state \<Rightarrow>
    (engine_error + attestation_report) \<times> tee_state" where
  "attest_fail entry now report scope_id reason msg st =
     (Inl (EngineRefusal msg),
      st\<lparr>te_audit := te_audit st @ [audit_failure entry now (ar_report_id report) scope_id (ar_platform report) reason],
         te_lifecycle := Unattested\<rparr>)"

fun crypto_error_display :: "crypto_error \<Rightarrow> string" where
  "crypto_error_display AeadEncryption = ''AEAD encryption failed''"
| "crypto_error_display AeadDecryption = ''AEAD decryption / authentication failed''"
| "crypto_error_display (KeyDerivation s) = ''HKDF key derivation failed: '' @ s"
| "crypto_error_display (KemBufferLength expected got) = ''KEM buffer length mismatch (expected '' @
     nat_display expected @ '', got '' @ nat_display got @ '')''"
| "crypto_error_display (KemBackend s) = ''KEM backend operation failed: '' @ s"
| "crypto_error_display (HybridCombiner s) = ''hybrid KEM combiner failed: '' @ s"
| "crypto_error_display (ProvenanceSerialisation s) = ''provenance bundle serialisation failed: '' @ s"
| "crypto_error_display ProvenanceVerification = ''provenance signature verification failed''"
| "crypto_error_display (HybridPolicyViolation expected got) = ''hybrid policy violation: expected '' @
     expected @ '', got '' @ got"
| "crypto_error_display (TombstonePersistence s) = ''tombstone persistence failed: '' @ s"
| "crypto_error_display EpochOverflow = ''epoch counter overflow at u64::MAX''"
| "crypto_error_display (AttestationUnsupported s) =
     ''attestation verification unsupported for TEE platform: '' @ s"

text \<open>The identifiers and clock readings of one attestation, in the order they are taken.\<close>

record attest_env =
  ax_nonce :: uuid
  ax_binding_id :: uuid
  ax_bound_at :: instant
  ax_entry_id :: uuid
  ax_entry_at :: instant
  ax_attested_at :: instant

text \<open>The rest of attesting, on the report the platform returned.\<close>

definition attest_end :: "'h blake \<Rightarrow> tee_config \<Rightarrow> attest_env \<Rightarrow> uuid \<Rightarrow>
    attestation_report \<Rightarrow> tee_state \<Rightarrow> (engine_error + attestation_report) \<times> tee_state" where
  "attest_end bl cfg ax scope_id report st =
     (if ar_platform report \<noteq> tc_platform cfg
      then attest_fail (ax_entry_id ax) (ax_entry_at ax) report scope_id ''tee platform mismatch'' ''tee: platform mismatch'' st
      else case verify_attestation report (tc_expected_measurement cfg) of
        Inl e \<Rightarrow> attest_fail (ax_entry_id ax) (ax_entry_at ax) report scope_id ''attestation verification error''
          (''tee: verify_attestation: '' @ crypto_error_display e) st
      | Inr verified \<Rightarrow>
        if \<not> verified
        then attest_fail (ax_entry_id ax) (ax_entry_at ax) report scope_id ''measurement mismatch'' ''tee: measurement mismatch'' st
        else
          (let binding = bind_synthesizer_key bl (ax_binding_id ax) (ax_bound_at ax) report (tc_synthesizer_pub_key cfg);
               entry = audit_success (ax_entry_id ax) (ax_entry_at ax) (ar_report_id report) (ab_binding_id binding) scope_id (ar_platform report)
           in (Inr report, st\<lparr>te_audit := te_audit st @ [entry],
                 te_lifecycle := Attested report binding (ax_attested_at ax) False\<rparr>)))"

text \<open>Attesting without interference; \<open>quote\<close> is the platform.\<close>

definition attest_with_scope :: "'h blake \<Rightarrow> (byte list \<Rightarrow> byte list \<Rightarrow> attestation_report) \<Rightarrow>
    tee_config \<Rightarrow> attest_env \<Rightarrow> uuid \<Rightarrow> tee_state \<Rightarrow>
    (engine_error + attestation_report) \<times> tee_state" where
  "attest_with_scope bl quote cfg ax scope_id st =
     (case attest_begin st of
        (Inl e, st1) \<Rightarrow> (Inl e, st1)
      | (Inr _, st1) \<Rightarrow>
          attest_end bl cfg ax scope_id (quote (tc_enclave_image cfg) (fresh_nonce bl (ax_nonce ax) cfg)) st1)"

definition attest :: "'h blake \<Rightarrow> (byte list \<Rightarrow> byte list \<Rightarrow> attestation_report) \<Rightarrow>
    tee_config \<Rightarrow> attest_env \<Rightarrow> tee_state \<Rightarrow> (engine_error + attestation_report) \<times> tee_state" where
  "attest bl quote cfg ax st = attest_with_scope bl quote cfg ax 0 st"

definition assert_scope_allowed :: "tee_config \<Rightarrow> uuid \<Rightarrow> engine_error + unit" where
  "assert_scope_allowed cfg scope_id =
     (if tc_scope_bindings cfg = []
      then Inl (EngineRefusal ''tee: no scope bindings configured; refusing to synthesise'')
      else if scope_id \<notin> set (tc_scope_bindings cfg)
      then Inl (EngineRefusal (''tee: scope '' @ show_uuid scope_id @ '' not bound to this worker''))
      else Inr ())"

definition settle_idle :: "tee_state \<Rightarrow> tee_state" where
  "settle_idle st =
     (case te_lifecycle st of
        IdleWorker r b t \<Rightarrow> st\<lparr>te_lifecycle := Attested r b t False\<rparr> | _ \<Rightarrow> st)"

definition enter_synthesizing :: "tee_config \<Rightarrow> instant \<Rightarrow> uuid \<Rightarrow> tee_state \<Rightarrow> (engine_error + unit) \<times> tee_state" where
  "enter_synthesizing cfg now scope_id st0 =
     (case assert_scope_allowed cfg scope_id of
        Inl e \<Rightarrow> (Inl e, st0)
      | Inr _ \<Rightarrow>
        (let st = settle_idle st0 in
         case te_lifecycle st of
           Attested r b attested_at active \<Rightarrow>
             if tc_attestation_ttl cfg < now - attested_at
             then (Inl (EngineRefusal ''tee: attestation expired''), st\<lparr>te_lifecycle := Unattested\<rparr>)
             else if active
             then (Inl (EngineRefusal ''tee: worker is already inside a synthesis call''), st)
             else (Inr (), st\<lparr>te_lifecycle := Attested r b attested_at True\<rparr>)
         | _ \<Rightarrow> (Inl (EngineRefusal ''tee: worker is not attested''), st)))"

definition exit_synthesizing :: "tee_state \<Rightarrow> tee_state" where
  "exit_synthesizing st =
     (case te_lifecycle st of
        Attested r b t True \<Rightarrow> st\<lparr>te_lifecycle := IdleWorker r b t\<rparr> | _ \<Rightarrow> st)"

section \<open>A synthesis call without interference\<close>

record tee_worker =
  tw_state :: tee_state
  tw_synth :: endpoint_synthesizer
  tw_working_set :: working_set

definition tee_worker_with_synthesizer :: "int \<Rightarrow> bool \<Rightarrow> endpoint_synthesizer \<Rightarrow> tee_worker" where
  "tee_worker_with_synthesizer raw mlock_ok synth =
     \<lparr>tw_state = tee_state_default, tw_synth = synth, tw_working_set = reserve raw mlock_ok worker_prefault_bytes\<rparr>"

definition tee_worker_new :: "int \<Rightarrow> bool \<Rightarrow> instant \<Rightarrow> tee_worker" where
  "tee_worker_new raw mlock_ok now =
     tee_worker_with_synthesizer raw mlock_ok (synthesizer_new now
       (endpoint_config_new ''https://synthesis.tee.invalid/v1/synthesize'' ''TEE_DEFAULT_KEY_REF'' ''slm-recap-v1''))"

definition hex_digest :: "byte list \<Rightarrow> utext" where
  "hex_digest digest = concat (map hex_byte digest)"

definition tee_lifecycle_of :: "tee_worker \<Rightarrow> tee_worker_lifecycle" where
  "tee_lifecycle_of w = as_public (te_lifecycle (tw_state w))"

text \<open>The end of a session: wipe, then settle the lifecycle.\<close>

definition session_drop :: "tee_worker \<Rightarrow> tee_worker" where
  "session_drop w = w\<lparr>tw_working_set := wipe (tw_working_set w), tw_state := exit_synthesizing (tw_state w)\<rparr>"

definition domain_payloads :: "domain_synthesis_input \<Rightarrow> byte list list" where
  "domain_payloads input = map (\<lambda>c. so_payload (co_object c)) (di_channel_outputs input)"

definition tenant_payloads :: "tenant_synthesis_input \<Rightarrow> byte list list" where
  "tenant_payloads input =
     map (\<lambda>d. so_payload (do_object d)) (ti_domain_outputs input) @ map doc_payload (ti_approved_documents input)"

text \<open>\<open>now\<close> is the wall clock on entry. The digest goes to a debug log line; it is returned here.\<close>

definition tee_synthesize_domain :: "'h blake \<Rightarrow> tee_config \<Rightarrow> instant \<Rightarrow> synth_env \<Rightarrow> tiered_window_handle \<Rightarrow>
    domain_synthesis_input \<Rightarrow> tee_worker \<Rightarrow> window_manager \<Rightarrow>
    (engine_error + synthesis_object) \<times> byte list option \<times> tee_worker \<times> window_manager" where
  "tee_synthesize_domain bl cfg now x handle input w m =
     (case enter_synthesizing cfg now (di_domain_scope input) (tw_state w) of
        (Inl e, st) \<Rightarrow> (Inl e, None, w\<lparr>tw_state := st\<rparr>, m)
      | (Inr _, st) \<Rightarrow>
        (case stage_and_hash bl (domain_payloads input) (tw_working_set w) of
           (digest, ws) \<Rightarrow>
           (case synthesize_domain x handle input (tw_synth w) m of
              (r, hs, m1) \<Rightarrow>
                (r, Some digest, session_drop (w\<lparr>tw_state := st, tw_working_set := ws, tw_synth := hs\<rparr>), m1))))"

definition tee_synthesize_tenant :: "'h blake \<Rightarrow> tee_config \<Rightarrow> instant \<Rightarrow> synth_env \<Rightarrow> tiered_window_handle \<Rightarrow>
    tenant_synthesis_input \<Rightarrow> tee_worker \<Rightarrow> window_manager \<Rightarrow>
    (engine_error + synthesis_object) \<times> byte list option \<times> tee_worker \<times> window_manager" where
  "tee_synthesize_tenant bl cfg now x handle input w m =
     (case enter_synthesizing cfg now (ti_tenant_scope input) (tw_state w) of
        (Inl e, st) \<Rightarrow> (Inl e, None, w\<lparr>tw_state := st\<rparr>, m)
      | (Inr _, st) \<Rightarrow>
        (case stage_and_hash bl (tenant_payloads input) (tw_working_set w) of
           (digest, ws) \<Rightarrow>
           (case synthesize_tenant x handle input (tw_synth w) m of
              (r, hs, m1) \<Rightarrow>
                (r, Some digest, session_drop (w\<lparr>tw_state := st, tw_working_set := ws, tw_synth := hs\<rparr>), m1))))"

section \<open>Threads\<close>

text \<open>
  What a thread is doing: outside, between the two critical sections of attesting, admitted and waiting
  for the working set, holding it, or about to release it after the session has settled.
\<close>

datatype tee_phase =
    Outside
  | Quoting uuid
  | Waiting uuid
  | Staging uuid
  | Leaving

text \<open>The history records every admission: thread, scope, the attestation it relied on, and the time.\<close>

record admission =
  ad_thread :: nat
  ad_scope :: uuid
  ad_report :: attestation_report
  ad_binding :: attestation_binding
  ad_attested_at :: instant
  ad_time :: instant

record tee_system =
  sy_state :: tee_state
  sy_clock :: instant
  sy_phase :: "nat \<Rightarrow> tee_phase"
  sy_holder :: "nat option"
  sy_ws :: working_set
  sy_admitted :: "admission list"

fun admitted_under :: "nat \<Rightarrow> uuid \<Rightarrow> instant \<Rightarrow> tee_lifecycle \<Rightarrow> admission list" where
  "admitted_under i s now (Attested r b t active) =
     [\<lparr>ad_thread = i, ad_scope = s, ad_report = r, ad_binding = b, ad_attested_at = t, ad_time = now\<rparr>]"
| "admitted_under i s now _ = []"

definition tee_start :: "working_set \<Rightarrow> tee_system" where
  "tee_start ws = \<lparr>sy_state = tee_state_default, sy_clock = 0, sy_phase = (\<lambda>_. Outside), sy_holder = None,
     sy_ws = ws, sy_admitted = []\<rparr>"

inductive tee_step :: "'h blake \<Rightarrow> tee_config \<Rightarrow> tee_system \<Rightarrow> tee_system \<Rightarrow> bool" for bl :: "'h blake" and cfg where
  step_clock: "tee_step bl cfg sy (sy\<lparr>sy_clock := t\<rparr>)"
| step_settle_idle: "tee_step bl cfg sy (sy\<lparr>sy_state := settle_idle (sy_state sy)\<rparr>)"
| step_attest_begin: "sy_phase sy i = Outside \<Longrightarrow> attest_begin (sy_state sy) = (Inr (), st1) \<Longrightarrow>
    tee_step bl cfg sy (sy\<lparr>sy_state := st1, sy_phase := (sy_phase sy)(i := Quoting s)\<rparr>)"
| step_attest_end: "sy_phase sy i = Quoting s \<Longrightarrow> attest_end bl cfg ax s report (sy_state sy) = (r, st1) \<Longrightarrow>
    tee_step bl cfg sy (sy\<lparr>sy_state := st1, sy_phase := (sy_phase sy)(i := Outside)\<rparr>)"
| step_refused: "sy_phase sy i = Outside \<Longrightarrow> enter_synthesizing cfg (sy_clock sy) s (sy_state sy) = (Inl e, st1) \<Longrightarrow>
    tee_step bl cfg sy (sy\<lparr>sy_state := st1\<rparr>)"
| step_enter: "sy_phase sy i = Outside \<Longrightarrow> enter_synthesizing cfg (sy_clock sy) s (sy_state sy) = (Inr (), st1) \<Longrightarrow>
    tee_step bl cfg sy (sy\<lparr>sy_state := st1, sy_phase := (sy_phase sy)(i := Waiting s),
      sy_admitted := sy_admitted sy @ admitted_under i s (sy_clock sy) (te_lifecycle st1)\<rparr>)"
| step_lock: "sy_phase sy i = Waiting s \<Longrightarrow> sy_holder sy = None \<Longrightarrow>
    tee_step bl cfg sy (sy\<lparr>sy_phase := (sy_phase sy)(i := Staging s), sy_holder := Some i\<rparr>)"
| step_stage: "sy_phase sy i = Staging s \<Longrightarrow>
    tee_step bl cfg sy (sy\<lparr>sy_ws := snd (stage_and_hash bl payloads (sy_ws sy))\<rparr>)"
| step_settle: "sy_phase sy i = Staging s \<Longrightarrow>
    tee_step bl cfg sy (sy\<lparr>sy_ws := wipe (sy_ws sy), sy_state := exit_synthesizing (sy_state sy),
      sy_phase := (sy_phase sy)(i := Leaving)\<rparr>)"
| step_release: "sy_phase sy i = Leaving \<Longrightarrow>
    tee_step bl cfg sy (sy\<lparr>sy_phase := (sy_phase sy)(i := Outside), sy_holder := None\<rparr>)"

inductive tee_reach :: "'h blake \<Rightarrow> tee_config \<Rightarrow> working_set \<Rightarrow> tee_system \<Rightarrow> bool" for bl :: "'h blake" and cfg ws where
  tee_reach_start: "tee_reach bl cfg ws (tee_start ws)"
| tee_reach_step: "tee_reach bl cfg ws sy \<Longrightarrow> tee_step bl cfg sy sy1 \<Longrightarrow> tee_reach bl cfg ws sy1"

section \<open>Lemmas on staging\<close>

lemma chunks_concat: "0 < n \<Longrightarrow> concat (chunks n xs) = xs"
proof (induction n xs rule: chunks.induct)
  case (1 n xs)
  then show ?case by (subst chunks.simps) auto
qed

lemma chunks_length: "c \<in> set (chunks n xs) \<Longrightarrow> length c \<le> n"
proof (induction n xs rule: chunks.induct)
  case (1 n xs)
  then show ?case by (subst (asm) (2) chunks.simps) (auto split: if_splits)
qed

text \<open>Every byte of the pages is zero or what it was.\<close>

definition pages_clean :: "byte list \<Rightarrow> byte list \<Rightarrow> bool" where
  "pages_clean p0 p \<longleftrightarrow> length p = length p0 \<and> (\<forall>k < length p0. p ! k = 0 \<or> p ! k = p0 ! k)"

lemma pages_clean_refl [simp]: "pages_clean p p"
  by (simp add: pages_clean_def)

lemma pages_clean_trans: "pages_clean p q \<Longrightarrow> pages_clean q r \<Longrightarrow> pages_clean p r"
  by (simp add: pages_clean_def) metis

lemma pages_clean_zero: "pages_clean p (replicate (length p) 0)"
  by (simp add: pages_clean_def)

lemma stage_chunk_eq:
  "length c \<le> length pages \<Longrightarrow>
     stage_chunk bl c (pages, h) = (replicate (length c) 0 @ drop (length c) pages, bl_update bl c h)"
  by (simp add: stage_chunk_def Let_def)

lemma stage_chunks:
  "\<forall>c \<in> set cs. length c \<le> length pages \<Longrightarrow>
     (\<exists>pages1. fold (stage_chunk bl) cs (pages, h) = (pages1, fold (bl_update bl) cs h) \<and> pages_clean pages pages1)"
proof (induction cs arbitrary: pages h)
  case (Cons c cs)
  let ?p = "replicate (length c) 0 @ drop (length c) pages"
  have "pages_clean pages ?p" using Cons.prems by (auto simp: pages_clean_def nth_append)
  moreover have "\<forall>c \<in> set cs. length c \<le> length ?p" using Cons.prems by simp
  ultimately show ?case
    using Cons.IH [of ?p "bl_update bl c h"] Cons.prems by (auto simp: stage_chunk_eq intro: pages_clean_trans)
qed simp

lemma stage_payloads:
  "pages \<noteq> [] \<Longrightarrow> \<exists>pages1. fold (\<lambda>payload s. fold (stage_chunk bl) (chunks (length pages) payload) s) ps (pages, h) =
     (pages1, fold (bl_update bl) (concat (map (chunks (length pages)) ps)) h) \<and> pages_clean pages pages1"
proof (induction ps arbitrary: pages h)
  case (Cons p ps)
  obtain p1 where 1: "fold (stage_chunk bl) (chunks (length pages) p) (pages, h) =
      (p1, fold (bl_update bl) (chunks (length pages) p) h)" "pages_clean pages p1"
    using stage_chunks [of "chunks (length pages) p" pages bl h] chunks_length by blast
  then have "length p1 = length pages" "p1 \<noteq> []" using Cons.prems by (auto simp: pages_clean_def)
  then show ?case
    using Cons.IH [of p1 "fold (bl_update bl) (chunks (length pages) p) h"] 1
    by (auto intro: pages_clean_trans)
qed simp

lemma stage_and_hash_correct:
  assumes "blake_ok bl"
  shows "fst (stage_and_hash bl payloads ws) = content_hash bl (concat payloads)"
proof (cases "ws_pages ws = []")
  case True
  then show ?thesis using assms by (simp add: stage_and_hash_def blake_ok_def content_hash_def)
next
  case False
  have "concat (concat (map (chunks (length (ws_pages ws))) payloads)) = concat payloads"
    using False by (induction payloads) (simp_all add: chunks_concat)
  then show ?thesis
    using stage_payloads [OF False, of bl payloads "bl_new bl"] assms False
    by (auto simp: stage_and_hash_def Let_def blake_ok_def content_hash_def)
qed

lemma stage_and_hash_clean:
  "pages_clean (ws_pages ws) (ws_pages (snd (stage_and_hash bl payloads ws))) \<and>
     ws_locked (snd (stage_and_hash bl payloads ws)) = ws_locked ws"
  using stage_payloads [of "ws_pages ws" bl payloads "bl_new bl"]
  by (cases "ws_pages ws = []") (auto simp: stage_and_hash_def Let_def)

section \<open>Lemmas on the lifecycle\<close>

text \<open>What the worker knows of an attestation it holds.\<close>

definition vouched :: "'h blake \<Rightarrow> tee_config \<Rightarrow> attestation_report \<Rightarrow> attestation_binding \<Rightarrow> tee_state \<Rightarrow> bool" where
  "vouched bl cfg r b st \<longleftrightarrow> ar_platform r = tc_platform cfg \<and>
     verify_attestation r (tc_expected_measurement cfg) = Inr True \<and>
     ab_report_id b = ar_report_id r \<and> ab_pub_key b = tc_synthesizer_pub_key cfg \<and>
     ab_key_hash b = content_hash bl (tc_synthesizer_pub_key cfg) \<and>
     (\<exists>e \<in> set (te_audit st). ae_verified e \<and> ae_report_id e = ar_report_id r \<and> ae_binding_id e = Some (ab_binding_id b))"

fun held :: "tee_lifecycle \<Rightarrow> (attestation_report \<times> attestation_binding) option" where
  "held (Attested r b t active) = Some (r, b)"
| "held (IdleWorker r b t) = Some (r, b)"
| "held _ = None"

definition state_ok :: "'h blake \<Rightarrow> tee_config \<Rightarrow> tee_state \<Rightarrow> bool" where
  "state_ok bl cfg st \<longleftrightarrow> (\<forall>r b. held (te_lifecycle st) = Some (r, b) \<longrightarrow> vouched bl cfg r b st)"

lemma vouched_audit: "vouched bl cfg r b st \<Longrightarrow> set (te_audit st) \<subseteq> set (te_audit st1) \<Longrightarrow> vouched bl cfg r b st1"
  by (auto simp: vouched_def)

lemma attest_begin_effect: "attest_begin st = (Inr u, st1) \<Longrightarrow> st1 = st\<lparr>te_lifecycle := Attesting\<rparr>"
  by (auto simp: attest_begin_def split: tee_lifecycle.splits if_splits bool.splits)

lemma settle_idle_effect [simp]:
  "te_audit (settle_idle st) = te_audit st" "held (te_lifecycle (settle_idle st)) = held (te_lifecycle st)"
  by (auto simp: settle_idle_def split: tee_lifecycle.splits)

lemma exit_effect [simp]:
  "te_audit (exit_synthesizing st) = te_audit st" "held (te_lifecycle (exit_synthesizing st)) = held (te_lifecycle st)"
  by (auto simp: exit_synthesizing_def split: tee_lifecycle.splits bool.splits)

lemma assert_scope_allowed_Inr: "assert_scope_allowed cfg s = Inr u \<longleftrightarrow> s \<in> set (tc_scope_bindings cfg)"
  by (auto simp: assert_scope_allowed_def)

lemma enter_Inr:
  assumes "enter_synthesizing cfg now s st = (Inr u, st1)"
  shows "s \<in> set (tc_scope_bindings cfg) \<and> te_audit st1 = te_audit st \<and>
    (\<exists>r b t. te_lifecycle (settle_idle st) = Attested r b t False \<and> te_lifecycle st1 = Attested r b t True \<and>
       now - t \<le> tc_attestation_ttl cfg)"
  using assms
  by (auto simp: enter_synthesizing_def assert_scope_allowed_Inr Let_def
      split: sum.splits tee_lifecycle.splits if_splits)

lemma enter_Inl:
  "enter_synthesizing cfg now s st = (Inl e, st1) \<Longrightarrow> te_audit st1 = te_audit st \<and>
     (held (te_lifecycle st1) = None \<or> held (te_lifecycle st1) = held (te_lifecycle st))"
  using settle_idle_effect(2) [of st, symmetric]
  by (auto simp: enter_synthesizing_def Let_def simp del: settle_idle_effect(2)
      split: sum.splits tee_lifecycle.splits if_splits)

lemma attest_end_effect:
  assumes "attest_end bl cfg ax s report st = (r, st1)"
  shows "\<exists>e. te_audit st1 = te_audit st @ [e] \<and> ae_report_id e = ar_report_id report \<and>
    (if ar_platform report = tc_platform cfg \<and> verify_attestation report (tc_expected_measurement cfg) = Inr True
     then r = Inr report \<and> ae_verified e \<and> (\<exists>b. te_lifecycle st1 = Attested report b (ax_attested_at ax) False \<and>
       ae_binding_id e = Some (ab_binding_id b) \<and> b = bind_synthesizer_key bl (ax_binding_id ax) (ax_bound_at ax) report (tc_synthesizer_pub_key cfg))
     else (\<exists>x. r = Inl x) \<and> \<not> ae_verified e \<and> te_lifecycle st1 = Unattested)"
  using assms
  by (auto simp: attest_end_def attest_fail_def audit_failure_def audit_success_def Let_def split: sum.splits if_splits)

lemma attest_end_ok:
  assumes "attest_end bl cfg ax s report st = (r, st1)"
  shows "state_ok bl cfg st1 \<and> set (te_audit st) \<subseteq> set (te_audit st1)"
  using attest_end_effect [OF assms] by (auto simp: state_ok_def vouched_def bind_synthesizer_key_def split: if_splits)

lemma state_ok_cong:
  "state_ok bl cfg st \<Longrightarrow> te_audit st1 = te_audit st \<Longrightarrow>
     held (te_lifecycle st1) = None \<or> held (te_lifecycle st1) = held (te_lifecycle st) \<Longrightarrow> state_ok bl cfg st1"
  by (auto simp: state_ok_def vouched_def)

section \<open>The invariant of the threads\<close>

definition admission_ok :: "'h blake \<Rightarrow> tee_config \<Rightarrow> tee_state \<Rightarrow> admission \<Rightarrow> bool" where
  "admission_ok bl cfg st a \<longleftrightarrow> ad_scope a \<in> set (tc_scope_bindings cfg) \<and>
     vouched bl cfg (ad_report a) (ad_binding a) st \<and> ad_time a - ad_attested_at a \<le> tc_attestation_ttl cfg"

fun holds_set :: "tee_phase \<Rightarrow> bool" where
  "holds_set (Staging s) = True"
| "holds_set Leaving = True"
| "holds_set _ = False"

definition system_ok :: "'h blake \<Rightarrow> tee_config \<Rightarrow> working_set \<Rightarrow> tee_system \<Rightarrow> bool" where
  "system_ok bl cfg ws sy \<longleftrightarrow> state_ok bl cfg (sy_state sy) \<and>
     (\<forall>a \<in> set (sy_admitted sy). admission_ok bl cfg (sy_state sy) a) \<and>
     (\<forall>i. holds_set (sy_phase sy i) \<longleftrightarrow> sy_holder sy = Some i) \<and>
     pages_clean (ws_pages ws) (ws_pages (sy_ws sy))"

lemma admission_ok_audit:
  "admission_ok bl cfg st a \<Longrightarrow> set (te_audit st) \<subseteq> set (te_audit st1) \<Longrightarrow> admission_ok bl cfg st1 a"
  by (auto simp: admission_ok_def intro: vouched_audit)

lemma system_ok_start: "system_ok bl cfg ws (tee_start ws)"
  by (simp add: system_ok_def tee_start_def tee_state_default_def state_ok_def)

lemma system_ok_state:
  assumes "system_ok bl cfg ws sy" and "state_ok bl cfg st1" and "set (te_audit (sy_state sy)) \<subseteq> set (te_audit st1)"
    and "\<forall>i. holds_set (ph i) = holds_set (sy_phase sy i)" and "\<forall>a \<in> set new. admission_ok bl cfg st1 a"
  shows "system_ok bl cfg ws (sy\<lparr>sy_state := st1, sy_phase := ph, sy_admitted := sy_admitted sy @ new\<rparr>)"
  using assms by (auto simp: system_ok_def intro: admission_ok_audit)

lemma system_ok_enter:
  assumes "system_ok bl cfg ws sy" and "enter_synthesizing cfg (sy_clock sy) s (sy_state sy) = (Inr (), st1)"
    and "sy_phase sy i = Outside"
  shows "system_ok bl cfg ws (sy\<lparr>sy_state := st1, sy_phase := (sy_phase sy)(i := Waiting s),
      sy_admitted := sy_admitted sy @ admitted_under i s (sy_clock sy) (te_lifecycle st1)\<rparr>)"
proof (rule system_ok_state [OF assms(1)])
  from enter_Inr [OF assms(2)] obtain r b t where e: "s \<in> set (tc_scope_bindings cfg)" "te_audit st1 = te_audit (sy_state sy)"
    "te_lifecycle (settle_idle (sy_state sy)) = Attested r b t False" "te_lifecycle st1 = Attested r b t True"
    "sy_clock sy - t \<le> tc_attestation_ttl cfg" by blast
  have "held (te_lifecycle st1) = held (te_lifecycle (sy_state sy))"
    using settle_idle_effect(2) [of "sy_state sy"] e(3,4) by simp
  then show ok: "state_ok bl cfg st1"
    using assms(1) e(2) by (auto simp: system_ok_def intro: state_ok_cong)
  show "set (te_audit (sy_state sy)) \<subseteq> set (te_audit st1)" using e(2) by simp
  show "\<forall>j. holds_set (((sy_phase sy)(i := Waiting s)) j) = holds_set (sy_phase sy j)" using assms(3) by simp
  show "\<forall>a \<in> set (admitted_under i s (sy_clock sy) (te_lifecycle st1)). admission_ok bl cfg st1 a"
    using e ok by (simp add: admission_ok_def state_ok_def)
qed

lemma system_ok_step:
  assumes "tee_step bl cfg sy sy1" and "system_ok bl cfg ws sy"
  shows "system_ok bl cfg ws sy1"
  using assms
proof (cases rule: tee_step.cases)
  case (step_attest_end i s ax report r st1)
  then show ?thesis
    using attest_end_ok [of bl cfg ax s report "sy_state sy" r st1] assms(2)
      system_ok_state [of bl cfg ws sy st1 "(sy_phase sy)(i := Outside)" "[]"] by simp
next
  case (step_attest_begin i st1 s)
  then show ?thesis
    using attest_begin_effect [of "sy_state sy" "()" st1] assms(2)
      system_ok_state [of bl cfg ws sy st1 "(sy_phase sy)(i := Quoting s)" "[]"] by (simp add: state_ok_def)
next
  case (step_refused i s e st1)
  then show ?thesis
    using enter_Inl [of cfg "sy_clock sy" s "sy_state sy" e st1] assms(2)
      system_ok_state [of bl cfg ws sy st1 "sy_phase sy" "[]"] by (auto simp: system_ok_def intro: state_ok_cong)
next
  case (step_enter i s st1)
  then show ?thesis using system_ok_enter [OF assms(2), of s st1 i] by simp
next
  case (step_stage i s payloads)
  then show ?thesis
    using assms(2) stage_and_hash_clean [of "sy_ws sy" bl payloads] by (auto simp: system_ok_def intro: pages_clean_trans)
next
  case (step_settle i s)
  have "pages_clean (ws_pages ws) (ws_pages (wipe (sy_ws sy)))"
    using assms(2) by (auto simp: system_ok_def pages_clean_def wipe_def)
  moreover have "state_ok bl cfg (exit_synthesizing (sy_state sy))"
    using assms(2) by (auto simp: system_ok_def intro: state_ok_cong)
  moreover have "admission_ok bl cfg (exit_synthesizing (sy_state sy)) a" if "a \<in> set (sy_admitted sy)" for a
    using assms(2) that by (auto simp: system_ok_def intro: admission_ok_audit)
  ultimately show ?thesis using assms(2) step_settle by (auto simp: system_ok_def)
next
  case step_settle_idle
  have "state_ok bl cfg (settle_idle (sy_state sy))"
    using assms(2) by (auto simp: system_ok_def intro: state_ok_cong)
  moreover have "admission_ok bl cfg (settle_idle (sy_state sy)) a" if "a \<in> set (sy_admitted sy)" for a
    using assms(2) that by (auto simp: system_ok_def intro: admission_ok_audit)
  ultimately show ?thesis using assms(2) step_settle_idle by (auto simp: system_ok_def)
qed (auto simp: system_ok_def)

lemma tee_reach_ok: "tee_reach bl cfg ws sy \<Longrightarrow> system_ok bl cfg ws sy"
  by (induction rule: tee_reach.induct) (auto intro: system_ok_start system_ok_step)

section \<open>Fail-closed platforms\<close>

lemma verify_only_mock: "verify_attestation r expected = Inr b \<Longrightarrow> ar_platform r = MockPlatform"
  by (auto simp: verify_attestation_def split: tee_platform.splits)

definition closed_state :: "tee_state \<Rightarrow> bool" where
  "closed_state st \<longleftrightarrow> held (te_lifecycle st) = None \<and> (\<forall>e \<in> set (te_audit st). \<not> ae_verified e)"

lemma closed_state_step:
  assumes "tee_step bl cfg sy sy1" and "tc_platform cfg \<noteq> MockPlatform"
    and "closed_state (sy_state sy)" and "sy_admitted sy = []"
  shows "closed_state (sy_state sy1) \<and> sy_admitted sy1 = []"
  using assms
proof (cases rule: tee_step.cases)
  case (step_attest_end i s ax report r st1)
  have "\<not> (ar_platform report = tc_platform cfg \<and> verify_attestation report (tc_expected_measurement cfg) = Inr True)"
    using verify_only_mock assms(2) by metis
  then show ?thesis
    using attest_end_effect [OF step_attest_end(3)] assms(3,4) step_attest_end(1) by (auto simp: closed_state_def)
next
  case (step_attest_begin i st1 s)
  then show ?thesis using attest_begin_effect [of "sy_state sy" "()" st1] assms(3,4) by (simp add: closed_state_def)
next
  case (step_refused i s e st1)
  then show ?thesis using enter_Inl [OF step_refused(3)] assms(3,4) by (auto simp: closed_state_def)
next
  case (step_enter i s st1)
  have "held (te_lifecycle (settle_idle (sy_state sy))) = None" using assms(3) by (simp add: closed_state_def)
  then show ?thesis using enter_Inr [OF step_enter(3)] by (auto simp del: settle_idle_effect(2))
qed (auto simp: closed_state_def)

lemma tee_reach_closed:
  "tee_reach bl cfg ws sy \<Longrightarrow> tc_platform cfg \<noteq> MockPlatform \<Longrightarrow> closed_state (sy_state sy) \<and> sy_admitted sy = []"
proof (induction rule: tee_reach.induct)
  case tee_reach_start
  then show ?case by (simp add: closed_state_def tee_start_def tee_state_default_def)
next
  case (tee_reach_step sy sy1)
  then show ?case using closed_state_step by blast
qed

section \<open>The worker is a window synthesizer\<close>

fun tee_call :: "'h blake \<Rightarrow> tee_config \<Rightarrow> instant \<times> synth_env \<Rightarrow> stub_input \<Rightarrow> tee_worker \<Rightarrow> window_manager \<Rightarrow>
    (engine_error + synthesis_object) \<times> tee_worker \<times> window_manager" where
  "tee_call bl cfg (now, x) (Inl (handle, input)) w m =
     (case tee_synthesize_domain bl cfg now x handle input w m of (r, d, w1, m1) \<Rightarrow> (r, w1, m1))"
| "tee_call bl cfg (now, x) (Inr (handle, input)) w m =
     (case tee_synthesize_tenant bl cfg now x handle input w m of (r, d, w1, m1) \<Rightarrow> (r, w1, m1))"

lemma window_driven_refused [simp]: "window_driven i (Inl e) m m"
  by (simp add: window_driven_def)

lemma endpoint_drives:
  "synthesize_domain x handle dinput hs m = (r, hs1, m1) \<Longrightarrow> window_driven (th_window_id handle) r m m1"
  "synthesize_tenant x handle tinput hs m = (r, hs1, m1) \<Longrightarrow> window_driven (th_window_id handle) r m m1"
  using synthesize_domain_cases synthesize_tenant_cases synth_outcome_drives build_window by metis+

lemma tee_drives:
  "tee_synthesize_domain bl cfg now x handle dinput w m = (r, d, w1, m1) \<Longrightarrow> window_driven (th_window_id handle) r m m1"
  "tee_synthesize_tenant bl cfg now x handle tinput w m = (r, d, w1, m1) \<Longrightarrow> window_driven (th_window_id handle) r m m1"
  by (auto simp: tee_synthesize_domain_def tee_synthesize_tenant_def split: prod.splits sum.splits
      intro: endpoint_drives)

interpretation tee: window_synthesizer stub_window "tee_call bl cfg" for bl :: "'h blake" and cfg
proof (unfold_locales, goal_cases)
  case (1 x c s m r s1 m1)
  then show ?case
    using tee_drives by (cases x; cases c rule: stub_window.cases) (auto split: prod.splits)
qed

lemma tee_call_admitted:
  assumes "tee_synthesize_domain bl cfg now x handle input w m = (Inr obj, d, w1, m1)"
  shows "synthesize_domain x handle input (tw_synth w) m = (Inr obj, tw_synth w1, m1) \<and>
    di_domain_scope input \<in> set (tc_scope_bindings cfg)"
proof (cases "enter_synthesizing cfg now (di_domain_scope input) (tw_state w)")
  case (Pair q st)
  then obtain u where "q = Inr u" using assms by (cases q) (auto simp: tee_synthesize_domain_def)
  then show ?thesis
    using assms Pair enter_Inr [of cfg now "di_domain_scope input" "tw_state w" u st]
    by (auto simp: tee_synthesize_domain_def session_drop_def split: prod.splits)
qed

section \<open>Properties\<close>

text \<open>
  C17. However the threads of a worker interleave, attestations that fail or are replayed included: every
  synthesis call that was admitted targets a bound scope and relies on a report of the configured
  platform with the expected measurement, bound to the synthesizer's key, recorded as verified in the
  audit trail, and not older than its time to live at the admission. At most one call is inside the
  working set, and no byte of a payload is left in it beside a call.
\<close>

theorem tee_calls_are_attested:
  assumes "tee_reach bl cfg ws sy"
  shows "(\<forall>a \<in> set (sy_admitted sy). ad_scope a \<in> set (tc_scope_bindings cfg) \<and>
       ar_platform (ad_report a) = tc_platform cfg \<and>
       verify_attestation (ad_report a) (tc_expected_measurement cfg) = Inr True \<and>
       ab_key_hash (ad_binding a) = content_hash bl (tc_synthesizer_pub_key cfg) \<and>
       ad_time a - ad_attested_at a \<le> tc_attestation_ttl cfg \<and>
       (\<exists>e \<in> set (te_audit (sy_state sy)). ae_verified e \<and> ae_report_id e = ar_report_id (ad_report a))) \<and>
    (\<forall>i j. holds_set (sy_phase sy i) \<and> holds_set (sy_phase sy j) \<longrightarrow> i = j) \<and>
    (\<forall>k < length (ws_pages ws). ws_pages (sy_ws sy) ! k = 0 \<or> ws_pages (sy_ws sy) ! k = ws_pages ws ! k)"
  using tee_reach_ok [OF assms]
  by (auto simp: system_ok_def admission_ok_def vouched_def pages_clean_def)

text \<open>
  On the real platforms, whose quotes cannot be verified yet, no interleaving attests the worker or
  admits a call, whatever reports the platform returns.
\<close>

theorem tee_fails_closed:
  assumes "tee_reach bl cfg ws sy" and "tc_platform cfg \<noteq> MockPlatform"
  shows "sy_admitted sy = [] \<and> te_lifecycle (sy_state sy) \<in> {Unattested, Attesting} \<and>
    (\<forall>e \<in> set (te_audit (sy_state sy)). \<not> ae_verified e) \<and>
    (\<forall>now s. \<exists>e. fst (enter_synthesizing cfg now s (sy_state sy)) = Inl e)"
proof -
  note c = tee_reach_closed [OF assms]
  have "\<exists>e. fst (enter_synthesizing cfg now s (sy_state sy)) = Inl e" for now s
  proof (cases "enter_synthesizing cfg now s (sy_state sy)")
    case (Pair r st1)
    have "held (te_lifecycle (settle_idle (sy_state sy))) = None" using c by (simp add: closed_state_def)
    then show ?thesis using Pair enter_Inr [of cfg now s "sy_state sy" _ st1]
      by (cases r) (auto simp del: settle_idle_effect(2))
  qed
  then show ?thesis using c by (cases "te_lifecycle (sy_state sy)") (auto simp: closed_state_def)
qed


section \<open>Findings\<close>

definition sample_blake :: "byte list blake" where
  "sample_blake = \<lparr>bl_hash = (\<lambda>x. x), bl_new = [], bl_update = (\<lambda>p h. h @ p), bl_finalize = (\<lambda>h. h)\<rparr>"

lemma sample_blake_ok: "blake_ok sample_blake"
proof -
  have "fold (\<lambda>p h. h @ p) parts (h0 :: byte list) = h0 @ concat parts" for parts h0
    by (induction parts arbitrary: h0) simp_all
  then show ?thesis by (simp add: blake_ok_def sample_blake_def)
qed

definition sample_tee :: "tee_platform \<Rightarrow> tee_config" where
  "sample_tee p = tee_config_new p [1] [2] [9] [1]"

definition sample_report :: "tee_platform \<Rightarrow> attestation_report" where
  "sample_report p = attestation_report_new 30 0 p [1] [] []"

definition sample_ax :: attest_env where
  "sample_ax = \<lparr>ax_nonce = 31, ax_binding_id = 32, ax_bound_at = 0, ax_entry_id = 33, ax_entry_at = 0, ax_attested_at = 0\<rparr>"

definition sample_ws :: working_set where
  "sample_ws = \<lparr>ws_pages = [0], ws_locked = True\<rparr>"

definition sample_bound :: "attestation_binding" where
  "sample_bound = bind_synthesizer_key sample_blake 32 0 (sample_report MockPlatform) [2]"

lemmas sample_tee_defs = sample_blake_def sample_tee_def sample_report_def sample_ax_def sample_bound_def
  tee_config_new_def attestation_report_new_def bind_synthesizer_key_def content_hash_def verify_attestation_def
  audit_success_def audit_failure_def attest_end_def attest_fail_def attest_begin_def enter_synthesizing_def
  assert_scope_allowed_def settle_idle_def attestation_ttl_default_def duration_seconds_def nanos_per_sec_def

definition mock_state :: "bool \<Rightarrow> nat \<Rightarrow> tee_state" where
  "mock_state active n = \<lparr>te_lifecycle = Attested (sample_report MockPlatform) sample_bound 0 active,
     te_audit = replicate n (audit_success 33 0 30 32 0 MockPlatform)\<rparr>"

lemma sample_attest:
  "attest_end sample_blake (sample_tee MockPlatform) sample_ax 0 (sample_report MockPlatform)
     \<lparr>te_lifecycle = lc, te_audit = replicate n (audit_success 33 0 30 32 0 MockPlatform)\<rparr> =
   (Inr (sample_report MockPlatform), mock_state False (Suc n))"
  by (simp add: sample_tee_defs mock_state_def Let_def replicate_append_same)

lemma sample_enter:
  "enter_synthesizing (sample_tee MockPlatform) 0 9 (mock_state False n) = (Inr (), mock_state True n)"
  by (simp add: sample_tee_defs mock_state_def Let_def)

lemmas sample_attest_begin = sample_attest [of Attesting 0, simplified] sample_attest [of _ 1, simplified]

text \<open>A run of four threads up to the moment the third is admitted, while the first still attests.\<close>

definition sample_admission :: "nat \<Rightarrow> admission" where
  "sample_admission i = \<lparr>ad_thread = i, ad_scope = 9, ad_report = sample_report MockPlatform, ad_binding = sample_bound,
     ad_attested_at = 0, ad_time = 0\<rparr>"

definition sample_third :: tee_system where
  "sample_third = \<lparr>sy_state = mock_state True 1, sy_clock = 0,
     sy_phase = (\<lambda>_. Outside)(1 := Quoting 0, 2 := Outside, 3 := Waiting 9), sy_holder = None, sy_ws = sample_ws,
     sy_admitted = [sample_admission 3]\<rparr>"

lemma third_is_admitted: "tee_reach sample_blake (sample_tee MockPlatform) sample_ws sample_third"
proof -
  let ?bl = "sample_blake" and ?cfg = "sample_tee MockPlatform"
  let ?s0 = "tee_start sample_ws"
  let ?s1 = "?s0\<lparr>sy_state := \<lparr>te_lifecycle = Attesting, te_audit = []\<rparr>, sy_phase := (sy_phase ?s0)(1 := Quoting 0)\<rparr>"
  let ?s2 = "?s1\<lparr>sy_state := \<lparr>te_lifecycle = Attesting, te_audit = []\<rparr>, sy_phase := (sy_phase ?s1)(2 := Quoting 0)\<rparr>"
  let ?s3 = "?s2\<lparr>sy_state := mock_state False 1, sy_phase := (sy_phase ?s2)(2 := Outside)\<rparr>"
  let ?s4 = "?s3\<lparr>sy_state := mock_state True 1, sy_phase := (sy_phase ?s3)(3 := Waiting 9),
    sy_admitted := sy_admitted ?s3 @ admitted_under 3 9 (sy_clock ?s3) (te_lifecycle (mock_state True 1))\<rparr>"
  note defs = tee_start_def tee_state_default_def attest_begin_def
  have 1: "tee_reach ?bl ?cfg sample_ws ?s1"
    by (rule tee_reach_step [OF tee_reach_start step_attest_begin]) (simp_all add: defs)
  have 2: "tee_reach ?bl ?cfg sample_ws ?s2"
    by (rule tee_reach_step [OF 1 step_attest_begin]) (simp_all add: defs)
  have 3: "tee_reach ?bl ?cfg sample_ws ?s3"
    by (rule tee_reach_step [OF 2 step_attest_end [where s = 0 and ax = sample_ax and report = "sample_report MockPlatform"]])
      (simp_all add: sample_attest_begin)
  have 4: "tee_reach ?bl ?cfg sample_ws ?s4"
    by (rule tee_reach_step [OF 3 step_enter]) (simp_all add: defs sample_enter)
  have "sample_third = ?s4"
    by (simp add: sample_third_def defs sample_admission_def mock_state_def fun_eq_iff)
  then show ?thesis using 4 by (simp only:)
qed

text \<open>
  The guard against attesting during a call is checked in the first critical section only. A thread that
  passed it before the call began clears the session in its second one, and a further call is admitted
  while the first is still in flight.
\<close>

lemma attest_clobbers_active_session:
  "\<exists>sy. tee_reach sample_blake (sample_tee MockPlatform) sample_ws sy \<and>
     sy_phase sy 3 = Waiting 9 \<and> sy_phase sy 4 = Waiting 9"
proof -
  let ?bl = "sample_blake" and ?cfg = "sample_tee MockPlatform"
  let ?s5 = "sample_third\<lparr>sy_state := mock_state False 2, sy_phase := (sy_phase sample_third)(1 := Outside)\<rparr>"
  have e: "attest_end ?bl ?cfg sample_ax 0 (sample_report MockPlatform) (mock_state True 1) =
      (Inr (sample_report MockPlatform), mock_state False 2)"
    using sample_attest [of _ 1] by (simp add: mock_state_def numeral_2_eq_2)
  have 5: "tee_reach ?bl ?cfg sample_ws ?s5"
    by (rule tee_reach_step [OF third_is_admitted
          step_attest_end [where s = 0 and ax = sample_ax and report = "sample_report MockPlatform"]])
      (simp_all add: sample_third_def e [simplified])
  let ?s6 = "?s5\<lparr>sy_state := mock_state True 2, sy_phase := (sy_phase ?s5)(4 := Waiting 9),
      sy_admitted := sy_admitted ?s5 @ admitted_under 4 9 (sy_clock ?s5) (te_lifecycle (mock_state True 2))\<rparr>"
  have 6: "tee_reach ?bl ?cfg sample_ws ?s6"
    by (rule tee_reach_step [OF 5 step_enter]) (simp_all add: sample_third_def sample_enter)
  have "sy_phase ?s6 3 = Waiting 9 \<and> sy_phase ?s6 4 = Waiting 9" by (simp add: sample_third_def)
  with 6 show ?thesis by blast
qed

text \<open>
  The report is not compared with the nonce of the request, and its age is counted from its acceptance:
  the same old report attests the worker again and again.
\<close>

lemma replayed_report_is_accepted:
  assumes "\<forall>r b t. te_lifecycle st \<noteq> Attested r b t True"
    and "ar_platform old = MockPlatform" "ar_measurement old = tc_expected_measurement cfg" "tc_platform cfg = MockPlatform"
  shows "fst (attest bl (\<lambda>_ _. old) cfg ax st) = Inr old"
  using assms
  by (auto simp: attest_def attest_with_scope_def attest_begin_def attest_end_def verify_attestation_def Let_def
      split: tee_lifecycle.splits bool.splits)

text \<open>An expired attestation is not renewed by the call that finds it expired.\<close>

lemma expired_call_is_refused:
  assumes "te_lifecycle (settle_idle st) = Attested r b t active" "s \<in> set (tc_scope_bindings cfg)"
    "tc_attestation_ttl cfg < now - t"
  shows "\<exists>e st1. enter_synthesizing cfg now s st = (Inl e, st1) \<and> te_lifecycle st1 = Unattested \<and> te_audit st1 = te_audit st"
  using assms by (auto simp: enter_synthesizing_def assert_scope_allowed_def Let_def)

section \<open>Witnesses\<close>

theorem tee_calls_are_attested_witness:
  "sample_admission 3 \<in> set (sy_admitted sample_third) \<and> ad_time (sample_admission 3) - ad_attested_at (sample_admission 3) \<le>
     tc_attestation_ttl (sample_tee MockPlatform)"
  using tee_calls_are_attested [OF third_is_admitted] by (auto simp: sample_third_def)

theorem tee_fails_closed_witness:
  "sy_admitted (tee_start sample_ws) = [] \<and>
   (\<exists>e. fst (enter_synthesizing (sample_tee NitroEnclaves) 0 9 (sy_state (tee_start sample_ws))) = Inl e)"
  using tee_fails_closed [OF tee_reach_start [of sample_blake "sample_tee NitroEnclaves" sample_ws]]
  by (simp add: sample_tee_def tee_config_new_def)


end
