(* ===== verification/Reason_Traversal.thy ===== *)
theory Reason_Traversal
  imports Concept_Traversal
begin

text \<open>
  The multi-hop traversal of the reasoning engine (\<^verbatim>\<open>reasoning_engine/src/traversal.rs\<close>): a breadth-first
  search over the concept graph with filters, a direction, an optional target and four budgets, which
  returns paths with scores. The monotonic clock is read once per dequeued node; its readings are an
  argument, as are the rounding arithmetic and the power function of the scores.
\<close>

section \<open>Queries and budgets\<close>

datatype traversal_direction = Outgoing | Incoming | Both

record traversal_budget =
  tb_max_hops :: nat
  tb_max_nodes_visited :: nat
  tb_max_time_ms :: nat
  tb_max_edges_per_hop :: nat

definition traversal_budget_default :: traversal_budget where
  "traversal_budget_default =
     \<lparr>tb_max_hops = 4, tb_max_nodes_visited = 1000, tb_max_time_ms = 50, tb_max_edges_per_hop = 64\<rparr>"

record traversal_query =
  tq_start :: uuid
  tq_target :: "uuid option"
  tq_edge_types :: "relation_type list"
  tq_scopes :: "uuid list"
  tq_direction :: traversal_direction

definition explore :: "uuid \<Rightarrow> traversal_query" where
  "explore start = \<lparr>tq_start = start, tq_target = None, tq_edge_types = [], tq_scopes = [], tq_direction = Outgoing\<rparr>"

definition between :: "uuid \<Rightarrow> uuid \<Rightarrow> traversal_query" where
  "between start target =
     \<lparr>tq_start = start, tq_target = Some target, tq_edge_types = [], tq_scopes = [], tq_direction = Outgoing\<rparr>"

definition with_edge_types :: "relation_type list \<Rightarrow> traversal_query \<Rightarrow> traversal_query" where
  "with_edge_types types q = q\<lparr>tq_edge_types := types\<rparr>"

definition query_with_scopes :: "uuid list \<Rightarrow> traversal_query \<Rightarrow> traversal_query" where
  "query_with_scopes scopes q = q\<lparr>tq_scopes := scopes\<rparr>"

definition with_direction :: "traversal_direction \<Rightarrow> traversal_query \<Rightarrow> traversal_query" where
  "with_direction dir q = q\<lparr>tq_direction := dir\<rparr>"

record traversed_path =
  tp_nodes :: "uuid list"
  tp_edges :: "uuid list"
  tp_score :: f64

record reasoning_trace =
  rt_nodes_expanded :: nat
  rt_edges_inspected :: nat
  rt_hops_taken :: nat
  rt_elapsed_ms :: nat
  rt_budget_exhausted :: bool

definition reasoning_trace_default :: reasoning_trace where
  "reasoning_trace_default = \<lparr>rt_nodes_expanded = 0, rt_edges_inspected = 0, rt_hops_taken = 0, rt_elapsed_ms = 0,
     rt_budget_exhausted = False\<rparr>"

record traversal_result =
  tr_paths :: "traversed_path list"
  tr_visited :: "uuid list"
  tr_trace :: reasoning_trace
  tr_completed_at :: instant

section \<open>Scores\<close>

record f64_math = f64_ops +
  f_sub :: "f64 \<Rightarrow> f64 \<Rightarrow> f64"
  f_pow :: "f64 \<Rightarrow> f64 \<Rightarrow> f64"

record path_scorer =
  ps_relation_weights :: "relation_type \<rightharpoonup> f64"
  ps_depth_penalty :: f64

definition path_scorer_default :: path_scorer where
  "path_scorer_default = \<lparr>ps_relation_weights = Map.empty, ps_depth_penalty = f64_0_05\<rparr>"

definition with_weight :: "relation_type \<Rightarrow> f64 \<Rightarrow> path_scorer \<Rightarrow> path_scorer" where
  "with_weight relation weight s = s\<lparr>ps_relation_weights := (ps_relation_weights s)(relation \<mapsto> weight)\<rparr>"

definition with_depth_penalty :: "f64 \<Rightarrow> path_scorer \<Rightarrow> path_scorer" where
  "with_depth_penalty penalty s = s\<lparr>ps_depth_penalty := penalty\<rparr>"

definition path_score :: "f64_math \<Rightarrow> path_scorer \<Rightarrow> nat \<Rightarrow> relation_type list \<Rightarrow> f64" where
  "path_score fm s path_len relations =
     (if relations = [] then f64_1
      else
        (let prod = foldl (\<lambda>p r. f_mul fm p (case ps_relation_weights s r of None \<Rightarrow> f64_1 | Some w \<Rightarrow> w)) f64_1 relations;
             geom = f_pow fm prod (f_div fm f64_1 (f_of_int fm (int (length relations))));
             penalty = f64_min (f_mul fm (ps_depth_penalty s) (f_of_int fm (int path_len))) f64_1
         in f64_clamp (f_mul fm geom (f_sub fm f64_1 penalty)) f64_0 f64_1))"

section \<open>The traversal\<close>

record graph_traversal =
  gt_graph :: concept_graph
  gt_budget :: traversal_budget
  gt_scorer :: path_scorer

definition graph_traversal_new :: "concept_graph \<Rightarrow> graph_traversal" where
  "graph_traversal_new g = \<lparr>gt_graph = g, gt_budget = traversal_budget_default, gt_scorer = path_scorer_default\<rparr>"

definition with_budget :: "traversal_budget \<Rightarrow> graph_traversal \<Rightarrow> graph_traversal" where
  "with_budget budget gt = gt\<lparr>gt_budget := budget\<rparr>"

definition with_scorer :: "path_scorer \<Rightarrow> graph_traversal \<Rightarrow> graph_traversal" where
  "with_scorer scorer gt = gt\<lparr>gt_scorer := scorer\<rparr>"

definition edge_passes_filter :: "concept_edge \<Rightarrow> traversal_query \<Rightarrow> bool" where
  "edge_passes_filter edge q =
     (if tq_edge_types q \<noteq> [] \<and> ce_relation edge \<notin> set (tq_edge_types q) then False
      else if tq_scopes q \<noteq> [] \<and> ce_scope_id edge \<notin> set (tq_scopes q) then False
      else True)"

text \<open>The neighbour an edge contributes at \<open>node\<close> in the direction of the query.\<close>

fun edge_neighbour :: "traversal_direction \<Rightarrow> uuid \<Rightarrow> concept_edge \<Rightarrow> uuid option" where
  "edge_neighbour Outgoing node edge = (if ce_from edge = node then Some (ce_to edge) else None)"
| "edge_neighbour Incoming node edge = (if ce_to edge = node then Some (ce_from edge) else None)"
| "edge_neighbour Both node edge =
     (if ce_from edge = node then Some (ce_to edge) else if ce_to edge = node then Some (ce_from edge) else None)"

definition expand :: "concept_graph \<Rightarrow> traversal_query \<Rightarrow> uuid \<Rightarrow> (uuid \<times> uuid \<times> relation_type) list" where
  "expand g q node =
     List.map_filter (\<lambda>edge. if \<not> edge_passes_filter edge q then None
       else map_option (\<lambda>next1. (next1, ce_id edge, ce_relation edge)) (edge_neighbour (tq_direction q) node edge))
       (get_edges g node)"

text \<open>A queued node: its depth and the nodes, edges and relations of the path to it.\<close>

record frontier_item =
  fi_node :: uuid
  fi_depth :: nat
  fi_nodes :: "uuid list"
  fi_edges :: "uuid list"
  fi_relations :: "relation_type list"

record traversal_state =
  tv_visited :: "uuid set"
  tv_order :: "uuid list"
  tv_frontier :: "frontier_item list"
  tv_paths :: "traversed_path list"
  tv_trace :: reasoning_trace

definition extend_item :: "frontier_item \<Rightarrow> uuid \<times> uuid \<times> relation_type \<Rightarrow> frontier_item" where
  "extend_item it n = (case n of (next1, edge_id, relation) \<Rightarrow>
     \<lparr>fi_node = next1, fi_depth = fi_depth it + 1, fi_nodes = fi_nodes it @ [next1], fi_edges = fi_edges it @ [edge_id],
      fi_relations = fi_relations it @ [relation]\<rparr>)"

definition item_path :: "(nat \<Rightarrow> relation_type list \<Rightarrow> f64) \<Rightarrow> frontier_item \<Rightarrow> traversed_path" where
  "item_path score it = \<lparr>tp_nodes = fi_nodes it, tp_edges = fi_edges it,
     tp_score = score (length (fi_nodes it) - 1) (fi_relations it)\<rparr>"

text \<open>The loop over the neighbours; the flag tells that the target was hit.\<close>

fun visit_edges :: "nat \<Rightarrow> uuid option \<Rightarrow> (nat \<Rightarrow> relation_type list \<Rightarrow> f64) \<Rightarrow> frontier_item \<Rightarrow> nat \<Rightarrow>
    (uuid \<times> uuid \<times> relation_type) list \<Rightarrow> traversal_state \<Rightarrow> bool \<times> traversal_state" where
  "visit_edges max_edges target score it emitted [] st = (False, st)"
| "visit_edges max_edges target score it emitted (n # ns) st =
     (if max_edges \<le> emitted then (False, st)
      else
        (let st1 = st\<lparr>tv_trace := (tv_trace st)\<lparr>rt_edges_inspected := rt_edges_inspected (tv_trace st) + 1\<rparr>\<rparr> in
         if fst n \<in> tv_visited st1 then visit_edges max_edges target score it emitted ns st1
         else
           (let st2 = st1\<lparr>tv_visited := insert (fst n) (tv_visited st1), tv_order := tv_order st1 @ [fst n]\<rparr>;
                it1 = extend_item it n
            in if target = Some (fst n) then (True, st2\<lparr>tv_paths := tv_paths st2 @ [item_path score it1]\<rparr>)
               else visit_edges max_edges target score it (emitted + 1) ns
                 (st2\<lparr>tv_frontier := tv_frontier st2 @ [it1]\<rparr>))))"

text \<open>What the loop adds: the new neighbours in order, the last of them perhaps the target.\<close>

definition edges_visited :: "uuid option \<Rightarrow> (nat \<Rightarrow> relation_type list \<Rightarrow> f64) \<Rightarrow> frontier_item \<Rightarrow>
    (uuid \<times> uuid \<times> relation_type) list \<Rightarrow> traversal_state \<Rightarrow> bool \<Rightarrow> traversal_state \<Rightarrow> bool" where
  "edges_visited target score it new st hit st1 \<longleftrightarrow> distinct (map fst new) \<and> fst ` set new \<inter> tv_visited st = {} \<and>
     tv_visited st1 = tv_visited st \<union> fst ` set new \<and> tv_order st1 = tv_order st @ map fst new \<and>
     rt_nodes_expanded (tv_trace st1) = rt_nodes_expanded (tv_trace st) \<and>
     rt_budget_exhausted (tv_trace st1) = rt_budget_exhausted (tv_trace st) \<and>
     (if hit then new \<noteq> [] \<and> target = Some (fst (last new)) \<and>
        tv_frontier st1 = tv_frontier st @ map (extend_item it) (butlast new) \<and>
        tv_paths st1 = tv_paths st @ [item_path score (extend_item it (last new))]
      else target \<notin> Some ` fst ` set new \<and> tv_frontier st1 = tv_frontier st @ map (extend_item it) new \<and>
        tv_paths st1 = tv_paths st)"

definition visit_node :: "frontier_item \<Rightarrow> uuid \<times> uuid \<times> relation_type \<Rightarrow> traversal_state \<Rightarrow> traversal_state" where
  "visit_node it n st = st\<lparr>tv_trace := (tv_trace st)\<lparr>rt_edges_inspected := rt_edges_inspected (tv_trace st) + 1\<rparr>,
     tv_visited := insert (fst n) (tv_visited st), tv_order := tv_order st @ [fst n],
     tv_frontier := tv_frontier st @ [extend_item it n]\<rparr>"

lemma edges_visited_Cons:
  assumes "fst n \<notin> tv_visited st" and "target \<noteq> Some (fst n)"
    and "edges_visited target score it new (visit_node it n st) hit st1"
  shows "edges_visited target score it (n # new) st hit st1"
proof -
  have "distinct (map fst (n # new))" "fst ` set (n # new) \<inter> tv_visited st = {}"
    using assms by (auto simp: edges_visited_def visit_node_def)
  moreover have "hit \<longrightarrow> new \<noteq> []" using assms(3) by (auto simp: edges_visited_def)
  moreover have "target \<notin> Some ` fst ` set new \<longrightarrow> target \<notin> Some ` fst ` set (n # new)" using assms(2) by auto
  ultimately show ?thesis using assms(3) by (simp add: edges_visited_def visit_node_def split: if_splits)
qed

lemma visit_edges_spec:
  assumes "visit_edges mx target score it emitted ns st = (hit, st1)"
  shows "\<exists>new. set new \<subseteq> set ns \<and> (emitted \<le> mx \<longrightarrow> length new + emitted \<le> mx) \<and>
    (emitted + length ns \<le> mx \<and> \<not> hit \<longrightarrow> fst ` set ns \<subseteq> tv_visited st1) \<and>
    edges_visited target score it new st hit st1"
  using assms
proof (induction ns arbitrary: emitted st st1)
  case Nil
  then show ?case by (intro exI [of _ "[]"]) (simp add: edges_visited_def image_iff)
next
  case (Cons n ns)
  let ?st1 = "st\<lparr>tv_trace := (tv_trace st)\<lparr>rt_edges_inspected := rt_edges_inspected (tv_trace st) + 1\<rparr>\<rparr>"
  consider (full) "mx \<le> emitted" | (seen) "emitted < mx" "fst n \<in> tv_visited st"
    | (hit) "emitted < mx" "fst n \<notin> tv_visited st" "target = Some (fst n)"
    | (new) "emitted < mx" "fst n \<notin> tv_visited st" "target \<noteq> Some (fst n)" by linarith
  then show ?case
  proof cases
    case full
    then show ?thesis using Cons.prems by (intro exI [of _ "[]"]) (simp add: edges_visited_def image_iff)
  next
    case seen
    then have "visit_edges mx target score it emitted ns ?st1 = (hit, st1)" using Cons.prems by (simp add: Let_def)
    from Cons.IH [OF this] obtain new where new: "set new \<subseteq> set ns" "emitted \<le> mx \<longrightarrow> length new + emitted \<le> mx"
      "emitted + length ns \<le> mx \<and> \<not> hit \<longrightarrow> fst ` set ns \<subseteq> tv_visited st1" "edges_visited target score it new ?st1 hit st1" by blast
    have "edges_visited target score it new st hit st1" using new(4) by (simp add: edges_visited_def)
    moreover from this have "fst n \<in> tv_visited st1" using seen(2) by (simp add: edges_visited_def)
    ultimately show ?thesis using new(1-3) by (intro exI [of _ new]) auto
  next
    case hit
    then have "hit" and "edges_visited target score it [n] st hit st1"
      using Cons.prems by (auto simp: Let_def edges_visited_def)
    then show ?thesis using hit(1) by (intro exI [of _ "[n]"]) simp
  next
    case new
    have "visit_edges mx target score it (emitted + 1) ns (visit_node it n st) = (hit, st1)"
      using Cons.prems new by (simp add: Let_def visit_node_def)
    from Cons.IH [OF this] obtain new1 where new1: "set new1 \<subseteq> set ns" "emitted + 1 \<le> mx \<longrightarrow> length new1 + (emitted + 1) \<le> mx"
      "emitted + 1 + length ns \<le> mx \<and> \<not> hit \<longrightarrow> fst ` set ns \<subseteq> tv_visited st1"
      "edges_visited target score it new1 (visit_node it n st) hit st1" by blast
    have v: "edges_visited target score it (n # new1) st hit st1" by (rule edges_visited_Cons [OF new(2,3) new1(4)])
    then have "fst n \<in> tv_visited st1" by (simp add: edges_visited_def)
    then show ?thesis using new1(1-3) new(1) v by (intro exI [of _ "n # new1"]) auto
  qed
qed

lemma visit_edges_measure:
  assumes "visit_edges mx target score it emitted ns st = (hit, st1)"
  shows "card (- tv_visited st1) + length (tv_frontier st1) \<le> card (- tv_visited st) + length (tv_frontier st)"
proof -
  from visit_edges_spec [OF assms] obtain new where v: "edges_visited target score it new st hit st1" by blast
  then have d: "distinct (map fst new)" "fst ` set new \<subseteq> - tv_visited st" "tv_visited st1 = tv_visited st \<union> fst ` set new"
    by (auto simp: edges_visited_def)
  have "card (- tv_visited st1) = card (- tv_visited st) - card (fst ` set new)"
    using d(2) unfolding d(3) Compl_Un Int_commute [of "- tv_visited st"]
    by (subst card_Diff_subset [symmetric]) (auto simp: Diff_eq Int_commute)
  moreover have "card (fst ` set new) = length new" using distinct_card [OF d(1)] by simp
  moreover have "card (fst ` set new) \<le> card (- tv_visited st)" using d(2) by (intro card_mono) auto
  moreover have "length (tv_frontier st1) \<le> length (tv_frontier st) + length new"
    using v by (auto simp: edges_visited_def split: if_splits)
  ultimately show ?thesis by linarith
qed

text \<open>The environment: the clock at the start, at every dequeued node, and at the end.\<close>

record traversal_env =
  tx_start :: instant
  tx_now :: "nat \<Rightarrow> instant"
  tx_end :: instant
  tx_completed :: instant

definition nanos_per_ms :: int where
  "nanos_per_ms = 1000000"

definition elapsed_ms_saturating :: "instant \<Rightarrow> instant \<Rightarrow> nat" where
  "elapsed_ms_saturating start now = min (nat ((now - start) div nanos_per_ms)) (2 ^ 64 - 1)"

definition dequeue :: "frontier_item \<Rightarrow> frontier_item list \<Rightarrow> traversal_state \<Rightarrow> traversal_state" where
  "dequeue it rest st = st\<lparr>tv_frontier := rest, tv_trace := (tv_trace st)\<lparr>
     rt_nodes_expanded := rt_nodes_expanded (tv_trace st) + 1,
     rt_hops_taken := max (rt_hops_taken (tv_trace st)) (fi_depth it)\<rparr>\<rparr>"

definition exhaust :: "traversal_state \<Rightarrow> traversal_state" where
  "exhaust st = st\<lparr>tv_trace := (tv_trace st)\<lparr>rt_budget_exhausted := True\<rparr>\<rparr>"

text \<open>A reached node of an exploratory query is a path of its own.\<close>

definition report_node :: "traversal_query \<Rightarrow> (nat \<Rightarrow> relation_type list \<Rightarrow> f64) \<Rightarrow> frontier_item \<Rightarrow> traversal_state \<Rightarrow>
    traversal_state" where
  "report_node q score it st =
     (if tq_target q = None \<and> fi_node it \<noteq> tq_start q then st\<lparr>tv_paths := tv_paths st @ [item_path score it]\<rparr> else st)"

lemma step_sel [simp]:
  "tv_visited (dequeue it rest st) = tv_visited st" "tv_order (dequeue it rest st) = tv_order st"
  "tv_frontier (dequeue it rest st) = rest" "tv_paths (dequeue it rest st) = tv_paths st"
  "rt_budget_exhausted (tv_trace (dequeue it rest st)) = rt_budget_exhausted (tv_trace st)"
  "tv_visited (exhaust st) = tv_visited st" "tv_order (exhaust st) = tv_order st"
  "tv_frontier (exhaust st) = tv_frontier st" "tv_paths (exhaust st) = tv_paths st"
  "tv_visited (report_node q score it st) = tv_visited st" "tv_order (report_node q score it st) = tv_order st"
  "tv_frontier (report_node q score it st) = tv_frontier st" "tv_trace (report_node q score it st) = tv_trace st"
  by (simp_all add: dequeue_def exhaust_def report_node_def)

function run_loop :: "(nat \<Rightarrow> relation_type list \<Rightarrow> f64) \<Rightarrow> traversal_env \<Rightarrow> graph_traversal \<Rightarrow> traversal_query \<Rightarrow>
    traversal_state \<Rightarrow> traversal_state" where
  "run_loop score x gt q st =
     (case tv_frontier st of [] \<Rightarrow> st
      | it # rest \<Rightarrow>
        (let st1 = dequeue it rest st; b = gt_budget gt in
         if tx_start x + int (tb_max_time_ms b) * nanos_per_ms \<le> tx_now x (rt_nodes_expanded (tv_trace st)) then exhaust st1
         else if tb_max_nodes_visited b \<le> card (tv_visited st1) then exhaust st1
         else if tb_max_hops b \<le> fi_depth it then run_loop score x gt q st1
         else (case visit_edges (tb_max_edges_per_hop b) (tq_target q) score it 0 (expand (gt_graph gt) q (fi_node it))
                      (report_node q score it st1) of
                 (hit, st2) \<Rightarrow> if hit then st2 else run_loop score x gt q st2)))"
  by pat_completeness auto
termination run_loop
  by (relation "measure (\<lambda>(score, x, gt, q, st). card (- tv_visited st) + length (tv_frontier st))")
    (auto dest!: visit_edges_measure [OF sym])

declare run_loop.simps [simp del]

definition traversal_run :: "f64_math \<Rightarrow> traversal_env \<Rightarrow> graph_traversal \<Rightarrow> traversal_query \<Rightarrow> traversal_result" where
  "traversal_run fm x gt q =
     (let st0 = \<lparr>tv_visited = {tq_start q}, tv_order = [tq_start q],
            tv_frontier = [\<lparr>fi_node = tq_start q, fi_depth = 0, fi_nodes = [tq_start q], fi_edges = [], fi_relations = []\<rparr>],
            tv_paths = [], tv_trace = reasoning_trace_default\<rparr>;
          st1 = (if get_node (gt_graph gt) (tq_start q) = None then st0
                 else run_loop (path_score fm (gt_scorer gt)) x gt q st0)
      in \<lparr>tr_paths = tv_paths st1, tr_visited = tv_order st1,
          tr_trace = (tv_trace st1)\<lparr>rt_elapsed_ms := elapsed_ms_saturating (tx_start x) (tx_end x)\<rparr>,
          tr_completed_at = tx_completed x\<rparr>)"

section \<open>Walks\<close>

text \<open>The edges a query may follow.\<close>

definition query_edges :: "concept_graph \<Rightarrow> traversal_query \<Rightarrow> (uuid \<times> uuid) set" where
  "query_edges g q = {(u, v). \<exists>e ed. cg_edges g e = Some ed \<and> edge_passes_filter ed q \<and>
     edge_neighbour (tq_direction q) u ed = Some v}"

definition walk :: "concept_graph \<Rightarrow> traversal_query \<Rightarrow> uuid list \<Rightarrow> uuid list \<Rightarrow> bool" where
  "walk g q ns es \<longleftrightarrow> length ns = Suc (length es) \<and> hd ns = tq_start q \<and> distinct ns \<and>
     (\<forall>k < length es. \<exists>ed. cg_edges g (es ! k) = Some ed \<and> edge_passes_filter ed q \<and>
        edge_neighbour (tq_direction q) (ns ! k) ed = Some (ns ! Suc k))"

lemma edge_neighbour_incident: "edge_neighbour d u ed = Some v \<Longrightarrow> ce_from ed = u \<or> ce_to ed = u"
  by (cases d) (auto split: if_splits)

lemma expand_set:
  assumes "graph_inv g"
  shows "(v, e, r) \<in> set (expand g q u) \<longleftrightarrow>
    (\<exists>ed. cg_edges g e = Some ed \<and> ce_relation ed = r \<and> edge_passes_filter ed q \<and> edge_neighbour (tq_direction q) u ed = Some v)"
proof -
  have "(v, e, r) \<in> set (expand g q u) \<longleftrightarrow> (\<exists>ed \<in> set (get_edges g u). edge_passes_filter ed q \<and>
      edge_neighbour (tq_direction q) u ed = Some v \<and> ce_id ed = e \<and> ce_relation ed = r)"
    by (force simp: expand_def map_filter_def split: if_splits)
  also have "\<dots> \<longleftrightarrow> (\<exists>ed. cg_edges g e = Some ed \<and> ce_relation ed = r \<and> edge_passes_filter ed q \<and>
      edge_neighbour (tq_direction q) u ed = Some v)"
    unfolding get_edges_set [OF assms] using assms edge_neighbour_incident unfolding graph_inv_def by blast
  finally show ?thesis .
qed

lemma expand_targets: "graph_inv g \<Longrightarrow> fst ` set (expand g q u) = query_edges g q `` {u}"
proof (intro set_eqI)
  fix v
  assume inv: "graph_inv g"
  have "v \<in> fst ` set (expand g q u) \<longleftrightarrow> (\<exists>e r. (v, e, r) \<in> set (expand g q u))" by force
  also have "\<dots> \<longleftrightarrow> v \<in> query_edges g q `` {u}" unfolding expand_set [OF inv] by (auto simp: query_edges_def)
  finally show "v \<in> fst ` set (expand g q u) \<longleftrightarrow> v \<in> query_edges g q `` {u}" .
qed

lemma walk_snoc:
  assumes "walk g q ns es" and "last ns = u" and "cg_edges g e = Some ed" "edge_passes_filter ed q"
    and "edge_neighbour (tq_direction q) u ed = Some v" and "v \<notin> set ns"
  shows "walk g q (ns @ [v]) (es @ [e])"
proof -
  have "ns \<noteq> []" using assms(1) by (auto simp: walk_def)
  then have "ns ! length es = u" using assms(1,2) by (simp add: walk_def last_conv_nth)
  then show ?thesis using assms \<open>ns \<noteq> []\<close> by (auto simp: walk_def nth_append less_Suc_eq)
qed

lemma query_edges_nodes: "graph_inv g \<Longrightarrow> (u, v) \<in> query_edges g q \<Longrightarrow> v \<in> dom (cg_nodes g)"
  by (auto simp: query_edges_def graph_inv_def elim!: edge_neighbour.elims split: if_splits) blast+

section \<open>Soundness\<close>

definition item_ok :: "concept_graph \<Rightarrow> traversal_query \<Rightarrow> nat \<Rightarrow> uuid set \<Rightarrow> frontier_item \<Rightarrow> bool" where
  "item_ok g q hops V it \<longleftrightarrow> walk g q (fi_nodes it) (fi_edges it) \<and> last (fi_nodes it) = fi_node it \<and>
     fi_depth it = length (fi_edges it) \<and> fi_depth it \<le> hops \<and> set (fi_nodes it) \<subseteq> V"

definition path_ok :: "concept_graph \<Rightarrow> traversal_query \<Rightarrow> nat \<Rightarrow> traversed_path \<Rightarrow> bool" where
  "path_ok g q hops p \<longleftrightarrow> walk g q (tp_nodes p) (tp_edges p) \<and> tp_edges p \<noteq> [] \<and> length (tp_edges p) \<le> hops \<and>
     (\<forall>t. tq_target q = Some t \<longrightarrow> last (tp_nodes p) = t)"

definition run_ok :: "nat \<Rightarrow> graph_traversal \<Rightarrow> traversal_query \<Rightarrow> traversal_state \<Rightarrow> bool" where
  "run_ok n gt q st \<longleftrightarrow> distinct (tv_order st) \<and> tv_visited st = set (tv_order st) \<and> tq_start q \<in> tv_visited st \<and>
     tv_visited st \<subseteq> ball (query_edges (gt_graph gt) q) (tq_start q) (tb_max_hops (gt_budget gt)) \<and>
     (\<forall>it \<in> set (tv_frontier st). item_ok (gt_graph gt) q (tb_max_hops (gt_budget gt)) (tv_visited st) it) \<and>
     (\<forall>p \<in> set (tv_paths st). path_ok (gt_graph gt) q (tb_max_hops (gt_budget gt)) p) \<and>
     (tq_target q \<noteq> None \<longrightarrow> length (tv_paths st) \<le> n) \<and>
     card (tv_visited st) < max 2 (tb_max_nodes_visited (gt_budget gt) + tb_max_edges_per_hop (gt_budget gt))"

lemma walk_start: "walk g q [tq_start q] []"
  by (simp add: walk_def)

lemma walk_ball: "walk g q ns es \<Longrightarrow> k < length ns \<Longrightarrow> (tq_start q, ns ! k) \<in> query_edges g q ^^ k"
proof (induction k)
  case 0
  then show ?case by (cases ns) (auto simp: walk_def)
next
  case (Suc k)
  have "(ns ! k, ns ! Suc k) \<in> query_edges g q"
    using Suc.prems unfolding walk_def query_edges_def by (simp, blast)
  then show ?case using Suc by auto
qed

lemma extend_item_ok:
  assumes inv: "graph_inv g" and it: "item_ok g q hops V it" and depth: "fi_depth it < hops"
    and n: "n \<in> set (expand g q (fi_node it))" "fst n \<notin> V" and V: "V \<union> {fst n} \<subseteq> W"
  shows "item_ok g q hops W (extend_item it n)"
proof -
  obtain v e r where n_eq: "n = (v, e, r)" by (cases n)
  obtain ed where "cg_edges g e = Some ed" "edge_passes_filter ed q" "edge_neighbour (tq_direction q) (fi_node it) ed = Some v"
    using n(1) expand_set [OF inv] n_eq by blast
  moreover have "v \<notin> set (fi_nodes it)" using it n(2) n_eq by (auto simp: item_ok_def)
  ultimately have "walk g q (fi_nodes it @ [v]) (fi_edges it @ [e])"
    using it by (intro walk_snoc) (auto simp: item_ok_def)
  then show ?thesis using it depth V n_eq by (auto simp: item_ok_def extend_item_def)
qed

lemma item_ok_mono: "item_ok g q hops V it \<Longrightarrow> V \<subseteq> W \<Longrightarrow> item_ok g q hops W it"
  by (auto simp: item_ok_def)

lemma item_ok_ball:
  assumes "item_ok g q hops V it"
  shows "fi_node it \<in> ball (query_edges g q) (tq_start q) hops"
proof -
  have w: "walk g q (fi_nodes it) (fi_edges it)" and l: "last (fi_nodes it) = fi_node it" "length (fi_edges it) \<le> hops"
    using assms by (auto simp: item_ok_def)
  have ne: "fi_nodes it \<noteq> []" using w by (auto simp: walk_def)
  have "length (fi_nodes it) - 1 = length (fi_edges it)" using w by (simp add: walk_def)
  then have "(tq_start q, fi_node it) \<in> query_edges g q ^^ length (fi_edges it)"
    using walk_ball [OF w, of "length (fi_edges it)"] w l(1) ne by (simp add: walk_def last_conv_nth)
  then show ?thesis using l(2) by (auto simp: ball_def)
qed

lemma item_path_ok:
  "item_ok g q hops V it \<Longrightarrow> 0 < fi_depth it \<Longrightarrow> \<forall>t. tq_target q = Some t \<longrightarrow> fi_node it = t \<Longrightarrow>
     path_ok g q hops (item_path score it)"
  by (auto simp: item_ok_def path_ok_def item_path_def)

lemma item_depth_pos: "item_ok g q hops V it \<Longrightarrow> fi_node it \<noteq> tq_start q \<Longrightarrow> 0 < fi_depth it"
  by (cases "fi_nodes it") (auto simp: item_ok_def walk_def)

lemma run_okD:
  assumes "run_ok n gt q st"
  shows "distinct (tv_order st)" "tv_visited st = set (tv_order st)" "tq_start q \<in> tv_visited st"
    "tv_visited st \<subseteq> ball (query_edges (gt_graph gt) q) (tq_start q) (tb_max_hops (gt_budget gt))"
    "\<forall>it \<in> set (tv_frontier st). item_ok (gt_graph gt) q (tb_max_hops (gt_budget gt)) (tv_visited st) it"
    "\<forall>p \<in> set (tv_paths st). path_ok (gt_graph gt) q (tb_max_hops (gt_budget gt)) p"
    "tq_target q \<noteq> None \<longrightarrow> length (tv_paths st) \<le> n"
    "card (tv_visited st) < max 2 (tb_max_nodes_visited (gt_budget gt) + tb_max_edges_per_hop (gt_budget gt))"
  using assms unfolding run_ok_def by blast+

lemma run_ok_dequeue:
  assumes ok: "run_ok n gt q st" and fr: "tv_frontier st = it # rest"
  shows "run_ok n gt q (dequeue it rest st)" and "run_ok n gt q (exhaust (dequeue it rest st))"
    and "run_ok n gt q (report_node q score it (dequeue it rest st))"
proof -
  note r = run_okD [OF ok]
  show d: "run_ok n gt q (dequeue it rest st)" "run_ok n gt q (exhaust (dequeue it rest st))"
    using r fr by (simp_all add: run_ok_def)
  have "path_ok (gt_graph gt) q (tb_max_hops (gt_budget gt)) (item_path score it)"
    if "tq_target q = None" "fi_node it \<noteq> tq_start q"
    using r(5) fr that item_depth_pos by (intro item_path_ok) auto
  then show "run_ok n gt q (report_node q score it (dequeue it rest st))"
    using d(1) by (auto simp: run_ok_def report_node_def)
qed

lemma run_ok_visit:
  assumes inv: "graph_inv (gt_graph gt)" and ok: "run_ok 0 gt q st" and it: "item_ok (gt_graph gt) q (tb_max_hops (gt_budget gt)) (tv_visited st) it"
    and depth: "fi_depth it < tb_max_hops (gt_budget gt)" and few: "card (tv_visited st) < tb_max_nodes_visited (gt_budget gt)"
    and visit: "visit_edges (tb_max_edges_per_hop (gt_budget gt)) (tq_target q) score it 0 (expand (gt_graph gt) q (fi_node it)) st = (hit, st1)"
  shows "run_ok (if hit then 1 else 0) gt q st1"
proof -
  let ?g = "gt_graph gt" and ?h = "tb_max_hops (gt_budget gt)"
  note r = run_okD [OF ok]
  obtain new where new: "set new \<subseteq> set (expand ?g q (fi_node it))" "length new \<le> tb_max_edges_per_hop (gt_budget gt)"
    and v: "edges_visited (tq_target q) score it new st hit st1"
    using visit_edges_spec [OF visit] by auto
  have V: "tv_visited st1 = tv_visited st \<union> fst ` set new" "tv_order st1 = tv_order st @ map fst new"
    "distinct (map fst new)" "fst ` set new \<inter> tv_visited st = {}"
    using v by (auto simp: edges_visited_def)
  have items: "item_ok ?g q ?h (tv_visited st1) (extend_item it n)" if "n \<in> set new" for n
    by (rule extend_item_ok [OF inv it depth]) (use that new(1) V in auto)
  have "fst n \<in> ball (query_edges ?g q) (tq_start q) ?h" if "n \<in> set new" for n
    using item_ok_ball [OF items [OF that]] by (cases n) (simp add: extend_item_def)
  then have b: "tv_visited st1 \<subseteq> ball (query_edges ?g q) (tq_start q) ?h" using r(4) V(1) by auto
  have "card (fst ` set new) = length new" using distinct_card [OF V(3)] by simp
  then have c: "card (tv_visited st1) < max 2 (tb_max_nodes_visited (gt_budget gt) + tb_max_edges_per_hop (gt_budget gt))"
    using V(1,4) few new(2) r(2) by (simp add: card_Un_disjoint Int_commute)
  have fr: "set (tv_frontier st1) \<subseteq> set (tv_frontier st) \<union> extend_item it ` set new"
    using v by (auto simp: edges_visited_def split: if_splits dest: in_set_butlastD)
  have f: "\<forall>i \<in> set (tv_frontier st1). item_ok ?g q ?h (tv_visited st1) i"
  proof
    fix i assume "i \<in> set (tv_frontier st1)"
    then consider "i \<in> set (tv_frontier st)" | n where "n \<in> set new" "i = extend_item it n" using fr by blast
    then show "item_ok ?g q ?h (tv_visited st1) i"
      by cases (use r(5) V(1) items in \<open>auto intro: item_ok_mono\<close>)
  qed
  have p: "\<forall>p \<in> set (tv_paths st1). path_ok ?g q ?h p"
  proof (cases hit)
    case True
    then have l: "last new \<in> set new" "tq_target q = Some (fst (last new))"
        "tv_paths st1 = tv_paths st @ [item_path score (extend_item it (last new))]"
      using v by (auto simp: edges_visited_def)
    have "path_ok ?g q ?h (item_path score (extend_item it (last new)))"
      by (rule item_path_ok [OF items [OF l(1)]]) (use l(2) in \<open>auto simp: extend_item_def split: prod.splits\<close>)
    then show ?thesis using l(3) r(6) by auto
  next
    case False
    then show ?thesis using v r(6) by (simp add: edges_visited_def)
  qed
  have "tq_target q \<noteq> None \<longrightarrow> length (tv_paths st1) \<le> (if hit then 1 else 0)"
    using v r(7) by (auto simp: edges_visited_def split: if_splits)
  then show ?thesis using r(1-3) V b c f p by (auto simp: run_ok_def)
qed

lemma run_ok_weaken: "run_ok 0 gt q st \<Longrightarrow> run_ok 1 gt q st"
  unfolding run_ok_def by (elim conjE, intro conjI) (assumption | (rule impI, drule (1) mp, erule order_trans, simp))+

lemma run_loop_ok:
  assumes "graph_inv (gt_graph gt)" and "run_ok 0 gt q st"
  shows "run_ok 1 gt q (run_loop score x gt q st)"
  using assms
proof (induction score x gt q st rule: run_loop.induct)
  case (1 score x gt q st)
  note weak = run_ok_weaken [where gt = gt and q = q]
  show ?case
  proof (cases "tv_frontier st")
    case Nil
    then show ?thesis using 1(4) weak by (subst run_loop.simps) simp
  next
    case (Cons it rest)
    note d = run_ok_dequeue(1,2) [OF 1(4) Cons] run_ok_dequeue(3) [OF 1(4) Cons, of score]
    let ?st1 = "dequeue it rest st"
    have it: "item_ok (gt_graph gt) q (tb_max_hops (gt_budget gt)) (tv_visited st) it"
      using run_okD(5) [OF 1(4)] Cons by simp
    consider (time) "tx_start x + int (tb_max_time_ms (gt_budget gt)) * nanos_per_ms \<le> tx_now x (rt_nodes_expanded (tv_trace st))"
      | (nodes) "\<not> tx_start x + int (tb_max_time_ms (gt_budget gt)) * nanos_per_ms \<le> tx_now x (rt_nodes_expanded (tv_trace st))"
          "tb_max_nodes_visited (gt_budget gt) \<le> card (tv_visited st)"
      | (hops) "\<not> tx_start x + int (tb_max_time_ms (gt_budget gt)) * nanos_per_ms \<le> tx_now x (rt_nodes_expanded (tv_trace st))"
          "\<not> tb_max_nodes_visited (gt_budget gt) \<le> card (tv_visited st)" "tb_max_hops (gt_budget gt) \<le> fi_depth it"
      | (go) "\<not> tx_start x + int (tb_max_time_ms (gt_budget gt)) * nanos_per_ms \<le> tx_now x (rt_nodes_expanded (tv_trace st))"
          "\<not> tb_max_nodes_visited (gt_budget gt) \<le> card (tv_visited st)" "\<not> tb_max_hops (gt_budget gt) \<le> fi_depth it" by blast
    then show ?thesis
    proof cases
      case time
      then show ?thesis using Cons d(2) weak by (subst run_loop.simps) (simp add: Let_def)
    next
      case nodes
      then show ?thesis using Cons d(2) weak by (subst run_loop.simps) (simp add: Let_def)
    next
      case hops
      then show ?thesis using 1(1) [OF Cons refl refl] d(1) 1(3) Cons by (subst run_loop.simps) (simp add: Let_def)
    next
      case go
      obtain hit st2 where v: "visit_edges (tb_max_edges_per_hop (gt_budget gt)) (tq_target q) score it 0
          (expand (gt_graph gt) q (fi_node it)) (report_node q score it ?st1) = (hit, st2)" by force
      have "run_ok (if hit then 1 else 0) gt q st2"
        by (rule run_ok_visit [OF 1(3) d(3) _ _ _ v]) (use it go in simp_all)
      then show ?thesis
        using 1(2) [OF Cons refl refl] go 1(3) Cons v by (subst run_loop.simps) (simp add: Let_def split: if_splits)
    qed
  qed
qed

section \<open>Exactness within the budgets\<close>

text \<open>Budgets that do not bind: the clock stays before the deadline, and there is room for nodes and edges.\<close>

definition roomy :: "traversal_env \<Rightarrow> graph_traversal \<Rightarrow> traversal_query \<Rightarrow> bool" where
  "roomy x gt q \<longleftrightarrow> (\<forall>k. tx_now x k < tx_start x + int (tb_max_time_ms (gt_budget gt)) * nanos_per_ms) \<and>
     card (dom (cg_nodes (gt_graph gt))) < tb_max_nodes_visited (gt_budget gt) \<and>
     (\<forall>u. length (expand (gt_graph gt) q u) \<le> tb_max_edges_per_hop (gt_budget gt))"

definition last_node :: "traversed_path \<Rightarrow> uuid" where
  "last_node p = last (tp_nodes p)"

lemma last_node_comp: "last_node = last \<circ> tp_nodes"
  by (simp add: fun_eq_iff last_node_def)

abbreviation hop_dist :: "graph_traversal \<Rightarrow> traversal_query \<Rightarrow> uuid \<Rightarrow> nat" where
  "hop_dist gt q \<equiv> dist (query_edges (gt_graph gt) q) (tq_start q)"

definition pending_items :: "graph_traversal \<Rightarrow> traversal_query \<Rightarrow> frontier_item list \<Rightarrow> uuid list" where
  "pending_items gt q fr =
     map fi_node (filter (\<lambda>it. fi_depth it < tb_max_hops (gt_budget gt) \<and> fi_node it \<noteq> tq_start q) fr)"

definition exact_inv :: "graph_traversal \<Rightarrow> traversal_query \<Rightarrow> traversal_state \<Rightarrow> uuid list \<Rightarrow> nat \<Rightarrow> uuid list \<Rightarrow> uuid list \<Rightarrow> bool" where
  "exact_inv gt q st out d A B \<longleftrightarrow> tv_order st = tq_start q # out \<and>
     bfs_inv (query_edges (gt_graph gt) q) (tq_start q) (Some (tb_max_hops (gt_budget gt))) (tv_visited st)
       (map (\<lambda>it. (fi_node it, fi_depth it)) (tv_frontier st)) out d A B \<and>
     (\<forall>it \<in> set (tv_frontier st). hop_dist gt q (fi_node it) = fi_depth it) \<and>
     (tq_target q = None \<longrightarrow> filter (\<lambda>n. hop_dist gt q n < tb_max_hops (gt_budget gt)) out =
        map last_node (tv_paths st) @ pending_items gt q (tv_frontier st)) \<and>
     (\<forall>p \<in> set (tv_paths st). length (tp_edges p) = hop_dist gt q (last_node p)) \<and>
     tq_target q \<notin> Some ` set out \<and> \<not> rt_budget_exhausted (tv_trace st)"

text \<open>The outcome: all nodes in range, with shortest paths, or a shortest path to the target.\<close>

definition exact_done :: "graph_traversal \<Rightarrow> traversal_query \<Rightarrow> traversal_state \<Rightarrow> bool" where
  "exact_done gt q st \<longleftrightarrow> \<not> rt_budget_exhausted (tv_trace st) \<and>
     (\<forall>p \<in> set (tv_paths st). length (tp_edges p) = hop_dist gt q (last_node p)) \<and>
     (case tq_target q of
        None \<Rightarrow> set (tv_order st) = ball (query_edges (gt_graph gt) q) (tq_start q) (tb_max_hops (gt_budget gt)) \<and>
          map last_node (tv_paths st) = filter (\<lambda>n. hop_dist gt q n < tb_max_hops (gt_budget gt)) (tl (tv_order st))
      | Some t \<Rightarrow> map last_node (tv_paths st) =
          (if t \<noteq> tq_start q \<and> t \<in> ball (query_edges (gt_graph gt) q) (tq_start q) (tb_max_hops (gt_budget gt)) then [t] else []))"

lemma ball_nodes:
  assumes "graph_inv g" and "tq_start q \<in> dom (cg_nodes g)"
  shows "ball (query_edges g q) (tq_start q) k \<subseteq> dom (cg_nodes g)"
proof (induction k)
  case (Suc k)
  then show ?case unfolding ball_Suc using query_edges_nodes [OF assms(1)] by blast
qed (use assms(2) in simp)

lemma roomy_nodes:
  assumes "roomy x gt q" and "graph_inv (gt_graph gt)" and "tq_start q \<in> dom (cg_nodes (gt_graph gt))" and "run_ok n gt q st"
  shows "card (tv_visited st) < tb_max_nodes_visited (gt_budget gt)"
proof -
  have "tv_visited st \<subseteq> dom (cg_nodes (gt_graph gt))"
    using run_okD(4) [OF assms(4)] ball_nodes [OF assms(2,3)] by blast
  then have "card (tv_visited st) \<le> card (dom (cg_nodes (gt_graph gt)))" by (intro card_mono) simp_all
  then show ?thesis using assms(1) by (simp add: roomy_def)
qed

text \<open>The head of the queue stands at the current level, after a shift where the level is used up.\<close>

lemma exact_head:
  assumes inv: "exact_inv gt q st out d A B" and fr: "tv_frontier st = it # rest"
  obtains d1 A1 B1 where "exact_inv gt q st out d1 (fi_node it # A1) B1" "fi_depth it = d1"
proof (cases A)
  case Nil
  let ?E = "query_edges (gt_graph gt) q" and ?Q = "map (\<lambda>it. (fi_node it, fi_depth it)) (tv_frontier st)"
  have b: "bfs_inv ?E (tq_start q) (Some (tb_max_hops (gt_budget gt))) (tv_visited st) ?Q out d [] B"
    using inv Nil by (simp add: exact_inv_def)
  then obtain c cs where B: "B = c # cs" using bfs_invD(1) [OF b] fr by (cases B) auto
  from bfs_inv_shift [OF b] B have b1: "bfs_inv ?E (tq_start q) (Some (tb_max_hops (gt_budget gt))) (tv_visited st) ?Q out (Suc d) (c # cs) []"
    by simp
  then have "c = fi_node it" "fi_depth it = Suc d" using bfs_invD(1) [OF b1] fr by simp_all
  then show ?thesis using that [of "Suc d" cs "[]"] b1 inv by (simp add: exact_inv_def)
next
  case (Cons a as)
  have b: "bfs_inv (query_edges (gt_graph gt) q) (tq_start q) (Some (tb_max_hops (gt_budget gt))) (tv_visited st)
      (map (\<lambda>it. (fi_node it, fi_depth it)) (tv_frontier st)) out d (a # as) B"
    using inv Cons by (simp add: exact_inv_def)
  then have "a = fi_node it" "fi_depth it = d" using bfs_invD(1) [OF b] fr by simp_all
  then show ?thesis using that inv Cons by simp
qed

lemma exact_end:
  assumes inv: "exact_inv gt q st out d A B" and fr: "tv_frontier st = []"
    and paths: "tq_target q \<noteq> None \<longrightarrow> tv_paths st = []"
  shows "exact_done gt q st"
proof -
  have b: "bfs_inv (query_edges (gt_graph gt) q) (tq_start q) (Some (tb_max_hops (gt_budget gt))) (tv_visited st) [] out d A B"
    using inv fr by (simp add: exact_inv_def)
  have V: "tv_visited st = ball (query_edges (gt_graph gt) q) (tq_start q) (tb_max_hops (gt_budget gt))"
    using bfs_inv_end [OF b] by (simp add: within_ball_Some)
  have o: "set out = tv_visited st - {tq_start q}" by (rule bfs_invD(9) [OF b])
  have s: "tq_start q \<in> tv_visited st" unfolding V ball_def by (intro CollectI exI [of _ 0]) simp
  show ?thesis
  proof (cases "tq_target q")
    case None
    then show ?thesis using inv fr V o s by (auto simp: exact_inv_def exact_done_def pending_items_def)
  next
    case (Some t)
    have "t \<notin> set out" using inv Some by (auto simp: exact_inv_def)
    then have "t = tq_start q \<or> t \<notin> tv_visited st" using o by blast
    then show ?thesis using inv Some paths V by (auto simp: exact_inv_def exact_done_def)
  qed
qed

lemma exact_new_dist:
  assumes inv: "exact_inv gt q st out d (a # A) B" and n: "n \<in> query_edges (gt_graph gt) q `` {a}" "n \<notin> tv_visited st"
  shows "hop_dist gt q n = Suc d"
proof (rule dist_eq)
  have b: "bfs_inv (query_edges (gt_graph gt) q) (tq_start q) (Some (tb_max_hops (gt_budget gt))) (tv_visited st)
      (map (\<lambda>it. (fi_node it, fi_depth it)) (tv_frontier st)) out d (a # A) B"
    using inv by (simp add: exact_inv_def)
  show "n \<in> ball (query_edges (gt_graph gt) q) (tq_start q) (Suc d)" using bfs_invD(5) [OF b] n(1) by auto
  show "n \<notin> ball (query_edges (gt_graph gt) q) (tq_start q) d" using bfs_invD(2) [OF b] n(2) by auto
qed

lemma pending_items_append [simp]: "pending_items gt q (xs @ ys) = pending_items gt q xs @ pending_items gt q ys"
  by (simp add: pending_items_def)

lemma pending_extend:
  assumes "tq_start q \<notin> fst ` set new"
  shows "pending_items gt q (map (extend_item it) new) = (if Suc (fi_depth it) < tb_max_hops (gt_budget gt) then map fst new else [])"
  using assms by (induction new) (auto simp: pending_items_def extend_item_def)

lemma exact_step:
  assumes g: "graph_inv (gt_graph gt)" and inv: "exact_inv gt q st out d (fi_node it # A) B" and d: "fi_depth it = d"
    and h: "d < tb_max_hops (gt_budget gt)" and fr: "tv_frontier st = it # rest" and ok: "run_ok 0 gt q st"
    and new: "fst ` set new = query_edges (gt_graph gt) q `` {fi_node it} - tv_visited st" "distinct (map fst new)"
    and v: "edges_visited (tq_target q) score it new (report_node q score it (dequeue it rest st)) False st2"
  shows "exact_inv gt q st2 (out @ map fst new) d A (B @ map fst new)"
proof -
  let ?E = "query_edges (gt_graph gt) q" and ?s = "tq_start q" and ?h = "tb_max_hops (gt_budget gt)"
  have b: "bfs_inv ?E ?s (Some ?h) (tv_visited st) (map (\<lambda>it. (fi_node it, fi_depth it)) (it # rest)) out d (fi_node it # A) B"
    using inv fr by (simp add: exact_inv_def)
  have rest: "map (\<lambda>it. (fi_node it, fi_depth it)) rest = map (\<lambda>n. (n, d)) A @ map (\<lambda>n. (n, Suc d)) B"
    using bfs_invD(1) [OF b] by simp
  have it: "item_ok (gt_graph gt) q ?h (tv_visited st) it" using run_okD(5) [OF ok] fr by simp
  have dist: "hop_dist gt q (fst n) = Suc d" if "n \<in> set new" for n
    using exact_new_dist [OF inv] new(1) that by auto
  have V: "tv_visited st \<union> fst ` set new = tv_visited st \<union> ?E `` {fi_node it}" using new(1) by auto
  have st2: "tv_visited st2 = tv_visited st \<union> ?E `` {fi_node it}" "tv_order st2 = tv_order st @ map fst new"
    "tv_frontier st2 = rest @ map (extend_item it) new" "tv_paths st2 = tv_paths (report_node q score it (dequeue it rest st))"
    "rt_budget_exhausted (tv_trace st2) = rt_budget_exhausted (tv_trace st)" "tq_target q \<notin> Some ` fst ` set new"
    using v V by (simp_all add: edges_visited_def)
  have ext: "map (\<lambda>it. (fi_node it, fi_depth it)) (map (extend_item it) new) = map (\<lambda>n. (n, Suc d)) (map fst new)"
    using d by (simp add: extend_item_def split: prod.splits)
  have Q2: "map (\<lambda>it. (fi_node it, fi_depth it)) (tv_frontier st2) =
      map (\<lambda>n. (n, d)) A @ map (\<lambda>n. (n, Suc d)) B @ map (\<lambda>n. (n, Suc d)) (map fst new)"
    unfolding st2(3) map_append [of _ rest] rest ext by (simp only: append_assoc)
  have "bfs_inv ?E ?s (Some ?h) (tv_visited st2) (map (\<lambda>it. (fi_node it, fi_depth it)) (tv_frontier st2))
      (out @ map fst new) d A (B @ map fst new)"
    unfolding Q2 st2(1) by (rule bfs_inv_expand [OF b _ _ new(2)]) (use h new(1) in simp_all)
  moreover have "\<forall>i \<in> set (tv_frontier st2). hop_dist gt q (fi_node i) = fi_depth i"
    using inv fr st2(3) dist d by (auto simp: exact_inv_def extend_item_def)
  moreover have "?s \<notin> fst ` set new" using run_okD(3) [OF ok] new(1) by auto
  then have pend: "pending_items gt q (map (extend_item it) new) = (if Suc d < ?h then map fst new else [])"
    using pending_extend d by simp
  have "filter (\<lambda>n. hop_dist gt q n < ?h) (map fst new) = (if Suc d < ?h then map fst new else [])"
    using dist by (auto simp: filter_empty_conv filter_id_conv)
  with pend have "filter (\<lambda>n. hop_dist gt q n < ?h) (out @ map fst new) = map last_node (tv_paths st2) @ pending_items gt q (tv_frontier st2)"
    if "tq_target q = None"
    using inv fr st2(3,4) that it h d
    by (auto simp: exact_inv_def pending_items_def report_node_def item_path_def last_node_def item_ok_def)
  moreover have "\<forall>p \<in> set (tv_paths st2). length (tp_edges p) = hop_dist gt q (last_node p)"
    using inv fr st2(4) it by (auto simp: exact_inv_def report_node_def item_path_def last_node_def item_ok_def)
  ultimately show ?thesis using inv st2 by (auto simp: exact_inv_def)
qed

lemma exact_hit:
  assumes inv: "exact_inv gt q st out d (fi_node it # A) B" and d: "fi_depth it = d"
    and h: "d < tb_max_hops (gt_budget gt)" and fr: "tv_frontier st = it # rest" and ok: "run_ok 0 gt q st"
    and new: "fst ` set new \<subseteq> query_edges (gt_graph gt) q `` {fi_node it} - tv_visited st"
    and v: "edges_visited (tq_target q) score it new (report_node q score it (dequeue it rest st)) True st2"
  shows "exact_done gt q st2"
proof -
  let ?n = "last new"
  have v1: "new \<noteq> []" "tq_target q = Some (fst ?n)"
      "tv_paths st2 = tv_paths (report_node q score it (dequeue it rest st)) @ [item_path score (extend_item it ?n)]"
    using v by (simp_all add: edges_visited_def)
  then have n: "?n \<in> set new" "tq_target q = Some (fst ?n)" and "tv_paths st = []"
    using run_okD(7) [OF ok] by simp_all
  then have p: "tv_paths st2 = [item_path score (extend_item it ?n)]"
    using v1(3) by (simp add: report_node_def)
  have mem: "fst ?n \<in> query_edges (gt_graph gt) q `` {fi_node it}" "fst ?n \<notin> tv_visited st"
    using subsetD [OF new imageI [OF n(1)]] by simp_all
  have dist: "hop_dist gt q (fst ?n) = Suc d" by (rule exact_new_dist [OF inv mem])
  have it: "item_ok (gt_graph gt) q (tb_max_hops (gt_budget gt)) (tv_visited st) it" using run_okD(5) [OF ok] fr by simp
  have b: "bfs_inv (query_edges (gt_graph gt) q) (tq_start q) (Some (tb_max_hops (gt_budget gt))) (tv_visited st)
      (map (\<lambda>it. (fi_node it, fi_depth it)) (tv_frontier st)) out d (fi_node it # A) B"
    using inv by (simp add: exact_inv_def)
  have "fst ?n \<in> ball (query_edges (gt_graph gt) q) (tq_start q) (Suc d)" unfolding bfs_invD(5) [OF b] using mem(1) by (auto simp only: list.set Image_iff)
  then have "fst ?n \<in> ball (query_edges (gt_graph gt) q) (tq_start q) (tb_max_hops (gt_budget gt))"
    by (rule subsetD [OF ball_mono, rotated]) (use h in simp)
  moreover have "fst ?n \<noteq> tq_start q" using mem(2) run_okD(3) [OF ok] by metis
  moreover have "\<not> rt_budget_exhausted (tv_trace st2)" using v inv by (simp add: edges_visited_def exact_inv_def)
  moreover have "last_node (item_path score (extend_item it ?n)) = fst ?n"
      "length (tp_edges (item_path score (extend_item it ?n))) = Suc d"
    using it d by (simp_all add: item_path_def extend_item_def last_node_def item_ok_def split_beta)
  ultimately show ?thesis using p n(2) dist by (simp add: exact_done_def)
qed

text \<open>At the last level the rest of the queue is only drained.\<close>

lemma run_loop_drain:
  assumes "\<forall>it \<in> set (tv_frontier st). tb_max_hops (gt_budget gt) \<le> fi_depth it"
    and "\<forall>k. tx_now x k < tx_start x + int (tb_max_time_ms (gt_budget gt)) * nanos_per_ms"
    and "card (tv_visited st) < tb_max_nodes_visited (gt_budget gt)"
  shows "tv_order (run_loop score x gt q st) = tv_order st \<and> tv_paths (run_loop score x gt q st) = tv_paths st \<and>
    rt_budget_exhausted (tv_trace (run_loop score x gt q st)) = rt_budget_exhausted (tv_trace st)"
  using assms
proof (induction "tv_frontier st" arbitrary: st)
  case Nil
  from Nil(1) [symmetric] show ?case by (subst (1 2 3) run_loop.simps) simp
next
  case (Cons it rest)
  have "\<not> tx_start x + int (tb_max_time_ms (gt_budget gt)) * nanos_per_ms \<le> tx_now x (rt_nodes_expanded (tv_trace st))"
    using Cons.prems(2) by (simp add: not_le)
  then have "run_loop score x gt q st = run_loop score x gt q (dequeue it rest st)"
    using Cons(2) [symmetric] Cons.prems(1,3) by (subst run_loop.simps) (simp add: Let_def not_le)
  moreover have "\<forall>i \<in> set rest. tb_max_hops (gt_budget gt) \<le> fi_depth i" using Cons(2) [symmetric] Cons.prems(1) by simp
  ultimately show ?case using Cons(1) [of "dequeue it rest st"] Cons.prems(2,3) by simp
qed

lemma exact_drain:
  assumes inv: "exact_inv gt q st out d A B" and h: "d = tb_max_hops (gt_budget gt)"
    and paths: "tq_target q \<noteq> None \<longrightarrow> tv_paths st = []"
    and st2: "tv_order st2 = tv_order st" "tv_paths st2 = tv_paths st"
      "rt_budget_exhausted (tv_trace st2) = rt_budget_exhausted (tv_trace st)"
  shows "exact_done gt q st2 \<and> (\<forall>it \<in> set (tv_frontier st). tb_max_hops (gt_budget gt) \<le> fi_depth it)"
proof -
  let ?E = "query_edges (gt_graph gt) q"
  have b: "bfs_inv ?E (tq_start q) (Some d) (tv_visited st) (map (\<lambda>it. (fi_node it, fi_depth it)) (tv_frontier st)) out d A B"
    using inv h by (simp add: exact_inv_def)
  note i = bfs_invD [OF b]
  have B: "B = []" using i(7) by simp
  have s: "tq_start q \<in> ball ?E (tq_start q) d" unfolding ball_def by (intro CollectI exI [of _ 0]) simp
  have V: "set out = ball ?E (tq_start q) d - {tq_start q}" using i(2,9) B by simp
  have "snd ` set (map (\<lambda>it. (fi_node it, fi_depth it)) (tv_frontier st)) \<subseteq> {d}" unfolding i(1) B by auto
  then have deep: "\<forall>it \<in> set (tv_frontier st). fi_depth it = d" by (simp add: image_image image_subset_iff)
  then have "pending_items gt q (tv_frontier st) = []" using h by (auto simp: pending_items_def filter_empty_conv)
  then have "exact_done gt q st2"
    using inv st2 paths V s h
    by (cases "tq_target q") (auto simp: exact_inv_def exact_done_def)
  then show ?thesis using deep h by simp
qed

lemma run_loop_exact:
  assumes "graph_inv (gt_graph gt)" and "roomy x gt q" and "tq_start q \<in> dom (cg_nodes (gt_graph gt))"
    and "run_ok 0 gt q st" and "exact_inv gt q st out d A B"
  shows "exact_done gt q (run_loop score x gt q st)"
  using assms
proof (induction score x gt q st arbitrary: out d A B rule: run_loop.induct)
  case (1 score x gt q st)
  note g = 1(3) and room = 1(4) and start = 1(5) and ok = 1(6) and inv = 1(7)
  let ?h = "tb_max_hops (gt_budget gt)"
  have clock: "\<forall>k. tx_now x k < tx_start x + int (tb_max_time_ms (gt_budget gt)) * nanos_per_ms"
    and edges: "\<forall>u. length (expand (gt_graph gt) q u) \<le> tb_max_edges_per_hop (gt_budget gt)"
    using room by (simp_all add: roomy_def)
  have paths: "tq_target q \<noteq> None \<longrightarrow> tv_paths st = []" using run_okD(7) [OF ok] by simp
  show ?case
  proof (cases "tv_frontier st")
    case Nil
    then show ?thesis using exact_end [OF inv Nil paths] by (subst run_loop.simps) simp
  next
    case (Cons it rest)
    obtain d1 A1 B1 where inv1: "exact_inv gt q st out d1 (fi_node it # A1) B1" and d1: "fi_depth it = d1"
      by (rule exact_head [OF inv Cons])
    have le: "d1 \<le> ?h" using inv1 bfs_invD(6) unfolding exact_inv_def by blast
    show ?thesis
    proof (cases "d1 = ?h")
      case True
      have deep: "\<forall>i \<in> set (tv_frontier st). ?h \<le> fi_depth i"
        using exact_drain [OF inv1 True paths refl refl refl] by blast
      show ?thesis
        using exact_drain [OF inv1 True paths] run_loop_drain [OF deep clock roomy_nodes [OF room g start ok]] by blast
    next
      case False
      then have h: "d1 < ?h" using le by simp
      let ?st1 = "report_node q score it (dequeue it rest st)"
      obtain hit st2 where v: "visit_edges (tb_max_edges_per_hop (gt_budget gt)) (tq_target q) score it 0
          (expand (gt_graph gt) q (fi_node it)) ?st1 = (hit, st2)" by force
      from visit_edges_spec [OF v] obtain new where new: "set new \<subseteq> set (expand (gt_graph gt) q (fi_node it))"
        "\<not> hit \<longrightarrow> fst ` set (expand (gt_graph gt) q (fi_node it)) \<subseteq> tv_visited st2" "edges_visited (tq_target q) score it new ?st1 hit st2"
        using edges by auto
      have vis: "fst ` set new \<inter> tv_visited st = {}" "tv_visited st2 = tv_visited st \<union> fst ` set new" "distinct (map fst new)"
        using new(3) by (simp_all add: edges_visited_def)
      have sub: "fst ` set new \<subseteq> query_edges (gt_graph gt) q `` {fi_node it} - tv_visited st"
        using image_mono [OF new(1), of fst] vis(1) unfolding expand_targets [OF g] by blast
      have now: "\<not> tx_start x + int (tb_max_time_ms (gt_budget gt)) * nanos_per_ms \<le> tx_now x (rt_nodes_expanded (tv_trace st))"
        using clock by (simp add: not_le)
      have few: "\<not> tb_max_nodes_visited (gt_budget gt) \<le> card (tv_visited st)"
        using roomy_nodes [OF room g start ok] by simp
      have unf: "run_loop score x gt q st = (if hit then st2 else run_loop score x gt q st2)"
        using Cons now few h d1 v by (subst run_loop.simps) (simp add: Let_def)
      show ?thesis
      proof (cases hit)
        case True
        then show ?thesis using exact_hit [OF inv1 d1 h Cons ok sub] new(3) unf by simp
      next
        case False
        have eq: "fst ` set new = query_edges (gt_graph gt) q `` {fi_node it} - tv_visited st"
          using sub new(2) False vis(2) unfolding expand_targets [OF g] by blast
        have "exact_inv gt q st2 (out @ map fst new) d1 A1 (B1 @ map fst new)"
          by (rule exact_step [OF g inv1 d1 h Cons ok eq vis(3)]) (use new(3) False in simp)
        moreover have "run_ok 0 gt q st2"
          using run_ok_visit [OF g run_ok_dequeue(3) [OF ok Cons] _ _ _ v] run_okD(5) [OF ok] Cons h d1 few False by simp
        moreover have "\<not> tb_max_nodes_visited (gt_budget gt) \<le> card (tv_visited (dequeue it rest st))" "\<not> ?h \<le> fi_depth it"
          using few h d1 by simp_all
        ultimately show ?thesis
          using 1(2) [OF Cons refl refl now _ _ v [symmetric] False g room start] unf False by simp
      qed
    qed
  qed
qed

section \<open>Properties\<close>

definition trav_start :: "traversal_query \<Rightarrow> traversal_state" where
  "trav_start q = \<lparr>tv_visited = {tq_start q}, tv_order = [tq_start q],
     tv_frontier = [\<lparr>fi_node = tq_start q, fi_depth = 0, fi_nodes = [tq_start q], fi_edges = [], fi_relations = []\<rparr>],
     tv_paths = [], tv_trace = reasoning_trace_default\<rparr>"

lemma trav_start_ok: "run_ok 0 gt q (trav_start q)"
proof -
  have "tq_start q \<in> ball E (tq_start q) k" for E k unfolding ball_def by (intro CollectI exI [of _ 0]) simp
  then show ?thesis by (simp add: run_ok_def trav_start_def item_ok_def walk_start)
qed

lemma trav_start_exact: "exact_inv gt q (trav_start q) [] 0 [tq_start q] []"
proof -
  have "dist E (tq_start q) (tq_start q) = 0" for E :: "(uuid \<times> uuid) set" using dist_le [of "tq_start q" E "tq_start q" 0] by simp
  then show ?thesis
    by (simp add: exact_inv_def trav_start_def bfs_inv_start pending_items_def reasoning_trace_default_def)
qed

lemma traversal_run_sel:
  "tr_paths (traversal_run fm x gt q) = tv_paths (if get_node (gt_graph gt) (tq_start q) = None then trav_start q
     else run_loop (path_score fm (gt_scorer gt)) x gt q (trav_start q))"
  "tr_visited (traversal_run fm x gt q) = tv_order (if get_node (gt_graph gt) (tq_start q) = None then trav_start q
     else run_loop (path_score fm (gt_scorer gt)) x gt q (trav_start q))"
  "rt_budget_exhausted (tr_trace (traversal_run fm x gt q)) = rt_budget_exhausted (tv_trace
     (if get_node (gt_graph gt) (tq_start q) = None then trav_start q
      else run_loop (path_score fm (gt_scorer gt)) x gt q (trav_start q)))"
  by (simp_all add: traversal_run_def trav_start_def Let_def)

text \<open>
  Whatever the budgets, the clock and the query: the traversal returns; every path starts at the start
  node, follows edges of the graph that pass the filters in the direction of the query, repeats no
  node and has at most the allowed hops; a targeted query returns at most one path, to its target; the
  visited nodes are distinct and in range, and their number exceeds the node budget by less than the
  edges of one hop.
\<close>

theorem traversal_is_sound:
  assumes "graph_reachable (gt_graph gt)" and "res = traversal_run fm x gt q"
  shows "(\<forall>p \<in> set (tr_paths res). walk (gt_graph gt) q (tp_nodes p) (tp_edges p) \<and> tp_edges p \<noteq> [] \<and>
       length (tp_edges p) \<le> tb_max_hops (gt_budget gt) \<and> (\<forall>t. tq_target q = Some t \<longrightarrow> last (tp_nodes p) = t)) \<and>
    (tq_target q \<noteq> None \<longrightarrow> length (tr_paths res) \<le> 1) \<and>
    distinct (tr_visited res) \<and> tq_start q \<in> set (tr_visited res) \<and>
    set (tr_visited res) \<subseteq> ball (query_edges (gt_graph gt) q) (tq_start q) (tb_max_hops (gt_budget gt)) \<and>
    length (tr_visited res) < max 2 (tb_max_nodes_visited (gt_budget gt) + tb_max_edges_per_hop (gt_budget gt))"
proof -
  let ?st = "if get_node (gt_graph gt) (tq_start q) = None then trav_start q
     else run_loop (path_score fm (gt_scorer gt)) x gt q (trav_start q)"
  have "run_ok 1 gt q ?st"
    using run_loop_ok [OF graph_reachable_inv [OF assms(1)] trav_start_ok] run_ok_weaken [OF trav_start_ok] by simp
  note r = run_okD [OF this]
  have "length (tv_order ?st) = card (tv_visited ?st)" unfolding r(2) by (rule distinct_card [OF r(1), symmetric])
  then show ?thesis
    unfolding assms(2) traversal_run_sel using r(1-8) unfolding path_ok_def by simp
qed


text \<open>
  Where the documentation and the code differ: a node reached at the last hop is visited, but an
  exploratory query has no path for it.
\<close>

lemma last_hop_has_no_path:
  assumes "graph_reachable (gt_graph gt)" "roomy x gt q" "get_node (gt_graph gt) (tq_start q) \<noteq> None" "tq_target q = None"
    and "tb_max_hops (gt_budget gt) = 1"
  shows "tr_paths (traversal_run fm x gt q) = []"
proof -
  have "tq_start q \<in> dom (cg_nodes (gt_graph gt))" using assms(3) by (auto simp: get_node_def)
  note d = run_loop_exact [OF graph_reachable_inv [OF assms(1)] assms(2) this trav_start_ok trav_start_exact,
    where score = "path_score fm (gt_scorer gt)"]
  note s = run_loop_ok [OF graph_reachable_inv [OF assms(1)] trav_start_ok, where score = "path_score fm (gt_scorer gt)" and x = x and q = q]
  have False if p: "p \<in> set (tv_paths (run_loop (path_score fm (gt_scorer gt)) x gt q (trav_start q)))" for p
  proof -
    have "tp_edges p \<noteq> []" using run_okD(6) [OF s] p by (auto simp: path_ok_def)
    moreover have "length (tp_edges p) = hop_dist gt q (last_node p)" using d p by (simp add: exact_done_def)
    moreover have "map last_node (tv_paths (run_loop (path_score fm (gt_scorer gt)) x gt q (trav_start q))) =
        filter (\<lambda>n. hop_dist gt q n < 1) (tl (tv_order (run_loop (path_score fm (gt_scorer gt)) x gt q (trav_start q))))"
      using d assms(4,5) by (simp add: exact_done_def)
    from arg_cong [OF this, of set] p have "hop_dist gt q (last_node p) < 1" by auto
    ultimately show False by simp
  qed
  then have "tv_paths (run_loop (path_score fm (gt_scorer gt)) x gt q (trav_start q)) = []" by (metis last_in_set)
  then show ?thesis unfolding traversal_run_sel if_not_P [OF assms(3)] .
qed

section \<open>Witnesses\<close>

definition sample_traversal :: graph_traversal where
  "sample_traversal = graph_traversal_new sample_graph"

definition sample_clock :: traversal_env where
  "sample_clock = \<lparr>tx_start = 0, tx_now = (\<lambda>_. 1), tx_end = 1, tx_completed = 1\<rparr>"

lemma sample_index:
  "cg_outgoing sample_graph = [1 \<mapsto> [10], 2 \<mapsto> [11], 3 \<mapsto> []]" "cg_incoming sample_graph = [1 \<mapsto> [], 2 \<mapsto> [10], 3 \<mapsto> [11]]"
  "dom (cg_nodes sample_graph) = {1, 2, 3}"
  by (auto simp: sample_graph_def add_edge_def add_node_def sample_node_def node_new_candidate_def graph_new_def
      edge_new_def or_default_def push_to_def fun_eq_iff split: if_splits)

lemma map_filter_length: "length (List.map_filter f xs) \<le> length xs"
  by (simp add: map_filter_def)

lemma expand_length: "length (expand g q u) \<le> length (or_empty_list (cg_outgoing g u)) + length (or_empty_list (cg_incoming g u))"
proof -
  have "length (get_edges g u) \<le> length (or_empty_list (cg_outgoing g u)) + length (or_empty_list (cg_incoming g u))"
    unfolding get_edges_def length_append by (intro add_mono map_filter_length)
  moreover have "length (expand g q u) \<le> length (get_edges g u)"
    unfolding expand_def by (rule map_filter_length)
  ultimately show ?thesis by (rule order_trans [rotated])
qed

lemma sample_roomy: "roomy sample_clock sample_traversal q"
proof -
  have "length (expand sample_graph q u) \<le> 64" for u
    using expand_length [of sample_graph q u] by (auto simp: sample_index split: if_splits)
  then show ?thesis
    by (simp add: roomy_def sample_clock_def sample_traversal_def graph_traversal_new_def traversal_budget_default_def
        nanos_per_ms_def sample_index)
qed

lemma sample_walk: "(1, 2) \<in> query_edges sample_graph (between 1 3)" "(2, 3) \<in> query_edges sample_graph (between 1 3)"
proof -
  have "cg_edges sample_graph 10 = Some (edge_new 10 0 1 2 DerivedFrom 9)"
    "cg_edges sample_graph 11 = Some (edge_new 11 0 2 3 DerivedFrom 9)" by (simp_all add: sample_lookup)
  moreover have "edge_passes_filter (edge_new e t u v DerivedFrom 9) (between 1 3) \<and>
      edge_neighbour (tq_direction (between 1 3)) u (edge_new e t u v DerivedFrom 9) = Some v" for e t u v
    by (simp add: edge_passes_filter_def between_def explore_def edge_new_def)
  ultimately show "(1, 2) \<in> query_edges sample_graph (between 1 3)" "(2, 3) \<in> query_edges sample_graph (between 1 3)"
    unfolding query_edges_def by blast+
qed

theorem traversal_is_sound_witness:
  "\<forall>fm. length (tr_paths (traversal_run fm sample_clock sample_traversal (between 1 3))) \<le> 1"
proof
  fix fm
  have "graph_reachable (gt_graph sample_traversal)"
    unfolding sample_traversal_def graph_traversal_new_def by (simp add: sample_reachable)
  from traversal_is_sound [OF this refl, of fm sample_clock "between 1 3"]
  show "length (tr_paths (traversal_run fm sample_clock sample_traversal (between 1 3))) \<le> 1"
    by (simp add: between_def)
qed


end
