(* ===== verification/Reason_Plan.thy ===== *)
theory Reason_Plan
  imports Retention "HOL-Library.Product_Lexorder" "HOL-Library.List_Lexorder"
begin

text \<open>
  Planning and workflow memory of the reasoning engine (\<^verbatim>\<open>reasoning_engine/src/planner.rs\<close>,
  \<^verbatim>\<open>workflow.rs\<close>, \<^verbatim>\<open>error.rs\<close>): the classifier of queries, the chains of retrieval modes, the execution
  of a plan against an executor with a state of its own, the recorder of traces, the patterns
  abstracted from traces and the choice of the best pattern. Fresh ids, the clock and the iteration
  order of the hash maps are arguments.
\<close>

datatype reasoning_error = BudgetExceeded string | ReasonNodeNotFound | InvalidAdjudicationTransition | TraceNotFound

section \<open>Retrieval modes and query classes\<close>

datatype retrieval_mode = Summary | Fts | SemanticVector | GraphTraversal | RawEvidence

fun cost_rank :: "retrieval_mode \<Rightarrow> nat" where
  "cost_rank Summary = 0"
| "cost_rank Fts = 1"
| "cost_rank SemanticVector = 2"
| "cost_rank GraphTraversal = 3"
| "cost_rank RawEvidence = 4"

datatype query_class = PointLookup | Relational | Temporal | Holistic | OtherClass

fun class_rank :: "query_class \<Rightarrow> nat" where
  "class_rank PointLookup = 0"
| "class_rank Relational = 1"
| "class_rank Temporal = 2"
| "class_rank Holistic = 3"
| "class_rank OtherClass = 4"

text \<open>The modes are ordered by cost and the classes as declared.\<close>

lemma cost_rank_inject: "cost_rank a = cost_rank b \<longleftrightarrow> a = b"
  by (cases a; cases b) auto

lemma class_rank_inject: "class_rank a = class_rank b \<longleftrightarrow> a = b"
  by (cases a; cases b) auto

instantiation retrieval_mode :: linorder
begin

definition less_eq_retrieval_mode :: "retrieval_mode \<Rightarrow> retrieval_mode \<Rightarrow> bool" where
  "less_eq_retrieval_mode a b \<longleftrightarrow> cost_rank a \<le> cost_rank b"

definition less_retrieval_mode :: "retrieval_mode \<Rightarrow> retrieval_mode \<Rightarrow> bool" where
  "less_retrieval_mode a b \<longleftrightarrow> cost_rank a < cost_rank b"

instance
  by standard (auto simp: less_eq_retrieval_mode_def less_retrieval_mode_def cost_rank_inject [symmetric])

end

instantiation query_class :: linorder
begin

definition less_eq_query_class :: "query_class \<Rightarrow> query_class \<Rightarrow> bool" where
  "less_eq_query_class a b \<longleftrightarrow> class_rank a \<le> class_rank b"

definition less_query_class :: "query_class \<Rightarrow> query_class \<Rightarrow> bool" where
  "less_query_class a b \<longleftrightarrow> class_rank a < class_rank b"

instance
  by standard (auto simp: less_eq_query_class_def less_query_class_def class_rank_inject [symmetric])

end

text \<open>\<^verbatim>\<open>str::contains\<close> and \<^verbatim>\<open>str::starts_with\<close> on a needle of text.\<close>

definition str_starts_with :: "string \<Rightarrow> string \<Rightarrow> bool" where
  "str_starts_with s m \<longleftrightarrow> take (length m) s = m"

fun str_contains :: "string \<Rightarrow> string \<Rightarrow> bool" where
  "str_contains [] m = (m = [])"
| "str_contains (c # s) m = (str_starts_with (c # s) m \<or> str_contains s m)"

definition temporal_markers :: "string list" where
  "temporal_markers = [''yesterday'', ''today'', ''last week'', ''this week'', ''last month'', ''recent'', ''recently'',
     ''just now'']"

definition holistic_markers :: "string list" where
  "holistic_markers = [''catch me up'', ''summary'', ''summarise'', ''summarize'', ''overview'', ''tldr'', ''tl;dr'',
     ''what'' @ CHR 0x27 # ''s going on'', ''what is going on'', ''the project'']"

definition relational_markers :: "string list" where
  "relational_markers = [''decided by'', ''approved by'', ''assigned to'', ''owns'', ''owner of'', ''linked to'', ''part of'',
     ''depends on'', ''blocked by'', ''blocking'']"

definition point_markers :: "string list" where
  "point_markers = [''who is'', ''what is'', ''what'' @ CHR 0x27 # ''s'', ''who'' @ CHR 0x27 # ''s'']"

definition classify :: "string \<Rightarrow> query_class" where
  "classify q =
     (let lower = map latin1_lower q in
      if \<exists>m \<in> set temporal_markers. str_contains lower m then Temporal
      else if \<exists>m \<in> set holistic_markers. str_contains lower m then Holistic
      else if \<exists>m \<in> set relational_markers. str_contains lower m then Relational
      else if \<exists>m \<in> set point_markers. str_starts_with lower m then PointLookup
      else OtherClass)"

section \<open>Chains and plans\<close>

record planner_heuristics =
  ph_chains :: "(query_class \<times> retrieval_mode list) list"
  ph_default_chain :: "retrieval_mode list"

definition heuristics_default :: planner_heuristics where
  "heuristics_default =
     \<lparr>ph_chains =
        [(PointLookup, [Summary, Fts, SemanticVector, RawEvidence]),
         (Relational, [GraphTraversal, Fts, RawEvidence]),
         (Temporal, [Fts, SemanticVector, Summary, RawEvidence]),
         (Holistic, [GraphTraversal, Summary, RawEvidence])],
      ph_default_chain = [Summary, Fts, SemanticVector, GraphTraversal, RawEvidence]\<rparr>"

fun chain_lookup :: "query_class \<Rightarrow> (query_class \<times> retrieval_mode list) list \<Rightarrow> retrieval_mode list option" where
  "chain_lookup cls [] = None"
| "chain_lookup cls ((c, chain) # rest) = (if c = cls then Some chain else chain_lookup cls rest)"

definition chain_for :: "planner_heuristics \<Rightarrow> query_class \<Rightarrow> retrieval_mode list" where
  "chain_for h cls = (case chain_lookup cls (ph_chains h) of Some chain \<Rightarrow> chain | None \<Rightarrow> ph_default_chain h)"

definition with_chain :: "query_class \<Rightarrow> retrieval_mode list \<Rightarrow> planner_heuristics \<Rightarrow> planner_heuristics" where
  "with_chain cls chain h = h\<lparr>ph_chains := filter (\<lambda>e. fst e \<noteq> cls) (ph_chains h) @ [(cls, chain)]\<rparr>"

record retrieval_step =
  rs_mode :: retrieval_mode
  rs_time_budget_ms :: "nat option"

definition retrieval_step_new :: "retrieval_mode \<Rightarrow> retrieval_step" where
  "retrieval_step_new m = \<lparr>rs_mode = m, rs_time_budget_ms = None\<rparr>"

definition with_budget_ms :: "nat \<Rightarrow> retrieval_step \<Rightarrow> retrieval_step" where
  "with_budget_ms ms s = s\<lparr>rs_time_budget_ms := Some ms\<rparr>"

record query_plan =
  qp_query :: string
  qp_class :: query_class
  qp_steps :: "retrieval_step list"
  qp_planned_at :: instant

datatype step_outcome = Success | NoMatch | BudgetExhausted | StepError

record plan_execution_result =
  pe_plan :: query_plan
  pe_attempts :: "(retrieval_mode \<times> step_outcome) list"
  pe_answered_by :: "retrieval_mode option"

definition plan_succeeded :: "plan_execution_result \<Rightarrow> bool" where
  "plan_succeeded r \<longleftrightarrow> pe_answered_by r \<noteq> None"

text \<open>A planner is its heuristics: the classifier has no state.\<close>

definition plan_query :: "planner_heuristics \<Rightarrow> instant \<Rightarrow> string \<Rightarrow> query_plan" where
  "plan_query h now q =
     (let cls = classify q in
      \<lparr>qp_query = q, qp_class = cls, qp_steps = map retrieval_step_new (chain_for h cls), qp_planned_at = now\<rparr>)"

text \<open>The executor is a closure that may change its captured state \<open>s\<close>.\<close>

fun execute_steps :: "('s \<Rightarrow> retrieval_mode \<Rightarrow> step_outcome \<times> 's) \<Rightarrow> retrieval_step list \<Rightarrow>
    (retrieval_mode \<times> step_outcome) list \<Rightarrow> 's \<Rightarrow> ((retrieval_mode \<times> step_outcome) list \<times> retrieval_mode option) \<times> 's" where
  "execute_steps executor [] attempts s = ((attempts, None), s)"
| "execute_steps executor (st # sts) attempts s =
     (case executor s (rs_mode st) of (outcome, s1) \<Rightarrow>
        (let attempts1 = attempts @ [(rs_mode st, outcome)] in
         if outcome = Success then ((attempts1, Some (rs_mode st)), s1)
         else execute_steps executor sts attempts1 s1))"

definition execute_plan :: "('s \<Rightarrow> retrieval_mode \<Rightarrow> step_outcome \<times> 's) \<Rightarrow> query_plan \<Rightarrow> 's \<Rightarrow> plan_execution_result \<times> 's" where
  "execute_plan executor plan s =
     (case execute_steps executor (qp_steps plan) [] s of ((attempts, answered_by), s1) \<Rightarrow>
        (\<lparr>pe_plan = plan, pe_attempts = attempts, pe_answered_by = answered_by\<rparr>, s1))"

section \<open>Traces\<close>

record recorded_step =
  rc_mode :: retrieval_mode
  rc_succeeded :: bool
  rc_elapsed_ms :: nat
  rc_note :: "string option"

record workflow_trace =
  wt_id :: uuid
  wt_query :: string
  wt_class :: query_class
  wt_steps :: "recorded_step list"
  wt_answered_by :: "retrieval_mode option"
  wt_total_elapsed_ms :: nat
  wt_scope :: uuid
  wt_recorded_at :: instant

record workflow_pattern =
  wp_id :: uuid
  wp_class :: query_class
  wp_steps :: "retrieval_mode list"
  wp_trace_ids :: "uuid list"
  wp_support :: nat
  wp_success_rate :: f64
  wp_updated_at :: instant

record trace_recorder =
  tc_query :: string
  tc_class :: query_class
  tc_scope :: uuid
  tc_steps :: "recorded_step list"
  tc_answered_by :: "retrieval_mode option"
  tc_accumulated_ms :: nat

definition recorder_begin :: "string \<Rightarrow> query_class \<Rightarrow> uuid \<Rightarrow> trace_recorder" where
  "recorder_begin q cls scope =
     \<lparr>tc_query = q, tc_class = cls, tc_scope = scope, tc_steps = [], tc_answered_by = None, tc_accumulated_ms = 0\<rparr>"

definition record_step :: "retrieval_mode \<Rightarrow> bool \<Rightarrow> nat \<Rightarrow> string option \<Rightarrow> trace_recorder \<Rightarrow> trace_recorder" where
  "record_step m succeeded elapsed note r =
     r\<lparr>tc_answered_by := (if succeeded \<and> tc_answered_by r = None then Some m else tc_answered_by r),
       tc_accumulated_ms := sat_add (tc_accumulated_ms r) elapsed,
       tc_steps := tc_steps r @ [\<lparr>rc_mode = m, rc_succeeded = succeeded, rc_elapsed_ms = elapsed, rc_note = note\<rparr>]\<rparr>"

definition recorder_finish :: "uuid \<Rightarrow> instant \<Rightarrow> trace_recorder \<Rightarrow> workflow_trace" where
  "recorder_finish i now r =
     \<lparr>wt_id = i, wt_query = tc_query r, wt_class = tc_class r, wt_steps = tc_steps r, wt_answered_by = tc_answered_by r,
      wt_total_elapsed_ms = tc_accumulated_ms r, wt_scope = tc_scope r, wt_recorded_at = now\<rparr>"

section \<open>Patterns\<close>

record workflow_memory =
  wm_traces :: "uuid \<rightharpoonup> workflow_trace"
  wm_patterns :: "uuid \<rightharpoonup> workflow_pattern"

definition workflow_memory_new :: workflow_memory where
  "workflow_memory_new = \<lparr>wm_traces = Map.empty, wm_patterns = Map.empty\<rparr>"

definition workflow_record :: "workflow_trace \<Rightarrow> workflow_memory \<Rightarrow> uuid \<times> workflow_memory" where
  "workflow_record t m = (wt_id t, m\<lparr>wm_traces := (wm_traces m)(wt_id t \<mapsto> t)\<rparr>)"

definition get_trace :: "workflow_memory \<Rightarrow> uuid \<Rightarrow> reasoning_error + workflow_trace" where
  "get_trace m i = (case wm_traces m i of Some t \<Rightarrow> Inr t | None \<Rightarrow> Inl TraceNotFound)"

definition workflow_len :: "workflow_memory \<Rightarrow> nat" where
  "workflow_len m = card (dom (wm_traces m))"

definition workflow_is_empty :: "workflow_memory \<Rightarrow> bool" where
  "workflow_is_empty m \<longleftrightarrow> workflow_len m = 0"

text \<open>The values of a hash map in the order the host iterates it.\<close>

definition all_traces :: "'t host \<Rightarrow> workflow_memory \<Rightarrow> workflow_trace list" where
  "all_traces h m = map (\<lambda>i. the (wm_traces m i)) (h_tags h (dom (wm_traces m)))"

definition all_patterns :: "'t host \<Rightarrow> workflow_memory \<Rightarrow> workflow_pattern list" where
  "all_patterns h m = map (\<lambda>i. the (wm_patterns m i)) (h_tags h (dom (wm_patterns m)))"

fun take_while_inclusive :: "('a \<Rightarrow> bool) \<Rightarrow> 'a list \<Rightarrow> 'a list" where
  "take_while_inclusive p [] = []"
| "take_while_inclusive p (x # xs) = (if p x then x # take_while_inclusive p xs else [x])"

definition trace_prefix :: "workflow_trace \<Rightarrow> retrieval_mode list" where
  "trace_prefix t =
     (let p = map rc_mode (take_while_inclusive (\<lambda>s. \<not> rc_succeeded s) (wt_steps t)) in
      case wt_answered_by t of
        Some answered_by \<Rightarrow>
          (if p \<noteq> [] \<and> last p = answered_by then p
           else (case position_of (\<lambda>m. m = answered_by) p of
                   Some idx \<Rightarrow> take (idx + 1) p
                 | None \<Rightarrow> p @ [answered_by]))
      | None \<Rightarrow> p)"

type_synonym pattern_key = "query_class \<times> retrieval_mode list"

definition trace_key :: "workflow_trace \<Rightarrow> pattern_key" where
  "trace_key t = (wt_class t, trace_prefix t)"

fun group_traces :: "workflow_trace list \<Rightarrow> (pattern_key \<rightharpoonup> workflow_trace list) \<Rightarrow> pattern_key \<rightharpoonup> workflow_trace list" where
  "group_traces [] by_key = by_key"
| "group_traces (t # ts) by_key =
     group_traces ts (by_key(trace_key t \<mapsto> or_empty_list (by_key (trace_key t)) @ [t]))"

text \<open>The ids and clock readings of the patterns made so far are counted by \<open>n\<close>.\<close>

definition pattern_of :: "f64_ops \<Rightarrow> uuid \<Rightarrow> instant \<Rightarrow> pattern_key \<Rightarrow> workflow_trace list \<Rightarrow> workflow_pattern" where
  "pattern_of F i now k ts =
     \<lparr>wp_id = i, wp_class = fst k, wp_steps = snd k, wp_trace_ids = map wt_id ts, wp_support = length ts,
      wp_success_rate = f_div F (f_of_int F (int (length (filter (\<lambda>t. wt_answered_by t \<noteq> None) ts)))) (f_of_int F (int (length ts))),
      wp_updated_at = now\<rparr>"

fun insert_patterns :: "f64_ops \<Rightarrow> (nat \<Rightarrow> uuid) \<Rightarrow> (nat \<Rightarrow> instant) \<Rightarrow> nat \<Rightarrow> nat \<Rightarrow>
    (pattern_key \<times> workflow_trace list) list \<Rightarrow> (uuid \<rightharpoonup> workflow_pattern) \<Rightarrow> uuid \<rightharpoonup> workflow_pattern" where
  "insert_patterns F ids now min_support n [] ps = ps"
| "insert_patterns F ids now min_support n ((k, ts) # rest) ps =
     (if length ts < min_support then insert_patterns F ids now min_support n rest ps
      else insert_patterns F ids now min_support (n + 1) rest (ps(ids n \<mapsto> pattern_of F (ids n) (now n) k ts)))"

definition build_patterns :: "f64_ops \<Rightarrow> pattern_key host \<Rightarrow> (nat \<Rightarrow> uuid) \<Rightarrow> (nat \<Rightarrow> instant) \<Rightarrow> nat \<Rightarrow>
    workflow_memory \<Rightarrow> workflow_memory" where
  "build_patterns F h ids now min_support m =
     (let by_key = group_traces (all_traces h m) Map.empty in
      m\<lparr>wm_patterns := insert_patterns F ids now min_support 0
          (map (\<lambda>k. (k, the (by_key k))) (h_keys h (dom by_key))) Map.empty\<rparr>)"

text \<open>
  The comparison of \<^verbatim>\<open>best_for\<close>: \<^verbatim>\<open>partial_cmp\<close> of the rates, an incomparable pair counting as equal, then
  the supports. \<^verbatim>\<open>max_by\<close> keeps the later of two elements unless the earlier is greater.
\<close>

definition pattern_greater :: "workflow_pattern \<Rightarrow> workflow_pattern \<Rightarrow> bool" where
  "pattern_greater a b \<longleftrightarrow> f64_lt (wp_success_rate b) (wp_success_rate a) \<or>
     \<not> f64_lt (wp_success_rate a) (wp_success_rate b) \<and> wp_support b < wp_support a"

fun max_pattern :: "workflow_pattern list \<Rightarrow> workflow_pattern option" where
  "max_pattern [] = None"
| "max_pattern (p # ps) = Some (fold (\<lambda>y best. if pattern_greater best y then best else y) ps p)"

definition best_for :: "'t host \<Rightarrow> workflow_memory \<Rightarrow> query_class \<Rightarrow> workflow_pattern option" where
  "best_for h m cls = max_pattern (filter (\<lambda>p. wp_class p = cls) (all_patterns h m))"

section \<open>Planning\<close>

lemma str_contains_iff: "str_contains s m \<longleftrightarrow> (\<exists>pre post. s = pre @ m @ post)"
proof (induction s)
  case (Cons c s)
  have "str_starts_with (c # s) m \<longleftrightarrow> (\<exists>post. c # s = m @ post)"
    unfolding str_starts_with_def by (metis append_eq_conv_conj append_take_drop_id)
  then show ?case using Cons.IH by (auto simp: Cons_eq_append_conv)
qed auto

lemma chain_lookup_append: "chain_lookup c (xs @ ys) = (case chain_lookup c xs of Some ch \<Rightarrow> Some ch | None \<Rightarrow> chain_lookup c ys)"
  by (induction c xs rule: chain_lookup.induct) auto

lemma chain_lookup_filter: "chain_lookup c (filter (\<lambda>e. fst e \<noteq> d) xs) = (if c = d then None else chain_lookup c xs)"
  by (induction xs) (auto split: if_splits)

lemma chain_for_with_chain: "chain_for (with_chain c ch h) d = (if d = c then ch else chain_for h d)"
  by (simp add: chain_for_def with_chain_def chain_lookup_append chain_lookup_filter split: option.splits)

lemma default_chains_end_raw:
  "chain_for heuristics_default c \<noteq> []" "last (chain_for heuristics_default c) = RawEvidence"
  "distinct (chain_for heuristics_default c)"
  by (cases c; simp add: chain_for_def heuristics_default_def)+

text \<open>
  Where the documentation and the code differ: the chains of relational and of holistic queries start
  with the traversal of the graph and only then try cheaper modes.
\<close>

lemma chains_not_cheapest_first:
  "map cost_rank (chain_for heuristics_default Relational) = [3, 1, 4]"
  "map cost_rank (chain_for heuristics_default Holistic) = [3, 0, 4]"
  by (simp_all add: chain_for_def heuristics_default_def)

section \<open>Executing a plan\<close>

text \<open>The executor run on a whole list of modes.\<close>

fun run_executor :: "('s \<Rightarrow> retrieval_mode \<Rightarrow> step_outcome \<times> 's) \<Rightarrow> retrieval_mode list \<Rightarrow> 's \<Rightarrow> step_outcome list \<times> 's" where
  "run_executor executor [] s = ([], s)"
| "run_executor executor (m # ms) s =
     (case executor s m of (r, s1) \<Rightarrow> (case run_executor executor ms s1 of (rs, s2) \<Rightarrow> (r # rs, s2)))"

definition attempts_of :: "('s \<Rightarrow> retrieval_mode \<Rightarrow> step_outcome \<times> 's) \<Rightarrow> retrieval_mode list \<Rightarrow> 's \<Rightarrow>
    (retrieval_mode \<times> step_outcome) list" where
  "attempts_of executor ms s = take_while_inclusive (\<lambda>a. snd a \<noteq> Success) (zip ms (fst (run_executor executor ms s)))"

lemma execute_steps_eq:
  "execute_steps executor sts acc s =
     (let as = attempts_of executor (map rs_mode sts) s in
      ((acc @ as, if as \<noteq> [] \<and> snd (last as) = Success then Some (fst (last as)) else None),
       snd (run_executor executor (map fst as) s)))"
proof (induction sts arbitrary: acc s)
  case (Cons st sts)
  obtain r s1 where r: "executor s (rs_mode st) = (r, s1)" by force
  obtain rs s2 where rs: "run_executor executor (map rs_mode sts) s1 = (rs, s2)" by force
  show ?case
  proof (cases "r = Success")
    case True
    then show ?thesis by (simp add: attempts_of_def r rs Let_def)
  next
    case False
    then have "attempts_of executor (map rs_mode (st # sts)) s = (rs_mode st, r) # attempts_of executor (map rs_mode sts) s1"
      by (simp add: attempts_of_def r rs)
    then show ?thesis using Cons.IH [of "acc @ [(rs_mode st, r)]" s1] False
      by (simp add: r Let_def split: prod.splits)
  qed
qed (simp add: attempts_of_def)

lemma take_while_inclusive_split:
  "take_while_inclusive p xs = takeWhile p xs @ (case dropWhile p xs of [] \<Rightarrow> [] | y # _ \<Rightarrow> [y])"
  by (induction xs) (auto split: list.splits)

lemma take_while_inclusive_prefix: "take_while_inclusive p xs = take (length (take_while_inclusive p xs)) xs"
  by (induction xs) auto

lemma take_while_inclusive_butlast: "x \<in> set (butlast (take_while_inclusive p xs)) \<Longrightarrow> p x"
  by (induction xs) (auto split: if_splits)

lemma take_while_inclusive_all: "(\<forall>x \<in> set (take_while_inclusive p xs). p x) \<Longrightarrow> take_while_inclusive p xs = xs"
  by (induction xs) (auto split: if_splits)

lemma run_executor_length [simp]: "length (fst (run_executor executor ms s)) = length ms"
  by (induction ms arbitrary: s) (auto split: prod.splits, metis fst_conv)

lemma run_executor_take: "fst (run_executor executor (take k ms) s) = take k (fst (run_executor executor ms s))"
proof (induction ms arbitrary: s k)
  case (Cons m ms)
  obtain r s1 where "executor s m = (r, s1)" by force
  then show ?case using Cons.IH [of _ s1] by (cases k) (auto split: prod.splits, metis fst_conv)
qed simp

text \<open>
  Executing a plan calls the executor on the modes of the plan in order, up to and including the
  first that succeeds and on no other; the answer is that mode, and without a success every mode was
  tried.
\<close>

theorem plan_execution_exact:
  assumes "execute_plan executor plan s = (r, s1)"
  shows "(\<exists>k. map fst (pe_attempts r) = take k (map rs_mode (qp_steps plan)) \<and>
      run_executor executor (take k (map rs_mode (qp_steps plan))) s = (map snd (pe_attempts r), s1)) \<and>
    (\<forall>a \<in> set (butlast (pe_attempts r)). snd a \<noteq> Success) \<and>
    (case pe_answered_by r of
       Some m \<Rightarrow> pe_attempts r \<noteq> [] \<and> last (pe_attempts r) = (m, Success)
     | None \<Rightarrow> map fst (pe_attempts r) = map rs_mode (qp_steps plan) \<and> (\<forall>a \<in> set (pe_attempts r). snd a \<noteq> Success))"
proof -
  let ?ms = "map rs_mode (qp_steps plan)" and ?as = "pe_attempts r" and ?p = "\<lambda>a. snd a \<noteq> Success"
  have r: "?as = attempts_of executor ?ms s" "s1 = snd (run_executor executor (map fst ?as) s)"
    "pe_answered_by r = (if ?as \<noteq> [] \<and> snd (last ?as) = Success then Some (fst (last ?as)) else None)"
    using assms by (auto simp: execute_plan_def execute_steps_eq Let_def)
  let ?z = "zip ?ms (fst (run_executor executor ?ms s))"
  have tw: "?as = take_while_inclusive ?p ?z" unfolding r(1) attempts_of_def ..
  from take_while_inclusive_prefix [of ?p ?z] have z: "?as = take (length ?as) ?z" unfolding tw .
  have f: "map fst ?as = take (length ?as) ?ms"
    by (subst z) (simp add: take_map [symmetric])
  have g: "map snd ?as = take (length ?as) (fst (run_executor executor ?ms s))"
    by (subst z) (simp add: take_map [symmetric])
  have b: "\<forall>a \<in> set (butlast ?as). snd a \<noteq> Success" using take_while_inclusive_butlast [of _ ?p ?z] unfolding tw by blast
  have e: "run_executor executor (take (length ?as) ?ms) s = (map snd ?as, s1)"
    using r(2) unfolding f g run_executor_take [symmetric] by simp
  have n: "map fst ?as = ?ms \<and> (\<forall>a \<in> set ?as. snd a \<noteq> Success)" if "pe_answered_by r = None"
  proof -
    have a: "\<forall>a \<in> set ?as. ?p a"
    proof (cases ?as rule: rev_cases)
      case (snoc as a)
      then show ?thesis using b r(3) that by (simp split: if_splits)
    qed simp
    from take_while_inclusive_all [OF this [unfolded tw]] have "?as = ?z" unfolding tw .
    then show ?thesis using a by (metis map_fst_zip length_map run_executor_length)
  qed
  have "\<exists>k. map fst ?as = take k ?ms \<and> run_executor executor (take k ?ms) s = (map snd ?as, s1)" using f e by blast
  moreover have "case pe_answered_by r of Some m \<Rightarrow> ?as \<noteq> [] \<and> last ?as = (m, Success)
      | None \<Rightarrow> map fst ?as = ?ms \<and> (\<forall>a \<in> set ?as. snd a \<noteq> Success)"
  proof (cases "pe_answered_by r")
    case None
    then show ?thesis using n by simp
  next
    case (Some m)
    then show ?thesis using r(3) by (simp add: prod_eq_iff split: if_splits)
  qed
  ultimately show ?thesis using b by blast
qed

section \<open>Recorded traces\<close>

definition record_all :: "(retrieval_mode \<times> bool \<times> nat \<times> string option) list \<Rightarrow> trace_recorder \<Rightarrow> trace_recorder" where
  "record_all steps r = fold (\<lambda>(m, succeeded, elapsed, note). record_step m succeeded elapsed note) steps r"

text \<open>
  The answer of a recorded trace is the mode of its first successful step, and its prefix ends there:
  the corrections of \<^verbatim>\<open>build_patterns\<close> are for traces that were not made by the recorder.
\<close>

lemma record_all_answer:
  "tc_answered_by r = map_option rc_mode (List.find rc_succeeded (tc_steps r)) \<Longrightarrow>
   tc_answered_by (record_all steps r) = map_option rc_mode (List.find rc_succeeded (tc_steps (record_all steps r)))"
proof (induction steps arbitrary: r)
  case (Cons x steps)
  obtain m s e n where x: "x = (m, s, e, n)" by (cases x)
  have find_snoc: "List.find p (xs @ [y]) = (case List.find p xs of Some z \<Rightarrow> Some z | None \<Rightarrow> if p y then Some y else None)" for p y and xs :: "recorded_step list"
    by (induction xs) auto
  have "tc_answered_by (record_step m s e n r) = map_option rc_mode (List.find rc_succeeded (tc_steps (record_step m s e n r)))"
    using Cons.prems by (auto simp: record_step_def find_snoc split: option.splits)
  from Cons.IH [OF this] show ?case by (simp add: record_all_def x)
qed (simp add: record_all_def)

lemma recorded_prefix:
  assumes "t = recorder_finish i now (record_all steps (recorder_begin q cls scope))"
  shows "trace_prefix t = map rc_mode (take_while_inclusive (\<lambda>s. \<not> rc_succeeded s) (wt_steps t))"
proof -
  have "wt_answered_by t = map_option rc_mode (List.find rc_succeeded (wt_steps t))"
    unfolding assms recorder_finish_def using record_all_answer [of "recorder_begin q cls scope" steps]
    by (simp add: recorder_begin_def)
  moreover have "map_option rc_mode (List.find rc_succeeded xs) = Some m \<Longrightarrow>
      map rc_mode (take_while_inclusive (\<lambda>s. \<not> rc_succeeded s) xs) \<noteq> [] \<and>
      last (map rc_mode (take_while_inclusive (\<lambda>s. \<not> rc_succeeded s) xs)) = m" for xs m
    by (induction xs) (auto split: if_splits)
  ultimately show ?thesis by (auto simp: trace_prefix_def Let_def split: option.splits)
qed

section \<open>The patterns of a memory\<close>

lemma group_traces_eq:
  "group_traces ts bk k =
     (if k \<in> trace_key ` set ts \<or> bk k \<noteq> None then Some (or_empty_list (bk k) @ filter (\<lambda>t. trace_key t = k) ts) else None)"
proof (induction ts arbitrary: bk)
  case (Cons t ts)
  show ?case unfolding group_traces.simps Cons.IH by (cases "bk (trace_key t)") auto
qed (auto simp: or_empty_list_def)

lemma insert_patterns_eq:
  assumes "inj_on ids {n..<n + length (filter (\<lambda>e. ms \<le> length (snd e)) kts)}"
  shows "insert_patterns F ids now ms n kts ps i = Some p \<longleftrightarrow>
    (\<exists>j < length (filter (\<lambda>e. ms \<le> length (snd e)) kts).
       i = ids (n + j) \<and> p = pattern_of F (ids (n + j)) (now (n + j))
         (fst (filter (\<lambda>e. ms \<le> length (snd e)) kts ! j)) (snd (filter (\<lambda>e. ms \<le> length (snd e)) kts ! j))) \<or>
    i \<notin> ids ` {n..<n + length (filter (\<lambda>e. ms \<le> length (snd e)) kts)} \<and> ps i = Some p"
  using assms
proof (induction kts arbitrary: n ps)
  case (Cons e kts)
  obtain k ts where e: "e = (k, ts)" by (cases e)
  let ?g = "filter (\<lambda>e. ms \<le> length (snd e)) kts"
  show ?case
  proof (cases "ms \<le> length ts")
    case True
    let ?p = "pattern_of F (ids n) (now n) k ts"
    have inj: "inj_on ids {n..<Suc (n + length ?g)}" using Cons.prems True by (simp add: e)
    have r: "{n..<Suc (n + length ?g)} = insert n {Suc n..<Suc n + length ?g}" by auto
    have i1: "inj_on ids {Suc n..<Suc n + length ?g}" and i2: "ids n \<notin> ids ` {Suc n..<Suc n + length ?g}"
      using inj unfolding r by auto
    have ex: "(\<exists>j < Suc (length ?g). i = ids (n + j) \<and> p = pattern_of F (ids (n + j)) (now (n + j)) (fst ((e # ?g) ! j)) (snd ((e # ?g) ! j)))
        \<longleftrightarrow> i = ids n \<and> p = ?p \<or> (\<exists>j < length ?g. i = ids (Suc n + j) \<and> p = pattern_of F (ids (Suc n + j)) (now (Suc n + j)) (fst (?g ! j)) (snd (?g ! j)))"
      by (subst Ex_less_Suc2) (simp add: e)
    have st: "insert_patterns F ids now ms n (e # kts) ps = insert_patterns F ids now ms (Suc n) kts (ps(ids n \<mapsto> ?p))"
      using True by (simp add: e)
    have "insert_patterns F ids now ms n (e # kts) ps i = Some p \<longleftrightarrow>
        (\<exists>j < length ?g. i = ids (Suc n + j) \<and> p = pattern_of F (ids (Suc n + j)) (now (Suc n + j)) (fst (?g ! j)) (snd (?g ! j))) \<or>
        i \<notin> ids ` {Suc n..<Suc n + length ?g} \<and> (ps(ids n \<mapsto> ?p)) i = Some p"
      unfolding st by (rule Cons.IH [OF i1])
    also have "\<dots> \<longleftrightarrow> (i = ids n \<and> p = ?p \<or> (\<exists>j < length ?g. i = ids (Suc n + j) \<and> p = pattern_of F (ids (Suc n + j)) (now (Suc n + j)) (fst (?g ! j)) (snd (?g ! j)))) \<or>
        i \<notin> insert (ids n) (ids ` {Suc n..<Suc n + length ?g}) \<and> ps i = Some p"
      using i2 by (auto split: if_splits)
    also have "insert (ids n) (ids ` {Suc n..<Suc n + length ?g}) = ids ` {n..<n + length (filter (\<lambda>e. ms \<le> length (snd e)) (e # kts))}"
      using True r by (simp add: e)
    finally show ?thesis unfolding ex [symmetric] using True by (simp add: e)
  next
    case False
    then show ?thesis using Cons.IH [of n ps] Cons.prems by (simp add: e)
  qed
qed simp


lemma all_traces_set: "host_ok h \<Longrightarrow> set (all_traces h m) = ran (wm_traces m)"
  by (force simp: all_traces_def ran_def dom_def image_iff)

lemma all_traces_ids:
  assumes "host_ok h" and "\<forall>i t. wm_traces m i = Some t \<longrightarrow> wt_id t = i"
  shows "distinct (map wt_id (all_traces h m))"
proof -
  have "map wt_id (all_traces h m) = h_tags h (dom (wm_traces m))"
    using assms unfolding all_traces_def by (auto intro!: map_idI)
  then show ?thesis using assms(1) by simp
qed

text \<open>The groups that reach the support, in the order the host iterates the keys.\<close>

definition groups_of :: "pattern_key host \<Rightarrow> nat \<Rightarrow> workflow_memory \<Rightarrow> (pattern_key \<times> workflow_trace list) list" where
  "groups_of h ms m = filter (\<lambda>e. ms \<le> length (snd e))
     (map (\<lambda>k. (k, filter (\<lambda>t. trace_key t = k) (all_traces h m))) (h_keys h (trace_key ` ran (wm_traces m))))"

lemma finite_ran_uuid [simp]: "finite (ran (f :: uuid \<rightharpoonup> 'a))"
  by (rule finite_ran) simp

lemma groups_distinct: "host_ok h \<Longrightarrow> distinct (map fst (groups_of h ms m))"
  unfolding groups_of_def by (intro distinct_map_filter) (simp add: comp_def)

lemma groups_set:
  "host_ok h \<Longrightarrow> (k, ts) \<in> set (groups_of h ms m) \<longleftrightarrow>
     k \<in> trace_key ` ran (wm_traces m) \<and> ts = filter (\<lambda>t. trace_key t = k) (all_traces h m) \<and> ms \<le> length ts"
  by (auto simp: groups_of_def)

lemma build_patterns_lookup:
  assumes "host_ok h" and "inj_on ids {..<card (trace_key ` ran (wm_traces m))}"
  shows "wm_patterns (build_patterns F h ids now ms m) i = Some p \<longleftrightarrow>
    (\<exists>j < length (groups_of h ms m). i = ids j \<and>
       p = pattern_of F (ids j) (now j) (fst (groups_of h ms m ! j)) (snd (groups_of h ms m ! j)))"
proof -
  have d: "dom (group_traces (all_traces h m) Map.empty) = trace_key ` ran (wm_traces m)"
    using all_traces_set [OF assms(1), of m] by (auto simp: group_traces_eq dom_def split: if_splits)
  have k: "set (h_keys h (trace_key ` ran (wm_traces m))) = trace_key ` ran (wm_traces m)"
    "distinct (h_keys h (trace_key ` ran (wm_traces m)))" using assms(1) by simp_all
  have e: "map (\<lambda>k. (k, the (group_traces (all_traces h m) Map.empty k))) (h_keys h (trace_key ` ran (wm_traces m))) =
      map (\<lambda>k. (k, filter (\<lambda>t. trace_key t = k) (all_traces h m))) (h_keys h (trace_key ` ran (wm_traces m)))"
    using k(1) all_traces_set [OF assms(1), of m] by (auto simp: group_traces_eq)
  have "length (groups_of h ms m) \<le> card (trace_key ` ran (wm_traces m))"
    unfolding groups_of_def by (rule order_trans [OF length_filter_le]) (simp add: distinct_card [OF k(2), symmetric] k(1))
  then have "inj_on ids {0..<0 + length (groups_of h ms m)}" using inj_on_subset [OF assms(2)] by (simp add: lessThan_subset_iff atLeast0LessThan)
  from insert_patterns_eq [OF this [unfolded groups_of_def], of F now Map.empty i p] show ?thesis
    unfolding build_patterns_def Let_def d e by (simp add: groups_of_def [symmetric])
qed


text \<open>The ids of the traces of a key, and how the groups list them.\<close>

definition ids_of_key :: "workflow_memory \<Rightarrow> pattern_key \<Rightarrow> uuid set" where
  "ids_of_key m k = {i. \<exists>t. wm_traces m i = Some t \<and> trace_key t = k}"

lemma group_ids:
  assumes "host_ok h" and "\<forall>i t. wm_traces m i = Some t \<longrightarrow> wt_id t = i"
  shows "set (map wt_id (filter (\<lambda>t. trace_key t = k) (all_traces h m))) = ids_of_key m k"
    and "distinct (map wt_id (filter (\<lambda>t. trace_key t = k) (all_traces h m)))"
    and "length (filter (\<lambda>t. trace_key t = k) (all_traces h m)) = card (ids_of_key m k)"
proof -
  show s: "set (map wt_id (filter (\<lambda>t. trace_key t = k) (all_traces h m))) = ids_of_key m k"
    using assms(2) all_traces_set [OF assms(1), of m] by (force simp: ran_def ids_of_key_def)
  show d: "distinct (map wt_id (filter (\<lambda>t. trace_key t = k) (all_traces h m)))"
    using all_traces_ids [OF assms] by (rule distinct_map_filter)
  show "length (filter (\<lambda>t. trace_key t = k) (all_traces h m)) = card (ids_of_key m k)"
    using distinct_card [OF d] unfolding s by simp
qed

lemma groups_nth:
  assumes "host_ok h" and "j < length (groups_of h ms m)"
  shows "fst (groups_of h ms m ! j) \<in> trace_key ` ran (wm_traces m) \<and>
    snd (groups_of h ms m ! j) = filter (\<lambda>t. trace_key t = fst (groups_of h ms m ! j)) (all_traces h m) \<and>
    ms \<le> length (snd (groups_of h ms m ! j))"
  using nth_mem [OF assms(2)] unfolding groups_set [OF assms(1), symmetric] prod.collapse .

lemma pattern_members:
  assumes "host_ok h" and "\<forall>i t. wm_traces m i = Some t \<longrightarrow> wt_id t = i"
    and "inj_on ids {..<card (trace_key ` ran (wm_traces m))}"
    and "wm_patterns (build_patterns F h ids now ms m) i = Some p"
  shows "wp_id p = i \<and> distinct (wp_trace_ids p) \<and> set (wp_trace_ids p) = ids_of_key m (wp_class p, wp_steps p) \<and>
      wp_support p = length (wp_trace_ids p) \<and> max 1 ms \<le> wp_support p \<and>
      (\<exists>j < length (groups_of h ms m). i = ids j \<and> (wp_class p, wp_steps p) = fst (groups_of h ms m ! j))"
proof -
  let ?gs = "groups_of h ms m"
  from assms(4) obtain j where j: "j < length ?gs" "i = ids j" "wp_id p = i" "(wp_class p, wp_steps p) = fst (?gs ! j)"
      "wp_trace_ids p = map wt_id (filter (\<lambda>t. trace_key t = fst (?gs ! j)) (all_traces h m))"
      "wp_support p = length (wp_trace_ids p)"
    unfolding build_patterns_lookup [OF assms(1,3)] using groups_nth [OF assms(1), of _ ms m] by (auto simp: pattern_of_def)
  note n = groups_nth [OF assms(1) j(1)]
  have "filter (\<lambda>t. trace_key t = fst (?gs ! j)) (all_traces h m) \<noteq> []"
    using n all_traces_set [OF assms(1), of m] by (auto simp: filter_empty_conv)
  then have "max 1 ms \<le> wp_support p" using n unfolding j(5,6) by (cases ms) (auto simp: Suc_le_eq)
  then show ?thesis using j(1,2,3,6) group_ids(1,2) [OF assms(1,2), of "fst (?gs ! j)"] unfolding j(4,5) by blast
qed

lemma patterns_of_trace:
  assumes "host_ok h" and "\<forall>i t. wm_traces m i = Some t \<longrightarrow> wt_id t = i"
    and "inj_on ids {..<card (trace_key ` ran (wm_traces m))}"
    and "P = wm_patterns (build_patterns F h ids now ms m)" and t: "wm_traces m i = Some t"
  shows "{q. P q \<noteq> None \<and> i \<in> set (wp_trace_ids (the (P q)))} =
    ids ` {j. j < length (groups_of h ms m) \<and> fst (groups_of h ms m ! j) = trace_key t}"
proof (intro set_eqI iffI)
  let ?gs = "groups_of h ms m"
  fix q assume "q \<in> {q. P q \<noteq> None \<and> i \<in> set (wp_trace_ids (the (P q)))}"
  then obtain p where p: "P q = Some p" "i \<in> set (wp_trace_ids p)" by auto
  note o = pattern_members [OF assms(1-3) p(1) [unfolded assms(4)]]
  from o obtain j where j: "j < length ?gs" "q = ids j" "(wp_class p, wp_steps p) = fst (?gs ! j)" by blast
  have "i \<in> ids_of_key m (fst (?gs ! j))" using o p(2) unfolding j(3) by blast
  then show "q \<in> ids ` {j. j < length ?gs \<and> fst (?gs ! j) = trace_key t}" using t j by (auto simp: ids_of_key_def)
next
  let ?gs = "groups_of h ms m"
  fix q assume "q \<in> ids ` {j. j < length ?gs \<and> fst (?gs ! j) = trace_key t}"
  then obtain j where j: "j < length ?gs" "fst (?gs ! j) = trace_key t" "q = ids j" by blast
  then have p: "P q = Some (pattern_of F (ids j) (now j) (fst (?gs ! j)) (snd (?gs ! j)))"
    unfolding assms(4) build_patterns_lookup [OF assms(1,3)] by blast
  have "i \<in> ids_of_key m (fst (?gs ! j))" using t j(2) by (simp add: ids_of_key_def)
  then have "i \<in> set (wp_trace_ids (pattern_of F (ids j) (now j) (fst (?gs ! j)) (snd (?gs ! j))))"
    unfolding group_ids(1) [OF assms(1,2), symmetric] using groups_nth [OF assms(1) j(1)] by (simp add: pattern_of_def)
  then show "q \<in> {q. P q \<noteq> None \<and> i \<in> set (wp_trace_ids (the (P q)))}" using p by simp
qed

lemma trace_patterns_card:
  assumes "host_ok h" and "\<forall>i t. wm_traces m i = Some t \<longrightarrow> wt_id t = i"
    and "inj_on ids {..<card (trace_key ` ran (wm_traces m))}" and t: "wm_traces m i = Some t"
  shows "card {q. wm_patterns (build_patterns F h ids now ms m) q \<noteq> None \<and>
      i \<in> set (wp_trace_ids (the (wm_patterns (build_patterns F h ids now ms m) q)))} =
    (if ms \<le> card (ids_of_key m (trace_key t)) then 1 else 0)"
proof -
  let ?gs = "groups_of h ms m"
  note eq = patterns_of_trace [OF assms(1-3) refl t, of F now ms] and len = group_ids(3) [OF assms(1,2), of "trace_key t"]
  have k: "trace_key t \<in> trace_key ` ran (wm_traces m)" using t by (auto simp: ran_def)
  show ?thesis
  proof (cases "ms \<le> card (ids_of_key m (trace_key t))")
    case True
    then have "(trace_key t, filter (\<lambda>s. trace_key s = trace_key t) (all_traces h m)) \<in> set ?gs"
      using k len by (simp add: groups_set [OF assms(1)])
    then obtain j where j: "j < length ?gs" "fst (?gs ! j) = trace_key t" by (metis fst_conv in_set_conv_nth)
    have "j' = j" if "j' < length ?gs" "fst (?gs ! j') = trace_key t" for j'
      using groups_distinct [OF assms(1), of ms m] j that by (simp add: distinct_conv_nth) metis
    then have "{j. j < length ?gs \<and> fst (?gs ! j) = trace_key t} = {j}" using j by blast
    then show ?thesis unfolding eq using True by simp
  next
    case False
    have "\<not> (j < length ?gs \<and> fst (?gs ! j) = trace_key t)" for j using groups_nth [OF assms(1), of j ms m] len False by auto
    then show ?thesis unfolding eq using False by simp
  qed
qed

text \<open>
  Where the documentation and the code differ: a group with exactly the asked support is kept.
\<close>

lemma support_at_minimum_is_kept:
  assumes "host_ok h" and "\<forall>i t. wm_traces m i = Some t \<longrightarrow> wt_id t = i"
    and "inj_on ids {..<card (trace_key ` ran (wm_traces m))}" and "wm_traces m i = Some t"
    and "min_support = card (ids_of_key m (trace_key t))"
  shows "\<exists>q p. wm_patterns (build_patterns F h ids now min_support m) q = Some p \<and> i \<in> set (wp_trace_ids p)"
proof -
  have "card {q. wm_patterns (build_patterns F h ids now min_support m) q \<noteq> None \<and>
      i \<in> set (wp_trace_ids (the (wm_patterns (build_patterns F h ids now min_support m) q)))} = 1"
    using trace_patterns_card [OF assms(1-4), of F now min_support] assms(5) by simp
  then show ?thesis by (force simp: card_1_singleton_iff)
qed


section \<open>The best pattern\<close>

lemma max_pattern_None [simp]: "max_pattern ps = None \<longleftrightarrow> ps = []"
  by (cases ps) auto

lemma pattern_greater_trans:
  assumes "\<not> f64_is_nan (wp_success_rate a)" "\<not> f64_is_nan (wp_success_rate b)" "\<not> f64_is_nan (wp_success_rate c)"
    and "\<not> pattern_greater a b" and "\<not> pattern_greater b c"
  shows "\<not> pattern_greater a c"
  using assms by (auto simp: pattern_greater_def f64_lt_def)

lemma max_pattern_SomeD:
  assumes "max_pattern ps = Some p" and "\<forall>q \<in> set ps. \<not> f64_is_nan (wp_success_rate q)"
  shows "p \<in> set ps \<and> (\<forall>q \<in> set ps. \<not> pattern_greater q p)"
proof -
  let ?f = "\<lambda>y best. if pattern_greater best y then best else y"
  have "fold ?f qs x \<in> set (x # qs) \<and> (\<forall>q \<in> set (x # qs). \<not> pattern_greater q (fold ?f qs x))"
    if "\<forall>q \<in> set (x # qs). \<not> f64_is_nan (wp_success_rate q)" for x qs
    using that
  proof (induction qs arbitrary: x)
    case (Cons y qs)
    have "fold ?f qs (?f y x) \<in> set (?f y x # qs) \<and> (\<forall>q \<in> set (?f y x # qs). \<not> pattern_greater q (fold ?f qs (?f y x)))"
      using Cons.prems by (intro Cons.IH) auto
    moreover have "\<not> pattern_greater x (?f y x)" "\<not> pattern_greater y (?f y x)"
      by (auto simp: pattern_greater_def f64_lt_def)
    moreover have "\<forall>q \<in> set (y # x # qs). \<not> f64_is_nan (wp_success_rate q)" using Cons.prems by simp
    ultimately show ?case using pattern_greater_trans [of x "?f y x" "fold ?f qs (?f y x)"]
        pattern_greater_trans [of y "?f y x" "fold ?f qs (?f y x)"] by (auto split: if_splits)
  qed (simp add: pattern_greater_def f64_lt_def)
  then show ?thesis using assms by (cases ps) auto
qed


lemma all_patterns_set: "host_ok h \<Longrightarrow> set (all_patterns h m) = ran (wm_patterns m)"
  by (force simp: all_patterns_def ran_def dom_def image_iff)

text \<open>
  The chosen pattern is one of the class with the largest success rate and, among those, the largest
  support, whatever the iteration order; there is none exactly when the class has no pattern.
\<close>

theorem best_pattern_correct:
  assumes "host_ok h" and "\<forall>p \<in> ran (wm_patterns m). \<not> f64_is_nan (wp_success_rate p)"
  shows "case best_for h m cls of
      None \<Rightarrow> \<forall>p \<in> ran (wm_patterns m). wp_class p \<noteq> cls
    | Some p \<Rightarrow> p \<in> ran (wm_patterns m) \<and> wp_class p = cls \<and>
        (\<forall>q \<in> ran (wm_patterns m). wp_class q = cls \<longrightarrow> f64_le (wp_success_rate q) (wp_success_rate p) \<and>
           (f64_le (wp_success_rate p) (wp_success_rate q) \<longrightarrow> wp_support q \<le> wp_support p))"
proof (cases "best_for h m cls")
  case None
  then show ?thesis using all_patterns_set [OF assms(1), of m] by (simp add: best_for_def filter_empty_conv)
next
  case (Some p)
  have "p \<in> set (filter (\<lambda>p. wp_class p = cls) (all_patterns h m)) \<and>
      (\<forall>q \<in> set (filter (\<lambda>p. wp_class p = cls) (all_patterns h m)). \<not> pattern_greater q p)"
    using Some assms(2) all_patterns_set [OF assms(1), of m] unfolding best_for_def by (intro max_pattern_SomeD) auto
  then have p: "p \<in> ran (wm_patterns m)" "wp_class p = cls" "\<forall>q \<in> ran (wm_patterns m). wp_class q = cls \<longrightarrow> \<not> pattern_greater q p"
    using all_patterns_set [OF assms(1), of m] by auto
  have "f64_le (wp_success_rate q) (wp_success_rate p) \<and> (f64_le (wp_success_rate p) (wp_success_rate q) \<longrightarrow> wp_support q \<le> wp_support p)"
    if "q \<in> ran (wm_patterns m)" "wp_class q = cls" for q
    using that p assms(2) by (auto simp: pattern_greater_def f64_lt_def f64_le_def)
  then show ?thesis using Some p by simp
qed

text \<open>
  Where the documentation and the code differ: a pattern with less support and a higher success rate
  wins over one with more support.
\<close>

lemma rate_beats_support:
  assumes "f64_lt (wp_success_rate a) (wp_success_rate b)"
  shows "max_pattern [a, b] = Some b" and "max_pattern [b, a] = Some b"
  using assms by (auto simp: pattern_greater_def f64_lt_def)


section \<open>Witnesses\<close>

text \<open>An executor that counts its calls and succeeds on the semantic search.\<close>

definition sample_executor :: "nat \<Rightarrow> retrieval_mode \<Rightarrow> step_outcome \<times> nat" where
  "sample_executor n m = (if m = SemanticVector then Success else NoMatch, n + 1)"

theorem plan_execution_exact_witness:
  "pe_answered_by (fst (execute_plan sample_executor (plan_query heuristics_default 0 ''who is ada'') 0)) = Some SemanticVector \<and>
   snd (last (pe_attempts (fst (execute_plan sample_executor (plan_query heuristics_default 0 ''who is ada'') 0)))) = Success"
proof -
  let ?x = "execute_plan sample_executor (plan_query heuristics_default 0 ''who is ada'') 0"
  have c: "classify ''who is ada'' = PointLookup" by code_simp
  have a: "pe_answered_by (fst ?x) = Some SemanticVector"
    by (simp add: execute_plan_def plan_query_def c chain_for_def heuristics_default_def retrieval_step_new_def sample_executor_def Let_def)
  then show ?thesis using plan_execution_exact [of sample_executor _ 0 "fst ?x" "snd ?x", OF prod.collapse [symmetric]] by simp
qed

definition sample_trace :: "uuid \<Rightarrow> workflow_trace" where
  "sample_trace i = recorder_finish i 0 (record_step GraphTraversal True 3 None (recorder_begin ''overview'' Holistic 7))"

definition sample_memory :: workflow_memory where
  "sample_memory = \<lparr>wm_traces = [1 \<mapsto> sample_trace 1, 2 \<mapsto> sample_trace 2], wm_patterns = Map.empty\<rparr>"

lemma sample_key: "trace_key (sample_trace i) = (Holistic, [GraphTraversal])"
  by (simp add: trace_key_def trace_prefix_def sample_trace_def recorder_finish_def record_step_def recorder_begin_def)

lemma sample_memory_facts:
  "\<forall>i t. wm_traces sample_memory i = Some t \<longrightarrow> wt_id t = i"
  "inj_on of_nat {..<card (trace_key ` ran (wm_traces sample_memory))}"
  "{i. \<exists>t. wm_traces sample_memory i = Some t \<and> trace_key t = trace_key (sample_trace 1)} = {1, 2}"
proof -
  show "\<forall>i t. wm_traces sample_memory i = Some t \<longrightarrow> wt_id t = i"
    by (simp add: sample_memory_def sample_trace_def recorder_finish_def)
  have "ran (wm_traces sample_memory) = {sample_trace 1, sample_trace 2}"
    by (simp add: sample_memory_def insert_commute)
  then have "trace_key ` ran (wm_traces sample_memory) = {(Holistic, [GraphTraversal])}" by (simp add: sample_key)
  then show "inj_on of_nat {..<card (trace_key ` ran (wm_traces sample_memory))}" by (simp add: lessThan_Suc)
  show "{i. \<exists>t. wm_traces sample_memory i = Some t \<and> trace_key t = trace_key (sample_trace 1)} = {1, 2}"
    by (auto simp: sample_memory_def sample_key)
qed


definition sample_pattern :: "uuid \<Rightarrow> nat \<Rightarrow> f64 \<Rightarrow> workflow_pattern" where
  "sample_pattern i n rate = \<lparr>wp_id = i, wp_class = Holistic, wp_steps = [Fts], wp_trace_ids = [], wp_support = n,
     wp_success_rate = rate, wp_updated_at = 0\<rparr>"

definition sample_patterns :: workflow_memory where
  "sample_patterns = \<lparr>wm_traces = Map.empty,
     wm_patterns = [1 \<mapsto> sample_pattern 1 9 f64_0_5, 2 \<mapsto> sample_pattern 2 1 f64_1]\<rparr>"

theorem best_pattern_correct_witness:
  "best_for (sorted_host :: nat host) sample_patterns Holistic = Some (sample_pattern 2 1 f64_1)"
proof -
  have r: "ran (wm_patterns sample_patterns) = {sample_pattern 1 9 f64_0_5, sample_pattern 2 1 f64_1}"
    by (simp add: sample_patterns_def insert_commute)
  have s: "wp_success_rate (sample_pattern i n x) = x" "wp_class (sample_pattern i n x) = Holistic" for i n x
    by (simp_all add: sample_pattern_def)
  have f: "\<not> f64_is_nan f64_0_5" "\<not> f64_is_nan f64_1" "\<not> f64_le f64_1 f64_0_5"
    by (simp_all add: f64_is_nan_def f64_le_def f64_key_def f64_mag_def f64_neg_def)
  have "\<forall>p \<in> ran (wm_patterns sample_patterns). \<not> f64_is_nan (wp_success_rate p)"
    unfolding r by (simp add: s f)
  note b = best_pattern_correct [of "sorted_host :: nat host", OF sorted_host_ok this, of Holistic, unfolded r]
  show ?thesis
  proof (cases "best_for (sorted_host :: nat host) sample_patterns Holistic")
    case None
    with b show ?thesis by (simp add: s)
  next
    case (Some p)
    with b show ?thesis by (auto simp: s f)
  qed
qed

end
