(* ===== verification/Reason_Thought.thy ===== *)
theory Reason_Thought
  imports Reason_Traversal Reason_Plan
begin

text \<open>
  Graph-of-thought reasoning (\<^verbatim>\<open>reasoning_engine/src/graph_of_thought.rs\<close>): the graph of thoughts, the
  two expanders (a table, and evidence from a traversal of the concept graph), the four strategies,
  the budgeted expansion loop, and the evaluation that enumerates, scores and sorts the paths from
  the root to the leaves. Fresh ids, the clocks and the rounding arithmetic are arguments; an expander
  threads a state of its own. The recursion that collects the paths is given the depth of the stack
  it may use, and \<open>None\<close> stands for a call that does not return.
\<close>

section \<open>Thoughts\<close>

datatype thought_type = Hypothesis | Evidence | Conclusion | Question | Refinement

datatype thought_edge = TeSupports | TeContradicts | TeRefines | TeDerives | TeAggregates

record thought_node =
  tn_id :: uuid
  tn_content :: string
  tn_type :: thought_type
  tn_confidence :: f64
  tn_parent_ids :: "uuid list"
  tn_scope_id :: uuid
  tn_created_at :: instant

definition thought_new :: "uuid \<Rightarrow> instant \<Rightarrow> string \<Rightarrow> thought_type \<Rightarrow> f64 \<Rightarrow> uuid \<Rightarrow> thought_node" where
  "thought_new i now content ty confidence scope =
     \<lparr>tn_id = i, tn_content = content, tn_type = ty, tn_confidence = f64_clamp confidence f64_0 f64_1, tn_parent_ids = [],
      tn_scope_id = scope, tn_created_at = now\<rparr>"

definition with_parents :: "uuid list \<Rightarrow> thought_node \<Rightarrow> thought_node" where
  "with_parents parents t = t\<lparr>tn_parent_ids := parents\<rparr>"

record thought_graph =
  tg_nodes :: "uuid \<rightharpoonup> thought_node"
  tg_children :: "uuid \<rightharpoonup> (uuid \<times> thought_edge) list"
  tg_order :: "uuid list"
  tg_root :: "uuid option"

definition thought_graph_new :: thought_graph where
  "thought_graph_new = \<lparr>tg_nodes = Map.empty, tg_children = Map.empty, tg_order = [], tg_root = None\<rparr>"

definition tg_len :: "thought_graph \<Rightarrow> nat" where
  "tg_len g = card (dom (tg_nodes g))"

definition tg_is_empty :: "thought_graph \<Rightarrow> bool" where
  "tg_is_empty g \<longleftrightarrow> tg_len g = 0"

definition tg_iter :: "thought_graph \<Rightarrow> thought_node list" where
  "tg_iter g = List.map_filter (tg_nodes g) (tg_order g)"

definition children_of :: "thought_graph \<Rightarrow> uuid \<Rightarrow> (uuid \<times> thought_edge) list" where
  "children_of g i = or_empty_list (tg_children g i)"

definition tg_add :: "thought_node \<Rightarrow> thought_graph \<Rightarrow> uuid \<times> thought_graph" where
  "tg_add t g =
     (tn_id t,
      if tg_nodes g (tn_id t) = None
      then g\<lparr>tg_order := tg_order g @ [tn_id t],
             tg_children := (tg_children g)(tn_id t \<mapsto> or_empty_list (tg_children g (tn_id t))),
             tg_nodes := (tg_nodes g)(tn_id t \<mapsto> t)\<rparr>
      else g)"

definition set_root :: "uuid \<Rightarrow> thought_graph \<Rightarrow> thought_graph" where
  "set_root i g = g\<lparr>tg_root := Some i\<rparr>"

datatype got_error = DanglingChild | ParentNotFound | EmptyGraph

definition push_child :: "uuid \<times> thought_edge \<Rightarrow> uuid \<Rightarrow> thought_graph \<Rightarrow> thought_graph" where
  "push_child ce parent g = g\<lparr>tg_children := (tg_children g)(parent \<mapsto> or_empty_list (tg_children g parent) @ [ce])\<rparr>"

definition connect_child :: "thought_node \<Rightarrow> thought_edge \<Rightarrow> thought_graph \<Rightarrow> (got_error + uuid) \<times> thought_graph" where
  "connect_child child edge g =
     (if tn_parent_ids child = [] then (Inl DanglingChild, g)
      else if \<exists>p \<in> set (tn_parent_ids child). tg_nodes g p = None then (Inl ParentNotFound, g)
      else (case tg_add child g of (i, g1) \<Rightarrow> (Inr i, fold (push_child (i, edge)) (tn_parent_ids child) g1)))"

section \<open>Queries, plans and results\<close>

datatype got_strategy = BreadthFirst | DepthFirst | BestFirst | Iterative

record got_query =
  gq_question :: string
  gq_scope :: uuid
  gq_strategy :: got_strategy
  gq_max_depth :: nat
  gq_max_branches :: nat
  gq_max_nodes :: nat

definition got_query_new :: "string \<Rightarrow> uuid \<Rightarrow> got_query" where
  "got_query_new question scope =
     \<lparr>gq_question = question, gq_scope = scope, gq_strategy = BestFirst, gq_max_depth = 3, gq_max_branches = 3, gq_max_nodes = 32\<rparr>"

definition with_strategy :: "got_strategy \<Rightarrow> got_query \<Rightarrow> got_query" where
  "with_strategy s q = q\<lparr>gq_strategy := s\<rparr>"

definition got_with_budget :: "nat \<Rightarrow> nat \<Rightarrow> nat \<Rightarrow> got_query \<Rightarrow> got_query" where
  "got_with_budget max_depth max_branches max_nodes q =
     q\<lparr>gq_max_depth := max_depth, gq_max_branches := max_branches, gq_max_nodes := max_nodes\<rparr>"

record got_plan =
  gp_root :: uuid
  gp_sub_questions :: "uuid list"

record scored_path =
  sp_thoughts :: "thought_node list"
  sp_score :: f64
  sp_ends_at_conclusion :: bool

record got_result =
  gr_best_path :: "thought_node list"
  gr_all_paths :: "scored_path list"
  gr_confidence :: f64
  gr_reasoning_trace :: "thought_node list"
  gr_budget_exhausted :: bool

section \<open>Expanders\<close>

text \<open>An expander answers a thought, its depth and a limit with children, and may change a state.\<close>

type_synonym 's expander = "'s \<Rightarrow> thought_node \<Rightarrow> nat \<Rightarrow> nat \<Rightarrow> (thought_node \<times> thought_edge) list \<times> 's"

text \<open>The table of \<^verbatim>\<open>StaticExpander\<close>.\<close>

type_synonym static_expander = "uuid \<rightharpoonup> (thought_node \<times> thought_edge) list"

definition static_register :: "uuid \<Rightarrow> (thought_node \<times> thought_edge) list \<Rightarrow> static_expander \<Rightarrow> static_expander" where
  "static_register parent children m = m(parent \<mapsto> children)"

definition static_expand :: "static_expander \<Rightarrow> 's expander" where
  "static_expand m s parent depth limit = (take limit (or_empty_list (m (tn_id parent))), s)"

record graph_expander =
  ge_graph :: concept_graph
  ge_seed :: uuid
  ge_edge_types :: "relation_type list"
  ge_scope :: uuid
  ge_budget :: traversal_budget

definition graph_expander_new :: "concept_graph \<Rightarrow> uuid \<Rightarrow> uuid \<Rightarrow> graph_expander" where
  "graph_expander_new g seed scope =
     \<lparr>ge_graph = g, ge_seed = seed, ge_edge_types = [], ge_scope = scope, ge_budget = traversal_budget_default\<rparr>"

definition ge_with_edge_types :: "relation_type list \<Rightarrow> graph_expander \<Rightarrow> graph_expander" where
  "ge_with_edge_types types ge = ge\<lparr>ge_edge_types := types\<rparr>"

definition ge_with_budget :: "traversal_budget \<Rightarrow> graph_expander \<Rightarrow> graph_expander" where
  "ge_with_budget b ge = ge\<lparr>ge_budget := b\<rparr>"

definition ge_query :: "graph_expander \<Rightarrow> traversal_query" where
  "ge_query ge =
     (let q = query_with_scopes [ge_scope ge] (with_direction Outgoing (explore (ge_seed ge))) in
      if ge_edge_types ge \<noteq> [] then with_edge_types (ge_edge_types ge) q else q)"

definition ge_traversal :: "graph_expander \<Rightarrow> graph_traversal" where
  "ge_traversal ge = with_budget (ge_budget ge) (graph_traversal_new (ge_graph ge))"

text \<open>
  The arithmetic of the scores: a sum over a slice and \<^verbatim>\<open>powi\<close> come with the operations of the traversal.
\<close>

record got_math = f64_math +
  f_sum :: "f64 list \<Rightarrow> f64"
  f_powi :: "f64 \<Rightarrow> int \<Rightarrow> f64"

definition ge_run :: "f64_math \<Rightarrow> traversal_env \<Rightarrow> graph_expander \<Rightarrow> traversal_result" where
  "ge_run fm x ge = traversal_run fm x (ge_traversal ge) (ge_query ge)"

text \<open>The host of a session: the ids and the clock of the minted thoughts, and the clocks of the traversals.\<close>

record got_host =
  gh_ids :: "nat \<Rightarrow> uuid"
  gh_now :: "nat \<Rightarrow> instant"
  gh_trav :: "nat \<Rightarrow> traversal_env"

text \<open>How many ids were minted and how many traversals were run.\<close>

record minted =
  mt_ids :: nat
  mt_calls :: nat

definition evidence_thought :: "f64_math \<Rightarrow> got_host \<Rightarrow> graph_expander \<Rightarrow> thought_node \<Rightarrow> nat \<Rightarrow> uuid \<Rightarrow> thought_node" where
  "evidence_thought fm h ge parent n node_id =
     (let label = (case get_node (ge_graph ge) node_id of None \<Rightarrow> uuid_display node_id | Some c \<Rightarrow> cn_label c);
          confidence = f64_clamp (f_mul fm (tn_confidence parent) f64_0_9) f64_0 f64_1
      in with_parents [tn_id parent]
           (thought_new (gh_ids h n) (gh_now h n) (''Concept-graph evidence: '' @ label) Evidence confidence (ge_scope ge)))"

definition graph_expand :: "f64_math \<Rightarrow> got_host \<Rightarrow> graph_expander \<Rightarrow> minted expander" where
  "graph_expand fm h ge s parent depth limit =
     (let result = ge_run fm (gh_trav h (mt_calls s)) ge;
          ns = take limit (filter (\<lambda>i. i \<noteq> ge_seed ge) (tr_visited result))
      in (map (\<lambda>(j, i). (evidence_thought fm h ge parent (mt_ids s + j) i, TeSupports)) (enumerate 0 ns),
          s\<lparr>mt_ids := mt_ids s + length ns, mt_calls := mt_calls s + 1\<rparr>))"

section \<open>Scores\<close>

abbreviation f64_0_95 :: f64 where "f64_0_95 \<equiv> 0x3FEE666666666666"
abbreviation f64_neg_inf :: f64 where "f64_neg_inf \<equiv> 0xFFF0000000000000"

definition ends_at_conclusion :: "thought_node list \<Rightarrow> bool" where
  "ends_at_conclusion path \<longleftrightarrow> path \<noteq> [] \<and> tn_type (last path) = Conclusion"

definition default_score :: "got_math \<Rightarrow> thought_node list \<Rightarrow> f64" where
  "default_score fm path =
     (if path = [] then f64_0
      else
        (let avg = f_div fm (f_sum fm (map tn_confidence path)) (f_of_int fm (int (length path)));
             depth_exp = min (int (length path) - 1) (2 ^ 31 - 1);
             score = f_mul fm avg (f_powi fm f64_0_95 depth_exp)
         in if ends_at_conclusion path then f64_min (f_add fm score f64_0_1) f64_1 else score))"

section \<open>Planning\<close>

definition got_root :: "uuid \<Rightarrow> instant \<Rightarrow> got_query \<Rightarrow> thought_node" where
  "got_root i now q = thought_new i now (gq_question q) Question f64_1 (gq_scope q)"

definition got_plan_root :: "uuid \<Rightarrow> instant \<Rightarrow> got_query \<Rightarrow> thought_graph \<Rightarrow> got_plan \<times> thought_graph" where
  "got_plan_root i now q g =
     (case tg_add (got_root i now q) g of (r, g1) \<Rightarrow> (\<lparr>gp_root = r, gp_sub_questions = []\<rparr>, set_root r g1))"

text \<open>The sub-questions, with the ids and clock readings from \<open>n\<close> on; a failing one ends the call.\<close>

fun add_subquestions :: "(nat \<Rightarrow> uuid) \<Rightarrow> (nat \<Rightarrow> instant) \<Rightarrow> uuid \<Rightarrow> uuid \<Rightarrow> nat \<Rightarrow> string list \<Rightarrow> uuid list \<Rightarrow>
    thought_graph \<Rightarrow> (got_error + uuid list) \<times> thought_graph" where
  "add_subquestions ids now root scope n [] subs g = (Inr subs, g)"
| "add_subquestions ids now root scope n (q # qs) subs g =
     (case connect_child (with_parents [root] (thought_new (ids n) (now n) q Question f64_0_9 scope)) TeRefines g of
        (Inl e, g1) \<Rightarrow> (Inl e, g1)
      | (Inr i, g1) \<Rightarrow> add_subquestions ids now root scope (n + 1) qs (subs @ [i]) g1)"

definition plan_with_subquestions :: "(nat \<Rightarrow> uuid) \<Rightarrow> (nat \<Rightarrow> instant) \<Rightarrow> got_query \<Rightarrow> string list \<Rightarrow> thought_graph \<Rightarrow>
    (got_error + got_plan) \<times> thought_graph" where
  "plan_with_subquestions ids now q qs g =
     (case got_plan_root (ids 0) (now 0) q g of (plan, g1) \<Rightarrow>
        (case add_subquestions ids now (gp_root plan) (gq_scope q) 1 qs [] g1 of
           (Inl e, g2) \<Rightarrow> (Inl e, g2)
         | (Inr subs, g2) \<Rightarrow> (Inr \<lparr>gp_root = gp_root plan, gp_sub_questions = subs\<rparr>, g2)))"

section \<open>Expansion\<close>

type_synonym frontier = "(uuid \<times> nat) list"

fun best_first_loop :: "thought_graph \<Rightarrow> nat \<Rightarrow> frontier \<Rightarrow> nat \<Rightarrow> f64 \<Rightarrow> nat" where
  "best_first_loop g i [] best_idx best_conf = best_idx"
| "best_first_loop g i ((t, d) # rest) best_idx best_conf =
     (case tg_nodes g t of
        Some n \<Rightarrow>
          if f64_lt best_conf (tn_confidence n) then best_first_loop g (i + 1) rest i (tn_confidence n)
          else best_first_loop g (i + 1) rest best_idx best_conf
      | None \<Rightarrow> best_first_loop g (i + 1) rest best_idx best_conf)"

fun iterative_loop :: "thought_graph \<Rightarrow> nat \<Rightarrow> nat \<Rightarrow> frontier \<Rightarrow> nat option \<Rightarrow> f64 \<Rightarrow> nat option" where
  "iterative_loop g min_depth i [] best_idx best_conf = best_idx"
| "iterative_loop g min_depth i ((t, d) # rest) best_idx best_conf =
     (if d \<noteq> min_depth then iterative_loop g min_depth (i + 1) rest best_idx best_conf
      else
        (let conf = (case tg_nodes g t of Some n \<Rightarrow> tn_confidence n | None \<Rightarrow> f64_neg_inf) in
         if best_idx = None \<or> f64_lt best_conf conf then iterative_loop g min_depth (i + 1) rest (Some i) conf
         else iterative_loop g min_depth (i + 1) rest best_idx best_conf))"

text \<open>\<^verbatim>\<open>VecDeque::remove\<close>: nothing when the index is out of range.\<close>

definition deque_remove :: "nat \<Rightarrow> 'a list \<Rightarrow> ('a \<times> 'a list) option" where
  "deque_remove i xs = (if i < length xs then Some (xs ! i, remove_at i xs) else None)"

definition pop_next :: "got_strategy \<Rightarrow> thought_graph \<Rightarrow> frontier \<Rightarrow> ((uuid \<times> nat) \<times> frontier) option" where
  "pop_next strategy g frontier =
     (case strategy of
        BreadthFirst \<Rightarrow> deque_remove 0 frontier
      | DepthFirst \<Rightarrow> if frontier = [] then None else Some (last frontier, butlast frontier)
      | BestFirst \<Rightarrow> if frontier = [] then None else deque_remove (best_first_loop g 0 frontier 0 f64_neg_inf) frontier
      | Iterative \<Rightarrow> if frontier = [] then None
          else Option.bind (iterative_loop g (Min (snd ` set frontier)) 0 frontier None f64_neg_inf) (\<lambda>i. deque_remove i frontier))"

text \<open>The children of one thought; the flag tells that the node budget ended the expansion.\<close>

fun add_children :: "got_query \<Rightarrow> uuid \<Rightarrow> nat \<Rightarrow> nat \<Rightarrow> (thought_node \<times> thought_edge) list \<Rightarrow> thought_graph \<Rightarrow> frontier \<Rightarrow>
    bool \<times> thought_graph \<times> frontier" where
  "add_children q node_id depth kept [] g frontier = (False, g, frontier)"
| "add_children q node_id depth kept ((child, edge) # cs) g frontier =
     (if gq_max_branches q \<le> kept then (False, g, frontier)
      else if gq_max_nodes q \<le> tg_len g then (True, g, frontier)
      else
        (let child1 = (if tn_parent_ids child = [] then with_parents [node_id] child else child) in
         case connect_child child1 edge g of
           (Inl e, g1) \<Rightarrow> add_children q node_id depth kept cs g1 frontier
         | (Inr i, g1) \<Rightarrow> add_children q node_id depth (kept + 1) cs g1 (frontier @ [(i, depth + 1)])))"

lemma best_first_loop_bound:
  "best_idx < i + length xs \<Longrightarrow> best_first_loop g i xs best_idx best_conf < i + length xs"
  by (induction g i xs best_idx best_conf rule: best_first_loop.induct) (auto split: option.splits)

lemma iterative_loop_bound:
  assumes "pred_option (\<lambda>b. b < i + length xs) best_idx"
  shows "pred_option (\<lambda>b. b < i + length xs) (iterative_loop g md i xs best_idx best_conf)"
  using assms
proof (induction g md i xs best_idx best_conf rule: iterative_loop.induct)
  case (2 g md i t d rest best_idx best_conf)
  then show ?case by (cases best_idx) (auto simp: Let_def split: option.splits)
qed simp

lemma iterative_loop_some:
  "best_idx \<noteq> None \<or> md \<in> snd ` set xs \<Longrightarrow> iterative_loop g md i xs best_idx best_conf \<noteq> None"
  by (induction g md i xs best_idx best_conf rule: iterative_loop.induct) (auto simp: Let_def split: option.splits)

lemma deque_remove_mset: "deque_remove i xs = Some (x, ys) \<Longrightarrow> mset xs = add_mset x (mset ys)"
proof -
  assume "deque_remove i xs = Some (x, ys)"
  then have i: "i < length xs" "x = xs ! i" "ys = take i xs @ drop (Suc i) xs"
    by (auto simp: deque_remove_def remove_at_def split: if_splits)
  have "mset xs = mset (take i xs @ xs ! i # drop (Suc i) xs)" using i(1) by (simp add: id_take_nth_drop [symmetric])
  then show ?thesis using i by simp
qed

text \<open>Whatever the strategy, an element of the frontier is taken out, unless the frontier is empty.\<close>

lemma pop_next_mset:
  assumes "pop_next s g xs = Some (x, ys)"
  shows "mset xs = add_mset x (mset ys)"
proof (cases "s = DepthFirst")
  case True
  then show ?thesis using assms by (cases xs rule: rev_cases) (auto simp: pop_next_def)
next
  case False
  then obtain i where "deque_remove i xs = Some (x, ys)"
    using assms by (auto simp: pop_next_def bind_eq_Some_conv split: got_strategy.splits if_splits)
  then show ?thesis by (rule deque_remove_mset)
qed

lemma pop_next_None: "pop_next s g xs = None \<longleftrightarrow> xs = []"
proof (cases "xs = []")
  case True
  then show ?thesis by (simp add: pop_next_def deque_remove_def split: got_strategy.splits)
next
  case False
  have "best_first_loop g 0 xs 0 f64_neg_inf < length xs" using best_first_loop_bound [of 0 0 xs g f64_neg_inf] False by simp
  moreover have "Min (snd ` set xs) \<in> snd ` set xs" using False by (intro Min_in) auto
  then obtain i where "iterative_loop g (Min (snd ` set xs)) 0 xs None f64_neg_inf = Some i"
    using iterative_loop_some [of None "Min (snd ` set xs)" xs g 0 f64_neg_inf] by blast
  moreover from this have "i < length xs" using iterative_loop_bound [of 0 xs None g "Min (snd ` set xs)" f64_neg_inf] by simp
  ultimately show ?thesis using False by (simp add: pop_next_def deque_remove_def split: got_strategy.splits)
qed

text \<open>The work left: a thought at depth \<open>d\<close> may have \<open>max_branches\<close> children at every further depth.\<close>

definition got_work :: "got_query \<Rightarrow> frontier \<Rightarrow> nat" where
  "got_work q xs = sum_list (map (\<lambda>e. (gq_max_branches q + 1) ^ (gq_max_depth q - snd e)) xs)"

lemma got_work_mset: "mset xs = add_mset x (mset ys) \<Longrightarrow>
    got_work q xs = (gq_max_branches q + 1) ^ (gq_max_depth q - snd x) + got_work q ys"
  unfolding got_work_def by (simp flip: sum_mset_sum_list)

lemma add_children_work:
  assumes "add_children q i d kept cs g xs = (full, g1, ys)" and "kept \<le> gq_max_branches q"
  shows "got_work q ys \<le> got_work q xs + (gq_max_branches q - kept) * (gq_max_branches q + 1) ^ (gq_max_depth q - Suc d)"
  using assms
proof (induction q i d kept cs g xs rule: add_children.induct)
  case (2 q i d kept child edge cs g xs)
  let ?c = "if tn_parent_ids child = [] then with_parents [i] child else child"
  show ?case
  proof (cases "gq_max_branches q \<le> kept \<or> gq_max_nodes q \<le> tg_len g")
    case False
    obtain r g2 where r: "connect_child ?c edge g = (r, g2)" by force
    show ?thesis
    proof (cases r)
      case (Inl e)
      then show ?thesis using 2 False r by (simp add: Let_def)
    next
      case (Inr j)
      have "got_work q ys \<le> got_work q (xs @ [(j, d + 1)]) + (gq_max_branches q - (kept + 1)) * (gq_max_branches q + 1) ^ (gq_max_depth q - Suc d)"
        using 2 False r Inr by (simp add: Let_def)
      moreover have "gq_max_branches q - kept = Suc (gq_max_branches q - (kept + 1))" using False by linarith
      ultimately show ?thesis by (simp add: got_work_def)
    qed
  qed (use 2(3) in \<open>auto split: if_splits\<close>)
qed simp

lemma got_work_step:
  assumes "mset xs = add_mset (i, d) (mset ys)" and "d < gq_max_depth q" and "add_children q j d 0 cs g ys = (full, g1, zs)"
  shows "got_work q zs < got_work q xs"
proof -
  have le: "got_work q zs \<le> got_work q ys + gq_max_branches q * (gq_max_branches q + 1) ^ (gq_max_depth q - Suc d)"
    using add_children_work [OF assms(3)] by simp
  have "gq_max_depth q - d = Suc (gq_max_depth q - Suc d)" using assms(2) by simp
  then have "got_work q xs = (gq_max_branches q + 1) ^ (gq_max_depth q - Suc d) +
      gq_max_branches q * (gq_max_branches q + 1) ^ (gq_max_depth q - Suc d) + got_work q ys"
    using got_work_mset [OF assms(1), of q] by simp
  moreover have "0 < (gq_max_branches q + 1) ^ (gq_max_depth q - Suc d)" by simp
  ultimately show ?thesis using le by linarith
qed

lemma got_work_pop: "pop_next s g xs = Some (x, ys) \<Longrightarrow> got_work q ys < got_work q xs"
  using got_work_mset [OF pop_next_mset, of s g xs x ys q] by simp

text \<open>The loop of \<^verbatim>\<open>run_expansion\<close>.\<close>

function expansion_loop :: "'s expander \<Rightarrow> got_query \<Rightarrow> frontier \<Rightarrow> thought_graph \<Rightarrow> 's \<Rightarrow> bool \<times> thought_graph \<times> 's" where
  "expansion_loop expander q frontier g s =
     (case pop_next (gq_strategy q) g frontier of
        None \<Rightarrow> (False, g, s)
      | Some ((node_id, depth), rest) \<Rightarrow>
          if gq_max_depth q \<le> depth then expansion_loop expander q rest g s
          else if gq_max_nodes q \<le> tg_len g then (True, g, s)
          else (case tg_nodes g node_id of
                  None \<Rightarrow> expansion_loop expander q rest g s
                | Some parent \<Rightarrow>
                    (case expander s parent depth (gq_max_branches q) of (children, s1) \<Rightarrow>
                       (case add_children q node_id depth 0 children g rest of (full, g1, frontier1) \<Rightarrow>
                          if full then (True, g1, s1) else expansion_loop expander q frontier1 g1 s1))))"
  by pat_completeness auto
termination expansion_loop
proof (relation "measure (\<lambda>(expander, q, frontier, g, s). got_work q frontier)", goal_cases)
  case 1
  then show ?case by simp
next
  case (2 expander q frontier g s x2 a rest node_id depth)
  then show ?case using got_work_pop [of "gq_strategy q" g frontier a rest q] by simp
next
  case (3 expander q frontier g s x2 a rest node_id depth)
  then show ?case using got_work_pop [of "gq_strategy q" g frontier a rest q] by simp
next
  case (4 expander q frontier g s x2 a rest node_id depth parent children s1 full yc g1 frontier1)
  then have "pop_next (gq_strategy q) g frontier = Some ((node_id, depth), rest)" "depth < gq_max_depth q"
    "add_children q node_id depth 0 children g rest = (full, g1, frontier1)" by simp_all
  from got_work_step [OF pop_next_mset [OF this(1)] this(2,3)] show ?case by simp
qed

declare expansion_loop.simps [simp del]

definition run_expansion :: "'s expander \<Rightarrow> got_plan \<Rightarrow> got_query \<Rightarrow> thought_graph \<Rightarrow> 's \<Rightarrow> bool \<times> thought_graph \<times> 's" where
  "run_expansion expander plan q g s =
     expansion_loop expander q ((gp_root plan, 0) # map (\<lambda>sub. (sub, 1)) (gp_sub_questions plan)) g s"

section \<open>Evaluation\<close>

text \<open>
  The paths below a thought; \<open>stack\<close> is the depth of recursion left. The list of the current path is
  pushed before and popped after the recursion, so the calls pass it as a value.
\<close>

fun fold_option :: "('a \<Rightarrow> 'b \<Rightarrow> 'b option) \<Rightarrow> 'a list \<Rightarrow> 'b \<Rightarrow> 'b option" where
  "fold_option f [] y = Some y"
| "fold_option f (x # xs) y = (case f x y of None \<Rightarrow> None | Some z \<Rightarrow> fold_option f xs z)"

fun collect_paths :: "nat \<Rightarrow> thought_graph \<Rightarrow> uuid \<Rightarrow> thought_node list \<Rightarrow> scored_path list \<Rightarrow> scored_path list option" where
  "collect_paths 0 g node_id current out = None"
| "collect_paths (Suc stack) g node_id current out =
     (case tg_nodes g node_id of
        None \<Rightarrow> Some out
      | Some n \<Rightarrow>
          (let current1 = current @ [n]; kids = children_of g node_id in
           if kids = [] then Some (out @ [\<lparr>sp_thoughts = current1, sp_score = f64_0, sp_ends_at_conclusion = False\<rparr>])
           else fold_option (\<lambda>kid. collect_paths stack g (fst kid) current1) kids out))"

definition score_path :: "got_math \<Rightarrow> scored_path \<Rightarrow> scored_path" where
  "score_path fm p = p\<lparr>sp_score := default_score fm (sp_thoughts p), sp_ends_at_conclusion := ends_at_conclusion (sp_thoughts p)\<rparr>"

text \<open>
  The stable sort by descending score: on scores that are not NaN \<^verbatim>\<open>partial_cmp\<close> is the order of the
  keys. The result is \<open>None\<close> when the call does not return: the recursion exceeds the stack, or the
  graph has thoughts but neither a root nor an order.
\<close>

definition got_evaluate :: "got_math \<Rightarrow> nat \<Rightarrow> thought_graph \<Rightarrow> (got_error + got_result) option" where
  "got_evaluate fm stack g =
     (if tg_is_empty g then Some (Inl EmptyGraph)
      else
        Option.bind (case tg_root g of Some r \<Rightarrow> Some r | None \<Rightarrow> (case tg_order g of [] \<Rightarrow> None | i # _ \<Rightarrow> Some i)) (\<lambda>root.
        Option.bind (collect_paths stack g root [] []) (\<lambda>collected.
          let paths = sort_key (\<lambda>p. - f64_key (sp_score p)) (map (score_path fm) collected) in
          Some (Inr
            \<lparr>gr_best_path = (case paths of [] \<Rightarrow> [] | p # _ \<Rightarrow> sp_thoughts p),
             gr_all_paths = paths,
             gr_confidence = (case paths of [] \<Rightarrow> f64_0 | p # _ \<Rightarrow> sp_score p),
             gr_reasoning_trace = tg_iter g, gr_budget_exhausted = False\<rparr>))))"

definition execute_from_plan :: "got_math \<Rightarrow> nat \<Rightarrow> 's expander \<Rightarrow> got_plan \<Rightarrow> got_query \<Rightarrow> thought_graph \<Rightarrow> 's \<Rightarrow>
    (got_error + got_result) option \<times> thought_graph \<times> 's" where
  "execute_from_plan fm stack expander plan q g s =
     (case run_expansion expander plan q g s of (exhausted, g1, s1) \<Rightarrow>
        (map_option (map_sum id (\<lambda>r. r\<lparr>gr_budget_exhausted := exhausted\<rparr>)) (got_evaluate fm stack g1), g1, s1))"

definition got_execute :: "got_math \<Rightarrow> nat \<Rightarrow> uuid \<Rightarrow> instant \<Rightarrow> 's expander \<Rightarrow> got_query \<Rightarrow> 's \<Rightarrow>
    (got_error + thought_graph \<times> got_result) option \<times> 's" where
  "got_execute fm stack i now expander q s =
     (case got_plan_root i now q thought_graph_new of (plan, g) \<Rightarrow>
        (case execute_from_plan fm stack expander plan q g s of (r, g1, s1) \<Rightarrow>
           (map_option (map_sum id (\<lambda>res. (g1, res))) r, s1)))"

definition record_got_trace :: "uuid \<Rightarrow> instant \<Rightarrow> got_query \<Rightarrow> got_result \<Rightarrow> workflow_memory \<Rightarrow> uuid \<times> workflow_memory" where
  "record_got_trace i now q res m =
     workflow_record (recorder_finish i now
       (record_step GraphTraversal (ends_at_conclusion (gr_best_path res)) 0
          (Some (''GoT: '' @ nat_display (length (gr_reasoning_trace res)) @ '' thoughts, '' @
             nat_display (length (gr_all_paths res)) @ '' paths''))
          (recorder_begin (gq_question q) Holistic (gq_scope q)))) m"

section \<open>Well-formed graphs\<close>

text \<open>The position of a thought in the order of insertion.\<close>

definition tg_rank :: "thought_graph \<Rightarrow> uuid \<Rightarrow> nat" where
  "tg_rank g i = length (takeWhile (\<lambda>j. j \<noteq> i) (tg_order g))"

text \<open>
  A well-formed graph lists its thoughts once in insertion order, its edges lead from an earlier to a
  later thought, every thought is below the parents it declares, and only the root declares none.
\<close>

definition tg_ok :: "thought_graph \<Rightarrow> bool" where
  "tg_ok g \<longleftrightarrow> distinct (tg_order g) \<and> set (tg_order g) = dom (tg_nodes g) \<and>
     (\<forall>i n. tg_nodes g i = Some n \<longrightarrow> tn_id n = i \<and> set (tn_parent_ids n) \<subseteq> dom (tg_nodes g) \<and>
        (\<forall>p \<in> set (tn_parent_ids n). i \<in> fst ` set (children_of g p)) \<and> (tn_parent_ids n = [] \<longleftrightarrow> tg_root g = Some i)) \<and>
     (\<forall>p. \<forall>ce \<in> set (children_of g p). p \<in> dom (tg_nodes g) \<and> fst ce \<in> dom (tg_nodes g) \<and> tg_rank g p < tg_rank g (fst ce))"

lemma tg_okD:
  assumes "tg_ok g"
  shows "distinct (tg_order g)" "set (tg_order g) = dom (tg_nodes g)" "tg_nodes g i = Some n \<Longrightarrow> tn_id n = i"
    "tg_nodes g i = Some n \<Longrightarrow> set (tn_parent_ids n) \<subseteq> dom (tg_nodes g)"
    "tg_nodes g i = Some n \<Longrightarrow> p \<in> set (tn_parent_ids n) \<Longrightarrow> i \<in> fst ` set (children_of g p)"
    "tg_nodes g i = Some n \<Longrightarrow> tn_parent_ids n = [] \<longleftrightarrow> tg_root g = Some i"
    "ce \<in> set (children_of g p) \<Longrightarrow> fst ce \<in> dom (tg_nodes g)"
    "ce \<in> set (children_of g p) \<Longrightarrow> tg_rank g p < tg_rank g (fst ce)"
  using assms unfolding tg_ok_def by blast+

lemma takeWhile_neq_length: "i \<in> set xs \<Longrightarrow> length (takeWhile (\<lambda>j. j \<noteq> i) xs) < length xs"
  by (induction xs) auto

lemma tg_rank_bound: "tg_ok g \<Longrightarrow> i \<in> dom (tg_nodes g) \<Longrightarrow> tg_rank g i < length (tg_order g)"
  unfolding tg_rank_def tg_okD(2) [symmetric] by (rule takeWhile_neq_length)

lemma tg_len_order: "tg_ok g \<Longrightarrow> tg_len g = length (tg_order g)"
  unfolding tg_len_def using tg_okD(1,2) [of g] distinct_card by metis

lemma push_children:
  "tg_nodes (fold (push_child ce) ps g) = tg_nodes g" "tg_order (fold (push_child ce) ps g) = tg_order g"
  "tg_root (fold (push_child ce) ps g) = tg_root g"
  "set (children_of (fold (push_child ce) ps g) p) = set (children_of g p) \<union> (if p \<in> set ps then {ce} else {})"
  by (induction ps arbitrary: g) (auto simp: push_child_def children_of_def)

text \<open>A new thought below thoughts of the graph.\<close>

lemma connect_child_fresh:
  assumes "tg_nodes g (tn_id c) = None" and "tg_ok g" and "connect_child c edge g = (Inr i, g1)"
  shows "i = tn_id c" "tg_nodes g1 = (tg_nodes g)(tn_id c \<mapsto> c)" "tg_order g1 = tg_order g @ [tn_id c]" "tg_root g1 = tg_root g"
    "set (children_of g1 p) = set (children_of g p) \<union> (if p \<in> set (tn_parent_ids c) then {(tn_id c, edge)} else {})"
    "tn_parent_ids c \<noteq> []" "set (tn_parent_ids c) \<subseteq> dom (tg_nodes g)"
proof -
  let ?g = "snd (tg_add c g)"
  have g: "tg_nodes ?g = (tg_nodes g)(tn_id c \<mapsto> c)" "tg_order ?g = tg_order g @ [tn_id c]" "tg_root ?g = tg_root g"
    "children_of ?g p = children_of g p" using assms(1) by (simp_all add: tg_add_def children_of_def)
  have r: "i = tn_id c" "g1 = fold (push_child (tn_id c, edge)) (tn_parent_ids c) ?g" "tn_parent_ids c \<noteq> []"
    "set (tn_parent_ids c) \<subseteq> dom (tg_nodes g)"
    using assms(3) by (auto simp: connect_child_def tg_add_def split: if_splits)
  show "i = tn_id c" "tn_parent_ids c \<noteq> []" "set (tn_parent_ids c) \<subseteq> dom (tg_nodes g)" by (fact r)+
  show "tg_nodes g1 = (tg_nodes g)(tn_id c \<mapsto> c)" "tg_order g1 = tg_order g @ [tn_id c]" "tg_root g1 = tg_root g"
    "set (children_of g1 p) = set (children_of g p) \<union> (if p \<in> set (tn_parent_ids c) then {(tn_id c, edge)} else {})"
    unfolding r(2) push_children g by (rule refl)+
qed

lemma connect_child_Inl: "connect_child c edge g = (Inl e, g1) \<Longrightarrow> g1 = g"
  by (auto simp: connect_child_def tg_add_def split: if_splits)

lemma tg_rank_append:
  "tg_order g1 = tg_order g @ [j] \<Longrightarrow> i \<in> set (tg_order g) \<Longrightarrow> tg_rank g1 i = tg_rank g i"
  "tg_order g1 = tg_order g @ [j] \<Longrightarrow> j \<notin> set (tg_order g) \<Longrightarrow> tg_rank g1 j = length (tg_order g)"
proof -
  assume o: "tg_order g1 = tg_order g @ [j]"
  show "tg_rank g1 i = tg_rank g i" if "i \<in> set (tg_order g)"
    unfolding tg_rank_def o by (subst takeWhile_append1 [OF that]) simp_all
  show "tg_rank g1 j = length (tg_order g)" if "j \<notin> set (tg_order g)"
    unfolding tg_rank_def o by (subst takeWhile_append2) (use that in auto)
qed

lemma connect_child_edges:
  assumes "tg_nodes g (tn_id c) = None" and "tg_ok g" and "connect_child c edge g = (Inr i, g1)" and "ce \<in> set (children_of g1 p)"
  shows "p \<in> dom (tg_nodes g1) \<and> fst ce \<in> dom (tg_nodes g1) \<and> tg_rank g1 p < tg_rank g1 (fst ce)"
proof -
  note n = connect_child_fresh [OF assms(1-3)] and o = tg_okD(2) [OF assms(2)]
  have new: "tn_id c \<notin> set (tg_order g)" using assms(1) unfolding o by blast
  have rank: "tg_rank g1 i = tg_rank g i" if "i \<in> dom (tg_nodes g)" for i
    using that unfolding o [symmetric] by (rule tg_rank_append(1) [OF n(3)])
  have d: "dom (tg_nodes g1) = insert (tn_id c) (dom (tg_nodes g))" unfolding n(2) by simp
  show ?thesis
  proof (cases "ce \<in> set (children_of g p)")
    case True
    then have "p \<in> dom (tg_nodes g)" "fst ce \<in> dom (tg_nodes g)" "tg_rank g p < tg_rank g (fst ce)"
      using assms(2) unfolding tg_ok_def by blast+
    then show ?thesis unfolding d using rank by simp
  next
    case False
    then have ce: "ce = (tn_id c, edge)" "p \<in> set (tn_parent_ids c)" using assms(4) unfolding n(5) by (auto split: if_splits)
    then have p: "p \<in> dom (tg_nodes g)" using n(7) by blast
    have "tg_rank g1 p < length (tg_order g)" unfolding rank [OF p] by (rule tg_rank_bound [OF assms(2) p])
    then show ?thesis unfolding d ce(1) fst_conv tg_rank_append(2) [OF n(3) new] using p by blast
  qed
qed

lemma connect_child_nodes:
  assumes "tg_nodes g (tn_id c) = None" and "tg_ok g" and "connect_child c edge g = (Inr j, g1)"
    and "tg_root g \<noteq> Some (tn_id c)" and "tg_nodes g1 i = Some n"
  shows "tn_id n = i \<and> set (tn_parent_ids n) \<subseteq> dom (tg_nodes g1) \<and>
      (\<forall>p \<in> set (tn_parent_ids n). i \<in> fst ` set (children_of g1 p)) \<and> (tn_parent_ids n = [] \<longleftrightarrow> tg_root g1 = Some i)"
proof -
  note c = connect_child_fresh [OF assms(1-3)]
  have d: "dom (tg_nodes g) \<subseteq> dom (tg_nodes g1)" unfolding c(2) by auto
  show ?thesis
  proof (cases "i = tn_id c")
    case True
    then have "n = c" using assms(5) unfolding c(2) by simp
    then show ?thesis using True c(6,7) d assms(4) unfolding c(4) c(5) by simp
  next
    case False
    then have n: "tg_nodes g i = Some n" using assms(5) unfolding c(2) by simp
    note o = tg_okD(3-6) [OF assms(2) n]
    have "\<forall>p \<in> set (tn_parent_ids n). i \<in> fst ` set (children_of g1 p)" using o(3) unfolding c(5) image_Un by blast
    then show ?thesis using o(1,2,4) d unfolding c(4) by blast
  qed
qed

lemma connect_child_ok:
  assumes "tg_nodes g (tn_id c) = None" and "tg_ok g" and "connect_child c edge g = (Inr j, g1)"
    and "tg_root g \<noteq> Some (tn_id c)"
  shows "tg_ok g1"
proof -
  note c = connect_child_fresh [OF assms(1-3)] and o = tg_okD(1,2) [OF assms(2)]
  have "distinct (tg_order g1)" "set (tg_order g1) = dom (tg_nodes g1)"
    using assms(1) o unfolding c(2,3) by auto
  then show ?thesis unfolding tg_ok_def
    using connect_child_nodes [OF assms] connect_child_edges [OF assms(1-3)] by blast
qed

text \<open>Adding the children a fresh offer names.\<close>

definition offer_fresh :: "uuid set \<Rightarrow> thought_node \<Rightarrow> (thought_node \<times> thought_edge) list \<Rightarrow> bool" where
  "offer_fresh used parent cs \<longleftrightarrow> distinct (map (tn_id \<circ> fst) cs) \<and> (tn_id \<circ> fst) ` set cs \<inter> used = {} \<and>
     (\<forall>c \<in> set cs. tn_id parent \<in> set (tn_parent_ids (fst c)))"

lemma add_children_ok:
  assumes "add_children q i d kept cs g xs = (full, g1, ys)" and "tg_ok g" and "offer_fresh (dom (tg_nodes g)) parent cs"
    and "tg_root g = Some r" "r \<in> dom (tg_nodes g)" and "tg_len g \<le> max m (gq_max_nodes q)"
  shows "tg_ok g1 \<and> tg_root g1 = Some r \<and> r \<in> dom (tg_nodes g1) \<and> tg_len g1 \<le> max m (gq_max_nodes q) \<and>
    dom (tg_nodes g1) \<subseteq> dom (tg_nodes g) \<union> (tn_id \<circ> fst) ` set cs \<and> ran (tg_nodes g1) \<subseteq> ran (tg_nodes g) \<union> fst ` set cs"
  using assms
proof (induction q i d kept cs g xs rule: add_children.induct)
  case (2 q i d kept child edge cs g xs)
  show ?case
  proof (cases "gq_max_branches q \<le> kept \<or> gq_max_nodes q \<le> tg_len g")
    case True
    then have "g1 = g" using "2.prems"(1) by (auto split: if_splits)
    then show ?thesis using "2.prems" by blast
  next
    case False
    have f: "tg_nodes g (tn_id child) = None" "tn_parent_ids child \<noteq> []" "offer_fresh (dom (tg_nodes g)) parent cs"
      using "2.prems"(3) by (auto simp: offer_fresh_def)
    obtain res g2 where c: "connect_child child edge g = (res, g2)" by (cases "connect_child child edge g")
    show ?thesis
    proof (cases res)
      case (Inl e)
      then have "g2 = g" using connect_child_Inl c by blast
      then show ?thesis using "2.IH"(1) [OF _ _ refl, of res g2 e] "2.prems" c Inl False f by (simp add: Let_def) blast
    next
      case (Inr j)
      note n = connect_child_fresh [OF f(1) "2.prems"(2) c [unfolded Inr]]
      have ok: "tg_ok g2" by (rule connect_child_ok [OF f(1) "2.prems"(2) c [unfolded Inr]]) (use "2.prems"(4,5) f(1) in auto)
      have root: "tg_root g2 = Some r" "r \<in> dom (tg_nodes g2)" using "2.prems"(4,5) unfolding n(2,4) by auto
      have "offer_fresh (dom (tg_nodes g2)) parent cs" using "2.prems"(3) unfolding n(2) by (auto simp: offer_fresh_def)
      moreover have "tg_len g2 = Suc (tg_len g)" using f(1) unfolding tg_len_def n(2) by (simp add: domIff)
      then have "tg_len g2 \<le> max m (gq_max_nodes q)" using False by linarith
      moreover have "add_children q i d (kept + 1) cs g2 (xs @ [(j, d + 1)]) = (full, g1, ys)"
        using "2.prems"(1) False f(2) c Inr by (simp add: Let_def)
      ultimately have "tg_ok g1 \<and> tg_root g1 = Some r \<and> r \<in> dom (tg_nodes g1) \<and> tg_len g1 \<le> max m (gq_max_nodes q) \<and>
          dom (tg_nodes g1) \<subseteq> dom (tg_nodes g2) \<union> (tn_id \<circ> fst) ` set cs \<and> ran (tg_nodes g1) \<subseteq> ran (tg_nodes g2) \<union> fst ` set cs"
        using "2.IH"(2) [OF _ _ refl, of res g2 j] ok root c Inr False f(2) by (simp add: Let_def)
      then show ?thesis unfolding n(2) using f(1) by auto
    qed
  qed
qed auto


section \<open>Expanders with fresh ids\<close>

text \<open>
  What the executor needs of an expander: as long as there is room, the thoughts it offers have new ids,
  are offered below the thought that is expanded, and are good. \<open>issued\<close> are the ids that were used
  before, \<open>room\<close> is the number of ids that are still new.
\<close>

locale fresh_expander =
  fixes expander :: "'s expander" and issued :: "'s \<Rightarrow> uuid set" and room :: "'s \<Rightarrow> nat" and good :: "thought_node \<Rightarrow> bool"
  assumes offers: "expander s parent depth limit = (cs, s1) \<Longrightarrow> limit \<le> room s \<Longrightarrow>
      offer_fresh (issued s) parent cs \<and> (\<forall>c \<in> set cs. good (fst c))"
    and issues: "expander s parent depth limit = (cs, s1) \<Longrightarrow> issued s \<union> (tn_id \<circ> fst) ` set cs \<subseteq> issued s1"
    and uses: "expander s parent depth limit = (cs, s1) \<Longrightarrow> room s \<le> room s1 + limit"
begin

definition expansion_inv :: "nat \<Rightarrow> uuid \<Rightarrow> got_query \<Rightarrow> thought_graph \<Rightarrow> 's \<Rightarrow> bool" where
  "expansion_inv m r q g s \<longleftrightarrow> tg_ok g \<and> tg_root g = Some r \<and> r \<in> dom (tg_nodes g) \<and> tg_len g \<le> max m (gq_max_nodes q) \<and>
     dom (tg_nodes g) \<subseteq> issued s"

lemma step_inv:
  assumes "expansion_inv m r q g s" and "expander s parent depth (gq_max_branches q) = (cs, s1)" and "gq_max_branches q \<le> room s"
    and "add_children q i depth 0 cs g xs = (full, g1, ys)"
  shows "expansion_inv m r q g1 s1" and "ran (tg_nodes g1) \<subseteq> ran (tg_nodes g) \<union> Collect good"
proof -
  have inv: "tg_ok g" "tg_root g = Some r" "r \<in> dom (tg_nodes g)" "tg_len g \<le> max m (gq_max_nodes q)" "dom (tg_nodes g) \<subseteq> issued s"
    using assms(1) unfolding expansion_inv_def by blast+
  note o = offers [OF assms(2,3)]
  have "offer_fresh (dom (tg_nodes g)) parent cs" using o inv(5) unfolding offer_fresh_def by blast
  note a = add_children_ok [OF assms(4) inv(1) this inv(2-4)]
  show "expansion_inv m r q g1 s1" using a inv(5) issues [OF assms(2)] unfolding expansion_inv_def by blast
  show "ran (tg_nodes g1) \<subseteq> ran (tg_nodes g) \<union> Collect good" using a o by blast
qed

lemma expansion_loop_inv:
  assumes "expansion_inv m r q g s" and "got_work q xs * gq_max_branches q \<le> room s"
    and "expansion_loop expander q xs g s = (full, g1, s1)"
  shows "expansion_inv m r q g1 s1 \<and> ran (tg_nodes g1) \<subseteq> ran (tg_nodes g) \<union> Collect good"
  using assms
proof (induction "got_work q xs" arbitrary: xs g s rule: less_induct)
  case less
  show ?case
  proof (cases "pop_next (gq_strategy q) g xs")
    case None
    then show ?thesis using less.prems by (simp add: expansion_loop.simps [of _ _ xs])
  next
    case (Some x)
    obtain i d rest where x: "x = ((i, d), rest)" by (cases x) auto
    note pop = Some [unfolded x]
    have w: "got_work q rest < got_work q xs" by (rule got_work_pop [OF pop])
    have r: "got_work q rest * gq_max_branches q \<le> room s" using w less.prems(2) mult_le_mono1 [of "got_work q rest" "got_work q xs" "gq_max_branches q"] by linarith
    consider (skip) "gq_max_depth q \<le> d \<or> \<not> gq_max_nodes q \<le> tg_len g \<and> tg_nodes g i = None"
      | (full) "d < gq_max_depth q" "gq_max_nodes q \<le> tg_len g"
      | (expand) parent where "d < gq_max_depth q" "\<not> gq_max_nodes q \<le> tg_len g" "tg_nodes g i = Some parent"
      by (meson not_le not_None_eq)
    then show ?thesis
    proof cases
      case skip
      then have "expansion_loop expander q rest g s = (full, g1, s1)"
        using less.prems(3) pop by (subst (asm) expansion_loop.simps) (auto split: if_splits)
      then show ?thesis by (rule less.hyps [OF w less.prems(1) r])
    next
      case full
      then have "g1 = g" "s1 = s" using less.prems(3) pop by (subst (asm) expansion_loop.simps, simp)+
      then show ?thesis using less.prems(1) by simp
    next
      case expand
      obtain cs s2 where e: "expander s parent d (gq_max_branches q) = (cs, s2)" by force
      obtain f g2 ys where c: "add_children q i d 0 cs g rest = (f, g2, ys)" by (cases "add_children q i d 0 cs g rest") auto
      have wy: "Suc (got_work q ys) \<le> got_work q xs" using got_work_step [OF pop_next_mset [OF pop] expand(1) c] by simp
      have ry: "got_work q ys * gq_max_branches q + gq_max_branches q \<le> room s"
        using mult_le_mono1 [OF wy, of "gq_max_branches q"] less.prems(2) by simp
      then have l: "gq_max_branches q \<le> room s" by simp
      note st = step_inv [OF less.prems(1) e l c]
      have eq: "(full, g1, s1) = (if f then (True, g2, s2) else expansion_loop expander q ys g2 s2)"
        using less.prems(3) pop expand e c by (subst (asm) expansion_loop.simps) simp
      show ?thesis
      proof (cases f)
        case True
        then show ?thesis using eq st by simp
      next
        case False
        have "expansion_loop expander q ys g2 s2 = (full, g1, s1)" using eq False by simp
        moreover have "got_work q ys * gq_max_branches q \<le> room s2" using ry uses [OF e] by linarith
        moreover have "got_work q ys < got_work q xs" using wy by simp
        ultimately show ?thesis using less.hyps [of ys g2 s2] st by blast
      qed
    qed
  qed
qed

end

section \<open>Paths\<close>

text \<open>The paths from a thought to the leaves below it.\<close>

inductive leaf_path :: "thought_graph \<Rightarrow> uuid \<Rightarrow> thought_node list \<Rightarrow> bool" for g where
  leaf: "tg_nodes g i = Some n \<Longrightarrow> children_of g i = [] \<Longrightarrow> leaf_path g i [n]"
| inner: "tg_nodes g i = Some n \<Longrightarrow> ce \<in> set (children_of g i) \<Longrightarrow> leaf_path g (fst ce) ns \<Longrightarrow> leaf_path g i (n # ns)"

inductive_cases leaf_pathE: "leaf_path g i ns"

lemma leaf_paths_eq:
  assumes "tg_nodes g i = Some n"
  shows "{ns. leaf_path g i ns} =
    (if children_of g i = [] then {[n]} else (\<Union>ce \<in> set (children_of g i). (#) n ` {ns. leaf_path g (fst ce) ns}))"
proof (cases "children_of g i = []")
  case True
  then show ?thesis using assms by (auto elim: leaf_pathE intro: leaf_path.intros)
next
  case False
  have "leaf_path g i ns \<longleftrightarrow> (\<exists>ce \<in> set (children_of g i). \<exists>ms. ns = n # ms \<and> leaf_path g (fst ce) ms)" for ns
    using assms False by (metis leaf_path.simps option.inject)
  then show ?thesis using False by auto
qed

lemma fold_option_appends:
  assumes "\<And>x y. x \<in> set xs \<Longrightarrow> \<exists>zs. f x y = Some (y @ zs) \<and> sp_thoughts ` set zs = P x"
  shows "\<exists>zs. fold_option f xs y = Some (y @ zs) \<and> sp_thoughts ` set zs = (\<Union>x \<in> set xs. P x)"
  using assms
proof (induction xs arbitrary: y)
  case (Cons x xs)
  obtain zs where z: "f x y = Some (y @ zs)" "sp_thoughts ` set zs = P x" using Cons.prems [of x y] by auto
  obtain ws where w: "fold_option f xs (y @ zs) = Some ((y @ zs) @ ws)" "sp_thoughts ` set ws = (\<Union>x \<in> set xs. P x)"
    using Cons.IH [of "y @ zs"] Cons.prems by auto
  then show ?case using z by (intro exI [of _ "zs @ ws"]) (simp add: image_Un)
qed simp

text \<open>On a well-formed graph the recursion is no deeper than the graph has thoughts, and collects every path.\<close>

lemma collect_paths_exact:
  assumes "tg_ok g" and "tg_nodes g i = Some n" and "length (tg_order g) \<le> stack + tg_rank g i"
  shows "\<exists>zs. collect_paths stack g i current out = Some (out @ zs) \<and> sp_thoughts ` set zs = (@) current ` {ns. leaf_path g i ns}"
  using assms(2,3)
proof (induction stack arbitrary: i n current out)
  case 0
  then show ?case using tg_rank_bound [OF assms(1), of i] by auto
next
  case (Suc stack)
  show ?case
  proof (cases "children_of g i = []")
    case True
    then show ?thesis using Suc.prems(1) leaf_paths_eq [OF Suc.prems(1)] by simp
  next
    case False
    have "\<exists>zs. collect_paths stack g (fst ce) (current @ [n]) y = Some (y @ zs) \<and>
        sp_thoughts ` set zs = (@) (current @ [n]) ` {ns. leaf_path g (fst ce) ns}" if ce: "ce \<in> set (children_of g i)" for ce y
    proof -
      obtain m where m: "tg_nodes g (fst ce) = Some m" using tg_okD(7) [OF assms(1) ce] by auto
      have "length (tg_order g) \<le> stack + tg_rank g (fst ce)" using tg_okD(8) [OF assms(1) ce] Suc.prems(2) by linarith
      then show ?thesis by (rule Suc.IH [OF m])
    qed
    then obtain zs where "fold_option (\<lambda>kid. collect_paths stack g (fst kid) (current @ [n])) (children_of g i) out = Some (out @ zs)"
      "sp_thoughts ` set zs = (\<Union>ce \<in> set (children_of g i). (@) (current @ [n]) ` {ns. leaf_path g (fst ce) ns})"
      using fold_option_appends [of "children_of g i" "\<lambda>kid. collect_paths stack g (fst kid) (current @ [n])"
        "\<lambda>ce. (@) (current @ [n]) ` {ns. leaf_path g (fst ce) ns}" out] by blast
    then show ?thesis using Suc.prems(1) False leaf_paths_eq [OF Suc.prems(1)]
      by (simp add: image_UN image_image)
  qed
qed

lemma leaf_path_exists:
  assumes "tg_ok g" and "tg_nodes g i = Some n"
  shows "\<exists>ns. leaf_path g i (n # ns)"
  using assms(2)
proof (induction "length (tg_order g) - tg_rank g i" arbitrary: i n rule: less_induct)
  case less
  show ?case
  proof (cases "children_of g i")
    case Nil
    then show ?thesis using less.prems leaf_path.leaf by blast
  next
    case (Cons ce ces)
    then have ce: "ce \<in> set (children_of g i)" by simp
    obtain m where m: "tg_nodes g (fst ce) = Some m" using tg_okD(7) [OF assms(1) ce] by auto
    have "length (tg_order g) - tg_rank g (fst ce) < length (tg_order g) - tg_rank g i"
      using tg_okD(8) [OF assms(1) ce] tg_rank_bound [OF assms(1) tg_okD(7) [OF assms(1) ce]] by linarith
    from less.hyps [OF this m] show ?thesis using leaf_path.inner [OF less.prems ce] by blast
  qed
qed

text \<open>Every thought is on some path from the root.\<close>

lemma thought_on_root_path:
  assumes "tg_ok g" and "tg_root g = Some r" and "tg_nodes g i = Some n" and "leaf_path g i ns"
  shows "\<exists>ms. leaf_path g r ms \<and> set ns \<subseteq> set ms"
  using assms(3,4)
proof (induction "tg_rank g i" arbitrary: i n ns rule: less_induct)
  case less
  show ?case
  proof (cases "tn_parent_ids n")
    case Nil
    then have "i = r" using tg_okD(6) [OF assms(1) less.prems(1)] assms(2) by simp
    then show ?thesis using less.prems(2) by blast
  next
    case (Cons p ps)
    then have "p \<in> set (tn_parent_ids n)" by simp
    from tg_okD(5) [OF assms(1) less.prems(1) this] tg_okD(4) [OF assms(1) less.prems(1)] this
    obtain ce m where ce: "ce \<in> set (children_of g p)" "fst ce = i" "tg_nodes g p = Some m" by auto
    have "leaf_path g p (m # ns)" using leaf_path.inner [OF ce(3,1)] less.prems(2) ce(2) by simp
    moreover have "tg_rank g p < tg_rank g i" using tg_okD(8) [OF assms(1) ce(1)] ce(2) by simp
    ultimately obtain ms where "leaf_path g r ms" "set (m # ns) \<subseteq> set ms" using less.hyps ce(3) by blast
    then show ?thesis by auto
  qed
qed


section \<open>Evaluation of well-formed graphs\<close>

lemma score_path_eq:
  "score_path fm p = \<lparr>sp_thoughts = sp_thoughts p, sp_score = default_score fm (sp_thoughts p),
     sp_ends_at_conclusion = ends_at_conclusion (sp_thoughts p)\<rparr>"
  by (simp add: score_path_def)

definition evaluated :: "got_math \<Rightarrow> thought_graph \<Rightarrow> uuid \<Rightarrow> got_result \<Rightarrow> bool" where
  "evaluated fm g r res \<longleftrightarrow>
     sp_thoughts ` set (gr_all_paths res) = {ns. leaf_path g r ns} \<and>
     (\<forall>p \<in> set (gr_all_paths res). sp_score p = default_score fm (sp_thoughts p) \<and>
        sp_ends_at_conclusion p = ends_at_conclusion (sp_thoughts p)) \<and>
     sorted_wrt (\<lambda>p p'. f64_key (sp_score p') \<le> f64_key (sp_score p)) (gr_all_paths res) \<and>
     gr_all_paths res \<noteq> [] \<and> gr_best_path res = sp_thoughts (hd (gr_all_paths res)) \<and>
     gr_confidence res = sp_score (hd (gr_all_paths res)) \<and>
     set (gr_reasoning_trace res) = ran (tg_nodes g)"

lemma got_evaluate_exact:
  assumes "tg_ok g" and "tg_root g = Some r" and "r \<in> dom (tg_nodes g)" and "tg_len g \<le> stack"
  shows "\<exists>res. got_evaluate fm stack g = Some (Inr res) \<and> evaluated fm g r res \<and> \<not> gr_budget_exhausted res"
proof -
  obtain n where n: "tg_nodes g r = Some n" using assms(3) by auto
  have "length (tg_order g) \<le> stack + tg_rank g r" using assms(4) tg_len_order [OF assms(1)] by simp
  from collect_paths_exact [OF assms(1) n this, of "[]" "[]"]
  obtain zs where z: "collect_paths stack g r [] [] = Some zs" "sp_thoughts ` set zs = {ns. leaf_path g r ns}" by auto
  let ?ps = "sort_key (\<lambda>p. - f64_key (sp_score p)) (map (score_path fm) zs)"
  have "zs \<noteq> []" using z(2) leaf_path_exists [OF assms(1) n] by auto
  then have ne: "?ps \<noteq> []" by (metis length_0_conv length_map length_sort)
  then obtain p qs where pq: "?ps = p # qs" by (cases ?ps) auto
  have ev: "got_evaluate fm stack g = Some (Inr \<lparr>gr_best_path = sp_thoughts p, gr_all_paths = ?ps, gr_confidence = sp_score p,
      gr_reasoning_trace = tg_iter g, gr_budget_exhausted = False\<rparr>)"
    using assms(2,3) z(1) pq by (auto simp: got_evaluate_def tg_is_empty_def tg_len_def Let_def)
  have "sorted_wrt (\<le>) (map (\<lambda>p. - f64_key (sp_score p)) ?ps)" by simp
  then have "sorted_wrt (\<lambda>p p'. f64_key (sp_score p') \<le> f64_key (sp_score p)) ?ps" by (simp add: sorted_wrt_map del: sorted_sort_key)
  moreover have "sp_thoughts ` set ?ps = {ns. leaf_path g r ns}" using z(2) by (simp add: image_image score_path_eq)
  moreover have "set (tg_iter g) = ran (tg_nodes g)"
    using tg_okD(2) [OF assms(1)] by (force simp: tg_iter_def map_filter_def ran_def dom_def image_iff)
  moreover have "\<forall>p \<in> set ?ps. sp_score p = default_score fm (sp_thoughts p) \<and>
      sp_ends_at_conclusion p = ends_at_conclusion (sp_thoughts p)" by (simp add: score_path_eq)
  ultimately show ?thesis using ev unfolding pq by (simp add: evaluated_def)
qed


section \<open>Reasoning grounded in the concept graph\<close>

text \<open>
  Evidence is grounded: it names a concept other than the seed that edges of the expander's scope and
  relations connect with the seed within the hops.
\<close>

definition grounded :: "graph_expander \<Rightarrow> thought_node \<Rightarrow> bool" where
  "grounded ge t \<longleftrightarrow> tn_type t = Evidence \<and> tn_scope_id t = ge_scope ge \<and>
     (graph_reachable (ge_graph ge) \<longrightarrow>
        (\<exists>i c. i \<noteq> ge_seed ge \<and> i \<in> ball (query_edges (ge_graph ge) (ge_query ge)) (ge_seed ge) (tb_max_hops (ge_budget ge)) \<and>
           get_node (ge_graph ge) i = Some c \<and> tn_content t = ''Concept-graph evidence: '' @ cn_label c))"

lemma query_edge_nodes: "graph_inv g \<Longrightarrow> (u, v) \<in> query_edges g q \<Longrightarrow> v \<in> dom (cg_nodes g)"
  unfolding query_edges_def graph_inv_def by (cases "tq_direction q") (auto split: if_splits; blast)+

lemma reached_node_exists:
  assumes "graph_inv g" and "i \<in> ball (query_edges g q) u n" and "i \<noteq> u"
  shows "get_node g i \<noteq> None"
proof -
  obtain k where k: "(u, i) \<in> query_edges g q ^^ k" using assms(2) unfolding ball_def by blast
  then have "k \<noteq> 0" using assms(3) by (cases k) auto
  then obtain j where "k = Suc j" by (cases k) auto
  then obtain w where "(w, i) \<in> query_edges g q" using k by auto
  then show ?thesis using query_edge_nodes [OF assms(1)] by (auto simp: get_node_def)
qed

lemma ge_run_visited:
  assumes "graph_reachable (ge_graph ge)" and "i \<in> set (tr_visited (ge_run fm x ge))"
  shows "i \<in> ball (query_edges (ge_graph ge) (ge_query ge)) (ge_seed ge) (tb_max_hops (ge_budget ge))"
proof -
  have e: "gt_graph (ge_traversal ge) = ge_graph ge" "gt_budget (ge_traversal ge) = ge_budget ge" "tq_start (ge_query ge) = ge_seed ge"
    by (simp_all add: ge_traversal_def with_budget_def graph_traversal_new_def ge_query_def explore_def with_direction_def
        query_with_scopes_def with_edge_types_def Let_def)
  have "set (tr_visited (ge_run fm x ge)) \<subseteq>
      ball (query_edges (gt_graph (ge_traversal ge)) (ge_query ge)) (tq_start (ge_query ge)) (tb_max_hops (gt_budget (ge_traversal ge)))"
    using traversal_is_sound [of "ge_traversal ge" "ge_run fm x ge" fm x "ge_query ge"] assms(1) unfolding e(1) ge_run_def by blast
  then show ?thesis using assms(2) unfolding e by blast
qed

lemma evidence_sel:
  "tn_id (evidence_thought fm h ge parent n i) = gh_ids h n" "tn_parent_ids (evidence_thought fm h ge parent n i) = [tn_id parent]"
  by (simp_all add: evidence_thought_def with_parents_def thought_new_def Let_def)

lemma evidence_grounded:
  assumes "i \<in> set (tr_visited (ge_run fm x ge))" and "i \<noteq> ge_seed ge"
  shows "grounded ge (evidence_thought fm h ge parent n i)"
proof -
  have "\<exists>c. get_node (ge_graph ge) i = Some c" if "graph_reachable (ge_graph ge)"
    using reached_node_exists [OF graph_reachable_inv [OF that] ge_run_visited [OF that assms(1)] assms(2)] by blast
  then have "\<exists>c. get_node (ge_graph ge) i = Some c \<and>
      tn_content (evidence_thought fm h ge parent n i) = ''Concept-graph evidence: '' @ cn_label c" if "graph_reachable (ge_graph ge)"
    using that by (auto simp: evidence_thought_def with_parents_def thought_new_def Let_def)
  moreover have "tn_type (evidence_thought fm h ge parent n i) = Evidence" "tn_scope_id (evidence_thought fm h ge parent n i) = ge_scope ge"
    by (simp_all add: evidence_thought_def with_parents_def thought_new_def Let_def)
  ultimately show ?thesis using assms(2) ge_run_visited [OF _ assms(1)] unfolding grounded_def by blast
qed

definition ids_issued :: "got_host \<Rightarrow> minted \<Rightarrow> uuid set" where
  "ids_issued h s = gh_ids h ` {..<mt_ids s}"

text \<open>The first \<open>N\<close> ids of the host have to be different for any of them to be known as new.\<close>

definition ids_room :: "got_host \<Rightarrow> nat \<Rightarrow> minted \<Rightarrow> nat" where
  "ids_room h N s = (if inj_on (gh_ids h) {..<N} then N - mt_ids s else 0)"

lemma graph_expand_offer:
  assumes "graph_expand fm h ge s parent depth limit = (cs, s1)"
  obtains ns where "length ns \<le> limit" "set ns \<subseteq> set (tr_visited (ge_run fm (gh_trav h (mt_calls s)) ge)) - {ge_seed ge}"
    "cs = map (\<lambda>(j, i). (evidence_thought fm h ge parent (mt_ids s + j) i, TeSupports)) (enumerate 0 ns)"
    "mt_ids s1 = mt_ids s + length ns"
proof
  let ?ns = "take limit (filter (\<lambda>i. i \<noteq> ge_seed ge) (tr_visited (ge_run fm (gh_trav h (mt_calls s)) ge)))"
  show "length ?ns \<le> limit" by simp
  show "set ?ns \<subseteq> set (tr_visited (ge_run fm (gh_trav h (mt_calls s)) ge)) - {ge_seed ge}" by (auto dest: in_set_takeD)
  show "cs = map (\<lambda>(j, i). (evidence_thought fm h ge parent (mt_ids s + j) i, TeSupports)) (enumerate 0 ?ns)"
    "mt_ids s1 = mt_ids s + length ?ns" using assms by (auto simp: graph_expand_def Let_def)
qed

lemma enumerate_ids:
  "map (tn_id \<circ> fst) (map (\<lambda>(j, i). (evidence_thought fm h ge parent (m + j) i, TeSupports)) (enumerate 0 ns)) =
   map (gh_ids h) [m..<m + length ns]"
proof -
  have "map (tn_id \<circ> fst) (map (\<lambda>(j, i). (evidence_thought fm h ge parent (m + j) i, TeSupports)) (enumerate 0 ns)) =
      map (\<lambda>j. gh_ids h (m + j)) (map fst (enumerate 0 ns))"
    unfolding map_map by (rule map_cong) (auto simp: evidence_sel)
  also have "\<dots> = map (gh_ids h) [m..<m + length ns]"
    using arg_cong [OF map_add_upt [of m "length ns"], of "map (gh_ids h)"] by (simp add: add.commute comp_def)
  finally show ?thesis .
qed

lemma offer_below:
  assumes "set ns \<subseteq> set (tr_visited (ge_run fm x ge)) - {ge_seed ge}"
    and "c \<in> set (map (\<lambda>(j, i). (evidence_thought fm h ge parent (m + j) i, TeSupports)) (enumerate 0 ns))"
  shows "tn_id parent \<in> set (tn_parent_ids (fst c)) \<and> grounded ge (fst c)"
proof -
  obtain j i where c: "c = (evidence_thought fm h ge parent (m + j) i, TeSupports)" "(j, i) \<in> set (enumerate 0 ns)" using assms(2) by auto
  from c(2) have "i \<in> set ns" by (auto simp: in_set_enumerate_eq)
  then have "grounded ge (evidence_thought fm h ge parent (m + j) i)" using assms(1) by (intro evidence_grounded) auto
  then show ?thesis unfolding c(1) by (simp add: evidence_sel)
qed

lemma fresh_ids:
  assumes "k \<le> ids_room h N s"
  shows "distinct (map (gh_ids h) [mt_ids s..<mt_ids s + k])" "gh_ids h ` {mt_ids s..<mt_ids s + k} \<inter> ids_issued h s = {}"
proof -
  have "inj_on (gh_ids h) {..<mt_ids s + k} \<or> k = 0"
    using assms unfolding ids_room_def by (auto split: if_splits intro: inj_on_subset)
  moreover have "gh_ids h ` {mt_ids s..<mt_ids s + k} \<inter> gh_ids h ` {..<mt_ids s} = {}" if "inj_on (gh_ids h) {..<mt_ids s + k}"
    by (subst inj_on_image_Int [OF that, symmetric]) auto
  moreover have "inj_on (gh_ids h) {mt_ids s..<mt_ids s + k}" if "inj_on (gh_ids h) {..<mt_ids s + k}"
    by (rule inj_on_subset [OF that]) auto
  ultimately show "distinct (map (gh_ids h) [mt_ids s..<mt_ids s + k])" "gh_ids h ` {mt_ids s..<mt_ids s + k} \<inter> ids_issued h s = {}"
    by (auto simp: distinct_map ids_issued_def)
qed

interpretation grounding: fresh_expander "graph_expand fm h ge" "ids_issued h" "ids_room h N" "grounded ge" for fm h ge N
proof
  fix s parent depth limit cs s1
  assume e: "graph_expand fm h ge s parent depth limit = (cs, s1)"
  obtain ns where ns: "length ns \<le> limit"
    "set ns \<subseteq> set (tr_visited (ge_run fm (gh_trav h (mt_calls s)) ge)) - {ge_seed ge}"
    "cs = map (\<lambda>(j, i). (evidence_thought fm h ge parent (mt_ids s + j) i, TeSupports)) (enumerate 0 ns)"
    "mt_ids s1 = mt_ids s + length ns" using e by (rule graph_expand_offer)
  have ids: "map (tn_id \<circ> fst) cs = map (gh_ids h) [mt_ids s..<mt_ids s + length ns]" unfolding ns(3) by (rule enumerate_ids)
  have set_ids: "(tn_id \<circ> fst) ` set cs = gh_ids h ` {mt_ids s..<mt_ids s + length ns}"
    using arg_cong [OF ids, of set] unfolding list.set_map set_upt .
  show "ids_issued h s \<union> (tn_id \<circ> fst) ` set cs \<subseteq> ids_issued h s1" unfolding set_ids ids_issued_def ns(4) by auto
  show "ids_room h N s \<le> ids_room h N s1 + limit" using ns(1) unfolding ids_room_def ns(4) by (simp, arith)
  assume "limit \<le> ids_room h N s"
  then have "length ns \<le> ids_room h N s" using ns(1) by simp
  from fresh_ids [OF this] show "offer_fresh (ids_issued h s) parent cs \<and> (\<forall>c \<in> set cs. grounded ge (fst c))"
    using offer_below [OF ns(2)] unfolding offer_fresh_def ids set_ids unfolding ns(3) by blast
qed


lemma root_graph:
  assumes "got_plan_root i now q thought_graph_new = (plan, g)"
  shows "plan = \<lparr>gp_root = i, gp_sub_questions = []\<rparr>" "tg_nodes g = [i \<mapsto> got_root i now q]" "tg_root g = Some i" "tg_ok g"
proof -
  have t: "tn_id (got_root i now q) = i" "tn_parent_ids (got_root i now q) = []" by (simp_all add: got_root_def thought_new_def)
  have g: "g = \<lparr>tg_nodes = [i \<mapsto> got_root i now q], tg_children = [i \<mapsto> []], tg_order = [i], tg_root = Some i\<rparr>"
    and p: "plan = \<lparr>gp_root = i, gp_sub_questions = []\<rparr>"
    using assms t(1) by (auto simp: got_plan_root_def tg_add_def thought_graph_new_def set_root_def)
  show "plan = \<lparr>gp_root = i, gp_sub_questions = []\<rparr>" by (rule p)
  have "children_of g j = []" for j unfolding g by (simp add: children_of_def)
  then show "tg_nodes g = [i \<mapsto> got_root i now q]" "tg_root g = Some i" "tg_ok g"
    unfolding tg_ok_def by (simp_all add: g t)
qed

lemma grounded_expansion:
  assumes "inj_on (gh_ids h) {..< 1 + (gq_max_branches q + 1) ^ gq_max_depth q * gq_max_branches q}"
    and p: "got_plan_root (gh_ids h 0) now q thought_graph_new = (plan, g0)"
    and x: "run_expansion (graph_expand fm h ge) plan q g0 \<lparr>mt_ids = 1, mt_calls = 0\<rparr> = (full, g, s2)"
  shows "tg_ok g" "tg_root g = Some (gh_ids h 0)" "gh_ids h 0 \<in> dom (tg_nodes g)" "tg_len g \<le> max 1 (gq_max_nodes q)"
    "ran (tg_nodes g) \<subseteq> {got_root (gh_ids h 0) now q} \<union> Collect (grounded ge)"
proof -
  let ?N = "1 + (gq_max_branches q + 1) ^ gq_max_depth q * gq_max_branches q" and ?s = "\<lparr>mt_ids = 1, mt_calls = 0\<rparr>" and ?r = "gh_ids h 0"
  note g0 = root_graph [OF p]
  have "grounding.expansion_inv h 1 ?r q g0 ?s"
    using g0(3,4) unfolding grounding.expansion_inv_def ids_issued_def tg_len_def g0(2) by auto
  moreover have "got_work q [(?r, 0)] * gq_max_branches q \<le> ids_room h ?N ?s"
    using assms(1) by (simp add: got_work_def ids_room_def)
  moreover have "expansion_loop (graph_expand fm h ge) q [(?r, 0)] g0 ?s = (full, g, s2)"
    using x unfolding run_expansion_def g0(1) by simp
  ultimately have "grounding.expansion_inv h 1 ?r q g s2 \<and> ran (tg_nodes g) \<subseteq> ran (tg_nodes g0) \<union> Collect (grounded ge)"
    by (rule grounding.expansion_loop_inv)
  then show "tg_ok g" "tg_root g = Some ?r" "?r \<in> dom (tg_nodes g)" "tg_len g \<le> max 1 (gq_max_nodes q)"
    "ran (tg_nodes g) \<subseteq> {got_root ?r now q} \<union> Collect (grounded ge)"
    unfolding grounding.expansion_inv_def g0(2) by auto
qed

lemma evaluated_covers:
  assumes "evaluated gm g r res" and "tg_ok g" and "tg_root g = Some r"
  shows "\<forall>p \<in> set (gr_all_paths res). f64_key (sp_score p) \<le> f64_key (default_score gm (gr_best_path res))"
    and "gr_best_path res \<in> sp_thoughts ` set (gr_all_paths res)"
    and "\<forall>t \<in> ran (tg_nodes g). \<exists>p \<in> set (gr_all_paths res). t \<in> set (sp_thoughts p)"
proof -
  have all: "sp_thoughts ` set (gr_all_paths res) = {ns. leaf_path g r ns}" "gr_all_paths res \<noteq> []"
    "gr_best_path res = sp_thoughts (hd (gr_all_paths res))"
    "\<forall>p \<in> set (gr_all_paths res). sp_score p = default_score gm (sp_thoughts p)"
    "sorted_wrt (\<lambda>p p'. f64_key (sp_score p') \<le> f64_key (sp_score p)) (gr_all_paths res)"
    using assms(1) by (auto simp: evaluated_def)
  show "\<forall>p \<in> set (gr_all_paths res). f64_key (sp_score p) \<le> f64_key (default_score gm (gr_best_path res))"
    using all(2-5) by (cases "gr_all_paths res") auto
  show "gr_best_path res \<in> sp_thoughts ` set (gr_all_paths res)" using all(2,3) by simp
  show "\<forall>t \<in> ran (tg_nodes g). \<exists>p \<in> set (gr_all_paths res). t \<in> set (sp_thoughts p)"
  proof
    fix t assume "t \<in> ran (tg_nodes g)"
    then obtain i where i: "tg_nodes g i = Some t" by (auto simp: ran_def)
    from leaf_path_exists [OF assms(2) i] obtain ns where "leaf_path g i (t # ns)" by blast
    from thought_on_root_path [OF assms(2,3) i this] obtain ms where "leaf_path g r ms" "t \<in> set ms" by auto
    moreover from this(1) have "ms \<in> sp_thoughts ` set (gr_all_paths res)" unfolding all(1) by simp
    ultimately show "\<exists>p \<in> set (gr_all_paths res). t \<in> set (sp_thoughts p)" by auto
  qed
qed

text \<open>
  C38. Reasoning grounded in the concept graph returns: with distinct ids and a stack as deep as the node
  budget, the call gives a graph within the node budget and its result lists exactly the paths from
  the question to the leaves with their scores; every thought is on such a path, the best path has
  the largest score, and every thought but the question is evidence for a concept that edges of the
  scope connect with the seed.
\<close>

theorem grounded_reasoning_exact:
  assumes "graph_reachable (ge_graph ge)"
    and "inj_on (gh_ids h) {..< 1 + (gq_max_branches q + 1) ^ gq_max_depth q * gq_max_branches q}"
    and "max 1 (gq_max_nodes q) \<le> stack"
    and "got_execute gm stack (gh_ids h 0) now (graph_expand fm h ge) q \<lparr>mt_ids = 1, mt_calls = 0\<rparr> = (r, s1)"
  shows "\<exists>g res. r = Some (Inr (g, res)) \<and> tg_len g \<le> max 1 (gq_max_nodes q) \<and>
    sp_thoughts ` set (gr_all_paths res) = {ns. leaf_path g (gh_ids h 0) ns} \<and>
    (\<forall>p \<in> set (gr_all_paths res). sp_score p = default_score gm (sp_thoughts p) \<and>
       f64_key (sp_score p) \<le> f64_key (default_score gm (gr_best_path res))) \<and>
    gr_best_path res \<in> sp_thoughts ` set (gr_all_paths res) \<and>
    (\<forall>t \<in> ran (tg_nodes g). (\<exists>p \<in> set (gr_all_paths res). t \<in> set (sp_thoughts p)) \<and>
       (t = got_root (gh_ids h 0) now q \<or> tn_type t = Evidence \<and> tn_scope_id t = ge_scope ge \<and>
        (\<exists>i c. i \<noteq> ge_seed ge \<and> i \<in> ball (query_edges (ge_graph ge) (ge_query ge)) (ge_seed ge) (tb_max_hops (ge_budget ge)) \<and>
           get_node (ge_graph ge) i = Some c \<and> tn_content t = ''Concept-graph evidence: '' @ cn_label c)))"
proof -
  let ?s = "\<lparr>mt_ids = 1, mt_calls = 0\<rparr>" and ?r = "gh_ids h 0"
  obtain plan g0 where p: "got_plan_root ?r now q thought_graph_new = (plan, g0)" by (cases "got_plan_root ?r now q thought_graph_new")
  obtain full g s2 where x: "run_expansion (graph_expand fm h ge) plan q g0 ?s = (full, g, s2)"
    by (cases "run_expansion (graph_expand fm h ge) plan q g0 ?s") auto
  note g = grounded_expansion [OF assms(2) p x]
  obtain res where ev: "got_evaluate gm stack g = Some (Inr res)" "evaluated gm g ?r res"
    using got_evaluate_exact [OF g(1-3), of stack gm] g(4) assms(3) by auto
  have r: "r = Some (Inr (g, res\<lparr>gr_budget_exhausted := full\<rparr>))"
    using assms(4) p x ev(1) by (simp add: got_execute_def execute_from_plan_def)
  have e: "evaluated gm g ?r (res\<lparr>gr_budget_exhausted := full\<rparr>)" using ev(2) by (simp add: evaluated_def)
  note c = evaluated_covers [OF e g(1,2)]
  have "\<forall>t \<in> ran (tg_nodes g). t = got_root ?r now q \<or> grounded ge t" using g(5) by blast
  then show ?thesis using r g(4) c e assms(1) unfolding grounded_def evaluated_def by blast
qed

section \<open>Thoughts inserted again\<close>

text \<open>
  The graph is documented as acyclic by construction, but a child whose id is already in the graph is
  connected below its parents without being new. Then the recursion that collects the paths does not
  end, however deep the stack: a table that offers the question itself as a child makes the call
  overflow the stack.
\<close>

lemma fold_option_None: "x \<in> set xs \<Longrightarrow> (\<And>y. f x y = None) \<Longrightarrow> fold_option f xs y = None"
  by (induction xs arbitrary: y) (auto split: option.splits)

lemma self_loop_diverges:
  assumes "tg_nodes g i = Some n" and "ce \<in> set (children_of g i)" and "fst ce = i"
  shows "collect_paths stack g i current out = None"
proof (induction stack arbitrary: current out)
  case (Suc stack)
  have "fold_option (\<lambda>kid. collect_paths stack g (fst kid) (current @ [n])) (children_of g i) out = None"
    by (rule fold_option_None [OF assms(2)]) (simp add: assms(3) Suc.IH)
  then show ?case using assms(1,2) by (auto simp: Let_def)
qed simp

definition again :: thought_node where
  "again = with_parents [1] (thought_new 1 0 ''again'' Refinement f64_1 7)"

lemma reinserted_thought_diverges:
  assumes "q = got_with_budget 1 1 2 (with_strategy BreadthFirst (got_query_new ''why'' 7))"
    and "got_plan_root 1 0 q thought_graph_new = (plan, g)"
  shows "fst (execute_from_plan gm stack (static_expand (static_register 1 [(again, TeRefines)] Map.empty)) plan q g ()) = None"
proof -
  let ?e = "static_expand (static_register 1 [(again, TeRefines)] Map.empty)"
  let ?g = "\<lparr>tg_nodes = [1 \<mapsto> got_root 1 0 q], tg_children = [1 \<mapsto> [(1, TeRefines)]], tg_order = [1], tg_root = Some 1\<rparr> :: thought_graph"
  have q: "gq_max_depth q = 1" "gq_max_branches q = 1" "gq_max_nodes q = 2" "gq_strategy q = BreadthFirst"
    unfolding assms(1) by (simp_all add: got_with_budget_def with_strategy_def got_query_new_def)
  have t: "tn_id (got_root 1 0 q) = 1" "tn_id again = 1" "tn_parent_ids again = [1]"
    by (simp_all add: got_root_def thought_new_def again_def with_parents_def)
  have g: "plan = \<lparr>gp_root = 1, gp_sub_questions = []\<rparr>"
    "g = \<lparr>tg_nodes = [1 \<mapsto> got_root 1 0 q], tg_children = [1 \<mapsto> []], tg_order = [1], tg_root = Some 1\<rparr>"
    using assms(2) t(1) by (auto simp: got_plan_root_def tg_add_def thought_graph_new_def set_root_def)
  have c: "connect_child again TeRefines g = (Inr 1, ?g)"
    by (simp add: connect_child_def tg_add_def t g push_child_def)
  have "add_children q 1 0 0 [(again, TeRefines)] g [] = (False, ?g, [(1, 1)])"
    using c by (simp add: q t Let_def tg_len_def) (simp add: g)
  moreover have "expansion_loop ?e q [] ?g () = (False, ?g, ())"
    by (subst expansion_loop.simps) (simp add: pop_next_def deque_remove_def q)
  then have "expansion_loop ?e q [(1, 1)] ?g () = (False, ?g, ())"
    by (subst expansion_loop.simps) (simp add: pop_next_def deque_remove_def remove_at_def q)
  ultimately have "expansion_loop ?e q [(1, 0)] g () = (False, ?g, ())"
    by (subst expansion_loop.simps)
      (simp add: pop_next_def deque_remove_def remove_at_def q static_expand_def static_register_def t tg_len_def g)
  then have "run_expansion ?e plan q g () = (False, ?g, ())" unfolding run_expansion_def g(1) by simp
  moreover have "got_evaluate gm stack ?g = None"
    using self_loop_diverges [of ?g 1 "got_root 1 0 q" "(1, TeRefines)" stack "[]" "[]"]
    by (simp add: got_evaluate_def tg_is_empty_def tg_len_def children_of_def)
  ultimately show ?thesis by (simp add: execute_from_plan_def)
qed


section \<open>Witnesses\<close>

definition sample_host :: got_host where
  "sample_host = \<lparr>gh_ids = of_nat, gh_now = (\<lambda>_. 0), gh_trav = (\<lambda>_. sample_clock)\<rparr>"

definition sample_got_query :: got_query where
  "sample_got_query = got_with_budget 1 1 2 (got_query_new ''why'' 9)"

theorem grounded_reasoning_exact_witness:
  "\<forall>gm fm. \<exists>g res. fst (got_execute gm 2 0 0 (graph_expand fm sample_host (graph_expander_new sample_graph 1 9)) sample_got_query
      \<lparr>mt_ids = 1, mt_calls = 0\<rparr>) = Some (Inr (g, res)) \<and> tg_len g \<le> 2 \<and>
    sp_thoughts ` set (gr_all_paths res) = {ns. leaf_path g 0 ns}"
proof (intro allI)
  fix gm fm
  let ?ge = "graph_expander_new sample_graph 1 9"
  let ?x = "got_execute gm 2 (gh_ids sample_host 0) 0 (graph_expand fm sample_host ?ge) sample_got_query \<lparr>mt_ids = 1, mt_calls = 0\<rparr>"
  have q: "gq_max_branches sample_got_query = 1" "gq_max_depth sample_got_query = 1" "gq_max_nodes sample_got_query = 2"
    by (simp_all add: sample_got_query_def got_with_budget_def got_query_new_def)
  have h: "gh_ids sample_host 0 = 0" "gh_ids sample_host = of_nat" by (simp_all add: sample_host_def)
  have "graph_reachable (ge_graph ?ge)" by (simp add: graph_expander_new_def sample_reachable)
  moreover have "inj_on (gh_ids sample_host) {..<1 + (gq_max_branches sample_got_query + 1) ^ gq_max_depth sample_got_query * gq_max_branches sample_got_query}"
    unfolding q h(2) by (simp add: lessThan_Suc numeral_eq_Suc)
  moreover have m: "max 1 (gq_max_nodes sample_got_query) = 2" by (simp add: q)
  then have "max 1 (gq_max_nodes sample_got_query) \<le> 2" by simp
  moreover have "?x = (fst ?x, snd ?x)" by simp
  ultimately have "\<exists>g res. fst ?x = Some (Inr (g, res)) \<and> tg_len g \<le> max 1 (gq_max_nodes sample_got_query) \<and>
      sp_thoughts ` set (gr_all_paths res) = {ns. leaf_path g (gh_ids sample_host 0) ns}"
    by (rule exE [OF grounded_reasoning_exact]) blast
  then show "\<exists>g res. fst (got_execute gm 2 0 0 (graph_expand fm sample_host ?ge) sample_got_query
      \<lparr>mt_ids = 1, mt_calls = 0\<rparr>) = Some (Inr (g, res)) \<and> tg_len g \<le> 2 \<and>
    sp_thoughts ` set (gr_all_paths res) = {ns. leaf_path g 0 ns}"
    unfolding h(1) m .
qed

end
