(* ===== verification/Spec2Isabelle.thy ===== *)
theory Spec2Isabelle
  imports Sync_Relay Permission_Check Tenant_Registry Audit_Persist
    User_Memory Working_Memory Channel_Memory Agent_Contract Concept_Update Export_Plane
    Failover Scope_Forgetting Tee_Worker Reason_Thought
begin

text \<open>
  \<^bold>\<open>A verification development for the knowledge substrate.\<close>

  The program is a Rust workspace for a local-first knowledge store: devices keep replicas of a
  scope's objects, reconcile them through an untrusted relay, decide accesses over relation
  tuples, administer tenants and members, record what happened in an audit log, age and forget
  memories, take proposals from agents, keep a graph of concepts, and export what policy allows.
  This development models the parts that carry that core logic and proves what makes them correct. All
  definitions are translated from the sources under \<^verbatim>\<open>src/crates\<close>, one per function, with the
  source's names (prefixed by the type where several types share a method name).

  \<^bold>\<open>How the parts interact.\<close> A \<^emph>\<open>sync engine\<close> owns an \<^emph>\<open>op log\<close>; replaying the log gives an
  \<^emph>\<open>add-wins set\<close>. Two engines exchange \<^emph>\<open>deltas\<close> (operations past a watermark), sealed by a \<^emph>\<open>sync
  client\<close> and carried by a \<^emph>\<open>transport\<close>: an in-memory buffer, or HTTP to the \<^emph>\<open>relay\<close>, which sees
  only tenant tokens, topic identifiers and ciphertext. The \<^emph>\<open>permission service\<close> answers whether a
  subject holds a relation on an object, by a walk over stored tuples and configured inheritance.
  The \<^emph>\<open>tenant service\<close> keeps the tenants' life cycles and members; its roles are the permission
  service's relations. The \<^emph>\<open>audit service\<close> appends numbered entries to an indexed log and mirrors
  them to an encrypted table. The \<^emph>\<open>memory manager\<close> scores memory objects, moves them through a
  state machine by sweeps, policies and user commands, and purges them; user, working and channel
  memories are containers over it. The \<^emph>\<open>agent contract\<close> validates what agents propose and promotes
  it, by policy or by a human, to canonical artifacts. The \<^emph>\<open>concept graph\<close> holds concepts and typed
  relations, is projected from memory objects, and computes what a change affects. The \<^emph>\<open>export
  plane\<close> approves canonical concepts of the graph under a control registry and decides by policy
  what a profile shows outside. The \<^emph>\<open>substrate server\<close> replicates its database: a primary ships the
  committed frames of the write-ahead log over a bus, standbys splice them into their files, and
  coordinators compete for a lease that says who is primary. \<^emph>\<open>Forgetting\<close> a scope destroys its data
  keys and leaves tombstones that are replayed whenever the store is opened. \<^emph>\<open>Synthesis\<close> condenses
  objects upwards: an elected device, or the server's engine behind a batcher and a rate limiter,
  claims a window of a scope, summarises the outputs of the tier below, and publishes the summary in
  an envelope; a confidential worker runs the same calls behind an attestation. Domain and tenant
  memories hold what may be fed to it. \<^emph>\<open>Reasoning\<close> plans a query as a chain of retrieval modes, walks the
  concept graph within budgets, and learns patterns from the traces of earlier queries.

  \<^bold>\<open>Theories and what they model.\<close>

  \<^item> \<open>Knowledge_Prelude\<close>: machine types, saturating arithmetic, the host environment (hash iteration
    order, clock, the one floating-point test), codecs, shared lemmas, theorem collections.
  \<^item> \<open>Add_Wins_Set\<close> (\<^verbatim>\<open>sync_engine/src/crdt.rs\<close>): record \<open>add_wins_set\<close>, operations \<open>aws_*\<close>. The set
    is a join semilattice, hence replicas converge; an addition concurrent with a removal wins.
  \<^item> \<open>Op_Log\<close> (\<^verbatim>\<open>op_log.rs\<close>): record \<open>op_log\<close>, recording, merging, compaction, replay, the on-disk
    form. Merged logs converge, merging refines the join of the replayed sets, compaction keeps
    what is observable.
  \<^item> \<open>Sync_Engine\<close> (\<^verbatim>\<open>lib.rs\<close>): record \<open>sync_engine\<close> with its replay cache and compaction policy;
    every public operation, snapshots and bootstrapping. \<open>engine_reach\<close> collects the engines any
    calls can build; the cache is transparent on them, and commands refine \<open>spec_exec\<close>.
  \<^item> \<open>Delta_Sync\<close> (\<^verbatim>\<open>delta.rs\<close>): envelopes, encoding past a watermark, applying, the epoch guard.
  \<^item> \<open>Crypto_Primitives\<close> (\<^verbatim>\<open>crypto/src/aead.rs\<close>, \<^verbatim>\<open>kdf.rs\<close>): the wrappers over the cipher and the
    key derivation, which are parameters.
  \<^item> \<open>Sync_Transport\<close> (\<^verbatim>\<open>transport.rs\<close>): topics, sealing, the client's push, pull and sync, the
    in-memory transport. Locales \<open>blob_log\<close> (what a transport's storage promises) and
    \<open>client_transport\<close> (what a client needs), interpreted on the in-memory transport here and on
    the relay in \<open>Sync_Relay\<close>.
  \<^item> \<open>Sync_Relay\<close> (\<^verbatim>\<open>sync_relay/src\<close>): blob store with limits, token registry, both handlers,
    routing, body limits, the HTTP client. Tenant isolation, append-only storage, exhaustive
    responses, and the HTTP transport as a refinement of the store.
  \<^item> \<open>Permission_Store\<close>, \<open>Permission_Check\<close> (\<^verbatim>\<open>permission_service/src\<close>): tuples, namespaces and their
    closure, the indexed tuple store, the walk. Locale \<open>tuple_source\<close> states what the walk needs of
    a store. The decision is exactly the inductive relation \<open>holds\<close>.
  \<^item> \<open>Lifecycle\<close>, \<open>Tenant_Registry\<close> (\<^verbatim>\<open>tenant_service/src\<close>): locale \<open>lifecycle\<close> of status machines with
    terminal states; the registry's records, every command with its guards, rehydration.
  \<^item> \<open>Audit_Log\<close>, \<open>Audit_Persist\<close> (\<^verbatim>\<open>audit_service/src\<close>): entries and builder, the log with four
    secondary indexes, queries, helpers; the table, persist-first appends with failing database
    calls, loading and opening.
  \<^item> \<open>Time_And_Float\<close>: durations, \<^verbatim>\<open>f64\<close> comparisons on bit patterns (exact) and floating-point
    arithmetic (a parameter), \<^verbatim>\<open>u32\<close> saturation, JSON values, iteration idioms.
  \<^item> \<open>Memory_Object\<close>, \<open>Retention\<close>, \<open>Memory_Policy\<close> (\<^verbatim>\<open>memory_manager/src\<close>: \<^verbatim>\<open>object.rs\<close>, \<^verbatim>\<open>state.rs\<close>,
    \<^verbatim>\<open>transitions.rs\<close>, \<^verbatim>\<open>retention.rs\<close>, \<^verbatim>\<open>policy.rs\<close>, \<^verbatim>\<open>decay.rs\<close>, \<^verbatim>\<open>purge.rs\<close>): the record
    \<open>memory_object\<close>, its state machine (an interpretation of \<open>lifecycle\<close>), scores, the policy engine
    and the sweeps. Commands and sweeps stay on the edges of the machine, scores stay in their
    band whatever the arithmetic, a legal hold freezes its scope, reports count exactly.
  \<^item> \<open>User_Memory\<close>, \<open>Working_Memory\<close>, \<open>Channel_Memory\<close> (\<^verbatim>\<open>user_memory.rs\<close>, \<^verbatim>\<open>working_memory.rs\<close>,
    \<^verbatim>\<open>channel_memory.rs\<close>): pinning and forgetting; the bounded window with its eviction; decisions,
    tasks and questions with deduplication and their sweep.
  \<^item> \<open>Agent_Contract\<close> (\<^verbatim>\<open>agent_contract/src\<close>: \<^verbatim>\<open>proposal.rs\<close>, \<^verbatim>\<open>schema.rs\<close>, \<^verbatim>\<open>lifecycle.rs\<close>): proposals,
    validation, the store and its commands. Locale \<open>payload_kind\<close> states what submission needs of a
    kind of payload and is interpreted on all four. Stored proposals stay valid, terminal ones do
    not change, a critical one needs a human.
  \<^item> \<open>Concept_Graph\<close>, \<open>Concept_Traversal\<close>, \<open>Concept_Update\<close> (\<^verbatim>\<open>concept_graph/src\<close>: \<^verbatim>\<open>node.rs\<close>, \<^verbatim>\<open>edge.rs\<close>,
    \<^verbatim>\<open>graph.rs\<close>, \<^verbatim>\<open>incremental.rs\<close>, \<^verbatim>\<open>projection.rs\<close>): the graph with two adjacency indexes as a step
    relation \<open>graph_step\<close> with invariant \<open>graph_inv\<close>; breadth-first traversal equal to the ball of
    typed paths, in order of distance; affected subgraph, recomputation and propagation equal to
    their relational descriptions; the projection of memories.
  \<^item> \<open>Export_Policy\<close>, \<open>Export_Plane\<close> (\<^verbatim>\<open>export_plane/src\<close>): profiles, constraints, the policy engine
    equal to a rule set; the control registry as three interpretations of the locale
    \<open>control_table\<close>; the approval workflow over histories; the simulator's preview.
  \<^item> \<open>Wal_Format\<close>, \<open>Wal_Replication\<close>, \<open>Failover\<close> (\<^verbatim>\<open>substrate_server/src/replication\<close>): the log format with
    its checksum chain and the segments on the wire (locale \<open>byte_field\<close> for their integers), the
    shipper, the primary's and the standby's rounds over a file of bytes, the lease and the
    coordinator. A log cut anywhere parses to its whole frames, shipping is exact, what is committed
    reaches the standby's file; the step relation \<open>cluster_step\<close> of coordinators with crashes, lost
    requests and lost answers keeps at most one live primary and fences the others by epoch.
  \<^item> \<open>Btree_Map\<close>, \<open>Key_Forgetting\<close> (\<^verbatim>\<open>crypto/src/forgetting.rs\<close>), \<open>Scope_Forgetting\<close> (the key tables of
    \<^verbatim>\<open>evidence_store/src/store.rs\<close> and their use in \<^verbatim>\<open>ffi/src/runtime.rs\<close> and \<^verbatim>\<open>ffi/src/lib.rs\<close>): keys
    per scope and epoch, the registry, destruction with a persistence hook (locale
    \<open>tombstone_hook\<close>, interpreted on the evidence store), epoch rotation, registering, forgetting and
    reopening scopes, rotation of the master key. Destruction is complete, forgetting is durable
    over processes with failing databases, keys survive restarts and rotations.
  \<^item> \<open>Scope_Memory\<close> (\<^verbatim>\<open>memory_manager/src\<close>: \<^verbatim>\<open>domain_memory.rs\<close>, \<^verbatim>\<open>tenant_memory.rs\<close>): the containers of a
    domain and of a tenant. The sweep of a domain drops exactly what was closed too long ago; what a
    tenant holds is only ever deprecated.
  \<^item> \<open>Synth_Election\<close>, \<open>Synth_Window\<close> (\<^verbatim>\<open>synthesis_pipeline/src\<close>: \<^verbatim>\<open>election.rs\<close>, \<^verbatim>\<open>window.rs\<close>, \<^verbatim>\<open>object.rs\<close>,
    \<^verbatim>\<open>hierarchy.rs\<close>, \<^verbatim>\<open>publish.rs\<close>): the election of a synthesizer is the maximum of the documented order;
    the window manager with its index and life cycle (an interpretation of \<open>lifecycle\<close>) over
    \<open>window_reach\<close>; the typed inputs admit exactly the tier below; envelopes open to what was sealed.
  \<^item> \<open>Utf8_Text\<close>, \<open>Synth_Engine\<close> (\<^verbatim>\<open>synthesis_engine/src\<close>: \<^verbatim>\<open>rate_limiter.rs\<close>, \<^verbatim>\<open>managed_endpoint.rs\<close>,
    \<^verbatim>\<open>stub.rs\<close>, \<^verbatim>\<open>batcher.rs\<close>): text as scalar values with its UTF-8 form; the limiter on 64-bit words, the
    endpoint's calls, the batcher over \<open>batcher_reach\<close>. Locale \<open>window_synthesizer\<close> states what an engine
    promises about its window; it is interpreted on the endpoint, the stub and the confidential
    worker, and gives that no window is synthesised twice.
  \<^item> \<open>Tee_Worker\<close> (\<^verbatim>\<open>tee_worker.rs\<close>, \<^verbatim>\<open>crypto/src/attestation.rs\<close>): reports, the life cycle of an
    attestation, staging through pinned pages, and the step relation \<open>tee_step\<close> that interleaves the
    critical sections of threads. Admitted calls are attested in every interleaving, real platforms
    fail closed, and a call refines the endpoint's.
  \<^item> \<open>Reason_Traversal\<close>, \<open>Reason_Plan\<close> (\<^verbatim>\<open>reasoning_engine/src\<close>: \<^verbatim>\<open>traversal.rs\<close>, \<^verbatim>\<open>planner.rs\<close>,
    \<^verbatim>\<open>workflow.rs\<close>, \<^verbatim>\<open>error.rs\<close>): the budgeted traversal of the concept graph, which always returns walks of
    the graph within its budgets and, when only the hops bind, exactly the shortest ones; the classifier,
    the chains of retrieval modes and the execution of a plan up to its first success; the recorder of
    traces and the patterns, which partition the traces.
  \<^item> \<open>Reason_Thought\<close> (\<^verbatim>\<open>graph_of_thought.rs\<close>): the graph of thoughts, the expanders, the strategies, the
    expansion loop and the evaluation. Locale \<open>fresh_expander\<close> states what the executor needs of an expander
    and is interpreted on the one that draws evidence from the concept graph; then the graph stays
    acyclic, the call returns, and its paths are exactly those from the question to the leaves.

  \<^bold>\<open>Conventions.\<close> A method that mutates its receiver returns the new state; a \<^verbatim>\<open>Result\<close> is a sum with
  the error on the left; a panic is \<open>None\<close>. Random identifiers, nonces and clock readings are
  arguments. A \<^verbatim>\<open>HashMap\<close> is a map, a \<^verbatim>\<open>HashSet\<close> a set, and where the source iterates over one the
  order is an argument or a field of \<open>host\<close>. Lengths and counters are natural numbers with the
  64-bit saturation of the sources written out (\<open>sat_add\<close>, \<open>sat_mul\<close>); where a theorem needs a
  counter below its bound, that is a hypothesis. UUIDs and bytes are words. Third-party code (the
  cipher, the key derivation, the JSON codec, HTTP header parsing, the database engine) is a
  parameter; \<open>aead_ok\<close>, \<open>kdf_ok\<close> and \<open>codec_ok\<close> state what its documentation promises. Only
  the recursion over the paths of a thought graph has a bound, the depth of the stack it may use; a
  depth of the number of thoughts is enough on an acyclic graph and no depth is on a cyclic one. Other
  loops are structural, or have a termination proof (the closure of a namespace shrinks
  the unseen relations; the permission walk and the graph walks shrink the unvisited part of a
  finite store), or are a \<open>partial_function\<close> shown to return (the eviction loop of the working
  memory). A duration is a signed number of nanoseconds; the overflow panics of the date library
  some 262 000 years away are outside the model.

  \<^bold>\<open>What is not modelled.\<close> Locks and tasks of the servers (handlers are atomic steps, as under the
  store's lock), the SQL of the sync engine's, permission service's and tenant service's
  persistence (of the latter only the reload order), zeroisation of keys except as a returned
  buffer, the connectors and the connector framework, language bindings, inference and entity
  recognition, evidence storage except its key tables (SQL), demonstration and simulation programs. Of the memory manager
  the episodic container, metrics and the privacy filter, of the concept graph the SQL persistence and
  the drawing of graphs, of the replication the adapters to the message broker, of synthesis the
  prompts, the quality heuristics, the HTTPS adapter and the parser of platform documents, of reasoning
  the detection of contradictions and drift and the communities, and observation are not modelled.
\<close>

section \<open>Properties that span components\<close>

text \<open>
  C18. A domain summary on its way up: when the confidential worker returns an object, the scope was bound
  to it, one request went to the endpoint and the object carries the endpoint's text for the domain, the
  window is complete; the envelope published under the scope's key opens to the same object, and a
  tenant's synthesis takes it exactly when the domain is registered on the tenant.
\<close>

theorem domain_summary_travels_up:
  assumes "aead_ok lib" and "codec_ok to_vec from_slice"
    and call: "tee_synthesize_domain bl cfg now x handle input w m = (Inr obj, d, w1, m1)"
    and publish: "publish_synthesis_object lib to_vec nonce obj key = Inr enc"
  shows "di_domain_scope input \<in> set (tc_scope_bindings cfg) \<and> so_scope_id obj = di_domain_scope input \<and>
    (\<exists>resp. sx_send x (length (hs_sent (tw_synth w))) (hs_cfg (tw_synth w)) (domain_request (tw_synth w) input) = Inr resp \<and>
       hs_sent (tw_synth w1) = hs_sent (tw_synth w) @ [domain_request (tw_synth w) input] \<and>
       so_payload obj = utf8_encode (rp_output_text resp)) \<and>
    map_option sw_status (get_window (th_window_id handle) m1) = Some WComplete \<and>
    consume_synthesis_object lib from_slice enc key = Inr obj \<and>
    (\<exists>out. from_domain_object obj = Inr out \<and>
       (\<forall>t tenant. (\<exists>ti. tenant_input_new t tenant [out] [] = Inr ti) \<longleftrightarrow>
          di_domain_scope input \<in> set (tm_domain_scopes tenant)))"
proof -
  note adm = tee_call_admitted [OF call]
  note out = synthesize_domain_cases [OF adm [THEN conjunct1], THEN conjunct1]
  let ?sent = "hs_sent (tw_synth w)" and ?req = "domain_request (tw_synth w) input"
  have ne: "hs_sent (tw_synth w1) \<noteq> ?sent" using out by (auto simp: synth_outcome_def)
  obtain resp where resp: "sx_send x (length ?sent) (hs_cfg (tw_synth w)) ?req = Inr resp"
    using out ne by (cases "sx_send x (length ?sent) (hs_cfg (tw_synth w)) ?req") (simp_all add: synth_outcome_def)
  have r: "hs_sent (tw_synth w1) = ?sent @ [?req]" "claimable (th_window_id handle) m"
    "obj = build_domain_summary_object (sx_fresh x) (sx_created x) (di_domain_scope input) (th_window_id handle)
       (utf8_encode (rp_output_text resp)) (hs_provenance_ref (tw_synth w))"
    "m1 = put_status (th_window_id handle) WComplete m"
    using out ne resp by (simp_all add: synth_outcome_def split: if_splits)
  have obj: "so_scope_id obj = di_domain_scope input" "so_object_type obj = DomainSummary"
      "so_payload obj = utf8_encode (rp_output_text resp)"
    by (simp_all add: r(3) build_domain_summary_object_def synthesis_object_new_def synthesis_object_with_version_def)
  have sent: "\<exists>resp. sx_send x (length (hs_sent (tw_synth w))) (hs_cfg (tw_synth w)) (domain_request (tw_synth w) input) = Inr resp \<and>
       hs_sent (tw_synth w1) = hs_sent (tw_synth w) @ [domain_request (tw_synth w) input] \<and>
       so_payload obj = utf8_encode (rp_output_text resp)"
    using resp r(1) obj(3) by blast
  have complete: "map_option sw_status (get_window (th_window_id handle) m1) = Some WComplete"
    using r(2,4) by (auto simp: claimable_def)
  have up: "\<exists>out. from_domain_object obj = Inr out \<and>
      (\<forall>t tenant. (\<exists>ti. tenant_input_new t tenant [out] [] = Inr ti) \<longleftrightarrow> di_domain_scope input \<in> set (tm_domain_scopes tenant))"
    using obj by (simp add: from_domain_object_def tenant_input_new_Inr)
  show ?thesis
    by (intro conjI) (rule adm [THEN conjunct2], rule obj(1), rule sent, rule complete,
      rule consume_published [OF assms(1,2) publish], rule up)
qed

definition sample_summary :: synthesis_object where
  "sample_summary = build_domain_summary_object 20 0 9 7 (utf8_encode (lit ''ok'')) 0"

definition sample_attested_worker :: tee_worker where
  "sample_attested_worker = \<lparr>tw_state = mock_state False 1, tw_synth = sample_synthesizer, tw_working_set = sample_ws\<rparr>"

lemma sample_tee_call:
  "fst (tee_synthesize_domain sample_blake (sample_tee MockPlatform) 0 sample_synth_env sample_handle sample_input
     sample_attested_worker sample_manager) = Inr sample_summary"
proof -
  obtain dg ws where st: "stage_and_hash sample_blake (domain_payloads sample_input) sample_ws = (dg, ws)" by force
  have "fst (synthesize_domain sample_synth_env sample_handle sample_input sample_synthesizer sample_manager) = Inr sample_summary"
    by (simp add: sample_call_defs Let_def sample_summary_def)
  moreover have "di_domain_scope sample_input = 9" by (simp add: sample_input_def)
  ultimately show ?thesis
    using st
    by (cases "synthesize_domain sample_synth_env sample_handle sample_input sample_synthesizer sample_manager")
      (simp add: tee_synthesize_domain_def sample_attested_worker_def sample_enter [simplified])
qed

theorem domain_summary_travels_up_witness:
  "case publish_synthesis_object tag_lib (\<lambda>obj. if obj = sample_summary then Some [7] else None) (replicate 24 3)
      sample_summary (replicate 32 5) of
     Inl _ \<Rightarrow> False
   | Inr enc \<Rightarrow> consume_synthesis_object tag_lib (\<lambda>_. Some sample_summary) enc (replicate 32 5) = Inr sample_summary"
proof -
  let ?to = "\<lambda>obj. if obj = sample_summary then Some [7] else None"
  obtain d w1 m1 where c: "tee_synthesize_domain sample_blake (sample_tee MockPlatform) 0 sample_synth_env sample_handle
      sample_input sample_attested_worker sample_manager = (Inr sample_summary, d, w1, m1)"
    using sample_tee_call by (metis prod.exhaust fst_conv)
  have "codec_ok ?to (\<lambda>_. Some sample_summary)" by (simp add: codec_ok_def)
  moreover obtain enc where enc: "publish_synthesis_object tag_lib ?to (replicate 24 3) sample_summary (replicate 32 5) = Inr enc"
    by (simp add: publish_synthesis_object_def encrypt_aead_def tag_lib_def del: replicate.simps)
  ultimately have "consume_synthesis_object tag_lib (\<lambda>_. Some sample_summary) enc (replicate 32 5) = Inr sample_summary"
    using domain_summary_travels_up [OF tag_lib_ok(1) _ c] by blast
  then show ?thesis unfolding enc by simp
qed

end
